(* ===== verification/Pkg_Prelude.thy ===== *)
theory Pkg_Prelude
  imports Main "HOL-Library.Char_ord" "HOL-Library.List_Lexorder" "HOL-Library.Option_ord"
    "HOL-Library.Product_Lexorder"
begin

text \<open>
  Shared ground of the development: Python's exceptions as values, the string operations of the
  Python library that the modelled code calls (\<open>find\<close>, \<open>rfind\<close>, slicing, \<open>split\<close>, \<open>rstrip\<close>,
  \<open>int\<close>), and the interface of an order that is given by a sort key.

  A Python \<open>str\<close> is a \<open>string\<close>: a list of code points in the range 0..255.  Python's \<open>int\<close> is
  unbounded and is HOL's \<open>int\<close>.  A raised exception is an \<open>Inl\<close>, a returned value an \<open>Inr\<close>.
\<close>

section \<open>Exceptions and the result type\<close>

datatype py_exn =
    ValueError
  | TypeError
  | KeyError string
  | IndexError
  | AttributeError
  | AssertionError
  | OverflowError
  | UnicodeEncodeError
  | RuntimeError

named_theorems res_simps \<open>equations about sequencing of results\<close>
named_theorems str_simps \<open>equations about the string operations\<close>

definition sbind :: "'e + 'a \<Rightarrow> ('a \<Rightarrow> 'e + 'b) \<Rightarrow> 'e + 'b" where
  "sbind r f = (case r of Inl e \<Rightarrow> Inl e | Inr a \<Rightarrow> f a)"

definition of_option :: "'e \<Rightarrow> 'a option \<Rightarrow> 'e + 'a" where
  "of_option e x = (case x of None \<Rightarrow> Inl e | Some a \<Rightarrow> Inr a)"

fun smap :: "('a \<Rightarrow> 'e + 'b) \<Rightarrow> 'a list \<Rightarrow> 'e + 'b list" where
  "smap f [] = Inr []"
| "smap f (x # xs) = sbind (f x) (\<lambda>y. sbind (smap f xs) (\<lambda>ys. Inr (y # ys)))"

lemma sbind_simps [simp, res_simps]:
  "sbind (Inl e) f = Inl e"
  "sbind (Inr a) f = f a"
  by (simp_all add: sbind_def)

lemma sbind_eq_Inr [res_simps]: "sbind r f = Inr b \<longleftrightarrow> (\<exists>a. r = Inr a \<and> f a = Inr b)"
  by (cases r) simp_all

lemma sbind_eq_Inl [res_simps]:
  "sbind r f = Inl e \<longleftrightarrow> r = Inl e \<or> (\<exists>a. r = Inr a \<and> f a = Inl e)"
  by (cases r) simp_all

lemma of_option_simps [simp, res_simps]:
  "of_option e None = Inl e"
  "of_option e (Some a) = Inr a"
  by (simp_all add: of_option_def)

lemma of_option_eq_Inr [res_simps]: "of_option e x = Inr a \<longleftrightarrow> x = Some a"
  by (cases x) simp_all

lemma find_SomeD: "find P xs = Some x \<Longrightarrow> x \<in> set xs \<and> P x"
  by (induction xs) (auto split: if_splits)

lemma those_eq_Some: "those xs = Some ys \<longleftrightarrow> xs = map Some ys"
proof (induction xs arbitrary: ys)
  case Nil
  then show ?case by auto
next
  case (Cons x xs)
  then show ?case by (cases x; cases ys) auto
qed

section \<open>Characters\<close>

definition code :: "char \<Rightarrow> nat" where
  "code c = of_char c"

definition is_digit :: "char \<Rightarrow> bool" where
  "is_digit c \<longleftrightarrow> 48 \<le> code c \<and> code c \<le> 57"

definition digit_val :: "char \<Rightarrow> nat" where
  "digit_val c = code c - 48"

definition is_alnum :: "char \<Rightarrow> bool" where
  "is_alnum c \<longleftrightarrow> is_digit c \<or> (65 \<le> code c \<and> code c \<le> 90) \<or> (97 \<le> code c \<and> code c \<le> 122)"

text \<open>\<open>str.isspace\<close> (which \<open>rstrip\<close> uses) and the white space that \<open>int\<close> skips.\<close>

definition is_space :: "char \<Rightarrow> bool" where
  "is_space c \<longleftrightarrow> (9 \<le> code c \<and> code c \<le> 13) \<or> (28 \<le> code c \<and> code c \<le> 32)
     \<or> code c = 133 \<or> code c = 160"

definition is_int_space :: "char \<Rightarrow> bool" where
  "is_int_space c \<longleftrightarrow> (9 \<le> code c \<and> code c \<le> 13) \<or> code c = 32
     \<or> code c = 133 \<or> code c = 160"

section \<open>Python string operations\<close>

text \<open>\<open>s.find(c)\<close> with \<open>-1\<close> as \<open>None\<close>; \<open>s.find(c, lo, hi)\<close>; \<open>s.rfind(c)\<close>.\<close>

fun py_find :: "char \<Rightarrow> string \<Rightarrow> nat option" where
  "py_find c [] = None"
| "py_find c (x # xs) = (if x = c then Some 0 else map_option Suc (py_find c xs))"

definition py_slice :: "string \<Rightarrow> nat option \<Rightarrow> nat option \<Rightarrow> string" where
  "py_slice s lo hi =
     drop (case lo of None \<Rightarrow> 0 | Some i \<Rightarrow> i) (case hi of None \<Rightarrow> s | Some j \<Rightarrow> take j s)"

definition py_find_in :: "char \<Rightarrow> string \<Rightarrow> nat \<Rightarrow> nat option \<Rightarrow> nat option" where
  "py_find_in c s lo hi = map_option (\<lambda>i. i + lo) (py_find c (py_slice s (Some lo) hi))"

definition py_rfind :: "char \<Rightarrow> string \<Rightarrow> nat option" where
  "py_rfind c s = map_option (\<lambda>i. length s - 1 - i) (py_find c (rev s))"

definition starts_with :: "string \<Rightarrow> string \<Rightarrow> bool" where
  "starts_with s p \<longleftrightarrow> take (length p) s = p"

definition ends_with :: "string \<Rightarrow> string \<Rightarrow> bool" where
  "ends_with s p \<longleftrightarrow> starts_with (rev s) (rev p)"

definition rstrip :: "string \<Rightarrow> string" where
  "rstrip s = rev (dropWhile is_space (rev s))"

fun split_on :: "char \<Rightarrow> string \<Rightarrow> string list" where
  "split_on c [] = [[]]"
| "split_on c (x # xs) =
     (if x = c then [] # split_on c xs
      else (case split_on c xs of [] \<Rightarrow> [[x]] | h # t \<Rightarrow> (x # h) # t))"

fun join_with :: "char \<Rightarrow> string list \<Rightarrow> string" where
  "join_with c [] = []"
| "join_with c [s] = s"
| "join_with c (s # t # ts) = s @ c # join_with c (t # ts)"

text \<open>
  \<open>int(s)\<close>: white space around an optional sign and decimal digits, single underscores between
  digits, at most \<open>sys.int_info.default_max_str_digits\<close> = 4300 digits.
\<close>

fun num_scan :: "bool \<Rightarrow> nat \<Rightarrow> nat \<Rightarrow> string \<Rightarrow> (nat \<times> nat) option" where
  "num_scan prev acc n [] = (if prev then Some (acc, n) else None)"
| "num_scan prev acc n (c # cs) =
     (if is_digit c then num_scan True (10 * acc + digit_val c) (Suc n) cs
      else if c = CHR ''_'' \<and> prev then num_scan False acc n cs
      else None)"

definition int_strip :: "string \<Rightarrow> string" where
  "int_strip s = rev (dropWhile is_int_space (rev (dropWhile is_int_space s)))"

definition py_int :: "string \<Rightarrow> int option" where
  "py_int s =
     (let t = int_strip s;
          neg = (t \<noteq> [] \<and> hd t = CHR ''-'');
          body = (if t \<noteq> [] \<and> (hd t = CHR ''-'' \<or> hd t = CHR ''+'') then tl t else t)
      in case num_scan False 0 0 body of
           None \<Rightarrow> None
         | Some (v, n) \<Rightarrow>
             if n > 4300 then None else Some (if neg then - int v else int v))"

section \<open>Lemmas on the string operations\<close>

lemma py_find_None [str_simps]: "py_find c s = None \<longleftrightarrow> c \<notin> set s"
  by (induction s) auto

lemma py_find_append [str_simps]: "c \<notin> set xs \<Longrightarrow> py_find c (xs @ c # ys) = Some (length xs)"
  by (induction xs) auto

lemma py_find_append_notin [str_simps]:
  "c \<notin> set xs \<Longrightarrow> py_find c (xs @ ys) = map_option (\<lambda>i. i + length xs) (py_find c ys)"
  by (induction xs) (auto simp: option.map_comp comp_def option.map_ident)

lemma py_find_SomeE:
  assumes "py_find c s = Some i"
  obtains xs ys where "s = xs @ c # ys" "c \<notin> set xs" "i = length xs"
proof -
  have "\<exists>xs ys. s = xs @ c # ys \<and> c \<notin> set xs"
  proof (rule split_list_first)
    show "c \<in> set s" using assms py_find_None [of c s] by auto
  qed
  then obtain xs ys where s: "s = xs @ c # ys" "c \<notin> set xs" by blast
  with assms have "i = length xs" by (simp add: py_find_append)
  with s that show thesis by blast
qed

lemma py_slice_simps [simp, str_simps]:
  "py_slice s None None = s"
  "py_slice s (Some i) None = drop i s"
  "py_slice s None (Some j) = take j s"
  "py_slice s (Some i) (Some j) = drop i (take j s)"
  by (simp_all add: py_slice_def)

lemma set_py_slice: "set (py_slice s lo hi) \<subseteq> set s"
  by (auto simp: py_slice_def split: option.splits dest: in_set_dropD in_set_takeD)

lemma py_rfind_None [str_simps]: "py_rfind c s = None \<longleftrightarrow> c \<notin> set s"
  by (simp add: py_rfind_def py_find_None)

lemma py_rfind_append [str_simps]: "c \<notin> set ys \<Longrightarrow> py_rfind c (xs @ c # ys) = Some (length xs)"
proof -
  assume "c \<notin> set ys"
  then have "py_find c (rev (xs @ c # ys)) = Some (length ys)"
    using py_find_append [of c "rev ys" "rev xs"] by simp
  then show ?thesis by (simp add: py_rfind_def)
qed

lemma py_rfind_SomeE:
  assumes "py_rfind c s = Some i"
  obtains xs ys where "s = xs @ c # ys" "c \<notin> set ys" "i = length xs"
proof -
  have "\<exists>xs ys. s = xs @ c # ys \<and> c \<notin> set ys"
  proof (rule split_list_last)
    show "c \<in> set s" using assms py_rfind_None [of c s] by auto
  qed
  then obtain xs ys where s: "s = xs @ c # ys" "c \<notin> set ys" by blast
  with assms have "i = length xs" by (simp add: py_rfind_append)
  with s that show thesis by blast
qed

lemma split_on_nonempty [simp]: "split_on c s \<noteq> []"
  by (induction s) (auto split: list.splits)

lemma split_on_notin: "c \<notin> set s \<Longrightarrow> split_on c s = [s]"
  by (induction s) auto

lemma split_on_append: "split_on c (xs @ c # ys) = split_on c xs @ split_on c ys"
  by (induction xs) (auto split: list.splits)

lemma join_split [simp]: "join_with c (split_on c s) = s"
proof (induction s)
  case Nil
  then show ?case by simp
next
  case (Cons x s)
  obtain h t where ht: "split_on c s = h # t" by (cases "split_on c s") auto
  show ?case using Cons ht by (cases t) auto
qed

lemma split_on_notin_set: "p \<in> set (split_on c s) \<Longrightarrow> c \<notin> set p"
  by (induction s arbitrary: p) (auto split: list.splits if_splits)

lemma split_on_subset: "p \<in> set (split_on c s) \<Longrightarrow> set p \<subseteq> set s"
proof (induction s arbitrary: p)
  case Nil
  then show ?case by simp
next
  case (Cons x s)
  obtain h t where ht: "split_on c s = h # t" by (cases "split_on c s") auto
  show ?case using Cons ht by (fastforce split: if_splits)
qed

lemma set_split_on: "x \<in> set s \<Longrightarrow> x \<noteq> c \<Longrightarrow> \<exists>p \<in> set (split_on c s). x \<in> set p"
proof (induction s)
  case Nil
  then show ?case by simp
next
  case (Cons y s)
  obtain h t where ht: "split_on c s = h # t" by (cases "split_on c s") auto
  show ?case using Cons ht by (auto split: if_splits)
qed

lemma starts_with_append [simp]: "starts_with (p @ s) p"
  by (simp add: starts_with_def)

lemma starts_withE:
  assumes "starts_with s p" obtains r where "s = p @ r"
  using assms append_take_drop_id [of "length p" s] unfolding starts_with_def by metis

lemma starts_with_iff: "starts_with s p \<longleftrightarrow> (\<exists>r. s = p @ r)"
  using starts_withE by (metis starts_with_append)

lemma ends_with_iff: "ends_with s p \<longleftrightarrow> (\<exists>r. s = r @ p)"
  unfolding ends_with_def starts_with_iff by (metis rev_append rev_rev_ident)

lemma rstrip_id: "s = [] \<or> \<not> is_space (last s) \<Longrightarrow> rstrip s = s"
  by (cases s rule: rev_cases) (simp_all add: rstrip_def)

lemma rstrip_last: "rstrip s \<noteq> [] \<Longrightarrow> \<not> is_space (last (rstrip s))"
  using hd_dropWhile [of is_space "rev s"] by (auto simp: rstrip_def last_rev)

lemma rstrip_idem [simp]: "rstrip (rstrip s) = rstrip s"
  using rstrip_last rstrip_id by blast

lemma num_scan_chars:
  "num_scan p a n s = Some r \<Longrightarrow> c \<in> set s \<Longrightarrow> is_digit c \<or> c = CHR ''_''"
  by (induction p a n s rule: num_scan.induct) (auto split: if_splits)

lemma int_strip_chars: "c \<in> set s \<Longrightarrow> c \<in> set (int_strip s) \<or> is_int_space c"
proof -
  assume c: "c \<in> set s"
  let ?d = "dropWhile is_int_space"
  have *: "c \<in> set (?d t) \<or> is_int_space c" if "c \<in> set t" for t
    using that by (induction t) auto
  have "c \<in> set (?d s) \<or> is_int_space c" using c by (rule *)
  then show ?thesis using * [of "rev (?d s)"] by (auto simp: int_strip_def)
qed

text \<open>The characters of a string that \<open>int\<close> accepts.\<close>

lemma py_int_chars:
  assumes "py_int s = Some x" and "c \<in> set s"
  shows "is_digit c \<or> is_int_space c \<or> c \<in> {CHR ''_'', CHR ''+'', CHR ''-''}"
proof (cases "is_int_space c")
  case False
  with assms(2) int_strip_chars have c: "c \<in> set (int_strip s)" by blast
  show ?thesis
  proof (cases "int_strip s")
    case Nil
    with c show ?thesis by simp
  next
    case (Cons h t)
    have "\<exists>r. num_scan False 0 0 (if h = CHR ''-'' \<or> h = CHR ''+'' then t else h # t) = Some r"
      using assms(1) Cons by (auto simp: py_int_def Let_def split: option.splits if_splits)
    then show ?thesis using num_scan_chars c Cons by (fastforce split: if_splits)
  qed
qed simp

lemma py_int_nonempty: "py_int s = Some x \<Longrightarrow> s \<noteq> []"
  by (auto simp: py_int_def int_strip_def)

section \<open>Orders given by a sort key\<close>

text \<open>
  Several classes define their rich comparisons by hand.  The contract they share is that the
  comparisons agree with the order of a key; the usual laws follow once for all of them.
\<close>

locale keyed_order =
  fixes key :: "'a \<Rightarrow> 'k::linorder"
    and lt :: "'a \<Rightarrow> 'a \<Rightarrow> bool"
    and eq :: "'a \<Rightarrow> 'a \<Rightarrow> bool"
    and wf :: "'a \<Rightarrow> bool"
  assumes lt_key: "wf x \<Longrightarrow> wf y \<Longrightarrow> lt x y \<longleftrightarrow> key x < key y"
    and eq_key: "wf x \<Longrightarrow> wf y \<Longrightarrow> eq x y \<longleftrightarrow> key x = key y"
begin

lemma irrefl: "wf x \<Longrightarrow> \<not> lt x x"
  by (simp add: lt_key)

lemma trans: "wf x \<Longrightarrow> wf y \<Longrightarrow> wf z \<Longrightarrow> lt x y \<Longrightarrow> lt y z \<Longrightarrow> lt x z"
  by (metis lt_key order_less_trans)

lemma asym: "wf x \<Longrightarrow> wf y \<Longrightarrow> lt x y \<Longrightarrow> \<not> lt y x"
  by (simp add: lt_key)

lemma trichotomy: "wf x \<Longrightarrow> wf y \<Longrightarrow> lt x y \<or> eq x y \<or> lt y x"
  by (metis lt_key eq_key less_linear)

lemma exclusive: "wf x \<Longrightarrow> wf y \<Longrightarrow> lt x y \<Longrightarrow> \<not> eq x y"
  by (simp add: lt_key eq_key)

lemma not_lt: "wf x \<Longrightarrow> wf y \<Longrightarrow> \<not> lt x y \<longleftrightarrow> lt y x \<or> eq x y"
  by (auto simp: lt_key eq_key)

lemma eq_lt: "wf x \<Longrightarrow> wf y \<Longrightarrow> wf z \<Longrightarrow> eq x y \<Longrightarrow> lt y z \<longleftrightarrow> lt x z"
  by (simp add: lt_key eq_key)

lemmas order_laws = irrefl trans asym trichotomy exclusive not_lt

end

end
