(* ===== verification/Pkg_Version.thy ===== *)
theory Pkg_Version
  imports Pkg_Prelude "HOL-Library.Sublist"
begin

text \<open>
  \<open>src/src/modules/version.py\<close>: dot sequences and package versions.  A \<open>dotseq\<close> is a
  \<open>DotSequence\<close>: the list of its numbers and the string it was made from, which \<open>__str__\<close>
  returns.  The fly-weight pool of \<open>__new__\<close> only shares objects and is not modelled.
  A \<open>version\<close> is a \<open>Version\<close> object; \<open>version_init\<close> is its constructor and the comparison
  methods return a result because Python's \<open><\<close> raises on \<open>None\<close>.
\<close>

section \<open>Dot sequences\<close>

datatype version_exn =
    IllegalDotSequence string
  | IllegalVersion string
  | VPy py_exn

record dotseq =
  ds_vals :: "int list"
  ds_str :: string

definition dotsequence_val :: "string \<Rightarrow> int option" where
  "dotsequence_val elem =
     (case py_int elem of
        None \<Rightarrow> None
      | Some x \<Rightarrow>
          if hd elem = CHR ''-'' then None
          else if x > 0 \<and> hd elem = CHR ''0'' then None
          else Some x)"

definition dotseq_init :: "string \<Rightarrow> version_exn + dotseq" where
  "dotseq_init dotstring =
     (case those (map dotsequence_val (split_on CHR ''.'' dotstring)) of
        None \<Rightarrow> Inl (IllegalDotSequence dotstring)
      | Some xs \<Rightarrow>
          if xs = [] then Inl (IllegalDotSequence ''Empty DotSequence'')
          else Inr \<lparr>ds_vals = xs, ds_str = dotstring\<rparr>)"

definition seq_get :: "'a list \<Rightarrow> nat \<Rightarrow> version_exn + 'a" where
  "seq_get xs i = (if i < length xs then Inr (xs ! i) else Inl (VPy IndexError))"

definition is_subsequence :: "dotseq \<Rightarrow> dotseq \<Rightarrow> bool" where
  "is_subsequence self other =
     (if length (ds_vals self) > length (ds_vals other) then False
      else list_all (\<lambda>(a, b). a = b) (zip (ds_vals self) (ds_vals other)))"

definition is_same_major :: "dotseq \<Rightarrow> dotseq \<Rightarrow> version_exn + bool" where
  "is_same_major self other =
     sbind (seq_get (ds_vals self) 0) (\<lambda>a.
     sbind (seq_get (ds_vals other) 0) (\<lambda>b. Inr (a = b)))"

definition is_same_minor :: "dotseq \<Rightarrow> dotseq \<Rightarrow> version_exn + bool" where
  "is_same_minor self other =
     sbind (is_same_major self other) (\<lambda>m.
       if \<not> m then Inr False
       else sbind (seq_get (ds_vals self) 1) (\<lambda>a.
            sbind (seq_get (ds_vals other) 1) (\<lambda>b. Inr (a = b))))"

section \<open>Versions\<close>

record version =
  release :: dotseq
  branch :: "dotseq option"
  build_release :: dotseq
  timestr :: "string option"

text \<open>The proleptic Gregorian calendar check of \<open>datetime.datetime(...)\<close>.\<close>

definition is_leap :: "int \<Rightarrow> bool" where
  "is_leap y \<longleftrightarrow> y mod 4 = 0 \<and> (y mod 100 \<noteq> 0 \<or> y mod 400 = 0)"

definition days_in_month :: "int \<Rightarrow> int \<Rightarrow> int" where
  "days_in_month y m =
     (if m = 2 then (if is_leap y then 29 else 28)
      else if m \<in> {4, 6, 9, 11} then 30 else 31)"

definition datetime_ok :: "int \<Rightarrow> int \<Rightarrow> int \<Rightarrow> int \<Rightarrow> int \<Rightarrow> int \<Rightarrow> bool" where
  "datetime_ok y mo d h mi s \<longleftrightarrow>
     1 \<le> y \<and> y \<le> 9999 \<and> 1 \<le> mo \<and> mo \<le> 12 \<and> 1 \<le> d \<and> d \<le> days_in_month y mo
     \<and> 0 \<le> h \<and> h \<le> 23 \<and> 0 \<le> mi \<and> mi \<le> 59 \<and> 0 \<le> s \<and> s \<le> 59"

definition timestr_ok :: "string \<Rightarrow> bool" where
  "timestr_ok t \<longleftrightarrow>
     length t = 16 \<and> t ! 8 = CHR ''T'' \<and> t ! 15 = CHR ''Z'' \<and>
     (case (py_int (py_slice t (Some 0) (Some 8)), py_int (py_slice t (Some 9) (Some 15))) of
        (Some dateint, Some timeint) \<Rightarrow>
          datetime_ok (dateint div 10000) (dateint div 100 mod 100) (dateint mod 100)
            (timeint div 10000) (timeint div 100 mod 100) (timeint mod 100)
      | _ \<Rightarrow> False)"

text \<open>
  The first half of the constructor: the positions of the separators and the pieces between
  them.  \<open>pc_idx\<close> is the end of the release piece (the code's \<open>buildidx\<close>).
\<close>

record pieces =
  pc_release :: string
  pc_build :: "string option"
  pc_branch :: "string option"
  pc_time :: "string option"
  pc_idx :: "nat option"

definition version_pieces :: "string \<Rightarrow> pieces" where
  "version_pieces s =
     (let timeidx = py_find CHR '':'' s;
          time = map_option (\<lambda>i. py_slice s (Some (Suc i)) None) timeidx;
          branch_at = py_find CHR ''-'' s;
          branch = map_option (\<lambda>i. py_slice s (Some (Suc i)) timeidx) branch_at;
          branchidx = (if branch_at = None then timeidx else branch_at);
          build_at = py_find CHR '','' s;
          build = map_option (\<lambda>i. py_slice s (Some (Suc i)) branchidx) build_at;
          buildidx = (if build_at = None then branchidx else build_at)
      in \<lparr>pc_release = py_slice s None buildidx, pc_build = build, pc_branch = branch,
          pc_time = time, pc_idx = buildidx\<rparr>)"

definition bad_version :: "version_exn \<Rightarrow> version_exn" where
  "bad_version e =
     (case e of IllegalDotSequence d \<Rightarrow> IllegalVersion (''Bad Version: '' @ d) | _ \<Rightarrow> e)"

definition catch_dotseq :: "version_exn + 'a \<Rightarrow> version_exn + 'a" where
  "catch_dotseq r = (case r of Inl e \<Rightarrow> Inl (bad_version e) | Inr a \<Rightarrow> Inr a)"

definition opt_dotseq_init :: "string option \<Rightarrow> version_exn + dotseq option" where
  "opt_dotseq_init x =
     (case x of None \<Rightarrow> Inr None | Some s \<Rightarrow> sbind (dotseq_init s) (\<lambda>d. Inr (Some d)))"

definition version_init :: "string \<Rightarrow> string option \<Rightarrow> version_exn + version" where
  "version_init version_string build_string =
     (if version_string = [] then Inl (IllegalVersion ''Version cannot be empty'')
      else
        let p = version_pieces version_string in
        if pc_idx p = Some 0 then Inl (IllegalVersion ''Versions must have a release value'')
        else
          sbind (catch_dotseq
            (sbind (dotseq_init (pc_release p)) (\<lambda>rel.
             sbind (opt_dotseq_init (pc_branch p)) (\<lambda>br.
             sbind (dotseq_init
                      (case pc_build p of
                         Some b \<Rightarrow> b
                       | None \<Rightarrow> (case build_string of None \<Rightarrow> ''5.11'' | Some b \<Rightarrow> b))) (\<lambda>bld.
             Inr \<lparr>release = rel, branch = br, build_release = bld, timestr = None\<rparr>))))) (\<lambda>v.
          case pc_time p of
            None \<Rightarrow> Inr v
          | Some t \<Rightarrow>
              if timestr_ok t then Inr (v\<lparr>timestr := Some t\<rparr>)
              else Inl (IllegalVersion ''Time must be ISO8601 format.'')))"

text \<open>\<open>Version.split\<close>: the same search, without any check.\<close>

definition version_split ::
  "string \<Rightarrow> (string \<times> string \<times> string option \<times> string option) \<times> string" where
  "version_split ver =
     (let p = version_pieces ver;
          build_release = (case pc_build p of None \<Rightarrow> [] | Some b \<Rightarrow> b);
          short_ver = (case pc_branch p of
                         Some br \<Rightarrow> pc_release p @ ''-'' @ br
                       | None \<Rightarrow> pc_release p)
      in ((pc_release p, build_release, pc_branch p, pc_time p), short_ver))"

text \<open>Truth of an optional list or string.\<close>

definition ds_true :: "dotseq option \<Rightarrow> bool" where
  "ds_true x = (case x of None \<Rightarrow> False | Some d \<Rightarrow> ds_vals d \<noteq> [])"

definition str_true :: "string option \<Rightarrow> bool" where
  "str_true x = (case x of None \<Rightarrow> False | Some s \<Rightarrow> s \<noteq> [])"

definition suffix_branch :: "version \<Rightarrow> string" where
  "suffix_branch v =
     (case branch v of
        Some b \<Rightarrow> if ds_true (branch v) then ''-'' @ ds_str b else []
      | None \<Rightarrow> [])"

definition suffix_time :: "version \<Rightarrow> string" where
  "suffix_time v =
     (case timestr v of
        Some t \<Rightarrow> if str_true (timestr v) then '':'' @ t else []
      | None \<Rightarrow> [])"

definition version_str :: "version \<Rightarrow> string" where
  "version_str v =
     ds_str (release v) @ '','' @ ds_str (build_release v) @ suffix_branch v @ suffix_time v"

definition get_version :: "version \<Rightarrow> bool \<Rightarrow> string" where
  "get_version v include_build =
     (case (branch v, timestr v) of
        (Some b, Some t) \<Rightarrow>
          if include_build \<and> ds_true (branch v) \<and> str_true (timestr v)
          then ds_str (release v) @ '','' @ ds_str (build_release v) @ ''-'' @ ds_str b
                 @ '':'' @ t
          else (if include_build then ds_str (release v) @ '','' @ ds_str (build_release v)
                else ds_str (release v)) @ suffix_branch v @ suffix_time v
      | _ \<Rightarrow> (if include_build then ds_str (release v) @ '','' @ ds_str (build_release v)
              else ds_str (release v)) @ suffix_branch v @ suffix_time v)"

definition get_short_version :: "version \<Rightarrow> string" where
  "get_short_version v =
     ds_str (release v) @ (case branch v of Some b \<Rightarrow> ''-'' @ ds_str b | None \<Rightarrow> [])"

section \<open>Comparison\<close>

definition opt_ds_eq :: "dotseq option \<Rightarrow> dotseq option \<Rightarrow> bool" where
  "opt_ds_eq a b \<longleftrightarrow> map_option ds_vals a = map_option ds_vals b"

definition opt_less :: "'a::ord option \<Rightarrow> 'a option \<Rightarrow> version_exn + bool" where
  "opt_less a b =
     (case (a, b) of (Some x, Some y) \<Rightarrow> Inr (x < y) | _ \<Rightarrow> Inl (VPy TypeError))"

definition version_eq :: "version \<Rightarrow> version \<Rightarrow> bool" where
  "version_eq self other \<longleftrightarrow>
     ds_vals (release self) = ds_vals (release other)
     \<and> opt_ds_eq (branch self) (branch other) \<and> timestr self = timestr other"

text \<open>\<open>__ne__\<close> is written out on its own, not as the negation of \<open>__eq__\<close>.\<close>

definition version_ne :: "version \<Rightarrow> version \<Rightarrow> bool" where
  "version_ne self other =
     (if ds_vals (release self) = ds_vals (release other)
         \<and> opt_ds_eq (branch self) (branch other) \<and> timestr self = timestr other
      then False else True)"

definition version_lt :: "version \<Rightarrow> version \<Rightarrow> version_exn + bool" where
  "version_lt self other =
     (if ds_vals (release self) < ds_vals (release other) then Inr True
      else if ds_vals (release self) \<noteq> ds_vals (release other) then Inr False
      else if \<not> opt_ds_eq (branch self) (branch other) then
        (if branch self = None \<and> ds_true (branch other) then Inr True
         else if ds_true (branch self) \<and> branch other = None then Inr False
         else opt_less (map_option ds_vals (branch self)) (map_option ds_vals (branch other)))
      else if timestr self \<noteq> timestr other then
        (if timestr self = None \<and> str_true (timestr other) then Inr True
         else if str_true (timestr self) \<and> timestr other = None then Inr False
         else opt_less (timestr self) (timestr other))
      else Inr False)"

definition version_gt :: "version \<Rightarrow> version \<Rightarrow> version_exn + bool" where
  "version_gt self other =
     (if ds_vals (release self) > ds_vals (release other) then Inr True
      else if ds_vals (release self) \<noteq> ds_vals (release other) then Inr False
      else if \<not> opt_ds_eq (branch self) (branch other) then
        (if ds_true (branch self) \<and> branch other = None then Inr True
         else if branch self = None \<and> ds_true (branch other) then Inr False
         else opt_less (map_option ds_vals (branch other)) (map_option ds_vals (branch self)))
      else if timestr self \<noteq> timestr other then
        (if str_true (timestr self) \<and> timestr other = None then Inr True
         else if timestr self = None \<and> str_true (timestr other) then Inr False
         else opt_less (timestr other) (timestr self))
      else Inr False)"

definition version_le :: "version \<Rightarrow> version \<Rightarrow> version_exn + bool" where
  "version_le self other = sbind (version_gt self other) (\<lambda>r. Inr (\<not> r))"

definition version_ge :: "version \<Rightarrow> version \<Rightarrow> version_exn + bool" where
  "version_ge self other = sbind (version_lt self other) (\<lambda>r. Inr (\<not> r))"

text \<open>What \<open>__hash__\<close> hashes: the time stamp, or the release and the branch.\<close>

datatype hash_key = HashTime string | HashDots "int list" "int list option"

definition version_hash_key :: "version \<Rightarrow> hash_key" where
  "version_hash_key v =
     (case timestr v of
        Some t \<Rightarrow>
          if str_true (timestr v) then HashTime t
          else HashDots (ds_vals (release v)) (map_option ds_vals (branch v))
      | None \<Rightarrow> HashDots (ds_vals (release v)) (map_option ds_vals (branch v)))"

section \<open>Successors under a constraint\<close>

definition CONSTRAINT_NONE :: int where "CONSTRAINT_NONE = 0"
definition CONSTRAINT_AUTO :: int where "CONSTRAINT_AUTO = 50"
definition CONSTRAINT_RELEASE :: int where "CONSTRAINT_RELEASE = 100"
definition CONSTRAINT_RELEASE_MAJOR :: int where "CONSTRAINT_RELEASE_MAJOR = 101"
definition CONSTRAINT_RELEASE_MINOR :: int where "CONSTRAINT_RELEASE_MINOR = 102"
definition CONSTRAINT_BRANCH :: int where "CONSTRAINT_BRANCH = 200"
definition CONSTRAINT_BRANCH_MAJOR :: int where "CONSTRAINT_BRANCH_MAJOR = 101"
definition CONSTRAINT_BRANCH_MINOR :: int where "CONSTRAINT_BRANCH_MINOR = 102"

definition succ_auto :: "version \<Rightarrow> version \<Rightarrow> bool" where
  "succ_auto self other =
     (if (if ds_true (Some (release other)) \<and> ds_true (Some (release self))
          then \<not> is_subsequence (release other) (release self)
          else ds_true (Some (release other))) then False
      else if (case (branch other, branch self) of
                 (Some ob, Some sb) \<Rightarrow>
                   if ds_true (Some ob) \<and> ds_true (Some sb) then \<not> is_subsequence ob sb
                   else ds_true (Some ob)
               | (ob, _) \<Rightarrow> ds_true ob) then False
      else if (if str_true (timestr self) \<and> str_true (timestr other)
               then timestr other \<noteq> timestr self
               else str_true (timestr other)) then False
      else True)"

definition on_branches ::
  "(dotseq \<Rightarrow> dotseq \<Rightarrow> version_exn + bool) \<Rightarrow> version \<Rightarrow> version \<Rightarrow> version_exn + bool" where
  "on_branches f self other =
     (case (branch other, branch self) of
        (Some ob, Some sb) \<Rightarrow> f ob sb
      | (Some _, None) \<Rightarrow> Inl (VPy TypeError)
      | (None, _) \<Rightarrow> Inl (VPy AttributeError))"

definition is_successor :: "version \<Rightarrow> version \<Rightarrow> int option \<Rightarrow> version_exn + bool" where
  "is_successor self other constraint =
     (if constraint = None \<or> constraint = Some CONSTRAINT_NONE then version_gt self other
      else if constraint = Some CONSTRAINT_AUTO then Inr (succ_auto self other)
      else if constraint = Some CONSTRAINT_RELEASE then
        Inr (is_subsequence (release other) (release self))
      else if constraint = Some CONSTRAINT_RELEASE_MAJOR then
        is_same_major (release other) (release self)
      else if constraint = Some CONSTRAINT_RELEASE_MINOR then
        is_same_minor (release other) (release self)
      else if constraint = Some CONSTRAINT_BRANCH then
        on_branches (\<lambda>a b. Inr (is_subsequence a b)) self other
      else if constraint = Some CONSTRAINT_BRANCH_MAJOR then
        on_branches is_same_major self other
      else if constraint = Some CONSTRAINT_BRANCH_MINOR then
        on_branches is_same_minor self other
      else Inl (VPy ValueError))"


section \<open>What the constructors establish\<close>

definition version_wf :: "version \<Rightarrow> bool" where
  "version_wf v \<longleftrightarrow>
     ds_vals (release v) \<noteq> [] \<and> ds_vals (build_release v) \<noteq> []
     \<and> (case branch v of None \<Rightarrow> True | Some b \<Rightarrow> ds_vals b \<noteq> [])
     \<and> (case timestr v of None \<Rightarrow> True | Some t \<Rightarrow> timestr_ok t)"

lemma dotseq_init_vals:
  "dotseq_init s = Inr d \<Longrightarrow>
     ds_str d = s \<and> ds_vals d \<noteq> [] \<and> map dotsequence_val (split_on CHR ''.'' s) = map Some (ds_vals d)"
  by (auto simp: dotseq_init_def those_eq_Some split: option.splits if_splits)

lemma dotsequence_val_int: "dotsequence_val s = Some x \<Longrightarrow> py_int s = Some x"
  by (auto simp: dotsequence_val_def split: option.splits if_splits)

definition dot_char :: "char \<Rightarrow> bool" where
  "dot_char c \<longleftrightarrow> is_digit c \<or> is_int_space c
     \<or> c \<in> {CHR ''.'', CHR ''_'', CHR ''+'', CHR ''-''}"

lemma dotseq_init_charset:
  assumes "dotseq_init s = Inr d" and "c \<in> set s"
  shows "dot_char c"
proof (cases "c = CHR ''.''")
  case False
  with assms(2) obtain p where p: "p \<in> set (split_on CHR ''.'' s)" "c \<in> set p"
    using set_split_on by blast
  have "dotsequence_val p \<in> Some ` set (ds_vals d)"
    using dotseq_init_vals [OF assms(1)] p(1) by (metis image_eqI image_set)
  then obtain x where "dotsequence_val p = Some x" by blast
  then have "py_int p = Some x" by (rule dotsequence_val_int)
  from py_int_chars [OF this p(2)] show ?thesis by (auto simp: dot_char_def)
qed (simp add: dot_char_def)

lemma dotseq_init_chars:
  "dotseq_init s = Inr d \<Longrightarrow> c \<in> set s \<Longrightarrow> c \<notin> {CHR '','', CHR '':''}"
  by (drule (1) dotseq_init_charset)
    (auto simp: dot_char_def is_digit_def is_int_space_def code_def)

lemma dotseq_init_empty [simp]: "dotseq_init [] = Inl (IllegalDotSequence [])"
  by (simp add: dotseq_init_def dotsequence_val_def py_int_def int_strip_def)

lemma dotseq_init_str: "dotseq_init s = Inr d \<Longrightarrow> dotseq_init (ds_str d) = Inr d"
  using dotseq_init_vals by auto

lemma timestr_ok_charset:
  assumes "timestr_ok t" and "c \<in> set t"
  shows "dot_char c \<or> c \<in> {CHR ''T'', CHR ''Z''}"
proof -
  from assms(1) have len: "length t = 16" and T: "t ! 8 = CHR ''T''" and Z: "t ! 15 = CHR ''Z''"
    by (simp_all add: timestr_ok_def)
  from assms(1) obtain x y where x: "py_int (take 8 t) = Some x"
      and y: "py_int (drop 9 (take 15 t)) = Some y"
    by (auto simp: timestr_ok_def split: option.splits prod.splits)
  have "set t \<subseteq> set (take 8 t) \<union> set (drop 9 (take 15 t)) \<union> {CHR ''T'', CHR ''Z''}"
  proof
    fix e assume "e \<in> set t"
    then obtain i where i: "i < 16" "t ! i = e" using len by (auto simp: in_set_conv_nth)
    consider "i < 8" | "i = 8" | "9 \<le> i" "i < 15" | "i = 15" using i(1) by linarith
    then show "e \<in> set (take 8 t) \<union> set (drop 9 (take 15 t)) \<union> {CHR ''T'', CHR ''Z''}"
    proof cases
      case 1
      then show ?thesis using i len by (auto simp: in_set_conv_nth intro!: exI [of _ i])
    next
      case 3
      then show ?thesis using i len
        by (auto simp: in_set_conv_nth intro!: exI [of _ "i - 9"])
    qed (use i T Z in auto)
  qed
  then show ?thesis
    using py_int_chars [OF x] py_int_chars [OF y] assms(2) by (auto simp: dot_char_def)
qed

lemma timestr_ok_chars: "timestr_ok t \<Longrightarrow> CHR '','' \<notin> set t \<and> CHR '':'' \<notin> set t"
  using timestr_ok_charset [of t "CHR '',''"] timestr_ok_charset [of t "CHR '':''"]
  by (auto simp: dot_char_def is_digit_def is_int_space_def code_def)

lemma timestr_ok_nonempty: "timestr_ok t \<Longrightarrow> t \<noteq> []"
  by (auto simp: timestr_ok_def)

lemma version_init_cases:
  assumes "version_init s b = Inr v"
  defines "p \<equiv> version_pieces s"
  shows "s \<noteq> []" and "pc_idx p \<noteq> Some 0"
    and "dotseq_init (pc_release p) = Inr (release v)"
    and "opt_dotseq_init (pc_branch p) = Inr (branch v)"
    and "dotseq_init (case pc_build p of Some x \<Rightarrow> x
           | None \<Rightarrow> (case b of None \<Rightarrow> ''5.11'' | Some x \<Rightarrow> x)) = Inr (build_release v)"
    and "timestr v = pc_time p" and "\<And>t. pc_time p = Some t \<Longrightarrow> timestr_ok t"
  using assms
  by (auto simp: version_init_def Let_def sbind_eq_Inr catch_dotseq_def p_def
      split: if_splits sum.splits option.splits)

lemma opt_dotseq_init_Inr:
  "opt_dotseq_init x = Inr y \<longleftrightarrow>
     (case x of None \<Rightarrow> y = None | Some s \<Rightarrow> (\<exists>d. y = Some d \<and> dotseq_init s = Inr d))"
  by (auto simp: opt_dotseq_init_def sbind_eq_Inr split: option.splits)

lemma version_init_wf: "version_init s b = Inr v \<Longrightarrow> version_wf v"
  using version_init_cases [of s b v] dotseq_init_vals
  by (fastforce simp: version_wf_def opt_dotseq_init_Inr split: option.splits)


section \<open>Printing and parsing\<close>

definition opt_part :: "char \<Rightarrow> string option \<Rightarrow> string" where
  "opt_part c x = (case x of None \<Rightarrow> [] | Some s \<Rightarrow> c # s)"

definition assemble :: "string \<Rightarrow> string option \<Rightarrow> string option \<Rightarrow> string option \<Rightarrow> string" where
  "assemble r bld br t =
     r @ opt_part CHR '','' bld @ opt_part CHR ''-'' br @ opt_part CHR '':'' t"

definition clean_pieces :: "string \<Rightarrow> string option \<Rightarrow> string option \<Rightarrow> string option \<Rightarrow> bool" where
  "clean_pieces r bld br t \<longleftrightarrow>
     set r \<inter> {CHR '','', CHR ''-'', CHR '':''} = {}
     \<and> (\<forall>x. bld = Some x \<longrightarrow> set x \<inter> {CHR '','', CHR ''-'', CHR '':''} = {})
     \<and> (\<forall>x. br = Some x \<longrightarrow> set x \<inter> {CHR '','', CHR '':''} = {})
     \<and> (\<forall>x. t = Some x \<longrightarrow> CHR '','' \<notin> set x \<and> (br = None \<longrightarrow> CHR ''-'' \<notin> set x))"

lemma opt_part_simps [simp]:
  "opt_part c None = []" "opt_part c (Some s) = c # s"
  by (simp_all add: opt_part_def)

lemma py_find_part:
  "c \<notin> set xs \<Longrightarrow> (x = None \<Longrightarrow> c \<notin> set ys) \<Longrightarrow>
     py_find c (xs @ opt_part c x @ ys) = map_option (\<lambda>_. length xs) x"
  by (cases x) (simp_all add: py_find_None py_find_append)

lemma split_part:
  obtains xs x where "s = xs @ opt_part c x" and "c \<notin> set xs"
proof (cases "c \<in> set s")
  case True
  then obtain xs ys where "s = xs @ c # ys" "c \<notin> set xs" by (metis split_list_first)
  then show thesis by (intro that [of xs "Some ys"]) simp_all
next
  case False
  then show thesis by (intro that [of s None]) simp_all
qed

lemma version_pieces_finds:
  assumes "clean_pieces r bld br t"
  defines "s \<equiv> assemble r bld br t"
  shows "py_find CHR '':'' s =
      map_option (\<lambda>_. length (r @ opt_part CHR '','' bld @ opt_part CHR ''-'' br)) t"
    and "py_find CHR ''-'' s = map_option (\<lambda>_. length (r @ opt_part CHR '','' bld)) br"
    and "py_find CHR '','' s = map_option (\<lambda>_. length r) bld"
proof -
  have "CHR '':'' \<notin> set (r @ opt_part CHR '','' bld @ opt_part CHR ''-'' br)"
    using assms(1) by (cases bld; cases br) (auto simp: clean_pieces_def)
  then show "py_find CHR '':'' s =
      map_option (\<lambda>_. length (r @ opt_part CHR '','' bld @ opt_part CHR ''-'' br)) t"
    unfolding s_def assemble_def
    using py_find_part [of "CHR '':''" "r @ opt_part CHR '','' bld @ opt_part CHR ''-'' br" t "[]"]
    by simp
  have "CHR ''-'' \<notin> set (r @ opt_part CHR '','' bld)"
    using assms(1) by (cases bld) (auto simp: clean_pieces_def)
  moreover have "br = None \<Longrightarrow> CHR ''-'' \<notin> set (opt_part CHR '':'' t)"
    using assms(1) by (cases t) (auto simp: clean_pieces_def)
  ultimately show "py_find CHR ''-'' s = map_option (\<lambda>_. length (r @ opt_part CHR '','' bld)) br"
    unfolding s_def assemble_def
    using py_find_part [of "CHR ''-''" "r @ opt_part CHR '','' bld" br "opt_part CHR '':'' t"]
    by simp
  have "CHR '','' \<notin> set r" using assms(1) by (auto simp: clean_pieces_def)
  moreover have "CHR '','' \<notin> set (opt_part CHR ''-'' br @ opt_part CHR '':'' t)"
    using assms(1) by (cases br; cases t) (auto simp: clean_pieces_def)
  ultimately show "py_find CHR '','' s = map_option (\<lambda>_. length r) bld"
    unfolding s_def assemble_def by (intro py_find_part) auto
qed

lemma version_pieces_assemble:
  assumes "clean_pieces r bld br t"
  shows "\<exists>i. version_pieces (assemble r bld br t) =
      \<lparr>pc_release = r, pc_build = bld, pc_branch = br, pc_time = t, pc_idx = i\<rparr>
      \<and> (i = Some 0 \<longrightarrow> r = [])"
  unfolding version_pieces_def version_pieces_finds [OF assms] Let_def
  by (cases bld; cases br; cases t) (simp_all add: assemble_def numeral_eq_Suc)

lemma version_pieces_complete:
  assumes d1: "dotseq_init (pc_release (version_pieces s)) = Inr d1"
    and d2: "opt_dotseq_init (pc_branch (version_pieces s)) = Inr d2"
    and d3: "\<And>x. pc_build (version_pieces s) = Some x \<Longrightarrow> \<exists>d. dotseq_init x = Inr d"
    and t: "\<And>t. pc_time (version_pieces s) = Some t \<Longrightarrow> timestr_ok t"
  shows "\<exists>r bld br t. s = assemble r bld br t \<and> clean_pieces r bld br t"
proof -
  obtain X tm where s: "s = X @ opt_part CHR '':'' tm" and X: "CHR '':'' \<notin> set X"
    by (rule split_part)
  have ft: "py_find CHR '':'' s = map_option (\<lambda>_. length X) tm"
    unfolding s using X by (cases tm) (simp_all add: py_find_None py_find_append)
  have "pc_time (version_pieces s) = tm"
    unfolding version_pieces_def ft Let_def by (cases tm) (simp_all add: s)
  with t have tm_ok: "tm = Some x \<Longrightarrow> timestr_ok x" for x by simp
  obtain Y br where X': "X = Y @ opt_part CHR ''-'' br" and Y: "CHR ''-'' \<notin> set Y"
    by (rule split_part)
  have no_dash: "CHR ''-'' \<notin> set (opt_part CHR '':'' tm)" if "br = None"
  proof
    assume dash: "CHR ''-'' \<in> set (opt_part CHR '':'' tm)"
    then obtain x where x: "tm = Some x" "CHR ''-'' \<in> set x" by (cases tm) auto
    from x(2) obtain x1 x2 where x': "x = x1 @ CHR ''-'' # x2" "CHR ''-'' \<notin> set x1"
      by (metis split_list_first)
    have "py_find CHR ''-'' s = Some (length (X @ CHR '':'' # x1))"
      using x x' Y that X' py_find_append [of "CHR ''-''" "X @ CHR '':'' # x1" x2]
      by (simp add: s)
    then have "pc_branch (version_pieces s) = Some []"
      unfolding version_pieces_def ft Let_def using x(1) by (simp add: s)
    with d2 show False by (simp add: opt_dotseq_init_def)
  qed
  have fd: "py_find CHR ''-'' s = map_option (\<lambda>_. length Y) br"
    using py_find_part [of "CHR ''-''" Y br "opt_part CHR '':'' tm"] no_dash Y
    by (simp add: s X')
  have br: "pc_branch (version_pieces s) = br"
    unfolding version_pieces_def ft fd Let_def by (cases tm; cases br) (simp_all add: s X')
  have br_ok: "set x \<inter> {CHR '','', CHR '':''} = {}" if "br = Some x" for x
    using d2 dotseq_init_chars unfolding br that by (auto simp: opt_dotseq_init_Inr)
  obtain r bld where Y': "Y = r @ opt_part CHR '','' bld" and r: "CHR '','' \<notin> set r"
    by (rule split_part)
  have tail: "CHR '','' \<notin> set (opt_part CHR ''-'' br @ opt_part CHR '':'' tm)"
    using br_ok tm_ok timestr_ok_chars by (cases br; cases tm) auto
  have fc: "py_find CHR '','' s = map_option (\<lambda>_. length r) bld"
    using py_find_part [of "CHR '',''" r bld "opt_part CHR ''-'' br @ opt_part CHR '':'' tm"] r tail
    by (simp add: s X' Y')
  have bld: "pc_build (version_pieces s) = bld"
    unfolding version_pieces_def ft fd fc Let_def
    by (cases tm; cases br; cases bld) (simp_all add: s X' Y')
  have bld_ok: "set x \<inter> {CHR '','', CHR '':''} = {}" if "bld = Some x" for x
    using d3 dotseq_init_chars unfolding bld that by blast
  have "clean_pieces r bld br tm"
    using X Y r br_ok bld_ok no_dash tm_ok timestr_ok_chars
    unfolding clean_pieces_def X' Y' by (cases bld; cases tm) auto
  moreover have "s = assemble r bld br tm" by (simp add: s X' Y' assemble_def)
  ultimately show ?thesis by blast
qed

lemma version_init_assembled:
  assumes "version_init s b = Inr v"
  obtains r bld br t where "s = assemble r bld br t" and "clean_pieces r bld br t"
    and "r = ds_str (release v)" and "br = map_option ds_str (branch v)" and "t = timestr v"
    and "dotseq_init r = Inr (release v)"
    and "dotseq_init (case bld of Some x \<Rightarrow> x
           | None \<Rightarrow> (case b of None \<Rightarrow> ''5.11'' | Some x \<Rightarrow> x)) = Inr (build_release v)"
    and "opt_dotseq_init br = Inr (branch v)"
proof -
  note c = version_init_cases [OF assms]
  have "\<exists>r bld br t. s = assemble r bld br t \<and> clean_pieces r bld br t"
    using version_pieces_complete [OF c(3,4) _ c(7)] c(5) by (force split: option.splits)
  then obtain r bld br t where s: "s = assemble r bld br t" and cl: "clean_pieces r bld br t"
    by blast
  obtain i where p: "version_pieces s =
      \<lparr>pc_release = r, pc_build = bld, pc_branch = br, pc_time = t, pc_idx = i\<rparr>"
    using version_pieces_assemble [OF cl] unfolding s by blast
  show thesis
  proof (rule that [OF s cl])
    show "r = ds_str (release v)" using c(3) dotseq_init_vals unfolding p by fastforce
    show "br = map_option ds_str (branch v)"
      using c(4) dotseq_init_vals unfolding p
      by (fastforce simp: opt_dotseq_init_Inr split: option.splits)
  qed (use c p in auto)
qed

lemma version_init_assemble:
  assumes cl: "clean_pieces r bld br t"
    and "dotseq_init r = Inr d" and "opt_dotseq_init br = Inr dbr"
    and "dotseq_init (case bld of Some x \<Rightarrow> x
           | None \<Rightarrow> (case b of None \<Rightarrow> ''5.11'' | Some x \<Rightarrow> x)) = Inr dbld"
    and "\<And>x. t = Some x \<Longrightarrow> timestr_ok x"
  shows "version_init (assemble r bld br t) b =
     Inr \<lparr>release = d, branch = dbr, build_release = dbld, timestr = t\<rparr>"
proof -
  obtain i where p: "version_pieces (assemble r bld br t) =
      \<lparr>pc_release = r, pc_build = bld, pc_branch = br, pc_time = t, pc_idx = i\<rparr>"
    and i: "i = Some 0 \<longrightarrow> r = []"
    using version_pieces_assemble [OF cl] by blast
  have "r \<noteq> []" using assms(2) by auto
  then have "assemble r bld br t \<noteq> []" "i \<noteq> Some 0" using i by (auto simp: assemble_def)
  with assms p show ?thesis
    by (auto simp: version_init_def Let_def catch_dotseq_def split: option.splits)
qed

lemma version_str_assemble:
  "version_wf v \<Longrightarrow> version_str v =
     assemble (ds_str (release v)) (Some (ds_str (build_release v)))
       (map_option ds_str (branch v)) (timestr v)"
  by (auto simp: version_str_def assemble_def suffix_branch_def suffix_time_def version_wf_def
      ds_true_def str_true_def timestr_ok_nonempty split: option.splits)

lemma default_build_clean: "set ''5.11'' \<inter> {CHR '','', CHR ''-'', CHR '':''} = {}"
  by simp

text \<open>Printing a parsed version and parsing the result gives the same version.\<close>

lemma version_roundtrip:
  assumes "version_init s b = Inr v" and "\<forall>x. b = Some x \<longrightarrow> CHR ''-'' \<notin> set x"
  shows "version_init (version_str v) b' = Inr v"
proof -
  obtain r bld br t where a: "s = assemble r bld br t" "clean_pieces r bld br t"
      "r = ds_str (release v)" "br = map_option ds_str (branch v)" "t = timestr v"
      "dotseq_init r = Inr (release v)" "opt_dotseq_init br = Inr (branch v)"
    and bld: "dotseq_init (case bld of Some x \<Rightarrow> x
           | None \<Rightarrow> (case b of None \<Rightarrow> ''5.11'' | Some x \<Rightarrow> x)) = Inr (build_release v)"
    by (rule version_init_assembled [OF assms(1)]) blast
  let ?B = "ds_str (build_release v)"
  have B: "dotseq_init ?B = Inr (build_release v)" by (rule dotseq_init_str [OF bld])
  have "CHR ''-'' \<notin> set ?B"
    using a(2) bld assms(2) dotseq_init_vals [OF bld]
    by (auto simp: clean_pieces_def split: option.splits)
  with dotseq_init_chars [OF B] a(2) have "clean_pieces r (Some ?B) br t"
    by (auto simp: clean_pieces_def)
  moreover have "timestr_ok x" if "t = Some x" for x
    using version_init_wf [OF assms(1)] that a(5) by (simp add: version_wf_def)
  ultimately have "version_init (assemble r (Some ?B) br t) b' =
      Inr \<lparr>release = release v, branch = branch v, build_release = build_release v, timestr = t\<rparr>"
    using a(6,7) B by (intro version_init_assemble) auto
  then show ?thesis
    using version_str_assemble [OF version_init_wf [OF assms(1)]] a by simp
qed

lemma version_str_get_version: "get_version v True = version_str v"
  by (auto simp: get_version_def version_str_def suffix_branch_def suffix_time_def
      split: option.splits)

text \<open>\<open>split\<close> finds the same pieces and the same short version as the constructor.\<close>

lemma version_split_agrees:
  assumes "version_init s b = Inr v"
  shows "\<exists>bld. version_split s =
     ((ds_str (release v), bld, map_option ds_str (branch v), timestr v), get_short_version v)
     \<and> (bld = [] \<or> bld = ds_str (build_release v))"
proof -
  obtain r bld br t where a: "s = assemble r bld br t" "clean_pieces r bld br t"
      "r = ds_str (release v)" "br = map_option ds_str (branch v)" "t = timestr v"
    and bld: "dotseq_init (case bld of Some x \<Rightarrow> x
           | None \<Rightarrow> (case b of None \<Rightarrow> ''5.11'' | Some x \<Rightarrow> x)) = Inr (build_release v)"
    by (rule version_init_assembled [OF assms]) blast
  obtain i where p: "version_pieces s =
      \<lparr>pc_release = r, pc_build = bld, pc_branch = br, pc_time = t, pc_idx = i\<rparr>"
    using version_pieces_assemble [OF a(2)] a(1) by blast
  from dotseq_init_vals [OF bld] show ?thesis
    unfolding version_split_def p Let_def
    by (cases bld; cases "branch v") (auto simp: get_short_version_def a)
qed


lemma version_str_charset:
  assumes "version_init s b = Inr v" and "c \<in> set (version_str v)"
  shows "dot_char c \<or> c \<in> {CHR '','', CHR '':'', CHR ''T'', CHR ''Z''}"
proof -
  note i = version_init_cases [OF assms(1)]
  have set_opt: "c \<in> set (opt_part x y) \<longleftrightarrow> (\<exists>z. y = Some z \<and> (c = x \<or> c \<in> set z))" for x y
    by (cases y) auto
  have dash: "dot_char CHR ''-''" by (simp add: dot_char_def)
  consider "c \<in> set (ds_str (release v))" | "c = CHR '',''" | "c \<in> set (ds_str (build_release v))"
    | "c = CHR ''-''" | d where "branch v = Some d" "c \<in> set (ds_str d)" | "c = CHR '':''"
    | t where "timestr v = Some t" "c \<in> set t"
    using assms(2) unfolding version_str_assemble [OF version_init_wf [OF assms(1)]] assemble_def
    by (auto simp: set_opt)
  then show ?thesis
  proof cases
    case 1
    then show ?thesis using dotseq_init_charset [OF dotseq_init_str [OF i(3)]] by blast
  next
    case 3
    then show ?thesis using dotseq_init_charset [OF dotseq_init_str [OF i(5)]] by blast
  next
    case 5
    then have "dotseq_init (ds_str d) = Inr d"
      using i(4) dotseq_init_str by (auto simp: opt_dotseq_init_Inr split: option.splits)
    from dotseq_init_charset [OF this 5(2)] show ?thesis by blast
  next
    case 7
    then have "timestr_ok t" using i(6,7) by simp
    from timestr_ok_charset [OF this 7(2)] show ?thesis by blast
  qed (simp_all add: dash)
qed

text \<open>The last character of the printed version is no white space if the input's is not.\<close>

lemma version_str_last:
  assumes "version_init s None = Inr v" and "\<not> is_space (last s)"
  shows "\<not> is_space (last (version_str v))"
proof -
  obtain r bld br t where a: "s = assemble r bld br t" "clean_pieces r bld br t"
      "r = ds_str (release v)" "br = map_option ds_str (branch v)" "t = timestr v"
      "dotseq_init r = Inr (release v)"
      "dotseq_init (case bld of Some x \<Rightarrow> x
           | None \<Rightarrow> (case None of None \<Rightarrow> ''5.11'' | Some x \<Rightarrow> x)) = Inr (build_release v)"
      "opt_dotseq_init br = Inr (branch v)"
    by (rule version_init_assembled [OF assms(1)])
  have str: "version_str v = assemble r (Some (ds_str (build_release v))) br t"
    using version_str_assemble [OF version_init_wf [OF assms(1)]] a by simp
  show ?thesis
  proof (cases t)
    case (Some x)
    then have "timestr_ok x" using version_init_wf [OF assms(1)] a by (simp add: version_wf_def)
    then have x: "length x = 16" "x ! 15 = CHR ''Z''" by (simp_all add: timestr_ok_def)
    then have "x \<noteq> []" by auto
    then have "last x = CHR ''Z''" using x last_conv_nth [of x] by simp
    note last = this \<open>x \<noteq> []\<close>
    then show ?thesis using last by (simp add: str assemble_def Some is_space_def code_def)
  next
    case t: None
    show ?thesis
    proof (cases br)
      case (Some x)
      then have "x \<noteq> []" using a(8) by (auto simp: opt_dotseq_init_Inr)
      then show ?thesis using assms(2) by (simp add: str a(1) assemble_def Some t)
    next
      case br: None
      show ?thesis
      proof (cases bld)
        case (Some x)
        then have x: "x \<noteq> []" "ds_str (build_release v) = x"
          using a(7) dotseq_init_vals by auto
        show ?thesis using assms(2) x(1) by (simp add: str a(1) assemble_def Some t br x(2))
      next
        case None
        then have "ds_str (build_release v) = ''5.11''" using a(7) dotseq_init_vals by auto
        then show ?thesis by (simp add: str assemble_def t br is_space_def code_def)
      qed
    qed
  qed
qed

section \<open>The order of versions\<close>

text \<open>
  The abstract specification of the comparison methods: release numbers first, then the branch,
  then the time stamp, an absent branch or time stamp before any present one.  It is the
  library's lexicographic order on the key.
\<close>

definition version_key :: "version \<Rightarrow> int list \<times> int list option \<times> string option" where
  "version_key v = (ds_vals (release v), map_option ds_vals (branch v), timestr v)"

lemma version_wf_parts:
  assumes "version_wf v"
  shows "branch v = Some b \<Longrightarrow> ds_true (Some b)" and "timestr v = Some t \<Longrightarrow> str_true (Some t)"
    and "ds_true (Some (release v))"
  using assms by (auto simp: version_wf_def ds_true_def str_true_def timestr_ok_nonempty)

lemma version_lt_key:
  assumes "version_wf v" and "version_wf w"
  shows "version_lt v w = Inr (version_key v < version_key w)"
  using version_wf_parts [OF assms(1)] version_wf_parts [OF assms(2)]
  by (cases "branch v"; cases "branch w"; cases "timestr v"; cases "timestr w";
      force simp: version_lt_def version_key_def less_prod_def opt_ds_eq_def opt_less_def)

lemma version_gt_key:
  assumes "version_wf v" and "version_wf w"
  shows "version_gt v w = Inr (version_key w < version_key v)"
  using version_wf_parts [OF assms(1)] version_wf_parts [OF assms(2)]
  by (cases "branch v"; cases "branch w"; cases "timestr v"; cases "timestr w";
      force simp: version_gt_def version_key_def less_prod_def opt_ds_eq_def opt_less_def)

lemma version_eq_key: "version_eq v w \<longleftrightarrow> version_key v = version_key w"
  by (simp add: version_eq_def version_key_def opt_ds_eq_def)

lemma version_ne_key: "version_ne v w \<longleftrightarrow> version_key v \<noteq> version_key w"
  by (simp add: version_ne_def version_key_def opt_ds_eq_def)

interpretation version_order: keyed_order version_key
  "\<lambda>v w. version_lt v w = Inr True" version_eq version_wf
  by unfold_locales (simp_all add: version_lt_key version_eq_key)

lemma version_cmp_total:
  assumes "version_wf v" and "version_wf w"
  shows "version_le v w = Inr (version_key v \<le> version_key w)"
    and "version_ge v w = Inr (version_key w \<le> version_key v)"
  using assms by (auto simp: version_le_def version_ge_def version_lt_key version_gt_key)

lemma version_eq_hash: "version_eq v w \<Longrightarrow> version_hash_key v = version_hash_key w"
  by (auto simp: version_eq_def version_hash_key_def opt_ds_eq_def split: option.splits)

section \<open>Successors\<close>

lemma list_all_zip_eq:
  "length xs \<le> length ys \<Longrightarrow> list_all (\<lambda>(a, b). a = b) (zip xs ys) \<longleftrightarrow> prefix xs ys"
proof (induction xs arbitrary: ys)
  case (Cons x xs)
  then show ?case by (cases ys) auto
qed simp

lemma is_subsequence_prefix: "is_subsequence a b \<longleftrightarrow> prefix (ds_vals a) (ds_vals b)"
proof (cases "length (ds_vals a) \<le> length (ds_vals b)")
  case True
  then show ?thesis by (simp add: is_subsequence_def list_all_zip_eq)
next
  case False
  then show ?thesis by (auto simp: is_subsequence_def dest: prefix_length_le)
qed

text \<open>Absent components of \<open>other\<close> are \<open>don't care\<close>; present ones must be extended.\<close>

fun opt_rel :: "('a \<Rightarrow> 'b \<Rightarrow> bool) \<Rightarrow> 'a option \<Rightarrow> 'b option \<Rightarrow> bool" where
  "opt_rel r None y = True"
| "opt_rel r (Some x) None = False"
| "opt_rel r (Some x) (Some y) = r x y"

lemma succ_auto_iff:
  assumes "version_wf v" and "version_wf w"
  shows "succ_auto v w \<longleftrightarrow>
     prefix (ds_vals (release w)) (ds_vals (release v))
     \<and> opt_rel (\<lambda>b c. prefix (ds_vals b) (ds_vals c)) (branch w) (branch v)
     \<and> opt_rel (=) (timestr w) (timestr v)"
  using version_wf_parts [OF assms(1)] version_wf_parts [OF assms(2)]
  unfolding succ_auto_def is_subsequence_prefix
  by (cases "branch v"; cases "branch w"; cases "timestr v"; cases "timestr w";
      simp add: ds_true_def str_true_def)

lemma succ_auto_refl: "version_wf v \<Longrightarrow> succ_auto v v"
  by (cases "branch v"; cases "timestr v"; simp add: succ_auto_iff)

lemma succ_auto_trans:
  assumes "version_wf u" "version_wf v" "version_wf w" and "succ_auto u v" and "succ_auto v w"
  shows "succ_auto u w"
  using assms
  by (cases "branch u"; cases "branch v"; cases "branch w"; cases "timestr u"; cases "timestr v";
      cases "timestr w"; auto simp: succ_auto_iff intro: prefix_order.trans)

lemma prefix_not_less:
  "prefix (xs :: 'a::linorder list) ys \<Longrightarrow> xs \<le> ys"
proof (induction xs arbitrary: ys)
  case (Cons x xs)
  then show ?case by (cases ys) auto
qed simp

lemma succ_auto_ge:
  assumes "version_wf v" "version_wf w" and "succ_auto v w"
  shows "version_key w \<le> version_key v"
proof -
  have "ds_vals (release w) \<le> ds_vals (release v)"
    using assms by (simp add: succ_auto_iff prefix_not_less)
  moreover have "map_option ds_vals (branch w) \<le> map_option ds_vals (branch v)"
    using assms by (cases "branch w"; cases "branch v") (auto simp: succ_auto_iff prefix_not_less)
  moreover have "timestr w \<le> timestr v"
    using assms by (cases "timestr w"; cases "timestr v") (auto simp: succ_auto_iff)
  ultimately show ?thesis by (auto simp: version_key_def less_eq_prod_def order_le_less)
qed

lemma is_successor_release:
  "is_successor v w (Some CONSTRAINT_RELEASE) =
     Inr (prefix (ds_vals (release w)) (ds_vals (release v)))"
  by (simp add: is_successor_def CONSTRAINT_NONE_def CONSTRAINT_AUTO_def CONSTRAINT_RELEASE_def
      is_subsequence_prefix)

lemma is_successor_branch_major_is_release:
  "is_successor v w (Some CONSTRAINT_BRANCH_MAJOR) = is_same_major (release w) (release v)"
  "is_successor v w (Some CONSTRAINT_BRANCH_MINOR) = is_same_minor (release w) (release v)"
  by (simp_all add: is_successor_def CONSTRAINT_NONE_def CONSTRAINT_AUTO_def
      CONSTRAINT_RELEASE_def CONSTRAINT_RELEASE_MAJOR_def CONSTRAINT_RELEASE_MINOR_def
      CONSTRAINT_BRANCH_MAJOR_def CONSTRAINT_BRANCH_MINOR_def)

lemma is_successor_newest:
  assumes "version_wf v" "version_wf w"
  shows "is_successor v w None = Inr (version_key w < version_key v)"
  using assms by (simp add: is_successor_def version_gt_key)

section \<open>Properties\<close>

text \<open>
  C8. Printing a parsed version and parsing the text again gives the same version, whatever
  default build release the second parse is given; the full \<open>get_version\<close> is the printed text.
  The first default must hold no hyphen, which would be read as the start of the branch.
\<close>

lemma version_parse_print:
  assumes "version_init s b = Inr v" and "\<forall>x. b = Some x \<longrightarrow> CHR ''-'' \<notin> set x"
  shows "version_init (version_str v) b' = Inr v \<and> get_version v True = version_str v"
  using version_roundtrip [OF assms] version_str_get_version by simp

lemma version_parse_print_witness:
  "version_init (version_str
     \<lparr>release = \<lparr>ds_vals = [1, 2], ds_str = ''1.2''\<rparr>,
      branch = Some \<lparr>ds_vals = [0, 3], ds_str = ''0.3''\<rparr>,
      build_release = \<lparr>ds_vals = [5, 11], ds_str = ''5.11''\<rparr>,
      timestr = Some ''20240229T235959Z''\<rparr>) (Some ''7'') =
   Inr \<lparr>release = \<lparr>ds_vals = [1, 2], ds_str = ''1.2''\<rparr>,
      branch = Some \<lparr>ds_vals = [0, 3], ds_str = ''0.3''\<rparr>,
      build_release = \<lparr>ds_vals = [5, 11], ds_str = ''5.11''\<rparr>,
      timestr = Some ''20240229T235959Z''\<rparr>"
proof -
  have "version_init ''1.2-0.3:20240229T235959Z'' None = Inr
     \<lparr>release = \<lparr>ds_vals = [1, 2], ds_str = ''1.2''\<rparr>,
      branch = Some \<lparr>ds_vals = [0, 3], ds_str = ''0.3''\<rparr>,
      build_release = \<lparr>ds_vals = [5, 11], ds_str = ''5.11''\<rparr>,
      timestr = Some ''20240229T235959Z''\<rparr>"
  proof -
    have "timestr_ok ''20240229T235959Z''"
      by (simp add: timestr_ok_def py_int_def py_slice_def datetime_ok_def int_strip_def
          is_int_space_def code_def digit_val_def days_in_month_def is_leap_def is_digit_def)
    moreover have "pc_release (version_pieces ''1.2-0.3:20240229T235959Z'') = ''1.2''"
      "pc_branch (version_pieces ''1.2-0.3:20240229T235959Z'') = Some ''0.3''"
      "pc_build (version_pieces ''1.2-0.3:20240229T235959Z'') = None"
      "pc_time (version_pieces ''1.2-0.3:20240229T235959Z'') = Some ''20240229T235959Z''"
      "pc_idx (version_pieces ''1.2-0.3:20240229T235959Z'') \<noteq> Some 0"
      by code_simp+
    moreover have "dotseq_init ''1.2'' = Inr \<lparr>ds_vals = [1, 2], ds_str = ''1.2''\<rparr>"
      "dotseq_init ''0.3'' = Inr \<lparr>ds_vals = [0, 3], ds_str = ''0.3''\<rparr>"
      "dotseq_init ''5.11'' = Inr \<lparr>ds_vals = [5, 11], ds_str = ''5.11''\<rparr>"
      by code_simp+
    ultimately show ?thesis
      by (simp add: version_init_def Let_def opt_dotseq_init_def catch_dotseq_def sbind_def)
  qed
  then show ?thesis by (rule version_parse_print [THEN conjunct1]) simp
qed

text \<open>
  C6. The six comparison methods of two parsed versions never raise and are the comparisons of
  one key, the release sequence, the optional branch and the optional time stamp, in the
  lexicographic order with an absent part first.  Hence the order is total and transitive, the
  build release plays no part in it, and equal versions hash alike.
\<close>

lemma version_comparisons:
  assumes "version_init s b = Inr v" and "version_init s' b' = Inr w"
  shows "version_lt v w = Inr (version_key v < version_key w)
    \<and> version_gt v w = Inr (version_key v > version_key w)
    \<and> version_le v w = Inr (version_key v \<le> version_key w)
    \<and> version_ge v w = Inr (version_key v \<ge> version_key w)
    \<and> version_eq v w = (version_key v = version_key w)
    \<and> version_ne v w = (version_key v \<noteq> version_key w)
    \<and> (\<not> version_eq v w \<or> version_hash_key v = version_hash_key w)"
  using version_lt_key version_gt_key version_cmp_total version_eq_key version_ne_key version_eq_hash
    version_init_wf [OF assms(1)] version_init_wf [OF assms(2)]
  by blast

lemma version_comparisons_witness:
  "version_lt \<lparr>release = \<lparr>ds_vals = [1, 9], ds_str = ''1.9''\<rparr>, branch = None,
      build_release = \<lparr>ds_vals = [5, 11], ds_str = ''5.11''\<rparr>, timestr = None\<rparr>
     \<lparr>release = \<lparr>ds_vals = [1, 10], ds_str = ''1.10''\<rparr>, branch = None,
      build_release = \<lparr>ds_vals = [5, 11], ds_str = ''5.11''\<rparr>, timestr = None\<rparr>
   = Inr ([1::int, 9] < [1, 10])"
  by (subst version_comparisons [of "''1.9''" None _ "''1.10''" None, THEN conjunct1];
      (code_simp | simp add: version_key_def))

text \<open>
  \<open>Version.split\<close> finds the pieces the constructor finds: for a parsed version it returns the
  printed release, branch and time stamp, the build release only where the text gave one, and the
  short form.
\<close>

lemma version_split_parsed:
  assumes "version_init s b = Inr v"
  shows "\<exists>bld. version_split s =
     ((ds_str (release v), bld, map_option ds_str (branch v), timestr v), get_short_version v)
     \<and> (bld = [] \<or> bld = ds_str (build_release v))"
  by (rule version_split_agrees [OF assms])

lemma version_split_parsed_witness:
  "\<exists>bld. version_split ''1-2'' = ((''1'', bld, Some ''2'', None), ''1-2'')
     \<and> (bld = [] \<or> bld = ''5.11'')"
proof -
  have "version_init ''1-2'' None = Inr
    \<lparr>release = \<lparr>ds_vals = [1], ds_str = ''1''\<rparr>, branch = Some \<lparr>ds_vals = [2], ds_str = ''2''\<rparr>,
      build_release = \<lparr>ds_vals = [5, 11], ds_str = ''5.11''\<rparr>, timestr = None\<rparr>" by code_simp
  moreover have "get_short_version \<lparr>release = \<lparr>ds_vals = [1], ds_str = ''1''\<rparr>,
      branch = Some \<lparr>ds_vals = [2], ds_str = ''2''\<rparr>,
      build_release = \<lparr>ds_vals = [5, 11], ds_str = ''5.11''\<rparr>, timestr = None\<rparr> = ''1-2''"
    by code_simp
  ultimately show ?thesis using version_split_parsed [of "''1-2''" None] by auto
qed

text \<open>
  The automatic successor constraint: a version is its own successor, successors compose, a
  successor never sorts before what it succeeds, and the test is that each dotted part that both
  have is a prefix of the newer one's and the time stamp, if asked for, is the same.
\<close>

lemma successor_auto_preorder:
  assumes "version_wf u" "version_wf v" "version_wf w"
  shows "is_successor v v (Some CONSTRAINT_AUTO) = Inr True
    \<and> (is_successor u v (Some CONSTRAINT_AUTO) = Inr True
         \<and> is_successor v w (Some CONSTRAINT_AUTO) = Inr True
       \<longrightarrow> is_successor u w (Some CONSTRAINT_AUTO) = Inr True)
    \<and> (is_successor v w (Some CONSTRAINT_AUTO) = Inr True \<longrightarrow> version_key w \<le> version_key v)
    \<and> is_successor v w (Some CONSTRAINT_AUTO) = Inr
        (prefix (ds_vals (release w)) (ds_vals (release v))
         \<and> opt_rel (\<lambda>b c. prefix (ds_vals b) (ds_vals c)) (branch w) (branch v)
         \<and> opt_rel (=) (timestr w) (timestr v))"
proof -
  have auto: "is_successor x y (Some CONSTRAINT_AUTO) = Inr (succ_auto x y)" for x y
    by (simp add: is_successor_def CONSTRAINT_NONE_def CONSTRAINT_AUTO_def)
  show ?thesis
    unfolding auto sum.inject eq_True simp_thms
    using succ_auto_refl [OF assms(2)] succ_auto_trans [OF assms]
      succ_auto_ge [OF assms(2,3)] succ_auto_iff [OF assms(2,3)] by blast
qed

lemma successor_auto_preorder_witness:
  "let v = \<lparr>release = \<lparr>ds_vals = [1, 2], ds_str = ''1.2''\<rparr>, branch = None,
      build_release = \<lparr>ds_vals = [5, 11], ds_str = ''5.11''\<rparr>, timestr = None\<rparr>
   in is_successor v v (Some CONSTRAINT_AUTO) = Inr True"
proof -
  have wf: "version_wf \<lparr>release = \<lparr>ds_vals = [1, 2], ds_str = ''1.2''\<rparr>, branch = None,
      build_release = \<lparr>ds_vals = [5, 11], ds_str = ''5.11''\<rparr>, timestr = None\<rparr>"
    by (simp add: version_wf_def)
  show ?thesis unfolding Let_def by (rule successor_auto_preorder [OF wf wf wf, THEN conjunct1])
qed

text \<open>
  The constraints named for the major and minor \<^emph>\<open>branch\<close> compare the \<^emph>\<open>release\<close>: their
  constants have the values of the release ones, so the earlier test of \<open>is_successor\<close> takes
  them.  Two versions with unrelated branches are successors under them.
\<close>

lemma branch_constraints_compare_releases:
  "is_successor v w (Some CONSTRAINT_BRANCH_MAJOR) = is_successor v w (Some CONSTRAINT_RELEASE_MAJOR)
   \<and> is_successor v w (Some CONSTRAINT_BRANCH_MINOR) = is_successor v w (Some CONSTRAINT_RELEASE_MINOR)
   \<and> is_successor
      \<lparr>release = \<lparr>ds_vals = [1], ds_str = ''1''\<rparr>, branch = Some \<lparr>ds_vals = [7], ds_str = ''7''\<rparr>,
       build_release = \<lparr>ds_vals = [5], ds_str = ''5''\<rparr>, timestr = None\<rparr>
      \<lparr>release = \<lparr>ds_vals = [1], ds_str = ''1''\<rparr>, branch = Some \<lparr>ds_vals = [8], ds_str = ''8''\<rparr>,
       build_release = \<lparr>ds_vals = [5], ds_str = ''5''\<rparr>, timestr = None\<rparr>
      (Some CONSTRAINT_BRANCH_MAJOR) = Inr True"
proof -
  have "is_successor v w (Some CONSTRAINT_RELEASE_MAJOR) = is_same_major (release w) (release v)"
    "is_successor v w (Some CONSTRAINT_RELEASE_MINOR) = is_same_minor (release w) (release v)" for v w
    by (simp_all add: is_successor_def CONSTRAINT_NONE_def CONSTRAINT_AUTO_def
        CONSTRAINT_RELEASE_def CONSTRAINT_RELEASE_MAJOR_def CONSTRAINT_RELEASE_MINOR_def)
  then show ?thesis
    by (simp add: is_successor_branch_major_is_release is_same_major_def seq_get_def)
qed

end
