(* ===== verification/Version_Sortkey.thy ===== *)
theory Version_Sortkey
  imports Pkg_Version "HOL-Library.Word"
begin

text \<open>
  \<open>version_sortkey\<close> of \<open>src/src/modules/version.py\<close>: a byte string per version whose bytewise
  order is the order of the versions.  Bytes are \<open>8 word\<close>; the abstract order is
  \<open>version_key\<close> of \<open>Pkg_Version\<close>.  The failures of \<open>int.to_bytes\<close> (a negative component)
  and of the length byte (a component of more than 255 bytes) are results.
\<close>

type_synonym byte = "8 word"

section \<open>The encoder\<close>

fun bitlen :: "nat \<Rightarrow> nat" where
  "bitlen n = (if n = 0 then 0 else Suc (bitlen (n div 2)))"

declare bitlen.simps [simp del]

text \<open>\<open>(x.bit_length() + 7) // 8 or 1\<close>\<close>

definition byte_length :: "int \<Rightarrow> nat" where
  "byte_length x =
     (let n = (bitlen (nat \<bar>x\<bar>) + 7) div 8 in if n = 0 then 1 else n)"

fun be_bytes :: "nat \<Rightarrow> nat \<Rightarrow> byte list" where
  "be_bytes 0 x = []"
| "be_bytes (Suc n) x = be_bytes n (x div 256) @ [of_nat (x mod 256)]"

definition to_bytes :: "int \<Rightarrow> nat \<Rightarrow> version_exn + byte list" where
  "to_bytes x n =
     (if x < 0 \<or> x \<ge> 256 ^ n then Inl (VPy OverflowError) else Inr (be_bytes n (nat x)))"

definition encode_component :: "int \<Rightarrow> version_exn + byte list" where
  "encode_component x =
     (let n = byte_length x in
      if n > 255 then Inl (IllegalVersion ''DotSequence component too large to encode'')
      else sbind (to_bytes x n) (\<lambda>bs. Inr (of_nat n # bs)))"

definition encode_seq :: "int list \<Rightarrow> version_exn + byte list" where
  "encode_seq xs = sbind (smap encode_component xs) (\<lambda>bs. Inr (concat bs @ [0]))"

definition encode_ascii :: "string \<Rightarrow> version_exn + byte list" where
  "encode_ascii s =
     (if list_all (\<lambda>c. code c < 128) s then Inr (map (\<lambda>c. of_nat (code c)) s)
      else Inl (VPy UnicodeEncodeError))"

definition version_sortkey :: "version \<Rightarrow> version_exn + byte list" where
  "version_sortkey v =
     sbind (encode_seq (ds_vals (release v))) (\<lambda>r.
     sbind (case branch v of
              None \<Rightarrow> Inr [0]
            | Some b \<Rightarrow> sbind (encode_seq (ds_vals b)) (\<lambda>k. Inr (1 # k))) (\<lambda>b.
     sbind (case timestr v of
              None \<Rightarrow> Inr [0]
            | Some t \<Rightarrow> sbind (encode_ascii t) (\<lambda>k. Inr (1 # k))) (\<lambda>t.
     Inr (r @ b @ t))))"

definition version_sortkey_str :: "string \<Rightarrow> version_exn + byte list" where
  "version_sortkey_str s = sbind (version_init s None) version_sortkey"

section \<open>Separated byte strings\<close>

text \<open>\<open>k\<close> is below \<open>l\<close> whatever follows them.\<close>

definition sep :: "'a::linorder list \<Rightarrow> 'a list \<Rightarrow> bool" where
  "sep k l \<longleftrightarrow> (\<forall>r s. k @ r < l @ s)"

lemma sep_less: "sep k l \<Longrightarrow> k @ r < l @ s"
  by (simp add: sep_def)

lemma append_less_iff [simp]: "(p @ k :: 'a::linorder list) < p @ l \<longleftrightarrow> k < l"
  by (induction p) simp_all

lemma sep_prepend: "sep k l \<Longrightarrow> sep (p @ k) (p @ l)"
  by (simp add: sep_def)

lemma sep_append: "sep k l \<Longrightarrow> sep (k @ r) (l @ s)"
  by (simp add: sep_def)

lemma sep_Cons: "x < y \<Longrightarrow> sep (x # xs) (y # ys)"
  by (simp add: sep_def)

lemma sep_same_length:
  "length xs = length ys \<Longrightarrow> xs < ys \<Longrightarrow> sep xs ys"
proof (induction xs ys rule: list_induct2)
  case (Cons x xs y ys)
  then show ?case by (auto simp: sep_def)
qed simp

section \<open>Components\<close>

lemma bitlen_le_iff: "bitlen x \<le> k \<longleftrightarrow> x < 2 ^ k"
proof (induction k arbitrary: x)
  case 0
  then show ?case by (subst bitlen.simps) simp
next
  case (Suc k)
  have "bitlen x \<le> Suc k \<longleftrightarrow> x = 0 \<or> bitlen (x div 2) \<le> k"
    by (subst bitlen.simps) simp
  also have "\<dots> \<longleftrightarrow> x < 2 ^ Suc k"
    unfolding Suc.IH by auto
  finally show ?case .
qed

lemma byte_length_bound:
  assumes "0 \<le> x" shows "x < 256 ^ byte_length x"
proof -
  have "bitlen (nat x) \<le> 8 * byte_length x"
    using assms by (auto simp: byte_length_def Let_def)
  then have "nat x < 2 ^ (8 * byte_length x)" by (simp add: bitlen_le_iff)
  then have "nat x < 256 ^ byte_length x" by (simp add: power_mult)
  then show ?thesis by (metis assms nat_less_iff of_nat_numeral of_nat_power)
qed

lemma bitlen_mono: "x \<le> y \<Longrightarrow> bitlen x \<le> bitlen y"
  using bitlen_le_iff [of x "bitlen y"] bitlen_le_iff [of y "bitlen y"] by simp

lemma byte_length_mono: "0 \<le> x \<Longrightarrow> x \<le> y \<Longrightarrow> byte_length x \<le> byte_length y"
proof -
  assume "0 \<le> x" "x \<le> y"
  then have "bitlen (nat \<bar>x\<bar>) \<le> bitlen (nat \<bar>y\<bar>)" by (intro bitlen_mono) simp
  then have "(bitlen (nat \<bar>x\<bar>) + 7) div 8 \<le> (bitlen (nat \<bar>y\<bar>) + 7) div 8"
    by (intro div_le_mono) simp
  then show ?thesis by (auto simp: byte_length_def Let_def)
qed

lemma byte_length_pos: "byte_length x > 0"
  by (simp add: byte_length_def Let_def)

lemma length_be_bytes [simp]: "length (be_bytes n x) = n"
  by (induction n arbitrary: x) simp_all

lemma byte_less: "a < b \<Longrightarrow> b < 256 \<Longrightarrow> (of_nat a :: byte) < of_nat b"
  by (simp add: word_less_nat_alt unat_of_nat)

lemma be_bytes_less:
  "x < y \<Longrightarrow> y < 256 ^ n \<Longrightarrow> be_bytes n x < be_bytes n y"
proof (induction n arbitrary: x y)
  case 0
  then show ?case by simp
next
  case (Suc n)
  show ?case
  proof (cases "x div 256 = y div 256")
    case True
    with Suc.prems have "x mod 256 < y mod 256"
      by (metis div_mult_mod_eq nat_add_left_cancel_less)
    then have "(of_nat (x mod 256) :: byte) < of_nat (y mod 256)" by (intro byte_less) simp_all
    with True show ?thesis by simp
  next
    case False
    then have "x div 256 < y div 256"
      using Suc.prems(1) by (meson div_le_mono le_neq_implies_less nat_less_le)
    moreover have "y div 256 < 256 ^ n" using Suc.prems(2) by (simp add: less_mult_imp_div_less)
    ultimately have "be_bytes n (x div 256) < be_bytes n (y div 256)" by (rule Suc.IH)
    then have "sep (be_bytes n (x div 256)) (be_bytes n (y div 256))"
      by (intro sep_same_length) simp_all
    then show ?thesis by (simp add: sep_less)
  qed
qed

lemma encode_component_Inr:
  "encode_component x = Inr k \<longleftrightarrow>
     0 \<le> x \<and> byte_length x \<le> 255 \<and> k = of_nat (byte_length x) # be_bytes (byte_length x) (nat x)"
  using byte_length_bound [of x]
  by (auto simp: encode_component_def to_bytes_def Let_def)

lemma encode_component_sep:
  assumes "encode_component x = Inr k" "encode_component y = Inr l" and "x < y"
  shows "sep k l"
proof -
  from assms have x: "0 \<le> x" "0 \<le> y" "byte_length y \<le> 255"
    and k: "k = of_nat (byte_length x) # be_bytes (byte_length x) (nat x)"
    and l: "l = of_nat (byte_length y) # be_bytes (byte_length y) (nat y)"
    by (auto simp: encode_component_Inr)
  show ?thesis
  proof (cases "byte_length x = byte_length y")
    case True
    have "nat x < nat y" "nat y < 256 ^ byte_length y"
      using x assms(3) byte_length_bound [of y] by (auto simp: nat_less_iff)
    then have "be_bytes (byte_length y) (nat x) < be_bytes (byte_length y) (nat y)"
      by (rule be_bytes_less)
    then have "sep (be_bytes (byte_length y) (nat x)) (be_bytes (byte_length y) (nat y))"
      by (intro sep_same_length) simp_all
    then show ?thesis unfolding k l True by (simp add: sep_def)
  next
    case False
    with x assms(3) byte_length_mono [of x y] have "byte_length x < byte_length y" by simp
    with x(3) have "(of_nat (byte_length x) :: byte) < of_nat (byte_length y)"
      by (intro byte_less) simp_all
    then show ?thesis unfolding k l by (rule sep_Cons)
  qed
qed

lemma encode_component_pos: "encode_component x = Inr k \<Longrightarrow> \<exists>b bs. k = b # bs \<and> 0 < b"
  using byte_less [of 0 "byte_length x"] byte_length_pos [of x]
  by (auto simp: encode_component_Inr)

section \<open>Sequences and versions\<close>

lemma encode_seq_Cons:
  "encode_seq (x # xs) = Inr k \<longleftrightarrow>
     (\<exists>a b. encode_component x = Inr a \<and> encode_seq xs = Inr b \<and> k = a @ b)"
  by (auto simp: encode_seq_def sbind_eq_Inr)

lemma encode_seq_Nil: "encode_seq [] = Inr k \<longleftrightarrow> k = [0]"
  by (auto simp: encode_seq_def)

lemma encode_seq_sep:
  "encode_seq xs = Inr k \<Longrightarrow> encode_seq ys = Inr l \<Longrightarrow> xs < ys \<Longrightarrow> sep k l"
proof (induction xs arbitrary: ys k l)
  case Nil
  then obtain y ys' where ys: "ys = y # ys'" by (cases ys) auto
  with Nil obtain a b where "encode_component y = Inr a" "l = a @ b"
    by (auto simp: encode_seq_Cons)
  with encode_component_pos obtain c cs where "l = c # cs" "0 < c" by fastforce
  then show ?case using Nil.prems(1) by (simp add: encode_seq_Nil sep_Cons)
next
  case (Cons x xs)
  then obtain y ys' where ys: "ys = y # ys'" by (cases ys) auto
  obtain a b where a: "encode_component x = Inr a" "encode_seq xs = Inr b" "k = a @ b"
    using Cons.prems(1) by (auto simp: encode_seq_Cons)
  obtain c d where c: "encode_component y = Inr c" "encode_seq ys' = Inr d" "l = c @ d"
    using Cons.prems(2) by (auto simp: ys encode_seq_Cons)
  show ?case
  proof (cases "x = y")
    case True
    with Cons.prems(3) have "xs < ys'" by (simp add: ys)
    with Cons.IH a(2) c(2) have "sep b d" by blast
    with True a c show ?thesis by (auto intro: sep_prepend)
  next
    case False
    with Cons.prems(3) have "x < y" by (simp add: ys)
    then have "sep a c" by (rule encode_component_sep [OF a(1) c(1)])
    then show ?thesis using a c by (auto intro: sep_append)
  qed
qed

lemma encode_ascii_Cons:
  "encode_ascii (c # s) = Inr k \<longleftrightarrow>
     code c < 128 \<and> (\<exists>l. encode_ascii s = Inr l \<and> k = of_nat (code c) # l)"
  by (auto simp: encode_ascii_def)

lemma encode_ascii_less:
  "encode_ascii s = Inr k \<Longrightarrow> encode_ascii t = Inr l \<Longrightarrow> s < t \<Longrightarrow> k < l"
proof (induction s arbitrary: t k l)
  case Nil
  then show ?case by (cases t) (auto simp: encode_ascii_def split: if_splits)
next
  case (Cons c s)
  then obtain d t' where t: "t = d # t'" by (cases t) auto
  show ?case
  proof (cases "c = d")
    case True
    with Cons t show ?thesis by (auto simp: encode_ascii_Cons)
  next
    case False
    with Cons.prems(3) have "code c < code d" by (simp add: t less_char_def code_def)
    then have "(of_nat (code c) :: byte) < of_nat (code d)"
      using Cons.prems by (intro byte_less) (auto simp: t encode_ascii_Cons)
    with Cons.prems show ?thesis by (auto simp: t encode_ascii_Cons)
  qed
qed

lemma version_sortkey_Inr:
  assumes "version_sortkey v = Inr k"
  obtains r b t where "k = r @ b @ t" and "encode_seq (ds_vals (release v)) = Inr r"
    and "case branch v of None \<Rightarrow> b = [0]
         | Some d \<Rightarrow> \<exists>x. encode_seq (ds_vals d) = Inr x \<and> b = 1 # x"
    and "case timestr v of None \<Rightarrow> t = [0]
         | Some s \<Rightarrow> \<exists>x. encode_ascii s = Inr x \<and> t = 1 # x"
  using assms by (auto simp: version_sortkey_def sbind_eq_Inr split: option.splits)

lemma version_sortkey_less:
  assumes "version_sortkey v = Inr k" and "version_sortkey w = Inr l"
    and "version_key v < version_key w"
  shows "k < l"
proof -
  obtain r b t where v: "k = r @ b @ t" "encode_seq (ds_vals (release v)) = Inr r"
      "case branch v of None \<Rightarrow> b = [0]
       | Some d \<Rightarrow> \<exists>x. encode_seq (ds_vals d) = Inr x \<and> b = 1 # x"
      "case timestr v of None \<Rightarrow> t = [0] | Some s \<Rightarrow> \<exists>x. encode_ascii s = Inr x \<and> t = 1 # x"
    by (rule version_sortkey_Inr [OF assms(1)])
  obtain r' b' t' where w: "l = r' @ b' @ t'" "encode_seq (ds_vals (release w)) = Inr r'"
      "case branch w of None \<Rightarrow> b' = [0]
       | Some d \<Rightarrow> \<exists>x. encode_seq (ds_vals d) = Inr x \<and> b' = 1 # x"
      "case timestr w of None \<Rightarrow> t' = [0] | Some s \<Rightarrow> \<exists>x. encode_ascii s = Inr x \<and> t' = 1 # x"
    by (rule version_sortkey_Inr [OF assms(2)])
  consider (rel) "ds_vals (release v) < ds_vals (release w)"
    | (br) "ds_vals (release v) = ds_vals (release w)"
        "map_option ds_vals (branch v) < map_option ds_vals (branch w)"
    | (tm) "ds_vals (release v) = ds_vals (release w)"
        "map_option ds_vals (branch v) = map_option ds_vals (branch w)" "timestr v < timestr w"
    using assms(3) by (auto simp: version_key_def less_prod_def order_le_less)
  then show ?thesis
  proof cases
    case rel
    then have "sep r r'" by (rule encode_seq_sep [OF v(2) w(2)])
    then show ?thesis unfolding v(1) w(1) by (rule sep_less)
  next
    case br
    have "sep b b'"
    proof (cases "branch v")
      case None
      with br(2) v(3) w(3) show ?thesis by (cases "branch w") (auto intro: sep_Cons)
    next
      case (Some d)
      with br(2) obtain e where e: "branch w = Some e" by (cases "branch w") auto
      with Some br(2) have "ds_vals d < ds_vals e" by simp
      with v(3) w(3) Some e show ?thesis
        using encode_seq_sep sep_prepend [of _ _ "[1]"] by fastforce
    qed
    moreover have "r = r'" using br(1) v(2) w(2) by simp
    ultimately show ?thesis unfolding v(1) w(1) by (simp add: sep_less)
  next
    case tm
    have "r = r'" "b = b'"
      using tm(1,2) v(2,3) w(2,3) by (auto split: option.splits)
    moreover have "t < t'"
      using tm(3) v(4) w(4) by (auto split: option.splits intro: encode_ascii_less)
    ultimately show ?thesis unfolding v(1) w(1) by simp
  qed
qed

lemma version_sortkey_eq:
  assumes "version_sortkey v = Inr k" and "version_sortkey w = Inr l"
    and "version_key v = version_key w"
  shows "k = l"
  using assms by (auto simp: version_sortkey_def version_key_def sbind_eq_Inr split: option.splits)

lemma version_sortkey_order:
  assumes "version_sortkey v = Inr k" and "version_sortkey w = Inr l"
  shows "k < l \<longleftrightarrow> version_key v < version_key w" and "k = l \<longleftrightarrow> version_key v = version_key w"
proof -
  consider "version_key v < version_key w" | "version_key v = version_key w"
    | "version_key w < version_key v" by (rule linorder_cases)
  then have "(k < l \<longleftrightarrow> version_key v < version_key w) \<and> (k = l \<longleftrightarrow> version_key v = version_key w)"
    using version_sortkey_less [OF assms] version_sortkey_less [OF assms(2,1)]
      version_sortkey_eq [OF assms] by (metis order_less_irrefl order_less_not_sym)
  then show "k < l \<longleftrightarrow> version_key v < version_key w" "k = l \<longleftrightarrow> version_key v = version_key w"
    by blast+
qed


section \<open>When there is a key\<close>

definition encodable :: "int list \<Rightarrow> bool" where
  "encodable xs \<longleftrightarrow> (\<forall>x \<in> set xs. 0 \<le> x \<and> byte_length x \<le> 255)"

lemma encode_seq_defined: "(\<exists>k. encode_seq xs = Inr k) \<longleftrightarrow> encodable xs"
  by (induction xs) (auto simp: encode_seq_Nil encode_seq_Cons encodable_def encode_component_Inr)

lemma version_sortkey_defined:
  "(\<exists>k. version_sortkey v = Inr k) \<longleftrightarrow>
     encodable (ds_vals (release v))
     \<and> (\<forall>b. branch v = Some b \<longrightarrow> encodable (ds_vals b))
     \<and> (\<forall>t. timestr v = Some t \<longrightarrow> list_all (\<lambda>c. code c < 128) t)"
  unfolding encode_seq_defined [symmetric]
  by (auto simp: version_sortkey_def sbind_eq_Inr encode_ascii_def split: option.splits)

section \<open>Properties\<close>

text \<open>
  C7. The binary sort key orders exactly as the versions compare: comparing two keys byte by byte
  gives the comparison of the releases, branches and time stamps, and keys are equal only for
  equal versions.
\<close>

lemma sortkey_orders_versions:
  assumes "version_wf v" "version_wf w"
    and "version_sortkey v = Inr k" and "version_sortkey w = Inr l"
  shows "version_lt v w = Inr (k < l) \<and> version_eq v w = (k = l)"
  using version_sortkey_order [OF assms(3,4)] version_lt_key [OF assms(1,2)] version_eq_key
  by simp

lemma sortkey_orders_versions_witness:
  "version_lt
     \<lparr>release = \<lparr>ds_vals = [9], ds_str = ''9''\<rparr>, branch = None,
      build_release = \<lparr>ds_vals = [5], ds_str = ''5''\<rparr>, timestr = None\<rparr>
     \<lparr>release = \<lparr>ds_vals = [10], ds_str = ''10''\<rparr>, branch = None,
      build_release = \<lparr>ds_vals = [5], ds_str = ''5''\<rparr>, timestr = None\<rparr>
   = Inr ([1, 9, 0, 0, 0] < ([1, 10, 0, 0, 0] :: byte list))"
proof -
  have k: "version_sortkey
     \<lparr>release = \<lparr>ds_vals = [9], ds_str = ''9''\<rparr>, branch = None,
      build_release = \<lparr>ds_vals = [5], ds_str = ''5''\<rparr>, timestr = None\<rparr> = Inr [1, 9, 0, 0, 0]"
    "version_sortkey
     \<lparr>release = \<lparr>ds_vals = [10], ds_str = ''10''\<rparr>, branch = None,
      build_release = \<lparr>ds_vals = [5], ds_str = ''5''\<rparr>, timestr = None\<rparr> = Inr [1, 10, 0, 0, 0]"
    by code_simp+
  show ?thesis
    by (rule sortkey_orders_versions [THEN conjunct1])
      (simp_all only: k, simp_all add: version_wf_def)
qed

text \<open>
  C18. When the sort key can be computed: every component must fit the encoding and the time stamp
  must be ASCII.  The parser lets through a component that does not: white space before a minus
  sign hides it from the check for negative numbers, and the key of the version \<open>1- -5\<close> then
  raises an exception that is not a version error.
\<close>

lemma sortkey_defined_and_negative:
  "((\<exists>k. version_sortkey v = Inr k) \<longleftrightarrow>
     encodable (ds_vals (release v))
     \<and> (case branch v of None \<Rightarrow> True | Some b \<Rightarrow> encodable (ds_vals b))
     \<and> (case timestr v of None \<Rightarrow> True | Some t \<Rightarrow> list_all (\<lambda>c. code c < 128) t))
   \<and> (\<exists>w. version_init ''1- -5'' None = Inr w \<and> version_sortkey w = Inl (VPy OverflowError))"
proof -
  have "version_init ''1- -5'' None = Inr
      \<lparr>release = \<lparr>ds_vals = [1], ds_str = ''1''\<rparr>,
       branch = Some \<lparr>ds_vals = [-5], ds_str = '' -5''\<rparr>,
       build_release = \<lparr>ds_vals = [5, 11], ds_str = ''5.11''\<rparr>, timestr = None\<rparr>"
    "version_sortkey
      \<lparr>release = \<lparr>ds_vals = [1], ds_str = ''1''\<rparr>,
       branch = Some \<lparr>ds_vals = [-5], ds_str = '' -5''\<rparr>,
       build_release = \<lparr>ds_vals = [5, 11], ds_str = ''5.11''\<rparr>, timestr = None\<rparr> = Inl (VPy OverflowError)"
    by code_simp+
  then show ?thesis unfolding version_sortkey_defined by (auto split: option.splits)
qed

end
