(* ===== verification/Matching_Version.thy ===== *)
theory Matching_Version
  imports Pkg_Version
begin

text \<open>
  \<open>MatchingDotSequence\<close> and \<open>MatchingVersion\<close> of \<open>src/src/modules/version.py\<close>: user input with
  wild cards.  A component is a number or \<open>*\<close>.  Both classes accept a plain \<open>DotSequence\<close> or
  \<open>Version\<close> as the other operand; \<open>plain_ds\<close> and \<open>plain_version\<close> embed those.  In a \<open>gversion\<close> a
  release of \<open>None\<close> is the slot that \<open>MatchingVersion.__init__\<close> leaves unset when the release
  is empty: reading it raises \<open>AttributeError\<close>.
\<close>

section \<open>Dot sequences with wild cards\<close>

datatype comp = CNum int | CStar

record mdotseq =
  md_vals :: "comp list"
  md_str :: string

definition plain_ds :: "dotseq \<Rightarrow> mdotseq" where
  "plain_ds d = \<lparr>md_vals = map CNum (ds_vals d), md_str = ds_str d\<rparr>"

definition mdotsequence_val :: "string \<Rightarrow> comp option" where
  "mdotsequence_val elem =
     (if elem = ''*'' then Some CStar else map_option CNum (dotsequence_val elem))"

definition mdotseq_init :: "string \<Rightarrow> version_exn + mdotseq" where
  "mdotseq_init dotstring =
     (case those (map mdotsequence_val (split_on CHR ''.'' dotstring)) of
        None \<Rightarrow> Inl (IllegalDotSequence dotstring)
      | Some xs \<Rightarrow>
          if xs = [] then Inl (IllegalDotSequence ''Empty MatchingDotSequence'')
          else Inr \<lparr>md_vals = xs, md_str = dotstring\<rparr>)"

text \<open>
  One round of the loop of \<open>__eq__\<close> and \<open>__ne__\<close>: inside both sequences the components must
  agree or one be \<open>*\<close>; past the end of one, its last component stands in for the missing one.
\<close>

definition star_agree :: "comp \<Rightarrow> comp \<Rightarrow> bool" where
  "star_agree a b \<longleftrightarrow> a = CStar \<or> b = CStar"

definition mds_round :: "comp list \<Rightarrow> comp list \<Rightarrow> nat \<Rightarrow> bool" where
  "mds_round xs ys i =
     (if i < length xs \<and> i < length ys then xs ! i = ys ! i \<or> star_agree (xs ! i) (ys ! i)
      else if length xs < i + 1 \<and> \<not> star_agree (last xs) (ys ! i) then False
      else if length ys < i + 1 \<and> \<not> star_agree (xs ! i) (last ys) then False
      else True)"

definition mds_eq :: "comp list \<Rightarrow> comp list \<Rightarrow> bool" where
  "mds_eq xs ys = list_all (mds_round xs ys) [0 ..< max (length xs) (length ys)]"

definition m_is_subsequence :: "mdotseq \<Rightarrow> mdotseq \<Rightarrow> bool" where
  "m_is_subsequence self other =
     (if md_str self = ''*'' \<or> md_str other = ''*'' then True
      else if length (md_vals self) > length (md_vals other) then False
      else list_all (\<lambda>(a, b). a = b) (zip (md_vals self) (md_vals other)))"

definition m_is_same_major :: "mdotseq \<Rightarrow> mdotseq \<Rightarrow> version_exn + bool" where
  "m_is_same_major self other =
     sbind (seq_get (md_vals self) 0) (\<lambda>a.
       if a = CStar then Inr True
       else sbind (seq_get (md_vals other) 0) (\<lambda>b. Inr (b = CStar \<or> a = b)))"

definition m_is_same_minor :: "mdotseq \<Rightarrow> mdotseq \<Rightarrow> version_exn + bool" where
  "m_is_same_minor self other =
     sbind (seq_get (md_vals self) 0) (\<lambda>a. if a = CStar then Inr True else
     sbind (seq_get (md_vals other) 0) (\<lambda>b. if b = CStar then Inr True else
     sbind (seq_get (md_vals self) 1) (\<lambda>c. if c = CStar then Inr True else
     sbind (seq_get (md_vals other) 1) (\<lambda>d. Inr (d = CStar \<or> (a = b \<and> c = d))))))"

text \<open>\<open>list.__lt__\<close> on components: comparing a number with \<open>*\<close> raises \<open>TypeError\<close>.\<close>

fun comp_lt :: "comp \<Rightarrow> comp \<Rightarrow> version_exn + bool" where
  "comp_lt (CNum a) (CNum b) = Inr (a < b)"
| "comp_lt CStar CStar = Inr False"
| "comp_lt _ _ = Inl (VPy TypeError)"

fun comps_lt :: "comp list \<Rightarrow> comp list \<Rightarrow> version_exn + bool" where
  "comps_lt [] [] = Inr False"
| "comps_lt [] (y # ys) = Inr True"
| "comps_lt (x # xs) [] = Inr False"
| "comps_lt (x # xs) (y # ys) = (if x = y then comps_lt xs ys else comp_lt x y)"

section \<open>Versions with wild cards\<close>

record gversion =
  g_release :: "mdotseq option"
  g_build :: "mdotseq option"
  g_branch :: "mdotseq option"
  g_time :: "string option"

record mversion = gversion +
  match_latest :: bool
  original :: string

definition plain_version :: "version \<Rightarrow> gversion" where
  "plain_version v =
     \<lparr>g_release = Some (plain_ds (release v)), g_build = Some (plain_ds (build_release v)),
      g_branch = map_option plain_ds (branch v), g_time = timestr v\<rparr>"

text \<open>The first of the alternatives that is neither \<open>None\<close> nor empty.\<close>

fun first_value :: "string option list \<Rightarrow> string option" where
  "first_value [] = None"
| "first_value (v # vs) = (if str_true v then v else first_value vs)"

definition opt_mdotseq_init :: "string option \<Rightarrow> version_exn + mdotseq option" where
  "opt_mdotseq_init x =
     (case x of None \<Rightarrow> Inr None | Some s \<Rightarrow> sbind (mdotseq_init s) (\<lambda>d. Inr (Some d)))"

definition mversion_init :: "string \<Rightarrow> string option \<Rightarrow> version_exn + mversion" where
  "mversion_init version_string build_string =
     (if version_string = [] then Inl (IllegalVersion ''Version cannot be empty'')
      else
        let latest = (version_string = ''latest'');
            ((release, build, branch, time), short) =
              version_split (if latest then ''*'' else version_string);
            build_release = (if build = [] then build_string else Some build)
        in catch_dotseq (
           sbind (opt_mdotseq_init (first_value [Some release])) (\<lambda>rel.
           sbind (opt_mdotseq_init (first_value [build_release, Some ''*''])) (\<lambda>bld.
           sbind (opt_mdotseq_init (first_value [branch, Some ''*''])) (\<lambda>br.
           Inr \<lparr>g_release = rel, g_build = bld, g_branch = br,
                g_time = first_value [time, Some ''*''],
                match_latest = latest,
                original = release
                  @ (case build_release of None \<Rightarrow> [] | Some b \<Rightarrow> '','' @ b)
                  @ (case branch of None \<Rightarrow> [] | Some b \<Rightarrow> ''-'' @ b)
                  @ (case time of None \<Rightarrow> [] | Some t \<Rightarrow> '':'' @ t)\<rparr>)))))"

definition mversion_str :: "mversion \<Rightarrow> string" where
  "mversion_str v = (if match_latest v then ''latest'' else original v)"

section \<open>Comparison\<close>

definition m_opt_eq :: "mdotseq option \<Rightarrow> mdotseq option \<Rightarrow> bool" where
  "m_opt_eq a b =
     (case (a, b) of (Some x, Some y) \<Rightarrow> mds_eq (md_vals x) (md_vals y) | _ \<Rightarrow> False)"

definition m_opt_lt :: "mdotseq option \<Rightarrow> mdotseq option \<Rightarrow> version_exn + bool" where
  "m_opt_lt a b =
     (case (a, b) of (Some x, Some y) \<Rightarrow> comps_lt (md_vals x) (md_vals y)
      | _ \<Rightarrow> Inl (VPy TypeError))"

definition is_star :: "mdotseq option \<Rightarrow> bool" where
  "is_star x = (case x of None \<Rightarrow> False | Some d \<Rightarrow> md_str d = ''*'')"

definition need_release :: "'a gversion_scheme \<Rightarrow> (mdotseq \<Rightarrow> version_exn + 'b) \<Rightarrow> version_exn + 'b" where
  "need_release v f = sbind (of_option (VPy AttributeError) (g_release v)) f"

definition mversion_eq :: "'a gversion_scheme \<Rightarrow> 'b gversion_scheme \<Rightarrow> version_exn + bool" where
  "mversion_eq self other =
     need_release self (\<lambda>a. need_release other (\<lambda>b.
       Inr (mds_eq (md_vals a) (md_vals b)
            \<and> m_opt_eq (g_build self) (g_build other)
            \<and> m_opt_eq (g_branch self) (g_branch other)
            \<and> (g_time self = g_time other
               \<or> Some ''*'' = g_time self \<or> Some ''*'' = g_time other))))"

text \<open>
  One component of \<open>__lt__\<close> and \<open>__gt__\<close>: the \<open>*\<close> test, the strict comparison, the wild-card
  inequality; \<open>star\<close> is the answer for a lone \<open>*\<close> and \<open>rest\<close> what follows on equality.
\<close>

definition cmp_step ::
  "(mdotseq option \<Rightarrow> mdotseq option \<Rightarrow> version_exn + bool) \<Rightarrow> bool
   \<Rightarrow> mdotseq option \<Rightarrow> mdotseq option \<Rightarrow> version_exn + bool \<Rightarrow> version_exn + bool" where
  "cmp_step cmp star a b rest =
     (if is_star a \<and> \<not> is_star b then Inr star
      else sbind (cmp a b) (\<lambda>r.
        if r then Inr True
        else if \<not> m_opt_eq a b then Inr False
        else rest))"

definition mversion_lt :: "'a gversion_scheme \<Rightarrow> 'b gversion_scheme \<Rightarrow> version_exn + bool" where
  "mversion_lt self other =
     need_release self (\<lambda>a. need_release other (\<lambda>b.
       cmp_step m_opt_lt True (Some a) (Some b)
         (cmp_step m_opt_lt True (g_build self) (g_build other)
           (cmp_step m_opt_lt True (g_branch self) (g_branch other)
             (if g_time self = Some ''*'' \<and> g_time other \<noteq> Some ''*'' then Inr True
              else opt_less (g_time self) (g_time other))))))"

definition mversion_gt :: "'a gversion_scheme \<Rightarrow> 'b gversion_scheme \<Rightarrow> version_exn + bool" where
  "mversion_gt self other =
     need_release self (\<lambda>a. need_release other (\<lambda>b.
       cmp_step (\<lambda>x y. m_opt_lt y x) False (Some a) (Some b)
         (cmp_step (\<lambda>x y. m_opt_lt y x) False (g_build self) (g_build other)
           (cmp_step (\<lambda>x y. m_opt_lt y x) False (g_branch self) (g_branch other)
             (if g_time self = Some ''*'' \<and> g_time other \<noteq> Some ''*'' then Inr False
              else opt_less (g_time other) (g_time self))))))"

text \<open>
  \<open>Version.is_successor\<close> for a \<open>MatchingVersion\<close> operand: the automatic constraint has its own
  branch, and the plain test \<open>self > other\<close> is answered by the operand's reflected \<open>__lt__\<close>.
\<close>

definition auto_part ::
  "mdotseq option \<Rightarrow> mdotseq option \<Rightarrow> bool" where
  "auto_part p s =
     (case (p, s) of
        (Some ob, Some sb) \<Rightarrow>
          if md_vals ob \<noteq> [] \<and> md_vals sb \<noteq> [] then m_is_subsequence ob sb
          else md_vals ob = [] \<or> md_str ob = ''*''
      | (Some ob, None) \<Rightarrow> md_vals ob = [] \<or> md_str ob = ''*''
      | (None, _) \<Rightarrow> True)"

definition auto_time :: "string option \<Rightarrow> string option \<Rightarrow> bool" where
  "auto_time p s =
     (if str_true s \<and> str_true p then p = s \<or> p = Some ''*''
      else \<not> str_true p \<or> p = Some ''*'')"

definition succ_auto_matching :: "version \<Rightarrow> mversion \<Rightarrow> version_exn + bool" where
  "succ_auto_matching self other =
     need_release other (\<lambda>r.
       if \<not> auto_part (Some r) (Some (plain_ds (release self))) then Inr False
       else if \<not> auto_part (g_branch other) (map_option plain_ds (branch self)) then Inr False
       else Inr (auto_time (g_time other) (timestr self)))"


section \<open>What the wild cards mean\<close>

lemma mdotseq_init_vals:
  "mdotseq_init s = Inr d \<Longrightarrow> md_str d = s \<and> md_vals d \<noteq> []
     \<and> map mdotsequence_val (split_on CHR ''.'' s) = map Some (md_vals d)"
  by (auto simp: mdotseq_init_def those_eq_Some split: option.splits if_splits)

lemma mds_eq_iff: "mds_eq xs ys \<longleftrightarrow> (\<forall>i < max (length xs) (length ys). mds_round xs ys i)"
  by (auto simp: mds_eq_def list_all_iff)

lemma star_agree_commute: "star_agree a b = star_agree b a"
  by (auto simp: star_agree_def)

lemma star_agree_simps [simp]:
  "star_agree CStar b" "star_agree a CStar" "\<not> star_agree (CNum m) (CNum n)"
  by (simp_all add: star_agree_def)

lemma mds_round_commute: "i < max (length xs) (length ys) \<Longrightarrow> mds_round xs ys i = mds_round ys xs i"
  by (auto simp: mds_round_def star_agree_commute)

lemma mds_eq_commute: "mds_eq xs ys = mds_eq ys xs"
  by (auto simp: mds_eq_iff mds_round_commute max.commute)

lemma mds_eq_plain:
  assumes "xs \<noteq> []" and "ys \<noteq> []"
  shows "mds_eq (map CNum xs) (map CNum ys) \<longleftrightarrow> xs = ys"
proof
  assume eq: "mds_eq (map CNum xs) (map CNum ys)"
  have "length zs \<le> length ws"
    if "mds_eq (map CNum zs) (map CNum ws)" "zs \<noteq> []" "ws \<noteq> []" for zs ws :: "int list"
  proof (rule ccontr)
    assume "\<not> length zs \<le> length ws"
    with that have "mds_round (map CNum zs) (map CNum ws) (length ws)" by (auto simp: mds_eq_iff)
    with that(3) \<open>\<not> length zs \<le> length ws\<close> show False by (simp add: mds_round_def last_map)
  qed
  from this [OF eq assms] this [OF eq [unfolded mds_eq_commute [of "map CNum xs"]] assms(2,1)]
  have len: "length xs = length ys" by simp
  show "xs = ys"
  proof (rule nth_equalityI [OF len])
    fix i assume "i < length xs"
    then show "xs ! i = ys ! i" using eq len by (auto simp: mds_eq_iff mds_round_def)
  qed
qed (auto simp: mds_eq_iff mds_round_def)

text \<open>A final \<open>*\<close> matches any further components, none included.\<close>

lemma mds_eq_star:
  assumes "ys \<noteq> []"
  shows "mds_eq (map CNum xs @ [CStar]) (map CNum ys) \<longleftrightarrow> prefix xs ys"
proof
  assume "prefix xs ys"
  then obtain zs where "ys = xs @ zs" by (auto elim: prefixE)
  then show "mds_eq (map CNum xs @ [CStar]) (map CNum ys)"
    by (auto simp: mds_eq_iff mds_round_def nth_append)
next
  assume eq: "mds_eq (map CNum xs @ [CStar]) (map CNum ys)"
  have len: "length xs \<le> length ys"
  proof (rule ccontr)
    assume "\<not> length xs \<le> length ys"
    with eq have "mds_round (map CNum xs @ [CStar]) (map CNum ys) (length ys)"
      by (auto simp: mds_eq_iff)
    with assms \<open>\<not> length xs \<le> length ys\<close> show False
      by (simp add: mds_round_def last_map nth_append)
  qed
  have "xs = take (length xs) ys"
  proof (rule nth_equalityI)
    fix i assume i: "i < length xs"
    with eq len have "mds_round (map CNum xs @ [CStar]) (map CNum ys) i" by (auto simp: mds_eq_iff)
    with i len show "xs ! i = take (length xs) ys ! i" by (simp add: mds_round_def nth_append)
  qed (use len in simp)
  then show "prefix xs ys" by (metis append_take_drop_id prefixI)
qed

lemma mds_eq_any: "mds_eq [CStar] (map CNum ys)"
  using mds_eq_star [of ys "[]"] by (cases ys) (auto simp: mds_eq_iff mds_round_def)

lemma prefix_map_CNum: "prefix (map CNum xs) (map CNum ys) \<longleftrightarrow> prefix xs ys"
proof (induction xs arbitrary: ys)
  case (Cons x xs)
  then show ?case by (cases ys) auto
qed simp

lemma m_is_subsequence_plain:
  assumes "md_vals p = map CNum xs" and "md_str p \<noteq> ''*''" and "ds_str d \<noteq> ''*''"
  shows "m_is_subsequence p (plain_ds d) \<longleftrightarrow> prefix xs (ds_vals d)"
proof (cases "length xs \<le> length (ds_vals d)")
  case True
  with assms show ?thesis
    by (simp add: m_is_subsequence_def plain_ds_def list_all_zip_eq prefix_map_CNum)
next
  case False
  with assms show ?thesis
    by (auto simp: m_is_subsequence_def plain_ds_def dest: prefix_length_le)
qed

lemma dotseq_init_not_star: "dotseq_init s = Inr d \<Longrightarrow> ds_str d \<noteq> ''*''"
  by (auto dest!: dotseq_init_vals
      simp: dotsequence_val_def py_int_def int_strip_def is_int_space_def code_def is_digit_def)

text \<open>
  Under the automatic constraint a pattern asks that each of its components is a prefix of the
  version's; \<open>*\<close> and \<open>latest\<close> ask nothing.
\<close>

definition wild :: "mdotseq option" where
  "wild = Some \<lparr>md_vals = [CStar], md_str = ''*''\<rparr>"

lemma mdotseq_init_star: "mdotseq_init ''*'' = Inr \<lparr>md_vals = [CStar], md_str = ''*''\<rparr>"
  by (simp add: mdotseq_init_def mdotsequence_val_def)

lemma auto_part_wild: "auto_part wild s"
  by (auto simp: auto_part_def wild_def m_is_subsequence_def split: option.splits)

lemma auto_time_wild: "auto_time (Some ''*'') t"
  by (auto simp: auto_time_def)

lemma mversion_latest:
  "mversion_init ''latest'' None =
     Inr \<lparr>g_release = wild, g_build = wild, g_branch = wild, g_time = Some ''*'',
          match_latest = True, original = ''*''\<rparr>"
  by (simp add: mversion_init_def version_split_def version_pieces_def Let_def str_true_def
      opt_mdotseq_init_def mdotseq_init_star catch_dotseq_def wild_def)

lemma succ_auto_matching_wild:
  assumes "g_release p = wild" and "g_branch p = wild" and "g_time p = Some ''*''"
  shows "succ_auto_matching v p = Inr True"
proof -
  obtain r where r: "wild = Some r" by (simp add: wild_def)
  have "auto_part (Some r) s" for s using auto_part_wild [of s] unfolding r .
  moreover have "g_release p = Some r" using assms(1) unfolding r .
  ultimately show ?thesis
    by (simp add: succ_auto_matching_def need_release_def auto_time_wild auto_part_wild assms(2,3))
qed

lemma latest_matches_all:
  "mversion_init ''latest'' None = Inr p \<Longrightarrow> succ_auto_matching v p = Inr True"
  using mversion_latest by (auto intro!: succ_auto_matching_wild)

lemma succ_auto_matching_release:
  assumes "g_release p = Some r" and "md_vals r = map CNum xs" and "xs \<noteq> []" and "md_str r \<noteq> ''*''"
    and "g_branch p = wild" and "g_time p = Some ''*''"
    and "version_init s b = Inr v"
  shows "succ_auto_matching v p = Inr (prefix xs (ds_vals (release v)))"
proof -
  have r: "dotseq_init (pc_release (version_pieces s)) = Inr (release v)"
    by (rule version_init_cases(3) [OF assms(7)])
  then have "ds_vals (release v) \<noteq> []" "ds_str (release v) \<noteq> ''*''"
    using dotseq_init_vals dotseq_init_not_star by blast+
  then have "auto_part (Some r) (Some (plain_ds (release v))) \<longleftrightarrow> prefix xs (ds_vals (release v))"
    using m_is_subsequence_plain [OF assms(2,4)] assms(2,3)
    by (simp add: auto_part_def plain_ds_def)
  then show ?thesis
    using assms by (simp add: succ_auto_matching_def need_release_def auto_part_wild auto_time_wild)
qed

section \<open>Properties\<close>

text \<open>
  A pattern that gives a release and leaves the branch and time open accepts, under the
  automatic constraint, exactly the versions whose release begins with the pattern's components.
\<close>

lemma pattern_release_prefix:
  assumes "g_release p = Some r" and "md_vals r = map CNum xs" and "xs \<noteq> []" and "md_str r \<noteq> ''*''"
    and "g_branch p = wild" and "g_time p = Some ''*''"
    and "version_init s b = Inr v"
  shows "succ_auto_matching v p = Inr (prefix xs (ds_vals (release v)))"
  by (rule succ_auto_matching_release [OF assms])

lemma pattern_release_prefix_witness:
  "succ_auto_matching
     \<lparr>release = \<lparr>ds_vals = [1, 20], ds_str = ''1.20''\<rparr>, branch = None,
      build_release = \<lparr>ds_vals = [5, 11], ds_str = ''5.11''\<rparr>, timestr = None\<rparr>
     \<lparr>g_release = Some \<lparr>md_vals = [CNum 1], md_str = ''1''\<rparr>, g_build = wild, g_branch = wild,
      g_time = Some ''*'', match_latest = False, original = ''1''\<rparr> = Inr (prefix [1] [1, 20])"
proof -
  have "version_init ''1.20'' None = Inr
     \<lparr>release = \<lparr>ds_vals = [1, 20], ds_str = ''1.20''\<rparr>, branch = None,
      build_release = \<lparr>ds_vals = [5, 11], ds_str = ''5.11''\<rparr>, timestr = None\<rparr>"
    by code_simp
  then show ?thesis
    using pattern_release_prefix [of "\<lparr>g_release = Some \<lparr>md_vals = [CNum 1], md_str = ''1''\<rparr>,
      g_build = wild, g_branch = wild, g_time = Some ''*'', match_latest = False, original = ''1''\<rparr>"
      "\<lparr>md_vals = [CNum 1], md_str = ''1''\<rparr>" "[1]"]
    by simp
qed

text \<open>
  Wildcards of dotted sequences: a trailing \<open>*\<close> makes equality a prefix test, equality of two
  plain sequences is equality of their numbers, and the pattern \<open>latest\<close> accepts every version
  under the automatic constraint.
\<close>

lemma wildcard_equality:
  "(\<exists>p. mversion_init ''latest'' None = Inr p \<and> succ_auto_matching v p = Inr True)
   \<and> (ys = [] \<or> mds_eq (map CNum xs @ [CStar]) (map CNum ys) = prefix xs ys)
   \<and> (xs = [] \<or> ys = [] \<or> mds_eq (map CNum xs) (map CNum ys) = (xs = ys))"
  using mversion_latest latest_matches_all mds_eq_star mds_eq_plain by blast

end
