(* ===== verification/Pkg_Glob.thy ===== *)
theory Pkg_Glob
  imports Pkg_Prelude
begin

text \<open>
  Shell patterns: what \<open>fnmatch.fnmatchcase\<close> and \<open>re.compile(fnmatch.translate(pat)).match\<close>
  decide, which \<open>fmri.glob_match\<close> and the facet patterns of \<open>Facets\<close> use.  A pattern is first
  cut into tokens; a character class is a list of ranges.
\<close>

section \<open>Tokens\<close>

datatype gtok = GStar | GAny | GLit char | GSet bool "(char \<times> char) list"

fun class_items :: "string \<Rightarrow> (char \<times> char) list" where
  "class_items [] = []"
| "class_items [x] = [(x, x)]"
| "class_items [x, y] = [(x, x), (y, y)]"
| "class_items (x # y # z # r) =
     (if y = CHR ''-'' then (x, z) # class_items r else (x, x) # class_items (y # z # r))"

text \<open>
  The text after a \<open>[\<close>: whether the class is negated, its body and what follows the closing
  bracket; \<open>None\<close> when there is no closing bracket.  A \<open>]\<close> right after the opening is literal.
\<close>

definition class_split :: "string \<Rightarrow> (bool \<times> string \<times> string) option" where
  "class_split s =
     (let neg = starts_with s ''!''; body = (if neg then tl s else s);
          skip = (if starts_with body '']'' then 1 else 0)
      in case py_find CHR '']'' (drop skip body) of
           None \<Rightarrow> None
         | Some j \<Rightarrow> Some (neg, take (skip + j) body, drop (Suc (skip + j)) body))"

lemma class_split_shorter: "class_split s = Some (n, b, r) \<Longrightarrow> length r < Suc (length s)"
  by (auto simp: class_split_def Let_def split: option.splits)

function glob_tokens :: "string \<Rightarrow> gtok list" where
  "glob_tokens [] = []"
| "glob_tokens (c # cs) =
     (if c = CHR ''*'' then GStar # glob_tokens cs
      else if c = CHR ''?'' then GAny # glob_tokens cs
      else if c = CHR ''['' then
        (case class_split cs of
           None \<Rightarrow> GLit c # glob_tokens cs
         | Some (neg, body, rest) \<Rightarrow> GSet neg (class_items body) # glob_tokens rest)
      else GLit c # glob_tokens cs)"
  by pat_completeness auto
termination
  by (relation "measure length") (auto dest: class_split_shorter)

section \<open>Matching\<close>

definition in_class :: "bool \<Rightarrow> (char \<times> char) list \<Rightarrow> char \<Rightarrow> bool" where
  "in_class neg items c \<longleftrightarrow> list_ex (\<lambda>(a, b). a \<le> c \<and> c \<le> b) items \<noteq> neg"

fun glob_toks_match :: "gtok list \<Rightarrow> string \<Rightarrow> bool" where
  "glob_toks_match [] s = (s = [])"
| "glob_toks_match (GStar # ts) [] = glob_toks_match ts []"
| "glob_toks_match (GStar # ts) (c # cs) =
     (glob_toks_match ts (c # cs) \<or> glob_toks_match (GStar # ts) cs)"
| "glob_toks_match (t # ts) [] = False"
| "glob_toks_match (GAny # ts) (c # cs) = glob_toks_match ts cs"
| "glob_toks_match (GLit d # ts) (c # cs) = (c = d \<and> glob_toks_match ts cs)"
| "glob_toks_match (GSet neg items # ts) (c # cs) =
     (in_class neg items c \<and> glob_toks_match ts cs)"

definition glob_match :: "string \<Rightarrow> string \<Rightarrow> bool" where
  "glob_match name pattern = glob_toks_match (glob_tokens pattern) name"

section \<open>What patterns match\<close>

definition glob_free :: "string \<Rightarrow> bool" where
  "glob_free p \<longleftrightarrow> set p \<inter> {CHR ''*'', CHR ''?'', CHR ''[''} = {}"

lemma glob_tokens_free: "glob_free p \<Longrightarrow> glob_tokens p = map GLit p"
  by (induction p) (auto simp: glob_free_def)

lemma glob_toks_match_lits: "glob_toks_match (map GLit p) s \<longleftrightarrow> s = p"
proof (induction p arbitrary: s)
  case (Cons c p)
  then show ?case by (cases s) auto
qed simp

text \<open>A pattern without wild cards matches only itself.\<close>

lemma glob_match_free: "glob_free p \<Longrightarrow> glob_match s p \<longleftrightarrow> s = p"
  by (simp add: glob_match_def glob_tokens_free glob_toks_match_lits)

lemma glob_toks_match_star_end: "glob_toks_match [GStar] s"
  by (induction s) auto

lemma glob_toks_match_prefix_star:
  "glob_toks_match (map GLit p @ [GStar]) s \<longleftrightarrow> starts_with s p"
proof (induction p arbitrary: s)
  case Nil
  show ?case by (simp add: glob_toks_match_star_end starts_with_def)
next
  case (Cons c p)
  then show ?case by (cases s) (auto simp: starts_with_def)
qed

lemma glob_tokens_append_star: "glob_free p \<Longrightarrow> glob_tokens (p @ ''*'') = map GLit p @ [GStar]"
  by (induction p) (auto simp: glob_free_def)

text \<open>\<open>p*\<close> matches exactly the strings that start with \<open>p\<close>.\<close>

lemma glob_match_prefix: "glob_free p \<Longrightarrow> glob_match s (p @ ''*'') \<longleftrightarrow> starts_with s p"
  by (simp add: glob_match_def glob_tokens_append_star glob_toks_match_prefix_star)

end
