(* ===== verification/Pkg_Fmri.thy ===== *)
theory Pkg_Fmri
  imports Pkg_Version Pkg_Glob
begin

text \<open>
  \<open>src/src/modules/fmri.py\<close>: package names with a publisher and a version.  \<open>fmri_init\<close> is
  \<open>PkgFmri.__init__\<close> on a string and \<open>fmri_make\<close> on a name and a version; the printers, the
  comparisons, the path fragments and the module functions follow in the order of the file.
  Names are matched by the regular expressions \<open>g_valid_pkg_name\<close> and
  \<open>MatchingPkgFmri.valid_pkg_name\<close>, written out as predicates.
\<close>

section \<open>Errors and state\<close>

datatype fmri_reason =
    BAD_VERSION version_exn
  | BAD_PACKAGENAME string
  | SYNTAX_ERROR string

datatype fmri_exn =
    IllegalFmri "string option" fmri_reason
  | IllegalMatchingFmri "string option" fmri_reason
  | MissingVersionError
  | FVersion version_exn
  | FPy py_exn

record fmri =
  f_publisher :: "string option"
  f_name :: string
  f_version :: "version option"

definition PREF_PUB_PFX :: string where "PREF_PUB_PFX = ''_PRE''"

definition PREF_PUB_PFX_us :: string where "PREF_PUB_PFX_us = PREF_PUB_PFX @ ''_''"

section \<open>Package names\<close>

text \<open>
  \<open>$\<close> in a Python regular expression also matches before a final line feed.
\<close>

definition at_dollar :: "(string \<Rightarrow> bool) \<Rightarrow> string \<Rightarrow> bool" where
  "at_dollar p s \<longleftrightarrow> p s \<or> (s \<noteq> [] \<and> last s = CHR 0x0A \<and> p (butlast s))"

definition name_char :: "char \<Rightarrow> bool" where
  "name_char c \<longleftrightarrow> is_alnum c \<or> c \<in> {CHR ''_'', CHR ''-'', CHR ''.'', CHR ''+''}"

definition name_part :: "string \<Rightarrow> bool" where
  "name_part p \<longleftrightarrow> (case p of [] \<Rightarrow> False | c # cs \<Rightarrow> is_alnum c \<and> list_all name_char cs)"

definition name_ok :: "string \<Rightarrow> bool" where
  "name_ok s \<longleftrightarrow> list_all name_part (split_on CHR ''/'' s)"

definition is_valid_pkg_name :: "string \<Rightarrow> bool" where
  "is_valid_pkg_name name = at_dollar name_ok name"

definition matching_name_ok :: "string \<Rightarrow> bool" where
  "matching_name_ok name =
     at_dollar (list_all (\<lambda>c. name_char c \<or> c \<in> {CHR ''/'', CHR ''*'', CHR ''?''})) name"

section \<open>Construction\<close>

record indexes =
  ix_ver :: "nat option"
  ix_name :: nat
  ix_pub :: "nat option"

definition missing_slash :: string where
  "missing_slash = ''Missing '' @ [CHR 0x27] @ ''/'' @ [CHR 0x27] @ '' after publisher name''"

definition gen_fmri_indexes :: "string \<Rightarrow> fmri_exn + indexes" where
  "gen_fmri_indexes fmri =
     (let veridx = py_rfind CHR ''@'' fmri in
      if starts_with fmri ''pkg://'' then
        (case py_find_in CHR ''/'' fmri 6 veridx of
           None \<Rightarrow> Inl (IllegalFmri (Some fmri) (SYNTAX_ERROR missing_slash))
         | Some i \<Rightarrow> Inr \<lparr>ix_ver = veridx, ix_name = i + 1, ix_pub = Some 6\<rparr>)
      else if starts_with fmri ''pkg:/'' then
        Inr \<lparr>ix_ver = veridx, ix_name = 5, ix_pub = None\<rparr>
      else if starts_with fmri ''//'' then
        (case py_find_in CHR ''/'' fmri 2 veridx of
           None \<Rightarrow> Inl (IllegalFmri (Some fmri) (SYNTAX_ERROR missing_slash))
         | Some i \<Rightarrow> Inr \<lparr>ix_ver = veridx, ix_name = i + 1, ix_pub = Some 2\<rparr>)
      else if starts_with fmri ''/'' then
        Inr \<lparr>ix_ver = veridx, ix_name = 1, ix_pub = None\<rparr>
      else Inr \<lparr>ix_ver = veridx, ix_name = 0, ix_pub = None\<rparr>)"

text \<open>The checks that end every construction; \<open>valid\<close> is the class's name expression.\<close>

definition fmri_finish ::
  "(string \<Rightarrow> bool) \<Rightarrow> string option \<Rightarrow> string option \<Rightarrow> string option \<Rightarrow> version option
     \<Rightarrow> fmri_exn + fmri" where
  "fmri_finish valid fmri publisher name ver =
     (let pub = (if str_true publisher then publisher else None) in
      case name of
        None \<Rightarrow> Inl (IllegalFmri fmri (SYNTAX_ERROR ''Missing package name''))
      | Some n \<Rightarrow>
          if n = [] then Inl (IllegalFmri fmri (SYNTAX_ERROR ''Missing package name''))
          else if \<not> valid n then Inl (IllegalFmri fmri (BAD_PACKAGENAME n))
          else Inr \<lparr>f_publisher = pub, f_name = n, f_version = ver\<rparr>)"

definition fmri_parse ::
  "(string \<Rightarrow> bool) \<Rightarrow> string \<Rightarrow> string option \<Rightarrow> string option \<Rightarrow> fmri_exn + fmri" where
  "fmri_parse valid fmri0 bld publisher =
     (let fmri = rstrip fmri0 in
      sbind (gen_fmri_indexes fmri) (\<lambda>ix.
        let pub = (case ix_pub ix of
                     Some p \<Rightarrow> Some (py_slice fmri (Some p) (Some (ix_name ix - 1)))
                   | None \<Rightarrow> publisher)
        in case ix_ver ix of
             None \<Rightarrow>
               fmri_finish valid (Some fmri) pub (Some (py_slice fmri (Some (ix_name ix)) None)) None
           | Some v \<Rightarrow>
               (case version_init (py_slice fmri (Some (v + 1)) None) bld of
                  Inl e \<Rightarrow> Inl (IllegalFmri (Some fmri) (BAD_VERSION e))
                | Inr ver \<Rightarrow>
                    fmri_finish valid (Some fmri) pub
                      (Some (py_slice fmri (Some (ix_name ix)) (Some v))) (Some ver))))"

definition fmri_init :: "string \<Rightarrow> string option \<Rightarrow> string option \<Rightarrow> fmri_exn + fmri" where
  "fmri_init = fmri_parse is_valid_pkg_name"

definition fmri_make ::
  "string option \<Rightarrow> string option \<Rightarrow> string option \<Rightarrow> string option \<Rightarrow> fmri_exn + fmri" where
  "fmri_make name ver bld publisher =
     (if str_true ver then
        (case version_init (the ver) bld of
           Inl e \<Rightarrow> Inl (FVersion e)
         | Inr v \<Rightarrow> fmri_finish is_valid_pkg_name None publisher name (Some v))
      else fmri_finish is_valid_pkg_name None publisher name None)"

definition matching_fmri_init ::
  "string \<Rightarrow> string option \<Rightarrow> string option \<Rightarrow> fmri_exn + fmri" where
  "matching_fmri_init fmri bld publisher =
     (case fmri_parse matching_name_ok fmri bld publisher of
        Inl (IllegalFmri f r) \<Rightarrow> Inl (IllegalMatchingFmri f r)
      | r \<Rightarrow> r)"

section \<open>Publishers\<close>

definition rsplit_last :: "char \<Rightarrow> string \<Rightarrow> string" where
  "rsplit_last c s = (case py_rfind c s of None \<Rightarrow> s | Some i \<Rightarrow> drop (Suc i) s)"

definition pub_preferred :: "string option \<Rightarrow> bool" where
  "pub_preferred p \<longleftrightarrow> \<not> str_true p \<or> starts_with (the p) PREF_PUB_PFX"

definition get_publisher :: "fmri \<Rightarrow> string option" where
  "get_publisher f =
     (case f_publisher f of
        Some p \<Rightarrow>
          if p \<noteq> [] \<and> starts_with p PREF_PUB_PFX then Some (rsplit_last CHR ''_'' p)
          else Some p
      | None \<Rightarrow> None)"

definition set_publisher :: "string \<Rightarrow> bool \<Rightarrow> fmri \<Rightarrow> fmri" where
  "set_publisher publisher preferred f =
     (if preferred \<and> \<not> starts_with publisher PREF_PUB_PFX
      then f\<lparr>f_publisher := Some (PREF_PUB_PFX @ ''_'' @ publisher)\<rparr>
      else f\<lparr>f_publisher := Some publisher\<rparr>)"

definition remove_publisher :: "fmri \<Rightarrow> fmri" where
  "remove_publisher f = f\<lparr>f_publisher := None\<rparr>"

definition has_publisher :: "fmri \<Rightarrow> bool" where
  "has_publisher f = str_true (f_publisher f)"

definition has_version :: "fmri \<Rightarrow> bool" where
  "has_version f = (f_version f \<noteq> None)"

definition preferred_publisher :: "fmri \<Rightarrow> bool" where
  "preferred_publisher f = pub_preferred (f_publisher f)"

definition strip_pub_pfx :: "string \<Rightarrow> string" where
  "strip_pub_pfx pub =
     (if starts_with pub PREF_PUB_PFX_us then drop (length PREF_PUB_PFX_us) pub else pub)"

definition is_same_publisher :: "string option \<Rightarrow> string option \<Rightarrow> bool" where
  "is_same_publisher pub1 pub2 =
     (if pub1 = pub2 then True
      else
        let p1 = (case pub1 of None \<Rightarrow> [] | Some p \<Rightarrow> p);
            p2 = (case pub2 of None \<Rightarrow> [] | Some p \<Rightarrow> p)
        in if PREF_PUB_PFX_us @ p1 = p2 \<or> p1 = PREF_PUB_PFX_us @ p2 then True
           else starts_with p1 PREF_PUB_PFX_us \<and> starts_with p2 PREF_PUB_PFX_us)"

section \<open>Strings\<close>

definition get_pkg_stem :: "fmri \<Rightarrow> bool \<Rightarrow> bool \<Rightarrow> string" where
  "get_pkg_stem f anarchy include_scheme =
     (if pub_preferred (f_publisher f) \<or> anarchy
      then (if include_scheme then ''pkg:/'' else []) @ f_name f
      else (if include_scheme then ''pkg://'' else [])
             @ the (f_publisher f) @ ''/'' @ f_name f)"

definition get_short_fmri :: "fmri \<Rightarrow> string option \<Rightarrow> bool \<Rightarrow> bool \<Rightarrow> string" where
  "get_short_fmri f default_publisher anarchy include_scheme =
     (let publisher = (if str_true (f_publisher f) then f_publisher f else default_publisher);
          version = (case f_version f of None \<Rightarrow> [] | Some v \<Rightarrow> ''@'' @ get_short_version v)
      in if pub_preferred publisher \<or> anarchy
         then (if include_scheme then ''pkg:/'' else []) @ f_name f @ version
         else (if include_scheme then ''pkg://'' else [])
                @ the publisher @ ''/'' @ f_name f @ version)"

definition get_fmri :: "fmri \<Rightarrow> string option \<Rightarrow> bool \<Rightarrow> bool \<Rightarrow> bool \<Rightarrow> string" where
  "get_fmri f default_publisher anarchy include_scheme include_build =
     (let publisher = (if f_publisher f = None then default_publisher else f_publisher f)
      in if pub_preferred publisher \<or> anarchy
         then (let pkg_str = (if include_scheme then ''pkg:/'' else []) in
               case f_version f of
                 None \<Rightarrow> pkg_str @ f_name f
               | Some v \<Rightarrow> pkg_str @ f_name f @ ''@'' @ get_version v include_build)
         else (let pkg_str = (if include_scheme then ''pkg://'' else []) in
               case f_version f of
                 None \<Rightarrow> pkg_str @ the publisher @ ''/'' @ f_name f
               | Some v \<Rightarrow>
                   pkg_str @ the publisher @ ''/'' @ f_name f @ ''@''
                     @ get_version v include_build))"

definition fmri_str :: "fmri \<Rightarrow> string" where
  "fmri_str f = get_fmri f None False True True"

text \<open>The loop of \<open>hierarchical_names\<close> prefixes one more name component per round.\<close>

fun hier_loop :: "string list \<Rightarrow> string \<Rightarrow> string list" where
  "hier_loop [] cur = [cur]"
| "hier_loop (n # ns) cur = cur # hier_loop ns (n @ ''/'' @ cur)"

definition hierarchical_names :: "fmri \<Rightarrow> string list" where
  "hierarchical_names f =
     (let names = split_on CHR ''/'' (f_name f)
      in hier_loop (rev (butlast names)) (last names))"

section \<open>Comparison\<close>

text \<open>Comparison of two versions of which either may be absent.\<close>

definition opt_version_lt :: "version option \<Rightarrow> version option \<Rightarrow> version_exn + bool" where
  "opt_version_lt a b =
     (case (a, b) of
        (Some v, Some w) \<Rightarrow> version_lt v w
      | (Some v, None) \<Rightarrow> Inr False
      | (None, Some w) \<Rightarrow> Inr True
      | (None, None) \<Rightarrow> Inl (VPy TypeError))"

definition opt_version_gt :: "version option \<Rightarrow> version option \<Rightarrow> version_exn + bool" where
  "opt_version_gt a b =
     (case (a, b) of
        (Some v, Some w) \<Rightarrow> version_gt v w
      | (Some v, None) \<Rightarrow> Inr True
      | (None, Some w) \<Rightarrow> Inr False
      | (None, None) \<Rightarrow> Inl (VPy TypeError))"

definition opt_version_eq :: "version option \<Rightarrow> version option \<Rightarrow> bool" where
  "opt_version_eq a b =
     (case (a, b) of (Some v, Some w) \<Rightarrow> version_eq v w | (None, None) \<Rightarrow> True | _ \<Rightarrow> False)"

definition fmri_eq :: "fmri \<Rightarrow> fmri \<Rightarrow> bool" where
  "fmri_eq self other \<longleftrightarrow>
     f_publisher self = f_publisher other \<and> f_name self = f_name other
     \<and> opt_version_eq (f_version self) (f_version other)"

definition fmri_lt :: "fmri \<Rightarrow> fmri \<Rightarrow> version_exn + bool" where
  "fmri_lt self other =
     (if f_publisher self \<noteq> f_publisher other then
        (if f_publisher self = None \<and> str_true (f_publisher other) then Inr True
         else if str_true (f_publisher self) \<and> f_publisher other = None then Inr False
         else opt_less (f_publisher self) (f_publisher other))
      else if f_name self < f_name other then Inr True
      else if f_name self \<noteq> f_name other then Inr False
      else if f_version self = None \<and> f_version other = None then Inr False
      else opt_version_lt (f_version self) (f_version other))"

definition fmri_gt :: "fmri \<Rightarrow> fmri \<Rightarrow> version_exn + bool" where
  "fmri_gt self other =
     (if f_publisher self \<noteq> f_publisher other then
        (if str_true (f_publisher self) \<and> f_publisher other = None then Inr True
         else if f_publisher self = None \<and> str_true (f_publisher other) then Inr False
         else opt_less (f_publisher other) (f_publisher self))
      else if f_name self > f_name other then Inr True
      else if f_name self \<noteq> f_name other then Inr False
      else if f_version self = None \<and> f_version other = None then Inr False
      else opt_version_gt (f_version self) (f_version other))"

definition fmri_is_successor :: "fmri \<Rightarrow> fmri \<Rightarrow> version_exn + bool" where
  "fmri_is_successor self other =
     (if f_name self \<noteq> f_name other then Inr False
      else if f_version self = None \<and> f_version other = None then Inr True
      else sbind (opt_version_lt (f_version self) (f_version other)) (\<lambda>r. Inr (\<not> r)))"

definition is_same_pkg :: "fmri \<Rightarrow> fmri \<Rightarrow> bool" where
  "is_same_pkg self other = (f_name self = f_name other)"

section \<open>Path fragments\<close>

text \<open>\<open>urllib.parse.quote(s, "")\<close>: UTF-8 bytes other than the always safe ones as \<open>%XX\<close>.\<close>

definition always_safe :: "char \<Rightarrow> bool" where
  "always_safe c \<longleftrightarrow> is_alnum c \<or> c \<in> {CHR ''_'', CHR ''.'', CHR ''-'', CHR ''~''}"

definition hex_digit :: "nat \<Rightarrow> char" where
  "hex_digit n = ''0123456789ABCDEF'' ! n"

definition percent :: "nat \<Rightarrow> string" where
  "percent b = [CHR ''%'', hex_digit (b div 16), hex_digit (b mod 16)]"

definition quote_char :: "char \<Rightarrow> string" where
  "quote_char c =
     (if always_safe c then [c]
      else if code c < 128 then percent (code c)
      else percent (192 + code c div 64) @ percent (128 + code c mod 64))"

definition quote :: "string \<Rightarrow> string" where
  "quote s = concat (map quote_char s)"

definition get_link_path :: "fmri \<Rightarrow> bool \<Rightarrow> fmri_exn + string" where
  "get_link_path f stemonly =
     (if stemonly then Inr (quote (f_name f))
      else case f_version f of
             None \<Rightarrow> Inl MissingVersionError
           | Some v \<Rightarrow> Inr (quote (f_name f) @ ''@'' @ quote (version_str v)))"

definition get_dir_path :: "fmri \<Rightarrow> bool \<Rightarrow> fmri_exn + string" where
  "get_dir_path f stemonly =
     (if stemonly then Inr (quote (f_name f))
      else case f_version f of
             None \<Rightarrow> Inl MissingVersionError
           | Some v \<Rightarrow> Inr (quote (f_name f) @ ''/'' @ quote (version_str v)))"

definition get_url_path :: "fmri \<Rightarrow> fmri_exn + string" where
  "get_url_path f =
     (case f_version f of
        None \<Rightarrow> Inl MissingVersionError
      | Some v \<Rightarrow> Inr (quote (f_name f) @ ''@'' @ quote (version_str v)))"

section \<open>Module functions\<close>

definition fmri_match :: "string \<Rightarrow> string \<Rightarrow> bool" where
  "fmri_match pkg_name pattern = ends_with (CHR ''/'' # pkg_name) (CHR ''/'' # pattern)"

definition exact_name_match :: "string \<Rightarrow> string \<Rightarrow> bool" where
  "exact_name_match pkg_name pattern = (pkg_name = pattern)"

text \<open>\<open>if veridx:\<close> also takes the \<open>else\<close> branch for the index \<open>0\<close>.\<close>

definition extract_pkg_name :: "string \<Rightarrow> fmri_exn + string" where
  "extract_pkg_name fmri0 =
     (let fmri = rstrip fmri0 in
      sbind (gen_fmri_indexes fmri) (\<lambda>ix.
        case ix_ver ix of
          Some v \<Rightarrow>
            if v \<noteq> 0 then Inr (py_slice fmri (Some (ix_name ix)) (Some v))
            else Inr (py_slice fmri (Some (ix_name ix)) None)
        | None \<Rightarrow> Inr (py_slice fmri (Some (ix_name ix)) None)))"


section \<open>Names and indexes\<close>

lemma dot_char_facts:
  "dot_char c \<or> c \<in> {CHR '','', CHR '':'', CHR ''T'', CHR ''Z''} \<Longrightarrow>
     c \<notin> {CHR ''@'', CHR ''/''}"
  by (auto simp: dot_char_def is_digit_def is_int_space_def code_def)

lemma name_char_facts: "name_char c \<Longrightarrow> c \<notin> {CHR ''@'', CHR ''/''} \<and> \<not> is_space c"
  by (auto simp: name_char_def is_alnum_def is_digit_def is_space_def code_def)

lemma is_alnum_name_char: "is_alnum c \<Longrightarrow> name_char c"
  by (simp add: name_char_def)

lemma name_part_chars: "name_part p \<Longrightarrow> p \<noteq> [] \<and> list_all name_char p"
  by (cases p) (auto simp: name_part_def is_alnum_name_char)

lemma name_ok_chars:
  assumes "name_ok s" and "c \<in> set s"
  shows "name_char c \<or> c = CHR ''/''"
proof (cases "c = CHR ''/''")
  case False
  with assms(2) obtain p where p: "p \<in> set (split_on CHR ''/'' s)" "c \<in> set p"
    using set_split_on by blast
  with assms(1) have "name_part p" by (auto simp: name_ok_def list_all_iff)
  with p(2) name_part_chars show ?thesis by (auto simp: list_all_iff)
qed simp

lemma name_ok_hd: "name_ok s \<Longrightarrow> \<exists>c r. s = c # r \<and> is_alnum c"
proof (cases s)
  case (Cons c r)
  assume ok: "name_ok s"
  obtain h t where ht: "split_on CHR ''/'' s = h # t" by (cases "split_on CHR ''/'' s") auto
  then have h: "name_part h" using ok by (simp add: name_ok_def)
  then obtain d ds where d: "h = d # ds" "is_alnum d" by (cases h) (auto simp: name_part_def)
  then have "d = c" using ht Cons by (auto split: if_splits list.splits)
  with d Cons show ?thesis by simp
qed (simp add: name_ok_def name_part_def)

lemma name_ok_last:
  assumes "name_ok s" shows "\<not> is_space (last s)"
proof -
  from name_ok_hd [OF assms] have "last s \<in> set s" by auto
  with name_ok_chars [OF assms] have "name_char (last s) \<or> last s = CHR ''/''" by blast
  then show ?thesis using name_char_facts by (auto simp: is_space_def code_def)
qed

lemma valid_name_hd: "is_valid_pkg_name s \<Longrightarrow> \<exists>c r. s = c # r \<and> is_alnum c"
proof -
  assume v: "is_valid_pkg_name s"
  then consider "name_ok s" | "s \<noteq> []" "name_ok (butlast s)"
    by (auto simp: is_valid_pkg_name_def at_dollar_def)
  then show ?thesis
  proof cases
    case 2
    then show ?thesis using name_ok_hd by (cases s) (fastforce split: if_splits)+
  qed (rule name_ok_hd)
qed

lemma valid_name_chars:
  assumes "is_valid_pkg_name s" and "c \<in> set s"
  shows "c \<noteq> CHR ''@''"
proof -
  consider "name_ok s" | "s \<noteq> []" "last s = CHR 0x0A" "name_ok (butlast s)"
    using assms(1) by (auto simp: is_valid_pkg_name_def at_dollar_def)
  then show ?thesis
  proof cases
    case 1
    then show ?thesis using name_ok_chars assms(2) name_char_facts by blast
  next
    case 2
    then have "c \<in> set (butlast s) \<or> c = CHR 0x0A"
      using assms(2) by (metis append_butlast_last_id in_set_conv_decomp insertE list.simps(15)
        set_ConsD set_append Un_iff empty_iff list.set(1))
    then show ?thesis using 2(3) name_ok_chars name_char_facts by blast
  qed
qed

lemma valid_name_last: "is_valid_pkg_name s \<Longrightarrow> is_space (last s) \<Longrightarrow> last s = CHR 0x0A"
  using name_ok_last by (auto simp: is_valid_pkg_name_def at_dollar_def)

text \<open>Because of the \<open>$\<close>, a name with a line feed after it is accepted too.\<close>

lemma valid_name_newline: "name_ok n \<Longrightarrow> is_valid_pkg_name (n @ [CHR 0x0A])"
  by (simp add: is_valid_pkg_name_def at_dollar_def)

section \<open>What construction establishes\<close>

definition printable :: "version \<Rightarrow> bool" where
  "printable v \<longleftrightarrow>
     (\<forall>b. version_init (version_str v) b = Inr v)
     \<and> CHR ''@'' \<notin> set (version_str v) \<and> \<not> is_space (last (version_str v))"

definition fmri_wf :: "fmri \<Rightarrow> bool" where
  "fmri_wf f \<longleftrightarrow>
     is_valid_pkg_name (f_name f)
     \<and> (\<forall>p. f_publisher f = Some p \<longrightarrow>
          p \<noteq> [] \<and> CHR ''/'' \<notin> set p \<and> (f_version f = None \<longrightarrow> CHR ''@'' \<notin> set p))
     \<and> (case f_version f of
          None \<Rightarrow> \<not> is_space (last (f_name f))
        | Some v \<Rightarrow> version_wf v \<and> printable v)"

lemma fmri_finish_Inr:
  "fmri_finish valid fmri pub name ver = Inr f \<longleftrightarrow>
     (\<exists>n. name = Some n \<and> n \<noteq> [] \<and> valid n
        \<and> f = \<lparr>f_publisher = (if str_true pub then pub else None), f_name = n, f_version = ver\<rparr>)"
  by (auto simp: fmri_finish_def Let_def split: option.splits if_splits)

lemma py_find_in_SomeE:
  assumes "py_find_in c s lo hi = Some i"
  shows "lo \<le> i" and "i < length s" and "s ! i = c" and "hi = Some h \<Longrightarrow> i < h"
    and "c \<notin> set (drop lo (take i s))"
proof -
  from assms obtain k where k: "py_find c (py_slice s (Some lo) hi) = Some k" "i = k + lo"
    by (auto simp: py_find_in_def)
  then obtain xs ys where xs: "py_slice s (Some lo) hi = xs @ c # ys" "c \<notin> set xs" "k = length xs"
    by (rule_tac py_find_SomeE) auto
  obtain t where t: "py_slice s (Some lo) hi = drop lo t" "t = (case hi of None \<Rightarrow> s | Some j \<Rightarrow> take j s)"
    by (simp add: py_slice_def)
  have len: "lo + k < length t"
    using xs t(1) by (metis add.commute length_append length_drop less_diff_conv list.size(4)
      add_Suc_right less_add_Suc1)
  have nth: "t ! (lo + k) = c"
    using xs t(1) by (metis len less_imp_le_nat nth_append_length nth_drop add_leE)
  show "lo \<le> i" using k by simp
  show "i < length s" using len t(2) k(2) by (auto split: option.splits)
  show "s ! i = c" using nth len t(2) k(2) by (auto simp: add.commute split: option.splits)
  show "hi = Some h \<Longrightarrow> i < h" using len t(2) k(2) by auto
  have "take k (drop lo t) = xs" using xs t(1) by simp
  then have "drop lo (take i t) = xs" using k(2) by (simp add: drop_take)
  moreover have "take i t = take i s"
    using len t(2) k(2) by (auto split: option.splits if_splits simp: min_def)
  ultimately show "c \<notin> set (drop lo (take i s))" using xs(2) by simp
qed


lemma gen_fmri_indexes_facts:
  assumes "gen_fmri_indexes s = Inr ix"
  shows "ix_ver ix = py_rfind CHR ''@'' s"
    and "ix_pub ix = Some p \<Longrightarrow> py_find_in CHR ''/'' s p (ix_ver ix) = Some (ix_name ix - 1)"
  using assms by (auto simp: gen_fmri_indexes_def Let_def split: option.splits if_splits)

definition ix_publisher :: "string \<Rightarrow> indexes \<Rightarrow> string option \<Rightarrow> string option" where
  "ix_publisher s ix p =
     (case ix_pub ix of Some k \<Rightarrow> Some (drop k (take (ix_name ix - 1) s)) | None \<Rightarrow> p)"

lemma fmri_parse_cases:
  assumes "fmri_parse valid s b p = Inr f"
  obtains (without) ix where "gen_fmri_indexes (rstrip s) = Inr ix" "ix_ver ix = None"
      "fmri_finish valid (Some (rstrip s)) (ix_publisher (rstrip s) ix p)
         (Some (drop (ix_name ix) (rstrip s))) None = Inr f"
  | (versioned) ix i v where "gen_fmri_indexes (rstrip s) = Inr ix" "ix_ver ix = Some i"
      "version_init (drop (i + 1) (rstrip s)) b = Inr v"
      "fmri_finish valid (Some (rstrip s)) (ix_publisher (rstrip s) ix p)
         (Some (drop (ix_name ix) (take i (rstrip s)))) (Some v) = Inr f"
proof -
  from assms obtain ix where ix: "gen_fmri_indexes (rstrip s) = Inr ix"
    by (auto simp: fmri_parse_def Let_def sbind_eq_Inr)
  show thesis
  proof (cases "ix_ver ix")
    case None
    with assms ix show ?thesis
      by (intro without) (auto simp: fmri_parse_def Let_def ix_publisher_def split: option.splits)
  next
    case (Some i)
    show ?thesis
    proof (cases "version_init (drop (i + 1) (rstrip s)) b")
      case (Inl e)
      with assms ix Some show ?thesis by (simp add: fmri_parse_def Let_def)
    next
      case (Inr v)
      with assms ix Some show ?thesis
        by (intro versioned) (auto simp: fmri_parse_def Let_def ix_publisher_def split: option.splits)
    qed
  qed
qed

lemma fmri_parse_name: "fmri_parse valid s b p = Inr f \<Longrightarrow> valid (f_name f) \<and> f_name f \<noteq> []"
  by (erule fmri_parse_cases) (auto simp: fmri_finish_Inr)

lemma ix_publisher_chars:
  assumes "gen_fmri_indexes s = Inr ix" and "ix_publisher s ix None = Some p"
  shows "CHR ''/'' \<notin> set p \<and> set p \<subseteq> set s"
proof -
  from assms(2) obtain k where k: "ix_pub ix = Some k" "p = drop k (take (ix_name ix - 1) s)"
    by (auto simp: ix_publisher_def split: option.splits)
  from gen_fmri_indexes_facts(2) [OF assms(1) k(1)] have "CHR ''/'' \<notin> set p"
    unfolding k(2) by (rule py_find_in_SomeE(5))
  then show ?thesis unfolding k(2) by (auto dest: in_set_dropD in_set_takeD)
qed

lemma fmri_parse_publisher:
  assumes "fmri_parse valid s b None = Inr f" and "f_publisher f = Some p"
  shows "p \<noteq> [] \<and> CHR ''/'' \<notin> set p \<and> set p \<subseteq> set (rstrip s)"
proof -
  from assms obtain ix where "gen_fmri_indexes (rstrip s) = Inr ix"
      "ix_publisher (rstrip s) ix None = Some p" "p \<noteq> []"
    by (elim fmri_parse_cases) (auto simp: fmri_finish_Inr str_true_def split: if_splits)
  then show ?thesis using ix_publisher_chars by blast
qed

lemma version_init_printable:
  assumes "version_init t None = Inr v" and "\<not> is_space (last t)"
  shows "printable v"
  unfolding printable_def
proof (intro conjI allI)
  show "version_init (version_str v) b = Inr v" for b
    by (rule version_roundtrip [OF assms(1)]) simp
  show "CHR ''@'' \<notin> set (version_str v)"
    using version_str_charset [OF assms(1)] dot_char_facts by blast
  show "\<not> is_space (last (version_str v))" by (rule version_str_last [OF assms])
qed

lemma fmri_init_wf:
  assumes "fmri_init s None None = Inr f"
  shows "fmri_wf f"
proof -
  note p = assms [unfolded fmri_init_def]
  from p show ?thesis
  proof (cases rule: fmri_parse_cases)
    case (without ix)
    then have "py_rfind CHR ''@'' (rstrip s) = None"
      using gen_fmri_indexes_facts(1) by metis
    then have "CHR ''@'' \<notin> set (rstrip s)" by (simp add: py_rfind_None)
    moreover have f: "f_version f = None" "f_name f = drop (ix_name ix) (rstrip s)"
      using without(3) by (auto simp: fmri_finish_Inr)
    moreover have "rstrip s \<noteq> []" "last (f_name f) = last (rstrip s)"
      using fmri_parse_name [OF p] f(2) by (auto simp: last_drop)
    ultimately show ?thesis
      using fmri_parse_name [OF p] fmri_parse_publisher [OF p] rstrip_last [of s]
      by (auto simp: fmri_wf_def)
  next
    case (versioned ix i v)
    let ?t = "drop (i + 1) (rstrip s)"
    have "?t \<noteq> []" using versioned(3) by (auto simp: version_init_def)
    then have "rstrip s \<noteq> []" "last ?t = last (rstrip s)" by (auto simp: last_drop)
    then have "printable v"
      using version_init_printable [OF versioned(3)] rstrip_last [of s] by simp
    moreover have "f_version f = Some v" using versioned(4) by (auto simp: fmri_finish_Inr)
    ultimately show ?thesis
      using fmri_parse_name [OF p] fmri_parse_publisher [OF p] version_init_wf [OF versioned(3)]
      by (auto simp: fmri_wf_def)
  qed
qed

section \<open>Printing and parsing\<close>

definition ver_part :: "fmri \<Rightarrow> string" where
  "ver_part f = (case f_version f of None \<Rightarrow> [] | Some v \<Rightarrow> CHR ''@'' # version_str v)"

definition pub_part :: "fmri \<Rightarrow> string" where
  "pub_part f = (if pub_preferred (f_publisher f) then ''pkg:/''
                 else ''pkg://'' @ the (f_publisher f) @ ''/'')"

lemma fmri_str_parts: "fmri_str f = pub_part f @ f_name f @ ver_part f"
  by (auto simp: fmri_str_def get_fmri_def pub_part_def ver_part_def Let_def
      version_str_get_version split: option.splits)

lemma fmri_str_rstrip:
  assumes "fmri_wf f" shows "rstrip (fmri_str f) = fmri_str f"
proof (rule rstrip_id, rule disjI2)
  have "f_name f \<noteq> []" using assms valid_name_hd by (fastforce simp: fmri_wf_def)
  then show "\<not> is_space (last (fmri_str f))"
    using assms
    by (auto simp: fmri_str_parts ver_part_def fmri_wf_def printable_def is_space_def code_def
        split: option.splits if_splits)
qed

lemma fmri_str_rfind:
  assumes "fmri_wf f" and "\<not> pub_preferred (f_publisher f) \<or> f_publisher f = None"
  shows "py_rfind CHR ''@'' (fmri_str f) =
     map_option (\<lambda>_. length (pub_part f @ f_name f)) (f_version f)"
proof (cases "f_version f")
  case None
  then have "CHR ''@'' \<notin> set (fmri_str f)"
    using assms valid_name_chars
    by (cases "f_publisher f")
      (auto simp: fmri_str_parts ver_part_def pub_part_def fmri_wf_def pub_preferred_def str_true_def)
  with None show ?thesis by (simp add: py_rfind_None)
next
  case (Some v)
  then have "CHR ''@'' \<notin> set (version_str v)" using assms by (simp add: fmri_wf_def printable_def)
  with Some show ?thesis
    using py_rfind_append [of "CHR ''@''" "version_str v" "pub_part f @ f_name f"]
    by (simp add: fmri_str_parts ver_part_def)
qed

lemma fmri_str_indexes:
  assumes "fmri_wf f" and "\<not> pub_preferred (f_publisher f) \<or> f_publisher f = None"
  shows "gen_fmri_indexes (fmri_str f) = Inr
    \<lparr>ix_ver = map_option (\<lambda>_. length (pub_part f @ f_name f)) (f_version f),
     ix_name = length (pub_part f),
     ix_pub = (if f_publisher f = None then None else Some 6)\<rparr>"
proof (cases "f_publisher f")
  case None
  then have "pub_part f = ''pkg:/''" by (simp add: pub_part_def pub_preferred_def str_true_def)
  moreover obtain c r where "f_name f = c # r" "is_alnum c"
    using assms(1) valid_name_hd [of "f_name f"] by (auto simp: fmri_wf_def)
  moreover have "c \<noteq> CHR ''/''" using calculation(3) is_alnum_name_char name_char_facts by blast
  ultimately show ?thesis
    using fmri_str_rfind [OF assms] None
    by (auto simp: gen_fmri_indexes_def Let_def fmri_str_parts starts_with_def)
next
  case (Some p)
  with assms have p: "CHR ''/'' \<notin> set p" "pub_part f = ''pkg://'' @ p @ ''/''"
    by (auto simp: pub_part_def fmri_wf_def)
  have "py_slice (fmri_str f) (Some 6)
      (map_option (\<lambda>_. length (pub_part f @ f_name f)) (f_version f)) = p @ CHR ''/'' # f_name f"
    by (cases "f_version f") (simp_all add: fmri_str_parts p(2) ver_part_def)
  then have "py_find_in CHR ''/'' (fmri_str f) 6
      (map_option (\<lambda>_. length (pub_part f @ f_name f)) (f_version f)) = Some (6 + length p)"
    using p(1) by (simp add: py_find_in_def py_find_append)
  moreover have "starts_with (fmri_str f) ''pkg://''"
    by (simp add: fmri_str_parts p(2) starts_with_def)
  ultimately show ?thesis
    using fmri_str_rfind [OF assms] Some by (simp add: gen_fmri_indexes_def Let_def p(2))
qed

lemma fmri_roundtrip:
  assumes "fmri_wf f" and "\<not> pub_preferred (f_publisher f) \<or> f_publisher f = None"
  shows "fmri_init (fmri_str f) b None = Inr f"
proof -
  have pub: "f_publisher f = Some p \<Longrightarrow>
      drop 6 (take (length (pub_part f) - 1) (fmri_str f)) = p \<and> str_true (Some p)" for p
    using assms by (auto simp: fmri_str_parts pub_part_def fmri_wf_def str_true_def)
  have name: "f_name f \<noteq> []" "is_valid_pkg_name (f_name f)"
    using assms valid_name_hd by (fastforce simp: fmri_wf_def)+
  show ?thesis
  proof (cases "f_version f")
    case None
    then have "drop (length (pub_part f)) (fmri_str f) = f_name f"
      by (simp add: fmri_str_parts ver_part_def)
    then show ?thesis
      using fmri_str_indexes [OF assms] fmri_str_rstrip [OF assms(1)] None name pub
      by (cases "f_publisher f")
        (auto simp: fmri_init_def fmri_parse_def fmri_finish_def str_true_def)
  next
    case (Some v)
    then have "drop (Suc (length (pub_part f) + length (f_name f))) (fmri_str f) = version_str v"
      "drop (length (pub_part f)) (take (length (pub_part f) + length (f_name f)) (fmri_str f)) =
         f_name f"
      by (simp_all add: fmri_str_parts ver_part_def)
    moreover have "version_init (version_str v) b = Inr v"
      using assms(1) Some by (simp add: fmri_wf_def printable_def)
    ultimately show ?thesis
      using fmri_str_indexes [OF assms] fmri_str_rstrip [OF assms(1)] Some name pub
      by (cases "f_publisher f")
        (auto simp: fmri_init_def fmri_parse_def fmri_finish_def str_true_def)
  qed
qed

lemma fmri_roundtrip_preferred:
  assumes "fmri_wf f"
  shows "fmri_init (fmri_str f) b None =
    Inr (if pub_preferred (f_publisher f) then f\<lparr>f_publisher := None\<rparr> else f)"
proof (cases "pub_preferred (f_publisher f)")
  case True
  let ?g = "f\<lparr>f_publisher := None\<rparr>"
  have "fmri_str f = fmri_str ?g"
    using True by (simp add: fmri_str_parts pub_part_def ver_part_def pub_preferred_def str_true_def)
  moreover have "fmri_wf ?g" using assms by (auto simp: fmri_wf_def split: option.splits)
  ultimately show ?thesis using fmri_roundtrip [of ?g b] True by simp
next
  case False
  then show ?thesis using fmri_roundtrip [OF assms, of b] by simp
qed

lemma extract_pkg_name_agrees:
  assumes "fmri_init s b p = Inr f"
  shows "extract_pkg_name s = Inr (f_name f)"
  using assms [unfolded fmri_init_def]
proof (cases rule: fmri_parse_cases)
  case (without ix)
  then show ?thesis by (auto simp: extract_pkg_name_def Let_def fmri_finish_Inr)
next
  case (versioned ix i v)
  then have "i \<noteq> 0" "f_name f = drop (ix_name ix) (take i (rstrip s))"
    by (auto simp: fmri_finish_Inr)
  with versioned show ?thesis by (simp add: extract_pkg_name_def Let_def)
qed


section \<open>The order of package names\<close>

text \<open>
  The abstract order: publisher, then name, then version, an absent publisher or version first.
\<close>

type_synonym fmri_sort_key =
  "string option \<times> string \<times> (int list \<times> int list option \<times> string option) option"

definition fmri_key :: "fmri \<Rightarrow> fmri_sort_key" where
  "fmri_key f = (f_publisher f, f_name f, map_option version_key (f_version f))"

definition fmri_cmp_wf :: "fmri \<Rightarrow> bool" where
  "fmri_cmp_wf f \<longleftrightarrow> f_publisher f \<noteq> Some [] \<and> (\<forall>v. f_version f = Some v \<longrightarrow> version_wf v)"

lemma fmri_wf_cmp: "fmri_wf f \<Longrightarrow> fmri_cmp_wf f"
  by (auto simp: fmri_wf_def fmri_cmp_wf_def)

lemma fmri_lt_key:
  assumes "fmri_cmp_wf f" and "fmri_cmp_wf g"
  shows "fmri_lt f g = Inr (fmri_key f < fmri_key g)"
  using assms
  by (cases "f_publisher f"; cases "f_publisher g"; cases "f_version f"; cases "f_version g")
    (auto simp: fmri_lt_def fmri_key_def fmri_cmp_wf_def less_prod_def opt_less_def str_true_def
      opt_version_lt_def version_lt_key order_le_less)

lemma fmri_gt_key:
  assumes "fmri_cmp_wf f" and "fmri_cmp_wf g"
  shows "fmri_gt f g = Inr (fmri_key g < fmri_key f)"
  using assms
  by (cases "f_publisher f"; cases "f_publisher g"; cases "f_version f"; cases "f_version g")
    (auto simp: fmri_gt_def fmri_key_def fmri_cmp_wf_def less_prod_def opt_less_def str_true_def
      opt_version_gt_def version_gt_key order_le_less)

lemma fmri_eq_key: "fmri_eq f g \<longleftrightarrow> fmri_key f = fmri_key g"
  by (cases "f_version f"; cases "f_version g")
    (auto simp: fmri_eq_def fmri_key_def opt_version_eq_def version_eq_key)

interpretation fmri_order: keyed_order fmri_key
  "\<lambda>f g. fmri_lt f g = Inr True" fmri_eq fmri_cmp_wf
  by unfold_locales (simp_all add: fmri_lt_key fmri_eq_key)

lemma fmri_is_successor_key:
  assumes "fmri_cmp_wf f" and "fmri_cmp_wf g"
  shows "fmri_is_successor f g = Inr (f_name f = f_name g
     \<and> map_option version_key (f_version g) \<le> map_option version_key (f_version f))"
  using assms
  by (cases "f_version f"; cases "f_version g")
    (auto simp: fmri_is_successor_def fmri_cmp_wf_def opt_version_lt_def version_lt_key)

section \<open>Publisher prefixes\<close>

lemma get_set_publisher:
  assumes "p \<noteq> []" and "CHR ''_'' \<notin> set p"
  shows "get_publisher (set_publisher p preferred f) = Some p"
proof -
  have np: "\<not> starts_with p PREF_PUB_PFX"
    using assms by (auto simp: starts_with_iff PREF_PUB_PFX_def)
  have "py_rfind CHR ''_'' (PREF_PUB_PFX @ ''_'' @ p) = Some (length PREF_PUB_PFX)"
    using py_rfind_append [OF assms(2), of PREF_PUB_PFX] by simp
  then show ?thesis
    using np by (simp add: get_publisher_def set_publisher_def rsplit_last_def)
qed

lemma set_publisher_preferred:
  "preferred_publisher (set_publisher p True f)"
  by (auto simp: preferred_publisher_def pub_preferred_def set_publisher_def)

lemma is_same_publisher_refl: "is_same_publisher p p"
  by (simp add: is_same_publisher_def)

lemma is_same_publisher_sym: "is_same_publisher p q = is_same_publisher q p"
  by (auto simp: is_same_publisher_def Let_def)

lemma is_same_publisher_prefixed:
  "is_same_publisher (Some p) (Some (PREF_PUB_PFX_us @ p))"
  by (simp add: is_same_publisher_def)

text \<open>It is no equivalence: two different names are both the same as a preferred one.\<close>

lemma is_same_publisher_not_trans:
  "is_same_publisher (Some ''a'') (Some ''_PRE_a'')"
  "is_same_publisher (Some ''_PRE_a'') (Some ''_PRE_b'')"
  "is_same_publisher (Some ''_PRE_b'') (Some ''b'')"
  "\<not> is_same_publisher (Some ''a'') (Some ''b'')"
  by (simp_all add: is_same_publisher_def PREF_PUB_PFX_us_def PREF_PUB_PFX_def starts_with_def)

section \<open>Hierarchical names\<close>

lemma join_with_append:
  "xs \<noteq> [] \<Longrightarrow> ys \<noteq> [] \<Longrightarrow> join_with c (xs @ ys) = join_with c xs @ c # join_with c ys"
proof (induction xs)
  case (Cons x xs)
  obtain y ys' where y: "ys = y # ys'" using Cons.prems by (cases ys) auto
  show ?case using Cons by (cases xs) (auto simp: y)
qed simp

lemma hier_loop_set:
  "p \<in> set (hier_loop (rev ns) cur) \<longleftrightarrow>
     (\<exists>i \<le> length ns. p = join_with CHR ''/'' (drop i ns @ [cur]))"
proof (induction ns arbitrary: cur rule: rev_induct)
  case Nil
  show ?case by simp
next
  case (snoc n ns)
  let ?j = "join_with CHR ''/''"
  have eq: "?j (drop i ns @ [n @ CHR ''/'' # cur]) = ?j (drop i ns @ [n, cur])" for i
  proof (cases "drop i ns")
    case Nil
    then show ?thesis by simp
  next
    case (Cons x xs)
    then show ?thesis
      using join_with_append [of "x # xs" "[n @ CHR ''/'' # cur]" "CHR ''/''"]
        join_with_append [of "x # xs" "[n, cur]" "CHR ''/''"] by simp
  qed
  have "(\<exists>i \<le> length (ns @ [n]). p = ?j (drop i (ns @ [n]) @ [cur])) \<longleftrightarrow>
      (\<exists>i \<le> length ns. p = ?j (drop i ns @ [n, cur])) \<or> p = cur"
    by (auto simp: le_Suc_eq intro: exI [of _ "Suc (length ns)"])
  moreover have "p \<in> set (hier_loop (rev ns) (n @ CHR ''/'' # cur)) \<longleftrightarrow>
      (\<exists>i \<le> length ns. p = ?j (drop i ns @ [n, cur]))"
    using snoc.IH [of "n @ CHR ''/'' # cur"] unfolding eq .
  ultimately show ?case by auto
qed

lemma split_join: "xs \<noteq> [] \<Longrightarrow> \<forall>x \<in> set xs. c \<notin> set x \<Longrightarrow> split_on c (join_with c xs) = xs"
proof (induction xs)
  case (Cons x xs)
  show ?case
  proof (cases xs)
    case Nil
    with Cons show ?thesis by (simp add: split_on_notin)
  next
    case (Cons y ys)
    then show ?thesis using Cons.IH Cons.prems split_on_append [of c x] by (simp add: split_on_notin)
  qed
qed simp

lemma hierarchical_names_set:
  "p \<in> set (hierarchical_names f) \<longleftrightarrow>
     (\<exists>i < length (split_on CHR ''/'' (f_name f)).
        split_on CHR ''/'' p = drop i (split_on CHR ''/'' (f_name f)))"
proof -
  obtain B l where ns: "split_on CHR ''/'' (f_name f) = B @ [l]"
    by (metis rev_exhaust split_on_nonempty)
  have clean: "\<forall>x \<in> set (B @ [l]). CHR ''/'' \<notin> set x"
    unfolding ns [symmetric] using split_on_notin_set by blast
  have "p = join_with CHR ''/'' (drop i B @ [l]) \<longleftrightarrow> split_on CHR ''/'' p = drop i (B @ [l])"
    if "i \<le> length B" for i
  proof -
    have "\<forall>x \<in> set (drop i B @ [l]). CHR ''/'' \<notin> set x" using clean in_set_dropD by fastforce
    then have "split_on CHR ''/'' (join_with CHR ''/'' (drop i B @ [l])) = drop i B @ [l]"
      by (intro split_join) simp_all
    then show ?thesis using that join_split [of "CHR ''/''" p] by fastforce
  qed
  then have "(\<exists>i \<le> length B. p = join_with CHR ''/'' (drop i B @ [l])) \<longleftrightarrow>
      (\<exists>i \<le> length B. split_on CHR ''/'' p = drop i (B @ [l]))" by blast
  then show ?thesis
    unfolding hierarchical_names_def Let_def ns butlast_snoc last_snoc hier_loop_set
    by (simp add: less_Suc_eq_le)
qed

lemma fmri_match_split:
  "fmri_match name p \<longleftrightarrow>
     (\<exists>i < length (split_on CHR ''/'' name). split_on CHR ''/'' p = drop i (split_on CHR ''/'' name))"
proof
  assume "fmri_match name p"
  then obtain r where r: "CHR ''/'' # name = r @ CHR ''/'' # p"
    by (auto simp: fmri_match_def ends_with_iff)
  show "\<exists>i < length (split_on CHR ''/'' name). split_on CHR ''/'' p = drop i (split_on CHR ''/'' name)"
  proof (cases r)
    case Nil
    then show ?thesis using r by (auto intro!: exI [of _ 0])
  next
    case (Cons c q)
    then have "split_on CHR ''/'' name = split_on CHR ''/'' q @ split_on CHR ''/'' p"
      using r split_on_append by simp
    then show ?thesis by (auto intro!: exI [of _ "length (split_on CHR ''/'' q)"])
  qed
next
  assume "\<exists>i < length (split_on CHR ''/'' name). split_on CHR ''/'' p = drop i (split_on CHR ''/'' name)"
  then obtain i where i: "split_on CHR ''/'' p = drop i (split_on CHR ''/'' name)" by blast
  show "fmri_match name p"
  proof (cases "take i (split_on CHR ''/'' name) = []")
    case True
    then have "split_on CHR ''/'' p = split_on CHR ''/'' name"
      using i append_take_drop_id [of i "split_on CHR ''/'' name"] by simp
    then have "p = name" by (metis join_split)
    then show ?thesis by (simp add: fmri_match_def ends_with_iff)
  next
    case False
    have "name = join_with CHR ''/''
        (take i (split_on CHR ''/'' name) @ split_on CHR ''/'' p)"
      using i by simp
    then have "name = join_with CHR ''/'' (take i (split_on CHR ''/'' name)) @ CHR ''/'' # p"
      using False join_with_append [OF False, of "split_on CHR ''/'' p" "CHR ''/''"] by simp
    then show ?thesis unfolding fmri_match_def ends_with_iff by (metis append_Cons)
  qed
qed

lemma hierarchical_names_match:
  "p \<in> set (hierarchical_names f) \<longleftrightarrow> fmri_match (f_name f) p"
  unfolding hierarchical_names_set fmri_match_split ..

section \<open>Quoting\<close>

lemma hex_digit_inj:
  assumes "hex_digit m = hex_digit n" and "m < 16" and "n < 16" shows "m = n"
proof -
  have "distinct ''0123456789ABCDEF''" by simp
  then show ?thesis using assms by (simp add: hex_digit_def nth_eq_iff_index_eq)
qed

lemma code_inj: "code c = code d \<longleftrightarrow> c = d"
  by (simp add: code_def)

lemma code_less: "code c < 256"
  by (simp add: code_def)

lemma percent_inj:
  assumes "percent m @ s = percent n @ t" and "m < 256" and "n < 256"
  shows "m = n \<and> s = t"
proof -
  have "m div 16 = n div 16" "m mod 16 = n mod 16"
    using assms by (auto simp: percent_def intro: hex_digit_inj)
  then have "m = n" by (metis div_mult_mod_eq)
  with assms(1) show ?thesis by (simp add: percent_def)
qed

lemma quote_char_inj:
  assumes "quote_char c @ s = quote_char d @ t"
  shows "c = d \<and> s = t"
proof -
  have safe: "always_safe e \<Longrightarrow> e \<noteq> CHR ''%''" for e
    by (auto simp: always_safe_def is_alnum_def is_digit_def code_def)
  have hi: "192 + code e div 64 < 256" "128 + code e mod 64 < 256" for e
    using code_less [of e] by auto
  consider "always_safe c" "always_safe d" | "always_safe c \<noteq> always_safe d"
    | "\<not> always_safe c" "\<not> always_safe d" by blast
  then show ?thesis
  proof cases
    case 1
    with assms show ?thesis by (simp add: quote_char_def)
  next
    case 2
    with assms safe show ?thesis by (auto simp: quote_char_def percent_def split: if_splits)
  next
    case 3
    show ?thesis
    proof (cases "code c < 128")
      case True
      then have "quote_char c = percent (code c)" using 3 by (simp add: quote_char_def)
      moreover have "code d < 128"
      proof (rule ccontr)
        assume "\<not> code d < 128"
        then have "percent (code c) @ s = percent (192 + code d div 64) @ percent (128 + code d mod 64) @ t"
          using assms calculation 3 by (simp add: quote_char_def)
        from percent_inj [OF this] True hi show False by auto
      qed
      ultimately have "percent (code c) @ s = percent (code d) @ t"
        using assms 3 by (simp add: quote_char_def)
      from percent_inj [OF this] show ?thesis using code_less code_inj by blast
    next
      case False
      then have qc: "quote_char c = percent (192 + code c div 64) @ percent (128 + code c mod 64)"
        using 3 by (simp add: quote_char_def)
      have d: "\<not> code d < 128"
      proof
        assume "code d < 128"
        then have "percent (192 + code c div 64) @ percent (128 + code c mod 64) @ s = percent (code d) @ t"
          using assms qc 3 by (simp add: quote_char_def)
        from percent_inj [OF this] \<open>code d < 128\<close> hi show False by auto
      qed
      then have eq: "percent (192 + code c div 64) @ percent (128 + code c mod 64) @ s =
          percent (192 + code d div 64) @ percent (128 + code d mod 64) @ t"
        using assms qc 3 by (simp add: quote_char_def)
      from percent_inj [OF eq hi(1) hi(1)] have d1: "code c div 64 = code d div 64"
        and rest: "percent (128 + code c mod 64) @ s = percent (128 + code d mod 64) @ t" by auto
      from percent_inj [OF rest hi(2) hi(2)] have "code c mod 64 = code d mod 64" "s = t" by auto
      with d1 have "code c = code d" by (metis div_mult_mod_eq)
      with \<open>s = t\<close> show ?thesis using code_inj by blast
    qed
  qed
qed

lemma quote_char_nonempty: "quote_char c \<noteq> []"
  by (simp add: quote_char_def percent_def)

lemma quote_inj: "quote s = quote t \<longleftrightarrow> s = t"
proof (induction s arbitrary: t)
  case Nil
  then show ?case by (cases t) (auto simp: quote_def quote_char_nonempty)
next
  case (Cons c s)
  show ?case
  proof (cases t)
    case Nil
    then show ?thesis by (simp add: quote_def quote_char_nonempty)
  next
    case (Cons d t')
    then show ?thesis using quote_char_inj [of c "quote s" d "quote t'"] Cons.IH [of t']
      by (auto simp: quote_def)
  qed
qed

lemma quote_chars: "c \<in> set (quote s) \<Longrightarrow> always_safe c \<or> c = CHR ''%''"
proof -
  have "hex_digit n \<in> set ''0123456789ABCDEF''" if "n < 16" for n
    unfolding hex_digit_def by (rule nth_mem) (use that in simp)
  then have "always_safe (hex_digit n)" if "n < 16" for n
    using that by (fastforce simp: always_safe_def is_alnum_def is_digit_def code_def)
  then have pc: "x \<in> set (percent b) \<Longrightarrow> b < 256 \<Longrightarrow> always_safe x \<or> x = CHR ''%''" for x b
    by (auto simp: percent_def)
  have "x \<in> set (quote_char d) \<Longrightarrow> always_safe x \<or> x = CHR ''%''" for x d
    using pc [of x] code_less [of d] by (auto simp: quote_char_def split: if_splits)
  then show "c \<in> set (quote s) \<Longrightarrow> always_safe c \<or> c = CHR ''%''" by (auto simp: quote_def)
qed

lemma quote_no_sep: "CHR ''/'' \<notin> set (quote s)" "CHR ''@'' \<notin> set (quote s)"
  using quote_chars [of "CHR ''/''" s] quote_chars [of "CHR ''@''" s]
  by (auto simp: always_safe_def is_alnum_def is_digit_def code_def)

lemma sep_unique:
  fixes c :: char
  assumes "xs @ c # ys = xs' @ c # ys'" and "c \<notin> set xs" and "c \<notin> set xs'"
  shows "xs = xs' \<and> ys = ys'"
proof -
  have "length xs = length xs'"
    using arg_cong [OF assms(1), of "py_find c"] py_find_append [OF assms(2), of ys]
      py_find_append [OF assms(3), of ys'] by simp
  with assms(1) show ?thesis by simp
qed

text \<open>Two package versions share a manifest directory only if they print the same.\<close>

lemma get_dir_path_inj:
  assumes "get_dir_path f False = Inr d" and "get_dir_path g False = Inr d"
  shows "f_name f = f_name g"
    and "map_option version_str (f_version f) = map_option version_str (f_version g)"
proof -
  from assms obtain v w where v: "f_version f = Some v" "f_version g = Some w"
    and "quote (f_name f) @ CHR ''/'' # quote (version_str v) =
         quote (f_name g) @ CHR ''/'' # quote (version_str w)"
    by (auto simp: get_dir_path_def split: option.splits)
  then have "quote (f_name f) = quote (f_name g)" "quote (version_str v) = quote (version_str w)"
    using sep_unique [OF _ quote_no_sep(1) quote_no_sep(1)] by blast+
  then show "f_name f = f_name g"
    "map_option version_str (f_version f) = map_option version_str (f_version g)"
    using v by (simp_all add: quote_inj)
qed

section \<open>Properties\<close>

text \<open>
  C9. A parsed package name is well formed, and printing it and parsing the text gives the same
  name, publisher and version, whether it has a publisher or not; only a publisher that carries the
  marker of the preferred one is not printed, so that it alone is lost.
\<close>

lemma fmri_parse_print:
  assumes "fmri_init s None None = Inr f"
  shows "fmri_wf f
    \<and> (case f_publisher f of
         None \<Rightarrow> fmri_init (fmri_str f) b None = Inr f
       | Some p \<Rightarrow> fmri_init (fmri_str f) b None =
           Inr (if starts_with p PREF_PUB_PFX then f\<lparr>f_publisher := None\<rparr> else f))"
proof -
  have wf: "fmri_wf f" by (rule fmri_init_wf [OF assms])
  then have "f_publisher f \<noteq> Some []" by (auto simp: fmri_wf_def)
  then show ?thesis
    using wf fmri_roundtrip_preferred [OF wf, of b]
    by (cases "f_publisher f"; cases f) (auto simp: pub_preferred_def str_true_def)
qed

lemma fmri_parse_print_witness:
  "fmri_init (fmri_str \<lparr>f_publisher = Some ''omnios'', f_name = ''web/curl'', f_version = None\<rparr>)
     (Some ''9'') None
   = Inr \<lparr>f_publisher = Some ''omnios'', f_name = ''web/curl'', f_version = None\<rparr>"
proof -
  have "fmri_init ''pkg://omnios/web/curl'' None None
      = Inr \<lparr>f_publisher = Some ''omnios'', f_name = ''web/curl'', f_version = None\<rparr>"
    by code_simp
  from fmri_parse_print [OF this, of "Some ''9''"] show ?thesis
    by (simp add: starts_with_iff PREF_PUB_PFX_def)
qed

text \<open>
  The comparisons of two parsed names never raise and are those of the key publisher, name,
  version; equality is equality of the keys, and \<open>is_successor\<close> asks for the same name and a
  version that is not older, whatever the publishers are.
\<close>

lemma fmri_comparisons:
  assumes "fmri_init s None None = Inr f" and "fmri_init s' None None = Inr g"
  shows "fmri_lt f g = Inr (fmri_key f < fmri_key g)
    \<and> fmri_gt f g = Inr (fmri_key f > fmri_key g)
    \<and> fmri_eq f g = (fmri_key f = fmri_key g)
    \<and> fmri_is_successor f g = Inr (f_name f = f_name g
        \<and> map_option version_key (f_version g) \<le> map_option version_key (f_version f))"
  using fmri_wf_cmp [OF fmri_init_wf [OF assms(1)]] fmri_wf_cmp [OF fmri_init_wf [OF assms(2)]]
    fmri_lt_key fmri_gt_key fmri_eq_key fmri_is_successor_key by blast

lemma fmri_comparisons_witness:
  "fmri_lt \<lparr>f_publisher = None, f_name = ''curl'', f_version = None\<rparr>
     \<lparr>f_publisher = None, f_name = ''wget'', f_version = None\<rparr> = Inr True"
proof -
  have "fmri_init ''pkg:/curl'' None None
      = Inr \<lparr>f_publisher = None, f_name = ''curl'', f_version = None\<rparr>"
    "fmri_init ''pkg:/wget'' None None
      = Inr \<lparr>f_publisher = None, f_name = ''wget'', f_version = None\<rparr>"
    by code_simp+
  from fmri_comparisons [OF this] show ?thesis
    by (simp add: fmri_key_def less_char_def)
qed

text \<open>
  The fast \<open>extract_pkg_name\<close> and the constructor find the same package name in every text
  the constructor accepts.
\<close>

lemma extract_pkg_name_parsed:
  assumes "fmri_init s b p = Inr f"
  shows "extract_pkg_name s = Inr (f_name f)"
  by (rule extract_pkg_name_agrees [OF assms])

lemma extract_pkg_name_parsed_witness:
  "extract_pkg_name ''pkg://omnios/web/curl@8.1'' = Inr ''web/curl''"
proof -
  have "fmri_init ''pkg://omnios/web/curl@8.1'' None None = Inr
     \<lparr>f_publisher = Some ''omnios'', f_name = ''web/curl'', f_version = Some
        \<lparr>release = \<lparr>ds_vals = [8, 1], ds_str = ''8.1''\<rparr>, branch = None,
         build_release = \<lparr>ds_vals = [5, 11], ds_str = ''5.11''\<rparr>, timestr = None\<rparr>\<rparr>"
    by code_simp
  from extract_pkg_name_parsed [OF this] show ?thesis by simp
qed

text \<open>
  The names \<open>hierarchical_names\<close> lists for a package, the suffixes of its path, are exactly
  the patterns \<open>fmri_match\<close> accepts for it.
\<close>

lemma hierarchical_names_complete:
  "set (hierarchical_names f) = {p. fmri_match (f_name f) p}"
  using hierarchical_names_match by blast

text \<open>
  Two packages never share a manifest directory: the quoted path of a versioned package
  determines its name and its printed version.
\<close>

lemma dir_path_determines_package:
  assumes "get_dir_path f False = Inr d" and "get_dir_path g False = Inr d"
  shows "f_name f = f_name g
    \<and> map_option version_str (f_version f) = map_option version_str (f_version g)"
  using get_dir_path_inj [OF assms] by blast

lemma dir_path_determines_package_witness:
  "let f = \<lparr>f_publisher = None, f_name = ''web/curl'', f_version = Some
        \<lparr>release = \<lparr>ds_vals = [8, 1], ds_str = ''8.1''\<rparr>, branch = None,
         build_release = \<lparr>ds_vals = [5, 11], ds_str = ''5.11''\<rparr>, timestr = None\<rparr>\<rparr>
   in get_dir_path f False = Inr ''web%2Fcurl/8.1%2C5.11'' \<and> f_name f = f_name f"
proof -
  have "get_dir_path \<lparr>f_publisher = None, f_name = ''web/curl'', f_version = Some
        \<lparr>release = \<lparr>ds_vals = [8, 1], ds_str = ''8.1''\<rparr>, branch = None,
         build_release = \<lparr>ds_vals = [5, 11], ds_str = ''5.11''\<rparr>, timestr = None\<rparr>\<rparr> False
     = Inr ''web%2Fcurl/8.1%2C5.11''" by code_simp
  from this dir_path_determines_package [OF this this] show ?thesis unfolding Let_def by blast
qed

text \<open>
  The name checks of the constructor and of \<open>is_valid_pkg_name\<close> let a trailing newline
  through, because the pattern ends in a dollar sign: the newline of \<open>curl\<close> and a line feed is
  kept in the parsed package name.
\<close>

lemma name_check_newline:
  "is_valid_pkg_name (n @ [CHR 0x0A]) = name_ok n
   \<and> fmri_init (''pkg:/curl'' @ CHR 0x0A # ''@1'') None None = Inr
      \<lparr>f_publisher = None, f_name = ''curl'' @ [CHR 0x0A], f_version = Some
        \<lparr>release = \<lparr>ds_vals = [1], ds_str = ''1''\<rparr>, branch = None,
         build_release = \<lparr>ds_vals = [5, 11], ds_str = ''5.11''\<rparr>, timestr = None\<rparr>\<rparr>"
proof -
  have "fmri_init (''pkg:/curl'' @ CHR 0x0A # ''@1'') None None = Inr
      \<lparr>f_publisher = None, f_name = ''curl'' @ [CHR 0x0A], f_version = Some
        \<lparr>release = \<lparr>ds_vals = [1], ds_str = ''1''\<rparr>, branch = None,
         build_release = \<lparr>ds_vals = [5, 11], ds_str = ''5.11''\<rparr>, timestr = None\<rparr>\<rparr>"
    by code_simp
  moreover have "\<not> name_ok (n @ [CHR 0x0A])"
    using name_ok_last [of "n @ [CHR 0x0A]"] by (auto simp: is_space_def code_def)
  ultimately show ?thesis using valid_name_newline
    by (auto simp: is_valid_pkg_name_def at_dollar_def)
qed

text \<open>
  The publisher: what \<open>set_publisher\<close> stores is read back by \<open>get_publisher\<close> when the name
  holds no underscore, and not otherwise (\<open>my_pub\<close> comes back as \<open>pub\<close>); the relation of
  \<open>is_same_publisher\<close> is reflexive and symmetric but not transitive.
\<close>

lemma publisher_prefix_behaviour:
  "(p = [] \<or> CHR ''_'' \<in> set p \<or> get_publisher (set_publisher p preferred f) = Some p)
   \<and> get_publisher (set_publisher ''my_pub'' True f) = Some ''pub''
   \<and> is_same_publisher x x \<and> is_same_publisher x y = is_same_publisher y x
   \<and> is_same_publisher (Some ''a'') (Some ''_PRE_a'')
   \<and> is_same_publisher (Some ''_PRE_a'') (Some ''_PRE_b'')
   \<and> is_same_publisher (Some ''_PRE_b'') (Some ''b'')
   \<and> \<not> is_same_publisher (Some ''a'') (Some ''b'')"
proof -
  have "get_publisher (set_publisher ''my_pub'' True f) = Some ''pub''"
    by (simp add: get_publisher_def set_publisher_def rsplit_last_def PREF_PUB_PFX_def
        starts_with_iff py_rfind_def)
  then show ?thesis
    using get_set_publisher is_same_publisher_refl is_same_publisher_sym is_same_publisher_not_trans
    by blast
qed

end
