(* ===== verification/Pkg_Variant.thy ===== *)
theory Pkg_Variant
  imports Pkg_Prelude "HOL-Library.AList"
begin

text \<open>
  \<open>src/src/modules/variant.py\<close> and the native \<open>_allow_variant\<close> of
  \<open>src/src/modules/_varcet.c\<close>.  A Python \<open>dict\<close> whose iteration order is visible is an
  association list with distinct keys; \<open>AList.update\<close> replaces in place or appends, as the
  dictionary does.  A combination is a \<open>frozenset\<close> of name and value pairs.  The list
  \<open>__combinations\<close>, whose order Python leaves open, is modelled as the set of its elements.
\<close>

section \<open>Variants of an image\<close>

datatype attr_value = AStr string | AList "string list"

type_synonym attrs = "(string \<times> attr_value) list"
type_synonym variants = "(string \<times> string) list"

definition variant_prefix :: string where "variant_prefix = ''variant.''"

definition variants_getitem :: "variants \<Rightarrow> string \<Rightarrow> py_exn + string" where
  "variants_getitem vars item =
     (if \<not> starts_with item variant_prefix then Inl (KeyError ''key must start w/ variant.'')
      else case map_of vars item of
             Some v \<Rightarrow> Inr v
           | None \<Rightarrow> Inr ''false'')"

text \<open>A C string ends at the first NUL.\<close>

definition c_str :: "string \<Rightarrow> string" where
  "c_str s = takeWhile (\<lambda>c. c \<noteq> CHR 0x00) s"

fun allow_variant :: "variants \<Rightarrow> attrs \<Rightarrow> bool" where
  "allow_variant vars [] = True"
| "allow_variant vars ((attr, value) # rest) =
     (if starts_with attr variant_prefix then
        (case value of
           AList _ \<Rightarrow> False
         | AStr av \<Rightarrow>
             (case map_of vars attr of
                None \<Rightarrow>
                  if \<not> starts_with av ''false'' then False else allow_variant vars rest
              | Some sysv \<Rightarrow>
                  if c_str av \<noteq> c_str sysv then False else allow_variant vars rest))
      else allow_variant vars rest)"

section \<open>Templates\<close>

type_synonym template = "(string \<times> string set) list"

record vct_difference =
  type_diffs :: "string list"
  value_diffs :: "(string \<times> string) set"

definition vct_get :: "template \<Rightarrow> string \<Rightarrow> string set" where
  "vct_get t k = (case map_of t k of None \<Rightarrow> {} | Some vs \<Rightarrow> vs)"

definition vct_difference :: "template \<Rightarrow> template \<Rightarrow> vct_difference" where
  "vct_difference self var =
     \<lparr>type_diffs = filter (\<lambda>k. map_of var k = None) (map fst self),
      value_diffs = (\<Union>(k, vs) \<in> set self.
        if map_of var k = None then {} else Pair k ` (vs - vct_get var k))\<rparr>"

definition vct_issubset :: "template \<Rightarrow> template \<Rightarrow> bool" where
  "vct_issubset self var =
     (let res = vct_difference self var in type_diffs res = [] \<and> value_diffs res = {})"

definition merge_unknown :: "template \<Rightarrow> template \<Rightarrow> template" where
  "merge_unknown self var =
     fold (\<lambda>(name, vs) t. if map_of t name = None then AList.update name vs t else t) var self"

definition merge_values :: "template \<Rightarrow> template \<Rightarrow> template" where
  "merge_values self var =
     fold (\<lambda>(name, vs) t. AList.update name (vct_get t name \<union> vs) t) var self"

section \<open>Combinations\<close>

type_synonym combination = "(string \<times> string) set"

text \<open>One round of the loop of \<open>VariantCombinations.__init__\<close>.\<close>

definition comb_step :: "combination set \<Rightarrow> string \<times> string set \<Rightarrow> combination set" where
  "comb_step tmp kv =
     (if tmp = {} then (\<lambda>v. {(fst kv, v)}) ` snd kv
      else (\<lambda>(exist, v). insert (fst kv, v) exist) ` (tmp \<times> snd kv))"

definition combinations_of :: "template \<Rightarrow> combination set" where
  "combinations_of vct = foldl comb_step {} (sort_key fst vct)"

record vcomb =
  vc_sat :: "combination set"
  vc_not_sat :: "combination set"
  vc_template :: template
  vc_simpl :: "template option"
  vc_combinations :: "combination set"

definition vc_init :: "template \<Rightarrow> bool \<Rightarrow> vcomb" where
  "vc_init vct satisfied =
     (let res = combinations_of vct in
      \<lparr>vc_sat = (if satisfied then res else {}), vc_not_sat = (if satisfied then {} else res),
       vc_template = vct, vc_simpl = None, vc_combinations = res\<rparr>)"

definition vc_copy :: "vcomb \<Rightarrow> vcomb" where
  "vc_copy self =
     (vc_init (vc_template self) True)
       \<lparr>vc_sat := vc_sat self, vc_not_sat := vc_not_sat self, vc_simpl := vc_simpl self,
        vc_combinations := vc_combinations self\<rparr>"

definition vc_is_empty :: "vcomb \<Rightarrow> bool" where
  "vc_is_empty self \<longleftrightarrow> vc_sat self = {} \<and> vc_not_sat self = {}"

definition vc_issubset :: "vcomb \<Rightarrow> vcomb \<Rightarrow> bool \<Rightarrow> bool" where
  "vc_issubset self vc satisfied =
     (if satisfied then vc_sat self \<subseteq> vc_sat vc else vc_not_sat self \<subseteq> vc_not_sat vc)"

definition vc_mark_as_satisfied :: "vcomb \<Rightarrow> vcomb \<Rightarrow> vcomb \<times> bool" where
  "vc_mark_as_satisfied self vc =
     (let i = vc_sat vc \<inter> vc_not_sat self in
      if i = {} then (self, False)
      else (self\<lparr>vc_not_sat := vc_not_sat self - i, vc_sat := vc_sat self \<union> i\<rparr>, True))"

definition vc_mark_as_unsatisfied :: "vcomb \<Rightarrow> vcomb \<Rightarrow> vcomb \<times> bool" where
  "vc_mark_as_unsatisfied self vc =
     (let i = vc_sat vc \<inter> vc_sat self in
      if i = {} then (self, False)
      else (self\<lparr>vc_sat := vc_sat self - i, vc_not_sat := vc_not_sat self \<union> i\<rparr>, True))"

definition vc_mark_all_as_satisfied :: "vcomb \<Rightarrow> vcomb" where
  "vc_mark_all_as_satisfied self =
     self\<lparr>vc_sat := vc_sat self \<union> vc_not_sat self, vc_not_sat := {}\<rparr>"

definition vc_is_satisfied :: "vcomb \<Rightarrow> bool" where
  "vc_is_satisfied self \<longleftrightarrow> vc_not_sat self = {}"

definition vc_unsatisfied_copy :: "vcomb \<Rightarrow> vcomb" where
  "vc_unsatisfied_copy self = vc_init (vc_template self) False"

text \<open>The object is changed also when the assertion fails.\<close>

definition vc_simplify :: "vcomb \<Rightarrow> template \<Rightarrow> bool \<Rightarrow> vcomb \<times> py_exn option" where
  "vc_simplify self vct assert_on_different_domains =
     (if \<not> vct_issubset (vc_template self) vct \<and> assert_on_different_domains
      then (self\<lparr>vc_simpl := Some []\<rparr>, Some AssertionError)
      else (self\<lparr>vc_simpl := Some vct\<rparr>, None))"

definition vc_split_combinations :: "vcomb \<Rightarrow> vcomb set" where
  "vc_split_combinations self =
     (if vc_combinations self = {} then {vc_copy self}
      else (\<lambda>c. (vc_init (vc_template self) False)\<lparr>vc_sat := {c}, vc_not_sat := {}\<rparr>)
             ` vc_combinations self)"

text \<open>The three results of \<open>separate_satisfied\<close>: only in \<open>self\<close>, in both, only in \<open>vc\<close>.\<close>

definition vc_part :: "template \<Rightarrow> combination set \<Rightarrow> vcomb option" where
  "vc_part t s =
     (if s = {} then None
      else let vc = vc_init t False in Some (vc\<lparr>vc_sat := s, vc_not_sat := vc_not_sat vc - s\<rparr>))"

definition vc_separate_satisfied ::
  "vcomb \<Rightarrow> vcomb \<Rightarrow> vcomb option \<times> vcomb option \<times> vcomb option" where
  "vc_separate_satisfied self vc =
     (if vc_is_empty self \<and> vc_is_empty vc then (None, Some self, None)
      else if vct_issubset (vc_template vc) (vc_template self) then
        (vc_part (vc_template self) (vc_sat self - vc_sat vc),
         vc_part (vc_template self) (vc_sat self \<inter> vc_sat vc),
         vc_part (vc_template self) (vc_sat vc - vc_sat self))
      else if vct_issubset (vc_template self) (vc_template vc) then
        (vc_part (vc_template vc) (vc_sat self - vc_sat vc),
         vc_part (vc_template vc) (vc_sat vc \<inter> vc_sat self),
         vc_part (vc_template vc) (vc_sat vc - vc_sat self))
      else (Some self, None, Some vc))"

section \<open>Simplification\<close>

definition exclude_name :: "string \<Rightarrow> combination \<Rightarrow> combination" where
  "exclude_name name c = {p \<in> c. fst p \<noteq> name}"

definition values_of :: "string \<Rightarrow> combination set \<Rightarrow> string set" where
  "values_of name g = {v. \<exists>c \<in> g. (name, v) \<in> c}"

text \<open>One group of combinations that agree except for \<open>name\<close>; \<open>vs\<close> are its known values.\<close>

definition simpl_group ::
  "string \<Rightarrow> string set \<Rightarrow> combination set \<Rightarrow> combination \<Rightarrow> py_exn + (combination set \<times> bool)" where
  "simpl_group name vs combos k =
     (let g = {c \<in> combos. exclude_name name c = k} in
      if card g < card vs then Inr (g, False)
      else if \<not> values_of name g \<subseteq> vs then Inl (KeyError name)
      else if vs - values_of name g \<noteq> {} then Inr (g, False)
      else Inr ({k}, True))"

text \<open>One variant name: all the groups; any \<open>KeyError\<close> ends the computation.\<close>

definition simpl_name ::
  "string \<Rightarrow> string set \<Rightarrow> combination set \<Rightarrow> py_exn + (combination set \<times> bool)" where
  "simpl_name name vs combos =
     (let rs = simpl_group name vs combos ` (exclude_name name ` combos) in
      if Inl (KeyError name) \<in> rs then Inl (KeyError name)
      else Inr (\<Union> (fst ` projr ` rs), True \<in> snd ` projr ` rs))"

fun simpl_pass ::
  "(string \<times> string set) list \<Rightarrow> combination set \<Rightarrow> bool
     \<Rightarrow> py_exn + (combination set \<times> bool)" where
  "simpl_pass [] combos keep_going = Inr (combos, keep_going)"
| "simpl_pass ((name, vs) # rest) combos keep_going =
     sbind (simpl_name name vs combos) (\<lambda>(s, again). simpl_pass rest s (keep_going \<or> again))"

text \<open>The \<open>while keep_going\<close> loop; \<open>None\<close> is a loop that does not end.\<close>

partial_function (option) simpl_loop ::
  "(string \<times> string set) list \<Rightarrow> combination set \<Rightarrow> (py_exn + combination set) option" where
  "simpl_loop names combos =
     (case simpl_pass names combos False of
        Inl e \<Rightarrow> Some (Inl e)
      | Inr (s, again) \<Rightarrow> if again then simpl_loop names s else Some (Inr s))"

definition possibilities :: "template \<Rightarrow> nat" where
  "possibilities t = (if t = [] then 0 else prod_list (map (\<lambda>(k, vs). card vs) t))"

definition calc_simple :: "vcomb \<Rightarrow> template \<Rightarrow> bool \<Rightarrow> (py_exn + combination set) option" where
  "calc_simple self t sat =
     (let combos = (if sat then vc_sat self else vc_not_sat self) in
      if possibilities t = card combos then Some (Inr {})
      else simpl_loop (rev (sort_key fst t)) combos)"

definition vc_sat_set :: "vcomb \<Rightarrow> (py_exn + combination set) option" where
  "vc_sat_set self =
     (case vc_simpl self of
        Some t \<Rightarrow> if t = [] then Some (Inr (vc_sat self)) else calc_simple self t True
      | None \<Rightarrow> Some (Inr (vc_sat self)))"

definition vc_not_sat_set :: "vcomb \<Rightarrow> (py_exn + combination set) option" where
  "vc_not_sat_set self =
     (case vc_simpl self of
        Some t \<Rightarrow> if t = [] then Some (Inr (vc_not_sat self)) else calc_simple self t False
      | None \<Rightarrow> Some (Inr (vc_not_sat self)))"

text \<open>\<open>intersection\<close> first checks the (simplified) unsatisfied set of its argument.\<close>

definition vc_intersection :: "vcomb \<Rightarrow> vcomb \<Rightarrow> (py_exn + vcomb) option" where
  "vc_intersection self vc =
     (case vc_not_sat_set vc of
        None \<Rightarrow> None
      | Some (Inl e) \<Rightarrow> Some (Inl e)
      | Some (Inr s) \<Rightarrow>
          if s \<noteq> {} then Some (Inl AssertionError)
          else
            let res = vc_copy self in
            Some (Inr (res\<lparr>vc_sat := vc_sat res \<inter> vc_sat vc,
                           vc_not_sat := vc_not_sat res \<inter> vc_sat vc\<rparr>)))"

definition vc_intersects :: "vcomb \<Rightarrow> vcomb \<Rightarrow> bool \<Rightarrow> (py_exn + bool) option" where
  "vc_intersects self vc only_not_sat =
     (if vc_is_empty self \<or> vc_is_empty vc then Some (Inr True)
      else case vc_intersection self vc of
             None \<Rightarrow> None
           | Some (Inl e) \<Rightarrow> Some (Inl e)
           | Some (Inr tmp) \<Rightarrow>
               Some (Inr (if only_not_sat then vc_not_sat tmp \<noteq> {} else \<not> vc_is_empty tmp)))"

section \<open>Filtering actions by variants\<close>

lemma allow_variant_iff:
  "allow_variant vars attrs \<longleftrightarrow>
     (\<forall>(attr, value) \<in> set attrs. starts_with attr variant_prefix \<longrightarrow>
        (\<exists>av. value = AStr av \<and>
           (case map_of vars attr of
              None \<Rightarrow> starts_with av ''false''
            | Some sysv \<Rightarrow> c_str av = c_str sysv)))"
  by (induction vars attrs rule: allow_variant.induct) (auto split: attr_value.splits option.splits)

lemma allow_variant_append:
  "allow_variant vars (xs @ ys) \<longleftrightarrow> allow_variant vars xs \<and> allow_variant vars ys"
  by (auto simp: allow_variant_iff)

lemma c_str_id: "CHR 0x00 \<notin> set s \<Longrightarrow> c_str s = s"
  unfolding c_str_def by (induction s) auto

text \<open>The C lookup against \<open>Variants.__getitem__\<close>: they agree when the values hold no NUL
  and the value of an unknown variant is \<open>false\<close> or does not begin so.\<close>

lemma allow_variant_getitem:
  assumes "\<And>a v. (a, AStr v) \<in> set attrs \<Longrightarrow> CHR 0x00 \<notin> set v"
    and "\<And>a v. map_of vars a = Some v \<Longrightarrow> CHR 0x00 \<notin> set v"
    and "\<And>a v. \<lbrakk>(a, AStr v) \<in> set attrs; starts_with a variant_prefix; map_of vars a = None;
            starts_with v ''false''\<rbrakk> \<Longrightarrow> v = ''false''"
  shows "allow_variant vars attrs \<longleftrightarrow>
    (\<forall>(attr, value) \<in> set attrs. starts_with attr variant_prefix \<longrightarrow>
       (\<exists>av. value = AStr av \<and> variants_getitem vars attr = Inr av))"
proof -
  have one: "(case map_of vars a of None \<Rightarrow> starts_with v ''false'' | Some w \<Rightarrow> c_str v = c_str w)
      \<longleftrightarrow> variants_getitem vars a = Inr v"
    if "(a, AStr v) \<in> set attrs" "starts_with a variant_prefix" for a v
  proof (cases "map_of vars a")
    case None
    then show ?thesis using assms(3)[OF that] that(2)
      by (auto simp: variants_getitem_def starts_with_def)
  next
    case (Some w)
    then show ?thesis using assms(1)[OF that(1)] assms(2)[OF Some] that(2)
      by (auto simp: variants_getitem_def c_str_id)
  qed
  then show ?thesis unfolding allow_variant_iff by fastforce
qed

section \<open>Templates\<close>

lemma vct_issubset_iff:
  assumes "distinct (map fst self)"
  shows "vct_issubset self var \<longleftrightarrow>
    (\<forall>k vs. map_of self k = Some vs \<longrightarrow> (\<exists>ws. map_of var k = Some ws \<and> vs \<subseteq> ws))"
proof -
  have mem: "map_of self k = Some vs \<longleftrightarrow> (k, vs) \<in> set self" for k vs
    using assms by (simp add: map_of_eq_Some_iff)
  have dom: "type_diffs (vct_difference self var) = [] \<longleftrightarrow> (\<forall>(k, vs) \<in> set self. map_of var k \<noteq> None)"
    by (auto simp: vct_difference_def filter_empty_conv)
  show ?thesis
    unfolding vct_issubset_def Let_def dom mem
    by (fastforce simp: vct_difference_def vct_get_def split: if_splits option.splits)
qed

lemma vct_issubset_refl: "distinct (map fst t) \<Longrightarrow> vct_issubset t t"
  by (simp add: vct_issubset_iff)

lemma vct_issubset_trans:
  "\<lbrakk>distinct (map fst a); distinct (map fst b); vct_issubset a b; vct_issubset b c\<rbrakk>
     \<Longrightarrow> vct_issubset a c"
  unfolding vct_issubset_iff by fast

lemma map_of_update: "map_of (AList.update k v t) = (map_of t)(k \<mapsto> v)"
  by (rule update_conv')

lemma merge_unknown_map_of:
  assumes "distinct (map fst var)"
  shows "map_of (merge_unknown self var) k =
    (case map_of self k of Some vs \<Rightarrow> Some vs | None \<Rightarrow> map_of var k)"
  using assms unfolding merge_unknown_def
proof (induction var arbitrary: self)
  case Nil
  then show ?case by (auto split: option.splits)
next
  case (Cons p var)
  then have "map_of var (fst p) = None" by (simp add: map_of_eq_None_iff)
  with Cons show ?case
    by (cases p) (auto simp: map_of_update split: option.splits)
qed

lemma merge_values_map_of:
  assumes "distinct (map fst var)"
  shows "map_of (merge_values self var) k =
    (case map_of var k of None \<Rightarrow> map_of self k | Some vs \<Rightarrow> Some (vct_get self k \<union> vs))"
  using assms unfolding merge_values_def
proof (induction var arbitrary: self)
  case Nil
  then show ?case by simp
next
  case (Cons p var)
  then have "map_of var (fst p) = None" by (simp add: map_of_eq_None_iff)
  with Cons show ?case
    by (cases p) (auto simp: map_of_update vct_get_def split: option.splits)
qed

text \<open>After \<open>merge_values\<close> both templates are subsets of the result.\<close>

lemma merge_values_distinct:
  "distinct (map fst self) \<Longrightarrow> distinct (map fst (merge_values self var))"
  unfolding merge_values_def
  by (induction var arbitrary: self) (auto simp: distinct_update)

lemma merge_values_upper:
  assumes "distinct (map fst self)" "distinct (map fst var)"
  shows "vct_issubset self (merge_values self var)" "vct_issubset var (merge_values self var)"
  using assms
  by (auto simp: vct_issubset_iff merge_values_map_of vct_get_def split: option.splits)

section \<open>Combinations\<close>

definition template_ok :: "template \<Rightarrow> bool" where
  "template_ok t \<longleftrightarrow> distinct (map fst t) \<and> (\<forall>(k, vs) \<in> set t. finite vs \<and> vs \<noteq> {})"

text \<open>A choice of one value for each name.\<close>

definition choices :: "template \<Rightarrow> combination set" where
  "choices t = {(\<lambda>k. (k, f k)) ` fst ` set t | f. \<forall>(k, vs) \<in> set t. f k \<in> vs}"

lemma choices_Nil: "choices [] = {{}}"
  by (simp add: choices_def)

lemma choices_Cons:
  assumes "k \<notin> fst ` set t"
  shows "choices ((k, vs) # t) = (\<lambda>(c, v). insert (k, v) c) ` (choices t \<times> vs)"
proof (intro equalityI subsetI)
  fix c assume "c \<in> choices ((k, vs) # t)"
  then obtain f where f: "\<forall>(k, vs) \<in> set ((k, vs) # t). f k \<in> vs"
    and c: "c = (\<lambda>k. (k, f k)) ` fst ` set ((k, vs) # t)" by (auto simp: choices_def)
  then have "(\<lambda>k. (k, f k)) ` fst ` set t \<in> choices t" "f k \<in> vs" by (auto simp: choices_def)
  moreover have "c = insert (k, f k) ((\<lambda>k. (k, f k)) ` fst ` set t)" using c by simp
  ultimately show "c \<in> (\<lambda>(c, v). insert (k, v) c) ` (choices t \<times> vs)" by blast
next
  fix c assume "c \<in> (\<lambda>(c, v). insert (k, v) c) ` (choices t \<times> vs)"
  then obtain f v where f: "\<forall>(k, vs) \<in> set t. f k \<in> vs" and v: "v \<in> vs"
    and c: "c = insert (k, v) ((\<lambda>k. (k, f k)) ` fst ` set t)" by (auto simp: choices_def)
  have "(\<lambda>x. (x, (f(k := v)) x)) ` fst ` set t = (\<lambda>k. (k, f k)) ` fst ` set t"
    using assms by (intro image_cong) auto
  then have "c = (\<lambda>x. (x, (f(k := v)) x)) ` fst ` set ((k, vs) # t)" using c by simp
  moreover have "\<forall>(x, vs) \<in> set ((k, vs) # t). (f(k := v)) x \<in> vs"
    using f v assms by (force)
  ultimately show "c \<in> choices ((k, vs) # t)" unfolding choices_def by blast
qed

lemma choices_set_cong: "set t = set u \<Longrightarrow> choices t = choices u"
  by (simp add: choices_def)

lemma choices_sort: "choices (sort_key fst t) = choices t"
  by (rule choices_set_cong) simp

lemma choices_nonempty: "template_ok t \<Longrightarrow> choices t \<noteq> {}"
proof (induction t)
  case Nil
  then show ?case by (simp add: choices_Nil)
next
  case (Cons p t)
  then show ?case by (cases p) (force simp: choices_Cons template_ok_def)
qed

lemma choices_dom: "c \<in> choices t \<Longrightarrow> fst ` c = fst ` set t"
  unfolding choices_def by (auto simp: image_image intro: rev_image_eqI)

lemma choices_notin:
  assumes "c \<in> choices t" "k \<notin> fst ` set t"
  shows "(k, x) \<notin> c"
proof
  assume "(k, x) \<in> c"
  then have "k \<in> fst ` c" by (rule rev_image_eqI) simp
  with assms show False by (simp add: choices_dom)
qed

lemma choices_finite:
  assumes "template_ok t"
  shows "finite (choices t)"
  using assms
proof (induction t)
  case Nil
  then show ?case by (simp add: choices_Nil)
next
  case (Cons p t)
  obtain k vs where p: "p = (k, vs)" by fastforce
  have k: "k \<notin> fst ` set t" and t: "template_ok t" and "finite vs"
    using Cons.prems by (auto simp: template_ok_def p)
  then show ?case using Cons.IH[OF t] by (simp add: p choices_Cons[OF k])
qed

lemma choices_prod: "template_ok t \<Longrightarrow> card (choices t) = prod_list (map (\<lambda>(k, vs). card vs) t)"
proof (induction t)
  case Nil
  then show ?case by (simp add: choices_Nil)
next
  case (Cons p t)
  obtain k vs where p: "p = (k, vs)" by fastforce
  have k: "k \<notin> fst ` set t" and t: "template_ok t" and "finite vs"
    using Cons.prems by (auto simp: template_ok_def p)
  have "inj_on (\<lambda>(c, v). insert (k, v) c) (choices t \<times> vs)"
  proof (rule inj_onI, clarify)
    fix c v c' v' assume c: "c \<in> choices t" "c' \<in> choices t" and e: "insert (k, v) c = insert (k, v') c'"
    have "(k, x) \<notin> c" "(k, x) \<notin> c'" for x using c k by (simp_all add: choices_notin)
    note no = this
    have "(k, v) \<in> insert (k, v') c'" using e by blast
    then have "v = v'" using no by blast
    moreover have "c = c'" using e no unfolding \<open>v = v'\<close> by (simp add: insert_ident)
    ultimately show "c = c' \<and> v = v'" by blast
  qed
  then have "card (choices (p # t)) = card (choices t) * card vs"
    using \<open>finite vs\<close> choices_finite[OF t]
    by (simp add: p choices_Cons[OF k] card_image card_cartesian_product)
  then show ?case using Cons.IH[OF t] by (simp add: p mult.commute)
qed

lemma choices_card: "template_ok t \<Longrightarrow> t \<noteq> [] \<Longrightarrow> card (choices t) = possibilities t"
  by (simp add: possibilities_def choices_prod)


lemma combs_foldl:
  assumes "template_ok t" "t \<noteq> []"
  shows "foldl comb_step {} t = choices t"
  using assms
proof (induction t rule: rev_induct)
  case Nil
  then show ?case by simp
next
  case (snoc p t)
  obtain k vs where p: "p = (k, vs)" by fastforce
  have t: "template_ok t" and k: "k \<notin> fst ` set t" using snoc.prems by (auto simp: template_ok_def p)
  have app: "choices (t @ [p]) = (\<lambda>(c, v). insert (k, v) c) ` (choices t \<times> vs)"
    using choices_set_cong[of "t @ [p]" "p # t"] choices_Cons[OF k] p by simp
  show ?case
  proof (cases "t = []")
    case True
    then show ?thesis using app by (force simp: comb_step_def choices_Nil p)
  next
    case False
    have "foldl comb_step {} t = choices t" by (rule snoc.IH[OF t False])
    then have "foldl comb_step {} (t @ [p]) = comb_step (choices t) p" by simp
    also have "\<dots> = choices (t @ [p])"
      using app choices_nonempty[OF t] by (simp add: comb_step_def p)
    finally show ?thesis .
  qed
qed

lemma template_ok_sort: "template_ok (sort_key fst t) \<longleftrightarrow> template_ok t"
  unfolding template_ok_def
  by (metis (no_types, lifting) distinct_map distinct_sort set_sort)

lemma combinations_of_choices:
  assumes "template_ok t" "t \<noteq> []"
  shows "combinations_of t = choices t"
proof -
  have "sort_key fst t \<noteq> []" using assms(2) by (metis set_empty set_sort)
  with assms show ?thesis
    unfolding combinations_of_def by (simp add: combs_foldl template_ok_sort choices_sort)
qed

lemma combinations_of_Nil: "combinations_of [] = {}"
  by (simp add: combinations_of_def)

section \<open>The two sets of a combination object\<close>

definition vc_inv :: "vcomb \<Rightarrow> bool" where
  "vc_inv vc \<longleftrightarrow> vc_sat vc \<inter> vc_not_sat vc = {}"

definition vc_all :: "vcomb \<Rightarrow> combination set" where
  "vc_all vc = vc_sat vc \<union> vc_not_sat vc"

named_theorems vc_simps
declare vc_init_def [vc_simps] vc_copy_def [vc_simps] vc_inv_def [vc_simps] vc_all_def [vc_simps]
  Let_def [vc_simps] vc_part_def [vc_simps] vc_mark_as_satisfied_def [vc_simps]
  vc_mark_as_unsatisfied_def [vc_simps] vc_mark_all_as_satisfied_def [vc_simps]
  vc_is_satisfied_def [vc_simps] vc_is_empty_def [vc_simps] vc_unsatisfied_copy_def [vc_simps]

lemma vc_init_inv: "vc_inv (vc_init t b)" "vc_all (vc_init t b) = combinations_of t"
  by (auto simp: vc_simps)

lemma vc_copy_id: "vc_inv vc \<Longrightarrow> vc_copy vc = vc"
  by (simp add: vc_simps)

lemma vc_mark_inv:
  assumes "vc_inv self"
  shows "vc_inv (fst (vc_mark_as_satisfied self vc))"
    "vc_inv (fst (vc_mark_as_unsatisfied self vc))"
    "vc_inv (vc_mark_all_as_satisfied self)"
  using assms by (auto simp: vc_simps)

lemma vc_mark_all:
  "vc_all (fst (vc_mark_as_satisfied self vc)) = vc_all self"
  "vc_all (fst (vc_mark_as_unsatisfied self vc)) = vc_all self"
  "vc_all (vc_mark_all_as_satisfied self) = vc_all self"
  by (auto simp: vc_simps)

lemma vc_mark_effect:
  "vc_not_sat (fst (vc_mark_as_satisfied self vc)) = vc_not_sat self - vc_sat vc"
  "vc_sat (fst (vc_mark_as_unsatisfied self vc)) = vc_sat self - vc_sat vc"
  "snd (vc_mark_as_satisfied self vc) \<longleftrightarrow> vc_sat vc \<inter> vc_not_sat self \<noteq> {}"
  by (auto simp: vc_simps)

lemma vc_mark_twice:
  "vc_mark_as_satisfied (fst (vc_mark_as_satisfied self vc)) vc =
     (fst (vc_mark_as_satisfied self vc), False)"
  by (auto simp: vc_simps)

text \<open>A run of the loop that marks each provider of a dependency.\<close>

lemma vc_mark_fold:
  "vc_not_sat (fold (\<lambda>vc s. fst (vc_mark_as_satisfied s vc)) vcs self) =
     vc_not_sat self - \<Union> (vc_sat ` set vcs)"
  by (induction vcs arbitrary: self) (auto simp: vc_mark_effect)

lemma vc_mark_fold_satisfied:
  "vc_is_satisfied (fold (\<lambda>vc s. fst (vc_mark_as_satisfied s vc)) vcs self) \<longleftrightarrow>
     vc_not_sat self \<subseteq> \<Union> (vc_sat ` set vcs)"
  by (auto simp: vc_is_satisfied_def vc_mark_fold)

definition opt_sat :: "vcomb option \<Rightarrow> combination set" where
  "opt_sat r = (case r of None \<Rightarrow> {} | Some vc \<Rightarrow> vc_sat vc)"

lemma opt_sat_part: "opt_sat (vc_part t s) = s"
  by (simp add: opt_sat_def vc_simps)

lemma vc_part_inv: "vc_part t s = Some vc \<Longrightarrow> vc_inv vc"
  by (auto simp: vc_simps split: if_splits)

lemma vc_separate_sets:
  assumes "vc_separate_satisfied self vc = (a, b, c)"
    and "vct_issubset (vc_template vc) (vc_template self) \<or>
         vct_issubset (vc_template self) (vc_template vc)"
  shows "opt_sat a = vc_sat self - vc_sat vc"
    "opt_sat b = vc_sat self \<inter> vc_sat vc"
    "opt_sat c = vc_sat vc - vc_sat self"
proof -
  have e: "opt_sat (None :: vcomb option) = {}" "\<And>v. opt_sat (Some v) = vc_sat v"
    by (simp_all add: opt_sat_def)
  show "opt_sat a = vc_sat self - vc_sat vc" "opt_sat b = vc_sat self \<inter> vc_sat vc"
    "opt_sat c = vc_sat vc - vc_sat self"
    using assms unfolding vc_separate_satisfied_def vc_is_empty_def
    by (auto simp: opt_sat_part e split: if_splits)
qed

section \<open>Simplification keeps the set it describes\<close>

text \<open>A partial choice, and the full choices that a set of partial ones describes.\<close>

definition partial_choice :: "template \<Rightarrow> combination \<Rightarrow> bool" where
  "partial_choice t c \<longleftrightarrow>
     (\<forall>k v. (k, v) \<in> c \<longrightarrow> (\<exists>vs. (k, vs) \<in> set t \<and> v \<in> vs)) \<and>
     (\<forall>k v w. (k, v) \<in> c \<longrightarrow> (k, w) \<in> c \<longrightarrow> v = w)"

definition expand :: "template \<Rightarrow> combination set \<Rightarrow> combination set" where
  "expand t s = {c' \<in> choices t. \<exists>c \<in> s. c \<subseteq> c'}"

lemma choices_partial:
  assumes "distinct (map fst t)" "c \<in> choices t"
  shows "partial_choice t c"
proof -
  obtain f where f: "\<forall>(k, vs) \<in> set t. f k \<in> vs" and c: "c = (\<lambda>k. (k, f k)) ` fst ` set t"
    using assms(2) by (auto simp: choices_def)
  show ?thesis using f unfolding c partial_choice_def by fastforce
qed

lemma choices_at:
  assumes "c \<in> choices t" "(k, vs) \<in> set t"
  shows "\<exists>v \<in> vs. (k, v) \<in> c"
proof -
  obtain f where f: "\<forall>(k, vs) \<in> set t. f k \<in> vs" and c: "c = (\<lambda>k. (k, f k)) ` fst ` set t"
    using assms(1) by (auto simp: choices_def)
  have "(k, f k) \<in> c" unfolding c using assms(2) by (intro imageI) (auto intro: rev_image_eqI)
  then show ?thesis using f assms(2) by blast
qed

lemma choices_unique: "\<lbrakk>c \<in> choices t; (k, v) \<in> c; (k, w) \<in> c\<rbrakk> \<Longrightarrow> v = w"
  by (auto simp: choices_def)

lemma choices_subset_eq:
  assumes c: "c \<in> choices t" and c': "c' \<in> choices t" and sub: "c \<subseteq> c'"
  shows "c = c'"
proof -
  obtain f where f: "c = (\<lambda>k. (k, f k)) ` fst ` set t" using c by (auto simp: choices_def)
  obtain g where g: "c' = (\<lambda>k. (k, g k)) ` fst ` set t" using c' by (auto simp: choices_def)
  have "f k = g k" if "k \<in> fst ` set t" for k
  proof -
    have "(k, f k) \<in> c'" using sub that unfolding f by blast
    then show ?thesis unfolding g by blast
  qed
  then show ?thesis unfolding f g by (intro image_cong) auto
qed

lemma expand_choices: "s \<subseteq> choices t \<Longrightarrow> expand t s = s"
  unfolding expand_def using choices_subset_eq by blast

lemma expand_Union: "expand t (\<Union> S) = \<Union> (expand t ` S)"
  by (auto simp: expand_def)

lemma exclude_restore:
  assumes "partial_choice t c" "(name, v) \<in> c"
  shows "c = insert (name, v) (exclude_name name c)"
  using assms unfolding partial_choice_def exclude_name_def by fastforce

lemma simpl_group_cases:
  assumes t: "template_ok t" and nv: "(name, vs) \<in> set t"
    and pc: "\<forall>c \<in> s. partial_choice t c" and k: "k \<in> exclude_name name ` s"
  obtains (keep) "simpl_group name vs s k = Inr ({c \<in> s. exclude_name name c = k}, False)"
  | (collapse) "simpl_group name vs s k = Inr ({k}, True)"
      "values_of name {c \<in> s. exclude_name name c = k} = vs"
proof -
  let ?g = "{c \<in> s. exclude_name name c = k}"
  have "values_of name ?g \<subseteq> vs"
  proof
    fix v assume "v \<in> values_of name ?g"
    then obtain c ws where "c \<in> s" "(name, ws) \<in> set t" "v \<in> ws"
      using pc by (force simp: values_of_def partial_choice_def)
    moreover have "ws = vs" using t nv \<open>(name, ws) \<in> set t\<close>
      unfolding template_ok_def by (metis map_of_eq_Some_iff option.inject)
    ultimately show "v \<in> vs" by simp
  qed
  then show thesis using that by (cases "card ?g < card vs"; cases "vs - values_of name ?g = {}")
      (auto simp: simpl_group_def Let_def)
qed

lemma expand_collapse:
  assumes t: "template_ok t" and nv: "(name, vs) \<in> set t"
    and pc: "\<forall>c \<in> s. partial_choice t c"
    and all: "values_of name {c \<in> s. exclude_name name c = k} = vs"
  shows "expand t {k} = expand t {c \<in> s. exclude_name name c = k}"
proof (intro equalityI subsetI)
  fix c' assume "c' \<in> expand t {k}"
  then have c': "c' \<in> choices t" "k \<subseteq> c'" by (auto simp: expand_def)
  then obtain v where v: "v \<in> vs" "(name, v) \<in> c'" using choices_at nv by blast
  then obtain c where c: "c \<in> s" "exclude_name name c = k" "(name, v) \<in> c"
    using all by (auto simp: values_of_def)
  then have "c = insert (name, v) k" using exclude_restore pc by blast
  with c c' v show "c' \<in> expand t {c \<in> s. exclude_name name c = k}" by (auto simp: expand_def)
next
  fix c' assume "c' \<in> expand t {c \<in> s. exclude_name name c = k}"
  then show "c' \<in> expand t {k}" by (auto simp: expand_def exclude_name_def)
qed

lemma exclude_partial: "partial_choice t c \<Longrightarrow> partial_choice t (exclude_name name c)"
  by (auto simp: partial_choice_def exclude_name_def)

lemma exclude_idem [simp]: "exclude_name name (exclude_name name c) = exclude_name name c"
  by (auto simp: exclude_name_def)

lemma simpl_name_total:
  assumes t: "template_ok t" and nv: "(name, vs) \<in> set t" and pc: "\<forall>c \<in> s. partial_choice t c"
  obtains r again where "simpl_name name vs s = Inr (r, again)"
    "\<forall>c \<in> r. partial_choice t c" "expand t r = expand t s"
    "exclude_name name ` r \<subseteq> exclude_name name ` s"
    "\<And>k. k \<in> exclude_name name ` s \<Longrightarrow>
       {c \<in> r. exclude_name name c = k} = {c \<in> s. exclude_name name c = k} \<or>
       {c \<in> r. exclude_name name c = k} = {k} \<and>
         values_of name {c \<in> s. exclude_name name c = k} = vs"
    "again \<Longrightarrow> \<exists>k \<in> exclude_name name ` s. {c \<in> r. exclude_name name c = k} = {k} \<and>
         values_of name {c \<in> s. exclude_name name c = k} = vs"
proof -
  let ?K = "exclude_name name ` s"
  let ?G = "\<lambda>k. {c \<in> s. exclude_name name c = k}"
  define h where "h k = fst (projr (simpl_group name vs s k))" for k
  define b where "b k = snd (projr (simpl_group name vs s k))" for k
  have grp: "simpl_group name vs s k = Inr (h k, b k) \<and>
      (h k = ?G k \<and> \<not> b k \<or> h k = {k} \<and> b k \<and> values_of name (?G k) = vs)" if "k \<in> ?K" for k
    by (rule simpl_group_cases[OF t nv pc that]) (simp_all add: h_def b_def)
  define r where "r = \<Union> (h ` ?K)"
  define again where "again = (\<exists>k \<in> ?K. b k)"
  have eq: "simpl_name name vs s = Inr (r, again)"
  proof -
    have "Inl (KeyError name) \<notin> simpl_group name vs s ` ?K" using grp by force
    moreover have "(fst ` projr ` simpl_group name vs s ` ?K) = h ` ?K"
      by (simp add: image_image h_def)
    moreover have "True \<in> snd ` projr ` simpl_group name vs s ` ?K \<longleftrightarrow> again"
      unfolding again_def b_def by (auto simp: image_iff)
    ultimately show ?thesis by (simp add: simpl_name_def Let_def r_def)
  qed
  have key: "exclude_name name c = k" if "k \<in> ?K" "c \<in> h k" for c k
  proof -
    have "exclude_name name k = k" using that(1) by (elim imageE) simp
    moreover have "h k = ?G k \<or> h k = {k}" using grp[OF that(1)] by (elim conjE disjE) simp_all
    ultimately show ?thesis using that(2) by (elim disjE) simp_all
  qed
  have mem: "{c \<in> r. exclude_name name c = k} = h k" if "k \<in> ?K" for k
  proof (intro equalityI subsetI)
    fix c assume "c \<in> {c \<in> r. exclude_name name c = k}"
    then obtain k' where "k' \<in> ?K" "c \<in> h k'" "exclude_name name c = k" by (auto simp: r_def)
    then show "c \<in> h k" using key by metis
  next
    fix c assume "c \<in> h k"
    then show "c \<in> {c \<in> r. exclude_name name c = k}" using key[OF that] that by (auto simp: r_def)
  qed
  have ex: "expand t (h k) = expand t (?G k)" if "k \<in> ?K" for k
    using grp[OF that] expand_collapse[OF t nv pc] by auto
  have "expand t r = \<Union> (expand t ` h ` ?K)" unfolding r_def by (rule expand_Union)
  also have "\<dots> = \<Union> (expand t ` ?G ` ?K)" using ex by (simp add: image_image)
  also have "\<dots> = expand t (\<Union> (?G ` ?K))" by (rule expand_Union[symmetric])
  also have "\<Union> (?G ` ?K) = s" by auto
  finally have exr: "expand t r = expand t s" .
  have "\<forall>c \<in> r. partial_choice t c"
  proof
    fix c assume "c \<in> r"
    then obtain k where k: "k \<in> ?K" "c \<in> h k" by (auto simp: r_def)
    obtain c0 where "c0 \<in> s" "k = exclude_name name c0" using k(1) by (rule imageE)
    then have pk: "partial_choice t k" using pc exclude_partial by simp
    from grp[OF k(1)] have "h k = ?G k \<or> h k = {k}" by (elim conjE disjE) simp_all
    then show "partial_choice t c" using k(2) pc pk by (elim disjE) simp_all
  qed
  moreover note exr
  moreover have "exclude_name name ` r \<subseteq> ?K"
  proof
    fix x assume "x \<in> exclude_name name ` r"
    then obtain c where "c \<in> r" "x = exclude_name name c" by (rule imageE)
    moreover obtain k where "k \<in> ?K" "c \<in> h k" using \<open>c \<in> r\<close> unfolding r_def by (rule UN_E)
    ultimately show "x \<in> ?K" using key[OF \<open>k \<in> ?K\<close> \<open>c \<in> h k\<close>] by simp
  qed
  moreover have "\<And>k. k \<in> ?K \<Longrightarrow>
       {c \<in> r. exclude_name name c = k} = ?G k \<or>
       {c \<in> r. exclude_name name c = k} = {k} \<and> values_of name (?G k) = vs"
  proof -
    fix k assume k: "k \<in> ?K"
    show "{c \<in> r. exclude_name name c = k} = ?G k \<or>
       {c \<in> r. exclude_name name c = k} = {k} \<and> values_of name (?G k) = vs"
      unfolding mem[OF k] using grp[OF k] by blast
  qed
  moreover have "again \<Longrightarrow> \<exists>k \<in> ?K. {c \<in> r. exclude_name name c = k} = {k} \<and>
         values_of name (?G k) = vs"
  proof -
    assume again
    then obtain k where k: "k \<in> ?K" "b k" unfolding again_def by blast
    then have "h k = {k} \<and> values_of name (?G k) = vs" using grp[OF k(1)] by blast
    then show ?thesis using mem[OF k(1)] k(1) by (intro bexI[of _ k]) simp_all
  qed
  ultimately show thesis by (rule that[OF eq])
qed

text \<open>The number of pairs held decreases whenever a group collapses.\<close>

definition weight :: "combination set \<Rightarrow> nat" where
  "weight s = (\<Sum>c \<in> s. card c)"

lemma partial_choice_finite: "\<lbrakk>template_ok t; partial_choice t c\<rbrakk> \<Longrightarrow> finite c"
proof -
  assume t: "template_ok t" and p: "partial_choice t c"
  have "c \<subseteq> (\<Union>(k, vs) \<in> set t. Pair k ` vs)"
  proof
    fix x assume "x \<in> c"
    then obtain k v vs where "x = (k, v)" "(k, vs) \<in> set t" "v \<in> vs"
      using p unfolding partial_choice_def by (cases x) metis
    then show "x \<in> (\<Union>(k, vs) \<in> set t. Pair k ` vs)" by blast
  qed
  moreover have "finite (\<Union>(k, vs) \<in> set t. Pair k ` vs)"
    using t by (auto simp: template_ok_def)
  ultimately show "finite c" by (rule finite_subset)
qed

lemma weight_collapse:
  assumes t: "template_ok t" and nv: "(name, vs) \<in> set t" and pc: "\<forall>c \<in> s. partial_choice t c"
    and fin: "finite s"
    and vals: "values_of name {c \<in> s. exclude_name name c = k} = vs"
  shows "card k < weight {c \<in> s. exclude_name name c = k}"
proof -
  let ?g = "{c \<in> s. exclude_name name c = k}"
  have "vs \<noteq> {}" using t nv by (auto simp: template_ok_def)
  then obtain v where "v \<in> vs" by blast
  then obtain c where c: "c \<in> ?g" "(name, v) \<in> c" using vals by (auto simp: values_of_def)
  then have ck: "c \<in> s" "exclude_name name c = k" by auto
  have "c = insert (name, v) k" using exclude_restore[of t c name v] pc ck c(2) by simp
  moreover have "finite c" using partial_choice_finite[OF t] pc ck(1) by blast
  moreover have "(name, v) \<notin> k" using ck(2) by (auto simp: exclude_name_def)
  ultimately have "c = insert (name, v) k" "finite c" "(name, v) \<notin> k" by blast+
  then have "card k < card c" by (metis card_insert_disjoint finite_insert lessI)
  also have "card c \<le> weight ?g" unfolding weight_def
    by (rule member_le_sum) (use c fin in auto)
  finally show ?thesis .
qed

lemma weight_groups: "finite s \<Longrightarrow> exclude_name name ` s \<subseteq> K \<Longrightarrow> finite K \<Longrightarrow>
  weight s = (\<Sum>k \<in> K. weight {c \<in> s. exclude_name name c = k})"
  unfolding weight_def by (rule sum.group[symmetric])

lemma simpl_name_weight:
  assumes t: "template_ok t" and nv: "(name, vs) \<in> set t" and pc: "\<forall>c \<in> s. partial_choice t c"
    and fin: "finite s" and eq: "simpl_name name vs s = Inr (r, again)"
  shows "finite r" "weight r \<le> weight s" "again \<Longrightarrow> weight r < weight s"
proof -
  let ?K = "exclude_name name ` s"
  let ?G = "\<lambda>s k. {c \<in> s. exclude_name name c = k}"
  obtain r' again' where
    e: "simpl_name name vs s = Inr (r', again')"
    and sub: "exclude_name name ` r' \<subseteq> ?K"
    and cs: "\<And>k. k \<in> ?K \<Longrightarrow> ?G r' k = ?G s k \<or> ?G r' k = {k} \<and> values_of name (?G s k) = vs"
    and ag: "again' \<Longrightarrow> \<exists>k \<in> ?K. ?G r' k = {k} \<and> values_of name (?G s k) = vs"
    by (rule simpl_name_total[OF t nv pc]) (rule that)
  have r: "r' = r" "again' = again" using e eq by auto
  note sub = sub[unfolded r] and cs = cs[unfolded r] and ag = ag[unfolded r]
  have "r \<subseteq> \<Union> (?G r ` ?K)" using sub by auto
  moreover have "finite (\<Union> (?G r ` ?K))"
  proof (rule finite_UN_I)
    show "finite ?K" using fin by simp
    show "finite (?G r k)" if "k \<in> ?K" for k
      using cs[OF that] fin by (elim disjE conjE) auto
  qed
  ultimately show finr: "finite r" by (rule finite_subset)
  have le: "weight (?G r k) \<le> weight (?G s k)" if "k \<in> ?K" for k
    using cs[OF that] weight_collapse[OF t nv pc fin, of k]
    by (elim disjE) (simp_all add: weight_def)
  have ws: "weight s = (\<Sum>k \<in> ?K. weight (?G s k))" by (rule weight_groups) (use fin in auto)
  have wr: "weight r = (\<Sum>k \<in> ?K. weight (?G r k))"
    by (rule weight_groups[OF finr sub]) (use fin in auto)
  show "weight r \<le> weight s" unfolding ws wr by (rule sum_mono) (rule le)
  show "weight r < weight s" if again
  proof -
    obtain k where k: "k \<in> ?K" "?G r k = {k}" "values_of name (?G s k) = vs"
      using ag[OF \<open>again\<close>] by blast
    have "weight (?G r k) < weight (?G s k)"
      using weight_collapse[OF t nv pc fin k(3)] k(2) by (simp add: weight_def)
    then show ?thesis unfolding ws wr using fin le k(1) by (intro sum_strict_mono_ex1) auto
  qed
qed

lemma simpl_pass_total:
  assumes t: "template_ok t" and sub: "set names \<subseteq> set t"
    and pc: "\<forall>c \<in> s. partial_choice t c" and fin: "finite s"
  shows "\<exists>r again. simpl_pass names s kg = Inr (r, again) \<and> (\<forall>c \<in> r. partial_choice t c) \<and>
    finite r \<and> expand t r = expand t s \<and> weight r \<le> weight s \<and> (again \<longrightarrow> kg \<or> weight r < weight s)"
  using sub pc fin
proof (induction names arbitrary: s kg)
  case Nil
  then show ?case by simp
next
  case (Cons p names)
  obtain name vs where p: "p = (name, vs)" by fastforce
  then have nv: "(name, vs) \<in> set t" using Cons.prems by auto
  obtain r again where e: "simpl_name name vs s = Inr (r, again)"
    and r: "\<forall>c \<in> r. partial_choice t c" "expand t r = expand t s"
    by (rule simpl_name_total[OF t nv Cons.prems(2)]) (rule that)
  note w = simpl_name_weight[OF t nv Cons.prems(2,3) e]
  obtain r2 again2 where "simpl_pass names r (kg \<or> again) = Inr (r2, again2)"
    "\<forall>c \<in> r2. partial_choice t c" "finite r2" "expand t r2 = expand t r" "weight r2 \<le> weight r"
    "again2 \<longrightarrow> (kg \<or> again) \<or> weight r2 < weight r"
    using Cons.IH[of r "kg \<or> again"] Cons.prems(1) r w(1) by auto
  then show ?case using p e r w by (fastforce simp: sbind_def)
qed

lemma simpl_loop_total:
  assumes t: "template_ok t" and sub: "set names \<subseteq> set t"
    and "\<forall>c \<in> s. partial_choice t c" and "finite s"
  shows "\<exists>r. simpl_loop names s = Some (Inr r) \<and> expand t r = expand t s"
  using assms(3,4)
proof (induction s rule: measure_induct_rule[of weight])
  case (less s)
  obtain r again where e: "simpl_pass names s False = Inr (r, again)"
    and r: "\<forall>c \<in> r. partial_choice t c" "finite r" "expand t r = expand t s"
    and w: "again \<longrightarrow> weight r < weight s"
    using simpl_pass_total[OF t sub less.prems, of False] by auto
  show ?case
  proof (cases again)
    case True
    then show ?thesis using less.IH[of r] r w e by (subst simpl_loop.simps) simp
  next
    case False
    then show ?thesis using e r by (subst simpl_loop.simps) simp
  qed
qed

text \<open>The result of the simplification describes the same full choices, or is empty when the
  set was all of them.\<close>

lemma calc_simple_total:
  assumes t: "template_ok t" and "vc_template vc = t"
    and s: "s = (if b then vc_sat vc else vc_not_sat vc)" and sub: "s \<subseteq> choices t"
  shows "\<exists>r. calc_simple vc t b = Some (Inr r) \<and>
    (if t \<noteq> [] \<and> s = choices t then r = {} else expand t r = s)"
proof -
  have fin: "finite s" using sub choices_finite[OF t] by (rule finite_subset)
  have pc: "\<forall>c \<in> s. partial_choice t c"
    using sub choices_partial t by (auto simp: template_ok_def)
  have iff: "possibilities t = card s \<longleftrightarrow> (if t = [] then s = {} else s = choices t)"
  proof (cases "t = []")
    case True
    then show ?thesis using fin by (auto simp: possibilities_def)
  next
    case False
    then show ?thesis using choices_card[OF t] choices_finite[OF t] sub by (metis card_subset_eq)
  qed
  have "\<exists>r. simpl_loop (rev (sort_key fst t)) s = Some (Inr r) \<and> expand t r = expand t s"
    by (rule simpl_loop_total[OF t _ pc fin]) simp
  moreover have "expand t s = s" "expand t {} = {}" using sub by (rule expand_choices) (auto simp: expand_def)
  ultimately show ?thesis unfolding calc_simple_def Let_def s[symmetric] iff by auto
qed

section \<open>Properties\<close>

text \<open>
  The native filter of actions by variants: an action is allowed exactly when each of its
  \<open>variant.\<close> attributes is a single string that equals the image's value, or, where the image
  has none, begins with \<open>false\<close>.
\<close>

lemma allow_variant_characterised:
  "allow_variant vars attrs \<longleftrightarrow>
     (\<forall>attr value. (attr, value) \<in> set attrs \<and> starts_with attr variant_prefix \<longrightarrow>
        (\<exists>av. value = AStr av \<and>
           (case map_of vars attr of
              None \<Rightarrow> starts_with av ''false''
            | Some sysv \<Rightarrow> c_str av = c_str sysv)))"
  by (auto simp: allow_variant_iff)

lemma allow_variant_characterised_witness:
  "allow_variant [(''variant.arch'', ''i386'')]
     [(''path'', AStr ''usr''), (''variant.arch'', AStr ''i386''), (''variant.debug'', AStr ''falsey'')]"
  by (subst allow_variant_characterised)
    (auto simp: starts_with_def variant_prefix_def)

text \<open>
  Building the combinations of a template whose names have values gives every choice of one
  value for each name exactly once: as many combinations as the product of the numbers of values,
  all of them satisfied or all unsatisfied, and none at all for the empty template.
\<close>

lemma combinations_complete:
  assumes "template_ok t"
  shows "(if t = [] then combinations_of t = {}
      else combinations_of t = choices t \<and> card (combinations_of t) = possibilities t)
    \<and> vc_inv (vc_init t b) \<and> vc_all (vc_init t b) = combinations_of t"
  using combinations_of_choices [OF assms] choices_card [OF assms] combinations_of_Nil vc_init_inv
  by auto

lemma combinations_complete_witness:
  "card (combinations_of [(''variant.arch'', {''i386'', ''sparc''}), (''variant.debug'', {''false''})]) = 2"
proof -
  have "template_ok [(''variant.arch'', {''i386'', ''sparc''}), (''variant.debug'', {''false''})]"
    by (simp add: template_ok_def)
  note c = combinations_complete [OF this, THEN conjunct1]
  have "card (combinations_of [(''variant.arch'', {''i386'', ''sparc''}), (''variant.debug'', {''false''})])
      = possibilities [(''variant.arch'', {''i386'', ''sparc''}), (''variant.debug'', {''false''})]"
    using c by (rule if_not_P [THEN iffD1, THEN conjunct2, rotated]) simp
  also have "\<dots> = 2" by (simp add: possibilities_def)
  finally show ?thesis .
qed

text \<open>
  C11. Marking moves combinations between the satisfied and the unsatisfied set and never loses or
  duplicates one; after any sequence of \<open>mark_as_satisfied\<close> calls the object is satisfied exactly
  when the marked objects together cover what was unsatisfied.
\<close>

lemma marking_keeps_combinations:
  assumes "vc_inv self"
  shows "vc_inv (fst (vc_mark_as_satisfied self vc)) \<and> vc_inv (fst (vc_mark_as_unsatisfied self vc))
    \<and> vc_inv (vc_mark_all_as_satisfied self)
    \<and> vc_all (fst (vc_mark_as_satisfied self vc)) = vc_all self
    \<and> vc_all (fst (vc_mark_as_unsatisfied self vc)) = vc_all self
    \<and> vc_all (vc_mark_all_as_satisfied self) = vc_all self
    \<and> vc_is_satisfied (fold (\<lambda>vc s. fst (vc_mark_as_satisfied s vc)) vcs self) =
        (vc_not_sat self \<subseteq> \<Union> (vc_sat ` set vcs))"
  using vc_mark_inv [OF assms] vc_mark_all vc_mark_fold_satisfied by simp

lemma marking_keeps_combinations_witness:
  "vc_inv (fst (vc_mark_as_satisfied (vc_init [(''variant.arch'', {''i386''})] False)
      (vc_init [(''variant.arch'', {''i386'', ''sparc''})] True)))"
  by (rule marking_keeps_combinations [THEN conjunct1]) (rule vc_init_inv(1))

text \<open>
  \<open>separate_satisfied\<close> splits the satisfied combinations of two objects with comparable
  templates into those only in the first, those in both and those only in the second; \<open>None\<close>
  stands for none.
\<close>

lemma separate_satisfied_partition:
  assumes "vc_separate_satisfied self vc = (a, b, c)"
    and "vct_issubset (vc_template vc) (vc_template self) \<or>
         vct_issubset (vc_template self) (vc_template vc)"
  shows "opt_sat a = vc_sat self - vc_sat vc \<and> opt_sat b = vc_sat self \<inter> vc_sat vc
    \<and> opt_sat c = vc_sat vc - vc_sat self"
  using vc_separate_sets [OF assms] by blast

lemma separate_satisfied_partition_witness:
  "opt_sat (fst (vc_separate_satisfied (vc_init [(''variant.arch'', {''i386'', ''sparc''})] True)
      (vc_init [(''variant.arch'', {''i386''})] True))) =
     vc_sat (vc_init [(''variant.arch'', {''i386'', ''sparc''})] True)
     - vc_sat (vc_init [(''variant.arch'', {''i386''})] True)"
proof -
  have "vct_issubset (vc_template (vc_init [(''variant.arch'', {''i386''})] True))
      (vc_template (vc_init [(''variant.arch'', {''i386'', ''sparc''})] True))"
    by (simp add: vct_issubset_iff vc_init_def Let_def)
  moreover obtain a b c where e: "vc_separate_satisfied
      (vc_init [(''variant.arch'', {''i386'', ''sparc''})] True)
      (vc_init [(''variant.arch'', {''i386''})] True) = (a, b, c)"
    by (rule prod_cases3)
  ultimately have "opt_sat a = vc_sat (vc_init [(''variant.arch'', {''i386'', ''sparc''})] True)
     - vc_sat (vc_init [(''variant.arch'', {''i386''})] True)"
    using separate_satisfied_partition [OF e] by blast
  then show ?thesis unfolding e by simp
qed

text \<open>
  C10. Simplification ends, raises nothing, and keeps the meaning of the set: for an object over a
  template with values for each name, the simplified set is empty when the set held every
  combination of a template that has names, and otherwise the full combinations that extend a member of the
  result are exactly the original ones.
\<close>

lemma simplification_keeps_meaning:
  assumes "template_ok t" and "vc_template vc = t"
    and "s = (if b then vc_sat vc else vc_not_sat vc)" and "s \<subseteq> choices t"
  shows "\<exists>r. calc_simple vc t b = Some (Inr r)
    \<and> (if t \<noteq> [] \<and> s = choices t then r = {} else expand t r = s)"
  by (rule calc_simple_total [OF assms])

lemma simplification_keeps_meaning_witness:
  "\<exists>r. calc_simple (vc_init [(''variant.arch'', {''i386'', ''sparc''})] True)
      [(''variant.arch'', {''i386'', ''sparc''})] False = Some (Inr r)
    \<and> expand [(''variant.arch'', {''i386'', ''sparc''})] r = {}"
proof -
  let ?t = "[(''variant.arch'', {''i386'', ''sparc''})]"
  have t: "template_ok ?t" by (simp add: template_ok_def)
  have n: "vc_not_sat (vc_init ?t True) = {}" by (simp add: vc_init_def Let_def)
  show ?thesis
    using simplification_keeps_meaning [OF t, of "vc_init ?t True" "{}" False] n choices_nonempty [OF t]
    by (simp add: vc_init_def Let_def)
qed

end
