(* ===== verification/Pkg_Dict.thy ===== *)
theory Pkg_Dict
  imports Pkg_Prelude "HOL-Library.AList"
begin

text \<open>
  Python dictionaries whose iteration order is visible: association lists with distinct keys.
  Assigning to a present key replaces its value in place, assigning to a new one appends, as the
  language does.  The locale \<open>pymap\<close> is the interface the clients rely on; it is interpreted on
  the association lists.
\<close>

type_synonym 'v dict = "(string \<times> 'v) list"

definition dget :: "'v dict \<Rightarrow> string \<Rightarrow> 'v option" where
  "dget d k = map_of d k"

definition dput :: "string \<Rightarrow> 'v \<Rightarrow> 'v dict \<Rightarrow> 'v dict" where
  "dput k v d = AList.update k v d"

definition ddel :: "string \<Rightarrow> 'v dict \<Rightarrow> 'v dict" where
  "ddel k d = filter (\<lambda>p. fst p \<noteq> k) d"

definition dkeys :: "'v dict \<Rightarrow> string list" where
  "dkeys d = map fst d"

definition dict_ok :: "'v dict \<Rightarrow> bool" where
  "dict_ok d \<longleftrightarrow> distinct (map fst d)"

text \<open>The update of a dictionary by pairs, in order.\<close>

definition dput_all :: "(string \<times> 'v) list \<Rightarrow> 'v dict \<Rightarrow> 'v dict" where
  "dput_all kvs d = fold (\<lambda>(k, v). dput k v) kvs d"

section \<open>The interface\<close>

locale pymap =
  fixes get :: "'d \<Rightarrow> 'k \<Rightarrow> 'v option"
    and put :: "'k \<Rightarrow> 'v \<Rightarrow> 'd \<Rightarrow> 'd"
    and del :: "'k \<Rightarrow> 'd \<Rightarrow> 'd"
    and keys :: "'d \<Rightarrow> 'k list"
    and ok :: "'d \<Rightarrow> bool"
  assumes get_put: "get (put k v d) = (get d)(k \<mapsto> v)"
    and get_del: "get (del k d) = (get d)(k := None)"
    and keys_get: "set (keys d) = dom (get d)"
    and ok_put: "ok d \<Longrightarrow> ok (put k v d)"
    and ok_del: "ok d \<Longrightarrow> ok (del k d)"
    and ok_keys: "ok d \<Longrightarrow> distinct (keys d)"
begin

lemma get_put_all: "get (fold (\<lambda>(k, v). put k v) kvs d) = get d ++ map_of (rev kvs)"
  by (induction kvs arbitrary: d)
    (auto simp: get_put map_add_def fun_eq_iff split: prod.splits option.splits)

lemma ok_put_all: "ok d \<Longrightarrow> ok (fold (\<lambda>(k, v). put k v) kvs d)"
  by (induction kvs arbitrary: d) (auto simp: ok_put)

lemma get_del_all: "get (fold del ks d) = (get d) |` (- set ks)"
  by (induction ks arbitrary: d) (auto simp: get_del restrict_map_def)

lemma ok_del_all: "ok d \<Longrightarrow> ok (fold del ks d)"
  by (induction ks arbitrary: d) (auto simp: ok_del)

lemma keys_None: "k \<notin> set (keys d) \<longleftrightarrow> get d k = None"
  by (auto simp: keys_get domIff)

lemma del_keys_all: "get (fold del (keys d) d) k = None"
  by (cases "get d k") (auto simp: get_del_all keys_get restrict_map_def)

end

interpretation pydict: pymap dget dput ddel dkeys dict_ok
proof
  show "dget (dput k v d) = (dget d)(k \<mapsto> v)" for k and v :: 'v and d :: "'v dict"
    by (simp add: dget_def dput_def update_conv' fun_eq_iff)
  show "dget (ddel k d) = (dget d)(k := None)" for k and d :: "'v dict"
    by (induction d) (auto simp: dget_def ddel_def fun_eq_iff)
  show "set (dkeys d) = dom (dget d)" for d :: "'v dict"
    using dom_map_of_conv_image_fst [of d] by (simp add: dkeys_def dget_def [abs_def])
  show "dict_ok d \<Longrightarrow> dict_ok (dput k v d)" for k and v :: 'v and d :: "'v dict"
    by (simp add: dict_ok_def dput_def distinct_update)
  show "dict_ok d \<Longrightarrow> dict_ok (ddel k d)" for k and d :: "'v dict"
    by (induction d) (auto simp: dict_ok_def ddel_def)
  show "dict_ok d \<Longrightarrow> distinct (dkeys d)" for d :: "'v dict"
    by (simp add: dict_ok_def dkeys_def)
qed

section \<open>Facts about the association lists\<close>

lemma dget_Nil [simp]: "dget [] k = None"
  by (simp add: dget_def)

lemma dict_ok_Nil [simp]: "dict_ok []"
  by (simp add: dict_ok_def)

lemma dkeys_Nil [simp]: "dkeys [] = []"
  by (simp add: dkeys_def)

lemma dget_Some_mem: "dict_ok d \<Longrightarrow> dget d k = Some v \<longleftrightarrow> (k, v) \<in> set d"
  by (simp add: dict_ok_def dget_def map_of_eq_Some_iff)

lemma dput_twice: "dput k x (dput k y d) = dput k x d"
  unfolding dput_def by (induction d) auto

lemma dput_nonempty [simp]: "dput k v d \<noteq> []"
  unfolding dput_def by (cases d) (auto split: if_splits)

lemma dput_new: "dget d k = None \<Longrightarrow> dput k v d = d @ [(k, v)]"
  by (induction d) (auto simp: dget_def dput_def split: if_splits)

lemma dget_map: "dget (map (\<lambda>(k, v). (k, g v)) d) k = map_option g (dget d k)"
  by (simp add: dget_def map_of_map)

lemma dget_map_keyed: "dget (map (\<lambda>(k, v). (k, f k v)) d) k = map_option (f k) (dget d k)"
  by (induction d) (auto simp: dget_def)

lemma dget_append: "dget (xs @ ys) k = (case dget xs k of None \<Rightarrow> dget ys k | Some v \<Rightarrow> Some v)"
  by (auto simp: dget_def map_add_def split: option.splits)

lemma dput_all_append:
  "dict_ok (d @ kvs) \<Longrightarrow> fold (\<lambda>(k, v). dput k v) kvs d = d @ kvs"
proof (induction kvs arbitrary: d)
  case (Cons p kvs)
  obtain k v where p: "p = (k, v)" by fastforce
  have "dget d k = None" using Cons.prems p
    by (auto simp: dict_ok_def dget_def map_of_eq_None_iff)
  then have "dput k v d = d @ [p]" by (simp add: dput_new p)
  with Cons.IH[of "d @ [p]"] Cons.prems p show ?case by simp
qed simp

text \<open>Rebuilding a dictionary from its items in order gives it back.\<close>

lemma dput_all_self: "dict_ok d \<Longrightarrow> dput_all d [] = d"
  unfolding dput_all_def using dput_all_append[of "[]" d] by simp

lemma dget_put_all: "dget (dput_all kvs d) = dget d ++ map_of (rev kvs)"
  unfolding dput_all_def by (rule pydict.get_put_all)

lemma dict_ok_put_all: "dict_ok d \<Longrightarrow> dict_ok (dput_all kvs d)"
  unfolding dput_all_def by (rule pydict.ok_put_all)

end
