(* ===== verification/Pkg_Facet.thy ===== *)
theory Pkg_Facet
  imports Pkg_Variant Pkg_Glob Pkg_Dict
begin

text \<open>
  \<open>src/src/modules/facet.py\<close> and the native \<open>_allow_facet\<close> of \<open>src/src/modules/_varcet.c\<close>.
  A \<open>Facets\<close> object keeps its visible values in the dictionary it inherits from (\<open>f_main\<close>), the
  values set locally and those inherited from a parent image in two more dictionaries, a list of
  keys in matching order and a compiled pattern for each visible key.  A compiled pattern is
  modelled by the shell pattern it was made from.
\<close>

section \<open>State\<close>

datatype fvalue = FBool bool | FOther

record facets =
  f_main :: "bool dict"
  f_local :: "bool dict"
  f_inherited :: "bool dict"
  f_keylist :: "string list"
  f_res :: "string dict"

definition facets_empty :: facets where
  "facets_empty = \<lparr>f_main = [], f_local = [], f_inherited = [], f_keylist = [], f_res = []\<rparr>"

definition facet_prefix :: string where "facet_prefix = ''facet.''"

text \<open>Longer names first, names of equal length in lexical order.\<close>

definition facet_sort_key :: "string \<Rightarrow> int \<times> string" where
  "facet_sort_key k = (- int (length k), k)"

definition keylist_of :: "facets \<Rightarrow> string list" where
  "keylist_of st =
     sort_key facet_sort_key (filter (\<lambda>i. dget (f_inherited st) i \<noteq> None) (dkeys (f_main st)))
     @ sort_key facet_sort_key (filter (\<lambda>i. dget (f_inherited st) i = None) (dkeys (f_main st)))"

definition keylist_sort :: "facets \<Rightarrow> facets" where
  "keylist_sort st = st\<lparr>f_keylist := keylist_of st\<rparr>"

section \<open>Operations\<close>

definition setitem_internal :: "string \<Rightarrow> fvalue \<Rightarrow> bool \<Rightarrow> facets \<Rightarrow> py_exn + facets" where
  "setitem_internal item value inherited st =
     (if \<not> starts_with item facet_prefix then Inl (KeyError ''key must start with facet.'')
      else case value of
        FOther \<Rightarrow> Inl ValueError
      | FBool v \<Rightarrow>
          let do_sort = (inherited \<and> dget (f_inherited st) item = None
                         \<or> \<not> inherited \<and> dget (f_main st) item = None);
              st1 = (if inherited then st\<lparr>f_inherited := dput item v (f_inherited st)\<rparr>
                     else st\<lparr>f_local := dput item v (f_local st)\<rparr>);
              st2 = (if inherited \<or> dget (f_inherited st1) item = None
                     then st1\<lparr>f_main := dput item v (f_main st1), f_res := dput item item (f_res st1)\<rparr>
                     else st1)
          in Inr (if do_sort then keylist_sort st2 else st2))"

definition facets_setitem :: "string \<Rightarrow> fvalue \<Rightarrow> facets \<Rightarrow> py_exn + facets" where
  "facets_setitem item value st = setitem_internal item value False st"

definition set_inherited :: "string \<Rightarrow> fvalue \<Rightarrow> facets \<Rightarrow> py_exn + facets" where
  "set_inherited item value st = setitem_internal item value True st"

text \<open>The loop over the key list; a key without a pattern or value raises.\<close>

fun match_keys :: "facets \<Rightarrow> string list \<Rightarrow> string \<Rightarrow> py_exn + (string \<times> bool) option" where
  "match_keys st [] item = Inr None"
| "match_keys st (k # ks) item =
     (case dget (f_res st) k of
        None \<Rightarrow> Inl (KeyError k)
      | Some pat \<Rightarrow>
          if glob_match item pat then
            (case dget (f_main st) k of None \<Rightarrow> Inl (KeyError k) | Some v \<Rightarrow> Inr (Some (k, v)))
          else match_keys st ks item)"

definition facet_default :: "string \<Rightarrow> bool" where
  "facet_default item \<longleftrightarrow>
     \<not> (starts_with item ''facet.debug.'' \<or> starts_with item ''facet.optional.'')"

definition facets_getitem_internal :: "facets \<Rightarrow> string \<Rightarrow> py_exn + (string option \<times> bool)" where
  "facets_getitem_internal st item =
     (if \<not> starts_with item facet_prefix then Inl (KeyError ''key must start w/ facet.'')
      else case dget (f_main st) item of
        Some v \<Rightarrow> Inr (Some item, v)
      | None \<Rightarrow>
          sbind (match_keys st (f_keylist st) item) (\<lambda>r.
            case r of
              Some (k, v) \<Rightarrow> Inr (Some k, v)
            | None \<Rightarrow> Inr (None, facet_default item)))"

definition facets_getitem :: "facets \<Rightarrow> string \<Rightarrow> py_exn + bool" where
  "facets_getitem st item = sbind (facets_getitem_internal st item) (\<lambda>(k, v). Inr v)"

definition delitem_internal :: "string \<Rightarrow> bool \<Rightarrow> facets \<Rightarrow> py_exn + (bool \<times> facets)" where
  "delitem_internal item inherited st =
     (if dget (f_main st) item = None then Inl (KeyError item)
      else if \<not> inherited \<and> dget (f_local st) item = None then Inl (KeyError item)
      else if \<not> (\<not> inherited \<or> dget (f_inherited st) item \<noteq> None) then Inl AssertionError
      else
        let expose = (if inherited then dget (f_local st) item else None) in
        sbind
          (case expose of
             Some v \<Rightarrow> Inr (st\<lparr>f_main := dput item v (f_main st), f_res := dput item item (f_res st)\<rparr>)
           | None \<Rightarrow>
               if dget (f_res st) item = None then Inl (KeyError item)
               else if item \<notin> set (f_keylist st) then Inl ValueError
               else Inr (st\<lparr>f_main := ddel item (f_main st), f_res := ddel item (f_res st),
                            f_keylist := remove1 item (f_keylist st)\<rparr>))
          (\<lambda>st1.
        let rv = (if inherited then dget (f_inherited st1) item else dget (f_local st1) item);
            st2 = (if inherited then st1\<lparr>f_inherited := ddel item (f_inherited st1)\<rparr>
                   else st1\<lparr>f_local := ddel item (f_local st1)\<rparr>)
        in Inr (the rv, if expose \<noteq> None then keylist_sort st2 else st2)))"

definition facets_delitem :: "string \<Rightarrow> facets \<Rightarrow> py_exn + facets" where
  "facets_delitem item st = sbind (delitem_internal item False st) (\<lambda>(v, st'). Inr st')"

text \<open>\<open>_clear_inherited\<close>: the state reached, and the exception that stopped it, if any.\<close>

fun clear_inherited_keys :: "string list \<Rightarrow> facets \<Rightarrow> facets \<times> py_exn option" where
  "clear_inherited_keys [] st = (st, None)"
| "clear_inherited_keys (k # ks) st =
     (case delitem_internal k True st of
        Inl e \<Rightarrow> (st, Some e)
      | Inr (v, st') \<Rightarrow> clear_inherited_keys ks st')"

definition clear_inherited :: "facets \<Rightarrow> facets \<times> py_exn option" where
  "clear_inherited st = clear_inherited_keys (dkeys (f_inherited st)) st"

definition facets_pop :: "string \<Rightarrow> bool option \<Rightarrow> facets \<Rightarrow> py_exn + (bool \<times> facets)" where
  "facets_pop item dflt st =
     (if dget (f_local st) item = None then
        (case dflt of
           Some d \<Rightarrow> Inr (d, st)
         | None \<Rightarrow> if f_main st = [] then Inl (KeyError ''pop(): dictionary is empty'')
                  else Inl (KeyError item))
      else delitem_internal item False st)"

text \<open>
  \<open>popitem\<close> unpacks each key of the dictionary into two variables; a key is a string, so this
  succeeds only for a key of two characters, and then the first is looked up.
\<close>

definition facets_popitem :: "facets \<Rightarrow> py_exn + ((string \<times> string) \<times> facets)" where
  "facets_popitem st =
     (case dkeys (f_local st) of
        [] \<Rightarrow> Inl (KeyError ''popitem(): dictionary is empty'')
      | k # _ \<Rightarrow>
          (case k of
             [a, b] \<Rightarrow> sbind (delitem_internal [a] False st) (\<lambda>(v, st'). Inr (([a], [b]), st'))
           | _ \<Rightarrow> Inl ValueError))"

definition facets_setdefault :: "string \<Rightarrow> fvalue \<Rightarrow> facets \<Rightarrow> py_exn + (bool \<times> facets)" where
  "facets_setdefault item dflt st =
     sbind (if dget (f_main st) item = None then facets_setitem item dflt st else Inr st) (\<lambda>st'.
     sbind (facets_getitem st' item) (\<lambda>v. Inr (v, st')))"

fun set_all :: "bool \<Rightarrow> (string \<times> fvalue) list \<Rightarrow> facets \<Rightarrow> py_exn + facets" where
  "set_all inherited [] st = Inr st"
| "set_all inherited ((k, v) # kvs) st =
     sbind (setitem_internal k v inherited st) (set_all inherited kvs)"

definition fvalues :: "bool dict \<Rightarrow> (string \<times> fvalue) list" where
  "fvalues d = map (\<lambda>(k, v). (k, FBool v)) d"

text \<open>\<open>update\<close> with another \<open>Facets\<close> object, and with a plain dictionary.\<close>

definition facets_update :: "facets \<Rightarrow> facets \<Rightarrow> py_exn + facets" where
  "facets_update st d =
     sbind (set_all True (fvalues (f_inherited d)) st) (set_all False (fvalues (f_local d)))"

definition facets_update_dict :: "facets \<Rightarrow> (string \<times> fvalue) list \<Rightarrow> py_exn + facets" where
  "facets_update_dict st d = set_all False d st"

definition facets_init :: "(string \<times> fvalue) list \<Rightarrow> py_exn + facets" where
  "facets_init d = facets_update_dict facets_empty d"

definition facets_copy :: "facets \<Rightarrow> py_exn + facets" where
  "facets_copy st = facets_update facets_empty st"

definition facets_clear :: "facets \<Rightarrow> facets" where
  "facets_clear st =
     st\<lparr>f_keylist := [], f_res := [], f_local := [], f_inherited := [], f_main := []\<rparr>"

definition facets_keys :: "facets \<Rightarrow> string list" where
  "facets_keys st = f_keylist st"

fun items_of :: "facets \<Rightarrow> string list \<Rightarrow> py_exn + (string \<times> bool) list" where
  "items_of st [] = Inr []"
| "items_of st (k # ks) =
     sbind (facets_getitem st k) (\<lambda>v. sbind (items_of st ks) (\<lambda>r. Inr ((k, v) # r)))"

definition facets_items :: "facets \<Rightarrow> py_exn + (string \<times> bool) list" where
  "facets_items st = items_of st (f_keylist st)"

datatype facet_src = SrcSystem | SrcLocal | SrcParent

definition src_values :: "facets \<Rightarrow> string \<Rightarrow> (bool \<times> facet_src \<times> bool) list" where
  "src_values st name =
     (case dget (f_inherited st) name of None \<Rightarrow> [] | Some v \<Rightarrow> [(v, SrcParent, False)])
     @ (case dget (f_local st) name of
          None \<Rightarrow> []
        | Some v \<Rightarrow> [(v, SrcLocal, dget (f_inherited st) name \<noteq> None)])"

definition match_src :: "facets \<Rightarrow> string \<Rightarrow> py_exn + facet_src" where
  "match_src st name =
     sbind (facets_getitem_internal st name) (\<lambda>(k, v).
       case k of
         None \<Rightarrow> Inr SrcSystem
       | Some k \<Rightarrow>
           if dget (f_inherited st) k \<noteq> None then Inr SrcParent
           else if dget (f_local st) k \<noteq> None then Inr SrcLocal
           else Inl AssertionError)"

text \<open>The facet keys and values that match a facet attribute of an action.\<close>

fun action_match_keys :: "facets \<Rightarrow> string list \<Rightarrow> string list \<Rightarrow> py_exn + (string \<times> bool) set" where
  "action_match_keys st names [] = Inr {}"
| "action_match_keys st names (facet # rest) =
     (let hit = (if facet \<in> set names then Inr True
                 else case dget (f_res st) facet of
                   None \<Rightarrow> if names = [] then Inr False else Inl (KeyError facet)
                 | Some pat \<Rightarrow> Inr (list_ex (\<lambda>n. glob_match n pat) names))
      in sbind hit (\<lambda>h.
         if h then sbind (facets_getitem st facet) (\<lambda>v.
                   sbind (action_match_keys st names rest) (\<lambda>r. Inr (insert (facet, v) r)))
         else action_match_keys st names rest))"

definition action_match :: "facets \<Rightarrow> attrs \<Rightarrow> py_exn + (string \<times> bool) set" where
  "action_match st act =
     action_match_keys st (filter (\<lambda>a. starts_with a facet_prefix) (map fst act)) (f_keylist st)"

text \<open>The stored form: inherited facets first, each marked with its source.\<close>

definition facets_getstate :: "facets \<Rightarrow> (string \<times> bool \<times> bool) list" where
  "facets_getstate st =
     map (\<lambda>(k, v). (k, v, True)) (f_inherited st) @ map (\<lambda>(k, v). (k, v, False)) (f_local st)"

fun fromstate_into :: "(string \<times> bool \<times> bool) list \<Rightarrow> facets \<Rightarrow> py_exn + facets" where
  "fromstate_into [] st = Inr st"
| "fromstate_into ((k, v, inherited) # rest) st =
     sbind (setitem_internal k (FBool v) inherited st) (fromstate_into rest)"

definition facets_fromstate :: "(string \<times> bool \<times> bool) list \<Rightarrow> py_exn + facets" where
  "facets_fromstate state = fromstate_into state facets_empty"

text \<open>Equality compares the local and the inherited dictionary.\<close>

definition facets_eq :: "facets \<Rightarrow> facets \<Rightarrow> bool" where
  "facets_eq a b \<longleftrightarrow>
     dget (f_local a) = dget (f_local b) \<and> dget (f_inherited a) = dget (f_inherited b)"

section \<open>The native filter\<close>

text \<open>
  The value of one attribute, \<open>None\<close> where the C code fails: it reads the dictionaries directly.
\<close>

fun c_match_keys :: "facets \<Rightarrow> string list \<Rightarrow> string \<Rightarrow> bool option option" where
  "c_match_keys st [] attr = Some None"
| "c_match_keys st (k # ks) attr =
     (case dget (f_res st) k of
        None \<Rightarrow> None
      | Some pat \<Rightarrow>
          if glob_match attr pat then
            (case dget (f_main st) k of None \<Rightarrow> None | Some v \<Rightarrow> Some (Some v))
          else c_match_keys st ks attr)"

definition c_facet_value :: "facets \<Rightarrow> string \<Rightarrow> bool option" where
  "c_facet_value st attr =
     (case dget (f_main st) attr of
        Some v \<Rightarrow> Some v
      | None \<Rightarrow>
          (case c_match_keys st (f_keylist st) attr of
             None \<Rightarrow> None
           | Some (Some v) \<Rightarrow> Some v
           | Some None \<Rightarrow>
               Some (if starts_with attr ''facet.debug.'' \<or> starts_with attr ''facet.optional.''
                     then False else True)))"

text \<open>\<open>str(value)\<close> of a list begins with a bracket, so it is never \<open>all\<close>.\<close>

definition is_all :: "attr_value \<Rightarrow> bool" where
  "is_all value = (case value of AStr s \<Rightarrow> c_str s = ''all'' | AList _ \<Rightarrow> False)"

text \<open>The loop; \<open>any_ret\<close> is the pointer that is \<open>NULL\<close>, true or false.\<close>

fun allow_facet_loop :: "facets \<Rightarrow> attrs \<Rightarrow> bool option \<Rightarrow> bool option" where
  "allow_facet_loop st [] any_ret = Some (any_ret \<noteq> Some False)"
| "allow_facet_loop st ((attr, value) # rest) any_ret =
     (if \<not> starts_with attr facet_prefix then allow_facet_loop st rest any_ret
      else case c_facet_value st attr of
        None \<Rightarrow> None
      | Some facet_ret \<Rightarrow>
          if is_all value then
            (if \<not> facet_ret then Some False else allow_facet_loop st rest any_ret)
          else if facet_ret then allow_facet_loop st rest (Some True)
          else allow_facet_loop st rest (if any_ret = None then Some False else any_ret))"

definition allow_facet :: "facets \<Rightarrow> attrs \<Rightarrow> bool option" where
  "allow_facet st act = allow_facet_loop st act None"

section \<open>The key list\<close>

definition facets_inv :: "facets \<Rightarrow> bool" where
  "facets_inv st \<longleftrightarrow>
     dict_ok (f_main st) \<and> dict_ok (f_local st) \<and> dict_ok (f_inherited st) \<and> dict_ok (f_res st)
     \<and> dget (f_main st) = dget (f_local st) ++ dget (f_inherited st)
     \<and> dget (f_res st) = (\<lambda>k. if dget (f_main st) k = None then None else Some k)
     \<and> f_keylist st = keylist_of st
     \<and> (\<forall>k. dget (f_main st) k \<noteq> None \<longrightarrow> starts_with k facet_prefix)"

lemma facets_empty_inv: "facets_inv facets_empty"
  by (simp add: facets_inv_def facets_empty_def keylist_of_def fun_eq_iff map_add_def)

lemma facets_clear_inv: "facets_inv (facets_clear st)"
  by (simp add: facets_inv_def facets_clear_def keylist_of_def fun_eq_iff map_add_def)

lemma inj_facet_sort_key: "inj_on facet_sort_key A"
  by (rule inj_onI) (simp add: facet_sort_key_def)

lemma sort_facets_unique:
  assumes "set xs = set ys" "distinct xs" "distinct ys"
  shows "sort_key facet_sort_key xs = sort_key facet_sort_key ys"
proof (rule map_inj_on)
  let ?x = "sort_key facet_sort_key xs" and ?y = "sort_key facet_sort_key ys"
  show "map facet_sort_key ?x = map facet_sort_key ?y"
  proof (rule sorted_distinct_set_unique)
    show "distinct (map facet_sort_key ?x)" "distinct (map facet_sort_key ?y)"
      using assms by (simp_all add: distinct_map inj_facet_sort_key)
    show "set (map facet_sort_key ?x) = set (map facet_sort_key ?y)" using assms by simp
  qed simp_all
  show "inj_on facet_sort_key (set ?x \<union> set ?y)" by (rule inj_facet_sort_key)
qed

lemma keylist_of_cong:
  assumes "dict_ok (f_main a)" "dict_ok (f_main b)"
    and "dom (dget (f_main a)) = dom (dget (f_main b))"
    and "dom (dget (f_inherited a)) = dom (dget (f_inherited b))"
  shows "keylist_of a = keylist_of b"
proof -
  have inh: "dget (f_inherited a) i = None \<longleftrightarrow> dget (f_inherited b) i = None" for i
    using assms(4) by (metis domIff)
  have ks: "set (dkeys (f_main a)) = set (dkeys (f_main b))"
    using assms(3) by (simp add: pydict.keys_get)
  have d: "distinct (dkeys (f_main a))" "distinct (dkeys (f_main b))"
    using assms(1,2) pydict.ok_keys by blast+
  show ?thesis unfolding keylist_of_def
    by (intro arg_cong2[where f = append] sort_facets_unique) (use inh ks d in auto)
qed

lemma keylist_of_set: "set (keylist_of st) = dom (dget (f_main st))"
  by (auto simp: keylist_of_def pydict.keys_get)

lemma keylist_of_distinct: "dict_ok (f_main st) \<Longrightarrow> distinct (keylist_of st)"
  using pydict.ok_keys[of "f_main st"] by (auto simp: keylist_of_def)

lemma dkeys_del: "dkeys (ddel k d) = filter (\<lambda>i. i \<noteq> k) (dkeys d)"
  by (simp add: dkeys_def ddel_def filter_map o_def)

lemma keylist_of_remove:
  assumes "dict_ok (f_main st)" and "f_main st' = ddel item (f_main st)"
    and "\<And>i. i \<noteq> item \<Longrightarrow> dget (f_inherited st') i = dget (f_inherited st) i"
  shows "remove1 item (keylist_of st) = keylist_of st'"
proof -
  have "remove1 item (keylist_of st) = filter (\<lambda>i. i \<noteq> item) (keylist_of st)"
    using keylist_of_distinct[OF assms(1)]
    by (simp add: distinct_remove1_removeAll removeAll_filter_not_eq)
      (rule filter_cong, auto)
  also have "\<dots> = keylist_of st'"
    unfolding keylist_of_def assms(2) dkeys_del filter_append filter_sort filter_filter
    by (intro arg_cong2[where f = append] arg_cong2[where f = sort_key] filter_cong refl)
      (use assms(3) in auto)
  finally show ?thesis .
qed

lemma sorted_facets:
  "sorted (map facet_sort_key (sort_key facet_sort_key xs))"
  by simp

section \<open>Every operation keeps the invariant\<close>

lemma facets_inv_keylist: "facets_inv st \<Longrightarrow> set (f_keylist st) = dom (dget (f_main st))"
  by (simp add: facets_inv_def keylist_of_set)

lemma keylist_sort_keylist [simp]:
  "keylist_of (st\<lparr>f_keylist := x\<rparr>) = keylist_of st"
  "keylist_of (st\<lparr>f_res := y\<rparr>) = keylist_of st"
  "keylist_of (st\<lparr>f_local := z\<rparr>) = keylist_of st"
  by (simp_all add: keylist_of_def)

definition finish_keys :: "bool \<Rightarrow> facets \<Rightarrow> facets" where
  "finish_keys b st = (if b then keylist_sort st else st)"

lemma finish_keys_simps [simp]:
  "f_main (finish_keys b st) = f_main st" "f_local (finish_keys b st) = f_local st"
  "f_inherited (finish_keys b st) = f_inherited st" "f_res (finish_keys b st) = f_res st"
  "keylist_of (finish_keys b st) = keylist_of st"
  by (simp_all add: finish_keys_def keylist_sort_def)

lemma setitem_internal_inv:
  assumes inv: "facets_inv st" and pre: "starts_with item facet_prefix"
  shows "\<exists>st'. setitem_internal item (FBool v) inherited st = Inr st' \<and> facets_inv st'
    \<and> f_local st' = (if inherited then f_local st else dput item v (f_local st))
    \<and> f_inherited st' = (if inherited then dput item v (f_inherited st) else f_inherited st)"
proof -
  note i = inv[unfolded facets_inv_def]
  define st1 where "st1 = (if inherited then st\<lparr>f_inherited := dput item v (f_inherited st)\<rparr>
                     else st\<lparr>f_local := dput item v (f_local st)\<rparr>)"
  define vis where "vis = (inherited \<or> dget (f_inherited st) item = None)"
  define st2 where "st2 = (if vis
      then st1\<lparr>f_main := dput item v (f_main st1), f_res := dput item item (f_res st1)\<rparr> else st1)"
  define srt where "srt = (inherited \<and> dget (f_inherited st) item = None
                         \<or> \<not> inherited \<and> dget (f_main st) item = None)"
  have eq: "setitem_internal item (FBool v) inherited st = Inr (finish_keys srt st2)"
    using pre by (cases inherited)
      (auto simp: setitem_internal_def Let_def st1_def st2_def vis_def srt_def finish_keys_def)
  have main: "f_main st2 = (if vis then dput item v (f_main st) else f_main st)"
    "f_res st2 = (if vis then dput item item (f_res st) else f_res st)"
    by (simp_all add: st2_def st1_def)
  have loc: "f_local st2 = (if inherited then f_local st else dput item v (f_local st))"
    "f_inherited st2 = (if inherited then dput item v (f_inherited st) else f_inherited st)"
    "f_keylist st2 = f_keylist st"
    by (simp_all add: st2_def st1_def)
  have ok: "dict_ok (f_main st2)" "dict_ok (f_local st2)" "dict_ok (f_inherited st2)" "dict_ok (f_res st2)"
    using i by (simp_all add: main loc pydict.ok_put)
  have mm: "dget (f_main st2) = dget (f_local st2) ++ dget (f_inherited st2)"
    using i unfolding main loc vis_def
    by (auto simp: pydict.get_put map_add_def fun_eq_iff split: option.splits)
  have rr: "dget (f_res st2) = (\<lambda>k. if dget (f_main st2) k = None then None else Some k)"
    using i unfolding main by (auto simp: pydict.get_put fun_eq_iff)
  have kk: "keylist_of st2 = keylist_of st" if "\<not> srt"
  proof (rule keylist_of_cong)
    have d: "dget (f_main st) item \<noteq> None"
      using that i unfolding srt_def by (auto simp: map_add_def split: option.splits)
    then show "dom (dget (f_main st2)) = dom (dget (f_main st))"
      by (auto simp: main pydict.get_put)
    show "dom (dget (f_inherited st2)) = dom (dget (f_inherited st))"
      using that by (auto simp: loc pydict.get_put srt_def)
  qed (use ok i in auto)
  have "f_keylist (finish_keys srt st2) = keylist_of st2"
    using i kk loc(3) by (simp add: finish_keys_def keylist_sort_def)
  moreover have "starts_with k facet_prefix" if "dget (f_main st2) k \<noteq> None" for k
    using that i pre by (auto simp: main pydict.get_put split: if_splits)
  ultimately have "facets_inv (finish_keys srt st2)"
    using ok mm rr unfolding facets_inv_def by simp
  then show ?thesis using eq loc by simp
qed

lemma set_all_inv:
  assumes "facets_inv st" and "\<forall>(k, v) \<in> set kvs. starts_with k facet_prefix"
  shows "\<exists>st'. set_all inherited (fvalues kvs) st = Inr st' \<and> facets_inv st'
    \<and> f_local st' = (if inherited then f_local st else dput_all kvs (f_local st))
    \<and> f_inherited st' = (if inherited then dput_all kvs (f_inherited st) else f_inherited st)"
  using assms
proof (induction kvs arbitrary: st)
  case Nil
  then show ?case by (simp add: fvalues_def dput_all_def)
next
  case (Cons p kvs)
  obtain k v where p: "p = (k, v)" by fastforce
  obtain st1 where s1: "setitem_internal k (FBool v) inherited st = Inr st1" "facets_inv st1"
    "f_local st1 = (if inherited then f_local st else dput k v (f_local st))"
    "f_inherited st1 = (if inherited then dput k v (f_inherited st) else f_inherited st)"
    using setitem_internal_inv[OF Cons.prems(1), of k v inherited] Cons.prems(2) p by auto
  obtain st2 where s2: "set_all inherited (fvalues kvs) st1 = Inr st2" "facets_inv st2"
    "f_local st2 = (if inherited then f_local st1 else dput_all kvs (f_local st1))"
    "f_inherited st2 = (if inherited then dput_all kvs (f_inherited st1) else f_inherited st1)"
    using Cons.IH[OF s1(2)] Cons.prems(2) by auto
  have "set_all inherited (fvalues (p # kvs)) st = Inr st2"
    using s1(1) s2(1) by (simp add: fvalues_def p sbind_def)
  then show ?case using s1 s2 p by (auto simp: dput_all_def)
qed

lemma facets_keys_prefix:
  assumes "facets_inv st"
  shows "\<forall>(k, v) \<in> set (f_local st). starts_with k facet_prefix"
    "\<forall>(k, v) \<in> set (f_inherited st). starts_with k facet_prefix"
proof -
  note i = assms[unfolded facets_inv_def]
  have pre: "starts_with k facet_prefix"
    if "dget (f_local st) k \<noteq> None \<or> dget (f_inherited st) k \<noteq> None" for k
  proof -
    have "dget (f_main st) k \<noteq> None"
      using i that by (auto simp: map_add_def split: option.splits)
    then show ?thesis using i by blast
  qed
  have ok: "dict_ok (f_local st)" "dict_ok (f_inherited st)" using i by auto
  show "\<forall>(k, v) \<in> set (f_local st). starts_with k facet_prefix"
    "\<forall>(k, v) \<in> set (f_inherited st). starts_with k facet_prefix"
    using pre dget_Some_mem[OF ok(1)] dget_Some_mem[OF ok(2)] by (blast, blast)
qed

lemma facets_update_inv:
  assumes "facets_inv st" "facets_inv d"
  shows "\<exists>st'. facets_update st d = Inr st' \<and> facets_inv st'
    \<and> f_local st' = dput_all (f_local d) (f_local st)
    \<and> f_inherited st' = dput_all (f_inherited d) (f_inherited st)"
proof -
  obtain st1 where s1: "set_all True (fvalues (f_inherited d)) st = Inr st1" "facets_inv st1"
    "f_local st1 = f_local st" "f_inherited st1 = dput_all (f_inherited d) (f_inherited st)"
    using set_all_inv[OF assms(1) facets_keys_prefix(2)[OF assms(2)], of True] by auto
  obtain st2 where "set_all False (fvalues (f_local d)) st1 = Inr st2" "facets_inv st2"
    "f_local st2 = dput_all (f_local d) (f_local st1)" "f_inherited st2 = f_inherited st1"
    using set_all_inv[OF s1(2) facets_keys_prefix(1)[OF assms(2)], of False] by auto
  then show ?thesis using s1 by (auto simp: facets_update_def sbind_def)
qed

lemma delitem_cases:
  assumes inv: "facets_inv st"
    and has: "dget (if inherited then f_inherited st else f_local st) item = Some v"
    and not_masked: "inherited \<or> dget (f_inherited st) item = None"
  shows "\<exists>st'. delitem_internal item inherited st = Inr (v, st') \<and> facets_inv st'
    \<and> f_local st' = (if inherited then f_local st else ddel item (f_local st))
    \<and> f_inherited st' = (if inherited then ddel item (f_inherited st) else f_inherited st)"
proof -
  note i = inv[unfolded facets_inv_def]
  have m: "dget (f_main st) item \<noteq> None"
    using i has by (auto simp: map_add_def split: option.splits if_splits)
  have r: "dget (f_res st) item \<noteq> None" using i m by simp
  have kl: "item \<in> set (f_keylist st)" using facets_inv_keylist[OF inv] m by auto
  show ?thesis
  proof (cases "inherited \<and> dget (f_local st) item \<noteq> None")
    case True
    then obtain w where w: "dget (f_local st) item = Some w" by blast
    define st' where "st' = keylist_sort (st\<lparr>f_main := dput item w (f_main st),
      f_res := dput item item (f_res st), f_inherited := ddel item (f_inherited st)\<rparr>)"
    have "delitem_internal item inherited st = Inr (v, st')"
      using True m w has by (simp add: delitem_internal_def sbind_def Let_def st'_def)
    moreover have "facets_inv st'"
      using i w unfolding facets_inv_def st'_def keylist_sort_def
      by (auto simp: pydict.ok_put pydict.ok_del pydict.get_put pydict.get_del map_add_def fun_eq_iff
          split: option.splits if_splits)
    ultimately show ?thesis using True by (simp add: st'_def keylist_sort_def)
  next
    case False
    define st' where "st' = (if inherited then st\<lparr>f_inherited := ddel item (f_inherited st)\<rparr>
        else st\<lparr>f_local := ddel item (f_local st)\<rparr>)
      \<lparr>f_main := ddel item (f_main st), f_res := ddel item (f_res st),
       f_keylist := remove1 item (f_keylist st)\<rparr>"
    have "delitem_internal item inherited st = Inr (v, st')"
      using False m r kl has by (cases inherited)
        (auto simp: delitem_internal_def sbind_def Let_def st'_def)
    moreover have "facets_inv st'"
    proof -
      have k: "f_keylist st' = keylist_of st'"
      proof -
        have "remove1 item (keylist_of st) = keylist_of st'"
          by (rule keylist_of_remove) (use i in \<open>auto simp: st'_def pydict.get_del\<close>)
        then show ?thesis using i by (simp add: st'_def)
      qed
      have "dget (f_main st') = dget (f_local st') ++ dget (f_inherited st')"
        using i False not_masked
        by (cases inherited)
          (auto simp: st'_def pydict.get_del map_add_def fun_eq_iff split: option.splits)
      moreover have "dict_ok (f_main st')" "dict_ok (f_local st')" "dict_ok (f_inherited st')"
        "dict_ok (f_res st')" using i by (simp_all add: st'_def pydict.ok_del)
      moreover have "dget (f_res st') = (\<lambda>k. if dget (f_main st') k = None then None else Some k)"
        using i by (auto simp: st'_def pydict.get_del)
      moreover have "\<forall>k. dget (f_main st') k \<noteq> None \<longrightarrow> starts_with k facet_prefix"
        using i by (auto simp: st'_def pydict.get_del)
      ultimately show ?thesis using k unfolding facets_inv_def by blast
    qed
    ultimately show ?thesis by (simp add: st'_def)
  qed
qed

lemma delitem_fails:
  "dget (f_main st) item = None \<or> dget (f_local st) item = None
     \<Longrightarrow> delitem_internal item False st = Inl (KeyError item)"
  by (auto simp: delitem_internal_def)

lemma clear_inherited_keys_inv:
  assumes "facets_inv st" "set ks \<subseteq> dom (dget (f_inherited st))" "distinct ks"
  shows "\<exists>st'. clear_inherited_keys ks st = (st', None) \<and> facets_inv st'
    \<and> f_local st' = f_local st \<and> f_inherited st' = fold ddel ks (f_inherited st)"
  using assms
proof (induction ks arbitrary: st)
  case Nil
  then show ?case by simp
next
  case (Cons k ks)
  then obtain v where v: "dget (f_inherited st) k = Some v" by auto
  obtain st1 where s1: "delitem_internal k True st = Inr (v, st1)" "facets_inv st1"
    "f_local st1 = f_local st" "f_inherited st1 = ddel k (f_inherited st)"
    using delitem_cases[OF Cons.prems(1), of True k v] v by auto
  have "set ks \<subseteq> dom (dget (f_inherited st1))" "distinct ks"
    using Cons.prems by (auto simp: s1(4) pydict.get_del)
  then obtain st2 where "clear_inherited_keys ks st1 = (st2, None)" "facets_inv st2"
    "f_local st2 = f_local st1" "f_inherited st2 = fold ddel ks (f_inherited st1)"
    using Cons.IH[OF s1(2)] by blast
  then show ?case using s1 by simp
qed

lemma dict_empty_iff: "(\<forall>k. dget d k = None) \<longleftrightarrow> d = []"
  by (cases d) (auto simp: dget_def)

lemma clear_inherited_inv:
  assumes "facets_inv st"
  shows "\<exists>st'. clear_inherited st = (st', None) \<and> facets_inv st'
    \<and> f_local st' = f_local st \<and> f_inherited st' = []"
proof -
  have "dict_ok (f_inherited st)" using assms by (simp add: facets_inv_def)
  then have "distinct (dkeys (f_inherited st))" by (rule pydict.ok_keys)
  moreover have "set (dkeys (f_inherited st)) \<subseteq> dom (dget (f_inherited st))"
    by (simp add: pydict.keys_get)
  ultimately obtain st' where "clear_inherited st = (st', None)" "facets_inv st'"
    "f_local st' = f_local st"
    "f_inherited st' = fold ddel (dkeys (f_inherited st)) (f_inherited st)"
    using clear_inherited_keys_inv[OF assms] unfolding clear_inherited_def by blast
  then show ?thesis using pydict.del_keys_all[of "f_inherited st"] by (metis dict_empty_iff)
qed

lemma facets_copy_same:
  assumes "facets_inv st"
  shows "\<exists>st'. facets_copy st = Inr st' \<and> facets_inv st'
    \<and> f_local st' = f_local st \<and> f_inherited st' = f_inherited st"
proof -
  have "dict_ok (f_local st)" "dict_ok (f_inherited st)"
    using assms by (simp_all add: facets_inv_def)
  then show ?thesis
    using facets_update_inv[OF facets_empty_inv assms] dput_all_self
    unfolding facets_copy_def by (auto simp: facets_empty_def)
qed

lemma fromstate_append:
  "fromstate_into (map (\<lambda>(k, v). (k, v, b)) d @ rest) st =
     sbind (set_all b (fvalues d) st) (fromstate_into rest)"
  by (induction d arbitrary: st)
    (auto simp: fvalues_def sbind_def split: sum.splits)

lemma fromstate_getstate: "facets_fromstate (facets_getstate st) = facets_copy st"
proof -
  have "fromstate_into (map (\<lambda>(k, v). (k, v, False)) d) = set_all False (fvalues d)" for d
  proof
    show "fromstate_into (map (\<lambda>(k, v). (k, v, False)) d) st' = set_all False (fvalues d) st'" for st'
      using fromstate_append[of False d "[]" st']
      by (cases "set_all False (fvalues d) st'") (auto simp: sbind_def)
  qed
  then show ?thesis
    unfolding facets_fromstate_def facets_getstate_def facets_copy_def facets_update_def
      fromstate_append by simp
qed

section \<open>Lookup\<close>

lemma match_keys_find:
  assumes "facets_inv st" and "set ks \<subseteq> dom (dget (f_main st))"
  shows "match_keys st ks item =
    Inr (case find (\<lambda>k. glob_match item k) ks of
           None \<Rightarrow> None | Some k \<Rightarrow> Some (k, the (dget (f_main st) k)))"
  using assms(2)
proof (induction ks)
  case Nil
  then show ?case by simp
next
  case (Cons k ks)
  then obtain v where v: "dget (f_main st) k = Some v" by auto
  have "dget (f_res st) = (\<lambda>k. if dget (f_main st) k = None then None else Some k)"
    using assms(1) unfolding facets_inv_def by (elim conjE)
  then have "dget (f_res st) k = Some k" using v by simp
  then show ?case using Cons v by simp
qed

text \<open>An explicit value, else the first pattern in the key list that matches, else the default.\<close>

lemma facets_getitem_spec:
  assumes "facets_inv st" and "starts_with item facet_prefix"
  shows "facets_getitem_internal st item = Inr
    (case dget (f_main st) item of
       Some v \<Rightarrow> (Some item, v)
     | None \<Rightarrow> (case find (\<lambda>k. glob_match item k) (f_keylist st) of
         Some k \<Rightarrow> (Some k, the (dget (f_main st) k))
       | None \<Rightarrow> (None, facet_default item)))"
  using assms match_keys_find[OF assms(1), of "f_keylist st" item] facets_inv_keylist[OF assms(1)]
  by (auto simp: facets_getitem_internal_def sbind_def split: option.splits)

lemma facets_getitem_masks:
  assumes "facets_inv st" and "starts_with item facet_prefix"
  shows "dget (f_inherited st) item = Some v \<Longrightarrow> facets_getitem st item = Inr v"
    and "\<lbrakk>dget (f_inherited st) item = None; dget (f_local st) item = Some v\<rbrakk>
       \<Longrightarrow> facets_getitem st item = Inr v"
  using facets_getitem_spec[OF assms] assms(1)
  by (auto simp: facets_getitem_def sbind_def facets_inv_def map_add_def split: option.splits)

lemma facets_items_main:
  assumes "facets_inv st"
  shows "facets_items st = Inr (map (\<lambda>k. (k, the (dget (f_main st) k))) (f_keylist st))"
proof -
  have "items_of st ks = Inr (map (\<lambda>k. (k, the (dget (f_main st) k))) ks)"
    if "set ks \<subseteq> dom (dget (f_main st))" for ks
    using that
  proof (induction ks)
    case (Cons k ks)
    then obtain v where "dget (f_main st) k = Some v" by auto
    moreover from this have "starts_with k facet_prefix" using assms by (auto simp: facets_inv_def)
    ultimately have "facets_getitem st k = Inr v"
      using facets_getitem_spec[OF assms] by (simp add: facets_getitem_def sbind_def)
    then show ?case using Cons \<open>dget (f_main st) k = Some v\<close> by (simp add: sbind_def)
  qed simp
  then show ?thesis using facets_inv_keylist[OF assms] by (simp add: facets_items_def)
qed

section \<open>The native lookup is the Python one\<close>

lemma c_match_keys_agrees:
  "c_match_keys st ks item =
     (case match_keys st ks item of Inl e \<Rightarrow> None | Inr r \<Rightarrow> Some (map_option snd r))"
  by (induction ks) (auto split: option.splits)

lemma c_facet_value_agrees:
  assumes "starts_with item facet_prefix"
  shows "c_facet_value st item =
    (case facets_getitem st item of Inl e \<Rightarrow> None | Inr v \<Rightarrow> Some v)"
  using assms
  by (auto simp: c_facet_value_def facets_getitem_def facets_getitem_internal_def
      c_match_keys_agrees sbind_def facet_default_def split: option.splits sum.splits)

definition facet_of :: "facets \<Rightarrow> string \<Rightarrow> bool" where
  "facet_of st item = projr (facets_getitem st item)"

lemma c_facet_value_inv:
  assumes "facets_inv st" "starts_with item facet_prefix"
  shows "c_facet_value st item = Some (facet_of st item)"
  using facets_getitem_spec[OF assms] c_facet_value_agrees[OF assms(2), of st]
  by (auto simp: facet_of_def facets_getitem_def sbind_def split: option.splits)

text \<open>
  All the facets marked \<open>all\<close> must be true and, if there are others, one of them.
\<close>

definition facet_attrs :: "attrs \<Rightarrow> attrs" where
  "facet_attrs act = filter (\<lambda>(a, v). starts_with a facet_prefix) act"

definition facets_allow :: "facets \<Rightarrow> attrs \<Rightarrow> bool" where
  "facets_allow st act \<longleftrightarrow>
     (\<forall>(a, v) \<in> set (facet_attrs act). is_all v \<longrightarrow> facet_of st a)
     \<and> ((\<forall>(a, v) \<in> set (facet_attrs act). is_all v)
        \<or> (\<exists>(a, v) \<in> set (facet_attrs act). \<not> is_all v \<and> facet_of st a))"

lemma allow_facet_loop_spec:
  assumes "facets_inv st"
  shows "allow_facet_loop st act any_ret = Some
     ((\<forall>(a, v) \<in> set (facet_attrs act). is_all v \<longrightarrow> facet_of st a)
      \<and> (any_ret = Some True
         \<or> any_ret = None \<and> (\<forall>(a, v) \<in> set (facet_attrs act). is_all v)
         \<or> (\<exists>(a, v) \<in> set (facet_attrs act). \<not> is_all v \<and> facet_of st a)))"
proof (induction act arbitrary: any_ret)
  case Nil
  then show ?case by (cases any_ret) (auto simp: facet_attrs_def)
next
  case (Cons p act)
  obtain a v where p: "p = (a, v)" by fastforce
  show ?case
  proof (cases "starts_with a facet_prefix")
    case False
    then have "facet_attrs (p # act) = facet_attrs act" by (simp add: facet_attrs_def p)
    then show ?thesis using Cons False p by simp
  next
    case True
    then have fa: "facet_attrs (p # act) = (a, v) # facet_attrs act" by (simp add: facet_attrs_def p)
    show ?thesis
      unfolding fa using True Cons p c_facet_value_inv[OF assms True]
      by (cases "is_all v"; cases "facet_of st a"; cases any_ret) auto
  qed
qed

lemma allow_facet_spec: "facets_inv st \<Longrightarrow> allow_facet st act = Some (facets_allow st act)"
  by (simp add: allow_facet_def allow_facet_loop_spec facets_allow_def)

section \<open>Sources\<close>

lemma match_src_total:
  assumes "facets_inv st" "starts_with name facet_prefix"
  shows "\<exists>src. match_src st name = Inr src"
proof -
  have main: "dget (f_main st) k \<noteq> None \<Longrightarrow> dget (f_inherited st) k = None
      \<Longrightarrow> dget (f_local st) k \<noteq> None" for k
    using assms(1) by (auto simp: facets_inv_def map_add_def split: option.splits)
  have key: "find (\<lambda>k. glob_match name k) (f_keylist st) = Some k \<Longrightarrow> dget (f_main st) k \<noteq> None" for k
    using facets_inv_keylist[OF assms(1)] by (auto simp: find_Some_iff dest: nth_mem)
  show ?thesis
    using facets_getitem_spec[OF assms] main key
    by (auto simp: match_src_def sbind_def split: option.splits)
qed

section \<open>Deleting a masked facet\<close>

text \<open>What is left of the invariant when a masked local facet was deleted: all but the facet itself.\<close>

definition lost_facet :: "string \<Rightarrow> facets \<Rightarrow> bool" where
  "lost_facet item st \<longleftrightarrow> dget (f_main st) item = None
     \<and> (\<forall>k. k \<noteq> item \<longrightarrow> dget (f_inherited st) k \<noteq> None \<longrightarrow>
          dget (f_main st) k \<noteq> None \<and> dget (f_res st) k \<noteq> None \<and> k \<in> set (f_keylist st))"

lemma lost_facet_del:
  assumes "lost_facet item st" "k \<noteq> item" "dget (f_inherited st) k = Some v"
  shows "\<exists>st'. delitem_internal k True st = Inr (v, st') \<and> lost_facet item st'
    \<and> f_inherited st' = ddel k (f_inherited st)"
proof -
  have k: "dget (f_main st) k \<noteq> None" "dget (f_res st) k \<noteq> None" "k \<in> set (f_keylist st)"
    using assms by (auto simp: lost_facet_def)
  show ?thesis
  proof (cases "dget (f_local st) k")
    case None
    then show ?thesis
      using assms k by (auto simp: delitem_internal_def Let_def lost_facet_def pydict.get_del)
  next
    case (Some w)
    then show ?thesis
      using assms k
      by (auto simp: delitem_internal_def Let_def lost_facet_def keylist_sort_def keylist_of_set dom_def
          pydict.get_del pydict.get_put)
  qed
qed

lemma lost_facet_clear:
  "\<lbrakk>lost_facet item st; distinct ks; item \<in> set ks; \<forall>k \<in> set ks. dget (f_inherited st) k \<noteq> None\<rbrakk> \<Longrightarrow>
     snd (clear_inherited_keys ks st) = Some (KeyError item)"
proof (induction ks arbitrary: st)
  case (Cons k ks)
  show ?case
  proof (cases "k = item")
    case True
    then have "delitem_internal k True st = Inl (KeyError item)"
      using Cons.prems(1) by (simp add: delitem_internal_def lost_facet_def)
    then show ?thesis by simp
  next
    case False
    obtain v where "dget (f_inherited st) k = Some v" using Cons.prems(4) by fastforce
    from lost_facet_del [OF Cons.prems(1) False this] obtain st' where st':
      "delitem_internal k True st = Inr (v, st')" "lost_facet item st'"
      "f_inherited st' = ddel k (f_inherited st)" by blast
    have "snd (clear_inherited_keys ks st') = Some (KeyError item)"
      by (rule Cons.IH [OF st'(2)]) (use Cons.prems False in \<open>auto simp: st'(3) pydict.get_del\<close>)
    then show ?thesis by (simp add: st'(1))
  qed
qed simp

lemma masked_delete:
  assumes inv: "facets_inv st" and l: "dget (f_local st) item = Some w"
    and i: "dget (f_inherited st) item = Some v"
  shows "facets_delitem item st = Inr (st\<lparr>f_main := ddel item (f_main st), f_res := ddel item (f_res st),
    f_keylist := remove1 item (f_keylist st), f_local := ddel item (f_local st)\<rparr>)"
proof -
  have "dget (f_main st) item \<noteq> None" using inv i by (simp add: facets_inv_def map_add_def)
  moreover from this have "dget (f_res st) item \<noteq> None" "item \<in> set (f_keylist st)"
    using inv facets_inv_keylist [OF inv] by (auto simp: facets_inv_def)
  ultimately show ?thesis using l by (simp add: facets_delitem_def delitem_internal_def Let_def)
qed

lemma facets_popitem_fails:
  assumes "facets_inv st" shows "\<exists>e. facets_popitem st = Inl e"
proof (cases "dkeys (f_local st)")
  case Nil
  then show ?thesis by (simp add: facets_popitem_def)
next
  case (Cons k ks)
  have "starts_with k facet_prefix"
    using facets_keys_prefix(1) [OF assms] Cons by (cases "f_local st") (auto simp: dkeys_def)
  then have "\<nexists>a b. k = [a, b]" by (auto simp: starts_with_def facet_prefix_def)
  then show ?thesis using Cons by (auto simp: facets_popitem_def split: list.splits)
qed

section \<open>Properties\<close>

text \<open>
  C12. Setting a facet, locally or as inherited, deleting a local facet that is not masked,
  clearing the inherited ones, copying and updating succeed and keep the object consistent: the
  visible dictionary is the local one overridden by the inherited one, the key list holds its
  keys in matching order, and each has its pattern.  Clearing the inherited facets exposes
  exactly the local values.
\<close>

lemma facet_operations_consistent:
  assumes "facets_inv st" and "facets_inv d" and "starts_with item facet_prefix"
  shows "(\<exists>st'. setitem_internal item (FBool v) inherited st = Inr st' \<and> facets_inv st')
    \<and> (dget (f_inherited st) item = None \<and> dget (f_local st) item = Some w \<longrightarrow>
        (\<exists>st'. delitem_internal item False st = Inr (w, st') \<and> facets_inv st'))
    \<and> (\<exists>st'. clear_inherited st = (st', None) \<and> facets_inv st'
        \<and> dget (f_main st') = dget (f_local st))
    \<and> (\<exists>st'. facets_update st d = Inr st' \<and> facets_inv st')
    \<and> (\<exists>st'. facets_copy st = Inr st' \<and> facets_inv st' \<and> facets_eq st' st)"
proof -
  obtain s1 where "clear_inherited st = (s1, None)" "facets_inv s1" "f_local s1 = f_local st"
    "f_inherited s1 = []" using clear_inherited_inv [OF assms(1)] by blast
  moreover from this have "dget (f_main s1) = dget (f_local st)"
    by (simp add: facets_inv_def fun_eq_iff map_add_def)
  moreover obtain s2 where "facets_copy st = Inr s2" "facets_inv s2" "f_local s2 = f_local st"
    "f_inherited s2 = f_inherited st" using facets_copy_same [OF assms(1)] by blast
  ultimately show ?thesis
    using setitem_internal_inv [OF assms(1,3)] delitem_cases [OF assms(1), of False item w]
      facets_update_inv [OF assms(1,2)]
    by (fastforce simp: facets_eq_def)
qed

lemma facet_operations_consistent_witness:
  "\<exists>st'. setitem_internal ''facet.doc'' (FBool False) True facets_empty = Inr st' \<and> facets_inv st'"
  by (rule facet_operations_consistent [OF facets_empty_inv facets_empty_inv, THEN conjunct1])
    (simp add: starts_with_def facet_prefix_def)

text \<open>
  Looking up a facet: an inherited value wins over a local one; without either the first
  pattern in the key list that matches decides, and without a match the answer is true except
  for debug and optional facets.  The key list puts the inherited patterns first and, within each
  source, longer names before shorter ones.
\<close>

lemma facet_lookup_order:
  assumes "facets_inv st" and "starts_with item facet_prefix"
  shows "facets_getitem st item = Inr
    (case dget (f_inherited st) item of Some v \<Rightarrow> v
     | None \<Rightarrow> (case dget (f_local st) item of Some v \<Rightarrow> v
     | None \<Rightarrow> (case find (\<lambda>k. glob_match item k) (f_keylist st) of
         Some k \<Rightarrow> the (dget (f_main st) k)
       | None \<Rightarrow> facet_default item)))
    \<and> (\<exists>xs ys. f_keylist st = xs @ ys
        \<and> list_all (\<lambda>k. dget (f_inherited st) k \<noteq> None) xs
        \<and> list_all (\<lambda>k. dget (f_inherited st) k = None) ys
        \<and> sorted (map facet_sort_key xs) \<and> sorted (map facet_sort_key ys))"
proof -
  have k: "f_keylist st = keylist_of st" using assms(1) by (simp add: facets_inv_def)
  have "\<exists>xs ys. f_keylist st = xs @ ys
      \<and> list_all (\<lambda>k. dget (f_inherited st) k \<noteq> None) xs
      \<and> list_all (\<lambda>k. dget (f_inherited st) k = None) ys
      \<and> sorted (map facet_sort_key xs) \<and> sorted (map facet_sort_key ys)"
    unfolding k keylist_of_def by (intro exI conjI, rule refl) (auto simp: list_all_iff)
  moreover have "dget (f_main st) = dget (f_local st) ++ dget (f_inherited st)"
    using assms(1) unfolding facets_inv_def by (elim conjE)
  ultimately show ?thesis
    using facets_getitem_spec [OF assms]
    by (auto simp: facets_getitem_def sbind_def map_add_def split: option.splits)
qed

lemma facet_lookup_order_witness:
  "facets_getitem facets_empty ''facet.debug.x'' = Inr False"
proof -
  have "starts_with ''facet.debug.x'' facet_prefix" by (simp add: starts_with_def facet_prefix_def)
  from facet_lookup_order [OF facets_empty_inv this, THEN conjunct1] show ?thesis
    by (simp add: facets_empty_def facet_default_def starts_with_def)
qed

text \<open>
  C13. The native filter, which reads the dictionaries without calling the Python lookup, uses the
  same value for every facet attribute, in every state; and it allows an action exactly when all
  its facets marked \<open>all\<close> are true and, if it has facets not so marked, one of those is.
\<close>

lemma native_facet_filter:
  assumes "facets_inv st" and "starts_with item facet_prefix"
  shows "c_facet_value st' item = (case facets_getitem st' item of Inl e \<Rightarrow> None | Inr v \<Rightarrow> Some v)
    \<and> allow_facet st act = Some (facets_allow st act)"
  using c_facet_value_agrees [OF assms(2)] allow_facet_spec [OF assms(1)] by blast

lemma native_facet_filter_witness:
  "allow_facet facets_empty [(''facet.doc'', AStr ''all''), (''facet.optional.x'', AStr ''true'')] =
     Some False"
proof -
  have "starts_with ''facet.doc'' facet_prefix" by (simp add: starts_with_def facet_prefix_def)
  from native_facet_filter [OF facets_empty_inv this, THEN conjunct2]
  have "allow_facet facets_empty [(''facet.doc'', AStr ''all''), (''facet.optional.x'', AStr ''true'')]
    = Some (facets_allow facets_empty
        [(''facet.doc'', AStr ''all''), (''facet.optional.x'', AStr ''true'')])" .
  also have "\<dots> = Some False" by code_simp
  finally show ?thesis .
qed

text \<open>
  Storing the state and rebuilding the object from it gives an equal object with the same
  visible values and matching order.
\<close>

lemma facets_state_roundtrip:
  assumes "facets_inv st"
  shows "\<exists>st'. facets_fromstate (facets_getstate st) = Inr st' \<and> facets_eq st' st
    \<and> dget (f_main st') = dget (f_main st) \<and> f_keylist st' = f_keylist st"
proof -
  obtain s where s: "facets_copy st = Inr s" "facets_inv s" "f_local s = f_local st"
    "f_inherited s = f_inherited st" using facets_copy_same [OF assms] by blast
  then have "dget (f_main s) = dget (f_main st)" using assms by (simp add: facets_inv_def)
  moreover have "keylist_of s = keylist_of st"
    by (rule keylist_of_cong) (use assms s calculation in \<open>auto simp: facets_inv_def\<close>)
  ultimately show ?thesis
    using s assms by (auto simp: fromstate_getstate facets_eq_def facets_inv_def)
qed

lemma facets_state_roundtrip_witness:
  "\<exists>st'. facets_fromstate (facets_getstate facets_empty) = Inr st' \<and> facets_eq st' facets_empty"
  using facets_state_roundtrip [OF facets_empty_inv] by blast

text \<open>
  C19. Deleting a local facet that an inherited one masks succeeds and takes the inherited value out
  of the visible dictionary: although the value is still recorded as inherited, a lookup answers as
  in the consistent object in which the facet is set in neither place, the object is no longer
  consistent, and clearing the inherited facets raises \<open>KeyError\<close>.  And \<open>popitem\<close> of a consistent
  object always raises, because it unpacks the name of a facet into two variables.
\<close>

lemma masked_delete_loses_inherited:
  assumes "facets_inv st" and "dget (f_local st) item = Some w" and "dget (f_inherited st) item = Some v"
  shows "(\<exists>st'. facets_delitem item st = Inr st' \<and> dget (f_inherited st') item = Some v
      \<and> (let unset = st'\<lparr>f_inherited := ddel item (f_inherited st')\<rparr>
         in facets_inv unset \<and> facets_getitem st' item = facets_getitem unset item)
      \<and> \<not> facets_inv st' \<and> snd (clear_inherited st') = Some (KeyError item))
    \<and> (\<exists>e. facets_popitem st = Inl e)"
proof
  show "\<exists>e. facets_popitem st = Inl e" by (rule facets_popitem_fails [OF assms(1)])
  let ?s = "st\<lparr>f_main := ddel item (f_main st), f_res := ddel item (f_res st),
    f_keylist := remove1 item (f_keylist st), f_local := ddel item (f_local st)\<rparr>"
  let ?u = "?s\<lparr>f_inherited := ddel item (f_inherited ?s)\<rparr>"
  note inv = assms(1) [unfolded facets_inv_def]
  have "remove1 item (keylist_of st) = keylist_of ?u"
    by (rule keylist_of_remove) (use inv in \<open>auto simp: pydict.get_del\<close>)
  then have u: "facets_inv ?u"
    using inv by (auto simp: facets_inv_def pydict.ok_del pydict.get_del map_add_def fun_eq_iff split: option.splits)
  have match: "match_keys ?s ks i = match_keys ?u ks i" for ks i by (induction ks) (simp_all split: option.splits)
  have same: "f_keylist ?s = f_keylist ?u" "f_main ?s = f_main ?u" by simp_all
  have look: "facets_getitem ?s item = facets_getitem ?u item"
    unfolding facets_getitem_def facets_getitem_internal_def match same by (rule refl)
  have bad: "\<not> facets_inv ?s"
  proof
    assume "facets_inv ?s"
    then have "dget (f_main ?s) item = (dget (f_local ?s) ++ dget (f_inherited ?s)) item" by (simp add: facets_inv_def)
    then show False using assms(3) by (simp add: pydict.get_del map_add_def)
  qed
  have lost: "lost_facet item ?s"
    using inv facets_inv_keylist [OF assms(1)]
    by (auto simp: lost_facet_def pydict.get_del map_add_def dom_def split: option.splits)
  have "snd (clear_inherited ?s) = Some (KeyError item)"
    unfolding clear_inherited_def
    by (rule lost_facet_clear [OF lost])
      (use inv assms(3) in \<open>auto simp: pydict.ok_keys pydict.keys_get\<close>)
  then show "\<exists>st'. facets_delitem item st = Inr st' \<and> dget (f_inherited st') item = Some v
      \<and> (let unset = st'\<lparr>f_inherited := ddel item (f_inherited st')\<rparr>
         in facets_inv unset \<and> facets_getitem st' item = facets_getitem unset item)
      \<and> \<not> facets_inv st' \<and> snd (clear_inherited st') = Some (KeyError item)"
    using masked_delete [OF assms] u look bad assms(3) by (auto simp: Let_def)
qed

definition sample_masked :: facets where
  "sample_masked = \<lparr>f_main = [(''facet.doc'', False)], f_local = [(''facet.doc'', True)],
     f_inherited = [(''facet.doc'', False)], f_keylist = [''facet.doc''], f_res = [(''facet.doc'', ''facet.doc'')]\<rparr>"

lemma masked_delete_loses_inherited_witness:
  "\<exists>st'. facets_delitem ''facet.doc'' sample_masked = Inr st' \<and> \<not> facets_inv st'
    \<and> snd (clear_inherited st') = Some (KeyError ''facet.doc'')"
proof -
  have "facets_inv sample_masked"
    by (auto simp: facets_inv_def sample_masked_def dict_ok_def dget_def dkeys_def keylist_of_def fun_eq_iff map_add_def
        starts_with_def facet_prefix_def split: if_splits)
  then show ?thesis
    using masked_delete_loses_inherited [of sample_masked "''facet.doc''" True False]
    by (auto simp: sample_masked_def dget_def)
qed

end
