(* ===== verification/Pkg_Mediator.thy ===== *)
theory Pkg_Mediator
  imports Pkg_Fmri
begin

text \<open>
  \<open>src/src/modules/mediator.py\<close>: the checks on mediator names, versions, implementations and
  priorities, and the order and the matching of mediations.  The values the checks get are strings;
  a caller that passes another object is refused before any of this runs.
\<close>

section \<open>Checks\<close>

definition mediator_chars :: "string \<Rightarrow> bool" where
  "mediator_chars s \<longleftrightarrow> s \<noteq> [] \<and> list_all (\<lambda>c. is_alnum c \<or> c = CHR ''-'') s"

definition valid_mediator :: "string \<Rightarrow> bool" where
  "valid_mediator value \<longleftrightarrow> at_dollar mediator_chars value"

definition valid_mediator_version :: "string \<Rightarrow> bool" where
  "valid_mediator_version value \<longleftrightarrow> (case version_init value None of Inr _ \<Rightarrow> True | Inl _ \<Rightarrow> False)"

text \<open>\<open>value.rsplit("@", 1)\<close>, or the value alone when it holds no at sign.\<close>

definition split_impl :: "string \<Rightarrow> string \<times> string option" where
  "split_impl value =
     (case py_rfind CHR ''@'' value of
        None \<Rightarrow> (value, None)
      | Some i \<Rightarrow> (take i value, Some (drop (Suc i) value)))"

datatype impl_ver = NoVer | EmptyVer | Ver version

definition parse_mediator_implementation :: "string option \<Rightarrow> string option \<times> impl_ver" where
  "parse_mediator_implementation value =
     (case value of
        None \<Rightarrow> (None, NoVer)
      | Some s \<Rightarrow>
          (case split_impl s of
             (impl_name, None) \<Rightarrow> (Some impl_name, NoVer)
           | (impl_name, Some v) \<Rightarrow>
               if v = [] then (Some impl_name, EmptyVer)
               else (case version_init v None of
                       Inl _ \<Rightarrow> (None, NoVer)
                     | Inr w \<Rightarrow> (Some impl_name, Ver w))))"

definition valid_mediator_implementation :: "string \<Rightarrow> bool \<Rightarrow> bool" where
  "valid_mediator_implementation value allow_empty_version =
     (let (iname, iver) = split_impl value;
          error = (case iver of
                     None \<Rightarrow> False
                   | Some v \<Rightarrow> if v \<noteq> [] \<or> \<not> allow_empty_version
                              then \<not> valid_mediator_version v else False)
      in \<not> error \<and> iname \<noteq> [] \<and> at_dollar mediator_chars iname)"

definition valid_mediator_priority :: "string \<Rightarrow> bool" where
  "valid_mediator_priority value \<longleftrightarrow> value = ''site'' \<or> value = ''vendor''"

section \<open>The order of mediations\<close>

text \<open>A mediation: priority, version and implementation.\<close>

record mediation =
  med_priority :: "string option"
  med_version :: "version option"
  med_impl :: "string option"

definition med_rank :: "string option \<Rightarrow> int" where
  "med_rank p = (if p = Some ''site'' then 1 else if p = Some ''vendor'' then 2 else 3)"

text \<open>
  What \<open>misc.cmp\<close> returns, for the pairs of values that occur; \<open>None\<close> is \<open>NotImplemented\<close>.
  The comparison methods of \<open>Version\<close> put any other object before a version.
\<close>

definition cmp_int :: "int \<Rightarrow> int \<Rightarrow> int" where
  "cmp_int a b = (if a = b then 0 else if a < b then -1 else 1)"

definition cmp_version :: "version \<Rightarrow> version \<Rightarrow> int" where
  "cmp_version v w =
     (if version_eq v w then 0 else if version_lt v w = Inr True then -1 else 1)"

fun cmp_opt_version :: "version option \<Rightarrow> version option \<Rightarrow> int" where
  "cmp_opt_version None None = 0"
| "cmp_opt_version None (Some w) = -1"
| "cmp_opt_version (Some v) None = 1"
| "cmp_opt_version (Some v) (Some w) = cmp_version v w"

fun cmp_opt_str :: "string option \<Rightarrow> string option \<Rightarrow> int option" where
  "cmp_opt_str None None = Some 0"
| "cmp_opt_str None (Some t) = (if t = [] then None else Some (-1))"
| "cmp_opt_str (Some s) None = (if s = [] then None else Some 1)"
| "cmp_opt_str (Some s) (Some t) = Some (if s = t then 0 else if s < t then -1 else 1)"

fun cmp_impl_ver :: "impl_ver \<Rightarrow> impl_ver \<Rightarrow> int option" where
  "cmp_impl_ver NoVer NoVer = Some 0"
| "cmp_impl_ver EmptyVer EmptyVer = Some 0"
| "cmp_impl_ver (Ver v) (Ver w) = Some (cmp_version v w)"
| "cmp_impl_ver (Ver v) _ = Some 1"
| "cmp_impl_ver _ (Ver w) = Some (-1)"
| "cmp_impl_ver _ _ = None"

text \<open>\<open>NotImplemented\<close> may be returned, but multiplying it raises \<open>TypeError\<close>.\<close>

definition cmp_mediations :: "mediation \<Rightarrow> mediation \<Rightarrow> py_exn + int option" where
  "cmp_mediations a b =
     (let res = cmp_int (med_rank (med_priority a)) (med_rank (med_priority b)) in
      if res \<noteq> 0 then Inr (Some res)
      else let res = cmp_opt_version (med_version a) (med_version b) in
      if res \<noteq> 0 then Inr (Some (res * -1))
      else
        let (aimpl, aver) = parse_mediator_implementation (med_impl a);
            (bimpl, bver) = parse_mediator_implementation (med_impl b)
        in case cmp_opt_str aimpl bimpl of
             None \<Rightarrow> Inr None
           | Some res \<Rightarrow>
               if res \<noteq> 0 then Inr (Some res)
               else case cmp_impl_ver aver bver of
                      None \<Rightarrow> Inl TypeError
                    | Some res \<Rightarrow> if res \<noteq> 0 then Inr (Some (res * -1)) else Inr (Some 0))"

fun impl_ver_eq :: "impl_ver \<Rightarrow> impl_ver \<Rightarrow> bool" where
  "impl_ver_eq NoVer NoVer = True"
| "impl_ver_eq EmptyVer EmptyVer = True"
| "impl_ver_eq (Ver v) (Ver w) = version_eq v w"
| "impl_ver_eq _ _ = False"

definition mediator_impl_matches :: "string option \<Rightarrow> string option \<Rightarrow> bool" where
  "mediator_impl_matches a b =
     (if a = b then True
      else
        let (aimpl, aver) = parse_mediator_implementation a;
            (bimpl, bver) = parse_mediator_implementation b
        in if aimpl \<noteq> bimpl \<or> \<not> (str_true aimpl \<and> str_true bimpl) then False
           else aver = NoVer \<or> bver = NoVer \<or> impl_ver_eq aver bver)"

section \<open>What the checks accept\<close>

lemma split_impl_join:
  "split_impl (n @ CHR ''@'' # v) = (n, Some v)" if "CHR ''@'' \<notin> set v"
  using that py_rfind_append [of "CHR ''@''" v n] by (simp add: split_impl_def)

lemma split_impl_plain: "CHR ''@'' \<notin> set n \<Longrightarrow> split_impl n = (n, None)"
  using py_rfind_None [of "CHR ''@''" n] by (simp add: split_impl_def)

text \<open>A valid implementation is one that parses, with a name and with no empty version.\<close>

lemma valid_implementation_parses:
  assumes "valid_mediator_implementation s False"
  obtains n iv where "parse_mediator_implementation (Some s) = (Some n, iv)" and "n \<noteq> []"
    and "at_dollar mediator_chars n" and "iv \<noteq> EmptyVer"
    and "\<And>v. iv = Ver v \<Longrightarrow> version_wf v"
proof -
  obtain n iver where sp: "split_impl s = (n, iver)" by fastforce
  show thesis
  proof (cases iver)
    case None
    then show ?thesis
      using assms sp that [of n NoVer]
      by (simp add: valid_mediator_implementation_def parse_mediator_implementation_def)
  next
    case (Some v)
    then have "valid_mediator_version v" "n \<noteq> []" "at_dollar mediator_chars n"
      using assms sp by (simp_all add: valid_mediator_implementation_def)
    then obtain w where w: "version_init v None = Inr w"
      by (auto simp: valid_mediator_version_def split: sum.splits)
    then have "v \<noteq> []" using version_init_cases(1) by blast
    then show ?thesis
      using that [of n "Ver w"] w Some sp \<open>n \<noteq> []\<close> \<open>at_dollar mediator_chars n\<close>
        version_init_wf [OF w]
      by (simp add: parse_mediator_implementation_def)
  qed
qed

definition mediation_ok :: "mediation \<Rightarrow> bool" where
  "mediation_ok m \<longleftrightarrow>
     (case med_version m of None \<Rightarrow> True | Some v \<Rightarrow> version_wf v)
     \<and> (case med_impl m of None \<Rightarrow> True | Some s \<Rightarrow> valid_mediator_implementation s False)"

section \<open>The order is total\<close>

text \<open>The position of a mediation: later versions come first.\<close>

type_synonym vkey = "int list \<times> int list option \<times> string option"

definition iv_key :: "impl_ver \<Rightarrow> vkey option" where
  "iv_key iv = (case iv of Ver v \<Rightarrow> Some (version_key v) | _ \<Rightarrow> None)"

definition med_lt :: "mediation \<Rightarrow> mediation \<Rightarrow> bool" where
  "med_lt a b \<longleftrightarrow>
     (let ra = med_rank (med_priority a); rb = med_rank (med_priority b);
          va = map_option version_key (med_version a); vb = map_option version_key (med_version b);
          (na, ia) = parse_mediator_implementation (med_impl a);
          (nb, ib) = parse_mediator_implementation (med_impl b)
      in ra < rb \<or> ra = rb \<and> (vb < va \<or> va = vb \<and> (na < nb \<or> na = nb \<and> iv_key ib < iv_key ia)))"

definition med_key ::
  "mediation \<Rightarrow> int \<times> vkey option \<times> string option \<times> vkey option" where
  "med_key m = (med_rank (med_priority m), map_option version_key (med_version m),
     fst (parse_mediator_implementation (med_impl m)),
     iv_key (snd (parse_mediator_implementation (med_impl m))))"

lemma cmp_version_key:
  assumes "version_wf v" "version_wf w"
  shows "cmp_version v w =
    (if version_key v = version_key w then 0 else if version_key v < version_key w then -1 else 1)"
  using assms by (simp add: cmp_version_def version_eq_key version_lt_key)

lemma cmp_opt_version_key:
  assumes "case a of None \<Rightarrow> True | Some v \<Rightarrow> version_wf v"
    and "case b of None \<Rightarrow> True | Some v \<Rightarrow> version_wf v"
  shows "cmp_opt_version a b =
    (if map_option version_key a = map_option version_key b then 0
     else if map_option version_key a < map_option version_key b then -1 else 1)"
  using assms by (cases a; cases b) (simp_all add: cmp_version_key)

lemma cmp_mediations_spec:
  assumes a: "mediation_ok a" and b: "mediation_ok b"
  shows "cmp_mediations a b =
    Inr (Some (if med_lt a b then -1 else if med_key a = med_key b then 0 else 1))"
proof -
  obtain na ia where pa: "parse_mediator_implementation (med_impl a) = (na, ia)"
    and fa: "na \<noteq> Some []" "ia \<noteq> EmptyVer" "\<And>v. ia = Ver v \<Longrightarrow> version_wf v"
  proof (cases "med_impl a")
    case None
    then show thesis using that by (simp add: parse_mediator_implementation_def)
  next
    case (Some s)
    then have "valid_mediator_implementation s False" using a by (simp add: mediation_ok_def)
    then show thesis using that Some by (auto elim!: valid_implementation_parses)
  qed
  obtain nb ib where pb: "parse_mediator_implementation (med_impl b) = (nb, ib)"
    and fb: "nb \<noteq> Some []" "ib \<noteq> EmptyVer" "\<And>v. ib = Ver v \<Longrightarrow> version_wf v"
  proof (cases "med_impl b")
    case None
    then show thesis using that by (simp add: parse_mediator_implementation_def)
  next
    case (Some s)
    then have "valid_mediator_implementation s False" using b by (simp add: mediation_ok_def)
    then show thesis using that Some by (auto elim!: valid_implementation_parses)
  qed
  have n: "cmp_opt_str na nb = Some (if na = nb then 0 else if na < nb then -1 else 1)"
    using fa(1) fb(1) by (cases na; cases nb) auto
  have i: "cmp_impl_ver ia ib = Some
      (if iv_key ia = iv_key ib then 0 else if iv_key ia < iv_key ib then -1 else 1)"
    using fa fb by (cases ia; cases ib) (auto simp: iv_key_def cmp_version_key)
  have v: "cmp_opt_version (med_version a) (med_version b) =
      (if map_option version_key (med_version a) = map_option version_key (med_version b) then 0
       else if map_option version_key (med_version a) < map_option version_key (med_version b)
       then -1 else 1)"
    by (rule cmp_opt_version_key) (use a b in \<open>simp_all add: mediation_ok_def\<close>)
  show ?thesis
    unfolding cmp_mediations_def med_lt_def med_key_def pa pb Let_def v
    by (auto simp: cmp_int_def n i)
qed

lemma med_lt_trans: "med_lt a b \<Longrightarrow> med_lt b c \<Longrightarrow> med_lt a c"
  by (auto simp: med_lt_def Let_def split: prod.splits)

lemma med_lt_total: "med_lt a b \<or> med_key a = med_key b \<or> med_lt b a"
  by (auto simp: med_lt_def med_key_def Let_def split: prod.splits)

lemma med_lt_irrefl: "med_key a = med_key b \<Longrightarrow> \<not> med_lt a b"
  by (auto simp: med_lt_def med_key_def Let_def split: prod.splits)

section \<open>Matching\<close>

lemma impl_matches_refl: "mediator_impl_matches a a"
  by (simp add: mediator_impl_matches_def)

lemma version_eq_sym: "version_eq v w = version_eq w v"
  by (auto simp: version_eq_key)

lemma impl_ver_eq_sym: "impl_ver_eq a b = impl_ver_eq b a"
  by (cases a; cases b) (auto simp: version_eq_sym)

lemma impl_matches_sym: "mediator_impl_matches a b = mediator_impl_matches b a"
  unfolding mediator_impl_matches_def
  by (auto simp: Let_def impl_ver_eq_sym split: prod.splits)

lemma impl_matches_unversioned:
  assumes "parse_mediator_implementation (Some s) = (Some n, iv)" and "n \<noteq> []"
    and "CHR ''@'' \<notin> set n"
  shows "mediator_impl_matches (Some n) (Some s)"
  using assms split_impl_plain [of n]
  by (simp add: mediator_impl_matches_def parse_mediator_implementation_def [of "Some n"] str_true_def)

section \<open>Properties\<close>

text \<open>
  C17. The sort routine of mediations is a total order on valid mediations and never fails there:
  it returns -1, 0 or 1 by priority (site, vendor, system), then version with the latest first,
  then implementation name, then implementation version with the latest first.
\<close>

lemma mediations_totally_ordered:
  assumes "mediation_ok a" "mediation_ok b" "mediation_ok c"
  shows "cmp_mediations a b =
      Inr (Some (if med_lt a b then -1 else if med_key a = med_key b then 0 else 1))
    \<and> (med_lt a b \<or> med_key a = med_key b \<or> med_lt b a)
    \<and> (cmp_mediations a b = Inr (Some 1) \<longleftrightarrow> cmp_mediations b a = Inr (Some (-1)))
    \<and> (cmp_mediations a b = Inr (Some (-1)) \<and> cmp_mediations b c = Inr (Some (-1))
        \<longrightarrow> cmp_mediations a c = Inr (Some (-1)))"
  using cmp_mediations_spec [OF assms(1,2)] cmp_mediations_spec [OF assms(2,1)]
    cmp_mediations_spec [OF assms(2,3)] cmp_mediations_spec [OF assms(1,3)]
    med_lt_total [of a b] med_lt_irrefl [of a b] med_lt_irrefl [of b a]
    med_lt_trans [of a b a] med_lt_trans [of a b c] med_lt_irrefl [of a a]
  by (auto split: if_splits)

lemma mediations_totally_ordered_witness:
  "cmp_mediations \<lparr>med_priority = Some ''site'', med_version = None, med_impl = None\<rparr>
     \<lparr>med_priority = Some ''vendor'', med_version = None, med_impl = None\<rparr> = Inr (Some (-1))"
proof -
  have ok: "mediation_ok \<lparr>med_priority = p, med_version = None, med_impl = None\<rparr>" for p
    by (simp add: mediation_ok_def)
  show ?thesis
    by (subst mediations_totally_ordered [OF ok ok ok, THEN conjunct1])
      (simp add: med_lt_def med_rank_def parse_mediator_implementation_def)
qed

text \<open>
  Matching of implementations is reflexive and symmetric, and an unversioned implementation
  matches every version of it; so it is not transitive.  An implementation with an empty version,
  which \<open>allow_empty_version\<close> admits, cannot be ordered against the unversioned one: the sort
  routine raises \<open>TypeError\<close>.
\<close>

lemma implementation_matching:
  "mediator_impl_matches x x \<and> mediator_impl_matches x y = mediator_impl_matches y x
   \<and> mediator_impl_matches (Some ''perl'') (Some ''perl@5'')
   \<and> mediator_impl_matches (Some ''perl'') (Some ''perl@6'')
   \<and> mediator_impl_matches (Some ''perl@5'') (Some ''perl@6'') = False
   \<and> valid_mediator_implementation ''perl@'' True
   \<and> cmp_mediations \<lparr>med_priority = None, med_version = None, med_impl = Some ''perl''\<rparr>
       \<lparr>med_priority = None, med_version = None, med_impl = Some ''perl@''\<rparr> = Inl TypeError"
proof -
  let ?v = "\<lambda>n s. \<lparr>release = \<lparr>ds_vals = [n], ds_str = s\<rparr>, branch = None,
    build_release = \<lparr>ds_vals = [5, 11], ds_str = ''5.11''\<rparr>, timestr = None\<rparr>"
  have v: "version_init ''5'' None = Inr (?v 5 ''5'')" "version_init ''6'' None = Inr (?v 6 ''6'')"
    by code_simp+
  have s: "split_impl ''perl'' = (''perl'', None)" "split_impl ''perl@'' = (''perl'', Some [])"
    "split_impl ''perl@5'' = (''perl'', Some ''5'')" "split_impl ''perl@6'' = (''perl'', Some ''6'')"
    by code_simp+
  have p: "parse_mediator_implementation (Some ''perl'') = (Some ''perl'', NoVer)"
    "parse_mediator_implementation (Some ''perl@'') = (Some ''perl'', EmptyVer)"
    "parse_mediator_implementation (Some ''perl@5'') = (Some ''perl'', Ver (?v 5 ''5''))"
    "parse_mediator_implementation (Some ''perl@6'') = (Some ''perl'', Ver (?v 6 ''6''))"
    by (simp_all add: parse_mediator_implementation_def s v)
  have "mediator_impl_matches (Some ''perl'') (Some ''perl@5'')"
    "mediator_impl_matches (Some ''perl'') (Some ''perl@6'')"
    "mediator_impl_matches (Some ''perl@5'') (Some ''perl@6'') = False"
    by (simp_all add: mediator_impl_matches_def p str_true_def version_eq_key version_key_def)
  moreover have "valid_mediator_implementation ''perl@'' True" by code_simp
  moreover have "cmp_mediations \<lparr>med_priority = None, med_version = None, med_impl = Some ''perl''\<rparr>
       \<lparr>med_priority = None, med_version = None, med_impl = Some ''perl@''\<rparr> = Inl TypeError"
    by (simp add: cmp_mediations_def p cmp_int_def)
  ultimately show ?thesis using impl_matches_refl impl_matches_sym by blast
qed

end
