(* ===== verification/Pkg_FileManager.thy ===== *)
theory Pkg_FileManager
  imports Pkg_Dict
begin

text \<open>
  \<open>src/src/modules/file_layout/layout.py\<close> and \<open>file_manager.py\<close>: where the content of a file with
  a given hash is kept, and the manager that overlays two layouts.

  The file system is the dictionary of the regular files by path.  Directories are not part of
  the state: creating the parent directory succeeds, and removing empty ones has no effect on the
  files.  An operating system call fails only with \<open>ENOENT\<close>, when its source file is missing; the
  branches for permission errors and for other processes acting at the same time are left out.
\<close>

section \<open>Paths\<close>

definition path_join :: "string \<Rightarrow> string \<Rightarrow> string" where
  "path_join a b =
     (if starts_with b ''/'' then b
      else if a = [] \<or> ends_with a ''/'' then a @ b
      else a @ ''/'' @ b)"

definition path_basename :: "string \<Rightarrow> string" where
  "path_basename p = (case py_rfind CHR ''/'' p of None \<Rightarrow> p | Some i \<Rightarrow> drop (Suc i) p)"

section \<open>Layouts\<close>

datatype layout = V0Layout | V1Layout

fun layout_lookup :: "layout \<Rightarrow> string \<Rightarrow> string" where
  "layout_lookup V0Layout hashval =
     path_join (path_join (py_slice hashval (Some 0) (Some 2)) (py_slice hashval (Some 2) (Some 8)))
       hashval"
| "layout_lookup V1Layout hashval = path_join (py_slice hashval (Some 0) (Some 2)) hashval"

definition path_to_hash :: "layout \<Rightarrow> string \<Rightarrow> string" where
  "path_to_hash l path = path_basename path"

definition layout_contains :: "layout \<Rightarrow> string \<Rightarrow> string \<Rightarrow> bool" where
  "layout_contains l rel_path file_name \<longleftrightarrow> layout_lookup l file_name = rel_path"

definition get_default_layouts :: "layout list" where
  "get_default_layouts = [V1Layout, V0Layout]"

definition get_preferred_layout :: layout where
  "get_preferred_layout = V1Layout"

section \<open>The manager\<close>

datatype fm_exn =
    RootValueError
  | NeedToModifyReadOnly string
  | FMInsertionFailure string string
  | NoEntry string
  | UnrecognizedFilePaths "string list"

record file_manager =
  fm_root :: string
  fm_readonly :: bool
  fm_layouts :: "layout list"

definition fm_init :: "string \<Rightarrow> bool \<Rightarrow> layout list option \<Rightarrow> fm_exn + file_manager" where
  "fm_init root readonly layouts =
     (if root = [] then Inl RootValueError
      else Inr \<lparr>fm_root = root, fm_readonly = readonly,
                fm_layouts = (case layouts of None \<Rightarrow> get_default_layouts | Some ls \<Rightarrow> ls)\<rparr>)"

definition set_read_only :: "file_manager \<Rightarrow> file_manager" where
  "set_read_only fm = fm\<lparr>fm_readonly := True\<rparr>"

text \<open>The two file operations: \<open>rename\<close> moves, \<open>copyfile\<close> duplicates.\<close>

definition fs_rename :: "string \<Rightarrow> string \<Rightarrow> 'c dict \<Rightarrow> 'c dict option" where
  "fs_rename src dst fs =
     (case dget fs src of
        None \<Rightarrow> None
      | Some c \<Rightarrow> if src = dst then Some fs else Some (dput dst c (ddel src fs)))"

definition fs_copyfile :: "string \<Rightarrow> string \<Rightarrow> 'c dict \<Rightarrow> 'c dict option" where
  "fs_copyfile src dst fs =
     (case dget fs src of None \<Rightarrow> None | Some c \<Rightarrow> Some (dput dst c fs))"

text \<open>\<open>__select_path\<close>: the existing path and the path of the first layout.\<close>

fun select_from ::
  "file_manager \<Rightarrow> 'c dict \<Rightarrow> string \<Rightarrow> bool \<Rightarrow> layout list \<Rightarrow> string option
     \<Rightarrow> string option \<times> string option" where
  "select_from fm fs hashval check_existence [] dest = (None, dest)"
| "select_from fm fs hashval check_existence (l # ls) dest =
     (let cur_full_path = path_join (fm_root fm) (layout_lookup l hashval);
          dest' = (case dest of None \<Rightarrow> Some cur_full_path | Some d \<Rightarrow> Some d)
      in if \<not> check_existence \<or> dget fs cur_full_path \<noteq> None then (Some cur_full_path, dest')
         else select_from fm fs hashval check_existence ls dest')"

definition select_path ::
  "file_manager \<Rightarrow> 'c dict \<Rightarrow> string \<Rightarrow> bool \<Rightarrow> string option \<times> string option" where
  "select_path fm fs hashval check_existence =
     select_from fm fs hashval check_existence (fm_layouts fm) None"

definition fm_lookup ::
  "file_manager \<Rightarrow> 'c dict \<Rightarrow> string \<Rightarrow> bool \<Rightarrow> string option \<times> 'c dict" where
  "fm_lookup fm fs hashval check_existence =
     (case select_path fm fs hashval check_existence of
        (None, _) \<Rightarrow> (None, fs)
      | (Some cur, dest) \<Rightarrow>
          if dest \<noteq> Some cur \<and> \<not> fm_readonly fm then
            (case fs_rename cur (the dest) fs of
               Some fs' \<Rightarrow> (dest, fs')
             | None \<Rightarrow> if dget fs cur = None then (None, fs) else (Some cur, fs))
          else (Some cur, fs))"

text \<open>\<open>lookup\<close> with \<open>opener\<close>: the content of the file.\<close>

definition fm_open :: "file_manager \<Rightarrow> 'c dict \<Rightarrow> string \<Rightarrow> 'c option \<times> 'c dict" where
  "fm_open fm fs hashval =
     (case fm_lookup fm fs hashval True of
        (None, fs') \<Rightarrow> (None, fs')
      | (Some p, fs') \<Rightarrow> (dget fs' p, fs'))"

text \<open>\<open>__place\<close>, with the operation that puts the file in place.\<close>

definition fm_place ::
  "(string \<Rightarrow> string \<Rightarrow> 'c dict \<Rightarrow> 'c dict option) \<Rightarrow> file_manager \<Rightarrow> 'c dict
     \<Rightarrow> string \<Rightarrow> string \<Rightarrow> fm_exn + (string \<times> 'c dict)" where
  "fm_place pfunc fm fs hashval src_path =
     (if fm_readonly fm then Inl (NeedToModifyReadOnly hashval)
      else
        let (cur, dest) = select_path fm fs hashval True; d = the dest;
            moved = (cur \<noteq> None \<and> cur \<noteq> dest)
        in sbind
             (if moved then
                (case fs_rename src_path (the cur) fs of
                   None \<Rightarrow> Inl (NoEntry src_path)
                 | Some fs' \<Rightarrow> Inr (the cur, fs'))
              else Inr (src_path, fs))
             (\<lambda>(src, fs1).
        case pfunc src d fs1 of
          Some fs2 \<Rightarrow> Inr (d, fs2)
        | None \<Rightarrow>
            if dget fs1 d \<noteq> None then Inr (d, fs1) else Inl (FMInsertionFailure src d)))"

definition fm_copy ::
  "file_manager \<Rightarrow> 'c dict \<Rightarrow> string \<Rightarrow> string \<Rightarrow> fm_exn + (string \<times> 'c dict)" where
  "fm_copy fm fs hashval src_path = fm_place fs_copyfile fm fs hashval src_path"

definition fm_insert ::
  "file_manager \<Rightarrow> 'c dict \<Rightarrow> string \<Rightarrow> string \<Rightarrow> fm_exn + (string \<times> 'c dict)" where
  "fm_insert fm fs hashval src_path = fm_place fs_rename fm fs hashval src_path"

definition fm_remove :: "file_manager \<Rightarrow> 'c dict \<Rightarrow> string \<Rightarrow> fm_exn + 'c dict" where
  "fm_remove fm fs hashval =
     (if fm_readonly fm then Inl (NeedToModifyReadOnly hashval)
      else Inr (fold (\<lambda>l. ddel (path_join (fm_root fm) (layout_lookup l hashval))) (fm_layouts fm) fs))"

text \<open>
  \<open>walk\<close>: the hashes of the files below the root that some layout accounts for; the other files
  are reported when the walk ends.
\<close>

definition under_root :: "file_manager \<Rightarrow> string \<Rightarrow> bool" where
  "under_root fm p \<longleftrightarrow> starts_with p (path_join (fm_root fm) []) \<and> p \<noteq> path_join (fm_root fm) []"

definition rel_path :: "file_manager \<Rightarrow> string \<Rightarrow> string" where
  "rel_path fm p = dropWhile (\<lambda>c. c = CHR ''/'') (drop (length (fm_root fm)) p)"

definition fm_walk :: "file_manager \<Rightarrow> 'c dict \<Rightarrow> string list \<times> fm_exn option" where
  "fm_walk fm fs =
     (let ps = map (rel_path fm) (filter (under_root fm) (dkeys fs));
          known = (\<lambda>fp. list_ex (\<lambda>l. layout_contains l fp (path_basename fp)) (fm_layouts fm));
          unrecognized = filter (\<lambda>fp. \<not> known fp) ps
      in (map path_basename (filter known ps),
          if unrecognized = [] then None else Some (UnrecognizedFilePaths unrecognized)))"

section \<open>Paths of a hash\<close>

definition hash_ok :: "string \<Rightarrow> bool" where
  "hash_ok h \<longleftrightarrow> 2 < length h \<and> CHR ''/'' \<notin> set h"

lemma not_slash: "CHR ''/'' \<notin> set h \<Longrightarrow> \<not> starts_with h ''/''"
  by (cases h) (auto simp: starts_with_def)

lemma not_slash_end: "CHR ''/'' \<notin> set h \<Longrightarrow> \<not> ends_with h ''/''"
  using not_slash [of "rev h"] by (simp add: ends_with_def)

lemma path_join_plain:
  assumes "CHR ''/'' \<notin> set b" "a \<noteq> []" "\<not> ends_with a ''/''"
  shows "path_join a b = a @ CHR ''/'' # b"
  using assms not_slash [of b] by (simp add: path_join_def)

lemma layout_V1:
  assumes "hash_ok h"
  shows "layout_lookup V1Layout h = take 2 h @ CHR ''/'' # h"
proof -
  have "CHR ''/'' \<notin> set (take 2 h)" "take 2 h \<noteq> []"
    using assms set_take_subset [of 2 h] by (auto simp: hash_ok_def)
  then show ?thesis using assms path_join_plain [of h "take 2 h"] not_slash_end [of "take 2 h"]
    by (simp add: hash_ok_def py_slice_def)
qed

lemma layout_V0:
  assumes "hash_ok h"
  shows "layout_lookup V0Layout h = take 2 h @ CHR ''/'' # take 6 (drop 2 h) @ CHR ''/'' # h"
proof -
  have sl: "CHR ''/'' \<notin> set (take 2 h)" "CHR ''/'' \<notin> set (take 6 (drop 2 h))"
    "take 2 h \<noteq> []" "take 6 (drop 2 h) \<noteq> []"
    using assms set_take_subset [of 2 h] set_take_subset [of 6 "drop 2 h"] set_drop_subset [of 2 h]
    by (auto simp: hash_ok_def)
  let ?x = "take 2 h @ CHR ''/'' # take 6 (drop 2 h)"
  have j: "path_join (take 2 h) (take 6 (drop 2 h)) = ?x"
    using sl not_slash_end [of "take 2 h"] by (simp add: path_join_plain)
  have "starts_with (rev ?x) ''/'' \<longleftrightarrow> starts_with (rev (take 6 (drop 2 h))) ''/''"
    using sl(4) by (cases "take 6 (drop 2 h)" rule: rev_cases) (auto simp: starts_with_def)
  then have "\<not> ends_with ?x ''/''"
    using not_slash_end [OF sl(2)] by (simp add: ends_with_def)
  then have "path_join ?x h = ?x @ CHR ''/'' # h"
    using assms path_join_plain [of h ?x] by (simp add: hash_ok_def)
  moreover have "take (8 - 2) (drop 2 h) = drop 2 (take 8 h)" by (simp add: drop_take)
  ultimately show ?thesis using j by (simp add: py_slice_def drop_take)
qed

lemma basename_append:
  "CHR ''/'' \<notin> set h \<Longrightarrow> path_basename (x @ CHR ''/'' # h) = h"
  using py_rfind_append [of "CHR ''/''" h x] by (simp add: path_basename_def)

lemma layout_basename: "hash_ok h \<Longrightarrow> path_basename (layout_lookup l h) = h"
  using layout_V1 [of h] layout_V0 [of h] basename_append [of h "take 2 h"]
    basename_append [of h "take 2 h @ CHR ''/'' # take 6 (drop 2 h)"]
  by (cases l) (auto simp: hash_ok_def)

lemma layout_inj:
  assumes "hash_ok h" "hash_ok h'" "layout_lookup l h = layout_lookup l' h'"
  shows "h = h' \<and> l = l'"
proof -
  have h: "h = h'" using layout_basename assms by metis
  have "length (layout_lookup V1Layout h) < length (layout_lookup V0Layout h)"
    unfolding layout_V1 [OF assms(1)] layout_V0 [OF assms(1)] by simp
  then show ?thesis using assms(3) h by (cases l; cases l') auto
qed

section \<open>The content a manager holds\<close>

definition full_path :: "file_manager \<Rightarrow> layout \<Rightarrow> string \<Rightarrow> string" where
  "full_path fm l h = path_join (fm_root fm) (layout_lookup l h)"

definition fm_content :: "file_manager \<Rightarrow> 'c dict \<Rightarrow> string \<Rightarrow> 'c option" where
  "fm_content fm fs h =
     (case find (\<lambda>l. dget fs (full_path fm l h) \<noteq> None) (fm_layouts fm) of
        None \<Rightarrow> None
      | Some l \<Rightarrow> dget fs (full_path fm l h))"

definition fm_ok :: "file_manager \<Rightarrow> bool" where
  "fm_ok fm \<longleftrightarrow> fm_root fm \<noteq> [] \<and> fm_layouts fm \<noteq> [] \<and> distinct (fm_layouts fm)"

definition unmanaged :: "file_manager \<Rightarrow> string \<Rightarrow> bool" where
  "unmanaged fm p \<longleftrightarrow> (\<forall>l h. hash_ok h \<longrightarrow> p \<noteq> full_path fm l h)"

lemma layout_hd: "hash_ok h \<Longrightarrow> \<not> starts_with (layout_lookup l h) ''/''"
proof -
  assume h: "hash_ok h"
  then obtain c r where "take 2 h = c # r" "c \<noteq> CHR ''/''"
    by (cases h) (auto simp: hash_ok_def)
  then show ?thesis
    using layout_V1 [OF h] layout_V0 [OF h] by (cases l) (auto simp: starts_with_def)
qed

lemma full_path_inj:
  assumes "hash_ok h" "hash_ok h'" "full_path fm l h = full_path fm l' h'"
  shows "h = h' \<and> l = l'"
proof -
  have "layout_lookup l h = layout_lookup l' h'"
    using assms(3) layout_hd [OF assms(1), of l] layout_hd [OF assms(2), of l']
    by (auto simp: full_path_def path_join_def split: if_splits)
  then show ?thesis using layout_inj assms(1,2) by blast
qed

lemma full_path_eq:
  "\<lbrakk>hash_ok h; hash_ok h'\<rbrakk> \<Longrightarrow> full_path fm l h = full_path fm l' h' \<longleftrightarrow> h = h' \<and> l = l'"
  using full_path_inj by blast

lemma find_cong_content:
  assumes "\<And>l. l \<in> set (fm_layouts fm) \<Longrightarrow> dget fs (full_path fm l h) = dget fs' (full_path fm l h)"
  shows "fm_content fm fs h = fm_content fm fs' h"
proof -
  have "find (\<lambda>l. dget fs (full_path fm l h) \<noteq> None) (fm_layouts fm) =
        find (\<lambda>l. dget fs' (full_path fm l h) \<noteq> None) (fm_layouts fm)"
    using assms by (intro find_cong) auto
  moreover have "find P xs = Some l \<Longrightarrow> l \<in> set xs" for P and l :: layout and xs
    by (auto simp: find_Some_iff)
  ultimately show ?thesis
    using assms unfolding fm_content_def by (auto split: option.splits)
qed

lemma content_hd:
  assumes "fm_layouts fm = l # ls" "dget fs (full_path fm l h) = Some c"
  shows "fm_content fm fs h = Some c"
  using assms by (simp add: fm_content_def)

text \<open>What \<open>__select_path\<close> finds.\<close>

lemma select_from_spec:
  "select_from fm fs h True ls (Some d) =
     (map_option (\<lambda>l. full_path fm l h) (find (\<lambda>l. dget fs (full_path fm l h) \<noteq> None) ls), Some d)"
  by (induction ls) (auto simp: Let_def full_path_def)

lemma select_path_spec:
  assumes "fm_layouts fm = l # ls"
  shows "select_path fm fs h True =
    (map_option (\<lambda>l. full_path fm l h)
       (find (\<lambda>l. dget fs (full_path fm l h) \<noteq> None) (fm_layouts fm)),
     Some (full_path fm l h))"
  using assms select_from_spec [of fm fs h ls "full_path fm l h"]
  by (auto simp: select_path_def Let_def full_path_def)

lemma content_None_find:
  "fm_content fm fs h = None \<longleftrightarrow> find (\<lambda>l. dget fs (full_path fm l h) \<noteq> None) (fm_layouts fm) = None"
  unfolding fm_content_def
  by (cases "find (\<lambda>l. dget fs (full_path fm l h) \<noteq> None) (fm_layouts fm)")
    (auto dest: find_SomeD)

lemma content_Some_find:
  assumes "fm_content fm fs h = Some c"
  obtains l where "find (\<lambda>l. dget fs (full_path fm l h) \<noteq> None) (fm_layouts fm) = Some l"
    and "dget fs (full_path fm l h) = Some c" and "l \<in> set (fm_layouts fm)"
proof (cases "find (\<lambda>l. dget fs (full_path fm l h) \<noteq> None) (fm_layouts fm)")
  case None
  then show ?thesis using assms by (simp add: fm_content_def)
next
  case (Some l)
  then show ?thesis using assms that [OF Some] find_SomeD [OF Some] by (simp add: fm_content_def)
qed

lemma fs_rename_some: "dget fs src = Some c \<Longrightarrow> \<exists>fs'. fs_rename src dst fs = Some fs'"
  by (simp add: fs_rename_def)

lemma place_some:
  "\<lbrakk>pfunc = fs_rename \<or> pfunc = fs_copyfile; dget fs src = Some c\<rbrakk> \<Longrightarrow> \<exists>fs'. pfunc src dst fs = Some fs'"
  by (auto simp: fs_rename_def fs_copyfile_def)

lemma fs_rename_get:
  assumes "fs_rename src dst fs = Some fs'"
  shows "dget fs' p = (if p = dst then dget fs src else if p = src then None else dget fs p)"
  using assms by (auto simp: fs_rename_def pydict.get_put pydict.get_del split: option.splits if_splits)

lemma fs_copyfile_get:
  assumes "fs_copyfile src dst fs = Some fs'"
  shows "dget fs' p = (if p = dst then dget fs src else dget fs p)"
  using assms by (auto simp: fs_copyfile_def pydict.get_put split: option.splits)

text \<open>Looking a file up may move it but changes no content.\<close>

lemma fm_lookup_spec:
  assumes ok: "fm_ok fm" and h: "hash_ok h"
  shows "\<exists>p fs'. fm_lookup fm fs h True = (p, fs')
    \<and> (p = None \<longleftrightarrow> fm_content fm fs h = None)
    \<and> (\<forall>q. p = Some q \<longrightarrow> dget fs' q = fm_content fm fs h)
    \<and> (\<forall>h'. hash_ok h' \<longrightarrow> fm_content fm fs' h' = fm_content fm fs h')
    \<and> (\<forall>q. unmanaged fm q \<longrightarrow> dget fs' q = dget fs q)"
proof -
  obtain l0 ls where ls: "fm_layouts fm = l0 # ls" using ok by (cases "fm_layouts fm") (auto simp: fm_ok_def)
  show ?thesis
  proof (cases "fm_content fm fs h")
    case None
    then show ?thesis
      using content_None_find [of fm fs h] by (simp add: fm_lookup_def select_path_spec [OF ls])
  next
    case (Some c)
    then obtain l where l: "find (\<lambda>l. dget fs (full_path fm l h) \<noteq> None) (fm_layouts fm) = Some l"
      "dget fs (full_path fm l h) = Some c" by (rule content_Some_find)
    show ?thesis
    proof (cases "l = l0 \<or> fm_readonly fm")
      case True
      then have "fm_lookup fm fs h True = (Some (full_path fm l h), fs)"
        using l by (auto simp: fm_lookup_def select_path_spec [OF ls])
      then show ?thesis using Some l by simp
    next
      case False
      then have ne: "full_path fm l0 h \<noteq> full_path fm l h" using full_path_eq [OF h h] by auto
      obtain fs' where r: "fs_rename (full_path fm l h) (full_path fm l0 h) fs = Some fs'"
        using fs_rename_some [OF l(2)] by blast
      note g = fs_rename_get [OF r]
      have "fm_lookup fm fs h True = (Some (full_path fm l0 h), fs')"
        using False l r ne by (simp add: fm_lookup_def select_path_spec [OF ls])
      moreover have "dget fs' (full_path fm l0 h) = Some c" using g l(2) by simp
      moreover have "fm_content fm fs' h' = fm_content fm fs h'" if "hash_ok h'" for h'
      proof (cases "h' = h")
        case True
        then show ?thesis using content_hd [OF ls] calculation(2) Some by metis
      next
        case False
        then show ?thesis using full_path_eq [OF that h] g by (intro find_cong_content) auto
      qed
      moreover have "dget fs' q = dget fs q" if "unmanaged fm q" for q
        using that h g by (auto simp: unmanaged_def)
      ultimately show ?thesis using Some by auto
    qed
  qed
qed

text \<open>Inserting and copying store the content under the name and keep the others.\<close>

lemma fm_place_spec:
  assumes ok: "fm_ok fm" and h: "hash_ok h" and rw: "\<not> fm_readonly fm"
    and src: "dget fs src = Some c" "unmanaged fm src"
    and pf: "pfunc = fs_rename \<or> pfunc = fs_copyfile"
  shows "\<exists>p fs'. fm_place pfunc fm fs h src = Inr (p, fs')
    \<and> p = full_path fm (hd (fm_layouts fm)) h \<and> dget fs' p = Some c
    \<and> fm_content fm fs' h = Some c
    \<and> (\<forall>h'. hash_ok h' \<longrightarrow> h' \<noteq> h \<longrightarrow> fm_content fm fs' h' = fm_content fm fs h')
    \<and> (pfunc = fs_rename \<longrightarrow> dget fs' src = None)"
proof -
  obtain l0 ls where ls: "fm_layouts fm = l0 # ls" using ok by (cases "fm_layouts fm") (auto simp: fm_ok_def)
  let ?d = "full_path fm l0 h"
  have sd: "src \<noteq> full_path fm l h'" if "hash_ok h'" for l h' using src(2) that by (simp add: unmanaged_def)
  have final: "dget fs2 ?d = Some c \<Longrightarrow> (\<And>p. p \<noteq> src \<Longrightarrow> (\<And>l. p \<noteq> full_path fm l h) \<Longrightarrow> dget fs2 p = dget fs p)
      \<Longrightarrow> fm_content fm fs2 h = Some c
        \<and> (\<forall>h'. hash_ok h' \<longrightarrow> h' \<noteq> h \<longrightarrow> fm_content fm fs2 h' = fm_content fm fs h')" for fs2
  proof (intro conjI allI impI)
    assume d: "dget fs2 ?d = Some c"
    show "fm_content fm fs2 h = Some c" by (rule content_hd [OF ls d])
  next
    fix h' assume g: "\<And>p. p \<noteq> src \<Longrightarrow> (\<And>l. p \<noteq> full_path fm l h) \<Longrightarrow> dget fs2 p = dget fs p"
      and h': "hash_ok h'" "h' \<noteq> h"
    show "fm_content fm fs2 h' = fm_content fm fs h'"
      using g sd [OF h'(1)] full_path_eq [OF h'(1) h] h'(2)
      by (intro find_cong_content) (metis (no_types))
  qed
  show ?thesis
  proof (cases "\<exists>l. find (\<lambda>l. dget fs (full_path fm l h) \<noteq> None) (fm_layouts fm) = Some l \<and> l \<noteq> l0")
    case False
    then have "select_path fm fs h True = (None, Some ?d) \<or> select_path fm fs h True = (Some ?d, Some ?d)"
      unfolding select_path_spec [OF ls]
      by (cases "find (\<lambda>l. dget fs (full_path fm l h) \<noteq> None) (fm_layouts fm)") auto
    moreover obtain fs2 where r: "pfunc src ?d fs = Some fs2"
      using place_some [OF pf src(1)] by blast
    ultimately have "fm_place pfunc fm fs h src = Inr (?d, fs2)"
      using rw by (auto simp: fm_place_def sbind_def Let_def)
    moreover have g: "dget fs2 ?d = Some c \<and> (\<forall>p. p \<noteq> src \<longrightarrow> p \<noteq> ?d \<longrightarrow> dget fs2 p = dget fs p)"
      using pf
    proof
      assume "pfunc = fs_rename"
      then show ?thesis using fs_rename_get [of src ?d fs fs2] r src(1) by simp
    next
      assume "pfunc = fs_copyfile"
      then show ?thesis using fs_copyfile_get [of src ?d fs fs2] r src(1) by simp
    qed
    moreover have "pfunc = fs_rename \<longrightarrow> dget fs2 src = None"
      using r fs_rename_get [of src ?d fs fs2 src] sd [OF h] by auto
    moreover have "fm_content fm fs2 h = Some c
        \<and> (\<forall>h'. hash_ok h' \<longrightarrow> h' \<noteq> h \<longrightarrow> fm_content fm fs2 h' = fm_content fm fs h')"
      by (rule final) (use g in auto)
    ultimately show ?thesis using g by (simp add: ls)
  next
    case True
    then obtain l where l: "find (\<lambda>l. dget fs (full_path fm l h) \<noteq> None) (fm_layouts fm) = Some l"
      "l \<noteq> l0" by blast
    let ?o = "full_path fm l h"
    have ne: "?o \<noteq> ?d" using full_path_eq [OF h h] l(2) by auto
    obtain fs1 where r1: "fs_rename src ?o fs = Some fs1" using fs_rename_some [OF src(1)] by blast
    have g1: "dget fs1 ?o = Some c" "dget fs1 src = None"
      using fs_rename_get [OF r1] src(1) sd [OF h] by auto
    obtain fs2 where r2: "pfunc ?o ?d fs1 = Some fs2"
      using place_some [OF pf g1(1)] by blast
    have "fm_place pfunc fm fs h src = Inr (?d, fs2)"
      using rw l r1 r2 ne by (simp add: fm_place_def sbind_def Let_def select_path_spec [OF ls])
    moreover have g2: "dget fs2 ?d = Some c"
      using pf
    proof
      assume "pfunc = fs_rename"
      then show ?thesis using fs_rename_get [of ?o ?d fs1 fs2] r2 g1(1) by simp
    next
      assume "pfunc = fs_copyfile"
      then show ?thesis using fs_copyfile_get [of ?o ?d fs1 fs2] r2 g1(1) by simp
    qed
    moreover have "dget fs2 p = dget fs p" if "p \<noteq> src" "\<And>l. p \<noteq> full_path fm l h" for p
      using pf
    proof
      assume "pfunc = fs_rename"
      then show ?thesis using r2 fs_rename_get [OF r1, of p] fs_rename_get [of ?o ?d fs1 fs2 p] that by simp
    next
      assume "pfunc = fs_copyfile"
      then show ?thesis using r2 fs_rename_get [OF r1, of p] fs_copyfile_get [of ?o ?d fs1 fs2 p] that by simp
    qed
    moreover have "pfunc = fs_rename \<longrightarrow> dget fs2 src = None"
      using r2 fs_rename_get [of ?o ?d fs1 fs2 src] g1(2) sd [OF h] by auto
    ultimately show ?thesis using final [OF g2] by (simp add: ls)
  qed
qed

lemma fold_del_get:
  "dget (fold (\<lambda>x. ddel (f x)) xs fs) p = (if p \<in> f ` set xs then None else dget fs p)"
  by (induction xs arbitrary: fs) (auto simp: pydict.get_del)

lemma fm_remove_spec:
  assumes "fm_ok fm" "hash_ok h" "\<not> fm_readonly fm"
  shows "\<exists>fs'. fm_remove fm fs h = Inr fs' \<and> fm_content fm fs' h = None
    \<and> (\<forall>h'. hash_ok h' \<longrightarrow> h' \<noteq> h \<longrightarrow> fm_content fm fs' h' = fm_content fm fs h')"
proof -
  let ?fs = "fold (\<lambda>l. ddel (full_path fm l h)) (fm_layouts fm) fs"
  note g = fold_del_get [of "\<lambda>l. full_path fm l h" "fm_layouts fm" fs]
  have "find (\<lambda>l. dget ?fs (full_path fm l h) \<noteq> None) (fm_layouts fm) = None"
    by (auto simp: find_None_iff g)
  then have "fm_content fm ?fs h = None" by (simp add: content_None_find)
  moreover have "fm_content fm ?fs h' = fm_content fm fs h'" if "hash_ok h'" "h' \<noteq> h" for h'
    using full_path_eq [OF that(1) assms(2)] that(2)
    by (intro find_cong_content) (auto simp: g)
  ultimately show ?thesis using assms(3) by (simp add: fm_remove_def full_path_def)
qed

section \<open>Walking\<close>

definition fs_managed :: "file_manager \<Rightarrow> 'c dict \<Rightarrow> bool" where
  "fs_managed fm fs \<longleftrightarrow>
     (\<forall>p. dget fs p \<noteq> None \<and> under_root fm p \<longrightarrow>
        (\<exists>l \<in> set (fm_layouts fm). \<exists>h. hash_ok h \<and> p = full_path fm l h))"

lemma layout_first: "hash_ok h \<Longrightarrow> \<exists>c r. layout_lookup l h = c # r \<and> c \<noteq> CHR ''/''"
  using layout_hd [of h l] layout_V1 [of h] layout_V0 [of h]
  by (cases "layout_lookup l h") (auto simp: starts_with_def hash_ok_def, cases l, auto)

lemma full_path_under:
  assumes "fm_root fm \<noteq> []" "hash_ok h"
  shows "under_root fm (full_path fm l h)" "rel_path fm (full_path fm l h) = layout_lookup l h"
proof -
  obtain c r where cr: "layout_lookup l h = c # r" "c \<noteq> CHR ''/''" using layout_first [OF assms(2)] by blast
  then have ns: "\<not> starts_with (layout_lookup l h) ''/''" by (simp add: starts_with_def)
  show "under_root fm (full_path fm l h)"
    using assms(1) ns cr(1) by (auto simp: under_root_def full_path_def path_join_def starts_with_def)
  show "rel_path fm (full_path fm l h) = layout_lookup l h"
    using assms(1) ns cr by (auto simp: rel_path_def full_path_def path_join_def)
qed

lemma fm_content_exists:
  "fm_content fm fs h \<noteq> None \<longleftrightarrow> (\<exists>l \<in> set (fm_layouts fm). dget fs (full_path fm l h) \<noteq> None)"
  unfolding content_None_find by (auto simp: find_None_iff)

lemma fm_walk_spec:
  assumes ok: "fm_ok fm" and man: "fs_managed fm fs"
  shows "snd (fm_walk fm fs) = None
    \<and> (\<forall>h. hash_ok h \<longrightarrow> (h \<in> set (fst (fm_walk fm fs)) \<longleftrightarrow> fm_content fm fs h \<noteq> None))"
proof -
  have root: "fm_root fm \<noteq> []" using ok by (simp add: fm_ok_def)
  let ?known = "\<lambda>fp. list_ex (\<lambda>l. layout_contains l fp (path_basename fp)) (fm_layouts fm)"
  let ?ps = "map (rel_path fm) (filter (under_root fm) (dkeys fs))"
  have mem: "fp \<in> set ?ps \<longleftrightarrow> (\<exists>l \<in> set (fm_layouts fm). \<exists>h. hash_ok h \<and> fp = layout_lookup l h
      \<and> dget fs (full_path fm l h) \<noteq> None)" for fp
  proof
    assume "fp \<in> set ?ps"
    then obtain p where k: "p \<in> set (dkeys fs)" and p2: "under_root fm p" "fp = rel_path fm p" by auto
    have p: "dget fs p \<noteq> None" "under_root fm p" "fp = rel_path fm p"
      using k p2 pydict.keys_None [of p fs] by auto
    then obtain l h where "l \<in> set (fm_layouts fm)" "hash_ok h" "p = full_path fm l h"
      using man unfolding fs_managed_def by blast
    then show "\<exists>l \<in> set (fm_layouts fm). \<exists>h. hash_ok h \<and> fp = layout_lookup l h
      \<and> dget fs (full_path fm l h) \<noteq> None" using p full_path_under(2) [OF root] by auto
  next
    assume "\<exists>l \<in> set (fm_layouts fm). \<exists>h. hash_ok h \<and> fp = layout_lookup l h
      \<and> dget fs (full_path fm l h) \<noteq> None"
    then obtain l h where lh: "hash_ok h" "fp = layout_lookup l h" "dget fs (full_path fm l h) \<noteq> None"
      by blast
    then have "full_path fm l h \<in> set (filter (under_root fm) (dkeys fs))"
      using full_path_under(1) [OF root lh(1), of l] pydict.keys_None [of "full_path fm l h" fs] by auto
    then show "fp \<in> set ?ps" using lh full_path_under(2) [OF root lh(1), of l] by (auto simp: rev_image_eqI)
  qed
  have known: "?known fp" if "fp \<in> set ?ps" for fp
    using that mem layout_basename by (fastforce simp: list_ex_iff layout_contains_def)
  then have f: "filter ?known ?ps = ?ps" "filter (\<lambda>fp. \<not> ?known fp) ?ps = []"
    by (auto simp: filter_empty_conv intro: filter_True)
  have w: "fm_walk fm fs = (map path_basename ?ps, None)"
    unfolding fm_walk_def Let_def f by simp
  have "h \<in> set (map path_basename ?ps) \<longleftrightarrow> fm_content fm fs h \<noteq> None" if h: "hash_ok h" for h
  proof
    assume "h \<in> set (map path_basename ?ps)"
    then obtain fp where "fp \<in> set ?ps" "h = path_basename fp" by auto
    then obtain l h' where "l \<in> set (fm_layouts fm)" "hash_ok h'" "fp = layout_lookup l h'"
      "dget fs (full_path fm l h') \<noteq> None" using mem by blast
    moreover from this have "h' = h" using layout_basename \<open>h = path_basename fp\<close> by simp
    ultimately show "fm_content fm fs h \<noteq> None" unfolding fm_content_exists by blast
  next
    assume "fm_content fm fs h \<noteq> None"
    then obtain l where "layout_lookup l h \<in> set ?ps" using mem h unfolding fm_content_exists by blast
    then show "h \<in> set (map path_basename ?ps)" using layout_basename [OF h, of l] by (metis image_eqI set_map)
  qed
  then show ?thesis unfolding w by simp
qed

section \<open>Properties\<close>

text \<open>
  The layouts form one injective mapping: for hashes of more than two characters without a
  slash, no path belongs to two hashes or to two layouts, and a path gives its hash back.
\<close>

lemma layouts_injective:
  assumes "hash_ok h" "hash_ok h'"
  shows "path_to_hash l (layout_lookup l h) = h
    \<and> (layout_lookup l h = layout_lookup l' h' \<longleftrightarrow> h = h' \<and> l = l')"
  using layout_basename [OF assms(1)] layout_inj [OF assms] by (auto simp: path_to_hash_def)

lemma layouts_injective_witness:
  "path_to_hash V0Layout (layout_lookup V0Layout ''0123456789abcdef'') = ''0123456789abcdef''"
proof -
  have "hash_ok ''0123456789abcdef''" by (simp add: hash_ok_def)
  from layouts_injective [OF this this] show ?thesis by blast
qed

text \<open>
  C14. The file manager is a store of contents by hash, whatever layout each file is in: inserting
  or copying a file makes its content the one of the hash, at the path of the first layout;
  looking a hash up returns a path with its content and, though it may move the file, changes the
  content of no hash; removing forgets the hash.  None of them touches other hashes.
\<close>

lemma file_manager_stores_content:
  assumes "fm_ok fm" and "hash_ok h" and "\<not> fm_readonly fm"
    and "dget fs src = Some c" and "unmanaged fm src"
  shows "(\<exists>p fs'. fm_insert fm fs h src = Inr (p, fs') \<and> dget fs' p = Some c
        \<and> p = full_path fm (hd (fm_layouts fm)) h \<and> fm_content fm fs' h = Some c
        \<and> (\<forall>h'. hash_ok h' \<and> h' \<noteq> h \<longrightarrow> fm_content fm fs' h' = fm_content fm fs h'))
    \<and> (\<exists>p fs'. fm_copy fm fs h src = Inr (p, fs') \<and> fm_content fm fs' h = Some c
        \<and> (\<forall>h'. hash_ok h' \<and> h' \<noteq> h \<longrightarrow> fm_content fm fs' h' = fm_content fm fs h'))
    \<and> (\<exists>p fs'. fm_lookup fm fs h True = (p, fs')
        \<and> (case p of None \<Rightarrow> fm_content fm fs h = None | Some q \<Rightarrow> dget fs' q = fm_content fm fs h)
        \<and> (\<forall>h'. hash_ok h' \<longrightarrow> fm_content fm fs' h' = fm_content fm fs h'))
    \<and> (\<exists>fs'. fm_remove fm fs h = Inr fs' \<and> fm_content fm fs' h = None
        \<and> (\<forall>h'. hash_ok h' \<and> h' \<noteq> h \<longrightarrow> fm_content fm fs' h' = fm_content fm fs h'))"
proof -
  have i: "\<exists>p fs'. fm_insert fm fs h src = Inr (p, fs') \<and> dget fs' p = Some c
        \<and> p = full_path fm (hd (fm_layouts fm)) h \<and> fm_content fm fs' h = Some c
        \<and> (\<forall>h'. hash_ok h' \<and> h' \<noteq> h \<longrightarrow> fm_content fm fs' h' = fm_content fm fs h')"
    using fm_place_spec [OF assms(1-5), of fs_rename] unfolding fm_insert_def by blast
  have c: "\<exists>p fs'. fm_copy fm fs h src = Inr (p, fs') \<and> fm_content fm fs' h = Some c
        \<and> (\<forall>h'. hash_ok h' \<and> h' \<noteq> h \<longrightarrow> fm_content fm fs' h' = fm_content fm fs h')"
    using fm_place_spec [OF assms(1-5), of fs_copyfile] unfolding fm_copy_def by blast
  obtain p fs' where "fm_lookup fm fs h True = (p, fs')" "p = None \<longleftrightarrow> fm_content fm fs h = None"
    "\<forall>q. p = Some q \<longrightarrow> dget fs' q = fm_content fm fs h"
    "\<forall>h'. hash_ok h' \<longrightarrow> fm_content fm fs' h' = fm_content fm fs h'"
    using fm_lookup_spec [OF assms(1,2), of fs] by (elim exE conjE)
  then have l: "\<exists>p fs'. fm_lookup fm fs h True = (p, fs')
        \<and> (case p of None \<Rightarrow> fm_content fm fs h = None | Some q \<Rightarrow> dget fs' q = fm_content fm fs h)
        \<and> (\<forall>h'. hash_ok h' \<longrightarrow> fm_content fm fs' h' = fm_content fm fs h')"
    by (intro exI conjI) (assumption, simp split: option.splits, assumption)
  have r: "\<exists>fs'. fm_remove fm fs h = Inr fs' \<and> fm_content fm fs' h = None
        \<and> (\<forall>h'. hash_ok h' \<and> h' \<noteq> h \<longrightarrow> fm_content fm fs' h' = fm_content fm fs h')"
    using fm_remove_spec [OF assms(1-3), of fs] by blast
  show ?thesis by (intro conjI) (rule i, rule c, rule l, rule r)
qed

lemma file_manager_stores_content_witness:
  "\<exists>p fs'. fm_insert \<lparr>fm_root = ''/r'', fm_readonly = False, fm_layouts = get_default_layouts\<rparr>
      [(''/tmp'', 7 :: nat)] ''0123'' ''/tmp'' = Inr (p, fs') \<and> dget fs' p = Some 7"
proof -
  let ?fm = "\<lparr>fm_root = ''/r'', fm_readonly = False, fm_layouts = get_default_layouts\<rparr>"
  have "unmanaged ?fm ''/tmp''"
    unfolding unmanaged_def full_path_def
    by (auto simp: path_join_def ends_with_def starts_with_def split: if_splits dest: layout_hd)
  then show ?thesis
    using file_manager_stores_content [of ?fm "''0123''" "[(''/tmp'', 7)]" "''/tmp''" 7]
    by (fastforce simp: fm_ok_def hash_ok_def get_default_layouts_def dget_def)
qed

text \<open>
  Walking a root whose files were all placed by the layouts yields exactly the hashes that
  have a content and reports no unrecognised file.
\<close>

lemma walk_yields_stored_hashes:
  assumes "fm_ok fm" "fs_managed fm fs" "hash_ok h"
  shows "snd (fm_walk fm fs) = None
    \<and> (h \<in> set (fst (fm_walk fm fs))) = (fm_content fm fs h \<noteq> None)"
  using fm_walk_spec [OF assms(1,2)] assms(3) by blast

lemma walk_yields_stored_hashes_witness:
  "snd (fm_walk \<lparr>fm_root = ''/r'', fm_readonly = False, fm_layouts = get_default_layouts\<rparr>
     ([] :: nat dict)) = None"
proof -
  have "hash_ok ''0123''" by (simp add: hash_ok_def)
  then show ?thesis
    by (rule walk_yields_stored_hashes [THEN conjunct1, rotated -1])
      (simp_all add: fm_ok_def fs_managed_def get_default_layouts_def)
qed

text \<open>
  Copying into a manager that holds the hash in an old layout destroys the file that was to be
  copied: it is renamed over the old location, and the old location stays beside the new one.
\<close>

lemma copy_consumes_source:
  "let fm = \<lparr>fm_root = ''r'', fm_readonly = False, fm_layouts = get_default_layouts\<rparr>;
       fs = [(''src'', 2 :: nat), (''r/ab/c/abc'', 1)]
   in fm_copy fm fs ''abc'' ''src'' = Inr (''r/ab/abc'', [(''r/ab/c/abc'', 2), (''r/ab/abc'', 2)])"
  by code_simp

end
