(* ===== verification/Pkg_CatalogPart.thy ===== *)
theory Pkg_CatalogPart
  imports Pkg_Fmri Pkg_Dict "HOL-Library.Multiset"
begin

text \<open>
  The class \<open>CatalogPart\<close> of \<open>src/src/modules/catalog.py\<close>, in memory: a
  dictionary from publisher to package name to the list of entries, one for each version.  Loading
  from and saving to a file, and the digests, are not modelled; a part is taken to be loaded.
  An entry is the version with the \<open>actions\<close> list, if any, and the rest of its dictionary.
  A time is an integer.  An exception is its class, without the name it reports.
\<close>

section \<open>State\<close>

datatype cat_exn =
    AnarchicalCatalogFMRI
  | DuplicateCatalogEntry
  | UnknownCatalogEntry
  | UnknownUpdateType
  | UnrecognizedCatalogPart
  | BadCatalogUpdateIdentity
  | ObsoleteCatalogUpdate
  | CatVersion version_exn
  | CatFmri fmri_exn
  | CatPy py_exn

record 'a centry =
  e_version :: string
  e_actions :: "string list option"
  e_data :: "'a dict"

type_synonym 'a stems = "'a centry list dict"
type_synonym 'a cdata = "'a stems dict"

record 'a cpart =
  cp_name :: string
  cp_data :: "'a cdata"
  cp_ordered :: bool
  cp_modified :: int
  cp_sigs :: "string dict"

definition part_init :: "string \<Rightarrow> bool \<Rightarrow> int \<Rightarrow> cat_exn + 'a cpart" where
  "part_init name ordered now =
     (if \<not> starts_with name ''catalog.'' \<or> CHR ''/'' \<in> set name then Inl UnrecognizedCatalogPart
      else Inr \<lparr>cp_name = name, cp_data = [], cp_ordered = ordered, cp_modified = now, cp_sigs = []\<rparr>)"

definition ver_text :: "version option \<Rightarrow> string" where
  "ver_text v = (case v of None \<Rightarrow> ''None'' | Some w \<Rightarrow> version_str w)"

definition stem_list :: "'a cdata \<Rightarrow> string \<Rightarrow> string \<Rightarrow> 'a centry list" where
  "stem_list d pub stem =
     (case dget d pub of None \<Rightarrow> []
      | Some pl \<Rightarrow> (case dget pl stem of None \<Rightarrow> [] | Some es \<Rightarrow> es))"

definition put_stem :: "string \<Rightarrow> string \<Rightarrow> 'a centry list \<Rightarrow> 'a cdata \<Rightarrow> 'a cdata" where
  "put_stem pub stem es d =
     dput pub (dput stem es (case dget d pub of None \<Rightarrow> [] | Some pl \<Rightarrow> pl)) d"

section \<open>Sorting\<close>

text \<open>
  \<open>list.sort\<close> computes all the keys first and is stable; the comparison of \<open>Version\<close> objects is
  the order of \<open>version_key\<close>.
\<close>

fun parse_versions :: "'a centry list \<Rightarrow> version_exn + (version \<times> 'a centry) list" where
  "parse_versions [] = Inr []"
| "parse_versions (e # es) =
     sbind (version_init (e_version e) None) (\<lambda>v.
     sbind (parse_versions es) (\<lambda>r. Inr ((v, e) # r)))"

definition sort_entries :: "'a centry list \<Rightarrow> version_exn + 'a centry list" where
  "sort_entries es =
     sbind (parse_versions es) (\<lambda>ps. Inr (map snd (sort_key (\<lambda>p. version_key (fst p)) ps)))"

fun sort_stems :: "'a stems \<Rightarrow> 'a stems \<times> cat_exn option" where
  "sort_stems [] = ([], None)"
| "sort_stems ((stem, es) # rest) =
     (case sort_entries es of
        Inl e \<Rightarrow> ((stem, es) # rest, Some (CatVersion e))
      | Inr es' \<Rightarrow> let (rest', x) = sort_stems rest in ((stem, es') # rest', x))"

definition pub_wanted :: "string list \<Rightarrow> string \<Rightarrow> bool" where
  "pub_wanted pubs pub \<longleftrightarrow> \<not> starts_with pub ''_'' \<and> (pubs = [] \<or> pub \<in> set pubs)"

fun sort_pubs :: "string list \<Rightarrow> 'a cdata \<Rightarrow> 'a cdata \<times> cat_exn option" where
  "sort_pubs pubs [] = ([], None)"
| "sort_pubs pubs ((pub, pl) # rest) =
     (if pub_wanted pubs pub then
        (case sort_stems pl of
           (pl', Some e) \<Rightarrow> ((pub, pl') # rest, Some e)
         | (pl', None) \<Rightarrow> let (rest', x) = sort_pubs pubs rest in ((pub, pl') # rest', x))
      else let (rest', x) = sort_pubs pubs rest in ((pub, pl) # rest', x))"

text \<open>The entries of one package, if it is in the part.\<close>

definition sort_one :: "fmri \<Rightarrow> 'a cdata \<Rightarrow> 'a cdata \<times> cat_exn option" where
  "sort_one f d =
     (case f_publisher f of
        None \<Rightarrow> (d, None)
      | Some pub \<Rightarrow>
          let es = stem_list d pub (f_name f) in
          if es = [] then (d, None)
          else case sort_entries es of
                 Inl e \<Rightarrow> (d, Some (CatVersion e))
               | Inr es' \<Rightarrow> (put_stem pub (f_name f) es' d, None))"

fun sort_fmris :: "fmri list \<Rightarrow> string list \<Rightarrow> 'a cdata \<Rightarrow> 'a cdata \<times> cat_exn option" where
  "sort_fmris [] processed d = (d, None)"
| "sort_fmris (f # fs) processed d =
     (let pkg_stem = get_pkg_stem f False True in
      if pkg_stem \<in> set processed then sort_fmris fs processed d
      else case sort_one f d of
             (d', Some e) \<Rightarrow> (d', Some e)
           | (d', None) \<Rightarrow> sort_fmris fs (pkg_stem # processed) d')"

definition part_sort ::
  "fmri list option \<Rightarrow> string list \<Rightarrow> 'a cpart \<Rightarrow> 'a cpart \<times> cat_exn option" where
  "part_sort pfmris pubs p =
     (let (d, x) = (case pfmris of Some fs \<Rightarrow> sort_fmris fs [] (cp_data p)
                    | None \<Rightarrow> sort_pubs pubs (cp_data p))
      in (p\<lparr>cp_data := d\<rparr>, x))"

section \<open>Adding, finding and removing\<close>

text \<open>
  What to add: an FMRI, or publisher, name and version.  The result is the state reached and the
  new entry or the exception; an exception of the sort leaves the entry in place.
\<close>

datatype pkg_ref = ByFmri fmri | ByParts string string string

definition ref_parts :: "pkg_ref \<Rightarrow> cat_exn + (string \<times> string \<times> string)" where
  "ref_parts ref =
     (case ref of
        ByFmri f \<Rightarrow>
          (case f_publisher f of
             Some pub \<Rightarrow>
               if pub \<noteq> [] then Inr (pub, f_name f, ver_text (f_version f))
               else Inl AnarchicalCatalogFMRI
           | None \<Rightarrow> Inl AnarchicalCatalogFMRI)
      | ByParts pub stem ver \<Rightarrow>
          if pub \<noteq> [] \<and> stem \<noteq> [] \<and> ver \<noteq> [] then Inr (pub, stem, ver) else Inl (CatPy AssertionError))"

definition part_add ::
  "pkg_ref \<Rightarrow> 'a centry option \<Rightarrow> int \<Rightarrow> bool \<Rightarrow> 'a cpart \<Rightarrow> 'a cpart \<times> (cat_exn + 'a centry)" where
  "part_add ref metadata op_time check_duplicate p =
     (case ref_parts ref of
        Inl e \<Rightarrow> (p, Inl e)
      | Inr (pub, stem, ver) \<Rightarrow>
          let ver_list = stem_list (cp_data p) pub stem in
          if check_duplicate \<and> list_ex (\<lambda>e. e_version e = ver) ver_list
          then (p, Inl DuplicateCatalogEntry)
          else
            let entry = (case metadata of
                           None \<Rightarrow> \<lparr>e_version = ver, e_actions = None, e_data = []\<rparr>
                         | Some m \<Rightarrow> m\<lparr>e_version := ver\<rparr>);
                p1 = p\<lparr>cp_data := put_stem pub stem (ver_list @ [entry]) (cp_data p)\<rparr>;
                (p2, x) = (if cp_ordered p then
                             (case ref of
                                ByFmri f \<Rightarrow> part_sort (Some [f]) [] p1
                              | ByParts _ _ _ \<Rightarrow> (p1, Some (CatPy AttributeError)))
                           else (p1, None))
            in case x of
                 Some e \<Rightarrow> (p2, Inl e)
               | None \<Rightarrow> (p2\<lparr>cp_modified := op_time, cp_sigs := []\<rparr>, Inr entry))"

definition part_get_entry :: "pkg_ref \<Rightarrow> 'a cpart \<Rightarrow> cat_exn + 'a centry option" where
  "part_get_entry ref p =
     sbind (ref_parts ref) (\<lambda>(pub, stem, ver).
       Inr (find (\<lambda>e. e_version e = ver) (stem_list (cp_data p) pub stem)))"

definition get_stem_entries :: "string \<Rightarrow> string \<Rightarrow> 'a cpart \<Rightarrow> 'a centry list" where
  "get_stem_entries pub stem p = stem_list (cp_data p) pub stem"

text \<open>The first entry of the version goes, and then an empty stem and an empty publisher.\<close>

fun remove_version :: "string \<Rightarrow> 'a centry list \<Rightarrow> 'a centry list" where
  "remove_version ver [] = []"
| "remove_version ver (e # es) = (if e_version e = ver then es else e # remove_version ver es)"

definition part_remove :: "fmri \<Rightarrow> int \<Rightarrow> 'a cpart \<Rightarrow> cat_exn + 'a cpart" where
  "part_remove f op_time p =
     (case f_publisher f of
        None \<Rightarrow> Inl AnarchicalCatalogFMRI
      | Some pub \<Rightarrow>
          if pub = [] then Inl AnarchicalCatalogFMRI
          else case dget (cp_data p) pub of
            None \<Rightarrow> Inl UnknownCatalogEntry
          | Some pl \<Rightarrow>
              let ver = ver_text (f_version f); ver_list = stem_list (cp_data p) pub (f_name f) in
              if list_ex (\<lambda>e. e_version e = ver) ver_list then
                let es = remove_version ver ver_list;
                    pl' = (if es = [] then ddel (f_name f) pl else dput (f_name f) es pl);
                    d' = (if pl' = [] then ddel pub (cp_data p) else dput pub pl' (cp_data p))
                in Inr (p\<lparr>cp_data := d', cp_modified := op_time, cp_sigs := []\<rparr>)
              else Inl UnknownCatalogEntry)"

definition part_destroy :: "'a cpart \<Rightarrow> 'a cpart" where
  "part_destroy p = p\<lparr>cp_data := [], cp_sigs := []\<rparr>"

section \<open>Iteration\<close>

definition part_publishers :: "string list \<Rightarrow> 'a cpart \<Rightarrow> string list" where
  "part_publishers pubs p = filter (pub_wanted pubs) (dkeys (cp_data p))"

definition pub_stems :: "'a cpart \<Rightarrow> string \<Rightarrow> string list" where
  "pub_stems p pub = (case dget (cp_data p) pub of None \<Rightarrow> [] | Some pl \<Rightarrow> dkeys pl)"

definition part_names :: "string list \<Rightarrow> 'a cpart \<Rightarrow> string set" where
  "part_names pubs p = (\<Union>pub \<in> set (part_publishers pubs p). set (pub_stems p pub))"

text \<open>\<open>pkg_names\<close> sorts the texts \<open>stem!pub\<close>, or by stem and the position of the publisher.\<close>

definition split_bang :: "string \<Rightarrow> string \<times> string" where
  "split_bang s = (case py_find CHR ''!'' s of
     None \<Rightarrow> (s, []) | Some i \<Rightarrow> (take i s, drop (Suc i) s))"

fun last_pos :: "string \<Rightarrow> string list \<Rightarrow> nat \<Rightarrow> nat" where
  "last_pos x [] i = 0"
| "last_pos x (y # ys) i = (if x \<notin> set ys \<and> x = y then i else last_pos x ys (Suc i))"

definition part_pkg_names :: "string list \<Rightarrow> 'a cpart \<Rightarrow> (string \<times> string) list" where
  "part_pkg_names pubs p =
     (let pkg_list = concat (map (\<lambda>pub. map (\<lambda>stem. stem @ ''!'' @ pub) (pub_stems p pub))
                               (part_publishers pubs p));
          sorted = (if pubs = [] then sort pkg_list
                    else sort_key (\<lambda>a. let (astem, apub) = split_bang a
                                       in (astem, last_pos apub pubs 0)) pkg_list)
      in map (\<lambda>a. let (stem, pub) = split_bang a in (pub, stem)) sorted)"

fun take_last :: "'a cpart \<Rightarrow> (string \<times> string) list
    \<Rightarrow> cat_exn + (string \<times> string \<times> 'a centry) list" where
  "take_last p [] = Inr []"
| "take_last p ((pub, stem) # rest) =
     (let es = stem_list (cp_data p) pub stem in
      if es = [] then Inl (CatPy IndexError)
      else sbind (take_last p rest) (\<lambda>r. Inr ((pub, stem, last es) # r)))"

definition iter_entries ::
  "bool \<Rightarrow> bool \<Rightarrow> string list \<Rightarrow> 'a cpart \<Rightarrow> cat_exn + (string \<times> string \<times> 'a centry) list" where
  "iter_entries last_only ordered pubs p =
     (let stems = (if ordered then part_pkg_names pubs p
                   else concat (map (\<lambda>pub. map (Pair pub) (pub_stems p pub)) (part_publishers pubs p)))
      in if last_only then take_last p stems
         else Inr (concat (map (\<lambda>(pub, stem).
                let es = stem_list (cp_data p) pub stem
                in map (\<lambda>e. (pub, stem, e)) (if ordered then rev es else es)) stems)))"

definition part_tuples ::
  "bool \<Rightarrow> bool \<Rightarrow> string list \<Rightarrow> 'a cpart \<Rightarrow> cat_exn + (string \<times> string \<times> string) list" where
  "part_tuples last_only ordered pubs p =
     map_sum id (map (\<lambda>(pub, stem, e). (pub, stem, e_version e))) (iter_entries last_only ordered pubs p)"

definition part_tuple_entries ::
  "(string \<times> string \<times> string \<Rightarrow> 'a centry \<Rightarrow> bool) \<Rightarrow> bool \<Rightarrow> bool \<Rightarrow> string list \<Rightarrow> 'a cpart
     \<Rightarrow> cat_exn + ((string \<times> string \<times> string) \<times> 'a centry) list" where
  "part_tuple_entries cb last_only ordered pubs p =
     map_sum id (\<lambda>l. filter (\<lambda>(t, e). cb t e) (map (\<lambda>(pub, stem, e). ((pub, stem, e_version e), e)) l))
       (iter_entries last_only ordered pubs p)"

fun make_fmris :: "(string \<times> string \<times> 'a centry) list \<Rightarrow> cat_exn + (fmri \<times> 'a centry) list" where
  "make_fmris [] = Inr []"
| "make_fmris ((pub, stem, e) # rest) =
     (case fmri_make (Some stem) (Some (e_version e)) None (Some pub) of
        Inl x \<Rightarrow> Inl (CatFmri x)
      | Inr f \<Rightarrow> sbind (make_fmris rest) (\<lambda>r. Inr ((f, e) # r)))"

definition part_entries ::
  "(fmri \<Rightarrow> 'a centry \<Rightarrow> bool) \<Rightarrow> bool \<Rightarrow> bool \<Rightarrow> string list \<Rightarrow> 'a cpart
     \<Rightarrow> cat_exn + (fmri \<times> 'a centry) list" where
  "part_entries cb last_only ordered pubs p =
     sbind (iter_entries last_only ordered pubs p) (\<lambda>l. map_sum id (filter (\<lambda>(f, e). cb f e)) (make_fmris l))"

definition get_package_counts :: "'a cpart \<Rightarrow> nat \<times> nat" where
  "get_package_counts p =
     fold (\<lambda>pub (n, m). fold (\<lambda>stem (n, m). (n + 1, m + length (stem_list (cp_data p) pub stem)))
             (pub_stems p pub) (n, m))
       (part_publishers [] p) (0, 0)"

definition get_package_counts_by_pub :: "string list \<Rightarrow> 'a cpart \<Rightarrow> (string \<times> nat \<times> nat) list" where
  "get_package_counts_by_pub pubs p =
     map (\<lambda>pub. (pub, fold (\<lambda>stem (n, m). (n + 1, m + length (stem_list (cp_data p) pub stem)))
                    (pub_stems p pub) (0, 0)))
       (part_publishers pubs p)"

section \<open>Sorting a list of entries\<close>

definition entry_ok :: "'a centry \<Rightarrow> bool" where
  "entry_ok e \<longleftrightarrow> (case version_init (e_version e) None of Inr v \<Rightarrow> True | Inl x \<Rightarrow> False)"

definition ekey :: "'a centry \<Rightarrow> int list \<times> int list option \<times> string option" where
  "ekey e = version_key (projr (version_init (e_version e) None))"

lemma parse_versions_ok:
  assumes "\<forall>e \<in> set es. entry_ok e"
  shows "parse_versions es = Inr (map (\<lambda>e. (projr (version_init (e_version e) None), e)) es)"
  using assms by (induction es) (auto simp: entry_ok_def sbind_def split: sum.splits)

lemma insort_pairs:
  "insort_key (\<lambda>p. h (fst p)) (g x, x) (map (\<lambda>e. (g e, e)) es) =
     map (\<lambda>e. (g e, e)) (insort_key (\<lambda>e. h (g e)) x es)"
  by (induction es) auto

lemma sort_pairs:
  "sort_key (\<lambda>p. h (fst p)) (map (\<lambda>e. (g e, e)) es) =
     map (\<lambda>e. (g e, e)) (sort_key (\<lambda>e. h (g e)) es)"
  by (induction es) (simp_all add: insort_pairs)

lemma sort_entries_ok:
  assumes "\<forall>e \<in> set es. entry_ok e"
  shows "sort_entries es = Inr (sort_key ekey es)"
  unfolding sort_entries_def parse_versions_ok [OF assms] sbind_def ekey_def [abs_def]
  using sort_pairs [of version_key "\<lambda>e. projr (version_init (e_version e) None)" es]
  by (simp add: o_def)

lemma sort_entries_fails:
  "\<not> (\<forall>e \<in> set es. entry_ok e) \<Longrightarrow> \<exists>x. sort_entries es = Inl x"
proof -
  assume "\<not> (\<forall>e \<in> set es. entry_ok e)"
  then have "\<exists>x. parse_versions es = Inl x"
    by (induction es) (auto simp: entry_ok_def sbind_def split: sum.splits)
  then show ?thesis by (auto simp: sort_entries_def sbind_def)
qed

section \<open>Invariant\<close>

definition list_ok :: "bool \<Rightarrow> 'a centry list \<Rightarrow> bool" where
  "list_ok ordered es \<longleftrightarrow> distinct (map e_version es) \<and> (\<forall>e \<in> set es. entry_ok e)
     \<and> (ordered \<longrightarrow> sorted (map ekey es))"

definition data_ok :: "'a cdata \<Rightarrow> bool" where
  "data_ok d \<longleftrightarrow> dict_ok d \<and> (\<forall>pub pl. dget d pub = Some pl \<longrightarrow>
     pl \<noteq> [] \<and> dict_ok pl \<and> (\<forall>stem es. dget pl stem = Some es \<longrightarrow> es \<noteq> []))"

definition part_ok :: "'a cpart \<Rightarrow> bool" where
  "part_ok p \<longleftrightarrow> data_ok (cp_data p) \<and> (\<forall>pub stem. list_ok (cp_ordered p) (stem_list (cp_data p) pub stem))"

text \<open>The abstract content: a map from publisher, name and version to the entry.\<close>

definition part_map :: "'a cpart \<Rightarrow> string \<times> string \<times> string \<Rightarrow> 'a centry option" where
  "part_map p = (\<lambda>(pub, stem, ver). find (\<lambda>e. e_version e = ver) (stem_list (cp_data p) pub stem))"

lemma part_init_ok: "part_init name ordered now = Inr p \<Longrightarrow> part_ok p \<and> part_map p = Map.empty"
  by (auto simp: part_init_def part_ok_def data_ok_def list_ok_def stem_list_def part_map_def fun_eq_iff
      split: if_splits)

lemma stem_list_put:
  "stem_list (put_stem pub stem es d) p s = (if p = pub \<and> s = stem then es else stem_list d p s)"
  by (auto simp: stem_list_def put_stem_def pydict.get_put split: option.splits)

lemma put_stem_ok:
  assumes "data_ok d" "es \<noteq> []"
  shows "data_ok (put_stem pub stem es d)"
  using assms unfolding data_ok_def put_stem_def
  by (auto simp: pydict.ok_put pydict.get_put dput_nonempty split: option.splits if_splits)

lemma find_version:
  assumes "distinct (map e_version es)"
  shows "find (\<lambda>e. e_version e = v) es = Some e \<longleftrightarrow> e \<in> set es \<and> e_version e = v"
  using assms by (induction es) (auto simp: image_iff)

lemma find_version_None: "find (\<lambda>e. e_version e = v) es = None \<longleftrightarrow> v \<notin> e_version ` set es"
  by (auto simp: find_None_iff)

lemma find_version_set:
  assumes "distinct (map e_version es)" "distinct (map e_version es')" "set es = set es'"
  shows "find (\<lambda>e. e_version e = v) es = find (\<lambda>e. e_version e = v) es'"
proof (cases "find (\<lambda>e. e_version e = v) es")
  case None
  then show ?thesis using assms(3) find_version_None [of v es] find_version_None [of v es'] by auto
next
  case (Some e)
  then show ?thesis using assms find_version [of es v e] find_version [of es' v e] by auto
qed

section \<open>Adding\<close>

definition new_entry :: "'a centry option \<Rightarrow> string \<Rightarrow> 'a centry" where
  "new_entry metadata ver =
     (case metadata of None \<Rightarrow> \<lparr>e_version = ver, e_actions = None, e_data = []\<rparr>
      | Some m \<Rightarrow> m\<lparr>e_version := ver\<rparr>)"

lemma new_entry_version [simp]: "e_version (new_entry m ver) = ver"
  by (simp add: new_entry_def split: option.splits)

lemma sort_one_put:
  assumes "f_publisher f = Some pub" and "es \<noteq> []" and "stem_list d pub (f_name f) = es"
    and "\<forall>e \<in> set es. entry_ok e"
  shows "sort_one f d = (put_stem pub (f_name f) (sort_key ekey es) d, None)"
  using assms by (simp add: sort_one_def Let_def sort_entries_ok)

lemma put_stem_twice: "put_stem pub stem b (put_stem pub stem a d) = put_stem pub stem b d"
  by (simp add: put_stem_def pydict.get_put dput_twice split: option.splits)

lemma distinct_insort_key: "distinct (map f (sort_key k es)) = distinct (map f es)"
proof -
  have "mset (map f (sort_key k es)) = mset (map f es)" by simp
  then show ?thesis by (rule mset_eq_imp_distinct_iff)
qed

lemma find_append_single:
  "find P (xs @ [x]) =
     (case find P xs of Some y \<Rightarrow> Some y | None \<Rightarrow> if P x then Some x else None)"
  by (induction xs) auto

lemma part_add_ok:
  assumes ok: "part_ok p" and ref: "ref_parts ref = Inr (pub, stem, ver)"
    and fresh: "part_map p (pub, stem, ver) = None"
    and ver: "version_init ver None = Inr v"
    and byf: "cp_ordered p \<Longrightarrow> \<exists>f. ref = ByFmri f"
  shows "\<exists>p'. part_add ref m t chk p = (p', Inr (new_entry m ver)) \<and> part_ok p'
    \<and> part_map p' = (part_map p)((pub, stem, ver) \<mapsto> new_entry m ver)
    \<and> cp_modified p' = t \<and> cp_sigs p' = [] \<and> cp_ordered p' = cp_ordered p \<and> cp_name p' = cp_name p"
proof -
  let ?e = "new_entry m ver" and ?old = "stem_list (cp_data p) pub stem"
  let ?es = "?old @ [?e]"
  define es where "es = (if cp_ordered p then sort_key ekey ?es else ?es)"
  define p' where "p' = p\<lparr>cp_data := put_stem pub stem es (cp_data p), cp_modified := t, cp_sigs := []\<rparr>"
  have lo: "list_ok (cp_ordered p) ?old" using ok by (simp add: part_ok_def)
  have nodup: "\<not> list_ex (\<lambda>e. e_version e = ver) ?old"
    using fresh by (auto simp: part_map_def find_None_iff list_ex_iff)
  have all: "\<forall>e \<in> set ?es. entry_ok e" using lo ver by (auto simp: list_ok_def entry_ok_def)
  have dist: "distinct (map e_version ?es)"
    using lo nodup by (auto simp: list_ok_def list_ex_iff)
  have add: "part_add ref m t chk p = (p', Inr ?e)"
  proof (cases "cp_ordered p")
    case True
    then obtain f where f: "ref = ByFmri f" using byf by blast
    then have fp: "f_publisher f = Some pub" "f_name f = stem"
      using ref by (auto simp: ref_parts_def split: option.splits if_splits)
    have "part_sort (Some [f]) [] (p\<lparr>cp_data := put_stem pub stem ?es (cp_data p)\<rparr>) =
        (p\<lparr>cp_data := put_stem pub stem (sort_key ekey ?es) (cp_data p)\<rparr>, None)"
      using sort_one_put [OF fp(1), of ?es "put_stem pub stem ?es (cp_data p)"] all fp(2)
      by (simp add: part_sort_def Let_def stem_list_put put_stem_twice)
    then show ?thesis
      using ref nodup True f
      by (simp add: part_add_def Let_def new_entry_def [symmetric] p'_def es_def)
  next
    case False
    then show ?thesis
      using ref nodup by (simp add: part_add_def Let_def new_entry_def [symmetric] p'_def es_def)
  qed
  have "length es = length ?es" by (simp add: es_def)
  then have es: "set es = set ?es" "distinct (map e_version es)" "es \<noteq> []"
    using dist by (auto simp: es_def distinct_insort_key)
  have "list_ok (cp_ordered p) es"
    using es(1,2) all by (auto simp: list_ok_def es_def)
  then have "part_ok p'"
    using ok es(3) put_stem_ok by (auto simp: part_ok_def p'_def stem_list_put)
  moreover have "part_map p' = (part_map p)((pub, stem, ver) \<mapsto> ?e)"
  proof (rule ext, clarify)
    fix a b c
    show "part_map p' (a, b, c) = ((part_map p)((pub, stem, ver) \<mapsto> ?e)) (a, b, c)"
    proof (cases "a = pub \<and> b = stem")
      case True
      have "find (\<lambda>e. e_version e = c) es = find (\<lambda>e. e_version e = c) ?es"
        by (rule find_version_set) (use es dist in auto)
      moreover have "find (\<lambda>e. e_version e = c) ?es =
          (case find (\<lambda>e. e_version e = c) ?old of Some e \<Rightarrow> Some e
           | None \<Rightarrow> if ver = c then Some ?e else None)"
        by (simp add: find_append_single)
      ultimately show ?thesis
        using True fresh by (auto simp: part_map_def p'_def stem_list_put split: option.splits)
    next
      case False
      then show ?thesis by (auto simp: part_map_def p'_def stem_list_put)
    qed
  qed
  ultimately show ?thesis using add by (auto simp: p'_def)
qed

lemma part_add_duplicate:
  assumes "ref_parts ref = Inr (pub, stem, ver)" and "part_map p (pub, stem, ver) \<noteq> None"
  shows "part_add ref m t True p = (p, Inl DuplicateCatalogEntry)"
proof -
  have "list_ex (\<lambda>e. e_version e = ver) (stem_list (cp_data p) pub stem)"
    using assms(2) by (auto simp: part_map_def list_ex_iff find_None_iff)
  then show ?thesis using assms(1) by (simp add: part_add_def Let_def)
qed

lemma part_get_entry_map:
  "ref_parts ref = Inr k \<Longrightarrow> part_get_entry ref p = Inr (part_map p k)"
  by (cases k) (simp add: part_get_entry_def sbind_def part_map_def)

section \<open>Removing\<close>

lemma remove_version_set: "set (remove_version v es) \<subseteq> set es"
  by (induction es) auto

lemma remove_version_mem:
  "distinct (map e_version es) \<Longrightarrow> set (remove_version v es) = {e \<in> set es. e_version e \<noteq> v}"
  by (induction es) (auto simp: image_iff)

lemma remove_version_distinct:
  "distinct (map e_version es) \<Longrightarrow> distinct (map e_version (remove_version v es))"
proof (induction es)
  case (Cons e es)
  then show ?case using remove_version_set [of v es] by auto
qed simp

lemma remove_version_sorted: "sorted (map ekey es) \<Longrightarrow> sorted (map ekey (remove_version v es))"
proof (induction es)
  case (Cons e es)
  then show ?case using remove_version_set [of v es] by auto
qed simp

lemma remove_version_find:
  assumes "distinct (map e_version es)"
  shows "find (\<lambda>e. e_version e = w) (remove_version v es) =
    (if w = v then None else find (\<lambda>e. e_version e = w) es)"
proof (cases "w = v")
  case True
  then show ?thesis using remove_version_mem [OF assms, of v] by (auto simp: find_version_None)
next
  case False
  then show ?thesis by (induction es) auto
qed

lemma dget_in: "dget d k = Some v \<Longrightarrow> (k, v) \<in> set d"
  unfolding dget_def by (rule map_of_SomeD)

lemma part_remove_ok:
  assumes ok: "part_ok p" and f: "f_publisher f = Some pub" "pub \<noteq> []"
    and has: "part_map p (pub, f_name f, ver_text (f_version f)) \<noteq> None"
  shows "\<exists>p'. part_remove f t p = Inr p' \<and> part_ok p'
    \<and> part_map p' = (part_map p)((pub, f_name f, ver_text (f_version f)) := None)
    \<and> cp_modified p' = t \<and> cp_ordered p' = cp_ordered p \<and> cp_name p' = cp_name p"
proof -
  let ?d = "cp_data p" and ?stem = "f_name f" and ?ver = "ver_text (f_version f)"
  let ?old = "stem_list ?d pub ?stem"
  let ?es = "remove_version ?ver ?old"
  have lo: "list_ok (cp_ordered p) ?old" using ok by (simp add: part_ok_def)
  then have dist: "distinct (map e_version ?old)" by (simp add: list_ok_def)
  have ex: "list_ex (\<lambda>e. e_version e = ?ver) ?old"
    using has by (auto simp: part_map_def list_ex_iff find_None_iff)
  then obtain pl where pl: "dget ?d pub = Some pl" "dget pl ?stem = Some ?old"
    by (auto simp: stem_list_def split: option.splits)
  have dok: "data_ok ?d" using ok by (simp add: part_ok_def)
  have plok: "pl \<noteq> []" "dict_ok pl" "\<And>s es. dget pl s = Some es \<Longrightarrow> es \<noteq> []"
    using dok pl(1) by (auto simp: data_ok_def)
  define pl' where "pl' = (if ?es = [] then ddel ?stem pl else dput ?stem ?es pl)"
  define d' where "d' = (if pl' = [] then ddel pub ?d else dput pub pl' ?d)"
  define p' where "p' = p\<lparr>cp_data := d', cp_modified := t, cp_sigs := []\<rparr>"
  have rm: "part_remove f t p = Inr p'"
    using f pl ex by (simp add: part_remove_def Let_def p'_def d'_def pl'_def)
  have gpl: "dget pl' s = (if s = ?stem then if ?es = [] then None else Some ?es else dget pl s)" for s
    by (simp add: pl'_def pydict.get_put pydict.get_del)
  have sl: "stem_list d' a b = (if a = pub \<and> b = ?stem then ?es else stem_list ?d a b)" for a b
  proof (cases "a = pub")
    case False
    then show ?thesis by (auto simp: stem_list_def d'_def pydict.get_put pydict.get_del)
  next
    case True
    show ?thesis
    proof (cases "pl' = []")
      case e: True
      then have "dget pl' b = None" by simp
      then have "(b = ?stem \<longrightarrow> ?es = []) \<and> (b \<noteq> ?stem \<longrightarrow> dget pl b = None)"
        unfolding gpl by (auto split: if_splits)
      then show ?thesis using True e pl(1)
        by (auto simp: stem_list_def d'_def pydict.get_del)
    next
      case False
      then show ?thesis using True pl(1)
        by (auto simp: stem_list_def d'_def pydict.get_put gpl)
    qed
  qed
  have "data_ok d'"
    unfolding data_ok_def
  proof (intro conjI allI impI)
    show "dict_ok d'" using dok by (simp add: d'_def data_ok_def pydict.ok_put pydict.ok_del)
  next
    fix a x assume x: "dget d' a = Some x"
    have cs: "a = pub \<and> pl' \<noteq> [] \<and> x = pl' \<or> a \<noteq> pub \<and> dget ?d a = Some x"
      using x by (auto simp: d'_def pydict.get_put pydict.get_del split: if_splits)
    then show "x \<noteq> []" using dok by (auto simp: data_ok_def)
    show "dict_ok x" using cs dok plok(2)
      by (auto simp: data_ok_def pl'_def pydict.ok_put pydict.ok_del)
    fix s es assume "dget x s = Some es"
    note xs = this
    from cs show "es \<noteq> []"
    proof (elim disjE conjE)
      assume "x = pl'"
      then show ?thesis using xs gpl [of s] plok(3) by (auto split: if_splits)
    next
      assume "dget ?d a = Some x"
      then show ?thesis using xs dok unfolding data_ok_def by blast
    qed
  qed
  moreover have "list_ok (cp_ordered p) ?es"
    using lo remove_version_set [of ?ver ?old] remove_version_distinct [OF dist]
      remove_version_sorted [of ?old] by (auto simp: list_ok_def)
  ultimately have "part_ok p'" using ok by (simp add: part_ok_def p'_def sl)
  moreover have "part_map p' = (part_map p)((pub, ?stem, ?ver) := None)"
    using remove_version_find [OF dist] by (auto simp: part_map_def p'_def sl fun_eq_iff)
  ultimately show ?thesis using rm by (simp add: p'_def)
qed

lemma part_remove_unknown:
  assumes "f_publisher f = Some pub" "pub \<noteq> []"
    and "part_map p (pub, f_name f, ver_text (f_version f)) = None"
  shows "part_remove f t p = Inl UnknownCatalogEntry"
proof -
  have "\<not> list_ex (\<lambda>e. e_version e = ver_text (f_version f)) (stem_list (cp_data p) pub (f_name f))"
    using assms(3) by (auto simp: part_map_def find_None_iff list_ex_iff)
  then show ?thesis using assms(1,2) by (simp add: part_remove_def Let_def split: option.splits)
qed

section \<open>Counting\<close>

definition part_triples :: "'a cpart \<Rightarrow> (string \<times> string \<times> string) list" where
  "part_triples p = concat (map (\<lambda>(pub, stem).
     map (\<lambda>e. (pub, stem, e_version e)) (stem_list (cp_data p) pub stem))
     (concat (map (\<lambda>pub. map (Pair pub) (pub_stems p pub)) (part_publishers [] p))))"

lemma fold_count:
  "fold (\<lambda>stem (n, m). (Suc n, m + f stem)) ss (n, m) = (n + length ss, m + sum_list (map f ss) :: nat)"
  by (induction ss arbitrary: n m) auto

lemma fold_counts:
  "fold (\<lambda>pub (n, m). fold (\<lambda>stem (n, m). (n + 1, m + f pub stem)) (g pub) (n, m)) ps (n, m) =
     (n + length (concat (map (\<lambda>pub. map (Pair pub) (g pub)) ps)),
      m + sum_list (map (\<lambda>(pub, stem). f pub stem) (concat (map (\<lambda>pub. map (Pair pub) (g pub)) ps))) :: nat)"
proof (induction ps arbitrary: n m)
  case Nil
  then show ?case by simp
next
  case (Cons p ps)
  then show ?case by (simp add: fold_count comp_def)
qed

lemma get_package_counts_eq:
  "get_package_counts p =
     (length (concat (map (\<lambda>pub. map (Pair pub) (pub_stems p pub)) (part_publishers [] p))),
      length (part_triples p))"
proof -
  have "length (part_triples p) = sum_list (map (\<lambda>(pub, stem). length (stem_list (cp_data p) pub stem))
      (concat (map (\<lambda>pub. map (Pair pub) (pub_stems p pub)) (part_publishers [] p))))"
    unfolding part_triples_def length_concat map_map
    by (intro arg_cong [where f = sum_list] map_cong) auto
  then show ?thesis unfolding get_package_counts_def fold_counts by simp
qed

lemma part_stems_distinct:
  assumes "part_ok p"
  shows "distinct (concat (map (\<lambda>pub. map (Pair pub) (pub_stems p pub)) (part_publishers [] p)))"
proof (rule distinct_concat)
  have d: "data_ok (cp_data p)" using assms by (simp add: part_ok_def)
  then have "distinct (part_publishers [] p)"
    using pydict.ok_keys [of "cp_data p"] by (simp add: part_publishers_def data_ok_def)
  moreover have "inj_on (\<lambda>pub. map (Pair pub) (pub_stems p pub)) (set (part_publishers [] p))"
  proof (rule inj_onI)
    fix a b assume ab: "a \<in> set (part_publishers [] p)"
      and e: "map (Pair a) (pub_stems p a) = map (Pair b) (pub_stems p b)"
    from ab obtain pl where "dget (cp_data p) a = Some pl"
      by (auto simp: part_publishers_def pydict.keys_get)
    then have "pub_stems p a \<noteq> []" using d by (cases pl) (auto simp: pub_stems_def data_ok_def dkeys_def)
    then show "a = b" using e by (cases "pub_stems p a"; cases "pub_stems p b") auto
  qed
  ultimately show "distinct (map (\<lambda>pub. map (Pair pub) (pub_stems p pub)) (part_publishers [] p))"
    by (simp add: distinct_map)
  fix ys assume "ys \<in> set (map (\<lambda>pub. map (Pair pub) (pub_stems p pub)) (part_publishers [] p))"
  then obtain pub where ys: "ys = map (Pair pub) (pub_stems p pub)" by auto
  have "distinct (pub_stems p pub)"
    using d pydict.ok_keys by (auto simp: pub_stems_def data_ok_def split: option.splits)
  then show "distinct ys" unfolding ys by (simp add: distinct_map inj_on_def)
next
  fix ys zs
  assume "ys \<in> set (map (\<lambda>pub. map (Pair pub) (pub_stems p pub)) (part_publishers [] p))"
    "zs \<in> set (map (\<lambda>pub. map (Pair pub) (pub_stems p pub)) (part_publishers [] p))" "ys \<noteq> zs"
  then show "set ys \<inter> set zs = {}" by auto
qed

lemma part_stems_set:
  assumes "part_ok p" "\<forall>pub. dget (cp_data p) pub \<noteq> None \<longrightarrow> \<not> starts_with pub ''_''"
  shows "set (concat (map (\<lambda>pub. map (Pair pub) (pub_stems p pub)) (part_publishers [] p))) =
    {(pub, stem). stem_list (cp_data p) pub stem \<noteq> []}"
proof -
  have d: "data_ok (cp_data p)" using assms(1) by (simp add: part_ok_def)
  have "stem_list (cp_data p) a b \<noteq> [] \<longleftrightarrow>
      (\<exists>pl. dget (cp_data p) a = Some pl \<and> dget pl b \<noteq> None)" for a b
    using d by (auto simp: stem_list_def data_ok_def split: option.splits)
  moreover have "(a, b) \<in> set (concat (map (\<lambda>pub. map (Pair pub) (pub_stems p pub)) (part_publishers [] p)))
      \<longleftrightarrow> a \<in> set (part_publishers [] p) \<and> b \<in> set (pub_stems p a)" for a b
    by auto
  moreover have "a \<in> set (part_publishers [] p) \<and> b \<in> set (pub_stems p a) \<longleftrightarrow>
      (\<exists>pl. dget (cp_data p) a = Some pl \<and> dget pl b \<noteq> None)" for a b
    using assms(2)
    by (auto simp: part_publishers_def pub_wanted_def pub_stems_def pydict.keys_get domIff
        split: option.splits)
  ultimately show ?thesis by (auto simp del: set_concat)
qed

lemma set_concat_map: "set (concat (map f xs)) = (\<Union>x \<in> set xs. set (f x))"
  by simp

lemma part_triples_facts:
  assumes ok: "part_ok p" and pubs: "\<forall>pub. dget (cp_data p) pub \<noteq> None \<longrightarrow> \<not> starts_with pub ''_''"
  shows "distinct (part_triples p)" "set (part_triples p) = dom (part_map p)"
proof -
  let ?ps = "concat (map (\<lambda>pub. map (Pair pub) (pub_stems p pub)) (part_publishers [] p))"
  note dd = part_stems_distinct [OF ok] and ss = part_stems_set [OF assms]
  have lo: "distinct (map e_version (stem_list (cp_data p) a b))" for a b
    using ok by (simp add: part_ok_def list_ok_def)
  let ?f = "\<lambda>(pub, stem). map (\<lambda>e. (pub, stem, e_version e)) (stem_list (cp_data p) pub stem)"
  have fst: "x \<in> set (?f q) \<Longrightarrow> (fst x, fst (snd x)) = q" for x q by (cases q) auto
  show "distinct (part_triples p)"
    unfolding part_triples_def
  proof (rule distinct_concat)
    have "inj_on ?f (set ?ps)"
    proof (rule inj_onI)
      fix q r assume q: "q \<in> set ?ps" and e: "?f q = ?f r"
      have "stem_list (cp_data p) (fst q) (snd q) \<noteq> []" using q unfolding ss by auto
      then obtain e where "e \<in> set (stem_list (cp_data p) (fst q) (snd q))"
        by (meson last_in_set)
      then have "(fst q, snd q, e_version e) \<in> set (?f q)" by (cases q) auto
      then obtain x where "x \<in> set (?f q)" by blast
      moreover from this have "x \<in> set (?f r)" unfolding e .
      ultimately show "q = r" using fst [of x q] fst [of x r] by (simp only:)
    qed
    then show "distinct (map ?f ?ps)" using dd by (simp add: distinct_map)
  next
    fix ys assume "ys \<in> set (map ?f ?ps)"
    then obtain a b where "ys = ?f (a, b)" by auto
    moreover have "distinct (map (Pair a \<circ> Pair b) (map e_version (stem_list (cp_data p) a b)))"
      by (rule distinct_map [THEN iffD2]) (simp add: lo inj_on_def)
    ultimately show "distinct ys" by (simp add: comp_def)
  next
    fix ys zs assume a: "ys \<in> set (map ?f ?ps)" "zs \<in> set (map ?f ?ps)" "ys \<noteq> zs"
    obtain q r where qr: "ys = ?f q" "zs = ?f r" using a(1,2) unfolding set_map by (elim imageE)
    show "set ys \<inter> set zs = {}"
    proof (rule ccontr)
      assume "set ys \<inter> set zs \<noteq> {}"
      then obtain x where "x \<in> set (?f q)" "x \<in> set (?f r)" using qr by blast
      then have "q = r" using fst [of x q] fst [of x r] by (simp only:)
      then show False using a(3) qr by (simp only: simp_thms)
    qed
  qed
  have "part_map p (a, b, c) \<noteq> None \<longleftrightarrow> (\<exists>e \<in> set (stem_list (cp_data p) a b). e_version e = c)" for a b c
    by (auto simp: part_map_def find_None_iff)
  then have dm: "dom (part_map p) =
      {(a, b, c). \<exists>e \<in> set (stem_list (cp_data p) a b). e_version e = c}"
    by (simp add: set_eq_iff domIff)
  have "set (part_triples p) = (\<Union>q \<in> set ?ps. set (?f q))"
    unfolding part_triples_def by (rule set_concat_map)
  also have "\<dots> = {(a, b, c). \<exists>e \<in> set (stem_list (cp_data p) a b). e_version e = c}"
  proof (intro equalityI subsetI)
    fix x assume "x \<in> (\<Union>q \<in> set ?ps. set (?f q))"
    then obtain q where q: "x \<in> set (?f q)" by (rule UN_E)
    obtain a b where "q = (a, b)" by (rule prod.exhaust)
    with q have "x \<in> set (?f (a, b))" by (simp only:)
    then show "x \<in> {(a, b, c). \<exists>e \<in> set (stem_list (cp_data p) a b). e_version e = c}" by auto
  next
    fix x assume "x \<in> {(a, b, c). \<exists>e \<in> set (stem_list (cp_data p) a b). e_version e = c}"
    then obtain a b e where x: "x = (a, b, e_version e)" "e \<in> set (stem_list (cp_data p) a b)" by auto
    then have "(a, b) \<in> set ?ps" unfolding ss by auto
    moreover have "x \<in> set (?f (a, b))" using x by auto
    ultimately show "x \<in> (\<Union>q \<in> set ?ps. set (?f q))" by (rule UN_I)
  qed
  finally show "set (part_triples p) = dom (part_map p)" unfolding dm .
qed

lemma get_package_counts_card:
  assumes ok: "part_ok p" and pubs: "\<forall>pub. dget (cp_data p) pub \<noteq> None \<longrightarrow> \<not> starts_with pub ''_''"
  shows "get_package_counts p =
    (card {(pub, stem). stem_list (cp_data p) pub stem \<noteq> []}, card (dom (part_map p)))"
proof -
  have "length (part_triples p) = card (dom (part_map p))"
    using distinct_card [OF part_triples_facts(1) [OF assms]] part_triples_facts(2) [OF assms] by simp
  moreover have "length (concat (map (\<lambda>pub. map (Pair pub) (pub_stems p pub)) (part_publishers [] p)))
      = card {(pub, stem). stem_list (cp_data p) pub stem \<noteq> []}"
    using distinct_card [OF part_stems_distinct [OF ok]] part_stems_set [OF assms] by simp
  ultimately show ?thesis by (simp add: get_package_counts_eq)
qed

section \<open>The last entry is the newest\<close>

lemma take_last_ok:
  assumes "\<forall>(pub, stem) \<in> set stems. stem_list (cp_data p) pub stem \<noteq> []"
  shows "take_last p stems =
    Inr (map (\<lambda>(pub, stem). (pub, stem, last (stem_list (cp_data p) pub stem))) stems)"
  using assms by (induction stems) (auto simp: sbind_def Let_def)

lemma sorted_last_max:
  "\<lbrakk>sorted (map k es); e \<in> set es\<rbrakk> \<Longrightarrow> k e \<le> k (last es)"
  by (induction es) (auto split: if_splits)

section \<open>Listing names\<close>

lemma starts_code: "c < d \<longleftrightarrow> code c < code d" for c d :: char
  by (simp add: code_def less_char_def)

lemma bang_less:
  assumes "\<forall>c \<in> set xs. code c > 33" "\<forall>c \<in> set ys. code c > 33"
  shows "xs @ CHR ''!'' # p \<le> ys @ CHR ''!'' # q \<longleftrightarrow> (xs, p) \<le> (ys, q)"
  using assms
proof (induction xs ys rule: list_induct2')
  case 1
  then show ?case by (simp add: less_eq_prod_def)
next
  case (2 x xs)
  then have "CHR ''!'' < x" by (simp add: starts_code code_def)
  then show ?case by (auto simp: less_eq_prod_def)
next
  case (3 y ys)
  then have "CHR ''!'' < y" by (simp add: starts_code code_def)
  then show ?case by (auto simp: less_eq_prod_def)
next
  case (4 x xs y ys)
  then show ?case by (auto simp: less_eq_prod_def)
qed

lemma split_bang_join: "CHR ''!'' \<notin> set s \<Longrightarrow> split_bang (s @ CHR ''!'' # p) = (s, p)"
  by (simp add: split_bang_def py_find_append)

definition bang_join :: "string \<times> string \<Rightarrow> string" where
  "bang_join = (\<lambda>(pub, stem). stem @ ''!'' @ pub)"

lemma bang_list:
  "concat (map (\<lambda>pub. map (\<lambda>stem. stem @ ''!'' @ pub) (g pub)) ps) =
     map bang_join (concat (map (\<lambda>pub. map (Pair pub) (g pub)) ps))"
  by (induction ps) (auto simp: bang_join_def)

lemma sorted_map_cong:
  "\<forall>x \<in> set l. \<forall>y \<in> set l. f x \<le> f y \<longleftrightarrow> g x \<le> g y \<Longrightarrow> sorted (map f l) = sorted (map g l)"
  by (induction l) auto

definition stems_ok :: "'a cpart \<Rightarrow> bool" where
  "stems_ok p \<longleftrightarrow> (\<forall>pub stem. stem_list (cp_data p) pub stem \<noteq> [] \<longrightarrow> (\<forall>c \<in> set stem. code c > 33))"

lemma stems_set:
  assumes "part_ok p"
  shows "set (concat (map (\<lambda>pub. map (Pair pub) (pub_stems p pub)) (part_publishers pubs p))) =
    {(pub, stem). pub_wanted pubs pub \<and> stem_list (cp_data p) pub stem \<noteq> []}"
proof -
  have d: "data_ok (cp_data p)" using assms by (simp add: part_ok_def)
  have e: "stem_list (cp_data p) a b \<noteq> [] \<longleftrightarrow>
      (\<exists>pl. dget (cp_data p) a = Some pl \<and> dget pl b \<noteq> None)" for a b
    using d by (auto simp: stem_list_def data_ok_def split: option.splits)
  have "(a, b) \<in> set (concat (map (\<lambda>pub. map (Pair pub) (pub_stems p pub)) (part_publishers pubs p)))
      \<longleftrightarrow> a \<in> set (part_publishers pubs p) \<and> b \<in> set (pub_stems p a)" for a b
    by auto
  moreover have m: "a \<in> set (part_publishers pubs p) \<and> b \<in> set (pub_stems p a) \<longleftrightarrow>
      pub_wanted pubs a \<and> (\<exists>pl. dget (cp_data p) a = Some pl \<and> dget pl b \<noteq> None)" for a b
    by (auto simp: part_publishers_def pub_stems_def pydict.keys_get domIff split: option.splits)
  ultimately show ?thesis unfolding e [symmetric] by (auto simp del: set_concat)
qed

lemma part_pkg_names_set:
  assumes ok: "part_ok p" and so: "stems_ok p"
  shows "set (part_pkg_names pubs p) =
    {(pub, stem). pub_wanted pubs pub \<and> stem_list (cp_data p) pub stem \<noteq> []}" (is "_ = ?R")
proof -
  let ?ps = "concat (map (\<lambda>pub. map (Pair pub) (pub_stems p pub)) (part_publishers pubs p))"
  have "split_bang (bang_join q) = (snd q, fst q)" if "q \<in> set ?ps" for q
  proof -
    have "q \<in> ?R" using that unfolding stems_set [OF ok] .
    then have "\<forall>c \<in> set (snd q). code c > 33" using so by (auto simp: stems_ok_def)
    moreover have "\<not> 33 < code (CHR ''!'')" by (simp add: code_def)
    ultimately have "CHR ''!'' \<notin> set (snd q)" by blast
    then show ?thesis by (cases q) (simp add: bang_join_def split_bang_join)
  qed
  then have "(\<lambda>a. let (stem, pub) = split_bang a in (pub, stem)) ` bang_join ` set ?ps = set ?ps"
    by (force simp: image_image)
  then show ?thesis
    unfolding stems_set [OF ok, symmetric] part_pkg_names_def Let_def bang_list
    by (cases "pubs = []") simp_all
qed

lemma part_pkg_names_sorted:
  assumes ok: "part_ok p" and so: "stems_ok p"
  shows "sorted (map (\<lambda>(pub, stem). (stem, pub)) (part_pkg_names [] p))"
proof -
  let ?ps = "concat (map (\<lambda>pub. map (Pair pub) (pub_stems p pub)) (part_publishers [] p))"
  let ?l = "sort (map bang_join ?ps)"
  have fine: "\<exists>s q. a = s @ CHR ''!'' # q \<and> (\<forall>c \<in> set s. code c > 33) \<and> split_bang a = (s, q)"
    if "a \<in> set ?l" for a
  proof -
    from that obtain r where r: "r \<in> set ?ps" "a = bang_join r" by auto
    have "\<forall>c \<in> set (snd r). code c > 33"
      using r(1) so unfolding stems_set [OF ok] by (auto simp: stems_ok_def)
    moreover have "\<not> 33 < code (CHR ''!'')" by (simp add: code_def)
    ultimately have "CHR ''!'' \<notin> set (snd r)" by blast
    then show ?thesis using r(2) \<open>\<forall>c \<in> set (snd r). code c > 33\<close>
      by (cases r) (auto simp: bang_join_def split_bang_join)
  qed
  have "split_bang a \<le> split_bang b \<longleftrightarrow> a \<le> b" if "a \<in> set ?l" "b \<in> set ?l" for a b
    using fine [OF that(1)] fine [OF that(2)] bang_less by fastforce
  then have "sorted (map split_bang ?l) = sorted (map (\<lambda>a. a) ?l)"
    by (intro sorted_map_cong) blast
  then have "sorted (map split_bang ?l)" by simp
  moreover have "map (\<lambda>(pub, stem). (stem, pub)) (part_pkg_names [] p) = map split_bang ?l"
    unfolding part_pkg_names_def Let_def bang_list by (simp add: case_prod_unfold)
  ultimately show ?thesis by simp
qed

lemma take_last_iter:
  assumes ok: "part_ok p" and so: "stems_ok p"
  shows "\<exists>stems. set stems = {(pub, stem). pub_wanted pubs pub \<and> stem_list (cp_data p) pub stem \<noteq> []}
    \<and> iter_entries True ordered pubs p =
        Inr (map (\<lambda>(pub, stem). (pub, stem, last (stem_list (cp_data p) pub stem))) stems)"
proof -
  let ?stems = "if ordered then part_pkg_names pubs p
     else concat (map (\<lambda>pub. map (Pair pub) (pub_stems p pub)) (part_publishers pubs p))"
  have s: "set ?stems = {(pub, stem). pub_wanted pubs pub \<and> stem_list (cp_data p) pub stem \<noteq> []}"
    using part_pkg_names_set [OF assms] stems_set [OF ok] by simp
  have "take_last p ?stems =
      Inr (map (\<lambda>(pub, stem). (pub, stem, last (stem_list (cp_data p) pub stem))) ?stems)"
    by (rule take_last_ok) (use s in auto)
  then have "iter_entries True ordered pubs p =
        Inr (map (\<lambda>(pub, stem). (pub, stem, last (stem_list (cp_data p) pub stem))) ?stems)"
    by (simp add: iter_entries_def Let_def)
  with s show ?thesis by blast
qed

section \<open>Batch mode\<close>

text \<open>The data of a part with every list of entries transformed.\<close>

definition map_data :: "('a centry list \<Rightarrow> 'a centry list) \<Rightarrow> 'a cdata \<Rightarrow> 'a cdata" where
  "map_data g d = map (\<lambda>(pub, pl). (pub, map (\<lambda>(stem, es). (stem, g es)) pl)) d"

lemma dput_map: "dput k (g v) (map (\<lambda>(k, v). (k, g v)) d) = map (\<lambda>(k, v). (k, g v)) (dput k v d)"
  by (induction d) (auto simp: dput_def)

lemma stem_list_map_data:
  "g [] = [] \<Longrightarrow> stem_list (map_data g d) pub stem = g (stem_list d pub stem)"
  by (simp add: stem_list_def map_data_def dget_map split: option.splits)

lemma put_stem_map_data:
  "put_stem pub stem (g es) (map_data g d) = map_data g (put_stem pub stem es d)"
proof -
  let ?h = "map (\<lambda>(stem, es). (stem, g es))"
  have "(case dget (map_data g d) pub of None \<Rightarrow> [] | Some pl \<Rightarrow> pl) =
      ?h (case dget d pub of None \<Rightarrow> [] | Some pl \<Rightarrow> pl)"
    by (simp add: map_data_def dget_map split: option.splits)
  then show ?thesis
    unfolding put_stem_def map_data_def by (simp add: dput_map [of _ ?h] dput_map [of _ g])
qed

lemma sort_key_snoc: "sort_key k (sort_key k es @ [e]) = sort_key k (es @ [e])"
proof (rule properties_for_sort_key [symmetric])
  fix y
  have st: "filter (\<lambda>x. k y = k x) (sort_key k xs) = filter (\<lambda>x. k y = k x) xs" for xs
    using sort_key_stable [of k "k y" xs] by (simp only: eq_commute [of "k y"])
  show "filter (\<lambda>x. k y = k x) (sort_key k (sort_key k es @ [e])) = filter (\<lambda>x. k y = k x) (es @ [e])"
    unfolding st filter_append ..
qed simp_all

fun part_add_all ::
  "(fmri \<times> 'a centry option \<times> int) list \<Rightarrow> 'a cpart \<Rightarrow> 'a cpart \<times> cat_exn option" where
  "part_add_all [] p = (p, None)"
| "part_add_all ((f, m, t) # rest) p =
     (case part_add (ByFmri f) m t True p of
        (p', Inl e) \<Rightarrow> (p', Some e)
      | (p', Inr _) \<Rightarrow> part_add_all rest p')"

text \<open>The stem list of the ordered part is the sorted one of the part in batch mode.\<close>

definition batch_rel :: "'a cpart \<Rightarrow> 'a cpart \<Rightarrow> bool" where
  "batch_rel po pu \<longleftrightarrow> cp_ordered po \<and> \<not> cp_ordered pu
     \<and> cp_data po = map_data (sort_key ekey) (cp_data pu)
     \<and> data_ok (cp_data pu) \<and> (\<forall>pub. dget (cp_data pu) pub \<noteq> None \<longrightarrow> \<not> starts_with pub ''_'')
     \<and> (\<forall>pub stem. \<forall>e \<in> set (stem_list (cp_data pu) pub stem). entry_ok e)"

lemma batch_rel_add:
  assumes rel: "batch_rel po pu" and ref: "ref_parts (ByFmri f) = Inr (pub, stem, ver)"
    and ver: "version_init ver None = Inr v" and pub: "\<not> starts_with pub ''_''"
  shows "case part_add (ByFmri f) m t True pu of
      (pu', Inl e) \<Rightarrow> part_add (ByFmri f) m t True po = (po, Inl e) \<and> pu' = pu
    | (pu', Inr e) \<Rightarrow> (\<exists>po'. part_add (ByFmri f) m t True po = (po', Inr e) \<and> batch_rel po' pu'
        \<and> cp_modified po' = t \<and> cp_modified pu' = t)"
proof -
  let ?u = "stem_list (cp_data pu) pub stem" and ?e = "new_entry m ver"
  have so: "stem_list (cp_data po) pub stem = sort_key ekey ?u"
    using rel by (simp add: batch_rel_def stem_list_map_data)
  have fp: "f_publisher f = Some pub" "f_name f = stem"
    using ref by (auto simp: ref_parts_def split: option.splits if_splits)
  have same: "list_ex (\<lambda>e. e_version e = ver) (stem_list (cp_data po) pub stem)
      \<longleftrightarrow> list_ex (\<lambda>e. e_version e = ver) ?u"
    unfolding so by (simp add: list_ex_iff)
  show ?thesis
  proof (cases "list_ex (\<lambda>e. e_version e = ver) ?u")
    case True
    then show ?thesis using ref same by (simp add: part_add_def Let_def)
  next
    case False
    let ?pu = "pu\<lparr>cp_data := put_stem pub stem (?u @ [?e]) (cp_data pu), cp_modified := t, cp_sigs := []\<rparr>"
    let ?d1 = "put_stem pub stem (sort_key ekey ?u @ [?e]) (cp_data po)"
    let ?d2 = "put_stem pub stem (sort_key ekey (?u @ [?e])) (cp_data po)"
    let ?po = "po\<lparr>cp_data := ?d2, cp_modified := t, cp_sigs := []\<rparr>"
    have all: "\<forall>e \<in> set (?u @ [?e]). entry_ok e"
      using rel ver by (auto simp: batch_rel_def entry_ok_def)
    have "part_add (ByFmri f) m t True pu = (?pu, Inr ?e)"
      using ref False rel by (simp add: part_add_def Let_def new_entry_def [symmetric] batch_rel_def)
    moreover have "sort_one f ?d1 = (put_stem pub stem (sort_key ekey (sort_key ekey ?u @ [?e])) ?d1, None)"
      using sort_one_put [OF fp(1), of "sort_key ekey ?u @ [?e]" ?d1] all fp(2)
      by (simp add: stem_list_put)
    then have "sort_one f ?d1 = (?d2, None)" by (simp add: sort_key_snoc put_stem_twice)
    then have "part_sort (Some [f]) [] (po\<lparr>cp_data := ?d1\<rparr>) = (po\<lparr>cp_data := ?d2\<rparr>, None)"
      by (simp add: part_sort_def Let_def)
    then have "part_add (ByFmri f) m t True po = (?po, Inr ?e)"
      using ref False rel same so
      by (simp add: part_add_def Let_def new_entry_def [symmetric] batch_rel_def)
    moreover have "batch_rel ?po ?pu"
      using rel all put_stem_map_data [of pub stem "sort_key ekey" "?u @ [?e]" "cp_data pu"]
        put_stem_ok [of "cp_data pu" "?u @ [?e]"] pub
      by (auto simp: batch_rel_def stem_list_put) (auto simp: put_stem_def pydict.get_put split: if_splits)
    ultimately show ?thesis by simp
  qed
qed

lemma sort_stems_all:
  "\<forall>(stem, es) \<in> set pl. \<forall>e \<in> set es. entry_ok e \<Longrightarrow>
     sort_stems pl = (map (\<lambda>(stem, es). (stem, sort_key ekey es)) pl, None)"
  by (induction pl) (auto simp: sort_entries_ok)

lemma sort_pubs_all:
  "\<forall>(pub, pl) \<in> set d. \<not> starts_with pub ''_'' \<and> (\<forall>(stem, es) \<in> set pl. \<forall>e \<in> set es. entry_ok e) \<Longrightarrow>
     sort_pubs [] d = (map_data (sort_key ekey) d, None)"
  by (induction d) (auto simp: pub_wanted_def map_data_def sort_stems_all)

lemma batch_rel_sort:
  assumes "batch_rel po pu"
  shows "part_sort None [] pu = (pu\<lparr>cp_data := cp_data po\<rparr>, None)"
proof -
  have d: "data_ok (cp_data pu)" using assms by (simp add: batch_rel_def)
  have "\<forall>(pub, pl) \<in> set (cp_data pu). \<not> starts_with pub ''_''
      \<and> (\<forall>(stem, es) \<in> set pl. \<forall>e \<in> set es. entry_ok e)"
  proof (clarify, intro conjI ballI, goal_cases)
    case (1 pub pl)
    then have "dget (cp_data pu) pub = Some pl" using d by (simp add: data_ok_def dget_Some_mem)
    then show ?case using assms by (simp add: batch_rel_def)
  next
    case (2 pub pl x)
    obtain stem es where x: "x = (stem, es)" by fastforce
    have p: "dget (cp_data pu) pub = Some pl" using 2 d by (simp add: data_ok_def dget_Some_mem)
    then have "dict_ok pl" using d by (simp add: data_ok_def)
    then have "dget pl stem = Some es" using 2 x by (simp add: dget_Some_mem)
    then have "stem_list (cp_data pu) pub stem = es" using p by (simp add: stem_list_def)
    then have "\<forall>e \<in> set es. entry_ok e" using assms by (auto simp: batch_rel_def)
    then show ?case using x by simp
  qed
  then show ?thesis
    using assms by (simp add: part_sort_def sort_pubs_all batch_rel_def)
qed

definition addable :: "fmri \<Rightarrow> bool" where
  "addable f \<longleftrightarrow> (case f_publisher f of None \<Rightarrow> False | Some pub \<Rightarrow> pub \<noteq> [] \<and> \<not> starts_with pub ''_'')
     \<and> (case version_init (ver_text (f_version f)) None of Inl _ \<Rightarrow> False | Inr _ \<Rightarrow> True)"

lemma addableE:
  assumes "addable f"
  obtains pub v where "ref_parts (ByFmri f) = Inr (pub, f_name f, ver_text (f_version f))"
    "f_publisher f = Some pub" "pub \<noteq> []" "\<not> starts_with pub ''_''"
    "version_init (ver_text (f_version f)) None = Inr v"
  using assms by (auto simp: addable_def ref_parts_def split: option.splits sum.splits)

lemma batch_rel_all:
  assumes "batch_rel po pu" and "\<forall>(f, m, t) \<in> set ops. addable f" and "cp_modified po = cp_modified pu"
  shows "\<exists>po' pu' x. part_add_all ops po = (po', x) \<and> part_add_all ops pu = (pu', x)
    \<and> batch_rel po' pu' \<and> cp_modified po' = cp_modified pu'"
  using assms
proof (induction ops arbitrary: po pu)
  case Nil
  then show ?case by simp
next
  case (Cons op ops)
  obtain f m t where op: "op = (f, m, t)" by (rule prod_cases3)
  have "addable f" using Cons.prems(2) op by simp
  then obtain pub v where f: "ref_parts (ByFmri f) = Inr (pub, f_name f, ver_text (f_version f))"
    "version_init (ver_text (f_version f)) None = Inr v" "\<not> starts_with pub ''_''" by (rule addableE)
  obtain pu' r where u: "part_add (ByFmri f) m t True pu = (pu', r)" by fastforce
  note * = batch_rel_add [OF Cons.prems(1) f, of m t, unfolded u]
  show ?case
  proof (cases r)
    case (Inl e)
    then show ?thesis using * u op Cons.prems(1,3) by auto
  next
    case (Inr e)
    then obtain po' where "part_add (ByFmri f) m t True po = (po', Inr e)" "batch_rel po' pu'"
      "cp_modified po' = cp_modified pu'" using * by auto
    then show ?thesis using Cons.IH [of po' pu'] Cons.prems(2) u op Inr by simp
  qed
qed

section \<open>Sorting a consistent part\<close>

text \<open>The lists of entries of the wanted publishers, each through a function.\<close>

definition map_wanted :: "string list \<Rightarrow> ('a centry list \<Rightarrow> 'a centry list) \<Rightarrow> 'a cdata \<Rightarrow> 'a cdata" where
  "map_wanted pubs g d =
     map (\<lambda>(pub, pl). (pub, if pub_wanted pubs pub then map (\<lambda>(stem, es). (stem, g es)) pl else pl)) d"

lemma sort_pubs_wanted:
  "\<forall>(pub, pl) \<in> set d. \<forall>(stem, es) \<in> set pl. \<forall>e \<in> set es. entry_ok e \<Longrightarrow>
     sort_pubs pubs d = (map_wanted pubs (sort_key ekey) d, None)"
  by (induction d) (auto simp: map_wanted_def sort_stems_all)

lemma dget_map_snd: "dget (map (\<lambda>(k, v). (k, h k v)) d) k = map_option (h k) (dget d k)"
  by (induction d) (auto simp: dget_def)

lemma dget_wanted:
  "dget (map_wanted pubs g d) pub =
     map_option (\<lambda>pl. if pub_wanted pubs pub then map (\<lambda>(stem, es). (stem, g es)) pl else pl) (dget d pub)"
  unfolding map_wanted_def by (rule dget_map_snd)

lemma stem_list_wanted:
  "g [] = [] \<Longrightarrow> stem_list (map_wanted pubs g d) pub stem =
     (if pub_wanted pubs pub then g (stem_list d pub stem) else stem_list d pub stem)"
  using dget_map_snd [of "\<lambda>_. g"] by (auto simp: stem_list_def dget_wanted split: option.splits)

lemma dict_ok_map_snd: "dict_ok (map (\<lambda>(k, v). (k, h k v)) d) = dict_ok d"
  by (simp add: dict_ok_def comp_def case_prod_beta')

lemma data_ok_wanted:
  assumes "data_ok d" "\<And>es. g es = [] \<longleftrightarrow> es = []"
  shows "data_ok (map_wanted pubs g d)"
proof -
  have "dict_ok (map_wanted pubs g d)" using assms(1) by (simp add: data_ok_def map_wanted_def dict_ok_map_snd)
  moreover have "pl' \<noteq> [] \<and> dict_ok pl' \<and> (\<forall>stem es. dget pl' stem = Some es \<longrightarrow> es \<noteq> [])"
    if w: "dget (map_wanted pubs g d) pub = Some pl'" for pub pl'
  proof -
    obtain pl where pl: "dget d pub = Some pl"
      "(if pub_wanted pubs pub then map (\<lambda>(stem, es). (stem, g es)) pl else pl) = pl'"
      using w unfolding dget_wanted map_option_eq_Some by blast
    then have "pl \<noteq> []" "dict_ok pl" "\<forall>stem es. dget pl stem = Some es \<longrightarrow> es \<noteq> []"
      using assms(1) by (auto simp: data_ok_def)
    then show ?thesis
      using assms(2) dget_map_snd [of "\<lambda>_. g" pl] dict_ok_map_snd [of "\<lambda>_. g" pl] by (auto simp: pl(2) [symmetric])
  qed
  ultimately show ?thesis by (simp add: data_ok_def)
qed

lemma part_sort_ok:
  assumes "part_ok p"
  shows "\<exists>p'. part_sort None pubs p = (p', None) \<and> part_ok p' \<and> part_map p' = part_map p
    \<and> (\<forall>pub stem. pub_wanted pubs pub \<longrightarrow> sorted (map ekey (stem_list (cp_data p') pub stem)))"
proof -
  let ?d = "map_wanted pubs (sort_key ekey) (cp_data p)"
  have l: "list_ok (cp_ordered p) (stem_list (cp_data p) pub stem)" for pub stem
    using assms by (simp add: part_ok_def)
  have d: "data_ok (cp_data p)" using assms by (simp add: part_ok_def)
  have "entry_ok e" if "(pub, pl) \<in> set (cp_data p)" "(stem, es) \<in> set pl" "e \<in> set es" for pub pl stem es e
  proof -
    have pl: "dget (cp_data p) pub = Some pl" "dict_ok pl" using d that(1) by (auto simp: data_ok_def dget_Some_mem)
    have "dget pl stem = Some es" using that(2) pl(2) by (simp add: dget_Some_mem)
    then have "stem_list (cp_data p) pub stem = es" by (simp add: stem_list_def pl(1))
    then show ?thesis using l [of pub stem] that(3) by (auto simp: list_ok_def)
  qed
  then have s: "part_sort None pubs p = (p\<lparr>cp_data := ?d\<rparr>, None)"
    using sort_pubs_wanted [of "cp_data p" pubs] by (fastforce simp: part_sort_def)
  have e: "sort_key ekey es = [] \<longleftrightarrow> es = []" for es :: "'a centry list" by (metis set_sort set_empty)
  have st: "stem_list ?d pub stem = (if pub_wanted pubs pub then sort_key ekey (stem_list (cp_data p) pub stem)
      else stem_list (cp_data p) pub stem)" for pub stem by (rule stem_list_wanted) simp
  have "part_ok (p\<lparr>cp_data := ?d\<rparr>)"
    using l data_ok_wanted [OF d e] by (auto simp: part_ok_def st list_ok_def distinct_insort_key)
  moreover have "find (\<lambda>e. e_version e = v) (stem_list ?d pub stem) =
      find (\<lambda>e. e_version e = v) (stem_list (cp_data p) pub stem)" for pub stem v
    by (rule find_version_set) (use l [of pub stem] in \<open>auto simp: st list_ok_def distinct_insort_key\<close>)
  then have "part_map (p\<lparr>cp_data := ?d\<rparr>) = part_map p" by (auto simp: part_map_def fun_eq_iff)
  ultimately show ?thesis using s by (auto simp: st)
qed

lemma part_destroy_ok: "part_ok (part_destroy p) \<and> part_map (part_destroy p) = Map.empty"
  by (auto simp: part_destroy_def part_ok_def data_ok_def list_ok_def stem_list_def part_map_def dict_ok_def fun_eq_iff)

section \<open>Properties\<close>

definition ckey :: "fmri \<Rightarrow> string \<times> string \<times> string" where
  "ckey f = ((case f_publisher f of None \<Rightarrow> [] | Some pub \<Rightarrow> pub), f_name f, ver_text (f_version f))"

lemma addable_ref: "addable f \<Longrightarrow> ref_parts (ByFmri f) = Inr (ckey f)"
  by (auto elim!: addableE simp: ckey_def)

text \<open>A sample package and the empty part.\<close>

definition sample_fmri :: fmri where
  "sample_fmri = \<lparr>f_publisher = Some ''p'', f_name = ''a'',
     f_version = Some \<lparr>release = \<lparr>ds_vals = [1], ds_str = ''1''\<rparr>, branch = None,
       build_release = \<lparr>ds_vals = [5, 11], ds_str = ''5.11''\<rparr>, timestr = None\<rparr>\<rparr>"

definition sample_part :: "bool \<Rightarrow> unit cpart" where
  "sample_part ordered =
     \<lparr>cp_name = ''catalog.base.C'', cp_data = [], cp_ordered = ordered, cp_modified = 1, cp_sigs = []\<rparr>"

lemma sample_addable: "addable sample_fmri"
  by code_simp

lemma sample_part_init: "part_init ''catalog.base.C'' ordered 1 = Inr (sample_part ordered)"
  by (simp add: part_init_def sample_part_def starts_with_def)

lemma sample_part_ok: "part_ok (sample_part ordered)" "part_map (sample_part ordered) = Map.empty"
  using part_init_ok [OF sample_part_init] by blast+



text \<open>
  C16. Iterating with \<open>last\<close> over a consistent ordered part yields, for each wanted package and
  nothing else, one entry, and no entry of that package is a newer version; with \<open>ordered\<close>, the
  names come sorted by package name and then publisher, although the code sorts the joined texts
  \<open>stem!pub\<close>.  The names must hold no character up to the exclamation mark, as valid ones do.
\<close>

lemma last_entry_is_newest:
  assumes ok: "part_ok p" and stems: "stems_ok p" and ordered: "cp_ordered p"
  shows "\<exists>l. iter_entries True srt pubs p = Inr l
    \<and> (\<lambda>(pub, stem, e). (pub, stem)) ` set l =
        {(pub, stem). pub_wanted pubs pub \<and> stem_list (cp_data p) pub stem \<noteq> []}
    \<and> (\<forall>(pub, stem, e) \<in> set l. e \<in> set (get_stem_entries pub stem p)
        \<and> (\<forall>e' \<in> set (get_stem_entries pub stem p). \<exists>v v'.
             version_init (e_version e) None = Inr v \<and> version_init (e_version e') None = Inr v'
             \<and> version_lt v v' = Inr False))
    \<and> sorted (map (\<lambda>(pub, stem). (stem, pub)) (part_pkg_names [] p))"
proof -
  obtain stems where s: "set stems = {(pub, stem). pub_wanted pubs pub \<and> stem_list (cp_data p) pub stem \<noteq> []}"
    and it: "iter_entries True srt pubs p =
        Inr (map (\<lambda>(pub, stem). (pub, stem, last (stem_list (cp_data p) pub stem))) stems)"
    using take_last_iter [OF ok stems] by blast
  have newest: "\<exists>v v'. version_init (e_version (last es)) None = Inr v
      \<and> version_init (e_version e') None = Inr v' \<and> version_lt v v' = Inr False"
    if e: "es = stem_list (cp_data p) a b" "e' \<in> set es" for a b es e'
  proof -
    have lo: "list_ok True es" using ok ordered e(1) by (simp add: part_ok_def)
    moreover have "last es \<in> set es" using e(2) by (intro last_in_set) auto
    ultimately have "entry_ok (last es)" "entry_ok e'" "ekey e' \<le> ekey (last es)"
      using e(2) sorted_last_max [of ekey es e'] by (auto simp: list_ok_def)
    then obtain v v' where v: "version_init (e_version (last es)) None = Inr v"
        "version_init (e_version e') None = Inr v'" "version_key v' \<le> version_key v"
      by (auto simp: entry_ok_def ekey_def split: sum.splits)
    then have "version_lt v v' = Inr False"
      using version_lt_key [OF version_init_wf [OF v(1)] version_init_wf [OF v(2)]] by simp
    with v show ?thesis by blast
  qed
  show ?thesis
  proof (intro exI [of _ "map (\<lambda>(pub, stem). (pub, stem, last (stem_list (cp_data p) pub stem))) stems"] conjI)
    show "(\<lambda>(pub, stem, e). (pub, stem)) `
        set (map (\<lambda>(pub, stem). (pub, stem, last (stem_list (cp_data p) pub stem))) stems) =
      {(pub, stem). pub_wanted pubs pub \<and> stem_list (cp_data p) pub stem \<noteq> []}"
      unfolding s [symmetric] by force
    show "\<forall>(pub, stem, e) \<in> set (map (\<lambda>(pub, stem). (pub, stem, last (stem_list (cp_data p) pub stem))) stems).
        e \<in> set (get_stem_entries pub stem p)
        \<and> (\<forall>e' \<in> set (get_stem_entries pub stem p). \<exists>v v'.
             version_init (e_version e) None = Inr v \<and> version_init (e_version e') None = Inr v'
             \<and> version_lt v v' = Inr False)"
      using newest s by (auto simp: get_stem_entries_def)
    show "sorted (map (\<lambda>(pub, stem). (stem, pub)) (part_pkg_names [] p))"
      by (rule part_pkg_names_sorted [OF ok stems])
  qed (rule it)
qed


text \<open>A part with two versions of a package.\<close>

definition sample_entry :: "string \<Rightarrow> unit centry" where
  "sample_entry v = \<lparr>e_version = v, e_actions = None, e_data = []\<rparr>"

definition sample_two :: "unit cpart" where
  "sample_two = (sample_part True)\<lparr>cp_data :=
     [(''p'', [(''a'', [sample_entry ''1.9'', sample_entry ''1.10''])])]\<rparr>"

lemma sample_two_list:
  "stem_list (cp_data sample_two) pub stem =
     (if pub = ''p'' \<and> stem = ''a'' then [sample_entry ''1.9'', sample_entry ''1.10''] else [])"
  by (simp add: stem_list_def sample_two_def dget_def)

lemma sample_two_ok: "part_ok sample_two" "stems_ok sample_two" "cp_ordered sample_two"
proof -
  have "list_ok True [sample_entry ''1.9'', sample_entry ''1.10'']"
    by code_simp
  then show "part_ok sample_two"
    unfolding part_ok_def sample_two_list
    by (auto simp: data_ok_def sample_two_def sample_part_def dget_def dict_ok_def list_ok_def
        split: if_splits)
  show "stems_ok sample_two"
    unfolding stems_ok_def sample_two_list by (simp add: code_def)
  show "cp_ordered sample_two" by (simp add: sample_two_def sample_part_def)
qed

lemma last_entry_is_newest_witness:
  "\<exists>l. iter_entries True True [] sample_two = Inr l \<and> (\<lambda>(pub, stem, e). (pub, stem)) ` set l = {(''p'', ''a'')}"
proof -
  have "{(pub, stem). pub_wanted [] pub \<and> stem_list (cp_data sample_two) pub stem \<noteq> []} = {(''p'', ''a'')}"
    unfolding sample_two_list by (auto simp: pub_wanted_def starts_with_def)
  then show ?thesis using last_entry_is_newest [OF sample_two_ok, of True "[]"] by auto
qed

text \<open>
  C15. Batch mode is an optimisation: adding packages to a part that is not kept ordered and sorting
  it once at the end raises the same exception, if any, and gives the same data and modification
  time as adding them to an ordered part, which sorts the package's list after each addition.
\<close>

lemma batch_mode_equivalent:
  assumes ops: "\<forall>(f, m, t) \<in> set ops. addable f"
    and po: "part_init name True now = Inr po" and pu: "part_init name False now = Inr pu"
  shows "snd (part_add_all ops po) = snd (part_add_all ops pu)
    \<and> cp_modified (fst (part_add_all ops po)) = cp_modified (fst (part_add_all ops pu))
    \<and> part_sort None [] (fst (part_add_all ops pu)) =
        ((fst (part_add_all ops pu))\<lparr>cp_data := cp_data (fst (part_add_all ops po))\<rparr>, None)"
proof -
  have d: "po = pu\<lparr>cp_ordered := True\<rparr>" "cp_data pu = []" "\<not> cp_ordered pu"
    using po pu by (auto simp: part_init_def split: if_splits)
  then have "batch_rel po pu" "cp_modified po = cp_modified pu"
    by (simp_all add: batch_rel_def map_data_def data_ok_def stem_list_def)
  then obtain po' pu' x where "part_add_all ops po = (po', x)" "part_add_all ops pu = (pu', x)"
    "batch_rel po' pu'" "cp_modified po' = cp_modified pu'" using batch_rel_all [OF _ ops] by blast
  then show ?thesis using batch_rel_sort by simp
qed

lemma batch_mode_equivalent_witness:
  "let ops = [(sample_fmri, None, 2), (sample_fmri, None, 3)]
   in snd (part_add_all ops (sample_part True)) = snd (part_add_all ops (sample_part False))"
  unfolding Let_def
  by (rule batch_mode_equivalent [OF _ sample_part_init sample_part_init, THEN conjunct1])
    (simp add: sample_addable)

text \<open>
  The counts of a consistent part are the number of its packages and of its versions.
\<close>

lemma package_counts_exact:
  assumes "part_ok p" and "\<forall>pub. dget (cp_data p) pub \<noteq> None \<longrightarrow> \<not> starts_with pub ''_''"
  shows "get_package_counts p =
    (card {(pub, stem). get_stem_entries pub stem p \<noteq> []}, card (dom (part_map p)))"
  using get_package_counts_card [OF assms] by (simp add: get_stem_entries_def)

lemma package_counts_exact_witness:
  "get_package_counts sample_two = (card {(''p'', ''a'')}, card (dom (part_map sample_two)))"
proof -
  have "{(pub, stem). get_stem_entries pub stem sample_two \<noteq> []} = {(''p'', ''a'')}"
    unfolding get_stem_entries_def sample_two_list by auto
  moreover have "\<forall>pub. dget (cp_data sample_two) pub \<noteq> None \<longrightarrow> \<not> starts_with pub ''_''"
    by (simp add: sample_two_def sample_part_def dget_def starts_with_def)
  ultimately show ?thesis using package_counts_exact [OF sample_two_ok(1)] by simp
qed

text \<open>
  Adding by publisher, name and version to an ordered part raises \<open>AttributeError\<close>: the sort is
  given the set that holds the FMRI argument, which is \<open>None\<close>.  The new entry stays in the part,
  which is not marked as modified.
\<close>

lemma add_by_components_fails:
  assumes "part_ok p" "cp_ordered p" "pub \<noteq> []" "stem \<noteq> []" "ver \<noteq> []"
    and "part_map p (pub, stem, ver) = None"
  shows "\<exists>p'. part_add (ByParts pub stem ver) m t True p = (p', Inl (CatPy AttributeError))
    \<and> (\<exists>e. part_map p' (pub, stem, ver) = Some e) \<and> cp_modified p' = cp_modified p"
proof -
  let ?old = "stem_list (cp_data p) pub stem"
  let ?p = "p\<lparr>cp_data := put_stem pub stem (?old @ [new_entry m ver]) (cp_data p)\<rparr>"
  have "\<not> list_ex (\<lambda>e. e_version e = ver) ?old"
    using assms(6) by (auto simp: part_map_def find_None_iff list_ex_iff)
  then have "part_add (ByParts pub stem ver) m t True p = (?p, Inl (CatPy AttributeError))"
    using assms by (simp add: part_add_def ref_parts_def Let_def new_entry_def [symmetric])
  moreover have "find (\<lambda>e. e_version e = ver) (?old @ [new_entry m ver]) = Some (new_entry m ver)"
    using assms(6) by (simp add: find_append_single part_map_def)
  then have "part_map ?p (pub, stem, ver) = Some (new_entry m ver)"
    by (simp add: part_map_def stem_list_put)
  ultimately show ?thesis by fastforce
qed

lemma add_by_components_fails_witness:
  "\<exists>p'. part_add (ByParts ''p'' ''a'' ''1'') None 5 True sample_two = (p', Inl (CatPy AttributeError))
    \<and> (\<exists>e. part_map p' (''p'', ''a'', ''1'') = Some e) \<and> cp_modified p' = cp_modified sample_two"
  by (rule add_by_components_fails [OF sample_two_ok(1,3)])
    (simp_all add: part_map_def sample_two_list sample_entry_def)

end
