(* ===== verification/Pkg_Catalog.thy ===== *)
theory Pkg_Catalog
  imports Pkg_CatalogPart
begin

text \<open>
  The classes \<open>CatalogUpdate\<close>, \<open>CatalogAttrs\<close> and \<open>Catalog\<close> of \<open>src/src/modules/catalog.py\<close>: the
  update log, the catalog of several parts kept in memory with its package counts, and the
  decision which files a client needs to bring its copy up to date, and the replay of a log on it.
  A time is an integer; \<open>uts\<close> is \<open>datetime_to_update_ts\<close>, the text of a time cut to the hour, and
  the text form of a time in the log is the subject of the theory \<open>Pkg_Timestamp\<close>.
\<close>

section \<open>The update log\<close>

datatype cat_op = OpAdd | OpRemove

text \<open>An entry of the log: the metadata of each catalog part, by its name.\<close>

record 'a uentry =
  u_time :: int
  u_op :: cat_op
  u_version :: string
  u_meta :: "'a centry dict"

record 'a cupdate =
  cu_name :: string
  cu_data :: "'a uentry list dict dict"
  cu_modified :: int
  cu_sigs :: "string dict"

definition update_init :: "string \<Rightarrow> int \<Rightarrow> cat_exn + 'a cupdate" where
  "update_init name now =
     (if \<not> starts_with name ''update.'' \<or> CHR ''/'' \<in> set name then Inl UnrecognizedCatalogPart
      else Inr \<lparr>cu_name = name, cu_data = [], cu_modified = now, cu_sigs = []\<rparr>)"

definition ulist :: "'a uentry list dict dict \<Rightarrow> string \<Rightarrow> string \<Rightarrow> 'a uentry list" where
  "ulist d pub stem =
     (case dget d pub of None \<Rightarrow> []
      | Some pl \<Rightarrow> (case dget pl stem of None \<Rightarrow> [] | Some es \<Rightarrow> es))"

definition update_add ::
  "fmri \<Rightarrow> cat_op \<Rightarrow> int \<Rightarrow> 'a centry dict \<Rightarrow> 'a cupdate \<Rightarrow> cat_exn + 'a cupdate" where
  "update_add f op op_time metadata u =
     (case f_publisher f of
        None \<Rightarrow> Inl AnarchicalCatalogFMRI
      | Some pub \<Rightarrow>
          if pub = [] then Inl AnarchicalCatalogFMRI
          else
            let pl = (case dget (cu_data u) pub of None \<Rightarrow> [] | Some pl \<Rightarrow> pl);
                entry = \<lparr>u_time = op_time, u_op = op, u_version = ver_text (f_version f),
                         u_meta = metadata\<rparr>
            in Inr (u\<lparr>cu_data := dput pub (dput (f_name f) (ulist (cu_data u) pub (f_name f) @ [entry]) pl)
                                  (cu_data u),
                      cu_modified := op_time, cu_sigs := []\<rparr>))"

definition update_publishers :: "'a cupdate \<Rightarrow> string list" where
  "update_publishers u = filter (\<lambda>pub. \<not> starts_with pub ''_'') (dkeys (cu_data u))"

text \<open>One result of \<open>updates\<close>; only the keys that name a catalog part are kept.\<close>

type_synonym 'a upd = "fmri \<times> cat_op \<times> int \<times> 'a centry dict"

definition get_update :: "string \<Rightarrow> string \<Rightarrow> 'a uentry \<Rightarrow> cat_exn + 'a upd" where
  "get_update pub stem e =
     (case fmri_make (Some stem) (Some (u_version e)) None (Some pub) of
        Inl x \<Rightarrow> Inl (CatFmri x)
      | Inr f \<Rightarrow> Inr (f, u_op e, u_time e, filter (\<lambda>p. starts_with (fst p) ''catalog.'') (u_meta e)))"

fun sequence_results :: "('e + 'a) list \<Rightarrow> 'e + 'a list" where
  "sequence_results [] = Inr []"
| "sequence_results (r # rs) = sbind r (\<lambda>x. sbind (sequence_results rs) (\<lambda>xs. Inr (x # xs)))"

definition update_updates :: "'a cupdate \<Rightarrow> cat_exn + 'a upd list" where
  "update_updates u =
     sequence_results (concat (map (\<lambda>pub. concat (map (\<lambda>stem.
        map (get_update pub stem) (ulist (cu_data u) pub stem))
          (case dget (cu_data u) pub of None \<Rightarrow> [] | Some pl \<Rightarrow> dkeys pl)))
        (update_publishers u)))"

section \<open>The catalog\<close>

record 'a catalog =
  c_parts :: "'a cpart dict"
  c_logs :: "'a cupdate dict"
  c_attr_parts :: "int dict"
  c_attr_updates :: "int dict"
  c_modified :: int
  c_package_count :: nat
  c_version_count :: nat
  c_batch :: bool
  c_log_updates :: bool
  c_read_only :: bool

definition BASE_PART :: string where "BASE_PART = ''catalog.base.C''"
definition DEPS_PART :: string where "DEPS_PART = ''catalog.dependency.C''"
definition SUMM_PART_PFX :: string where "SUMM_PART_PFX = ''catalog.summary''"

definition catalog_init :: "bool \<Rightarrow> bool \<Rightarrow> bool \<Rightarrow> int \<Rightarrow> 'a catalog" where
  "catalog_init batch_mode log_updates read_only now =
     \<lparr>c_parts = [], c_logs = [], c_attr_parts = [], c_attr_updates = [], c_modified = now,
      c_package_count = 0, c_version_count = 0, c_batch = batch_mode,
      c_log_updates = log_updates, c_read_only = read_only\<rparr>"

text \<open>\<open>get_part\<close>, in memory.  The result of a part that is not there and need not be is new.\<close>

definition get_part ::
  "string \<Rightarrow> bool \<Rightarrow> int \<Rightarrow> 'a catalog \<Rightarrow> cat_exn + ('a cpart option \<times> 'a catalog)" where
  "get_part name must_exist now c =
     (case dget (c_parts c) name of
        Some p \<Rightarrow> Inr (Some p, c)
      | None \<Rightarrow>
          if must_exist then Inr (None, c)
          else sbind (part_init name (\<not> c_batch c) now) (\<lambda>p.
            Inr (Some p, c\<lparr>c_parts := dput name p (c_parts c),
                           c_attr_parts := (if dget (c_attr_parts c) name = None
                                            then dput name now (c_attr_parts c)
                                            else c_attr_parts c)\<rparr>)))"

definition put_part :: "'a cpart \<Rightarrow> 'a catalog \<Rightarrow> 'a catalog" where
  "put_part p c = c\<lparr>c_parts := dput (cp_name p) p (c_parts c)\<rparr>"

text \<open>The last component of a part's or log's name: \<open>name.split(".", 2)[2]\<close>.\<close>

definition locale_of :: "string \<Rightarrow> cat_exn + string" where
  "locale_of name =
     (case py_find CHR ''.'' name of
        None \<Rightarrow> Inl (CatPy IndexError)
      | Some i \<Rightarrow>
          (case py_find CHR ''.'' (drop (Suc i) name) of
             None \<Rightarrow> Inl (CatPy IndexError)
           | Some j \<Rightarrow> Inr (drop (Suc j) (drop (Suc i) name))))"

definition finalize_counts :: "'a catalog \<Rightarrow> 'a catalog" where
  "finalize_counts c =
     (let (n, m) = (case dget (c_parts c) BASE_PART of
                      None \<Rightarrow> (0, 0) | Some p \<Rightarrow> get_package_counts p)
      in c\<lparr>c_package_count := n, c_version_count := m\<rparr>)"

fun sort_parts ::
  "fmri list option \<Rightarrow> string list \<Rightarrow> 'a cpart dict \<Rightarrow> 'a cpart dict \<times> cat_exn option" where
  "sort_parts pfmris pubs [] = ([], None)"
| "sort_parts pfmris pubs ((name, p) # rest) =
     (case part_sort pfmris pubs p of
        (p', Some e) \<Rightarrow> ((name, p') # rest, Some e)
      | (p', None) \<Rightarrow> let (rest', x) = sort_parts pfmris pubs rest in ((name, p') # rest', x))"

definition catalog_finalize ::
  "fmri list option \<Rightarrow> string list \<Rightarrow> bool \<Rightarrow> 'a catalog \<Rightarrow> 'a catalog \<times> cat_exn option" where
  "catalog_finalize pfmris pubs do_sort c =
     (case dget (c_parts c) BASE_PART of
        Some p \<Rightarrow>
          if do_sort then
            (case sort_parts pfmris pubs (c_parts c) of
               (ps, Some e) \<Rightarrow> (c\<lparr>c_parts := ps\<rparr>, Some e)
             | (ps, None) \<Rightarrow>
                 let (n, m) = get_package_counts p
                 in (c\<lparr>c_parts := ps, c_package_count := n, c_version_count := m\<rparr>, None))
          else (finalize_counts c, None)
      | None \<Rightarrow> (finalize_counts c, None))"

text \<open>\<open>__log_update\<close>: counts, modification time, and one log for each locale of the entries.\<close>

fun group_by_locale ::
  "(string \<times> 'a centry) list \<Rightarrow> 'a centry dict dict \<Rightarrow> cat_exn + 'a centry dict dict" where
  "group_by_locale [] acc = Inr acc"
| "group_by_locale ((pname, e) # rest) acc =
     sbind (locale_of pname) (\<lambda>loc.
       group_by_locale rest
         (dput loc (dput pname e (case dget acc loc of None \<Rightarrow> [] | Some d \<Rightarrow> d)) acc))"

fun write_logs ::
  "(int \<Rightarrow> string) \<Rightarrow> fmri \<Rightarrow> cat_op \<Rightarrow> int \<Rightarrow> (string \<times> 'a centry dict) list \<Rightarrow> 'a catalog
     \<Rightarrow> cat_exn + 'a catalog" where
  "write_logs uts f op op_time [] c = Inr c"
| "write_logs uts f op op_time ((loc, metadata) # rest) c =
     (let name = ''update.'' @ uts op_time @ ''.'' @ loc in
      sbind (case dget (c_logs c) name of Some u \<Rightarrow> Inr u | None \<Rightarrow> update_init name op_time) (\<lambda>u.
      sbind (update_add f op op_time metadata u) (\<lambda>u'.
        write_logs uts f op op_time rest
          (c\<lparr>c_logs := dput name u' (c_logs c),
             c_attr_updates := dput name op_time (c_attr_updates c)\<rparr>))))"

definition log_update ::
  "(int \<Rightarrow> string) \<Rightarrow> fmri \<Rightarrow> cat_op \<Rightarrow> int \<Rightarrow> (string \<times> 'a centry) list \<Rightarrow> 'a catalog
     \<Rightarrow> cat_exn + 'a catalog" where
  "log_update uts f op op_time entries c =
     (let c1 = (if c_batch c then c else finalize_counts c);
          c2 = c1\<lparr>c_modified := op_time\<rparr>
      in if \<not> c_log_updates c then Inr c2
         else sbind (group_by_locale entries []) (\<lambda>ups.
              sbind (write_logs uts f op op_time ups c2) (\<lambda>c3.
                Inr (c3\<lparr>c_attr_parts :=
                  dput_all (map (\<lambda>(name, p). (name, cp_modified p)) (c_parts c3)) (c_attr_parts c3)\<rparr>))))"

text \<open>An action of a manifest as the grouping sees it: depend or set, the name and the text.\<close>

record cact =
  ca_depend :: bool
  ca_name :: string
  ca_text :: string

definition starts_any :: "string \<Rightarrow> string list \<Rightarrow> bool" where
  "starts_any s ps = list_ex (starts_with s) ps"

definition dep_name :: "string \<Rightarrow> bool" where
  "dep_name name \<longleftrightarrow> starts_any name [''variant'', ''facet'', ''pkg.depend.'']
     \<or> name \<in> {''pkg.obsolete'', ''pkg.renamed'', ''pkg.legacy''}"

definition skipped_name :: "string \<Rightarrow> bool" where
  "skipped_name name \<longleftrightarrow> name \<in> {''fmri'', ''pkg.fmri'', ''publisher''}
     \<or> starts_any name [''info.source-url'', ''pkg.debug'', ''pkg.linted'']"

definition act_locale :: "string \<Rightarrow> string" where
  "act_locale name = (case split_on CHR '':'' name of a # b # _ \<Rightarrow> b | _ \<Rightarrow> ''C'')"

definition append_at :: "string \<Rightarrow> string \<Rightarrow> string list dict \<Rightarrow> string list dict" where
  "append_at k x d = dput k ((case dget d k of None \<Rightarrow> [] | Some l \<Rightarrow> l) @ [x]) d"

fun group_actions :: "cact list \<Rightarrow> string list dict \<times> string list dict \<Rightarrow>
    string list dict \<times> string list dict" where
  "group_actions [] (dep, summ) = (dep, summ)"
| "group_actions (a # rest) (dep, summ) =
     (if ca_depend a \<or> dep_name (ca_name a) then group_actions rest (append_at ''C'' (ca_text a) dep, summ)
      else if skipped_name (ca_name a) then group_actions rest (dep, summ)
      else group_actions rest (dep, append_at (act_locale (ca_name a)) (ca_text a) summ))"

text \<open>Adding the entry of one part; the parts are visited in the order of the grouping.\<close>

definition add_to_part ::
  "fmri \<Rightarrow> string \<Rightarrow> 'a centry \<Rightarrow> int \<Rightarrow> 'a catalog \<Rightarrow> 'a catalog \<times> (cat_exn + 'a centry)" where
  "add_to_part f name entry op_time c =
     (case get_part name False op_time c of
        Inl e \<Rightarrow> (c, Inl e)
      | Inr (None, c1) \<Rightarrow> (c1, Inl (CatPy AttributeError))
      | Inr (Some p, c1) \<Rightarrow>
          (case part_add (ByFmri f) (Some entry) op_time True p of (p', r) \<Rightarrow> (put_part p' c1, r)))"

fun add_to_parts ::
  "fmri \<Rightarrow> (string \<times> 'a centry) list \<Rightarrow> int \<Rightarrow> (string \<times> 'a centry) list \<Rightarrow> 'a catalog
     \<Rightarrow> 'a catalog \<times> (cat_exn + (string \<times> 'a centry) list)" where
  "add_to_parts f [] op_time done c = (c, Inr done)"
| "add_to_parts f ((name, entry) # rest) op_time done c =
     (case add_to_part f name entry op_time c of
        (c', Inl e) \<Rightarrow> (c', Inl e)
      | (c', Inr e) \<Rightarrow> add_to_parts f rest op_time (dput name e done) c')"

definition act_entries :: "cact list \<Rightarrow> (string \<times> 'a centry) list" where
  "act_entries acts =
     (let (dep, summ) = group_actions acts ([(''C'', [])], [(''C'', [])]);
          mk = (\<lambda>ctype (loc, l). (''catalog.'' @ ctype @ ''.'' @ loc,
                 \<lparr>e_version = [], e_actions = Some l, e_data = []\<rparr>))
      in map (mk ''dependency'') (filter (\<lambda>(loc, l). l \<noteq> []) dep)
         @ map (mk ''summary'') (filter (\<lambda>(loc, l). l \<noteq> []) summ))"

text \<open>
  \<open>add_package\<close>: the base entry (its metadata and the manifest's signatures, given as its
  dictionary) and, with a manifest, the entries of the other parts.  \<open>now\<close> is the current time.
\<close>

definition add_package ::
  "(int \<Rightarrow> string) \<Rightarrow> fmri \<Rightarrow> cact list option \<Rightarrow> 'a dict \<Rightarrow> int \<Rightarrow> 'a catalog
     \<Rightarrow> 'a catalog \<times> cat_exn option" where
  "add_package uts f manifest base_data now c =
     (if c_read_only c then (c, Some (CatPy AssertionError))
      else
        case add_to_parts f
          ((BASE_PART, \<lparr>e_version = [], e_actions = None, e_data = base_data\<rparr>)
             # (case manifest of None \<Rightarrow> [] | Some acts \<Rightarrow> act_entries acts)) now [] c of
          (c', Inl e) \<Rightarrow> (c', Some e)
        | (c', Inr entries) \<Rightarrow>
            (case log_update uts f OpAdd now entries c' of
               Inl e \<Rightarrow> (c', Some e)
             | Inr c'' \<Rightarrow> (c'', None)))"

text \<open>\<open>remove_package\<close> visits the parts the attributes name.\<close>

fun remove_from_parts ::
  "fmri \<Rightarrow> string list \<Rightarrow> int \<Rightarrow> (string \<times> 'a centry) list \<Rightarrow> 'a catalog
     \<Rightarrow> 'a catalog \<times> (cat_exn + (string \<times> 'a centry) list)" where
  "remove_from_parts f [] op_time done c = (c, Inr done)"
| "remove_from_parts f (name # rest) op_time done c =
     (case get_part name False op_time c of
        Inl e \<Rightarrow> (c, Inl e)
      | Inr (None, c1) \<Rightarrow> remove_from_parts f rest op_time done c1
      | Inr (Some p, c1) \<Rightarrow>
          (case part_get_entry (ByFmri f) p of
             Inl e \<Rightarrow> (c1, Inl e)
           | Inr None \<Rightarrow>
               if name = BASE_PART then (c1, Inl UnknownCatalogEntry)
               else remove_from_parts f rest op_time done c1
           | Inr (Some entry) \<Rightarrow>
               (case part_remove f op_time p of
                  Inl e \<Rightarrow> (c1, Inl e)
                | Inr p' \<Rightarrow>
                    remove_from_parts f rest op_time
                      (if c_log_updates c then dput name entry done else done) (put_part p' c1))))"

definition remove_package ::
  "(int \<Rightarrow> string) \<Rightarrow> fmri \<Rightarrow> int \<Rightarrow> 'a catalog \<Rightarrow> 'a catalog \<times> cat_exn option" where
  "remove_package uts f now c =
     (if c_read_only c then (c, Some (CatPy AssertionError))
      else
        case remove_from_parts f (dkeys (c_attr_parts c)) now [] c of
          (c', Inl e) \<Rightarrow> (c', Some e)
        | (c', Inr entries) \<Rightarrow>
            (case log_update uts f OpRemove now entries c' of
               Inl e \<Rightarrow> (c', Some e)
             | Inr c'' \<Rightarrow> (c'', None)))"

section \<open>Incremental updates\<close>

text \<open>The attributes of a catalog that decide what has to be retrieved.\<close>

record cat_attrs =
  at_created :: int
  at_modified :: int
  at_parts :: "int dict"
  at_updates :: "int dict"

datatype needed = NotModified | NeedParts "string set" | NeedLogs "string list"

definition add_at :: "string \<Rightarrow> string \<Rightarrow> string list dict \<Rightarrow> string list dict" where
  "add_at loc name d =
     (let l = (case dget d loc of None \<Rightarrow> [] | Some l \<Rightarrow> l)
      in dput loc (if name \<in> set l then l else l @ [name]) d)"

text \<open>The parts the client has: those that changed, by locale, and whether logs exist for all.\<close>

fun changed_parts ::
  "(int \<Rightarrow> string) \<Rightarrow> cat_attrs \<Rightarrow> (string \<times> int) list \<Rightarrow> string list dict \<Rightarrow> bool
     \<Rightarrow> cat_exn + (string list dict \<times> bool)" where
  "changed_parts uts new [] parts incremental = Inr (parts, incremental)"
| "changed_parts uts new ((name, old_lm) # rest) parts incremental =
     (case dget (at_parts new) name of
        None \<Rightarrow> Inl BadCatalogUpdateIdentity
      | Some new_lm \<Rightarrow>
          if new_lm = old_lm then changed_parts uts new rest parts incremental
          else if new_lm < old_lm then Inl ObsoleteCatalogUpdate
          else sbind (locale_of name) (\<lambda>loc.
            changed_parts uts new rest (add_at loc name parts)
              (incremental \<and> dget (at_updates new) (''update.'' @ uts old_lm @ ''.'' @ loc) \<noteq> None)))"

fun new_parts ::
  "cat_attrs \<Rightarrow> string set \<Rightarrow> string list \<Rightarrow> string list dict \<Rightarrow> bool
     \<Rightarrow> cat_exn + (string list dict \<times> bool)" where
  "new_parts old locales [] parts incremental = Inr (parts, incremental)"
| "new_parts old locales (name # rest) parts incremental =
     (if dget parts name \<noteq> None \<or> dget (at_parts old) name \<noteq> None
      then new_parts old locales rest parts incremental
      else sbind (locale_of name) (\<lambda>loc.
        if loc \<notin> locales then new_parts old locales rest parts incremental
        else if name = BASE_PART \<or> name = DEPS_PART \<or> starts_with name SUMM_PART_PFX
        then new_parts old locales rest (add_at loc name parts) False
        else new_parts old locales rest parts incremental))"

text \<open>The newest time of the client's parts of a locale.\<close>

definition last_lm :: "cat_attrs \<Rightarrow> string list \<Rightarrow> int option" where
  "last_lm old names =
     fold (\<lambda>name acc.
       case dget (at_parts old) name of
         None \<Rightarrow> acc
       | Some lm \<Rightarrow> (case acc of None \<Rightarrow> Some lm | Some l \<Rightarrow> Some (if lm > l then lm else l)))
       names None"

fun logs_for :: "string \<Rightarrow> int option \<Rightarrow> (string \<times> int) list \<Rightarrow> cat_exn + string list" where
  "logs_for loc lm [] = Inr []"
| "logs_for loc lm ((name, up_lm) # rest) =
     sbind (locale_of name) (\<lambda>up_loc.
       if up_loc \<noteq> loc then logs_for loc lm rest
       else case lm of
              None \<Rightarrow> Inl (CatPy TypeError)
            | Some l \<Rightarrow>
                if up_lm \<le> l then logs_for loc lm rest
                else sbind (logs_for loc lm rest) (\<lambda>r. Inr (name # r)))"

fun all_logs ::
  "cat_attrs \<Rightarrow> cat_attrs \<Rightarrow> (string \<times> string list) list \<Rightarrow> cat_exn + string list" where
  "all_logs old new [] = Inr []"
| "all_logs old new ((loc, names) # rest) =
     sbind (logs_for loc (last_lm old names) (at_updates new)) (\<lambda>l.
     sbind (all_logs old new rest) (\<lambda>r. Inr (l @ r)))"

text \<open>\<open>new\<close> is \<open>None\<close> where the directory holds no attributes file.\<close>

definition get_updates_needed ::
  "(int \<Rightarrow> string) \<Rightarrow> cat_attrs \<Rightarrow> cat_attrs option \<Rightarrow> cat_exn + needed" where
  "get_updates_needed uts old new_opt =
     (case new_opt of
        None \<Rightarrow> Inr NotModified
      | Some new \<Rightarrow>
          if at_created old \<noteq> at_created new then Inl BadCatalogUpdateIdentity
          else if at_modified new = at_modified old then Inr NotModified
          else
            sbind (changed_parts uts new (at_parts old) [] True) (\<lambda>(parts1, inc1).
            sbind (new_parts old (insert ''C'' (set (dkeys parts1))) (dkeys (at_parts new)) parts1 inc1)
              (\<lambda>(parts, incremental).
            if parts = [] then Inr (NeedLogs [])
            else if \<not> incremental then Inr (NeedParts (\<Union>(loc, names) \<in> set parts. set names))
            else sbind (all_logs old new parts) (\<lambda>l. Inr (NeedLogs (sort (remdups l)))))))"

text \<open>
  \<open>apply_incremental\<close>: every entry of the log is applied to the parts it names, unless it is not
  newer than the part was when the update began.
\<close>

definition apply_op :: "fmri \<Rightarrow> cat_op \<Rightarrow> int \<Rightarrow> 'a centry \<Rightarrow> 'a cpart \<Rightarrow> 'a cpart \<times> cat_exn option" where
  "apply_op f op op_time pdata p =
     (case op of
        OpAdd \<Rightarrow> (case part_add (ByFmri f) (Some pdata) op_time True p of
                    (p', Inl e) \<Rightarrow> (p', Some e)
                  | (p', Inr _) \<Rightarrow> (p', None))
      | OpRemove \<Rightarrow> (case part_remove f op_time p of Inl e \<Rightarrow> (p, Some e) | Inr p' \<Rightarrow> (p', None)))"

fun apply_meta ::
  "int dict \<Rightarrow> fmri \<Rightarrow> cat_op \<Rightarrow> int \<Rightarrow> (string \<times> 'a centry) list \<Rightarrow> 'a catalog
     \<Rightarrow> 'a catalog \<times> cat_exn option" where
  "apply_meta old f op op_time [] c = (c, None)"
| "apply_meta old f op op_time ((pname, pdata) # rest) c =
     (case dget (c_parts c) pname of
        None \<Rightarrow> apply_meta old f op op_time rest c
      | Some p \<Rightarrow>
          (case dget old pname of
             None \<Rightarrow> (c, Some (CatPy (KeyError pname)))
           | Some lm \<Rightarrow>
               if op_time \<le> lm then apply_meta old f op op_time rest c
               else case apply_op f op op_time pdata p of
                      (p', Some e) \<Rightarrow> (c\<lparr>c_parts := dput pname p' (c_parts c)\<rparr>, Some e)
                    | (p', None) \<Rightarrow>
                        apply_meta old f op op_time rest (c\<lparr>c_parts := dput pname p' (c_parts c)\<rparr>)))"

fun apply_updates_list ::
  "int dict \<Rightarrow> 'a upd list \<Rightarrow> 'a catalog \<Rightarrow> 'a catalog \<times> cat_exn option" where
  "apply_updates_list old [] c = (c, None)"
| "apply_updates_list old ((f, op, t, metadata) # rest) c =
     (case apply_meta old f op t metadata c of
        (c', Some e) \<Rightarrow> (c', Some e)
      | (c', None) \<Rightarrow> apply_updates_list old rest c')"

definition apply_incremental ::
  "int dict \<Rightarrow> 'a cupdate \<Rightarrow> 'a catalog \<Rightarrow> 'a catalog \<times> cat_exn option" where
  "apply_incremental old u c =
     (case update_updates u of Inl e \<Rightarrow> (c, Some e) | Inr l \<Rightarrow> apply_updates_list old l c)"

end
