(* ===== verification/Pkg_Timestamp.thy ===== *)
theory Pkg_Timestamp
  imports Pkg_Version
begin

text \<open>
  The time stamps of \<open>src/src/modules/catalog.py\<close>: \<open>datetime_to_ts\<close>, \<open>datetime_to_basic_ts\<close>,
  \<open>datetime_to_update_ts\<close> and the two readers.  A \<open>stamp\<close> is a \<open>datetime\<close> in UTC.  The catalog
  theories count time as an integer: \<open>stamp_code\<close> is one numbering of the points in time that
  respects their order, and \<open>update_ts\<close> the text an update log's name holds for such a number.
\<close>

section \<open>Printing and reading\<close>

record stamp =
  st_year :: int
  st_month :: int
  st_day :: int
  st_hour :: int
  st_minute :: int
  st_second :: int
  st_usec :: int

definition stamp_ok :: "stamp \<Rightarrow> bool" where
  "stamp_ok d \<longleftrightarrow> datetime_ok (st_year d) (st_month d) (st_day d) (st_hour d) (st_minute d) (st_second d)
     \<and> 0 \<le> st_usec d \<and> st_usec d \<le> 999999"

fun pad :: "nat \<Rightarrow> nat \<Rightarrow> string" where
  "pad 0 n = []"
| "pad (Suc w) n = pad w (n div 10) @ [char_of (48 + n mod 10)]"

definition datetime_to_ts :: "stamp \<Rightarrow> string" where
  "datetime_to_ts d =
     pad 4 (nat (st_year d)) @ ''-'' @ pad 2 (nat (st_month d)) @ ''-'' @ pad 2 (nat (st_day d))
     @ ''T'' @ pad 2 (nat (st_hour d)) @ '':'' @ pad 2 (nat (st_minute d)) @ '':''
     @ pad 2 (nat (st_second d))
     @ (if st_usec d = 0 then [] else ''.'' @ pad 6 (nat (st_usec d)))"

definition remove_char :: "char \<Rightarrow> string \<Rightarrow> string" where
  "remove_char c s = filter (\<lambda>x. x \<noteq> c) s"

definition datetime_to_basic_ts :: "stamp \<Rightarrow> string" where
  "datetime_to_basic_ts d =
     remove_char CHR '':'' (remove_char CHR ''-'' (datetime_to_ts d)) @ ''Z''"

text \<open>\<open>val.rsplit(":", n)[0]\<close>\<close>

fun rsplit_head :: "char \<Rightarrow> nat \<Rightarrow> string \<Rightarrow> string" where
  "rsplit_head c 0 s = s"
| "rsplit_head c (Suc n) s =
     (case py_rfind c s of None \<Rightarrow> s | Some i \<Rightarrow> rsplit_head c n (take i s))"

definition datetime_to_update_ts :: "stamp \<Rightarrow> string" where
  "datetime_to_update_ts d =
     remove_char CHR '':'' (rsplit_head CHR '':'' 2 (remove_char CHR ''-'' (datetime_to_ts d))) @ ''Z''"

definition read_int :: "string \<Rightarrow> nat \<Rightarrow> nat \<Rightarrow> py_exn + int" where
  "read_int ts lo hi = of_option ValueError (py_int (py_slice ts (Some lo) (Some hi)))"

text \<open>The constructor \<open>datetime.datetime\<close>, and the optional microseconds.\<close>

definition make_stamp ::
  "int \<Rightarrow> int \<Rightarrow> int \<Rightarrow> int \<Rightarrow> int \<Rightarrow> int \<Rightarrow> int \<Rightarrow> py_exn + stamp" where
  "make_stamp y mo d h mi s us =
     (let r = \<lparr>st_year = y, st_month = mo, st_day = d, st_hour = h, st_minute = mi, st_second = s,
               st_usec = us\<rparr>
      in if stamp_ok r then Inr r else Inl ValueError)"

definition read_usec :: "string \<Rightarrow> nat \<Rightarrow> nat \<Rightarrow> int" where
  "read_usec ts lo hi = (case read_int ts lo hi of Inl e \<Rightarrow> 0 | Inr n \<Rightarrow> n)"

definition ts_to_datetime :: "string \<Rightarrow> py_exn + stamp" where
  "ts_to_datetime ts =
     sbind (read_int ts 0 4) (\<lambda>y. sbind (read_int ts 5 7) (\<lambda>mo. sbind (read_int ts 8 10) (\<lambda>d.
     sbind (read_int ts 11 13) (\<lambda>h. sbind (read_int ts 14 16) (\<lambda>mi. sbind (read_int ts 17 19) (\<lambda>s.
       make_stamp y mo d h mi s (read_usec ts 20 26)))))))"

definition basic_ts_to_datetime :: "string \<Rightarrow> py_exn + stamp" where
  "basic_ts_to_datetime ts =
     sbind (read_int ts 0 4) (\<lambda>y. sbind (read_int ts 4 6) (\<lambda>mo. sbind (read_int ts 6 8) (\<lambda>d.
     sbind (read_int ts 9 11) (\<lambda>h. sbind (read_int ts 11 13) (\<lambda>mi. sbind (read_int ts 13 15) (\<lambda>s.
       make_stamp y mo d h mi s (read_usec ts 16 22)))))))"

section \<open>Digits\<close>

lemma length_pad [simp]: "length (pad w n) = w"
  by (induction w n rule: pad.induct) auto

lemma code_digit: "n < 10 \<Longrightarrow> code (char_of (48 + n)) = 48 + n"
  by (simp add: code_def)

lemma pad_digits: "c \<in> set (pad w n) \<Longrightarrow> is_digit c"
proof (induction w n rule: pad.induct)
  case (2 w n)
  have "n mod 10 < 10" by simp
  then have "is_digit (char_of (48 + n mod 10))" by (simp add: is_digit_def code_digit)
  then show ?case using 2 by auto
qed simp

lemma pad_no: "\<not> is_digit c \<Longrightarrow> c \<notin> set (pad w n)"
  using pad_digits by blast

lemma filter_pad: "\<not> is_digit c \<Longrightarrow> remove_char c (pad w n) = pad w n"
  unfolding remove_char_def by (rule filter_True) (auto dest: pad_digits)

lemma num_scan_pad:
  "n < 10 ^ w \<Longrightarrow> num_scan p a k (pad w n @ ys) =
     num_scan (p \<or> w > 0) (a * 10 ^ w + n) (k + w) ys"
proof (induction w n arbitrary: p a k ys rule: pad.induct)
  case (1 n)
  then show ?case by simp
next
  case (2 w n)
  have "n div 10 < 10 ^ w" using 2(2) by (simp add: less_mult_imp_div_less mult.commute)
  moreover have "n mod 10 < 10" by simp
  then have "is_digit (char_of (48 + n mod 10))" "digit_val (char_of (48 + n mod 10)) = n mod 10"
    by (simp_all add: is_digit_def digit_val_def code_digit)
  moreover have "10 * (a * 10 ^ w + n div 10) + n mod 10 = a * 10 ^ Suc w + n" by simp
  ultimately show ?case using "2.IH" by (simp add: algebra_simps)
qed

lemma digit_not_space: "is_digit c \<Longrightarrow> \<not> is_int_space c"
  by (auto simp: is_digit_def is_int_space_def)

lemma dropWhile_id: "(\<And>c. c \<in> set s \<Longrightarrow> \<not> P c) \<Longrightarrow> dropWhile P s = s"
  by (cases s) auto

lemma py_int_pad:
  assumes "n < 10 ^ w" "0 < w" "w \<le> 4300"
  shows "py_int (pad w n) = Some (int n)"
proof -
  have d: "\<And>c. c \<in> set (pad w n) \<Longrightarrow> \<not> is_int_space c"
    using pad_digits digit_not_space by blast
  then have "dropWhile is_int_space (pad w n) = pad w n"
    "dropWhile is_int_space (rev (pad w n)) = rev (pad w n)" by (auto intro: dropWhile_id)
  then have strip: "int_strip (pad w n) = pad w n" by (simp add: int_strip_def)
  have ne: "pad w n \<noteq> []" using length_pad [of w n] assms(2) by fastforce
  then have "is_digit (hd (pad w n))" using pad_digits [OF hd_in_set] by blast
  then have "hd (pad w n) \<noteq> CHR ''-''" "hd (pad w n) \<noteq> CHR ''+''"
    by (auto simp: is_digit_def code_def)
  then show ?thesis
    using num_scan_pad [OF assms(1), of False 0 0 "[]"] assms(2,3)
    by (simp add: py_int_def strip Let_def)
qed

lemma py_int_empty [simp]: "py_int [] = None"
  by (simp add: py_int_def int_strip_def Let_def)

section \<open>The printed forms\<close>

lemma remove_char_append [simp]: "remove_char c (xs @ ys) = remove_char c xs @ remove_char c ys"
  by (simp add: remove_char_def)

lemma remove_char_pad [simp]:
  "remove_char CHR ''-'' (pad w n) = pad w n" "remove_char CHR '':'' (pad w n) = pad w n"
  by (simp_all add: filter_pad is_digit_def code_def)

lemma remove_char_lit [simp]:
  "remove_char c [] = []" "remove_char c (x # xs) = (if x = c then remove_char c xs else x # remove_char c xs)"
  by (simp_all add: remove_char_def)

lemma basic_ts_text:
  "datetime_to_basic_ts d =
     pad 4 (nat (st_year d)) @ pad 2 (nat (st_month d)) @ pad 2 (nat (st_day d)) @ ''T''
     @ pad 2 (nat (st_hour d)) @ pad 2 (nat (st_minute d)) @ pad 2 (nat (st_second d))
     @ (if st_usec d = 0 then [] else ''.'' @ pad 6 (nat (st_usec d))) @ ''Z''"
  by (simp add: datetime_to_basic_ts_def datetime_to_ts_def del: pad.simps)

lemma rsplit_head_last:
  "c \<notin> set ys \<Longrightarrow> rsplit_head c (Suc n) (xs @ c # ys) = rsplit_head c n xs"
  by (simp add: py_rfind_append)

lemma update_ts_text:
  "datetime_to_update_ts d =
     pad 4 (nat (st_year d)) @ pad 2 (nat (st_month d)) @ pad 2 (nat (st_day d)) @ ''T''
     @ pad 2 (nat (st_hour d)) @ ''Z''"
proof -
  let ?a = "pad 4 (nat (st_year d)) @ pad 2 (nat (st_month d)) @ pad 2 (nat (st_day d)) @ ''T''
     @ pad 2 (nat (st_hour d))"
  let ?m = "pad 2 (nat (st_minute d))"
  let ?s = "pad 2 (nat (st_second d)) @ (if st_usec d = 0 then [] else ''.'' @ pad 6 (nat (st_usec d)))"
  have no: "CHR '':'' \<notin> set (pad w n)" for w n by (rule pad_no) (simp add: is_digit_def code_def)
  have "rsplit_head CHR '':'' (Suc (Suc 0)) ((?a @ CHR '':'' # ?m) @ CHR '':'' # ?s) = ?a"
  proof -
    have s: "CHR '':'' \<notin> set ?s" and m: "CHR '':'' \<notin> set ?m" using no by auto
    show ?thesis unfolding rsplit_head_last [OF s] rsplit_head_last [OF m] rsplit_head.simps(1) ..
  qed
  moreover have "remove_char CHR ''-'' (datetime_to_ts d) = (?a @ CHR '':'' # ?m) @ CHR '':'' # ?s"
    by (simp add: datetime_to_ts_def del: pad.simps)
  ultimately show ?thesis
    by (simp add: datetime_to_update_ts_def numeral_2_eq_2 del: pad.simps rsplit_head.simps)
qed

lemma stamp_ok_bounds:
  assumes "stamp_ok d"
  shows "1 \<le> st_year d" "st_year d \<le> 9999" "1 \<le> st_month d" "st_month d \<le> 12"
    "1 \<le> st_day d" "st_day d \<le> 31" "0 \<le> st_hour d" "st_hour d \<le> 23"
    "0 \<le> st_minute d" "st_minute d \<le> 59" "0 \<le> st_second d" "st_second d \<le> 59"
    "0 \<le> st_usec d" "st_usec d \<le> 999999"
  using assms by (auto simp: stamp_ok_def datetime_ok_def days_in_month_def split: if_splits)

lemma slice_mid:
  "length a = i \<Longrightarrow> length b = n \<Longrightarrow> py_slice (a @ b @ c) (Some i) (Some (i + n)) = b"
  by simp

lemma read_int_pad:
  assumes "ts = a @ pad w (nat x) @ c" "length a = i" "j = i + w" "0 \<le> x" "nat x < 10 ^ w" "0 < w" "w \<le> 6"
  shows "read_int ts i j = Inr x"
  using assms slice_mid [of a i "pad w (nat x)" w c] py_int_pad [of "nat x" w]
  by (simp add: read_int_def del: py_slice_simps)

lemma make_stamp_id:
  "stamp_ok d \<Longrightarrow> make_stamp (st_year d) (st_month d) (st_day d) (st_hour d) (st_minute d)
     (st_second d) (st_usec d) = Inr d"
  by (cases d) (simp add: make_stamp_def)

lemma basic_ts_roundtrip:
  assumes "stamp_ok d"
  shows "basic_ts_to_datetime (datetime_to_basic_ts d) = Inr d"
proof -
  note b = stamp_ok_bounds [OF assms]
  let ?Y = "pad 4 (nat (st_year d))" and ?M = "pad 2 (nat (st_month d))" and ?D = "pad 2 (nat (st_day d))"
    and ?h = "pad 2 (nat (st_hour d))" and ?m = "pad 2 (nat (st_minute d))"
    and ?s = "pad 2 (nat (st_second d))"
    and ?u = "if st_usec d = 0 then [] else ''.'' @ pad 6 (nat (st_usec d))"
  let ?ts = "datetime_to_basic_ts d"
  note t = basic_ts_text [of d]
  have "read_int ?ts 0 4 = Inr (st_year d)"
    by (rule read_int_pad [of _ "[]" 4]) (use b in \<open>simp_all add: t del: pad.simps\<close>)
  moreover have "read_int ?ts 4 6 = Inr (st_month d)"
    by (rule read_int_pad [of _ ?Y 2]) (use b in \<open>simp_all add: t del: pad.simps\<close>)
  moreover have "read_int ?ts 6 8 = Inr (st_day d)"
    by (rule read_int_pad [of _ "?Y @ ?M" 2]) (use b in \<open>simp_all add: t del: pad.simps\<close>)
  moreover have "read_int ?ts 9 11 = Inr (st_hour d)"
    by (rule read_int_pad [of _ "?Y @ ?M @ ?D @ ''T''" 2]) (use b in \<open>simp_all add: t del: pad.simps\<close>)
  moreover have "read_int ?ts 11 13 = Inr (st_minute d)"
    by (rule read_int_pad [of _ "?Y @ ?M @ ?D @ ''T'' @ ?h" 2]) (use b in \<open>simp_all add: t del: pad.simps\<close>)
  moreover have "read_int ?ts 13 15 = Inr (st_second d)"
    by (rule read_int_pad [of _ "?Y @ ?M @ ?D @ ''T'' @ ?h @ ?m" 2]) (use b in \<open>simp_all add: t del: pad.simps\<close>)
  moreover have "read_usec ?ts 16 22 = st_usec d"
  proof (cases "st_usec d = 0")
    case True
    then have "length ?ts = 16" by (simp add: t del: pad.simps)
    then have "py_slice ?ts (Some 16) (Some 22) = []" by simp
    then show ?thesis using True by (simp add: read_usec_def read_int_def del: py_slice_simps)
  next
    case False
    have "read_int ?ts 16 22 = Inr (st_usec d)"
      by (rule read_int_pad [of _ "?Y @ ?M @ ?D @ ''T'' @ ?h @ ?m @ ?s @ ''.''" 6])
        (use b False in \<open>simp_all add: t del: pad.simps\<close>)
    then show ?thesis by (simp add: read_usec_def)
  qed
  ultimately show ?thesis using assms by (simp add: basic_ts_to_datetime_def make_stamp_id)
qed

lemma ts_roundtrip:
  assumes "stamp_ok d"
  shows "ts_to_datetime (datetime_to_ts d) = Inr d"
proof -
  note b = stamp_ok_bounds [OF assms]
  let ?Y = "pad 4 (nat (st_year d))" and ?M = "pad 2 (nat (st_month d))" and ?D = "pad 2 (nat (st_day d))"
    and ?h = "pad 2 (nat (st_hour d))" and ?m = "pad 2 (nat (st_minute d))"
    and ?s = "pad 2 (nat (st_second d))"
  let ?ts = "datetime_to_ts d"
  note t = datetime_to_ts_def [of d]
  have "read_int ?ts 0 4 = Inr (st_year d)"
    by (rule read_int_pad [of _ "[]" 4]) (use b in \<open>simp_all add: t del: pad.simps\<close>)
  moreover have "read_int ?ts 5 7 = Inr (st_month d)"
    by (rule read_int_pad [of _ "?Y @ ''-''" 2]) (use b in \<open>simp_all add: t del: pad.simps\<close>)
  moreover have "read_int ?ts 8 10 = Inr (st_day d)"
    by (rule read_int_pad [of _ "?Y @ ''-'' @ ?M @ ''-''" 2]) (use b in \<open>simp_all add: t del: pad.simps\<close>)
  moreover have "read_int ?ts 11 13 = Inr (st_hour d)"
    by (rule read_int_pad [of _ "?Y @ ''-'' @ ?M @ ''-'' @ ?D @ ''T''" 2])
      (use b in \<open>simp_all add: t del: pad.simps\<close>)
  moreover have "read_int ?ts 14 16 = Inr (st_minute d)"
    by (rule read_int_pad [of _ "?Y @ ''-'' @ ?M @ ''-'' @ ?D @ ''T'' @ ?h @ '':''" 2])
      (use b in \<open>simp_all add: t del: pad.simps\<close>)
  moreover have "read_int ?ts 17 19 = Inr (st_second d)"
    by (rule read_int_pad [of _ "?Y @ ''-'' @ ?M @ ''-'' @ ?D @ ''T'' @ ?h @ '':'' @ ?m @ '':''" 2])
      (use b in \<open>simp_all add: t del: pad.simps\<close>)
  moreover have "read_usec ?ts 20 26 = st_usec d"
  proof (cases "st_usec d = 0")
    case True
    then have "length ?ts = 19" by (simp add: t del: pad.simps)
    then have "py_slice ?ts (Some 20) (Some 26) = []" by simp
    then show ?thesis using True by (simp add: read_usec_def read_int_def del: py_slice_simps)
  next
    case False
    have "read_int ?ts 20 26 = Inr (st_usec d)"
      by (rule read_int_pad [of _ "?Y @ ''-'' @ ?M @ ''-'' @ ?D @ ''T'' @ ?h @ '':'' @ ?m @ '':'' @ ?s @ ''.''" 6])
        (use b False in \<open>simp_all add: t del: pad.simps\<close>)
    then show ?thesis by (simp add: read_usec_def)
  qed
  ultimately show ?thesis using assms by (simp add: ts_to_datetime_def make_stamp_id)
qed

section \<open>Points in time\<close>

definition hour_code :: "stamp \<Rightarrow> int" where
  "hour_code d = ((st_year d * 13 + st_month d) * 32 + st_day d) * 24 + st_hour d"

definition stamp_code :: "stamp \<Rightarrow> int" where
  "stamp_code d = hour_code d * 3600000000
     + ((st_minute d * 60 + st_second d) * 1000000 + st_usec d)"

definition code_stamp :: "int \<Rightarrow> stamp" where
  "code_stamp t =
     (let us = t mod 1000000; a = t div 1000000; s = a mod 60; b = a div 60; mi = b mod 60;
          c = b div 60; h = c mod 24; e = c div 24; dy = e mod 32; g = e div 32
      in \<lparr>st_year = g div 13, st_month = g mod 13, st_day = dy, st_hour = h, st_minute = mi,
          st_second = s, st_usec = us\<rparr>)"

definition valid_time :: "int \<Rightarrow> bool" where
  "valid_time t \<longleftrightarrow> stamp_ok (code_stamp t)"

definition update_ts :: "int \<Rightarrow> string" where
  "update_ts t = datetime_to_update_ts (code_stamp t)"

text \<open>One number in mixed radix and its digits.\<close>

lemma radix_join:
  fixes t :: int
  assumes "t = a * 1000000 + us" "a = b * 60 + s" "b = c * 60 + mi" "c = e * 24 + h"
    "e = g * 32 + dy" "g = y * 13 + mo"
  shows "(((y * 13 + mo) * 32 + dy) * 24 + h) * 3600000000 + ((mi * 60 + s) * 1000000 + us) = t"
  using assms by (simp add: algebra_simps)

lemma code_stamp_code: "stamp_code (code_stamp t) = t"
  unfolding stamp_code_def hour_code_def code_stamp_def Let_def stamp.simps
  by (rule radix_join) (rule div_mult_mod_eq [symmetric])+

lemma radix_split:
  fixes q :: int
  assumes "t = q * m + r" "0 \<le> r" "r < m"
  shows "t div m = q" "t mod m = r"
  using assms by simp_all

lemma stamp_code_stamp:
  assumes "stamp_ok d"
  shows "code_stamp (stamp_code d) = d"
proof -
  note b = stamp_ok_bounds [OF assms]
  define g where "g = st_year d * 13 + st_month d"
  define e where "e = g * 32 + st_day d"
  define c where "c = e * 24 + st_hour d"
  define b' where "b' = c * 60 + st_minute d"
  define a where "a = b' * 60 + st_second d"
  have t: "stamp_code d = a * 1000000 + st_usec d"
    by (simp add: stamp_code_def hour_code_def a_def b'_def c_def e_def g_def algebra_simps)
  have "stamp_code d div 1000000 = a" "stamp_code d mod 1000000 = st_usec d"
    by (rule radix_split [OF t]; use b in simp)+
  moreover have "a div 60 = b'" "a mod 60 = st_second d"
    by (rule radix_split [OF a_def]; use b in simp)+
  moreover have "b' div 60 = c" "b' mod 60 = st_minute d"
    by (rule radix_split [OF b'_def]; use b in simp)+
  moreover have "c div 24 = e" "c mod 24 = st_hour d"
    by (rule radix_split [OF c_def]; use b in simp)+
  moreover have "e div 32 = g" "e mod 32 = st_day d"
    by (rule radix_split [OF e_def]; use b in simp)+
  moreover have "g div 13 = st_year d" "g mod 13 = st_month d"
    by (rule radix_split [OF g_def]; use b in simp)+
  ultimately have "code_stamp (stamp_code d) =
      \<lparr>st_year = st_year d, st_month = st_month d, st_day = st_day d, st_hour = st_hour d,
       st_minute = st_minute d, st_second = st_second d, st_usec = st_usec d\<rparr>"
    unfolding code_stamp_def Let_def by (simp only:)
  then show ?thesis by simp
qed

lemma hour_code_div:
  assumes "stamp_ok d"
  shows "stamp_code d div 3600000000 = hour_code d"
proof -
  have "0 \<le> (st_minute d * 60 + st_second d) * 1000000 + st_usec d"
    "(st_minute d * 60 + st_second d) * 1000000 + st_usec d < 3600000000"
    using stamp_ok_bounds [OF assms] by simp_all
  then show ?thesis by (simp add: stamp_code_def)
qed

lemma hour_code_le:
  assumes "stamp_ok d" "stamp_ok e" and "hour_code d \<le> hour_code e"
  shows "(st_year d, st_month d, st_day d, st_hour d) \<le> (st_year e, st_month e, st_day e, st_hour e)"
proof -
  have "st_year d * 9984 + st_month d * 768 + st_day d * 24 + st_hour d
      \<le> st_year e * 9984 + st_month e * 768 + st_day e * 24 + st_hour e"
    using assms(3) by (simp add: hour_code_def)
  note b = this stamp_ok_bounds(3-8) [OF assms(1)] stamp_ok_bounds(3-8) [OF assms(2)]
  have y: "st_year d \<le> st_year e" using b by linarith
  have m: "st_year d = st_year e \<Longrightarrow> st_month d \<le> st_month e" using b by linarith
  have dy: "st_year d = st_year e \<Longrightarrow> st_month d = st_month e \<Longrightarrow> st_day d \<le> st_day e"
    using b by linarith
  have h: "st_year d = st_year e \<Longrightarrow> st_month d = st_month e \<Longrightarrow> st_day d = st_day e
      \<Longrightarrow> st_hour d \<le> st_hour e" using b by linarith
  show ?thesis using y m dy h by (auto simp: less_eq_prod_def order_le_less)
qed

section \<open>The order of the texts\<close>

lemma append_le:
  "length a = length b \<Longrightarrow> a @ x \<le> b @ y \<longleftrightarrow> a < b \<or> a = b \<and> x \<le> (y :: 'a::linorder list)"
  by (induction a b rule: list_induct2) auto

lemma append_less:
  "length a = length b \<Longrightarrow> a @ x < b @ y \<longleftrightarrow> a < b \<or> a = b \<and> x < (y :: 'a::linorder list)"
  by (induction a b rule: list_induct2) auto

lemma digit_less: "m < 10 \<Longrightarrow> n < 10 \<Longrightarrow> char_of (48 + m) < (char_of (48 + n) :: char) \<longleftrightarrow> m < (n :: nat)"
  by (simp add: less_char_def)

lemma pad_less: "m < 10 ^ w \<Longrightarrow> n < 10 ^ w \<Longrightarrow> pad w m < pad w n \<longleftrightarrow> m < n"
proof (induction w arbitrary: m n)
  case (Suc w)
  have d: "m div 10 < 10 ^ w" "n div 10 < 10 ^ w"
    using Suc.prems by (simp_all add: less_mult_imp_div_less mult.commute)
  have eq: "pad w (m div 10) = pad w (n div 10) \<longleftrightarrow> m div 10 = n div 10"
    using Suc.IH [OF d] Suc.IH [OF d(2,1)] by (metis less_irrefl linorder_neqE)
  have "q < q' \<or> q = q' \<and> r < r' \<longleftrightarrow> q * 10 + r < q' * 10 + r'" if "r < 10" "r' < 10"
    for q q' r r' :: nat using that by auto
  then have "m div 10 < n div 10 \<or> m div 10 = n div 10 \<and> m mod 10 < n mod 10 \<longleftrightarrow> m < n"
    using div_mult_mod_eq [of m 10] div_mult_mod_eq [of n 10] by simp
  moreover have "pad (Suc w) m < pad (Suc w) n \<longleftrightarrow>
      m div 10 < n div 10 \<or> m div 10 = n div 10 \<and> m mod 10 < n mod 10"
    unfolding pad.simps append_less [OF trans [OF length_pad length_pad [symmetric]]] Suc.IH [OF d] eq
    by (simp add: digit_less)
  ultimately show ?case by (simp only:)
qed simp

lemma pad_int_less:
  "\<lbrakk>0 \<le> x; 0 \<le> y; x < 10 ^ w; y < 10 ^ w\<rbrakk> \<Longrightarrow> pad w (nat x) < pad w (nat y) \<longleftrightarrow> x < y"
  using pad_less [of "nat x" w "nat y"] by (auto simp: nat_less_iff nat_less_eq_zless)

lemma update_ts_mono:
  assumes "stamp_ok d" "stamp_ok e" and "stamp_code d \<le> stamp_code e"
  shows "datetime_to_update_ts d \<le> datetime_to_update_ts e"
proof -
  have "hour_code d \<le> hour_code e"
    using zdiv_mono1 [OF assms(3), of 3600000000] hour_code_div assms(1,2) by simp
  then have le: "(st_year d, st_month d, st_day d, st_hour d) \<le> (st_year e, st_month e, st_day e, st_hour e)"
    using hour_code_le assms(1,2) by blast
  note b = stamp_ok_bounds [OF assms(1)] stamp_ok_bounds [OF assms(2)]
  have "pad 4 (nat (st_year d)) < pad 4 (nat (st_year e)) \<longleftrightarrow> st_year d < st_year e"
    "pad 2 (nat (st_month d)) < pad 2 (nat (st_month e)) \<longleftrightarrow> st_month d < st_month e"
    "pad 2 (nat (st_day d)) < pad 2 (nat (st_day e)) \<longleftrightarrow> st_day d < st_day e"
    "pad 2 (nat (st_hour d)) < pad 2 (nat (st_hour e)) \<longleftrightarrow> st_hour d < st_hour e"
    by (rule pad_int_less; use b in simp)+
  then show ?thesis
    using le unfolding update_ts_text by (auto simp: append_le less_eq_prod_def simp del: pad.simps)
qed

section \<open>The interface of the clock\<close>

text \<open>
  What the update logs rely on: the text of an hour holds no dot, all texts are equally long, and
  later times have no smaller texts.
\<close>

locale update_clock =
  fixes uts :: "int \<Rightarrow> string" and valid :: "int \<Rightarrow> bool"
  assumes no_dot: "valid t \<Longrightarrow> CHR ''.'' \<notin> set (uts t)"
    and same_length: "valid t \<Longrightarrow> valid t' \<Longrightarrow> length (uts t) = length (uts t')"
    and mono: "valid t \<Longrightarrow> valid t' \<Longrightarrow> t \<le> t' \<Longrightarrow> uts t \<le> uts t'"
begin

lemma log_name_mono:
  "valid t \<Longrightarrow> valid t' \<Longrightarrow> t \<le> t' \<Longrightarrow>
     ''update.'' @ uts t @ ''.'' @ loc \<le> ''update.'' @ uts t' @ ''.'' @ loc"
  using mono [of t t'] append_le [OF same_length [of t t'], of "''.'' @ loc" "''.'' @ loc"]
  by (simp add: order_le_less)

end

interpretation hour_clock: update_clock update_ts valid_time
proof
  fix t t'
  have no: "CHR ''.'' \<notin> set (pad w n)" for w n by (rule pad_no) (simp add: is_digit_def code_def)
  show "CHR ''.'' \<notin> set (update_ts t)"
    using no by (auto simp: update_ts_def update_ts_text simp del: pad.simps)
  show "length (update_ts t) = length (update_ts t')"
    by (simp add: update_ts_def update_ts_text del: pad.simps)
  show "valid_time t \<Longrightarrow> valid_time t' \<Longrightarrow> t \<le> t' \<Longrightarrow> update_ts t \<le> update_ts t'"
    unfolding update_ts_def valid_time_def
    using update_ts_mono [of "code_stamp t" "code_stamp t'"] by (simp add: code_stamp_code)
qed

section \<open>Properties\<close>

text \<open>
  The two printed forms of a time in UTC, with or without microseconds, are read back to the
  same time, and the name of an hour's update log never decreases as time goes on.
\<close>

lemma timestamps_roundtrip_ordered:
  assumes "stamp_ok d" "stamp_ok e"
  shows "ts_to_datetime (datetime_to_ts d) = Inr d
    \<and> basic_ts_to_datetime (datetime_to_basic_ts d) = Inr d
    \<and> (stamp_code d \<le> stamp_code e \<longrightarrow> datetime_to_update_ts d \<le> datetime_to_update_ts e)"
  using ts_roundtrip [OF assms(1)] basic_ts_roundtrip [OF assms(1)] update_ts_mono [OF assms] by blast

lemma timestamps_roundtrip_ordered_witness:
  "let d = \<lparr>st_year = 2024, st_month = 2, st_day = 29, st_hour = 23, st_minute = 59,
      st_second = 58, st_usec = 7\<rparr>
   in basic_ts_to_datetime (datetime_to_basic_ts d) = Inr d"
proof -
  have "stamp_ok \<lparr>st_year = 2024, st_month = 2, st_day = 29, st_hour = 23, st_minute = 59,
      st_second = 58, st_usec = 7\<rparr>"
    by (simp add: stamp_ok_def datetime_ok_def days_in_month_def is_leap_def)
  then show ?thesis using timestamps_roundtrip_ordered by (simp add: Let_def del: pad.simps)
qed

end
