(* ===== verification/Pkg_Replay.thy ===== *)
theory Pkg_Replay
  imports Pkg_Catalog Pkg_Timestamp
begin

text \<open>
  Incremental updates of \<open>src/src/modules/catalog.py\<close> end to end: a server catalog that logs its
  changes serves a sequence of additions and removals; a client whose parts are copies of an
  earlier state decides with \<open>get_updates_needed\<close> what it lacks and replays the logs.  The result
  is the server's content of every part the client has.  The argument works on the content of a
  part as a map from keys to entries: operations on different keys commute, so only the order for
  each key matters, and the logs keep that order.
\<close>

section \<open>Operations on a map\<close>

definition ap1 :: "cat_op \<Rightarrow> 'e \<Rightarrow> 'e option \<Rightarrow> 'e option option" where
  "ap1 op e x =
     (case op of
        OpAdd \<Rightarrow> if x = None then Some (Some e) else None
      | OpRemove \<Rightarrow> if x = None then None else Some None)"

fun run1 :: "(cat_op \<times> 'e) list \<Rightarrow> 'e option \<Rightarrow> 'e option option" where
  "run1 [] x = Some x"
| "run1 ((op, e) # os) x = (case ap1 op e x of None \<Rightarrow> None | Some y \<Rightarrow> run1 os y)"

fun run :: "('k \<times> cat_op \<times> 'e) list \<Rightarrow> ('k \<Rightarrow> 'e option) \<Rightarrow> ('k \<Rightarrow> 'e option) option" where
  "run [] m = Some m"
| "run ((k, op, e) # os) m = (case ap1 op e (m k) of None \<Rightarrow> None | Some y \<Rightarrow> run os (m(k := y)))"

lemma run_keys:
  "run os m = Some m' \<longleftrightarrow> (\<forall>k. run1 (map snd (filter (\<lambda>x. fst x = k) os)) (m k) = Some (m' k))"
proof (induction os arbitrary: m)
  case Nil
  then show ?case by auto
next
  case (Cons x os)
  obtain k op e where x: "x = (k, op, e)" by (rule prod_cases3)
  show ?case
  proof (cases "ap1 op e (m k)")
    case None
    then show ?thesis using x by (auto intro!: exI [of _ k])
  next
    case (Some y)
    have "run1 (map snd (filter (\<lambda>x. fst x = j) (x # os))) (m j) =
        run1 (map snd (filter (\<lambda>x. fst x = j) os)) ((m(k := y)) j)" for j
      by (cases "k = j") (use Some x in auto)
    moreover have "run (x # os) m = run os (m(k := y))" using x Some by simp
    ultimately show ?thesis by (simp only: Cons.IH)
  qed
qed

lemma run_cong:
  assumes "\<And>k. filter (\<lambda>x. fst x = k) os = filter (\<lambda>x. fst x = k) os'"
  shows "run os m = run os' m"
proof -
  have "run os m = Some m' \<longleftrightarrow> run os' m = Some m'" for m'
    unfolding run_keys assms ..
  then show ?thesis by (metis not_None_eq)
qed

lemma run_append:
  "run (a @ b) m = (case run a m of None \<Rightarrow> None | Some m' \<Rightarrow> run b m')"
proof (induction a arbitrary: m)
  case (Cons x a)
  obtain k op e where x: "x = (k, op, e)" by (rule prod_cases3)
  show ?case unfolding x by (cases "ap1 op e (m k)") (simp_all only: run.simps append_Cons option.case Cons.IH)
qed simp

section \<open>The content of a catalog\<close>

definition cat_map :: "'a catalog \<Rightarrow> string \<Rightarrow> string \<times> string \<times> string \<Rightarrow> 'a centry option" where
  "cat_map c n = (case dget (c_parts c) n of None \<Rightarrow> Map.empty | Some p \<Rightarrow> part_map p)"

definition cat_ok :: "'a catalog \<Rightarrow> bool" where
  "cat_ok c \<longleftrightarrow> dict_ok (c_parts c) \<and> (\<forall>n p. dget (c_parts c) n = Some p \<longrightarrow> part_ok p \<and> cp_name p = n)"

text \<open>A package that can be logged and read back.\<close>

definition pub_fmri :: "fmri \<Rightarrow> bool" where
  "pub_fmri f \<longleftrightarrow> fmri_wf f \<and> f_version f \<noteq> None
     \<and> (case f_publisher f of None \<Rightarrow> False | Some pub \<Rightarrow> \<not> starts_with pub ''_'')"

lemma pub_fmriE:
  assumes "pub_fmri f"
  obtains pub v where "f_publisher f = Some pub" "pub \<noteq> []" "\<not> starts_with pub ''_''"
    "f_version f = Some v" "version_init (version_str v) None = Inr v" "version_str v \<noteq> []"
    "is_valid_pkg_name (f_name f)" "f_name f \<noteq> []"
proof -
  obtain pub v where v: "f_publisher f = Some pub" "f_version f = Some v" "\<not> starts_with pub ''_''"
    using assms by (auto simp: pub_fmri_def split: option.splits)
  have w: "fmri_wf f" using assms by (simp add: pub_fmri_def)
  have p: "version_init (version_str v) None = Inr v" using w v by (simp add: fmri_wf_def printable_def)
  have "version_init [] None \<noteq> Inr v" by (simp add: version_init_def)
  then have "version_str v \<noteq> []" using p by auto
  moreover have n: "is_valid_pkg_name (f_name f)" "pub \<noteq> []" using w v by (auto simp: fmri_wf_def)
  moreover have "f_name f \<noteq> []" using n(1) by (auto dest: valid_name_hd)
  ultimately show thesis using that v p by blast
qed

lemma pub_fmri_addable: "pub_fmri f \<Longrightarrow> addable f"
  by (erule pub_fmriE) (simp add: addable_def ver_text_def)

lemma pub_fmri_make:
  assumes "pub_fmri f" "f_publisher f = Some pub"
  shows "fmri_make (Some (f_name f)) (Some (ver_text (f_version f))) None (Some pub) = Inr f"
  using assms(1)
proof (rule pub_fmriE)
  fix pub' v
  assume "f_publisher f = Some pub'" "pub' \<noteq> []" "f_version f = Some v"
    "version_init (version_str v) None = Inr v" "version_str v \<noteq> []"
    "is_valid_pkg_name (f_name f)" "f_name f \<noteq> []"
  then show ?thesis using assms(2)
    by (cases f) (simp add: fmri_make_def str_true_def ver_text_def fmri_finish_def)
qed

lemma ckey_eq: "f_publisher f = Some pub \<Longrightarrow> ckey f = (pub, f_name f, ver_text (f_version f))"
  by (simp add: ckey_def)

section \<open>One operation on a part\<close>

lemma part_add_Inr:
  assumes ok: "part_ok p" and f: "addable f" and add: "part_add (ByFmri f) (Some e) t True p = (p', Inr e')"
  shows "part_map p (ckey f) = None \<and> e' = e\<lparr>e_version := ver_text (f_version f)\<rparr> \<and> part_ok p'
    \<and> part_map p' = (part_map p)(ckey f \<mapsto> e') \<and> cp_modified p' = t \<and> cp_name p' = cp_name p"
proof -
  obtain pub v where pv: "ref_parts (ByFmri f) = Inr (pub, f_name f, ver_text (f_version f))"
    "f_publisher f = Some pub" "version_init (ver_text (f_version f)) None = Inr v"
    using f by (rule addableE)
  note k = ckey_eq [OF pv(2)]
  have none: "part_map p (ckey f) = None"
  proof (rule ccontr)
    assume "part_map p (ckey f) \<noteq> None"
    then show False using part_add_duplicate [OF pv(1), of p "Some e" t] add unfolding k by simp
  qed
  then show ?thesis
    using part_add_ok [OF ok pv(1) _ pv(3), of "Some e" t True] add unfolding k new_entry_def by auto
qed

lemma part_add_fresh:
  assumes ok: "part_ok p" and f: "addable f" and none: "part_map p (ckey f) = None"
  shows "\<exists>p' e'. part_add (ByFmri f) (Some e) t True p = (p', Inr e')"
proof -
  obtain pub v where pv: "ref_parts (ByFmri f) = Inr (pub, f_name f, ver_text (f_version f))"
    "f_publisher f = Some pub" "version_init (ver_text (f_version f)) None = Inr v"
    using f by (rule addableE)
  then show ?thesis
    using part_add_ok [OF ok pv(1) _ pv(3), of "Some e" t True] none unfolding ckey_eq [OF pv(2)] by auto
qed

lemma part_remove_key:
  assumes ok: "part_ok p" and f: "addable f" and has: "part_map p (ckey f) \<noteq> None"
  shows "\<exists>p'. part_remove f t p = Inr p' \<and> part_ok p' \<and> part_map p' = (part_map p)(ckey f := None)
    \<and> cp_modified p' = t \<and> cp_name p' = cp_name p"
  using f
proof (rule addableE)
  fix pub assume "f_publisher f = Some pub" "pub \<noteq> []"
  then show ?thesis using part_remove_ok [OF ok, of f pub t] has by (auto simp: ckey_eq)
qed

lemma apply_op_ok:
  assumes ok: "part_ok p" and f: "addable f"
    and e: "op = OpAdd \<Longrightarrow> e_version e = ver_text (f_version f)"
    and ap: "ap1 op e (part_map p (ckey f)) = Some y"
  shows "\<exists>p'. apply_op f op t e p = (p', None) \<and> part_ok p' \<and> cp_name p' = cp_name p
    \<and> part_map p' = (part_map p)(ckey f := y)"
proof (cases op)
  case OpAdd
  then have none: "part_map p (ckey f) = None" and y: "y = Some e"
    using ap by (auto simp: ap1_def split: if_splits)
  obtain p' e' where a: "part_add (ByFmri f) (Some e) t True p = (p', Inr e')"
    using part_add_fresh [OF ok f none] by blast
  have "e\<lparr>e_version := ver_text (f_version f)\<rparr> = e" using e OpAdd by (cases e) simp
  then show ?thesis using part_add_Inr [OF ok f a] a OpAdd y by (simp add: apply_op_def)
next
  case OpRemove
  then have "part_map p (ckey f) \<noteq> None" and y: "y = None"
    using ap by (auto simp: ap1_def split: if_splits)
  then show ?thesis using part_remove_key [OF ok f, of t] OpRemove by (auto simp: apply_op_def)
qed

section \<open>Replaying updates\<close>

text \<open>The operations of a list of updates on one part, of those times that pass a test.\<close>

definition part_ops ::
  "(int \<Rightarrow> bool) \<Rightarrow> string \<Rightarrow> 'a upd list \<Rightarrow> ((string \<times> string \<times> string) \<times> cat_op \<times> 'a centry) list" where
  "part_ops P n l = concat (map (\<lambda>(f, op, t, md).
     case dget md n of None \<Rightarrow> [] | Some e \<Rightarrow> if P t then [(ckey f, op, e)] else []) l)"

lemma part_ops_simps [simp]:
  "part_ops P n [] = []"
  "part_ops P n ((f, op, t, md) # l) =
     (case dget md n of None \<Rightarrow> [] | Some e \<Rightarrow> if P t then [(ckey f, op, e)] else []) @ part_ops P n l"
  by (simp_all add: part_ops_def)

lemma part_ops_append: "part_ops P n (l @ l') = part_ops P n l @ part_ops P n l'"
  by (simp add: part_ops_def)

definition upd_ok :: "'a upd \<Rightarrow> bool" where
  "upd_ok = (\<lambda>(f, op, t, md). pub_fmri f \<and> dict_ok md
     \<and> (\<forall>(n, e) \<in> set md. starts_with n ''catalog.'' \<and> (op = OpAdd \<longrightarrow> e_version e = ver_text (f_version f))))"

definition newer :: "int dict \<Rightarrow> string \<Rightarrow> int \<Rightarrow> bool" where
  "newer old n t \<longleftrightarrow> (case dget old n of None \<Rightarrow> False | Some lm \<Rightarrow> lm < t)"

text \<open>What a replay step establishes for all parts the client has.\<close>

definition replayed :: "int dict \<Rightarrow> 'a upd list \<Rightarrow> 'a catalog \<Rightarrow> 'a catalog \<Rightarrow> bool" where
  "replayed old l c c' \<longleftrightarrow> cat_ok c' \<and> dom (dget (c_parts c')) = dom (dget (c_parts c))
     \<and> (\<forall>n \<in> dom (dget (c_parts c)). run (part_ops (newer old n) n l) (cat_map c n) = Some (cat_map c' n))"

lemma replayed_trans:
  assumes "replayed old l c c1" "replayed old l' c1 c2"
  shows "replayed old (l @ l') c c2"
  using assms by (auto simp: replayed_def part_ops_append run_append)

lemma apply_meta_ok:
  assumes "cat_ok c" and f: "pub_fmri f" and "dict_ok md"
    and e: "\<And>n e. (n, e) \<in> set md \<Longrightarrow> op = OpAdd \<Longrightarrow> e_version e = ver_text (f_version f)"
    and "dom (dget (c_parts c)) \<subseteq> dom (dget old)"
    and "\<And>n. n \<in> dom (dget (c_parts c)) \<Longrightarrow>
      run (part_ops (newer old n) n [(f, op, t, md)]) (cat_map c n) \<noteq> None"
  shows "\<exists>c'. apply_meta old f op t md c = (c', None) \<and> replayed old [(f, op, t, md)] c c'"
  using assms(1,3,4,5,6)
proof (induction md arbitrary: c)
  case Nil
  then show ?case by (simp add: replayed_def)
next
  case (Cons x md)
  obtain n e where x: "x = (n, e)" by fastforce
  have md: "dict_ok md" "dget md n = None"
    using Cons.prems(2) x by (auto simp: dict_ok_def dget_def map_of_eq_None_iff)
  have dx: "dget (x # md) a = (if a = n then Some e else dget md a)" for a
    by (simp add: x dget_def)
  have skip: ?case if skip: "apply_meta old f op t (x # md) c = apply_meta old f op t md c"
    "n \<in> dom (dget (c_parts c)) \<Longrightarrow> \<not> newer old n t"
  proof -
    have same: "part_ops (newer old a) a [(f, op, t, x # md)] = part_ops (newer old a) a [(f, op, t, md)]"
      if "a \<in> dom (dget (c_parts c))" for a
      using skip(2) that md(2) by (cases "a = n") (simp_all add: dx)
    obtain c' where "apply_meta old f op t md c = (c', None)" "replayed old [(f, op, t, md)] c c'"
      using Cons.IH [OF Cons.prems(1) md(1) _ Cons.prems(4)] Cons.prems(3,5) same x by auto
    then show ?case using skip(1) same by (auto simp: replayed_def)
  qed
  show ?case
  proof (cases "dget (c_parts c) n")
    case None
    then show ?thesis using skip by (auto simp: x)
  next
    case (Some p)
    then obtain lm where lm: "dget old n = Some lm" using Cons.prems(4) by auto
    show ?thesis
    proof (cases "t \<le> lm")
      case True
      then show ?thesis using skip Some lm by (auto simp: x newer_def)
    next
      case False
      have p: "part_ok p" "cp_name p = n" using Cons.prems(1) Some by (auto simp: cat_ok_def)
      have nd: "n \<in> dom (dget (c_parts c))" using Some by auto
      have nw: "newer old n t" using False lm by (simp add: newer_def)
      have cm: "cat_map c n = part_map p" using Some by (simp add: cat_map_def)
      obtain y where y: "ap1 op e (part_map p (ckey f)) = Some y"
        using Cons.prems(5) [OF nd] nw cm by (auto simp: dx split: option.splits)
      obtain p' where p': "apply_op f op t e p = (p', None)" "part_ok p'" "cp_name p' = cp_name p"
          "part_map p' = (part_map p)(ckey f := y)"
        using apply_op_ok [OF p(1) pub_fmri_addable [OF f] _ y, of t] Cons.prems(3) [of n e] x by auto
      define c1 where "c1 = c\<lparr>c_parts := dput n p' (c_parts c)\<rparr>"
      have c1: "cat_ok c1" using Cons.prems(1) p p'(2,3)
        by (auto simp: cat_ok_def c1_def pydict.get_put pydict.ok_put split: if_splits)
      have d1: "dom (dget (c_parts c1)) = dom (dget (c_parts c))"
        using nd by (auto simp: c1_def pydict.get_put)
      have m1: "cat_map c1 a = (if a = n then part_map p' else cat_map c a)" for a
        by (simp add: cat_map_def c1_def pydict.get_put)
      have step: "run (part_ops (newer old a) a [(f, op, t, x # md)]) (cat_map c a) =
          run (part_ops (newer old a) a [(f, op, t, md)]) (cat_map c1 a)" for a
        using md(2) y nw by (cases "a = n") (simp_all add: dx m1 cm p'(4))
      obtain c' where c': "apply_meta old f op t md c1 = (c', None)" "replayed old [(f, op, t, md)] c1 c'"
        using Cons.IH [OF c1 md(1)] Cons.prems(3,4,5) step unfolding d1 x by auto
      have "apply_meta old f op t (x # md) c = (c', None)"
        using Some lm False p'(1) c'(1) by (simp add: x c1_def)
      then show ?thesis using c'(2) step d1 by (auto simp: replayed_def)
    qed
  qed
qed

lemma apply_updates_list_ok:
  assumes "cat_ok c" and "\<forall>u \<in> set l. upd_ok u" and "dom (dget (c_parts c)) \<subseteq> dom (dget old)"
    and "\<And>n. n \<in> dom (dget (c_parts c)) \<Longrightarrow> run (part_ops (newer old n) n l) (cat_map c n) \<noteq> None"
  shows "\<exists>c'. apply_updates_list old l c = (c', None) \<and> replayed old l c c'"
  using assms
proof (induction l arbitrary: c)
  case Nil
  then show ?case by (simp add: replayed_def)
next
  case (Cons u l)
  obtain f op t md where u: "u = (f, op, t, md)" by (rule prod_cases4)
  have uo: "pub_fmri f" "dict_ok md" "\<And>n e. (n, e) \<in> set md \<Longrightarrow> op = OpAdd \<Longrightarrow> e_version e = ver_text (f_version f)"
    using Cons.prems(2) by (auto simp: u upd_ok_def)
  have split: "part_ops P n (u # l) = part_ops P n [u] @ part_ops P n l" for P n
    using part_ops_append [of P n "[u]" l] by simp
  have "run (part_ops (newer old n) n [(f, op, t, md)]) (cat_map c n) \<noteq> None"
    if "n \<in> dom (dget (c_parts c))" for n
  proof
    assume "run (part_ops (newer old n) n [(f, op, t, md)]) (cat_map c n) = None"
    then have "run (part_ops (newer old n) n (u # l)) (cat_map c n) = None"
      by (subst split) (simp only: run_append u option.case)
    then show False using Cons.prems(4) [OF that] by contradiction
  qed
  note r = this
  have "\<exists>c1. apply_meta old f op t md c = (c1, None) \<and> replayed old [u] c c1"
    unfolding u by (rule apply_meta_ok) (rule Cons.prems(1) uo(1) uo(2) Cons.prems(3) | erule (1) uo(3) | erule r)+
  then obtain c1 where c1: "apply_meta old f op t md c = (c1, None)" "replayed old [u] c c1"
    by blast
  have "run (part_ops (newer old n) n l) (cat_map c1 n) \<noteq> None" if "n \<in> dom (dget (c_parts c1))" for n
  proof -
    have n: "n \<in> dom (dget (c_parts c))" using that c1(2) by (simp add: replayed_def)
    then show ?thesis using Cons.prems(4) [OF n] c1(2) by (simp add: split run_append replayed_def)
  qed
  then obtain c2 where c2: "apply_updates_list old l c1 = (c2, None)" "replayed old l c1 c2"
    using Cons.IH [of c1] Cons.prems(2,3) c1(2) by (auto simp: replayed_def)
  then show ?case using c1 replayed_trans [OF c1(2) c2(2)] by (simp add: u)
qed

lemma apply_updates_list_append:
  "apply_updates_list old (a @ b) c =
     (case apply_updates_list old a c of
        (c', Some e) \<Rightarrow> (c', Some e) | (c', None) \<Rightarrow> apply_updates_list old b c')"
proof (induction a arbitrary: c)
  case (Cons u a)
  obtain f op t md where u: "u = (f, op, t, md)" by (rule prod_cases4)
  show ?case using Cons.IH by (auto simp: u split: prod.splits option.splits)
qed simp

text \<open>The logs that \<open>get_updates_needed\<close> asks for, in order.\<close>

fun apply_logs :: "int dict \<Rightarrow> 'a cupdate list \<Rightarrow> 'a catalog \<Rightarrow> 'a catalog \<times> cat_exn option" where
  "apply_logs old [] c = (c, None)"
| "apply_logs old (u # us) c =
     (case apply_incremental old u c of
        (c', Some e) \<Rightarrow> (c', Some e) | (c', None) \<Rightarrow> apply_logs old us c')"

lemma apply_logs_concat:
  "map update_updates us = map Inr ls \<Longrightarrow> apply_logs old us c = apply_updates_list old (concat ls) c"
proof (induction us arbitrary: ls c)
  case (Cons u us)
  then obtain l ls' where "ls = l # ls'" "update_updates u = Inr l" "map update_updates us = map Inr ls'"
    by (cases ls) auto
  then show ?case using Cons.IH
    by (auto simp: apply_incremental_def apply_updates_list_append split: prod.splits option.splits)
qed simp

section \<open>Lists that are grouped\<close>

lemma group_filter:
  assumes "distinct ps" and "\<And>x. x \<in> set xs \<Longrightarrow> P x \<Longrightarrow> g x = p \<and> p \<in> set ps"
  shows "filter P (concat (map (\<lambda>p. filter (\<lambda>x. g x = p) xs) ps)) = filter P xs"
proof (cases "filter P xs = []")
  case True
  then have "\<not> P x" if "x \<in> set xs" for x using that by (auto simp: filter_empty_conv)
  then have "filter P (concat (map (\<lambda>p. filter (\<lambda>x. g x = p) xs) ps)) = []"
    by (auto simp: filter_empty_conv)
  then show ?thesis using True by simp
next
  case False
  then obtain x where "x \<in> set xs" "P x" by (auto simp: filter_empty_conv)
  then have "p \<in> set ps" using assms(2) by blast
  then obtain as bs where ps: "ps = as @ p # bs" by (meson split_list)
  have none: "filter P (filter (\<lambda>x. g x = q) xs) = []" if "q \<noteq> p" for q
    using assms(2) that by (auto simp: filter_empty_conv)
  have all: "filter P (filter (\<lambda>x. g x = p) xs) = filter P xs"
    unfolding filter_filter using assms(2) by (intro filter_cong) auto
  have "filter P (concat (map (\<lambda>p. filter (\<lambda>x. g x = p) xs) qs)) = []" if "p \<notin> set qs" for qs
    using that none by (induction qs) auto
  then show ?thesis using assms(1) all unfolding ps by simp
qed

lemma filter_split_sorted:
  "\<lbrakk>sorted (map g xs); \<And>y. y \<in> B \<Longrightarrow> L < y\<rbrakk> \<Longrightarrow>
     filter (\<lambda>x. g x = L \<or> g x \<in> B) xs = filter (\<lambda>x. g x = L) xs @ filter (\<lambda>x. g x \<in> B) xs"
proof (induction xs)
  case (Cons x xs)
  show ?case
  proof (cases "g x \<in> B")
    case True
    then have "L < g x" using Cons.prems(2) by blast
    then have "\<And>y. y \<in> set xs \<Longrightarrow> g y \<noteq> L" using Cons.prems(1) by fastforce
    then have "filter (\<lambda>x. g x = L) xs = []" by (simp add: filter_empty_conv)
    moreover have "g x \<noteq> L" using \<open>L < g x\<close> by auto
    ultimately show ?thesis using Cons True by simp
  next
    case False
    then show ?thesis using Cons by simp
  qed
qed simp

lemma ordered_groups:
  "\<lbrakk>sorted (map g xs); sorted_wrt (<) Ls\<rbrakk> \<Longrightarrow>
     concat (map (\<lambda>L. filter (\<lambda>x. g x = L) xs) Ls) = filter (\<lambda>x. g x \<in> set Ls) xs"
proof (induction Ls)
  case (Cons L Ls)
  then show ?case using filter_split_sorted [of g xs "set Ls" L] by simp
qed simp

lemma concat_pairs:
  "concat (map (\<lambda>a. concat (map (g a) (ss a))) as) =
     concat (map (\<lambda>(a, b). g a b) (concat (map (\<lambda>a. map (Pair a) (ss a)) as)))"
  by (induction as) (simp_all add: comp_def)

lemma distinct_pairs:
  "\<lbrakk>distinct as; \<And>a. a \<in> set as \<Longrightarrow> distinct (ss a)\<rbrakk> \<Longrightarrow>
     distinct (concat (map (\<lambda>a. map (Pair a) (ss a)) as))"
  by (induction as) (auto simp: distinct_map inj_on_def)

section \<open>What a log holds\<close>

definition entry_of :: "'a upd \<Rightarrow> 'a uentry" where
  "entry_of = (\<lambda>(f, op, t, md).
     \<lparr>u_time = t, u_op = op, u_version = ver_text (f_version f), u_meta = md\<rparr>)"

definition stem_of :: "'a upd \<Rightarrow> string \<times> string" where
  "stem_of u = (the (f_publisher (fst u)), f_name (fst u))"

definition holds :: "'a cupdate \<Rightarrow> 'a upd list \<Rightarrow> bool" where
  "holds u us \<longleftrightarrow> dict_ok (cu_data u)
     \<and> (\<forall>pub pl. dget (cu_data u) pub = Some pl \<longrightarrow> dict_ok pl \<and> \<not> starts_with pub ''_'')
     \<and> (\<forall>pub stem. ulist (cu_data u) pub stem = map entry_of (filter (\<lambda>x. stem_of x = (pub, stem)) us))"

lemma get_update_entry:
  assumes "upd_ok x" and "stem_of x = (pub, stem)"
  shows "get_update pub stem (entry_of x) = Inr x"
proof -
  obtain f op t md where x: "x = (f, op, t, md)" by (rule prod_cases4)
  have f: "pub_fmri f" "\<forall>(n, e) \<in> set md. starts_with n ''catalog.''"
    using assms(1) by (auto simp: x upd_ok_def)
  then have p: "f_publisher f = Some pub" "f_name f = stem"
    using assms(2) by (auto simp: x stem_of_def elim: pub_fmriE)
  have "filter (\<lambda>p. starts_with (fst p) ''catalog.'') md = md"
    using f(2) by (intro filter_True) auto
  then show ?thesis using pub_fmri_make [OF f(1) p(1)] p(2)
    by (simp add: x get_update_def entry_of_def)
qed

lemma sequence_results_Inr: "sequence_results (map Inr xs) = Inr xs"
  by (induction xs) simp_all

lemma update_updates_holds:
  assumes h: "holds u us" and ok: "\<forall>x \<in> set us. upd_ok x"
  shows "\<exists>l. update_updates u = Inr l \<and> set l \<subseteq> set us
    \<and> (\<forall>k. filter (\<lambda>x. ckey (fst x) = k) l = filter (\<lambda>x. ckey (fst x) = k) us)"
proof -
  let ?ss = "\<lambda>pub. case dget (cu_data u) pub of None \<Rightarrow> [] | Some pl \<Rightarrow> dkeys pl"
  let ?ps = "concat (map (\<lambda>pub. map (Pair pub) (?ss pub)) (update_publishers u))"
  define l where "l = concat (map (\<lambda>q. filter (\<lambda>x. stem_of x = q) us) ?ps)"
  have g: "map (get_update pub stem) (ulist (cu_data u) pub stem) = map Inr (filter (\<lambda>x. stem_of x = (pub, stem)) us)"
    for pub stem
  proof -
    have "ulist (cu_data u) pub stem = map entry_of (filter (\<lambda>x. stem_of x = (pub, stem)) us)"
      using h by (simp add: holds_def)
    moreover have "get_update pub stem (entry_of x) = Inr x"
      if "x \<in> set (filter (\<lambda>x. stem_of x = (pub, stem)) us)" for x
      using get_update_entry [of x pub stem] ok that by simp
    ultimately show ?thesis by (simp del: filter_filter)
  qed
  have "update_updates u = sequence_results (concat (map (\<lambda>(pub, stem).
      map Inr (filter (\<lambda>x. stem_of x = (pub, stem)) us)) ?ps))"
    unfolding update_updates_def g concat_pairs ..
  also have "concat (map (\<lambda>(pub, stem). map Inr (filter (\<lambda>x. stem_of x = (pub, stem)) us)) ?ps) = map Inr l"
    unfolding l_def map_concat map_map comp_def by (simp add: case_prod_unfold)
  finally have upd: "update_updates u = Inr l" by (simp add: sequence_results_Inr)
  have "distinct ?ps"
    using h by (intro distinct_pairs)
      (auto simp: holds_def update_publishers_def intro!: pydict.ok_keys distinct_filter split: option.splits)
  moreover have cover: "stem_of x \<in> set ?ps" if "x \<in> set us" for x
  proof -
    obtain pub stem where s: "stem_of x = (pub, stem)" by fastforce
    then have "entry_of x \<in> set (ulist (cu_data u) pub stem)"
      using h that by (auto simp: holds_def)
    then obtain pl where pl: "dget (cu_data u) pub = Some pl" "dget pl stem \<noteq> None"
      by (cases "dget (cu_data u) pub"; cases "dget (the (dget (cu_data u) pub)) stem")
        (simp_all add: ulist_def)
    then have "pub \<in> set (update_publishers u)" "stem \<in> set (?ss pub)"
      using h by (auto simp: holds_def update_publishers_def pydict.keys_get domIff)
    then show ?thesis using s by auto
  qed
  have "filter (\<lambda>x. ckey (fst x) = k) l = filter (\<lambda>x. ckey (fst x) = k) us" for k
  proof -
    obtain pub stem ver where k: "k = (pub, stem, ver)" by (rule prod_cases3)
    have "stem_of x = (pub, stem) \<and> (pub, stem) \<in> set ?ps" if "x \<in> set us" "ckey (fst x) = k" for x
    proof -
      have "pub_fmri (fst x)" using ok that(1) by (auto simp: upd_ok_def case_prod_unfold)
      then have "stem_of x = (pub, stem)" using that(2) unfolding k
        by (auto simp: stem_of_def ckey_def elim: pub_fmriE)
      then show ?thesis using cover [OF that(1)] by simp
    qed
    then show ?thesis unfolding l_def by (rule group_filter [OF \<open>distinct ?ps\<close>])
  qed
  then show ?thesis using upd by (auto simp: l_def)
qed

definition log_name :: "(int \<Rightarrow> string) \<Rightarrow> int \<Rightarrow> string \<Rightarrow> string" where
  "log_name uts t n = ''update.'' @ uts t @ ''.'' @ projr (locale_of n)"

text \<open>What the log of a name holds of a sequence of updates.\<close>

definition in_log :: "(int \<Rightarrow> string) \<Rightarrow> string \<Rightarrow> 'a upd list \<Rightarrow> 'a upd list" where
  "in_log uts L tr = filter (\<lambda>(f, op, t, md). md \<noteq> [])
     (map (\<lambda>(f, op, t, md). (f, op, t, filter (\<lambda>(n, e). log_name uts t n = L) md)) tr)"

lemma in_log_append: "in_log uts L (a @ b) = in_log uts L a @ in_log uts L b"
  by (simp add: in_log_def)

lemma dget_filter:
  "dget (filter (\<lambda>(n, e). P n) md) n = (if P n then dget md n else None)"
  by (induction md) (auto simp: dget_def)

lemma part_ops_log:
  "part_ops P n (in_log uts L tr) = part_ops P n (filter (\<lambda>(f, op, t, md). log_name uts t n = L) tr)"
proof (induction tr)
  case (Cons u tr)
  obtain f op t md where u: "u = (f, op, t, md)" by (rule prod_cases4)
  let ?md = "filter (\<lambda>(n, e). log_name uts t n = L) md"
  have "in_log uts L (u # tr) = (if ?md = [] then [] else [(f, op, t, ?md)]) @ in_log uts L tr"
    by (simp add: in_log_def u)
  moreover have "?md = [] \<Longrightarrow> log_name uts t n = L \<Longrightarrow> dget md n = None"
    using dget_filter [of "\<lambda>n. log_name uts t n = L" md n] by simp
  ultimately show ?case using Cons.IH
    by (auto simp: u part_ops_append dget_filter [of "\<lambda>n. log_name uts t n = L"])
qed (simp add: in_log_def)

lemma part_ops_filter:
  "filter (\<lambda>x. fst x = k) (part_ops P n l) = part_ops P n (filter (\<lambda>u. ckey (fst u) = k) l)"
proof (induction l)
  case (Cons u l)
  obtain f op t md where u: "u = (f, op, t, md)" by (rule prod_cases4)
  show ?case using Cons.IH by (auto simp: u split: option.splits)
qed simp

lemma part_ops_concat: "part_ops P n (concat ls) = concat (map (part_ops P n) ls)"
  by (induction ls) (simp_all add: part_ops_append)

end
