(* ===== verification/Pkg_Server.thy ===== *)
theory Pkg_Server
  imports Pkg_Replay
begin

text \<open>
  A server catalog of \<open>src/src/modules/catalog.py\<close> over time: a sequence of calls of
  \<open>add_package\<close> and \<open>remove_package\<close> is a trace of updates.  The invariant \<open>srv\<close> says that every
  part is the result of the trace, that the attributes name every part with the time it was last
  changed, and that every log holds the part of the trace its name stands for.
\<close>

section \<open>The server\<close>

datatype 'a request = ReqAdd fmri "cact list option" "'a dict" | ReqRemove fmri

fun serve :: "(int \<Rightarrow> string) \<Rightarrow> 'a request \<Rightarrow> int \<Rightarrow> 'a catalog \<Rightarrow> 'a catalog \<times> cat_exn option" where
  "serve uts (ReqAdd f manifest base) t c = add_package uts f manifest base t c"
| "serve uts (ReqRemove f) t c = remove_package uts f t c"

fun serve_all :: "(int \<Rightarrow> string) \<Rightarrow> ('a request \<times> int) list \<Rightarrow> 'a catalog \<Rightarrow> 'a catalog option" where
  "serve_all uts [] c = Some c"
| "serve_all uts ((r, t) # rs) c =
     (case serve uts r t c of (c', None) \<Rightarrow> serve_all uts rs c' | (c', Some e) \<Rightarrow> None)"

fun req_fmri :: "'a request \<Rightarrow> fmri" where
  "req_fmri (ReqAdd f manifest base) = f"
| "req_fmri (ReqRemove f) = f"

definition mods :: "'a catalog \<Rightarrow> string \<Rightarrow> int option" where
  "mods c n = map_option cp_modified (dget (c_parts c) n)"

text \<open>What one request does to the parts it names.\<close>

definition touched ::
  "fmri \<Rightarrow> cat_op \<Rightarrow> int \<Rightarrow> 'a centry dict \<Rightarrow> 'a catalog \<Rightarrow> 'a catalog \<Rightarrow> bool" where
  "touched f op t ents c c' \<longleftrightarrow> cat_ok c' \<and> dict_ok (c_attr_parts c')
     \<and> c' = c\<lparr>c_parts := c_parts c', c_attr_parts := c_attr_parts c'\<rparr>
     \<and> (\<forall>n. run (part_ops (\<lambda>t. True) n [(f, op, t, ents)]) (cat_map c n) = Some (cat_map c' n))
     \<and> mods c' = (\<lambda>n. if dget ents n = None then mods c n else Some t)
     \<and> dom (dget (c_attr_parts c')) = dom (dget (c_attr_parts c)) \<union> dom (dget ents)"

lemma dget_single: "dget [(n, e)] m = (if m = n then Some e else None)"
  by (simp add: dget_def)

lemma touched_Nil:
  "cat_ok c \<Longrightarrow> dict_ok (c_attr_parts c) \<Longrightarrow> touched f op t [] c c"
  by (simp add: touched_def dom_def)

lemma touched_Cons:
  assumes a: "touched f op t [(n, e)] c c1" and b: "touched f op t ents c1 c2" and n: "dget ents n = None"
  shows "touched f op t ((n, e) # ents) c c2"
proof -
  have d: "dget ((n, e) # ents) m = (if m = n then Some e else dget ents m)" for m
    by (simp add: dget_def)
  have "run (part_ops (\<lambda>t. True) m [(f, op, t, (n, e) # ents)]) (cat_map c m) = Some (cat_map c2 m)" for m
  proof (cases "m = n")
    case True
    have "run [(ckey f, op, e)] (cat_map c n) = Some (cat_map c1 n)"
      using a by (auto simp: touched_def dget_single dest: spec [of _ n])
    moreover have "cat_map c1 n = cat_map c2 n" using b n by (auto simp: touched_def dest: spec [of _ n])
    ultimately show ?thesis using True by (simp add: d)
  next
    case False
    have "cat_map c m = cat_map c1 m" using a False by (auto simp: touched_def dget_single dest: spec [of _ m])
    moreover have "run (part_ops (\<lambda>t. True) m [(f, op, t, ents)]) (cat_map c1 m) = Some (cat_map c2 m)"
      using b by (simp add: touched_def)
    ultimately show ?thesis using False by (simp add: d)
  qed
  moreover have "c2 = c\<lparr>c_parts := c_parts c2, c_attr_parts := c_attr_parts c2\<rparr>"
  proof -
    have "c1 = c\<lparr>c_parts := c_parts c1, c_attr_parts := c_attr_parts c1\<rparr>"
      "c2 = c1\<lparr>c_parts := c_parts c2, c_attr_parts := c_attr_parts c2\<rparr>"
      using a b by (simp_all add: touched_def)
    then show ?thesis by (cases c; cases c1; cases c2) simp
  qed
  ultimately show ?thesis using a b unfolding touched_def by (auto simp: d dget_single fun_eq_iff split: if_splits)
qed

text \<open>One part that \<open>get_part\<close> gives, replaced.\<close>

lemma get_part_cases:
  fixes c :: "'a catalog"
  assumes "get_part name False t c = Inr (po, c1)"
  obtains p where "po = Some p" "dget (c_parts c) name = Some p" "c1 = c"
  | p where "po = Some p" "dget (c_parts c) name = None" "part_init name (\<not> c_batch c) t = Inr p"
      "c1 = c\<lparr>c_parts := dput name p (c_parts c),
              c_attr_parts := (if dget (c_attr_parts c) name = None then dput name t (c_attr_parts c)
                               else c_attr_parts c)\<rparr>"
proof (cases "dget (c_parts c) name")
  case None
  then obtain p where "part_init name (\<not> c_batch c) t = Inr p" "po = Some p"
    "c1 = c\<lparr>c_parts := dput name p (c_parts c),
        c_attr_parts := (if dget (c_attr_parts c) name = None then dput name t (c_attr_parts c)
                         else c_attr_parts c)\<rparr>"
    using assms by (cases "part_init name (\<not> c_batch c) t :: cat_exn + 'a cpart")
      (simp_all add: get_part_def)
  then show thesis using that(2) None by blast
next
  case (Some p)
  then have "po = Some p" "c1 = c" using assms by (simp_all add: get_part_def)
  then show thesis using that(1) Some by blast
qed

lemma part_init_name: "part_init name ordered t = Inr p \<Longrightarrow> cp_name p = name"
  by (auto simp: part_init_def split: if_splits)

lemma get_part_facts:
  assumes g: "get_part name False t c = Inr (Some p, c1)" and ok: "cat_ok c" and d: "dict_ok (c_attr_parts c)"
    and dom: "dom (dget (c_attr_parts c)) = dom (dget (c_parts c))"
  shows "part_ok p" "cp_name p = name" "part_map p = cat_map c name"
    "\<And>p'. cp_name p' = name \<Longrightarrow> part_ok p' \<Longrightarrow> cat_ok (put_part p' c1)"
    "\<And>p' n. cp_name p' = name \<Longrightarrow> cat_map (put_part p' c1) n = (if n = name then part_map p' else cat_map c n)"
    "\<And>p' n. cp_name p' = name \<Longrightarrow> mods (put_part p' c1) n = (if n = name then Some (cp_modified p') else mods c n)"
    "dict_ok (c_attr_parts c1)" "dom (dget (c_attr_parts c1)) = insert name (dom (dget (c_attr_parts c)))"
    "\<And>p'. put_part p' c1 = c\<lparr>c_parts := c_parts (put_part p' c1), c_attr_parts := c_attr_parts c1\<rparr>"
proof -
  have cs: "dget (c_parts c) name = Some p \<and> c1 = c \<or>
      dget (c_parts c) name = None \<and> part_ok p \<and> part_map p = Map.empty \<and> cp_name p = name
      \<and> c1 = c\<lparr>c_parts := dput name p (c_parts c),
               c_attr_parts := (if dget (c_attr_parts c) name = None then dput name t (c_attr_parts c)
                                else c_attr_parts c)\<rparr>"
    by (rule get_part_cases [OF g]) (use part_init_ok part_init_name in auto)
  then show "part_ok p" "cp_name p = name" "part_map p = cat_map c name"
    using ok by (auto simp: cat_ok_def cat_map_def)
  have parts: "c_parts (put_part p' c1) = dput name p' (c_parts c)" if "cp_name p' = name" for p'
    using cs that by (auto simp: put_part_def dput_twice)
  show "cat_ok (put_part p' c1)" if "cp_name p' = name" "part_ok p'" for p'
    using ok that by (auto simp: cat_ok_def parts pydict.get_put pydict.ok_put split: if_splits)
  show "cat_map (put_part p' c1) n = (if n = name then part_map p' else cat_map c n)"
    "mods (put_part p' c1) n = (if n = name then Some (cp_modified p') else mods c n)"
    if "cp_name p' = name" for p' n
    by (simp_all add: cat_map_def mods_def parts [OF that] pydict.get_put)
  show "dict_ok (c_attr_parts c1)" "dom (dget (c_attr_parts c1)) = insert name (dom (dget (c_attr_parts c)))"
  proof -
    have "name \<in> dom (dget (c_attr_parts c)) \<and> c_attr_parts c1 = c_attr_parts c
        \<or> c_attr_parts c1 = dput name t (c_attr_parts c)"
    proof -
      have "name \<in> dom (dget (c_attr_parts c)) \<longleftrightarrow> dget (c_parts c) name \<noteq> None" using dom by blast
      then show ?thesis using cs by (cases "dget (c_attr_parts c) name") auto
    qed
    then show "dict_ok (c_attr_parts c1)" "dom (dget (c_attr_parts c1)) = insert name (dom (dget (c_attr_parts c)))"
      using d by (auto simp: pydict.ok_put pydict.get_put)
  qed
  show "put_part p' c1 = c\<lparr>c_parts := c_parts (put_part p' c1), c_attr_parts := c_attr_parts c1\<rparr>" for p'
    using cs by (auto simp: put_part_def)
qed

text \<open>Adding and removing entries, part by part.\<close>

definition named :: "'a centry dict \<Rightarrow> bool" where
  "named ents \<longleftrightarrow> dict_ok ents
     \<and> (\<forall>n \<in> set (dkeys ents). starts_with n ''catalog.'' \<and> (\<exists>loc. locale_of n = Inr loc))"

lemma add_to_part_ok:
  assumes "cat_ok c" "dict_ok (c_attr_parts c)" "dom (dget (c_attr_parts c)) = dom (dget (c_parts c))"
    and f: "addable f" and add: "add_to_part f n entry t c = (c', Inr e)"
  shows "touched f OpAdd t [(n, e)] c c' \<and> e_version e = ver_text (f_version f)
    \<and> dom (dget (c_attr_parts c')) = dom (dget (c_parts c'))"
proof -
  obtain p c1 p' where g: "get_part n False t c = Inr (Some p, c1)"
    and a: "part_add (ByFmri f) (Some entry) t True p = (p', Inr e)" and c': "c' = put_part p' c1"
    using add by (auto simp: add_to_part_def split: sum.splits option.splits prod.splits)
  note gp = get_part_facts [OF g assms(1,2,3)]
  note pa = part_add_Inr [OF gp(1) f a]
  have p': "cp_name p' = n" "part_ok p'" using pa gp(2) by auto
  have "run (part_ops (\<lambda>t. True) m [(f, OpAdd, t, [(n, e)])]) (cat_map c m) = Some (cat_map c' m)" for m
    using pa gp(3) by (simp add: dget_single c' gp(5) [OF p'(1)] ap1_def)
  moreover have "mods c' = (\<lambda>m. if dget [(n, e)] m = None then mods c m else Some t)"
    using pa by (auto simp: c' gp(6) [OF p'(1)] dget_single fun_eq_iff)
  moreover have "c_attr_parts c' = c_attr_parts c1" by (simp add: c' put_part_def)
  moreover have "dom (dget (c_parts c')) = insert n (dom (dget (c_parts c1)))"
    by (auto simp: c' put_part_def p' pydict.get_put)
  moreover have "dom (dget (c_parts c1)) = insert n (dom (dget (c_parts c)))"
    by (rule get_part_cases [OF g]) (auto simp: pydict.get_put)
  ultimately show ?thesis
    unfolding touched_def using gp(4) [OF p'] gp(7,8) gp(9) [of p'] pa assms(3)
    by (auto simp: c' dget_single dom_def)
qed

lemma dput_snoc: "n \<notin> fst ` set d \<Longrightarrow> dput n e d = d @ [(n, e)]"
  by (rule dput_new) (auto simp: dget_def map_of_eq_None_iff)

lemma add_to_parts_ok:
  assumes "cat_ok c" "dict_ok (c_attr_parts c)" "dom (dget (c_attr_parts c)) = dom (dget (c_parts c))"
    and "addable f" "distinct (map fst acc @ map fst L)"
    and "add_to_parts f L t acc c = (c', Inr ents)"
  shows "\<exists>new. ents = acc @ new \<and> map fst new = map fst L
    \<and> (\<forall>(n, e) \<in> set new. e_version e = ver_text (f_version f)) \<and> touched f OpAdd t new c c'
    \<and> dom (dget (c_attr_parts c')) = dom (dget (c_parts c'))"
  using assms
proof (induction L arbitrary: acc c)
  case Nil
  then show ?case by (auto simp: touched_Nil)
next
  case (Cons x L)
  obtain n entry where x: "x = (n, entry)" by fastforce
  obtain c1 e where a: "add_to_part f n entry t c = (c1, Inr e)"
    and r: "add_to_parts f L t (dput n e acc) c1 = (c', Inr ents)"
    using Cons.prems(6) by (auto simp: x split: prod.splits sum.splits)
  note t1 = add_to_part_ok [OF Cons.prems(1-4) a]
  have dn: "dput n e acc = acc @ [(n, e)]"
    using Cons.prems(5) by (intro dput_snoc) (auto simp: x)
  have "cat_ok c1" "dict_ok (c_attr_parts c1)" using t1 by (auto simp: touched_def)
  moreover have "distinct (map fst (acc @ [(n, e)]) @ map fst L)" using Cons.prems(5) by (auto simp: x)
  ultimately obtain new where new: "ents = (acc @ [(n, e)]) @ new" "map fst new = map fst L"
      "\<forall>(n, e) \<in> set new. e_version e = ver_text (f_version f)" "touched f OpAdd t new c1 c'"
      "dom (dget (c_attr_parts c')) = dom (dget (c_parts c'))"
    using Cons.IH [of c1 "acc @ [(n, e)]"] t1 Cons.prems(4) r unfolding dn by blast
  have "dget new n = None"
    using Cons.prems(5) new(2) by (simp add: x dget_def map_of_eq_None_iff flip: set_map)
  then have "touched f OpAdd t ((n, e) # new) c c'" using touched_Cons t1 new(4) by blast
  then show ?case using new t1 by (intro exI [of _ "(n, e) # new"]) (auto simp: x)
qed
lemma remove_from_parts_ok:
  assumes "cat_ok c" "dict_ok (c_attr_parts c)" "dom (dget (c_attr_parts c)) = dom (dget (c_parts c))"
    and "addable f" "distinct (map fst acc @ names)" "set names \<subseteq> dom (dget (c_parts c))"
    and "c_log_updates c"
    and "remove_from_parts f names t acc c = (c', Inr ents)"
  shows "\<exists>new. ents = acc @ new \<and> distinct (map fst new) \<and> fst ` set new \<subseteq> set names
    \<and> touched f OpRemove t new c c' \<and> dom (dget (c_attr_parts c')) = dom (dget (c_parts c'))"
  using assms
proof (induction names arbitrary: acc c)
  case Nil
  then show ?case by (auto simp: touched_Nil)
next
  case (Cons n names)
  obtain p where p: "dget (c_parts c) n = Some p" using Cons.prems(6) by auto
  then have g: "get_part n False t c = Inr (Some p, c)" by (simp add: get_part_def)
  have pok: "part_ok p" "cp_name p = n" using Cons.prems(1) p by (auto simp: cat_ok_def)
  have ref: "part_get_entry (ByFmri f) p = Inr (part_map p (ckey f))"
    using part_get_entry_map addable_ref [OF Cons.prems(4)] by blast
  show ?case
  proof (cases "part_map p (ckey f)")
    case None
    then have r: "remove_from_parts f names t acc c = (c', Inr ents)"
      using Cons.prems(8) g ref by (auto split: if_splits)
    have "distinct (map fst acc @ names)" "set names \<subseteq> dom (dget (c_parts c))"
      using Cons.prems(5,6) by auto
    then obtain new where "ents = acc @ new" "distinct (map fst new)" "fst ` set new \<subseteq> set names"
      "touched f OpRemove t new c c'" "dom (dget (c_attr_parts c')) = dom (dget (c_parts c'))"
      using Cons.IH [OF Cons.prems(1-4) _ _ Cons.prems(7) r] by blast
    then show ?thesis by auto
  next
    case (Some e)
    then obtain p' where p': "part_remove f t p = Inr p'" "part_ok p'"
      "part_map p' = (part_map p)(ckey f := None)" "cp_modified p' = t" "cp_name p' = cp_name p"
      using part_remove_key [OF pok(1) Cons.prems(4)] by fastforce
    define c1 where "c1 = put_part p' c"
    note gp = get_part_facts [OF g Cons.prems(1-3)]
    have n': "cp_name p' = n" using p'(5) pok(2) by simp
    have dn: "dput n e acc = acc @ [(n, e)]" using Cons.prems(5) by (intro dput_snoc) auto
    have r: "remove_from_parts f names t (acc @ [(n, e)]) c1 = (c', Inr ents)"
      using Cons.prems(7,8) g ref Some p'(1) by (simp add: c1_def dn)
    have "run (part_ops (\<lambda>t. True) m [(f, OpRemove, t, [(n, e)])]) (cat_map c m) = Some (cat_map c1 m)" for m
      using Some p'(3) gp(3) by (simp add: dget_single c1_def gp(5) [OF n'] ap1_def)
    moreover have "mods c1 = (\<lambda>m. if dget [(n, e)] m = None then mods c m else Some t)"
      using p'(4) by (auto simp: c1_def gp(6) [OF n'] dget_single fun_eq_iff)
    moreover have attr: "c_attr_parts c1 = c_attr_parts c" by (simp add: c1_def put_part_def)
    moreover have dp: "dom (dget (c_parts c1)) = dom (dget (c_parts c))"
      using p by (auto simp: c1_def put_part_def n' pydict.get_put)
    ultimately have t1: "touched f OpRemove t [(n, e)] c c1"
      unfolding touched_def using gp(4) [OF n' p'(2)] Cons.prems(2,3) gp(9) [of p'] p
      by (auto simp: c1_def dget_single dom_def)
    have "cat_ok c1" "dict_ok (c_attr_parts c1)" using t1 by (auto simp: touched_def)
    moreover have "c_log_updates c1" using Cons.prems(7) by (simp add: c1_def put_part_def)
    ultimately obtain new where new: "ents = (acc @ [(n, e)]) @ new" "distinct (map fst new)"
        "fst ` set new \<subseteq> set names" "touched f OpRemove t new c1 c'"
        "dom (dget (c_attr_parts c')) = dom (dget (c_parts c'))"
      using Cons.IH [of c1 "acc @ [(n, e)]"] Cons.prems(3-6) r attr dp by auto
    have "n \<notin> fst ` set new" using Cons.prems(5) new(3) by auto
    then have nn: "dget new n = None" by (simp add: dget_def map_of_eq_None_iff)
    have "touched f OpRemove t ((n, e) # new) c c'" by (rule touched_Cons [OF t1 new(4) nn])
    then show ?thesis using new \<open>n \<notin> fst ` set new\<close> by (intro exI [of _ "(n, e) # new"]) auto
  qed
qed

section \<open>Writing the logs\<close>

definition of_locale :: "string \<Rightarrow> 'a centry dict \<Rightarrow> 'a centry dict" where
  "of_locale loc ents = filter (\<lambda>(n, e). locale_of n = Inr loc) ents"

lemma group_by_locale_ok:
  assumes "\<forall>(n, e) \<in> set ents. \<exists>loc. locale_of n = Inr loc" and "dict_ok acc"
    and "distinct (map fst ents)"
    and "\<And>loc md. dget acc loc = Some md \<Longrightarrow> fst ` set md \<inter> fst ` set ents = {} \<and> md \<noteq> []"
  shows "\<exists>g. group_by_locale ents acc = Inr g \<and> dict_ok g
    \<and> (\<forall>loc. dget g loc = (let md = (case dget acc loc of None \<Rightarrow> [] | Some md \<Rightarrow> md) @ of_locale loc ents
                          in if md = [] then None else Some md))"
  using assms
proof (induction ents arbitrary: acc)
  case Nil
  have "dget acc loc = (let md = (case dget acc loc of None \<Rightarrow> [] | Some md \<Rightarrow> md) @ of_locale loc []
      in if md = [] then None else Some md)" for loc
    using Nil.prems(4) [of loc] by (auto simp: of_locale_def split: option.split)
  then show ?case using Nil.prems(2) by auto
next
  case (Cons x ents)
  obtain n e where x: "x = (n, e)" by fastforce
  obtain loc where l: "locale_of n = Inr loc" using Cons.prems(1) x by auto
  let ?old = "case dget acc loc of None \<Rightarrow> [] | Some d \<Rightarrow> d"
  define acc1 where "acc1 = dput loc (dput n e ?old) acc"
  have "n \<notin> fst ` set ?old"
    using Cons.prems(4) [of loc] x by (cases "dget acc loc") auto
  then have dn: "dput n e ?old = ?old @ [(n, e)]" by (rule dput_snoc)
  have get: "dget acc1 k = (if k = loc then Some (?old @ [(n, e)]) else dget acc k)" for k
    by (simp add: acc1_def pydict.get_put dn)
  have disj: "fst ` set md \<inter> fst ` set ents = {} \<and> md \<noteq> []" if "dget acc1 k = Some md" for k md
  proof (cases "k = loc")
    case True
    then have md: "md = ?old @ [(n, e)]" using that get by simp
    have "fst ` set ?old \<inter> fst ` set ents = {}"
      using Cons.prems(4) [of loc] by (cases "dget acc loc") auto
    moreover have "n \<notin> fst ` set ents" using Cons.prems(3) x by auto
    ultimately show ?thesis by (auto simp: md)
  next
    case False
    then show ?thesis using that get Cons.prems(4) [of k md] by auto
  qed
  have loc_ok: "\<forall>(n, e) \<in> set ents. \<exists>loc. locale_of n = Inr loc" "distinct (map fst ents)"
    using Cons.prems(1,3) by auto
  have d1: "dict_ok acc1" using Cons.prems(2) by (simp add: acc1_def pydict.ok_put)
  have "\<exists>g. group_by_locale ents acc1 = Inr g \<and> dict_ok g
    \<and> (\<forall>k. dget g k = (let md = (case dget acc1 k of None \<Rightarrow> [] | Some md \<Rightarrow> md) @ of_locale k ents
                      in if md = [] then None else Some md))"
    by (rule Cons.IH [OF loc_ok(1) d1 loc_ok(2)]) (rule disj)
  then obtain g where g: "group_by_locale ents acc1 = Inr g" "dict_ok g"
      "\<And>k. dget g k = (let md = (case dget acc1 k of None \<Rightarrow> [] | Some md \<Rightarrow> md) @ of_locale k ents
                       in if md = [] then None else Some md)"
    by blast
  have "(case dget acc1 k of None \<Rightarrow> [] | Some md \<Rightarrow> md) @ of_locale k ents =
      (case dget acc k of None \<Rightarrow> [] | Some md \<Rightarrow> md) @ of_locale k (x # ents)" for k
    by (simp add: get of_locale_def x l)
  then have "dget g k = (let md = (case dget acc k of None \<Rightarrow> [] | Some md \<Rightarrow> md) @ of_locale k (x # ents)
      in if md = [] then None else Some md)" for k
    using g(3) [of k] by simp
  then show ?case using g(1,2) by (simp add: x l acc1_def)
qed

definition upd_time :: "'a upd \<Rightarrow> int" where
  "upd_time u = fst (snd (snd u))"

definition logs_hold :: "(string \<Rightarrow> 'a upd list) \<Rightarrow> 'a catalog \<Rightarrow> bool" where
  "logs_hold H c \<longleftrightarrow> dict_ok (c_attr_updates c) \<and> (\<forall>L.
     (case dget (c_logs c) L of None \<Rightarrow> H L = [] | Some u \<Rightarrow> holds u (H L))
     \<and> dget (c_attr_updates c) L = (if H L = [] then None else Some (upd_time (last (H L)))))"

lemma update_init_holds: "update_init name t = Inr u \<Longrightarrow> holds u []"
  by (auto simp: update_init_def holds_def ulist_def split: if_splits)

lemma update_add_holds:
  assumes h: "holds u us" and f: "pub_fmri f"
  shows "\<exists>u'. update_add f op t md u = Inr u' \<and> holds u' (us @ [(f, op, t, md)])"
  using f
proof (rule pub_fmriE)
  fix pub assume p: "f_publisher f = Some pub" "pub \<noteq> []" "\<not> starts_with pub ''_''"
  let ?pl = "case dget (cu_data u) pub of None \<Rightarrow> [] | Some pl \<Rightarrow> pl"
  let ?es = "ulist (cu_data u) pub (f_name f) @ [entry_of (f, op, t, md)]"
  define u' where "u' = u\<lparr>cu_data := dput pub (dput (f_name f) ?es ?pl) (cu_data u),
    cu_modified := t, cu_sigs := []\<rparr>"
  have "update_add f op t md u = Inr u'"
    using p by (simp add: update_add_def u'_def entry_of_def Let_def)
  moreover have "ulist (cu_data u') a b = map entry_of (filter (\<lambda>x. stem_of x = (a, b)) (us @ [(f, op, t, md)]))"
    for a b
  proof -
    have "ulist (cu_data u') a b =
        (if a = pub \<and> b = f_name f then ?es else ulist (cu_data u) a b)"
      by (auto simp: ulist_def u'_def pydict.get_put split: option.splits)
    moreover have "ulist (cu_data u) a b = map entry_of (filter (\<lambda>x. stem_of x = (a, b)) us)"
      using h by (simp add: holds_def)
    ultimately show ?thesis using p(1) by (auto simp: stem_of_def)
  qed
  moreover have "dict_ok ?pl" using h by (auto simp: holds_def split: option.split)
  then have "dict_ok (cu_data u')" "\<And>a pl. dget (cu_data u') a = Some pl \<Longrightarrow> dict_ok pl \<and> \<not> starts_with a ''_''"
    using h p(3) by (auto simp: holds_def u'_def pydict.get_put pydict.ok_put split: if_splits)
  ultimately show ?thesis by (auto simp: holds_def)
qed

lemma write_logs_ok:
  assumes "pub_fmri f" "logs_hold H c" "distinct (map fst g)"
    and "write_logs uts f op t g c = Inr c'"
  shows "logs_hold (\<lambda>L. H L @ concat (map (\<lambda>(loc, md).
      if L = ''update.'' @ uts t @ ''.'' @ loc then [(f, op, t, md)] else []) g)) c'
    \<and> c' = c\<lparr>c_logs := c_logs c', c_attr_updates := c_attr_updates c'\<rparr>"
  using assms(2-)
proof (induction g arbitrary: c H)
  case Nil
  then show ?case by simp
next
  case (Cons x g)
  obtain loc md where x: "x = (loc, md)" by fastforce
  let ?name = "''update.'' @ uts t @ ''.'' @ loc"
  obtain u u' where u: "(case dget (c_logs c) ?name of Some u \<Rightarrow> Inr u | None \<Rightarrow> update_init ?name t) = Inr u"
    and u': "update_add f op t md u = Inr u'"
    and r: "write_logs uts f op t g (c\<lparr>c_logs := dput ?name u' (c_logs c),
        c_attr_updates := dput ?name t (c_attr_updates c)\<rparr>) = Inr c'"
    using Cons.prems(3) by (auto simp: x sbind_eq_Inr Let_def simp del: append.simps)
  let ?c1 = "c\<lparr>c_logs := dput ?name u' (c_logs c), c_attr_updates := dput ?name t (c_attr_updates c)\<rparr>"
  let ?H1 = "\<lambda>L. H L @ (if L = ?name then [(f, op, t, md)] else [])"
  have "holds u (H ?name)"
    using u Cons.prems(1) update_init_holds [of ?name t u]
    by (cases "dget (c_logs c) ?name") (auto simp: logs_hold_def dest!: spec [of _ ?name] simp del: append.simps)
  then have h: "holds u' (?H1 ?name)" using update_add_holds [OF _ assms(1), of u _ op t md] u' by auto
  have at: "(case dget (c_logs ?c1) L of None \<Rightarrow> ?H1 L = [] | Some u \<Rightarrow> holds u (?H1 L))
      \<and> dget (c_attr_updates ?c1) L = (if ?H1 L = [] then None else Some (upd_time (last (?H1 L))))" for L
  proof (cases "L = ?name")
    case True
    then have "dget (c_logs ?c1) L = Some u'" "dget (c_attr_updates ?c1) L = Some t"
      by (simp_all add: pydict.get_put del: append.simps)
    moreover have "upd_time (last (?H1 L)) = t" "?H1 L \<noteq> []" using True by (simp_all add: upd_time_def)
    ultimately show ?thesis using h True by (simp del: append.simps)
  next
    case False
    then have "dget (c_logs ?c1) L = dget (c_logs c) L"
      "dget (c_attr_updates ?c1) L = dget (c_attr_updates c) L" "?H1 L = H L"
      by (simp_all add: pydict.get_put del: append.simps)
    then show ?thesis using Cons.prems(1) by (simp only: logs_hold_def)
  qed
  have "dict_ok (c_attr_updates ?c1)" using Cons.prems(1) by (simp add: logs_hold_def pydict.ok_put)
  then have "logs_hold ?H1 ?c1" using at unfolding logs_hold_def by blast
  from Cons.IH [OF this _ r] Cons.prems(2)
  have "logs_hold (\<lambda>L. ?H1 L @ concat (map (\<lambda>(loc, md).
      if L = ''update.'' @ uts t @ ''.'' @ loc then [(f, op, t, md)] else []) g)) c'"
    and c': "c' = ?c1\<lparr>c_logs := c_logs c', c_attr_updates := c_attr_updates c'\<rparr>" by auto
  then have "logs_hold (\<lambda>L. H L @ concat (map (\<lambda>(loc, md).
      if L = ''update.'' @ uts t @ ''.'' @ loc then [(f, op, t, md)] else []) (x # g))) c'"
    by (simp add: x)
  moreover have "c' = c\<lparr>c_logs := c_logs c', c_attr_updates := c_attr_updates c'\<rparr>"
    using c' by (cases c; cases c') simp
  ultimately show ?case by blast
qed
lemma concat_unique:
  "distinct (map fst g) \<Longrightarrow>
     concat (map (\<lambda>(k, v). if k = k0 then [F v] else []) g) = (case dget g k0 of None \<Rightarrow> [] | Some v \<Rightarrow> [F v])"
proof (induction g)
  case (Cons x g)
  obtain k v where x: "x = (k, v)" by fastforce
  show ?case
  proof (cases "k = k0")
    case True
    then have "dget g k0 = None" using Cons.prems x by (auto simp: dget_def map_of_eq_None_iff)
    then show ?thesis using Cons x True by (simp add: dget_def)
  next
    case False
    then show ?thesis using Cons x by (simp add: dget_def)
  qed
qed simp

lemma named_locale: "named ents \<Longrightarrow> (n, e) \<in> set ents \<Longrightarrow> \<exists>loc. locale_of n = Inr loc"
  by (force simp: named_def dkeys_def)

lemma in_log_grouped:
  assumes n: "named ents" and g: "distinct (map fst g)"
    and get: "\<And>loc. dget g loc = (if of_locale loc ents = [] then None else Some (of_locale loc ents))"
  shows "concat (map (\<lambda>(loc, md). if L = ''update.'' @ uts t @ ''.'' @ loc then [(f, op, t, md)] else []) g) =
    in_log uts L [(f, op, t, ents)]"
proof (cases "\<exists>loc. L = ''update.'' @ uts t @ ''.'' @ loc")
  case True
  then obtain k where k: "L = ''update.'' @ uts t @ ''.'' @ k" by blast
  have "(L = ''update.'' @ uts t @ ''.'' @ loc) = (loc = k)" for loc unfolding k by auto
  then have lhs: "concat (map (\<lambda>(loc, md). if L = ''update.'' @ uts t @ ''.'' @ loc then [(f, op, t, md)] else []) g) =
      (case dget g k of None \<Rightarrow> [] | Some md \<Rightarrow> [(f, op, t, md)])"
    using concat_unique [OF g, of k "\<lambda>md. (f, op, t, md)"] by simp
  have "(log_name uts t n = L) = (locale_of n = Inr k)" if ne: "(n, e) \<in> set ents" for n e
    using named_locale [OF n ne] unfolding log_name_def k by auto
  then have "filter (\<lambda>(n, e). log_name uts t n = L) ents = of_locale k ents"
    unfolding of_locale_def by (intro filter_cong) auto
  then show ?thesis unfolding lhs get by (simp add: in_log_def)
next
  case False
  have "filter (\<lambda>(n, e). log_name uts t n = L) ents = []"
    using False by (auto simp: log_name_def filter_empty_conv)
  moreover have "concat (map (\<lambda>(loc, md). if L = ''update.'' @ uts t @ ''.'' @ loc then [(f, op, t, md)] else []) g) = []"
    using False by auto
  ultimately show ?thesis by (simp add: in_log_def)
qed

definition last_touch :: "string \<Rightarrow> 'a upd list \<Rightarrow> int option" where
  "last_touch n tr = fold (\<lambda>(f, op, t, md) x. if dget md n = None then x else Some t) tr None"

lemma last_touch_snoc [simp]:
  "last_touch n (tr @ [(f, op, t, md)]) = (if dget md n = None then last_touch n tr else Some t)"
  by (simp add: last_touch_def)

text \<open>The state of a server that has served a trace.\<close>

definition srv :: "(int \<Rightarrow> string) \<Rightarrow> int \<Rightarrow> 'a upd list \<Rightarrow> 'a catalog \<Rightarrow> bool" where
  "srv uts t0 tr c \<longleftrightarrow> cat_ok c \<and> dict_ok (c_attr_parts c) \<and> c_log_updates c
     \<and> (\<forall>n. dget (c_attr_parts c) n = mods c n) \<and> (\<forall>n. mods c n = last_touch n tr)
     \<and> logs_hold (\<lambda>L. in_log uts L tr) c
     \<and> (\<forall>(f, op, t, md) \<in> set tr. upd_ok (f, op, t, md) \<and> named md)
     \<and> c_modified c = (if tr = [] then t0 else upd_time (last tr))"

lemma srv_init: "srv uts t0 [] (catalog_init batch True False t0)"
  by (simp add: srv_def catalog_init_def cat_ok_def mods_def last_touch_def logs_hold_def in_log_def)

lemma mods_dom: "dom (mods c) = dom (dget (c_parts c))"
  by (auto simp: mods_def)

lemma srv_doms: "srv uts t0 tr c \<Longrightarrow> dom (dget (c_attr_parts c)) = dom (dget (c_parts c))"
  unfolding srv_def using mods_dom [of c] by (metis (no_types) ext)

lemma finalize_counts_other:
  "\<exists>a b. finalize_counts c = c\<lparr>c_package_count := a, c_version_count := b\<rparr>"
  by (auto simp: finalize_counts_def Let_def split: prod.splits)

lemma map_of_rev_distinct: "distinct (map fst xs) \<Longrightarrow> map_of (rev xs) = map_of xs"
  by (subst map_of_inject_set) (simp_all flip: rev_map)

lemma log_update_ok:
  assumes s: "srv uts t0 tr c" and t: "touched f op t ents c c1"
    and dom: "dom (dget (c_attr_parts c1)) = dom (dget (c_parts c1))"
    and n: "named ents" and u: "upd_ok (f, op, t, ents)" and l: "log_update uts f op t ents c1 = Inr c'"
  shows "srv uts t0 (tr @ [(f, op, t, ents)]) c'
    \<and> (\<forall>n. run (part_ops (\<lambda>t. True) n [(f, op, t, ents)]) (cat_map c n) = Some (cat_map c' n))"
proof -
  obtain a b where fc: "(if c_batch c1 then c1 else finalize_counts c1) =
      c1\<lparr>c_package_count := a, c_version_count := b\<rparr>"
  proof (cases "c_batch c1")
    case True
    then have "(if c_batch c1 then c1 else finalize_counts c1) =
        c1\<lparr>c_package_count := c_package_count c1, c_version_count := c_version_count c1\<rparr>" by simp
    then show thesis by (rule that)
  next
    case False
    then show thesis using finalize_counts_other [of c1] that by auto
  qed
  define c2 where "c2 = c1\<lparr>c_package_count := a, c_version_count := b, c_modified := t\<rparr>"
  have c1: "c1 = c\<lparr>c_parts := c_parts c1, c_attr_parts := c_attr_parts c1\<rparr>"
    using t by (simp add: touched_def)
  have eqs: "c_parts c2 = c_parts c1" "c_attr_parts c2 = c_attr_parts c1" "c_logs c2 = c_logs c"
    "c_attr_updates c2 = c_attr_updates c" "c_log_updates c2" "c_modified c2 = t"
  proof -
    show "c_parts c2 = c_parts c1" "c_attr_parts c2 = c_attr_parts c1" "c_modified c2 = t"
      by (simp_all add: c2_def)
    show "c_logs c2 = c_logs c" "c_attr_updates c2 = c_attr_updates c" "c_log_updates c2"
      unfolding c2_def using s by (subst c1, simp add: srv_def)+
  qed
  obtain g where g: "group_by_locale ents [] = Inr g" "dict_ok g"
    "\<And>loc. dget g loc = (if of_locale loc ents = [] then None else Some (of_locale loc ents))"
    using group_by_locale_ok [of ents "[]"] n named_locale [OF n]
    by (auto simp: named_def dict_ok_def Let_def)
  obtain c3 where w: "write_logs uts f op t g c2 = Inr c3"
    and c': "c' = c3\<lparr>c_attr_parts := dput_all (map (\<lambda>(name, p). (name, cp_modified p)) (c_parts c3)) (c_attr_parts c3)\<rparr>"
    using l unfolding log_update_def Let_def fc using eqs(5) g(1)
    by (auto simp: c2_def sbind_eq_Inr)
  have lh: "logs_hold (\<lambda>L. in_log uts L tr) c2"
    using s by (simp add: srv_def logs_hold_def eqs)
  have pf: "pub_fmri f" using u by (simp add: upd_ok_def)
  have gd: "distinct (map fst g)" using g(2) by (simp add: dict_ok_def)
  have ing: "in_log uts L tr @ concat (map (\<lambda>(loc, md). if L = ''update.'' @ uts t @ ''.'' @ loc
      then [(f, op, t, md)] else []) g) = in_log uts L (tr @ [(f, op, t, ents)])" for L
    unfolding in_log_append in_log_grouped [OF n gd g(3)] ..
  have lh3: "logs_hold (\<lambda>L. in_log uts L (tr @ [(f, op, t, ents)])) c3"
    and c3: "c3 = c2\<lparr>c_logs := c_logs c3, c_attr_updates := c_attr_updates c3\<rparr>"
    using write_logs_ok [OF pf lh gd w] unfolding ing by blast+
  have e3: "c_parts c3 = c_parts c1" "c_attr_parts c3 = c_attr_parts c1" "c_log_updates c3" "c_modified c3 = t"
    by (subst c3, simp add: eqs)+
  have p': "c_parts c' = c_parts c1" by (simp add: c' e3)
  have cm: "cat_map c' = cat_map c1" "mods c' = mods c1" "cat_ok c' = cat_ok c1"
    by (simp_all add: cat_map_def mods_def cat_ok_def p' fun_eq_iff)
  have tt: "cat_ok c1" "dict_ok (c_attr_parts c1)" "mods c1 = (\<lambda>n. if dget ents n = None then mods c n else Some t)"
    "\<And>n. run (part_ops (\<lambda>t. True) n [(f, op, t, ents)]) (cat_map c n) = Some (cat_map c1 n)"
    using t by (simp_all add: touched_def)
  have mp: "map_of (rev (map (\<lambda>(name, p). (name, cp_modified p)) (c_parts c1))) n = mods c1 n" for n
  proof -
    have "distinct (map fst (map (\<lambda>(name, p). (name, cp_modified p)) (c_parts c1)))"
      using tt(1) by (simp add: cat_ok_def dict_ok_def case_prod_unfold comp_def)
    then have "map_of (rev (map (\<lambda>(name, p). (name, cp_modified p)) (c_parts c1))) =
        map_of (map (\<lambda>(name, p). (name, cp_modified p)) (c_parts c1))"
      by (rule map_of_rev_distinct)
    then show ?thesis by (simp add: mods_def dget_def map_of_map)
  qed
  have attr: "dget (c_attr_parts c') n = mods c' n" for n
  proof -
    have "dget (c_attr_parts c') n = (dget (c_attr_parts c1) ++ mods c1) n"
      by (simp add: c' e3 dget_put_all mp map_add_def)
    moreover have "mods c1 n = None \<Longrightarrow> dget (c_attr_parts c1) n = None"
      using dom mods_dom [of c1] by blast
    ultimately show ?thesis unfolding cm by (auto simp: map_add_def split: option.splits)
  qed
  have "mods c' n = last_touch n (tr @ [(f, op, t, ents)])" for n
    using s unfolding cm tt(3) by (simp add: srv_def)
  moreover have "dict_ok (c_attr_parts c')" using tt(2) by (simp add: c' e3 dict_ok_put_all)
  moreover have "logs_hold (\<lambda>L. in_log uts L (tr @ [(f, op, t, ents)])) c'"
    using lh3 by (simp add: logs_hold_def c')
  ultimately show ?thesis
    using s n u tt attr cm e3 by (auto simp: srv_def c' upd_time_def)
qed

lemma locale_of_name:
  assumes "CHR ''.'' \<notin> set x"
  shows "locale_of (''catalog.'' @ x @ ''.'' @ loc) = Inr loc"
proof -
  have "py_find CHR ''.'' (''catalog'' @ CHR ''.'' # (x @ ''.'' @ loc)) = Some (length ''catalog'')"
    by (rule py_find_append) simp
  moreover have "py_find CHR ''.'' (x @ CHR ''.'' # loc) = Some (length x)"
    by (rule py_find_append [OF assms])
  ultimately show ?thesis by (simp add: locale_of_def)
qed

lemma group_actions_ok:
  "\<lbrakk>group_actions acts (dep, summ) = (dep', summ'); dkeys dep = [''C'']; dict_ok summ\<rbrakk> \<Longrightarrow>
     dkeys dep' = [''C''] \<and> dict_ok summ'"
proof (induction acts "(dep, summ)" arbitrary: dep summ rule: group_actions.induct)
  case (2 a rest dep summ)
  have "dkeys (append_at ''C'' x dep) = [''C'']" for x
    using 2(5) by (cases dep) (auto simp: append_at_def dkeys_def dput_def)
  moreover have "dict_ok (append_at k x summ)" for k x
    using 2(6) by (simp add: append_at_def pydict.ok_put)
  ultimately show ?case using 2 by (simp split: if_splits)
qed simp

text \<open>The names of the parts a manifest's actions go to.\<close>

lemma act_entries_names:
  fixes acts :: "cact list"
  defines "L \<equiv> act_entries acts :: (string \<times> 'a centry) list"
  shows "distinct (BASE_PART # map fst L)"
    "\<And>n. n \<in> set (BASE_PART # map fst L) \<Longrightarrow> starts_with n ''catalog.'' \<and> (\<exists>loc. locale_of n = Inr loc)"
proof -
  obtain dep summ where g: "group_actions acts ([(''C'', [])], [(''C'', [])]) = (dep, summ)" by fastforce
  have d: "dkeys dep = [''C'']" "dict_ok summ"
    using group_actions_ok [OF g] by (simp_all add: dkeys_def dict_ok_def)
  define nm where "nm = (\<lambda>ctype p :: string \<times> string list. ''catalog.'' @ ctype @ ''.'' @ fst p)"
  have names: "map fst L = map (nm ''dependency'') (filter (\<lambda>(loc, l). l \<noteq> []) dep)
      @ map (nm ''summary'') (filter (\<lambda>(loc, l). l \<noteq> []) summ)"
    by (simp add: L_def act_entries_def g nm_def comp_def case_prod_unfold)
  have dd: "distinct (map fst dep)" "distinct (map fst summ)"
    using d by (simp_all add: dkeys_def dict_ok_def)
  have inj: "distinct (map (nm ctype) (filter P xs))" if "distinct (map fst xs)" for ctype P xs
  proof -
    have "distinct (map fst (filter P xs))" using that by (rule distinct_map_filter)
    then have "distinct (map (\<lambda>k. ''catalog.'' @ ctype @ ''.'' @ k) (map fst (filter P xs)))"
      by (simp add: distinct_map inj_on_def)
    then show ?thesis by (simp add: nm_def comp_def)
  qed
  show "distinct (BASE_PART # map fst L)"
  proof -
    let ?P = "\<lambda>(loc, l). l \<noteq> []"
    have "BASE_PART \<notin> nm ''dependency'' ` A" "BASE_PART \<notin> nm ''summary'' ` A"
      "nm ''dependency'' ` A \<inter> nm ''summary'' ` B = {}" for A B
      by (auto simp: nm_def BASE_PART_def)
    then show ?thesis
      unfolding names using inj [OF dd(1), of "''dependency''" ?P] inj [OF dd(2), of "''summary''" ?P]
      by (simp only: distinct.simps distinct_append set_append set_map) blast
  qed
  fix n assume "n \<in> set (BASE_PART # map fst L)"
  then consider "n = ''catalog.'' @ ''base'' @ ''.'' @ ''C''" | p where "n = nm ''dependency'' p"
    | p where "n = nm ''summary'' p"
    unfolding names by (auto simp: BASE_PART_def)
  then show "starts_with n ''catalog.'' \<and> (\<exists>loc. locale_of n = Inr loc)"
    by cases (auto simp: nm_def locale_of_name simp del: append.simps)
qed

lemma add_package_event:
  assumes s: "srv uts t0 tr c" and f: "pub_fmri f" and add: "add_package uts f manifest base t c = (c', None)"
  shows "\<exists>u. upd_time u = t \<and> srv uts t0 (tr @ [u]) c'
    \<and> (\<forall>n. run (part_ops (\<lambda>t. True) n [u]) (cat_map c n) = Some (cat_map c' n))"
proof -
  define L where "L = (BASE_PART, \<lparr>e_version = [], e_actions = None, e_data = base\<rparr>)
      # (case manifest of None \<Rightarrow> [] | Some acts \<Rightarrow> act_entries acts)"
  have L: "distinct (map fst L)" "n \<in> fst ` set L \<Longrightarrow> starts_with n ''catalog.'' \<and> (\<exists>loc. locale_of n = Inr loc)" for n
    using act_entries_names [where acts = "[]"] act_entries_names [where acts = "the manifest"]
    by (cases manifest; auto simp: L_def)+
  obtain c1 ents where a: "add_to_parts f L t [] c = (c1, Inr ents)" and l: "log_update uts f OpAdd t ents c1 = Inr c'"
    using add by (auto simp: add_package_def L_def split: if_splits prod.splits sum.splits)
  have "cat_ok c" "dict_ok (c_attr_parts c)" using s by (simp_all add: srv_def)
  moreover have "distinct (map fst ([] :: (string \<times> 'a centry) list) @ map fst L)" using L(1) by simp
  ultimately have "map fst ents = map fst L" "\<forall>(n, e) \<in> set ents. e_version e = ver_text (f_version f)"
    and t: "touched f OpAdd t ents c c1" "dom (dget (c_attr_parts c1)) = dom (dget (c_parts c1))"
    using add_to_parts_ok [OF _ _ srv_doms [OF s] pub_fmri_addable [OF f] _ a] by auto
  moreover have keys: "fst ` set ents = fst ` set L" using calculation(1) by (simp flip: set_map)
  ultimately have n: "named ents" using L by (simp add: named_def dict_ok_def dkeys_def)
  have "upd_ok (f, OpAdd, t, ents)"
    using f n \<open>\<forall>(n, e) \<in> set ents. e_version e = ver_text (f_version f)\<close>
    by (force simp: upd_ok_def named_def dkeys_def)
  from log_update_ok [OF s t n this l] show ?thesis
    by (intro exI [of _ "(f, OpAdd, t, ents)"]) (simp add: upd_time_def)
qed

lemma last_touch_in: "last_touch n tr = Some t \<Longrightarrow> \<exists>(f, op, t', md) \<in> set tr. t' = t \<and> dget md n \<noteq> None"
proof (induction tr rule: rev_induct)
  case (snoc u tr)
  obtain f op t' md where u: "u = (f, op, t', md)" by (rule prod_cases4)
  show ?case using snoc by (cases "dget md n = None") (auto simp: u)
qed (simp add: last_touch_def)

lemma srv_part_name:
  assumes "srv uts t0 tr c" "n \<in> dom (dget (c_parts c))"
  shows "starts_with n ''catalog.'' \<and> (\<exists>loc. locale_of n = Inr loc)"
proof -
  obtain t where "last_touch n tr = Some t"
  proof -
    have "mods c n \<noteq> None" using assms(2) mods_dom [of c] by blast
    then show thesis using assms(1) that by (auto simp: srv_def)
  qed
  then obtain f op t' md where "(f, op, t', md) \<in> set tr" "dget md n \<noteq> None" by (auto dest: last_touch_in)
  then have "named md" "n \<in> set (dkeys md)" using assms(1) by (auto simp: srv_def pydict.keys_get)
  then show ?thesis by (simp add: named_def)
qed

lemma remove_package_event:
  assumes s: "srv uts t0 tr c" and f: "pub_fmri f" and rm: "remove_package uts f t c = (c', None)"
  shows "\<exists>u. upd_time u = t \<and> srv uts t0 (tr @ [u]) c'
    \<and> (\<forall>n. run (part_ops (\<lambda>t. True) n [u]) (cat_map c n) = Some (cat_map c' n))"
proof -
  let ?ns = "dkeys (c_attr_parts c)"
  obtain c1 ents where r: "remove_from_parts f ?ns t [] c = (c1, Inr ents)"
    and l: "log_update uts f OpRemove t ents c1 = Inr c'"
    using rm by (auto simp: remove_package_def split: if_splits prod.splits sum.splits)
  have b: "cat_ok c" "dict_ok (c_attr_parts c)" "c_log_updates c" using s by (simp_all add: srv_def)
  have ns: "set ?ns = dom (dget (c_parts c))" using srv_doms [OF s] by (simp add: pydict.keys_get)
  have "distinct (map fst ([] :: (string \<times> 'a centry) list) @ ?ns)" using b(2) by (simp add: pydict.ok_keys)
  then have d: "distinct (map fst ents)" "fst ` set ents \<subseteq> set ?ns"
    and t: "touched f OpRemove t ents c c1" "dom (dget (c_attr_parts c1)) = dom (dget (c_parts c1))"
    using remove_from_parts_ok [OF b(1,2) srv_doms [OF s] pub_fmri_addable [OF f] _ _ b(3) r] ns by auto
  have n: "named ents"
    using d srv_part_name [OF s] unfolding ns by (auto simp: named_def dict_ok_def dkeys_def)
  then have "upd_ok (f, OpRemove, t, ents)"
    using f by (force simp: upd_ok_def named_def dkeys_def)
  from log_update_ok [OF s t n this l] show ?thesis
    by (intro exI [of _ "(f, OpRemove, t, ents)"]) (simp add: upd_time_def)
qed

lemma serve_all_ok:
  assumes "srv uts t0 tr c" and "\<forall>(r, t) \<in> set rs. pub_fmri (req_fmri r)" and "serve_all uts rs c = Some c'"
  shows "\<exists>tr'. map upd_time tr' = map snd rs \<and> srv uts t0 (tr @ tr') c'
    \<and> (\<forall>n. run (part_ops (\<lambda>t. True) n tr') (cat_map c n) = Some (cat_map c' n))"
  using assms
proof (induction rs arbitrary: c tr)
  case Nil
  then show ?case by (intro exI [of _ "[]"]) simp
next
  case (Cons x rs)
  obtain r t where x: "x = (r, t)" by fastforce
  obtain c1 where c1: "serve uts r t c = (c1, None)" and rest: "serve_all uts rs c1 = Some c'"
    using Cons.prems(3) by (auto simp: x split: prod.splits option.splits)
  have "\<exists>u. upd_time u = t \<and> srv uts t0 (tr @ [u]) c1
    \<and> (\<forall>n. run (part_ops (\<lambda>t. True) n [u]) (cat_map c n) = Some (cat_map c1 n))"
    using add_package_event [OF Cons.prems(1)] remove_package_event [OF Cons.prems(1)] Cons.prems(2) c1
    by (cases r) (auto simp: x)
  then obtain u where u: "upd_time u = t" "srv uts t0 (tr @ [u]) c1"
    "\<And>n. run (part_ops (\<lambda>t. True) n [u]) (cat_map c n) = Some (cat_map c1 n)" by blast
  obtain tr' where tr': "map upd_time tr' = map snd rs" "srv uts t0 ((tr @ [u]) @ tr') c'"
    "\<And>n. run (part_ops (\<lambda>t. True) n tr') (cat_map c1 n) = Some (cat_map c' n)"
    using Cons.IH [OF u(2) _ rest] Cons.prems(2) by auto
  have "run (part_ops (\<lambda>t. True) n (u # tr')) (cat_map c n) = Some (cat_map c' n)" for n
  proof -
    have "part_ops (\<lambda>t. True) n (u # tr') = part_ops (\<lambda>t. True) n [u] @ part_ops (\<lambda>t. True) n tr'"
      using part_ops_append [of "\<lambda>t. True" n "[u]" tr'] by simp
    then show ?thesis using u(3) tr'(3) by (simp only: run_append option.case)
  qed
  then show ?case using u(1) tr'(1,2) by (intro exI [of _ "u # tr'"]) (simp add: x)
qed

end
