(* ===== verification/Pkg_Sync.thy ===== *)
theory Pkg_Sync
  imports Pkg_Server
begin

text \<open>
  The client's side of an incremental update of \<open>src/src/modules/catalog.py\<close>: what
  \<open>get_updates_needed\<close> asks for, given the attributes of an earlier and of the present state of a
  server, and the result of replaying the logs.  The lemmas on the names of the logs are proved in
  the locale \<open>update_clock\<close>, from the order of the names alone; the property is about the clock of
  the code, which cuts a time to its hour.
\<close>

section \<open>A client that replays the logs\<close>

lemma part_ops_none:
  "(\<And>u. u \<in> set l \<Longrightarrow> dget (snd (snd (snd u))) n \<noteq> None \<Longrightarrow> \<not> P (upd_time u)) \<Longrightarrow> part_ops P n l = []"
proof (induction l)
  case (Cons u l)
  obtain f op t md where u: "u = (f, op, t, md)" by (rule prod_cases4)
  have "dget md n = None \<or> \<not> P t" using Cons.prems [of u] by (auto simp: u upd_time_def)
  moreover have "part_ops P n l = []" using Cons.IH Cons.prems by simp
  ultimately show ?case by (auto simp: u split: option.splits)
qed simp

lemma part_ops_all:
  "(\<And>u. u \<in> set l \<Longrightarrow> dget (snd (snd (snd u))) n \<noteq> None \<Longrightarrow> Q u \<and> P (upd_time u)) \<Longrightarrow>
     part_ops P n (filter Q l) = part_ops (\<lambda>t. True) n l"
proof (induction l)
  case (Cons u l)
  obtain f op t md where u: "u = (f, op, t, md)" by (rule prod_cases4)
  have "dget md n = None \<or> Q u \<and> P t" using Cons.prems [of u] by (auto simp: u upd_time_def)
  moreover have "part_ops P n (filter Q l) = part_ops (\<lambda>t. True) n l" using Cons.IH Cons.prems by simp
  ultimately show ?case by (auto simp: u split: option.splits)
qed simp

lemma last_touch_append:
  "last_touch n (a @ b) = (case last_touch n b of None \<Rightarrow> last_touch n a | Some t \<Rightarrow> Some t)"
proof (induction b rule: rev_induct)
  case Nil
  then show ?case by (simp add: last_touch_def)
next
  case (snoc u b)
  obtain f op t md where u: "u = (f, op, t, md)" by (rule prod_cases4)
  show ?case using snoc last_touch_snoc [of n "a @ b" f op t md] by (simp add: u)
qed

lemma last_touch_after:
  "\<lbrakk>sorted_wrt (<) (map upd_time tr); u \<in> set tr; dget (snd (snd (snd u))) n \<noteq> None\<rbrakk> \<Longrightarrow>
     \<exists>lm. last_touch n tr = Some lm \<and> upd_time u \<le> lm"
proof (induction tr rule: rev_induct)
  case (snoc v tr)
  obtain f op t md where v: "v = (f, op, t, md)" by (rule prod_cases4)
  have lt: "\<And>w. w \<in> set tr \<Longrightarrow> upd_time w < t"
    using snoc.prems(1) by (auto simp: v sorted_wrt_append upd_time_def)
  show ?case
  proof (cases "u = v")
    case True
    then have "dget md n \<noteq> None" "upd_time u = t" using snoc.prems(3) by (simp_all add: v upd_time_def)
    then show ?thesis by (auto simp: v)
  next
    case False
    then have "u \<in> set tr" using snoc.prems(2) by simp
    then obtain lm where "last_touch n tr = Some lm" "upd_time u \<le> lm"
      using snoc.IH snoc.prems(1,3) by (auto simp: sorted_wrt_append)
    then show ?thesis using lt [OF \<open>u \<in> set tr\<close>] by (auto simp: v)
  qed
qed simp

lemma last_touch_time: "last_touch n tr = Some t \<Longrightarrow> \<exists>u \<in> set tr. upd_time u = t"
  using last_touch_in [of n tr t] by (force simp: upd_time_def)

lemma in_log_upd_ok:
  assumes "\<forall>u \<in> set tr. upd_ok u" "u \<in> set (in_log uts L tr)"
  shows "upd_ok u"
proof -
  obtain f op t md where m: "(f, op, t, md) \<in> set tr" "u = (f, op, t, filter (\<lambda>(n, e). log_name uts t n = L) md)"
    using assms(2) by (auto simp: in_log_def)
  then have "upd_ok (f, op, t, md)" using assms(1) by blast
  then show ?thesis unfolding m(2) upd_ok_def by (auto simp: dict_ok_def intro: distinct_map_filter)
qed

lemma part_ops_log_time:
  "part_ops P n (in_log uts L tr) = part_ops P n (filter (\<lambda>u. log_name uts (upd_time u) n = L) tr)"
proof -
  have "filter (\<lambda>(f, op, t, md). log_name uts t n = L) tr = filter (\<lambda>u. log_name uts (upd_time u) n = L) tr"
    by (rule filter_cong) (auto simp: upd_time_def)
  then show ?thesis unfolding part_ops_log by (simp only:)
qed

lemma srv_upd_ok: "srv uts t0 tr c \<Longrightarrow> \<forall>u \<in> set tr. upd_ok u"
  unfolding srv_def by (metis (mono_tags, lifting) case_prodE)

context update_clock
begin

lemma log_names_sorted:
  assumes "sorted_wrt (<) (map upd_time tr)" and "\<forall>u \<in> set tr. valid (upd_time u)"
  shows "sorted (map (\<lambda>u. log_name uts (upd_time u) n) tr)"
  using assms
proof (induction tr)
  case (Cons u tr)
  have "log_name uts (upd_time u) n \<le> log_name uts (upd_time v) n" if "v \<in> set tr" for v
  proof -
    have "upd_time u \<le> upd_time v" "valid (upd_time u)" "valid (upd_time v)" using Cons.prems that by auto
    then show ?thesis unfolding log_name_def by (intro log_name_mono)
  qed
  then show ?case using Cons by simp
qed simp

lemma replay_part_ops:
  assumes times: "sorted_wrt (<) (map upd_time (tr1 @ tr2))" and valid: "\<forall>u \<in> set (tr1 @ tr2). valid (upd_time u)"
    and Ls: "sorted_wrt (<) Ls" and old: "dget old n = last_touch n tr1" "last_touch n tr1 \<noteq> None"
    and cover: "\<And>u. u \<in> set tr2 \<Longrightarrow> dget (snd (snd (snd u))) n \<noteq> None \<Longrightarrow> log_name uts (upd_time u) n \<in> set Ls"
  shows "part_ops (newer old n) n (concat (map (\<lambda>L. in_log uts L (tr1 @ tr2)) Ls)) = part_ops (\<lambda>t. True) n tr2"
proof -
  let ?g = "\<lambda>u. log_name uts (upd_time u) n" and ?N = "newer old n" and ?tr = "tr1 @ tr2"
  obtain lm where lm: "last_touch n tr1 = Some lm" using old(2) by blast
  have "part_ops ?N n (concat (map (\<lambda>L. in_log uts L ?tr) Ls)) =
      part_ops ?N n (concat (map (\<lambda>L. filter (\<lambda>u. ?g u = L) ?tr) Ls))"
    unfolding part_ops_concat map_map comp_def part_ops_log_time ..
  also have "\<dots> = part_ops ?N n (filter (\<lambda>u. ?g u \<in> set Ls) ?tr)"
    by (subst ordered_groups [OF log_names_sorted [OF times valid] Ls]) (rule refl)
  also have "\<dots> = part_ops ?N n (filter (\<lambda>u. ?g u \<in> set Ls) tr1) @ part_ops ?N n (filter (\<lambda>u. ?g u \<in> set Ls) tr2)"
    by (simp only: filter_append part_ops_append)
  also have "part_ops ?N n (filter (\<lambda>u. ?g u \<in> set Ls) tr1) = []"
  proof (rule part_ops_none)
    fix u assume "u \<in> set (filter (\<lambda>u. ?g u \<in> set Ls) tr1)" "dget (snd (snd (snd u))) n \<noteq> None"
    then show "\<not> ?N (upd_time u)"
      using last_touch_after [of tr1 u n] times old(1) lm by (auto simp: newer_def sorted_wrt_append)
  qed
  also have "part_ops ?N n (filter (\<lambda>u. ?g u \<in> set Ls) tr2) = part_ops (\<lambda>t. True) n tr2"
  proof (rule part_ops_all)
    fix u assume u: "u \<in> set tr2" "dget (snd (snd (snd u))) n \<noteq> None"
    obtain v where "v \<in> set tr1" "upd_time v = lm" using last_touch_time [OF lm] by blast
    then have "lm < upd_time u" using times u(1) by (auto simp: sorted_wrt_append)
    then show "?g u \<in> set Ls \<and> ?N (upd_time u)" using cover [OF u] old(1) lm by (simp add: newer_def)
  qed
  finally show ?thesis by simp
qed

lemma replay_logs:
  assumes s2: "srv uts t0 (tr1 @ tr2) s2"
    and run: "\<And>n. run (part_ops (\<lambda>t. True) n tr2) (cat_map s1 n) = Some (cat_map s2 n)"
    and times: "sorted_wrt (<) (map upd_time (tr1 @ tr2))" and valid: "\<forall>u \<in> set (tr1 @ tr2). valid (upd_time u)"
    and cl: "cat_ok cl" "\<And>n. n \<in> dom (dget (c_parts cl)) \<Longrightarrow> cat_map cl n = cat_map s1 n"
    and old: "\<And>n. n \<in> dom (dget (c_parts cl)) \<Longrightarrow> dget old n = last_touch n tr1 \<and> last_touch n tr1 \<noteq> None"
    and Ls: "sorted_wrt (<) Ls" "\<And>L. L \<in> set Ls \<Longrightarrow> dget (c_logs s2) L \<noteq> None"
    and cover: "\<And>n u. n \<in> dom (dget (c_parts cl)) \<Longrightarrow> u \<in> set tr2 \<Longrightarrow> dget (snd (snd (snd u))) n \<noteq> None
      \<Longrightarrow> log_name uts (upd_time u) n \<in> set Ls"
  shows "\<exists>cl'. apply_logs old (map (\<lambda>L. the (dget (c_logs s2) L)) Ls) cl = (cl', None)
    \<and> cat_ok cl' \<and> dom (dget (c_parts cl')) = dom (dget (c_parts cl))
    \<and> (\<forall>n \<in> dom (dget (c_parts cl)). cat_map cl' n = cat_map s2 n)"
proof -
  let ?tr = "tr1 @ tr2" and ?log = "\<lambda>L. the (dget (c_logs s2) L)"
  define lf where "lf = (\<lambda>L. projr (update_updates (?log L)))"
  have ok: "\<forall>u \<in> set ?tr. upd_ok u" by (rule srv_upd_ok [OF s2])
  have lf: "update_updates (?log L) = Inr (lf L)" "set (lf L) \<subseteq> set (in_log uts L ?tr)"
      "filter (\<lambda>x. ckey (fst x) = k) (lf L) = filter (\<lambda>x. ckey (fst x) = k) (in_log uts L ?tr)"
    if L: "L \<in> set Ls" for L k
  proof -
    obtain u where u: "dget (c_logs s2) L = Some u" using Ls(2) [OF L] by blast
    have "logs_hold (\<lambda>L. in_log uts L ?tr) s2" using s2 by (simp add: srv_def)
    then have "(case dget (c_logs s2) L of None \<Rightarrow> in_log uts L ?tr = [] | Some u \<Rightarrow> holds u (in_log uts L ?tr))"
      unfolding logs_hold_def by blast
    then have h: "holds u (in_log uts L ?tr)" using u by simp
    have "\<forall>x \<in> set (in_log uts L ?tr). upd_ok x" using in_log_upd_ok [OF ok] by blast
    then obtain l where l: "update_updates u = Inr l" "set l \<subseteq> set (in_log uts L ?tr)"
      "\<forall>k. filter (\<lambda>x. ckey (fst x) = k) l = filter (\<lambda>x. ckey (fst x) = k) (in_log uts L ?tr)"
      using update_updates_holds [OF h] by blast
    have lfl: "lf L = l" using l(1) u by (simp add: lf_def)
    then show "update_updates (?log L) = Inr (lf L)" "set (lf L) \<subseteq> set (in_log uts L ?tr)"
      using u l(1,2) by simp_all
    show "filter (\<lambda>x. ckey (fst x) = k) (lf L) = filter (\<lambda>x. ckey (fst x) = k) (in_log uts L ?tr)"
      unfolding lfl by (rule l(3) [rule_format])
  qed
  have "map update_updates (map ?log Ls) = map Inr (map lf Ls)" using lf(1) by simp
  then have logs: "apply_logs old (map ?log Ls) cl = apply_updates_list old (concat (map lf Ls)) cl"
    by (rule apply_logs_concat)
  have final: "run (part_ops (newer old n) n (concat (map lf Ls))) (cat_map cl n) = Some (cat_map s2 n)"
    if n: "n \<in> dom (dget (c_parts cl))" for n
  proof -
    note on = old [OF n]
    have "filter (\<lambda>x. fst x = k) (part_ops (newer old n) n (concat (map lf Ls))) =
        filter (\<lambda>x. fst x = k) (part_ops (\<lambda>t. True) n tr2)" for k
    proof -
      have "filter (\<lambda>x. ckey (fst x) = k) (concat (map lf Ls)) =
          filter (\<lambda>x. ckey (fst x) = k) (concat (map (\<lambda>L. in_log uts L ?tr) Ls))"
        unfolding filter_concat map_map comp_def using lf(3) by (intro arg_cong [where f = concat] map_cong) auto
      then have "filter (\<lambda>x. fst x = k) (part_ops (newer old n) n (concat (map lf Ls))) =
          filter (\<lambda>x. fst x = k) (part_ops (newer old n) n (concat (map (\<lambda>L. in_log uts L ?tr) Ls)))"
        unfolding part_ops_filter by simp
      then show ?thesis
        using replay_part_ops [OF times valid Ls(1) conjunct1 [OF on] conjunct2 [OF on] cover [OF n]] by simp
    qed
    then have "run (part_ops (newer old n) n (concat (map lf Ls))) (cat_map cl n) =
        run (part_ops (\<lambda>t. True) n tr2) (cat_map cl n)" by (rule run_cong)
    then show ?thesis using run cl(2) [OF n] by simp
  qed
  have "\<forall>u \<in> set (concat (map lf Ls)). upd_ok u"
    using lf(2) in_log_upd_ok [OF ok] by fastforce
  moreover have "dom (dget (c_parts cl)) \<subseteq> dom (dget old)" using old by fastforce
  ultimately obtain cl' where "apply_updates_list old (concat (map lf Ls)) cl = (cl', None)"
    and r: "replayed old (concat (map lf Ls)) cl cl'"
    using apply_updates_list_ok [OF cl(1), of "concat (map lf Ls)" old] final by auto
  moreover have "cat_map cl' n = cat_map s2 n" if "n \<in> dom (dget (c_parts cl))" for n
    using r that final [OF that] by (simp add: replayed_def)
  ultimately show ?thesis using logs by (auto simp: replayed_def)
qed

end
section \<open>What a client asks for\<close>

definition attrs_of :: "int \<Rightarrow> 'a catalog \<Rightarrow> cat_attrs" where
  "attrs_of created c = \<lparr>at_created = created, at_modified = c_modified c,
     at_parts = c_attr_parts c, at_updates = c_attr_updates c\<rparr>"

text \<open>The names listed under a locale.\<close>

definition lset :: "string list dict \<Rightarrow> string \<Rightarrow> string set" where
  "lset d loc = (case dget d loc of None \<Rightarrow> {} | Some l \<Rightarrow> set l)"

definition full :: "string list dict \<Rightarrow> bool" where
  "full d \<longleftrightarrow> dict_ok d \<and> (\<forall>loc l. dget d loc = Some l \<longrightarrow> l \<noteq> [])"

lemma lset_add_at: "lset (add_at loc name d) k = (if k = loc then insert name (lset d k) else lset d k)"
  by (auto simp: lset_def add_at_def Let_def pydict.get_put split: option.split)

lemma full_add_at: "full d \<Longrightarrow> full (add_at loc name d)"
  by (auto simp: full_def add_at_def Let_def pydict.get_put pydict.ok_put split: option.splits if_splits)

lemma changed_parts_ok:
  assumes "\<forall>(n, lm) \<in> set L. \<exists>lm' loc. dget (at_parts new) n = Some lm' \<and> lm \<le> lm' \<and> locale_of n = Inr loc"
    and "full d"
  shows "\<exists>d' inc'. changed_parts uts new L d inc = Inr (d', inc') \<and> full d'
    \<and> (\<forall>loc. lset d' loc = lset d loc
        \<union> {n. \<exists>lm. (n, lm) \<in> set L \<and> dget (at_parts new) n \<noteq> Some lm \<and> locale_of n = Inr loc})"
  using assms
proof (induction L arbitrary: d inc)
  case (Cons x L)
  obtain n lm where x: "x = (n, lm)" by fastforce
  obtain lm' loc where n: "dget (at_parts new) n = Some lm'" "lm \<le> lm'" "locale_of n = Inr loc"
    using Cons.prems(1) x by auto
  have rest: "\<forall>(n, lm) \<in> set L. \<exists>lm' loc. dget (at_parts new) n = Some lm' \<and> lm \<le> lm' \<and> locale_of n = Inr loc"
    using Cons.prems(1) by simp
  show ?case
  proof (cases "lm = lm'")
    case True
    then show ?thesis using Cons.IH [OF rest Cons.prems(2), of inc] n x by auto
  next
    case False
    define inc1 where "inc1 = (inc \<and> dget (at_updates new) (''update.'' @ uts lm @ ''.'' @ loc) \<noteq> None)"
    have "changed_parts uts new (x # L) d inc = changed_parts uts new L (add_at loc n d) inc1"
      using False n by (simp add: x inc1_def)
    moreover obtain d' inc' where d': "changed_parts uts new L (add_at loc n d) inc1 = Inr (d', inc')" "full d'"
      "\<And>k. lset d' k = lset (add_at loc n d) k
        \<union> {n. \<exists>lm. (n, lm) \<in> set L \<and> dget (at_parts new) n \<noteq> Some lm \<and> locale_of n = Inr k}"
      using Cons.IH [OF rest full_add_at [OF Cons.prems(2)], of loc n inc1] by blast
    moreover have "lset d' k = lset d k
        \<union> {n. \<exists>lm. (n, lm) \<in> set (x # L) \<and> dget (at_parts new) n \<noteq> Some lm \<and> locale_of n = Inr k}" for k
      unfolding d'(3) lset_add_at using n False by (auto simp: x)
    ultimately show ?thesis by simp
  qed
qed simp

lemma new_parts_ok:
  assumes "\<forall>n \<in> set names. \<exists>loc. locale_of n = Inr loc" and "full d"
  shows "\<exists>d' inc'. new_parts old locs names d inc = Inr (d', inc') \<and> full d'
    \<and> (\<forall>loc. lset d loc \<subseteq> lset d' loc) \<and> (inc' \<longrightarrow> inc \<and> d' = d) \<and> (d' = [] \<longrightarrow> d = [])"
  using assms
proof (induction names arbitrary: d inc)
  case (Cons n names)
  obtain loc where n: "locale_of n = Inr loc" using Cons.prems(1) by auto
  have rest: "\<forall>n \<in> set names. \<exists>loc. locale_of n = Inr loc" using Cons.prems(1) by simp
  note ih = Cons.IH [OF rest Cons.prems(2), of inc]
    Cons.IH [OF rest full_add_at [OF Cons.prems(2)], of loc n False]
  have "\<And>d'. (\<forall>k. lset (add_at loc n d) k \<subseteq> lset d' k) \<Longrightarrow> d' \<noteq> [] \<and> (\<forall>k. lset d k \<subseteq> lset d' k)"
  proof -
    fix d' assume a: "\<forall>k. lset (add_at loc n d) k \<subseteq> lset d' k"
    then have "lset (add_at loc n d) loc \<subseteq> lset d' loc" by blast
    then have "n \<in> lset d' loc" by (simp add: lset_add_at)
    then have "d' \<noteq> []" by (auto simp: lset_def)
    moreover have "lset d k \<subseteq> lset d' k" for k using a [rule_format, of k] by (auto simp: lset_add_at split: if_splits)
    ultimately show "d' \<noteq> [] \<and> (\<forall>k. lset d k \<subseteq> lset d' k)" by blast
  qed
  note grow = this
  obtain d1 inc1 where d1: "new_parts old locs names (add_at loc n d) False = Inr (d1, inc1)" "full d1"
    "\<forall>k. lset (add_at loc n d) k \<subseteq> lset d1 k" "\<not> inc1" using ih(2) by auto
  obtain d2 inc2 where d2: "new_parts old locs names d inc = Inr (d2, inc2)" "full d2"
    "\<forall>k. lset d k \<subseteq> lset d2 k" "inc2 \<longrightarrow> inc \<and> d2 = d" "d2 = [] \<longrightarrow> d = []" using ih(1) by auto
  have "new_parts old locs (n # names) d inc = Inr (d2, inc2)
      \<or> new_parts old locs (n # names) d inc = Inr (d1, inc1)"
    using n d1(1) d2(1) by simp
  then show ?case
  proof
    assume "new_parts old locs (n # names) d inc = Inr (d2, inc2)"
    then show ?thesis using d2(2-5) by blast
  next
    assume "new_parts old locs (n # names) d inc = Inr (d1, inc1)"
    then show ?thesis using d1(2,4) grow [OF d1(3)] by blast
  qed
qed simp

lemma last_lm_in:
  assumes "names \<noteq> []" "\<forall>n \<in> set names. dget (at_parts old) n \<noteq> None"
  shows "\<exists>n l. last_lm old names = Some l \<and> dget (at_parts old) n = Some l"
proof -
  let ?f = "\<lambda>name acc. case dget (at_parts old) name of None \<Rightarrow> acc
    | Some lm \<Rightarrow> (case acc of None \<Rightarrow> Some lm | Some l \<Rightarrow> Some (if lm > l then lm else l))"
  have step: "\<exists>n l. fold ?f ns (Some k) = Some l \<and> dget (at_parts old) n = Some l"
    if "dget (at_parts old) m = Some k" for ns k m
    using that
  proof (induction ns arbitrary: k m)
    case (Cons a ns)
    show ?case
    proof (cases "dget (at_parts old) a")
      case None
      then show ?thesis using Cons.IH [OF Cons.prems] by simp
    next
      case (Some lm)
      then have "?f a (Some k) = Some (if lm > k then lm else k)" by simp
      moreover have "\<exists>m. dget (at_parts old) m = Some (if lm > k then lm else k)"
        using Some Cons.prems by auto
      then obtain m' where "dget (at_parts old) m' = Some (if lm > k then lm else k)" by blast
      ultimately show ?thesis using Cons.IH by (simp only: fold_simps)
    qed
  qed auto
  obtain a ns lm where a: "names = a # ns" "dget (at_parts old) a = Some lm"
    using assms by (cases names) auto
  then have "last_lm old names = fold ?f ns (Some lm)" by (simp add: last_lm_def)
  then show ?thesis using step [OF a(2), of ns] by simp
qed

lemma logs_for_ok:
  "\<forall>(L, t) \<in> set ups. \<exists>k. locale_of L = Inr k \<Longrightarrow>
     \<exists>r. logs_for loc (Some l) ups = Inr r
       \<and> set r = {L. \<exists>t. (L, t) \<in> set ups \<and> locale_of L = Inr loc \<and> l < t}"
proof (induction ups)
  case (Cons x ups)
  obtain L t k where x: "x = (L, t)" "locale_of L = Inr k" using Cons.prems by fastforce
  obtain r where r: "logs_for loc (Some l) ups = Inr r"
    "set r = {L. \<exists>t. (L, t) \<in> set ups \<and> locale_of L = Inr loc \<and> l < t}"
    using Cons.IH Cons.prems by auto
  show ?case using r x by auto
qed simp

lemma all_logs_ok:
  assumes "\<forall>(L, t) \<in> set (at_updates new). \<exists>k. locale_of L = Inr k"
    and "\<forall>(loc, names) \<in> set parts. \<exists>l. last_lm old names = Some l"
  shows "\<exists>r. all_logs old new parts = Inr r \<and> set r = {L. \<exists>loc names l t. (loc, names) \<in> set parts
    \<and> last_lm old names = Some l \<and> (L, t) \<in> set (at_updates new) \<and> locale_of L = Inr loc \<and> l < t}"
  using assms(2)
proof (induction parts)
  case (Cons x parts)
  obtain loc names l where x: "x = (loc, names)" "last_lm old names = Some l" using Cons.prems by fastforce
  obtain q where q: "logs_for loc (Some l) (at_updates new) = Inr q"
    "set q = {L. \<exists>t. (L, t) \<in> set (at_updates new) \<and> locale_of L = Inr loc \<and> l < t}"
    using logs_for_ok [OF assms(1)] by blast
  obtain r where r: "all_logs old new parts = Inr r" "set r = {L. \<exists>loc names l t. (loc, names) \<in> set parts
    \<and> last_lm old names = Some l \<and> (L, t) \<in> set (at_updates new) \<and> locale_of L = Inr loc \<and> l < t}"
    using Cons.IH Cons.prems by auto
  have "all_logs old new (x # parts) = Inr (q @ r)" using x q(1) r(1) by simp
  moreover have "set (q @ r) = {L. \<exists>loc names l t. (loc, names) \<in> set (x # parts)
    \<and> last_lm old names = Some l \<and> (L, t) \<in> set (at_updates new) \<and> locale_of L = Inr loc \<and> l < t}"
    unfolding set_append q(2) r(2) using x(2) by (auto simp: x(1))
  ultimately show ?case by blast
qed simp
lemma locale_of_log:
  assumes "CHR ''.'' \<notin> set x"
  shows "locale_of (''update.'' @ x @ ''.'' @ loc) = Inr loc"
proof -
  have "py_find CHR ''.'' (''update'' @ CHR ''.'' # (x @ ''.'' @ loc)) = Some (length ''update'')"
    by (rule py_find_append) simp
  moreover have "py_find CHR ''.'' (x @ CHR ''.'' # loc) = Some (length x)"
    by (rule py_find_append [OF assms])
  ultimately show ?thesis by (simp add: locale_of_def)
qed

lemma changed_parts_inc:
  "\<lbrakk>changed_parts uts new L d inc = Inr (d', inc'); inc;
    \<And>n lm loc. (n, lm) \<in> set L \<Longrightarrow> locale_of n = Inr loc \<Longrightarrow>
      dget (at_updates new) (''update.'' @ uts lm @ ''.'' @ loc) \<noteq> None\<rbrakk> \<Longrightarrow> inc'"
proof (induction L arbitrary: d inc)
  case (Cons x L)
  obtain n lm where x: "x = (n, lm)" by fastforce
  obtain lm' where n: "dget (at_parts new) n = Some lm'"
    using Cons.prems(1) by (cases "dget (at_parts new) n") (simp_all add: x)
  have up: "\<And>n lm loc. (n, lm) \<in> set L \<Longrightarrow> locale_of n = Inr loc \<Longrightarrow>
      dget (at_updates new) (''update.'' @ uts lm @ ''.'' @ loc) \<noteq> None"
    using Cons.prems(3) by (meson list.set_intros(2))
  show ?case
  proof (cases "lm' = lm")
    case True
    then have "changed_parts uts new L d inc = Inr (d', inc')" using Cons.prems(1) n by (simp add: x)
    then show ?thesis by (rule Cons.IH) (rule Cons.prems(2) up | assumption)+
  next
    case False
    then obtain loc where l: "locale_of n = Inr loc"
      using Cons.prems(1) n by (cases "locale_of n") (simp_all add: x split: if_splits)
    have "dget (at_updates new) (''update.'' @ uts lm @ ''.'' @ loc) \<noteq> None"
      using Cons.prems(3) [of n lm loc] l by (simp add: x)
    then have "changed_parts uts new L (add_at loc n d) inc = Inr (d', inc')"
      using Cons.prems(1) n l False by (simp add: x split: if_splits)
    then show ?thesis by (rule Cons.IH) (rule Cons.prems(2) up | assumption)+
  qed
qed simp

lemma new_parts_none:
  "\<forall>n \<in> set names. dget (at_parts old) n \<noteq> None \<Longrightarrow> new_parts old locs names d inc = Inr (d, inc)"
  by (induction names) auto

lemma last_touch_None: "last_touch n tr = None \<Longrightarrow> part_ops P n tr = []"
proof (induction tr rule: rev_induct)
  case (snoc u tr)
  obtain f op t md where u: "u = (f, op, t, md)" by (rule prod_cases4)
  show ?case using snoc by (simp add: u part_ops_append split: if_splits)
qed simp

lemma in_log_times: "sorted_wrt (<) (map upd_time tr) \<Longrightarrow> sorted_wrt (<) (map upd_time (in_log uts L tr))"
proof -
  assume s: "sorted_wrt (<) (map upd_time tr)"
  let ?g = "\<lambda>(f, op, t, md). (f, op, t, filter (\<lambda>(n, e). log_name uts t n = L) md)"
  have "map upd_time (map ?g tr) = map upd_time tr" by (simp add: upd_time_def case_prod_unfold)
  then have "sorted_wrt (<) (map upd_time (map ?g tr))" using s by (simp only:)
  then have "sorted_wrt (\<lambda>x y. upd_time x < upd_time y) (map ?g tr)" by (rule iffD1 [OF sorted_wrt_map])
  then have "sorted_wrt (\<lambda>x y. upd_time x < upd_time y) (in_log uts L tr)"
    unfolding in_log_def by (rule sorted_wrt_filter)
  then show ?thesis by (rule iffD2 [OF sorted_wrt_map])
qed

lemma in_log_in:
  assumes "u \<in> set tr" "(n, e) \<in> set (snd (snd (snd u)))"
  shows "\<exists>v \<in> set (in_log uts (log_name uts (upd_time u) n) tr). upd_time v = upd_time u"
proof -
  obtain f op t md where u: "u = (f, op, t, md)" by (rule prod_cases4)
  have "(n, e) \<in> set (filter (\<lambda>(m, e). log_name uts t m = log_name uts t n) md)" using assms(2) by (simp add: u)
  then have "filter (\<lambda>(m, e). log_name uts t m = log_name uts t n) md \<noteq> []" by fastforce
  then have "(f, op, t, filter (\<lambda>(m, e). log_name uts t m = log_name uts t n) md)
      \<in> set (in_log uts (log_name uts t n) tr)"
    using assms(1) by (force simp: u in_log_def)
  then show ?thesis by (force simp: u upd_time_def)
qed

lemma sorted_last: "sorted_wrt (<) (map upd_time us) \<Longrightarrow> v \<in> set us \<Longrightarrow> upd_time v \<le> upd_time (last us)"
  by (induction us rule: rev_induct) (auto simp: sorted_wrt_append order_le_less)

text \<open>The logs a server offers.\<close>

lemma srv_updates:
  assumes s: "srv uts t0 tr c"
  shows "dget (c_attr_updates c) L = (if in_log uts L tr = [] then None else Some (upd_time (last (in_log uts L tr))))"
    and "dget (c_attr_updates c) L \<noteq> None \<Longrightarrow> dget (c_logs c) L \<noteq> None"
proof -
  have h: "(case dget (c_logs c) L of None \<Rightarrow> in_log uts L tr = [] | Some u \<Rightarrow> holds u (in_log uts L tr))
    \<and> dget (c_attr_updates c) L = (if in_log uts L tr = [] then None else Some (upd_time (last (in_log uts L tr))))"
    using s by (simp add: srv_def logs_hold_def)
  then show "dget (c_attr_updates c) L = (if in_log uts L tr = [] then None else Some (upd_time (last (in_log uts L tr))))"
    by blast
  then show "dget (c_attr_updates c) L \<noteq> None \<Longrightarrow> dget (c_logs c) L \<noteq> None"
    using h by (cases "dget (c_logs c) L") auto
qed

lemma srv_log_offered:
  assumes s: "srv uts t0 tr c" and times: "sorted_wrt (<) (map upd_time tr)"
    and u: "u \<in> set tr" "dget (snd (snd (snd u))) n \<noteq> None"
  shows "\<exists>t. dget (c_attr_updates c) (log_name uts (upd_time u) n) = Some t \<and> upd_time u \<le> t"
proof -
  obtain e where "dget (snd (snd (snd u))) n = Some e" using u(2) by blast
  then have "(n, e) \<in> set (snd (snd (snd u)))" unfolding dget_def by (rule map_of_SomeD)
  then obtain v where v: "v \<in> set (in_log uts (log_name uts (upd_time u) n) tr)" "upd_time v = upd_time u"
    using in_log_in [OF u(1)] by blast
  have "in_log uts (log_name uts (upd_time u) n) tr \<noteq> []" using v(1) by force
  then show ?thesis using srv_updates(1) [OF s] sorted_last [OF in_log_times [OF times] v(1)] v(2) by simp
qed
context update_clock
begin

lemma update_locale:
  assumes s: "srv uts t0 tr c" and valid: "\<forall>u \<in> set tr. valid (upd_time u)"
    and L: "dget (c_attr_updates c) L \<noteq> None"
  shows "\<exists>k. locale_of L = Inr k"
proof -
  have "in_log uts L tr \<noteq> []" using L srv_updates(1) [OF s, of L] by (simp split: if_splits)
  then obtain u where u: "u \<in> set tr"
    "filter (\<lambda>(n, e). log_name uts (upd_time u) n = L) (snd (snd (snd u))) \<noteq> []"
    by (force simp: in_log_def filter_empty_conv upd_time_def)
  then obtain n where "log_name uts (upd_time u) n = L" by (auto simp: filter_empty_conv)
  moreover have "CHR ''.'' \<notin> set (uts (upd_time u))" using no_dot valid u(1) by blast
  ultimately show ?thesis unfolding log_name_def using locale_of_log by blast
qed

lemma sync_ok:
  assumes s1: "srv uts t0 tr1 s1" and s2: "srv uts t0 (tr1 @ tr2) s2"
    and run: "\<And>n. run (part_ops (\<lambda>t. True) n tr2) (cat_map s1 n) = Some (cat_map s2 n)"
    and times: "sorted_wrt (<) (map upd_time (tr1 @ tr2))" "\<forall>u \<in> set (tr1 @ tr2). t0 < upd_time u"
    and valid: "\<forall>u \<in> set (tr1 @ tr2). valid (upd_time u)"
    and cl: "cat_ok cl" "dom (dget (c_parts cl)) \<subseteq> dom (dget (c_parts s1))"
      "\<forall>n \<in> dom (dget (c_parts cl)). cat_map cl n = cat_map s1 n"
  shows "case get_updates_needed uts (attrs_of created s1) (Some (attrs_of created s2)) of
      Inl e \<Rightarrow> False
    | Inr NotModified \<Rightarrow> \<forall>n \<in> dom (dget (c_parts cl)). cat_map cl n = cat_map s2 n
    | Inr (NeedParts ns) \<Rightarrow> dom (dget (c_parts s2)) \<noteq> dom (dget (c_parts s1))
        \<and> (\<forall>n \<in> dom (dget (c_parts cl)) - ns. cat_map cl n = cat_map s2 n)
    | Inr (NeedLogs Ls) \<Rightarrow> (\<forall>L \<in> set Ls. dget (c_logs s2) L \<noteq> None)
        \<and> (\<exists>cl'. apply_logs (c_attr_parts s1) (map (\<lambda>L. the (dget (c_logs s2) L)) Ls) cl = (cl', None)
             \<and> dom (dget (c_parts cl')) = dom (dget (c_parts cl))
             \<and> (\<forall>n \<in> dom (dget (c_parts cl)). cat_map cl' n = cat_map s2 n))"
proof -
  let ?tr = "tr1 @ tr2" and ?old = "attrs_of created s1" and ?new = "attrs_of created s2"
  let ?cl = "dom (dget (c_parts cl))"
  note at = attrs_of_def cat_attrs.simps
  have o: "dget (at_parts ?old) n = last_touch n tr1" "dget (at_parts ?new) n = last_touch n ?tr" for n
    using s1 s2 by (simp_all add: srv_def at)
  have doms: "n \<in> dom (dget (c_parts s1)) \<longleftrightarrow> last_touch n tr1 \<noteq> None"
    "n \<in> dom (dget (c_parts s2)) \<longleftrightarrow> last_touch n ?tr \<noteq> None" for n
    using s1 s2 mods_dom [of s1] mods_dom [of s2] unfolding srv_def by (metis domIff)+
  have dok: "dict_ok (c_attr_parts s1)" "dict_ok (c_attr_updates s2)"
    using s1 s2 by (simp_all add: srv_def logs_hold_def)
  have same: "cat_map cl n = cat_map s2 n" if "n \<in> ?cl" "last_touch n tr2 = None" for n
    using run [of n] last_touch_None [OF that(2)] cl(3) that(1) by simp
  have later: "lm < t" if lm: "last_touch m tr1 = Some lm" and t: "last_touch n tr2 = Some t" for m n lm t
    using last_touch_time [OF lm] last_touch_time [OF t] times(1) by (auto simp: sorted_wrt_append)
  have name: "\<exists>loc. locale_of n = Inr loc" if "last_touch n ?tr \<noteq> None" for n
    using srv_part_name [OF s2] doms(2) that by blast
  show ?thesis
  proof (cases "c_modified s2 = c_modified s1")
    case True
    have "tr2 = []"
    proof (rule ccontr)
      assume n: "tr2 \<noteq> []"
      then have "last tr2 \<in> set tr2" by simp
      then have "c_modified s1 < upd_time (last tr2)"
        using s1 times by (cases "tr1 = []") (auto simp: srv_def sorted_wrt_append)
      then show False using True n s2 by (simp add: srv_def)
    qed
    then have "\<forall>n \<in> ?cl. cat_map cl n = cat_map s2 n" using same by (simp add: last_touch_def)
    then show ?thesis using True by (simp add: get_updates_needed_def at)
  next
    case False
    have memb: "(n, lm) \<in> set (c_attr_parts s1) \<longleftrightarrow> last_touch n tr1 = Some lm" for n lm
      using dok(1) o(1) [of n] unfolding dget_def dict_ok_def at by (metis map_of_eq_Some_iff)
    have app: "last_touch n ?tr = (case last_touch n tr2 of None \<Rightarrow> last_touch n tr1 | Some t \<Rightarrow> Some t)" for n
      by (rule last_touch_append)
    have pre: "\<forall>(n, lm) \<in> set (at_parts ?old). \<exists>lm' loc. dget (at_parts ?new) n = Some lm' \<and> lm \<le> lm'
        \<and> locale_of n = Inr loc"
    proof (clarify)
      fix n lm assume "(n, lm) \<in> set (at_parts ?old)"
      then have lm: "last_touch n tr1 = Some lm" using memb by (simp add: at)
      then have "\<exists>lm'. last_touch n ?tr = Some lm' \<and> lm \<le> lm'"
        using app [of n] later [OF lm] by (cases "last_touch n tr2") (auto intro: less_imp_le)
      then show "\<exists>lm' loc. dget (at_parts ?new) n = Some lm' \<and> lm \<le> lm' \<and> locale_of n = Inr loc"
        using o(2) name [of n] by auto
    qed
    have "full []" by (simp add: full_def dict_ok_def)
    obtain d1 inc1 where d1: "changed_parts uts ?new (at_parts ?old) [] True = Inr (d1, inc1)" "full d1"
      "\<And>loc. lset d1 loc = {n. \<exists>lm. last_touch n tr1 = Some lm \<and> last_touch n ?tr \<noteq> Some lm
         \<and> locale_of n = Inr loc}"
      using changed_parts_ok [OF pre \<open>full []\<close>, of uts True] memb o(2) by (auto simp: lset_def at)
    define locs where "locs = insert ''C'' (set (dkeys d1))"
    have news: "\<forall>n \<in> set (dkeys (at_parts ?new)). \<exists>loc. locale_of n = Inr loc"
      using name o(2) by (auto simp: pydict.keys_get domIff)
    obtain d2 inc2 where d2: "new_parts ?old locs (dkeys (at_parts ?new)) d1 inc1 = Inr (d2, inc2)" "full d2"
      "\<And>loc. lset d1 loc \<subseteq> lset d2 loc" "inc2 \<longrightarrow> inc1 \<and> d2 = d1" "d2 = [] \<longrightarrow> d1 = []"
      using new_parts_ok [OF news d1(2)] by blast
    have changed: "n \<in> lset d1 loc" if n: "n \<in> ?cl" "last_touch n tr2 \<noteq> None" "locale_of n = Inr loc" for n loc
    proof -
      obtain lm t where "last_touch n tr1 = Some lm" "last_touch n tr2 = Some t"
        using n(1,2) cl(2) doms(1) [of n] by blast
      then show ?thesis using d1(3) app [of n] later [of n lm n t] n(3) by auto
    qed
    have clname: "\<exists>loc. locale_of n = Inr loc" if "n \<in> ?cl" for n
      using srv_part_name [OF s1] cl(2) that by blast
    have eq: "get_updates_needed uts ?old (Some ?new) =
        (if d2 = [] then Inr (NeedLogs [])
         else if \<not> inc2 then Inr (NeedParts (\<Union>(loc, names) \<in> set d2. set names))
         else sbind (all_logs ?old ?new d2) (\<lambda>l. Inr (NeedLogs (sort (remdups l)))))"
      using False d1(1) d2(1) by (simp add: get_updates_needed_def at locs_def)
    consider "d2 = []" | "d2 \<noteq> []" "\<not> inc2" | "d2 \<noteq> []" "inc2" by blast
    then show ?thesis
    proof cases
      case 1
      then have "lset d1 loc = {}" for loc using d2(3) [of loc] by (simp add: lset_def)
      then have "cat_map cl n = cat_map s2 n" if "n \<in> ?cl" for n
        using changed [OF that] clname [OF that] same [OF that] by (metis empty_iff)
      then show ?thesis unfolding eq using 1 by simp
    next
      case 2
      have "cat_map cl n = cat_map s2 n" if n: "n \<in> ?cl - (\<Union>(loc, names) \<in> set d2. set names)" for n
      proof -
        obtain loc where loc: "locale_of n = Inr loc" using clname n by blast
        have "n \<notin> lset d2 loc"
        proof
          assume "n \<in> lset d2 loc"
          then obtain names where "dget d2 loc = Some names" "n \<in> set names"
            by (auto simp: lset_def split: option.splits)
          then show False using n unfolding dget_def by (auto dest: map_of_SomeD)
        qed
        then show ?thesis using changed [OF _ _ loc] d2(3) same n by blast
      qed
      moreover have "dom (dget (c_parts s2)) \<noteq> dom (dget (c_parts s1))"
      proof
        assume d: "dom (dget (c_parts s2)) = dom (dget (c_parts s1))"
        have "dget (at_updates ?new) (''update.'' @ uts lm @ ''.'' @ loc) \<noteq> None"
          if nl: "(n, lm) \<in> set (at_parts ?old)" "locale_of n = Inr loc" for n lm loc
        proof -
          have lt: "last_touch n tr1 = Some lm" using nl(1) memb by (simp add: at)
          obtain f op md where "(f, op, lm, md) \<in> set tr1" "dget md n \<noteq> None" using last_touch_in [OF lt] by blast
          then have "\<exists>t. dget (c_attr_updates s2) (log_name uts lm n) = Some t"
            using srv_log_offered [OF s2 times(1), of "(f, op, lm, md)" n] by (auto simp: upd_time_def)
          then show ?thesis using nl(2) by (simp add: at log_name_def del: append.simps)
        qed
        then have "inc1" by (rule changed_parts_inc [OF d1(1) TrueI])
        moreover have "\<forall>n \<in> set (dkeys (at_parts ?new)). dget (at_parts ?old) n \<noteq> None"
          using d doms o by (auto simp: pydict.keys_get domIff)
        ultimately show False using new_parts_none [of _ ?old locs d1 inc1] d2(1) 2(2) by simp
      qed
      ultimately show ?thesis unfolding eq using 2 by simp
    next
      case 3
      then have d2eq: "d2 = d1" using d2(4) by blast
      have lm: "\<exists>m l. last_lm ?old names = Some l \<and> last_touch m tr1 = Some l"
        if "(loc, names) \<in> set d1" for loc names
      proof -
        have g: "dget d1 loc = Some names"
          using that d1(2) by (simp add: full_def dict_ok_def dget_def)
        then have "names \<noteq> []" "set names = lset d1 loc" using d1(2) by (auto simp: full_def lset_def)
        then have "\<forall>n \<in> set names. dget (at_parts ?old) n \<noteq> None" using d1(3) [of loc] o(1) by auto
        from last_lm_in [OF \<open>names \<noteq> []\<close> this] show ?thesis unfolding o(1) by blast
      qed
      have ups: "\<exists>k. locale_of L = Inr k" if "(L, t) \<in> set (c_attr_updates s2)" for L t
        using update_locale [OF s2 valid, of L] that dok(2) by (simp add: dict_ok_def dget_def)
      obtain r where r: "all_logs ?old ?new d1 = Inr r" and rs: "set r = {L. \<exists>loc names l t. (loc, names) \<in> set d1
          \<and> last_lm ?old names = Some l \<and> (L, t) \<in> set (c_attr_updates s2) \<and> locale_of L = Inr loc \<and> l < t}"
        using all_logs_ok [of ?new d1 ?old] ups lm by (fastforce simp: at)
      define Ls where "Ls = sort (remdups r)"
      have sorted: "sorted_wrt (<) Ls" by (simp add: Ls_def strict_sorted_iff)
      have logs: "dget (c_logs s2) L \<noteq> None" if L: "L \<in> set Ls" for L
      proof -
        obtain t where "(L, t) \<in> set (c_attr_updates s2)" using L rs by (auto simp: Ls_def)
        then have "dget (c_attr_updates s2) L \<noteq> None" using dok(2) by (simp add: dict_ok_def dget_def)
        then show ?thesis by (rule srv_updates(2) [OF s2])
      qed
      have cover: "log_name uts (upd_time u) n \<in> set Ls"
        if n: "n \<in> ?cl" and u: "u \<in> set tr2" "dget (snd (snd (snd u))) n \<noteq> None" for n u
      proof -
        obtain loc where loc: "locale_of n = Inr loc" using clname [OF n] by blast
        have "last_touch n tr2 \<noteq> None"
          using last_touch_after [of tr2 u n] times(1) u by (auto simp: sorted_wrt_append)
        then have "n \<in> lset d1 loc" using changed [OF n _ loc] by blast
        then obtain names where names: "(loc, names) \<in> set d1"
          by (auto simp: lset_def dget_def split: option.splits dest: map_of_SomeD)
        obtain m l where l: "last_lm ?old names = Some l" "last_touch m tr1 = Some l" using lm [OF names] by blast
        obtain v where "v \<in> set tr1" "upd_time v = l" using last_touch_time [OF l(2)] by blast
        then have lu: "l < upd_time u" using times(1) u(1) by (auto simp: sorted_wrt_append)
        have "u \<in> set (tr1 @ tr2)" using u(1) by simp
        then obtain t where t: "dget (c_attr_updates s2) (log_name uts (upd_time u) n) = Some t" "upd_time u \<le> t"
          using srv_log_offered [OF s2 times(1) _ u(2)] by blast
        have mem: "(log_name uts (upd_time u) n, t) \<in> set (c_attr_updates s2)"
          using t(1) unfolding dget_def by (rule map_of_SomeD)
        have "CHR ''.'' \<notin> set (uts (upd_time u))" using no_dot valid u(1) by simp
        then have "locale_of (log_name uts (upd_time u) n) = Inr loc"
          unfolding log_name_def loc using locale_of_log by simp
        then have "log_name uts (upd_time u) n \<in> set r" unfolding rs using names l(1) mem lu t(2) by force
        then show ?thesis by (simp add: Ls_def)
      qed
      have old: "dget (c_attr_parts s1) n = last_touch n tr1 \<and> last_touch n tr1 \<noteq> None" if "n \<in> ?cl" for n
        using o(1) [of n] doms(1) [of n] cl(2) that by (auto simp: at)
      have cm: "\<And>n. n \<in> ?cl \<Longrightarrow> cat_map cl n = cat_map s1 n" using cl(3) by blast
      have "\<exists>cl'. apply_logs (c_attr_parts s1) (map (\<lambda>L. the (dget (c_logs s2) L)) Ls) cl = (cl', None)
          \<and> cat_ok cl' \<and> dom (dget (c_parts cl')) = ?cl \<and> (\<forall>n \<in> ?cl. cat_map cl' n = cat_map s2 n)"
        by (rule replay_logs [OF s2 run times(1) valid cl(1) cm old sorted logs cover])
      moreover have "get_updates_needed uts ?old (Some ?new) = Inr (NeedLogs Ls)"
        unfolding eq using 3 r by (simp add: d2eq Ls_def)
      ultimately show ?thesis using logs by auto
    qed
  qed
qed

end
section \<open>Properties\<close>

text \<open>
  C1. An incremental update is complete: a server serves any sequence of additions and removals
  from its creation on, each at a later time; a client has copies of some parts of an earlier
  state of the server and that state's attributes.  Then \<open>get_updates_needed\<close> never fails; when it
  asks for logs the server offers all of them and replaying them without an error gives the
  server's content of every part the client has; when it asks for parts the others are up to date
  already, and it does so only when the server has got parts it had not; and when it reports no
  change every part is up to date.
\<close>

lemma incremental_update_complete:
  assumes "serve_all update_ts rs1 (catalog_init batch True False t0) = Some s1"
    and "serve_all update_ts rs2 s1 = Some s2"
    and "\<forall>(r, t) \<in> set (rs1 @ rs2). pub_fmri (req_fmri r) \<and> valid_time t"
    and "sorted_wrt (<) (t0 # map snd (rs1 @ rs2))"
    and "cat_ok cl" and "dom (dget (c_parts cl)) \<subseteq> dom (dget (c_parts s1))"
    and "\<forall>n \<in> dom (dget (c_parts cl)). cat_map cl n = cat_map s1 n"
  shows "case get_updates_needed update_ts (attrs_of created s1) (Some (attrs_of created s2)) of
      Inl e \<Rightarrow> False
    | Inr NotModified \<Rightarrow> \<forall>n \<in> dom (dget (c_parts cl)). cat_map cl n = cat_map s2 n
    | Inr (NeedParts ns) \<Rightarrow> dom (dget (c_parts s2)) \<noteq> dom (dget (c_parts s1))
        \<and> (\<forall>n \<in> dom (dget (c_parts cl)) - ns. cat_map cl n = cat_map s2 n)
    | Inr (NeedLogs Ls) \<Rightarrow> (\<forall>L \<in> set Ls. dget (c_logs s2) L \<noteq> None)
        \<and> (\<exists>cl'. apply_logs (c_attr_parts s1) (map (\<lambda>L. the (dget (c_logs s2) L)) Ls) cl = (cl', None)
             \<and> dom (dget (c_parts cl')) = dom (dget (c_parts cl))
             \<and> (\<forall>n \<in> dom (dget (c_parts cl)). cat_map cl' n = cat_map s2 n))"
proof -
  have rs: "\<forall>(r, t) \<in> set rs1. pub_fmri (req_fmri r)" "\<forall>(r, t) \<in> set rs2. pub_fmri (req_fmri r)"
    using assms(3) by auto
  obtain tr1 where tr1: "map upd_time tr1 = map snd rs1" "srv update_ts t0 tr1 s1"
    using serve_all_ok [OF srv_init rs(1) assms(1)] by auto
  obtain tr2 where tr2: "map upd_time tr2 = map snd rs2" "srv update_ts t0 (tr1 @ tr2) s2"
    "\<And>n. run (part_ops (\<lambda>t. True) n tr2) (cat_map s1 n) = Some (cat_map s2 n)"
    using serve_all_ok [OF tr1(2) rs(2) assms(2)] by auto
  have ts: "map upd_time (tr1 @ tr2) = map snd (rs1 @ rs2)" using tr1(1) tr2(1) by simp
  then have set: "upd_time ` set (tr1 @ tr2) = snd ` set (rs1 @ rs2)" by (metis list.set_map)
  have times: "sorted_wrt (<) (map upd_time (tr1 @ tr2))" using assms(4) unfolding ts by simp
  have "\<forall>t \<in> upd_time ` set (tr1 @ tr2). t0 < t \<and> valid_time t"
    unfolding set
  proof (intro ballI conjI)
    fix t assume t: "t \<in> snd ` set (rs1 @ rs2)"
    have "\<forall>t \<in> snd ` set (rs1 @ rs2). t0 < t" using assms(4) by (simp only: sorted_wrt.simps set_map) blast
    then show "t0 < t" using t by blast
    show "valid_time t" using t assms(3) by (auto simp del: set_append)
  qed
  then have "\<forall>u \<in> set (tr1 @ tr2). t0 < upd_time u" "\<forall>u \<in> set (tr1 @ tr2). valid_time (upd_time u)" by blast+
  then show ?thesis by (rule hour_clock.sync_ok [OF tr1(2) tr2(2,3) times _ _ assms(5-7)])
qed

definition sample_time :: int where
  "sample_time = (((2024 * 13 + 1) * 32 + 1) * 24) * 3600000000"

lemma sample_requests: "pub_fmri sample_fmri" "valid_time (sample_time + 1)" "valid_time (sample_time + 2)"
proof -
  have "fmri_init ''pkg://p/a@1,5.11'' None None = Inr sample_fmri" by code_simp
  from fmri_init_wf [OF this] show "pub_fmri sample_fmri"
    by (simp add: pub_fmri_def) (simp add: sample_fmri_def starts_with_def)
  show "valid_time (sample_time + 1)" "valid_time (sample_time + 2)" by code_simp+
qed

text \<open>A server that adds a package to its base part and then removes it.\<close>

definition sample_log :: "unit uentry list \<Rightarrow> int \<Rightarrow> unit cupdate" where
  "sample_log es t = \<lparr>cu_name = ''update.20240101T00Z.C'', cu_data = [(''p'', [(''a'', es)])],
     cu_modified = t, cu_sigs = []\<rparr>"

definition sample_logged :: "cat_op \<Rightarrow> int \<Rightarrow> unit uentry" where
  "sample_logged op t = \<lparr>u_time = t, u_op = op, u_version = ''1,5.11'',
     u_meta = [(BASE_PART, sample_entry ''1,5.11'')]\<rparr>"

definition sample_server :: "unit catalog" where
  "sample_server = (let t = sample_time + 1 in
     \<lparr>c_parts = [(BASE_PART, \<lparr>cp_name = BASE_PART, cp_data = [(''p'', [(''a'', [sample_entry ''1,5.11''])])],
        cp_ordered = True, cp_modified = t, cp_sigs = []\<rparr>)],
      c_logs = [(''update.20240101T00Z.C'', sample_log [sample_logged OpAdd t] t)],
      c_attr_parts = [(BASE_PART, t)], c_attr_updates = [(''update.20240101T00Z.C'', t)],
      c_modified = t, c_package_count = 1, c_version_count = 1, c_batch = False,
      c_log_updates = True, c_read_only = False\<rparr>)"

definition sample_removed :: "unit catalog" where
  "sample_removed = (let t = sample_time + 2 in
     \<lparr>c_parts = [(BASE_PART, \<lparr>cp_name = BASE_PART, cp_data = [], cp_ordered = True, cp_modified = t, cp_sigs = []\<rparr>)],
      c_logs = [(''update.20240101T00Z.C'',
        sample_log [sample_logged OpAdd (sample_time + 1), sample_logged OpRemove t] t)],
      c_attr_parts = [(BASE_PART, t)], c_attr_updates = [(''update.20240101T00Z.C'', t)],
      c_modified = t, c_package_count = 0, c_version_count = 0, c_batch = False,
      c_log_updates = True, c_read_only = False\<rparr>)"

lemma sample_serves:
  "serve_all update_ts [(ReqAdd sample_fmri None [], sample_time + 1)]
     (catalog_init False True False sample_time) = Some sample_server"
  "serve_all update_ts [(ReqRemove sample_fmri, sample_time + 2)] sample_server = Some sample_removed"
  by code_simp+

lemma sample_needs:
  "get_updates_needed update_ts (attrs_of 0 sample_server) (Some (attrs_of 0 sample_removed)) =
     Inr (NeedLogs [''update.20240101T00Z.C''])"
proof -
  have "locale_of BASE_PART = Inr ''C''" "locale_of ''update.20240101T00Z.C'' = Inr ''C''"
    "update_ts (sample_time + 1) = ''20240101T00Z''"
    by code_simp+
  then show ?thesis
    by (simp add: get_updates_needed_def attrs_of_def dget_def add_at_def dput_def
        last_lm_def dkeys_def sample_server_def sample_removed_def Let_def)
qed

lemma incremental_update_complete_witness:
  "\<exists>cl'. apply_logs (c_attr_parts sample_server) [the (dget (c_logs sample_removed) ''update.20240101T00Z.C'')]
     sample_server = (cl', None) \<and> (\<forall>n \<in> dom (dget (c_parts sample_server)). cat_map cl' n = cat_map sample_removed n)"
proof -
  have rs: "\<forall>(r, t) \<in> set ([(ReqAdd sample_fmri None [] :: unit request, sample_time + 1)] @ [(ReqRemove sample_fmri, sample_time + 2)]).
      pub_fmri (req_fmri r) \<and> valid_time t"
    using sample_requests by simp
  have "\<exists>tr. srv update_ts sample_time ([] @ tr) sample_server"
    using serve_all_ok [OF srv_init _ sample_serves(1)] sample_requests(1) by auto
  then have "cat_ok sample_server" by (auto simp: srv_def)
  then show ?thesis
    using incremental_update_complete [OF sample_serves rs, where cl = sample_server and created = 0]
    unfolding sample_needs needed.case sum.case by (auto simp del: apply_logs.simps)
qed

end
