(* ===== verification/Pkg_Action.thy ===== *)
theory Pkg_Action
  imports Pkg_Dict
begin

text \<open>
  Actions, the lines of a manifest: their attributes, \<open>Action.__str__\<close>, \<open>sig_str\<close> and
  \<open>quote_attr_value\<close> of \<open>src/src/modules/actions/generic.py\<close>, and the constructor's checks of
  \<open>_common.c\<close>.  The payload (\<open>data\<close>) is left out.  A set as a value of an attribute, which
  only code in memory makes, is a list here.
\<close>

section \<open>Actions\<close>

datatype avalue = AStr string | AList "string list"

text \<open>The hash is \<open>None\<close> for the classes without one, and where it is Python's \<open>None\<close>.\<close>

record action =
  a_name :: string
  a_hash :: "string option"
  a_attrs :: "avalue dict"

definition quote_char1 :: char where "quote_char1 = CHR 0x27"
definition backslash :: char where "backslash = CHR 0x5C"

fun has_macro :: "string \<Rightarrow> bool" where
  "has_macro (c # d # s) = (c = CHR ''$'' \<and> d = CHR ''('' \<or> has_macro (d # s))"
| "has_macro _ = False"

definition has_quotes :: "string \<Rightarrow> bool" where
  "has_quotes s \<longleftrightarrow> CHR '' '' \<in> set s \<or> quote_char1 \<in> set s \<or> CHR ''\"'' \<in> set s \<or> s = []"

text \<open>\<open>s.replace('"', '\"')\<close>: a backslash before every double quote.\<close>

definition escape_quotes :: "string \<Rightarrow> string" where
  "escape_quotes s = concat (map (\<lambda>c. if c = CHR ''\"'' then [backslash, c] else [c]) s)"

definition quoted :: "string \<Rightarrow> string" where
  "quoted s =
     (if CHR ''\"'' \<notin> set s then CHR ''\"'' # s @ [CHR ''\"'']
      else if quote_char1 \<notin> set s then quote_char1 # s @ [quote_char1]
      else CHR ''\"'' # escape_quotes s @ [CHR ''\"''])"

definition quote_attr_value :: "string \<Rightarrow> string" where
  "quote_attr_value s = (if has_quotes s then quoted s else s)"

text \<open>The value of a single attribute, where macros are quoted too.\<close>

definition quote_single :: "string \<Rightarrow> string" where
  "quote_single v = (if has_quotes v \<or> has_macro v then quoted v else v)"

text \<open>
  \<open>__str__\<close>.  The octal literal of a mode is rewritten in the action itself; a hash that cannot
  stand alone is printed among the attributes.
\<close>

definition fix_mode :: "string \<Rightarrow> avalue \<Rightarrow> avalue" where
  "fix_mode k v =
     (case v of AStr s \<Rightarrow> if k = ''mode'' \<and> starts_with s ''0o'' then AStr (CHR ''0'' # drop 2 s) else v
      | AList l \<Rightarrow> v)"

definition hash_alone :: "string \<Rightarrow> bool" where
  "hash_alone h \<longleftrightarrow> CHR ''='' \<notin> set h \<and> CHR '' '' \<notin> set h \<and> CHR ''\"'' \<notin> set h"

fun attr_text :: "string \<times> avalue \<Rightarrow> string" where
  "attr_text (k, AStr v) = CHR '' '' # k @ CHR ''='' # quote_single v"
| "attr_text (k, AList vs) = CHR '' '' # join_with CHR '' '' (map (\<lambda>v. k @ CHR ''='' # quote_attr_value v) vs)"

definition sorted_attrs :: "action \<Rightarrow> (string \<times> avalue) list" where
  "sorted_attrs a =
     (let h = (case a_hash a of None \<Rightarrow> [] | Some h \<Rightarrow> h);
          keys = dkeys (a_attrs a) @ (if h \<noteq> [] \<and> \<not> hash_alone h then [''hash''] else [])
      in map (\<lambda>k. (k, case dget (a_attrs a) k of None \<Rightarrow> AStr h | Some v \<Rightarrow> fix_mode k v)) (sort keys))"

definition action_str :: "action \<Rightarrow> string \<times> action" where
  "action_str a =
     (let h = (case a_hash a of None \<Rightarrow> [] | Some h \<Rightarrow> h)
      in (a_name a @ (if h \<noteq> [] \<and> hash_alone h then CHR '' '' # h else [])
            @ concat (map attr_text (sorted_attrs a)),
          a\<lparr>a_attrs := map (\<lambda>(k, v). (k, fix_mode k v)) (a_attrs a)\<rparr>))"

text \<open>
  \<open>sig_str\<close> of an action that is no signature.  The values of a list are sorted; the value of a mode
  is read before the octal literal is rewritten, so the text has the literal as it was; a list of
  modes has no \<open>startswith\<close>.
\<close>

definition sig_version :: int where "sig_version = 0"

datatype sig_exn = UnsupportedSignatureVersion | SigPy py_exn

definition sig_attr_text :: "string \<times> avalue \<Rightarrow> sig_exn + string" where
  "sig_attr_text = (\<lambda>(k, v). case v of
     AStr s \<Rightarrow> Inr (CHR '' '' # k @ CHR ''='' # quote_single s)
   | AList vs \<Rightarrow> if k = ''mode'' then Inl (SigPy AttributeError)
       else Inr (CHR '' '' # join_with CHR '' '' (map (\<lambda>v. k @ CHR ''='' # quote_single v) (sort vs))))"

definition sig_str :: "action \<Rightarrow> int \<Rightarrow> sig_exn + string \<times> action" where
  "sig_str a ver =
     (if ver \<noteq> sig_version then Inl UnsupportedSignatureVersion
      else sbind (smap sig_attr_text
             (map (\<lambda>k. (k, the (dget (a_attrs a) k))) (sort (dkeys (a_attrs a))))) (\<lambda>ts.
        Inr (a_name a @ (case a_hash a of None \<Rightarrow> [] | Some h \<Rightarrow> CHR '' '' # h) @ concat ts,
             a\<lparr>a_attrs := map (\<lambda>(k, v). (k, fix_mode k v)) (a_attrs a)\<rparr>)))"

text \<open>The order of the actions: by the rank of their class.\<close>

definition orderdict :: "string list" where
  "orderdict = [''set'', ''depend'', ''group'', ''user'', ''dir'', ''file'', ''hardlink'', ''link'',
     ''driver'', ''unknown'', ''license'', ''legacy'', ''signature'']"

section \<open>The constructor\<close>

datatype act_exn =
    MalformedActionError string
  | InvalidActionError string
  | UnknownActionError
  | MissingKeyAttributeError
  | KeyAttributeMultiValueError
  | InvalidPathAttributeError

text \<open>The key attribute of each class.\<close>

definition key_attr :: "string \<Rightarrow> string option" where
  "key_attr name =
     (if name \<in> {''file'', ''dir'', ''link'', ''hardlink''} then Some ''path''
      else if name = ''set'' \<or> name = ''driver'' then Some ''name''
      else if name = ''depend'' then Some ''fmri''
      else if name = ''user'' then Some ''username''
      else if name = ''group'' then Some ''groupname''
      else if name = ''legacy'' then Some ''pkg''
      else if name = ''license'' then Some ''license''
      else if name = ''signature'' then Some ''value''
      else None)"

text \<open>\<open>_generic_init_common\<close>: the key attribute is there and single, and a path is not empty.\<close>

definition generic_init :: "action \<Rightarrow> act_exn + action" where
  "generic_init a =
     (case key_attr (a_name a) of
        None \<Rightarrow> Inr a
      | Some key \<Rightarrow>
          (case dget (a_attrs a) key of
             None \<Rightarrow> if a_name a = ''set'' \<or> a_name a = ''signature'' then Inr a
                     else Inl MissingKeyAttributeError
           | Some kv \<Rightarrow>
               if (case kv of AStr s \<Rightarrow> False
                   | AList l \<Rightarrow> if a_name a \<noteq> ''depend'' then True
                                else (case dget (a_attrs a) ''type'' of
                                        Some (AStr s) \<Rightarrow> False | _ \<Rightarrow> True))
               then Inl KeyAttributeMultiValueError
               else case dget (a_attrs a) ''path'' of
                      None \<Rightarrow> Inr a
                    | Some (AList l) \<Rightarrow> Inl InvalidPathAttributeError
                    | Some (AStr p) \<Rightarrow>
                        let p' = dropWhile (\<lambda>c. c = CHR ''/'') p
                        in if p' = [] then Inl InvalidPathAttributeError
                           else Inr (a\<lparr>a_attrs := dput ''path'' (AStr p') (a_attrs a)\<rparr>)))"

text \<open>The values of an attribute as a list: \<open>attrlist\<close>.\<close>

definition attrlist :: "action \<Rightarrow> string \<Rightarrow> string list" where
  "attrlist a name =
     (case dget (a_attrs a) name of None \<Rightarrow> [] | Some (AStr s) \<Rightarrow> [s] | Some (AList l) \<Rightarrow> l)"

text \<open>\<open>str.split()\<close>: the words between white space.\<close>

definition py_words :: "string \<Rightarrow> string list" where
  "py_words s = filter (\<lambda>w. w \<noteq> []) (split_on CHR '' '' (map (\<lambda>c. if is_space c then CHR '' '' else c) s))"

text \<open>\<open>DriverAction.__init__\<close>: three fields of \<open>clone_perms\<close> get the driver's name in front.\<close>

definition driver_init :: "action \<Rightarrow> act_exn + action" where
  "driver_init a =
     (let cps = attrlist a ''clone_perms''
      in if cps = [] then Inr a
         else case dget (a_attrs a) ''name'' of
                Some (AStr n) \<Rightarrow>
                  let new = map (\<lambda>cp. if length (py_words cp) = 3 then n @ CHR '' '' # cp else cp) cps
                  in Inr (a\<lparr>a_attrs := dput ''clone_perms''
                        (case new of [cp] \<Rightarrow> AStr cp | _ \<Rightarrow> AList new) (a_attrs a)\<rparr>)
              | _ \<Rightarrow> Inl MissingKeyAttributeError)"

text \<open>
  \<open>AttributeAction.__init__\<close>: a single attribute that is not in the long form is its name and value.
\<close>

definition set_init :: "action \<Rightarrow> act_exn + action" where
  "set_init a =
     (if dget (a_attrs a) ''name'' \<noteq> None \<and> dget (a_attrs a) ''value'' \<noteq> None then Inr a
      else case a_attrs a of
             [(k, v)] \<Rightarrow> Inr (a\<lparr>a_attrs := [(''name'', AStr k), (''value'', v)]\<rparr>)
           | _ \<Rightarrow> Inl (InvalidActionError ''Missing name or value attribute''))"

definition signature_init :: "action \<Rightarrow> act_exn + action" where
  "signature_init a =
     (if dget (a_attrs a) ''algorithm'' = None then Inl (InvalidActionError ''Missing algorithm attribute'')
      else let d1 = (if dget (a_attrs a) ''value'' = None then dput ''value'' (AStr []) (a_attrs a) else a_attrs a);
               d2 = (if dget d1 ''version'' = None then dput ''version'' (AStr ''0'') d1 else d1)
           in Inr (a\<lparr>a_attrs := d2\<rparr>))"

text \<open>The constructor of each class.\<close>

definition act_init :: "string \<Rightarrow> avalue dict \<Rightarrow> act_exn + action" where
  "act_init name attrs =
     sbind (generic_init \<lparr>a_name = name, a_hash = None, a_attrs = attrs\<rparr>) (\<lambda>a.
       if name = ''file'' \<or> name = ''license'' then Inr (a\<lparr>a_hash := Some ''NOHASH''\<rparr>)
       else if name = ''set'' then set_init a
       else if name = ''signature'' then signature_init a
       else if name = ''driver'' then driver_init a
       else Inr a)"

end
