(* ===== verification/Pkg_ActionParse.thy ===== *)
theory Pkg_ActionParse
  imports Pkg_Action
begin

text \<open>
  The parser of actions, \<open>fromstr\<close> of \<open>src/src/modules/actions/_actions.c\<close>, which
  \<open>actions/__init__.py\<close> exports, and its round trip with \<open>Action.__str__\<close>.  The position in the text of a
  malformed action is not part of the error, a text has no zero byte, and a Python string is taken
  as its characters where the parser works on UTF-8.
\<close>

section \<open>The parser\<close>

text \<open>
  \<open>fromstr\<close> of \<open>_actions.c\<close>: a state machine over the characters.  The text read so far is held in
  reverse.  The state of white space knows whether a quoted value came before it, for adjacent
  quoted values are joined.
\<close>

datatype pmode = InKey string | Unquoted string | Quoted char string | White bool

record pstate =
  p_payload :: bool
  p_key :: string
  p_attrs :: "avalue dict"
  p_hash :: "string option"
  p_hashstr :: "string option"
  p_concat :: bool

definition is_blank :: "char \<Rightarrow> bool" where
  "is_blank c \<longleftrightarrow> c = CHR '' '' \<or> c = CHR 0x09 \<or> c = CHR 0x0A"

definition is_quote :: "char \<Rightarrow> bool" where
  "is_quote c \<longleftrightarrow> c = quote_char1 \<or> c = CHR ''\"''"

definition add_to_attrs :: "string \<Rightarrow> string \<Rightarrow> bool \<Rightarrow> avalue dict \<Rightarrow> avalue dict" where
  "add_to_attrs key v joined attrs =
     dput key (case dget attrs key of
         None \<Rightarrow> AStr v
       | Some (AList l) \<Rightarrow> if joined then AList (butlast l @ [last l @ v]) else AList (l @ [v])
       | Some (AStr s) \<Rightarrow> if joined then AStr (s @ v) else AList [s, v]) attrs"

definition put_value :: "string \<Rightarrow> bool \<Rightarrow> pstate \<Rightarrow> act_exn + pstate" where
  "put_value v was_quoted st =
     (if p_key st = ''hash''
      then if p_hashstr st \<noteq> None \<and> p_hashstr st \<noteq> Some v
           then Inl (InvalidActionError ''hash attribute not identical to positional hash'')
           else Inr (st\<lparr>p_hash := Some v\<rparr>)
      else Inr (st\<lparr>p_attrs := add_to_attrs (p_key st) v (was_quoted \<and> p_concat st) (p_attrs st),
                   p_concat := p_concat st \<and> \<not> was_quoted\<rparr>))"

fun scan :: "pstate \<Rightarrow> pmode \<Rightarrow> string \<Rightarrow> act_exn + pstate" where
  "scan st (White q) [] = Inr st"
| "scan st (White q) (c # s) =
     (if is_blank c then scan st (White q) s
      else if c = CHR ''='' then Inl (MalformedActionError ''missing key'')
      else if q \<and> is_quote c then scan (st\<lparr>p_concat := True\<rparr>) (Quoted c []) s
      else scan st (InKey [c]) s)"
| "scan st (InKey k) [] = Inl (MalformedActionError ''missing value'')"
| "scan st (InKey k) (c # s) =
     (if is_blank c
      then if p_attrs st \<noteq> [] \<or> p_hash st \<noteq> None then Inl (MalformedActionError ''whitespace in key'')
           else if \<not> p_payload st then Inl (InvalidActionError ''action type does not allow payload'')
           else scan (st\<lparr>p_hash := Some (rev k), p_hashstr := Some (rev k)\<rparr>) (White False) s
      else if c = CHR ''=''
      then if rev k = ''data'' then Inl (InvalidActionError ''invalid key: data'')
           else if \<not> p_payload st \<and> rev k = ''hash''
           then Inl (InvalidActionError ''action type does not allow payload'')
           else case s of
                  [] \<Rightarrow> Inl (MalformedActionError ''missing value'')
                | d # s' \<Rightarrow>
                    if is_quote d then scan (st\<lparr>p_key := rev k\<rparr>) (Quoted d []) s'
                    else if is_blank d then Inl (MalformedActionError ''missing value'')
                    else scan (st\<lparr>p_key := rev k\<rparr>) (Unquoted [d]) s'
      else if is_quote c then Inl (MalformedActionError ''quote in key'')
      else scan st (InKey (c # k)) s)"
| "scan st (Quoted q v) [] = Inl (MalformedActionError ''unfinished quoted value'')"
| "scan st (Quoted q v) (c # s) =
     (if c = backslash
      then case s of
             [] \<Rightarrow> Inl (MalformedActionError ''unfinished quoted value'')
           | d # s' \<Rightarrow> scan st (Quoted q (if d = backslash \<or> d = q then d # v else d # c # v)) s'
      else if c = q
      then case put_value (rev v) True st of Inl e \<Rightarrow> Inl e | Inr st' \<Rightarrow> scan st' (White True) s
      else scan st (Quoted q (c # v)) s)"
| "scan st (Unquoted v) [] = put_value (rev v) False st"
| "scan st (Unquoted v) (c # s) =
     (if is_blank c
      then case put_value (rev v) False st of Inl e \<Rightarrow> Inl e | Inr st' \<Rightarrow> scan st' (White False) s
      else scan st (Unquoted (c # v)) s)"

definition payload_types :: "string list" where
  "payload_types = [''file'', ''license'', ''signature'']"

definition fromstr :: "string \<Rightarrow> act_exn + action" where
  "fromstr s =
     (let name = takeWhile (\<lambda>c. \<not> is_blank c) s; rest = dropWhile (\<lambda>c. \<not> is_blank c) s
      in if rest = [] then Inl (MalformedActionError ''no attributes'')
         else if name \<notin> set orderdict then Inl UnknownActionError
         else sbind (scan \<lparr>p_payload = name \<in> set payload_types, p_key = [], p_attrs = [], p_hash = None,
                           p_hashstr = None, p_concat = False\<rparr> (White False) rest) (\<lambda>st.
              sbind (act_init name (p_attrs st)) (\<lambda>a.
                Inr (case p_hash st of None \<Rightarrow> a | Some h \<Rightarrow> a\<lparr>a_hash := Some h\<rparr>))))"

text \<open>\<open>attrsfromstr\<close> of \<open>actions/__init__.py\<close>.\<close>

definition attrsfromstr :: "string \<Rightarrow> act_exn + avalue dict" where
  "attrsfromstr s = sbind (fromstr (''unknown '' @ s)) (\<lambda>a. Inr (a_attrs a))"
section \<open>Printing and parsing\<close>

text \<open>
  The values that survive printing: a backslash is printed as it is, so inside quotes it must not
  stand before another one, before the quote or at the end; outside quotes there is no white space.
\<close>

fun bs_ok :: "char \<Rightarrow> string \<Rightarrow> bool" where
  "bs_ok q [] = True"
| "bs_ok q [c] = (c \<noteq> backslash)"
| "bs_ok q (c # d # s) = ((c = backslash \<longrightarrow> d \<noteq> backslash \<and> d \<noteq> q) \<and> bs_ok q (d # s))"

definition quote_of :: "string \<Rightarrow> char" where
  "quote_of v = (if CHR ''\"'' \<in> set v \<and> quote_char1 \<notin> set v then quote_char1 else CHR ''\"'')"

definition value_ok :: "(string \<Rightarrow> bool) \<Rightarrow> string \<Rightarrow> bool" where
  "value_ok quoting v \<longleftrightarrow> (if quoting v then bs_ok (quote_of v) v else CHR 0x09 \<notin> set v \<and> CHR 0x0A \<notin> set v)"

definition key_ok :: "string \<Rightarrow> bool" where
  "key_ok k \<longleftrightarrow> k \<noteq> [] \<and> k \<noteq> ''data'' \<and> (\<forall>c \<in> set k. \<not> is_blank c \<and> c \<noteq> CHR ''='' \<and> \<not> is_quote c)"

definition single_quoted :: "string \<Rightarrow> bool" where
  "single_quoted v \<longleftrightarrow> has_quotes v \<or> has_macro v"

fun attr_ok :: "string \<times> avalue \<Rightarrow> bool" where
  "attr_ok (k, AStr v) \<longleftrightarrow> key_ok k \<and> value_ok single_quoted v"
| "attr_ok (k, AList vs) \<longleftrightarrow> key_ok k \<and> 2 \<le> length vs \<and> (\<forall>v \<in> set vs. value_ok has_quotes v)"

lemma char_facts [simp]:
  "\<not> is_blank backslash" "is_blank CHR '' ''" "quote_char1 \<noteq> backslash" "CHR ''\"'' \<noteq> backslash"
  "is_quote quote_char1" "is_quote CHR ''\"''" "\<not> is_quote CHR '' ''" "quote_char1 \<noteq> CHR ''\"''"
  "\<not> is_quote CHR ''=''" "\<not> is_blank CHR ''=''" "quote_char1 \<noteq> CHR '' ''" "backslash \<noteq> CHR ''\"''"
  "backslash \<noteq> quote_char1"
  by (simp_all add: is_blank_def is_quote_def quote_char1_def backslash_def)

text \<open>Inside quotes.\<close>

lemma scan_Quoted:
  "c \<noteq> backslash \<Longrightarrow> c \<noteq> q \<Longrightarrow> scan st (Quoted q acc) (c # s) = scan st (Quoted q (c # acc)) s"
  "scan st (Quoted q acc) (backslash # d # s) =
     scan st (Quoted q (if d = backslash \<or> d = q then d # acc else d # backslash # acc)) s"
  "q \<noteq> backslash \<Longrightarrow> scan st (Quoted q acc) (q # s) =
     (case put_value (rev acc) True st of Inl e \<Rightarrow> Inl e | Inr st' \<Rightarrow> scan st' (White True) s)"
  by simp_all

declare scan.simps(6) [simp del]

lemma scan_quoted_plain:
  "q \<notin> set v \<Longrightarrow> bs_ok q v \<Longrightarrow> q \<noteq> backslash \<Longrightarrow>
     scan st (Quoted q acc) (v @ q # rest) = scan st (Quoted q (rev v @ acc)) (q # rest)"
proof (induction q v arbitrary: acc rule: bs_ok.induct)
  case (3 q c d s)
  show ?case
  proof (cases "c = backslash")
    case True
    then have d: "d \<noteq> backslash" "d \<noteq> q" using 3 by auto
    then have "scan st (Quoted q (c # acc)) ((d # s) @ q # rest) = scan st (Quoted q (d # c # acc)) (s @ q # rest)"
      by (simp add: scan_Quoted(1))
    moreover have "scan st (Quoted q acc) ((c # d # s) @ q # rest) = scan st (Quoted q (d # c # acc)) (s @ q # rest)"
      using True d by (simp add: scan_Quoted(2))
    moreover have "scan st (Quoted q (c # acc)) ((d # s) @ q # rest) =
        scan st (Quoted q (rev (d # s) @ c # acc)) (q # rest)"
      using 3 by (intro "3.IH") auto
    ultimately show ?thesis by simp
  next
    case False
    then have "scan st (Quoted q acc) ((c # d # s) @ q # rest) = scan st (Quoted q (c # acc)) ((d # s) @ q # rest)"
      using 3 by (auto simp: scan_Quoted(1))
    also have "\<dots> = scan st (Quoted q (rev (d # s) @ c # acc)) (q # rest)"
      using 3 by (intro "3.IH") auto
    finally show ?thesis by simp
  qed
qed (auto simp: scan_Quoted(1))

lemma escape_quotes_Cons:
  "escape_quotes (c # s) = (if c = CHR ''\"'' then [backslash, c] else [c]) @ escape_quotes s"
  by (simp add: escape_quotes_def)

lemma scan_quoted_escaped:
  "bs_ok CHR ''\"'' v \<Longrightarrow>
     scan st (Quoted CHR ''\"'' acc) (escape_quotes v @ CHR ''\"'' # rest) =
     scan st (Quoted CHR ''\"'' (rev v @ acc)) (CHR ''\"'' # rest)"
proof (induction "CHR ''\"''" v arbitrary: acc rule: bs_ok.induct)
  case 1
  then show ?case by (simp add: escape_quotes_def)
next
  case (2 c)
  then show ?case by (auto simp: escape_quotes_def scan_Quoted)
next
  case (3 c d s)
  have IH: "scan st (Quoted CHR ''\"'' acc) (escape_quotes (d # s) @ CHR ''\"'' # rest) =
     scan st (Quoted CHR ''\"'' (rev (d # s) @ acc)) (CHR ''\"'' # rest)" for acc
    using 3 by (intro "3.hyps") auto
  show ?case
  proof (cases "c = backslash")
    case True
    then have d: "d \<noteq> backslash" "d \<noteq> CHR ''\"''" using 3 by auto
    then have "scan st (Quoted CHR ''\"'' acc) (escape_quotes (c # d # s) @ CHR ''\"'' # rest) =
        scan st (Quoted CHR ''\"'' (d # c # acc)) (escape_quotes s @ CHR ''\"'' # rest)"
      using True by (simp add: escape_quotes_Cons scan_Quoted(2))
    also have "\<dots> = scan st (Quoted CHR ''\"'' (c # acc)) (escape_quotes (d # s) @ CHR ''\"'' # rest)"
      using d by (simp add: escape_quotes_Cons scan_Quoted(1))
    finally show ?thesis using IH by simp
  next
    case False
    then have "scan st (Quoted CHR ''\"'' acc) (escape_quotes (c # d # s) @ CHR ''\"'' # rest) =
        scan st (Quoted CHR ''\"'' (c # acc)) (escape_quotes (d # s) @ CHR ''\"'' # rest)"
      by (auto simp: escape_quotes_Cons [of c] scan_Quoted)
    then show ?thesis using IH by simp
  qed
qed

lemma scan_quoted:
  assumes "bs_ok (quote_of v) v"
  shows "\<exists>q body. quoted v = q # body @ [q] \<and> is_quote q
    \<and> scan st (Quoted q []) (body @ q # rest) =
        (case put_value v True st of Inl e \<Rightarrow> Inl e | Inr st' \<Rightarrow> scan st' (White True) rest)"
proof -
  have close: "scan st (Quoted q (rev v)) (q # rest) =
      (case put_value v True st of Inl e \<Rightarrow> Inl e | Inr st' \<Rightarrow> scan st' (White True) rest)" if "q \<noteq> backslash" for q
    using that by (simp add: scan_Quoted(3))
  consider "CHR ''\"'' \<notin> set v" | "CHR ''\"'' \<in> set v" "quote_char1 \<notin> set v"
    | "CHR ''\"'' \<in> set v" "quote_char1 \<in> set v" by blast
  then show ?thesis
  proof cases
    case 1
    then have "bs_ok CHR ''\"'' v" using assms by (simp add: quote_of_def)
    then show ?thesis using 1 scan_quoted_plain [OF 1, of st "[]" rest] close [of "CHR ''\"''"]
      by (intro exI [of _ "CHR ''\"''"] exI [of _ v]) (simp add: quoted_def del: scan.simps)
  next
    case 2
    then have "bs_ok quote_char1 v" using assms by (simp add: quote_of_def)
    then show ?thesis using 2 scan_quoted_plain [OF 2(2), of st "[]" rest] close [of quote_char1]
      by (intro exI [of _ quote_char1] exI [of _ v]) (simp add: quoted_def del: scan.simps)
  next
    case 3
    then have "bs_ok CHR ''\"'' v" using assms by (simp add: quote_of_def)
    then show ?thesis using 3 scan_quoted_escaped [of v st "[]" rest] close [of "CHR ''\"''"]
      by (intro exI [of _ "CHR ''\"''"] exI [of _ "escape_quotes v"]) (simp add: quoted_def del: scan.simps)
  qed
qed
text \<open>An unquoted value, a key, an attribute.\<close>

definition at_end :: "string \<Rightarrow> bool" where
  "at_end rest \<longleftrightarrow> rest = [] \<or> is_blank (hd rest)"

lemma scan_unquoted:
  "\<forall>c \<in> set v. \<not> is_blank c \<Longrightarrow> at_end rest \<Longrightarrow>
     scan st (Unquoted acc) (v @ rest) =
       (case put_value (rev acc @ v) False st of Inl e \<Rightarrow> Inl e | Inr st' \<Rightarrow> scan st' (White False) rest)"
proof (induction v arbitrary: acc)
  case Nil
  then show ?case by (cases rest) (auto simp: at_end_def split: sum.split)
next
  case (Cons c v)
  then show ?case by simp
qed

lemma scan_key:
  "\<forall>c \<in> set k. \<not> is_blank c \<and> c \<noteq> CHR ''='' \<and> \<not> is_quote c \<Longrightarrow>
     scan st (InKey acc) (k @ s) = scan st (InKey (rev k @ acc)) s"
  by (induction k arbitrary: acc) auto

lemma blank_value: "value_ok quoting v \<Longrightarrow> \<not> quoting v \<Longrightarrow> \<not> has_quotes v \<Longrightarrow>
    \<exists>d v'. v = d # v' \<and> \<not> is_quote d \<and> (\<forall>c \<in> set v. \<not> is_blank c)"
  by (cases v) (auto simp: value_ok_def has_quotes_def is_blank_def is_quote_def)

lemma scan_attr:
  assumes k: "key_ok k" "k = ''hash'' \<Longrightarrow> p_payload st" and v: "value_ok quoting v" "has_quotes v \<Longrightarrow> quoting v"
    and rest: "at_end rest"
  shows "scan st (White q) (CHR '' '' # k @ CHR ''='' # (if quoting v then quoted v else v) @ rest) =
    (case put_value v (quoting v) (st\<lparr>p_key := k\<rparr>) of
       Inl e \<Rightarrow> Inl e | Inr st' \<Rightarrow> scan st' (White (quoting v)) rest)"
proof -
  obtain c k' where kc: "k = c # k'" using k(1) by (cases k) (auto simp: key_ok_def)
  have c: "\<not> is_blank c" "c \<noteq> CHR ''=''" "\<not> is_quote c" using k(1) by (auto simp: kc key_ok_def)
  let ?t = "(if quoting v then quoted v else v) @ rest"
  have "scan st (White q) (CHR '' '' # k @ CHR ''='' # ?t) = scan st (InKey [c]) (k' @ CHR ''='' # ?t)"
    using c by (simp add: kc)
  also have "\<dots> = scan st (InKey (rev k)) (CHR ''='' # ?t)"
    using scan_key [of k' st "[c]"] k(1) by (simp add: kc key_ok_def)
  also have "\<dots> = (case put_value v (quoting v) (st\<lparr>p_key := k\<rparr>) of
       Inl e \<Rightarrow> Inl e | Inr st' \<Rightarrow> scan st' (White (quoting v)) rest)"
  proof (cases "quoting v")
    case True
    then have "bs_ok (quote_of v) v" using v(1) by (simp add: value_ok_def)
    then obtain q' body where b: "quoted v = q' # body @ [q']" "is_quote q'"
      and s: "scan (st\<lparr>p_key := k\<rparr>) (Quoted q' []) (body @ q' # rest) =
        (case put_value v True (st\<lparr>p_key := k\<rparr>) of Inl e \<Rightarrow> Inl e | Inr st' \<Rightarrow> scan st' (White True) rest)"
      using scan_quoted by blast
    have qT: "quoting v = True" and kh: "\<not> (\<not> p_payload st \<and> k = ''hash'')" using True k(2) by auto
    show ?thesis unfolding qT using b k(1) kh s by (auto simp: key_ok_def)
  next
    case False
    then obtain d v' where d: "v = d # v'" "\<not> is_quote d" "\<forall>c \<in> set v. \<not> is_blank c"
      using blank_value [OF v(1)] v(2) by blast
    have qF: "quoting v = False" and kh: "\<not> (\<not> p_payload st \<and> k = ''hash'')" using False k(2) by auto
    have "scan st (InKey (rev k)) (CHR ''='' # v @ rest) = scan (st\<lparr>p_key := k\<rparr>) (Unquoted [d]) (v' @ rest)"
      using d k(1) kh by (auto simp: key_ok_def)
    then show ?thesis unfolding qF using scan_unquoted [of v' rest "st\<lparr>p_key := k\<rparr>" "[d]"] rest d by simp
  qed
  finally show ?thesis .
qed

text \<open>The text of an attribute: one piece for each value.\<close>

definition piece :: "string \<Rightarrow> (string \<Rightarrow> bool) \<Rightarrow> string \<Rightarrow> string" where
  "piece k quoting v = CHR '' '' # k @ CHR ''='' # (if quoting v then quoted v else v)"

lemma attr_text_pieces:
  "attr_text (k, AStr v) = piece k single_quoted v"
  "vs \<noteq> [] \<Longrightarrow> attr_text (k, AList vs) = concat (map (piece k has_quotes) vs)"
proof -
  show "attr_text (k, AStr v) = piece k single_quoted v"
    by (simp add: piece_def quote_single_def single_quoted_def)
  show "vs \<noteq> [] \<Longrightarrow> attr_text (k, AList vs) = concat (map (piece k has_quotes) vs)"
  proof (induction vs)
    case (Cons v vs)
    then show ?case by (cases vs) (simp_all add: piece_def quote_attr_value_def)
  qed simp
qed

lemma at_end_piece: "at_end rest \<Longrightarrow> at_end (concat (map (piece k quoting) vs) @ rest)"
  by (cases vs) (simp_all add: at_end_def piece_def)

lemma scan_piece:
  assumes "key_ok k" "k \<noteq> ''hash''" "value_ok quoting v" "has_quotes v \<Longrightarrow> quoting v" "at_end rest"
    and "\<not> p_concat st"
  shows "\<exists>q'. scan st (White q) (piece k quoting v @ rest) =
    scan (st\<lparr>p_key := k, p_attrs := add_to_attrs k v False (p_attrs st)\<rparr>) (White q') rest"
proof -
  have "st\<lparr>p_key := k, p_attrs := A, p_concat := False\<rparr> = st\<lparr>p_key := k, p_attrs := A\<rparr>" for A
    using assms(6) by simp
  then have "put_value v (quoting v) (st\<lparr>p_key := k\<rparr>) =
      Inr (st\<lparr>p_key := k, p_attrs := add_to_attrs k v False (p_attrs st)\<rparr>)"
    using assms(2,6) by (simp add: put_value_def)
  then show ?thesis using scan_attr [OF assms(1) _ assms(3,4,5), of st q] assms(2)
    by (auto simp: piece_def)
qed

lemma scan_pieces:
  assumes "key_ok k" "k \<noteq> ''hash''" "at_end rest"
  shows "\<lbrakk>\<forall>v \<in> set vs. value_ok quoting v \<and> (has_quotes v \<longrightarrow> quoting v); vs \<noteq> []; \<not> p_concat st\<rbrakk> \<Longrightarrow>
    \<exists>q'. scan st (White q) (concat (map (piece k quoting) vs) @ rest) =
      scan (st\<lparr>p_key := k, p_attrs := fold (\<lambda>v. add_to_attrs k v False) vs (p_attrs st)\<rparr>) (White q') rest"
proof (induction vs arbitrary: st q)
  case (Cons v vs)
  let ?st = "st\<lparr>p_key := k, p_attrs := add_to_attrs k v False (p_attrs st)\<rparr>"
  have v: "value_ok quoting v" "has_quotes v \<Longrightarrow> quoting v" using Cons.prems(1) by auto
  obtain q' where q': "scan st (White q) (piece k quoting v @ concat (map (piece k quoting) vs) @ rest) =
      scan ?st (White q') (concat (map (piece k quoting) vs) @ rest)"
    using scan_piece [OF assms(1,2) v at_end_piece [OF assms(3)] Cons.prems(3)] by blast
  show ?case
  proof (cases "vs = []")
    case True
    then show ?thesis using q' by auto
  next
    case False
    then obtain q'' where "scan ?st (White q') (concat (map (piece k quoting) vs) @ rest) =
        scan (?st\<lparr>p_key := k, p_attrs := fold (\<lambda>v. add_to_attrs k v False) vs (p_attrs ?st)\<rparr>) (White q'') rest"
      using Cons.IH [of ?st q'] Cons.prems by auto
    then show ?thesis using q' by auto
  qed
qed simp

lemma dput_same: "dget d k = Some v \<Longrightarrow> dput k v d = d"
  unfolding dget_def dput_def by (induction d) (auto split: if_splits)

lemma fold_add_list:
  "dget d k = Some (AList l) \<Longrightarrow>
     fold (\<lambda>v. add_to_attrs k v False) vs d = dput k (AList (l @ vs)) d"
proof (induction vs arbitrary: d l)
  case Nil
  then show ?case by (simp add: dput_same)
next
  case (Cons v vs)
  have "dget (add_to_attrs k v False d) k = Some (AList (l @ [v]))"
    using Cons.prems by (simp add: add_to_attrs_def pydict.get_put)
  then show ?case using Cons by (simp add: add_to_attrs_def dput_twice)
qed
lemma fold_add_new:
  assumes "dget d k = None" "2 \<le> length vs"
  shows "fold (\<lambda>v. add_to_attrs k v False) vs d = d @ [(k, AList vs)]"
proof -
  obtain v w ws where vs: "vs = v # w # ws"
    using assms(2) by (cases vs rule: list.exhaust; cases "tl vs") auto
  let ?d = "add_to_attrs k w False (add_to_attrs k v False d)"
  have d: "?d = dput k (AList [v, w]) d"
    using assms(1) by (simp add: add_to_attrs_def pydict.get_put dput_twice)
  then have "dget ?d k = Some (AList [v, w])" by (simp add: pydict.get_put)
  then have "fold (\<lambda>v. add_to_attrs k v False) vs d = dput k (AList vs) d"
    using fold_add_list [of ?d k "[v, w]" ws] d by (simp add: vs dput_twice)
  then show ?thesis using assms(1) by (simp add: dput_new)
qed

text \<open>All attributes of an action, one of which may be the hash.\<close>

definition attrs_ok :: "pstate \<Rightarrow> (string \<times> avalue) list \<Rightarrow> bool" where
  "attrs_ok st kvs \<longleftrightarrow> \<not> p_concat st \<and> distinct (map fst (p_attrs st) @ map fst kvs)
     \<and> (\<forall>(k, v) \<in> set kvs. attr_ok (k, v)
          \<and> (k = ''hash'' \<longrightarrow> (\<exists>s. v = AStr s) \<and> p_payload st \<and> p_hashstr st = None))"

lemma scan_one_attr:
  assumes ok: "attr_ok (k, v)" and new: "dget (p_attrs st) k = None" and c: "\<not> p_concat st" and rest: "at_end rest"
    and hash: "k = ''hash'' \<Longrightarrow> (\<exists>s. v = AStr s) \<and> p_payload st \<and> p_hashstr st = None"
  shows "\<exists>q'. scan st (White q) (attr_text (k, v) @ rest) =
    scan (if k = ''hash'' then st\<lparr>p_key := k, p_hash := Some (case v of AStr s \<Rightarrow> s | AList l \<Rightarrow> [])\<rparr>
          else st\<lparr>p_key := k, p_attrs := p_attrs st @ [(k, v)]\<rparr>) (White q') rest"
proof (cases v)
  case (AStr s)
  have v: "key_ok k" "value_ok single_quoted s" "has_quotes s \<Longrightarrow> single_quoted s"
    using ok AStr by (simp_all add: single_quoted_def)
  show ?thesis
  proof (cases "k = ''hash''")
    case True
    then have "put_value s (single_quoted s) (st\<lparr>p_key := k\<rparr>) = Inr (st\<lparr>p_key := k, p_hash := Some s\<rparr>)"
      using hash by (simp add: put_value_def)
    then show ?thesis
      using scan_attr [OF v(1) _ v(2,3) rest, of st q] hash True AStr attr_text_pieces(1) [of k s]
      by (auto simp: piece_def)
  next
    case False
    then show ?thesis
      using scan_piece [OF v(1) False v(2,3) rest c, of q] new AStr attr_text_pieces(1) [of k s]
      by (auto simp: add_to_attrs_def dput_new)
  qed
next
  case (AList vs)
  then have v: "key_ok k" "2 \<le> length vs" "\<forall>v \<in> set vs. value_ok has_quotes v \<and> (has_quotes v \<longrightarrow> has_quotes v)"
    and ne: "vs \<noteq> []" and k: "k \<noteq> ''hash''" using ok hash by auto
  show ?thesis
    using scan_pieces [OF v(1) k rest v(3) ne c, of q] fold_add_new [OF new v(2)] AList k
      attr_text_pieces(2) [OF ne, of k]
    by auto
qed

lemma attr_text_end: "attr_ok (k, v) \<Longrightarrow> at_end (attr_text (k, v) @ rest)"
  by (cases v) (simp_all add: at_end_def)

lemma attrs_text_end: "attrs_ok st kvs \<Longrightarrow> at_end (concat (map attr_text kvs))"
proof (cases kvs)
  case (Cons x kvs')
  moreover obtain k v where "x = (k, v)" by fastforce
  ultimately show "attrs_ok st kvs \<Longrightarrow> ?thesis" using attr_text_end [of k v] by (simp add: attrs_ok_def)
qed (simp add: at_end_def)

lemma scan_attrs:
  "attrs_ok st kvs \<Longrightarrow> \<exists>st'. scan st (White q) (concat (map attr_text kvs)) = Inr st'
     \<and> p_attrs st' = p_attrs st @ filter (\<lambda>(k, v). k \<noteq> ''hash'') kvs
     \<and> p_hash st' = (case map_of kvs ''hash'' of Some (AStr h) \<Rightarrow> Some h | _ \<Rightarrow> p_hash st)"
proof (induction kvs arbitrary: st q)
  case (Cons x kvs)
  obtain k v where x: "x = (k, v)" by fastforce
  let ?st = "if k = ''hash'' then st\<lparr>p_key := k, p_hash := Some (case v of AStr s \<Rightarrow> s | AList l \<Rightarrow> [])\<rparr>
    else st\<lparr>p_key := k, p_attrs := p_attrs st @ [(k, v)]\<rparr>"
  have ok: "attr_ok (k, v)" "\<not> p_concat st"
    "k = ''hash'' \<Longrightarrow> (\<exists>s. v = AStr s) \<and> p_payload st \<and> p_hashstr st = None"
    and new: "dget (p_attrs st) k = None"
    using Cons.prems by (auto simp: attrs_ok_def x dget_def map_of_eq_None_iff)
  have st: "attrs_ok ?st kvs" using Cons.prems by (auto simp: attrs_ok_def x)
  obtain q' where q': "scan st (White q) (attr_text (k, v) @ concat (map attr_text kvs)) =
      scan ?st (White q') (concat (map attr_text kvs))"
    using scan_one_attr [OF ok(1) new ok(2) attrs_text_end [OF st] ok(3)] by blast
  obtain st' where st': "scan ?st (White q') (concat (map attr_text kvs)) = Inr st'"
    "p_attrs st' = p_attrs ?st @ filter (\<lambda>(k, v). k \<noteq> ''hash'') kvs"
    "p_hash st' = (case map_of kvs ''hash'' of Some (AStr h) \<Rightarrow> Some h | _ \<Rightarrow> p_hash ?st)"
    using Cons.IH [OF st] by blast
  show ?case
  proof (cases "k = ''hash''")
    case True
    then have "map_of kvs ''hash'' = None"
      using Cons.prems by (auto simp: attrs_ok_def x map_of_eq_None_iff)
    then show ?thesis using q' st' True ok(3) by (auto simp: x)
  next
    case False
    then have "p_hash ?st = p_hash st" by simp
    from st'(3) [unfolded this] show ?thesis using q' st'(1,2) False by (auto simp: x)
  qed
qed simp
section \<open>What the constructors leave alone\<close>

text \<open>The attributes that the constructor of a class accepts and does not change.\<close>

definition single :: "avalue option \<Rightarrow> bool" where
  "single x \<longleftrightarrow> (case x of Some (AStr s) \<Rightarrow> True | _ \<Rightarrow> False)"

definition attrs_normal :: "string \<Rightarrow> (string \<Rightarrow> avalue option) \<Rightarrow> bool" where
  "attrs_normal name m \<longleftrightarrow>
     (case key_attr name of
        None \<Rightarrow> True
      | Some key \<Rightarrow> (single (m key) \<or> name = ''depend'' \<and> m key \<noteq> None \<and> single (m ''type''))
          \<and> (case m ''path'' of None \<Rightarrow> True | Some (AList l) \<Rightarrow> False
             | Some (AStr p) \<Rightarrow> p \<noteq> [] \<and> hd p \<noteq> CHR ''/''))
     \<and> (name = ''set'' \<longrightarrow> m ''value'' \<noteq> None)
     \<and> (name = ''signature'' \<longrightarrow> m ''algorithm'' \<noteq> None \<and> m ''version'' \<noteq> None)
     \<and> (name = ''driver'' \<longrightarrow> (case m ''clone_perms'' of None \<Rightarrow> True
          | Some (AStr s) \<Rightarrow> length (py_words s) \<noteq> 3
          | Some (AList l) \<Rightarrow> 2 \<le> length l \<and> (\<forall>s \<in> set l. length (py_words s) \<noteq> 3)))"

definition class_hash :: "string \<Rightarrow> string option" where
  "class_hash name = (if name = ''file'' \<or> name = ''license'' then Some ''NOHASH'' else None)"

lemma generic_init_normal:
  assumes "attrs_normal name (dget d)"
  shows "generic_init \<lparr>a_name = name, a_hash = None, a_attrs = d\<rparr> = Inr \<lparr>a_name = name, a_hash = None, a_attrs = d\<rparr>"
proof (cases "key_attr name")
  case None
  then show ?thesis by (simp add: generic_init_def)
next
  case (Some key)
  then have k: "single (dget d key) \<or> name = ''depend'' \<and> dget d key \<noteq> None \<and> single (dget d ''type'')"
    and p: "case dget d ''path'' of None \<Rightarrow> True | Some (AList l) \<Rightarrow> False
             | Some (AStr p) \<Rightarrow> p \<noteq> [] \<and> hd p \<noteq> CHR ''/''"
    using assms by (simp_all add: attrs_normal_def)
  then obtain kv where kv: "dget d key = Some kv" by (auto simp: single_def split: option.splits)
  have m: "\<not> (case kv of AStr s \<Rightarrow> False
      | AList l \<Rightarrow> if name \<noteq> ''depend'' then True
                   else (case dget d ''type'' of Some (AStr s) \<Rightarrow> False | _ \<Rightarrow> True))"
    using k kv by (auto simp: single_def split: avalue.splits option.splits)
  show ?thesis
  proof (cases "dget d ''path''")
    case None
    then show ?thesis
      unfolding generic_init_def action.simps \<open>key_attr name = Some key\<close> option.case kv if_not_P [OF m] by simp
  next
    case (Some pv)
    then obtain s where s: "pv = AStr s" "s \<noteq> []" "hd s \<noteq> CHR ''/''" using p by (cases pv) auto
    then have "dropWhile (\<lambda>c. c = CHR ''/'') s = s" by (cases s) auto
    moreover have "dput ''path'' (AStr s) d = d" using Some s(1) by (simp add: dput_same)
    ultimately show ?thesis
      unfolding generic_init_def action.simps \<open>key_attr name = Some key\<close> option.case kv if_not_P [OF m] Some
      using s by (simp add: Let_def)
  qed
qed

lemma driver_init_normal:
  assumes "single (dget (a_attrs a) ''name'')"
    and "case dget (a_attrs a) ''clone_perms'' of None \<Rightarrow> True
          | Some (AStr s) \<Rightarrow> length (py_words s) \<noteq> 3
          | Some (AList l) \<Rightarrow> 2 \<le> length l \<and> (\<forall>s \<in> set l. length (py_words s) \<noteq> 3)"
  shows "driver_init a = Inr a"
proof (cases "dget (a_attrs a) ''clone_perms''")
  case None
  then show ?thesis by (simp add: driver_init_def attrlist_def)
next
  case (Some v)
  obtain n where n: "dget (a_attrs a) ''name'' = Some (AStr n)"
    using assms(1) by (auto simp: single_def split: option.splits avalue.splits)
  show ?thesis
  proof (cases v)
    case (AStr s)
    then show ?thesis using Some n assms(2) by (simp add: driver_init_def attrlist_def dput_same)
  next
    case (AList l)
    then have l: "2 \<le> length l" "map (\<lambda>cp. if length (py_words cp) = 3 then n @ CHR '' '' # cp else cp) l = l"
      using Some assms(2) by (auto intro: map_idI)
    then obtain x y zs where xyz: "l = x # y # zs" by (cases l rule: list.exhaust; cases "tl l") auto
    show ?thesis using Some n AList l(2) by (simp add: driver_init_def attrlist_def dput_same xyz)
  qed
qed

lemma act_init_normal:
  assumes "attrs_normal name (dget d)"
  shows "act_init name d = Inr \<lparr>a_name = name, a_hash = class_hash name, a_attrs = d\<rparr>"
proof -
  note g = generic_init_normal [OF assms]
  consider "name = ''file'' \<or> name = ''license''" | "name = ''set''" | "name = ''signature''" | "name = ''driver''"
    | "name \<notin> {''file'', ''license'', ''set'', ''signature'', ''driver''}" by blast
  then show ?thesis
  proof cases
    case 4
    then have "single (dget d ''name'')"
      "case dget d ''clone_perms'' of None \<Rightarrow> True
          | Some (AStr s) \<Rightarrow> length (py_words s) \<noteq> 3
          | Some (AList l) \<Rightarrow> 2 \<le> length l \<and> (\<forall>s \<in> set l. length (py_words s) \<noteq> 3)"
      using assms by (simp_all add: attrs_normal_def key_attr_def)
    then show ?thesis using g 4 driver_init_normal [of "\<lparr>a_name = name, a_hash = None, a_attrs = d\<rparr>"]
      by (simp add: act_init_def class_hash_def)
  qed (use g assms in \<open>auto simp: act_init_def class_hash_def set_init_def signature_init_def attrs_normal_def
      key_attr_def single_def split: option.splits\<close>)
qed
section \<open>Properties of actions\<close>

text \<open>
  An action that its printed form gives back: the type is known, the constructor leaves the
  attributes alone, the values survive, and the hash is that of the class or one that can be
  printed.
\<close>

definition action_ok :: "action \<Rightarrow> bool" where
  "action_ok a \<longleftrightarrow> a_name a \<in> set orderdict \<and> dict_ok (a_attrs a) \<and> a_attrs a \<noteq> []
     \<and> (\<forall>(k, v) \<in> set (a_attrs a). k \<noteq> ''hash'' \<and> attr_ok (k, fix_mode k v))
     \<and> attrs_normal (a_name a) (\<lambda>k. map_option (fix_mode k) (dget (a_attrs a) k))
     \<and> (case a_hash a of
          None \<Rightarrow> class_hash (a_name a) = None
        | Some h \<Rightarrow> h \<noteq> [] \<and> a_name a \<in> set payload_types
            \<and> (if hash_alone h then \<forall>c \<in> set h. \<not> is_blank c \<and> \<not> is_quote c
               else value_ok single_quoted h))"

text \<open>The printed attributes in order, with or without the hash among them.\<close>

lemma sorted_attrs_ok:
  fixes a :: action
  defines "h \<equiv> (case a_hash a of None \<Rightarrow> [] | Some h \<Rightarrow> h)"
  assumes a: "action_ok a"
  shows "map fst (sorted_attrs a) = sort (dkeys (a_attrs a) @ (if h \<noteq> [] \<and> \<not> hash_alone h then [''hash''] else []))"
    "distinct (map fst (sorted_attrs a))"
    "\<And>k. k \<noteq> ''hash'' \<Longrightarrow> map_of (sorted_attrs a) k = map_option (fix_mode k) (dget (a_attrs a) k)"
    "map_of (sorted_attrs a) ''hash'' = (if h \<noteq> [] \<and> \<not> hash_alone h then Some (AStr h) else None)"
proof -
  let ?ks = "dkeys (a_attrs a) @ (if h \<noteq> [] \<and> \<not> hash_alone h then [''hash''] else [])"
  let ?f = "\<lambda>k. (k, case dget (a_attrs a) k of None \<Rightarrow> AStr h | Some v \<Rightarrow> fix_mode k v)"
  have s: "sorted_attrs a = map ?f (sort ?ks)"
    unfolding sorted_attrs_def Let_def h_def ..
  have nh: "''hash'' \<notin> set (dkeys (a_attrs a))"
    using a by (auto simp: action_ok_def dkeys_def)
  then have none: "dget (a_attrs a) ''hash'' = None" using pydict.keys_None by blast
  show names: "map fst (sorted_attrs a) = sort ?ks" by (simp add: s comp_def)
  have "distinct (dkeys (a_attrs a))" using a by (simp add: action_ok_def pydict.ok_keys)
  then have "distinct ?ks" using nh by auto
  then show "distinct (map fst (sorted_attrs a))" unfolding names by simp
  have mo: "map_of (map ?f ks) k = (if k \<in> set ks then Some (snd (?f k)) else None)" for ks k
    by (induction ks) auto
  show "map_of (sorted_attrs a) k = map_option (fix_mode k) (dget (a_attrs a) k)" if "k \<noteq> ''hash''" for k
    unfolding s mo using that pydict.keys_None [of k "a_attrs a"]
    by (cases "dget (a_attrs a) k") (auto simp: pydict.keys_get)
  show "map_of (sorted_attrs a) ''hash'' = (if h \<noteq> [] \<and> \<not> hash_alone h then Some (AStr h) else None)"
    unfolding s mo using nh none by auto
qed

lemma known_type: "name \<in> set orderdict \<Longrightarrow> \<forall>c \<in> set name. \<not> is_blank c"
proof -
  have "list_all (\<lambda>n. list_all (\<lambda>c. \<not> is_blank c) n) orderdict" by code_simp
  then show "name \<in> set orderdict \<Longrightarrow> \<forall>c \<in> set name. \<not> is_blank c" by (simp add: list_all_iff)
qed

text \<open>The state in which the scan of an action's attributes starts, and the hash to be printed.\<close>

definition start :: "string \<Rightarrow> pstate" where
  "start name = \<lparr>p_payload = name \<in> set payload_types, p_key = [], p_attrs = [], p_hash = None,
     p_hashstr = None, p_concat = False\<rparr>"

definition hash_text :: "action \<Rightarrow> string" where
  "hash_text a = (case a_hash a of None \<Rightarrow> [] | Some h \<Rightarrow> h)"

lemma fromstr_text:
  assumes "name \<in> set orderdict" "at_end t" "t \<noteq> []"
  shows "fromstr (name @ t) =
    sbind (scan (start name) (White False) t) (\<lambda>st.
      sbind (act_init name (p_attrs st)) (\<lambda>a.
        Inr (case p_hash st of None \<Rightarrow> a | Some h \<Rightarrow> a\<lparr>a_hash := Some h\<rparr>)))"
proof -
  have t: "\<not> \<not> is_blank (hd t)" using assms(2,3) by (simp add: at_end_def)
  have "takeWhile (\<lambda>c. \<not> is_blank c) (name @ t) = name" "dropWhile (\<lambda>c. \<not> is_blank c) (name @ t) = t"
    using known_type [OF assms(1)] t assms(3) by (cases t; simp add: takeWhile_append2 dropWhile_append2)+
  then show ?thesis using assms(1,3) unfolding fromstr_def start_def Let_def by simp
qed

lemma scan_hash:
  assumes "h \<noteq> []" "\<forall>c \<in> set h. \<not> is_blank c \<and> \<not> is_quote c" "hash_alone h" "p_payload st" "p_attrs st = []"
    "p_hash st = None"
  shows "scan st (White False) (CHR '' '' # h @ CHR '' '' # s) =
    scan (st\<lparr>p_hash := Some h, p_hashstr := Some h\<rparr>) (White False) (CHR '' '' # s)"
proof -
  obtain c h' where h: "h = c # h'" using assms(1) by (cases h) auto
  have ok: "\<forall>c \<in> set h. \<not> is_blank c \<and> c \<noteq> CHR ''='' \<and> \<not> is_quote c"
    using assms(2,3) by (auto simp: hash_alone_def)
  have "scan st (White False) (CHR '' '' # h @ CHR '' '' # s) = scan st (InKey [c]) (h' @ CHR '' '' # s)"
    using ok by (simp add: h)
  also have "\<dots> = scan st (InKey (rev h)) (CHR '' '' # s)"
    using scan_key [of h' st "[c]"] ok by (simp add: h)
  also have "\<dots> = scan (st\<lparr>p_hash := Some h, p_hashstr := Some h\<rparr>) (White False) s"
    using assms(4-6) by simp
  finally show ?thesis by simp
qed

text \<open>What an acceptable action prints is what the scan accepts.\<close>

lemma printed_attr:
  assumes "action_ok a" "(k, v) \<in> set (sorted_attrs a)"
  shows "attr_ok (k, v)"
    "k = ''hash'' \<Longrightarrow> (\<exists>s. v = AStr s) \<and> hash_text a \<noteq> [] \<and> \<not> hash_alone (hash_text a)"
proof -
  note so = sorted_attrs_ok [OF assms(1), folded hash_text_def]
  have h: "hash_text a \<noteq> [] \<Longrightarrow> \<not> hash_alone (hash_text a) \<Longrightarrow> value_ok single_quoted (hash_text a)"
    using assms(1) by (auto simp: action_ok_def hash_text_def split: option.splits)
  have m: "map_of (sorted_attrs a) k = Some v" using assms(2) so(2) by (simp add: map_of_eq_Some_iff)
  then show "(\<exists>s. v = AStr s) \<and> hash_text a \<noteq> [] \<and> \<not> hash_alone (hash_text a)" if "k = ''hash''"
    using so(4) that by (auto split: if_splits)
  show "attr_ok (k, v)"
  proof (cases "k = ''hash''")
    case True
    then have "hash_text a \<noteq> []" "\<not> hash_alone (hash_text a)" "v = AStr (hash_text a)"
      using so(4) m by (auto split: if_splits)
    moreover have "key_ok ''hash''" by (simp add: key_ok_def is_blank_def is_quote_def quote_char1_def)
    ultimately show ?thesis using h True by simp
  next
    case False
    then have "map_option (fix_mode k) (dget (a_attrs a) k) = Some v" using so(3) m by simp
    then obtain v0 where "(k, v0) \<in> set (a_attrs a)" "v = fix_mode k v0"
      by (auto simp: dget_def dest: map_of_SomeD)
    then show ?thesis using assms(1) by (auto simp: action_ok_def)
  qed
qed

lemma printed_attrs_blank:
  assumes "action_ok a"
  shows "\<exists>s. concat (map attr_text (sorted_attrs a)) = CHR '' '' # s"
proof -
  have "dkeys (a_attrs a) \<noteq> []" using assms by (simp add: action_ok_def dkeys_def)
  then have "map fst (sorted_attrs a) \<noteq> []"
    unfolding sorted_attrs_ok(1) [OF assms]
    by (metis append_is_Nil_conv set_empty set_sort)
  then obtain k v xs where "sorted_attrs a = (k, v) # xs" by (cases "sorted_attrs a") auto
  then show ?thesis by (cases v) auto
qed

text \<open>The scan of the printed form, from the character after the name on.\<close>

lemma scan_printed:
  assumes "action_ok a"
  shows "\<exists>st. scan (start (a_name a)) (White False)
        ((if hash_text a \<noteq> [] \<and> hash_alone (hash_text a) then CHR '' '' # hash_text a else [])
          @ concat (map attr_text (sorted_attrs a))) = Inr st
      \<and> p_attrs st = filter (\<lambda>(k, v). k \<noteq> ''hash'') (sorted_attrs a)
      \<and> p_hash st = (if hash_text a = [] then None else Some (hash_text a))"
proof -
  let ?h = "hash_text a" and ?kvs = "sorted_attrs a" and ?st0 = "start (a_name a)"
  let ?alone = "?h \<noteq> [] \<and> hash_alone ?h"
  let ?st1 = "if ?alone then ?st0\<lparr>p_hash := Some ?h, p_hashstr := Some ?h\<rparr> else ?st0"
  note so = sorted_attrs_ok [OF assms, folded hash_text_def]
  have h: "?h \<noteq> [] \<Longrightarrow> a_name a \<in> set payload_types"
    "?alone \<Longrightarrow> \<forall>c \<in> set ?h. \<not> is_blank c \<and> \<not> is_quote c"
    using assms by (auto simp: action_ok_def hash_text_def split: option.splits)
  have "attrs_ok ?st1 ?kvs"
    using printed_attr(1) [OF assms] printed_attr(2) [OF assms _ refl] so(2) h(1)
    by (fastforce simp: attrs_ok_def start_def)
  from scan_attrs [OF this] obtain st where st:
    "scan ?st1 (White False) (concat (map attr_text ?kvs)) = Inr st"
    "p_attrs st = p_attrs ?st1 @ filter (\<lambda>(k, v). k \<noteq> ''hash'') ?kvs"
    "p_hash st = (case map_of ?kvs ''hash'' of Some (AStr h) \<Rightarrow> Some h | _ \<Rightarrow> p_hash ?st1)" by blast
  obtain s where s: "concat (map attr_text ?kvs) = CHR '' '' # s" using printed_attrs_blank [OF assms] by blast
  have "scan ?st0 (White False) ((if ?alone then CHR '' '' # ?h else []) @ concat (map attr_text ?kvs)) =
      scan ?st1 (White False) (concat (map attr_text ?kvs))"
    using scan_hash [of ?h ?st0 s] h unfolding s by (simp add: start_def)
  then show ?thesis using st so(4) by (auto simp: start_def split: if_splits)
qed

lemma printed_values:
  assumes "action_ok a"
  shows "dget (filter (\<lambda>(k, v). k \<noteq> ''hash'') (sorted_attrs a)) =
    (\<lambda>k. map_option (fix_mode k) (dget (a_attrs a) k))"
proof
  fix k
  have "map_of (filter (\<lambda>(k, v). k \<noteq> ''hash'') l) k = (if k = ''hash'' then None else map_of l k)"
    for l :: "(string \<times> avalue) list" by (induction l) auto
  moreover have "dget (a_attrs a) ''hash'' = None"
    using assms by (force simp: action_ok_def dget_def map_of_eq_None_iff)
  ultimately show "dget (filter (\<lambda>(k, v). k \<noteq> ''hash'') (sorted_attrs a)) k =
      map_option (fix_mode k) (dget (a_attrs a) k)"
    using sorted_attrs_ok(3) [OF assms, of k] by (auto simp: dget_def)
qed

text \<open>
  C3. Printing an action and parsing the text gives the action back: the same type, the same hash
  and the same value of every attribute.  This holds for every action whose class accepts its
  attributes as they are, provided no value that is quoted has a backslash before another
  backslash, before the quote or at its end, and no value that is not quoted has a tab or a newline.
\<close>

lemma action_print_parse:
  assumes "action_ok a"
  shows "\<exists>b. fromstr (fst (action_str a)) = Inr b \<and> a_name b = a_name a \<and> a_hash b = a_hash a
    \<and> dget (a_attrs b) = dget (a_attrs (snd (action_str a)))"
proof -
  let ?t = "(if hash_text a \<noteq> [] \<and> hash_alone (hash_text a) then CHR '' '' # hash_text a else [])
    @ concat (map attr_text (sorted_attrs a))"
  have printed: "fst (action_str a) = a_name a @ ?t"
    unfolding action_str_def Let_def hash_text_def [symmetric] by simp
  have hash: "a_hash a = (if hash_text a = [] then class_hash (a_name a) else Some (hash_text a))"
    using assms by (auto simp: action_ok_def hash_text_def split: option.splits)
  obtain st where st: "scan (start (a_name a)) (White False) ?t = Inr st"
    "p_attrs st = filter (\<lambda>(k, v). k \<noteq> ''hash'') (sorted_attrs a)"
    "p_hash st = (if hash_text a = [] then None else Some (hash_text a))"
    using scan_printed [OF assms] by blast
  have attrs: "dget (p_attrs st) = (\<lambda>k. map_option (fix_mode k) (dget (a_attrs a) k))"
    unfolding st(2) by (rule printed_values [OF assms])
  have init: "act_init (a_name a) (p_attrs st) =
      Inr \<lparr>a_name = a_name a, a_hash = class_hash (a_name a), a_attrs = p_attrs st\<rparr>"
    using act_init_normal [of "a_name a" "p_attrs st"] assms unfolding attrs by (simp add: action_ok_def)
  have "at_end ?t" "?t \<noteq> []" "a_name a \<in> set orderdict"
    using printed_attrs_blank [OF assms] assms
    by (auto simp: at_end_def action_ok_def simp del: concat_eq_Nil_conv)
  from fromstr_text [OF this(3,1,2)] have "fromstr (fst (action_str a)) = Inr (case p_hash st of
      None \<Rightarrow> \<lparr>a_name = a_name a, a_hash = class_hash (a_name a), a_attrs = p_attrs st\<rparr>
    | Some h \<Rightarrow> \<lparr>a_name = a_name a, a_hash = Some h, a_attrs = p_attrs st\<rparr>)"
    unfolding printed st(1) by (simp add: init split: option.split)
  moreover have "dget (a_attrs (snd (action_str a))) = (\<lambda>k. map_option (fix_mode k) (dget (a_attrs a) k))"
    by (rule ext) (simp add: action_str_def Let_def dget_map_keyed)
  ultimately show ?thesis using hash attrs st(3) by (simp split: if_splits)
qed

definition sample_action :: action where
  "sample_action = \<lparr>a_name = ''file'', a_hash = Some ''a b'',
     a_attrs = [(''path'', AStr ''usr/bin/x''), (''mode'', AStr ''0o755''),
       (''note'', AList [''it is'', ''say \"hi\"'', []]), (''x'', AStr [CHR ''c'', backslash, CHR ''d''])]\<rparr>"

lemma action_print_parse_witness:
  "\<exists>b. fromstr (fst (action_str sample_action)) = Inr b \<and> a_hash b = Some ''a b''
     \<and> dget (a_attrs b) ''mode'' = Some (AStr ''0755'')"
proof -
  have "action_ok sample_action"
    unfolding action_ok_def attrs_normal_def by code_simp
  moreover have "a_hash sample_action = Some ''a b''" "dget (a_attrs (snd (action_str sample_action))) ''mode'' = Some (AStr ''0755'')"
    by code_simp+
  ultimately show ?thesis using action_print_parse [of sample_action] by auto
qed

section \<open>Values with backslashes\<close>

text \<open>
  What the parser makes of a value that was printed in quotes without a quote in it: two backslashes
  become one, and one at the end takes the closing quote away.
\<close>

fun unescape :: "string \<Rightarrow> string option" where
  "unescape [] = Some []"
| "unescape [c] = (if c = backslash then None else Some [c])"
| "unescape (c # d # s) =
     (if c = backslash
      then map_option (\<lambda>w. if d = backslash then d # w else c # d # w) (unescape s)
      else map_option ((#) c) (unescape (d # s)))"

lemma scan_quoted_any:
  "q \<notin> set v \<Longrightarrow> q \<noteq> backslash \<Longrightarrow> scan st (Quoted q acc) (v @ [q]) =
     (case unescape v of
        None \<Rightarrow> Inl (MalformedActionError ''unfinished quoted value'')
      | Some w \<Rightarrow> scan st (Quoted q (rev w @ acc)) [q])"
proof (induction v arbitrary: acc rule: unescape.induct)
  case (2 c)
  then show ?case by (cases "c = backslash") (simp_all add: scan_Quoted)
next
  case (3 c d s)
  show ?case
  proof (cases "c = backslash")
    case True
    have d: "d \<noteq> q" using "3.prems" by auto
    then have "scan st (Quoted q acc) ((c # d # s) @ [q]) =
        scan st (Quoted q (if d = backslash then d # acc else d # c # acc)) (s @ [q])"
      using True by (simp add: scan_Quoted(2))
    then show ?thesis using 3 True
      by (cases "d = backslash"; cases "unescape s") (simp_all del: scan.simps)
  next
    case False
    then have "scan st (Quoted q acc) ((c # d # s) @ [q]) = scan st (Quoted q (c # acc)) ((d # s) @ [q])"
      using 3 by (auto simp: scan_Quoted(1))
    then show ?thesis using 3 False by (auto split: option.splits)
  qed
qed simp

lemma unescape_shorter: "unescape v = Some w \<Longrightarrow> length w \<le> length v"
  by (induction v arbitrary: w rule: unescape.induct) (fastforce split: if_splits)+

lemma unescape_same: "CHR ''\"'' \<notin> set v \<Longrightarrow> unescape v = Some v \<longleftrightarrow> bs_ok CHR ''\"'' v"
proof (induction v rule: unescape.induct)
  case (3 c d s)
  have no: "unescape s \<noteq> Some (x # d # s)" "unescape s \<noteq> Some (d # s)" for x
    using unescape_shorter [of s "x # d # s"] unescape_shorter [of s "d # s"] by auto
  have "bs_ok CHR ''\"'' (d # s) \<longleftrightarrow> bs_ok CHR ''\"'' s" if "d \<noteq> backslash" using that by (cases s) auto
  then show ?case using 3 no by (auto split: if_splits)
qed auto

text \<open>
  C20. The text of an action need not be read back as the action, because printing does not escape a
  backslash.  For a \<open>set\<close> action with a value that has a blank and no double quote, the text is
  parsed to the action with every two backslashes of the value joined to one, and cannot be parsed
  when that leaves a single backslash at the end; it gives the action back exactly when no backslash
  of the value stands before another one or at its end.
\<close>

lemma action_text_loses_backslash:
  assumes "attr_ok (''name'', AStr n)" and v: "CHR '' '' \<in> set v" "CHR ''\"'' \<notin> set v"
    and a: "a = \<lparr>a_name = ''set'', a_hash = None, a_attrs = [(''name'', AStr n), (''value'', AStr v)]\<rparr>"
  shows "fromstr (fst (action_str a)) =
      (case unescape v of
         None \<Rightarrow> Inl (MalformedActionError ''unfinished quoted value'')
       | Some w \<Rightarrow> Inr (a\<lparr>a_attrs := [(''name'', AStr n), (''value'', AStr w)]\<rparr>))
    \<and> (fromstr (fst (action_str a)) = Inr a \<longleftrightarrow> bs_ok CHR ''\"'' v)"
proof -
  let ?t = "CHR '' '' # ''value'' @ CHR ''='' # CHR ''\"'' # v @ ''\"''"
  have sorted: "sort [''name'', ''value''] = [''name'', ''value'']" by code_simp
  then have "sorted_attrs a = [(''name'', AStr n), (''value'', AStr v)]"
    by (simp add: sorted_attrs_def a dkeys_def dget_def fix_mode_def)
  then have printed: "fst (action_str a) = ''set'' @ attr_text (''name'', AStr n) @ ?t"
    using v by (simp add: action_str_def a quote_single_def has_quotes_def quoted_def)
  have end_t: "at_end ?t" by (simp add: at_end_def)
  have start_st: "dget (p_attrs (start ''set'')) ''name'' = None" "\<not> p_concat (start ''set'')"
    "p_attrs (start ''set'') = []" by (simp_all add: start_def dget_def)
  let ?s = "(start ''set'')\<lparr>p_key := ''name'', p_attrs := [(''name'', AStr n)]\<rparr>"
  obtain q where q: "scan (start ''set'') (White False) (attr_text (''name'', AStr n) @ ?t) = scan ?s (White q) ?t"
    using scan_one_attr [OF assms(1) _ _ end_t, of "start ''set''" False] start_st
    by (auto simp del: scan.simps attr_ok.simps attr_text.simps)
  have keys: "\<forall>c \<in> set ''alue''. \<not> is_blank c \<and> c \<noteq> CHR ''='' \<and> \<not> is_quote c"
    "\<not> is_blank CHR ''v''" "\<not> is_quote CHR ''v''"
    by (simp_all add: is_blank_def is_quote_def quote_char1_def)
  have "scan ?s (White q) ?t = scan ?s (InKey ''v'') (''alue'' @ CHR ''='' # CHR ''\"'' # v @ ''\"'')"
    using keys(2,3) by (simp del: append_Cons) simp
  also have "\<dots> = scan ?s (InKey ''eulav'') (CHR ''='' # CHR ''\"'' # v @ ''\"'')"
    using scan_key [OF keys(1), of ?s "''v''" "CHR ''='' # CHR ''\"'' # v @ ''\"''"] by (simp del: scan.simps)
  also have "\<dots> = scan (?s\<lparr>p_key := ''value''\<rparr>) (Quoted CHR ''\"'' []) (v @ ''\"'')"
    by simp
  also have "\<dots> = (case unescape v of
        None \<Rightarrow> Inl (MalformedActionError ''unfinished quoted value'')
      | Some w \<Rightarrow> Inr (?s\<lparr>p_key := ''value'', p_attrs := [(''name'', AStr n), (''value'', AStr w)]\<rparr>))"
    using scan_quoted_any [OF v(2), of "?s\<lparr>p_key := ''value''\<rparr>" "[]"]
    by (auto simp: scan_Quoted(3) put_value_def start_def add_to_attrs_def dget_def dput_def split: option.splits)
  finally have scan: "scan (start ''set'') (White False) (attr_text (''name'', AStr n) @ ?t) = \<dots>" using q by simp
  have init: "act_init ''set'' [(''name'', AStr n), (''value'', AStr w)] =
      Inr \<lparr>a_name = ''set'', a_hash = None, a_attrs = [(''name'', AStr n), (''value'', AStr w)]\<rparr>" for w
    by (subst act_init_normal) (simp_all add: attrs_normal_def key_attr_def single_def dget_def class_hash_def)
  have "''set'' \<in> set orderdict" by code_simp
  from fromstr_text [OF this, of "attr_text (''name'', AStr n) @ ?t"]
  have res: "fromstr (fst (action_str a)) =
      (case unescape v of
         None \<Rightarrow> Inl (MalformedActionError ''unfinished quoted value'')
       | Some w \<Rightarrow> Inr (a\<lparr>a_attrs := [(''name'', AStr n), (''value'', AStr w)]\<rparr>))"
    unfolding printed scan by (simp add: at_end_def init start_def a split: option.splits)
  have "(fromstr (fst (action_str a)) = Inr a) \<longleftrightarrow> unescape v = Some v"
    unfolding res by (auto simp: a split: option.splits)
  then show ?thesis using res unescape_same [OF v(2)] by blast
qed

lemma action_text_loses_backslash_witness:
  "fromstr (fst (action_str \<lparr>a_name = ''set'', a_hash = None, a_attrs =
     [(''name'', AStr ''n''), (''value'', AStr [CHR ''a'', CHR '' '', backslash, backslash])]\<rparr>)) =
   Inr \<lparr>a_name = ''set'', a_hash = None, a_attrs = [(''name'', AStr ''n''), (''value'', AStr [CHR ''a'', CHR '' '', backslash])]\<rparr>"
proof -
  have "attr_ok (''name'', AStr ''n'')" by code_simp
  from action_text_loses_backslash [OF this _ _ refl, of "[CHR ''a'', CHR '' '', backslash, backslash]"] show ?thesis
    by (simp add: backslash_def)
qed

end
