(* ===== verification/Pkg_CertChain.thy ===== *)
theory Pkg_CertChain
  imports Pkg_Dict
begin

text \<open>
  The verification of a signing certificate in \<open>src/src/modules/client/publisher.py\<close>
  (\<open>Publisher.verify_chain\<close> and what it calls) and \<open>check_ca\<close> of \<open>misc.py\<close>.  The X.509 library, the
  transport that retrieves revocation lists and the files of the publisher are not under the
  functions modelled here: a record of type \<open>pki\<close> holds what the code asks them, as functions.  A
  call that may not return is a value of an option type, \<open>None\<close> when the fuel does not suffice.
\<close>

section \<open>Certificates\<close>

text \<open>The extensions the code distinguishes; a key usage is the list of the flags that are set.\<close>

datatype etype = EBasicConstraints | EKeyUsage

datatype extension =
    BasicConstraints bool "int option" bool
  | KeyUsage "string list" bool
  | OtherExt bool

datatype general_name = UniformResourceIdentifier string | OtherName

text \<open>The extensions are \<open>None\<close> where the library raises \<open>ValueError\<close> for them.\<close>

record cert =
  ct_hash :: string
  ct_subject :: string
  ct_issuer :: string
  ct_cns :: "string list"
  ct_serial :: int
  ct_exts :: "extension list option"
  ct_dps :: "general_name list list option"

record crl =
  cr_issuer :: string
  cr_revoked :: "int list"

datatype chain_exn =
    UntrustedSelfSignedCert
  | BrokenChain
  | RevokedCertificate
  | UnsupportedCriticalExtension
  | UnsupportedExtensionValue
  | InvalidCertificateExtensions
  | InappropriateCertificateUse
  | PathlenTooShort
  | ChainPy py_exn

text \<open>All but the errors of Python itself are \<open>SigningException\<close>s.\<close>

fun signing_exn :: "chain_exn \<Rightarrow> bool" where
  "signing_exn (ChainPy e) = False"
| "signing_exn _ = True"

text \<open>
  What the code asks: the digest of a name, whether a signature verifies under a certificate's
  key, the revocation list at an address, the certificates stored under a name (an element \<open>None\<close>
  stands for the number that \<open>__add_cert\<close> records in their place when it cannot write the file), and
  the hashes the user has revoked.
\<close>

record pki =
  k_sha1 :: "string \<Rightarrow> string"
  k_signed :: "cert \<Rightarrow> cert \<Rightarrow> bool"
  k_crl_signed :: "crl \<Rightarrow> cert \<Rightarrow> bool"
  k_get_crl :: "string \<Rightarrow> bool \<Rightarrow> crl option"
  k_by_name :: "string \<Rightarrow> chain_exn + cert option list"
  k_revoked :: "string list"

type_synonym usages = "(etype \<times> string list) list"

definition CODE_SIGNING_USE :: usages where
  "CODE_SIGNING_USE = [(EKeyUsage, [''digital_signature''])]"

definition CERT_SIGNING_USE :: usages where
  "CERT_SIGNING_USE = [(EBasicConstraints, [''ca'']), (EKeyUsage, [''key_cert_sign''])]"

definition CRL_SIGNING_USE :: usages where
  "CRL_SIGNING_USE = [(EKeyUsage, [''crl_sign''])]"

text \<open>\<open>merge_dicts\<close>: the lists of a key that both have are joined.\<close>

definition merge_dicts :: "usages \<Rightarrow> usages \<Rightarrow> usages" where
  "merge_dicts d1 d2 =
     fold (\<lambda>(k, l) res. AList.update k (case map_of res k of None \<Rightarrow> l | Some l' \<Rightarrow> l' @ l) res) d2 d1"

definition all_uses :: usages where
  "all_uses = fold (\<lambda>u usages. merge_dicts usages u) [CODE_SIGNING_USE, CERT_SIGNING_USE, CRL_SIGNING_USE] []"

section \<open>Extensions\<close>

definition key_usage_values :: "string list" where
  "key_usage_values = [''digital_signature'', ''content_commitment'', ''key_encipherment'',
     ''data_encipherment'', ''key_agreement'', ''key_cert_sign'', ''crl_sign'', ''encipher_only'',
     ''decipher_only'']"

definition supported_key_usage :: "string list" where
  "supported_key_usage = [''digital_signature'', ''key_cert_sign'', ''crl_sign'']"

text \<open>The values set in an extension: a path length of zero counts as not set.\<close>

definition key_values :: "string list \<Rightarrow> string list" where
  "key_values set_flags =
     (let keys = (if ''key_agreement'' \<in> set set_flags then key_usage_values
                  else filter (\<lambda>k. k \<noteq> ''encipher_only'' \<and> k \<noteq> ''decipher_only'') key_usage_values)
      in filter (\<lambda>k. k \<in> set set_flags) keys)"

definition basic_values :: "bool \<Rightarrow> int option \<Rightarrow> string list" where
  "basic_values ca pathlen = (if ca then [''ca''] else [])
     @ (case pathlen of Some p \<Rightarrow> if p \<noteq> 0 then [''path_length''] else [] | None \<Rightarrow> [])"

definition uses_ok :: "usages \<Rightarrow> etype \<Rightarrow> string list \<Rightarrow> chain_exn option" where
  "uses_ok usages etype vs =
     (case map_of usages etype of
        None \<Rightarrow> None
      | Some us \<Rightarrow> if list_all (\<lambda>u. u \<in> set vs) us then None else Some InappropriateCertificateUse)"

fun check_ext :: "usages \<Rightarrow> nat \<Rightarrow> extension \<Rightarrow> chain_exn option" where
  "check_ext usages cur_pathlen (BasicConstraints ca pathlen critical) =
     (if (case pathlen of None \<Rightarrow> False | Some p \<Rightarrow> int cur_pathlen > p) then Some PathlenTooShort
      else uses_ok usages EBasicConstraints (basic_values ca pathlen))"
| "check_ext usages cur_pathlen (KeyUsage flags critical) =
     (if list_all (\<lambda>v. v \<in> set supported_key_usage) (key_values flags)
      then uses_ok usages EKeyUsage (key_values flags)
      else Some UnsupportedExtensionValue)"
| "check_ext usages cur_pathlen (OtherExt critical) =
     (if critical then Some UnsupportedCriticalExtension else None)"

fun check_exts :: "usages \<Rightarrow> nat \<Rightarrow> extension list \<Rightarrow> chain_exn option" where
  "check_exts usages cur_pathlen [] = None"
| "check_exts usages cur_pathlen (x # xs) =
     (case check_ext usages cur_pathlen x of Some e \<Rightarrow> Some e | None \<Rightarrow> check_exts usages cur_pathlen xs)"

definition check_extensions :: "cert \<Rightarrow> usages \<Rightarrow> nat \<Rightarrow> chain_exn option" where
  "check_extensions c usages cur_pathlen =
     (case ct_exts c of None \<Rightarrow> Some InvalidCertificateExtensions
      | Some exts \<Rightarrow> check_exts usages cur_pathlen exts)"

text \<open>\<open>check_ca\<close>: the last extension of each kind counts.\<close>

definition check_ca :: "cert \<Rightarrow> chain_exn + bool" where
  "check_ca c =
     (case ct_exts c of None \<Rightarrow> Inl (ChainPy ValueError)
      | Some exts \<Rightarrow>
          let (ca, sign) = fold (\<lambda>x (ca, sign).
                case x of BasicConstraints b pathlen critical \<Rightarrow> (b, sign)
                | KeyUsage flags critical \<Rightarrow> (ca, ''key_cert_sign'' \<in> set flags)
                | OtherExt critical \<Rightarrow> (ca, sign)) exts (False, True)
          in Inr (sign \<and> ca))"
section \<open>Revocation\<close>

text \<open>A computation that may run out of fuel, raise an exception or give a result.\<close>

type_synonym 'a run = "(chain_exn + 'a) option"

definition rbind :: "'a run \<Rightarrow> ('a \<Rightarrow> 'b run) \<Rightarrow> 'b run" where
  "rbind r f = (case r of None \<Rightarrow> None | Some (Inl e) \<Rightarrow> Some (Inl e) | Some (Inr x) \<Rightarrow> f x)"

definition trusted :: "pki \<Rightarrow> cert list dict \<Rightarrow> string \<Rightarrow> cert list" where
  "trusted k ca name = (case dget ca (k_sha1 k name) of None \<Rightarrow> [] | Some l \<Rightarrow> l)"

text \<open>
  Whether a certificate of that name verifies the list: \<open>rec\<close> is \<open>verify_chain\<close> for the issuer of a
  revocation list.
\<close>

fun crl_chain :: "pki \<Rightarrow> (cert \<Rightarrow> 'a run) \<Rightarrow> crl \<Rightarrow> cert option list \<Rightarrow> bool run" where
  "crl_chain k rec crl [] = Some (Inr False)"
| "crl_chain k rec crl (None # cs) = Some (Inl (ChainPy AttributeError))"
| "crl_chain k rec crl (Some c # cs) =
     (if k_crl_signed k crl c
      then case rec c of
             None \<Rightarrow> None
           | Some (Inl e) \<Rightarrow> if signing_exn e then crl_chain k rec crl cs else Some (Inl e)
           | Some (Inr x) \<Rightarrow> Some (Inr True)
      else crl_chain k rec crl cs)"

text \<open>An empty CRL counts as none: a CRL has a length, and \<open>if not crl\<close> asks for it.\<close>

definition check_crl ::
  "pki \<Rightarrow> (cert \<Rightarrow> 'a run) \<Rightarrow> cert \<Rightarrow> cert list dict \<Rightarrow> string \<Rightarrow> bool \<Rightarrow> unit run" where
  "check_crl k rec c ca uri more_uris =
     (case k_get_crl k uri more_uris of
        None \<Rightarrow> Some (Inr ())
      | Some crl \<Rightarrow>
          if cr_revoked crl = [] then Some (Inr ())
          else rbind (if list_ex (\<lambda>t. k_crl_signed k crl t \<and> check_extensions t CRL_SIGNING_USE 0 = None)
                      (trusted k ca (cr_issuer crl))
                 then Some (Inr True)
                 else case k_by_name k (cr_issuer crl) of
                        Inl e \<Rightarrow> Some (Inl e)
                      | Inr cs \<Rightarrow> crl_chain k rec crl cs) (\<lambda>verified.
          if \<not> verified then Some (Inr ())
          else if cr_issuer crl \<noteq> ct_issuer c then Some (Inl (ChainPy AssertionError))
          else if ct_serial c \<in> set (cr_revoked crl) then Some (Inl RevokedCertificate)
          else Some (Inr ())))"

definition crl_uris :: "cert \<Rightarrow> string list" where
  "crl_uris c =
     (case ct_dps c of None \<Rightarrow> []
      | Some dps \<Rightarrow> concat (map (\<lambda>dp. concat (map (\<lambda>g. case g of
            UniformResourceIdentifier u \<Rightarrow> [u] | OtherName \<Rightarrow> []) dp)) dps))"

fun check_crls ::
  "pki \<Rightarrow> (cert \<Rightarrow> 'a run) \<Rightarrow> cert \<Rightarrow> cert list dict \<Rightarrow> string list \<Rightarrow> unit run" where
  "check_crls k rec c ca [] = Some (Inr ())"
| "check_crls k rec c ca (uri # uris) =
     rbind (check_crl k rec c ca uri (uris \<noteq> [])) (\<lambda>_. check_crls k rec c ca uris)"

definition check_revocation ::
  "pki \<Rightarrow> (cert \<Rightarrow> 'a run) \<Rightarrow> cert list dict \<Rightarrow> bool \<Rightarrow> cert \<Rightarrow> unit run" where
  "check_revocation k rec ca use_crls c =
     (if ct_hash c \<in> set (k_revoked k) then Some (Inl RevokedCertificate)
      else if use_crls then check_crls k rec c ca (crl_uris c)
      else Some (Inr ()))"

section \<open>The chain\<close>

definition discard_names :: "cert \<Rightarrow> string set \<Rightarrow> string set" where
  "discard_names c names = names - set (ct_cns c)"

text \<open>The next link: the first certificate of that name without a problem.\<close>

fun next_link ::
  "pki \<Rightarrow> (cert \<Rightarrow> unit run) \<Rightarrow> cert \<Rightarrow> nat \<Rightarrow> cert option list \<Rightarrow> cert option run" where
  "next_link k rvk cur cur_pathlen [] = Some (Inr None)"
| "next_link k rvk cur cur_pathlen (None # cs) = Some (Inl (ChainPy AttributeError))"
| "next_link k rvk cur cur_pathlen (Some c # cs) =
     (case check_ca c of
        Inl e \<Rightarrow> Some (Inl e)
      | Inr ca \<Rightarrow>
          if \<not> (ca \<and> k_signed k cur c) then next_link k rvk cur cur_pathlen cs
          else case check_extensions c CERT_SIGNING_USE cur_pathlen of
                 Some UnsupportedCriticalExtension \<Rightarrow> next_link k rvk cur cur_pathlen cs
               | Some e \<Rightarrow> Some (Inl e)
               | None \<Rightarrow>
                   (case rvk c of
                      None \<Rightarrow> None
                    | Some (Inl UnsupportedCriticalExtension) \<Rightarrow> next_link k rvk cur cur_pathlen cs
                    | Some (Inl RevokedCertificate) \<Rightarrow> next_link k rvk cur cur_pathlen cs
                    | Some (Inl e) \<Rightarrow> Some (Inl e)
                    | Some (Inr u) \<Rightarrow> Some (Inr (Some c))))"

text \<open>
  One round of the loop of \<open>verify_chain\<close>: its end, or the certificate, the names and the flag of
  the next round.  The result is what is left of the set of required names, which the code
  changes in place.
\<close>

definition chain_step ::
  "pki \<Rightarrow> (cert \<Rightarrow> unit run) \<Rightarrow> cert list dict \<Rightarrow> cert \<Rightarrow> nat \<Rightarrow> string set \<Rightarrow> bool
     \<Rightarrow> string set run + cert \<times> string set \<times> bool" where
  "chain_step k rvk ca cur cur_pathlen names verified =
     (let names1 = discard_names cur names;
          hit = find (\<lambda>c. k_signed k cur c) (trusted k ca (ct_issuer cur));
          names2 = (case hit of None \<Rightarrow> names1 | Some c \<Rightarrow> discard_names c names1);
          verified1 = (verified \<or> hit \<noteq> None);
          continue = (hit = None \<or> names2 \<noteq> {})
      in if k_sha1 k (ct_subject cur) = k_sha1 k (ct_issuer cur)
         then Inl (if verified1 then Some (Inr names2) else Some (Inl UntrustedSelfSignedCert))
         else if \<not> continue then Inl (Some (Inr names2))
         else case k_by_name k (ct_issuer cur) of
                Inl e \<Rightarrow> Inl (Some (Inl e))
              | Inr cs \<Rightarrow>
                  (case next_link k rvk cur cur_pathlen cs of
                     None \<Rightarrow> Inl None
                   | Some (Inl e) \<Rightarrow> Inl (Some (Inl e))
                   | Some (Inr None) \<Rightarrow>
                       Inl (if verified1 then Some (Inr names2) else Some (Inl BrokenChain))
                   | Some (Inr (Some c)) \<Rightarrow> Inr (c, names2, verified1)))"

text \<open>Each round takes one unit of fuel.\<close>

primrec chain_loop ::
  "nat \<Rightarrow> pki \<Rightarrow> (cert \<Rightarrow> unit run) \<Rightarrow> cert list dict \<Rightarrow> cert \<Rightarrow> nat \<Rightarrow> string set \<Rightarrow> bool
     \<Rightarrow> string set run" where
  "chain_loop 0 k rvk ca cur cur_pathlen names verified = None"
| "chain_loop (Suc n) k rvk ca cur cur_pathlen names verified =
     (case chain_step k rvk ca cur cur_pathlen names verified of
        Inl r \<Rightarrow> r
      | Inr (c, names', verified') \<Rightarrow> chain_loop n k rvk ca c (Suc cur_pathlen) names' verified')"

text \<open>The trust anchors with the publisher's own, each list extended.\<close>

definition merge_ca :: "cert list dict \<Rightarrow> cert list dict \<Rightarrow> cert list dict" where
  "merge_ca ca own =
     fold (\<lambda>(h, v) d. dput h (case dget d h of None \<Rightarrow> v | Some l \<Rightarrow> l @ v) d) own ca"

primrec verify_chain ::
  "nat \<Rightarrow> pki \<Rightarrow> cert list dict \<Rightarrow> cert \<Rightarrow> cert list dict \<Rightarrow> nat \<Rightarrow> bool \<Rightarrow> string set \<Rightarrow> usages
     \<Rightarrow> string set run" where
  "verify_chain 0 k own c anchors cur_pathlen use_crls names usages = None"
| "verify_chain (Suc n) k own c anchors cur_pathlen use_crls names usages =
     (let ca = merge_ca anchors own;
          uses = (if usages = [] then all_uses else usages);
          rvk = check_revocation k
                  (\<lambda>c'. verify_chain n k own c' ca 0 True {} CRL_SIGNING_USE) ca use_crls
      in case check_extensions c uses cur_pathlen of
           Some e \<Rightarrow> Some (Inl e)
         | None \<Rightarrow> rbind (rvk c) (\<lambda>_. chain_loop (Suc n) k rvk ca c cur_pathlen names False))"

text \<open>
  The caller's trust anchors after the call: \<open>copy.copy\<close> copies the dictionary, not its lists, so
  the lists that are extended are the caller's own.
\<close>

definition anchors_after :: "cert list dict \<Rightarrow> cert list dict \<Rightarrow> cert list dict" where
  "anchors_after anchors own =
     map (\<lambda>(h, l). (h, case dget own h of None \<Rightarrow> l | Some v \<Rightarrow> l @ v)) anchors"
section \<open>What a verified chain is\<close>

fun chain_ok :: "pki \<Rightarrow> nat \<Rightarrow> cert list \<Rightarrow> bool" where
  "chain_ok k p [] = False"
| "chain_ok k p [c] = True"
| "chain_ok k p (c # d # cs) \<longleftrightarrow> k_signed k c d \<and> check_ca d = Inr True
     \<and> check_extensions d CERT_SIGNING_USE p = None \<and> ct_hash d \<notin> set (k_revoked k)
     \<and> chain_ok k (Suc p) (d # cs)"

text \<open>The trust anchors that sign a certificate of the chain, and the names seen on the way.\<close>

definition anchors_of :: "pki \<Rightarrow> cert list dict \<Rightarrow> cert list \<Rightarrow> cert set" where
  "anchors_of k ca chain = {a. \<exists>c \<in> set chain. a \<in> set (trusted k ca (ct_issuer c)) \<and> k_signed k c a}"

definition names_seen :: "pki \<Rightarrow> cert list dict \<Rightarrow> cert list \<Rightarrow> string set" where
  "names_seen k ca chain = (\<Union>c \<in> set chain \<union> anchors_of k ca chain. set (ct_cns c))"

lemma rbind_Inr: "rbind r f = Some (Inr y) \<longleftrightarrow> (\<exists>x. r = Some (Inr x) \<and> f x = Some (Inr y))"
  by (auto simp: rbind_def split: option.splits sum.splits)

lemma rbind_None: "rbind r f = None \<longleftrightarrow> r = None \<or> (\<exists>x. r = Some (Inr x) \<and> f x = None)"
  by (auto simp: rbind_def split: option.splits sum.splits)

lemma check_revocation_ok:
  "check_revocation k rec ca use_crls c = Some (Inr u) \<Longrightarrow> ct_hash c \<notin> set (k_revoked k)"
  by (auto simp: check_revocation_def split: if_splits)

lemma next_link_ok:
  "next_link k rvk cur p cs = Some (Inr (Some c)) \<Longrightarrow>
     Some c \<in> set cs \<and> check_ca c = Inr True \<and> k_signed k cur c
     \<and> check_extensions c CERT_SIGNING_USE p = None \<and> (\<exists>u. rvk c = Some (Inr u))"
proof (induction k rvk cur p cs rule: next_link.induct)
  case (3 k rvk cur p d cs)
  show ?case
  proof (cases "check_ca d")
    case (Inl e)
    then show ?thesis using 3(5) by simp
  next
    case (Inr ca)
    show ?thesis
    proof (cases "ca \<and> k_signed k cur d")
      case False
      then show ?thesis using 3(1) [OF Inr] 3(5) Inr by simp
    next
      case True
      show ?thesis
      proof (cases "check_extensions d CERT_SIGNING_USE p")
        case None
        then show ?thesis using 3 Inr True
          by (simp split: option.splits sum.splits chain_exn.splits)
      next
        case (Some e)
        then show ?thesis using 3 Inr True by (simp split: chain_exn.splits)
      qed
    qed
  qed
qed simp_all

text \<open>One round, by the local variables of the code.\<close>

definition anchor_hit :: "pki \<Rightarrow> cert list dict \<Rightarrow> cert \<Rightarrow> cert option" where
  "anchor_hit k ca cur = find (\<lambda>c. k_signed k cur c) (trusted k ca (ct_issuer cur))"

definition names_after :: "pki \<Rightarrow> cert list dict \<Rightarrow> cert \<Rightarrow> string set \<Rightarrow> string set" where
  "names_after k ca cur names = (case anchor_hit k ca cur of None \<Rightarrow> discard_names cur names
     | Some c \<Rightarrow> discard_names c (discard_names cur names))"

lemmas chain_step_eq =
  chain_step_def [unfolded Let_def anchor_hit_def [symmetric] names_after_def [symmetric]]

lemma anchor_hit_in: "anchor_hit k ca cur = Some a \<Longrightarrow> a \<in> anchors_of k ca (cur # cs)"
  by (auto simp: anchor_hit_def anchors_of_def find_Some_iff)

lemma names_after_sub: "names_after k ca cur names \<subseteq> names"
  by (auto simp: names_after_def discard_names_def split: option.splits)

lemma names_after_seen: "names - names_after k ca cur names \<subseteq> names_seen k ca (cur # cs)"
  using anchor_hit_in [of k ca cur _ cs]
  by (auto simp: names_after_def discard_names_def names_seen_def split: option.splits)

lemma chain_step_done:
  "chain_step k rvk ca cur p names verified = Inl (Some (Inr left)) \<Longrightarrow>
     left = names_after k ca cur names \<and> (verified \<or> anchor_hit k ca cur \<noteq> None)"
  unfolding chain_step_eq by (auto split: if_splits sum.splits option.splits)

lemma chain_step_next:
  "chain_step k rvk ca cur p names verified = Inr (c, names', verified') \<Longrightarrow>
     names' = names_after k ca cur names \<and> verified' = (verified \<or> anchor_hit k ca cur \<noteq> None)
     \<and> (\<exists>cs. k_by_name k (ct_issuer cur) = Inr cs \<and> next_link k rvk cur p cs = Some (Inr (Some c)))"
  unfolding chain_step_eq by (auto split: if_splits sum.splits option.splits)

lemma chain_loop_sound:
  assumes "chain_loop n k rvk ca cur p names verified = Some (Inr left)"
    and rvk: "\<And>c u. rvk c = Some (Inr u) \<Longrightarrow> ct_hash c \<notin> set (k_revoked k)"
  shows "\<exists>chain. hd chain = cur \<and> chain_ok k p chain \<and> (verified \<or> anchors_of k ca chain \<noteq> {})
    \<and> left \<subseteq> names \<and> names - left \<subseteq> names_seen k ca chain"
  using assms(1)
proof (induction n arbitrary: cur p names verified)
  case (Suc n)
  show ?case
  proof (cases "chain_step k rvk ca cur p names verified")
    case (Inl r)
    then have "r = Some (Inr left)" using Suc.prems by simp
    with Inl have "left = names_after k ca cur names" "verified \<or> anchor_hit k ca cur \<noteq> None"
      using chain_step_done by blast+
    moreover from this have "verified \<or> anchors_of k ca [cur] \<noteq> {}" using anchor_hit_in [of k ca cur _ "[]"] by auto
    ultimately show ?thesis
      using names_after_sub [of k ca cur names] names_after_seen [of names k ca cur "[]"]
      by (intro exI [of _ "[cur]"]) simp
  next
    case (Inr x)
    obtain c names2 verified1 where x: "x = (c, names2, verified1)" by (rule prod_cases3)
    then have st: "names2 = names_after k ca cur names" "verified1 = (verified \<or> anchor_hit k ca cur \<noteq> None)"
      and nl: "\<exists>cs. next_link k rvk cur p cs = Some (Inr (Some c))"
      using chain_step_next Inr by blast+
    have rec: "chain_loop n k rvk ca c (Suc p) names2 verified1 = Some (Inr left)"
      using Suc.prems Inr x by simp
    obtain chain where chain: "hd chain = c" "chain_ok k (Suc p) chain"
      "verified1 \<or> anchors_of k ca chain \<noteq> {}" "left \<subseteq> names2" "names2 - left \<subseteq> names_seen k ca chain"
      using Suc.IH [OF rec] by blast
    obtain rest where rest: "chain = c # rest" using chain(1,2) by (cases chain) auto
    have "chain_ok k p (cur # chain)"
      using nl next_link_ok rvk chain(2) unfolding rest by fastforce
    moreover have "verified \<or> anchors_of k ca (cur # chain) \<noteq> {}"
      using chain(3) anchor_hit_in [of k ca cur _ chain] by (auto simp: st(2) anchors_of_def)
    moreover have "names_seen k ca chain \<subseteq> names_seen k ca (cur # chain)"
      by (auto simp: names_seen_def anchors_of_def)
    then have "names - left \<subseteq> names_seen k ca (cur # chain)"
      using names_after_seen chain(5) st(1) by blast
    moreover have "left \<subseteq> names" using names_after_sub [of k ca cur names] chain(4) st(1) by blast
    ultimately show ?thesis by (intro exI [of _ "cur # chain"]) simp
  qed
qed simp
section \<open>Fewer names, fewer failures\<close>

lemma names_after_mono: "N \<subseteq> M \<Longrightarrow> names_after k ca cur N \<subseteq> names_after k ca cur M"
  by (auto simp: names_after_def discard_names_def split: option.splits)

lemma chain_step_mono:
  assumes "N \<subseteq> M"
  shows "case chain_step k rvk ca cur p M verified of
      Inl (Some (Inr left)) \<Rightarrow> \<exists>left'. chain_step k rvk ca cur p N verified = Inl (Some (Inr left')) \<and> left' \<subseteq> left
    | Inl r \<Rightarrow> True
    | Inr (c, M', v) \<Rightarrow> chain_step k rvk ca cur p N verified = Inl (Some (Inr {}))
        \<or> (\<exists>N'. chain_step k rvk ca cur p N verified = Inr (c, N', v) \<and> N' \<subseteq> M')"
  using names_after_mono [OF assms, of k ca cur] unfolding chain_step_eq
  by (auto split: sum.split option.split)

lemma chain_loop_mono:
  assumes "chain_loop n k rvk ca cur p M verified = Some (Inr left)" and "N \<subseteq> M"
  shows "\<exists>left'. chain_loop n k rvk ca cur p N verified = Some (Inr left') \<and> left' \<subseteq> left"
  using assms
proof (induction n arbitrary: cur p N M verified)
  case (Suc n)
  note step = chain_step_mono [OF Suc.prems(2), of k rvk ca cur p verified]
  show ?case
  proof (cases "chain_step k rvk ca cur p M verified")
    case (Inl r)
    then show ?thesis using step Suc.prems(1) by auto
  next
    case (Inr x)
    obtain c M' v where x: "x = (c, M', v)" by (rule prod_cases3)
    then have rec: "chain_loop n k rvk ca c (Suc p) M' v = Some (Inr left)" using Suc.prems(1) Inr by simp
    from step Inr x consider "chain_step k rvk ca cur p N verified = Inl (Some (Inr {}))"
      | N' where "chain_step k rvk ca cur p N verified = Inr (c, N', v)" "N' \<subseteq> M'" by auto
    then show ?thesis
    proof cases
      case 2
      then show ?thesis using Suc.IH [OF rec] by simp
    qed simp
  qed
qed simp

section \<open>Running long enough\<close>

lemma check_revocation_runs: "check_revocation k rec ca False c \<noteq> None"
  by (simp add: check_revocation_def)

lemma next_link_runs:
  "(\<And>c. rvk c \<noteq> None) \<Longrightarrow> next_link k rvk cur p cs \<noteq> None"
proof (induction k rvk cur p cs rule: next_link.induct)
  case (3 k rvk cur p c cs)
  show ?case
  proof (cases "check_ca c")
    case (Inr ca)
    show ?thesis
    proof (cases "check_extensions c CERT_SIGNING_USE p")
      case None
      obtain r where "rvk c = Some r" using 3(5) [of c] by blast
      then show ?thesis using 3 Inr None by (cases r) (auto split: chain_exn.splits)
    next
      case (Some e)
      then show ?thesis using 3 Inr by (cases e) auto
    qed
  qed simp
qed simp_all

lemma chain_step_runs:
  "(\<And>c. rvk c \<noteq> None) \<Longrightarrow> chain_step k rvk ca cur p names verified \<noteq> Inl None"
proof -
  assume "\<And>c. rvk c \<noteq> None"
  then have nl: "\<exists>r. next_link k rvk cur p cs = Some r" for cs using next_link_runs by blast
  show ?thesis unfolding chain_step_eq using nl
    by (auto split: sum.split option.split) (metis option.distinct(1))+
qed

text \<open>No stored certificate lets a chain go on below a path of that length.\<close>

definition paths_within :: "pki \<Rightarrow> nat \<Rightarrow> bool" where
  "paths_within k N \<longleftrightarrow> (\<forall>name cs c p. k_by_name k name = Inr cs \<longrightarrow> Some c \<in> set cs \<longrightarrow> N < p
     \<longrightarrow> check_extensions c CERT_SIGNING_USE p \<noteq> None)"

lemma chain_loop_runs:
  assumes k: "paths_within k N" and rvk: "\<And>c. rvk c \<noteq> None"
  shows "N + 2 \<le> m + p \<Longrightarrow> 0 < m \<Longrightarrow> chain_loop m k rvk ca cur p names verified \<noteq> None"
proof (induction m arbitrary: cur p names verified)
  case (Suc m)
  show ?case
  proof (cases "chain_step k rvk ca cur p names verified")
    case (Inl r)
    then show ?thesis using chain_step_runs [of rvk k ca cur p names verified] rvk by simp
  next
    case (Inr x)
    obtain c names' v where x: "x = (c, names', v)" by (rule prod_cases3)
    then obtain cs where cs: "k_by_name k (ct_issuer cur) = Inr cs" "next_link k rvk cur p cs = Some (Inr (Some c))"
      using chain_step_next Inr by blast
    have "\<not> N < p" using next_link_ok [OF cs(2)] k cs(1) unfolding paths_within_def by blast
    then have "N + 2 \<le> m + Suc p" "0 < m" using Suc.prems(1) by auto
    then show ?thesis using Suc.IH Inr x by simp
  qed
qed simp

section \<open>Two certificates that sign each other\<close>

definition cross_cert :: "string \<Rightarrow> string \<Rightarrow> cert" where
  "cross_cert subject issuer =
     \<lparr>ct_hash = subject, ct_subject = subject, ct_issuer = issuer, ct_cns = [subject], ct_serial = 1,
      ct_exts = Some [BasicConstraints True None True, KeyUsage [''key_cert_sign'', ''digital_signature''] True],
      ct_dps = None\<rparr>"

definition cross_pki :: pki where
  "cross_pki =
     \<lparr>k_sha1 = (\<lambda>n. n), k_signed = (\<lambda>c d. ct_issuer c = ct_subject d), k_crl_signed = (\<lambda>l c. False),
      k_get_crl = (\<lambda>u m. None),
      k_by_name = (\<lambda>n. if n = ''A'' then Inr [Some (cross_cert ''A'' ''B'')]
                       else if n = ''B'' then Inr [Some (cross_cert ''B'' ''A'')] else Inr []),
      k_revoked = []\<rparr>"

lemma cross_check: "check_extensions (cross_cert a b) CERT_SIGNING_USE p = None"
  "check_extensions (cross_cert a b) CODE_SIGNING_USE p = None" "check_ca (cross_cert a b) = Inr True"
  by (simp_all add: check_extensions_def cross_cert_def uses_ok_def CERT_SIGNING_USE_def CODE_SIGNING_USE_def
      basic_values_def key_values_def key_usage_values_def supported_key_usage_def check_ca_def)

lemma cross_loop:
  "a = ''A'' \<and> b = ''B'' \<or> a = ''B'' \<and> b = ''A'' \<Longrightarrow>
     chain_loop n cross_pki (check_revocation cross_pki rec [] False) [] (cross_cert a b) p names False = None"
proof (induction n arbitrary: a b p names)
  case (Suc n)
  have ab: "a \<noteq> b" using Suc.prems by auto
  have no: "find P (trusted cross_pki [] x) = None" for P x by (simp add: trusted_def dget_def)
  have link: "k_by_name cross_pki b = Inr [Some (cross_cert b a)]"
    using Suc.prems by (auto simp: cross_pki_def)
  have facts: "k_signed cross_pki (cross_cert a b) (cross_cert b a)"
    "ct_issuer (cross_cert a b) = b" "ct_subject (cross_cert a b) = a" "k_sha1 cross_pki x = x"
    "check_revocation cross_pki rec [] False (cross_cert b a) = Some (Inr ())" for x
    by (simp_all add: cross_pki_def cross_cert_def check_revocation_def)
  have "next_link cross_pki (check_revocation cross_pki rec [] False) (cross_cert a b) p [Some (cross_cert b a)] =
      Some (Inr (Some (cross_cert b a)))"
    by (simp add: cross_check facts)
  then have "\<exists>N. chain_step cross_pki (check_revocation cross_pki rec [] False) [] (cross_cert a b) p names False =
      Inr (cross_cert b a, N, False)"
    unfolding chain_step_def Let_def no facts link using ab by simp
  moreover have "chain_loop n cross_pki (check_revocation cross_pki rec [] False) [] (cross_cert b a) (Suc p) N False = None"
    for N by (rule Suc.IH) (use Suc.prems in blast)
  ultimately show ?case by auto
qed simp
section \<open>Verification of a certificate\<close>

lemma verify_chain_cases:
  assumes "verify_chain n k own c anchors p use_crls names usages = Some (Inr left)"
  obtains rec :: "cert \<Rightarrow> string set run" where "check_extensions c (if usages = [] then all_uses else usages) p = None"
    "ct_hash c \<notin> set (k_revoked k)"
    "chain_loop n k (check_revocation k rec (merge_ca anchors own) use_crls) (merge_ca anchors own) c p names False
       = Some (Inr left)"
proof (cases n)
  case (Suc m)
  let ?rec = "\<lambda>c'. verify_chain m k own c' (merge_ca anchors own) 0 True {} CRL_SIGNING_USE"
  have "check_extensions c (if usages = [] then all_uses else usages) p = None"
    and r: "rbind (check_revocation k ?rec (merge_ca anchors own) use_crls c) (\<lambda>_. chain_loop n k
      (check_revocation k ?rec (merge_ca anchors own) use_crls) (merge_ca anchors own) c p names False) = Some (Inr left)"
    using assms unfolding Suc verify_chain.simps Let_def
    by (auto simp del: chain_loop.simps split: option.splits)
  moreover have "ct_hash c \<notin> set (k_revoked k)" using r check_revocation_ok unfolding rbind_Inr by blast
  ultimately show thesis using that unfolding rbind_Inr by blast
qed (use assms in simp)

lemma verify_chain_mono:
  assumes "verify_chain n k own c anchors p use_crls M usages = Some (Inr left)" and "N \<subseteq> M"
  shows "\<exists>left'. verify_chain n k own c anchors p use_crls N usages = Some (Inr left') \<and> left' \<subseteq> left"
proof (cases n)
  case (Suc m)
  let ?rvk = "check_revocation k (\<lambda>c'. verify_chain m k own c' (merge_ca anchors own) 0 True {} CRL_SIGNING_USE)
    (merge_ca anchors own) use_crls"
  have eq: "verify_chain n k own c anchors p use_crls X usages =
      (case check_extensions c (if usages = [] then all_uses else usages) p of
         Some e \<Rightarrow> Some (Inl e)
       | None \<Rightarrow> rbind (?rvk c) (\<lambda>_. chain_loop n k ?rvk (merge_ca anchors own) c p X False))" for X
    unfolding Suc verify_chain.simps Let_def ..
  then have ext: "check_extensions c (if usages = [] then all_uses else usages) p = None"
    and "\<exists>u. ?rvk c = Some (Inr u)"
    and loop: "chain_loop n k ?rvk (merge_ca anchors own) c p M False = Some (Inr left)"
    using assms(1) by (auto simp: rbind_Inr split: option.splits)
  then obtain u where u: "?rvk c = Some (Inr u)" by blast
  show ?thesis using chain_loop_mono [OF loop assms(2)] unfolding eq ext u by (simp add: rbind_def)
qed (use assms in simp)

text \<open>Who may sign for the publisher after its own CA certificates are merged.\<close>

lemma merge_ca_get:
  "dict_ok own \<Longrightarrow> dget (merge_ca ca own) h =
     (case dget own h of None \<Rightarrow> dget ca h
      | Some v \<Rightarrow> Some (case dget ca h of None \<Rightarrow> v | Some l \<Rightarrow> l @ v))"
proof (induction own arbitrary: ca)
  case (Cons x own)
  obtain h' v where x: "x = (h', v)" by fastforce
  have d: "dict_ok own" "dget own h' = None"
    using Cons.prems by (auto simp: x dict_ok_def dget_def map_of_eq_None_iff)
  have "merge_ca ca (x # own) = merge_ca (dput h' (case dget ca h' of None \<Rightarrow> v | Some l \<Rightarrow> l @ v) ca) own"
    by (simp add: merge_ca_def x)
  then show ?case using Cons.IH [OF d(1)] d(2)
    by (auto simp: x pydict.get_put dget_def split: option.splits)
qed (simp add: merge_ca_def dget_def)
lemma verify_chain_ends:
  assumes "paths_within k N"
  shows "verify_chain (N + 2) k own c anchors 0 False names usages \<noteq> None"
proof -
  let ?ca = "merge_ca anchors own"
  have "chain_loop (Suc (Suc N)) k (check_revocation k rec ?ca False) ?ca c 0 names False \<noteq> None"
    for rec :: "cert \<Rightarrow> string set run"
    by (rule chain_loop_runs [OF assms check_revocation_runs]) simp_all
  then have "rbind (check_revocation k rec ?ca False c)
      (\<lambda>_. chain_loop (Suc (Suc N)) k (check_revocation k rec ?ca False) ?ca c 0 names False) \<noteq> None"
    for rec :: "cert \<Rightarrow> string set run"
    unfolding rbind_None using check_revocation_runs by blast
  then show ?thesis unfolding add_2_eq_Suc' verify_chain.simps Let_def by (simp only: split: option.split) simp
qed

lemma anchors_after_get:
  "dget (anchors_after anchors own) h =
     (case dget anchors h of None \<Rightarrow> None | Some l \<Rightarrow> Some (case dget own h of None \<Rightarrow> l | Some v \<Rightarrow> l @ v))"
  by (induction anchors) (auto simp: anchors_after_def dget_def split: option.splits)

section \<open>Properties\<close>

text \<open>
  C2. A signing certificate that \<open>verify_chain\<close> accepts allows the requested use, has not been revoked by
  the user, and starts a chain of certificates, each signed by the next, in which every issuer is
  a CA with supported extensions, a sufficient path length and no revocation, and one of which is
  signed by a trust anchor of the image or of the publisher; a required name is struck off only if
  a certificate of the chain or such an anchor carries it.
\<close>

lemma chain_verification_sound:
  assumes "verify_chain n k own c anchors p use_crls names usages = Some (Inr left)"
  shows "check_extensions c (if usages = [] then all_uses else usages) p = None
    \<and> ct_hash c \<notin> set (k_revoked k)
    \<and> (\<exists>chain. hd chain = c \<and> chain_ok k p chain \<and> anchors_of k (merge_ca anchors own) chain \<noteq> {}
        \<and> left \<subseteq> names \<and> names - left \<subseteq> names_seen k (merge_ca anchors own) chain)"
  using assms
proof (rule verify_chain_cases)
  fix rec :: "cert \<Rightarrow> string set run"
  let ?rvk = "check_revocation k rec (merge_ca anchors own) use_crls"
  assume "check_extensions c (if usages = [] then all_uses else usages) p = None" "ct_hash c \<notin> set (k_revoked k)"
    and loop: "chain_loop n k ?rvk (merge_ca anchors own) c p names False = Some (Inr left)"
  moreover have "\<exists>chain. hd chain = c \<and> chain_ok k p chain \<and> (False \<or> anchors_of k (merge_ca anchors own) chain \<noteq> {})
      \<and> left \<subseteq> names \<and> names - left \<subseteq> names_seen k (merge_ca anchors own) chain"
    by (rule chain_loop_sound [OF loop]) (rule check_revocation_ok)
  ultimately show ?thesis by simp
qed

text \<open>A leaf, an intermediate certificate and a root.\<close>

definition sample_cert :: "string \<Rightarrow> string \<Rightarrow> bool \<Rightarrow> cert" where
  "sample_cert subject issuer ca =
     \<lparr>ct_hash = subject, ct_subject = subject, ct_issuer = issuer, ct_cns = [subject], ct_serial = 1,
      ct_exts = Some [BasicConstraints ca (if ca then Some 1 else None) True,
        KeyUsage [if ca then ''key_cert_sign'' else ''digital_signature''] True],
      ct_dps = None\<rparr>"

definition sample_pki :: pki where
  "sample_pki =
     \<lparr>k_sha1 = (\<lambda>n. n), k_signed = (\<lambda>c d. ct_issuer c = ct_subject d), k_crl_signed = (\<lambda>l c. False),
      k_get_crl = (\<lambda>u m. None),
      k_by_name = (\<lambda>n. if n = ''I'' then Inr [Some (sample_cert ''I'' ''R'' True)] else Inr []),
      k_revoked = []\<rparr>"

lemma sample_verified:
  "verify_chain 5 sample_pki [] (sample_cert ''L'' ''I'' False) [(''R'', [sample_cert ''R'' ''R'' True])] 0 False
     {''R''} CODE_SIGNING_USE = Some (Inr {})"
  by code_simp

lemma chain_verification_sound_witness:
  "\<exists>chain. hd chain = sample_cert ''L'' ''I'' False \<and> chain_ok sample_pki 0 chain
     \<and> ''R'' \<in> names_seen sample_pki (merge_ca [(''R'', [sample_cert ''R'' ''R'' True])] []) chain"
  using chain_verification_sound [OF sample_verified] by blast

text \<open>
  C22. Without revocation lists the verification of a certificate ends when every stored CA certificate
  limits its path length: with a limit of N, N + 2 rounds are enough.  Without such a limit it need
  not end: two stored CA certificates that name each other as issuer make the loop go round for
  ever, so no amount of fuel gives a result.
\<close>

lemma chain_verification_ends:
  "(paths_within k N \<longrightarrow> (\<exists>r. verify_chain (N + 2) k own c anchors 0 False names usages = Some r))
   \<and> verify_chain n cross_pki [] (cross_cert ''A'' ''B'') [] 0 False names' CODE_SIGNING_USE = None"
proof
  show "paths_within k N \<longrightarrow> (\<exists>r. verify_chain (N + 2) k own c anchors 0 False names usages = Some r)"
    using verify_chain_ends by blast
  show "verify_chain n cross_pki [] (cross_cert ''A'' ''B'') [] 0 False names' CODE_SIGNING_USE = None"
  proof (cases n)
    case (Suc m)
    have "(if CODE_SIGNING_USE = [] then all_uses else CODE_SIGNING_USE) = CODE_SIGNING_USE" "merge_ca [] [] = []"
      "check_revocation cross_pki rec [] False (cross_cert ''A'' ''B'') = Some (Inr ())"
      for rec :: "cert \<Rightarrow> string set run"
      by (simp_all add: CODE_SIGNING_USE_def merge_ca_def check_revocation_def cross_pki_def)
    note eqs = this
    have "chain_loop (Suc m) cross_pki (check_revocation cross_pki rec [] False) [] (cross_cert ''A'' ''B'') 0 names' False
        = None" for rec :: "cert \<Rightarrow> string set run"
      by (rule cross_loop) simp
    then show ?thesis
      unfolding Suc verify_chain.simps Let_def eqs cross_check option.case rbind_None by blast
  qed simp
qed

lemma chain_verification_ends_witness:
  "\<exists>r. verify_chain 3 sample_pki [] (sample_cert ''L'' ''X'' False) [] 0 False {} CODE_SIGNING_USE = Some r"
proof -
  have "paths_within sample_pki 1"
    by (auto simp: paths_within_def sample_pki_def sample_cert_def check_extensions_def split: if_splits)
  then show ?thesis
    using chain_verification_ends [of sample_pki 1 "[]" "sample_cert ''L'' ''X'' False" "[]" "{}" CODE_SIGNING_USE 0 "{}"]
    by (simp add: numeral_eq_Suc)
qed

text \<open>
  The verification for one publisher changes the trust anchors of the image: under the name of
  an image's anchor they hold, from then on, also the CA certificates the user approved for that
  publisher only, and every other publisher is verified against them.
\<close>

lemma trust_anchors_leak:
  assumes "dict_ok own" and "dget anchors (k_sha1 k name) \<noteq> None"
  shows "trusted k (merge_ca (anchors_after anchors own) []) name = trusted k (merge_ca anchors own) name"
  using merge_ca_get [OF assms(1), of anchors "k_sha1 k name"] assms(2)
  by (auto simp: trusted_def anchors_after_get merge_ca_def split: option.split)

text \<open>
  Another key under the name of the image's anchor: a certificate it signs is rejected for a
  publisher without CA certificates, and accepted once the first publisher has been verified.
\<close>

definition leak_pki :: pki where
  "leak_pki = sample_pki\<lparr>k_signed := (\<lambda>c d. ct_issuer c = ct_subject d \<and> ct_serial d = 2),
     k_by_name := (\<lambda>n. Inr [])\<rparr>"

lemma trust_anchors_leak_witness:
  "let anchor = sample_cert ''R'' ''R'' True; own = [(''R'', [anchor\<lparr>ct_serial := 2\<rparr>])]; leaf = sample_cert ''L'' ''R'' False;
       verify = (\<lambda>anchors. verify_chain 3 leak_pki [] leaf anchors 0 False {} CODE_SIGNING_USE)
   in trusted leak_pki (merge_ca (anchors_after [(''R'', [anchor])] own) []) ''R'' = [anchor, anchor\<lparr>ct_serial := 2\<rparr>]
      \<and> verify [(''R'', [anchor])] = Some (Inl BrokenChain)
      \<and> verify (anchors_after [(''R'', [anchor])] own) = Some (Inr {})"
proof -
  define anchor where "anchor = sample_cert ''R'' ''R'' True"
  have "dict_ok [(''R'', [anchor\<lparr>ct_serial := 2\<rparr>])]" "dget [(''R'', [anchor])] (k_sha1 leak_pki ''R'') \<noteq> None"
    by (simp_all add: dict_ok_def dget_def leak_pki_def sample_pki_def)
  from trust_anchors_leak [OF this]
  have "trusted leak_pki (merge_ca (anchors_after [(''R'', [anchor])] [(''R'', [anchor\<lparr>ct_serial := 2\<rparr>])]) []) ''R''
      = [anchor, anchor\<lparr>ct_serial := 2\<rparr>]"
    by (simp add: trusted_def merge_ca_def dget_def dput_def leak_pki_def sample_pki_def)
  moreover have "verify_chain 3 leak_pki [] (sample_cert ''L'' ''R'' False) [(''R'', [sample_cert ''R'' ''R'' True])] 0
      False {} CODE_SIGNING_USE = Some (Inl BrokenChain)
    \<and> verify_chain 3 leak_pki [] (sample_cert ''L'' ''R'' False) (anchors_after [(''R'', [sample_cert ''R'' ''R'' True])]
        [(''R'', [(sample_cert ''R'' ''R'' True)\<lparr>ct_serial := 2\<rparr>])]) 0 False {} CODE_SIGNING_USE = Some (Inr {})"
    by code_simp
  ultimately show ?thesis unfolding Let_def anchor_def by blast
qed

end
