(* ===== verification/Pkg_SigPolicy.thy ===== *)
theory Pkg_SigPolicy
  imports Pkg_ActionParse Pkg_CertChain "HOL-Library.Multiset"
begin

text \<open>
  The signatures of a package: \<open>verify_sig\<close> and what it signs (\<open>src/src/modules/actions/signature.py\<close>,
  with \<open>sig_str\<close> of the other actions) and the signature policies of
  \<open>src/src/modules/client/sigpolicy.py\<close>.  The digests, keys and the retrieval of certificates are
  parameters, a record of type \<open>signing\<close>; a run that takes more fuel than given is \<open>None\<close>.  What is
  signed at publication, when a signature carries data and the files of its chain, is left out.
\<close>

section \<open>The text that is signed\<close>

text \<open>Two values that differ at most in the order of a list.\<close>

fun same_values :: "avalue \<Rightarrow> avalue \<Rightarrow> bool" where
  "same_values (AStr s) (AStr t) \<longleftrightarrow> s = t"
| "same_values (AList l) (AList l') \<longleftrightarrow> mset l = mset l'"
| "same_values _ _ \<longleftrightarrow> False"

lemma sort_mset: "mset xs = mset ys \<Longrightarrow> sort xs = (sort ys :: string list)"
  by (metis mset_sort properties_for_sort sorted_sort)

lemma sig_attr_text_same: "same_values v w \<Longrightarrow> sig_attr_text (k, v) = sig_attr_text (k, w)"
  by (cases v; cases w) (auto simp: sig_attr_text_def dest: sort_mset)

lemma smap_cong: "(\<And>x. x \<in> set xs \<Longrightarrow> f x = g x) \<Longrightarrow> smap f xs = smap g xs"
  by (induction xs) simp_all

lemma smap_map: "smap f (map g xs) = smap (f \<circ> g) xs"
  by (induction xs) simp_all

lemma sig_str_text:
  "map_sum id fst (sig_str a ver) =
     (if ver \<noteq> sig_version then Inl UnsupportedSignatureVersion
      else sbind (smap (\<lambda>k. sig_attr_text (k, the (dget (a_attrs a) k))) (sort (dkeys (a_attrs a)))) (\<lambda>ts.
        Inr (a_name a @ (case a_hash a of None \<Rightarrow> [] | Some h \<Rightarrow> CHR '' '' # h) @ concat ts)))"
  by (cases "smap (\<lambda>k. sig_attr_text (k, the (dget (a_attrs a) k))) (sort (dkeys (a_attrs a)))")
    (simp_all add: sig_str_def smap_map comp_def)

text \<open>
  C21. The text of an action that is signed does not depend on the order in which its attributes were
  given, nor on the order of the values of an attribute.  It is not stable, though: for a mode with
  Python's octal prefix it has the literal as it is and then rewrites the mode of the action, so a
  second call gives another text.
\<close>

lemma signed_text_canonical:
  assumes "a_name a = a_name b" "a_hash a = a_hash b" "dict_ok (a_attrs a)" "dict_ok (a_attrs b)"
    and "\<And>k. rel_option same_values (dget (a_attrs a) k) (dget (a_attrs b) k)"
  shows "map_sum id fst (sig_str a ver) = map_sum id fst (sig_str b ver)
    \<and> (let c = \<lparr>a_name = ''dir'', a_hash = None, a_attrs = [(''mode'', AStr ''0o755'')]\<rparr>;
           twice = sbind (sig_str c 0) (\<lambda>(s, c'). sbind (sig_str c' 0) (\<lambda>(t, c''). Inr (s, t)))
       in twice = Inr (''dir mode=0o755'', ''dir mode=0755''))"
proof
  have keys: "set (dkeys (a_attrs a)) = set (dkeys (a_attrs b))"
  proof -
    have "dget (a_attrs a) k = None \<longleftrightarrow> dget (a_attrs b) k = None" for k
      using assms(5) [of k] by (cases "dget (a_attrs a) k"; cases "dget (a_attrs b) k") auto
    note iff = this
    show ?thesis unfolding pydict.keys_get dom_def by (simp only: iff)
  qed
  then have "sort (dkeys (a_attrs a)) = sort (dkeys (a_attrs b))"
    using assms(3,4) by (intro sorted_distinct_set_unique) (simp_all add: pydict.ok_keys)
  moreover have "sig_attr_text (k, the (dget (a_attrs a) k)) = sig_attr_text (k, the (dget (a_attrs b) k))"
    if "k \<in> set (sort (dkeys (a_attrs b)))" for k
  proof -
    have "dget (a_attrs b) k \<noteq> None" using that by (auto simp: pydict.keys_get)
    then obtain v w where "dget (a_attrs a) k = Some v" "dget (a_attrs b) k = Some w" "same_values v w"
      using assms(5) [of k] by (cases "dget (a_attrs a) k") auto
    then show ?thesis using sig_attr_text_same by simp
  qed
  ultimately have "smap (\<lambda>k. sig_attr_text (k, the (dget (a_attrs a) k))) (sort (dkeys (a_attrs a))) =
      smap (\<lambda>k. sig_attr_text (k, the (dget (a_attrs b) k))) (sort (dkeys (a_attrs b)))"
    by (metis (mono_tags, lifting) smap_cong)
  then show "map_sum id fst (sig_str a ver) = map_sum id fst (sig_str b ver)"
    unfolding sig_str_text assms(1,2) by (simp only:)
  show "let c = \<lparr>a_name = ''dir'', a_hash = None, a_attrs = [(''mode'', AStr ''0o755'')]\<rparr>;
           twice = sbind (sig_str c 0) (\<lambda>(s, c'). sbind (sig_str c' 0) (\<lambda>(t, c''). Inr (s, t)))
       in twice = Inr (''dir mode=0o755'', ''dir mode=0755'')"
    by code_simp
qed

lemma signed_text_canonical_witness:
  "map_sum id fst (sig_str \<lparr>a_name = ''set'', a_hash = None, a_attrs = [(''x'', AList [''b'', ''a'']), (''n'', AStr ''m'')]\<rparr> 0) =
   map_sum id fst (sig_str \<lparr>a_name = ''set'', a_hash = None, a_attrs = [(''n'', AStr ''m''), (''x'', AList [''a'', ''b''])]\<rparr> 0)"
  by (rule signed_text_canonical [THEN conjunct1]) (auto simp: dict_ok_def dget_def)
section \<open>Signature actions\<close>

text \<open>
  What the signature of a package is checked with: the digests, the publisher's certificates and
  trust anchors, and the libraries for keys and hexadecimal text.
\<close>

datatype pol_exn =
    PolChain chain_exn
  | PolSig sig_exn
  | UnverifiedSignature
  | RequiredSignaturePolicyException
  | MissingRequiredNamesException "string set"

record signing =
  y_pki :: pki
  y_own :: "cert list dict"
  y_digest :: "string \<Rightarrow> string \<Rightarrow> string"
  y_unhex :: "string \<Rightarrow> string"
  y_cert :: "action \<Rightarrow> pol_exn + cert"
  y_retrieve :: "action \<Rightarrow> pol_exn + unit"
  y_key_verify :: "cert \<Rightarrow> string \<Rightarrow> string \<Rightarrow> string \<Rightarrow> bool"

definition valid_hash_algs :: "string list" where
  "valid_hash_algs = [''sha256'', ''sha384'', ''sha512'']"

definition valid_sig_algs :: "string list" where
  "valid_sig_algs = [''rsa'']"

definition decompose_sig_alg :: "string \<Rightarrow> string option \<times> string option" where
  "decompose_sig_alg val =
     (case find (\<lambda>(s, h). val = s @ CHR ''-'' # h) (List.product valid_sig_algs valid_hash_algs) of
        Some (s, h) \<Rightarrow> (Some s, Some h)
      | None \<Rightarrow> (case find (\<lambda>h. h = val) valid_hash_algs of Some h \<Rightarrow> (None, Some h) | None \<Rightarrow> (None, None)))"

text \<open>The algorithms of an action; a list of them matches none.\<close>

definition sig_algs :: "action \<Rightarrow> string option \<times> string option" where
  "sig_algs s = (case dget (a_attrs s) ''algorithm'' of Some (AStr val) \<Rightarrow> decompose_sig_alg val | _ \<Rightarrow> (None, None))"

definition has_variant :: "action \<Rightarrow> bool" where
  "has_variant s \<longleftrightarrow> list_ex (\<lambda>k. starts_with k ''variant.'') (dkeys (a_attrs s))"

definition is_signed :: "action \<Rightarrow> bool" where
  "is_signed s \<longleftrightarrow> a_hash s \<noteq> None \<and> \<not> has_variant s"

text \<open>
  \<open>SignatureAction.sig_str\<close> of an installed action: other signatures are left out, its own value is
  empty.
\<close>

definition signed_text :: "action \<Rightarrow> int \<Rightarrow> action \<Rightarrow> sig_exn + string option" where
  "signed_text signer ver b =
     (if a_name b \<noteq> ''signature'' then sbind (sig_str b ver) (\<lambda>(t, b'). Inr (Some t))
      else if ver \<noteq> sig_version then Inl UnsupportedSignatureVersion
      else if fst (action_str signer) \<noteq> fst (action_str b) then Inr None
      else sbind (sig_str (b\<lparr>a_attrs := dput ''value'' (AStr []) (a_attrs b)\<rparr>) ver) (\<lambda>(t, b'). Inr (Some t)))"

definition actions_to_str :: "action \<Rightarrow> action list \<Rightarrow> int \<Rightarrow> sig_exn + string" where
  "actions_to_str signer acts ver =
     sbind (smap (signed_text signer ver) acts) (\<lambda>ts.
       Inr (join_with CHR 0x0A (sort (map the (filter (\<lambda>t. t \<noteq> None) ts)))))"

type_synonym 'a pol = "(pol_exn + 'a) option"

definition pbind :: "'a pol \<Rightarrow> ('a \<Rightarrow> 'b pol) \<Rightarrow> 'b pol" where
  "pbind r f = (case r of None \<Rightarrow> None | Some (Inl e) \<Rightarrow> Some (Inl e) | Some (Inr x) \<Rightarrow> f x)"

definition lift_sig :: "sig_exn + 'a \<Rightarrow> 'a pol" where
  "lift_sig r = (case r of Inl e \<Rightarrow> Some (Inl (PolSig e)) | Inr x \<Rightarrow> Some (Inr x))"

definition attr_int :: "action \<Rightarrow> string \<Rightarrow> sig_exn + int" where
  "attr_int s k =
     (case dget (a_attrs s) k of
        None \<Rightarrow> Inl (SigPy (KeyError k))
      | Some (AList l) \<Rightarrow> Inl (SigPy TypeError)
      | Some (AStr v) \<Rightarrow> (case py_int v of None \<Rightarrow> Inl (SigPy ValueError) | Some i \<Rightarrow> Inr i))"

definition attr_str :: "action \<Rightarrow> string \<Rightarrow> sig_exn + string" where
  "attr_str s k =
     (case dget (a_attrs s) k of
        None \<Rightarrow> Inl (SigPy (KeyError k))
      | Some (AList l) \<Rightarrow> Inl (SigPy TypeError)
      | Some (AStr v) \<Rightarrow> Inr v)"

text \<open>
  \<open>verify_sig\<close>: whether the signature was understood and verified, and the names that are still
  required.
\<close>

definition verify_sig ::
  "nat \<Rightarrow> signing \<Rightarrow> action \<Rightarrow> action list \<Rightarrow> cert list dict \<Rightarrow> bool \<Rightarrow> string set \<Rightarrow> (bool \<times> string set) pol" where
  "verify_sig n y s acts anchors use_crls names =
     pbind (lift_sig (attr_int s ''version'')) (\<lambda>ver.
       case sig_algs s of (sig_alg, hash_alg) \<Rightarrow>
       if has_variant s \<or> ver > sig_version \<or> hash_alg = None then Some (Inr (False, names))
       else
         (case a_hash s of
            None \<Rightarrow>
              if sig_alg \<noteq> None then Some (Inl (PolSig (SigPy AssertionError)))
              else pbind (lift_sig (actions_to_str s acts ver)) (\<lambda>t.
                   pbind (lift_sig (attr_str s ''value'')) (\<lambda>v.
                     if y_unhex y v \<noteq> y_digest y (the hash_alg) t then Some (Inl UnverifiedSignature)
                     else Some (Inr (True, names))))
          | Some h \<Rightarrow>
              if sig_alg = None then Some (Inr (False, names))
              else
                (case y_cert y s of Inl e \<Rightarrow> Some (Inl e) | Inr c \<Rightarrow>
                (case y_retrieve y s of Inl e \<Rightarrow> Some (Inl e) | Inr u \<Rightarrow>
                (case verify_chain n (y_pki y) (y_own y) c anchors 0 use_crls names CODE_SIGNING_USE of
                   None \<Rightarrow> None
                 | Some (Inl e) \<Rightarrow> Some (Inl (PolChain e))
                 | Some (Inr names') \<Rightarrow>
                     pbind (lift_sig (attr_str s ''value'')) (\<lambda>v.
                     pbind (lift_sig (actions_to_str s acts ver)) (\<lambda>t.
                       if y_key_verify y c (y_unhex y v) t (the hash_alg) then Some (Inr (True, names'))
                       else Some (Inl UnverifiedSignature))))))))"

section \<open>Policies\<close>

datatype policy = Ignore | Verify | RequireSigs | RequireNames "string set"

fun strictness :: "policy \<Rightarrow> nat" where
  "strictness Ignore = 1"
| "strictness Verify = 2"
| "strictness RequireSigs = 3"
| "strictness (RequireNames names) = 4"

fun policy_name :: "policy \<Rightarrow> string" where
  "policy_name Ignore = ''ignore''"
| "policy_name Verify = ''verify''"
| "policy_name RequireSigs = ''require-signatures''"
| "policy_name (RequireNames names) = ''require-names''"

text \<open>\<open>policy_factory\<close>; the names are the arguments of the constructor.\<close>

definition policy_factory :: "string \<Rightarrow> string list \<Rightarrow> py_exn + policy" where
  "policy_factory name req_names =
     (if name = ''ignore'' then Inr Ignore
      else if name = ''verify'' then Inr Verify
      else if name = ''require-signatures'' then Inr RequireSigs
      else if name = ''require-names''
      then if req_names = [] then Inl AssertionError else Inr (RequireNames (set req_names))
      else Inl AssertionError)"

text \<open>\<open>combine\<close>: of equal policies the base class takes the other one.\<close>

fun combine :: "policy \<Rightarrow> policy \<Rightarrow> policy" where
  "combine (RequireNames ns) (RequireNames ms) = RequireNames (ns \<union> ms)"
| "combine p q = (if strictness p > strictness q then p else q)"

fun retrieve_all :: "signing \<Rightarrow> action list \<Rightarrow> unit pol" where
  "retrieve_all y [] = Some (Inr ())"
| "retrieve_all y (s # sigs) =
     (case y_retrieve y s of Inl e \<Rightarrow> Some (Inl e) | Inr u \<Rightarrow> retrieve_all y sigs)"

text \<open>The loop over the signatures: whether one with a key was verified, and the missing names.\<close>

fun verify_all ::
  "nat \<Rightarrow> signing \<Rightarrow> action list \<Rightarrow> cert list dict \<Rightarrow> bool \<Rightarrow> action list \<Rightarrow> bool \<Rightarrow> string set
     \<Rightarrow> (bool \<times> string set) pol" where
  "verify_all n y acts anchors use_crls [] verified names = Some (Inr (verified, names))"
| "verify_all n y acts anchors use_crls (s # sigs) verified names =
     pbind (verify_sig n y s acts anchors use_crls names) (\<lambda>(ok, names').
       verify_all n y acts anchors use_crls sigs (verified \<or> ok \<and> is_signed s) names')"

text \<open>The loop of the policies without names, where each signature gets an empty set.\<close>

fun verify_each ::
  "nat \<Rightarrow> signing \<Rightarrow> action list \<Rightarrow> cert list dict \<Rightarrow> bool \<Rightarrow> action list \<Rightarrow> bool \<Rightarrow> bool pol" where
  "verify_each n y acts anchors use_crls [] verified = Some (Inr verified)"
| "verify_each n y acts anchors use_crls (s # sigs) verified =
     pbind (verify_sig n y s acts anchors use_crls {}) (\<lambda>(ok, names').
       verify_each n y acts anchors use_crls sigs (verified \<or> ok \<and> is_signed s))"

fun process_signatures ::
  "nat \<Rightarrow> signing \<Rightarrow> action list \<Rightarrow> cert list dict \<Rightarrow> bool \<Rightarrow> action list \<Rightarrow> policy \<Rightarrow> unit pol" where
  "process_signatures n y acts anchors use_crls sigs Ignore = retrieve_all y sigs"
| "process_signatures n y acts anchors use_crls sigs Verify =
     pbind (verify_each n y acts anchors use_crls sigs False) (\<lambda>_. Some (Inr ()))"
| "process_signatures n y acts anchors use_crls sigs RequireSigs =
     pbind (verify_each n y acts anchors use_crls sigs False) (\<lambda>verified.
       if verified then Some (Inr ()) else Some (Inl RequiredSignaturePolicyException))"
| "process_signatures n y acts anchors use_crls sigs (RequireNames names) =
     pbind (verify_all n y acts anchors use_crls sigs False names) (\<lambda>(verified, missing).
       if missing \<noteq> {} then Some (Inl (MissingRequiredNamesException missing)) else Some (Inr ()))"
section \<open>Fewer required names\<close>

lemma pbind_Inr: "pbind r f = Some (Inr y) \<longleftrightarrow> (\<exists>x. r = Some (Inr x) \<and> f x = Some (Inr y))"
  by (auto simp: pbind_def split: option.splits sum.splits)

text \<open>The two ways in which a signature is accepted.\<close>

lemma verify_sig_cases:
  assumes "verify_sig n y s acts anchors use_crls M = Some (Inr (ok, left))"
  obtains "\<And>N. verify_sig n y s acts anchors use_crls N = Some (Inr (ok, N))" "left = M"
  | c where "ok" "is_signed s"
      "verify_chain n (y_pki y) (y_own y) c anchors 0 use_crls M CODE_SIGNING_USE = Some (Inr left)"
      "\<And>N left'. verify_chain n (y_pki y) (y_own y) c anchors 0 use_crls N CODE_SIGNING_USE = Some (Inr left')
         \<Longrightarrow> verify_sig n y s acts anchors use_crls N = Some (Inr (ok, left'))"
proof -
  obtain ver where ver: "lift_sig (attr_int s ''version'') = Some (Inr ver)"
    using assms by (auto simp: verify_sig_def pbind_Inr)
  obtain sig_alg hash_alg where algs: "sig_algs s = (sig_alg, hash_alg)" by fastforce
  note eq = verify_sig_def [of n y s acts anchors use_crls, unfolded ver algs prod.case]
  have p: "pbind (Some (Inr x)) f = f x" for x :: int and f :: "int \<Rightarrow> (bool \<times> string set) pol"
    by (simp add: pbind_def)
  show thesis
  proof (cases "has_variant s \<or> ver > sig_version \<or> hash_alg = None")
    case True
    then show ?thesis using assms that(1) unfolding eq p by simp
  next
    case known: False
    show ?thesis
    proof (cases "a_hash s")
      case None
      have "verify_sig n y s acts anchors use_crls N = Some (Inr (ok, N)) \<and> left = M" for N
        using assms known None unfolding eq p by (auto simp: pbind_Inr split: if_splits)
      then show ?thesis using that(1) by blast
    next
      case (Some h)
      show ?thesis
      proof (cases "sig_alg = None")
        case True
        then show ?thesis using assms that(1) known Some unfolding eq p by simp
      next
        case False
        have signed: "is_signed s" using Some known by (simp add: is_signed_def)
        obtain c u where c: "y_cert y s = Inr c" "y_retrieve y s = Inr u"
          using assms known Some False unfolding eq p by (auto split: sum.splits)
        define finish where "finish = (\<lambda>names' :: string set.
          pbind (lift_sig (attr_str s ''value'')) (\<lambda>v.
          pbind (lift_sig (actions_to_str s acts ver)) (\<lambda>t.
            if y_key_verify y c (y_unhex y v) t (the hash_alg) then Some (Inr (True, names'))
            else Some (Inl UnverifiedSignature))))"
        have no_case: "(has_variant s \<or> ver > sig_version \<or> hash_alg = None) = False"
          and no_alg: "(sig_alg = None) = False" using known False by blast+
        have step: "verify_sig n y s acts anchors use_crls N =
            (case verify_chain n (y_pki y) (y_own y) c anchors 0 use_crls N CODE_SIGNING_USE of
               None \<Rightarrow> None | Some (Inl e) \<Rightarrow> Some (Inl (PolChain e)) | Some (Inr names') \<Rightarrow> finish names')" for N
          unfolding eq p no_case no_alg if_False Some option.case c sum.case finish_def ..
        obtain names' where ch: "verify_chain n (y_pki y) (y_own y) c anchors 0 use_crls M CODE_SIGNING_USE = Some (Inr names')"
          and fin: "finish names' = Some (Inr (ok, left))"
          using assms unfolding step by (auto split: option.splits sum.splits)
        have "finish X = Some (Inr (True, X)) \<and> ok \<and> left = names'" for X
          using fin by (auto simp: finish_def pbind_Inr split: if_splits)
        then show ?thesis using that(2) [of c] signed ch step by simp
      qed
    qed
  qed
qed

lemma verify_sig_mono:
  assumes "verify_sig n y s acts anchors use_crls M = Some (Inr (ok, left))" and "N \<subseteq> M"
  shows "\<exists>left'. verify_sig n y s acts anchors use_crls N = Some (Inr (ok, left')) \<and> left' \<subseteq> left"
  using assms(1)
proof (cases rule: verify_sig_cases)
  case 1
  then show ?thesis using assms(2) by blast
next
  case (2 c)
  then show ?thesis using verify_chain_mono [OF 2(3) assms(2)] by blast
qed

lemma verify_sig_names:
  assumes "verify_sig n y s acts anchors use_crls M = Some (Inr (ok, left))"
  shows "left = M \<or> ok \<and> is_signed s"
  using assms by (cases rule: verify_sig_cases) auto

lemma verify_all_mono:
  "\<lbrakk>verify_all n y acts anchors use_crls sigs v M = Some (Inr (v', left)); N \<subseteq> M\<rbrakk> \<Longrightarrow>
     \<exists>left'. verify_all n y acts anchors use_crls sigs v N = Some (Inr (v', left')) \<and> left' \<subseteq> left"
proof (induction sigs arbitrary: v M N)
  case (Cons s sigs)
  obtain ok L where s: "verify_sig n y s acts anchors use_crls M = Some (Inr (ok, L))"
    and r: "verify_all n y acts anchors use_crls sigs (v \<or> ok \<and> is_signed s) L = Some (Inr (v', left))"
    using Cons.prems(1) by (auto simp: pbind_Inr)
  obtain L' where "verify_sig n y s acts anchors use_crls N = Some (Inr (ok, L'))" "L' \<subseteq> L"
    using verify_sig_mono [OF s Cons.prems(2)] by blast
  then show ?case using Cons.IH [OF r] by (simp add: pbind_def)
qed auto

lemma verify_all_each:
  "verify_all n y acts anchors use_crls sigs v M = Some (Inr (v', left)) \<Longrightarrow>
     verify_each n y acts anchors use_crls sigs v = Some (Inr v')"
proof (induction sigs arbitrary: v M)
  case (Cons s sigs)
  obtain ok L where s: "verify_sig n y s acts anchors use_crls M = Some (Inr (ok, L))"
    and r: "verify_all n y acts anchors use_crls sigs (v \<or> ok \<and> is_signed s) L = Some (Inr (v', left))"
    using Cons.prems by (auto simp: pbind_Inr)
  obtain L' where "verify_sig n y s acts anchors use_crls {} = Some (Inr (ok, L'))"
    using verify_sig_mono [OF s, of "{}"] by blast
  then show ?case using Cons.IH [OF r] by (simp add: pbind_def)
qed auto

lemma verify_all_verified:
  "verify_all n y acts anchors use_crls sigs v M = Some (Inr (v', left)) \<Longrightarrow> v \<or> left \<noteq> M \<Longrightarrow> v'"
proof (induction sigs arbitrary: v M)
  case (Cons s sigs)
  obtain ok L where s: "verify_sig n y s acts anchors use_crls M = Some (Inr (ok, L))"
    and r: "verify_all n y acts anchors use_crls sigs (v \<or> ok \<and> is_signed s) L = Some (Inr (v', left))"
    using Cons.prems(1) by (auto simp: pbind_Inr)
  have "(v \<or> ok \<and> is_signed s) \<or> left \<noteq> L" using verify_sig_names [OF s] Cons.prems(2) by auto
  then show ?case by (rule Cons.IH [OF r])
qed auto
section \<open>Combining policies\<close>

text \<open>Policies with their names form a bounded semilattice under \<open>combine\<close>.\<close>

interpretation policies: semilattice_neutr combine Ignore
proof
  fix p q r :: policy
  show "combine (combine p q) r = combine p (combine q r)"
    by (cases p; cases q; cases r) (simp_all add: Un_assoc)
  show "combine p q = combine q p" by (cases p; cases q) (simp_all add: Un_commute)
  show "combine p p = p" by (cases p) simp_all
  show "combine p Ignore = p" by (cases p) simp_all
qed

lemma combine_list:
  "fold combine (p # ps) Ignore = combine p (fold combine ps Ignore)"
proof -
  have "fold combine ps (combine q r) = combine q (fold combine ps r)" for q r
  proof (induction ps arbitrary: r)
    case (Cons a ps)
    have "combine a (combine q r) = combine q (combine a r)" by (rule policies.left_commute)
    then show ?case using Cons.IH by simp
  qed simp
  then show ?thesis by (simp only: fold_simps)
qed

lemma combine_member: "p \<in> set ps \<Longrightarrow> combine p (fold combine ps Ignore) = fold combine ps Ignore"
proof (induction ps)
  case (Cons q ps)
  show ?case
  proof (cases "p = q")
    case True
    then show ?thesis by (simp only: combine_list policies.left_idem)
  next
    case False
    then have "combine p (fold combine ps Ignore) = fold combine ps Ignore" using Cons by simp
    then show ?thesis unfolding combine_list by (simp only: policies.left_commute [of p])
  qed
qed simp

lemma combine_least:
  "\<forall>p \<in> set ps. combine p q = q \<Longrightarrow> combine (fold combine ps Ignore) q = q"
proof (induction ps)
  case (Cons p ps)
  then show ?case unfolding combine_list by (simp add: policies.assoc del: combine.simps)
qed (simp only: fold_simps policies.left_neutral)

text \<open>
  The combination of the policies of an image and its publishers depends only on which policies
  there are, not on their order or number; it is at least as strict as each of them, asks for every
  name that one of them asks for, and is the least policy of that kind.
\<close>

lemma combined_policy_is_join:
  "(set ps = set qs \<longrightarrow> fold combine ps Ignore = fold combine qs Ignore)
   \<and> (p \<in> set ps \<longrightarrow> strictness p \<le> strictness (fold combine ps Ignore)
        \<and> (\<forall>ns. p = RequireNames ns \<longrightarrow> (\<exists>ms. ns \<subseteq> ms \<and> fold combine ps Ignore = RequireNames ms)))
   \<and> ((\<forall>p \<in> set ps. combine p q = q) \<longrightarrow> combine (fold combine ps Ignore) q = q)"
proof (intro conjI impI allI)
  assume eq: "set ps = set qs"
  have "combine (fold combine xs Ignore) (fold combine ys Ignore) = fold combine ys Ignore"
    if "set xs \<subseteq> set ys" for xs ys
    using that combine_member by (intro combine_least) blast
  then show "fold combine ps Ignore = fold combine qs Ignore"
    using eq policies.commute by (metis order_refl)
next
  assume "p \<in> set ps"
  then have m: "combine p (fold combine ps Ignore) = fold combine ps Ignore" by (rule combine_member)
  then show "strictness p \<le> strictness (fold combine ps Ignore)"
    by (cases p; cases "fold combine ps Ignore") auto
  show "\<exists>ms. ns \<subseteq> ms \<and> fold combine ps Ignore = RequireNames ms" if "p = RequireNames ns" for ns
    using m that by (cases "fold combine ps Ignore") auto
next
  assume "\<forall>p \<in> set ps. combine p q = q"
  then show "combine (fold combine ps Ignore) q = q" by (rule combine_least)
qed

lemma combined_policy_is_join_witness:
  "fold combine [Verify, RequireNames {''a''}, RequireSigs, RequireNames {''b''}] Ignore
     = fold combine [RequireNames {''b''}, RequireNames {''b''}, Verify, RequireNames {''a''}, RequireSigs] Ignore"
  by (rule combined_policy_is_join [THEN conjunct1, rule_format]) auto

section \<open>Strictness of the checks\<close>

text \<open>What the combination accepts, its first policy accepts.\<close>

lemma combined_policy_first:
  assumes "process_signatures n y acts anchors use_crls sigs (combine p q) = Some (Inr ())"
    and "p \<noteq> Ignore" and "p \<noteq> RequireNames {}" and "q \<noteq> RequireNames {}"
  shows "process_signatures n y acts anchors use_crls sigs p = Some (Inr ())"
proof -
  let ?P = "process_signatures n y acts anchors use_crls sigs"
  have each: "?P Verify = Some (Inr ())" if "?P RequireSigs = Some (Inr ())"
    using that by (auto simp: pbind_def split: option.splits sum.splits)
  have names: "?P RequireSigs = Some (Inr ())" "\<And>N. N \<subseteq> M \<Longrightarrow> ?P (RequireNames N) = Some (Inr ())"
    if acc: "?P (RequireNames M) = Some (Inr ())" and M: "M \<noteq> {}" for M
  proof -
    obtain v where v: "verify_all n y acts anchors use_crls sigs False M = Some (Inr (v, {}))"
      using acc by (auto simp: pbind_Inr split: if_splits)
    then have "v" using verify_all_verified M by blast
    then show "?P RequireSigs = Some (Inr ())" using verify_all_each [OF v] by (simp add: pbind_def)
    show "?P (RequireNames N) = Some (Inr ())" if "N \<subseteq> M" for N
      using verify_all_mono [OF v that] by (auto simp: pbind_def)
  qed
  have "?P Verify = Some (Inr ())" if "?P (RequireNames M) = Some (Inr ())" "M \<noteq> {}" for M
    using names(1) [OF that] each by blast
  note all = names this each
  show ?thesis
  proof (cases p)
    case Ignore
    then show ?thesis using assms(2) by simp
  next
    case Verify
    then show ?thesis using assms all by (cases q) (auto simp del: process_signatures.simps)
  next
    case RequireSigs
    then show ?thesis using assms all by (cases q) (auto simp del: process_signatures.simps)
  next
    case (RequireNames ns)
    show ?thesis
    proof (cases q)
      case q: (RequireNames ms)
      have "?P (RequireNames (ns \<union> ms)) = Some (Inr ())" "ns \<union> ms \<noteq> {}" using assms RequireNames q by auto
      from names(2) [OF this] show ?thesis using RequireNames by simp
    qed (use assms RequireNames in \<open>simp_all del: process_signatures.simps\<close>)
  qed
qed

text \<open>
  C4. Strictness is real: what the combination of two policies accepts, each of the two accepts on
  its own, where no policy that requires names has an empty set of them, and but for a policy that
  ignores signatures, which only retrieves the chains.  In particular a policy of required names
  accepts only if a signature made with a key was verified, although it does not look at the flag
  that records this.
\<close>

lemma combined_policy_accepts:
  assumes "process_signatures n y acts anchors use_crls sigs (combine p q) = Some (Inr ())"
    and "p \<noteq> RequireNames {}" and "q \<noteq> RequireNames {}"
  shows "(p \<noteq> Ignore \<longrightarrow> process_signatures n y acts anchors use_crls sigs p = Some (Inr ()))
    \<and> (q \<noteq> Ignore \<longrightarrow> process_signatures n y acts anchors use_crls sigs q = Some (Inr ()))"
proof (intro conjI impI)
  show "process_signatures n y acts anchors use_crls sigs p = Some (Inr ())" if "p \<noteq> Ignore"
    using combined_policy_first [OF assms(1) that assms(2, 3)] .
  have "process_signatures n y acts anchors use_crls sigs (combine q p) = Some (Inr ())"
    using assms(1) by (simp only: policies.commute)
  then show "process_signatures n y acts anchors use_crls sigs q = Some (Inr ())" if "q \<noteq> Ignore"
    by (rule combined_policy_first) (use that assms(2, 3) in simp_all)
qed

text \<open>A package with one signature made with the key of the sample certificate.\<close>

definition sample_signing :: signing where
  "sample_signing =
     \<lparr>y_pki = sample_pki, y_own = [], y_digest = (\<lambda>alg t. t), y_unhex = (\<lambda>v. v),
      y_cert = (\<lambda>s. Inr (sample_cert ''L'' ''I'' False)), y_retrieve = (\<lambda>s. Inr ()),
      y_key_verify = (\<lambda>c v t alg. v = ''ok'' \<and> t = ''set name=n value=v'')\<rparr>"

definition sample_signature :: action where
  "sample_signature = \<lparr>a_name = ''signature'', a_hash = Some ''h'',
     a_attrs = [(''algorithm'', AStr ''rsa-sha256''), (''value'', AStr ''ok''), (''version'', AStr ''0'')]\<rparr>"

definition sample_manifest :: "action list" where
  "sample_manifest = [\<lparr>a_name = ''set'', a_hash = None, a_attrs = [(''value'', AStr ''v''), (''name'', AStr ''n'')]\<rparr>]"

lemma combined_policy_accepts_witness:
  "process_signatures 5 sample_signing sample_manifest [(''R'', [sample_cert ''R'' ''R'' True])] False
     [sample_signature] RequireSigs = Some (Inr ())
   \<and> process_signatures 5 sample_signing sample_manifest [(''R'', [sample_cert ''R'' ''R'' True])] False
     [sample_signature] (RequireNames {''R'', ''I''}) = Some (Inr ())"
proof -
  have "process_signatures 5 sample_signing sample_manifest [(''R'', [sample_cert ''R'' ''R'' True])] False
     [sample_signature] (combine RequireSigs (RequireNames {''R'', ''I''})) = Some (Inr ())"
    by code_simp
  from combined_policy_accepts [OF this] show ?thesis by (simp del: process_signatures.simps)
qed

end
