(* ===== verification/Pkg_Monad.thy ===== *)
theory Pkg_Monad
  imports Pkg_Prelude
begin

text \<open>
  Code that changes an object and may raise: a computation takes the state and gives a result or
  an exception, with the state at that point; what was done before an exception stays done, as in
  Python.  \<open>keeps\<close> says that an invariant of the state survives a computation however it ends,
  \<open>yields\<close> that a computation that returns establishes a postcondition.
\<close>

type_synonym ('s, 'e, 'a) mrun = "'s \<Rightarrow> ('e + 'a) \<times> 's"

definition mret :: "'a \<Rightarrow> ('s, 'e, 'a) mrun" where
  "mret a = (\<lambda>s. (Inr a, s))"

definition mfail :: "'e \<Rightarrow> ('s, 'e, 'a) mrun" where
  "mfail e = (\<lambda>s. (Inl e, s))"

definition mthen :: "('s, 'e, 'a) mrun \<Rightarrow> ('a \<Rightarrow> ('s, 'e, 'b) mrun) \<Rightarrow> ('s, 'e, 'b) mrun" where
  "mthen m k = (\<lambda>s. case m s of (Inl e, s') \<Rightarrow> (Inl e, s') | (Inr a, s') \<Rightarrow> k a s')"

definition mget :: "('s \<Rightarrow> 'a) \<Rightarrow> ('s, 'e, 'a) mrun" where
  "mget f = (\<lambda>s. (Inr (f s), s))"

definition mmod :: "('s \<Rightarrow> 's) \<Rightarrow> ('s, 'e, unit) mrun" where
  "mmod f = (\<lambda>s. (Inr (), f s))"

definition mlift :: "'e + 'a \<Rightarrow> ('s, 'e, 'a) mrun" where
  "mlift r = (\<lambda>s. (r, s))"

definition mwhen :: "bool \<Rightarrow> ('s, 'e, unit) mrun \<Rightarrow> ('s, 'e, unit) mrun" where
  "mwhen b m = (if b then m else mret ())"

text \<open>\<open>try\<close>: the handler sees the exception and the state it was raised in.\<close>

definition mcatch :: "('s, 'e, 'a) mrun \<Rightarrow> ('e \<Rightarrow> ('s, 'e, 'a) mrun) \<Rightarrow> ('s, 'e, 'a) mrun" where
  "mcatch m h = (\<lambda>s. case m s of (Inl e, s') \<Rightarrow> h e s' | (Inr a, s') \<Rightarrow> (Inr a, s'))"

text \<open>A loop over a list, a comprehension with a condition, and a loop for its effect only.\<close>

fun meach :: "('x \<Rightarrow> ('s, 'e, 'a) mrun) \<Rightarrow> 'x list \<Rightarrow> ('s, 'e, 'a list) mrun" where
  "meach f [] = mret []"
| "meach f (x # xs) = mthen (f x) (\<lambda>y. mthen (meach f xs) (\<lambda>ys. mret (y # ys)))"

fun mfilter :: "('x \<Rightarrow> ('s, 'e, bool) mrun) \<Rightarrow> 'x list \<Rightarrow> ('s, 'e, 'x list) mrun" where
  "mfilter p [] = mret []"
| "mfilter p (x # xs) =
     mthen (p x) (\<lambda>b. mthen (mfilter p xs) (\<lambda>ys. mret (if b then x # ys else ys)))"

fun mloop :: "('x \<Rightarrow> ('s, 'e, unit) mrun) \<Rightarrow> 'x list \<Rightarrow> ('s, 'e, unit) mrun" where
  "mloop f [] = mret ()"
| "mloop f (x # xs) = mthen (f x) (\<lambda>_. mloop f xs)"

section \<open>Invariants and postconditions\<close>

definition keeps :: "('s \<Rightarrow> bool) \<Rightarrow> ('s, 'e, 'a) mrun \<Rightarrow> bool" where
  "keeps I m \<longleftrightarrow> (\<forall>s. I s \<longrightarrow> I (snd (m s)))"

definition yields :: "('s \<Rightarrow> bool) \<Rightarrow> ('s, 'e, 'a) mrun \<Rightarrow> ('a \<Rightarrow> 's \<Rightarrow> bool) \<Rightarrow> bool" where
  "yields P m Q \<longleftrightarrow> (\<forall>s a s'. P s \<longrightarrow> m s = (Inr a, s') \<longrightarrow> Q a s')"

named_theorems keeps_intros \<open>rules that prove that a computation keeps an invariant\<close>
named_theorems run_simps \<open>equations that run a computation\<close>

lemma run_basic [run_simps]:
  "mret a s = (Inr a, s)" "mfail e s = (Inl e, s)" "mget f s = (Inr (f s), s)"
  "mmod g s = (Inr (), g s)" "mlift r s = (r, s)" "mwhen b m s = (if b then m s else (Inr (), s))"
  by (simp_all add: mret_def mfail_def mget_def mmod_def mlift_def mwhen_def)

lemma mthen_Inr [run_simps]:
  "mthen m k s = (Inr b, s') \<longleftrightarrow> (\<exists>a s1. m s = (Inr a, s1) \<and> k a s1 = (Inr b, s'))"
  by (auto simp: mthen_def split: prod.splits sum.splits)

lemma mthen_run: "m s = (Inr a, s1) \<Longrightarrow> mthen m k s = k a s1"
  by (simp add: mthen_def)

lemma mthen_Inl [run_simps]:
  "mthen m k s = (Inl e, s') \<longleftrightarrow>
     m s = (Inl e, s') \<or> (\<exists>a s1. m s = (Inr a, s1) \<and> k a s1 = (Inl e, s'))"
  by (auto simp: mthen_def split: prod.splits sum.splits)

lemma mcatch_Inr [run_simps]:
  "mcatch m h s = (Inr b, s') \<longleftrightarrow>
     m s = (Inr b, s') \<or> (\<exists>e s1. m s = (Inl e, s1) \<and> h e s1 = (Inr b, s'))"
  by (auto simp: mcatch_def split: prod.splits sum.splits)

lemma mcatch_Inl [run_simps]:
  "mcatch m h s = (Inl e', s') \<longleftrightarrow> (\<exists>e s1. m s = (Inl e, s1) \<and> h e s1 = (Inl e', s'))"
  by (auto simp: mcatch_def split: prod.splits sum.splits)

lemma keepsD: "keeps I m \<Longrightarrow> I s \<Longrightarrow> m s = (r, s') \<Longrightarrow> I s'"
  by (metis keeps_def snd_conv)

lemma keepsI: "(\<And>s r s'. I s \<Longrightarrow> m s = (r, s') \<Longrightarrow> I s') \<Longrightarrow> keeps I m"
  by (metis keeps_def prod.collapse)

lemma keeps_basic [keeps_intros]:
  "keeps I (mret a)" "keeps I (mfail e)" "keeps I (mget f)" "keeps I (mlift r)"
  by (simp_all add: keeps_def run_simps)

lemma keeps_mmod: "(\<And>s. I s \<Longrightarrow> I (f s)) \<Longrightarrow> keeps I (mmod f)"
  by (simp add: keeps_def run_simps)

lemma keeps_mthen [keeps_intros]: "keeps I m \<Longrightarrow> (\<And>a. keeps I (k a)) \<Longrightarrow> keeps I (mthen m k)"
  by (auto simp: keeps_def mthen_def split: prod.splits sum.splits)

lemma keeps_mwhen [keeps_intros]: "(b \<Longrightarrow> keeps I m) \<Longrightarrow> keeps I (mwhen b m)"
  by (simp add: keeps_def run_simps)

lemma keeps_mcatch [keeps_intros]: "keeps I m \<Longrightarrow> (\<And>e. keeps I (h e)) \<Longrightarrow> keeps I (mcatch m h)"
  by (auto simp: keeps_def mcatch_def split: prod.splits sum.splits)

lemma keeps_meach [keeps_intros]: "(\<And>x. keeps I (f x)) \<Longrightarrow> keeps I (meach f xs)"
  by (induction xs) (auto intro!: keeps_intros)

lemma keeps_mfilter [keeps_intros]: "(\<And>x. keeps I (p x)) \<Longrightarrow> keeps I (mfilter p xs)"
  by (induction xs) (auto intro!: keeps_intros)

lemma keeps_mloop [keeps_intros]: "(\<And>x. keeps I (f x)) \<Longrightarrow> keeps I (mloop f xs)"
  by (induction xs) (auto intro!: keeps_intros)

lemma keeps_if [keeps_intros]:
  "(b \<Longrightarrow> keeps I m) \<Longrightarrow> (\<not> b \<Longrightarrow> keeps I n) \<Longrightarrow> keeps I (if b then m else n)"
  by simp

lemma keeps_option [keeps_intros]:
  "(x = None \<Longrightarrow> keeps I m) \<Longrightarrow> (\<And>y. x = Some y \<Longrightarrow> keeps I (f y)) \<Longrightarrow>
     keeps I (case x of None \<Rightarrow> m | Some y \<Rightarrow> f y)"
  by (cases x) auto

lemma keeps_sum [keeps_intros]:
  "(\<And>e. r = Inl e \<Longrightarrow> keeps I (f e)) \<Longrightarrow> (\<And>y. r = Inr y \<Longrightarrow> keeps I (g y)) \<Longrightarrow>
     keeps I (case r of Inl e \<Rightarrow> f e | Inr y \<Rightarrow> g y)"
  by (cases r) auto

lemma keeps_list [keeps_intros]:
  "(xs = [] \<Longrightarrow> keeps I m) \<Longrightarrow> (\<And>y ys. xs = y # ys \<Longrightarrow> keeps I (f y ys)) \<Longrightarrow>
     keeps I (case xs of [] \<Rightarrow> m | y # ys \<Rightarrow> f y ys)"
  by (cases xs) auto

lemma keeps_prod [keeps_intros]: "(\<And>a b. keeps I (f a b)) \<Longrightarrow> keeps I (case p of (a, b) \<Rightarrow> f a b)"
  by (cases p) auto

lemma keeps_conj: "keeps I m \<Longrightarrow> keeps J m \<Longrightarrow> keeps (\<lambda>s. I s \<and> J s) m"
  by (simp add: keeps_def)

lemma yieldsD: "yields P m Q \<Longrightarrow> P s \<Longrightarrow> m s = (Inr a, s') \<Longrightarrow> Q a s'"
  by (auto simp: yields_def)

text \<open>A condition that evaluates without touching the state makes \<open>mfilter\<close> a \<open>filter\<close>.\<close>

lemma mfilter_pure:
  "(\<And>x. x \<in> set xs \<Longrightarrow> p x s = (Inr (q x), s)) \<Longrightarrow> mfilter p xs s = (Inr (filter q xs), s)"
  by (induction xs) (auto simp: run_simps mthen_def)

lemma mfilter_subset: "mfilter p xs s = (Inr ys, s') \<Longrightarrow> set ys \<subseteq> set xs"
  by (induction xs arbitrary: ys s) (fastforce simp: run_simps split: if_splits)+

lemma meach_length: "meach f xs s = (Inr ys, s') \<Longrightarrow> length ys = length xs"
  by (induction xs arbitrary: ys s) (auto simp: run_simps)

text \<open>What holds of the results of a loop, when an invariant holds along it.\<close>

lemma meach_yields:
  assumes "\<And>x. x \<in> set xs \<Longrightarrow> keeps I (f x)"
    and "\<And>x s y s'. x \<in> set xs \<Longrightarrow> I s \<Longrightarrow> f x s = (Inr y, s') \<Longrightarrow> Q x y"
    and "I s" and "meach f xs s = (Inr ys, s')"
  shows "list_all2 Q xs ys"
  using assms
proof (induction xs arbitrary: s ys)
  case (Cons x xs)
  then obtain y s1 zs where y: "f x s = (Inr y, s1)" "meach f xs s1 = (Inr zs, s')" "ys = y # zs"
    by (auto simp: run_simps)
  moreover have "I s1" using Cons.prems(1,3) y(1) by (auto dest: keepsD)
  ultimately show ?case using Cons by auto
qed (simp add: run_simps)

section \<open>Computations that never fail\<close>

definition runs :: "('s, 'e, 'a) mrun \<Rightarrow> bool" where
  "runs m \<longleftrightarrow> (\<forall>s. \<exists>a s'. m s = (Inr a, s'))"

named_theorems runs_intros \<open>rules that prove that a computation never fails\<close>

lemma runs_basic [runs_intros]: "runs (mret a)" "runs (mget f)" "runs (mmod g)" "runs (mlift (Inr b))"
  by (simp_all add: runs_def run_simps)

lemma mthen_at: "m s = (Inr a, t) \<Longrightarrow> mthen m k s = k a t"
  by (simp add: mthen_def)

lemma runs_mthen [runs_intros]:
  assumes "runs m" "\<And>a. runs (k a)"
  shows "runs (mthen m k)"
  unfolding runs_def
proof
  fix s
  obtain a t where "m s = (Inr a, t)" using assms(1) unfolding runs_def by blast
  then show "\<exists>b s'. mthen m k s = (Inr b, s')" using assms(2) by (simp add: mthen_at runs_def)
qed

lemma runs_if [runs_intros]: "(b \<Longrightarrow> runs m) \<Longrightarrow> (\<not> b \<Longrightarrow> runs n) \<Longrightarrow> runs (if b then m else n)"
  by simp

lemma runs_mfilter [runs_intros]: "(\<And>x. runs (p x)) \<Longrightarrow> runs (mfilter p xs)"
  by (induction xs) (auto intro!: runs_intros)

lemma runs_mloop [runs_intros]: "(\<And>x. runs (f x)) \<Longrightarrow> runs (mloop f xs)"
  by (induction xs) (auto intro!: runs_intros)

lemma mthen_unit [simp]: "mthen (mret a) k = k a" "mthen (mlift (Inr a)) k = k a"
  by (simp_all add: mthen_def mlift_def mret_def)

section \<open>Steps along a relation\<close>

text \<open>
  \<open>moves R m\<close>: however it ends, \<open>m\<close> goes to a state that is related to where it started.  For a
  reflexive and transitive relation that is a matter of the parts of \<open>m\<close>.
\<close>

definition moves :: "('s \<Rightarrow> 's \<Rightarrow> bool) \<Rightarrow> ('s, 'e, 'a) mrun \<Rightarrow> bool" where
  "moves R m \<longleftrightarrow> (\<forall>s. R s (snd (m s)))"

lemma movesD: "moves R m \<Longrightarrow> m s = (r, s') \<Longrightarrow> R s s'"
  by (metis moves_def snd_conv)

lemma movesI: "(\<And>s r s'. m s = (r, s') \<Longrightarrow> R s s') \<Longrightarrow> moves R m"
  by (metis moves_def prod.collapse)

lemma moves_mono: "moves R m \<Longrightarrow> (\<And>s t. R s t \<Longrightarrow> Q s t) \<Longrightarrow> moves Q m"
  by (simp add: moves_def)

lemma moves_mmod: "(\<And>s. R s (f s)) \<Longrightarrow> moves R (mmod f)"
  by (simp add: moves_def run_simps)

locale growth =
  fixes R :: "'s \<Rightarrow> 's \<Rightarrow> bool"
  assumes grow_refl: "R s s"
    and grow_trans: "R s t \<Longrightarrow> R t u \<Longrightarrow> R s u"
begin

lemma keeps_iff: "moves R m \<longleftrightarrow> (\<forall>s0. keeps (R s0) m)"
  unfolding moves_def keeps_def using grow_refl grow_trans by blast

lemma basic: "moves R (mret a)" "moves R (mfail e)" "moves R (mget f)" "moves R (mlift r)"
  by (simp_all add: moves_def run_simps grow_refl)

lemma sequence: "moves R m \<Longrightarrow> (\<And>a. moves R (k a)) \<Longrightarrow> moves R (mthen m k)"
  unfolding keeps_iff by (blast intro: keeps_intros)

lemma handler: "moves R m \<Longrightarrow> (\<And>e. moves R (h e)) \<Longrightarrow> moves R (mcatch m h)"
  unfolding keeps_iff by (blast intro: keeps_intros)

lemma guarded: "(b \<Longrightarrow> moves R m) \<Longrightarrow> moves R (mwhen b m)"
  unfolding keeps_iff by (blast intro: keeps_intros)

lemma each: "(\<And>x. moves R (f x)) \<Longrightarrow> moves R (meach f xs)"
  unfolding keeps_iff by (blast intro: keeps_intros)

lemma keep_some: "(\<And>x. moves R (p x)) \<Longrightarrow> moves R (mfilter p xs)"
  unfolding keeps_iff by (blast intro: keeps_intros)

lemma loop: "(\<And>x. moves R (f x)) \<Longrightarrow> moves R (mloop f xs)"
  unfolding keeps_iff by (blast intro: keeps_intros)

lemmas rules = basic sequence handler guarded each keep_some loop

end

named_theorems moves_splits \<open>steps by cases\<close>

lemma moves_if [moves_splits]:
  "(b \<Longrightarrow> moves R m) \<Longrightarrow> (\<not> b \<Longrightarrow> moves R n) \<Longrightarrow> moves R (if b then m else n)"
  by simp

lemma moves_option [moves_splits]:
  "(x = None \<Longrightarrow> moves R m) \<Longrightarrow> (\<And>y. x = Some y \<Longrightarrow> moves R (f y)) \<Longrightarrow>
     moves R (case x of None \<Rightarrow> m | Some y \<Rightarrow> f y)"
  by (cases x) auto

lemma moves_sum [moves_splits]:
  "(\<And>e. r = Inl e \<Longrightarrow> moves R (h e)) \<Longrightarrow> (\<And>y. r = Inr y \<Longrightarrow> moves R (f y)) \<Longrightarrow>
     moves R (case r of Inl e \<Rightarrow> h e | Inr y \<Rightarrow> f y)"
  by (cases r) auto

lemma moves_list [moves_splits]:
  "(xs = [] \<Longrightarrow> moves R m) \<Longrightarrow> (\<And>y ys. xs = y # ys \<Longrightarrow> moves R (f y ys)) \<Longrightarrow>
     moves R (case xs of [] \<Rightarrow> m | y # ys \<Rightarrow> f y ys)"
  by (cases xs) auto

lemma moves_prod [moves_splits]:
  "(\<And>a b. moves R (f a b)) \<Longrightarrow> moves R (case p of (a, b) \<Rightarrow> f a b)"
  by (cases p) auto

end
