(* ===== verification/Solver_State.thy ===== *)
theory Solver_State
  imports Pkg_Monad Pkg_Fmri Pkg_ActionParse
begin

text \<open>
  The state of the package solver (\<open>PkgSolver\<close> of \<open>src/src/modules/client/pkg_solver.py\<close>), its
  access to the catalog, and its record of the rejected packages (\<open>__trim_dict\<close>).  The texts of
  the reasons are left out, the kinds (\<open>_TRIM_*\<close>) are kept.  Progress, timings, \<open>__depend_ts\<close> and
  \<open>__known_incs\<close> serve only the messages and are left out too, and so are the caches whose content
  the catalog determines (\<open>__actcache\<close>, \<open>__variant_dict\<close>, \<open>__fmridict\<close>).  A set of packages is a
  list without repetitions, compared as Python compares packages.
\<close>

section \<open>Sets of packages\<close>

definition fin :: "fmri \<Rightarrow> fmri list \<Rightarrow> bool" where
  "fin f fs \<longleftrightarrow> list_ex (fmri_eq f) fs"

definition fdiff :: "fmri list \<Rightarrow> fmri list \<Rightarrow> fmri list" where
  "fdiff fs gs = filter (\<lambda>f. \<not> fin f gs) fs"

definition finter :: "fmri list \<Rightarrow> fmri list \<Rightarrow> fmri list" where
  "finter fs gs = filter (\<lambda>f. fin f gs) fs"

fun fdedup :: "fmri list \<Rightarrow> fmri list" where
  "fdedup [] = []"
| "fdedup (f # fs) = f # filter (\<lambda>g. \<not> fmri_eq g f) (fdedup fs)"

definition funion :: "fmri list \<Rightarrow> fmri list \<Rightarrow> fmri list" where
  "funion fs gs = fs @ fdiff (fdedup gs) fs"

section \<open>The state\<close>

datatype trim_reason =
    TrimDepMissing | TrimDepObsolete | TrimDepTrimmed | TrimFirmware | TrimFreeze
  | TrimInstalledExclude | TrimInstalledInc | TrimInstalledNewer | TrimInstalledOrigin
  | TrimInstalledRootOrigin | TrimParentMissing | TrimParentNewer | TrimParentOlder | TrimParentPub
  | TrimProposedInc | TrimProposedPub | TrimProposedVer | TrimPubRank | TrimPubSticky | TrimReject
  | TrimUnsupported | TrimVariant | TrimExplicitInstall | TrimSyncedInc

datatype solver_exn =
    InvalidPackageErrors
  | UnknownCatalogEntry fmri
  | BadFmri fmri_exn
  | DependencyException trim_reason "fmri list"
  | NoVersion
  | NoSolution
  | NonLeafPackage fmri "fmri list"
  | SolverPy py_exn
  | OutOfFuel

text \<open>What the solver is given.  A rank is the rank, the stickiness and whether it is enabled.\<close>

record senv =
  e_catalog :: "(fmri \<times> string list) list"
  e_excludes :: "(action \<Rightarrow> string option \<Rightarrow> bool) list"
  e_ranks :: "(string \<times> int \<times> bool \<times> bool) list"
  e_installed :: "fmri dict"
  e_parents :: "fmri list option"
  e_root :: "fmri dict"
  e_firmware :: "action \<Rightarrow> string \<Rightarrow> bool"
  e_trig_update :: "fmri list"
  e_trig_uninstall :: "fmri list"

record sstate =
  s_trim :: "(fmri \<times> trim_reason \<times> fmri list) list"
  s_pub_trim :: "string list"
  s_publisher :: "string option dict"
  s_fstate :: "(fmri \<times> bool \<times> bool) list"
  s_possible :: "fmri list dict"
  s_trimdone :: bool
  s_removal :: "fmri list"
  s_req :: "string list"
  s_reject :: "string list"
  s_avoid :: "string list"
  s_implicit_avoid :: "string list"
  s_obs :: "string list"
  s_inc_list :: "fmri list"
  s_linked :: "fmri list"
  s_downgrades :: "fmri list"
  s_dg_cache :: "(fmri \<times> fmri list) list"
  s_expl :: "fmri list dict"
  s_variants :: "(string \<times> string) list"
  s_ids :: "fmri list"
  s_clauses :: "int list list"
  s_failed :: bool

type_synonym 'a srun = "(sstate, solver_exn, 'a) mrun"

definition installed_fmris :: "senv \<Rightarrow> fmri list" where
  "installed_fmris env = map snd (e_installed env)"

definition pkg_rank :: "senv \<Rightarrow> string option \<Rightarrow> int \<times> bool \<times> bool" where
  "pkg_rank env p =
     (case p of None \<Rightarrow> (0, False, False)
      | Some q \<Rightarrow> (case map_of (e_ranks env) q of None \<Rightarrow> (0, False, False) | Some r \<Rightarrow> r))"

text \<open>The constructor: the sticky publishers of the installed packages are recorded.\<close>

definition solver_init :: "senv \<Rightarrow> (string \<times> string) list \<Rightarrow> string list \<Rightarrow> solver_exn + sstate" where
  "solver_init env vars avoids =
     (if \<exists>f \<in> set (installed_fmris env).
           (case f_publisher f of None \<Rightarrow> True | Some p \<Rightarrow> map_of (e_ranks env) p = None)
      then Inl (SolverPy (KeyError ''publisher''))
      else Inr \<lparr>s_trim = [], s_pub_trim = [],
        s_publisher = fold (\<lambda>f d. if fst (snd (pkg_rank env (f_publisher f)))
            then dput (f_name f) (f_publisher f) d else d) (installed_fmris env) [],
        s_fstate = [], s_possible = [], s_trimdone = False, s_removal = [], s_req = [], s_reject = [],
        s_avoid = avoids, s_implicit_avoid = [], s_obs = [], s_inc_list = [], s_linked = [],
        s_downgrades = [], s_dg_cache = [], s_expl = [], s_variants = vars, s_ids = [],
        s_clauses = [], s_failed = False\<rparr>)"

section \<open>Rejected packages\<close>

definition is_trimmed :: "sstate \<Rightarrow> fmri \<Rightarrow> bool" where
  "is_trimmed s f \<longleftrightarrow> list_ex (\<lambda>e. fmri_eq (fst e) f) (s_trim s)"

definition add_trims :: "fmri list \<Rightarrow> trim_reason \<Rightarrow> fmri list \<Rightarrow> sstate \<Rightarrow> sstate" where
  "add_trims fs reason adds s = s\<lparr>s_trim := fold (\<lambda>f. List.insert (f, reason, adds)) fs (s_trim s)\<rparr>"

definition trim :: "fmri list \<Rightarrow> trim_reason \<Rightarrow> fmri list \<Rightarrow> unit srun" where
  "trim fs reason adds = mmod (add_trims fs reason adds)"

definition trim_unsupported :: "fmri \<Rightarrow> unit srun" where
  "trim_unsupported f = trim [f] TrimUnsupported []"

definition dotrim_list :: "fmri list \<Rightarrow> sstate \<Rightarrow> fmri list" where
  "dotrim_list fs s = filter (\<lambda>f. \<not> is_trimmed s f) fs"

section \<open>The actions of the catalog\<close>

definition include_this :: "(action \<Rightarrow> string option \<Rightarrow> bool) list \<Rightarrow> action \<Rightarrow> string option \<Rightarrow> bool" where
  "include_this excludes a pub \<longleftrightarrow> list_all (\<lambda>c. c a pub) excludes"

definition str_attr :: "action \<Rightarrow> string \<Rightarrow> string" where
  "str_attr a k = (case dget (a_attrs a) k of Some (AStr s) \<Rightarrow> s | _ \<Rightarrow> [])"

text \<open>
  \<open>Catalog.__gen_actions\<close>: all lines are read before the errors are raised; actions that set
  facets or variants are not filtered.
\<close>

definition gen_actions ::
  "(action \<Rightarrow> string option \<Rightarrow> bool) list \<Rightarrow> string option \<Rightarrow> string list \<Rightarrow> solver_exn + action list" where
  "gen_actions excludes pub strs =
     (case smap fromstr strs of
        Inl e \<Rightarrow> Inl InvalidPackageErrors
      | Inr acts \<Rightarrow> Inr (filter (\<lambda>a. a_name a = ''set'' \<and>
            (starts_with (str_attr a ''name'') ''facet'' \<or> starts_with (str_attr a ''name'') ''variant'')
          \<or> include_this excludes a pub) acts))"

definition get_entry_actions ::
  "senv \<Rightarrow> (action \<Rightarrow> string option \<Rightarrow> bool) list \<Rightarrow> fmri \<Rightarrow> solver_exn + action list" where
  "get_entry_actions env excludes f =
     (case find (\<lambda>e. fmri_eq (fst e) f) (e_catalog env) of
        None \<Rightarrow> Inl (UnknownCatalogEntry f)
      | Some e \<Rightarrow> gen_actions excludes (f_publisher f) (snd e))"

definition get_entry_all_variants :: "senv \<Rightarrow> fmri \<Rightarrow> solver_exn + avalue dict" where
  "get_entry_all_variants env f =
     sbind (get_entry_actions env [] f) (\<lambda>acts.
       Inr (fold (\<lambda>a d. if a_name a = ''set'' \<and> starts_with (str_attr a ''name'') ''variant''
                        then dput (str_attr a ''name'') (the (dget (a_attrs a) ''value'')) d else d) acts []))"

definition py_lower :: "string \<Rightarrow> string" where
  "py_lower s = map (\<lambda>c. if 65 \<le> code c \<and> code c \<le> 90 then char_of (code c + 32) else c) s"

text \<open>\<open>value.lower() == "true"\<close>, which a list does not have.\<close>

definition says_true :: "avalue option \<Rightarrow> solver_exn + bool" where
  "says_true v =
     (case v of None \<Rightarrow> Inr False
      | Some (AStr s) \<Rightarrow> Inr (py_lower s = ''true'')
      | Some (AList l) \<Rightarrow> Inl (SolverPy AttributeError))"

text \<open>
  \<open>__fmri_loadstate\<close>: whether a package is obsolete and renamed.  For a package whose actions cannot
  be read the pair of strings \<open>("false", "false")\<close> is stored, both of which are true.
\<close>

definition set_values :: "action list \<Rightarrow> avalue dict" where
  "set_values acts =
     fold (\<lambda>a d. if a_name a = ''set'' \<and> str_attr a ''name'' \<in> {''pkg.renamed'', ''pkg.obsolete''}
                 then dput (str_attr a ''name'') (the (dget (a_attrs a) ''value'')) d else d) acts []"

definition invalid_entry :: "fmri \<Rightarrow> unit srun" where
  "invalid_entry f =
     mthen (mmod (\<lambda>s. s\<lparr>s_fstate := (f, True, True) # s_fstate s\<rparr>)) (\<lambda>_. trim_unsupported f)"

definition fmri_loadstate ::
  "senv \<Rightarrow> (action \<Rightarrow> string option \<Rightarrow> bool) list \<Rightarrow> fmri \<Rightarrow> unit srun" where
  "fmri_loadstate env excludes f =
     (case get_entry_actions env excludes f of
        Inl InvalidPackageErrors \<Rightarrow> invalid_entry f
      | Inl e \<Rightarrow> mfail e
      | Inr acts \<Rightarrow>
          mthen (mlift (says_true (dget (set_values acts) ''pkg.obsolete''))) (\<lambda>ob.
          mthen (mlift (says_true (dget (set_values acts) ''pkg.renamed''))) (\<lambda>re.
          mmod (\<lambda>s. s\<lparr>s_fstate := (f, ob, re) # s_fstate s\<rparr>))))"

definition fstate_of :: "sstate \<Rightarrow> fmri \<Rightarrow> (bool \<times> bool) option" where
  "fstate_of s f = map_option snd (find (\<lambda>e. fmri_eq (fst e) f) (s_fstate s))"

definition fmri_state ::
  "senv \<Rightarrow> (action \<Rightarrow> string option \<Rightarrow> bool) list \<Rightarrow> fmri \<Rightarrow> (bool \<times> bool) srun" where
  "fmri_state env excludes f =
     mthen (mget (\<lambda>s. fstate_of s f)) (\<lambda>x. case x of
         Some b \<Rightarrow> mret b
       | None \<Rightarrow> mthen (fmri_loadstate env excludes f) (\<lambda>_. mget (\<lambda>s. the (fstate_of s f))))"

definition fmri_is_obsolete :: "senv \<Rightarrow> fmri \<Rightarrow> bool srun" where
  "fmri_is_obsolete env f = mthen (fmri_state env [] f) (\<lambda>b. mret (fst b))"

definition fmri_is_renamed ::
  "senv \<Rightarrow> (action \<Rightarrow> string option \<Rightarrow> bool) list \<Rightarrow> fmri \<Rightarrow> bool srun" where
  "fmri_is_renamed env excludes f = mthen (fmri_state env excludes f) (\<lambda>b. mret (snd b))"

text \<open>\<open>__get_actions\<close>: a dependency of an unknown type makes the package invalid.\<close>

definition dep_types :: "string list" where
  "dep_types = [''conditional'', ''exclude'', ''group'', ''group-any'', ''incorporate'', ''optional'',
     ''origin'', ''parent'', ''require'', ''require-any'']"

fun depends_known :: "action list \<Rightarrow> solver_exn + unit" where
  "depends_known [] = Inr ()"
| "depends_known (a # acts) =
     (case dget (a_attrs a) ''type'' of
        None \<Rightarrow> Inl (SolverPy (KeyError ''type''))
      | Some t \<Rightarrow> if t \<in> AStr ` set dep_types then depends_known acts else Inl InvalidPackageErrors)"

definition solver_actions ::
  "senv \<Rightarrow> (action \<Rightarrow> string option \<Rightarrow> bool) list \<Rightarrow> string \<Rightarrow> fmri \<Rightarrow> solver_exn + action list" where
  "solver_actions env excludes name f =
     sbind (get_entry_actions env excludes f) (\<lambda>acts.
       let acts' = filter (\<lambda>a. a_name a = name) acts
       in if name = ''depend'' then sbind (depends_known acts') (\<lambda>_. Inr acts') else Inr acts')"

definition get_actions ::
  "senv \<Rightarrow> (action \<Rightarrow> string option \<Rightarrow> bool) list \<Rightarrow> bool \<Rightarrow> string \<Rightarrow> fmri \<Rightarrow> action list srun" where
  "get_actions env excludes trim_invalid name f =
     (case solver_actions env excludes name f of
        Inr acts \<Rightarrow> mret acts
      | Inl e \<Rightarrow> if e = InvalidPackageErrors \<and> trim_invalid
                 then mthen (invalid_entry f) (\<lambda>_. mret []) else mfail e)"

definition get_dependency_actions :: "senv \<Rightarrow> fmri \<Rightarrow> action list srun" where
  "get_dependency_actions env f = get_actions env (e_excludes env) True ''depend'' f"

definition get_set_actions :: "senv \<Rightarrow> fmri \<Rightarrow> action list srun" where
  "get_set_actions env f = get_actions env [] True ''set'' f"

section \<open>Publishers\<close>

text \<open>
  \<open>__filter_publishers\<close>: the packages of a name that come from an unsuitable publisher are trimmed
  when the name is first looked up.
\<close>

definition catalog_fmris :: "senv \<Rightarrow> string \<Rightarrow> sstate \<Rightarrow> fmri list" where
  "catalog_fmris env name s =
     (if s_trimdone s then (case dget (s_possible s) name of None \<Rightarrow> [] | Some fs \<Rightarrow> fs)
      else filter (\<lambda>f. f_name f = name) (map fst (e_catalog env)))"

definition best_publishers :: "senv \<Rightarrow> fmri list \<Rightarrow> string option list" where
  "best_publishers env fs =
     (let enabled = filter (\<lambda>p. snd (snd (pkg_rank env p))) (remdups (map f_publisher fs))
      in filter (\<lambda>p. \<forall>q \<in> set enabled. fst (pkg_rank env p) \<le> fst (pkg_rank env q)) enabled)"

definition pub_rejected :: "fmri option \<Rightarrow> string option list \<Rightarrow> fmri \<Rightarrow> bool" where
  "pub_rejected inst acceptable f \<longleftrightarrow>
     f_publisher f \<notin> set acceptable \<and> (case inst of None \<Rightarrow> True | Some i \<Rightarrow> \<not> fmri_eq f i)
     \<or> (case inst of None \<Rightarrow> False
        | Some i \<Rightarrow> f_publisher f \<noteq> f_publisher i \<and> opt_version_eq (f_version f) (f_version i))"

definition mark_pub_trimmed :: "string \<Rightarrow> sstate \<Rightarrow> sstate" where
  "mark_pub_trimmed name s = s\<lparr>s_pub_trim := List.insert name (s_pub_trim s)\<rparr>"

definition filter_publishers :: "senv \<Rightarrow> string \<Rightarrow> sstate \<Rightarrow> sstate" where
  "filter_publishers env name s =
     (if name \<in> set (s_pub_trim s) then s
      else
        let fs = catalog_fmris env name s; inst = dget (e_installed env) name
        in case dget (s_publisher s) name of
             Some p \<Rightarrow> add_trims (filter (pub_rejected inst [p]) fs)
               (if inst \<noteq> None then TrimPubSticky else TrimProposedPub) [] (mark_pub_trimmed name s)
           | None \<Rightarrow> add_trims (filter (pub_rejected inst (best_publishers env fs)) fs)
               TrimPubRank [] (mark_pub_trimmed name s))"

definition get_catalog_fmris :: "senv \<Rightarrow> string \<Rightarrow> fmri list srun" where
  "get_catalog_fmris env name =
     mthen (mmod (filter_publishers env name)) (\<lambda>_. mget (catalog_fmris env name))"

section \<open>Versions that a package pattern allows\<close>

text \<open>
  Comparing parsed versions never fails, so a failing comparison is read as \<open>False\<close> here; the
  packages of a catalog have versions.
\<close>

definition version_allows :: "int \<Rightarrow> fmri \<Rightarrow> fmri \<Rightarrow> bool" where
  "version_allows constraint req f \<longleftrightarrow>
     (case f_version req of None \<Rightarrow> True
      | Some rv \<Rightarrow> (case f_version f of None \<Rightarrow> False
          | Some v \<Rightarrow> version_eq rv v \<or> is_successor v rv (Some constraint) = Inr True))"

text \<open>\<open>__comb_common\<close>: the packages of the name that match, and the others.\<close>

definition comb_common :: "senv \<Rightarrow> int \<Rightarrow> fmri \<Rightarrow> bool \<Rightarrow> bool \<Rightarrow> (fmri list \<times> fmri list) srun" where
  "comb_common env constraint req dotrim obsolete_ok =
     mthen (get_catalog_fmris env (f_name req)) (\<lambda>fs0.
     let fs = fdedup fs0 in
     mthen (mfilter (\<lambda>f.
         mthen (mget (\<lambda>s. dotrim \<and> is_trimmed s f)) (\<lambda>t.
           if t \<or> \<not> version_allows constraint req f then mret False
           else if obsolete_ok then mret True
           else mthen (fmri_is_obsolete env f) (\<lambda>ob. mret (\<not> ob)))) fs) (\<lambda>matching.
     mret (matching, fdiff fs matching)))"

definition comb_newer :: "senv \<Rightarrow> fmri \<Rightarrow> bool \<Rightarrow> bool \<Rightarrow> (fmri list \<times> fmri list) srun" where
  "comb_newer env req dotrim obsolete_ok = comb_common env CONSTRAINT_NONE req dotrim obsolete_ok"

definition comb_auto :: "senv \<Rightarrow> fmri \<Rightarrow> bool \<Rightarrow> bool \<Rightarrow> (fmri list \<times> fmri list) srun" where
  "comb_auto env req dotrim obsolete_ok = comb_common env CONSTRAINT_AUTO req dotrim obsolete_ok"

definition comb_older :: "senv \<Rightarrow> fmri \<Rightarrow> bool \<Rightarrow> bool \<Rightarrow> (fmri list \<times> fmri list) srun" where
  "comb_older env req dotrim obsolete_ok =
     mthen (comb_newer env req False obsolete_ok) (\<lambda>(newer, older).
       if \<not> dotrim then mret (older, newer)
       else mget (\<lambda>s. (filter (\<lambda>f. \<not> is_trimmed s f) older,
                       newer @ filter (is_trimmed s) older)))"

end
