(* ===== verification/Solver_Depend.thy ===== *)
theory Solver_Depend
  imports Solver_State
begin

text \<open>
  Dependencies: \<open>__parse_dependency\<close> with its error cases, \<open>__parse_group_dependency\<close>, the
  transitive closure of the dependencies and the removal of renamed packages nothing depends on.
\<close>

section \<open>What a dependency allows\<close>

record pdep =
  pd_nm :: "fmri list"
  pd_m :: "fmri list"
  pd_cond :: "fmri list"
  pd_type :: string
  pd_req :: bool
  pd_fmri :: fmri
  pd_ob_ok :: bool

definition parse_fmri :: "string \<Rightarrow> solver_exn + fmri" where
  "parse_fmri t = (case fmri_init t None None of Inl e \<Rightarrow> Inl (BadFmri e) | Inr f \<Rightarrow> Inr f)"

definition dep_fmris :: "action \<Rightarrow> solver_exn + fmri list" where
  "dep_fmris da = smap parse_fmri (attrlist da ''fmri'')"

definition dep_predicate :: "action \<Rightarrow> solver_exn + fmri" where
  "dep_predicate da =
     (case dget (a_attrs da) ''predicate'' of
        Some (AStr t) \<Rightarrow> parse_fmri t
      | Some (AList l) \<Rightarrow> Inl (SolverPy TypeError)
      | None \<Rightarrow> Inl (SolverPy (KeyError ''predicate'')))"

definition no_version :: "fmri \<Rightarrow> fmri" where
  "no_version f = f\<lparr>f_version := None\<rparr>"

text \<open>The union, over several patterns, of what each allows and of what each does not.\<close>

definition comb_all :: "(fmri \<Rightarrow> (fmri list \<times> fmri list) srun) \<Rightarrow> fmri list \<Rightarrow> (fmri list \<times> fmri list) srun" where
  "comb_all comb fs =
     mthen (meach comb fs) (\<lambda>ps. mret (fdedup (concat (map fst ps)), fdedup (concat (map snd ps))))"

definition parse_group_dependency ::
  "senv \<Rightarrow> bool \<Rightarrow> bool \<Rightarrow> fmri list \<Rightarrow> (fmri list \<times> fmri list) srun" where
  "parse_group_dependency env dotrim obsolete_ok fs =
     comb_all (\<lambda>f. comb_newer env (no_version f) dotrim obsolete_ok) fs"

text \<open>
  The packages of a group: where several names match, those with an obsolete version are given up
  as long as a name without one remains.
\<close>

definition prefer_present :: "fmri list \<Rightarrow> fmri list \<Rightarrow> fmri list \<Rightarrow> fmri list \<times> fmri list" where
  "prefer_present ofmris matching nonmatching =
     (if set (map f_name matching) - set (map f_name ofmris) \<noteq> {}
      then (fdiff matching ofmris, funion nonmatching ofmris) else (matching, nonmatching))"

definition match_group :: "senv \<Rightarrow> bool \<Rightarrow> fmri list \<Rightarrow> (fmri list \<times> fmri list \<times> bool) srun" where
  "match_group env dotrim fs =
     mthen (mget (\<lambda>s. filter (\<lambda>f. f_name f \<notin> set (s_avoid s) \<and> f_name f \<notin> set (s_reject s)) fs))
       (\<lambda>potential.
     if potential = [] then mret ([], [], False)
     else mthen (parse_group_dependency env dotrim True potential) (\<lambda>(m, nm).
       if m = [] \<and> nm = [] then mret (m, nm, False)
       else if card (set (map f_name m)) \<le> 1 then mret (m, nm, True)
       else mthen (mfilter (fmri_is_obsolete env) m) (\<lambda>ofmris.
         mret (fst (prefer_present ofmris m nm), snd (prefer_present ofmris m nm), True))))"

definition remaining_installed :: "senv \<Rightarrow> sstate \<Rightarrow> fmri list" where
  "remaining_installed env s = fdiff (installed_fmris env) (s_removal s)"

definition proposed_of :: "fmri list dict \<Rightarrow> string \<Rightarrow> fmri list" where
  "proposed_of prop name = (case dget prop name of None \<Rightarrow> [] | Some fs \<Rightarrow> fs)"

text \<open>The part of \<open>__parse_dependency\<close> that finds the allowed and the disallowed packages.\<close>

definition match_dependency ::
  "senv \<Rightarrow> fmri list dict \<Rightarrow> bool \<Rightarrow> action \<Rightarrow> fmri list \<Rightarrow> pdep srun" where
  "match_dependency env prop dotrim da fs =
     (let dtype = str_attr da ''type''; f = hd fs;
          res = (\<lambda>(m, nm) cond req ob. \<lparr>pd_nm = nm, pd_m = m, pd_cond = cond, pd_type = dtype,
                   pd_req = req, pd_fmri = f, pd_ob_ok = ob\<rparr>);
          required = (\<lambda>name s. name \<in> set (s_req s))
      in
      if dtype = ''require'' then
        mthen (comb_newer env f dotrim False) (\<lambda>c. mret (res c [] True False))
      else if dtype = ''optional'' then
        mthen (comb_newer env f dotrim True) (\<lambda>c. mget (\<lambda>s. res c [] (required (f_name f) s) True))
      else if dtype = ''exclude'' then
        mthen (comb_older env f dotrim True) (\<lambda>c. mget (\<lambda>s. res c [] (required (f_name f) s) True))
      else if dtype = ''incorporate'' then
        mthen (comb_auto env f dotrim True) (\<lambda>c. mget (\<lambda>s. res c [] (required (f_name f) s) True))
      else if dtype = ''conditional'' then
        mthen (mlift (dep_predicate da)) (\<lambda>p.
        mthen (comb_newer env p dotrim False) (\<lambda>(cond, _).
        mthen (mget (\<lambda>s. required (f_name p) s \<and>
            list_ex (\<lambda>g. fin g (proposed_of prop (f_name p)) \<or> fin g (remaining_installed env s)) cond))
          (\<lambda>req.
        mthen (comb_newer env f dotrim False) (\<lambda>c. mret (res c cond req False)))))
      else if dtype = ''require-any'' then
        mthen (comb_all (\<lambda>g. comb_newer env g dotrim False) fs) (\<lambda>c. mret (res c [] True False))
      else if dtype = ''parent'' then mret (res ([], []) [] False False)
      else if dtype = ''origin'' then
        mthen (comb_newer env f False False) (\<lambda>c. mret (res c [] False False))
      else if dtype = ''group'' \<or> dtype = ''group-any'' then
        mthen (match_group env dotrim fs) (\<lambda>(m, nm, req). mret (res (m, nm) [] req True))
      else mfail InvalidPackageErrors)"

text \<open>
  The part that raises, when nothing is allowed by a dependency that must be met.  \<open>again\<close> is the
  same dependency parsed without regard to the packages trimmed so far.
\<close>

definition reject_dependency ::
  "senv \<Rightarrow> fmri list dict \<Rightarrow> bool \<Rightarrow> pdep srun \<Rightarrow> fmri \<Rightarrow> fmri list \<Rightarrow> pdep \<Rightarrow> pdep srun" where
  "reject_dependency env prop dotrim again source fs d =
     (let f = pd_fmri d;
          last_part = (\<lambda>(m, nm).
            if m = [] then mfail (DependencyException TrimDepMissing [])
            else mthen (if dotrim \<and> nm \<noteq> [] \<and> list_all2 fmri_eq (proposed_of prop (f_name source)) [source]
                        then mthen again (\<lambda>d'. trim (pd_nm d') TrimDepTrimmed [source]) else mret ())
                 (\<lambda>_. mfail (DependencyException TrimDepTrimmed m)))
      in
      if pd_type d = ''exclude'' then
        mthen (comb_older env f False False) (\<lambda>(m, nm).
          if m = [] then mfail (DependencyException TrimInstalledExclude [])
          else mfail (DependencyException TrimDepTrimmed m))
      else if pd_type d = ''incorporate'' then
        mthen (comb_auto env f False True) last_part
      else if \<not> pd_ob_ok d then
        mthen (if length fs = 1 then comb_newer env f dotrim True
               else comb_all (\<lambda>g. comb_newer env g dotrim True) fs) (\<lambda>(m, nm).
          if m \<noteq> [] then mfail (DependencyException TrimDepObsolete [])
          else mthen (comb_newer env f False False) last_part)
      else mthen (comb_newer env f False True) last_part)"

text \<open>\<open>__parse_dependency\<close>, first without and then with regard to what is trimmed.\<close>

definition parse_untrimmed ::
  "senv \<Rightarrow> fmri list dict \<Rightarrow> bool \<Rightarrow> action \<Rightarrow> fmri \<Rightarrow> pdep srun" where
  "parse_untrimmed env prop check_req da source =
     mthen (mlift (dep_fmris da)) (\<lambda>fs.
     if fs = [] then mfail (SolverPy IndexError)
     else mthen (match_dependency env prop False da fs) (\<lambda>d.
       if \<not> check_req \<or> pd_m d \<noteq> [] \<or> \<not> pd_req d then mret d
       else reject_dependency env prop False (mret d) source fs d))"

definition parse_dependency ::
  "senv \<Rightarrow> fmri list dict \<Rightarrow> bool \<Rightarrow> bool \<Rightarrow> action \<Rightarrow> fmri \<Rightarrow> pdep srun" where
  "parse_dependency env prop dotrim check_req da source =
     (if \<not> dotrim then parse_untrimmed env prop check_req da source
      else
        mthen (mlift (dep_fmris da)) (\<lambda>fs.
        if fs = [] then mfail (SolverPy IndexError)
        else mthen (match_dependency env prop True da fs) (\<lambda>d.
          if \<not> check_req \<or> pd_m d \<noteq> [] \<or> \<not> pd_req d then mret d
          else mthen (mget (\<lambda>s. fin source (s_inc_list s))) (\<lambda>held.
            if held \<and> pd_type d = ''incorporate'' then parse_untrimmed env prop check_req da source
            else reject_dependency env prop True (parse_untrimmed env prop check_req da source)
                   source fs d))))"

section \<open>The closure of the dependencies\<close>

text \<open>\<open>__is_explicit_install\<close> and \<open>__filter_explicit_install\<close>.\<close>

fun any_true :: "action list \<Rightarrow> solver_exn + bool" where
  "any_true [] = Inr False"
| "any_true (a # acts) =
     (if str_attr a ''name'' = ''pkg.depend.explicit-install''
      then sbind (says_true (dget (a_attrs a) ''value'')) (\<lambda>b. if b then Inr True else any_true acts)
      else any_true acts)"

definition is_explicit_install :: "senv \<Rightarrow> fmri \<Rightarrow> bool srun" where
  "is_explicit_install env f = mthen (get_set_actions env f) (\<lambda>acts. mlift (any_true acts))"

definition DEPEND_SELF :: string where
  "DEPEND_SELF = ''feature/package/dependency/self''"

definition depends_on_self :: "action list \<Rightarrow> bool" where
  "depends_on_self acts \<longleftrightarrow>
     list_ex (\<lambda>a. str_attr a ''type'' = ''parent'' \<and> DEPEND_SELF \<in> set (attrlist a ''fmri'')) acts"

definition parent_pkg :: "senv \<Rightarrow> string \<Rightarrow> fmri option" where
  "parent_pkg env name =
     (case e_parents env of None \<Rightarrow> None
      | Some ps \<Rightarrow> map_of (rev (map (\<lambda>p. (f_name p, p)) ps)) name)"

definition filter_explicit_install :: "senv \<Rightarrow> fmri \<Rightarrow> bool srun" where
  "filter_explicit_install env f =
     mthen (is_explicit_install env f) (\<lambda>explicit.
     if \<not> explicit then mret False
     else mthen (mget (\<lambda>s. fin f (proposed_of (s_expl s) (f_name f)))) (\<lambda>asked.
       if asked then mret False
       else if dget (e_installed env) (f_name f) \<noteq> None then mret False
       else if parent_pkg env (f_name f) \<noteq> None then
         mthen (get_dependency_actions env f) (\<lambda>acts. mret (\<not> depends_on_self acts))
       else mret True))"

definition closure_types :: "bool \<Rightarrow> string list" where
  "closure_types full_trim =
     [''require'', ''group'', ''conditional'', ''require-any'', ''group-any''] @
     (if full_trim then [''incorporate'', ''optional'', ''exclude''] else [])"

definition generate_dependencies ::
  "senv \<Rightarrow> fmri list dict \<Rightarrow> bool \<Rightarrow> fmri \<Rightarrow> fmri list srun" where
  "generate_dependencies env prop full_trim f =
     mcatch
       (mthen (get_dependency_actions env f) (\<lambda>acts.
        mthen (meach (\<lambda>da. parse_dependency env prop True True da f)
                (filter (\<lambda>a. str_attr a ''type'' \<in> set (closure_types full_trim)) acts)) (\<lambda>ds.
        mret (fdedup (concat (map pd_m ds))))))
       (\<lambda>e. case e of
          DependencyException reason adds \<Rightarrow> mthen (trim [f] reason adds) (\<lambda>_. mret [])
        | _ \<Rightarrow> mfail e)"

text \<open>
  \<open>__generate_dependency_closure\<close>: every package is taken from the work list once, so as many
  rounds are enough as there are packages (\<open>closure_fuel\<close>).
\<close>

fun dependency_closure ::
  "senv \<Rightarrow> fmri list dict \<Rightarrow> bool \<Rightarrow> bool \<Rightarrow> nat \<Rightarrow> fmri list \<Rightarrow> fmri list \<Rightarrow> fmri list srun" where
  "dependency_closure env prop full_trim explicit n [] processed = mret processed"
| "dependency_closure env prop full_trim explicit 0 (f # todo) processed = mfail OutOfFuel"
| "dependency_closure env prop full_trim explicit (Suc n) (f # todo) processed =
     mthen (if explicit then filter_explicit_install env f else mret False) (\<lambda>drop.
     if drop then
       mthen (trim [f] TrimExplicitInstall []) (\<lambda>_.
         dependency_closure env prop full_trim explicit n todo (f # processed))
     else
       mthen (generate_dependencies env prop full_trim f) (\<lambda>ds.
         dependency_closure env prop full_trim explicit n
           (funion todo (fdiff ds (f # processed))) (f # processed)))"

definition closure_fuel :: "senv \<Rightarrow> fmri list \<Rightarrow> sstate \<Rightarrow> nat" where
  "closure_fuel env fs s = length fs + length (e_catalog env) + length (concat (map snd (s_possible s)))"

definition generate_dependency_closure ::
  "senv \<Rightarrow> fmri list dict \<Rightarrow> bool \<Rightarrow> bool \<Rightarrow> fmri list \<Rightarrow> fmri list srun" where
  "generate_dependency_closure env prop full_trim explicit fs =
     mthen (mget (closure_fuel env fs)) (\<lambda>n.
       dependency_closure env prop full_trim explicit n (fdedup fs) [])"

text \<open>
  \<open>__update_possible_closure\<close> without the repeated passes of \<open>full_trim\<close>, which only the error
  messages use: the closure is added, then what is trimmed is removed.
\<close>

definition update_possible_closure ::
  "senv \<Rightarrow> fmri list dict \<Rightarrow> bool \<Rightarrow> fmri list \<Rightarrow> fmri list srun" where
  "update_possible_closure env prop explicit possible =
     mthen (generate_dependency_closure env prop False explicit possible) (\<lambda>res.
       mget (dotrim_list (funion possible res)))"

section \<open>Renamed packages\<close>

text \<open>
  \<open>__elide_possible_renames\<close>: a renamed package stays when a package that stays depends on it.
\<close>

definition weak_types :: "string list" where
  "weak_types = [''incorporate'', ''optional'', ''origin'']"

definition dep_names :: "action list \<Rightarrow> solver_exn + string list" where
  "dep_names acts =
     sbind (smap dep_fmris (filter (\<lambda>a. str_attr a ''type'' \<notin> set weak_types) acts)) (\<lambda>fss.
       Inr (map f_name (concat fss)))"

definition by_name :: "fmri list \<Rightarrow> string \<Rightarrow> fmri option" where
  "by_name fs = map_of (rev (map (\<lambda>f. (f_name f, f)) fs))"

fun elide_loop ::
  "senv \<Rightarrow> fmri list \<Rightarrow> nat \<Rightarrow> fmri list \<Rightarrow> fmri list \<Rightarrow> fmri list \<Rightarrow> fmri list srun" where
  "elide_loop env fs n [] processed renamed = mret renamed"
| "elide_loop env fs 0 (f # todo) processed renamed = mfail OutOfFuel"
| "elide_loop env fs (Suc n) (f # todo) processed renamed =
     mthen (get_dependency_actions env f) (\<lambda>acts.
     mthen (mlift (dep_names acts)) (\<lambda>names.
       let new = fdedup (List.map_filter (by_name fs) names)
       in elide_loop env fs n (funion todo (fdiff new (f # processed))) (f # processed) (fdiff renamed new)))"

definition elide_possible_renames :: "senv \<Rightarrow> fmri list \<Rightarrow> fmri list srun" where
  "elide_possible_renames env fs =
     mthen (mfilter (fmri_is_renamed env (e_excludes env)) fs) (\<lambda>renamed.
     if renamed = [] then mret fs
     else mthen (elide_loop env fs (length fs) (fdiff fs renamed) [] renamed) (\<lambda>renamed'.
       mret (fdiff fs renamed')))"

end
