(* ===== verification/Solver_Clauses.thy ===== *)
theory Solver_Clauses
  imports Solver_Depend
begin

text \<open>
  The numbering of the packages, the clauses and the search: \<open>__assign_fmri_ids\<close>, the
  \<open>__gen_*_clauses\<close>, \<open>__enforce_unique_packages\<close>, \<open>__generate_operation_clauses\<close> and \<open>__solve\<close>.
  MiniSat is a C library: what its clauses say is defined here, what it answers is a parameter.
\<close>

section \<open>Numbering\<close>

text \<open>\<open>__assign_possible\<close>: the possible packages by name, each list in ascending order.\<close>

definition assign_possible :: "fmri list \<Rightarrow> sstate \<Rightarrow> sstate" where
  "assign_possible fs s =
     s\<lparr>s_possible := map (\<lambda>n. (n, sort_key fmri_key (filter (\<lambda>f. f_name f = n) fs)))
                       (remdups (map f_name fs)),
       s_trimdone := True\<rparr>"

definition assign_fmri_ids :: "fmri list \<Rightarrow> sstate \<Rightarrow> sstate" where
  "assign_fmri_ids fs s =
     (let s1 = assign_possible fs s
      in s1\<lparr>s_ids := concat (map (\<lambda>n. rev (the (dget (s_possible s1) n)))
                             (sort (map fst (s_possible s1))))\<rparr>)"

fun index_of :: "fmri \<Rightarrow> fmri list \<Rightarrow> nat option" where
  "index_of f [] = None"
| "index_of f (g # gs) = (if fmri_eq g f then Some 0 else map_option Suc (index_of f gs))"

definition getid :: "sstate \<Rightarrow> fmri \<Rightarrow> solver_exn + int" where
  "getid s f = (case index_of f (s_ids s) of None \<Rightarrow> Inl (SolverPy (KeyError ''fmri''))
     | Some i \<Rightarrow> Inr (int i + 1))"

definition getfmri :: "sstate \<Rightarrow> nat \<Rightarrow> solver_exn + fmri" where
  "getfmri s i = (if 1 \<le> i \<and> i \<le> length (s_ids s) then Inr (s_ids s ! (i - 1))
     else Inl (SolverPy (KeyError ''id'')))"

section \<open>Clauses\<close>

definition gen_highlander_clauses :: "sstate \<Rightarrow> fmri list \<Rightarrow> solver_exn + int list list" where
  "gen_highlander_clauses s fs =
     (if length fs = 1 then Inr []
      else sbind (smap (getid s) fs) (\<lambda>ids.
        Inr (concat (map (\<lambda>i. map (\<lambda>j. [- (ids ! i), - (ids ! j)]) [Suc i..<length ids])
                         [0..<length ids - 1]))))"

definition gen_require_clauses :: "sstate \<Rightarrow> fmri \<Rightarrow> fmri list \<Rightarrow> solver_exn + int list list" where
  "gen_require_clauses s f matching =
     sbind (getid s f) (\<lambda>i. sbind (smap (getid s) matching) (\<lambda>ms. Inr [- i # ms]))"

definition gen_require_conditional_clauses ::
  "sstate \<Rightarrow> fmri \<Rightarrow> fmri list \<Rightarrow> fmri list \<Rightarrow> solver_exn + int list list" where
  "gen_require_conditional_clauses s f matching conditional =
     sbind (smap (getid s) matching) (\<lambda>ms.
     smap (\<lambda>c. sbind (getid s f) (\<lambda>i. sbind (getid s c) (\<lambda>j. Inr (- i # - j # ms)))) conditional)"

definition gen_negation_clauses :: "sstate \<Rightarrow> fmri \<Rightarrow> fmri list \<Rightarrow> solver_exn + int list list" where
  "gen_negation_clauses s f nonmatching =
     sbind (getid s f) (\<lambda>i. smap (\<lambda>g. sbind (getid s g) (\<lambda>j. Inr [- i, - j])) nonmatching)"

definition gen_one_of_these_clauses :: "sstate \<Rightarrow> fmri list \<Rightarrow> solver_exn + int list list" where
  "gen_one_of_these_clauses s fs =
     (if fs = [] then Inl (SolverPy AssertionError)
      else sbind (smap (getid s) fs) (\<lambda>ids. Inr [ids]))"

definition gen_dependency_clauses :: "senv \<Rightarrow> fmri \<Rightarrow> action \<Rightarrow> int list list srun" where
  "gen_dependency_clauses env f da =
     mthen (parse_dependency env [] True False da f) (\<lambda>d.
     mthen (mget (\<lambda>s.
       if pd_type d = ''require'' \<or> pd_type d = ''require-any'' then gen_require_clauses s f (pd_m d)
       else if pd_type d = ''group'' \<or> pd_type d = ''group-any'' then
         if pd_m d = [] then Inr [] else gen_require_clauses s f (pd_m d)
       else if pd_type d = ''conditional'' then
         gen_require_conditional_clauses s f (pd_m d) (pd_cond d)
       else if pd_type d = ''origin'' \<or> pd_type d = ''parent'' then Inr []
       else gen_negation_clauses s f (pd_nm d))) mlift)"

section \<open>The solver underneath\<close>

text \<open>
  What MiniSat is used for.  \<open>ms_add\<close> is the answer of \<open>add_clause\<close> after the clauses given so far,
  \<open>ms_solve\<close> is \<open>None\<close> where \<open>solve\<close> is false and else the variables that are true, counted from 1.
\<close>

record msat =
  ms_add :: "int list list \<Rightarrow> int list \<Rightarrow> bool"
  ms_solve :: "int list list \<Rightarrow> nat list option"

definition lit_true :: "nat set \<Rightarrow> int \<Rightarrow> bool" where
  "lit_true V l \<longleftrightarrow> (if 0 < l then nat l \<in> V else nat (- l) \<notin> V)"

definition satisfies :: "nat set \<Rightarrow> int list list \<Rightarrow> bool" where
  "satisfies V cs \<longleftrightarrow> (\<forall>c \<in> set cs. \<exists>l \<in> set c. lit_true V l)"

definition clause_vars :: "int list list \<Rightarrow> nat set" where
  "clause_vars cs = (\<lambda>l. nat \<bar>l\<bar>) ` set (concat cs)"

text \<open>
  What its documentation promises: a clause is refused only when the clauses cannot all be met, the
  answer is an assignment that meets them, to variables up to the largest one in use, and there is
  no answer only when there is no such assignment.
\<close>

definition msat_ok :: "msat \<Rightarrow> bool" where
  "msat_ok ms \<longleftrightarrow>
     (\<forall>cs c. \<not> ms_add ms cs c \<longrightarrow> (\<forall>V. \<not> satisfies V (cs @ [c])))
     \<and> (\<forall>cs. case ms_solve ms cs of
           None \<Rightarrow> \<forall>V. \<not> satisfies V cs
         | Some vs \<Rightarrow> distinct vs \<and> satisfies (set vs) cs
             \<and> (\<forall>v \<in> set vs. 1 \<le> v \<and> (\<exists>w \<in> clause_vars cs. v \<le> w)))"

definition addclause :: "msat \<Rightarrow> int list \<Rightarrow> sstate \<Rightarrow> sstate" where
  "addclause ms c s = s\<lparr>s_failed := s_failed s \<or> \<not> ms_add ms (s_clauses s) c, s_clauses := s_clauses s @ [c]\<rparr>"

definition addclauses :: "msat \<Rightarrow> int list list \<Rightarrow> unit srun" where
  "addclauses ms cs = mmod (fold (addclause ms) cs)"

text \<open>The clauses of an operation.\<close>

definition enforce_unique_packages :: "msat \<Rightarrow> senv \<Rightarrow> unit srun" where
  "enforce_unique_packages ms env =
     mthen (mget s_possible) (mloop (\<lambda>(name, fs).
       mthen (mget (\<lambda>s. gen_highlander_clauses s fs)) (\<lambda>r.
       mthen (mlift r) (\<lambda>cs.
       mthen (addclauses ms cs) (\<lambda>_.
       mloop (\<lambda>f.
         mthen (get_dependency_actions env f)
           (mloop (\<lambda>da. mthen (gen_dependency_clauses env f da) (addclauses ms)))) fs)))))"

definition one_of_these :: "msat \<Rightarrow> fmri list \<Rightarrow> unit srun" where
  "one_of_these ms fs =
     mthen (mget (\<lambda>s. gen_one_of_these_clauses s fs)) (\<lambda>r. mthen (mlift r) (addclauses ms))"

definition kept_names :: "senv \<Rightarrow> string list \<Rightarrow> sstate \<Rightarrow> string list" where
  "kept_names env proposed s =
     filter (\<lambda>n. n \<notin> set proposed \<and> n \<notin> set (s_reject s) \<and> n \<notin> set (s_avoid s)
         \<and> \<not> fin (the (dget (e_installed env) n)) (s_removal s)) (map fst (e_installed env))"

definition generate_operation_clauses :: "msat \<Rightarrow> senv \<Rightarrow> fmri list dict \<Rightarrow> unit srun" where
  "generate_operation_clauses ms env prop =
     mthen (mloop (\<lambda>(name, fs).
         mthen (mget (\<lambda>s. finter fs (proposed_of (s_possible s) name))) (one_of_these ms)) prop) (\<lambda>_.
     mthen (mget (kept_names env (map fst prop))) (mloop (\<lambda>n.
       mthen (mget (\<lambda>s. dget (s_possible s) n)) (\<lambda>x. case x of
           None \<Rightarrow> mret () | Some fs \<Rightarrow> one_of_these ms fs))))"

section \<open>The search\<close>

text \<open>
  One round of \<open>__solve\<close>: the packages older than the chosen ones (or newer, with \<open>older\<close>) are
  excluded, and then this exact choice.
\<close>

definition exclude_fmris :: "msat \<Rightarrow> fmri list \<Rightarrow> unit srun" where
  "exclude_fmris ms fs =
     mloop (\<lambda>f. mthen (mget (\<lambda>s. getid s f)) (\<lambda>r. mthen (mlift r) (\<lambda>i. addclauses ms [[- i]]))) fs"

definition solve_round :: "msat \<Rightarrow> senv \<Rightarrow> bool \<Rightarrow> nat list \<Rightarrow> unit srun" where
  "solve_round ms env older vs =
     mthen (mloop (\<lambda>v.
         mthen (mget (\<lambda>s. getfmri s v)) (\<lambda>r. mthen (mlift r) (\<lambda>f.
         mthen (comb_newer env f True True) (\<lambda>(matching, remaining).
         mthen (mget (\<lambda>s. if older then fdiff matching [f] else fdiff remaining (s_downgrades s)))
           (exclude_fmris ms))))) vs) (\<lambda>_.
     addclauses ms [map (\<lambda>v. - int v) vs])"

text \<open>
  \<open>n\<close> counts what is left of \<open>max_iterations\<close>; the result is whether there was an iteration at all,
  and the last choice.
\<close>

fun solve_loop :: "msat \<Rightarrow> senv \<Rightarrow> bool \<Rightarrow> nat \<Rightarrow> bool \<Rightarrow> nat list \<Rightarrow> (bool \<times> nat list) srun" where
  "solve_loop ms env older n iterated vs s =
     (if s_failed s then (Inr (iterated, vs), s)
      else case ms_solve ms (s_clauses s) of
        None \<Rightarrow> (Inr (iterated, vs), s)
      | Some ws \<Rightarrow>
          (case n of
             0 \<Rightarrow> (Inr (True, vs), s)
           | Suc m \<Rightarrow>
               if ws = [] then (Inr (True, []), s)
               else mthen (solve_round ms env older ws) (\<lambda>_. solve_loop ms env older m True ws) s))"

declare solve_loop.simps [simp del]

definition solve :: "msat \<Rightarrow> senv \<Rightarrow> bool \<Rightarrow> nat \<Rightarrow> fmri list srun" where
  "solve ms env older max_iterations =
     mthen (solve_loop ms env older max_iterations False []) (\<lambda>(iterated, vs).
     if \<not> iterated then mfail NoSolution
     else mthen (mget (\<lambda>s. smap (getfmri s) vs)) mlift)"

text \<open>\<open>__save_solver\<close> and \<open>__restore_solver\<close>: the clauses and the failure flag.\<close>

definition save_solver :: "sstate \<Rightarrow> int list list \<times> bool" where
  "save_solver s = (s_clauses s, s_failed s)"

definition restore_solver :: "int list list \<times> bool \<Rightarrow> sstate \<Rightarrow> sstate" where
  "restore_solver saved s = s\<lparr>s_clauses := fst saved, s_failed := snd saved\<rparr>"

end
