(* ===== verification/Solver_Trim.thy ===== *)
theory Solver_Trim
  imports Solver_Depend
begin

text \<open>
  What is trimmed before the search: older versions, frozen packages, packages whose variants,
  parent or origin dependencies do not fit the image, and what incorporations exclude; and the
  installed incorporations that an operation must not change.
\<close>

section \<open>Older and frozen versions\<close>

definition trim_older :: "senv \<Rightarrow> fmri \<Rightarrow> unit srun" where
  "trim_older env f =
     mthen (comb_newer env f False True) (\<lambda>(_, older).
     mthen (mget (\<lambda>s. fdiff older (s_downgrades s))) (\<lambda>fs. trim fs TrimInstalledNewer []))"

definition trim_frozen :: "senv \<Rightarrow> fmri list \<Rightarrow> unit srun" where
  "trim_frozen env freezes =
     mloop (\<lambda>f. mthen (comb_auto env f False True) (\<lambda>(_, fs). trim fs TrimFreeze [])) freezes"

section \<open>Variants\<close>

definition is_infix :: "string \<Rightarrow> string \<Rightarrow> bool" where
  "is_infix s t \<longleftrightarrow> list_ex (\<lambda>i. starts_with (drop i t) s) [0..<Suc (length t)]"

text \<open>\<open>value in vd[v]\<close>: membership in a list of values, but a substring of a single one.\<close>

definition py_in_value :: "string \<Rightarrow> avalue \<Rightarrow> bool" where
  "py_in_value s v = (case v of AStr t \<Rightarrow> is_infix s t | AList l \<Rightarrow> s \<in> set l)"

definition get_variant_dict :: "senv \<Rightarrow> fmri \<Rightarrow> avalue dict srun" where
  "get_variant_dict env f =
     (case get_entry_all_variants env f of
        Inr d \<Rightarrow> mret d
      | Inl InvalidPackageErrors \<Rightarrow> mthen (trim_unsupported f) (\<lambda>_. mret [])
      | Inl e \<Rightarrow> mfail e)"

definition variants_fit :: "(string \<times> string) list \<Rightarrow> avalue dict \<Rightarrow> bool" where
  "variants_fit vars vd \<longleftrightarrow>
     list_all (\<lambda>(k, v). case dget vd k of None \<Rightarrow> True | Some w \<Rightarrow> py_in_value v w) vars"

definition trim_nonmatching_variants :: "senv \<Rightarrow> fmri \<Rightarrow> bool srun" where
  "trim_nonmatching_variants env f =
     mthen (get_variant_dict env f) (\<lambda>vd.
     mthen (mget (\<lambda>s. variants_fit (s_variants s) vd)) (\<lambda>fit.
     if fit then mret True else mthen (trim [f] TrimVariant []) (\<lambda>_. mret False)))"

section \<open>Parent dependencies\<close>

definition newer_version :: "version option \<Rightarrow> version option \<Rightarrow> bool" where
  "newer_version v w \<longleftrightarrow>
     (case (v, w) of (Some a, Some b) \<Rightarrow> is_successor a b (Some CONSTRAINT_NONE) = Inr True | _ \<Rightarrow> False)"

text \<open>\<open>__trim_nonmatching_parents1\<close>: what the parent image has for one parent dependency.\<close>

definition trim_nonmatching_parents1 :: "senv \<Rightarrow> fmri \<Rightarrow> fmri \<Rightarrow> bool srun" where
  "trim_nonmatching_parents1 env pkg_fmri f =
     (if fin f (the (e_parents env)) then mret True
      else case parent_pkg env (f_name f) of
        None \<Rightarrow> mthen (trim [pkg_fmri] TrimParentMissing []) (\<lambda>_. mret False)
      | Some pf \<Rightarrow>
          if str_true (f_publisher f) \<and> f_publisher f \<noteq> f_publisher pf
          then mthen (trim [pkg_fmri] TrimParentPub []) (\<lambda>_. mret False)
          else if opt_version_eq (f_version pf) (f_version f) then mret True
          else if f_version f = None then mfail (SolverPy AttributeError)
          else if \<not> fmri_eq pkg_fmri f \<and> newer_version (f_version pf) (f_version f) then mret True
          else mthen (trim [pkg_fmri] (if newer_version (f_version pf) (f_version f)
                        then TrimParentNewer else TrimParentOlder) []) (\<lambda>_. mret False))"

definition trim_nonmatching_parents :: "senv \<Rightarrow> bool \<Rightarrow> fmri \<Rightarrow> bool srun" where
  "trim_nonmatching_parents env ignore_installed pkg_fmri =
     (if e_parents env = None then mret True
      else if ignore_installed \<and> fin pkg_fmri (installed_fmris env) then mret True
      else
        mthen (get_dependency_actions env pkg_fmri) (\<lambda>acts.
        mthen (mlift (smap dep_fmris (filter (\<lambda>a. str_attr a ''type'' = ''parent'') acts))) (\<lambda>fss.
        let deps = fdedup (concat fss) in
        if deps = [] then mret True
        else
          mthen (mmod (\<lambda>s. s\<lparr>s_linked := funion (s_linked s) [pkg_fmri]\<rparr>)) (\<lambda>_.
          mthen (meach (\<lambda>f. trim_nonmatching_parents1 env pkg_fmri
                   (if f_name f = DEPEND_SELF then pkg_fmri else f)) deps) (\<lambda>oks.
          mret (list_all id oks))))))"

section \<open>Origin dependencies\<close>

text \<open>
  The packages of the root image and the answer of the firmware check, which runs programs of the
  system, are given with \<open>senv\<close>.
\<close>

primrec check_origins :: "senv \<Rightarrow> fmri dict \<Rightarrow> fmri \<Rightarrow> action list \<Rightarrow> bool srun" where
  "check_origins env inst f [] = mret True"
| "check_origins env inst f (da # das) =
     (if str_attr da ''type'' \<noteq> ''origin'' then check_origins env inst f das
      else
        mthen (mlift (case dget (a_attrs da) ''fmri'' of
                        Some (AStr t) \<Rightarrow> parse_fmri t | _ \<Rightarrow> Inl (SolverPy TypeError))) (\<lambda>req.
        mthen (mlift (says_true (dget (a_attrs da) ''root-image''))) (\<lambda>root.
        if root \<and> starts_with (f_name req) ''feature/firmware/'' then
          if e_firmware env da (f_name req) then check_origins env inst f das
          else mthen (trim [f] TrimFirmware []) (\<lambda>_. mret False)
        else
          let installed = dget (if root then e_root env else inst) (f_name req)
          in if (case installed of None \<Rightarrow> True | Some i \<Rightarrow> version_allows CONSTRAINT_NONE req i)
             then check_origins env inst f das
             else mthen (trim [f] (if root then TrimInstalledRootOrigin else TrimInstalledOrigin) [])
                    (\<lambda>_. mret False))))"

definition trim_nonmatching_origins :: "senv \<Rightarrow> fmri dict \<Rightarrow> fmri \<Rightarrow> bool srun" where
  "trim_nonmatching_origins env inst f =
     mthen (get_dependency_actions env f) (check_origins env inst f)"

section \<open>Incorporations\<close>

text \<open>
  \<open>__get_incorp_nonmatch_dict\<close>: for every package incorporated, what all its constraints allow and
  what one of them excludes.
\<close>

definition incorp_add ::
  "string \<Rightarrow> fmri list \<Rightarrow> fmri list \<Rightarrow> (fmri list \<times> fmri list) dict \<Rightarrow> (fmri list \<times> fmri list) dict" where
  "incorp_add name m nm d =
     dput name (case dget d name of None \<Rightarrow> (m, nm) | Some (m0, nm0) \<Rightarrow> (finter m0 m, funion nm0 nm)) d"

definition get_incorp_nonmatch_dict :: "senv \<Rightarrow> fmri \<Rightarrow> (fmri list \<times> fmri list) dict srun" where
  "get_incorp_nonmatch_dict env f =
     mthen (get_dependency_actions env f) (\<lambda>acts.
     mthen (meach (\<lambda>da. parse_dependency env [] False False da f)
              (filter (\<lambda>a. str_attr a ''type'' = ''incorporate'') acts)) (\<lambda>ds.
     mret (fold (\<lambda>d. incorp_add (f_name (pd_fmri d)) (pd_m d) (pd_nm d)) ds [])))"

text \<open>\<open>__combine_incorps\<close>: one of the packages will be there, so only what all of them say counts.\<close>

definition combine_incorps :: "senv \<Rightarrow> fmri list \<Rightarrow> (string \<times> fmri list \<times> fmri list) list srun" where
  "combine_incorps env fs =
     mthen (meach (get_incorp_nonmatch_dict env) fs) (\<lambda>ds.
     mret (case ds of [] \<Rightarrow> []
       | d # ds' \<Rightarrow>
           map (\<lambda>k. (k, fold (\<lambda>e acc. funion acc (fst (the (dget e k)))) ds' (fst (the (dget d k))),
                        fold (\<lambda>e acc. finter acc (snd (the (dget e k)))) ds' (snd (the (dget d k)))))
             (filter (\<lambda>k. \<forall>e \<in> set ds'. k \<in> set (dkeys e)) (dkeys d))))"

text \<open>
  \<open>__trim_recursive_incorps\<close>.  A list of packages is not processed again, so the number of rounds
  is bounded by that of the sets of packages; \<open>n\<close> is a budget for it.
\<close>

definition same_fmris :: "fmri list \<Rightarrow> fmri list \<Rightarrow> bool" where
  "same_fmris fs gs \<longleftrightarrow> list_all (\<lambda>f. fin f gs) fs \<and> list_all (\<lambda>g. fin g fs) gs"

definition incorp_todo :: "fmri list list \<Rightarrow> (string \<times> fmri list \<times> fmri list) list \<Rightarrow> fmri list list" where
  "incorp_todo processed d =
     filter (\<lambda>m. m \<noteq> [] \<and> \<not> list_ex (same_fmris m) processed) (map (fst \<circ> snd) d)"

primrec trim_recursive_incorps ::
  "senv \<Rightarrow> trim_reason \<Rightarrow> nat \<Rightarrow> fmri list list \<Rightarrow> fmri list list \<Rightarrow> unit srun" where
  "trim_recursive_incorps env reason 0 = (\<lambda>work processed.
     if work = [] then mret () else mfail OutOfFuel)"
| "trim_recursive_incorps env reason (Suc n) = (\<lambda>work processed.
     case work of [] \<Rightarrow> mret () | fs # work' \<Rightarrow>
       if fs = [] then mfail (SolverPy IndexError)
       else if dget (e_installed env) (f_name (hd fs)) = None
       then trim_recursive_incorps env reason n work' processed
       else
         mthen (combine_incorps env fs) (\<lambda>d.
         mthen (mloop (\<lambda>(name, m, nm). trim nm reason []) d) (\<lambda>_.
           trim_recursive_incorps env reason n (rev (incorp_todo (fs # processed) d) @ work')
             (fs # processed))))"

section \<open>Allowed downgrades\<close>

text \<open>
  \<open>__get_older_incorp_pkgs\<close>.  A package with an install hold is skipped, unless one of its holds
  starts with a hold of the incorporating package.
\<close>

fun held :: "string list \<Rightarrow> bool \<Rightarrow> action list \<Rightarrow> solver_exn + bool" where
  "held holds acc [] = Inr acc"
| "held holds acc (a # acts) =
     (if str_attr a ''name'' \<noteq> ''pkg.depend.install-hold'' then held holds acc acts
      else case dget (a_attrs a) ''value'' of
             Some (AStr v) \<Rightarrow> if list_ex (starts_with v) holds then Inr False else held holds True acts
           | _ \<Rightarrow> if holds = [] then held holds True acts else Inl (SolverPy AttributeError))"

definition dg_cached :: "sstate \<Rightarrow> fmri \<Rightarrow> fmri list option" where
  "dg_cached s f = map_option snd (find (\<lambda>e. fmri_eq (fst e) f) (s_dg_cache s))"

definition dg_add :: "fmri \<Rightarrow> fmri list \<Rightarrow> sstate \<Rightarrow> sstate" where
  "dg_add f ds s =
     s\<lparr>s_dg_cache := (f, funion (case dg_cached s f of None \<Rightarrow> [] | Some c \<Rightarrow> c) ds) # s_dg_cache s\<rparr>"

text \<open>One package that an incorporation of \<open>f\<close> allows; \<open>nested\<close> is the recursive call.\<close>

definition downgrade_step ::
  "senv \<Rightarrow> string list \<Rightarrow> bool \<Rightarrow> (fmri \<Rightarrow> fmri list srun) \<Rightarrow> fmri \<Rightarrow> fmri \<Rightarrow> fmri \<Rightarrow> fmri list srun" where
  "downgrade_step env holds relax_all nested f inst df =
     (let succ = newer_version (f_version df) (f_version inst)
      in if opt_version_eq (f_version df) (f_version inst) \<or> relax_all \<and> succ
            \<or> f_publisher df \<noteq> f_publisher f then mret []
         else mthen (mget (\<lambda>s. fin f (s_removal s))) (\<lambda>removed.
           if removed then mret []
           else
             mthen (get_set_actions env df) (\<lambda>acts.
             mthen (mlift (held holds False acts)) (\<lambda>hold.
             if hold then mret []
             else
               mthen (if succ then mret [] else mthen (mmod (dg_add f [df])) (\<lambda>_. mret [df])) (\<lambda>own.
               mthen (if relax_all then mret [] else nested df) (\<lambda>more.
               mret (funion own more)))))))"

definition older_incorp_body ::
  "senv \<Rightarrow> string list \<Rightarrow> bool \<Rightarrow> (fmri \<Rightarrow> fmri list srun) \<Rightarrow> fmri \<Rightarrow> fmri list srun" where
  "older_incorp_body env holds relax_all nested f =
     mthen (mmod (dg_add f [])) (\<lambda>_.
     mthen (get_incorp_nonmatch_dict env f) (\<lambda>d.
     mthen (meach (\<lambda>(name, matchdg, _).
         case dget (e_installed env) name of
           None \<Rightarrow> mret []
         | Some inst \<Rightarrow>
             if matchdg = [] \<or> fin inst matchdg then mret []
             else mthen (meach (downgrade_step env holds relax_all nested f inst) matchdg)
                    (\<lambda>dss. mret (concat dss))) d) (\<lambda>dss.
     mret (fdedup (concat dss)))))"

primrec older_incorp_pkgs :: "senv \<Rightarrow> string list \<Rightarrow> bool \<Rightarrow> nat \<Rightarrow> fmri \<Rightarrow> fmri list srun" where
  "older_incorp_pkgs env holds relax_all 0 = (\<lambda>f.
     mthen (mget (\<lambda>s. dg_cached s f)) (\<lambda>c. mret (case c of Some ds \<Rightarrow> ds | None \<Rightarrow> [])))"
| "older_incorp_pkgs env holds relax_all (Suc n) = (\<lambda>f.
     mthen (mget (\<lambda>s. dg_cached s f)) (\<lambda>c. case c of
         Some ds \<Rightarrow> mret ds
       | None \<Rightarrow> older_incorp_body env holds relax_all (older_incorp_pkgs env holds relax_all n) f))"

text \<open>The depth is limited to ten levels below the first.\<close>

fun hold_values :: "action list \<Rightarrow> solver_exn + string list" where
  "hold_values [] = Inr []"
| "hold_values (a # acts) =
     (if str_attr a ''name'' \<noteq> ''pkg.depend.install-hold'' then hold_values acts
      else case dget (a_attrs a) ''value'' of
             Some (AStr v) \<Rightarrow> sbind (hold_values acts) (\<lambda>vs. Inr (v # vs))
           | _ \<Rightarrow> Inl (SolverPy TypeError))"

definition allow_incorp_downgrades :: "senv \<Rightarrow> bool \<Rightarrow> fmri \<Rightarrow> fmri list srun" where
  "allow_incorp_downgrades env relax_all f =
     mthen (get_set_actions env f) (\<lambda>acts.
     mthen (mlift (hold_values acts)) (\<lambda>holds.
       older_incorp_pkgs env (remdups holds) relax_all 11 f))"

end
