(* ===== verification/Solver_Plan.thy ===== *)
theory Solver_Plan
  imports Solver_Clauses Solver_Trim
begin

text \<open>
  The operations of the solver: \<open>solve_install\<close>, \<open>solve_update_all\<close> and \<open>solve_uninstall\<close>, phase by
  phase.  Where the code raises a \<open>PlanCreationException\<close> it goes on to look for a better text of the
  error; here the exception alone is the result.
\<close>

section \<open>What is removed and what is required\<close>

definition remove_names :: "string list \<Rightarrow> string list \<Rightarrow> string list" where
  "remove_names xs ys = filter (\<lambda>x. x \<notin> set ys) xs"

text \<open>\<open>__set_removed_and_required_packages\<close>.\<close>

definition set_removed_and_required ::
  "senv \<Rightarrow> string list \<Rightarrow> string list \<Rightarrow> unit srun" where
  "set_removed_and_required env rejected proposed =
     mthen (mmod (\<lambda>s. s\<lparr>s_avoid := remove_names (s_avoid s) proposed,
                        s_implicit_avoid := remove_names (s_implicit_avoid s) proposed\<rparr>)) (\<lambda>_.
     mthen (mfilter (\<lambda>f. mthen (trim_nonmatching_variants env f) (\<lambda>fit. mret (\<not> fit)))
              (installed_fmris env)) (\<lambda>misfits.
     mthen (mmod (\<lambda>s. s\<lparr>s_removal := funion (s_removal s)
                          (List.map_filter (dget (e_installed env)) rejected @ misfits),
                        s_reject := rejected\<rparr>)) (\<lambda>_.
     mthen (mloop (\<lambda>n. mthen (get_catalog_fmris env n) (\<lambda>fs. trim fs TrimReject [])) rejected) (\<lambda>_.
     mmod (\<lambda>s. s\<lparr>s_req := remove_names
         (remove_names (map fst (e_installed env) @ proposed) rejected) (map f_name (s_removal s))\<rparr>)))))"

text \<open>
  \<open>__set_proposed_required\<close>: the names that all remaining versions of a proposed package depend on.
\<close>

fun required_names :: "sstate \<Rightarrow> action list \<Rightarrow> solver_exn + string list" where
  "required_names s [] = Inr []"
| "required_names s (da # das) =
     (let t = str_attr da ''type''
      in if t \<noteq> ''conditional'' \<and> t \<noteq> ''group'' \<and> t \<noteq> ''require'' then required_names s das
         else case dget (a_attrs da) ''fmri'' of
             Some (AStr fs) \<Rightarrow>
               (case extract_pkg_name fs of
                  Inl e \<Rightarrow> Inl (BadFmri e)
                | Inr n \<Rightarrow> sbind (required_names s das) (\<lambda>ns.
                    Inr (if t = ''group'' \<and> (n \<in> set (s_avoid s) \<or> n \<in> set (s_reject s)) then ns else n # ns)))
           | _ \<Rightarrow> Inl (SolverPy AttributeError))"

definition common_names :: "string list list \<Rightarrow> string list" where
  "common_names nss = (case nss of [] \<Rightarrow> [] | ns # rest \<Rightarrow> filter (\<lambda>n. \<forall>ms \<in> set rest. n \<in> set ms) ns)"

definition set_proposed_required :: "senv \<Rightarrow> fmri list dict \<Rightarrow> unit srun" where
  "set_proposed_required env prop =
     mthen (meach (\<lambda>(name, fs).
       mthen (mget (dotrim_list fs)) (\<lambda>left.
       mthen (meach (\<lambda>f. mthen (get_dependency_actions env f) (\<lambda>acts.
           mthen (mget (\<lambda>s. required_names s acts)) mlift)) (fdedup left)) (\<lambda>nss.
       mret (common_names nss)))) prop) (\<lambda>nss.
     mmod (\<lambda>s. s\<lparr>s_req := remdups (concat nss @ s_req s)\<rparr>))"

text \<open>\<open>__trim_proposed\<close>: the proposed packages that are left; no version left is an error.\<close>

definition trim_proposed :: "fmri list dict \<Rightarrow> fmri list dict srun" where
  "trim_proposed prop =
     mthen (mget (\<lambda>s. map (\<lambda>(n, fs). (n, dotrim_list fs s)) prop)) (\<lambda>prop'.
     if \<exists>(n, fs) \<in> set prop'. fs = [] then mfail NoVersion else mret prop')"

text \<open>
  \<open>__assert_installed_allowed\<close>.  The exception is raised where the report on the packages has
  something to say, which \<open>report\<close> stands for.
\<close>

definition disallowed :: "senv \<Rightarrow> string list \<Rightarrow> sstate \<Rightarrow> fmri list" where
  "disallowed env proposed s =
     map (\<lambda>n. the (dget (e_installed env) n))
       (filter (\<lambda>n. dget (s_possible s) n = None) (kept_names env proposed s))"

definition assert_installed_allowed ::
  "senv \<Rightarrow> (sstate \<Rightarrow> fmri list \<Rightarrow> bool) \<Rightarrow> string list \<Rightarrow> unit srun" where
  "assert_installed_allowed env report proposed =
     mthen (mget (\<lambda>s. disallowed env proposed s \<noteq> [] \<and> report s (disallowed env proposed s))) (\<lambda>bad.
       if bad then mfail NoVersion else mret ())"

section \<open>Installed incorporations\<close>

text \<open>\<open>__installed_unsatisfied_parent_deps\<close>.\<close>

definition installed_unsatisfied_parent_deps :: "senv \<Rightarrow> bool \<Rightarrow> string list srun" where
  "installed_unsatisfied_parent_deps env ignore =
     (if e_parents env = None \<or> ignore then mret []
      else
        mthen (mfilter (\<lambda>f.
          mthen (get_dependency_actions env f) (\<lambda>acts.
          mthen (mwhen (list_ex (\<lambda>a. str_attr a ''type'' = ''parent'') acts)
                   (mmod (\<lambda>s. s\<lparr>s_linked := funion (s_linked s) [f]\<rparr>))) (\<lambda>_.
          mret (depends_on_self acts
            \<and> (case parent_pkg env (f_name f) of None \<Rightarrow> True | Some pf \<Rightarrow> \<not> fmri_eq pf f)))))
          (installed_fmris env)) (\<lambda>fs. mret (map f_name fs)))"

text \<open>What the installed packages say: their incorporations, versioned dependencies and holds.\<close>

record inst_info =
  ii_cons :: "(fmri \<times> fmri list) list"
  ii_versioned :: "string list"
  ii_holds :: "(string \<times> string) list"

definition inst_action :: "fmri \<Rightarrow> action \<Rightarrow> inst_info \<Rightarrow> solver_exn + inst_info" where
  "inst_action f d i =
     (if a_name d = ''depend'' then
        sbind (dep_fmris d) (\<lambda>fs.
        case dget (a_attrs d) ''type'' of
          None \<Rightarrow> Inl (SolverPy (KeyError ''type''))
        | Some t \<Rightarrow>
            if t = AStr ''incorporate'' \<and> fs = [] then Inl (SolverPy IndexError)
            else Inr (i\<lparr>ii_cons := (if t = AStr ''incorporate'' then ii_cons i @ [(f, [hd fs])] else ii_cons i),
                   ii_versioned := ii_versioned i @ map f_name (filter (\<lambda>g. f_version g \<noteq> None) fs)\<rparr>))
      else if a_name d = ''set'' \<and> str_attr d ''name'' = ''pkg.depend.install-hold'' then
        (case dget (a_attrs d) ''value'' of
           Some (AStr v) \<Rightarrow> Inr (i\<lparr>ii_holds := AList.update (f_name f) v (ii_holds i)\<rparr>)
         | _ \<Rightarrow> Inl (SolverPy TypeError))
      else Inr i)"

fun inst_actions :: "fmri \<Rightarrow> action list \<Rightarrow> inst_info \<Rightarrow> solver_exn + inst_info" where
  "inst_actions f [] i = Inr i"
| "inst_actions f (d # ds) i = sbind (inst_action f d i) (inst_actions f ds)"

fun inst_infos :: "senv \<Rightarrow> fmri list \<Rightarrow> inst_info \<Rightarrow> solver_exn + inst_info" where
  "inst_infos env [] i = Inr i"
| "inst_infos env (f # fs) i =
     sbind (get_entry_actions env (e_excludes env) f) (\<lambda>acts.
     sbind (inst_actions f acts i) (inst_infos env fs))"

definition cons_of :: "(fmri \<times> fmri list) list \<Rightarrow> fmri \<Rightarrow> fmri list" where
  "cons_of cs f = concat (map snd (filter (\<lambda>e. fmri_eq (fst e) f) cs))"

text \<open>\<open>__get_child_holds\<close>.\<close>

definition child_matches ::
  "senv \<Rightarrow> inst_info \<Rightarrow> fmri list \<Rightarrow> fmri list \<Rightarrow> (fmri list \<times> fmri list) srun" where
  "child_matches env i cs proc =
     mthen (meach (\<lambda>con. mthen (comb_auto env con True True) (\<lambda>(m, _). mret (con, m)))
              (filter (\<lambda>c. map_of (ii_holds i) (f_name c) = None \<and> \<not> fin c proc) cs)) (\<lambda>ps.
     mret (concat (map (\<lambda>(con, m). if length m = 1 then m else []) ps),
           concat (map (\<lambda>(con, m). if length m = 1 then [] else [con]) ps)))"

fun child_holds_loop ::
  "senv \<Rightarrow> inst_info \<Rightarrow> nat \<Rightarrow> fmri list \<Rightarrow> fmri list \<Rightarrow> fmri list \<Rightarrow> fmri list \<Rightarrow> fmri list srun" where
  "child_holds_loop env i n [] processed proc incorps = mret incorps"
| "child_holds_loop env i 0 (f # todo) processed proc incorps = mfail OutOfFuel"
| "child_holds_loop env i (Suc n) (f # todo) processed proc incorps =
     mthen (mget (\<lambda>s. fin f (s_removal s))) (\<lambda>removed.
     if removed then child_holds_loop env i n todo (f # processed) proc incorps
     else
       mthen (child_matches env i (cons_of (ii_cons i) f) proc) (\<lambda>(ms, done).
         child_holds_loop env i n (funion todo (fdiff ms (f # processed))) (f # processed) (proc @ done)
           (if cons_of (ii_cons i) f \<noteq> [] \<and> map_of (ii_holds i) (f_name f) = None
            then funion incorps [f] else incorps)))"

definition relaxed_holds :: "string list \<Rightarrow> (string \<times> string) list \<Rightarrow> string list" where
  "relaxed_holds relax holds =
     (let direct = List.map_filter (map_of holds) relax
      in direct @ filter (\<lambda>h. list_ex (\<lambda>r. starts_with h (r @ ''.'')) direct) (map snd holds))"

text \<open>\<open>__get_installed_unbound_inc_list\<close>: the incorporations that must not change.\<close>

definition get_installed_unbound_inc_list :: "senv \<Rightarrow> string list \<Rightarrow> (fmri list \<times> fmri list list) srun" where
  "get_installed_unbound_inc_list env relax =
     mthen (mget (\<lambda>s. inst_infos env (remaining_installed env s)
              \<lparr>ii_cons = [], ii_versioned = [], ii_holds = []\<rparr>)) (\<lambda>r. mthen (mlift r) (\<lambda>i.
     let relaxed = relaxed_holds relax (ii_holds i);
         incs = fdedup (map fst (ii_cons i));
         start = filter (\<lambda>f. case map_of (ii_holds i) (f_name f) of None \<Rightarrow> False
                             | Some h \<Rightarrow> h \<notin> set relaxed) incs
     in
     mthen (mget (closure_fuel env start)) (\<lambda>n.
     mthen (child_holds_loop env i n start [] [] []) (\<lambda>children.
     let holds = fold (\<lambda>c. AList.update (f_name c) (f_name c)) children (ii_holds i);
         versioned = filter (\<lambda>n. case map_of holds n of None \<Rightarrow> True | Some h \<Rightarrow> h \<in> set relaxed)
                       (ii_versioned i)
     in mget (\<lambda>s.
       let ret = map (\<lambda>n. the (dget (e_installed env) n))
             (filter (\<lambda>n. n \<notin> set versioned \<and> n \<notin> set relax
                 \<and> \<not> fin (the (dget (e_installed env) n)) (s_removal s)) (remdups (map f_name incs)))
       in (ret, map (cons_of (ii_cons i)) ret))))))"

section \<open>The result\<close>

text \<open>\<open>__update_solution_set\<close>.\<close>

definition update_solution_set :: "senv \<Rightarrow> fmri list \<Rightarrow> fmri list srun" where
  "update_solution_set env sol =
     mthen (meach (\<lambda>f. mthen (get_actions env (e_excludes env) False ''depend'' f) (\<lambda>acts.
         mlift (sbind (smap dep_fmris
             (filter (\<lambda>a. str_attr a ''type'' = ''group'' \<or> str_attr a ''type'' = ''group-any'') acts))
           (\<lambda>fss. Inr (map f_name (concat fss)))))) sol) (\<lambda>nss.
     let tracked = remdups (concat nss); avoided = remove_names tracked (map f_name sol) in
     mthen (mmod (\<lambda>s. s\<lparr>s_avoid := remdups (s_avoid s @ filter (\<lambda>n. n \<in> set (s_reject s)) avoided)\<rparr>)) (\<lambda>_.
     mthen (mfilter (fmri_is_obsolete env) sol) (\<lambda>obs.
     mthen (mmod (\<lambda>s. s\<lparr>s_obs := filter (\<lambda>n. n \<in> set tracked) (map f_name obs)\<rparr>)) (\<lambda>_.
     mthen (mmod (\<lambda>s. s\<lparr>s_implicit_avoid :=
         remdups (s_implicit_avoid s @ remove_names (remove_names avoided (s_avoid s)) (s_obs s))\<rparr>)) (\<lambda>_.
     mret (fdiff sol obs))))))"

record plan =
  pl_fmris :: "fmri list"
  pl_avoid :: "string list"
  pl_implicit_avoid :: "string list"
  pl_obs :: "string list"

definition end_solve :: "senv \<Rightarrow> fmri list \<Rightarrow> plan srun" where
  "end_solve env sol =
     mthen (elide_possible_renames env sol) (\<lambda>fs.
       mget (\<lambda>s. \<lparr>pl_fmris = fs, pl_avoid = s_avoid s, pl_implicit_avoid = s_implicit_avoid s,
                  pl_obs = s_obs s\<rparr>))"

section \<open>Installing\<close>

record iargs =
  i_freezes :: "fmri list"
  i_new_variants :: "(string \<times> string) list"
  i_reject :: "string list"
  i_trim_installed :: bool
  i_relax_all :: bool
  i_ignore_parents :: bool
  i_origin_installed :: "fmri dict"
  i_budget :: nat

text \<open>Phase 1: what is proposed, removed, required and held.\<close>

definition with_triggered :: "senv \<Rightarrow> fmri list dict \<Rightarrow> fmri list dict" where
  "with_triggered env prop =
     fold (\<lambda>f d. dput (f_name f) (proposed_of d (f_name f) @ [f]) d) (e_trig_update env) prop"

definition change_variants :: "senv \<Rightarrow> (string \<times> string) list \<Rightarrow> unit srun" where
  "change_variants env vars =
     mwhen (vars \<noteq> [])
       (mthen (mmod (\<lambda>s. s\<lparr>s_variants := vars\<rparr>)) (\<lambda>_.
        mloop (\<lambda>f. mthen (get_variant_dict env f) (\<lambda>vd.
          mwhen (\<not> variants_fit vars vd) (mmod (\<lambda>s. s\<lparr>s_removal := funion (s_removal s) [f]\<rparr>))))
          (installed_fmris env)))"

definition fix_publishers :: "senv \<Rightarrow> fmri list dict \<Rightarrow> unit srun" where
  "fix_publishers env prop =
     mloop (\<lambda>(n, fs).
       if dget (e_installed env) n \<noteq> None then mmod (mark_pub_trimmed n)
       else if fs = [] then mfail (SolverPy IndexError)
       else mmod (\<lambda>s. s\<lparr>s_publisher := dput n (f_publisher (hd fs)) (s_publisher s)\<rparr>)) prop"

definition relax_packages :: "senv \<Rightarrow> iargs \<Rightarrow> fmri list dict \<Rightarrow> string list srun" where
  "relax_packages env args prop =
     (if i_relax_all args then mret (map fst (e_installed env))
      else
        mthen (mget (\<lambda>s. map fst (filter (\<lambda>(n, fs).
            \<not> (length fs = 1 \<and> list_ex (\<lambda>f. fin f (remaining_installed env s)) fs)) prop))) (\<lambda>names.
        mthen (installed_unsatisfied_parent_deps env (i_ignore_parents args)) (\<lambda>more_names.
        mret (remdups (names @ more_names)))))"

text \<open>Phase 2: the packages to choose from.\<close>

definition expand_proposed :: "senv \<Rightarrow> fmri list dict \<Rightarrow> unit srun" where
  "expand_proposed env prop =
     mloop (\<lambda>(n, fs). mloop (\<lambda>f.
       mthen (allow_incorp_downgrades env False f) (\<lambda>ds.
       mthen (mmod (\<lambda>s. s\<lparr>s_downgrades := funion (s_downgrades s) ds\<rparr>)) (\<lambda>_.
       mthen (is_explicit_install env f) (\<lambda>ex.
       mwhen ex (mmod (\<lambda>s. s\<lparr>s_expl := dput n (proposed_of (s_expl s) n @ [f]) (s_expl s)\<rparr>)))))) fs) prop"

definition relax_downgrades :: "senv \<Rightarrow> fmri list \<Rightarrow> unit srun" where
  "relax_downgrades env fs =
     mloop (\<lambda>f. mthen (allow_incorp_downgrades env True f) (\<lambda>ds.
       mmod (\<lambda>s. s\<lparr>s_downgrades := funion (s_downgrades s) ds\<rparr>))) fs"

definition initial_possible :: "senv \<Rightarrow> iargs \<Rightarrow> fmri list dict \<Rightarrow> fmri list srun" where
  "initial_possible env args prop =
     mthen (mget (remaining_installed env)) (\<lambda>inst.
     mthen (mmod (\<lambda>s. s\<lparr>s_downgrades := []\<rparr>)) (\<lambda>_.
     mthen (meach (\<lambda>f. mthen (comb_newer env f True True) (\<lambda>(m, _). mret (funion m [f]))) inst) (\<lambda>fss.
     mthen (mmod (\<lambda>s. s\<lparr>s_expl := []\<rparr>)) (\<lambda>_.
     mthen (expand_proposed env prop) (\<lambda>_.
     let fs = fdedup (concat fss @ concat (map snd prop)) in
     mthen (mwhen (prop = [] \<and> i_relax_all args) (relax_downgrades env fs)) (\<lambda>_.
     mget (\<lambda>s. funion fs (s_downgrades s))))))))"

text \<open>Phases 3 to 6: trimming.\<close>

definition trim_older_installed :: "senv \<Rightarrow> iargs \<Rightarrow> fmri list dict \<Rightarrow> unit srun" where
  "trim_older_installed env args prop =
     mthen (mget (remaining_installed env)) (mloop (\<lambda>f.
       if \<not> i_trim_installed args \<and> proposed_of prop (f_name f) \<noteq> []
          \<and> newer_version (f_version f) (f_version (last (proposed_of prop (f_name f)))) then mret ()
       else
         let tfs = filter (\<lambda>tf. f_name tf = f_name f) (e_trig_update env)
         in if tfs \<noteq> [] then mloop (trim_older env) tfs else trim_older env f))"

definition trim_others :: "senv \<Rightarrow> iargs \<Rightarrow> fmri list dict \<Rightarrow> unit srun" where
  "trim_others env args prop =
     mloop (\<lambda>(n, fs).
       mthen (get_catalog_fmris env n) (\<lambda>all.
       mthen (trim (fdiff all fs) TrimProposedVer []) (\<lambda>_.
       trim_recursive_incorps env TrimProposedInc (i_budget args) [fs] []))) prop"

definition drop_nonmatching_parents :: "senv \<Rightarrow> bool \<Rightarrow> fmri list \<Rightarrow> fmri list srun" where
  "drop_nonmatching_parents env ignore fs = mfilter (trim_nonmatching_parents env ignore) fs"

definition trim_synced ::
  "senv \<Rightarrow> nat \<Rightarrow> (string \<Rightarrow> bool) \<Rightarrow> fmri list dict \<Rightarrow> fmri list \<Rightarrow> unit srun" where
  "trim_synced env budget relaxed prop fs =
     mthen (mget (\<lambda>s. filter (\<lambda>f. fin f (s_linked s) \<and> relaxed (f_name f)) fs)) (\<lambda>linked.
     mloop (\<lambda>n.
       let others = fdiff (proposed_of prop n) (case parent_pkg env n of None \<Rightarrow> [] | Some pf \<Rightarrow> [pf]);
           gs = fdiff (filter (\<lambda>f. f_name f = n) linked) others
       in mwhen (gs \<noteq> []) (trim_recursive_incorps env TrimSyncedInc budget [gs] []))
       (remdups (map f_name linked)))"

definition trim_maintained :: "senv \<Rightarrow> fmri list \<Rightarrow> fmri list list \<Rightarrow> unit srun" where
  "trim_maintained env incs con_lists =
     mloop (\<lambda>(i, fs).
       mthen (comb_auto env i True True) (\<lambda>(_, nm).
       mthen (trim nm TrimInstalledInc []) (\<lambda>_.
       mloop (\<lambda>f. mthen (comb_auto env f False True) (\<lambda>(_, nm). trim nm TrimInstalledInc [])) fs)))
       (zip incs con_lists)"

definition trim_image :: "senv \<Rightarrow> bool \<Rightarrow> fmri dict \<Rightarrow> fmri list \<Rightarrow> unit srun" where
  "trim_image env ignore inst fs =
     mloop (\<lambda>f.
       mthen (trim_nonmatching_parents env ignore f) (\<lambda>ok.
       mwhen ok (mthen (trim_nonmatching_variants env f) (\<lambda>ok.
       mwhen ok (mthen (trim_nonmatching_origins env inst f) (\<lambda>_. mret ())))))) fs"

text \<open>Phases 11 and 12: the clauses; phases 13 to 16: the three searches.\<close>

definition set_clauses ::
  "msat \<Rightarrow> senv \<Rightarrow> (sstate \<Rightarrow> fmri list \<Rightarrow> bool) \<Rightarrow> fmri list dict \<Rightarrow> fmri list \<Rightarrow> unit srun" where
  "set_clauses ms env report prop possible =
     mthen (mmod (assign_fmri_ids possible)) (\<lambda>_.
     mthen (enforce_unique_packages ms env) (\<lambda>_.
     mthen (generate_operation_clauses ms env prop) (\<lambda>_.
     assert_installed_allowed env report (map fst prop))))"

definition MAX_ITERATIONS :: nat where "MAX_ITERATIONS = 2000"

definition search :: "msat \<Rightarrow> senv \<Rightarrow> string list \<Rightarrow> fmri list srun" where
  "search ms env names =
     mthen (mget save_solver) (\<lambda>saved.
     mthen (solve ms env False MAX_ITERATIONS) (\<lambda>first.
     mthen (mmod (restore_solver saved)) (\<lambda>_.
     mthen (mloop (\<lambda>f. one_of_these ms [f]) (filter (\<lambda>f. f_name f \<in> set names) first)) (\<lambda>_.
     mthen (mget save_solver) (\<lambda>saved2.
     mthen (solve ms env True MAX_ITERATIONS) (\<lambda>second.
     mthen (mmod (restore_solver saved2)) (\<lambda>_.
     mthen (mloop (\<lambda>f. one_of_these ms [f]) (finter second (installed_fmris env))) (\<lambda>_.
     solve ms env False MAX_ITERATIONS))))))))"

text \<open>\<open>solve_install\<close> up to the clauses: the proposed packages that are left, and the possible ones.\<close>

definition install_setup :: "senv \<Rightarrow> iargs \<Rightarrow> fmri list dict \<Rightarrow> (fmri list dict \<times> fmri list) srun" where
  "install_setup env args prop0 =
     (let prop = with_triggered env prop0;
          rejected = remdups (i_reject args @ map f_name (e_trig_uninstall env)) in
     mthen (change_variants env (i_new_variants args)) (\<lambda>_.
     mthen (fix_publishers env prop) (\<lambda>_.
     mthen (set_removed_and_required env rejected (map fst prop)) (\<lambda>_.
     mthen (relax_packages env args prop) (\<lambda>relax.
     mthen (get_installed_unbound_inc_list env relax) (\<lambda>(incs, con_lists).
     mthen (mmod (\<lambda>s. s\<lparr>s_inc_list := incs\<rparr>)) (\<lambda>_.
     mthen (initial_possible env args prop) (\<lambda>possible0.
     mthen (trim_older_installed env args prop) (\<lambda>_.
     mthen (trim_others env args prop) (\<lambda>_.
     mthen (drop_nonmatching_parents env (i_ignore_parents args) possible0) (\<lambda>possible1.
     mthen (trim_synced env (i_budget args) (\<lambda>n. n \<in> set relax) prop possible1) (\<lambda>_.
     mthen (trim_maintained env incs con_lists) (\<lambda>_.
     mthen (trim_frozen env (i_freezes args)) (\<lambda>_.
     mthen (mloop (\<lambda>(n, fs). mloop (\<lambda>f. mthen (trim_nonmatching_variants env f) (\<lambda>_. mret ())) fs) prop) (\<lambda>_.
     mthen (trim_proposed prop) (\<lambda>prop1.
     mthen (set_proposed_required env prop1) (\<lambda>_.
     mthen (update_possible_closure env prop1 True possible1) (\<lambda>possible2.
     mthen (trim_image env (i_ignore_parents args) (i_origin_installed args) possible2) (\<lambda>_.
     mthen (mget (dotrim_list possible2)) (\<lambda>possible3.
     mthen (trim_proposed prop1) (\<lambda>prop2.
     mret (prop2, possible3))))))))))))))))))))))"

definition solve_install ::
  "msat \<Rightarrow> senv \<Rightarrow> (sstate \<Rightarrow> fmri list \<Rightarrow> bool) \<Rightarrow> iargs \<Rightarrow> fmri list dict \<Rightarrow> plan srun" where
  "solve_install ms env report args prop0 =
     mthen (install_setup env args prop0) (\<lambda>(prop, possible).
     mthen (set_clauses ms env report prop possible) (\<lambda>_.
     mthen (search ms env (map fst prop)) (\<lambda>sol.
     mthen (update_solution_set env sol) (\<lambda>sol'.
     end_solve env sol'))))"

section \<open>Updating\<close>

definition update_setup :: "senv \<Rightarrow> iargs \<Rightarrow> fmri list srun" where
  "update_setup env args =
     mthen (set_removed_and_required env (i_reject args) []) (\<lambda>_.
     mthen (installed_unsatisfied_parent_deps env False) (\<lambda>synced.
     mthen (mget (remaining_installed env)) (\<lambda>inst.
     mthen (meach (\<lambda>f. mthen (comb_newer env f True True) (\<lambda>(m, _). mret (if m = [] then [f] else m))) inst)
       (\<lambda>fss.
     mthen (mmod (\<lambda>s. s\<lparr>s_downgrades := []\<rparr>)) (\<lambda>_.
     mthen (relax_downgrades env (fdedup (concat fss))) (\<lambda>_.
     mthen (mget (\<lambda>s. funion (fdedup (concat fss)) (s_downgrades s))) (\<lambda>possible0.
     mthen (mloop (trim_older env) (installed_fmris env)) (\<lambda>_.
     mthen (trim_frozen env (i_freezes args)) (\<lambda>_.
     mthen (drop_nonmatching_parents env False possible0) (\<lambda>possible1.
     mthen (trim_synced env (i_budget args) (\<lambda>n. n \<notin> set synced) [] possible1) (\<lambda>_.
     mthen (update_possible_closure env [] True possible1) (\<lambda>possible2.
     mthen (trim_image env False (e_installed env) possible2) (\<lambda>_.
     mget (dotrim_list possible2))))))))))))))"

text \<open>
  \<open>__get_installed_upgradeable_incorps\<close>: installed packages with an install hold of which a newer
  version exists.
\<close>

definition upgradeable_incorps :: "senv \<Rightarrow> fmri list srun" where
  "upgradeable_incorps env =
     mthen (mget (remaining_installed env)) (\<lambda>inst.
     mthen (mfilter (\<lambda>f. mlift (sbind (get_entry_actions env (e_excludes env) f) (\<lambda>acts.
         Inr (list_ex (\<lambda>a. a_name a = ''set'' \<and> str_attr a ''name'' = ''pkg.depend.install-hold'') acts))))
       inst) (\<lambda>holders.
     mthen (meach (\<lambda>f. mthen (comb_newer env f False True) (\<lambda>(m, _).
         if m = [] then mfail (SolverPy IndexError)
         else mret (filter (\<lambda>g. \<not> fmri_eq g f) [last (sort_key fmri_key m)]))) holders) (\<lambda>gss.
     mret (concat gss))))"

definition solve_update_all ::
  "msat \<Rightarrow> senv \<Rightarrow> (sstate \<Rightarrow> fmri list \<Rightarrow> bool) \<Rightarrow> iargs \<Rightarrow> plan srun" where
  "solve_update_all ms env report args =
     mthen (update_setup env args) (\<lambda>possible.
     mthen (set_clauses ms env report [] possible) (\<lambda>_.
     mthen (solve ms env False MAX_ITERATIONS) (\<lambda>sol.
     mthen (update_solution_set env sol) (\<lambda>sol'.
     if \<not> same_fmris sol' (installed_fmris env) then end_solve env sol'
     else
       mthen (upgradeable_incorps env) (\<lambda>incs.
       if incs = [] \<or> e_parents env \<noteq> None then end_solve env sol' else mfail NoSolution)))))"

section \<open>Uninstalling\<close>

text \<open>\<open>__get_dependents\<close>: the installed packages that require an installed one.\<close>

definition requires_name :: "action list \<Rightarrow> solver_exn + string list" where
  "requires_name acts =
     smap (\<lambda>a. case dget (a_attrs a) ''fmri'' of
         Some (AStr t) \<Rightarrow> sbind (parse_fmri t) (\<lambda>f. Inr (f_name f))
       | _ \<Rightarrow> Inl (SolverPy TypeError))
       (filter (\<lambda>a. str_attr a ''type'' = ''require'') acts)"

definition dependents_table :: "senv \<Rightarrow> (fmri \<times> fmri) list srun" where
  "dependents_table env =
     mthen (meach (\<lambda>f. mthen (get_dependency_actions env f) (\<lambda>acts.
         mthen (mlift (requires_name acts)) (\<lambda>ns.
         mlift (smap (\<lambda>n. case dget (e_installed env) n of
             None \<Rightarrow> Inl (SolverPy (KeyError n)) | Some g \<Rightarrow> Inr (g, f)) ns)))) (installed_fmris env)) (\<lambda>tss.
     mret (concat tss))"

definition dependents :: "(fmri \<times> fmri) list \<Rightarrow> fmri \<Rightarrow> fmri list" where
  "dependents table g = fdedup (map snd (filter (\<lambda>e. fmri_eq (fst e) g) table))"

text \<open>A dependent that is updated to a version which does not require the package is no obstacle.\<close>

definition still_requires :: "senv \<Rightarrow> fmri \<Rightarrow> fmri \<Rightarrow> bool srun" where
  "still_requires env pfmri f =
     (let tfs = filter (\<lambda>tf. f_name tf = f_name f) (e_trig_update env) in
      mthen (meach (\<lambda>tf. mthen (get_dependency_actions env tf) (\<lambda>acts.
          mthen (mlift (requires_name acts)) (\<lambda>ns. mret (f_name pfmri \<in> set ns)))) tfs) (\<lambda>rs.
      if 2 \<le> length (filter Not rs) then mfail (SolverPy (KeyError ''dependents''))
      else mret (list_all id rs)))"

definition check_dependents :: "senv \<Rightarrow> (fmri \<times> fmri) list \<Rightarrow> fmri list \<Rightarrow> unit srun" where
  "check_dependents env table removals =
     mloop (\<lambda>p.
       mthen (mfilter (still_requires env p) (fdiff (dependents table p) removals)) (\<lambda>ds.
       if ds \<noteq> [] then mfail (NonLeafPackage p ds) else mret ())) removals"

definition solve_uninstall ::
  "msat \<Rightarrow> senv \<Rightarrow> (sstate \<Rightarrow> fmri list \<Rightarrow> bool) \<Rightarrow> iargs \<Rightarrow> fmri list \<Rightarrow> plan srun" where
  "solve_uninstall ms env report args uninstall_list =
     mthen (elide_possible_renames env (installed_fmris env)) (\<lambda>left.
     let removals = fdedup (uninstall_list @ fdiff (installed_fmris env) left @ e_trig_uninstall env) in
     mthen (if removals = [] then mret [] else dependents_table env) (\<lambda>table.
     mthen (check_dependents env table removals) (\<lambda>_.
     solve_install ms env report (args\<lparr>i_new_variants := [], i_reject := remdups (map f_name removals),
        i_trim_installed := True, i_relax_all := False, i_origin_installed := e_installed env\<rparr>) [])))"

end
