(* ===== verification/Solver_Settled.thy ===== *)
theory Solver_Settled
  imports Solver_State
begin

text \<open>
  Facts about sets of packages and rejected packages, and the states in which the solver makes its
  clauses: in a settled state a look-up changes nothing but caches.
\<close>

section \<open>Facts about sets of packages\<close>

lemma fmri_eq_refl [simp]: "fmri_eq f f"
  by (simp add: fmri_eq_key)

lemma fin_iff: "fin f fs \<longleftrightarrow> fmri_key f \<in> fmri_key ` set fs"
  by (auto simp: fin_def list_ex_iff fmri_eq_key image_iff)

lemma fin_mem: "f \<in> set fs \<Longrightarrow> fin f fs"
  by (simp add: fin_iff)

lemma fin_inj: "inj_on fmri_key A \<Longrightarrow> f \<in> A \<Longrightarrow> set fs \<subseteq> A \<Longrightarrow> fin f fs \<longleftrightarrow> f \<in> set fs"
  by (auto simp: fin_iff dest: inj_onD)

lemma set_fdiff: "set (fdiff fs gs) = {f \<in> set fs. \<not> fin f gs}"
  by (auto simp: fdiff_def)

lemma set_fdedup: "set (fdedup fs) \<subseteq> set fs"
  by (induction fs) auto

lemma keys_fdedup [simp]: "fmri_key ` set (fdedup fs) = fmri_key ` set fs"
proof (induction fs)
  case (Cons f fs)
  have "insert (fmri_key f) (fmri_key ` {g \<in> A. fmri_key g \<noteq> fmri_key f}) =
      insert (fmri_key f) (fmri_key ` A)" for A by blast
  with Cons show ?case by (simp add: fmri_eq_key)
qed simp

lemma distinct_fdedup: "distinct (map fmri_key (fdedup fs))"
  by (induction fs) (auto simp: fmri_eq_key distinct_map_filter)

lemma fdedup_inj: "inj_on fmri_key (set fs) \<Longrightarrow> set (fdedup fs) = set fs"
  using set_fdedup [of fs] keys_fdedup [of fs] by (metis inj_on_image_eq_iff subset_refl)

lemma fdedup_eq_Nil [simp]: "fdedup fs = [] \<longleftrightarrow> fs = []"
  by (cases fs) auto

lemma set_funion: "set (funion fs gs) \<subseteq> set fs \<union> set gs"
  using set_fdedup [of gs] by (auto simp: funion_def set_fdiff)

lemma keys_funion: "fmri_key ` set (funion fs gs) = fmri_key ` set fs \<union> fmri_key ` set gs"
proof -
  have "fmri_key ` {f \<in> A. fmri_key f \<notin> B} = fmri_key ` A - B" for A B by blast
  then have "fmri_key ` set (fdiff (fdedup gs) fs) = fmri_key ` set gs - fmri_key ` set fs"
    by (simp add: set_fdiff fin_iff)
  then show ?thesis by (simp add: funion_def image_Un)
qed

lemma distinct_funion: "distinct (map fmri_key fs) \<Longrightarrow> distinct (map fmri_key (funion fs gs))"
  using distinct_fdedup [of gs]
  by (auto simp: funion_def fdiff_def fin_iff distinct_map_filter)

lemma distinct_keys: "distinct (map fmri_key fs) \<Longrightarrow> inj_on fmri_key (set fs) \<and> distinct fs"
  by (simp add: distinct_map)

lemma is_trimmed_iff: "is_trimmed s f \<longleftrightarrow> fmri_key f \<in> (fmri_key \<circ> fst) ` set (s_trim s)"
  unfolding is_trimmed_def list_ex_iff fmri_eq_key image_iff comp_def by metis

lemma set_add_trims:
  "set (s_trim (add_trims fs r a s)) = (\<lambda>f. (f, r, a)) ` set fs \<union> set (s_trim s)"
proof -
  have "set (fold (\<lambda>f. List.insert (f, r, a)) fs xs) = (\<lambda>f. (f, r, a)) ` set fs \<union> set xs" for xs
    by (induction fs arbitrary: xs) auto
  then show ?thesis by (simp add: add_trims_def)
qed

lemma is_trimmed_add: "is_trimmed (add_trims fs r a s) f \<longleftrightarrow> fin f fs \<or> is_trimmed s f"
  unfolding is_trimmed_iff fin_iff set_add_trims by (simp add: image_Un image_image)

lemma add_trims_fields [simp]:
  "s_pub_trim (add_trims fs r a s) = s_pub_trim s" "s_publisher (add_trims fs r a s) = s_publisher s"
  "s_fstate (add_trims fs r a s) = s_fstate s" "s_possible (add_trims fs r a s) = s_possible s"
  "s_trimdone (add_trims fs r a s) = s_trimdone s" "s_removal (add_trims fs r a s) = s_removal s"
  "s_req (add_trims fs r a s) = s_req s" "s_reject (add_trims fs r a s) = s_reject s"
  "s_avoid (add_trims fs r a s) = s_avoid s" "s_downgrades (add_trims fs r a s) = s_downgrades s"
  "s_dg_cache (add_trims fs r a s) = s_dg_cache s" "s_ids (add_trims fs r a s) = s_ids s"
  "s_clauses (add_trims fs r a s) = s_clauses s" "s_failed (add_trims fs r a s) = s_failed s"
  "s_inc_list (add_trims fs r a s) = s_inc_list s"
  by (simp_all add: add_trims_def)

lemma catalog_fmris_cong:
  "s_trimdone s = s_trimdone t \<Longrightarrow> s_possible s = s_possible t \<Longrightarrow> catalog_fmris env n s = catalog_fmris env n t"
  by (simp add: catalog_fmris_def)

lemma filter_publishers_cases:
  obtains fs r where "filter_publishers env n s =
    (if n \<in> set (s_pub_trim s) then s else add_trims fs r [] (mark_pub_trimmed n s))"
    "set fs \<subseteq> set (catalog_fmris env n s)"
proof (cases "dget (s_publisher s) n")
  case None
  then show ?thesis
    by (intro that [of "filter (pub_rejected (dget (e_installed env) n)
          (best_publishers env (catalog_fmris env n s))) (catalog_fmris env n s)" TrimPubRank])
      (auto simp: filter_publishers_def Let_def)
next
  case (Some p)
  then show ?thesis
    by (intro that [of "filter (pub_rejected (dget (e_installed env) n) [p]) (catalog_fmris env n s)"
          "if dget (e_installed env) n \<noteq> None then TrimPubSticky else TrimProposedPub"])
      (auto simp: filter_publishers_def Let_def)
qed

section \<open>Packages with readable actions\<close>

definition good_entry :: "senv \<Rightarrow> fmri \<Rightarrow> bool" where
  "good_entry env f \<longleftrightarrow> (\<exists>acts. solver_actions env (e_excludes env) ''depend'' f = Inr acts)"

definition obsolete :: "senv \<Rightarrow> fmri \<Rightarrow> bool" where
  "obsolete env f \<longleftrightarrow> (\<exists>acts. get_entry_actions env [] f = Inr acts
     \<and> says_true (dget (set_values acts) ''pkg.obsolete'') = Inr True)"

lemma get_entry_actions_key:
  assumes "fmri_key f = fmri_key g"
  shows "get_entry_actions env x f = Inr acts \<longleftrightarrow> get_entry_actions env x g = Inr acts"
proof -
  have "fmri_eq y f = fmri_eq y g" for y using assms by (simp add: fmri_eq_key)
  moreover have "f_publisher f = f_publisher g" using assms by (simp add: fmri_key_def)
  ultimately show ?thesis by (simp add: get_entry_actions_def split: option.split)
qed

lemma good_entry_key: "fmri_key f = fmri_key g \<Longrightarrow> good_entry env f = good_entry env g"
  unfolding good_entry_def solver_actions_def sbind_eq_Inr by (simp only: get_entry_actions_key [of f g])

lemma obsolete_key: "fmri_key f = fmri_key g \<Longrightarrow> obsolete env f = obsolete env g"
  unfolding obsolete_def by (simp only: get_entry_actions_key [of f g])

lemma get_entry_actions_any:
  "get_entry_actions env x f = Inr acts \<Longrightarrow> \<exists>acts'. get_entry_actions env y f = Inr acts'"
  by (auto simp: get_entry_actions_def gen_actions_def split: option.splits sum.splits)

lemma good_entry_reads: "good_entry env f \<Longrightarrow> \<exists>acts. get_entry_actions env x f = Inr acts"
  by (auto simp: good_entry_def solver_actions_def sbind_eq_Inr intro: get_entry_actions_any)

lemma good_entry_set: "good_entry env f \<Longrightarrow> \<exists>acts. solver_actions env x ''set'' f = Inr acts"
  using good_entry_reads [of env f x] by (auto simp: solver_actions_def)

definition marked_renamed :: "senv \<Rightarrow> fmri \<Rightarrow> bool" where
  "marked_renamed env f \<longleftrightarrow> (\<exists>x acts. get_entry_actions env x f = Inr acts
     \<and> says_true (dget (set_values acts) ''pkg.renamed'') = Inr True)"

lemma marked_renamed_key: "fmri_key f = fmri_key g \<Longrightarrow> marked_renamed env f = marked_renamed env g"
  unfolding marked_renamed_def by (simp only: get_entry_actions_key [of f g])

text \<open>The states that are cached are those of the catalog, for packages that can be read.\<close>

definition fstate_ok :: "senv \<Rightarrow> sstate \<Rightarrow> bool" where
  "fstate_ok env s \<longleftrightarrow> (\<forall>(f, ob, re) \<in> set (s_fstate s). good_entry env f \<longrightarrow>
     ob = obsolete env f \<and> (re \<longrightarrow> marked_renamed env f))"

lemma fstate_of_ok:
  assumes "fstate_ok env s" "good_entry env f" "fstate_of s f = Some b"
  shows "fst b = obsolete env f"
proof -
  obtain e where e: "find (\<lambda>e. fmri_eq (fst e) f) (s_fstate s) = Some e" "b = snd e"
    using assms(3) by (auto simp: fstate_of_def)
  obtain g ob re where [simp]: "e = (g, ob, re)" by (cases e)
  have "e \<in> set (s_fstate s) \<and> fmri_eq (fst e) f"
    using e(1) unfolding find_Some_iff by (metis nth_mem)
  then have g: "(g, ob, re) \<in> set (s_fstate s)" "fmri_eq g f" "b = (ob, re)"
    using e(2) by auto
  have k: "fmri_key g = fmri_key f" using g(2) by (simp add: fmri_eq_key)
  have "good_entry env g" using assms(2) by (simp only: good_entry_key [OF k])
  then have "ob = obsolete env g" using g(1) assms(1) by (auto simp: fstate_ok_def)
  then show ?thesis using g(3) by (simp only: obsolete_key [OF k] fst_conv)
qed

lemma fstate_ok_cong: "s_fstate s = s_fstate t \<Longrightarrow> fstate_ok env s = fstate_ok env t"
  by (simp add: fstate_ok_def)

lemma fmri_state_good:
  assumes "fstate_ok env s" "good_entry env f" "fmri_state env [] f s = (r, s')"
  shows "\<exists>a. s' = s\<lparr>s_fstate := a\<rparr> \<and> fstate_ok env s'" "r = Inr b \<Longrightarrow> fst b = obsolete env f"
proof -
  obtain acts where acts: "get_entry_actions env [] f = Inr acts" using good_entry_reads [OF assms(2)] by blast
  have keep: "\<exists>a. s = s\<lparr>s_fstate := a\<rparr>" by (rule exI [of _ "s_fstate s"]) simp
  have "(\<exists>a. s' = s\<lparr>s_fstate := a\<rparr> \<and> fstate_ok env s') \<and> (\<forall>b. r = Inr b \<longrightarrow> fst b = obsolete env f)"
  proof (cases "fstate_of s f")
    case (Some x)
    then show ?thesis using assms keep fstate_of_ok [OF assms(1,2) Some]
      by (auto simp: fmri_state_def mthen_def run_simps)
  next
    case None
    show ?thesis
    proof (cases "says_true (dget (set_values acts) ''pkg.obsolete'')")
      case (Inl e)
      then show ?thesis using assms keep None acts
        by (auto simp: fmri_state_def fmri_loadstate_def mthen_def run_simps)
    next
      case ob: (Inr ob)
      then have ob': "ob = obsolete env f" using acts by (auto simp: obsolete_def)
      show ?thesis
      proof (cases "says_true (dget (set_values acts) ''pkg.renamed'')")
        case (Inl e)
        then show ?thesis using assms keep None acts ob
          by (auto simp: fmri_state_def fmri_loadstate_def mthen_def run_simps)
      next
        case re: (Inr re)
        let ?s = "s\<lparr>s_fstate := (f, ob, re) # s_fstate s\<rparr>"
        have "re \<longrightarrow> marked_renamed env f" using acts re by (cases re) (auto simp: marked_renamed_def)
        then have "fstate_ok env ?s" using assms(1) ob' by (simp add: fstate_ok_def)
        moreover have "(r, s') = (Inr (ob, re), ?s)"
          using assms(3) None acts ob re
          by (simp add: fmri_state_def fmri_loadstate_def mthen_def run_simps fstate_of_def)
        ultimately show ?thesis using ob' by auto
      qed
    qed
  qed
  then show "\<exists>a. s' = s\<lparr>s_fstate := a\<rparr> \<and> fstate_ok env s'" "r = Inr b \<Longrightarrow> fst b = obsolete env f" by auto
qed

section \<open>Settled states\<close>

text \<open>
  The state in which the clauses are made: the packages that are left are numbered, none of them is
  trimmed, their publishers are filtered and their actions can be read.
\<close>

definition settled :: "senv \<Rightarrow> sstate \<Rightarrow> bool" where
  "settled env s \<longleftrightarrow>
     s_trimdone s \<and> distinct (map fmri_key (s_ids s))
     \<and> dict_ok (s_possible s) \<and> (\<forall>(n, fs) \<in> set (s_possible s). fs \<noteq> [] \<and> distinct fs)
     \<and> (\<forall>n. set (catalog_fmris env n s) = {f \<in> set (s_ids s). f_name f = n})
     \<and> (\<forall>f \<in> set (s_ids s). \<not> is_trimmed s f \<and> f_name f \<in> set (s_pub_trim s) \<and> good_entry env f)
     \<and> fstate_ok env s"

text \<open>What may change from here on: more package states are cached, more names are looked up.\<close>

definition quiet :: "senv \<Rightarrow> sstate \<Rightarrow> sstate \<Rightarrow> bool" where
  "quiet env s s' \<longleftrightarrow> s' = s\<lparr>s_fstate := s_fstate s', s_pub_trim := s_pub_trim s'\<rparr>
     \<and> set (s_pub_trim s) \<subseteq> set (s_pub_trim s')
     \<and> (fstate_ok env s \<longrightarrow> fstate_ok env s')"

lemma quiet_refl [simp]: "quiet env s s"
  by (simp add: quiet_def)

lemma quietI: "s' = s\<lparr>s_fstate := a, s_pub_trim := b\<rparr> \<Longrightarrow> set (s_pub_trim s) \<subseteq> set b \<Longrightarrow>
    (fstate_ok env s \<Longrightarrow> fstate_ok env s') \<Longrightarrow> quiet env s s'"
  by (simp add: quiet_def)

lemma quiet_trans:
  assumes "quiet env s t" "quiet env t u"
  shows "quiet env s u"
proof -
  obtain a b where t: "t = s\<lparr>s_fstate := a, s_pub_trim := b\<rparr>" using assms(1) unfolding quiet_def by blast
  obtain c d where u: "u = t\<lparr>s_fstate := c, s_pub_trim := d\<rparr>" using assms(2) unfolding quiet_def by blast
  show ?thesis
    by (rule quietI [where a = c and b = d]) (use assms t u in \<open>auto simp: quiet_def\<close>)
qed

lemma quiet_fields:
  assumes "quiet env s t"
  shows "s_ids t = s_ids s" "s_avoid t = s_avoid s" "s_reject t = s_reject s" "s_possible t = s_possible s"
    "s_trimdone t = s_trimdone s" "s_clauses t = s_clauses s" "s_failed t = s_failed s"
    "is_trimmed t f = is_trimmed s f" "s_removal t = s_removal s" "s_downgrades t = s_downgrades s"
    "s_trim t = s_trim s"
proof -
  obtain a b where t: "t = s\<lparr>s_fstate := a, s_pub_trim := b\<rparr>" using assms unfolding quiet_def by blast
  show "s_ids t = s_ids s" "s_avoid t = s_avoid s" "s_reject t = s_reject s" "s_possible t = s_possible s"
    "s_trimdone t = s_trimdone s" "s_clauses t = s_clauses s" "s_failed t = s_failed s"
    "is_trimmed t f = is_trimmed s f" "s_removal t = s_removal s" "s_downgrades t = s_downgrades s"
    "s_trim t = s_trim s"
    by (simp_all add: t is_trimmed_def)
qed

lemma settled_quiet: "settled env s \<Longrightarrow> quiet env s t \<Longrightarrow> settled env t"
  using quiet_fields [of env s t] catalog_fmris_cong [of s t env]
  by (auto simp: settled_def quiet_def)

lemma filter_publishers_settled: "settled env s \<Longrightarrow> quiet env s (filter_publishers env n s)"
proof -
  assume s: "settled env s"
  obtain fs r where f: "filter_publishers env n s =
      (if n \<in> set (s_pub_trim s) then s else add_trims fs r [] (mark_pub_trimmed n s))"
    "set fs \<subseteq> set (catalog_fmris env n s)" by (rule filter_publishers_cases)
  show ?thesis
  proof (cases "n \<in> set (s_pub_trim s)")
    case False
    then have "set (catalog_fmris env n s) = {}" using s by (auto simp: settled_def)
    then have "fs = []" using f(2) by simp
    then have eq: "filter_publishers env n s = s\<lparr>s_fstate := s_fstate s, s_pub_trim := List.insert n (s_pub_trim s)\<rparr>"
      using f(1) False by (simp add: add_trims_def mark_pub_trimmed_def)
    then show ?thesis by (rule quietI) (use eq in \<open>auto simp: fstate_ok_def\<close>)
  qed (simp add: f(1))
qed

section \<open>Running in a settled state\<close>

text \<open>
  \<open>calm\<close>: from a settled state a computation changes nothing that matters, and what it returns
  satisfies a condition.
\<close>

definition calm :: "senv \<Rightarrow> sstate \<Rightarrow> 'a srun \<Rightarrow> ('a \<Rightarrow> bool) \<Rightarrow> bool" where
  "calm env s0 m Q \<longleftrightarrow> (settled env s0 \<longrightarrow> (\<forall>s r s'. quiet env s0 s \<longrightarrow> m s = (r, s') \<longrightarrow>
     quiet env s0 s' \<and> (\<forall>a. r = Inr a \<longrightarrow> Q a)))"

named_theorems calm_intros \<open>rules for calm computations\<close>

lemma calmD:
  assumes "calm env s0 m Q" "settled env s0" "quiet env s0 s" "m s = (r, s')"
  shows "quiet env s0 s'" "r = Inr a \<Longrightarrow> Q a"
  using assms by (auto simp: calm_def)

lemma calm_mono: "calm env s0 m Q \<Longrightarrow> (\<And>a. Q a \<Longrightarrow> R a) \<Longrightarrow> calm env s0 m R"
  by (auto simp: calm_def)

lemma calm_mret [calm_intros]: "Q a \<Longrightarrow> calm env s0 (mret a) Q"
  by (simp add: calm_def run_simps)

lemma calm_mfail [calm_intros]: "calm env s0 (mfail e) Q"
  by (simp add: calm_def run_simps)

lemma calm_mlift [calm_intros]: "(\<And>a. r = Inr a \<Longrightarrow> Q a) \<Longrightarrow> calm env s0 (mlift r) Q"
  by (simp add: calm_def run_simps)

lemma calm_mget [calm_intros]: "(\<And>s. quiet env s0 s \<Longrightarrow> settled env s \<Longrightarrow> Q (f s)) \<Longrightarrow> calm env s0 (mget f) Q"
  by (auto simp: calm_def run_simps dest: settled_quiet)

lemma calm_mthen:
  assumes "calm env s0 m P" "\<And>a. P a \<Longrightarrow> calm env s0 (k a) Q"
  shows "calm env s0 (mthen m k) Q"
  unfolding calm_def
proof (intro impI allI)
  fix s r s' assume s: "settled env s0" "quiet env s0 s" "mthen m k s = (r, s')"
  obtain x t where t: "m s = (x, t)" by fastforce
  show "quiet env s0 s' \<and> (\<forall>a. r = Inr a \<longrightarrow> Q a)"
  proof (cases x)
    case (Inl e)
    then show ?thesis using s t calmD(1) [OF assms(1) s(1,2) t] by (auto simp: mthen_def)
  next
    case (Inr a)
    then have "k a t = (r, s')" using s(3) t by (simp add: mthen_def)
    moreover have "P a" "quiet env s0 t" using calmD [OF assms(1) s(1,2) t] Inr by auto
    ultimately show ?thesis using calmD [OF assms(2) s(1)] by blast
  qed
qed

lemma calm_meach:
  "(\<And>x. x \<in> set xs \<Longrightarrow> calm env s0 (f x) (Q x)) \<Longrightarrow> calm env s0 (meach f xs) (list_all2 Q xs)"
proof (induction xs)
  case (Cons x xs)
  have "calm env s0 (f x) (Q x)" "calm env s0 (meach f xs) (list_all2 Q xs)" using Cons by auto
  then show ?case by (auto intro!: calm_mthen calm_mret)
qed (auto intro: calm_mret)

lemma calm_mfilter:
  "(\<And>x. x \<in> set xs \<Longrightarrow> calm env s0 (p x) (\<lambda>b. b = q x)) \<Longrightarrow> calm env s0 (mfilter p xs) (\<lambda>ys. ys = filter q xs)"
proof (induction xs)
  case (Cons x xs)
  have "calm env s0 (p x) (\<lambda>b. b = q x)" "calm env s0 (mfilter p xs) (\<lambda>ys. ys = filter q xs)" using Cons by auto
  then show ?case by (auto intro!: calm_mthen calm_mret elim!: calm_mthen)
qed (auto intro: calm_mret)

lemma calm_is_obsolete:
  assumes "f \<in> set (s_ids s0)"
  shows "calm env s0 (fmri_is_obsolete env f) (\<lambda>b. b = obsolete env f)"
  unfolding calm_def
proof (intro impI allI)
  fix s r s'
  assume s: "settled env s0" "quiet env s0 s" "fmri_is_obsolete env f s = (r, s')"
  have g: "good_entry env f" "fstate_ok env s"
    using s assms settled_quiet [OF s(1,2)] quiet_fields [OF s(2)] by (auto simp: settled_def)
  obtain x where x: "fmri_state env [] f s = (x, s')" "r = (case x of Inl e \<Rightarrow> Inl e | Inr b \<Rightarrow> Inr (fst b))"
    using s(3) by (auto simp: fmri_is_obsolete_def mthen_def run_simps split: prod.splits sum.splits)
  obtain a where a: "s' = s\<lparr>s_fstate := a\<rparr>" "fstate_ok env s'" using fmri_state_good(1) [OF g(2,1) x(1)] by blast
  have "quiet env s s'"
    by (rule quietI [where a = a and b = "s_pub_trim s"]) (use a in auto)
  then show "quiet env s0 s' \<and> (\<forall>b. r = Inr b \<longrightarrow> b = obsolete env f)"
    using quiet_trans [OF s(2)] x fmri_state_good(2) [OF g(2,1) x(1)] by (auto split: sum.splits)
qed

text \<open>What a pattern allows among the packages that are left.\<close>

definition allowed :: "senv \<Rightarrow> sstate \<Rightarrow> int \<Rightarrow> bool \<Rightarrow> fmri \<Rightarrow> fmri set" where
  "allowed env s constraint ob_ok req =
     {f \<in> set (s_ids s). f_name f = f_name req \<and> version_allows constraint req f
        \<and> (ob_ok \<or> \<not> obsolete env f)}"

definition named_ids :: "sstate \<Rightarrow> string \<Rightarrow> fmri set" where
  "named_ids s n = {f \<in> set (s_ids s). f_name f = n}"

lemma calm_catalog_fmris [calm_intros]:
  "(\<And>fs. set fs = named_ids s0 n \<Longrightarrow> Q fs) \<Longrightarrow> calm env s0 (get_catalog_fmris env n) Q"
  unfolding calm_def
proof (intro impI allI)
  fix s r s'
  assume Q: "\<And>fs. set fs = named_ids s0 n \<Longrightarrow> Q fs"
    and s: "settled env s0" "quiet env s0 s" "get_catalog_fmris env n s = (r, s')"
  note st = settled_quiet [OF s(1,2)]
  note q = filter_publishers_settled [OF st, of n]
  have "s' = filter_publishers env n s" "r = Inr (catalog_fmris env n s')"
    using s(3) by (auto simp: get_catalog_fmris_def mthen_def run_simps)
  moreover from this have "set (catalog_fmris env n s') = named_ids s' n"
    using settled_quiet [OF st q] by (auto simp: settled_def named_ids_def)
  ultimately show "quiet env s0 s' \<and> (\<forall>a. r = Inr a \<longrightarrow> Q a)"
    using quiet_trans [OF s(2) q] Q quiet_fields(1) by (fastforce simp: named_ids_def)
qed

lemma calm_comb:
  "calm env s0 (comb_common env c req t ok)
     (\<lambda>(m, nm). set m = allowed env s0 c ok req \<and> set nm = named_ids s0 (f_name req) - set m)"
proof (cases "settled env s0")
  case True
  then have inj: "inj_on fmri_key (set (s_ids s0))" by (simp add: settled_def distinct_map)
  have "calm env s0 (mfilter (\<lambda>f.
         mthen (mget (\<lambda>s. t \<and> is_trimmed s f)) (\<lambda>t.
           if t \<or> \<not> version_allows c req f then mret False
           else if ok then mret True
           else mthen (fmri_is_obsolete env f) (\<lambda>ob. mret (\<not> ob)))) fs)
      (\<lambda>ys. ys = filter (\<lambda>f. version_allows c req f \<and> (ok \<or> \<not> obsolete env f)) fs)"
    if fs: "set fs \<subseteq> set (s_ids s0)" for fs
  proof (rule calm_mfilter)
    fix f assume f: "f \<in> set fs"
    have "calm env s0 (mget (\<lambda>s. t \<and> is_trimmed s f)) (\<lambda>b. \<not> b)"
      using f fs by (intro calm_mget) (auto simp: settled_def quiet_fields(1))
    moreover have "calm env s0 (mthen (fmri_is_obsolete env f) (\<lambda>ob. mret (\<not> ob))) (\<lambda>b. b = (\<not> obsolete env f))"
      using f fs by (intro calm_mthen [OF calm_is_obsolete]) (auto intro: calm_mret)
    ultimately show "calm env s0 (mthen (mget (\<lambda>s. t \<and> is_trimmed s f)) (\<lambda>t.
           if t \<or> \<not> version_allows c req f then mret False
           else if ok then mret True
           else mthen (fmri_is_obsolete env f) (\<lambda>ob. mret (\<not> ob))))
        (\<lambda>b. b = (version_allows c req f \<and> (ok \<or> \<not> obsolete env f)))"
      by (auto intro!: calm_mthen [where P = "\<lambda>b. \<not> b"] calm_mret elim!: calm_mono)
  qed
  note filt = this
  have dd: "set (fdedup fs) = named_ids s0 n" if "set fs = named_ids s0 n" for fs n
    using fdedup_inj [of fs] that inj by (auto simp: named_ids_def intro: inj_on_subset)
  show ?thesis unfolding comb_common_def Let_def
  proof (rule calm_mthen [where P = "\<lambda>fs. set fs = named_ids s0 (f_name req)"], rule calm_catalog_fmris, assumption)
    fix fs assume fs: "set fs = named_ids s0 (f_name req)"
    show "calm env s0 (mthen (mfilter (\<lambda>f.
         mthen (mget (\<lambda>s. t \<and> is_trimmed s f)) (\<lambda>t.
           if t \<or> \<not> version_allows c req f then mret False
           else if ok then mret True
           else mthen (fmri_is_obsolete env f) (\<lambda>ob. mret (\<not> ob)))) (fdedup fs))
       (\<lambda>matching. mret (matching, fdiff (fdedup fs) matching)))
       (\<lambda>(m, nm). set m = allowed env s0 c ok req \<and> set nm = named_ids s0 (f_name req) - set m)"
    proof (rule calm_mthen [OF filt], use dd [OF fs] in \<open>auto simp: named_ids_def\<close>, rule calm_mret)
      let ?m = "filter (\<lambda>f. version_allows c req f \<and> (ok \<or> \<not> obsolete env f)) (fdedup fs)"
      have m: "set ?m = allowed env s0 c ok req" using dd [OF fs] by (auto simp: allowed_def named_ids_def)
      moreover have "fin f ?m \<longleftrightarrow> f \<in> set ?m" if "f \<in> set (fdedup fs)" for f
        using that dd [OF fs] by (intro fin_inj [OF inj]) (auto simp: named_ids_def)
      ultimately show "case (?m, fdiff (fdedup fs) ?m) of (m, nm) \<Rightarrow> set m = allowed env s0 c ok req
          \<and> set nm = {f \<in> set (s_ids s0). f_name f = f_name req} - set m"
        using dd [OF fs] by (auto simp: set_fdiff named_ids_def)
    qed
  qed
qed (simp add: calm_def)

lemmas calm_newer [calm_intros] = calm_comb [where c = CONSTRAINT_NONE, folded comb_newer_def]
  and calm_auto [calm_intros] = calm_comb [where c = CONSTRAINT_AUTO, folded comb_auto_def]

lemma calm_older:
  "calm env s0 (comb_older env req t ok)
     (\<lambda>(m, nm). set nm = allowed env s0 CONSTRAINT_NONE ok req \<and> set m = named_ids s0 (f_name req) - set nm)"
proof -
  have base: "calm env s0 (mget (\<lambda>s. (filter (\<lambda>f. \<not> is_trimmed s f) older, newer @ filter (is_trimmed s) older)))
     (\<lambda>(m, nm). set nm = set newer \<and> set m = set older)" if "set older \<subseteq> set (s_ids s0)" for older newer
    using that by (intro calm_mget) (auto simp: settled_def quiet_fields(1))
  have "calm env s0 (mget (\<lambda>s. (filter (\<lambda>f. \<not> is_trimmed s f) older, newer @ filter (is_trimmed s) older)))
     (\<lambda>(m, nm). set nm = allowed env s0 CONSTRAINT_NONE ok req \<and> set m = named_ids s0 (f_name req) - set nm)"
    if "set newer = allowed env s0 CONSTRAINT_NONE ok req" "set older = named_ids s0 (f_name req) - set newer"
    for older newer
    by (rule calm_mono, rule base) (use that in \<open>auto simp: named_ids_def\<close>)
  then show ?thesis unfolding comb_older_def
    by (intro calm_mthen [OF calm_newer]) (auto intro!: calm_mret)
qed

end
