(* ===== verification/Solver_Needs.thy ===== *)
theory Solver_Needs
  imports Solver_Depend Solver_Settled
begin

text \<open>
  What a dependency action asks for, stated on sets of chosen packages, and that parsing it in a
  settled state gives the packages that are asked for.
\<close>

section \<open>What a dependency asks for\<close>

text \<open>
  The packages that serve a group: those of the wanted names that are neither avoided nor rejected;
  while some name has no obsolete version, obsolete packages do not count.
\<close>

definition present_first :: "(fmri \<Rightarrow> bool) \<Rightarrow> fmri set \<Rightarrow> fmri set" where
  "present_first ob C =
     (if \<exists>n \<in> f_name ` C. \<forall>g \<in> C. f_name g = n \<longrightarrow> \<not> ob g then {g \<in> C. \<not> ob g} else C)"

definition group_choices :: "senv \<Rightarrow> sstate \<Rightarrow> fmri list \<Rightarrow> fmri set" where
  "group_choices env s fs =
     present_first (obsolete env) {g \<in> set (s_ids s). f_name g \<in> set (map f_name fs)
       \<and> f_name g \<notin> set (s_avoid s) \<and> f_name g \<notin> set (s_reject s)}"

definition has_package :: "senv \<Rightarrow> fmri set \<Rightarrow> fmri \<Rightarrow> bool" where
  "has_package env S p \<longleftrightarrow>
     (\<exists>g \<in> S. f_name g = f_name p \<and> version_allows CONSTRAINT_NONE p g \<and> \<not> obsolete env g)"

text \<open>When a set of packages meets a dependency of one of its packages.\<close>

definition dependency_met :: "senv \<Rightarrow> sstate \<Rightarrow> fmri set \<Rightarrow> action \<Rightarrow> bool" where
  "dependency_met env s S da \<longleftrightarrow>
     (\<exists>fs. dep_fmris da = Inr fs \<and> fs \<noteq> [] \<and>
       (let t = str_attr da ''type''; r = hd fs; same = {g \<in> S. f_name g = f_name r} in
        if t = ''require'' then has_package env S r
        else if t = ''optional'' then \<forall>g \<in> same. version_allows CONSTRAINT_NONE r g
        else if t = ''exclude'' then \<forall>g \<in> same. \<not> version_allows CONSTRAINT_NONE r g
        else if t = ''incorporate'' then \<forall>g \<in> same. version_allows CONSTRAINT_AUTO r g
        else if t = ''conditional'' then
          \<exists>p. dep_predicate da = Inr p \<and> (has_package env S p \<longrightarrow> has_package env S r)
        else if t = ''require-any'' then \<exists>r \<in> set fs. has_package env S r
        else if t = ''group'' \<or> t = ''group-any'' then
          group_choices env s fs = {} \<or> group_choices env s fs \<inter> S \<noteq> {}
        else True))"

text \<open>What the parsed dependency says in a settled state.\<close>

definition parsed_as :: "senv \<Rightarrow> sstate \<Rightarrow> action \<Rightarrow> fmri list \<Rightarrow> pdep \<Rightarrow> bool" where
  "parsed_as env s da fs d \<longleftrightarrow>
     (let t = str_attr da ''type''; r = hd fs in
      pd_type d = t \<and>
      (if t = ''require'' then set (pd_m d) = allowed env s CONSTRAINT_NONE False r
       else if t = ''optional'' then
         set (pd_nm d) = named_ids s (f_name r) - allowed env s CONSTRAINT_NONE True r
       else if t = ''exclude'' then set (pd_nm d) = allowed env s CONSTRAINT_NONE True r
       else if t = ''incorporate'' then
         set (pd_nm d) = named_ids s (f_name r) - allowed env s CONSTRAINT_AUTO True r
       else if t = ''conditional'' then
         \<exists>p. dep_predicate da = Inr p \<and> set (pd_cond d) = allowed env s CONSTRAINT_NONE False p
           \<and> set (pd_m d) = allowed env s CONSTRAINT_NONE False r
       else if t = ''require-any'' then
         set (pd_m d) = (\<Union>r \<in> set fs. allowed env s CONSTRAINT_NONE False r)
       else if t = ''group'' \<or> t = ''group-any'' then set (pd_m d) = group_choices env s fs
       else t = ''origin'' \<or> t = ''parent''))"

lemma allowed_ids: "allowed env s c ok r \<subseteq> set (s_ids s)"
  by (auto simp: allowed_def)

lemma list_all2_unions:
  "list_all2 (\<lambda>x p. set (fst p) = A x \<and> set (snd p) = B x) xs ps \<Longrightarrow>
     set (concat (map fst ps)) = (\<Union>x \<in> set xs. A x) \<and> set (concat (map snd ps)) = (\<Union>x \<in> set xs. B x)"
  by (induction rule: list_all2_induct) auto

lemma calm_comb_all:
  assumes "\<And>f. calm env s0 (comb f) (\<lambda>p. set (fst p) = A f \<and> set (snd p) = B f)"
    and "\<And>f. A f \<subseteq> set (s_ids s0)" "\<And>f. B f \<subseteq> set (s_ids s0)" "settled env s0"
  shows "calm env s0 (comb_all comb fs)
     (\<lambda>p. set (fst p) = (\<Union>f \<in> set fs. A f) \<and> set (snd p) = (\<Union>f \<in> set fs. B f))"
  unfolding comb_all_def
proof (rule calm_mthen [OF calm_meach [where Q = "\<lambda>f p. set (fst p) = A f \<and> set (snd p) = B f"]])
  fix ps assume "list_all2 (\<lambda>f p. set (fst p) = A f \<and> set (snd p) = B f) fs ps"
  note u = list_all2_unions [OF this]
  have inj: "inj_on fmri_key X" if "X \<subseteq> set (s_ids s0)" for X
    using assms(4) that by (auto simp: settled_def distinct_map intro: inj_on_subset)
  have d: "set (fdedup xs) = X" if "set xs = X" "X \<subseteq> set (s_ids s0)" for xs X
    using fdedup_inj [OF inj, of xs] that by simp
  have "set (fdedup (concat (map fst ps))) = (\<Union>f \<in> set fs. A f)"
    by (rule d [OF u [THEN conjunct1]]) (use assms(2) in \<open>rule UN_least\<close>)
  moreover have "set (fdedup (concat (map snd ps))) = (\<Union>f \<in> set fs. B f)"
    by (rule d [OF u [THEN conjunct2]]) (use assms(3) in \<open>rule UN_least\<close>)
  ultimately have "set (fdedup (concat (map fst ps))) = (\<Union>f \<in> set fs. A f) \<and>
    set (fdedup (concat (map snd ps))) = (\<Union>f \<in> set fs. B f)" ..
  then show "calm env s0 (mret (fdedup (concat (map fst ps)), fdedup (concat (map snd ps))))
      (\<lambda>p. set (fst p) = (\<Union>f \<in> set fs. A f) \<and> set (snd p) = (\<Union>f \<in> set fs. B f))"
    by (intro calm_mret) simp
qed (rule assms(1))

lemma prefer_present_choices:
  assumes "inj_on fmri_key (set m)" "ofmris = filter (obsolete env) m"
  shows "set (fst (prefer_present ofmris m nm)) = present_first (obsolete env) (set m)"
proof -
  have "fin g ofmris \<longleftrightarrow> obsolete env g" if "g \<in> set m" for g
    using fin_inj [OF assms(1) that, of ofmris] assms(2) that by auto
  then have d: "set (fdiff m ofmris) = {g \<in> set m. \<not> obsolete env g}" by (auto simp: set_fdiff)
  have "n \<notin> set (map f_name ofmris) \<longleftrightarrow> (\<forall>g \<in> set m. f_name g = n \<longrightarrow> \<not> obsolete env g)" for n
    using assms(2) by auto
  then have "set (map f_name m) - set (map f_name ofmris) \<noteq> {} \<longleftrightarrow>
      (\<exists>n \<in> f_name ` set m. \<forall>g \<in> set m. f_name g = n \<longrightarrow> \<not> obsolete env g)"
    by (simp only: ex_in_conv [symmetric] Diff_iff set_map Bex_def)
  with d show ?thesis by (simp only: prefer_present_def present_first_def if_distrib [of fst] if_distrib [of set] fst_conv)
qed

lemma present_first_empty [simp]: "present_first ob C = {} \<longleftrightarrow> C = {}"
  by (auto simp: present_first_def)

lemma present_first_one:
  assumes "card (f_name ` C) \<le> 1" "finite C"
  shows "present_first ob C = C"
proof -
  have one: "\<forall>x \<in> f_name ` C. \<forall>y \<in> f_name ` C. x = y"
    using assms card_le_Suc0_iff_eq [of "f_name ` C"] by (metis One_nat_def finite_imageI)
  show ?thesis
  proof (cases "\<exists>n \<in> f_name ` C. \<forall>g \<in> C. f_name g = n \<longrightarrow> \<not> ob g")
    case True
    then have "\<forall>g \<in> C. \<not> ob g" using one by blast
    then show ?thesis by (auto simp: present_first_def)
  qed (simp only: present_first_def if_False)
qed

lemma calm_match_group:
  assumes "settled env s0"
  shows "calm env s0 (match_group env True fs) (\<lambda>x. set (fst x) = group_choices env s0 fs)"
proof -
  define pot where "pot = filter (\<lambda>f. f_name f \<notin> set (s_avoid s0) \<and> f_name f \<notin> set (s_reject s0)) fs"
  define cand where "cand = {g \<in> set (s_ids s0). f_name g \<in> set (map f_name pot)}"
  have inj: "inj_on fmri_key (set (s_ids s0))" using assms by (simp add: settled_def distinct_map)
  have choices: "group_choices env s0 fs = present_first (obsolete env) cand"
    unfolding group_choices_def cand_def pot_def
    by (rule arg_cong [where f = "present_first (obsolete env)"]) auto
  have fin: "finite cand" "cand \<subseteq> set (s_ids s0)" by (auto simp: cand_def)
  have "allowed env s0 CONSTRAINT_NONE True (no_version f) = named_ids s0 (f_name f)" for f
    by (auto simp: allowed_def named_ids_def version_allows_def no_version_def)
  then have comb: "calm env s0 (comb_newer env (no_version f) True True)
      (\<lambda>p. set (fst p) = named_ids s0 (f_name f) \<and> set (snd p) = {})" for f
    by (intro calm_mono [OF calm_newer]) (auto simp: no_version_def split: prod.splits)
  have grp: "calm env s0 (parse_group_dependency env True True pot) (\<lambda>p. set (fst p) = cand \<and> set (snd p) = {})"
    unfolding parse_group_dependency_def
    by (rule calm_mono [OF calm_comb_all [where A = "\<lambda>f. named_ids s0 (f_name f)" and B = "\<lambda>_. {}", OF comb]])
      (use assms in \<open>auto simp: cand_def named_ids_def\<close>)
  have many: "calm env s0
      (mthen (mfilter (fmri_is_obsolete env) m) (\<lambda>ofmris.
         mret (fst (prefer_present ofmris m nm), snd (prefer_present ofmris m nm), True)))
      (\<lambda>x. set (fst x) = group_choices env s0 fs)" if m: "set m = cand" for m nm
  proof (rule calm_mthen [OF calm_mfilter [where q = "obsolete env", OF calm_is_obsolete]])
    show "x \<in> set (s_ids s0)" if "x \<in> set m" for x using that m fin(2) by auto
    show "calm env s0 (mret (fst (prefer_present ofmris m nm), snd (prefer_present ofmris m nm), True))
        (\<lambda>x. set (fst x) = group_choices env s0 fs)" if "ofmris = filter (obsolete env) m" for ofmris
      using prefer_present_choices [OF inj_on_subset [OF inj] that] m fin(2)
      by (intro calm_mret) (simp add: choices)
  qed
  have empty: "group_choices env s0 fs = {}" if "cand = {}" using that by (simp add: choices)
  have "cand = {}" if "pot = []" using that by (simp add: cand_def)
  then have start: "calm env s0 (mret ([], [], False)) (\<lambda>x. set (fst x) = group_choices env s0 fs)" if "pot = []"
    using that empty by (intro calm_mret) simp
  have rest: "calm env s0 (if m = [] \<and> nm = [] then mret (m, nm, False)
       else if card (set (map f_name m)) \<le> 1 then mret (m, nm, True)
       else mthen (mfilter (fmri_is_obsolete env) m) (\<lambda>ofmris.
         mret (fst (prefer_present ofmris m nm), snd (prefer_present ofmris m nm), True)))
      (\<lambda>x. set (fst x) = group_choices env s0 fs)" if m: "set m = cand" for m nm
  proof (cases "card (f_name ` cand) \<le> 1")
    case True
    then have "group_choices env s0 fs = cand" using present_first_one fin(1) choices by simp
    then show ?thesis using True m by (auto intro: calm_mret)
  next
    case False
    then show ?thesis using many [OF m] m empty by (auto intro: calm_mret)
  qed
  show ?thesis unfolding match_group_def
  proof (rule calm_mthen [where P = "\<lambda>p. p = pot"])
    show "calm env s0 (mget (\<lambda>s. filter (\<lambda>f. f_name f \<notin> set (s_avoid s) \<and> f_name f \<notin> set (s_reject s)) fs))
        (\<lambda>p. p = pot)"
      by (rule calm_mget) (simp add: pot_def quiet_fields)
  qed (auto intro!: start calm_mthen [OF grp] rest)
qed

lemma calm_match_dependency:
  assumes "settled env s0" "fs \<noteq> []"
  shows "calm env s0 (match_dependency env [] True da fs) (parsed_as env s0 da fs)"
proof -
  let ?t = "str_attr da ''type''"
  note newer = calm_newer [of env s0] and auto' = calm_auto [of env s0] and older = calm_older [of env s0]
  have any: "calm env s0 (comb_all (\<lambda>g. comb_newer env g True False) fs)
      (\<lambda>p. set (fst p) = (\<Union>f \<in> set fs. allowed env s0 CONSTRAINT_NONE False f)
        \<and> set (snd p) = (\<Union>f \<in> set fs. named_ids s0 (f_name f) - allowed env s0 CONSTRAINT_NONE False f))"
    using assms(1)
    by (intro calm_comb_all calm_mono [OF calm_newer]) (auto simp: allowed_def named_ids_def split: prod.splits)
  consider "?t = ''require''" | "?t = ''optional''" | "?t = ''exclude''" | "?t = ''incorporate''"
    | "?t = ''conditional''" | "?t = ''require-any''" | "?t = ''parent''" | "?t = ''origin''"
    | "?t = ''group''" | "?t = ''group-any''"
    | "?t \<notin> set [''require'', ''optional'', ''exclude'', ''incorporate'', ''conditional'', ''require-any'',
        ''parent'', ''origin'', ''group'', ''group-any'']" by fastforce
  then show ?thesis
  proof cases
    case 1 then show ?thesis unfolding match_dependency_def Let_def
      by (auto intro!: calm_mthen [OF newer] calm_mret simp: parsed_as_def)
  next
    case 2 then show ?thesis unfolding match_dependency_def Let_def
      by (auto intro!: calm_mthen [OF newer] calm_mget simp: parsed_as_def)
  next
    case 3 then show ?thesis unfolding match_dependency_def Let_def
      by (auto intro!: calm_mthen [OF older] calm_mget simp: parsed_as_def)
  next
    case 4 then show ?thesis unfolding match_dependency_def Let_def
      by (auto intro!: calm_mthen [OF auto'] calm_mget simp: parsed_as_def)
  next
    case 5
    have "calm env s0 (mthen (comb_newer env p True False) (\<lambda>(cond, _).
        mthen (mget (\<lambda>s. f_name p \<in> set (s_req s) \<and>
            list_ex (\<lambda>g. fin g (proposed_of [] (f_name p)) \<or> fin g (remaining_installed env s)) cond))
          (\<lambda>req. mthen (comb_newer env (hd fs) True False) (\<lambda>(m, nm).
            mret \<lparr>pd_nm = nm, pd_m = m, pd_cond = cond, pd_type = ?t, pd_req = req, pd_fmri = hd fs,
              pd_ob_ok = False\<rparr>)))) (parsed_as env s0 da fs)" if "dep_predicate da = Inr p" for p
      using 5 that
      by (auto intro!: calm_mthen [OF newer] calm_mthen [OF calm_mget [where Q = "\<lambda>_. True"]] calm_mret
          simp: parsed_as_def)
    then have "calm env s0 (mthen (mlift (dep_predicate da)) (\<lambda>p.
        mthen (comb_newer env p True False) (\<lambda>(cond, _).
        mthen (mget (\<lambda>s. f_name p \<in> set (s_req s) \<and>
            list_ex (\<lambda>g. fin g (proposed_of [] (f_name p)) \<or> fin g (remaining_installed env s)) cond))
          (\<lambda>req. mthen (comb_newer env (hd fs) True False) (\<lambda>(m, nm).
            mret \<lparr>pd_nm = nm, pd_m = m, pd_cond = cond, pd_type = ?t, pd_req = req, pd_fmri = hd fs,
              pd_ob_ok = False\<rparr>))))) (parsed_as env s0 da fs)"
      by (intro calm_mthen [OF calm_mlift [where Q = "\<lambda>p. dep_predicate da = Inr p"]])
    then show ?thesis using 5 unfolding match_dependency_def Let_def by (simp add: case_prod_beta')
  next
    case 6 then show ?thesis unfolding match_dependency_def Let_def
      by (auto intro!: calm_mthen [OF any] calm_mret simp: parsed_as_def)
  next
    case 7 then show ?thesis unfolding match_dependency_def Let_def
      by (auto intro!: calm_mret simp: parsed_as_def)
  next
    case 8 then show ?thesis unfolding match_dependency_def Let_def
      by (auto intro!: calm_mthen [OF newer] calm_mret simp: parsed_as_def)
  next
    case 9 then show ?thesis unfolding match_dependency_def Let_def
      by (auto intro!: calm_mthen [OF calm_match_group [OF assms(1)]] calm_mret simp: parsed_as_def)
  next
    case 10 then show ?thesis unfolding match_dependency_def Let_def
      by (auto intro!: calm_mthen [OF calm_match_group [OF assms(1)]] calm_mret simp: parsed_as_def)
  next
    case 11 then show ?thesis unfolding match_dependency_def Let_def by (auto intro: calm_mfail)
  qed
qed

lemma calm_parse_dependency:
  assumes "settled env s0"
  shows "calm env s0 (parse_dependency env [] True False da source)
     (\<lambda>d. \<exists>fs. dep_fmris da = Inr fs \<and> fs \<noteq> [] \<and> parsed_as env s0 da fs d)"
  unfolding parse_dependency_def
  by (auto intro!: calm_mthen [OF calm_mlift [where Q = "\<lambda>fs. dep_fmris da = Inr fs"]]
      calm_mthen [OF calm_match_dependency [OF assms]] calm_mret calm_mfail)

end
