(* ===== verification/Solver_Meaning.thy ===== *)
theory Solver_Meaning
  imports Solver_Clauses Solver_Needs
begin

text \<open>
  What the clauses say: the chosen packages of an assignment, for each kind of clause the condition
  on the chosen packages that it stands for, and that its numbers are those of packages.
\<close>

section \<open>The packages an assignment chooses\<close>

definition chosen :: "sstate \<Rightarrow> nat set \<Rightarrow> fmri set" where
  "chosen s V = {s_ids s ! i | i. i < length (s_ids s) \<and> Suc i \<in> V}"

lemma index_of_Some:
  "index_of f gs = Some i \<Longrightarrow> i < length gs \<and> fmri_key (gs ! i) = fmri_key f"
  by (induction gs arbitrary: i) (auto simp: fmri_eq_key nth_Cons split: if_splits nat.splits)

lemma index_of_None: "index_of f gs = None \<longleftrightarrow> \<not> fin f gs"
  by (induction gs) (auto simp: fin_iff fmri_eq_key split: option.splits)

lemma getid_ids:
  assumes "distinct (map fmri_key (s_ids s))" "f \<in> set (s_ids s)"
  shows "\<exists>i < length (s_ids s). s_ids s ! i = f \<and> getid s f = Inr (int i + 1)"
proof -
  obtain i where i: "index_of f (s_ids s) = Some i"
    using assms(2) index_of_None [of f "s_ids s"] fin_mem by fastforce
  then have "i < length (s_ids s)" "fmri_key (s_ids s ! i) = fmri_key f" using index_of_Some by auto
  moreover from this have "s_ids s ! i = f"
    using assms by (meson distinct_keys inj_onD nth_mem)
  ultimately show ?thesis using i by (auto simp: getid_def)
qed

lemma getfmri_getid:
  assumes "distinct (map fmri_key (s_ids s))" "1 \<le> v" "v \<le> length (s_ids s)"
  shows "getfmri s v = Inr (s_ids s ! (v - 1)) \<and> getid s (s_ids s ! (v - 1)) = Inr (int v)"
proof -
  obtain i where i: "i < length (s_ids s)" "s_ids s ! i = s_ids s ! (v - 1)"
    "getid s (s_ids s ! (v - 1)) = Inr (int i + 1)"
    using getid_ids [OF assms(1), of "s_ids s ! (v - 1)"] assms(2,3) by auto
  have "distinct (s_ids s)" using assms(1) by (simp add: distinct_map)
  then have "i = v - 1" using i(1,2) assms(2,3) nth_eq_iff_index_eq by fastforce
  then show ?thesis using i(3) assms(2,3) by (simp add: getfmri_def)
qed

lemma chosen_key:
  assumes "distinct (map fmri_key (s_ids s))" "getid s f = Inr i"
  shows "0 < i" "lit_true V i \<longleftrightarrow> fmri_key f \<in> fmri_key ` chosen s V"
    "lit_true V (- i) \<longleftrightarrow> fmri_key f \<notin> fmri_key ` chosen s V"
proof -
  obtain k where k: "index_of f (s_ids s) = Some k" "i = int k + 1"
    using assms(2) by (auto simp: getid_def split: option.splits)
  note ix = index_of_Some [OF k(1)]
  have "fmri_key f \<in> fmri_key ` chosen s V \<longleftrightarrow> Suc k \<in> V"
  proof
    assume "fmri_key f \<in> fmri_key ` chosen s V"
    then obtain j where j: "j < length (s_ids s)" "Suc j \<in> V" "fmri_key (s_ids s ! j) = fmri_key f"
      by (auto simp: chosen_def)
    then have "j = k" using ix assms(1) by (metis distinct_conv_nth length_map nth_map)
    then show "Suc k \<in> V" using j(2) by simp
  qed (use ix in \<open>auto simp: chosen_def image_iff\<close>)
  moreover have "nat i = Suc k" "0 < i" using k(2) by simp_all
  ultimately show "0 < i" "lit_true V i \<longleftrightarrow> fmri_key f \<in> fmri_key ` chosen s V"
    "lit_true V (- i) \<longleftrightarrow> fmri_key f \<notin> fmri_key ` chosen s V"
    by (simp_all add: lit_true_def)
qed

lemma chosen_ids: "chosen s V \<subseteq> set (s_ids s)"
  by (auto simp: chosen_def)

lemma chosen_subset:
  assumes "distinct (map fmri_key (s_ids s))" "\<forall>v \<in> V. 1 \<le> v \<and> v \<le> length (s_ids s)"
  shows "chosen s V \<subseteq> chosen s W \<longleftrightarrow> V \<subseteq> W"
proof
  assume sub: "chosen s V \<subseteq> chosen s W"
  show "V \<subseteq> W"
  proof
    fix v assume v: "v \<in> V"
    then have n: "v - 1 < length (s_ids s)" "Suc (v - 1) = v" using assms(2) by auto
    then have "s_ids s ! (v - 1) \<in> chosen s V" using v by (auto simp: chosen_def)
    then obtain i where "i < length (s_ids s)" "Suc i \<in> W" "s_ids s ! i = s_ids s ! (v - 1)"
      using sub by (auto simp: chosen_def)
    then show "v \<in> W" using n assms(1) by (metis distinct_map nth_eq_iff_index_eq)
  qed
qed (auto simp: chosen_def)

lemma chosen_mem:
  assumes "distinct (map fmri_key (s_ids s))" "f \<in> set (s_ids s)"
  shows "fmri_key f \<in> fmri_key ` chosen s V \<longleftrightarrow> f \<in> chosen s V"
  using inj_on_image_mem_iff [of fmri_key "set (s_ids s)" f "chosen s V"] assms chosen_ids [of s V]
  by (simp add: distinct_map)

lemma chosen_iff:
  assumes "distinct (map fmri_key (s_ids s))" "getid s f = Inr i" "f \<in> set (s_ids s)"
  shows "0 < i" "lit_true V i \<longleftrightarrow> f \<in> chosen s V" "lit_true V (- i) \<longleftrightarrow> f \<notin> chosen s V"
  using chosen_key [OF assms(1,2)] chosen_mem [OF assms(1,3)] by simp_all

lemma smap_Inr: "smap f xs = Inr ys \<longleftrightarrow> list_all2 (\<lambda>x y. f x = Inr y) xs ys"
  by (induction xs arbitrary: ys) (auto simp: sbind_eq_Inr list_all2_Cons1)

lemma list_all2_ex: "list_all2 R xs ys \<Longrightarrow> (\<And>x y. x \<in> set xs \<Longrightarrow> R x y \<Longrightarrow> P y = Q x) \<Longrightarrow>
    (\<exists>y \<in> set ys. P y) = (\<exists>x \<in> set xs. Q x)"
  by (induction rule: list_all2_induct) auto

lemma list_all2_all: "list_all2 R xs ys \<Longrightarrow> (\<And>x y. x \<in> set xs \<Longrightarrow> R x y \<Longrightarrow> P y = Q x) \<Longrightarrow>
    (\<forall>y \<in> set ys. P y) = (\<forall>x \<in> set xs. Q x)"
  by (induction rule: list_all2_induct) auto

lemma some_chosen:
  assumes ids: "distinct (map fmri_key (s_ids s))" and "smap (getid s) fs = Inr ls" "set fs \<subseteq> set (s_ids s)"
  shows "(\<exists>i \<in> set ls. lit_true V i) \<longleftrightarrow> (\<exists>f \<in> set fs. f \<in> chosen s V)"
proof (rule list_all2_ex [OF assms(2) [unfolded smap_Inr]])
  fix f i assume "f \<in> set fs" "getid s f = Inr i"
  then show "lit_true V i = (f \<in> chosen s V)" using chosen_iff(2) [OF ids] assms(3) by auto
qed

lemma require_clauses:
  assumes ids: "distinct (map fmri_key (s_ids s))" and "gen_require_clauses s f ms = Inr cs" "f \<in> set (s_ids s)" "set ms \<subseteq> set (s_ids s)"
  shows "satisfies V cs \<longleftrightarrow> (f \<in> chosen s V \<longrightarrow> set ms \<inter> chosen s V \<noteq> {})"
proof -
  obtain i ls where c: "getid s f = Inr i" "smap (getid s) ms = Inr ls" "cs = [- i # ls]"
    using assms(2) by (auto simp: gen_require_clauses_def sbind_eq_Inr)
  show ?thesis using chosen_iff(3) [OF ids c(1) assms(3)] some_chosen [OF ids c(2) assms(4)]
    unfolding c(3) satisfies_def by auto
qed

lemma conditional_clauses:
  assumes ids: "distinct (map fmri_key (s_ids s))" and "gen_require_conditional_clauses s f ms conds = Inr cs" "f \<in> set (s_ids s)"
    "set ms \<subseteq> set (s_ids s)" "set conds \<subseteq> set (s_ids s)"
  shows "satisfies V cs \<longleftrightarrow>
    (f \<in> chosen s V \<longrightarrow> set conds \<inter> chosen s V \<noteq> {} \<longrightarrow> set ms \<inter> chosen s V \<noteq> {})"
proof -
  obtain ls where c: "smap (getid s) ms = Inr ls"
    "list_all2 (\<lambda>c y. sbind (getid s f) (\<lambda>i. sbind (getid s c) (\<lambda>j. Inr (- i # - j # ls))) = Inr y) conds cs"
    using assms(2) by (auto simp: gen_require_conditional_clauses_def sbind_eq_Inr smap_Inr)
  have "satisfies V cs \<longleftrightarrow> (\<forall>c \<in> set conds. f \<notin> chosen s V \<or> c \<notin> chosen s V \<or> (\<exists>g \<in> set ms. g \<in> chosen s V))"
    unfolding satisfies_def
  proof (rule list_all2_all [OF c(2)])
    fix x y assume x: "x \<in> set conds" "sbind (getid s f) (\<lambda>i. sbind (getid s x) (\<lambda>j. Inr (- i # - j # ls))) = Inr y"
    then obtain i j where ij: "getid s f = Inr i" "getid s x = Inr j" "y = - i # - j # ls"
      by (auto simp: sbind_eq_Inr)
    have "x \<in> set (s_ids s)" using x(1) assms(5) by auto
    then show "(\<exists>l \<in> set y. lit_true V l) =
        (f \<notin> chosen s V \<or> x \<notin> chosen s V \<or> (\<exists>g \<in> set ms. g \<in> chosen s V))"
      using chosen_iff(3) [OF ids ij(1) assms(3)] chosen_iff(3) [OF ids ij(2)] some_chosen [OF ids c(1) assms(4)]
      by (auto simp: ij(3))
  qed
  then show ?thesis by auto
qed

lemma negation_clauses:
  assumes ids: "distinct (map fmri_key (s_ids s))" and "gen_negation_clauses s f nms = Inr cs" "f \<in> set (s_ids s)" "set nms \<subseteq> set (s_ids s)"
  shows "satisfies V cs \<longleftrightarrow> (f \<in> chosen s V \<longrightarrow> set nms \<inter> chosen s V = {})"
proof -
  obtain i where c: "getid s f = Inr i"
    "list_all2 (\<lambda>g y. sbind (getid s g) (\<lambda>j. Inr [- i, - j]) = Inr y) nms cs"
    using assms(2) by (auto simp: gen_negation_clauses_def sbind_eq_Inr smap_Inr)
  have "satisfies V cs \<longleftrightarrow> (\<forall>g \<in> set nms. f \<notin> chosen s V \<or> g \<notin> chosen s V)"
    unfolding satisfies_def
  proof (rule list_all2_all [OF c(2)])
    fix x y assume x: "x \<in> set nms" "sbind (getid s x) (\<lambda>j. Inr [- i, - j]) = Inr y"
    then obtain j where j: "getid s x = Inr j" "y = [- i, - j]" by (auto simp: sbind_eq_Inr)
    have "x \<in> set (s_ids s)" using x(1) assms(4) by auto
    then show "(\<exists>l \<in> set y. lit_true V l) = (f \<notin> chosen s V \<or> x \<notin> chosen s V)"
      using chosen_iff(3) [OF ids c(1) assms(3)] chosen_iff(3) [OF ids j(1)] by (auto simp: j(2))
  qed
  then show ?thesis by auto
qed

lemma highlander_clauses:
  assumes ids: "distinct (map fmri_key (s_ids s))" and "gen_highlander_clauses s fs = Inr cs" "set fs \<subseteq> set (s_ids s)" "distinct fs"
  shows "satisfies V cs \<longleftrightarrow> (\<forall>f \<in> set fs \<inter> chosen s V. \<forall>g \<in> set fs \<inter> chosen s V. f = g)"
proof (cases "length fs = 1")
  case True
  then obtain f where "fs = [f]" by (auto simp: length_Suc_conv)
  then show ?thesis using assms(2) by (auto simp: gen_highlander_clauses_def satisfies_def)
next
  case False
  then obtain ls where c: "list_all2 (\<lambda>x y. getid s x = Inr y) fs ls"
    "cs = concat (map (\<lambda>i. map (\<lambda>j. [- (ls ! i), - (ls ! j)]) [Suc i..<length ls]) [0..<length ls - 1])"
    using assms(2) by (auto simp: gen_highlander_clauses_def sbind_eq_Inr smap_Inr)
  have len: "length ls = length fs" using c(1) by (simp add: list_all2_lengthD)
  have lit: "lit_true V (- (ls ! i)) \<longleftrightarrow> fs ! i \<notin> chosen s V" if "i < length fs" for i
    using chosen_iff(3) [OF ids list_all2_nthD [OF c(1) that] subsetD [OF assms(3) nth_mem [OF that]]] .
  have "set cs = {[- (ls ! i), - (ls ! j)] | i j. i < j \<and> j < length fs}"
  proof (rule set_eqI, rule iffI)
    fix c assume "c \<in> set cs"
    then obtain i j where "c = [- (ls ! i), - (ls ! j)]" "Suc i \<le> j" "j < length fs"
      unfolding c(2) len by auto
    then show "c \<in> {[- (ls ! i), - (ls ! j)] | i j. i < j \<and> j < length fs}" using Suc_le_lessD by blast
  next
    fix c assume "c \<in> {[- (ls ! i), - (ls ! j)] | i j. i < j \<and> j < length fs}"
    then obtain i j where "c = [- (ls ! i), - (ls ! j)]" "i < j" "j < length fs" by blast
    moreover from this have "i \<in> set [0..<length fs - 1]" "j \<in> set [Suc i..<length fs]" by auto
    ultimately show "c \<in> set cs" unfolding c(2) len set_concat set_map by (intro UN_I imageI) auto
  qed
  then have "satisfies V cs \<longleftrightarrow> (\<forall>i j. i < j \<and> j < length fs \<longrightarrow>
      (\<exists>l \<in> set [- (ls ! i), - (ls ! j)]. lit_true V l))"
    unfolding satisfies_def by (simp only:) blast
  also have "\<dots> \<longleftrightarrow> (\<forall>i j. i < j \<and> j < length fs \<longrightarrow>
      lit_true V (- (ls ! i)) \<or> lit_true V (- (ls ! j)))" by simp
  also have "\<dots> \<longleftrightarrow> (\<forall>i j. i < j \<and> j < length fs \<longrightarrow> fs ! i \<notin> chosen s V \<or> fs ! j \<notin> chosen s V)"
    using lit dual_order.strict_trans by blast
  also have "\<dots> \<longleftrightarrow> (\<forall>f \<in> set fs \<inter> chosen s V. \<forall>g \<in> set fs \<inter> chosen s V. f = g)"
  proof
    assume r: "\<forall>f \<in> set fs \<inter> chosen s V. \<forall>g \<in> set fs \<inter> chosen s V. f = g"
    show "\<forall>i j. i < j \<and> j < length fs \<longrightarrow> fs ! i \<notin> chosen s V \<or> fs ! j \<notin> chosen s V"
    proof (intro allI impI)
      fix i j assume "i < j \<and> j < length fs"
      then have "fs ! i \<noteq> fs ! j" "fs ! i \<in> set fs" "fs ! j \<in> set fs"
        using assms(4) by (auto simp: nth_eq_iff_index_eq)
      then show "fs ! i \<notin> chosen s V \<or> fs ! j \<notin> chosen s V" using r by blast
    qed
  next
    assume l: "\<forall>i j. i < j \<and> j < length fs \<longrightarrow> fs ! i \<notin> chosen s V \<or> fs ! j \<notin> chosen s V"
    show "\<forall>f \<in> set fs \<inter> chosen s V. \<forall>g \<in> set fs \<inter> chosen s V. f = g"
    proof (intro ballI)
      fix f g assume "f \<in> set fs \<inter> chosen s V" "g \<in> set fs \<inter> chosen s V"
      moreover from this obtain i j where "i < length fs" "fs ! i = f" "j < length fs" "fs ! j = g"
        by (auto simp: in_set_conv_nth)
      ultimately show "f = g" using l by (metis IntD2 linorder_neqE_nat)
    qed
  qed
  finally show ?thesis .
qed

lemma one_of_these_clauses:
  assumes ids: "distinct (map fmri_key (s_ids s))" and "gen_one_of_these_clauses s fs = Inr cs"
  shows "satisfies V cs \<longleftrightarrow> (\<exists>f \<in> set fs. fmri_key f \<in> fmri_key ` chosen s V)"
proof -
  obtain ls where ls: "smap (getid s) fs = Inr ls" "cs = [ls]"
    using assms(2) by (auto simp: gen_one_of_these_clauses_def sbind_eq_Inr split: if_splits)
  have "(\<exists>i \<in> set ls. lit_true V i) = (\<exists>f \<in> set fs. fmri_key f \<in> fmri_key ` chosen s V)"
    using chosen_key(2) [OF ids] by (intro list_all2_ex [OF ls(1) [unfolded smap_Inr]]) auto
  then show ?thesis by (simp add: satisfies_def ls(2))
qed

section \<open>The clauses of a dependency\<close>

lemma has_package_allowed:
  "S \<subseteq> set (s_ids s) \<Longrightarrow> has_package env S p \<longleftrightarrow> allowed env s CONSTRAINT_NONE False p \<inter> S \<noteq> {}"
  by (auto simp: has_package_def allowed_def)

lemma group_choices_ids: "group_choices env s fs \<subseteq> set (s_ids s)"
  by (auto simp: group_choices_def present_first_def)

lemma gen_dependency_clauses_iff:
  assumes s: "settled env s" and f: "f \<in> set (s_ids s)"
    and run: "gen_dependency_clauses env f da s = (Inr cs, s')"
  shows "quiet env s s'"
    "satisfies V cs \<longleftrightarrow> (f \<in> chosen s V \<longrightarrow> dependency_met env s (chosen s V) da)"
proof -
  obtain d t where d: "parse_dependency env [] True False da f s = (Inr d, t)"
    and cs: "(if pd_type d = ''require'' \<or> pd_type d = ''require-any'' then gen_require_clauses t f (pd_m d)
       else if pd_type d = ''group'' \<or> pd_type d = ''group-any'' then
         if pd_m d = [] then Inr [] else gen_require_clauses t f (pd_m d)
       else if pd_type d = ''conditional'' then gen_require_conditional_clauses t f (pd_m d) (pd_cond d)
       else if pd_type d = ''origin'' \<or> pd_type d = ''parent'' then Inr []
       else gen_negation_clauses t f (pd_nm d)) = Inr cs" and t: "s' = t"
    using run unfolding gen_dependency_clauses_def by (auto simp: run_simps)
  note q = calmD(1) [OF calm_parse_dependency [OF s] s quiet_refl d]
  obtain fs where fs: "dep_fmris da = Inr fs" "fs \<noteq> []" "parsed_as env s da fs d"
    using calmD(2) [OF calm_parse_dependency [OF s] s quiet_refl d] by blast
  show "quiet env s s'" using q t by simp
  have ids: "s_ids t = s_ids s" using q by (rule quiet_fields)
  have ch: "chosen t V = chosen s V" by (simp add: chosen_def ids)
  have dist: "distinct (map fmri_key (s_ids t))" using s ids by (simp add: settled_def)
  have ft: "f \<in> set (s_ids t)" using f ids by simp
  note req = require_clauses [OF dist _ ft, of "pd_m d" cs V, unfolded ch ids]
    and neg = negation_clauses [OF dist _ ft, of "pd_nm d" cs V, unfolded ch ids]
    and con = conditional_clauses [OF dist _ ft, of "pd_m d" "pd_cond d" cs V, unfolded ch ids]
  note hp = has_package_allowed [OF chosen_ids, of env s V]
  let ?t = "str_attr da ''type''"
  have type: "pd_type d = ?t" using fs(3) by (simp add: parsed_as_def Let_def)
  have sub: "allowed env s c ok r \<subseteq> set (s_ids s)" "named_ids s n \<subseteq> set (s_ids s)" for c ok r n
    by (auto simp: allowed_def named_ids_def)
  consider "?t = ''require''" | "?t = ''require-any''" | "?t = ''conditional''"
    | "?t = ''group'' \<or> ?t = ''group-any''" | "?t \<in> {''optional'', ''exclude'', ''incorporate''}"
    | "?t = ''origin'' \<or> ?t = ''parent''" using fs(3) by (auto simp: parsed_as_def Let_def split: if_splits)
  then show "satisfies V cs \<longleftrightarrow> (f \<in> chosen s V \<longrightarrow> dependency_met env s (chosen s V) da)"
  proof cases
    case 1
    then show ?thesis using req cs fs sub unfolding type by (simp add: parsed_as_def dependency_met_def hp)
  next
    case 2
    then have m: "set (pd_m d) = (\<Union>r \<in> set fs. allowed env s CONSTRAINT_NONE False r)"
      using fs(3) by (simp add: parsed_as_def)
    then have "set (pd_m d) \<subseteq> set (s_ids s)" using sub(1) by (simp add: UN_least)
    moreover have "dependency_met env s (chosen s V) da \<longleftrightarrow> set (pd_m d) \<inter> chosen s V \<noteq> {}"
      using fs(1,2) 2 by (simp add: dependency_met_def hp m) blast
    ultimately show ?thesis using req cs 2 unfolding type by simp
  next
    case 3
    then obtain p where "dep_predicate da = Inr p" "set (pd_cond d) = allowed env s CONSTRAINT_NONE False p"
      "set (pd_m d) = allowed env s CONSTRAINT_NONE False (hd fs)"
      using fs(3) by (auto simp: parsed_as_def)
    then show ?thesis using con cs fs(1,2) sub 3 unfolding type by (simp add: dependency_met_def hp)
  next
    case 4
    then have "set (pd_m d) = group_choices env s fs" using fs(3) by (auto simp: parsed_as_def)
    moreover from this have "pd_m d = [] \<longleftrightarrow> group_choices env s fs = {}" by auto
    moreover have "str_attr da ''type'' = ''group'' \<Longrightarrow> dependency_met env s (chosen s V) da =
        (group_choices env s fs = {} \<or> group_choices env s fs \<inter> chosen s V \<noteq> {})"
      "str_attr da ''type'' = ''group-any'' \<Longrightarrow> dependency_met env s (chosen s V) da =
        (group_choices env s fs = {} \<or> group_choices env s fs \<inter> chosen s V \<noteq> {})"
      using fs(1,2) by (simp_all add: dependency_met_def)
    ultimately show ?thesis using req cs group_choices_ids [of env s fs] 4 unfolding type
      by (auto simp: satisfies_def split: if_splits)
  next
    case 5
    have "(set (pd_nm d) \<inter> chosen s V = {}) = dependency_met env s (chosen s V) da" "set (pd_nm d) \<subseteq> set (s_ids s)"
      using 5 fs chosen_ids [of s V]
      unfolding parsed_as_def dependency_met_def allowed_def named_ids_def Let_def by auto
    then show ?thesis using neg cs 5 unfolding type by auto
  next
    case 6
    then show ?thesis using cs fs(1,2) unfolding type by (auto simp: dependency_met_def satisfies_def)
  qed
qed

section \<open>The numbers in the clauses\<close>

definition in_range :: "sstate \<Rightarrow> int list list \<Rightarrow> bool" where
  "in_range s cs \<longleftrightarrow> (\<forall>c \<in> set cs. \<forall>l \<in> set c. 1 \<le> \<bar>l\<bar> \<and> \<bar>l\<bar> \<le> int (length (s_ids s)))"

lemma in_range_simps [simp]:
  "in_range s []" "in_range s (cs @ ds) \<longleftrightarrow> in_range s cs \<and> in_range s ds"
  by (auto simp: in_range_def)

lemma getid_range: "getid s f = Inr i \<Longrightarrow> 1 \<le> i \<and> i \<le> int (length (s_ids s))"
  by (auto simp: getid_def dest: index_of_Some split: option.splits)

lemma smap_mem: "smap f xs = Inr ys \<Longrightarrow> y \<in> set ys \<Longrightarrow> \<exists>x. f x = Inr y"
  unfolding smap_Inr by (auto simp: list_all2_conv_all_nth in_set_conv_nth)

lemma smap_getid_range:
  "smap (getid s) fs = Inr ls \<Longrightarrow> i \<in> set ls \<Longrightarrow> 1 \<le> \<bar>i\<bar> \<and> \<bar>i\<bar> \<le> int (length (s_ids s))"
  using smap_mem [of "getid s" fs ls i] getid_range [of s _ i] by fastforce

lemma gen_require_range: "gen_require_clauses s f ms = Inr cs \<Longrightarrow> in_range s cs"
  using getid_range [of s f]
  by (auto simp: gen_require_clauses_def sbind_eq_Inr in_range_def dest: smap_getid_range)

lemma gen_one_of_these_range: "gen_one_of_these_clauses s fs = Inr cs \<Longrightarrow> in_range s cs"
  by (auto simp: gen_one_of_these_clauses_def sbind_eq_Inr in_range_def dest: smap_getid_range split: if_splits)

lemma gen_conditional_range: "gen_require_conditional_clauses s f ms cond = Inr cs \<Longrightarrow> in_range s cs"
  by (fastforce simp: gen_require_conditional_clauses_def sbind_eq_Inr in_range_def
      dest: smap_getid_range smap_mem getid_range)

lemma gen_negation_range: "gen_negation_clauses s f nms = Inr cs \<Longrightarrow> in_range s cs"
  by (fastforce simp: gen_negation_clauses_def sbind_eq_Inr in_range_def dest: smap_mem getid_range)

lemma gen_highlander_range:
  assumes "gen_highlander_clauses s fs = Inr cs"
  shows "in_range s cs"
proof (cases "length fs = 1")
  case False
  then obtain ls where ls: "smap (getid s) fs = Inr ls"
    "cs = concat (map (\<lambda>i. map (\<lambda>j. [- (ls ! i), - (ls ! j)]) [Suc i..<length ls]) [0..<length ls - 1])"
    using assms by (auto simp: gen_highlander_clauses_def sbind_eq_Inr)
  have "1 \<le> \<bar>- (ls ! i)\<bar> \<and> \<bar>- (ls ! i)\<bar> \<le> int (length (s_ids s))" if "i < length ls" for i
    using smap_getid_range [OF ls(1) nth_mem [OF that]] by simp
  then show ?thesis by (auto simp: in_range_def ls(2))
qed (use assms in \<open>simp add: gen_highlander_clauses_def\<close>)

lemma gen_dependency_range: "gen_dependency_clauses env f da s = (Inr cs, s') \<Longrightarrow> in_range s' cs"
  unfolding gen_dependency_clauses_def
  by (auto simp: run_simps split: if_splits
      intro: gen_require_range gen_conditional_range gen_negation_range)

end
