(* ===== verification/Solver_Search.thy ===== *)
theory Solver_Search
  imports Solver_Plan Solver_Meaning
begin

text \<open>
  The clauses of an operation and the search: the clauses together say that a set of packages is
  consistent and does what was asked, and each search returns a best set that it can find.
\<close>

section \<open>Collecting clauses\<close>

text \<open>Two states that differ in the clauses at most, and in what is cached.\<close>

definition same :: "senv \<Rightarrow> sstate \<Rightarrow> sstate \<Rightarrow> bool" where
  "same env s t \<longleftrightarrow> quiet env s (t\<lparr>s_clauses := s_clauses s, s_failed := s_failed s\<rparr>)"

definition failure_ok :: "sstate \<Rightarrow> bool" where
  "failure_ok s \<longleftrightarrow> (s_failed s \<longrightarrow> (\<forall>V. \<not> satisfies V (s_clauses s)))"

lemma same_refl [simp]: "same env s s"
  by (simp add: same_def)

lemma same_fields:
  assumes "same env s t"
  shows "s_ids t = s_ids s" "s_avoid t = s_avoid s" "s_reject t = s_reject s" "s_possible t = s_possible s"
    "s_removal t = s_removal s" "s_downgrades t = s_downgrades s"
  using quiet_fields [OF assms [unfolded same_def]] by simp_all

lemma settled_clauses: "settled env (s\<lparr>s_clauses := c, s_failed := b\<rparr>) = settled env s"
  by (simp add: settled_def is_trimmed_def fstate_ok_def catalog_fmris_def)

lemma same_settled: "settled env s \<Longrightarrow> same env s t \<Longrightarrow> settled env t"
  using settled_quiet [of env s "t\<lparr>s_clauses := s_clauses s, s_failed := s_failed s\<rparr>"]
  by (simp add: same_def settled_clauses)

lemma same_quiet:
  assumes s: "same env s t" and t: "quiet env t u"
  shows "same env s u"
proof -
  obtain a b where u: "u = t\<lparr>s_fstate := a, s_pub_trim := b\<rparr>" using t unfolding quiet_def by blast
  have "quiet env (t\<lparr>s_clauses := s_clauses s, s_failed := s_failed s\<rparr>)
      (u\<lparr>s_clauses := s_clauses s, s_failed := s_failed s\<rparr>)"
    by (rule quietI [where a = a and b = b]) (use t in \<open>auto simp: quiet_def fstate_ok_def u\<close>)
  then show ?thesis using s quiet_trans unfolding same_def by blast
qed

lemma same_clauses: "same env s t \<Longrightarrow> same env s (t\<lparr>s_clauses := c, s_failed := b\<rparr>)"
  by (simp add: same_def)

lemma same_chosen: "same env s t \<Longrightarrow> chosen t V = chosen s V"
  by (simp add: chosen_def same_fields)

lemma same_dependency_met: "same env s t \<Longrightarrow> dependency_met env t S da = dependency_met env s S da"
  by (simp add: dependency_met_def group_choices_def same_fields)

lemma satisfies_append [simp]: "satisfies V (cs @ ds) \<longleftrightarrow> satisfies V cs \<and> satisfies V ds"
  by (auto simp: satisfies_def)

lemma satisfies_Nil [simp]: "satisfies V []"
  by (simp add: satisfies_def)

lemma addclause_effect:
  assumes "msat_ok ms"
  shows "s_clauses (addclause ms c s) = s_clauses s @ [c]"
    "addclause ms c s = s\<lparr>s_clauses := s_clauses (addclause ms c s), s_failed := s_failed (addclause ms c s)\<rparr>"
    "failure_ok s \<Longrightarrow> failure_ok (addclause ms c s)"
  using assms by (auto simp: failure_ok_def addclause_def msat_ok_def)

lemma addclauses_effect:
  assumes "msat_ok ms"
  shows "\<exists>b. fold (addclause ms) cs s = s\<lparr>s_clauses := s_clauses s @ cs, s_failed := b\<rparr>"
    "failure_ok s \<Longrightarrow> failure_ok (fold (addclause ms) cs s)"
proof (induction cs arbitrary: s)
  case Nil
  {
    case 1
    show ?case by (rule exI [of _ "s_failed s"]) simp
  next
    case 2
    then show ?case by simp
  }
next
  case (Cons c cs)
  {
    case 1
    let ?t = "addclause ms c s"
    obtain b where "fold (addclause ms) cs ?t = ?t\<lparr>s_clauses := s_clauses ?t @ cs, s_failed := b\<rparr>"
      using Cons.IH(1) by blast
    moreover have "?t\<lparr>s_clauses := s_clauses ?t @ cs, s_failed := b\<rparr> =
        s\<lparr>s_clauses := s_clauses s @ c # cs, s_failed := b\<rparr>"
      by (simp add: addclause_def)
    ultimately show ?case by auto
  next
    case 2
    then show ?case using Cons.IH(2) addclause_effect(3) [OF assms] by simp
  }
qed

text \<open>\<open>adds\<close>: a computation that returns has added clauses that say \<open>Phi\<close>.\<close>

definition adds :: "senv \<Rightarrow> sstate \<Rightarrow> unit srun \<Rightarrow> (nat set \<Rightarrow> bool) \<Rightarrow> bool" where
  "adds env s0 m Phi \<longleftrightarrow> (settled env s0 \<longrightarrow> (\<forall>s s'. same env s0 s \<longrightarrow> m s = (Inr (), s') \<longrightarrow>
     same env s0 s' \<and> (failure_ok s \<longrightarrow> failure_ok s')
     \<and> (\<exists>cs. s_clauses s' = s_clauses s @ cs \<and> in_range s0 cs \<and> (\<forall>V. satisfies V cs \<longleftrightarrow> Phi V))))"

lemma addsD:
  assumes "adds env s0 m Phi" "settled env s0" "same env s0 s" "m s = (Inr (), s')"
  obtains cs where "same env s0 s'" "failure_ok s \<Longrightarrow> failure_ok s'" "s_clauses s' = s_clauses s @ cs"
    "in_range s0 cs" "\<And>V. satisfies V cs \<longleftrightarrow> Phi V"
proof -
  have "same env s0 s' \<and> (failure_ok s \<longrightarrow> failure_ok s')
     \<and> (\<exists>cs. s_clauses s' = s_clauses s @ cs \<and> in_range s0 cs \<and> (\<forall>V. satisfies V cs \<longleftrightarrow> Phi V))"
    using assms(1) [unfolded adds_def, rule_format, OF assms(2-4)] .
  then show ?thesis using that by blast
qed

lemma adds_mono: "adds env s0 m Phi \<Longrightarrow> (\<And>V. Phi V = Psi V) \<Longrightarrow> adds env s0 m Psi"
  by (simp add: adds_def)

lemma adds_mret: "(\<And>V. Phi V) \<Longrightarrow> adds env s0 (mret ()) Phi"
  by (auto simp: adds_def run_simps intro!: exI [of _ "[]"])

lemma adds_addclauses:
  assumes "msat_ok ms" "\<And>V. satisfies V cs \<longleftrightarrow> Phi V" "in_range s0 cs"
  shows "adds env s0 (addclauses ms cs) Phi"
  unfolding adds_def
proof (intro impI allI)
  fix s s' assume s: "same env s0 s" "addclauses ms cs s = (Inr (), s')"
  have s': "s' = fold (addclause ms) cs s" using s(2) by (simp add: addclauses_def run_simps)
  obtain b where "s' = s\<lparr>s_clauses := s_clauses s @ cs, s_failed := b\<rparr>"
    using addclauses_effect(1) [OF assms(1), where cs = cs and s = s] s' by blast
  moreover have "failure_ok s \<longrightarrow> failure_ok s'" using addclauses_effect(2) [OF assms(1)] s' by blast
  ultimately show "same env s0 s' \<and> (failure_ok s \<longrightarrow> failure_ok s')
     \<and> (\<exists>cs. s_clauses s' = s_clauses s @ cs \<and> in_range s0 cs \<and> (\<forall>V. satisfies V cs \<longleftrightarrow> Phi V))"
    using same_clauses [OF s(1)] assms(2,3) by auto
qed

lemma adds_seq:
  assumes "adds env s0 m Phi" "adds env s0 n Psi"
  shows "adds env s0 (mthen m (\<lambda>_. n)) (\<lambda>V. Phi V \<and> Psi V)"
  unfolding adds_def
proof (intro impI allI)
  fix s s' assume s: "settled env s0" "same env s0 s" "mthen m (\<lambda>_. n) s = (Inr (), s')"
  then obtain t where t: "m s = (Inr (), t)" "n t = (Inr (), s')" by (auto simp: run_simps)
  obtain cs where c: "same env s0 t" "failure_ok s \<Longrightarrow> failure_ok t" "s_clauses t = s_clauses s @ cs"
    "in_range s0 cs" "\<And>V. satisfies V cs \<longleftrightarrow> Phi V" by (rule addsD [OF assms(1) s(1,2) t(1)]) blast
  obtain ds where d: "same env s0 s'" "failure_ok t \<Longrightarrow> failure_ok s'" "s_clauses s' = s_clauses t @ ds"
    "in_range s0 ds" "\<And>V. satisfies V ds \<longleftrightarrow> Psi V" by (rule addsD [OF assms(2) s(1) c(1) t(2)]) blast
  show "same env s0 s' \<and> (failure_ok s \<longrightarrow> failure_ok s') \<and> (\<exists>cs. s_clauses s' = s_clauses s @ cs \<and> in_range s0 cs
      \<and> (\<forall>V. satisfies V cs \<longleftrightarrow> Phi V \<and> Psi V))"
    using c d by (intro conjI exI [of _ "cs @ ds"]) auto
qed

lemma adds_mloop:
  "(\<And>x. x \<in> set xs \<Longrightarrow> adds env s0 (f x) (Phi x)) \<Longrightarrow> adds env s0 (mloop f xs) (\<lambda>V. \<forall>x \<in> set xs. Phi x V)"
proof (induction xs)
  case (Cons x xs)
  have "adds env s0 (f x) (Phi x)" "adds env s0 (mloop f xs) (\<lambda>V. \<forall>x \<in> set xs. Phi x V)" using Cons by auto
  from adds_seq [OF this] show ?case by simp
qed (simp add: adds_mret)

text \<open>A part that only looks: what it returns may use that the state is as before.\<close>

definition looks :: "senv \<Rightarrow> sstate \<Rightarrow> 'a srun \<Rightarrow> ('a \<Rightarrow> bool) \<Rightarrow> bool" where
  "looks env s0 m P \<longleftrightarrow> (settled env s0 \<longrightarrow> (\<forall>s a s'. same env s0 s \<longrightarrow> m s = (Inr a, s') \<longrightarrow>
     quiet env s s' \<and> P a))"

lemma adds_look:
  assumes "looks env s0 m P" "\<And>a. P a \<Longrightarrow> adds env s0 (k a) Phi"
  shows "adds env s0 (mthen m k) Phi"
  unfolding adds_def
proof (intro impI allI)
  fix s s' assume s: "settled env s0" "same env s0 s" "mthen m k s = (Inr (), s')"
  then obtain a t where t: "m s = (Inr a, t)" "k a t = (Inr (), s')" by (auto simp: run_simps)
  have q: "quiet env s t" "P a" using assms(1) s(1,2) t(1) by (auto simp: looks_def)
  have st: "s_clauses t = s_clauses s" "s_failed t = s_failed s" using quiet_fields [OF q(1)] by auto
  then have "failure_ok t = failure_ok s" by (simp add: failure_ok_def)
  then show "same env s0 s' \<and> (failure_ok s \<longrightarrow> failure_ok s') \<and> (\<exists>cs. s_clauses s' = s_clauses s @ cs \<and> in_range s0 cs
      \<and> (\<forall>V. satisfies V cs \<longleftrightarrow> Phi V))"
    using addsD [OF assms(2) [OF q(2)] s(1) same_quiet [OF s(2) q(1)] t(2)] st by metis
qed

lemma looks_mget: "(\<And>s. settled env s \<Longrightarrow> same env s0 s \<Longrightarrow> P (f s)) \<Longrightarrow> looks env s0 (mget f) P"
  by (auto simp: looks_def run_simps intro: same_settled)

lemma looks_mlift: "(\<And>a. r = Inr a \<Longrightarrow> P a) \<Longrightarrow> looks env s0 (mlift r) P"
  by (auto simp: looks_def run_simps)

lemma looks_mret: "P a \<Longrightarrow> looks env s0 (mret a) P"
  by (auto simp: looks_def run_simps)

lemma looks_calm:
  assumes "\<And>s. same env s0 s \<Longrightarrow> calm env s m P"
  shows "looks env s0 m P"
  unfolding looks_def
proof (intro impI allI)
  fix s a s' assume s: "settled env s0" "same env s0 s" "m s = (Inr a, s')"
  show "quiet env s s' \<and> P a"
    using calmD [OF assms [OF s(2)] same_settled [OF s(1,2)] quiet_refl s(3)] by blast
qed

text \<open>The dependencies of a package.\<close>

definition dep_actions :: "senv \<Rightarrow> fmri \<Rightarrow> action list" where
  "dep_actions env f =
     (case solver_actions env (e_excludes env) ''depend'' f of Inl e \<Rightarrow> [] | Inr acts \<Rightarrow> acts)"

lemma get_dependency_actions_good:
  "good_entry env f \<Longrightarrow> get_dependency_actions env f s = (Inr (dep_actions env f), s)"
  by (auto simp: good_entry_def get_dependency_actions_def get_actions_def dep_actions_def run_simps)

lemma looks_dependency_actions:
  "f \<in> set (s_ids s0) \<Longrightarrow> looks env s0 (get_dependency_actions env f) (\<lambda>acts. acts = dep_actions env f)"
  by (auto simp: looks_def settled_def get_dependency_actions_good)

lemma adds_dependency:
  assumes "msat_ok ms" "f \<in> set (s_ids s0)"
  shows "adds env s0 (mthen (gen_dependency_clauses env f da) (addclauses ms))
     (\<lambda>V. f \<in> chosen s0 V \<longrightarrow> dependency_met env s0 (chosen s0 V) da)"
proof (rule adds_look)
  show "looks env s0 (gen_dependency_clauses env f da) (\<lambda>cs. in_range s0 cs \<and> (\<forall>V. satisfies V cs \<longleftrightarrow>
      (f \<in> chosen s0 V \<longrightarrow> dependency_met env s0 (chosen s0 V) da)))"
    unfolding looks_def
  proof (intro impI allI)
    fix s cs s' assume s: "settled env s0" "same env s0 s" "gen_dependency_clauses env f da s = (Inr cs, s')"
    have "f \<in> set (s_ids s)" using assms(2) same_fields(1) [OF s(2)] by simp
    note g = gen_dependency_clauses_iff [OF same_settled [OF s(1,2)] this s(3)]
    have "in_range s cs" using gen_dependency_range [OF s(3)] quiet_fields(1) [OF g(1)] by (simp add: in_range_def)
    with g show "quiet env s s' \<and> in_range s0 cs \<and> (\<forall>V. satisfies V cs \<longleftrightarrow>
      (f \<in> chosen s0 V \<longrightarrow> dependency_met env s0 (chosen s0 V) da))"
      using same_fields(1) [OF s(2)]
      by (simp add: same_chosen [OF s(2)] same_dependency_met [OF s(2)] in_range_def)
  qed
qed (use assms(1) in \<open>auto intro: adds_addclauses\<close>)

lemma settled_possible:
  assumes "settled env s" "(n, fs) \<in> set (s_possible s)"
  shows "set fs = named_ids s n" "distinct fs" "fs \<noteq> []"
proof -
  have "dget (s_possible s) n = Some fs" using assms by (simp add: settled_def dget_Some_mem)
  moreover have "set (catalog_fmris env n s) = named_ids s n" "s_trimdone s"
    using assms(1) by (auto simp: settled_def named_ids_def)
  ultimately show "set fs = named_ids s n" by (simp add: catalog_fmris_def)
  show "distinct fs" "fs \<noteq> []" using assms by (auto simp: settled_def)
qed

lemma settled_named:
  assumes "settled env s" "named_ids s n \<noteq> {}"
  shows "\<exists>fs. (n, fs) \<in> set (s_possible s)"
proof -
  have "set (catalog_fmris env n s) \<noteq> {}" "s_trimdone s" using assms by (auto simp: settled_def named_ids_def)
  moreover have "dict_ok (s_possible s)" using assms(1) by (simp add: settled_def)
  ultimately show ?thesis by (cases "dget (s_possible s) n") (auto simp: catalog_fmris_def dget_Some_mem)
qed

text \<open>What the clauses of the packages say: one version each, every dependency met.\<close>

definition consistent :: "senv \<Rightarrow> sstate \<Rightarrow> fmri set \<Rightarrow> bool" where
  "consistent env s S \<longleftrightarrow> (\<forall>f \<in> S. \<forall>g \<in> S. f_name f = f_name g \<longrightarrow> f = g)
     \<and> (\<forall>f \<in> S. \<forall>da \<in> set (dep_actions env f). dependency_met env s S da)"

definition at_most_one :: "fmri list \<Rightarrow> fmri set \<Rightarrow> bool" where
  "at_most_one fs S \<longleftrightarrow> (\<forall>f \<in> set fs \<inter> S. \<forall>g \<in> set fs \<inter> S. f = g)"

definition dependencies_met :: "senv \<Rightarrow> sstate \<Rightarrow> fmri list \<Rightarrow> fmri set \<Rightarrow> bool" where
  "dependencies_met env s fs S \<longleftrightarrow>
     (\<forall>f \<in> set fs. \<forall>da \<in> set (dep_actions env f). f \<in> S \<longrightarrow> dependency_met env s S da)"

lemma adds_dependencies:
  assumes "msat_ok ms" "set fs \<subseteq> set (s_ids s0)"
  shows "adds env s0 (mloop (\<lambda>f. mthen (get_dependency_actions env f)
      (mloop (\<lambda>da. mthen (gen_dependency_clauses env f da) (addclauses ms)))) fs)
    (\<lambda>V. dependencies_met env s0 fs (chosen s0 V))"
proof -
  have "adds env s0 (mthen (get_dependency_actions env f)
      (mloop (\<lambda>da. mthen (gen_dependency_clauses env f da) (addclauses ms))))
      (\<lambda>V. \<forall>da \<in> set (dep_actions env f). f \<in> chosen s0 V \<longrightarrow> dependency_met env s0 (chosen s0 V) da)"
    if "f \<in> set fs" for f
  proof (rule adds_look [OF looks_dependency_actions])
    show f: "f \<in> set (s_ids s0)" using that assms(2) by blast
    fix acts assume "acts = dep_actions env f"
    then show "adds env s0 (mloop (\<lambda>da. mthen (gen_dependency_clauses env f da) (addclauses ms)) acts)
      (\<lambda>V. \<forall>da \<in> set (dep_actions env f). f \<in> chosen s0 V \<longrightarrow> dependency_met env s0 (chosen s0 V) da)"
      using adds_mloop [OF adds_dependency [OF assms(1) f]] by simp
  qed
  from adds_mloop [OF this] show ?thesis by (simp add: dependencies_met_def)
qed

lemma adds_highlander:
  assumes "msat_ok ms" "set fs \<subseteq> set (s_ids s0)" "distinct fs"
  shows "adds env s0 (mthen (mget (\<lambda>s. gen_highlander_clauses s fs)) (\<lambda>r. mthen (mlift r) (addclauses ms)))
    (\<lambda>V. at_most_one fs (chosen s0 V))"
proof (rule adds_look [OF looks_mget [where P = "\<lambda>r. \<forall>cs. r = Inr cs \<longrightarrow> in_range s0 cs \<and> (\<forall>V. satisfies V cs = at_most_one fs (chosen s0 V))"]])
  fix s assume s: "settled env s" "same env s0 s"
  have d: "distinct (map fmri_key (s_ids s))" using s(1) by (simp add: settled_def)
  have "set fs \<subseteq> set (s_ids s)" using assms(2) same_fields(1) [OF s(2)] by simp
  from highlander_clauses [OF d _ this assms(3)] gen_highlander_range [of s fs]
  show "\<forall>cs. gen_highlander_clauses s fs = Inr cs \<longrightarrow> in_range s0 cs
      \<and> (\<forall>V. satisfies V cs = at_most_one fs (chosen s0 V))"
    by (simp add: at_most_one_def same_chosen [OF s(2)] in_range_def same_fields(1) [OF s(2)])
next
  fix r :: "solver_exn + int list list" assume r: "\<forall>cs. r = Inr cs \<longrightarrow>
      in_range s0 cs \<and> (\<forall>V. satisfies V cs = at_most_one fs (chosen s0 V))"
  show "adds env s0 (mthen (mlift r) (addclauses ms)) (\<lambda>V. at_most_one fs (chosen s0 V))"
    by (rule adds_look [OF looks_mlift [where P = "\<lambda>cs. in_range s0 cs \<and> (\<forall>V. satisfies V cs = at_most_one fs (chosen s0 V))"]])
      (use r assms(1) in \<open>auto intro: adds_addclauses\<close>)
qed

lemma mthen_assoc: "mthen (mthen m k) l = mthen m (\<lambda>a. mthen (k a) l)"
  by (rule ext) (simp add: mthen_def split: prod.split sum.split)

lemma consistent_by_name:
  assumes st: "settled env s"
  shows "consistent env s (chosen s V) \<longleftrightarrow>
    (\<forall>(n, fs) \<in> set (s_possible s). at_most_one fs (chosen s V) \<and> dependencies_met env s fs (chosen s V))"
proof -
  let ?S = "chosen s V"
  have mem: "f \<in> set fs \<longleftrightarrow> f_name f = n" if "(n, fs) \<in> set (s_possible s)" "f \<in> ?S" for n fs f
    using settled_possible(1) [OF st that(1)] that(2) chosen_ids by (auto simp: named_ids_def)
  have names: "f_name f = n" if "(n, fs) \<in> set (s_possible s)" "f \<in> set fs" for n fs f
    using settled_possible(1) [OF st that(1)] that(2) by (auto simp: named_ids_def)
  have cover: "\<exists>fs. (f_name f, fs) \<in> set (s_possible s)" if "f \<in> ?S" for f
  proof (rule settled_named [OF st])
    show "named_ids s (f_name f) \<noteq> {}" using that chosen_ids by (auto simp: named_ids_def)
  qed
  show ?thesis
  proof
    assume c: "consistent env s ?S"
    show "\<forall>(n, fs) \<in> set (s_possible s). at_most_one fs ?S \<and> dependencies_met env s fs ?S"
      using c names unfolding consistent_def at_most_one_def dependencies_met_def by fastforce
  next
    assume l: "\<forall>(n, fs) \<in> set (s_possible s). at_most_one fs ?S \<and> dependencies_met env s fs ?S"
    show "consistent env s ?S"
      unfolding consistent_def
    proof (intro conjI ballI impI)
      fix f g assume f: "f \<in> ?S" "g \<in> ?S" "f_name f = f_name g"
      obtain fs where fs: "(f_name f, fs) \<in> set (s_possible s)" using cover [OF f(1)] by blast
      then have "at_most_one fs ?S" "f \<in> set fs" "g \<in> set fs" using l mem [OF fs] f by auto
      then show "f = g" using f by (auto simp: at_most_one_def)
    next
      fix f da assume f: "f \<in> ?S" "da \<in> set (dep_actions env f)"
      obtain fs where fs: "(f_name f, fs) \<in> set (s_possible s)" using cover [OF f(1)] by blast
      then have "dependencies_met env s fs ?S" "f \<in> set fs" using l mem [OF fs] f by auto
      then show "dependency_met env s ?S da" using f by (auto simp: dependencies_met_def)
    qed
  qed
qed

lemma adds_enforce_unique:
  assumes ms: "msat_ok ms" and st: "settled env s0"
  shows "adds env s0 (enforce_unique_packages ms env) (\<lambda>V. consistent env s0 (chosen s0 V))"
  unfolding enforce_unique_packages_def
proof (rule adds_look [OF looks_mget [where P = "\<lambda>d. d = s_possible s0"]])
  fix d assume "d = s_possible s0"
  moreover have "adds env s0 ((\<lambda>(name, fs). mthen (mget (\<lambda>s. gen_highlander_clauses s fs)) (\<lambda>r.
       mthen (mlift r) (\<lambda>cs. mthen (addclauses ms cs) (\<lambda>_.
       mloop (\<lambda>f. mthen (get_dependency_actions env f)
           (mloop (\<lambda>da. mthen (gen_dependency_clauses env f da) (addclauses ms)))) fs)))) x)
      (\<lambda>V. case x of (n, fs) \<Rightarrow> at_most_one fs (chosen s0 V) \<and> dependencies_met env s0 fs (chosen s0 V))"
    if "x \<in> set (s_possible s0)" for x
  proof -
    obtain n fs where [simp]: "x = (n, fs)" by fastforce
    have "set fs \<subseteq> set (s_ids s0)" "distinct fs"
      using settled_possible [OF st, of n fs] that by (auto simp: named_ids_def)
    from adds_seq [OF adds_highlander [OF ms this] adds_dependencies [OF ms this(1)]]
    show ?thesis by (simp add: mthen_assoc)
  qed
  ultimately show "adds env s0 (mloop (\<lambda>(name, fs). mthen (mget (\<lambda>s. gen_highlander_clauses s fs)) (\<lambda>r.
       mthen (mlift r) (\<lambda>cs. mthen (addclauses ms cs) (\<lambda>_.
       mloop (\<lambda>f. mthen (get_dependency_actions env f)
           (mloop (\<lambda>da. mthen (gen_dependency_clauses env f da) (addclauses ms)))) fs)))) d)
      (\<lambda>V. consistent env s0 (chosen s0 V))"
    unfolding consistent_by_name [OF st] by (auto intro: adds_mloop)
qed (simp add: same_fields)

section \<open>The clauses of an operation\<close>

definition represented :: "fmri list \<Rightarrow> fmri set \<Rightarrow> bool" where
  "represented fs S \<longleftrightarrow> (\<exists>f \<in> set fs. fmri_key f \<in> fmri_key ` S)"

definition operation_met :: "senv \<Rightarrow> fmri list dict \<Rightarrow> sstate \<Rightarrow> fmri set \<Rightarrow> bool" where
  "operation_met env prop s S \<longleftrightarrow>
     (\<forall>(n, fs) \<in> set prop. represented (finter fs (proposed_of (s_possible s) n)) S)
     \<and> (\<forall>n \<in> set (kept_names env (map fst prop) s). \<forall>fs. dget (s_possible s) n = Some fs \<longrightarrow> represented fs S)"

lemma adds_one_of_these:
  assumes "msat_ok ms"
  shows "adds env s0 (one_of_these ms fs) (\<lambda>V. represented fs (chosen s0 V))"
  unfolding one_of_these_def
proof (rule adds_look [OF looks_mget [where P = "\<lambda>r. \<forall>cs. r = Inr cs \<longrightarrow>
      in_range s0 cs \<and> (\<forall>V. satisfies V cs = represented fs (chosen s0 V))"]])
  fix s assume s: "settled env s" "same env s0 s"
  have "distinct (map fmri_key (s_ids s))" using s(1) by (simp add: settled_def)
  from one_of_these_clauses [OF this] gen_one_of_these_range [of s fs]
  show "\<forall>cs. gen_one_of_these_clauses s fs = Inr cs \<longrightarrow>
      in_range s0 cs \<and> (\<forall>V. satisfies V cs = represented fs (chosen s0 V))"
    by (simp add: represented_def same_chosen [OF s(2)] in_range_def same_fields(1) [OF s(2)])
next
  fix r :: "solver_exn + int list list"
  assume r: "\<forall>cs. r = Inr cs \<longrightarrow> in_range s0 cs \<and> (\<forall>V. satisfies V cs = represented fs (chosen s0 V))"
  show "adds env s0 (mthen (mlift r) (addclauses ms)) (\<lambda>V. represented fs (chosen s0 V))"
    by (rule adds_look [OF looks_mlift [where P = "\<lambda>cs. in_range s0 cs \<and> (\<forall>V. satisfies V cs = represented fs (chosen s0 V))"]])
      (use r assms in \<open>auto intro: adds_addclauses\<close>)
qed

lemma kept_names_same: "same env s0 s \<Longrightarrow> kept_names env ns s = kept_names env ns s0"
  by (simp add: kept_names_def same_fields)

lemma adds_operation:
  assumes ms: "msat_ok ms"
  shows "adds env s0 (generate_operation_clauses ms env prop) (\<lambda>V. operation_met env prop s0 (chosen s0 V))"
proof -
  have "adds env s0 (case x of (n, fs) \<Rightarrow>
         mthen (mget (\<lambda>s. finter fs (proposed_of (s_possible s) n))) (one_of_these ms))
      (\<lambda>V. case x of (n, fs) \<Rightarrow> represented (finter fs (proposed_of (s_possible s0) n)) (chosen s0 V))" for x
  proof (cases x)
    case (Pair n fs)
    show ?thesis unfolding Pair prod.case
      by (rule adds_look [OF looks_mget [where P = "\<lambda>gs. gs = finter fs (proposed_of (s_possible s0) n)"]])
        (auto simp: same_fields intro: adds_one_of_these [OF ms])
  qed
  moreover have "adds env s0 (mthen (mget (\<lambda>s. dget (s_possible s) n)) (\<lambda>x. case x of
           None \<Rightarrow> mret () | Some fs \<Rightarrow> one_of_these ms fs))
      (\<lambda>V. \<forall>fs. dget (s_possible s0) n = Some fs \<longrightarrow> represented fs (chosen s0 V))" for n
    by (rule adds_look [OF looks_mget [where P = "\<lambda>x. x = dget (s_possible s0) n"]])
      (auto simp: same_fields intro: adds_one_of_these [OF ms] adds_mret split: option.split)
  then have "adds env s0 (mthen (mget (kept_names env (map fst prop))) (mloop (\<lambda>n.
       mthen (mget (\<lambda>s. dget (s_possible s) n)) (\<lambda>x. case x of
           None \<Rightarrow> mret () | Some fs \<Rightarrow> one_of_these ms fs))))
      (\<lambda>V. \<forall>n \<in> set (kept_names env (map fst prop) s0).
        \<forall>fs. dget (s_possible s0) n = Some fs \<longrightarrow> represented fs (chosen s0 V))"
    by (intro adds_look [OF looks_mget [where P = "\<lambda>ns. ns = kept_names env (map fst prop) s0"]])
      (auto simp: kept_names_same intro: adds_mloop)
  ultimately show ?thesis
    unfolding generate_operation_clauses_def operation_met_def by (intro adds_seq adds_mloop)
qed

section \<open>Parts that do not fail\<close>

definition goes :: "senv \<Rightarrow> sstate \<Rightarrow> 'a srun \<Rightarrow> bool" where
  "goes env s0 m \<longleftrightarrow> (settled env s0 \<longrightarrow> (\<forall>s. same env s0 s \<longrightarrow> (\<exists>a s'. m s = (Inr a, s'))))"

lemma goes_seq:
  assumes "adds env s0 m Phi" "goes env s0 m" "goes env s0 n"
  shows "goes env s0 (mthen m (\<lambda>_. n))"
  unfolding goes_def
proof (intro impI allI)
  fix s assume s: "settled env s0" "same env s0 s"
  then obtain t where t: "m s = (Inr (), t)" using assms(2) by (auto simp: goes_def)
  have "same env s0 t" by (rule addsD [OF assms(1) s t])
  then show "\<exists>a s'. mthen m (\<lambda>_. n) s = (Inr a, s')"
    using assms(3) s(1) by (simp add: mthen_at [where m = m and s = s, OF t] goes_def)
qed

lemma goes_look:
  assumes "looks env s0 m P" "goes env s0 m" "\<And>a. P a \<Longrightarrow> goes env s0 (k a)"
  shows "goes env s0 (mthen m k)"
  unfolding goes_def
proof (intro impI allI)
  fix s assume s: "settled env s0" "same env s0 s"
  then obtain a t where t: "m s = (Inr a, t)" using assms(2) by (auto simp: goes_def)
  have q: "quiet env s t" "P a" using assms(1) s t by (auto simp: looks_def)
  show "\<exists>b s'. mthen m k s = (Inr b, s')"
    using assms(3) [OF q(2)] s(1) same_quiet [OF s(2) q(1)]
    by (simp add: mthen_at [where m = m and s = s, OF t] goes_def)
qed

lemma goes_mloop:
  assumes "\<And>x. x \<in> set xs \<Longrightarrow> adds env s0 (f x) (Phi x)" "\<And>x. x \<in> set xs \<Longrightarrow> goes env s0 (f x)"
  shows "goes env s0 (mloop f xs)"
  using assms
proof (induction xs)
  case (Cons x xs)
  then have "adds env s0 (f x) (Phi x)" "goes env s0 (f x)" "goes env s0 (mloop f xs)" by auto
  then show ?case by (auto intro: goes_seq)
qed (simp add: goes_def run_simps)

lemma goes_runs: "runs m \<Longrightarrow> goes env s0 m"
  by (simp add: goes_def runs_def)

lemma runs_addclauses [runs_intros]: "runs (addclauses ms cs)"
  by (simp add: addclauses_def runs_intros)

lemma runs_comb_newer [runs_intros]: "runs (comb_newer env f t True)"
  unfolding comb_newer_def comb_common_def get_catalog_fmris_def Let_def if_True
  by (intro runs_intros)

section \<open>A round of the search\<close>

text \<open>The packages that a solution \<open>S\<close> excludes from the next one.\<close>

definition excluded_by :: "senv \<Rightarrow> bool \<Rightarrow> sstate \<Rightarrow> fmri \<Rightarrow> fmri set" where
  "excluded_by env older s f =
     (let allowed_fmris = allowed env s CONSTRAINT_NONE True f in
      if older then allowed_fmris - {f}
      else {g \<in> named_ids s (f_name f) - allowed_fmris. \<not> fin g (s_downgrades s)})"

definition improves :: "senv \<Rightarrow> bool \<Rightarrow> sstate \<Rightarrow> fmri set \<Rightarrow> fmri set \<Rightarrow> bool" where
  "improves env older s S T \<longleftrightarrow> (\<forall>f \<in> S. T \<inter> excluded_by env older s f = {}) \<and> \<not> S \<subseteq> T"

lemma excluded_ids: "excluded_by env older s f \<subseteq> set (s_ids s)"
  by (auto simp: excluded_by_def Let_def allowed_def named_ids_def)

lemma exclude_fmris_adds:
  assumes ms: "msat_ok ms" and fs: "set fs \<subseteq> set (s_ids s0)"
  shows "adds env s0 (exclude_fmris ms fs) (\<lambda>V. chosen s0 V \<inter> set fs = {}) \<and> goes env s0 (exclude_fmris ms fs)"
proof -
  let ?body = "\<lambda>f. mthen (mget (\<lambda>s. getid s f)) (\<lambda>r. mthen (mlift r) (\<lambda>i. addclauses ms [[- i]]))"
  let ?P = "\<lambda>f r. \<exists>i. r = Inr i \<and> in_range s0 [[- i]] \<and> (\<forall>V. satisfies V [[- i]] = (f \<notin> chosen s0 V))"
  have look: "looks env s0 (mget (\<lambda>s. getid s f)) (?P f)" if "f \<in> set fs" for f
  proof (rule looks_mget)
    fix s assume s: "settled env s" "same env s0 s"
    have d: "distinct (map fmri_key (s_ids s))" using s(1) by (simp add: settled_def)
    have f: "f \<in> set (s_ids s)" using that fs same_fields(1) [OF s(2)] by auto
    obtain i where i: "getid s f = Inr i" using getid_ids [OF d f] by blast
    show "?P f (getid s f)"
      using i chosen_iff(3) [OF d i f] getid_range [OF i] same_fields(1) [OF s(2)]
      by (auto simp: satisfies_def in_range_def same_chosen [OF s(2)])
  qed
  have "adds env s0 (?body f) (\<lambda>V. f \<notin> chosen s0 V)" "goes env s0 (?body f)" if "f \<in> set fs" for f
  proof -
    have k: "adds env s0 (mthen (mlift r) (\<lambda>i. addclauses ms [[- i]])) (\<lambda>V. f \<notin> chosen s0 V)"
      "goes env s0 (mthen (mlift r) (\<lambda>i. addclauses ms [[- i]]))" if r: "?P f r" for r
    proof -
      obtain i where i: "r = Inr i" "in_range s0 [[- i]]" "\<forall>V. satisfies V [[- i]] = (f \<notin> chosen s0 V)"
        using r by blast
      have "mthen (mlift r) (\<lambda>i. addclauses ms [[- i]]) = addclauses ms [[- i]]"
        by (rule ext) (simp add: i(1) mthen_def mlift_def)
      then show "adds env s0 (mthen (mlift r) (\<lambda>i. addclauses ms [[- i]])) (\<lambda>V. f \<notin> chosen s0 V)"
        "goes env s0 (mthen (mlift r) (\<lambda>i. addclauses ms [[- i]]))"
        using adds_addclauses [OF ms _ i(2)] i(3) by (simp_all add: goes_runs runs_addclauses)
    qed
    show "adds env s0 (?body f) (\<lambda>V. f \<notin> chosen s0 V)" by (rule adds_look [OF look [OF that] k(1)])
    show "goes env s0 (?body f)"
      by (rule goes_look [OF look [OF that] _ k(2)]) (auto intro: goes_runs runs_intros)
  qed
  note body = this
  have "adds env s0 (exclude_fmris ms fs) (\<lambda>V. \<forall>f \<in> set fs. f \<notin> chosen s0 V)"
    unfolding exclude_fmris_def by (rule adds_mloop) (rule body(1))
  moreover have "goes env s0 (exclude_fmris ms fs)"
    unfolding exclude_fmris_def by (rule goes_mloop) (rule body, assumption)+
  moreover have "(\<forall>f \<in> set fs. f \<notin> chosen s0 V) \<longleftrightarrow> chosen s0 V \<inter> set fs = {}" for V by blast
  ultimately show ?thesis by (simp add: adds_def)
qed

lemma looks_excluded:
  "looks env s0 (mthen (comb_newer env f True True) (\<lambda>(matching, remaining).
       mget (\<lambda>s. if older then fdiff matching [f] else fdiff remaining (s_downgrades s))))
     (\<lambda>fs. f \<in> set (s_ids s0) \<longrightarrow> set fs = excluded_by env older s0 f)"
proof (rule looks_calm)
  fix s assume s: "same env s0 s"
  have st: "allowed env s c ok r = allowed env s0 c ok r" "named_ids s n = named_ids s0 n" for c ok r n
    using same_fields(1) [OF s] by (auto simp: allowed_def named_ids_def)
  have diff: "set (fdiff m [f]) = set m - {f}" if "set m \<subseteq> set (s_ids s0)" "f \<in> set (s_ids s0)"
    "inj_on fmri_key (set (s_ids s0))" for m
  proof -
    have "fin g [f] \<longleftrightarrow> g = f" if "g \<in> set m" for g
      using that \<open>set m \<subseteq> _\<close> \<open>f \<in> _\<close> \<open>inj_on _ _\<close> by (auto simp: fin_iff dest: inj_onD)
    then show ?thesis by (auto simp: set_fdiff)
  qed
  have get: "calm env s (mget (\<lambda>s. if older then fdiff m [f] else fdiff r (s_downgrades s)))
      (\<lambda>fs. f \<in> set (s_ids s0) \<longrightarrow> set fs = excluded_by env older s0 f)"
    if m: "set m = allowed env s0 CONSTRAINT_NONE True f" "set r = named_ids s0 (f_name f) - set m" for m r
  proof (rule calm_mget)
    fix t assume t: "settled env t" "quiet env s t"
    have ids: "s_ids t = s_ids s0" "s_downgrades t = s_downgrades s0"
      using quiet_fields [OF t(2)] same_fields [OF s] by simp_all
    have inj: "inj_on fmri_key (set (s_ids s0))" using t(1) ids by (simp add: settled_def distinct_map)
    have "set m \<subseteq> set (s_ids s0)" using m(1) by (auto simp: allowed_def)
    note d = diff [OF this _ inj]
    show "f \<in> set (s_ids s0) \<longrightarrow>
        set (if older then fdiff m [f] else fdiff r (s_downgrades t)) = excluded_by env older s0 f"
    proof (cases older)
      case True
      then show ?thesis using d m by (simp add: excluded_by_def Let_def)
    next
      case False
      then show ?thesis using m ids by (simp add: excluded_by_def Let_def set_fdiff)
    qed
  qed
  show "calm env s (mthen (comb_newer env f True True) (\<lambda>(matching, remaining).
       mget (\<lambda>s. if older then fdiff matching [f] else fdiff remaining (s_downgrades s))))
     (\<lambda>fs. f \<in> set (s_ids s0) \<longrightarrow> set fs = excluded_by env older s0 f)"
  proof (rule calm_mthen [OF calm_newer])
    fix p assume "case p of (m, nm) \<Rightarrow> set m = allowed env s CONSTRAINT_NONE True f
        \<and> set nm = named_ids s (f_name f) - set m"
    then show "calm env s (case p of (m, r) \<Rightarrow>
        mget (\<lambda>s. if older then fdiff m [f] else fdiff r (s_downgrades s)))
      (\<lambda>fs. f \<in> set (s_ids s0) \<longrightarrow> set fs = excluded_by env older s0 f)"
      using get by (auto simp: st split: prod.splits)
  qed
qed

lemma solve_round_adds:
  assumes ms: "msat_ok ms" and st: "settled env s0" and vs: "\<forall>v \<in> set vs. 1 \<le> v \<and> v \<le> length (s_ids s0)"
  shows "adds env s0 (solve_round ms env older vs)
      (\<lambda>V. improves env older s0 (chosen s0 (set vs)) (chosen s0 V)) \<and> goes env s0 (solve_round ms env older vs)"
proof -
  define at where "at v = s_ids s0 ! (v - 1)" for v
  let ?body = "\<lambda>v. mthen (mget (\<lambda>s. getfmri s v)) (\<lambda>r. mthen (mlift r) (\<lambda>f.
         mthen (comb_newer env f True True) (\<lambda>(matching, remaining).
         mthen (mget (\<lambda>s. if older then fdiff matching [f] else fdiff remaining (s_downgrades s)))
           (exclude_fmris ms))))"
  have d: "distinct (map fmri_key (s_ids s0))" using st by (simp add: settled_def)
  have body: "adds env s0 (?body v) (\<lambda>V. chosen s0 V \<inter> excluded_by env older s0 (at v) = {})"
    "goes env s0 (?body v)" if "v \<in> set vs" for v
  proof -
    have v: "getfmri s0 v = Inr (at v)" "at v \<in> set (s_ids s0)"
      using vs that by (auto simp: getfmri_def at_def)
    let ?rest = "\<lambda>f. mthen (comb_newer env f True True) (\<lambda>(matching, remaining).
         mthen (mget (\<lambda>s. if older then fdiff matching [f] else fdiff remaining (s_downgrades s)))
           (exclude_fmris ms))"
    let ?find = "\<lambda>f. mthen (comb_newer env f True True) (\<lambda>(matching, remaining).
         mget (\<lambda>s. if older then fdiff matching [f] else fdiff remaining (s_downgrades s)))"
    have rest: "?rest f = mthen (?find f) (exclude_fmris ms)" for f
      by (simp add: mthen_assoc case_prod_beta')
    have ex: "adds env s0 (exclude_fmris ms fs) (\<lambda>V. chosen s0 V \<inter> excluded_by env older s0 (at v) = {})"
      "goes env s0 (exclude_fmris ms fs)"
      if "at v \<in> set (s_ids s0) \<longrightarrow> set fs = excluded_by env older s0 (at v)" for fs
      using exclude_fmris_adds [OF ms, of fs s0 env] excluded_ids [of env older s0] that v(2) by auto
    have look: "looks env s0 (mget (\<lambda>s. getfmri s v)) (\<lambda>r. r = Inr (at v))"
      by (rule looks_mget) (use vs that in \<open>simp add: getfmri_def same_fields at_def\<close>)
    have lift: "mthen (mlift (Inr f)) k = k f" for f :: fmri and k :: "fmri \<Rightarrow> unit srun"
      by (rule ext) (simp add: mthen_def mlift_def)
    show "adds env s0 (?body v) (\<lambda>V. chosen s0 V \<inter> excluded_by env older s0 (at v) = {})"
      by (rule adds_look [OF look]) (auto simp: lift rest intro!: adds_look [OF looks_excluded] ex)
    have "goes env s0 (?find f)" for f by (intro goes_runs runs_mthen runs_comb_newer) (auto intro: runs_intros)
    then have "goes env s0 (mthen (?find (at v)) (exclude_fmris ms))"
      by (rule goes_look [OF looks_excluded]) (rule ex(2))
    then show "goes env s0 (?body v)"
      by (intro goes_look [OF look goes_runs [OF runs_basic(2)]]) (simp only: lift rest)
  qed
  have last: "adds env s0 (addclauses ms [map (\<lambda>v. - int v) vs]) (\<lambda>V. \<not> chosen s0 (set vs) \<subseteq> chosen s0 V)"
    by (rule adds_addclauses [OF ms])
      (use vs chosen_subset [OF d, of "set vs"] in \<open>auto simp: satisfies_def lit_true_def in_range_def\<close>)
  have "adds env s0 (solve_round ms env older vs) (\<lambda>V. (\<forall>v \<in> set vs.
      chosen s0 V \<inter> excluded_by env older s0 (at v) = {}) \<and> \<not> chosen s0 (set vs) \<subseteq> chosen s0 V)"
    "goes env s0 (solve_round ms env older vs)"
    unfolding solve_round_def
    by (rule adds_seq [OF adds_mloop last], rule body, assumption)
      (rule goes_seq [OF adds_mloop goes_mloop], auto intro: body goes_runs runs_intros)
  moreover have "chosen s0 (set vs) = at ` set vs" using vs by (force simp: chosen_def image_iff at_def)
  ultimately show ?thesis by (simp add: improves_def)
qed

section \<open>The search\<close>

text \<open>The variables of a solution and of all the rounds that led to it.\<close>

definition rounds_ok ::
  "senv \<Rightarrow> bool \<Rightarrow> sstate \<Rightarrow> int list list \<Rightarrow> nat \<Rightarrow> nat list list \<Rightarrow> bool" where
  "rounds_ok env older s cs n us \<longleftrightarrow>
     length us \<le> n
     \<and> (\<forall>u \<in> set us. satisfies (set u) cs \<and> (\<forall>v \<in> set u. 1 \<le> v \<and> v \<le> length (s_ids s)))
     \<and> sorted_wrt (\<lambda>u w. improves env older s (chosen s (set u)) (chosen s (set w))) us
     \<and> (length us < n \<longrightarrow> (\<forall>V. satisfies V cs \<longrightarrow>
          (\<exists>u \<in> set us. \<not> improves env older s (chosen s (set u)) (chosen s V))))"

definition ready :: "senv \<Rightarrow> sstate \<Rightarrow> sstate \<Rightarrow> bool" where
  "ready env s0 s \<longleftrightarrow> same env s0 s \<and> failure_ok s \<and> in_range s0 (s_clauses s)"

lemma msat_answer:
  assumes "msat_ok ms" "in_range s0 cs" "ms_solve ms cs = Some vs"
  shows "satisfies (set vs) cs" "\<forall>v \<in> set vs. 1 \<le> v \<and> v \<le> length (s_ids s0)"
proof -
  have a: "satisfies (set vs) cs \<and> (\<forall>v \<in> set vs. 1 \<le> v \<and> (\<exists>w \<in> clause_vars cs. v \<le> w))"
    using assms(1,3) unfolding msat_ok_def by (auto split: option.splits dest!: spec [of _ cs])
  moreover have "w \<le> length (s_ids s0)" if "w \<in> clause_vars cs" for w
    using that assms(2) by (fastforce simp: clause_vars_def in_range_def)
  ultimately show "satisfies (set vs) cs" "\<forall>v \<in> set vs. 1 \<le> v \<and> v \<le> length (s_ids s0)"
    by (blast, meson le_trans)
qed

lemma rounds_ok_Cons:
  assumes u: "satisfies (set u) cs" "\<forall>v \<in> set u. 1 \<le> v \<and> v \<le> length (s_ids s)"
    and us: "rounds_ok env older s (cs @ ds) n us"
    and ds: "\<And>V. satisfies V ds \<longleftrightarrow> improves env older s (chosen s (set u)) (chosen s V)"
  shows "rounds_ok env older s cs (Suc n) (u # us)"
  using us u by (auto simp: rounds_ok_def ds)

lemma solve_loop_rounds:
  assumes ms: "msat_ok ms" and st: "settled env s0"
  shows "ready env s0 s \<Longrightarrow> \<exists>us s'.
    solve_loop ms env older n iterated vs s =
      (Inr (iterated \<or> (\<exists>V. satisfies V (s_clauses s)), last (vs # us)), s')
    \<and> ready env s0 s' \<and> rounds_ok env older s0 (s_clauses s) n us
    \<and> (0 < n \<longrightarrow> (\<exists>V. satisfies V (s_clauses s)) \<longrightarrow> us \<noteq> [])"
proof (induction n arbitrary: iterated vs s)
  case 0
  show ?case
  proof (cases "s_failed s \<or> ms_solve ms (s_clauses s) = None")
    case True
    then have "\<not> satisfies V (s_clauses s)" for V
      using 0 ms by (auto simp: ready_def failure_ok_def msat_ok_def split: option.splits dest!: spec [of _ "s_clauses s"])
    moreover have "solve_loop ms env older 0 iterated vs s = (Inr (iterated, vs), s)"
      using True by (subst solve_loop.simps) (auto split: option.splits)
    ultimately show ?thesis using 0 by (intro exI [of _ "[]"]) (simp add: rounds_ok_def)
  next
    case False
    then obtain ws where ws: "ms_solve ms (s_clauses s) = Some ws" by auto
    have "solve_loop ms env older 0 iterated vs s = (Inr (True, vs), s)"
      using False ws by (subst solve_loop.simps) simp
    moreover have "\<exists>V. satisfies V (s_clauses s)"
      using msat_answer(1) [OF ms _ ws, of s0] 0 by (auto simp: ready_def)
    ultimately show ?thesis using 0 by (intro exI [of _ "[]"]) (simp add: rounds_ok_def)
  qed
next
  case (Suc n)
  have r: "same env s0 s" "failure_ok s" "in_range s0 (s_clauses s)" using Suc.prems by (simp_all add: ready_def)
  show ?case
  proof (cases "s_failed s \<or> ms_solve ms (s_clauses s) = None")
    case True
    then have "\<not> satisfies V (s_clauses s)" for V
      using r ms by (auto simp: failure_ok_def msat_ok_def split: option.splits dest!: spec [of _ "s_clauses s"])
    moreover have "solve_loop ms env older (Suc n) iterated vs s = (Inr (iterated, vs), s)"
      using True by (subst solve_loop.simps) (auto split: option.splits)
    ultimately show ?thesis using Suc.prems by (intro exI [of _ "[]"]) (simp add: rounds_ok_def)
  next
    case False
    then obtain ws where ws: "ms_solve ms (s_clauses s) = Some ws" by auto
    note a = msat_answer [OF ms r(3) ws]
    show ?thesis
    proof (cases "ws = []")
      case True
      have "solve_loop ms env older (Suc n) iterated vs s = (Inr (True, []), s)"
        using False ws True by (subst solve_loop.simps) simp
      moreover have "rounds_ok env older s0 (s_clauses s) (Suc n) [[]]"
        using a True by (simp add: rounds_ok_def improves_def chosen_def)
      ultimately show ?thesis using Suc.prems a(1) by (intro exI [of _ "[[]]"]) auto
    next
      case more: False
      have sat: "\<exists>V. satisfies V (s_clauses s)" using a(1) by blast
      have ad: "adds env s0 (solve_round ms env older ws)
          (\<lambda>V. improves env older s0 (chosen s0 (set ws)) (chosen s0 V))"
        and go: "goes env s0 (solve_round ms env older ws)"
        using solve_round_adds [OF ms st a(2)] by auto
      obtain t where t: "solve_round ms env older ws s = (Inr (), t)" using go st r(1) by (auto simp: goes_def)
      obtain ds where ds: "same env s0 t" "failure_ok t" "s_clauses t = s_clauses s @ ds" "in_range s0 ds"
        "\<And>V. satisfies V ds \<longleftrightarrow> improves env older s0 (chosen s0 (set ws)) (chosen s0 V)"
        using addsD [OF ad st r(1) t] r(2) by metis
      have run: "solve_loop ms env older (Suc n) iterated vs s = solve_loop ms env older n True ws t"
        using False ws more by (subst solve_loop.simps) (simp add: mthen_at [where m = "solve_round ms env older ws", OF t])
      have "ready env s0 t" using ds r(3) by (simp add: ready_def)
      from Suc.IH [OF this, of True ws] obtain us s' where us:
        "solve_loop ms env older n True ws t = (Inr (True, last (ws # us)), s')" "ready env s0 s'"
        "rounds_ok env older s0 (s_clauses t) n us" by auto
      have "rounds_ok env older s0 (s_clauses s) (Suc n) (ws # us)"
        by (rule rounds_ok_Cons [OF a _ ds(5)]) (use us(3) ds(3) in simp)
      then show ?thesis using us run sat by (intro exI [of _ "ws # us"]) auto
    qed
  qed
qed

lemma smap_getfmri:
  "\<forall>v \<in> set vs. 1 \<le> v \<and> v \<le> length (s_ids s) \<Longrightarrow>
     \<exists>fs. smap (getfmri s) vs = Inr fs \<and> set fs = chosen s (set vs)"
proof (induction vs)
  case (Cons v vs)
  then obtain fs where "smap (getfmri s) vs = Inr fs" "set fs = chosen s (set vs)" by auto
  moreover have "chosen s (set (v # vs)) = insert (s_ids s ! (v - 1)) (chosen s (set vs))"
    using Cons.prems by (force simp: chosen_def)
  moreover have "getfmri s v = Inr (s_ids s ! (v - 1))" using Cons.prems by (simp add: getfmri_def)
  ultimately show ?case by simp
qed (simp add: chosen_def)

text \<open>
  What \<open>__solve\<close> promises, of the sets of packages that meet the clauses: it finds solutions each of
  which improves on all before, and the last one can only be improved further when the bound on the
  number of rounds is reached.
\<close>

definition solutions :: "sstate \<Rightarrow> int list list \<Rightarrow> fmri set set" where
  "solutions s cs = {chosen s V | V. satisfies V cs}"

definition best_found ::
  "senv \<Rightarrow> bool \<Rightarrow> sstate \<Rightarrow> fmri set set \<Rightarrow> nat \<Rightarrow> fmri set \<Rightarrow> bool" where
  "best_found env older s Sols n S \<longleftrightarrow> (\<exists>Ss. Ss \<noteq> [] \<and> last Ss = S \<and> length Ss \<le> n
     \<and> set Ss \<subseteq> Sols \<and> sorted_wrt (improves env older s) Ss
     \<and> (length Ss < n \<longrightarrow> (\<forall>T \<in> Sols. \<exists>S \<in> set Ss. \<not> improves env older s S T)))"

lemma best_found_solution: "best_found env older s Sols n S \<Longrightarrow> S \<in> Sols"
  by (auto simp: best_found_def)

lemma solutions_empty: "solutions s cs \<noteq> {} \<longleftrightarrow> (\<exists>V. satisfies V cs)"
  by (auto simp: solutions_def)

lemma solutions_append:
  "(\<And>V. satisfies V ds \<longleftrightarrow> Phi (chosen s V)) \<Longrightarrow> solutions s (cs @ ds) = {S \<in> solutions s cs. Phi S}"
  by (auto simp: solutions_def)

lemma solve_result:
  assumes ms: "msat_ok ms" and st: "settled env s0" and rd: "ready env s0 s" and n: "0 < n"
  shows "if solutions s0 (s_clauses s) \<noteq> {}
    then \<exists>sol s'. solve ms env older n s = (Inr sol, s') \<and> ready env s0 s'
      \<and> best_found env older s0 (solutions s0 (s_clauses s)) n (set sol)
    else \<exists>s'. solve ms env older n s = (Inl NoSolution, s')"
proof -
  obtain us s' where us: "solve_loop ms env older n False [] s =
      (Inr (\<exists>V. satisfies V (s_clauses s), last ([] # us)), s')" "ready env s0 s'"
    "rounds_ok env older s0 (s_clauses s) n us" "(\<exists>V. satisfies V (s_clauses s)) \<Longrightarrow> us \<noteq> []"
    using solve_loop_rounds [OF ms st rd, of older n False "[]"] n by auto
  show ?thesis
  proof (cases "\<exists>V. satisfies V (s_clauses s)")
    case True
    have ne: "us \<noteq> []" using us(4) True by blast
    have "\<forall>v \<in> set (last us). 1 \<le> v \<and> v \<le> length (s_ids s')"
      using us(2,3) last_in_set [OF ne] same_fields(1) [of env s0 s'] by (simp add: rounds_ok_def ready_def)
    from smap_getfmri [OF this] obtain sol where sol: "smap (getfmri s') (last us) = Inr sol"
      "set sol = chosen s' (set (last us))" by blast
    have "solve ms env older n s = (Inr sol, s')"
      using us(1) True ne sol(1) by (simp add: solve_def mthen_def run_simps)
    moreover have "best_found env older s0 (solutions s0 (s_clauses s)) n (set sol)"
      unfolding best_found_def
    proof (intro exI conjI)
      let ?Ss = "map (\<lambda>u. chosen s0 (set u)) us"
      have "chosen s' V = chosen s0 V" for V using us(2) same_chosen unfolding ready_def by blast
      then show "last ?Ss = set sol" using ne sol(2) by (simp add: last_map)
      show "?Ss \<noteq> []" using ne by simp
      show "sorted_wrt (improves env older s0) ?Ss" using us(3) by (simp add: rounds_ok_def sorted_wrt_map)
    qed (use us(3) in \<open>auto simp: rounds_ok_def solutions_def\<close>)
    ultimately show ?thesis using True us(2) by (auto simp: solutions_empty)
  next
    case False
    then show ?thesis using us(1) by (simp add: solutions_empty solve_def mthen_def run_simps)
  qed
qed

section \<open>The three searches\<close>

lemma goes_one_of_these:
  assumes f: "f \<in> set (s_ids s0)"
  shows "goes env s0 (one_of_these ms [f])"
  unfolding goes_def
proof (intro impI allI)
  fix s assume s: "settled env s0" "same env s0 s"
  have "distinct (map fmri_key (s_ids s))" "f \<in> set (s_ids s)"
    using s f same_fields(1) [OF s(2)] by (auto simp: settled_def)
  then obtain i where "getid s f = Inr i" using getid_ids by blast
  then show "\<exists>a s'. one_of_these ms [f] s = (Inr a, s')"
    by (simp add: one_of_these_def gen_one_of_these_clauses_def mthen_def run_simps addclauses_def)
qed

lemma adds_keep:
  assumes ms: "msat_ok ms" and st: "settled env s0" and fs: "set fs \<subseteq> set (s_ids s0)"
  shows "adds env s0 (mloop (\<lambda>f. one_of_these ms [f]) fs) (\<lambda>V. set fs \<subseteq> chosen s0 V)"
    "goes env s0 (mloop (\<lambda>f. one_of_these ms [f]) fs)"
proof -
  have d: "distinct (map fmri_key (s_ids s0))" using st by (simp add: settled_def)
  have "represented [f] (chosen s0 V) \<longleftrightarrow> f \<in> chosen s0 V" if "f \<in> set fs" for f V
    using chosen_mem [OF d, of f V] that fs by (auto simp: represented_def)
  then have "adds env s0 (one_of_these ms [f]) (\<lambda>V. f \<in> chosen s0 V)" if "f \<in> set fs" for f
    using adds_one_of_these [OF ms, of env s0 "[f]"] that by (simp add: adds_def)
  note a = this
  have "adds env s0 (mloop (\<lambda>f. one_of_these ms [f]) fs) (\<lambda>V. \<forall>f \<in> set fs. f \<in> chosen s0 V)"
    by (rule adds_mloop [OF a])
  then show "adds env s0 (mloop (\<lambda>f. one_of_these ms [f]) fs) (\<lambda>V. set fs \<subseteq> chosen s0 V)"
    by (simp add: subset_eq)
  show "goes env s0 (mloop (\<lambda>f. one_of_these ms [f]) fs)"
    by (rule goes_mloop [OF a]) (use fs goes_one_of_these in auto)
qed

lemma ready_restore:
  assumes "ready env s0 s" "ready env s0 t"
  shows "ready env s0 (restore_solver (save_solver s) t)"
  using assms same_clauses
  by (auto simp: ready_def restore_solver_def save_solver_def failure_ok_def)

text \<open>One search and what is kept of it for the next one.\<close>

lemma solve_then_keep:
  assumes ms: "msat_ok ms" and st: "settled env s0" and rd: "ready env s0 s" and n: "0 < n"
    and sat: "solutions s0 (s_clauses s) \<noteq> {}" and keep: "\<And>fs. set (keep fs) \<subseteq> set fs"
  shows "\<exists>sol t. (\<forall>k. mthen (mget save_solver) (\<lambda>saved.
        mthen (solve ms env older n) (\<lambda>sol.
        mthen (mmod (restore_solver saved)) (\<lambda>_.
        mthen (mloop (\<lambda>f. one_of_these ms [f]) (keep sol)) (\<lambda>_. k)))) s = k t)
    \<and> ready env s0 t \<and> best_found env older s0 (solutions s0 (s_clauses s)) n (set sol)
    \<and> solutions s0 (s_clauses t) = {S \<in> solutions s0 (s_clauses s). set (keep sol) \<subseteq> S}
    \<and> solutions s0 (s_clauses t) \<noteq> {}"
proof -
  obtain sol s1 where s1: "solve ms env older n s = (Inr sol, s1)" "ready env s0 s1"
    "best_found env older s0 (solutions s0 (s_clauses s)) n (set sol)"
    using solve_result [OF ms st rd n, of older] sat by auto
  let ?u = "restore_solver (save_solver s) s1"
  have u: "ready env s0 ?u" "s_clauses ?u = s_clauses s"
    using ready_restore [OF rd s1(2)] by (auto simp: restore_solver_def save_solver_def)
  have sol: "set sol \<in> solutions s0 (s_clauses s)" by (rule best_found_solution [OF s1(3)])
  then have "set (keep sol) \<subseteq> set (s_ids s0)" using chosen_ids keep by (fastforce simp: solutions_def)
  note kp = adds_keep [OF ms st this]
  have same: "same env s0 ?u" using u(1) by (simp add: ready_def)
  obtain t where t: "mloop (\<lambda>f. one_of_these ms [f]) (keep sol) ?u = (Inr (), t)"
    using kp(2) st same by (auto simp: goes_def)
  obtain ds where ds: "same env s0 t" "failure_ok ?u \<Longrightarrow> failure_ok t" "s_clauses t = s_clauses s @ ds"
    "in_range s0 ds" "\<And>V. satisfies V ds \<longleftrightarrow> set (keep sol) \<subseteq> chosen s0 V"
    using addsD [OF kp(1) st same t] u(2) by metis
  have sols: "solutions s0 (s_clauses t) = {S \<in> solutions s0 (s_clauses s). set (keep sol) \<subseteq> S}"
    unfolding ds(3) by (rule solutions_append) (rule ds(5))
  moreover have "ready env s0 t" using u rd ds by (simp add: ready_def)
  moreover have "solutions s0 (s_clauses t) \<noteq> {}" using sols sol keep by blast
  moreover have "mthen (mget save_solver) (\<lambda>saved.
        mthen (solve ms env older n) (\<lambda>sol.
        mthen (mmod (restore_solver saved)) (\<lambda>_.
        mthen (mloop (\<lambda>f. one_of_these ms [f]) (keep sol)) (\<lambda>_. k)))) s = k t" for k :: "'a srun"
    using s1(1) t by (simp add: mthen_def run_simps)
  ultimately show ?thesis using s1(3) by blast
qed

definition searched ::
  "senv \<Rightarrow> sstate \<Rightarrow> string list \<Rightarrow> fmri set set \<Rightarrow> fmri list \<Rightarrow> bool" where
  "searched env s names Sols sol \<longleftrightarrow> (\<exists>first second.
     best_found env False s Sols MAX_ITERATIONS (set first)
     \<and> (let Sols2 = {S \<in> Sols. {f \<in> set first. f_name f \<in> set names} \<subseteq> S};
            Sols3 = {S \<in> Sols2. {f \<in> set second. fin f (installed_fmris env)} \<subseteq> S}
        in best_found env True s Sols2 MAX_ITERATIONS (set second)
         \<and> best_found env False s Sols3 MAX_ITERATIONS (set sol)))"

lemma search_result:
  assumes ms: "msat_ok ms" and st: "settled env s0" and rd: "ready env s0 s"
  shows "if solutions s0 (s_clauses s) \<noteq> {}
    then \<exists>sol s'. search ms env names s = (Inr sol, s') \<and> ready env s0 s'
      \<and> searched env s0 names (solutions s0 (s_clauses s)) sol
    else \<exists>s'. search ms env names s = (Inl NoSolution, s')"
proof -
  have n: "0 < MAX_ITERATIONS" by (simp add: MAX_ITERATIONS_def)
  let ?keep1 = "filter (\<lambda>f. f_name f \<in> set names)"
  let ?keep2 = "\<lambda>fs. finter fs (installed_fmris env)"
  let ?third = "solve ms env False MAX_ITERATIONS"
  let ?step = "\<lambda>older keep k. mthen (mget save_solver) (\<lambda>saved.
        mthen (solve ms env older MAX_ITERATIONS) (\<lambda>sol.
        mthen (mmod (restore_solver saved)) (\<lambda>_.
        mthen (mloop (\<lambda>f. one_of_these ms [f]) (keep sol)) (\<lambda>_. k))))"
  have shape: "search ms env names = ?step False ?keep1 (?step True ?keep2 ?third)"
    by (simp add: search_def)
  show ?thesis
  proof (cases "solutions s0 (s_clauses s) = {}")
    case True
    then obtain s' where "?third s = (Inl NoSolution, s')"
      using solve_result [OF ms st rd n, of False] by auto
    then have "search ms env names s = (Inl NoSolution, s')"
      by (simp add: search_def mthen_def run_simps)
    then show ?thesis using True by simp
  next
    case False
    have "set (?keep1 fs) \<subseteq> set fs" for fs by auto
    from solve_then_keep [where keep = ?keep1 and older = False and 'a = "fmri list", OF ms st rd n False this] obtain first t where t:
      "\<forall>k :: fmri list srun. ?step False ?keep1 k s = k t" "ready env s0 t"
      "best_found env False s0 (solutions s0 (s_clauses s)) MAX_ITERATIONS (set first)"
      "solutions s0 (s_clauses t) = {S \<in> solutions s0 (s_clauses s). set (?keep1 first) \<subseteq> S}"
      "solutions s0 (s_clauses t) \<noteq> {}" by blast
    have "set (?keep2 fs) \<subseteq> set fs" for fs by (auto simp: finter_def)
    from solve_then_keep [where keep = ?keep2 and older = True and 'a = "fmri list", OF ms st t(2) n t(5) this] obtain second u where u:
      "\<forall>k :: fmri list srun. ?step True ?keep2 k t = k u" "ready env s0 u"
      "best_found env True s0 (solutions s0 (s_clauses t)) MAX_ITERATIONS (set second)"
      "solutions s0 (s_clauses u) = {S \<in> solutions s0 (s_clauses t). set (?keep2 second) \<subseteq> S}"
      "solutions s0 (s_clauses u) \<noteq> {}" by blast
    obtain sol s' where sol: "?third u = (Inr sol, s')" "ready env s0 s'"
      "best_found env False s0 (solutions s0 (s_clauses u)) MAX_ITERATIONS (set sol)"
      using solve_result [OF ms st u(2) n, of False] u(5) by auto
    have "search ms env names s = (Inr sol, s')" by (simp only: shape t(1) [rule_format] u(1) [rule_format] sol(1))
    moreover have "searched env s0 names (solutions s0 (s_clauses s)) sol"
      unfolding searched_def Let_def using t(3,4) u(3,4) sol(3)
      by (intro exI [of _ first] exI [of _ second]) (simp add: finter_def)
    ultimately show ?thesis using False sol(2) by auto
  qed
qed

lemma searched_solution: "searched env s names Sols sol \<Longrightarrow> set sol \<in> Sols"
  by (auto simp: searched_def Let_def dest!: best_found_solution)

section \<open>The clauses and the search together\<close>

text \<open>The sets of packages that an operation may leave installed.\<close>

definition acceptable :: "senv \<Rightarrow> fmri list dict \<Rightarrow> sstate \<Rightarrow> fmri set set" where
  "acceptable env prop s =
     {S. S \<subseteq> set (s_ids s) \<and> consistent env s S \<and> operation_met env prop s S}"

lemma chosen_surj:
  assumes "S \<subseteq> set (s_ids s)"
  shows "\<exists>V. chosen s V = S"
proof
  have "x \<in> chosen s {Suc i | i. i < length (s_ids s) \<and> s_ids s ! i \<in> S}" if "x \<in> S" for x
    using assms that by (force simp: chosen_def in_set_conv_nth)
  then show "chosen s {Suc i | i. i < length (s_ids s) \<and> s_ids s ! i \<in> S} = S"
    by (auto simp: chosen_def)
qed

lemma add_operation_clauses:
  assumes ms: "msat_ok ms" and st: "settled env s" and fl: "failure_ok s" and cl: "s_clauses s = []"
    and run: "mthen (enforce_unique_packages ms env) (\<lambda>_.
      mthen (generate_operation_clauses ms env prop) (\<lambda>_. assert_installed_allowed env report ns)) s = (Inr (), t)"
  shows "ready env s t \<and> solutions s (s_clauses t) = acceptable env prop s"
proof -
  obtain u where u: "enforce_unique_packages ms env s = (Inr (), u)"
    "generate_operation_clauses ms env prop u = (Inr (), t)"
    using run by (auto simp: run_simps assert_installed_allowed_def split: if_splits)
  obtain cs where cs: "same env s u" "failure_ok s \<Longrightarrow> failure_ok u" "s_clauses u = s_clauses s @ cs"
    "in_range s cs" "\<And>V. satisfies V cs \<longleftrightarrow> consistent env s (chosen s V)"
    using addsD [OF adds_enforce_unique [OF ms st] st same_refl u(1)] by metis
  obtain ds where ds: "same env s t" "failure_ok u \<Longrightarrow> failure_ok t" "s_clauses t = s_clauses u @ ds"
    "in_range s ds" "\<And>V. satisfies V ds \<longleftrightarrow> operation_met env prop s (chosen s V)"
    using addsD [OF adds_operation [OF ms] st cs(1) u(2)] by metis
  have "S \<in> acceptable env prop s \<Longrightarrow> \<exists>V. S = chosen s V \<and> satisfies V (cs @ ds)" for S
    using chosen_surj [of S s] cs(5) ds(5) by (auto simp: acceptable_def)
  moreover have "satisfies V (cs @ ds) \<Longrightarrow> chosen s V \<in> acceptable env prop s" for V
    using cs(5) ds(5) chosen_ids [of s V] by (simp add: acceptable_def)
  ultimately have "solutions s (s_clauses t) = acceptable env prop s"
    by (auto simp: solutions_def cs(3) ds(3) cl)
  then show ?thesis using cs ds fl cl by (simp add: ready_def)
qed

end
