(* ===== verification/Solver_Setup.thy ===== *)
theory Solver_Setup
  imports Solver_Search
begin

text \<open>
  The steps before the clauses lead to a settled state: what looking up packages changes, that the
  publishers of every candidate are filtered and that every candidate that is left can be read.
\<close>

section \<open>What looking up packages changes\<close>

text \<open>
  A look-up trims packages, notes names as filtered and caches package states; \<open>grows\<close> allows the
  other steps before the clauses too, and \<open>progress\<close> those that do not look for downgrades.
\<close>

definition looks_up :: "senv \<Rightarrow> sstate \<Rightarrow> sstate \<Rightarrow> bool" where
  "looks_up env s t \<longleftrightarrow>
     t = s\<lparr>s_trim := s_trim t, s_pub_trim := s_pub_trim t, s_fstate := s_fstate t\<rparr>
     \<and> set (s_trim s) \<subseteq> set (s_trim t) \<and> set (s_pub_trim s) \<subseteq> set (s_pub_trim t)
     \<and> (fstate_ok env s \<longrightarrow> fstate_ok env t)"

definition grows :: "senv \<Rightarrow> sstate \<Rightarrow> sstate \<Rightarrow> bool" where
  "grows env s t \<longleftrightarrow>
     s_clauses t = s_clauses s \<and> s_failed t = s_failed s \<and> s_trimdone t = s_trimdone s
     \<and> set (s_trim s) \<subseteq> set (s_trim t) \<and> set (s_pub_trim s) \<subseteq> set (s_pub_trim t)
     \<and> (fstate_ok env s \<longrightarrow> fstate_ok env t)"

definition progress :: "senv \<Rightarrow> sstate \<Rightarrow> sstate \<Rightarrow> bool" where
  "progress env s t \<longleftrightarrow>
     grows env s t \<and> s_downgrades t = s_downgrades s \<and> s_dg_cache t = s_dg_cache s"

lemma looks_up_trans:
  assumes "looks_up env s t" "looks_up env t u"
  shows "looks_up env s u"
proof -
  obtain a b c where t: "t = s\<lparr>s_trim := a, s_pub_trim := b, s_fstate := c\<rparr>"
    using assms(1) unfolding looks_up_def by blast
  obtain d e f where u: "u = t\<lparr>s_trim := d, s_pub_trim := e, s_fstate := f\<rparr>"
    using assms(2) unfolding looks_up_def by blast
  show ?thesis using assms by (auto simp: looks_up_def t u)
qed

lemma grows_trans: "grows env s t \<Longrightarrow> grows env t u \<Longrightarrow> grows env s u"
  by (auto simp: grows_def)

lemma looks_up_refl [simp]: "looks_up env s s"
  by (simp add: looks_up_def)

lemma grows_refl [simp]: "grows env s s"
  by (simp add: grows_def)

lemma progress_trans: "progress env s t \<Longrightarrow> progress env t u \<Longrightarrow> progress env s u"
  unfolding progress_def using grows_trans by metis

lemma progress_grows: "progress env s t \<Longrightarrow> grows env s t"
  by (simp add: progress_def)

lemma looks_up_progress: "looks_up env s t \<Longrightarrow> progress env s t"
proof -
  assume l: "looks_up env s t"
  then obtain a b c where t: "t = s\<lparr>s_trim := a, s_pub_trim := b, s_fstate := c\<rparr>"
    unfolding looks_up_def by blast
  show ?thesis using l by (simp add: progress_def grows_def looks_up_def t)
qed

abbreviation lookup :: "senv \<Rightarrow> 'a srun \<Rightarrow> bool" where
  "lookup env \<equiv> moves (looks_up env)"

abbreviation prepares :: "senv \<Rightarrow> 'a srun \<Rightarrow> bool" where
  "prepares env \<equiv> moves (progress env)"

abbreviation growing :: "senv \<Rightarrow> 'a srun \<Rightarrow> bool" where
  "growing env \<equiv> moves (grows env)"

interpretation looking: growth "looks_up env" for env
  by unfold_locales (simp, rule looks_up_trans)

interpretation preparing: growth "progress env" for env
  by unfold_locales (simp add: progress_def, rule progress_trans)

interpretation growing: growth "grows env" for env
  by unfold_locales (simp, rule grows_trans)

named_theorems lookup_intros \<open>rules for computations that look up packages\<close>
named_theorems prepare_intros \<open>rules for computations before the clauses\<close>
named_theorems growing_intros \<open>rules for computations that may look for downgrades\<close>

lemmas lookup_growth [lookup_intros] = looking.rules moves_splits
lemmas prepare_growth [prepare_intros] = preparing.rules moves_splits
lemmas growing_growth [growing_intros] = growing.rules moves_splits

lemma lookup_prepares: "lookup env m \<Longrightarrow> prepares env m"
  by (erule moves_mono) (rule looks_up_progress)

lemma prepares_growing: "prepares env m \<Longrightarrow> growing env m"
  by (erule moves_mono) (rule progress_grows)

section \<open>Which parts look up packages\<close>

lemma looks_up_trims: "looks_up env s (add_trims fs r ex s)"
proof -
  have "fstate_ok env (add_trims fs r ex s) = fstate_ok env s" by (rule fstate_ok_cong) simp
  then show ?thesis using set_add_trims [of fs r ex s] by (auto simp: looks_up_def add_trims_def)
qed

lemma lookup_trim [lookup_intros]: "lookup env (trim fs r ex)" "lookup env (trim_unsupported f)"
  unfolding trim_unsupported_def trim_def by (auto intro: moves_mmod looks_up_trims)

lemma looks_up_publishers: "looks_up env s (filter_publishers env n s)"
proof -
  obtain fs r where f: "filter_publishers env n s =
    (if n \<in> set (s_pub_trim s) then s else add_trims fs r [] (mark_pub_trimmed n s))"
    by (rule filter_publishers_cases)
  have "looks_up env s (mark_pub_trimmed n s)" by (auto simp: looks_up_def mark_pub_trimmed_def fstate_ok_def)
  then show ?thesis using looks_up_trims looks_up_trans f by (metis looks_up_refl)
qed

lemma lookup_catalog_fmris [lookup_intros]: "lookup env (get_catalog_fmris env n)"
  unfolding get_catalog_fmris_def by (intro lookup_intros moves_mmod looks_up_publishers)

lemma lookup_state: "\<not> good_entry env f \<or> ob = obsolete env f \<and> (re \<longrightarrow> marked_renamed env f) \<Longrightarrow>
    lookup env (mmod (\<lambda>s. s\<lparr>s_fstate := (f, ob, re) # s_fstate s\<rparr>))"
  by (intro moves_mmod) (auto simp: looks_up_def fstate_ok_def)

lemma lookup_invalid: "\<not> good_entry env f \<Longrightarrow> lookup env (invalid_entry f)"
  unfolding invalid_entry_def by (intro lookup_intros lookup_state) simp

lemma lookup_fmri_state [lookup_intros]: "lookup env (fmri_state env [] f)"
proof -
  have "lookup env (fmri_loadstate env [] f)"
  proof (cases "get_entry_actions env [] f")
    case (Inl e)
    then have "\<not> good_entry env f" using good_entry_reads [of env f "[]"] by auto
    then show ?thesis using Inl by (auto simp: fmri_loadstate_def intro!: lookup_intros lookup_invalid split: solver_exn.split)
  next
    case (Inr acts)
    show ?thesis
    proof (cases "says_true (dget (set_values acts) ''pkg.obsolete'')")
      case ob: (Inr ob)
      then have "ob = obsolete env f" using Inr by (auto simp: obsolete_def)
      moreover have "marked_renamed env f" if "says_true (dget (set_values acts) ''pkg.renamed'') = Inr True"
        using that Inr by (auto simp: marked_renamed_def)
      ultimately show ?thesis using Inr ob
      proof (cases "says_true (dget (set_values acts) ''pkg.renamed'')")
        case (Inl e)
        then show ?thesis using Inr ob by (simp add: fmri_loadstate_def moves_def mthen_def run_simps)
      qed (auto simp: fmri_loadstate_def intro!: lookup_state)
    qed (use Inr in \<open>simp add: fmri_loadstate_def mthen_def mlift_def moves_def\<close>)
  qed
  then show ?thesis unfolding fmri_state_def by (intro lookup_intros)
qed

lemma lookup_is_obsolete [lookup_intros]: "lookup env (fmri_is_obsolete env f)"
  unfolding fmri_is_obsolete_def by (intro lookup_intros)

lemma lookup_actions [lookup_intros]:
  "lookup env (get_dependency_actions env f)" "lookup env (get_set_actions env f)"
proof -
  have "lookup env (get_actions env x True name f)"
    if "\<And>e. solver_actions env x name f = Inl e \<Longrightarrow> \<not> good_entry env f" for x name
    using that unfolding get_actions_def by (auto intro!: lookup_intros lookup_invalid)
  moreover have "\<not> good_entry env f" if "solver_actions env (e_excludes env) ''depend'' f = Inl e" for e
    using that by (simp add: good_entry_def)
  moreover have "\<not> good_entry env f" if "solver_actions env [] ''set'' f = Inl e" for e
    using that good_entry_set [of env f "[]"] by auto
  ultimately show "lookup env (get_dependency_actions env f)" "lookup env (get_set_actions env f)"
    unfolding get_dependency_actions_def get_set_actions_def by blast+
qed

lemma lookup_comb [lookup_intros]:
  "lookup env (comb_newer env f t ok)" "lookup env (comb_auto env f t ok)" "lookup env (comb_older env f t ok)"
  unfolding comb_older_def comb_newer_def comb_auto_def comb_common_def Let_def by (intro lookup_intros)+

lemma lookup_comb_all [lookup_intros]: "(\<And>f. lookup env (comb f)) \<Longrightarrow> lookup env (comb_all comb fs)"
  unfolding comb_all_def by (intro lookup_intros)

lemma lookup_group [lookup_intros]: "lookup env (match_group env t fs)"
  unfolding match_group_def parse_group_dependency_def by (intro lookup_intros)

lemma lookup_match [lookup_intros]: "lookup env (match_dependency env prop t da fs)"
  unfolding match_dependency_def Let_def by (intro lookup_intros)

lemma lookup_reject [lookup_intros]:
  "lookup env again \<Longrightarrow> lookup env (reject_dependency env prop t again source fs d)"
  unfolding reject_dependency_def Let_def by (intro lookup_intros)

lemma lookup_parse [lookup_intros]: "lookup env (parse_dependency env prop t check da source)"
  unfolding parse_dependency_def parse_untrimmed_def by (intro lookup_intros)

lemma lookup_explicit [lookup_intros]: "lookup env (is_explicit_install env f)" "lookup env (filter_explicit_install env f)"
  unfolding filter_explicit_install_def is_explicit_install_def by (intro lookup_intros)+

lemma lookup_generate [lookup_intros]: "lookup env (generate_dependencies env prop full f)"
  unfolding generate_dependencies_def by (intro lookup_intros) (auto split: solver_exn.split intro!: lookup_intros)

lemma lookup_closure [lookup_intros]: "lookup env (dependency_closure env prop full expl n todo processed)"
proof (induction n arbitrary: todo processed)
  case 0
  show ?case by (cases todo) (simp_all add: lookup_intros)
next
  case (Suc n)
  then show ?case by (cases todo) (auto intro!: lookup_intros)
qed

lemma lookup_update_closure [lookup_intros]: "lookup env (update_possible_closure env prop ex fs)"
  unfolding update_possible_closure_def generate_dependency_closure_def by (intro lookup_intros)

section \<open>The steps before the clauses\<close>

lemma prepares_mmod:
  assumes "\<And>s. s_clauses (f s) = s_clauses s \<and> s_failed (f s) = s_failed s \<and> s_trimdone (f s) = s_trimdone s
    \<and> s_trim (f s) = s_trim s \<and> s_pub_trim (f s) = s_pub_trim s \<and> s_fstate (f s) = s_fstate s
    \<and> s_downgrades (f s) = s_downgrades s \<and> s_dg_cache (f s) = s_dg_cache s"
  shows "prepares env (mmod f)"
proof (rule moves_mmod)
  fix s
  have "fstate_ok env (f s) = fstate_ok env s" by (rule fstate_ok_cong) (simp add: assms)
  then show "progress env s (f s)" using assms [of s] by (simp add: progress_def grows_def)
qed

lemma growing_mmod:
  assumes "\<And>s. s_clauses (f s) = s_clauses s \<and> s_failed (f s) = s_failed s \<and> s_trimdone (f s) = s_trimdone s
    \<and> s_trim (f s) = s_trim s \<and> s_pub_trim (f s) = s_pub_trim s \<and> s_fstate (f s) = s_fstate s"
  shows "growing env (mmod f)"
proof (rule moves_mmod)
  fix s
  have "fstate_ok env (f s) = fstate_ok env s" by (rule fstate_ok_cong) (simp add: assms)
  then show "grows env s (f s)" using assms [of s] by (simp add: grows_def)
qed

lemma prepares_mark: "prepares env (mmod (mark_pub_trimmed n))"
  by (rule moves_mmod) (auto simp: progress_def grows_def mark_pub_trimmed_def fstate_ok_def)

lemma lookup_variant_dict [lookup_intros]: "lookup env (get_variant_dict env f)"
  unfolding get_variant_dict_def by (intro lookup_intros) (auto split: solver_exn.split intro!: lookup_intros)

lemma lookup_nonmatching_variants [lookup_intros]: "lookup env (trim_nonmatching_variants env f)"
  unfolding trim_nonmatching_variants_def by (intro lookup_intros)

lemma lookup_older_frozen [lookup_intros]: "lookup env (trim_older env f)" "lookup env (trim_frozen env fs)"
  unfolding trim_older_def trim_frozen_def by (intro lookup_intros)+

lemma lookup_parents1 [lookup_intros]: "lookup env (trim_nonmatching_parents1 env f g)"
  unfolding trim_nonmatching_parents1_def by (intro lookup_intros)

lemmas prepare_trims [prepare_intros] = lookup_prepares [OF lookup_trim(1)] lookup_prepares [OF lookup_trim(2)]
  lookup_prepares [OF lookup_catalog_fmris] lookup_prepares [OF lookup_is_obsolete]
  lookup_prepares [OF lookup_actions(1)] lookup_prepares [OF lookup_actions(2)]
  lookup_prepares [OF lookup_comb(1)] lookup_prepares [OF lookup_comb(2)] lookup_prepares [OF lookup_explicit(1)]
  lookup_prepares [OF lookup_variant_dict] lookup_prepares [OF lookup_nonmatching_variants]
  lookup_prepares [OF lookup_older_frozen(1)] lookup_prepares [OF lookup_older_frozen(2)]
  lookup_prepares [OF lookup_parents1] lookup_prepares [OF lookup_update_closure]

lemma prepares_parents [prepare_intros]: "prepares env (trim_nonmatching_parents env ignore f)"
  unfolding trim_nonmatching_parents_def Let_def
  by (intro prepare_intros prepares_mmod) simp

lemma lookup_origins [lookup_intros]: "lookup env (trim_nonmatching_origins env inst f)"
proof -
  have "lookup env (check_origins env inst f das)" for das
    by (induction das) (auto intro!: lookup_intros split: option.split avalue.split simp: Let_def)
  then show ?thesis unfolding trim_nonmatching_origins_def by (intro lookup_intros)
qed

lemma lookup_nonmatch [lookup_intros]: "lookup env (get_incorp_nonmatch_dict env f)"
  unfolding get_incorp_nonmatch_dict_def by (intro lookup_intros)

lemma lookup_recursive_incorps [lookup_intros]: "lookup env (trim_recursive_incorps env r n work processed)"
proof (induction n arbitrary: work processed)
  case (Suc n)
  then show ?case unfolding trim_recursive_incorps.simps combine_incorps_def by (intro lookup_intros)
qed (simp add: lookup_intros)

lemmas prepare_origins [prepare_intros] = lookup_prepares [OF lookup_origins] lookup_prepares [OF lookup_nonmatch]
  lookup_prepares [OF lookup_recursive_incorps]

lemma prepares_child_holds [prepare_intros]: "prepares env (child_holds_loop env i n todo processed proc incorps)"
proof (induction n arbitrary: todo processed proc incorps)
  case 0
  show ?case by (cases todo) (simp_all add: prepare_intros)
next
  case (Suc n)
  then show ?case
    by (cases todo) (auto simp: child_matches_def intro!: prepare_intros)
qed

lemma prepares_inc_list [prepare_intros]: "prepares env (get_installed_unbound_inc_list env relax)"
  unfolding get_installed_unbound_inc_list_def Let_def by (intro prepare_intros)

lemma prepares_setup_parts [prepare_intros]:
  "prepares env (change_variants env vars)"
  "prepares env (fix_publishers env prop)"
  "prepares env (set_removed_and_required env rejected names)"
  "prepares env (relax_packages env args prop)"
  "prepares env (trim_older_installed env args prop)"
  "prepares env (trim_others env args prop)"
  "prepares env (drop_nonmatching_parents env ignore fs)"
  "prepares env (trim_synced env budget relaxed prop fs)"
  "prepares env (trim_maintained env incs con_lists)"
  "prepares env (trim_proposed prop)"
  "prepares env (set_proposed_required env prop)"
  "prepares env (trim_image env ignore inst fs)"
  unfolding change_variants_def fix_publishers_def set_removed_and_required_def relax_packages_def
    installed_unsatisfied_parent_deps_def
    trim_older_installed_def trim_others_def drop_nonmatching_parents_def trim_synced_def
    trim_maintained_def trim_proposed_def set_proposed_required_def trim_image_def Let_def
  by (intro prepare_intros prepares_mark prepares_mmod; simp)+

text \<open>The search for downgrades.\<close>

lemmas growing_prepares [growing_intros] = prepare_intros [THEN prepares_growing]

lemma growing_downgrades [growing_intros]: "growing env (allow_incorp_downgrades env r f)"
proof -
  have dg: "growing env (mmod (dg_add g ds))" for g ds
    by (rule growing_mmod) (simp add: dg_add_def)
  have "growing env (older_incorp_pkgs env h r n f)" for h n f
  proof (induction n arbitrary: f)
    case 0
    then show ?case by (simp add: growing_intros)
  next
    case (Suc n)
    have "growing env (downgrade_step env h r (older_incorp_pkgs env h r n) f inst df)" for f inst df
      unfolding downgrade_step_def Let_def
      by (intro growing_intros dg Suc)
    then show ?case unfolding older_incorp_pkgs.simps older_incorp_body_def
      by (intro growing_intros dg)
  qed
  then show ?thesis unfolding allow_incorp_downgrades_def
    by (intro growing_intros)
qed

lemma growing_initial [growing_intros]: "growing env (initial_possible env args prop)"
  unfolding initial_possible_def expand_proposed_def relax_downgrades_def Let_def
  by (intro growing_intros growing_mmod; simp)

section \<open>The names of the packages that are found\<close>

text \<open>
  Before the clauses, the publishers of every package that is a candidate have been filtered.
  \<open>tidy xs s\<close>: that is so for \<open>xs\<close>, for the recorded downgrades and for those in the cache.
\<close>

definition tidy_records :: "sstate \<Rightarrow> bool" where
  "tidy_records s \<longleftrightarrow> \<not> s_trimdone s
     \<and> (\<forall>f \<in> set (s_downgrades s) \<union> \<Union> (set ` snd ` set (s_dg_cache s)). f_name f \<in> set (s_pub_trim s))"

definition tidy :: "fmri list \<Rightarrow> sstate \<Rightarrow> bool" where
  "tidy xs s \<longleftrightarrow> tidy_records s \<and> f_name ` set xs \<subseteq> set (s_pub_trim s)"

definition finds :: "fmri list \<Rightarrow> 'a srun \<Rightarrow> ('a \<Rightarrow> fmri list) \<Rightarrow> bool" where
  "finds ys m g \<longleftrightarrow> (\<forall>xs. yields (tidy (ys @ xs)) m (\<lambda>a. tidy (g a @ xs)))"

lemma tidy_mono: "tidy xs s \<Longrightarrow> set ys \<subseteq> set xs \<Longrightarrow> tidy ys s"
  by (auto simp: tidy_def)

lemma tidy_append [simp]:
  "tidy (xs @ ys) s \<longleftrightarrow> tidy xs s \<and> tidy ys s"
  "tidy [] s \<longleftrightarrow> tidy_records s"
  by (auto simp: tidy_def)

lemma findsD: "finds ys m g \<Longrightarrow> tidy ys s \<Longrightarrow> tidy xs s \<Longrightarrow> m s = (Inr a, s') \<Longrightarrow> tidy (g a) s' \<and> tidy xs s'"
  unfolding finds_def yields_def tidy_append(1) by blast

lemma findsI:
  assumes "\<And>xs s a s'. tidy ys s \<Longrightarrow> tidy xs s \<Longrightarrow> m s = (Inr a, s') \<Longrightarrow> tidy (g a) s' \<and> tidy xs s'"
  shows "finds ys m g"
  unfolding finds_def yields_def tidy_append(1) using assms by blast

lemma finds_mono:
  assumes m: "finds ys m g" "set ys \<subseteq> set zs" "\<And>a. set (h a) \<subseteq> set (g a)"
  shows "finds zs m h"
proof (rule findsI)
  fix xs s a s' assume s: "tidy zs s" "tidy xs s" "m s = (Inr a, s')"
  from findsD [OF m(1) tidy_mono [OF s(1) m(2)] s(2,3)]
  show "tidy (h a) s' \<and> tidy xs s'" using tidy_mono [OF _ m(3)] by blast
qed

lemma finds_frame: "finds ys m g \<Longrightarrow> finds ys m (\<lambda>a. g a @ ys)"
proof (rule findsI)
  fix xs s a s' assume "finds ys m g" "tidy ys s" "tidy xs s" "m s = (Inr a, s')"
  moreover from findsD [OF this(1,2,2,4)] findsD [OF this]
  show "tidy (g a @ ys) s' \<and> tidy xs s'" by (simp only: tidy_append)
qed

lemma finds_more: "finds ys m g \<Longrightarrow> set ys \<subseteq> set zs \<Longrightarrow> finds zs m (\<lambda>a. g a @ zs)"
  by (rule finds_frame) (erule finds_mono; simp)

lemma finds_mthen:
  assumes "finds ys m g" "\<And>a. finds (g a) (k a) h"
  shows "finds ys (mthen m k) h"
proof (rule findsI)
  fix xs s b s' assume s: "tidy ys s" "tidy xs s" "mthen m k s = (Inr b, s')"
  then obtain a t where t: "m s = (Inr a, t)" "k a t = (Inr b, s')" by (auto simp: run_simps)
  show "tidy (h b) s' \<and> tidy xs s'"
    using findsD [OF assms(1) s(1,2) t(1)] findsD [OF assms(2) _ _ t(2)] by blast
qed

lemma finds_mret: "set (h a) \<subseteq> set ys \<Longrightarrow> finds ys (mret a) h"
  by (rule findsI) (auto simp: run_simps elim: tidy_mono)

lemma finds_mfail: "finds ys (mfail e) h"
  by (rule findsI) (simp add: run_simps)

lemma finds_mlift: "finds ys (mlift r) (\<lambda>_. ys)"
  by (rule findsI) (auto simp: run_simps)

lemma finds_mget: "(\<And>s. set (h (f s)) \<subseteq> set ys) \<Longrightarrow> finds ys (mget f) h"
proof (rule findsI)
  fix xs s a s'
  assume f: "\<And>s. set (h (f s)) \<subseteq> set ys" and s: "tidy ys s" "tidy xs s" "mget f s = (Inr a, s')"
  then show "tidy (h a) s' \<and> tidy xs s'" using tidy_mono [OF s(1) f] by (auto simp: run_simps)
qed

lemma tidy_grow:
  assumes "tidy xs s" "set (s_pub_trim s) \<subseteq> set (s_pub_trim t)"
    "s_trimdone t = s_trimdone s" "s_downgrades t = s_downgrades s" "s_dg_cache t = s_dg_cache s"
  shows "tidy xs t"
  using assms unfolding tidy_def tidy_records_def by auto

lemma finds_prepares:
  assumes "prepares env m"
  shows "finds ys m (\<lambda>_. ys)"
proof (rule findsI)
  fix xs s a s' assume s: "tidy ys s" "tidy xs s" "m s = (Inr a, s')"
  have "progress env s s'" by (rule movesD [where R = "progress env", OF assms s(3)])
  then show "tidy ys s' \<and> tidy xs s'" using s(1,2) by (auto simp: progress_def grows_def elim!: tidy_grow)
qed

lemmas finds_lookup = finds_prepares [OF lookup_prepares]

lemma finds_cases:
  "(b \<Longrightarrow> finds ys m g) \<Longrightarrow> (\<not> b \<Longrightarrow> finds ys n g) \<Longrightarrow> finds ys (if b then m else n) g"
  by simp

lemma finds_option:
  "(x = None \<Longrightarrow> finds ys m g) \<Longrightarrow> (\<And>y. x = Some y \<Longrightarrow> finds ys (f y) g) \<Longrightarrow>
     finds ys (case x of None \<Rightarrow> m | Some y \<Rightarrow> f y) g"
  by (cases x) auto

lemma finds_mwhen: "(b \<Longrightarrow> finds ys m (\<lambda>_. zs)) \<Longrightarrow> set zs \<subseteq> set ys \<Longrightarrow> finds ys (mwhen b m) (\<lambda>_. zs)"
  by (cases b) (simp_all add: mwhen_def finds_mret)

lemma finds_meach:
  assumes "\<And>x. x \<in> set xs \<Longrightarrow> finds ys (f x) g"
  shows "finds ys (meach f xs) (\<lambda>as. concat (map g as) @ ys)"
  using assms
proof (induction xs)
  case Nil
  then show ?case by (simp add: finds_mret)
next
  case (Cons x xs)
  have "finds (g a @ ys) (meach f xs) (\<lambda>as. (concat (map g as) @ ys) @ g a @ ys)" for a
    by (rule finds_more [where ys = ys]) (use Cons in auto)
  then show ?case unfolding meach.simps
    by (intro finds_mthen [OF finds_frame [OF Cons.prems]] finds_mthen finds_mret) auto
qed

lemma finds_mloop: "(\<And>x. x \<in> set xs \<Longrightarrow> finds ys (f x) (\<lambda>_. ys)) \<Longrightarrow> finds ys (mloop f xs) (\<lambda>_. ys)"
  by (induction xs) (auto intro: finds_mthen finds_mret)

lemma catalog_names: "\<not> s_trimdone s \<Longrightarrow> f \<in> set (catalog_fmris env n s) \<Longrightarrow> f_name f = n"
  by (simp add: catalog_fmris_def)

lemma finds_comb:
  "finds ys (comb_common env c req t ok) (\<lambda>(m, nm). req # m @ nm @ ys)"
proof (rule findsI)
  fix xs s a s' assume s: "tidy ys s" "tidy xs s" "comb_common env c req t ok s = (Inr a, s')"
  let ?t = "filter_publishers env (f_name req) s"
  let ?fs = "fdedup (catalog_fmris env (f_name req) ?t)"
  let ?filter = "mfilter (\<lambda>f. mthen (mget (\<lambda>s. t \<and> is_trimmed s f)) (\<lambda>t.
           if t \<or> \<not> version_allows c req f then mret False
           else if ok then mret True
           else mthen (fmri_is_obsolete env f) (\<lambda>ob. mret (\<not> ob)))) ?fs"
  obtain m where m: "?filter ?t = (Inr m, s')" "a = (m, fdiff ?fs m)"
    using s(3) by (auto simp: comb_common_def get_catalog_fmris_def run_simps Let_def)
  have lk: "lookup env (mmod (filter_publishers env (f_name req)))" by (intro moves_mmod looks_up_publishers)
  have t: "tidy ys ?t" "tidy xs ?t"
    using findsD [OF finds_lookup [OF lk] s(1,2)] by (simp_all add: run_simps)
  have filt: "lookup env ?filter" by (intro lookup_intros)
  have s': "tidy ys s'" "tidy xs s'" using findsD [OF finds_lookup [OF filt] t m(1)] by auto
  have up: "looks_up env ?t s'" by (rule movesD [where R = "looks_up env", OF filt m(1)])
  have "f_name req \<in> set (s_pub_trim ?t)"
  proof -
    obtain fs r where "filter_publishers env (f_name req) s =
      (if f_name req \<in> set (s_pub_trim s) then s else add_trims fs r [] (mark_pub_trimmed (f_name req) s))"
      by (rule filter_publishers_cases)
    then show ?thesis by (simp add: mark_pub_trimmed_def)
  qed
  then have pt: "f_name req \<in> set (s_pub_trim s')" using up by (auto simp: looks_up_def)
  define rest where "rest = fdiff ?fs m"
  have found: "f_name f = f_name req" if "f \<in> set m \<union> set rest" for f
  proof -
    have "f \<in> set ?fs" using that mfilter_subset [OF m(1)] by (auto simp: set_fdiff rest_def)
    then show ?thesis using set_fdedup t(1) by (intro catalog_names [of ?t]) (auto simp: tidy_def tidy_records_def)
  qed
  have "f_name ` set (req # m @ rest) \<subseteq> {f_name req}"
  proof (rule image_subsetI)
    fix f assume "f \<in> set (req # m @ rest)"
    then have "f = req \<or> f \<in> set m \<union> set rest" by simp
    then show "f_name f \<in> {f_name req}" using found by blast
  qed
  then have "f_name ` set (req # m @ rest) \<subseteq> set (s_pub_trim s')"
    by (rule subset_trans) (simp add: pt)
  then have "tidy (req # m @ rest) s'" using s'(1) by (simp only: tidy_def)
  then have "tidy ((req # m @ rest) @ ys) s'" using s'(1) by (simp only: tidy_append)
  then show "tidy (case a of (m, nm) \<Rightarrow> req # m @ nm @ ys) s' \<and> tidy xs s'"
    using s'(2) by (simp only: m(2) rest_def prod.case append_Cons append_assoc)
qed

lemma finds_comb_newer: "finds ys (comb_newer env req t ok) (\<lambda>(m, nm). req # m @ nm @ ys)"
  and finds_comb_auto: "finds ys (comb_auto env req t ok) (\<lambda>(m, nm). req # m @ nm @ ys)"
  unfolding comb_newer_def comb_auto_def by (rule finds_comb)+

text \<open>Dependencies and their closure.\<close>

lemma finds_case_prod: "(\<And>m nm. a = (m, nm) \<Longrightarrow> finds (g m nm) (k m nm) h) \<Longrightarrow>
    finds (case a of (m, nm) \<Rightarrow> g m nm) (case a of (m, nm) \<Rightarrow> k m nm) h"
  by (cases a) simp

lemma finds_comb_older: "finds ys (comb_older env req t ok) (\<lambda>(m, nm). m @ nm @ ys)"
  unfolding comb_older_def
  by (rule finds_mthen [OF finds_comb_newer], rule finds_case_prod)
    (auto intro!: finds_mret finds_mget)

lemma set_fdedup_subset: "set fs \<subseteq> A \<Longrightarrow> set (fdedup fs) \<subseteq> A"
  using set_fdedup by blast

lemma finds_comb_all:
  assumes "\<And>f. finds ys (comb f) (\<lambda>(m, nm). f # m @ nm @ ys)"
  shows "finds ys (comb_all comb fs) (\<lambda>(m, nm). m @ nm @ ys)"
  unfolding comb_all_def
proof (rule finds_mthen [OF finds_meach [where g = "\<lambda>(m, nm). m @ nm"]])
  show "finds ys (comb f) (\<lambda>(m, nm). m @ nm)" for f
    by (rule finds_mono [OF assms]) auto
  show "finds (concat (map (\<lambda>(m, nm). m @ nm) ps) @ ys)
      (mret (fdedup (concat (map fst ps)), fdedup (concat (map snd ps)))) (\<lambda>(m, nm). m @ nm @ ys)" for ps
    by (rule finds_mret) (use set_fdedup in \<open>fastforce simp: prod.case_eq_if\<close>)
qed

lemma finds_match_group: "finds ys (match_group env t fs) (\<lambda>(m, nm, b). m @ nm @ ys)"
  unfolding match_group_def
proof (rule finds_mthen [OF finds_mget [where h = "\<lambda>_. ys"]])
  fix pot
  have 1: "finds ys (parse_group_dependency env t True pot) (\<lambda>(m, nm). m @ nm @ ys)"
    unfolding parse_group_dependency_def
  proof (rule finds_comb_all)
    fix f
    show "finds ys (comb_newer env (no_version f) t True) (\<lambda>(m, nm). f # m @ nm @ ys)"
    proof (rule findsI)
      fix xs s a s' assume "tidy ys s" "tidy xs s" "comb_newer env (no_version f) t True s = (Inr a, s')"
      from findsD [OF finds_comb_newer this]
      show "tidy (case a of (m, nm) \<Rightarrow> f # m @ nm @ ys) s' \<and> tidy xs s'"
        by (cases a) (simp add: tidy_def no_version_def)
    qed
  qed
  show "finds ys (if pot = [] then mret ([], [], False)
     else mthen (parse_group_dependency env t True pot) (\<lambda>(m, nm).
       if m = [] \<and> nm = [] then mret (m, nm, False)
       else if card (set (map f_name m)) \<le> 1 then mret (m, nm, True)
       else mthen (mfilter (fmri_is_obsolete env) m) (\<lambda>ofmris.
         mret (fst (prefer_present ofmris m nm), snd (prefer_present ofmris m nm), True))))
     (\<lambda>(m, nm, b). m @ nm @ ys)"
  proof (intro finds_cases finds_mthen [OF 1] finds_case_prod finds_mret)
    fix a m nm
    have obs: "finds (m @ nm @ ys) (mfilter (fmri_is_obsolete env) m) (\<lambda>obs. obs @ m @ nm @ ys)"
    proof (rule findsI)
      fix xs s obs s' assume s: "tidy (m @ nm @ ys) s" "tidy xs s" "mfilter (fmri_is_obsolete env) m s = (Inr obs, s')"
      have "lookup env (mfilter (fmri_is_obsolete env) m)" by (intro lookup_intros)
      from findsD [OF finds_lookup [OF this] s] mfilter_subset [OF s(3)]
      show "tidy (obs @ m @ nm @ ys) s' \<and> tidy xs s'" by (auto elim: tidy_mono)
    qed
    show "finds (m @ nm @ ys) (mthen (mfilter (fmri_is_obsolete env) m) (\<lambda>ofmris.
         mret (fst (prefer_present ofmris m nm), snd (prefer_present ofmris m nm), True)))
       (\<lambda>(m, nm, b). m @ nm @ ys)"
      by (intro finds_mthen [OF obs] finds_mret)
        (use set_funion in \<open>fastforce simp: prefer_present_def set_fdiff split: if_splits\<close>)
  qed auto
qed simp

lemma finds_match: "finds ys (match_dependency env prop t da fs) (\<lambda>d. pd_m d @ ys)"
proof -
  note newer = finds_mthen [OF finds_comb_newer] and auto' = finds_mthen [OF finds_comb_auto]
    and older = finds_mthen [OF finds_comb_older] and group = finds_mthen [OF finds_match_group]
  have any: "finds ys (comb_all (\<lambda>g. comb_newer env g t False) fs) (\<lambda>(m, nm). m @ nm @ ys)"
    by (rule finds_comb_all [OF finds_comb_newer])
  have lift: "finds ys (mlift r) (\<lambda>_. ys)" for r :: "solver_exn + fmri" by (rule finds_mlift)
  show ?thesis unfolding match_dependency_def Let_def
    by (intro finds_cases newer auto' older group finds_mthen [OF any] finds_mthen [OF lift] finds_mret finds_mfail)
      (auto intro!: finds_mret finds_mget newer finds_mthen [OF finds_mget [where h = "\<lambda>_. ys"]] split: prod.split)
qed

lemma reject_fails: "reject_dependency env prop t again source fs d s \<noteq> (Inr a, s')"
  by (auto simp: reject_dependency_def Let_def run_simps split: if_splits prod.splits)

lemma finds_reject: "finds zs (reject_dependency env prop t again source fs d) g"
  by (rule findsI) (simp add: reject_fails)

lemma finds_parse_untrimmed:
  assumes "set ys \<subseteq> set zs"
  shows "finds zs (parse_untrimmed env prop check da source) (\<lambda>d. pd_m d @ ys)"
proof -
  have "finds ys (parse_untrimmed env prop check da source) (\<lambda>d. pd_m d @ ys)"
    unfolding parse_untrimmed_def
    by (intro finds_mthen [OF finds_mlift] finds_cases finds_mthen [OF finds_match] finds_mret finds_mfail
        finds_reject) auto
  then show ?thesis by (rule finds_mono) (use assms in auto)
qed

lemma finds_parse: "finds ys (parse_dependency env prop t check da source) (\<lambda>d. pd_m d @ ys)"
proof -
  have again: "finds (pd_m d @ ys) (mthen (mget (\<lambda>s. fin source (s_inc_list s))) (\<lambda>held.
            if held \<and> pd_type d = ''incorporate'' then parse_untrimmed env prop check da source
            else reject_dependency env prop True (parse_untrimmed env prop check da source) source fs d))
      (\<lambda>d. pd_m d @ ys)" for d fs
    by (intro finds_mthen [OF finds_mget [where h = "\<lambda>_. ys"]] finds_cases finds_parse_untrimmed finds_reject) auto
  show ?thesis unfolding parse_dependency_def
    by (intro finds_cases finds_parse_untrimmed finds_mthen [OF finds_mlift] finds_mthen [OF finds_match]
        finds_mret finds_mfail again) auto
qed

lemma finds_mcatch:
  assumes "lookup env m" "finds ys m g" "\<And>e. finds ys (h e) g"
  shows "finds ys (mcatch m h) g"
proof (rule findsI)
  fix xs s a s' assume s: "tidy ys s" "tidy xs s" "mcatch m h s = (Inr a, s')"
  then consider "m s = (Inr a, s')" | e t where "m s = (Inl e, t)" "h e t = (Inr a, s')"
    by (auto simp: run_simps)
  then show "tidy (g a) s' \<and> tidy xs s'"
  proof cases
    case 1
    then show ?thesis using findsD [OF assms(2)] s by blast
  next
    case 2
    have "progress env s t"
      by (rule movesD [where R = "progress env", OF lookup_prepares [OF assms(1)] 2(1)])
    then have "tidy ys t" "tidy xs t" using s by (auto simp: progress_def grows_def elim!: tidy_grow)
    then show ?thesis using findsD [OF assms(3)] 2(2) by blast
  qed
qed

lemma finds_dependencies:
  assumes "\<And>x. finds ys (f x) (\<lambda>d. pd_m d @ ys)"
  shows "finds ys (mthen (meach f xs) (\<lambda>ds. mret (fdedup (concat (map pd_m ds))))) (\<lambda>fs. fs @ ys)"
proof (rule finds_mthen [OF finds_meach [where g = pd_m]])
  show "finds ys (f x) pd_m" for x by (rule finds_mono [OF assms]) auto
  show "finds (concat (map pd_m ds) @ ys) (mret (fdedup (concat (map pd_m ds)))) (\<lambda>fs. fs @ ys)" for ds
    by (rule finds_mret) (use set_fdedup in fastforce)
qed

lemma finds_generate: "finds ys (generate_dependencies env prop full f) (\<lambda>fs. fs @ ys)"
  unfolding generate_dependencies_def
proof (rule finds_mcatch [where env = env])
  show "finds ys (mthen (get_dependency_actions env f) (\<lambda>acts.
        mthen (meach (\<lambda>da. parse_dependency env prop True True da f)
                (filter (\<lambda>a. str_attr a ''type'' \<in> set (closure_types full)) acts)) (\<lambda>ds.
        mret (fdedup (concat (map pd_m ds)))))) (\<lambda>fs. fs @ ys)"
    by (intro finds_mthen [OF finds_lookup [OF lookup_actions(1)]] finds_dependencies finds_parse)
  fix e
  have "finds ys (mthen (trim [f] r as) (\<lambda>_. mret [])) (\<lambda>fs. fs @ ys)" for r as
    by (intro finds_mthen [OF finds_lookup [OF lookup_trim(1)]] finds_mret) simp
  then show "finds ys (case e of DependencyException reason fs \<Rightarrow> mthen (trim [f] reason fs) (\<lambda>_. mret [])
        | _ \<Rightarrow> mfail e) (\<lambda>fs. fs @ ys)"
    by (cases e) (auto intro: finds_mfail)
qed (intro lookup_intros)

lemma finds_closure:
  "finds (todo @ processed) (dependency_closure env prop full expl n todo processed) (\<lambda>res. res)"
proof (induction n arbitrary: todo processed)
  case 0
  show ?case by (cases todo) (simp_all add: finds_mret finds_mfail)
next
  case (Suc n)
  show ?case
  proof (cases todo)
    case (Cons f rest)
    have dropped: "finds (todo @ processed) (mthen (trim [f] TrimExplicitInstall []) (\<lambda>_.
         dependency_closure env prop full expl n rest (f # processed))) (\<lambda>res. res)"
      by (intro finds_mthen [OF finds_lookup [OF lookup_trim(1)]] finds_mono [OF Suc]) (auto simp: Cons)
    have kept: "finds (todo @ processed) (mthen (generate_dependencies env prop full f) (\<lambda>ds.
         dependency_closure env prop full expl n (funion rest (fdiff ds (f # processed))) (f # processed)))
        (\<lambda>res. res)"
      by (intro finds_mthen [OF finds_generate] finds_mono [OF Suc])
        (use set_funion in \<open>fastforce simp: Cons set_fdiff\<close>)+
    have "lookup env (if expl then filter_explicit_install env f else mret False)" by (intro lookup_intros)
    then show ?thesis unfolding Cons dependency_closure.simps
      by (rule finds_mthen [OF finds_lookup]) (rule finds_cases; use dropped kept in \<open>simp add: Cons\<close>)
  qed (simp add: finds_mret)
qed

lemma finds_update_closure:
  "finds ys (update_possible_closure env prop expl fs) (\<lambda>res. res @ ys)" if "set fs \<subseteq> set ys"
proof -
  have 1: "finds ys (dependency_closure env prop False expl n (fdedup fs) []) (\<lambda>res. res @ ys)" for n
    by (rule finds_mono [OF finds_more [where zs = ys, OF finds_closure]]) (use that set_fdedup in fastforce)+
  show ?thesis unfolding update_possible_closure_def generate_dependency_closure_def mthen_assoc
    by (intro finds_mthen [OF finds_mget [where h = "\<lambda>_. ys"]] finds_mthen [OF 1] finds_mget)
      (use that set_funion in \<open>fastforce simp: dotrim_list_def\<close>)+
qed

section \<open>Every candidate can be read or is trimmed\<close>

definition vetted :: "senv \<Rightarrow> sstate \<Rightarrow> fmri \<Rightarrow> bool" where
  "vetted env s f \<longleftrightarrow> good_entry env f \<or> is_trimmed s f"

lemma vetted_key: "fmri_key f = fmri_key g \<Longrightarrow> vetted env s f = vetted env s g"
  unfolding vetted_def is_trimmed_iff by (simp only: good_entry_key [of f g])

lemma vetted_grows: "grows env s t \<Longrightarrow> vetted env s f \<Longrightarrow> vetted env t f"
  by (auto simp: vetted_def grows_def is_trimmed_iff)

lemma vetted_trimmed: "trim [f] r ex s = (a, t) \<Longrightarrow> vetted env t f"
  by (auto simp: vetted_def trim_def run_simps is_trimmed_add fin_mem)

lemma vetted_actions: "get_dependency_actions env f s = (Inr acts, t) \<Longrightarrow> vetted env t f"
  by (auto simp: get_dependency_actions_def get_actions_def vetted_def good_entry_def run_simps
      invalid_entry_def trim_unsupported_def trim_def is_trimmed_add fin_mem split: sum.splits if_splits)

lemma lookup_grows: "lookup env m \<Longrightarrow> m s = (r, t) \<Longrightarrow> grows env s t"
  by (drule prepares_growing [OF lookup_prepares]) (rule movesD [where R = "grows env"])

lemma vetted_generate:
  assumes "generate_dependencies env prop full f s = (Inr ds, t)"
  shows "vetted env t f"
proof -
  let ?rest = "\<lambda>acts. mthen (meach (\<lambda>da. parse_dependency env prop True True da f)
                (filter (\<lambda>a. str_attr a ''type'' \<in> set (closure_types full)) acts)) (\<lambda>ds.
        mret (fdedup (concat (map pd_m ds))))"
  let ?handler = "\<lambda>e. case e of DependencyException r gs \<Rightarrow> mthen (trim [f] r gs) (\<lambda>_. mret [])
        | _ \<Rightarrow> mfail e"
  have run: "mcatch (mthen (get_dependency_actions env f) ?rest) ?handler s = (Inr ds, t)"
    using assms by (simp only: generate_dependencies_def)
  show ?thesis
  proof (cases "mthen (get_dependency_actions env f) ?rest s = (Inr ds, t)")
    case True
    then obtain acts u where u: "get_dependency_actions env f s = (Inr acts, u)" "?rest acts u = (Inr ds, t)"
      unfolding mthen_Inr [where m = "get_dependency_actions env f"] by blast
    have "lookup env (?rest acts)" by (intro lookup_intros)
    from lookup_grows [where m = "?rest acts", OF this u(2)] show ?thesis
      using vetted_grows vetted_actions [OF u(1)] by blast
  next
    case False
    then obtain e u where "?handler e u = (Inr ds, t)" using run unfolding mcatch_Inr by blast
    then show ?thesis by (cases e) (auto simp: run_simps dest: vetted_trimmed)
  qed
qed

lemma vetted_closure:
  "dependency_closure env prop full expl n todo processed s = (Inr res, t) \<Longrightarrow>
     (\<And>f. f \<in> set processed \<Longrightarrow> vetted env s f) \<Longrightarrow>
     (\<forall>f \<in> set res. vetted env t f) \<and> set todo \<union> set processed \<subseteq> set res"
proof (induction n arbitrary: todo processed s)
  case 0
  then show ?case by (cases todo) (auto simp: run_simps)
next
  case (Suc n)
  show ?case
  proof (cases todo)
    case Nil
    then show ?thesis using Suc.prems by (auto simp: run_simps)
  next
    case (Cons f rest)
    let ?go = "\<lambda>todo. dependency_closure env prop full expl n todo (f # processed)"
    let ?new = "\<lambda>ds. funion rest (fdiff ds (f # processed))"
    obtain drop s1 where s1: "(if expl then filter_explicit_install env f else mret False) s = (Inr drop, s1)"
      "(if drop then mthen (trim [f] TrimExplicitInstall []) (\<lambda>_. ?go rest)
        else mthen (generate_dependencies env prop full f) (\<lambda>ds. ?go (?new ds))) s1 = (Inr res, t)"
      using Suc.prems(1) Cons by (auto simp: run_simps)
    have "lookup env (if expl then filter_explicit_install env f else mret False)" by (intro lookup_intros)
    from lookup_grows [OF this s1(1)] have g1: "grows env s s1" .
    show ?thesis
    proof (cases drop)
      case True
      then obtain u where u: "trim [f] TrimExplicitInstall [] s1 = (Inr (), u)" "?go rest u = (Inr res, t)"
        using s1(2) by (auto simp: run_simps)
      have "grows env s u" using g1 lookup_grows [OF lookup_trim(1) u(1)] grows_trans by blast
      then have "vetted env u g" if "g \<in> set (f # processed)" for g
        using that vetted_trimmed [OF u(1)] vetted_grows Suc.prems(2) by auto
      from Suc.IH [OF u(2) this] show ?thesis by (auto simp: Cons)
    next
      case False
      then obtain ds u where u: "generate_dependencies env prop full f s1 = (Inr ds, u)" "?go (?new ds) u = (Inr res, t)"
        using s1(2) by (auto simp: run_simps)
      have "grows env s u" using g1 lookup_grows [OF lookup_generate u(1)] grows_trans by blast
      then have "vetted env u g" if "g \<in> set (f # processed)" for g
        using that vetted_generate [OF u(1)] vetted_grows Suc.prems(2) by auto
      from Suc.IH [OF u(2) this] show ?thesis by (auto simp: Cons funion_def)
    qed
  qed
qed

lemma vetted_update_closure:
  assumes "update_possible_closure env prop expl fs s = (Inr gs, t)" "distinct (map fmri_key fs)"
  shows "\<forall>f \<in> set gs. vetted env t f" "distinct (map fmri_key gs)"
proof -
  obtain n res where r: "dependency_closure env prop False expl n (fdedup fs) [] s = (Inr res, t)"
    "gs = dotrim_list (funion fs res) t"
    using assms(1) by (auto simp: update_possible_closure_def generate_dependency_closure_def run_simps)
  note v = vetted_closure [OF r(1)]
  show "\<forall>f \<in> set gs. vetted env t f"
  proof
    fix f assume "f \<in> set gs"
    then have "f \<in> set (funion fs res)" by (auto simp: r(2) dotrim_list_def)
    then have "fmri_key f \<in> fmri_key ` set fs \<union> fmri_key ` set res" using keys_funion by blast
    also have "\<dots> = fmri_key ` set (fdedup fs) \<union> fmri_key ` set res" by (simp only: keys_fdedup)
    also have "\<dots> \<subseteq> fmri_key ` set res" using v by (simp del: keys_fdedup add: image_mono)
    finally obtain g where g: "g \<in> set res" "fmri_key f = fmri_key g" by auto
    have "vetted env t g" using v g(1) by auto
    then show "vetted env t f" by (simp only: vetted_key [OF g(2)])
  qed
  show "distinct (map fmri_key gs)"
    using distinct_funion [OF assms(2)] by (simp add: r(2) dotrim_list_def distinct_map_filter)
qed

section \<open>The downgrades that are found\<close>

lemma set_dput: "set (dput k v d) \<subseteq> insert (k, v) (set d)"
  unfolding dput_def by (induction d) auto

lemma dget_mem: "dget d k = Some v \<Longrightarrow> (k, v) \<in> set d"
  unfolding dget_def by (rule map_of_SomeD)

lemma incorp_fold:
  "\<forall>(n, m, nm) \<in> set (fold (\<lambda>d. incorp_add (f_name (pd_fmri d)) (pd_m d) (pd_nm d)) ds acc).
     set m \<subseteq> (\<Union>(n, m, nm) \<in> set acc. set m) \<union> (\<Union>d \<in> set ds. set (pd_m d))"
proof (induction ds arbitrary: acc)
  case (Cons d ds)
  let ?acc = "incorp_add (f_name (pd_fmri d)) (pd_m d) (pd_nm d) acc"
  have "set m \<subseteq> (\<Union>(n, m, nm) \<in> set acc. set m) \<union> set (pd_m d)" if "(n, m, nm) \<in> set ?acc" for n m nm
  proof (cases "(n, m, nm) \<in> set acc")
    case False
    then have "(m, nm) = (case dget acc (f_name (pd_fmri d)) of None \<Rightarrow> (pd_m d, pd_nm d)
        | Some (m0, nm0) \<Rightarrow> (finter m0 (pd_m d), funion nm0 (pd_nm d)))"
      using that subsetD [OF set_dput] by (fastforce simp: incorp_add_def)
    then show ?thesis
      by (auto simp: finter_def split: option.splits dest!: dget_mem)
  qed auto
  then have "(\<Union>(n, m, nm) \<in> set ?acc. set m) \<subseteq> (\<Union>(n, m, nm) \<in> set acc. set m) \<union> set (pd_m d)"
    by (fastforce simp: split: prod.splits)
  with Cons [of ?acc] show ?case by (fastforce split: prod.splits)
qed auto

lemma finds_nonmatch:
  "finds ys (get_incorp_nonmatch_dict env f) (\<lambda>d. concat (map (\<lambda>(n, m, nm). m) d) @ ys)"
  unfolding get_incorp_nonmatch_dict_def
proof (rule finds_mthen [OF finds_lookup [OF lookup_actions(1)]],
    rule finds_mthen [OF finds_meach [where g = pd_m]])
  show "finds ys (parse_dependency env [] False False x f) pd_m" for x
    by (rule finds_mono [OF finds_parse]) auto
  show "finds (concat (map pd_m ds) @ ys)
      (mret (fold (\<lambda>d. incorp_add (f_name (pd_fmri d)) (pd_m d) (pd_nm d)) ds []))
      (\<lambda>d. concat (map (\<lambda>(n, m, nm). m) d) @ ys)" for ds
    by (rule finds_mret) (use incorp_fold [of ds "[]"] in \<open>fastforce split: prod.splits\<close>)
qed

lemma dg_cached_mem: "dg_cached s f = Some ds \<Longrightarrow> ds \<in> snd ` set (s_dg_cache s)"
  by (auto simp: dg_cached_def find_Some_iff image_iff) (metis nth_mem snd_conv)

lemma tidy_cached: "tidy ys s \<Longrightarrow> tidy (case dg_cached s f of None \<Rightarrow> [] | Some ds \<Rightarrow> ds) s"
proof (cases "dg_cached s f")
  case (Some ds)
  assume "tidy ys s"
  then show ?thesis using dg_cached_mem [OF Some] by (auto simp: tidy_def tidy_records_def Some)
qed (simp add: tidy_def)

lemma finds_cached:
  "finds ys (mget (\<lambda>s. dg_cached s f)) (\<lambda>c. (case c of None \<Rightarrow> [] | Some ds \<Rightarrow> ds) @ ys)"
proof (rule findsI)
  fix xs s a s' assume s: "tidy ys s" "tidy xs s" "mget (\<lambda>s. dg_cached s f) s = (Inr a, s')"
  then show "tidy ((case a of None \<Rightarrow> [] | Some ds \<Rightarrow> ds) @ ys) s' \<and> tidy xs s'"
    using tidy_cached [OF s(1), of f] by (auto simp: run_simps)
qed

lemma tidy_recorded:
  assumes "tidy xs s" "tidy gs s"
  shows "tidy xs (s\<lparr>s_dg_cache := (f, gs) # s_dg_cache s\<rparr>)" "tidy xs (s\<lparr>s_downgrades := gs\<rparr>)"
  using assms by (simp_all add: tidy_def tidy_records_def image_subset_iff ball_Un)

lemma finds_dg_add: "set ds \<subseteq> set ys \<Longrightarrow> finds ys (mmod (dg_add f ds)) (\<lambda>_. ys)"
proof (rule findsI)
  fix xs s a s' assume s: "set ds \<subseteq> set ys" "tidy ys s" "tidy xs s" "mmod (dg_add f ds) s = (Inr a, s')"
  let ?old = "case dg_cached s f of None \<Rightarrow> [] | Some c \<Rightarrow> c"
  have "tidy ?old s" by (rule tidy_cached [OF s(2)])
  then have "tidy (?old @ ds) s" using tidy_mono [OF s(2,1)] by simp
  then have "tidy (funion ?old ds) s" by (rule tidy_mono) (simp only: set_append set_funion)
  then show "tidy ys s' \<and> tidy xs s'"
    using s(2-4) by (auto simp: run_simps dg_add_def intro: tidy_recorded(1))
qed

lemma finds_downgrade_step:
  assumes nested: "\<And>df ys. finds ys (nested df) (\<lambda>ds. ds @ ys)" and df: "df \<in> set ys"
  shows "finds ys (downgrade_step env holds relax nested f inst df) (\<lambda>ds. ds @ ys)"
proof -
  have own: "finds ys (if b then mret [] else mthen (mmod (dg_add f [df])) (\<lambda>_. mret [df])) (\<lambda>own. own @ ys)" for b
    using df by (intro finds_cases finds_mthen [OF finds_dg_add] finds_mret) auto
  have more': "finds (own @ ys) (if relax then mret [] else nested df) (\<lambda>m. m @ own @ ys)" for own
    by (intro finds_cases finds_mret nested) simp
  have held: "finds ys (mlift r) (\<lambda>_. ys)" for r :: "solver_exn + bool" by (rule finds_mlift)
  show ?thesis unfolding downgrade_step_def Let_def
    by (intro finds_cases finds_mthen [OF finds_mget [where h = "\<lambda>_. ys"]]
        finds_mthen [OF finds_lookup [OF lookup_actions(2)]] finds_mthen [OF held] finds_mthen [OF own]
        finds_mthen [OF more'] finds_mret) (use set_funion in auto)
qed

lemma finds_older_incorp: "finds ys (older_incorp_pkgs env holds relax n f) (\<lambda>ds. ds @ ys)"
proof (induction n arbitrary: f ys)
  case 0
  show ?case unfolding older_incorp_pkgs.simps
    by (intro finds_mthen [OF finds_cached] finds_mret) (simp split: option.split)
next
  case (Suc n)
  have body: "finds ys (older_incorp_body env holds relax (older_incorp_pkgs env holds relax n) f) (\<lambda>ds. ds @ ys)"
    unfolding older_incorp_body_def
  proof (rule finds_mthen [OF finds_dg_add], simp, rule finds_mthen [OF finds_nonmatch])
    fix d :: "(fmri list \<times> fmri list) dict"
    let ?zs = "concat (map (\<lambda>(n, m, nm). m) d) @ ys"
    have step: "finds ?zs (case x of (name, matchdg, nm) \<Rightarrow> case dget (e_installed env) name of
           None \<Rightarrow> mret []
         | Some inst \<Rightarrow>
             if matchdg = [] \<or> fin inst matchdg then mret []
             else mthen (meach (downgrade_step env holds relax (older_incorp_pkgs env holds relax n) f inst) matchdg)
                    (\<lambda>dss. mret (concat dss))) (\<lambda>ds. ds)" if x: "x \<in> set d" for x
    proof -
      obtain name m nm where [simp]: "x = (name, m, nm)" by (metis prod_cases3)
      have "finds ?zs (downgrade_step env holds relax (older_incorp_pkgs env holds relax n) f inst df) (\<lambda>ds. ds)"
        if "df \<in> set m" for inst df
        by (rule finds_mono [OF finds_downgrade_step [where ys = ?zs, OF Suc]]) (use x that in auto)
      then show ?thesis
        by (auto intro!: finds_cases finds_mret finds_mthen [OF finds_meach [where g = "\<lambda>ds. ds"]] split: option.split)
    qed
    show "finds ?zs (mthen (meach (\<lambda>(name, matchdg, _). case dget (e_installed env) name of
           None \<Rightarrow> mret []
         | Some inst \<Rightarrow>
             if matchdg = [] \<or> fin inst matchdg then mret []
             else mthen (meach (downgrade_step env holds relax (older_incorp_pkgs env holds relax n) f inst) matchdg)
                    (\<lambda>dss. mret (concat dss))) d) (\<lambda>dss. mret (fdedup (concat dss)))) (\<lambda>ds. ds @ ys)"
      by (rule finds_mthen [OF finds_meach [OF step]], assumption, rule finds_mret) (use set_fdedup in fastforce)
  qed
  have "finds ((case c of None \<Rightarrow> [] | Some ds \<Rightarrow> ds) @ ys) (case c of Some ds \<Rightarrow> mret ds
      | None \<Rightarrow> older_incorp_body env holds relax (older_incorp_pkgs env holds relax n) f) (\<lambda>ds. ds @ ys)" for c
    by (cases c) (simp_all add: body finds_mret)
  then show ?case unfolding older_incorp_pkgs.simps by (rule finds_mthen [OF finds_cached])
qed

lemma finds_downgrades: "finds ys (allow_incorp_downgrades env relax f) (\<lambda>ds. ds @ ys)"
  unfolding allow_incorp_downgrades_def
  by (intro finds_mthen [OF finds_lookup [OF lookup_actions(2)]] finds_mthen [OF finds_mlift] finds_older_incorp)

section \<open>The candidates\<close>

lemma finds_set_downgrades: "finds ds (mmod (\<lambda>s. s\<lparr>s_downgrades := funion (s_downgrades s) ds\<rparr>)) (\<lambda>_. ds)"
proof (rule findsI)
  fix xs s a s' assume s: "tidy ds s" "tidy xs s"
    "mmod (\<lambda>s. s\<lparr>s_downgrades := funion (s_downgrades s) ds\<rparr>) s = (Inr a, s')"
  have "tidy (s_downgrades s) s" using s(1) by (auto simp: tidy_def tidy_records_def)
  then have "tidy (s_downgrades s @ ds) s" using s(1) by simp
  then have "tidy (funion (s_downgrades s) ds) s" by (rule tidy_mono) (simp only: set_append set_funion)
  then show "tidy ds s' \<and> tidy xs s'" using s by (auto simp: run_simps intro: tidy_recorded(2))
qed

lemma finds_expand: "finds ys (expand_proposed env prop) (\<lambda>_. ys)"
proof -
  have "finds ys (mthen (allow_incorp_downgrades env False f) (\<lambda>ds.
       mthen (mmod (\<lambda>s. s\<lparr>s_downgrades := funion (s_downgrades s) ds\<rparr>)) (\<lambda>_.
       mthen (is_explicit_install env f) (\<lambda>ex.
       mwhen ex (mmod (\<lambda>s. s\<lparr>s_expl := dput n (proposed_of (s_expl s) n @ [f]) (s_expl s)\<rparr>)))))) (\<lambda>_. ys)" for n f
  proof (rule finds_mthen [OF finds_downgrades])
    fix ds
    have expl: "prepares env (mthen (is_explicit_install env f) (\<lambda>ex.
       mwhen ex (mmod (\<lambda>s. s\<lparr>s_expl := dput n (proposed_of (s_expl s) n @ [f]) (s_expl s)\<rparr>))))"
      by (intro prepare_intros prepares_mmod) simp
    show "finds (ds @ ys) (mthen (mmod (\<lambda>s. s\<lparr>s_downgrades := funion (s_downgrades s) ds\<rparr>)) (\<lambda>_.
       mthen (is_explicit_install env f) (\<lambda>ex.
       mwhen ex (mmod (\<lambda>s. s\<lparr>s_expl := dput n (proposed_of (s_expl s) n @ [f]) (s_expl s)\<rparr>))))) (\<lambda>_. ys)"
    proof (rule finds_mthen)
      show "finds (ds @ ys) (mmod (\<lambda>s. s\<lparr>s_downgrades := funion (s_downgrades s) ds\<rparr>)) (\<lambda>_. ys)"
        by (rule finds_mono [OF finds_more [where zs = "ds @ ys", OF finds_set_downgrades]]) auto
      show "finds ys (mthen (is_explicit_install env f) (\<lambda>ex.
       mwhen ex (mmod (\<lambda>s. s\<lparr>s_expl := dput n (proposed_of (s_expl s) n @ [f]) (s_expl s)\<rparr>)))) (\<lambda>_. ys)"
        by (rule finds_prepares [OF expl])
    qed
  qed
  then show ?thesis unfolding expand_proposed_def by (intro finds_mloop) (auto intro: finds_mloop split: prod.split)
qed

lemma finds_relax: "finds ys (relax_downgrades env fs) (\<lambda>_. ys)"
proof -
  have "finds ys (mthen (allow_incorp_downgrades env True f) (\<lambda>ds.
       mmod (\<lambda>s. s\<lparr>s_downgrades := funion (s_downgrades s) ds\<rparr>))) (\<lambda>_. ys)" for f
    by (rule finds_mthen [OF finds_downgrades],
        rule finds_mono [OF finds_more [where zs = "ds @ ys" for ds, OF finds_set_downgrades]]) auto
  then show ?thesis unfolding relax_downgrades_def by (rule finds_mloop)
qed

definition unproposed :: "fmri list dict \<Rightarrow> fmri list \<Rightarrow> fmri list" where
  "unproposed prop fs = filter (\<lambda>f. f \<notin> set (concat (map snd prop))) fs"

lemma initial_possible_found:
  assumes run: "initial_possible env args prop s = (Inr fs, t)" and s: "\<not> s_trimdone s" "s_dg_cache s = []"
  shows "tidy (unproposed prop fs) t" "distinct (map fmri_key fs)"
proof -
  let ?each = "meach (\<lambda>f. mthen (comb_newer env f True True) (\<lambda>(m, _). mret (funion m [f])))"
  let ?all = "\<lambda>fss. fdedup (concat fss @ concat (map snd prop))"
  let ?last = "\<lambda>fss. mthen (mmod (\<lambda>s. s\<lparr>s_expl := []\<rparr>)) (\<lambda>_. mthen (expand_proposed env prop) (\<lambda>_.
     mthen (mwhen (prop = [] \<and> i_relax_all args) (relax_downgrades env (?all fss))) (\<lambda>_.
     mget (\<lambda>s. funion (?all fss) (s_downgrades s)))))"
  obtain insts where r: "mthen (?each insts) ?last (s\<lparr>s_downgrades := []\<rparr>) = (Inr fs, t)"
    using run by (auto simp: initial_possible_def run_simps Let_def)
  have "finds [] (mthen (comb_newer env f True True) (\<lambda>(m, _). mret (funion m [f]))) (\<lambda>fs. fs)" for f
    by (rule finds_mthen [OF finds_comb_newer], rule finds_case_prod, rule finds_mret)
      (use set_funion in fastforce)
  then have e: "finds [] (?each insts) (\<lambda>fss. concat (map (\<lambda>fs. fs) fss) @ [])" by (rule finds_meach)
  have expl: "prepares env (mmod (\<lambda>s. s\<lparr>s_expl := []\<rparr>))" by (rule prepares_mmod) simp
  have down: "finds zs (mget (\<lambda>s. funion fs (s_downgrades s))) (unproposed prop)"
    if "set (unproposed prop fs) \<subseteq> set zs" for zs fs
  proof (rule findsI)
    fix xs s a s' assume s: "tidy zs s" "tidy xs s" "mget (\<lambda>s. funion fs (s_downgrades s)) s = (Inr a, s')"
    have "tidy (s_downgrades s) s" using s(1) by (auto simp: tidy_def tidy_records_def)
    then have "tidy (zs @ s_downgrades s) s" using s(1) by simp
    then have "tidy (unproposed prop (funion fs (s_downgrades s))) s"
      by (rule tidy_mono) (use that set_funion in \<open>fastforce simp: unproposed_def\<close>)
    then show "tidy (unproposed prop a) s' \<and> tidy xs s'" using s by (auto simp: run_simps)
  qed
  have "finds (concat fss) (?last fss) (unproposed prop)" for fss
    by (intro finds_mthen [OF finds_prepares [OF expl]] finds_mthen [OF finds_expand]
        finds_mthen [OF finds_mwhen [OF finds_relax]] down)
      (use set_fdedup in \<open>fastforce simp: unproposed_def\<close>)+
  then have f: "finds [] (mthen (?each insts) ?last) (unproposed prop)"
    by (intro finds_mthen [OF e]) simp
  have "tidy [] (s\<lparr>s_downgrades := []\<rparr>)" using s by (simp add: tidy_def tidy_records_def)
  from findsD [OF f this this r] show "tidy (unproposed prop fs) t" by blast
  have "\<exists>gs hs. fs = funion (fdedup gs) hs" using r by (simp add: run_simps) metis
  then show "distinct (map fmri_key fs)" using distinct_funion [OF distinct_fdedup] by blast
qed

lemma mfilter_distinct: "mfilter p xs s = (Inr ys, t) \<Longrightarrow> distinct (map g xs) \<Longrightarrow> distinct (map g ys)"
proof (induction xs arbitrary: ys s)
  case (Cons x xs)
  then obtain b u zs where "mfilter p xs u = (Inr zs, t)" "ys = (if b then x # zs else zs)"
    by (auto simp: run_simps)
  with Cons mfilter_subset [of p xs u zs t] show ?case by (fastforce split: if_splits)
qed (simp add: run_simps)

lemma catalog_marks: "get_catalog_fmris env n s = (r, t) \<Longrightarrow> n \<in> set (s_pub_trim t)"
proof -
  assume run: "get_catalog_fmris env n s = (r, t)"
  obtain fs r where "filter_publishers env n s =
      (if n \<in> set (s_pub_trim s) then s else add_trims fs r [] (mark_pub_trimmed n s))"
    by (rule filter_publishers_cases)
  then have "n \<in> set (s_pub_trim (filter_publishers env n s))" by (simp add: mark_pub_trimmed_def)
  then show ?thesis using run by (simp add: get_catalog_fmris_def mthen_def run_simps)
qed

lemma trim_others_marks:
  "trim_others env args prop s = (Inr (), t) \<Longrightarrow> fst ` set prop \<subseteq> set (s_pub_trim t)"
  unfolding trim_others_def
proof (induction "prop" arbitrary: s)
  case (Cons x rest)
  let ?f = "\<lambda>(n, fs). mthen (get_catalog_fmris env n) (\<lambda>all.
       mthen (trim (fdiff all fs) TrimProposedVer []) (\<lambda>_.
       trim_recursive_incorps env TrimProposedInc (i_budget args) [fs] []))"
  obtain n fs where [simp]: "x = (n, fs)" by fastforce
  obtain u where u: "?f x s = (Inr (), u)" "mloop ?f rest u = (Inr (), t)"
    using Cons.prems by (auto simp: run_simps)
  obtain all v where v: "get_catalog_fmris env n s = (Inr all, v)"
    "mthen (trim (fdiff all fs) TrimProposedVer []) (\<lambda>_.
       trim_recursive_incorps env TrimProposedInc (i_budget args) [fs] []) v = (Inr (), u)"
    using u(1) by (auto simp: run_simps)
  have "lookup env (mthen (trim (fdiff all fs) TrimProposedVer []) (\<lambda>_.
       trim_recursive_incorps env TrimProposedInc (i_budget args) [fs] []))" by (intro lookup_intros)
  from lookup_grows [OF this v(2)] have "grows env v u" .
  moreover have "lookup env (mloop ?f rest)" by (intro lookup_intros)
  from lookup_grows [OF this u(2)] have "grows env u t" .
  ultimately have "n \<in> set (s_pub_trim t)" using catalog_marks [OF v(1)] by (auto simp: grows_def)
  then show ?case using Cons.IH [OF u(2)] by simp
qed simp

section \<open>What the clauses start from\<close>

definition kept :: "senv \<Rightarrow> (sstate \<Rightarrow> bool) \<Rightarrow> bool" where
  "kept env P \<longleftrightarrow> (\<forall>s t. P s \<longrightarrow> progress env s t \<longrightarrow> P t)"

lemma yields_mthen: "yields P m R \<Longrightarrow> (\<And>a. yields (R a) (k a) Q) \<Longrightarrow> yields P (mthen m k) Q"
  unfolding yields_def by (simp add: run_simps) blast

lemma yields_prepares:
  assumes "kept env P" "prepares env m" "\<And>a. yields P (k a) Q"
  shows "yields P (mthen m k) Q"
proof (rule yields_mthen)
  have "P t" if "P s" "m s = (Inr a, t)" for s a t
    using assms(1) movesD [where R = "progress env", OF assms(2) that(2)] that(1) by (auto simp: kept_def)
  then show "yields P m (\<lambda>_. P)" by (auto simp: yields_def)
qed (rule assms(3))

text \<open>Before the candidates are collected, then while they may contain proposed packages, then after.\<close>

definition begun :: "senv \<Rightarrow> sstate \<Rightarrow> sstate \<Rightarrow> bool" where
  "begun env s0 s \<longleftrightarrow> grows env s0 s \<and> \<not> s_trimdone s \<and> s_dg_cache s = [] \<and> s_downgrades s = []"

definition collected :: "senv \<Rightarrow> sstate \<Rightarrow> fmri list dict \<Rightarrow> fmri list \<Rightarrow> sstate \<Rightarrow> bool" where
  "collected env s0 ps fs s \<longleftrightarrow>
     grows env s0 s \<and> tidy (unproposed ps fs) s \<and> distinct (map fmri_key fs)"

definition closed :: "senv \<Rightarrow> sstate \<Rightarrow> fmri list \<Rightarrow> sstate \<Rightarrow> bool" where
  "closed env s0 fs s \<longleftrightarrow> collected env s0 [] fs s \<and> (\<forall>f \<in> set fs. vetted env s f)"

lemma kept_begun: "kept env (begun env s0)"
  by (auto simp: kept_def begun_def progress_def grows_def)

lemma kept_collected: "kept env (collected env s0 ps fs)"
proof -
  have "tidy xs t" if "tidy xs s" "progress env s t" for xs s t
    by (rule tidy_grow [OF that(1)]) (use that(2) in \<open>auto simp: progress_def grows_def\<close>)
  then show ?thesis
    unfolding kept_def collected_def using grows_trans progress_grows by blast
qed

lemma kept_closed: "kept env (closed env s0 fs)"
  unfolding kept_def closed_def using kept_collected vetted_grows progress_grows unfolding kept_def by blast

definition shrunk :: "fmri list dict \<Rightarrow> fmri list dict \<Rightarrow> bool" where
  "shrunk ps qs \<longleftrightarrow> list_all2 (\<lambda>p q. fst q = fst p \<and> set (snd q) \<subseteq> set (snd p)) ps qs"

lemma shrunk_trans: "shrunk ps qs \<Longrightarrow> shrunk qs rs \<Longrightarrow> shrunk ps rs"
  unfolding shrunk_def by (rule list_all2_trans [where ?P1.0 = "\<lambda>p q. fst q = fst p \<and> set (snd q) \<subseteq> set (snd p)"]) auto

lemma yields_trim_proposed:
  assumes "\<And>qs. shrunk ps qs \<Longrightarrow> yields P (k qs) Q"
  shows "yields P (mthen (trim_proposed ps) k) Q"
proof (rule yields_mthen [where R = "\<lambda>qs s. P s \<and> shrunk ps qs"])
  show "yields P (trim_proposed ps) (\<lambda>qs s. P s \<and> shrunk ps qs)"
    by (auto simp: yields_def trim_proposed_def run_simps shrunk_def list_all2_conv_all_nth dotrim_list_def
        split: if_splits prod.splits)
  show "yields (\<lambda>s. P s \<and> shrunk ps qs) (k qs) Q" for qs
    using assms [of qs] by (auto simp: yields_def)
qed

lemma yields_pure: "(\<And>s a s'. P s \<Longrightarrow> m s = (Inr a, s') \<Longrightarrow> Q a s') \<Longrightarrow> yields P m Q"
  by (auto simp: yields_def)

text \<open>The proposed packages are named as they should be.\<close>

definition well_named :: "fmri list dict \<Rightarrow> bool" where
  "well_named ps \<longleftrightarrow> (\<forall>(n, fs) \<in> set ps. \<forall>f \<in> set fs. f_name f = n)"

lemma well_named_triggered: "well_named ps \<Longrightarrow> well_named (with_triggered env ps)"
proof -
  have "well_named ps \<Longrightarrow> well_named (fold (\<lambda>f d. dput (f_name f) (proposed_of d (f_name f) @ [f]) d) fs ps)" for fs
  proof (induction fs arbitrary: ps)
    case (Cons f fs)
    have "well_named (dput (f_name f) (proposed_of ps (f_name f) @ [f]) ps)"
      unfolding well_named_def
    proof (intro ballI, clarify)
      fix n gs g assume g: "(n, gs) \<in> set (dput (f_name f) (proposed_of ps (f_name f) @ [f]) ps)" "g \<in> set gs"
      then consider "(n, gs) \<in> set ps" | "n = f_name f" "gs = proposed_of ps (f_name f) @ [f]"
        using subsetD [OF set_dput] by fastforce
      then show "f_name g = n"
      proof cases
        case 2
        then show ?thesis using g(2) Cons.prems
          by (auto simp: proposed_of_def well_named_def split: option.splits dest!: dget_mem)
      qed (use g(2) Cons.prems in \<open>auto simp: well_named_def\<close>)
    qed
    then show ?case by (simp add: Cons.IH)
  qed simp
  then show "well_named ps \<Longrightarrow> well_named (with_triggered env ps)" by (simp add: with_triggered_def)
qed

lemma collected_marks:
  assumes "collected env s0 ps fs s" "well_named ps" "fst ` set ps \<subseteq> set (s_pub_trim s)"
  shows "collected env s0 [] fs s"
proof -
  have "f_name f \<in> set (s_pub_trim s)" if "f \<in> set fs" for f
  proof (cases "f \<in> set (concat (map snd ps))")
    case True
    then obtain n gs where "(n, gs) \<in> set ps" "f \<in> set gs" by auto
    then show ?thesis using assms(2,3) by (force simp: well_named_def)
  next
    case False
    then have "f \<in> set (unproposed ps fs)" using that by (simp add: unproposed_def)
    then show ?thesis using assms(1) by (auto simp: collected_def tidy_def)
  qed
  then show ?thesis using assms(1) by (auto simp: collected_def tidy_def unproposed_def)
qed

lemma unproposed_Nil [simp]: "unproposed [] fs = fs"
  by (simp add: unproposed_def)

lemma yields_closure:
  assumes "\<And>gs. yields (closed env s0 gs) (k gs) Q"
  shows "yields (collected env s0 [] fs) (mthen (update_possible_closure env ps expl fs) k) Q"
proof (rule yields_mthen [OF yields_pure assms])
  fix s gs t assume s: "collected env s0 [] fs s" "update_possible_closure env ps expl fs s = (Inr gs, t)"
  have c: "tidy fs s" "distinct (map fmri_key fs)" using s(1) by (auto simp: collected_def)
  have "tidy gs t" using findsD [OF finds_update_closure [OF subset_refl] c(1) c(1) s(2)] by simp
  moreover have "grows env s t" by (rule lookup_grows [OF lookup_update_closure s(2)])
  ultimately show "closed env s0 gs t"
    using vetted_update_closure [OF s(2) c(2)] s(1) grows_trans [of env s0 s t]
    by (auto simp: closed_def collected_def)
qed

lemma yields_mget: "yields P (mget f) Q" if "\<And>s. P s \<Longrightarrow> Q (f s) s"
  using that by (auto simp: yields_def run_simps)

lemma yields_start:
  "yields (begun env s0) (mthen (initial_possible env args ps) k) Q"
  if "\<And>fs. yields (collected env s0 ps fs) (k fs) Q"
proof (rule yields_mthen [OF yields_pure that])
  fix s fs t assume s: "begun env s0 s" "initial_possible env args ps s = (Inr fs, t)"
  have "grows env s t" by (rule movesD [where R = "grows env", OF growing_initial s(2)])
  then show "collected env s0 ps fs t"
    using initial_possible_found [OF s(2)] s(1) grows_trans by (auto simp: collected_def begun_def)
qed

lemma yields_others:
  "yields (collected env s0 ps fs) (mthen (trim_others env args ps) k) Q"
  if "well_named ps" "\<And>a. yields (collected env s0 [] fs) (k a) Q"
proof (rule yields_mthen [OF yields_pure that(2)])
  fix s a t assume s: "collected env s0 ps fs s" "trim_others env args ps s = (Inr a, t)"
  have "progress env s t"
    by (rule movesD [where R = "progress env" and m = "trim_others env args ps", OF _ s(2)]) (rule prepare_intros)
  then have "collected env s0 ps fs t" using kept_collected s(1) unfolding kept_def by blast
  then show "collected env s0 [] fs t" using collected_marks that(1) trim_others_marks s(2) by auto
qed

lemma yields_parents:
  "yields (collected env s0 [] fs) (mthen (drop_nonmatching_parents env ignore fs) k) Q"
  if "\<And>gs. yields (collected env s0 [] gs) (k gs) Q"
proof (rule yields_mthen [OF yields_pure that])
  fix s gs t assume s: "collected env s0 [] fs s" "drop_nonmatching_parents env ignore fs s = (Inr gs, t)"
  have "progress env s t"
    by (rule movesD [where R = "progress env" and m = "drop_nonmatching_parents env ignore fs", OF _ s(2)])
      (rule prepare_intros)
  then have c: "collected env s0 [] fs t" using kept_collected s(1) unfolding kept_def by blast
  have d: "distinct (map fmri_key fs)" using c by (simp add: collected_def)
  have "set gs \<subseteq> set fs" "distinct (map fmri_key gs)"
    using mfilter_subset [OF s(2) [unfolded drop_nonmatching_parents_def]]
      mfilter_distinct [OF s(2) [unfolded drop_nonmatching_parents_def] d] by blast+
  then show "collected env s0 [] gs t"
    using c by (auto simp: collected_def elim: tidy_mono)
qed

lemma closed_dotrim: "closed env s0 fs s \<Longrightarrow>
    closed env s0 (dotrim_list fs s) s \<and> (\<forall>f \<in> set (dotrim_list fs s). \<not> is_trimmed s f)"
  by (auto simp: closed_def collected_def dotrim_list_def distinct_map_filter elim: tidy_mono)

definition set_up :: "senv \<Rightarrow> sstate \<Rightarrow> fmri list \<Rightarrow> sstate \<Rightarrow> bool" where
  "set_up env s0 fs s \<longleftrightarrow> closed env s0 fs s \<and> (\<forall>f \<in> set fs. \<not> is_trimmed s f)"

lemma yields_dotrim:
  "yields (closed env s0 fs) (mthen (mget (dotrim_list fs)) k) Q" if "\<And>gs. yields (set_up env s0 gs) (k gs) Q"
  by (rule yields_mthen [where R = "set_up env s0"], rule yields_mget, simp add: set_up_def closed_dotrim, rule that)

text \<open>What the setup of an installation does after the names were rejected.\<close>

lemma install_setup_tail:
  assumes names: "well_named ps"
  shows "\<exists>rest. install_setup env args ps =
      mthen (change_variants env (i_new_variants args)) (\<lambda>_.
      mthen (fix_publishers env (with_triggered env ps)) (\<lambda>_.
      mthen (set_removed_and_required env (remdups (i_reject args @ map f_name (e_trig_uninstall env)))
        (map fst (with_triggered env ps))) (\<lambda>_. rest)))
    \<and> (\<forall>s0. yields (begun env s0) rest (\<lambda>(qs, fs) s. set_up env s0 fs s \<and> shrunk (with_triggered env ps) qs))"
proof -
  note named = well_named_triggered [OF names, of env]
  have inc: "prepares env (mmod (\<lambda>s. s\<lparr>s_inc_list := incs\<rparr>))" for incs by (rule prepares_mmod) simp
  have vars: "prepares env (mloop (\<lambda>(n, fs). mloop (\<lambda>f. mthen (trim_nonmatching_variants env f) (\<lambda>_. mret ())) fs) qs)" for qs
    by (intro prepare_intros)
  show ?thesis
    unfolding install_setup_def Let_def case_prod_beta'
    apply (rule exI, rule conjI, rule refl, rule allI)
    apply (rule yields_prepares [OF kept_begun], rule prepare_intros)
    apply (rule yields_prepares [OF kept_begun], rule prepare_intros)
    apply (rule yields_prepares [OF kept_begun], rule inc)
    apply (rule yields_start)
    apply (rule yields_prepares [OF kept_collected], rule prepare_intros)
    apply (rule yields_others [OF named])
    apply (rule yields_parents)
    apply (rule yields_prepares [OF kept_collected], rule prepare_intros)
    apply (rule yields_prepares [OF kept_collected], rule prepare_intros)
    apply (rule yields_prepares [OF kept_collected], rule prepare_intros)
    apply (rule yields_prepares [OF kept_collected], rule vars [unfolded case_prod_beta'])
    apply (rule yields_trim_proposed)
    apply (rule yields_prepares [OF kept_collected], rule prepare_intros)
    apply (rule yields_closure)
    apply (rule yields_prepares [OF kept_closed], rule prepare_intros)
    apply (rule yields_dotrim)
    apply (rule yields_trim_proposed)
    apply (auto simp: yields_def run_simps intro: shrunk_trans)
    done
qed

lemma install_setup_yields:
  assumes names: "well_named ps"
  shows "yields (begun env s0) (install_setup env args ps) (\<lambda>(qs, fs) s.
    set_up env s0 fs s \<and> shrunk (with_triggered env ps) qs)"
proof -
  obtain rest where rest: "install_setup env args ps =
      mthen (change_variants env (i_new_variants args)) (\<lambda>_.
      mthen (fix_publishers env (with_triggered env ps)) (\<lambda>_.
      mthen (set_removed_and_required env (remdups (i_reject args @ map f_name (e_trig_uninstall env)))
        (map fst (with_triggered env ps))) (\<lambda>_. rest)))"
    "yields (begun env s0) rest (\<lambda>(qs, fs) s. set_up env s0 fs s \<and> shrunk (with_triggered env ps) qs)"
    using install_setup_tail [OF names] by blast
  show ?thesis
    unfolding rest(1)
    apply (rule yields_prepares [OF kept_begun], rule prepare_intros)
    apply (rule yields_prepares [OF kept_begun], rule prepare_intros)
    apply (rule yields_prepares [OF kept_begun], rule prepare_intros)
    apply (rule rest(2))
    done
qed

section \<open>The clauses are made in a settled state\<close>

lemma dget_map_names: "dget (map (\<lambda>n. (n, g n)) ns) n = (if n \<in> set ns then Some (g n) else None)"
  unfolding dget_def by (induction ns) auto

lemma settled_assign:
  assumes "set_up env s0 fs s" "fstate_ok env s0"
  shows "settled env (assign_fmri_ids fs s)"
proof -
  let ?named = "\<lambda>n. sort_key fmri_key (filter (\<lambda>f. f_name f = n) fs)"
  let ?ids = "concat (map (\<lambda>n. rev (?named n)) (sort (remdups (map f_name fs))))"
  have c: "grows env s0 s" "tidy fs s" "distinct (map fmri_key fs)" "\<forall>f \<in> set fs. good_entry env f \<and> \<not> is_trimmed s f"
    using assms(1) by (auto simp: set_up_def closed_def collected_def vetted_def)
  define t where "t = assign_fmri_ids fs s"
  have poss: "s_possible t = map (\<lambda>n. (n, ?named n)) (remdups (map f_name fs))"
    by (simp add: t_def assign_fmri_ids_def assign_possible_def Let_def)
  have "map (\<lambda>n. rev (the (dget (s_possible t) n))) (sort (remdups (map f_name fs))) =
      map (\<lambda>n. rev (?named n)) (sort (remdups (map f_name fs)))"
    by (rule map_cong) (simp_all add: poss dget_map_names)
  moreover have "map fst (s_possible t) = remdups (map f_name fs)" by (simp add: poss comp_def)
  moreover have "s_ids t = concat (map (\<lambda>n. rev (the (dget (s_possible t) n))) (sort (map fst (s_possible t))))"
    by (simp add: t_def assign_fmri_ids_def Let_def)
  ultimately have ids: "s_ids t = ?ids" by (simp only:)
  have fields: "s_trimdone t" "s_trim t = s_trim s" "s_pub_trim t = s_pub_trim s" "s_fstate t = s_fstate s"
    by (simp_all add: t_def assign_fmri_ids_def assign_possible_def Let_def)
  have set_ids: "set ?ids = set fs" by auto
  have "distinct (map fmri_key (concat (map (\<lambda>n. rev (?named n)) ns)))" if "distinct ns" for ns
    using that
  proof (induction ns)
    case (Cons n ns)
    have "distinct (map fmri_key (rev (?named n)))"
      using c(3) by (auto simp: distinct_map intro: inj_on_subset)
    moreover have "fmri_key ` set (?named n) \<inter> fmri_key ` set (concat (map (\<lambda>n. rev (?named n)) ns)) = {}"
    proof (rule equals0I)
      fix k assume "k \<in> fmri_key ` set (?named n) \<inter> fmri_key ` set (concat (map (\<lambda>n. rev (?named n)) ns))"
      then obtain x y where "x \<in> set fs" "y \<in> set fs" "f_name x = n" "f_name y \<in> set ns" "fmri_key x = fmri_key y"
        by auto
      moreover have "inj_on fmri_key (set fs)" using c(3) by (simp add: distinct_map)
      ultimately show False using Cons.prems by (metis distinct.simps(2) inj_onD)
    qed
    ultimately show ?case using Cons by auto
  qed simp
  then have dist: "distinct (map fmri_key ?ids)" by simp
  have cat: "set (catalog_fmris env n t) = {f \<in> set fs. f_name f = n}" for n
    by (auto simp: catalog_fmris_def fields(1) poss dget_map_names)
  have "fstate_ok env t" using fields(4) fstate_ok_cong c(1) assms(2) by (metis grows_def)
  moreover have "dict_ok (s_possible t)" by (simp add: poss dict_ok_def comp_def)
  moreover have "?named (f_name f) \<noteq> []" if "f \<in> set fs" for f
  proof -
    have "f \<in> set (?named (f_name f))" using that by simp
    then show ?thesis by (metis empty_iff empty_set)
  qed
  then have "\<forall>(n, gs) \<in> set (s_possible t). gs \<noteq> [] \<and> distinct gs"
    using c(3) by (auto simp: poss distinct_map)
  moreover have "\<not> is_trimmed t f \<longleftrightarrow> \<not> is_trimmed s f" for f by (simp add: is_trimmed_def fields(2))
  ultimately show ?thesis unfolding t_def [symmetric] settled_def ids set_ids cat
    using c fields dist by (auto simp: tidy_def)
qed

end
