(* ===== verification/Solver_Result.thy ===== *)
theory Solver_Result
  imports Solver_Setup
begin

text \<open>
  What the operations return: the clauses of an operation and the searches put together, the packages
  that the plan leaves out, and the runs of \<open>solve_install\<close> and \<open>solve_update_all\<close>.
\<close>

section \<open>The result of a search\<close>

lemma meach_Cons_Inr: "meach f (x # xs) s = (Inr ys, t) \<longleftrightarrow>
    (\<exists>y u zs. f x s = (Inr y, u) \<and> meach f xs u = (Inr zs, t) \<and> ys = y # zs)"
  by (auto simp: run_simps)

lemma settled_avoid [simp]: "settled env (s\<lparr>s_avoid := a\<rparr>) = settled env s"
  by (simp add: settled_def is_trimmed_def fstate_ok_def catalog_fmris_def)

lemma update_solution:
  assumes st: "settled env s" and sol: "set sol \<subseteq> set (s_ids s)"
    and run: "update_solution_set env sol s = (Inr fs, t)"
  shows "set fs = {f \<in> set sol. \<not> obsolete env f}" "fstate_ok env t"
proof -
  have acts: "get_actions env (e_excludes env) False ''depend'' f u = (Inr (dep_actions env f), u)"
    if "f \<in> set sol" for f u
  proof -
    have "good_entry env f" using st sol that by (auto simp: settled_def)
    then show ?thesis by (auto simp: good_entry_def get_actions_def dep_actions_def run_simps)
  qed
  have each: "s1 = s" if "meach (\<lambda>f. mthen (get_actions env (e_excludes env) False ''depend'' f) (\<lambda>acts.
      mlift (g acts))) gs s = (Inr x, s1)" "set gs \<subseteq> set sol" for g :: "action list \<Rightarrow> solver_exn + string list" and gs x s1
    using that
  proof (induction gs arbitrary: x)
    case (Cons f gs)
    then obtain y u zs where u: "mthen (get_actions env (e_excludes env) False ''depend'' f) (\<lambda>acts. mlift (g acts)) s = (Inr y, u)"
      "meach (\<lambda>f. mthen (get_actions env (e_excludes env) False ''depend'' f) (\<lambda>acts. mlift (g acts))) gs u = (Inr zs, s1)"
      unfolding meach_Cons_Inr by blast
    have "u = s" using u(1) acts [of f s] Cons.prems(2) by (simp add: mthen_def run_simps)
    then show ?case using Cons.IH [of zs] Cons.prems(2) u(2) by simp
  qed (simp add: run_simps)
  let ?group = "\<lambda>acts. sbind (smap dep_fmris
       (filter (\<lambda>a. str_attr a ''type'' = ''group'' \<or> str_attr a ''type'' = ''group-any'') acts))
       (\<lambda>fss. Inr (map f_name (concat fss)))"
  let ?rest = "\<lambda>tracked avoided.
     mthen (mmod (\<lambda>s. s\<lparr>s_avoid := remdups (s_avoid s @ filter (\<lambda>n. n \<in> set (s_reject s)) avoided)\<rparr>)) (\<lambda>_.
     mthen (mfilter (fmri_is_obsolete env) sol) (\<lambda>obs.
     mthen (mmod (\<lambda>s. s\<lparr>s_obs := filter (\<lambda>n. n \<in> set tracked) (map f_name obs)\<rparr>)) (\<lambda>_.
     mthen (mmod (\<lambda>s. s\<lparr>s_implicit_avoid :=
         remdups (s_implicit_avoid s @ remove_names (remove_names avoided (s_avoid s)) (s_obs s))\<rparr>)) (\<lambda>_.
     mret (fdiff sol obs)))))"
  obtain nss s1 where m: "meach (\<lambda>f. mthen (get_actions env (e_excludes env) False ''depend'' f) (\<lambda>acts.
      mlift (?group acts))) sol s = (Inr nss, s1)"
    "?rest (remdups (concat nss)) (remove_names (remdups (concat nss)) (map f_name sol)) s1 = (Inr fs, t)"
    using run unfolding update_solution_set_def Let_def mthen_Inr [where m = "meach f xs" for f xs] by blast
  have "s1 = s" using each [OF m(1)] by simp
  have rest: "\<exists>a b c obs u. mfilter (fmri_is_obsolete env) sol (s\<lparr>s_avoid := a\<rparr>) = (Inr obs, u)
      \<and> fs = fdiff sol obs \<and> t = u\<lparr>s_obs := b, s_implicit_avoid := c\<rparr>"
    if "?rest tracked avoided s = (Inr fs, t)" for tracked avoided
    using that by (simp add: run_simps) blast
  obtain a b c obs u where u: "mfilter (fmri_is_obsolete env) sol (s\<lparr>s_avoid := a\<rparr>) = (Inr obs, u)"
    "fs = fdiff sol obs" "t = u\<lparr>s_obs := b, s_implicit_avoid := c\<rparr>"
    using rest [OF m(2) [unfolded \<open>s1 = s\<close>]] by blast
  have st': "settled env (s\<lparr>s_avoid := a\<rparr>)" using st by simp
  have c: "calm env (s\<lparr>s_avoid := a\<rparr>) (mfilter (fmri_is_obsolete env) sol) (\<lambda>ys. ys = filter (obsolete env) sol)"
    by (rule calm_mfilter, rule calm_is_obsolete) (use sol in auto)
  note obs = calmD [OF c st' quiet_refl u(1)]
  have "settled env u" by (rule settled_quiet [OF st' obs(1)])
  then show "fstate_ok env t" by (simp add: u(3) settled_def fstate_ok_def)
  have "inj_on fmri_key (set sol)" using st sol by (auto simp: settled_def distinct_map intro: inj_on_subset)
  then have "fin f obs \<longleftrightarrow> f \<in> set obs" if "f \<in> set sol" for f
    using fin_inj [of "set sol" f obs] that obs(2) by auto
  then show "set fs = {f \<in> set sol. \<not> obsolete env f}" using obs(2) by (auto simp: u(2) set_fdiff)
qed

text \<open>Only packages that say that they are renamed are left out.\<close>

definition renames_ok :: "senv \<Rightarrow> sstate \<Rightarrow> bool" where
  "renames_ok env s \<longleftrightarrow> (\<forall>(f, ob, re) \<in> set (s_fstate s). re \<longrightarrow> good_entry env f \<longrightarrow> marked_renamed env f)"

lemma is_renamed:
  assumes "good_entry env f" "renames_ok env s" "fmri_is_renamed env x f s = (Inr b, t)"
  shows "renames_ok env t" "b \<Longrightarrow> marked_renamed env f"
proof -
  obtain acts where acts: "get_entry_actions env x f = Inr acts" using good_entry_reads [OF assms(1)] by blast
  have "renames_ok env t \<and> (b \<longrightarrow> marked_renamed env f)"
  proof (cases "fstate_of s f")
    case None
    then obtain ob re where r: "says_true (dget (set_values acts) ''pkg.renamed'') = Inr re" "b = re"
      "t = s\<lparr>s_fstate := (f, ob, re) # s_fstate s\<rparr>"
      using assms(3) acts
      by (auto simp: fmri_is_renamed_def fmri_state_def fmri_loadstate_def fstate_of_def run_simps)
    have "re \<longrightarrow> marked_renamed env f" using acts r(1) by (cases re) (auto simp: marked_renamed_def)
    then show ?thesis using assms(2) r by (auto simp: renames_ok_def)
  next
    case (Some p)
    then have t: "t = s" "b = snd p" using assms(3) by (auto simp: fmri_is_renamed_def fmri_state_def run_simps)
    obtain e where e: "find (\<lambda>e. fmri_eq (fst e) f) (s_fstate s) = Some e" "p = snd e"
      using Some by (auto simp: fstate_of_def)
    obtain g where g: "(g, p) \<in> set (s_fstate s)" "fmri_eq g f"
      using find_SomeD [OF e(1)] e(2) by (cases e) auto
    have k: "fmri_key g = fmri_key f" using g(2) by (simp add: fmri_eq_key)
    have "snd p \<Longrightarrow> marked_renamed env g"
      using assms(1,2) g(1) by (cases p) (auto simp: renames_ok_def good_entry_key [OF k])
    then show ?thesis using assms(2) t by (auto simp: marked_renamed_key [OF k])
  qed
  then show "renames_ok env t" "b \<Longrightarrow> marked_renamed env f" by auto
qed

lemma filter_renamed:
  assumes "\<forall>f \<in> set fs. good_entry env f" "renames_ok env s"
    "mfilter (fmri_is_renamed env x) fs s = (Inr gs, t)"
  shows "\<forall>f \<in> set gs. marked_renamed env f"
  using assms
proof (induction fs arbitrary: gs s)
  case (Cons f fs)
  then obtain b u hs where u: "fmri_is_renamed env x f s = (Inr b, u)" "mfilter (fmri_is_renamed env x) fs u = (Inr hs, t)"
    "gs = (if b then f # hs else hs)" by (auto simp: run_simps)
  have "good_entry env f" using Cons.prems(1) by simp
  note r = is_renamed [OF this Cons.prems(2) u(1)]
  show ?case using Cons.IH [OF _ r(1) u(2)] Cons.prems(1) r(2) by (auto simp: u(3))
qed (simp add: run_simps)

lemma elide_loop_subset: "elide_loop env fs n todo processed renamed s = (Inr gs, t) \<Longrightarrow> set gs \<subseteq> set renamed"
proof (induction n arbitrary: todo processed renamed s)
  case 0
  then show ?case by (cases todo) (auto simp: run_simps)
next
  case (Suc n)
  show ?case
  proof (cases todo)
    case (Cons f rest)
    then obtain new todo' u where "elide_loop env fs n todo' (f # processed) (fdiff renamed new) u = (Inr gs, t)"
      using Suc.prems by (auto simp: run_simps Let_def)
    from Suc.IH [OF this] show ?thesis by (auto simp: set_fdiff)
  qed (use Suc.prems in \<open>simp add: run_simps\<close>)
qed

lemma elide_subset:
  assumes "elide_possible_renames env fs s = (Inr gs, t)" "\<forall>f \<in> set fs. good_entry env f" "renames_ok env s"
    "inj_on fmri_key (set fs)"
  shows "set gs \<subseteq> set fs" "\<forall>f \<in> set fs - set gs. marked_renamed env f"
proof -
  obtain rs u where r: "mfilter (fmri_is_renamed env (e_excludes env)) fs s = (Inr rs, u)"
    "rs = [] \<Longrightarrow> gs = fs" "rs \<noteq> [] \<Longrightarrow> \<exists>rs' n todo v. elide_loop env fs n todo [] rs u = (Inr rs', v) \<and> gs = fdiff fs rs'"
    using assms(1) by (cases "mfilter (fmri_is_renamed env (e_excludes env)) fs s")
      (fastforce simp: elide_possible_renames_def run_simps split: if_splits)
  note m = filter_renamed [OF assms(2,3) r(1)]
  have "set gs \<subseteq> set fs \<and> (\<forall>f \<in> set fs - set gs. marked_renamed env f)"
  proof (cases "rs = []")
    case False
    then obtain rs' n todo v where e: "elide_loop env fs n todo [] rs u = (Inr rs', v)" "gs = fdiff fs rs'"
      using r(3) by blast
    have sub: "set rs' \<subseteq> set rs" "set rs \<subseteq> set fs" using elide_loop_subset [OF e(1)] mfilter_subset [OF r(1)] by auto
    have "marked_renamed env f" if "f \<in> set fs - set gs" for f
    proof -
      have "fin f rs'" using that by (auto simp: e(2) set_fdiff)
      then have "f \<in> set rs'" using fin_inj [OF assms(4), of f rs'] that sub by auto
      then show ?thesis using m sub by blast
    qed
    then show ?thesis by (auto simp: e(2) set_fdiff)
  qed (use r(2) in simp)
  then show "set gs \<subseteq> set fs" "\<forall>f \<in> set fs - set gs. marked_renamed env f" by auto
qed

section \<open>Rejected names\<close>

text \<open>The packages of the rejected names are trimmed from the start.\<close>

definition rejected_gone :: "senv \<Rightarrow> string list \<Rightarrow> sstate \<Rightarrow> bool" where
  "rejected_gone env ns s \<longleftrightarrow> (\<forall>f \<in> set (map fst (e_catalog env)). f_name f \<in> set ns \<longrightarrow> is_trimmed s f)"

lemma trimmed_grows: "grows env s t \<Longrightarrow> is_trimmed s f \<Longrightarrow> is_trimmed t f"
  by (auto simp: grows_def is_trimmed_def list_ex_iff)

lemma gone_grows: "grows env s t \<Longrightarrow> rejected_gone env ns s \<Longrightarrow> rejected_gone env ns t"
  using trimmed_grows by (auto simp: rejected_gone_def)

lemma trim_list_trims: "f \<in> set fs \<Longrightarrow> is_trimmed (add_trims fs r more_fs s) f"
proof -
  assume f: "f \<in> set fs"
  have mem: "set (fold (\<lambda>f. List.insert (f, r, more_fs)) gs T) = (\<lambda>f. (f, r, more_fs)) ` set gs \<union> set T" for gs T
    by (induction gs arbitrary: T) auto
  have "fmri_eq f f" by (simp add: fmri_eq_key)
  then show ?thesis using f by (force simp: is_trimmed_def add_trims_def list_ex_iff mem)
qed

lemma trim_rejected:
  "mloop (\<lambda>n. mthen (get_catalog_fmris env n) (\<lambda>fs. trim fs TrimReject [])) ns s = (Inr (), t) \<Longrightarrow> \<not> s_trimdone s \<Longrightarrow>
    rejected_gone env ns t \<and> grows env s t"
proof (induction ns arbitrary: s)
  case (Cons n ns)
  let ?f = "\<lambda>n. mthen (get_catalog_fmris env n) (\<lambda>fs. trim fs TrimReject [])"
  obtain u where u: "?f n s = (Inr (), u)" "mloop ?f ns u = (Inr (), t)" using Cons.prems(1) by (auto simp: run_simps)
  have look: "lookup env (?f n)" by (intro lookup_intros)
  have g: "grows env s u" by (rule lookup_grows [OF look u(1)])
  then have "\<not> s_trimdone u" using Cons.prems(2) by (simp add: grows_def)
  note IH = Cons.IH [OF u(2) this]
  obtain fs r where p: "filter_publishers env n s = (if n \<in> set (s_pub_trim s) then s else add_trims fs r [] (mark_pub_trimmed n s))"
    by (rule filter_publishers_cases)
  have "\<not> s_trimdone (filter_publishers env n s)" using Cons.prems(2) by (simp add: p add_trims_def mark_pub_trimmed_def)
  then have c: "u = add_trims (filter (\<lambda>f. f_name f = n) (map fst (e_catalog env))) TrimReject [] (filter_publishers env n s)"
    using u(1) by (simp add: get_catalog_fmris_def trim_def run_simps catalog_fmris_def)
  have "is_trimmed u f" if "f \<in> set (map fst (e_catalog env))" "f_name f = n" for f
    unfolding c by (rule trim_list_trims) (use that in auto)
  then have "is_trimmed t f" if "f \<in> set (map fst (e_catalog env))" "f_name f = n" for f
    using trimmed_grows [OF conjunct2 [OF IH]] that by blast
  then show ?case using IH grows_trans [OF g conjunct2 [OF IH]] by (auto simp: rejected_gone_def)
qed (simp add: run_simps rejected_gone_def)

lemma removed_rejects:
  assumes "set_removed_and_required env ns names s = (Inr (), t)" "\<not> s_trimdone s"
  shows "rejected_gone env ns t"
proof -
  let ?trim = "mloop (\<lambda>n. mthen (get_catalog_fmris env n) (\<lambda>fs. trim fs TrimReject [])) ns"
  let ?misfits = "mfilter (\<lambda>f. mthen (trim_nonmatching_variants env f) (\<lambda>fit. mret (\<not> fit))) (installed_fmris env)"
  let ?start = "s\<lparr>s_avoid := remove_names (s_avoid s) names, s_implicit_avoid := remove_names (s_implicit_avoid s) names\<rparr>"
  obtain ms s2 s4 where r: "?misfits ?start = (Inr ms, s2)"
    "?trim (s2\<lparr>s_removal := funion (s_removal s2) (List.map_filter (dget (e_installed env)) ns @ ms), s_reject := ns\<rparr>) = (Inr (), s4)"
    "s_trim t = s_trim s4"
    using assms(1) by (auto simp: set_removed_and_required_def run_simps)
  have "prepares env ?misfits" by (intro prepare_intros)
  from movesD [where R = "progress env", OF this r(1)] have "s_trimdone s2 = s_trimdone s" by (simp add: progress_def grows_def)
  then have "rejected_gone env ns s4" using trim_rejected [OF r(2)] assms(2) by simp
  then show ?thesis by (simp add: rejected_gone_def is_trimmed_def r(3))
qed

lemma good_entry_catalog: "good_entry env f \<Longrightarrow> \<exists>g \<in> set (map fst (e_catalog env)). fmri_eq g f"
  by (auto simp: good_entry_def solver_actions_def get_entry_actions_def sbind_eq_Inr split: option.splits dest: find_SomeD)

lemma gone_names:
  assumes "rejected_gone env ns s" "good_entry env f" "\<not> is_trimmed s f"
  shows "f_name f \<notin> set ns"
proof
  assume n: "f_name f \<in> set ns"
  obtain g where g: "g \<in> set (map fst (e_catalog env))" "fmri_key g = fmri_key f"
    using good_entry_catalog [OF assms(2)] by (auto simp: fmri_eq_key)
  then have "f_name g = f_name f" by (simp add: fmri_key_def)
  then have "is_trimmed s g" using assms(1) g(1) n by (auto simp: rejected_gone_def)
  then show False using assms(3) g(2) by (simp add: is_trimmed_def fmri_eq_key)
qed


text \<open>A setup that goes on from a state in which names were rejected does not bring them back.\<close>

lemma begun_self: "begun env s0 s \<Longrightarrow> begun env s s"
  by (auto simp: begun_def grows_def)

lemma begun_prepares:
  assumes "prepares env m" "begun env s0 s" "m s = (Inr x, t)"
  shows "begun env s0 t"
proof -
  have "progress env s t" by (rule movesD [where R = "progress env", OF assms(1,3)])
  then show ?thesis using kept_begun [of env s0] assms(2) by (auto simp: kept_def)
qed

lemma yields_weaken: "yields P m Q \<Longrightarrow> (\<And>x s. Q x s \<Longrightarrow> R x s) \<Longrightarrow> yields P m R"
  by (auto simp: yields_def)

lemma set_up_grows: "set_up env s0 fs s \<Longrightarrow> grows env s0 s"
  by (simp add: set_up_def closed_def collected_def)

lemma rejected_setup:
  assumes "begun env s0 s" "set_removed_and_required env ns names s = (Inr a, t)"
    and "yields (begun env t) rest (\<lambda>x. grows env t)" "rest t = (Inr x, u)"
  shows "rejected_gone env ns u"
proof -
  have "rejected_gone env ns t" using removed_rejects [of env ns names s t] assms(1,2) by (simp add: begun_def)
  have p: "prepares env (set_removed_and_required env ns names)" by (intro prepare_intros)
  have "begun env t t" by (rule begun_self [OF begun_prepares [OF p assms(1,2)]])
  from yieldsD [OF assms(3) this assms(4)] show ?thesis using \<open>rejected_gone env ns t\<close> gone_grows by blast
qed

lemma install_setup_rejects:
  assumes "well_named ps" "begun env s0 s0" "install_setup env args ps s0 = (Inr (qs, fs), u)"
  shows "rejected_gone env (remdups (i_reject args @ map f_name (e_trig_uninstall env))) u"
proof -
  let ?ns = "remdups (i_reject args @ map f_name (e_trig_uninstall env))"
  obtain rest where rest: "install_setup env args ps =
      mthen (change_variants env (i_new_variants args)) (\<lambda>_.
      mthen (fix_publishers env (with_triggered env ps)) (\<lambda>_.
      mthen (set_removed_and_required env ?ns (map fst (with_triggered env ps))) (\<lambda>_. rest)))"
    "\<forall>s0. yields (begun env s0) rest (\<lambda>(qs, fs) s. set_up env s0 fs s \<and> shrunk (with_triggered env ps) qs)"
    using install_setup_tail [OF assms(1)] by blast
  obtain a1 s1 a2 s2 a3 s3 where r: "change_variants env (i_new_variants args) s0 = (Inr a1, s1)"
    "fix_publishers env (with_triggered env ps) s1 = (Inr a2, s2)"
    "set_removed_and_required env ?ns (map fst (with_triggered env ps)) s2 = (Inr a3, s3)" "rest s3 = (Inr (qs, fs), u)"
    using assms(3) unfolding rest(1) mthen_Inr by blast
  have p: "prepares env (change_variants env (i_new_variants args))" "prepares env (fix_publishers env (with_triggered env ps))"
    by (intro prepare_intros)+
  have b: "begun env s0 s2" by (rule begun_prepares [OF p(2) begun_prepares [OF p(1) assms(2) r(1)] r(2)])
  have g: "yields (begun env s3) rest (\<lambda>x. grows env s3)"
    by (rule yields_weaken [OF rest(2) [THEN spec [of _ s3]]]) (auto dest: set_up_grows)
  show ?thesis by (rule rejected_setup [OF b r(3) g r(4)])
qed

text \<open>So no package that the solver may choose has a rejected name.\<close>

lemma candidate_names:
  assumes "settled env (assign_fmri_ids fs s)" "rejected_gone env ns s" "f \<in> set (s_ids (assign_fmri_ids fs s))"
  shows "f_name f \<notin> set ns"
proof -
  have "rejected_gone env ns (assign_fmri_ids fs s)"
    using assms(2) by (simp add: rejected_gone_def is_trimmed_def assign_fmri_ids_def assign_possible_def Let_def)
  then show ?thesis using gone_names [of env ns "assign_fmri_ids fs s" f] assms(1,3) by (auto simp: settled_def)
qed

section \<open>The operations\<close>

lemma renames_of_fstate: "fstate_ok env s \<Longrightarrow> renames_ok env s"
  by (auto simp: fstate_ok_def renames_ok_def)

lemma settled_same: "settled env s \<Longrightarrow> ready env s t \<Longrightarrow> settled env t"
  by (rule same_settled) (auto simp: ready_def)

text \<open>From the clauses to the plan: the packages of the plan and those left out of the solution.\<close>

definition planned :: "senv \<Rightarrow> fmri set \<Rightarrow> fmri list \<Rightarrow> bool" where
  "planned env S fs \<longleftrightarrow> set fs \<subseteq> S \<and> (\<forall>f \<in> S - set fs. obsolete env f \<or> marked_renamed env f)"

lemma solution_planned:
  assumes st: "settled env s" and rd: "ready env s t" and sol: "set sol \<subseteq> set (s_ids s)"
    and up: "update_solution_set env sol t = (Inr sol', u)" and look: "looks_up env u w"
    and "end_solve env sol' w = (Inr p, v)"
  shows "planned env (set sol) (pl_fmris p)"
proof -
  have ids: "s_ids t = s_ids s" using rd same_fields(1) by (auto simp: ready_def)
  note us = update_solution [OF settled_same [OF st rd] sol [folded ids] up]
  have fstate: "fstate_ok env w" using us(2) look by (simp add: looks_up_def)
  obtain fs x where e: "elide_possible_renames env sol' w = (Inr fs, x)" "pl_fmris p = fs"
    using assms(6) by (auto simp: end_solve_def run_simps)
  have sub: "set sol' \<subseteq> set (s_ids s)" using us(1) sol by auto
  have "\<forall>f \<in> set sol'. good_entry env f" "inj_on fmri_key (set sol')"
    using sub st by (auto simp: settled_def distinct_map intro: inj_on_subset)
  note el = elide_subset [OF e(1) this(1) renames_of_fstate [OF fstate] this(2)]
  show ?thesis using el us(1) e(2) by (auto simp: planned_def)
qed

lemma set_clauses_run:
  assumes ms: "msat_ok ms" and st: "settled env (assign_fmri_ids fs s)"
    and cl: "s_clauses s = []" "\<not> s_failed s" and run: "set_clauses ms env report ps fs s = (Inr (), t)"
  shows "ready env (assign_fmri_ids fs s) t"
    "solutions (assign_fmri_ids fs s) (s_clauses t) = acceptable env ps (assign_fmri_ids fs s)"
proof -
  let ?s = "assign_fmri_ids fs s"
  have f: "failure_ok ?s" "s_clauses ?s = []"
    using cl by (simp_all add: failure_ok_def assign_fmri_ids_def assign_possible_def Let_def)
  have "mthen (enforce_unique_packages ms env) (\<lambda>_.
      mthen (generate_operation_clauses ms env ps) (\<lambda>_. assert_installed_allowed env report (map fst ps))) ?s = (Inr (), t)"
    using run by (simp add: set_clauses_def mthen_at [where m = "mmod f" for f] run_simps)
  from add_operation_clauses [OF ms st f this]
  show "ready env ?s t" "solutions ?s (s_clauses t) = acceptable env ps ?s" by auto
qed

lemma search_run:
  assumes ms: "msat_ok ms" and st: "settled env s0" and rd: "ready env s0 t"
    and run: "search ms env names t = (Inr sol, u)"
  shows "ready env s0 u" "searched env s0 names (solutions s0 (s_clauses t)) sol"
  using search_result [OF ms st rd, of names] run by (auto split: if_splits)

text \<open>What holds of a package that the solver may choose.\<close>

definition candidates_ok :: "senv \<Rightarrow> sstate \<Rightarrow> bool" where
  "candidates_ok env s \<longleftrightarrow> (\<forall>f \<in> set (s_ids s). good_entry env f \<and> \<not> is_trimmed s f)"

lemma solve_install_run:
  assumes ms: "msat_ok ms" and names: "well_named ps"
    and s0: "begun env s0 s0" "s_clauses s0 = []" "\<not> s_failed s0" "fstate_ok env s0"
    and run: "solve_install ms env report args ps s0 = (Inr p, s')"
  shows "\<exists>qs fs s1 sol. install_setup env args ps s0 = (Inr (qs, fs), s1)
    \<and> settled env (assign_fmri_ids fs s1) \<and> shrunk (with_triggered env ps) qs
    \<and> (\<forall>f \<in> set (s_ids (assign_fmri_ids fs s1)). f_name f \<notin> set (i_reject args @ map f_name (e_trig_uninstall env)))
    \<and> searched env (assign_fmri_ids fs s1) (map fst qs) (acceptable env qs (assign_fmri_ids fs s1)) sol
    \<and> planned env (set sol) (pl_fmris p)"
proof -
  obtain qs fs s1 t sol u sol' v where r: "install_setup env args ps s0 = (Inr (qs, fs), s1)"
    "set_clauses ms env report qs fs s1 = (Inr (), t)" "search ms env (map fst qs) t = (Inr sol, u)"
    "update_solution_set env sol u = (Inr sol', v)" "end_solve env sol' v = (Inr p, s')"
    using run by (auto simp: solve_install_def mthen_Inr split: prod.splits)
  from yieldsD [OF install_setup_yields [OF names] s0(1) r(1)]
  have up: "set_up env s0 fs s1" "shrunk (with_triggered env ps) qs" by auto
  let ?s = "assign_fmri_ids fs s1"
  have st: "settled env ?s" by (rule settled_assign [OF up(1) s0(4)])
  have "grows env s0 s1" using up(1) by (simp add: set_up_def closed_def collected_def)
  then have "s_clauses s1 = []" "\<not> s_failed s1" using s0 by (auto simp: grows_def)
  note cl = set_clauses_run [OF ms st this r(2)]
  note se = search_run [OF ms st cl(1) r(3), unfolded cl(2)]
  have "set sol \<subseteq> set (s_ids ?s)" using searched_solution [OF se(2)] by (simp add: acceptable_def)
  from solution_planned [OF st se(1) this r(4) looks_up_refl r(5)] have pl: "planned env (set sol) (pl_fmris p)" .
  have "\<forall>f \<in> set (s_ids ?s). f_name f \<notin> set (i_reject args @ map f_name (e_trig_uninstall env))"
    using candidate_names [OF st install_setup_rejects [OF names s0(1) r(1)]] by simp
  then show ?thesis using st up(2) se(2) pl r(1) by blast
qed

lemma solver_init_state:
  assumes "solver_init env vars avoids = Inr s"
  shows "begun env s s" "s_clauses s = []" "\<not> s_failed s" "fstate_ok env s"
  using assms by (auto simp: solver_init_def fstate_ok_def begun_def split: if_splits)

section \<open>Updating\<close>

lemma prepares_unsatisfied: "prepares env (installed_unsatisfied_parent_deps env ignore)"
  unfolding installed_unsatisfied_parent_deps_def by (intro prepare_intros prepares_mmod) simp

lemma finds_clear: "finds ys (mmod (\<lambda>s. s\<lparr>s_downgrades := []\<rparr>)) (\<lambda>_. ys)"
proof (rule findsI)
  fix xs s a s' assume s: "tidy ys s" "tidy xs s" "mmod (\<lambda>s. s\<lparr>s_downgrades := []\<rparr>) s = (Inr a, s')"
  have "tidy [] s" using s(1) by (simp add: tidy_def)
  then show "tidy ys s' \<and> tidy xs s'" using s by (auto simp: run_simps intro: tidy_recorded(2))
qed

definition update_candidates :: "senv \<Rightarrow> fmri list \<Rightarrow> fmri list srun" where
  "update_candidates env inst =
     mthen (meach (\<lambda>f. mthen (comb_newer env f True True) (\<lambda>(m, _). mret (if m = [] then [f] else m))) inst)
       (\<lambda>fss.
     mthen (mmod (\<lambda>s. s\<lparr>s_downgrades := []\<rparr>)) (\<lambda>_.
     mthen (relax_downgrades env (fdedup (concat fss))) (\<lambda>_.
     mget (\<lambda>s. funion (fdedup (concat fss)) (s_downgrades s)))))"

lemma finds_candidates: "finds [] (update_candidates env inst) (\<lambda>fs. fs)"
proof -
  have "finds [] (mthen (comb_newer env f True True) (\<lambda>(m, _). mret (if m = [] then [f] else m))) (\<lambda>fs. fs)" for f
    by (rule finds_mthen [OF finds_comb_newer], rule finds_case_prod, rule finds_mret) auto
  then have e: "finds [] (meach (\<lambda>f. mthen (comb_newer env f True True) (\<lambda>(m, _). mret (if m = [] then [f] else m))) inst)
      (\<lambda>fss. concat (map (\<lambda>fs. fs) fss) @ [])" by (rule finds_meach)
  have down: "finds zs (mget (\<lambda>s. funion fs (s_downgrades s))) (\<lambda>fs. fs)" if "set fs \<subseteq> set zs" for zs fs
  proof (rule findsI)
    fix xs s a s' assume s: "tidy zs s" "tidy xs s" "mget (\<lambda>s. funion fs (s_downgrades s)) s = (Inr a, s')"
    have "tidy (s_downgrades s) s" using s(1) by (auto simp: tidy_def tidy_records_def)
    then have "tidy (zs @ s_downgrades s) s" using s(1) by simp
    then have "tidy (funion fs (s_downgrades s)) s" by (rule tidy_mono) (use that set_funion in fastforce)
    then show "tidy a s' \<and> tidy xs s'" using s by (auto simp: run_simps)
  qed
  show ?thesis unfolding update_candidates_def
    by (intro finds_mthen [OF e] finds_mthen [OF finds_clear] finds_mthen [OF finds_relax] down)
      (simp add: set_fdedup_subset)
qed

lemma yields_candidates:
  "yields (begun env s0) (mthen (update_candidates env inst) k) Q"
  if "\<And>fs. yields (collected env s0 [] fs) (k fs) Q"
proof (rule yields_mthen [OF yields_pure that])
  fix s fs t assume s: "begun env s0 s" "update_candidates env inst s = (Inr fs, t)"
  have "growing env (update_candidates env inst)"
    unfolding update_candidates_def relax_downgrades_def by (intro growing_intros growing_mmod; simp)
  then have "grows env s t" by (rule movesD [where R = "grows env" and m = "update_candidates env inst", OF _ s(2)])
  moreover have "tidy [] s" using s(1) by (simp add: begun_def tidy_def tidy_records_def)
  then have "tidy fs t" using findsD [OF finds_candidates _ _ s(2)] by blast
  moreover have "\<exists>gs hs. fs = funion (fdedup gs) hs"
    using s(2) by (simp add: update_candidates_def run_simps) metis
  ultimately show "collected env s0 [] fs t"
    using s(1) distinct_funion [OF distinct_fdedup] grows_trans by (auto simp: collected_def begun_def)
qed

lemma update_setup_tail:
  "\<exists>rest. update_setup env args = mthen (set_removed_and_required env (i_reject args) []) (\<lambda>_. rest)
     \<and> (\<forall>s0. yields (begun env s0) rest (set_up env s0))"
proof -
  have parts: "update_setup env args =
     mthen (set_removed_and_required env (i_reject args) []) (\<lambda>_.
     mthen (installed_unsatisfied_parent_deps env False) (\<lambda>synced.
     mthen (mget (remaining_installed env)) (\<lambda>inst.
     mthen (update_candidates env inst) (\<lambda>possible0.
     mthen (mloop (trim_older env) (installed_fmris env)) (\<lambda>_.
     mthen (trim_frozen env (i_freezes args)) (\<lambda>_.
     mthen (drop_nonmatching_parents env False possible0) (\<lambda>possible1.
     mthen (trim_synced env (i_budget args) (\<lambda>n. n \<notin> set synced) [] possible1) (\<lambda>_.
     mthen (update_possible_closure env [] True possible1) (\<lambda>possible2.
     mthen (trim_image env False (e_installed env) possible2) (\<lambda>_.
     mget (dotrim_list possible2)))))))))))"
    by (simp add: update_setup_def update_candidates_def mthen_assoc)
  have older: "prepares env (mloop (trim_older env) fs)" for fs by (intro prepare_intros)
  show ?thesis
    unfolding parts
    apply (rule exI, rule conjI, rule refl, rule allI)
    apply (rule yields_prepares [OF kept_begun], rule prepares_unsatisfied)
    apply (rule yields_prepares [OF kept_begun], rule prepare_intros)
    apply (rule yields_candidates)
    apply (rule yields_prepares [OF kept_collected], rule older)
    apply (rule yields_prepares [OF kept_collected], rule prepare_intros)
    apply (rule yields_parents)
    apply (rule yields_prepares [OF kept_collected], rule prepare_intros)
    apply (rule yields_closure)
    apply (rule yields_prepares [OF kept_closed], rule prepare_intros)
    apply (rule yields_mget, simp add: set_up_def closed_dotrim)
    done
qed

lemma update_setup_yields: "yields (begun env s0) (update_setup env args) (set_up env s0)"
proof -
  obtain rest where rest: "update_setup env args = mthen (set_removed_and_required env (i_reject args) []) (\<lambda>_. rest)"
    "yields (begun env s0) rest (set_up env s0)" using update_setup_tail by blast
  show ?thesis unfolding rest(1) by (rule yields_prepares [OF kept_begun], rule prepare_intros) (rule rest(2))
qed

lemma update_setup_rejects:
  assumes "begun env s0 s0" "update_setup env args s0 = (Inr fs, u)"
  shows "rejected_gone env (i_reject args) u"
proof -
  obtain rest where rest: "update_setup env args = mthen (set_removed_and_required env (i_reject args) []) (\<lambda>_. rest)"
    "\<forall>s0. yields (begun env s0) rest (set_up env s0)"
    using update_setup_tail by blast
  obtain a s1 where r: "set_removed_and_required env (i_reject args) [] s0 = (Inr a, s1)" "rest s1 = (Inr fs, u)"
    using assms(2) unfolding rest(1) mthen_Inr by blast
  have g: "yields (begun env s1) rest (\<lambda>x. grows env s1)"
    by (rule yields_weaken [OF rest(2) [THEN spec [of _ s1]]]) (rule set_up_grows)
  show ?thesis by (rule rejected_setup [OF assms(1) r(1) g r(2)])
qed

lemma lookup_incorps: "lookup env (upgradeable_incorps env)"
  unfolding upgradeable_incorps_def by (intro lookup_intros)

lemma solve_update_run:
  assumes ms: "msat_ok ms"
    and s0: "begun env s0 s0" "s_clauses s0 = []" "\<not> s_failed s0" "fstate_ok env s0"
    and run: "solve_update_all ms env report args s0 = (Inr p, s')"
  shows "\<exists>fs s1 sol. update_setup env args s0 = (Inr fs, s1) \<and> settled env (assign_fmri_ids fs s1)
    \<and> (\<forall>f \<in> set (s_ids (assign_fmri_ids fs s1)). f_name f \<notin> set (i_reject args))
    \<and> best_found env False (assign_fmri_ids fs s1) (acceptable env [] (assign_fmri_ids fs s1)) MAX_ITERATIONS (set sol)
    \<and> planned env (set sol) (pl_fmris p)"
proof -
  have n: "0 < MAX_ITERATIONS" by (simp add: MAX_ITERATIONS_def)
  obtain fs s1 t sol u sol' v w where r: "update_setup env args s0 = (Inr fs, s1)"
    "set_clauses ms env report [] fs s1 = (Inr (), t)" "solve ms env False MAX_ITERATIONS t = (Inr sol, u)"
    "update_solution_set env sol u = (Inr sol', v)" "end_solve env sol' w = (Inr p, s')"
    "w = v \<or> (\<exists>incs. upgradeable_incorps env v = (Inr incs, w))"
    using run by (auto simp: solve_update_all_def mthen_Inr run_simps split: if_splits)
  from yieldsD [OF update_setup_yields s0(1) r(1)] have up: "set_up env s0 fs s1" .
  let ?s = "assign_fmri_ids fs s1"
  have st: "settled env ?s" by (rule settled_assign [OF up s0(4)])
  have "grows env s0 s1" using up(1) by (simp add: set_up_def closed_def collected_def)
  then have "s_clauses s1 = []" "\<not> s_failed s1" using s0 by (auto simp: grows_def)
  note cl = set_clauses_run [OF ms st this r(2)]
  have so: "ready env ?s u" "best_found env False ?s (acceptable env [] ?s) MAX_ITERATIONS (set sol)"
    using solve_result [OF ms st cl(1) n, of False] r(3) cl(2) by (auto split: if_splits)
  have "looks_up env v w"
    using r(6) movesD [where R = "looks_up env" and m = "upgradeable_incorps env", OF lookup_incorps] by auto
  moreover have "set sol \<subseteq> set (s_ids ?s)" using best_found_solution [OF so(2)] by (simp add: acceptable_def)
  ultimately have "planned env (set sol) (pl_fmris p)" using solution_planned [OF st so(1) _ r(4) _ r(5)] by blast
  moreover have "\<forall>f \<in> set (s_ids ?s). f_name f \<notin> set (i_reject args)"
    using candidate_names [OF st update_setup_rejects [OF s0(1) r(1)]] by simp
  ultimately show ?thesis using st so(2) r(1) by blast
qed

end
