(* ===== verification/Solver_Closure.thy ===== *)
theory Solver_Closure
  imports Solver_Setup
begin

text \<open>
  The dependency closure ends: a round takes at least one package out of those still to be visited,
  and the packages of the catalog and those asked for bound their number.
\<close>

section \<open>The work lists are bounded\<close>

definition fuelled :: "'a srun \<Rightarrow> bool" where
  "fuelled m \<longleftrightarrow> (\<forall>s s'. m s \<noteq> (Inl OutOfFuel, s'))"

named_theorems fuel_intros \<open>computations that do not run out of rounds\<close>

lemma fuelled_basic [fuel_intros]:
  "fuelled (mret a)" "fuelled (mget f)" "fuelled (mmod g)" "r \<noteq> Inl OutOfFuel \<Longrightarrow> fuelled (mlift r)"
  "e \<noteq> OutOfFuel \<Longrightarrow> fuelled (mfail e)"
  by (simp_all add: fuelled_def run_simps)

lemma fuelled_mthen [fuel_intros]: "fuelled m \<Longrightarrow> (\<And>a. fuelled (k a)) \<Longrightarrow> fuelled (mthen m k)"
  by (auto simp: fuelled_def run_simps)

lemma fuelled_mwhen [fuel_intros]: "fuelled m \<Longrightarrow> fuelled (mwhen b m)"
  by (simp add: fuelled_def run_simps)

lemma fuelled_meach [fuel_intros]: "(\<And>x. fuelled (f x)) \<Longrightarrow> fuelled (meach f xs)"
  by (induction xs) (auto intro!: fuel_intros)

lemma fuelled_mfilter [fuel_intros]: "(\<And>x. fuelled (f x)) \<Longrightarrow> fuelled (mfilter f xs)"
  by (induction xs) (auto intro!: fuel_intros)

lemma fuelled_cases [fuel_intros]:
  "(b \<Longrightarrow> fuelled m) \<Longrightarrow> (\<not> b \<Longrightarrow> fuelled n) \<Longrightarrow> fuelled (if b then m else n)"
  "(x = None \<Longrightarrow> fuelled m) \<Longrightarrow> (\<And>y. x = Some y \<Longrightarrow> fuelled (f y)) \<Longrightarrow>
     fuelled (case x of None \<Rightarrow> m | Some y \<Rightarrow> f y)"
  by (auto split: option.split)

lemma fuelled_prod [fuel_intros]: "(\<And>a b. fuelled (f a b)) \<Longrightarrow> fuelled (case p of (a, b) \<Rightarrow> f a b)"
  by (cases p) simp

lemma fuelled_trim [fuel_intros]: "fuelled (trim fs r ex)" "fuelled (trim_unsupported f)" "fuelled (invalid_entry f)"
  unfolding invalid_entry_def trim_unsupported_def trim_def by (intro fuel_intros)+

lemma smap_fuel: "(\<And>x. f x \<noteq> Inl OutOfFuel) \<Longrightarrow> smap f xs \<noteq> Inl OutOfFuel"
  by (induction xs) (auto simp: sbind_def split: sum.splits)

lemma parse_fuel [simp]:
  "parse_fmri t \<noteq> Inl OutOfFuel" "dep_fmris da \<noteq> Inl OutOfFuel" "dep_predicate da \<noteq> Inl OutOfFuel"
  "says_true v \<noteq> Inl OutOfFuel"
proof -
  show p: "parse_fmri t \<noteq> Inl OutOfFuel" for t by (simp add: parse_fmri_def split: sum.split)
  then show "dep_fmris da \<noteq> Inl OutOfFuel" unfolding dep_fmris_def by (rule smap_fuel)
  show "dep_predicate da \<noteq> Inl OutOfFuel" using p by (simp add: dep_predicate_def split: option.split avalue.split)
  show "says_true v \<noteq> Inl OutOfFuel" by (simp add: says_true_def split: option.split avalue.split)
qed

lemma entry_fuel [simp]:
  "get_entry_actions env x f \<noteq> Inl OutOfFuel" "solver_actions env x n f \<noteq> Inl OutOfFuel"
proof -
  show e: "get_entry_actions env x f \<noteq> Inl OutOfFuel"
    by (simp add: get_entry_actions_def gen_actions_def split: option.split sum.split)
  have "depends_known acts \<noteq> Inl OutOfFuel" for acts
    by (induction acts) (simp_all split: option.split)
  then show "solver_actions env x n f \<noteq> Inl OutOfFuel"
    using e by (auto simp: solver_actions_def sbind_def Let_def split: sum.splits if_splits)
qed

lemma any_true_fuel [simp]: "any_true acts \<noteq> Inl OutOfFuel"
proof (induction acts)
  case (Cons a acts)
  then show ?case by (cases "says_true (dget (a_attrs a) ''value'')") (auto simp: sbind_def split: if_splits)
qed simp

lemma fuelled_lookups [fuel_intros]:
  "fuelled (fmri_is_obsolete env f)" "fuelled (get_dependency_actions env f)" "fuelled (get_set_actions env f)"
  "fuelled (get_catalog_fmris env n)"
proof -
  have "fuelled (fmri_loadstate env [] f)"
  proof (cases "get_entry_actions env [] f")
    case (Inl e)
    then have "e \<noteq> OutOfFuel" using entry_fuel by metis
    then show ?thesis by (cases e) (auto simp: fmri_loadstate_def Inl intro!: fuel_intros)
  qed (auto simp: fmri_loadstate_def intro!: fuel_intros)
  then show "fuelled (fmri_is_obsolete env f)"
    unfolding fmri_is_obsolete_def fmri_state_def by (intro fuel_intros)
  have "fuelled (get_actions env x b n f)" for x b n
    using entry_fuel(2) [of env x n f] unfolding get_actions_def
    by (auto intro!: fuel_intros split: sum.split)
  then show "fuelled (get_dependency_actions env f)" "fuelled (get_set_actions env f)"
    by (simp_all add: get_dependency_actions_def get_set_actions_def)
  show "fuelled (get_catalog_fmris env n)" unfolding get_catalog_fmris_def by (intro fuel_intros)
qed

lemma fuelled_comb [fuel_intros]:
  "fuelled (comb_newer env f t ok)" "fuelled (comb_auto env f t ok)" "fuelled (comb_older env f t ok)"
  unfolding comb_older_def comb_newer_def comb_auto_def comb_common_def Let_def by (intro fuel_intros)+

lemma fuelled_comb_all [fuel_intros]: "(\<And>f. fuelled (comb f)) \<Longrightarrow> fuelled (comb_all comb fs)"
  unfolding comb_all_def by (intro fuel_intros)

lemma fuelled_match [fuel_intros]: "fuelled (match_dependency env ps t da fs)"
  unfolding match_dependency_def match_group_def parse_group_dependency_def Let_def
  by (intro fuel_intros) simp_all

lemma fuelled_reject [fuel_intros]: "fuelled again \<Longrightarrow> fuelled (reject_dependency env ps t again source fs d)"
  unfolding reject_dependency_def Let_def by (intro fuel_intros; simp)

lemma fuelled_parse [fuel_intros]: "fuelled (parse_dependency env ps t check da source)"
  unfolding parse_dependency_def parse_untrimmed_def by (intro fuel_intros; simp)

lemma fuelled_mcatch:
  assumes "fuelled m" "\<And>e. e \<noteq> OutOfFuel \<Longrightarrow> fuelled (h e)"
  shows "fuelled (mcatch m h)"
  unfolding fuelled_def
proof (intro allI notI)
  fix s s' assume "mcatch m h s = (Inl OutOfFuel, s')"
  then obtain e t where e: "m s = (Inl e, t)" "h e t = (Inl OutOfFuel, s')" by (auto simp: mcatch_Inl)
  show False
  proof (cases "e = OutOfFuel")
    case True
    then show ?thesis using e(1) assms(1) by (auto simp: fuelled_def)
  next
    case False
    then show ?thesis using e(2) assms(2) by (auto simp: fuelled_def)
  qed
qed

lemma fuelled_generate [fuel_intros]: "fuelled (generate_dependencies env ps full f)"
  unfolding generate_dependencies_def
proof (rule fuelled_mcatch)
  fix e :: solver_exn assume "e \<noteq> OutOfFuel"
  then show "fuelled (case e of DependencyException r gs \<Rightarrow> mthen (trim [f] r gs) (\<lambda>_. mret [])
        | _ \<Rightarrow> mfail e)"
    by (cases e) (auto intro!: fuel_intros)
qed (intro fuel_intros)

lemma fuelled_explicit [fuel_intros]: "fuelled (filter_explicit_install env f)"
  unfolding filter_explicit_install_def is_explicit_install_def by (intro fuel_intros) simp_all

text \<open>What is found comes from the catalog or, later, from the possible packages.\<close>

definition universe :: "senv \<Rightarrow> sstate \<Rightarrow> fmri set" where
  "universe env s = set (map fst (e_catalog env)) \<union> set (concat (map snd (s_possible s)))"

definition within :: "fmri set \<Rightarrow> senv \<Rightarrow> 'a srun \<Rightarrow> ('a \<Rightarrow> fmri list) \<Rightarrow> bool" where
  "within U env m g \<longleftrightarrow> (\<forall>s a s'. universe env s \<subseteq> U \<longrightarrow> m s = (Inr a, s') \<longrightarrow>
     universe env s' \<subseteq> U \<and> set (g a) \<subseteq> U)"

lemma universe_looks: "looks_up env s t \<Longrightarrow> universe env t = universe env s"
proof -
  assume "looks_up env s t"
  then obtain a b c where t: "t = s\<lparr>s_trim := a, s_pub_trim := b, s_fstate := c\<rparr>"
    unfolding looks_up_def by blast
  show ?thesis by (simp add: t universe_def)
qed

lemma within_lookup: "lookup env m \<Longrightarrow> within U env m (\<lambda>_. [])"
  unfolding within_def using movesD [where R = "looks_up env" and m = m] universe_looks by fastforce

lemma within_mthen:
  assumes "within U env m g" "\<And>a. set (g a) \<subseteq> U \<Longrightarrow> within U env (k a) h"
  shows "within U env (mthen m k) h"
  unfolding within_def
proof (intro allI impI)
  fix s b s' assume s: "universe env s \<subseteq> U" "mthen m k s = (Inr b, s')"
  then obtain a t where t: "m s = (Inr a, t)" "k a t = (Inr b, s')" by (auto simp: run_simps)
  have "universe env t \<subseteq> U" "set (g a) \<subseteq> U" using assms(1) s(1) t(1) unfolding within_def by blast+
  then show "universe env s' \<subseteq> U \<and> set (h b) \<subseteq> U" using assms(2) t(2) unfolding within_def by blast
qed

lemma within_mret: "set (g a) \<subseteq> U \<Longrightarrow> within U env (mret a) g"
  by (simp add: within_def run_simps)

lemma within_mget: "(\<And>s. set (g (f s)) \<subseteq> U) \<Longrightarrow> within U env (mget f) g"
  by (simp add: within_def run_simps)

lemma within_mfail: "within U env (mfail e) g"
  by (simp add: within_def run_simps)

lemma within_cases: "(b \<Longrightarrow> within U env m g) \<Longrightarrow> (\<not> b \<Longrightarrow> within U env n g) \<Longrightarrow> within U env (if b then m else n) g"
  by simp

lemma within_prod: "(\<And>a b. p = (a, b) \<Longrightarrow> within U env (f a b) g) \<Longrightarrow> within U env (case p of (a, b) \<Rightarrow> f a b) g"
  by (cases p) simp

lemma within_mono: "within U env m g \<Longrightarrow> (\<And>a. set (g a) \<subseteq> U \<Longrightarrow> set (h a) \<subseteq> U) \<Longrightarrow> within U env m h"
  unfolding within_def by blast

lemma within_meach: "(\<And>x. within U env (f x) g) \<Longrightarrow> within U env (meach f xs) (\<lambda>as. concat (map g as))"
proof (induction xs)
  case (Cons x xs)
  then show ?case unfolding meach.simps
    by (intro within_mthen [of U env "f x" g] within_mthen [of U env "meach f xs" "\<lambda>as. concat (map g as)"] within_mret) auto
qed (simp add: within_mret)

lemma catalog_universe: "set (catalog_fmris env n s) \<subseteq> universe env s"
proof (cases "dget (s_possible s) n")
  case (Some fs)
  then show ?thesis by (auto simp: catalog_fmris_def universe_def dest: dget_mem)
qed (auto simp: catalog_fmris_def universe_def)

lemma within_comb: "within U env (comb_common env c req t ok) (\<lambda>(m, nm). m @ nm)"
proof -
  let ?filter = "mfilter (\<lambda>f. mthen (mget (\<lambda>s. t \<and> is_trimmed s f)) (\<lambda>t.
           if t \<or> \<not> version_allows c req f then mret False
           else if ok then mret True
           else mthen (fmri_is_obsolete env f) (\<lambda>ob. mret (\<not> ob))))"
  have lk: "lookup env (?filter fs)" for fs by (intro lookup_intros)
  have filt: "within U env (?filter fs) (\<lambda>ys. ys)" if "set fs \<subseteq> U" for fs
    unfolding within_def
  proof (intro allI impI)
    fix s a s' assume s: "universe env s \<subseteq> U" "?filter fs s = (Inr a, s')"
    have "looks_up env s s'" by (rule movesD [where R = "looks_up env" and m = "?filter fs", OF lk s(2)])
    then show "universe env s' \<subseteq> U \<and> set a \<subseteq> U"
      using universe_looks s(1) mfilter_subset [OF s(2)] that by blast
  qed
  have cat: "within U env (get_catalog_fmris env n) (\<lambda>fs. fs)" for n
    unfolding within_def
  proof (intro allI impI)
    fix s a s' assume s: "universe env s \<subseteq> U" "get_catalog_fmris env n s = (Inr a, s')"
    then have "s' = filter_publishers env n s" "a = catalog_fmris env n s'"
      by (auto simp: get_catalog_fmris_def run_simps)
    moreover from this have "universe env s' = universe env s" using looks_up_publishers universe_looks by blast
    ultimately show "universe env s' \<subseteq> U \<and> set a \<subseteq> U" using catalog_universe s(1) by blast
  qed
  show ?thesis unfolding comb_common_def Let_def
    by (rule within_mthen [OF cat], rule within_mthen [OF filt], use set_fdedup in blast, rule within_mret)
      (use set_fdedup in \<open>fastforce simp: set_fdiff\<close>)
qed

lemma within_combs:
  "within U env (comb_newer env f t ok) (\<lambda>(m, nm). m @ nm)" "within U env (comb_auto env f t ok) (\<lambda>(m, nm). m @ nm)"
  "within U env (comb_older env f t ok) (\<lambda>(m, nm). m @ nm)"
  unfolding comb_older_def comb_newer_def comb_auto_def
  by (rule within_comb within_mthen within_prod within_cases within_mret within_mget | simp | assumption | fastforce)+

lemma within_fst: "within U env m (\<lambda>(m, nm). m @ nm) \<Longrightarrow> within U env m fst"
  by (erule within_mono) (auto split: prod.splits)

lemma within_comb_all:
  assumes "\<And>f. within U env (comb f) (\<lambda>(m, nm). m @ nm)"
  shows "within U env (comb_all comb fs) fst"
  unfolding comb_all_def
proof (rule within_mthen [OF within_meach [OF within_fst [OF assms]]], rule within_mret)
  show "set (concat (map fst ps)) \<subseteq> U \<Longrightarrow>
      set (fst (fdedup (concat (map fst ps)), fdedup (concat (map snd ps)))) \<subseteq> U" for ps
    unfolding fst_conv by (rule set_fdedup_subset)
qed

lemma within_group: "within U env (match_group env t fs) fst"
proof -
  have "within U env (mthen (mfilter (fmri_is_obsolete env) m) (\<lambda>ofmris.
         mret (fst (prefer_present ofmris m nm), snd (prefer_present ofmris m nm), True))) fst"
    if "set m \<subseteq> U" for m nm
  proof (rule within_mthen [OF within_lookup])
    show "lookup env (mfilter (fmri_is_obsolete env) m)" by (intro lookup_intros)
    show "within U env (mret (fst (prefer_present obs m nm), snd (prefer_present obs m nm), True)) fst" for obs
      by (rule within_mret) (use that in \<open>auto simp: prefer_present_def set_fdiff\<close>)
  qed
  note filt = this
  show ?thesis unfolding match_group_def parse_group_dependency_def
    by (intro within_mthen [OF within_mget [where g = "\<lambda>_. []"]] within_cases within_mret
        within_mthen [OF within_comb_all [OF within_combs(1)]] within_prod filt) auto
qed

lemma within_match: "within U env (match_dependency env ps t da fs) pd_m"
proof -
  note newer = within_mthen [OF within_fst [OF within_combs(1)]]
    and auto' = within_mthen [OF within_fst [OF within_combs(2)]]
    and older = within_mthen [OF within_fst [OF within_combs(3)]]
    and any = within_mthen [OF within_comb_all [OF within_combs(1)]]
    and group = within_mthen [OF within_group]
  have lift: "within U env (mlift r) (\<lambda>_. [])" for r :: "solver_exn + fmri"
    by (rule within_lookup) (rule lookup_intros)
  show ?thesis unfolding match_dependency_def Let_def
    by (intro within_cases newer auto' older any group within_mthen [OF lift] within_mret within_mfail)
      (auto intro!: within_mret within_mget newer within_mthen [OF within_mget [where g = "\<lambda>_. []"]] split: prod.split)
qed

lemma within_parse: "within U env (parse_dependency env ps t check da source) pd_m"
proof -
  have lift: "within U env (mlift r) (\<lambda>_. [])" for r :: "solver_exn + fmri list"
    by (rule within_lookup) (rule lookup_intros)
  have fails: "within U env (reject_dependency env ps t again source fs d) pd_m" for t again fs d
    by (simp add: within_def reject_fails)
  have untrimmed: "within U env (parse_untrimmed env ps check da source) pd_m"
    unfolding parse_untrimmed_def
    by (intro within_mthen [OF lift] within_cases within_mthen [OF within_match] within_mret within_mfail fails)
  show ?thesis unfolding parse_dependency_def
    by (intro within_cases untrimmed within_mthen [OF lift] within_mthen [OF within_match] within_mret within_mfail
        within_mthen [OF within_mget [where g = "\<lambda>_. []"]] fails) simp
qed

lemma within_generate: "within U env (generate_dependencies env ps full f) (\<lambda>fs. fs)"
proof -
  let ?m = "mthen (get_dependency_actions env f) (\<lambda>acts.
        mthen (meach (\<lambda>da. parse_dependency env ps True True da f)
                (filter (\<lambda>a. str_attr a ''type'' \<in> set (closure_types full)) acts)) (\<lambda>ds.
        mret (fdedup (concat (map pd_m ds)))))"
  have m: "within U env ?m (\<lambda>fs. fs)"
    by (intro within_mthen [OF within_lookup [OF lookup_actions(1)]] within_mthen [OF within_meach [OF within_parse]]
        within_mret) (rule set_fdedup_subset)
  show ?thesis
    unfolding within_def
  proof (intro allI impI)
    fix s a s' assume s: "universe env s \<subseteq> U" "generate_dependencies env ps full f s = (Inr a, s')"
    have "looks_up env s s'"
      by (rule movesD [where R = "looks_up env" and m = "generate_dependencies env ps full f", OF lookup_generate s(2)])
    moreover have "set a \<subseteq> U"
    proof (cases "?m s = (Inr a, s')")
      case False
      then obtain e t where "(case e of DependencyException r gs \<Rightarrow> mthen (trim [f] r gs) (\<lambda>_. mret [])
        | _ \<Rightarrow> mfail e) t = (Inr a, s')"
        using s(2) unfolding generate_dependencies_def mcatch_Inr by blast
      then show ?thesis by (cases e) (auto simp: run_simps)
    qed (use m s(1) in \<open>auto simp: within_def\<close>)
    ultimately show "universe env s' \<subseteq> U \<and> set a \<subseteq> U" using universe_looks s(1) by blast
  qed
qed

lemma card_less:
  assumes "finite K" "k \<in> K" "k \<notin> P"
  shows "card (K - insert k P) < card (K - P)"
  by (rule psubset_card_mono) (use assms in auto)

lemma closure_in_fuel:
  assumes U: "finite U"
  shows "universe env s \<subseteq> U \<Longrightarrow> set todo \<subseteq> U \<Longrightarrow> distinct (map fmri_key todo) \<Longrightarrow>
    fmri_key ` set todo \<inter> fmri_key ` set processed = {} \<Longrightarrow>
    card (fmri_key ` U - fmri_key ` set processed) \<le> n \<Longrightarrow>
    dependency_closure env ps full expl n todo processed s \<noteq> (Inl OutOfFuel, s')"
proof (induction n arbitrary: todo processed s s')
  case 0
  show ?case
  proof (cases todo)
    case (Cons f rest)
    have "card (fmri_key ` U - fmri_key ` set processed) = 0" using 0 by simp
    then have "fmri_key ` U \<subseteq> fmri_key ` set processed" using U by simp
    then show ?thesis using 0 Cons by auto
  qed (simp add: run_simps)
next
  case (Suc n)
  show ?case
  proof (cases todo)
    case (Cons f rest)
    let ?go = "\<lambda>todo. dependency_closure env ps full expl n todo (f # processed)"
    let ?new = "\<lambda>ds. funion rest (fdiff ds (f # processed))"
    have f: "fmri_key f \<in> fmri_key ` U" "fmri_key f \<notin> fmri_key ` set processed" "fmri_key f \<notin> fmri_key ` set rest"
      using Suc.prems Cons by auto
    have card: "card (fmri_key ` U - fmri_key ` set (f # processed)) \<le> n"
      using card_less [OF _ f(1,2)] U Suc.prems(5) by simp
    have go: "?go gs t \<noteq> (Inl OutOfFuel, s')"
      if "universe env t \<subseteq> U" "set gs \<subseteq> U" "distinct (map fmri_key gs)"
        "fmri_key ` set gs \<inter> fmri_key ` set (f # processed) = {}" for gs t
      by (rule Suc.IH [OF that card])
    let ?ask = "if expl then filter_explicit_install env f else mret False"
    have ask: "lookup env ?ask" "fuelled ?ask" by (intro lookup_intros, intro fuel_intros)
    show ?thesis
    proof
      assume "dependency_closure env ps full expl (Suc n) todo processed s = (Inl OutOfFuel, s')"
      then have "?ask s = (Inl OutOfFuel, s') \<or> (\<exists>drop t. ?ask s = (Inr drop, t)
          \<and> (if drop then mthen (trim [f] TrimExplicitInstall []) (\<lambda>_. ?go rest)
             else mthen (generate_dependencies env ps full f) (\<lambda>ds. ?go (?new ds))) t = (Inl OutOfFuel, s'))"
        by (simp only: Cons dependency_closure.simps mthen_Inl [where m = ?ask])
      then show False
      proof (elim disjE exE conjE)
        assume "?ask s = (Inl OutOfFuel, s')"
        then show False using ask(2) by (simp only: fuelled_def)
      next
        fix drop t assume a: "?ask s = (Inr drop, t)"
          and r: "(if drop then mthen (trim [f] TrimExplicitInstall []) (\<lambda>_. ?go rest)
             else mthen (generate_dependencies env ps full f) (\<lambda>ds. ?go (?new ds))) t = (Inl OutOfFuel, s')"
        have t: "universe env t \<subseteq> U"
          using movesD [where R = "looks_up env" and m = ?ask, OF ask(1) a] universe_looks Suc.prems(1) by metis
        show False
        proof (cases drop)
          case True
          then obtain u where u: "trim [f] TrimExplicitInstall [] t = (Inr (), u)" "?go rest u = (Inl OutOfFuel, s')"
            using r by (auto simp: mthen_Inl trim_def run_simps)
          have "universe env u \<subseteq> U"
            using movesD [where R = "looks_up env", OF lookup_trim(1) u(1)] universe_looks t by metis
          then show ?thesis using go [of u rest] u(2) Suc.prems f(3) by (auto simp: Cons)
        next
          case False
          then obtain ds u where u: "generate_dependencies env ps full f t = (Inr ds, u)"
            "?go (?new ds) u = (Inl OutOfFuel, s')"
            using r fuelled_generate [of env ps full f] by (auto simp: mthen_Inl fuelled_def)
          have ds: "universe env u \<subseteq> U" "set ds \<subseteq> U"
            using within_generate [of U env ps full f] u(1) t unfolding within_def by blast+
          have "set (?new ds) \<subseteq> U"
            using set_funion [of rest "fdiff ds (f # processed)"] ds(2) Suc.prems(2)
            by (auto simp: Cons set_fdiff)
          moreover have "distinct (map fmri_key (?new ds))" using distinct_funion Suc.prems(3) Cons by auto
          moreover have "fmri_key ` set (?new ds) \<inter> fmri_key ` set (f # processed) = {}"
            using Suc.prems(4) f(3) unfolding keys_funion by (auto simp: Cons set_fdiff fin_iff)
          ultimately show ?thesis using go [OF ds(1)] u(2) by blast
        qed
      qed
    qed
  qed (simp add: run_simps)
qed

lemma closure_terminates:
  "fst (generate_dependency_closure env ps full expl fs s) \<noteq> Inl OutOfFuel"
proof
  let ?U = "set (fdedup fs) \<union> universe env s"
  let ?n = "closure_fuel env fs s"
  assume "fst (generate_dependency_closure env ps full expl fs s) = Inl OutOfFuel"
  then obtain s' where run: "dependency_closure env ps full expl ?n (fdedup fs) [] s = (Inl OutOfFuel, s')"
    by (cases "dependency_closure env ps full expl ?n (fdedup fs) [] s")
      (auto simp: generate_dependency_closure_def mthen_def run_simps)
  have "card (fmri_key ` ?U) \<le> card ?U" by (rule card_image_le) (simp add: universe_def)
  also have "\<dots> \<le> card (set (fdedup fs)) + card (universe env s)" by (rule card_Un_le)
  also have "card (set (fdedup fs)) \<le> length fs"
    using card_mono [OF _ set_fdedup [of fs]] card_length [of fs] by (meson List.finite_set le_trans)
  also have "card (universe env s) \<le> length (e_catalog env) + length (concat (map snd (s_possible s)))"
    unfolding universe_def using card_Un_le card_length by (metis (no_types, lifting) add_mono le_trans length_map)
  finally have "card (fmri_key ` ?U - fmri_key ` set []) \<le> ?n" by (simp add: closure_fuel_def)
  from closure_in_fuel [OF _ _ _ distinct_fdedup _ this, of env s] run show False
    by (simp add: universe_def)
qed

end
