(* ===== verification/Solver_Claims.thy ===== *)
theory Solver_Claims
  imports Solver_Result Solver_Closure
begin

text \<open>
  The properties of the dependency solver, each applied to a small image with a SAT solver that tries
  all assignments.
\<close>

section \<open>A solver by search\<close>

definition brute :: msat where
  "brute = \<lparr>ms_add = (\<lambda>_ _. True),
     ms_solve = (\<lambda>cs. find (\<lambda>vs. satisfies (set vs) cs)
        (subseqs [1..<Suc (fold max (map (\<lambda>l. nat \<bar>l\<bar>) (concat cs)) 0)]))\<rparr>"

lemma satisfies_restrict:
  assumes "satisfies V cs" "\<forall>w \<in> clause_vars cs. w \<le> n"
  shows "satisfies (V \<inter> {1..n}) cs"
proof -
  have "lit_true (V \<inter> {1..n}) l" if "lit_true V l" "c \<in> set cs" "l \<in> set c" for l c
  proof -
    have "nat \<bar>l\<bar> \<le> n" using that(2,3) assms(2) by (force simp: clause_vars_def)
    then show ?thesis using that(1) by (auto simp: lit_true_def split: if_splits)
  qed
  then show ?thesis using assms(1) unfolding satisfies_def by blast
qed

lemma brute_ok: "msat_ok brute"
proof -
  have "case ms_solve brute cs of None \<Rightarrow> \<forall>V. \<not> satisfies V cs
         | Some vs \<Rightarrow> distinct vs \<and> satisfies (set vs) cs
             \<and> (\<forall>v \<in> set vs. 1 \<le> v \<and> (\<exists>w \<in> clause_vars cs. v \<le> w))" for cs
  proof -
    let ?ns = "map (\<lambda>l. nat \<bar>l\<bar>) (concat cs)"
    define n where "n = fold max ?ns 0"
    have n: "n = Max (insert 0 (set ?ns))" using Max.set_eq_fold [of 0 ?ns] by (simp only: n_def list.set)
    have vars: "clause_vars cs = set ?ns" by (simp add: clause_vars_def)
    then have le: "\<forall>w \<in> clause_vars cs. w \<le> n" by (simp add: n)
    have top: "n \<in> clause_vars cs" if "n \<noteq> 0" using Max_in [of "insert 0 (set ?ns)"] that n vars by auto
    have solve: "ms_solve brute cs = find (\<lambda>vs. satisfies (set vs) cs) (subseqs [1..<Suc n])"
      by (simp add: brute_def n_def)
    show ?thesis
    proof (cases "ms_solve brute cs")
      case None
      have "\<not> satisfies V cs" for V
      proof
        assume "satisfies V cs"
        then have "satisfies (V \<inter> {1..n}) cs" using satisfies_restrict le by blast
        moreover have "V \<inter> {1..n} = set (filter (\<lambda>v. v \<in> V) [1..<Suc n])"
          by (auto simp del: upt_Suc)
        moreover have "filter (\<lambda>v. v \<in> V) [1..<Suc n] \<in> set (subseqs [1..<Suc n])"
          unfolding in_set_subseqs by (rule subseq_filter_left)
        ultimately show False using None unfolding solve find_None_iff by metis
      qed
      then show ?thesis by (simp add: None)
    next
      case (Some vs)
      then have vs: "satisfies (set vs) cs" "vs \<in> set (subseqs [1..<Suc n])"
        using find_SomeD [OF Some [unfolded solve]] by auto
      have "distinct vs" using subseqs_distinctD [OF vs(2)] by simp
      moreover have "set vs \<in> set ` set (subseqs [1..<Suc n])" using vs(2) by blast
      then have "set vs \<subseteq> set [1..<Suc n]" unfolding subseqs_powset by blast
      then have "\<forall>v \<in> set vs. 1 \<le> v \<and> v \<le> n" by (auto simp del: upt_Suc)
      ultimately have "distinct vs" "\<forall>v \<in> set vs. 1 \<le> v \<and> v \<le> n" by auto
      then show ?thesis using vs(1) top by (fastforce simp: Some)
    qed
  qed
  then show ?thesis unfolding msat_ok_def by (simp add: brute_def)
qed

section \<open>A small image\<close>

text \<open>
  Package \<open>a\<close> requires \<open>b\<close>, of which there are two versions.  The package \<open>c\<close> is obsolete.
\<close>

definition pk :: "string \<Rightarrow> int \<Rightarrow> fmri" where
  "pk n v = \<lparr>f_publisher = Some ''p'', f_name = n,
     f_version = Some \<lparr>release = \<lparr>ds_vals = [v], ds_str = ''1''\<rparr>, branch = None,
       build_release = \<lparr>ds_vals = [5], ds_str = ''5''\<rparr>, timestr = None\<rparr>\<rparr>"

definition small_env :: "fmri dict \<Rightarrow> senv" where
  "small_env inst = \<lparr>e_catalog = [(pk ''a'' 1, [''depend fmri=b type=require'']), (pk ''b'' 1, []), (pk ''b'' 2, []),
       (pk ''c'' 1, [''set name=pkg.obsolete value=true''])],
     e_excludes = [], e_ranks = [(''p'', 1, True, True)], e_installed = inst, e_parents = None, e_root = [],
     e_firmware = (\<lambda>_ _. True), e_trig_update = [], e_trig_uninstall = []\<rparr>"

definition small_args :: iargs where
  "small_args = \<lparr>i_freezes = [], i_new_variants = [], i_reject = [], i_trim_installed = False,
     i_relax_all = False, i_ignore_parents = False, i_origin_installed = [], i_budget = 10\<rparr>"

definition small_prop :: "fmri list dict" where
  "small_prop = [(''a'', [pk ''a'' 1])]"

definition small_start :: "fmri dict \<Rightarrow> sstate" where
  "small_start inst = projr (solver_init (small_env inst) [] [])"

definition small_state :: sstate where
  "small_state = (case install_setup (small_env []) small_args small_prop (small_start []) of
       (Inr (qs, fs), s) \<Rightarrow> assign_fmri_ids fs s | (Inl e, s) \<Rightarrow> s)"

lemma small_init: "inst = [] \<or> inst = [(''b'', pk ''b'' 1)] \<Longrightarrow>
    solver_init (small_env inst) [] [] = Inr (small_start inst)"
proof -
  have "\<not> isl (solver_init (small_env []) [] [])" "\<not> isl (solver_init (small_env [(''b'', pk ''b'' 1)]) [] [])"
    by code_simp+
  then show "inst = [] \<or> inst = [(''b'', pk ''b'' 1)] \<Longrightarrow> ?thesis"
    unfolding small_start_def by (metis sum.collapse(2))
qed

lemma small_named: "well_named small_prop"
  by (simp add: well_named_def small_prop_def pk_def)

lemma small_settled: "settled (small_env []) small_state" "s_clauses small_state = []" "\<not> s_failed small_state"
proof -
  have "\<not> isl (fst (install_setup (small_env []) small_args small_prop (small_start [])))" by code_simp
  then obtain qs fs s where run:
    "install_setup (small_env []) small_args small_prop (small_start []) = (Inr (qs, fs), s)"
    by (metis prod.collapse sum.collapse(2))
  note s0 = solver_init_state [OF small_init [of "[]"]]
  have up: "set_up (small_env []) (small_start []) fs s"
    using yieldsD [OF install_setup_yields [OF small_named] _ run] s0(1) by simp
  have st: "small_state = assign_fmri_ids fs s" by (simp add: small_state_def run)
  show "settled (small_env []) small_state" unfolding st by (rule settled_assign [OF up]) (use s0 in simp)
  have "grows (small_env []) (small_start []) s" using up by (simp add: set_up_def closed_def collected_def)
  then show "s_clauses small_state = []" "\<not> s_failed small_state"
    using s0 by (simp_all add: st grows_def assign_fmri_ids_def assign_possible_def Let_def)
qed

section \<open>The properties\<close>

text \<open>
  C23. What \<open>solve_install\<close> returns is sound.  Take the state in which its clauses are made: the one
  that its own setup reaches, with the packages that the setup left possible numbered.  The solution
  found there is a set of those packages with at most one version of each name, all readable, none
  trimmed and none with a rejected name, in which every dependency of every package is met, every
  proposed package is represented by one of its remaining versions and every installed package that is
  to stay has a version; it is what the three searches of the operation lead to, and the plan is this
  set without packages that are obsolete or renamed.  It rests on the documented promise of the SAT
  solver.
\<close>

theorem solve_install_sound:
  assumes "msat_ok ms" "well_named ps" "solver_init env vars avoids = Inr s0"
    and "solve_install ms env report args ps s0 = (Inr p, s')"
  shows "\<exists>qs fs s1 sol. install_setup env args ps s0 = (Inr (qs, fs), s1) \<and> shrunk (with_triggered env ps) qs
    \<and> (let s = assign_fmri_ids fs s1; S = set sol in
         S \<subseteq> set (s_ids s) \<and> (\<forall>f \<in> S. good_entry env f \<and> \<not> is_trimmed s f
            \<and> f_name f \<notin> set (i_reject args @ map f_name (e_trig_uninstall env)))
         \<and> consistent env s S \<and> operation_met env qs s S
         \<and> searched env s (map fst qs) (acceptable env qs s) sol
         \<and> set (pl_fmris p) \<subseteq> S \<and> (\<forall>f \<in> S - set (pl_fmris p). obsolete env f \<or> marked_renamed env f))"
proof -
  obtain qs fs s1 sol where r: "install_setup env args ps s0 = (Inr (qs, fs), s1)"
    "settled env (assign_fmri_ids fs s1)" "shrunk (with_triggered env ps) qs"
    "\<forall>f \<in> set (s_ids (assign_fmri_ids fs s1)). f_name f \<notin> set (i_reject args @ map f_name (e_trig_uninstall env))"
    "searched env (assign_fmri_ids fs s1) (map fst qs) (acceptable env qs (assign_fmri_ids fs s1)) sol"
    "planned env (set sol) (pl_fmris p)"
    using solve_install_run [OF assms(1,2) solver_init_state [OF assms(3)] assms(4)] by blast
  have "set sol \<in> acceptable env qs (assign_fmri_ids fs s1)" by (rule searched_solution [OF r(5)])
  then have S: "set sol \<subseteq> set (s_ids (assign_fmri_ids fs s1))" "consistent env (assign_fmri_ids fs s1) (set sol)"
    "operation_met env qs (assign_fmri_ids fs s1) (set sol)" by (simp_all add: acceptable_def)
  have "good_entry env f \<and> \<not> is_trimmed (assign_fmri_ids fs s1) f
      \<and> f_name f \<notin> set (i_reject args @ map f_name (e_trig_uninstall env))" if "f \<in> set sol" for f
    using that S(1) r(2,4) by (auto simp: settled_def)
  then show ?thesis using r(1,3,5,6) S unfolding Let_def planned_def by blast
qed

lemma solve_install_sound_witness:
  "\<exists>p s'. solve_install brute (small_env []) (\<lambda>_ _. True) small_args small_prop (small_start []) = (Inr p, s')
    \<and> pl_fmris p = [pk ''a'' 1, pk ''b'' 2]
    \<and> (\<exists>S. consistent (small_env []) small_state S \<and> set (pl_fmris p) \<subseteq> S)"
proof -
  let ?run = "solve_install brute (small_env []) (\<lambda>_ _. True) small_args small_prop (small_start [])"
  have "(case fst ?run of Inr p \<Rightarrow> pl_fmris p = [pk ''a'' 1, pk ''b'' 2] | Inl e \<Rightarrow> False)" by code_simp
  then obtain p s' where r: "?run = (Inr p, s')" "pl_fmris p = [pk ''a'' 1, pk ''b'' 2]"
    by (cases ?run) (auto split: sum.splits)
  show ?thesis
    using solve_install_sound [OF brute_ok small_named small_init r(1)] r
    unfolding small_state_def Let_def by fastforce
qed

text \<open>
  C26. \<open>solve_update_all\<close>: in the state that its own setup reaches, with the possible packages numbered,
  the plan comes from a consistent set of them that has a version of every installed package that is to
  stay and no package with a rejected name; and it is the last of the solutions that the search found,
  each of which excludes the versions older than those of the ones before, the search having gone on
  until no solution is left or the limit of rounds is reached.
\<close>

theorem solve_update_all_best:
  assumes "msat_ok ms" "solver_init env vars avoids = Inr s0"
    and "solve_update_all ms env report args s0 = (Inr p, s')"
  shows "\<exists>fs s1 S. update_setup env args s0 = (Inr fs, s1)
    \<and> (let s = assign_fmri_ids fs s1 in
         S \<in> acceptable env [] s \<and> best_found env False s (acceptable env [] s) MAX_ITERATIONS S
         \<and> (\<forall>f \<in> S. good_entry env f \<and> \<not> is_trimmed s f \<and> f_name f \<notin> set (i_reject args))
         \<and> set (pl_fmris p) \<subseteq> S \<and> (\<forall>f \<in> S - set (pl_fmris p). obsolete env f \<or> marked_renamed env f))"
proof -
  obtain fs s1 sol where r: "update_setup env args s0 = (Inr fs, s1)" "settled env (assign_fmri_ids fs s1)"
    "\<forall>f \<in> set (s_ids (assign_fmri_ids fs s1)). f_name f \<notin> set (i_reject args)"
    "best_found env False (assign_fmri_ids fs s1) (acceptable env [] (assign_fmri_ids fs s1)) MAX_ITERATIONS (set sol)"
    "planned env (set sol) (pl_fmris p)"
    using solve_update_run [OF assms(1) solver_init_state [OF assms(2)] assms(3)] by blast
  have S: "set sol \<in> acceptable env [] (assign_fmri_ids fs s1)" by (rule best_found_solution [OF r(4)])
  then have "good_entry env f \<and> \<not> is_trimmed (assign_fmri_ids fs s1) f \<and> f_name f \<notin> set (i_reject args)"
    if "f \<in> set sol" for f
    using that r(2,3) by (auto simp: settled_def acceptable_def)
  then show ?thesis using r(1,4,5) S unfolding Let_def planned_def by blast
qed

lemma solve_update_all_best_witness:
  "\<exists>p s'. solve_update_all brute (small_env [(''b'', pk ''b'' 1)]) (\<lambda>_ _. True) small_args
      (small_start [(''b'', pk ''b'' 1)]) = (Inr p, s')
    \<and> pl_fmris p = [pk ''b'' 2]
    \<and> (\<exists>fs s1 S. update_setup (small_env [(''b'', pk ''b'' 1)]) small_args (small_start [(''b'', pk ''b'' 1)]) = (Inr fs, s1)
      \<and> S \<in> acceptable (small_env [(''b'', pk ''b'' 1)]) [] (assign_fmri_ids fs s1) \<and> set (pl_fmris p) \<subseteq> S)"
proof -
  let ?run = "solve_update_all brute (small_env [(''b'', pk ''b'' 1)]) (\<lambda>_ _. True) small_args
      (small_start [(''b'', pk ''b'' 1)])"
  have "(case fst ?run of Inr p \<Rightarrow> pl_fmris p = [pk ''b'' 2] | Inl e \<Rightarrow> False)" by code_simp
  then obtain p s' where r: "?run = (Inr p, s')" "pl_fmris p = [pk ''b'' 2]"
    by (cases ?run) (auto split: sum.splits)
  show ?thesis
    using solve_update_all_best [OF brute_ok small_init r(1)] r unfolding Let_def by blast
qed

text \<open>
  C24. The clauses that \<open>__enforce_unique_packages\<close> adds say exactly that the chosen packages have one
  version per name and that every dependency of each of them is met.
\<close>

theorem clauses_mean_consistent:
  assumes "msat_ok ms" "settled env s" "enforce_unique_packages ms env s = (Inr (), t)"
  shows "\<exists>cs. s_clauses t = s_clauses s @ cs \<and> (\<forall>V. satisfies V cs \<longleftrightarrow> consistent env s (chosen s V))"
  using addsD [OF adds_enforce_unique [OF assms(1,2)] assms(2) same_refl assms(3)] by metis

lemma small_clauses: "\<exists>t. enforce_unique_packages brute (small_env []) small_state = (Inr (), t)"
proof -
  have "\<not> isl (fst (enforce_unique_packages brute (small_env []) small_state))" by code_simp
  then show ?thesis by (metis (full_types) prod.collapse sum.collapse(2) unit.exhaust)
qed

lemma clauses_mean_consistent_witness:
  "\<exists>t cs. enforce_unique_packages brute (small_env []) small_state = (Inr (), t) \<and> s_clauses t = cs
    \<and> (\<forall>V. satisfies V cs \<longleftrightarrow> consistent (small_env []) small_state (chosen small_state V))"
  using small_clauses clauses_mean_consistent [OF brute_ok small_settled(1)] small_settled(2) by fastforce

text \<open>
  C27. The clauses of one dependency hold of an assignment exactly when, if the package is chosen, the
  chosen packages meet the dependency as its type says.
\<close>

theorem dependency_clauses_meaning:
  assumes "settled env s" "f \<in> set (s_ids s)" "gen_dependency_clauses env f da s = (Inr cs, t)"
  shows "satisfies V cs \<longleftrightarrow> (f \<in> chosen s V \<longrightarrow> dependency_met env s (chosen s V) da)"
  by (rule gen_dependency_clauses_iff(2) [OF assms])

definition small_dep :: action where
  "small_dep = hd (dep_actions (small_env []) (pk ''a'' 1))"

lemma dependency_clauses_meaning_witness:
  "\<exists>cs t. gen_dependency_clauses (small_env []) (pk ''a'' 1) small_dep small_state = (Inr cs, t)
    \<and> cs = [[-1, 3, 2]] \<and> (satisfies {1} cs \<longleftrightarrow> (pk ''a'' 1 \<in> chosen small_state {1} \<longrightarrow>
        dependency_met (small_env []) small_state (chosen small_state {1}) small_dep))"
proof -
  let ?run = "gen_dependency_clauses (small_env []) (pk ''a'' 1) small_dep small_state"
  have "fst ?run = Inr [[-1, 3, 2]]" by code_simp
  then obtain t where r: "?run = (Inr [[-1, 3, 2]], t)" by (metis prod.collapse)
  have "pk ''a'' 1 \<in> set (s_ids small_state)" by code_simp
  from dependency_clauses_meaning [OF small_settled(1) this r] r show ?thesis by blast
qed

text \<open>
  C25. Given the clauses of an operation, the three searches succeed exactly when some set of packages
  is consistent and does what the operation asks for; otherwise \<open>NoSolution\<close> is raised.  What they
  return is such a set, the best that the last search found.
\<close>

theorem search_finds_solution:
  assumes "msat_ok ms" "settled env (assign_fmri_ids fs s)" "s_clauses s = []" "\<not> s_failed s"
    and "set_clauses ms env report ps fs s = (Inr (), t)"
  shows "if acceptable env ps (assign_fmri_ids fs s) = {}
    then fst (search ms env names t) = Inl NoSolution
    else \<exists>sol u. search ms env names t = (Inr sol, u) \<and> set sol \<in> acceptable env ps (assign_fmri_ids fs s)
      \<and> searched env (assign_fmri_ids fs s) names (acceptable env ps (assign_fmri_ids fs s)) sol"
proof -
  note cl = set_clauses_run [OF assms]
  show ?thesis
    using search_result [OF assms(1,2) cl(1), of names] searched_solution unfolding cl(2)
    by (auto split: if_splits)
qed

definition small_possible :: "fmri list \<times> sstate" where
  "small_possible = (case install_setup (small_env []) small_args small_prop (small_start []) of
       (Inr (qs, fs), s) \<Rightarrow> (fs, s) | (Inl e, s) \<Rightarrow> ([], s))"

lemma assign_fmri_ids_keeps:
  "s_clauses (assign_fmri_ids fs s) = s_clauses s" "s_failed (assign_fmri_ids fs s) = s_failed s"
  by (simp_all add: assign_fmri_ids_def assign_possible_def Let_def)

lemma search_finds_solution_witness:
  "\<exists>t. set_clauses brute (small_env []) (\<lambda>_ _. True) small_prop (fst small_possible) (snd small_possible) = (Inr (), t)
    \<and> (if acceptable (small_env []) small_prop small_state = {}
       then fst (search brute (small_env []) [''a''] t) = Inl NoSolution
       else \<exists>sol u. search brute (small_env []) [''a''] t = (Inr sol, u)
         \<and> set sol \<in> acceptable (small_env []) small_prop small_state)"
proof -
  let ?run = "set_clauses brute (small_env []) (\<lambda>_ _. True) small_prop (fst small_possible) (snd small_possible)"
  have "\<not> isl (fst ?run)" by code_simp
  then obtain t where r: "?run = (Inr (), t)" by (metis (full_types) prod.collapse sum.collapse(2) unit.exhaust)
  have "\<not> isl (fst (install_setup (small_env []) small_args small_prop (small_start [])))" by code_simp
  then have s: "small_state = assign_fmri_ids (fst small_possible) (snd small_possible)"
    by (auto simp: small_state_def small_possible_def isl_def split: prod.splits sum.splits)
  have "s_clauses (snd small_possible) = []" "\<not> s_failed (snd small_possible)"
    using small_settled(2,3) [unfolded s] by (simp_all add: assign_fmri_ids_keeps)
  from search_finds_solution [OF brute_ok small_settled(1) [unfolded s] this r, of "[''a'']"]
  show ?thesis unfolding s using r by (auto split: if_splits)
qed

text \<open>
  C29. The clauses of the packages and of the operation mention only the numbers of packages that take
  part, from 1 to their number, so \<open>__getfmri\<close> finds a package for every variable.
\<close>

theorem clause_numbers_in_range:
  assumes "msat_ok ms" "settled env s" "s_clauses s = []" "enforce_unique_packages ms env s = (Inr (), t)"
    and "generate_operation_clauses ms env ps t = (Inr (), u)"
  shows "\<forall>c \<in> set (s_clauses u). \<forall>l \<in> set c. 1 \<le> \<bar>l\<bar> \<and> \<bar>l\<bar> \<le> int (length (s_ids s))
      \<and> getfmri s (nat \<bar>l\<bar>) = Inr (s_ids s ! (nat \<bar>l\<bar> - 1))"
proof -
  obtain cs where cs: "same env s t" "s_clauses t = s_clauses s @ cs" "in_range s cs"
    using addsD [OF adds_enforce_unique [OF assms(1,2)] assms(2) same_refl assms(4)] by metis
  obtain ds where ds: "s_clauses u = s_clauses t @ ds" "in_range s ds"
    using addsD [OF adds_operation [OF assms(1)] assms(2) cs(1) assms(5)] by metis
  have "in_range s (s_clauses u)" using cs ds assms(3) by simp
  then show ?thesis by (fastforce simp: in_range_def getfmri_def)
qed

lemma clause_numbers_in_range_witness:
  "\<exists>t u. enforce_unique_packages brute (small_env []) small_state = (Inr (), t)
    \<and> generate_operation_clauses brute (small_env []) small_prop t = (Inr (), u)
    \<and> (\<forall>c \<in> set (s_clauses u). \<forall>l \<in> set c. \<bar>l\<bar> \<le> int (length (s_ids small_state)))"
proof -
  obtain t where t: "enforce_unique_packages brute (small_env []) small_state = (Inr (), t)"
    using small_clauses by blast
  have "\<not> isl (fst (generate_operation_clauses brute (small_env []) small_prop
      (snd (enforce_unique_packages brute (small_env []) small_state))))" by code_simp
  then obtain u where u: "generate_operation_clauses brute (small_env []) small_prop t = (Inr (), u)"
    unfolding t by (metis (full_types) prod.collapse snd_conv sum.collapse(2) unit.exhaust)
  show ?thesis using clause_numbers_in_range [OF brute_ok small_settled(1,2) t u] t u by blast
qed

text \<open>
  C28. The transitive closure of the dependencies ends: the number of rounds the model allows, the
  packages asked for and those of the catalog, is never used up.
\<close>

theorem dependency_closure_ends:
  "fst (generate_dependency_closure env ps full explicit fs s) \<noteq> Inl OutOfFuel"
  by (rule closure_terminates)

end
