(* ===== verification/Action_Class.thy ===== *)
theory Action_Class
  imports Pkg_ActionParse
begin

text \<open>
  What the classes of actions say about conflicts: the class attributes of the modules under
  \<open>src/src/modules/actions\<close> (\<open>unique_attrs\<close>, \<open>globally_identical\<close>, \<open>refcountable\<close>,
  \<open>namespace_group\<close>), the comparison of two actions and the stripping of installed ones of
  \<open>generic.py\<close>.
\<close>

section \<open>Class attributes\<close>

definition unique_attrs :: "string \<Rightarrow> string list" where
  "unique_attrs name =
     (if name = ''dir'' then [''path'', ''mode'', ''owner'', ''group'']
      else if name = ''file'' then [''path'', ''mode'', ''owner'', ''group'', ''preserve'', ''sysattr'']
      else if name = ''link'' \<or> name = ''hardlink'' then [''path'', ''target'']
      else if name = ''license'' then [''license'']
      else if name = ''legacy'' then [''category'', ''desc'', ''hotline'', ''name'', ''pkg'', ''vendor'',
        ''version'', ''basedir'', ''pkginst'', ''pstamp'', ''sunw_prodvers'']
      else [])"

definition globally_identical :: "string \<Rightarrow> bool" where
  "globally_identical name \<longleftrightarrow> name \<in> {''dir'', ''file'', ''link'', ''hardlink'', ''driver'', ''group'', ''user'',
     ''legacy'', ''license''}"

definition refcountable :: "string \<Rightarrow> bool" where
  "refcountable name \<longleftrightarrow> name \<in> {''dir'', ''link'', ''hardlink'', ''legacy'', ''license''}"

text \<open>
  The metaclass \<open>NSG\<close> gives every class without a group a number of its own, for which its name
  stands here.
\<close>

datatype nsgroup = NsNone | NsPath | NsOwn string

definition namespace_group :: "string \<Rightarrow> nsgroup" where
  "namespace_group name =
     (if name \<in> {''dir'', ''file'', ''link'', ''hardlink''} then NsPath
      else if name = ''generic'' then NsNone else NsOwn name)"

section \<open>Comparing actions\<close>

definition attrs_eq :: "avalue dict \<Rightarrow> avalue dict \<Rightarrow> bool" where
  "attrs_eq d e \<longleftrightarrow> set (dkeys d) = set (dkeys e) \<and> (\<forall>k \<in> set (dkeys d). dget d k = dget e k)"

definition action_eq :: "action \<Rightarrow> action \<Rightarrow> bool" where
  "action_eq a b \<longleftrightarrow> a_name a = a_name b \<and> a_hash a = a_hash b \<and> attrs_eq (a_attrs a) (a_attrs b)"

text \<open>\<open>differences\<close>: the attributes with different values; lists are compared without their order.\<close>

fun value_same :: "avalue \<Rightarrow> avalue \<Rightarrow> bool" where
  "value_same (AList l) (AList m) = (sort l = sort m)"
| "value_same v w = (v = w)"

definition attr_same :: "action \<Rightarrow> action \<Rightarrow> string \<Rightarrow> bool" where
  "attr_same a b k =
     (case (dget (a_attrs a) k, dget (a_attrs b) k) of
        (None, None) \<Rightarrow> True | (Some v, Some w) \<Rightarrow> value_same v w | _ \<Rightarrow> False)"

definition differences :: "action \<Rightarrow> action \<Rightarrow> string list" where
  "differences a b = remdups (filter (\<lambda>k. \<not> attr_same a b k) (dkeys (a_attrs a) @ dkeys (a_attrs b)))"

section \<open>Stripping\<close>

text \<open>\<open>strip\<close>: what is kept of an action that is installed; \<open>preserve\<close> names more attributes to keep.\<close>

definition strip_keeps :: "(string \<times> string list) list \<Rightarrow> string \<Rightarrow> string \<Rightarrow> bool" where
  "strip_keeps preserve name k \<longleftrightarrow>
     \<not> starts_with k ''variant.'' \<and> \<not> starts_with k ''facet.'' \<and>
     (unique_attrs name = [] \<or> k \<in> set (unique_attrs name)
      \<or> name = ''file'' \<and> (k = ''overlay'' \<or> k = ''overlay-attributes'')
      \<or> (case map_of preserve name of None \<Rightarrow> False | Some ks \<Rightarrow> k \<in> set ks)
      \<or> (name = ''link'' \<or> name = ''hardlink'') \<and> starts_with k ''mediator'')"

definition strip :: "(string \<times> string list) list \<Rightarrow> action \<Rightarrow> action" where
  "strip preserve a = a\<lparr>a_attrs := filter (\<lambda>(k, v). strip_keeps preserve (a_name a) k) (a_attrs a)\<rparr>"

definition get_varcet_keys :: "action \<Rightarrow> string list \<times> string list" where
  "get_varcet_keys a =
     (filter (\<lambda>k. starts_with k ''variant.'') (dkeys (a_attrs a)),
      filter (\<lambda>k. starts_with k ''facet.'') (dkeys (a_attrs a)))"

section \<open>Facts\<close>

lemma value_same_refl [simp]: "value_same v v"
  by (cases v) auto

lemma value_same_sym: "value_same v w \<Longrightarrow> value_same w v"
  by (cases v; cases w) auto

lemma value_same_trans: "value_same v w \<Longrightarrow> value_same w x \<Longrightarrow> value_same v x"
  by (cases v; cases w; cases x) auto

lemma attr_same_refl [simp]: "attr_same a a k"
  by (simp add: attr_same_def split: option.splits)

lemma attr_same_sym: "attr_same a b k \<Longrightarrow> attr_same b a k"
  by (auto simp: attr_same_def split: option.splits intro: value_same_sym)

lemma attr_same_trans: "attr_same a b k \<Longrightarrow> attr_same b c k \<Longrightarrow> attr_same a c k"
  by (auto simp: attr_same_def split: option.splits intro: value_same_trans)

lemma set_differences: "set (differences a b) = {k. \<not> attr_same a b k}"
proof -
  have "attr_same a b k" if "k \<notin> set (dkeys (a_attrs a))" "k \<notin> set (dkeys (a_attrs b))" for k
    using that by (simp add: attr_same_def pydict.keys_None)
  then show ?thesis by (auto simp: differences_def)
qed

lemma differences_sym: "set (differences a b) = set (differences b a)"
  by (auto simp: set_differences intro: attr_same_sym)

lemma dget_filter_keys: "dget (filter (\<lambda>(k, v). P k) d) k = (if P k then dget d k else None)"
  unfolding dget_def by (induction d) auto

lemma strip_attr [simp]:
  "dget (a_attrs (strip p a)) k = (if strip_keeps p (a_name a) k then dget (a_attrs a) k else None)"
  by (simp add: strip_def dget_filter_keys)

lemma strip_name [simp]: "a_name (strip p a) = a_name a" "a_hash (strip p a) = a_hash a"
  by (simp_all add: strip_def)

end
