(* ===== verification/Plan_Conflict.thy ===== *)
theory Plan_Conflict
  imports Action_Class
begin

text \<open>
  The checks of \<open>client/imageplan.py\<close> on the actions that several packages deliver to one name of a
  namespace: \<open>__check_inconsistent_types\<close>, \<open>__check_duplicate_actions\<close>, \<open>__find_inconsistent_attrs\<close>,
  \<open>__check_inconsistent_attrs\<close> and \<open>_check_action_group\<close>, and when a group of actions conflicts.
\<close>

section \<open>The checks\<close>

type_synonym 'p delivered = "action \<times> 'p"

datatype conflict_exn = InconsistentActionTypeError | DuplicateActionError | InconsistentActionAttributeError

text \<open>
  What a check decides.  \<open>VError\<close> has the class of the error where the check overrides the caller's.
\<close>

datatype 'p verdict =
    VNothing
  | VOverlay
  | VFixup "'p delivered"
  | VError "'p delivered list" "conflict_exn option"

definition attr_is :: "action \<Rightarrow> string \<Rightarrow> string \<Rightarrow> bool" where
  "attr_is a k v \<longleftrightarrow> dget (a_attrs a) k = Some (AStr v)"

definition has_attr :: "action \<Rightarrow> string \<Rightarrow> bool" where
  "has_attr a k \<longleftrightarrow> dget (a_attrs a) k \<noteq> None"

text \<open>
  \<open>key\<close> is how packages are compared: by the sort key of an FMRI or, in the cache, by its text.
\<close>

definition by_package :: "('p \<Rightarrow> 'k::linorder) \<Rightarrow> 'p delivered list \<Rightarrow> 'p delivered list" where
  "by_package key acts = sort_key (key \<circ> snd) acts"

definition name_set :: "'p delivered list \<Rightarrow> string set" where
  "name_set acts = set (map (a_name \<circ> fst) acts)"

text \<open>
  The last of implicit directories gets the usual attributes.
\<close>

definition made_explicit :: "'p delivered \<Rightarrow> 'p delivered" where
  "made_explicit = (\<lambda>(a, f). (a\<lparr>a_attrs := dput ''group'' (AStr ''root'') (dput ''owner'' (AStr ''root'')
     (dput ''mode'' (AStr ''0755'') (a_attrs a)))\<rparr>, f))"

definition pick_directory :: "'p delivered list \<Rightarrow> 'p delivered option" where
  "pick_directory acts = find (\<lambda>a. \<not> has_attr (fst a) ''implicit'') acts"

definition check_inconsistent_types ::
  "('p \<Rightarrow> 'k::linorder) \<Rightarrow> 'p delivered list \<Rightarrow> 'p delivered list \<Rightarrow> 'p verdict option" where
  "check_inconsistent_types key acts oacts =
     (let n = card (name_set acts); m = card (name_set oacts) in
      if n = 0 \<or> n = 1 \<and> m \<le> 1 then None
      else if n < m then
        if 1 < n then Some VNothing
        else if a_name (fst (hd acts)) \<noteq> ''dir'' then Some (VFixup (hd acts))
        else (case pick_directory acts of
                Some a \<Rightarrow> Some (VFixup a) | None \<Rightarrow> Some (VFixup (made_explicit (last acts))))
      else
        let acts' = by_package key acts; oacts' = by_package key oacts in
        if name_set acts = name_set oacts \<and> list_all (\<lambda>(o1, n1). key (snd o1) = key (snd n1)) (zip oacts' acts')
        then Some VNothing else Some (VError acts' None))"

text \<open>
  \<open>__find_inconsistent_attrs\<close>.  Two actions are safe together when they agree on the attributes that
  must be unique, or are links of one mediation in different versions or implementations.  The set
  \<open>seen\<close> has the actions that are safe with an earlier one; membership is by identity, here by
  position.
\<close>

definition unique_differences :: "string list \<Rightarrow> action \<Rightarrow> action \<Rightarrow> string list" where
  "unique_differences ignore a b =
     filter (\<lambda>d. d \<in> set (unique_attrs (a_name a)) \<and> d \<notin> set ignore) (differences a b)"

definition mediated_apart :: "action \<Rightarrow> action \<Rightarrow> bool" where
  "mediated_apart a b \<longleftrightarrow>
     (a_name a = ''link'' \<or> a_name a = ''hardlink'')
     \<and> dget (a_attrs a) ''mediator'' = dget (a_attrs b) ''mediator''
     \<and> (dget (a_attrs a) ''mediator-version'' \<noteq> dget (a_attrs b) ''mediator-version''
        \<or> dget (a_attrs a) ''mediator-implementation'' \<noteq> dget (a_attrs b) ''mediator-implementation'')"

definition safe_pair :: "string list \<Rightarrow> action \<Rightarrow> action \<Rightarrow> bool" where
  "safe_pair ignore a b \<longleftrightarrow>
     differences a b = [] \<or> ''implicit'' \<in> set (differences a b)
     \<or> unique_differences ignore a b = [] \<or> mediated_apart a b"

definition implicit_dir :: "action \<Rightarrow> bool" where
  "implicit_dir a \<longleftrightarrow> a_name a = ''dir'' \<and> has_attr a ''implicit''"

definition index_pairs :: "nat \<Rightarrow> (nat \<times> nat) list" where
  "index_pairs n = concat (map (\<lambda>i. map (\<lambda>j. (i, j)) [Suc i..<n]) [0..<n])"

definition check_pair ::
  "string list \<Rightarrow> 'p delivered list \<Rightarrow> nat \<times> nat \<Rightarrow> nat list \<times> ('p delivered \<times> 'p delivered) list
   \<Rightarrow> nat list \<times> ('p delivered \<times> 'p delivered) list" where
  "check_pair ignore acts = (\<lambda>(i, j) (seen, problems).
     let a = acts ! i; b = acts ! j in
     if implicit_dir (fst a) \<or> j \<in> set seen then (seen, problems)
     else if safe_pair ignore (fst a) (fst b) then (seen @ [j], problems)
     else (seen, problems @ [(a, b)]))"

definition find_inconsistent_attrs ::
  "string list \<Rightarrow> 'p delivered list \<Rightarrow> ('p delivered \<times> 'p delivered) list" where
  "find_inconsistent_attrs ignore acts =
     snd (fold (check_pair ignore acts) (index_pairs (length acts)) ([], []))"

text \<open>\<open>__check_duplicate_actions\<close>; without the switch for broken images of the test suite.\<close>

definition overlay_ignore :: "action \<Rightarrow> action \<Rightarrow> string list" where
  "overlay_ignore ov un =
     ''preserve'' # (if ''deny'' \<notin> set (attrlist ov ''overlay-attributes'')
                       \<and> ''deny'' \<notin> set (attrlist un ''overlay-attributes'')
                     then [''owner'', ''group'', ''mode'', ''sysattr''] else [])"

definition is_overlayable :: "action \<Rightarrow> bool" where
  "is_overlayable a \<longleftrightarrow> a_name a = ''file'' \<and> attr_is a ''overlay'' ''allow'' \<and> has_attr a ''preserve''"

definition is_overlay :: "action \<Rightarrow> bool" where
  "is_overlay a \<longleftrightarrow> a_name a = ''file'' \<and> attr_is a ''overlay'' ''true''"

definition find_last :: "(action \<Rightarrow> bool) \<Rightarrow> 'p delivered list \<Rightarrow> action option" where
  "find_last P acts = find P (rev (map fst acts))"

text \<open>Sorting by the text, which rewrites the literal of a mode.\<close>

definition by_text :: "'p delivered list \<Rightarrow> 'p delivered list" where
  "by_text acts = map (\<lambda>(a, f). (snd (action_str a), f)) (sort_key (fst \<circ> action_str \<circ> fst) acts)"

definition check_duplicate_actions :: "'p delivered list \<Rightarrow> 'p delivered list \<Rightarrow> 'p verdict option" where
  "check_duplicate_actions acts oacts =
     (if acts = [] \<or> length oacts \<le> length acts \<and> length acts = 1 then
        if 1 < length oacts \<and> list_ex (\<lambda>a. attr_is (fst a) ''overlay'' ''true'') oacts
        then Some VOverlay else None
      else if length acts < length oacts then
        if list_ex (\<lambda>a. attr_is (fst a) ''overlay'' ''true'') acts then Some VOverlay
        else if 1 < length acts \<or> list_ex (\<lambda>a. has_attr (fst a) ''preserve'') acts then Some VNothing
        else Some (VFixup (hd acts))
      else
        let oacts' = by_text oacts; acts' = by_text acts in
        if length oacts = length acts \<and> list_all2 (\<lambda>o1 n1. action_eq (fst o1) (fst n1)) oacts' acts'
        then Some VNothing
        else if length acts = 2 then
          (case (find_last is_overlayable acts', find_last is_overlay acts') of
             (Some un, Some ov) \<Rightarrow>
               if find_inconsistent_attrs (overlay_ignore ov un) acts' \<noteq> []
               then Some (VError acts' (Some InconsistentActionAttributeError)) else Some VOverlay
           | _ \<Rightarrow> Some (VError acts' None))
        else Some (VError acts' None))"

text \<open>\<open>__check_inconsistent_attrs\<close>, which no caller gives an empty list.\<close>

definition check_inconsistent_attrs :: "'p delivered list \<Rightarrow> 'p delivered list \<Rightarrow> 'p verdict option" where
  "check_inconsistent_attrs acts oacts =
     (let n = length (find_inconsistent_attrs [] acts); m = length (find_inconsistent_attrs [] oacts) in
      if m < n then Some (VError acts None)
      else if n = 0 \<and> m = 0 then None
      else if n = m then Some VNothing
      else if a_name (fst (hd acts)) \<noteq> ''dir'' then Some (VFixup (hd acts))
      else (case pick_directory acts of Some a \<Rightarrow> Some (VFixup a) | None \<Rightarrow> Some VNothing))"

text \<open>\<open>_check_action_group\<close>: whether the actions at one name conflict with each other.\<close>

definition check_action_group :: "('p \<Rightarrow> 'k::linorder) \<Rightarrow> nsgroup \<Rightarrow> 'p delivered list \<Rightarrow> bool" where
  "check_action_group key ns acts \<longleftrightarrow>
     length acts \<noteq> 1 \<and>
     ((case ns of NsOwn _ \<Rightarrow> False | _ \<Rightarrow> check_inconsistent_types key acts [] \<noteq> None)
      \<or> (let name = a_name (fst (hd acts)) in
         if globally_identical name then
           if refcountable name then check_inconsistent_attrs acts [] \<noteq> None
           else check_duplicate_actions acts [] \<noteq> None
         else False))"

section \<open>What the search for inconsistent attributes finds\<close>

text \<open>The first action that is no implicit directory has to be safe with every later one.\<close>

definition agree :: "string list \<Rightarrow> 'p delivered list \<Rightarrow> bool" where
  "agree ignore acts =
     (case dropWhile (implicit_dir \<circ> fst) acts of
        [] \<Rightarrow> True | a # rest \<Rightarrow> list_all (\<lambda>b. safe_pair ignore (fst a) (fst b)) rest)"

lemma check_pair_grows: "ps \<noteq> [] \<Longrightarrow> snd (fold (check_pair ig acts) xs (seen, ps)) \<noteq> []"
proof (induction xs arbitrary: seen ps)
  case (Cons x xs)
  obtain seen' ps' where s: "check_pair ig acts x (seen, ps) = (seen', ps')" by fastforce
  then have "ps' \<noteq> []" using Cons.prems by (auto simp: check_pair_def Let_def split: prod.splits if_splits)
  then show ?case using Cons.IH by (simp add: s)
qed simp

lemma check_pair_idle:
  "(\<And>i j. (i, j) \<in> set xs \<Longrightarrow> implicit_dir (fst (acts ! i)) \<or> j \<in> set seen) \<Longrightarrow>
    fold (check_pair ig acts) xs (seen, ps) = (seen, ps)"
proof (induction xs)
  case (Cons x xs)
  obtain i j where x: "x = (i, j)" by fastforce
  have "check_pair ig acts x (seen, ps) = (seen, ps)"
    using Cons.prems [of i j] by (auto simp: x check_pair_def Let_def)
  moreover have "fold (check_pair ig acts) xs (seen, ps) = (seen, ps)"
    by (rule Cons.IH) (use Cons.prems in auto)
  ultimately show ?case by simp
qed simp

lemma check_pair_row:
  assumes "\<not> implicit_dir (fst (acts ! i))"
  shows "distinct js \<Longrightarrow> set js \<inter> set seen = {} \<Longrightarrow>
    fold (check_pair ig acts) (map (\<lambda>j. (i, j)) js) (seen, ps)
      = (seen @ filter (\<lambda>j. safe_pair ig (fst (acts ! i)) (fst (acts ! j))) js,
         ps @ map (\<lambda>j. (acts ! i, acts ! j)) (filter (\<lambda>j. \<not> safe_pair ig (fst (acts ! i)) (fst (acts ! j))) js))"
  using assms by (induction js arbitrary: seen ps) (auto simp: check_pair_def Let_def)

lemma index_pairs_split:
  "i < n \<Longrightarrow> \<exists>xs ys. index_pairs n = xs @ map (\<lambda>j. (i, j)) [Suc i..<n] @ ys
    \<and> (\<forall>(k, j) \<in> set xs. k < i) \<and> (\<forall>(k, j) \<in> set ys. i < j \<and> j < n)"
proof -
  assume i: "i < n"
  let ?row = "\<lambda>k. map (\<lambda>j. (k, j)) [Suc k..<n]"
  have "[0..<n] = [0..<i] @ i # [Suc i..<n]"
    using i by (metis upt_add_eq_append upt_conv_Cons le_add_diff_inverse less_imp_le zero_le)
  then have "index_pairs n = concat (map ?row [0..<i]) @ ?row i @ concat (map ?row [Suc i..<n])"
    unfolding index_pairs_def by simp
  moreover have "\<forall>(k, j) \<in> set (concat (map ?row [0..<i])). k < i" by auto
  moreover have "\<forall>(k, j) \<in> set (concat (map ?row [Suc i..<n])). i < j \<and> j < n" by auto
  ultimately show ?thesis by blast
qed

lemma map_nth_drop: "map ((!) xs) [k..<length xs] = drop k xs"
  by (rule nth_equalityI) auto

lemma find_inconsistent_attrs_Nil: "find_inconsistent_attrs ig acts = [] \<longleftrightarrow> agree ig acts"
proof (cases "dropWhile (implicit_dir \<circ> fst) acts")
  case Nil
  then have "\<forall>a \<in> set acts. implicit_dir (fst a)" by simp
  then have "fold (check_pair ig acts) (index_pairs (length acts)) ([], []) = ([], [])"
    by (intro check_pair_idle) (auto simp: index_pairs_def)
  then show ?thesis unfolding agree_def Nil by (simp add: find_inconsistent_attrs_def)
next
  case (Cons a rest)
  let ?pre = "takeWhile (implicit_dir \<circ> fst) acts"
  define i where "i = length ?pre"
  have acts: "?pre @ a # rest = acts" using takeWhile_dropWhile_id [of "implicit_dir \<circ> fst" acts] Cons by simp
  have ai: "acts ! i = a" unfolding i_def by (subst acts [symmetric]) (rule nth_append_length)
  have len: "i < length acts" using arg_cong [OF acts, of length] by (simp add: i_def)
  have a: "\<not> implicit_dir (fst a)" using hd_dropWhile [of "implicit_dir \<circ> fst" acts] Cons by simp
  have pre: "implicit_dir (fst (acts ! k))" if "k < i" for k
    using that set_takeWhileD [of "?pre ! k"] unfolding i_def by (metis comp_apply nth_mem takeWhile_nth)
  obtain xs ys where ip: "index_pairs (length acts) = xs @ map (\<lambda>j. (i, j)) [Suc i..<length acts] @ ys"
    "\<forall>(k, j) \<in> set xs. k < i" "\<forall>(k, j) \<in> set ys. i < j \<and> j < length acts"
    using index_pairs_split [OF len] by blast
  let ?safe = "\<lambda>j. safe_pair ig (fst a) (fst (acts ! j))"
  let ?bad = "map (\<lambda>j. (a, acts ! j)) (filter (\<lambda>j. \<not> ?safe j) [Suc i..<length acts])"
  have "fold (check_pair ig acts) xs ([], []) = ([], [])"
    by (rule check_pair_idle) (use ip(2) pre in auto)
  then have run: "find_inconsistent_attrs ig acts
      = snd (fold (check_pair ig acts) ys (filter ?safe [Suc i..<length acts], ?bad))"
    using ai a by (simp add: find_inconsistent_attrs_def ip(1) check_pair_row)
  have rest: "(\<forall>j \<in> {Suc i..<length acts}. ?safe j) \<longleftrightarrow> list_all (\<lambda>b. safe_pair ig (fst a) (fst b)) rest"
  proof -
    have "rest = drop (Suc i) acts" by (subst acts [symmetric]) (simp add: i_def)
    then have "set rest = (\<lambda>j. acts ! j) ` {Suc i..<length acts}"
      by (metis set_map set_upt map_nth_drop)
    then show ?thesis by (auto simp: list_all_iff)
  qed
  show ?thesis
  proof (cases "\<forall>j \<in> {Suc i..<length acts}. ?safe j")
    case True
    then have "fold (check_pair ig acts) ys (filter ?safe [Suc i..<length acts], ?bad)
        = (filter ?safe [Suc i..<length acts], ?bad)"
      by (intro check_pair_idle) (use ip(3) in auto)
    with True run rest show ?thesis by (simp add: agree_def Cons filter_empty_conv)
  next
    case False
    then have "?bad \<noteq> []" by (auto simp: filter_empty_conv)
    with run rest False show ?thesis by (simp add: agree_def Cons check_pair_grows)
  qed
qed

section \<open>When a group conflicts\<close>

definition clashing :: "nsgroup \<Rightarrow> 'p delivered list \<Rightarrow> bool" where
  "clashing ns acts \<longleftrightarrow>
     1 < length acts \<and>
     (let name = a_name (fst (hd acts)) in
        (case ns of NsOwn _ \<Rightarrow> False | _ \<Rightarrow> \<exists>a \<in> set acts. a_name (fst a) \<noteq> name)
        \<or> globally_identical name \<and> (refcountable name \<longrightarrow> \<not> agree [] acts))"

lemma card_name_set:
  assumes "acts \<noteq> []"
  shows "1 < card (name_set acts) \<longleftrightarrow> (\<exists>a \<in> set acts. a_name (fst a) \<noteq> a_name (fst (hd acts)))"
proof -
  let ?n = "a_name (fst (hd acts))"
  have mem: "?n \<in> name_set acts" using assms by (auto simp: name_set_def intro!: rev_image_eqI [OF hd_in_set])
  have fin: "finite (name_set acts)" by (simp add: name_set_def)
  have "1 < card (name_set acts) \<longleftrightarrow> 0 < card (name_set acts - {?n})"
    using mem fin by (auto simp: card_Diff_singleton)
  also have "\<dots> \<longleftrightarrow> name_set acts - {?n} \<noteq> {}" using fin by (simp add: card_gt_0_iff)
  finally show ?thesis by (auto simp: name_set_def)
qed

lemma check_types_alone:
  assumes "acts \<noteq> []"
  shows "check_inconsistent_types key acts [] \<noteq> None \<longleftrightarrow> (\<exists>a \<in> set acts. a_name (fst a) \<noteq> a_name (fst (hd acts)))"
proof -
  have n: "card (name_set acts) \<noteq> 0" using assms by (simp add: name_set_def)
  have e: "card (name_set ([] :: 'a delivered list)) = 0" by (simp add: name_set_def)
  have "check_inconsistent_types key acts [] \<noteq> None \<longleftrightarrow> 1 < card (name_set acts)"
    using n unfolding check_inconsistent_types_def e Let_def by (simp add: nat_neq_iff)
  then show ?thesis by (simp only: card_name_set [OF assms])
qed

lemma check_duplicates_alone:
  assumes "acts \<noteq> []"
  shows "check_duplicate_actions acts [] \<noteq> None \<longleftrightarrow> 1 < length acts"
proof (cases "length acts = 1")
  case False
  then have "1 < length acts" using assms by (cases acts) auto
  then show ?thesis using assms
    by (simp add: check_duplicate_actions_def Let_def split: option.split)
qed (simp add: check_duplicate_actions_def)

lemma agree_Nil [simp]: "agree ig []"
  by (simp add: agree_def)

lemma check_attrs_alone: "check_inconsistent_attrs acts [] \<noteq> None \<longleftrightarrow> \<not> agree [] acts"
proof -
  have "find_inconsistent_attrs [] ([] :: 'a delivered list) = []" by (simp add: find_inconsistent_attrs_Nil)
  then show ?thesis
    by (auto simp: check_inconsistent_attrs_def Let_def simp flip: find_inconsistent_attrs_Nil split: if_splits)
qed

lemma check_action_group_iff:
  assumes "acts \<noteq> []"
  shows "check_action_group key ns acts \<longleftrightarrow> clashing ns acts"
proof (cases "length acts = 1")
  case False
  then have l: "1 < length acts" using assms by (cases acts) auto
  show ?thesis using l False
    by (simp add: check_action_group_def clashing_def Let_def check_types_alone [OF assms]
        check_duplicates_alone [OF assms] check_attrs_alone del: not_None_eq split: nsgroup.split)
qed (simp add: check_action_group_def clashing_def)

end
