(* ===== verification/Action_Cache.thy ===== *)
theory Action_Cache
  imports Plan_Conflict
begin

text \<open>
  The cache of the actions of the installed packages (\<open>client/actioncache.py\<close>): the tables of its
  database, the statements that the code runs on them, the rebuilding, the update from the
  difference to the installed packages, and the table of conflicting names.
\<close>

section \<open>The database\<close>

text \<open>
  The rows of \<open>packages\<close> are numbers and FMRIs, those of \<open>actions\<close> the package, the name of the action,
  the value of its key attribute and its stripped text, those of \<open>conflicts\<close> the smallest name of a
  group and a value.
\<close>

record adb =
  ac_version :: nat
  ac_meta :: "string dict"
  ac_packages :: "(nat \<times> string) list"
  ac_actions :: "(nat \<times> string \<times> string \<times> string) list"
  ac_conflicts :: "(string \<times> string) list"

datatype cache_file = NoFile | Corrupt | Database adb

datatype cache_exn =
    ReadOnlyCacheError
  | EnvironmentError
  | ActionCacheError
  | DatabaseError
  | RowError act_exn
  | KeyValueError

text \<open>
  The image: the texts of its installed FMRIs, the actions of a package under the image's variants and
  facets, a canonical text for these, and whether the cache can be written.
\<close>

record cenv =
  ce_installed :: "string list"
  ce_manifest :: "string \<Rightarrow> action list"
  ce_signature :: string
  ce_writable :: bool

definition SCHEMA_VERSION :: nat where "SCHEMA_VERSION = 1"
definition CHUNK :: nat where "CHUNK = 500"

definition empty_db :: adb where
  "empty_db = \<lparr>ac_version = 0, ac_meta = [], ac_packages = [], ac_actions = [], ac_conflicts = []\<rparr>"

definition conflict_groups :: "(nsgroup \<times> string list) list" where
  "conflict_groups = [(NsOwn ''driver'', [''driver'']), (NsOwn ''group'', [''group'']),
     (NsPath, [''dir'', ''file'', ''hardlink'', ''link'']), (NsOwn ''legacy'', [''legacy'']),
     (NsOwn ''license'', [''license'']), (NsOwn ''user'', [''user''])]"

definition usable :: "cenv \<Rightarrow> adb \<Rightarrow> bool" where
  "usable env db \<longleftrightarrow> ac_version db = SCHEMA_VERSION \<and> dget (ac_meta db) ''complete'' = Some ''1''
     \<and> dget (ac_meta db) ''excludes'' = Some (ce_signature env)"

definition is_fresh :: "cenv \<Rightarrow> cache_file \<Rightarrow> bool" where
  "is_fresh env file \<longleftrightarrow>
     (case file of Database db \<Rightarrow> usable env db \<and> set (map snd (ac_packages db)) = set (ce_installed env)
      | _ \<Rightarrow> False)"

text \<open>\<open>__chunks\<close>: at most so many values for one statement.\<close>

function chunks :: "nat \<Rightarrow> 'a list \<Rightarrow> 'a list list" where
  "chunks n xs = (if xs = [] \<or> n = 0 then [] else take n xs # chunks n (drop n xs))"
  by auto
termination by (relation "measure (\<lambda>(n, xs). length xs)") auto

declare chunks.simps [simp del]

section \<open>The rows of a package\<close>

definition gen_package_row :: "action \<Rightarrow> cache_exn + string \<times> string \<times> string" where
  "gen_package_row act =
     (let a = strip [] act in
      case key_attr (a_name a) of
        None \<Rightarrow> Inl KeyValueError
      | Some k \<Rightarrow> (case dget (a_attrs a) k of
            Some (AStr v) \<Rightarrow> Inr (a_name a, v, fst (action_str a)) | _ \<Rightarrow> Inl KeyValueError))"

definition gen_package_rows :: "cenv \<Rightarrow> string \<Rightarrow> cache_exn + (string \<times> string \<times> string) list" where
  "gen_package_rows env f = smap gen_package_row (filter (\<lambda>a. globally_identical (a_name a)) (ce_manifest env f))"

text \<open>A new row of \<open>packages\<close> gets the number after the largest.\<close>

definition next_id :: "(nat \<times> string) list \<Rightarrow> nat" where
  "next_id ps = Suc (fold max (map fst ps) 0)"

definition insert_package :: "cenv \<Rightarrow> string \<Rightarrow> adb \<Rightarrow> cache_exn + adb" where
  "insert_package env f db =
     (let i = next_id (ac_packages db) in
      sbind (gen_package_rows env f) (\<lambda>rows.
        Inr (db\<lparr>ac_packages := ac_packages db @ [(i, f)],
                ac_actions := ac_actions db @ map (\<lambda>r. (i, r)) rows\<rparr>)))"

fun insert_packages :: "cenv \<Rightarrow> string list \<Rightarrow> adb \<Rightarrow> cache_exn + adb" where
  "insert_packages env [] db = Inr db"
| "insert_packages env (f # fs) db = sbind (insert_package env f db) (insert_packages env fs)"

definition delete_packages :: "nat list \<Rightarrow> adb \<Rightarrow> adb" where
  "delete_packages ids db =
     db\<lparr>ac_actions := filter (\<lambda>r. fst r \<notin> set ids) (ac_actions db),
        ac_packages := filter (\<lambda>p. fst p \<notin> set ids) (ac_packages db)\<rparr>"

section \<open>The conflicts\<close>

text \<open>
  The candidates: the values delivered more than once, unless by one type of action that may be
  delivered again and with one text.
\<close>

definition rows_at :: "string list \<Rightarrow> string \<Rightarrow> (nat \<times> string \<times> string \<times> string) list
    \<Rightarrow> (nat \<times> string \<times> string \<times> string) list" where
  "rows_at names k rows = filter (\<lambda>(i, n, v, t). n \<in> set names \<and> v = k) rows"

definition suspicious :: "string list \<Rightarrow> (nat \<times> string \<times> string \<times> string) list \<Rightarrow> bool" where
  "suspicious names rs \<longleftrightarrow>
     1 < length rs \<and>
     \<not> (length (remdups (map (\<lambda>(i, n, v, t). n) rs)) = 1 \<and> length (remdups (map (\<lambda>(i, n, v, t). t) rs)) = 1
        \<and> hd (sort (map (\<lambda>(i, n, v, t). n) rs)) \<in> set (filter refcountable names))"

definition candidates :: "adb \<Rightarrow> string list \<Rightarrow> string list option \<Rightarrow> string list" where
  "candidates db names keys =
     filter (\<lambda>k. suspicious names (rows_at names k (ac_actions db)))
       (remdups (map (\<lambda>(i, n, v, t). v) (filter (\<lambda>(i, n, v, t). n \<in> set names
           \<and> (case keys of None \<Rightarrow> True | Some ks \<Rightarrow> v \<in> set ks)) (ac_actions db))))"

definition parse_row :: "string \<times> string \<Rightarrow> cache_exn + string delivered" where
  "parse_row = (\<lambda>(t, f). case fromstr t of Inl e \<Rightarrow> Inl (RowError e) | Inr a \<Rightarrow> Inr (a, f))"

text \<open>The join with \<open>packages\<close> leaves out the rows of unknown packages.\<close>

definition joined :: "adb \<Rightarrow> string list \<Rightarrow> string list \<Rightarrow> (string \<times> string \<times> string) list" where
  "joined db names keys =
     List.map_filter (\<lambda>(i, n, v, t). if n \<in> set names \<and> v \<in> set keys
         then map_option (\<lambda>f. (v, t, f)) (map_of (ac_packages db) i) else None) (ac_actions db)"

definition bad_keys :: "adb \<Rightarrow> nsgroup \<Rightarrow> string list \<Rightarrow> string list \<Rightarrow> cache_exn + string list" where
  "bad_keys db ns names keys =
     (let js = joined db names keys in
      sbind (smap (\<lambda>(v, r). sbind (parse_row r) (\<lambda>d. Inr (v, d))) js) (\<lambda>ds.
        Inr (filter (\<lambda>k. check_action_group id ns (map snd (filter (\<lambda>(v, d). v = k) ds)))
               (remdups (map fst ds)))))"

definition bad_in :: "adb \<Rightarrow> nsgroup \<Rightarrow> string list \<Rightarrow> string list option \<Rightarrow> cache_exn + string list" where
  "bad_in db ns names keys =
     sbind (smap (bad_keys db ns names) (chunks CHUNK (candidates db names keys))) (\<lambda>kss. Inr (concat kss))"

definition put_conflicts :: "string \<Rightarrow> string list \<Rightarrow> (string \<times> string) list \<Rightarrow> (string \<times> string) list" where
  "put_conflicts rep ks cs = filter (\<lambda>c. c \<notin> (\<lambda>k. (rep, k)) ` set ks) cs @ map (\<lambda>k. (rep, k)) (sort (remdups ks))"

text \<open>\<open>__refresh_conflicts\<close> for one group; \<open>affected\<close> is \<open>None\<close> for the whole table.\<close>

definition refresh_group ::
  "(string \<times> string) list option \<Rightarrow> nsgroup \<times> string list \<Rightarrow> adb \<Rightarrow> cache_exn + adb" where
  "refresh_group affected = (\<lambda>(ns, names) db.
     case affected of
       None \<Rightarrow> sbind (bad_in db ns names None) (\<lambda>bad.
         Inr (db\<lparr>ac_conflicts := put_conflicts (hd names) bad (ac_conflicts db)\<rparr>))
     | Some as \<Rightarrow>
         let kss = chunks CHUNK (sort (remdups (map snd (filter (\<lambda>(n, v). n \<in> set names) as)))) in
         sbind (smap (\<lambda>ks. bad_in db ns names (Some ks)) kss) (\<lambda>bads.
         Inr (db\<lparr>ac_conflicts := put_conflicts (hd names) (concat bads)
               (filter (\<lambda>(r, k). \<not> (r = hd names \<and> k \<in> set (concat kss))) (ac_conflicts db))\<rparr>)))"

fun refresh_groups ::
  "(string \<times> string) list option \<Rightarrow> (nsgroup \<times> string list) list \<Rightarrow> adb \<Rightarrow> cache_exn + adb" where
  "refresh_groups affected [] db = Inr db"
| "refresh_groups affected (g # gs) db = sbind (refresh_group affected g db) (refresh_groups affected gs)"

definition refresh_conflicts :: "(string \<times> string) list option \<Rightarrow> adb \<Rightarrow> cache_exn + adb" where
  "refresh_conflicts affected db =
     refresh_groups affected conflict_groups (if affected = None then db\<lparr>ac_conflicts := []\<rparr> else db)"

section \<open>Rebuilding and updating\<close>

definition cache_rebuild :: "cenv \<Rightarrow> cache_exn + adb" where
  "cache_rebuild env =
     (if \<not> ce_writable env then Inl EnvironmentError
      else
        sbind (insert_packages env (ce_installed env) empty_db) (\<lambda>db.
        sbind (refresh_conflicts None db) (\<lambda>db.
        Inr (db\<lparr>ac_meta := [(''excludes'', ce_signature env), (''complete'', ''1'')],
                ac_version := SCHEMA_VERSION\<rparr>))))"

text \<open>
  The names and values that an update touches: those of the rows it deletes, and of those it inserts.
\<close>

definition touched_by :: "nat list \<Rightarrow> adb \<Rightarrow> (string \<times> string) list" where
  "touched_by ids db = remdups (map (\<lambda>(i, n, v, t). (n, v)) (filter (\<lambda>r. fst r \<in> set ids) (ac_actions db)))"

fun delete_chunks :: "nat list list \<Rightarrow> adb \<Rightarrow> (string \<times> string) list \<Rightarrow> adb \<times> (string \<times> string) list" where
  "delete_chunks [] db affected = (db, affected)"
| "delete_chunks (ids # idss) db affected =
     delete_chunks idss (delete_packages ids db) (affected @ touched_by ids db)"

definition incremental :: "cenv \<Rightarrow> adb \<Rightarrow> cache_exn + adb" where
  "incremental env db =
     (let extra = map fst (filter (\<lambda>(i, f). f \<notin> set (ce_installed env)) (ac_packages db));
          missing = filter (\<lambda>f. f \<notin> set (map snd (ac_packages db))) (ce_installed env)
      in if extra = [] \<and> missing = [] then Inr db
         else
           let (db1, gone) = delete_chunks (chunks CHUNK extra) db [] in
           sbind (insert_packages env missing db1) (\<lambda>db2.
           let new = map (\<lambda>(i, n, v, t). (n, v)) (drop (length (ac_actions db1)) (ac_actions db2)) in
           refresh_conflicts (Some (gone @ new)) db2))"

definition cache_update :: "cenv \<Rightarrow> cache_file \<Rightarrow> cache_exn + adb" where
  "cache_update env file =
     (case file of
        NoFile \<Rightarrow> cache_rebuild env
      | Corrupt \<Rightarrow> if ce_writable env then cache_rebuild env else Inl ReadOnlyCacheError
      | Database db \<Rightarrow>
          if \<not> ce_writable env then Inl ReadOnlyCacheError
          else if usable env db then incremental env db else cache_rebuild env)"

section \<open>Reading\<close>

definition get_actions_of ::
  "string list \<Rightarrow> string list \<Rightarrow> cache_file \<Rightarrow> cache_exn + (string \<times> string \<times> string) list" where
  "get_actions_of anames keys file =
     (case file of
        Database db \<Rightarrow>
          Inr (concat (map (\<lambda>ks. map (\<lambda>(v, n, f, t). (v, f, t))
            (sort_key (\<lambda>(v, n, f, t). [v, n, f, t])
              (List.map_filter (\<lambda>(i, n, v, t). if n \<in> set anames \<and> v \<in> set ks
                  then map_option (\<lambda>f. (v, n, f, t)) (map_of (ac_packages db) i) else None)
                (ac_actions db)))) (chunks CHUNK keys)))
      | NoFile \<Rightarrow> Inl ActionCacheError
      | Corrupt \<Rightarrow> Inl DatabaseError)"

definition has_conflicts :: "cache_file \<Rightarrow> bool" where
  "has_conflicts file = (case file of Database db \<Rightarrow> ac_conflicts db \<noteq> [] | _ \<Rightarrow> True)"

definition conflicting_keys :: "cache_file \<Rightarrow> string set option" where
  "conflicting_keys file = (case file of Database db \<Rightarrow> Some (set (map snd (ac_conflicts db))) | _ \<Rightarrow> None)"

text \<open>\<open>__dumpdb\<close>, which \<open>selfcheck\<close> compares with a rebuilt cache.\<close>

definition dumpdb :: "adb \<Rightarrow> (string \<times> string \<times> string \<times> string) set \<times> (string \<times> string) set" where
  "dumpdb db =
     (set (List.map_filter (\<lambda>(i, n, v, t). map_option (\<lambda>f. (f, n, v, t)) (map_of (ac_packages db) i)) (ac_actions db)),
      set (ac_conflicts db))"

definition selfcheck :: "cenv \<Rightarrow> adb \<Rightarrow> cache_exn + bool" where
  "selfcheck env db = sbind (cache_rebuild env) (\<lambda>ref. Inr (dumpdb db = dumpdb ref))"

end
