(* ===== verification/Action_Cache_Facts.thy ===== *)
theory Action_Cache_Facts
  imports Action_Cache "HOL-Library.Multiset"
begin

text \<open>
  The cache of actions: its invariant, what the table of conflicts holds, and that an update leaves
  what a rebuilding would.
\<close>

section \<open>Conflicts without their order\<close>

text \<open>
  Actions of one name conflict when there are several of them and they differ in type, may not be
  delivered again or two are not safe together.  Whether the check finds this depends on no order as
  long as being safe is transitive (\<open>orderly\<close>), which links of one mediation can break.
\<close>

definition rows_clash :: "action list \<Rightarrow> bool" where
  "rows_clash as \<longleftrightarrow> 1 < length as \<and>
     ((\<exists>a \<in> set as. \<exists>b \<in> set as. a_name a \<noteq> a_name b) \<or> (\<exists>a \<in> set as. \<not> refcountable (a_name a))
      \<or> (\<exists>a \<in> set as. \<exists>b \<in> set as. \<not> safe_pair [] a b))"

definition orderly :: "action set \<Rightarrow> bool" where
  "orderly A \<longleftrightarrow> (\<forall>a \<in> A. \<forall>b \<in> A. \<forall>c \<in> A. safe_pair [] a b \<longrightarrow> safe_pair [] a c \<longrightarrow> safe_pair [] b c)"

lemma safe_pair_refl [simp]: "safe_pair ig a a"
proof -
  have "differences a a = []" using set_differences [of a a] by simp
  then show ?thesis by (simp add: safe_pair_def)
qed

lemma agree_pairwise:
  assumes "orderly (fst ` set acts)" "\<forall>d \<in> set acts. \<not> implicit_dir (fst d)"
  shows "agree [] acts \<longleftrightarrow> (\<forall>a \<in> fst ` set acts. \<forall>b \<in> fst ` set acts. safe_pair [] a b)"
proof (cases acts)
  case (Cons d ds)
  have "agree [] acts \<longleftrightarrow> (\<forall>b \<in> set ds. safe_pair [] (fst d) (fst b))"
    using assms(2) by (simp add: agree_def Cons list_all_iff)
  also have "\<dots> \<longleftrightarrow> (\<forall>b \<in> fst ` set acts. safe_pair [] (fst d) b)" by (simp add: Cons)
  finally have ag: "agree [] acts \<longleftrightarrow> (\<forall>b \<in> fst ` set acts. safe_pair [] (fst d) b)" .
  have "fst d \<in> fst ` set acts" by (simp add: Cons)
  then show ?thesis unfolding ag using assms(1) unfolding orderly_def by blast
qed simp

lemma clashing_rows:
  assumes "acts \<noteq> []" "orderly (fst ` set acts)"
    and "\<forall>d \<in> set acts. \<not> implicit_dir (fst d) \<and> globally_identical (a_name (fst d))"
    and "case ns of NsOwn n \<Rightarrow> \<forall>d \<in> set acts. a_name (fst d) = n | _ \<Rightarrow> True"
  shows "clashing ns acts \<longleftrightarrow> rows_clash (map fst acts)"
proof -
  define n where "n = a_name (fst (hd acts))"
  have mem: "hd acts \<in> set acts" using assms(1) by simp
  have gi: "globally_identical n" using assms(3) mem by (simp add: n_def)
  have ag: "agree [] acts \<longleftrightarrow> (\<forall>a \<in> fst ` set acts. \<forall>b \<in> fst ` set acts. safe_pair [] a b)"
    using agree_pairwise [OF assms(2)] assms(3) by blast
  have cl: "clashing ns acts \<longleftrightarrow> 1 < length acts \<and>
     ((case ns of NsOwn _ \<Rightarrow> False | _ \<Rightarrow> \<exists>a \<in> set acts. a_name (fst a) \<noteq> n) \<or> (refcountable n \<longrightarrow> \<not> agree [] acts))"
    by (simp add: clashing_def n_def [symmetric] gi Let_def)
  show ?thesis
  proof (cases "\<forall>d \<in> set acts. a_name (fst d) = n")
    case True
    then have "\<not> (case ns of NsOwn _ \<Rightarrow> False | _ \<Rightarrow> \<exists>a \<in> set acts. a_name (fst a) \<noteq> n)"
      by (simp split: nsgroup.split)
    moreover have "\<not> (\<exists>a \<in> fst ` set acts. \<exists>b \<in> fst ` set acts. a_name a \<noteq> a_name b)" using True by simp
    moreover have "(\<exists>a \<in> fst ` set acts. \<not> refcountable (a_name a)) \<longleftrightarrow> \<not> refcountable n"
      using True mem by (metis image_iff)
    ultimately show ?thesis unfolding cl ag rows_clash_def set_map length_map by blast
  next
    case False
    then have "case ns of NsOwn _ \<Rightarrow> False | _ \<Rightarrow> \<exists>a \<in> set acts. a_name (fst a) \<noteq> n"
      using assms(4) mem by (cases ns) (auto simp: n_def)
    moreover have "\<exists>a \<in> fst ` set acts. \<exists>b \<in> fst ` set acts. a_name a \<noteq> a_name b"
      using False mem n_def by blast
    ultimately show ?thesis unfolding cl rows_clash_def set_map length_map by blast
  qed
qed

lemma rows_clash_mset: "mset as = mset bs \<Longrightarrow> rows_clash as \<longleftrightarrow> rows_clash bs"
  using mset_eq_setD [of as bs] mset_eq_length [of as bs] unfolding rows_clash_def by simp

section \<open>Chunks\<close>

lemma concat_chunks: "0 < n \<Longrightarrow> concat (chunks n xs) = xs"
proof (induction n xs rule: chunks.induct)
  case (1 n xs)
  show ?case
  proof (cases "xs = []")
    case False
    then have "concat (chunks n (drop n xs)) = drop n xs" using 1 by simp
    then show ?thesis using False 1(2) by (simp add: chunks.simps [of n xs])
  qed (simp add: chunks.simps)
qed

lemma smap_all: "(\<And>x. x \<in> set xs \<Longrightarrow> f x = Inr (g x)) \<Longrightarrow> smap f xs = Inr (map g xs)"
  by (induction xs) auto

lemma smap_map_all: "(\<And>x. x \<in> set xs \<Longrightarrow> f (h x) = Inr (g x)) \<Longrightarrow> smap f (map h xs) = Inr (map g xs)"
  by (induction xs) auto

section \<open>The rows of the packages\<close>

text \<open>Every row parses to an action of its type.\<close>

definition row_ok :: "string \<times> string \<times> string \<Rightarrow> bool" where
  "row_ok = (\<lambda>(n, v, t). globally_identical n \<and>
     (case fromstr t of Inl e \<Rightarrow> False | Inr a \<Rightarrow> a_name a = n \<and> \<not> has_attr a ''implicit''))"

definition row_act :: "nat \<times> string \<times> string \<times> string \<Rightarrow> action" where
  "row_act = (\<lambda>(i, n, v, t). projr (fromstr t))"

definition acts_at :: "adb \<Rightarrow> string list \<Rightarrow> string \<Rightarrow> action list" where
  "acts_at db names k = map row_act (rows_at names k (ac_actions db))"

definition known_rows :: "adb \<Rightarrow> bool" where
  "known_rows db \<longleftrightarrow> (\<forall>r \<in> set (ac_actions db). fst r \<in> set (map fst (ac_packages db)) \<and> row_ok (snd r))"

definition tidy_groups :: "adb \<Rightarrow> bool" where
  "tidy_groups db \<longleftrightarrow> (\<forall>(ns, names) \<in> set conflict_groups. \<forall>k. orderly (set (acts_at db names k)))"

lemma row_okE:
  assumes "row_ok (n, v, t)"
  obtains a where "fromstr t = Inr a" "a_name a = n" "globally_identical n" "\<not> has_attr a ''implicit''"
  using assms by (auto simp: row_ok_def split: sum.splits)

lemma rows_at_iff: "(i, n, v, t) \<in> set (rows_at names k rows) \<longleftrightarrow> (i, n, v, t) \<in> set rows \<and> n \<in> set names \<and> v = k"
  by (auto simp: rows_at_def)

text \<open>The statement that reads a group finds the rows of each value.\<close>

lemma joined_known:
  assumes "known_rows db"
  shows "joined db names keys = map (\<lambda>(i, n, v, t). (v, t, the (map_of (ac_packages db) i)))
     (filter (\<lambda>(i, n, v, t). n \<in> set names \<and> v \<in> set keys) (ac_actions db))"
proof -
  have "List.map_filter (\<lambda>(i, n, v, t). if n \<in> set names \<and> v \<in> set keys
         then map_option (\<lambda>f. (v, t, f)) (map_of (ac_packages db) i) else None) rows
      = map (\<lambda>(i, n, v, t). (v, t, the (map_of (ac_packages db) i)))
         (filter (\<lambda>(i, n, v, t). n \<in> set names \<and> v \<in> set keys) rows)"
    if "set rows \<subseteq> set (ac_actions db)" for rows
    using that
  proof (induction rows)
    case (Cons r rows)
    obtain i n v t where r: "r = (i, n, v, t)" by (cases r) auto
    have "fst r \<in> set (map fst (ac_packages db))" using Cons.prems assms by (simp add: known_rows_def)
    then have "map_of (ac_packages db) i \<noteq> None" by (simp add: r map_of_eq_None_iff)
    with Cons show ?case by (auto simp: r List.map_filter_simps)
  qed (simp add: List.map_filter_simps)
  then show ?thesis by (simp add: joined_def)
qed

definition db_clash :: "adb \<Rightarrow> string list \<Rightarrow> string \<Rightarrow> bool" where
  "db_clash db names k \<longleftrightarrow> rows_clash (acts_at db names k)"

lemma group_types: "(NsOwn n, names) \<in> set conflict_groups \<Longrightarrow> names = [n]"
  by (auto simp: conflict_groups_def)

lemma bad_keys_clash:
  assumes db: "known_rows db" "tidy_groups db" and g: "(ns, names) \<in> set conflict_groups"
  shows "\<exists>ks. bad_keys db ns names keys = Inr ks \<and> set ks = {k \<in> set keys. db_clash db names k}"
proof -
  let ?rows = "filter (\<lambda>(i, n, v, t). n \<in> set names \<and> v \<in> set keys) (ac_actions db)"
  let ?del = "\<lambda>r. (row_act r, the (map_of (ac_packages db) (fst r)))"
  let ?ds = "map (\<lambda>r. (fst (snd (snd r)), ?del r)) ?rows"
  have "smap (\<lambda>(v, r). sbind (parse_row r) (\<lambda>d. Inr (v, d))) (joined db names keys) = Inr ?ds"
  proof -
    have "(case (case r of (i, n, v, t) \<Rightarrow> (v, t, the (map_of (ac_packages db) i))) of
        (v, r) \<Rightarrow> sbind (parse_row r) (\<lambda>d. Inr (v, d))) = Inr (fst (snd (snd r)), ?del r)"
      if "r \<in> set ?rows" for r
    proof -
      obtain i n v t where r: "r = (i, n, v, t)" by (cases r) auto
      have "row_ok (n, v, t)" using that db(1) by (auto simp: known_rows_def r)
      then obtain a where "fromstr t = Inr a" by (rule row_okE)
      then show ?thesis by (simp add: r parse_row_def row_act_def)
    qed
    then show ?thesis unfolding joined_known [OF db(1)] by (rule smap_map_all)
  qed
  then have bk: "bad_keys db ns names keys
      = Inr (filter (\<lambda>k. check_action_group id ns (map snd (filter (\<lambda>(v, d). v = k) ?ds))) (remdups (map fst ?ds)))"
    by (simp add: bad_keys_def)
  have grp: "map snd (filter (\<lambda>(v, d). v = k) ?ds) = map ?del (rows_at names k (ac_actions db))" if "k \<in> set keys" for k
    using that unfolding rows_at_def
    by (simp add: filter_map o_def) (rule arg_cong [where f = "map ?del"], rule filter_cong, auto)
  have at: "k \<in> set (map fst ?ds) \<longleftrightarrow> k \<in> set keys \<and> rows_at names k (ac_actions db) \<noteq> []" for k
    by (auto simp: rows_at_def filter_empty_conv image_iff Bex_def)
  have cl: "check_action_group id ns (map ?del (rows_at names k (ac_actions db))) \<longleftrightarrow> db_clash db names k"
    if ne: "rows_at names k (ac_actions db) \<noteq> []" for k
  proof -
    let ?acts = "map ?del (rows_at names k (ac_actions db))"
    have each: "\<not> implicit_dir (row_act r) \<and> globally_identical (a_name (row_act r)) \<and> a_name (row_act r) \<in> set names"
      if "r \<in> set (rows_at names k (ac_actions db))" for r
    proof -
      obtain i n v t where r: "r = (i, n, v, t)" by (cases r) auto
      have "row_ok (n, v, t)" "n \<in> set names" using that db(1) by (auto simp: r known_rows_def rows_at_iff)
      then show ?thesis by (auto simp: r row_act_def implicit_dir_def elim: row_okE)
    qed
    have fst: "fst ` set ?acts = set (acts_at db names k)" "map fst ?acts = acts_at db names k"
      by (auto simp: acts_at_def image_image)
    have "check_action_group id ns ?acts \<longleftrightarrow> clashing ns ?acts"
      by (rule check_action_group_iff) (use ne in simp)
    also have "\<dots> \<longleftrightarrow> rows_clash (map fst ?acts)"
    proof (rule clashing_rows)
      show "orderly (fst ` set ?acts)" unfolding fst using db(2) g by (auto simp: tidy_groups_def)
      show "case ns of NsOwn n \<Rightarrow> \<forall>d \<in> set ?acts. a_name (fst d) = n | _ \<Rightarrow> True"
        using each group_types g by (cases ns) fastforce+
    qed (use ne each in auto)
    finally show ?thesis unfolding fst db_clash_def .
  qed
  have none: "\<not> db_clash db names k" if "rows_at names k (ac_actions db) = []" for k
    using that by (simp add: db_clash_def acts_at_def rows_clash_def)
  have "k \<in> set (map fst ?ds) \<and> check_action_group id ns (map snd (filter (\<lambda>(v, d). v = k) ?ds))
      \<longleftrightarrow> k \<in> set keys \<and> db_clash db names k" for k
  proof (cases "k \<in> set keys \<and> rows_at names k (ac_actions db) \<noteq> []")
    case True
    then show ?thesis unfolding at using grp cl by (simp only: simp_thms)
  next
    case False
    then show ?thesis unfolding at using none by blast
  qed
  then have "set (filter (\<lambda>k. check_action_group id ns (map snd (filter (\<lambda>(v, d). v = k) ?ds))) (remdups (map fst ?ds)))
      = {k \<in> set keys. db_clash db names k}"
    unfolding set_filter set_remdups by blast
  then show ?thesis unfolding bk by blast
qed

end
