(* ===== verification/Action_Cache_Refresh.thy ===== *)
theory Action_Cache_Refresh
  imports Action_Cache_Facts
begin

text \<open>
  The table of conflicts of the cache of actions: the candidates leave out no conflict, and the
  refreshing of the table makes it hold the conflicts of the rows.
\<close>

section \<open>Candidates\<close>

lemma rows_at_names: "r \<in> set (rows_at names k rows) \<Longrightarrow> fst (snd r) \<in> set names"
  by (auto simp: rows_at_def)

lemma length_remdups_1: "length (remdups xs) = 1 \<longleftrightarrow> (\<exists>x. set xs = {x})"
proof
  assume "length (remdups xs) = 1"
  then obtain x where "remdups xs = [x]" by (auto simp: length_Suc_conv)
  then show "\<exists>x. set xs = {x}" by (metis set_remdups list.set(1) list.set(2))
next
  assume "\<exists>x. set xs = {x}"
  then show "length (remdups xs) = 1" by (metis is_singletonI is_singleton_altdef length_remdups_card_conv)
qed

lemma unsuspicious_safe:
  assumes rows: "\<And>r. r \<in> set rs \<Longrightarrow> row_ok (snd r)" and "\<not> suspicious names rs"
  shows "\<not> rows_clash (map row_act rs)"
proof (cases "1 < length rs")
  case True
  then have ne: "rs \<noteq> []" by auto
  obtain n t where n: "set (map (\<lambda>(i, n, v, t). n) rs) = {n}" and t: "set (map (\<lambda>(i, n, v, t). t) rs) = {t}"
    and ref: "hd (sort (map (\<lambda>(i, n, v, t). n) rs)) \<in> set (filter refcountable names)"
    using assms(2) True unfolding suspicious_def length_remdups_1 by blast
  have "hd (sort (map (\<lambda>(i, n, v, t). n) rs)) \<in> set (sort (map (\<lambda>(i, n, v, t). n) rs))"
    using ne by (intro hd_in_set) (metis length_sort length_map length_0_conv)
  then have "refcountable n" using ref n by auto
  have each: "row_act r = projr (fromstr t) \<and> a_name (row_act r) = n" if "r \<in> set rs" for r
  proof -
    obtain i n' v t' where r: "r = (i, n', v, t')" by (cases r) auto
    have "n' \<in> set (map (\<lambda>(i, n, v, t). n) rs)" "t' \<in> set (map (\<lambda>(i, n, v, t). t) rs)"
      using that by (force simp: r)+
    then have "n' = n" "t' = t" by (simp_all only: n t singleton_iff)
    moreover have "row_ok (n', v, t')" using rows [OF that] by (simp add: r)
    ultimately show ?thesis by (auto simp: r row_act_def elim: row_okE)
  qed
  define a where "a = projr (fromstr t)"
  have all: "row_act r = a \<and> a_name a = n" if "r \<in> set rs" for r using each [OF that] unfolding a_def by metis
  have "set (map row_act rs) = {a}" "a_name a = n"
    using all hd_in_set [OF ne] unfolding set_map by (blast intro: sym)+
  then show ?thesis unfolding rows_clash_def using \<open>refcountable n\<close> by (simp del: set_map)
qed (simp add: rows_clash_def)

lemma clash_candidate:
  assumes "known_rows db" "db_clash db names k" "case keys of None \<Rightarrow> True | Some ks \<Rightarrow> k \<in> set ks"
  shows "k \<in> set (candidates db names keys)"
proof -
  let ?rs = "rows_at names k (ac_actions db)"
  have clash: "rows_clash (map row_act ?rs)" using assms(2) by (simp add: db_clash_def acts_at_def)
  then have "?rs \<noteq> []" by (auto simp: rows_clash_def)
  then obtain i n v t where "(i, n, v, t) \<in> set ?rs" by (metis prod_cases4 list.set_intros(1) neq_Nil_conv)
  then have r: "(i, n, k, t) \<in> set (ac_actions db)" "n \<in> set names" by (auto simp: rows_at_def)
  have "suspicious names ?rs"
    using unsuspicious_safe [of ?rs names] clash assms(1) by (auto simp: rows_at_def known_rows_def)
  then show ?thesis using r assms(3) unfolding candidates_def by (auto intro!: rev_image_eqI)
qed

lemma smap_some: "(\<And>x. x \<in> set xs \<Longrightarrow> \<exists>y. f x = Inr y \<and> P x y) \<Longrightarrow> \<exists>ys. smap f xs = Inr ys \<and> list_all2 P xs ys"
proof (induction xs)
  case (Cons x xs)
  obtain y where "f x = Inr y" "P x y" using Cons.prems [of x] by auto
  moreover obtain ys where "smap f xs = Inr ys" "list_all2 P xs ys" using Cons by auto
  ultimately show ?case by auto
qed simp

lemma smap_sets:
  assumes "\<And>x. x \<in> set xs \<Longrightarrow> \<exists>ys. f x = Inr ys \<and> set ys = g x"
  shows "\<exists>yss. smap f xs = Inr yss \<and> set (concat yss) = (\<Union>x \<in> set xs. g x)"
proof -
  obtain yss where ys: "smap f xs = Inr yss" "list_all2 (\<lambda>x ys. set ys = g x) xs yss"
    using smap_some [of xs f "\<lambda>x ys. set ys = g x"] assms by blast
  from ys(2) have "set (concat yss) = (\<Union>x \<in> set xs. g x)" by (induction) auto
  then show ?thesis using ys(1) by blast
qed

lemma Union_chunks: "0 < n \<Longrightarrow> (\<Union>c \<in> set (chunks n xs). set c) = set xs"
  using arg_cong [OF concat_chunks [of n xs], of set] by simp

lemma CHUNK_pos [simp]: "0 < CHUNK"
  by (simp add: CHUNK_def)

lemma bad_in_clash:
  assumes "known_rows db" "tidy_groups db" "(ns, names) \<in> set conflict_groups"
  shows "\<exists>ks. bad_in db ns names keys = Inr ks \<and>
    set ks = {k. (case keys of None \<Rightarrow> True | Some as \<Rightarrow> k \<in> set as) \<and> db_clash db names k}"
proof -
  let ?cs = "chunks CHUNK (candidates db names keys)"
  obtain kss where k: "smap (bad_keys db ns names) ?cs = Inr kss"
    "set (concat kss) = (\<Union>c \<in> set ?cs. {k \<in> set c. db_clash db names k})"
    using smap_sets [of ?cs "bad_keys db ns names" "\<lambda>c. {k \<in> set c. db_clash db names k}"]
      bad_keys_clash [OF assms] by blast
  have "(\<Union>c \<in> set ?cs. {k \<in> set c. db_clash db names k}) = {k \<in> \<Union>c \<in> set ?cs. set c. db_clash db names k}"
    by blast
  also have "\<dots> = {k \<in> set (candidates db names keys). db_clash db names k}" by (simp add: Union_chunks)
  also have "\<dots> = {k. (case keys of None \<Rightarrow> True | Some as \<Rightarrow> k \<in> set as) \<and> db_clash db names k}"
  proof -
    have "k \<in> set (candidates db names keys) \<Longrightarrow> case keys of None \<Rightarrow> True | Some ks \<Rightarrow> k \<in> set ks" for k
      by (auto simp: candidates_def split: option.splits)
    then show ?thesis using clash_candidate [OF assms(1), of names _ keys] by blast
  qed
  finally show ?thesis using k by (simp add: bad_in_def)
qed

section \<open>Refreshing\<close>

definition hit :: "(string \<times> string) list option \<Rightarrow> string list \<Rightarrow> string \<Rightarrow> bool" where
  "hit affected names k = (case affected of None \<Rightarrow> True | Some as \<Rightarrow> \<exists>n \<in> set names. (n, k) \<in> set as)"

lemma rows_independent [simp]:
  "db_clash (db\<lparr>ac_conflicts := cs\<rparr>) = db_clash db"
  "known_rows (db\<lparr>ac_conflicts := cs\<rparr>) = known_rows db"
  "tidy_groups (db\<lparr>ac_conflicts := cs\<rparr>) = tidy_groups db"
  by (simp_all add: fun_eq_iff db_clash_def acts_at_def known_rows_def tidy_groups_def)

lemma set_put_conflicts: "set (put_conflicts rep ks cs) = set cs \<union> (\<lambda>k. (rep, k)) ` set ks"
  by (auto simp: put_conflicts_def)

lemma refresh_group_set:
  assumes db: "known_rows db" "tidy_groups db" "(ns, names) \<in> set conflict_groups"
    and fresh: "affected = None \<Longrightarrow> hd names \<notin> fst ` set (ac_conflicts db)"
  shows "\<exists>cs. refresh_group affected (ns, names) db = Inr (db\<lparr>ac_conflicts := cs\<rparr>) \<and>
    (\<forall>r k. (r, k) \<in> set cs \<longleftrightarrow> (if r = hd names \<and> hit affected names k then db_clash db names k
                                       else (r, k) \<in> set (ac_conflicts db)))"
proof (cases affected)
  case None
  obtain ks where "bad_in db ns names None = Inr ks" "set ks = {k. db_clash db names k}"
    using bad_in_clash [OF db, of None] by auto
  then have "refresh_group affected (ns, names) db
      = Inr (db\<lparr>ac_conflicts := put_conflicts (hd names) ks (ac_conflicts db)\<rparr>)"
    "\<forall>r k. (r, k) \<in> set (put_conflicts (hd names) ks (ac_conflicts db)) \<longleftrightarrow>
      (if r = hd names \<and> hit affected names k then db_clash db names k else (r, k) \<in> set (ac_conflicts db))"
    using fresh [OF None] by (auto simp: refresh_group_def None hit_def set_put_conflicts image_iff)
  then show ?thesis by blast
next
  case (Some as)
  define ks where "ks = sort (remdups (map snd (filter (\<lambda>(n, v). n \<in> set names) as)))"
  have ks: "k \<in> set ks \<longleftrightarrow> hit affected names k" for k by (force simp: ks_def hit_def Some)
  obtain bads where b: "smap (\<lambda>ks. bad_in db ns names (Some ks)) (chunks CHUNK ks) = Inr bads"
    "set (concat bads) = (\<Union>c \<in> set (chunks CHUNK ks). {k. k \<in> set c \<and> db_clash db names k})"
    using smap_sets [of "chunks CHUNK ks" "\<lambda>ks. bad_in db ns names (Some ks)" "\<lambda>c. {k. k \<in> set c \<and> db_clash db names k}"]
      bad_in_clash [OF db, of "Some _"] by auto
  have "(\<Union>c \<in> set (chunks CHUNK ks). {k. k \<in> set c \<and> db_clash db names k})
      = {k \<in> \<Union>c \<in> set (chunks CHUNK ks). set c. db_clash db names k}" by blast
  then have bad: "k \<in> set (concat bads) \<longleftrightarrow> hit affected names k \<and> db_clash db names k" for k
    unfolding b(2) by (simp only: Union_chunks [OF CHUNK_pos] ks mem_Collect_eq)
  define cs where "cs = put_conflicts (hd names) (concat bads)
     (filter (\<lambda>(r, k). \<not> (r = hd names \<and> k \<in> set ks)) (ac_conflicts db))"
  have "refresh_group affected (ns, names) db = Inr (db\<lparr>ac_conflicts := cs\<rparr>)"
    using b(1) unfolding refresh_group_def Some prod.case option.case ks_def [symmetric] Let_def
      concat_chunks [OF CHUNK_pos] cs_def by simp
  moreover have "(r, k) \<in> set cs \<longleftrightarrow> (if r = hd names \<and> hit affected names k then db_clash db names k
      else (r, k) \<in> set (ac_conflicts db))" for r k
  proof -
    have "(r, k) \<in> (\<lambda>k. (hd names, k)) ` set (concat bads) \<longleftrightarrow> r = hd names \<and> hit affected names k \<and> db_clash db names k"
      using bad by blast
    then show ?thesis unfolding cs_def set_put_conflicts using ks by auto
  qed
  ultimately show ?thesis by blast
qed

lemma refresh_groups_set:
  assumes "known_rows db" "tidy_groups db" "set gs \<subseteq> set conflict_groups" "distinct (map (hd \<circ> snd) gs)"
    and "affected = None \<Longrightarrow> \<forall>g \<in> set gs. hd (snd g) \<notin> fst ` set (ac_conflicts db)"
  shows "\<exists>cs. refresh_groups affected gs db = Inr (db\<lparr>ac_conflicts := cs\<rparr>) \<and>
    (\<forall>r k. (r, k) \<in> set cs \<longleftrightarrow> (\<exists>(ns, names) \<in> set gs. r = hd names \<and> hit affected names k \<and> db_clash db names k)
       \<or> (r, k) \<in> set (ac_conflicts db) \<and> (\<forall>(ns, names) \<in> set gs. \<not> (r = hd names \<and> hit affected names k)))"
  using assms
proof (induction gs arbitrary: db)
  case (Cons g gs)
  obtain ns names where g: "g = (ns, names)" by fastforce
  obtain cs1 where c1: "refresh_group affected (ns, names) db = Inr (db\<lparr>ac_conflicts := cs1\<rparr>)"
    "\<And>r k. (r, k) \<in> set cs1 \<longleftrightarrow> (if r = hd names \<and> hit affected names k then db_clash db names k
        else (r, k) \<in> set (ac_conflicts db))"
    using refresh_group_set [of db ns names affected] Cons.prems by (auto simp: g)
  have "affected = None \<Longrightarrow> \<forall>g \<in> set gs. hd (snd g) \<notin> fst ` set cs1"
  proof
    fix g'
    assume n: "affected = None" and g': "g' \<in> set gs"
    have "hd (snd g') \<noteq> hd names" using Cons.prems(4) g' by (force simp: g)
    moreover have "hd (snd g') \<notin> fst ` set (ac_conflicts db)" using Cons.prems(5) [OF n] g' by simp
    ultimately show "hd (snd g') \<notin> fst ` set cs1" using c1(2) by auto
  qed
  then obtain cs2 where c2: "refresh_groups affected gs (db\<lparr>ac_conflicts := cs1\<rparr>) = Inr (db\<lparr>ac_conflicts := cs2\<rparr>)"
    "\<And>r k. (r, k) \<in> set cs2 \<longleftrightarrow> (\<exists>(ns, names) \<in> set gs. r = hd names \<and> hit affected names k \<and> db_clash db names k)
       \<or> (r, k) \<in> set cs1 \<and> (\<forall>(ns, names) \<in> set gs. \<not> (r = hd names \<and> hit affected names k))"
    using Cons.IH [of "db\<lparr>ac_conflicts := cs1\<rparr>"] Cons.prems by auto
  have other: "hd names \<noteq> hd names'" if "(ns', names') \<in> set gs" for ns' names'
    using that Cons.prems(4) by (force simp: g)
  have "(r, k) \<in> set cs2 \<longleftrightarrow> (\<exists>(ns, names) \<in> set (g # gs). r = hd names \<and> hit affected names k \<and> db_clash db names k)
       \<or> (r, k) \<in> set (ac_conflicts db) \<and> (\<forall>(ns, names) \<in> set (g # gs). \<not> (r = hd names \<and> hit affected names k))" for r k
    unfolding c2(2) c1(2) g using other by (auto split: if_splits)
  then show ?case using c1(1) c2(1) by (simp add: g) blast
next
  case Nil
  have "refresh_groups affected [] db = Inr (db\<lparr>ac_conflicts := ac_conflicts db\<rparr>)" by simp
  then show ?case by (intro exI conjI) auto
qed

definition true_conflicts :: "adb \<Rightarrow> string \<Rightarrow> string \<Rightarrow> bool" where
  "true_conflicts db r k \<longleftrightarrow> (\<exists>(ns, names) \<in> set conflict_groups. r = hd names \<and> db_clash db names k)"

lemma conflict_heads: "distinct (map (hd \<circ> snd) conflict_groups)"
  by (simp add: conflict_groups_def)

lemma refresh_conflicts_set:
  assumes "known_rows db" "tidy_groups db"
    and old: "affected \<noteq> None \<Longrightarrow> (\<And>ns names k. (ns, names) \<in> set conflict_groups \<Longrightarrow> \<not> hit affected names k
        \<Longrightarrow> (hd names, k) \<in> set (ac_conflicts db) \<longleftrightarrow> db_clash db names k)"
    and only: "affected \<noteq> None \<Longrightarrow> (\<And>r k. (r, k) \<in> set (ac_conflicts db) \<Longrightarrow> \<exists>(ns, names) \<in> set conflict_groups. r = hd names)"
  shows "\<exists>cs. refresh_conflicts affected db = Inr (db\<lparr>ac_conflicts := cs\<rparr>) \<and>
    (\<forall>r k. (r, k) \<in> set cs \<longleftrightarrow> true_conflicts db r k)"
proof -
  define db0 where "db0 = (if affected = None then db\<lparr>ac_conflicts := []\<rparr> else db)"
  have k: "known_rows db0" "tidy_groups db0" "db_clash db0 = db_clash db"
    "\<And>cs. db0\<lparr>ac_conflicts := cs\<rparr> = db\<lparr>ac_conflicts := cs\<rparr>" using assms by (simp_all add: db0_def)
  obtain cs where c: "refresh_groups affected conflict_groups db0 = Inr (db\<lparr>ac_conflicts := cs\<rparr>)"
    "\<And>r k. (r, k) \<in> set cs \<longleftrightarrow> (\<exists>(ns, names) \<in> set conflict_groups. r = hd names \<and> hit affected names k \<and> db_clash db names k)
       \<or> (r, k) \<in> set (ac_conflicts db0) \<and> (\<forall>(ns, names) \<in> set conflict_groups. \<not> (r = hd names \<and> hit affected names k))"
    using refresh_groups_set [OF k(1, 2) subset_refl conflict_heads, of affected] unfolding k(3, 4)
    by (auto simp: db0_def)
  have uniq: "g = g'" if "g \<in> set conflict_groups" "g' \<in> set conflict_groups" "hd (snd g) = hd (snd g')" for g g'
    using conflict_heads that unfolding distinct_map inj_on_def comp_def by blast
  have "(r, k) \<in> set cs \<longleftrightarrow> true_conflicts db r k" for r k
  proof (cases affected)
    case None
    then show ?thesis by (auto simp: c(2) db0_def true_conflicts_def hit_def)
  next
    case (Some as)
    then have db0: "ac_conflicts db0 = ac_conflicts db" by (simp add: db0_def)
    show ?thesis
    proof (cases "\<exists>(ns, names) \<in> set conflict_groups. r = hd names")
      case True
      then obtain ns names where g: "(ns, names) \<in> set conflict_groups" "r = hd names" by blast
      have one: "names' = names" if "(ns', names') \<in> set conflict_groups" "r = hd names'" for ns' names'
        using uniq [OF that(1) g(1)] that(2) g(2) by simp
      have ex: "(\<exists>(ns', names') \<in> set conflict_groups. r = hd names' \<and> Q names') \<longleftrightarrow> Q names" for Q
        using one g by blast
      have all: "(\<forall>(ns', names') \<in> set conflict_groups. \<not> (r = hd names' \<and> Q names')) \<longleftrightarrow> \<not> Q names" for Q
        using one g by blast
      have true: "true_conflicts db r k \<longleftrightarrow> db_clash db names k" unfolding true_conflicts_def by (rule ex)
      have "\<not> hit affected names k \<Longrightarrow> (r, k) \<in> set (ac_conflicts db) \<longleftrightarrow> db_clash db names k"
        using old Some g by simp
      then show ?thesis unfolding c(2) db0 ex all true by blast
    next
      case False
      then have "(r, k) \<notin> set (ac_conflicts db)" using only [of r k] Some by auto
      then show ?thesis unfolding c(2) db0 true_conflicts_def using False by blast
    qed
  qed
  then show ?thesis using c(1) unfolding refresh_conflicts_def db0_def by blast
qed

end
