(* ===== verification/Action_Cache_Update.thy ===== *)
theory Action_Cache_Update
  imports Action_Cache_Refresh
begin

text \<open>
  What the cache of actions holds for an image, that rebuilding makes it hold that, and that the update
  from the difference to the installed packages keeps it and ends where a rebuilding would.
\<close>

section \<open>The rows that an image should have\<close>

definition rows_of :: "cenv \<Rightarrow> string \<Rightarrow> (string \<times> string \<times> string) list" where
  "rows_of env f = (case gen_package_rows env f of Inl e \<Rightarrow> [] | Inr rs \<Rightarrow> rs)"

definition rows_for :: "cenv \<Rightarrow> (nat \<times> string) list \<Rightarrow> (nat \<times> string \<times> string \<times> string) list" where
  "rows_for env ps = concat (map (\<lambda>(i, f). map (Pair i) (rows_of env f)) ps)"

definition image_rows :: "cenv \<Rightarrow> (string \<times> string \<times> string) list" where
  "image_rows env = concat (map (rows_of env) (ce_installed env))"

definition acts_of_rows :: "string list \<Rightarrow> string \<Rightarrow> (string \<times> string \<times> string) list \<Rightarrow> action list" where
  "acts_of_rows names k rows = map (\<lambda>(n, v, t). projr (fromstr t)) (filter (\<lambda>(n, v, t). n \<in> set names \<and> v = k) rows)"

text \<open>A name that several installed packages deliver in ways that conflict.\<close>

definition image_clash :: "cenv \<Rightarrow> string list \<Rightarrow> string \<Rightarrow> bool" where
  "image_clash env names k \<longleftrightarrow> rows_clash (acts_of_rows names k (image_rows env))"

definition package_ok :: "cenv \<Rightarrow> string \<Rightarrow> bool" where
  "package_ok env f \<longleftrightarrow> (case gen_package_rows env f of Inl e \<Rightarrow> False | Inr rs \<Rightarrow> list_all row_ok rs)"

definition image_ok :: "cenv \<Rightarrow> bool" where
  "image_ok env \<longleftrightarrow> distinct (ce_installed env) \<and> list_all (package_ok env) (ce_installed env)
     \<and> list_all (\<lambda>(ns, names). list_all (\<lambda>(n, v, t). orderly (set (acts_of_rows names v (image_rows env))))
          (image_rows env)) conflict_groups"

text \<open>
  The tables hold the rows of their packages, in any order.
\<close>

definition stored :: "cenv \<Rightarrow> adb \<Rightarrow> bool" where
  "stored env db \<longleftrightarrow> distinct (map fst (ac_packages db)) \<and> distinct (map snd (ac_packages db))
     \<and> mset (ac_actions db) = mset (rows_for env (ac_packages db))"

definition conflict_list :: "adb \<Rightarrow> (string \<times> string) list" where
  "conflict_list db = concat (map (\<lambda>(ns, names). map (Pair (hd names))
     (filter (db_clash db names) (map (\<lambda>(i, n, v, t). v) (ac_actions db)))) conflict_groups)"

definition consistent :: "cenv \<Rightarrow> adb \<Rightarrow> bool" where
  "consistent env db \<longleftrightarrow> stored env db \<and> set (ac_conflicts db) = set (conflict_list db)"

definition good_file :: "cenv \<Rightarrow> cache_file \<Rightarrow> bool" where
  "good_file env file \<longleftrightarrow> (case file of Database db \<Rightarrow> usable env db \<longrightarrow> consistent env db | _ \<Rightarrow> True)"

section \<open>Rows and conflicts\<close>

lemma conflict_list_iff: "(r, k) \<in> set (conflict_list db) \<longleftrightarrow> true_conflicts db r k"
proof -
  have "j \<in> (\<lambda>(i, n, v, t). v) ` set (ac_actions db)" if "db_clash db names j" for names j
  proof -
    have "acts_at db names j \<noteq> []" using that by (auto simp: db_clash_def rows_clash_def)
    then obtain x where "x \<in> set (rows_at names j (ac_actions db))"
      by (metis acts_at_def hd_in_set list.map_disc_iff)
    then have "x \<in> set (ac_actions db)" "(case x of (i, n, v, t) \<Rightarrow> v) = j" by (auto simp: rows_at_def)
    then show ?thesis by blast
  qed
  then have "{k \<in> (\<lambda>(i, n, v, t). v) ` set (ac_actions db). db_clash db names k} = {k. db_clash db names k}" for names
    by blast
  then have "set (conflict_list db) = (\<Union>(ns, names) \<in> set conflict_groups. Pair (hd names) ` {k. db_clash db names k})"
    by (simp add: conflict_list_def case_prod_unfold)
  then show ?thesis by (auto simp: true_conflicts_def)
qed

lemma consistent_iff:
  "consistent env db \<longleftrightarrow> stored env db \<and> (\<forall>r k. (r, k) \<in> set (ac_conflicts db) \<longleftrightarrow> true_conflicts db r k)"
  unfolding consistent_def set_eq_iff by (simp add: conflict_list_iff split_paired_all)

lemma acts_at_rows: "acts_at db names k = acts_of_rows names k (map snd (ac_actions db))"
proof -
  have "map row_act (filter (\<lambda>(i, n, v, t). n \<in> set names \<and> v = k) rows) = acts_of_rows names k (map snd rows)" for rows
    by (induction rows) (auto simp: acts_of_rows_def row_act_def)
  then show ?thesis by (simp add: acts_at_def rows_at_def)
qed

lemma acts_of_rows_mset: "mset rows = mset rows' \<Longrightarrow> mset (acts_of_rows names k rows) = mset (acts_of_rows names k rows')"
  unfolding acts_of_rows_def mset_map mset_filter by simp

lemma map_snd_rows_for: "map snd (rows_for env ps) = concat (map (rows_of env) (map snd ps))"
  by (induction ps) (auto simp: rows_for_def o_def)

lemma mset_concat_map:
  assumes "mset xs = mset ys"
  shows "mset (concat (map f xs)) = mset (concat (map f ys))"
proof -
  have "mset (concat (map f zs)) = (\<Sum>z \<in># mset zs. mset (f z))" for zs by (induction zs) simp_all
  then show ?thesis using assms by simp
qed

lemma stored_image_rows:
  assumes "stored env db" "distinct (ce_installed env)" "set (map snd (ac_packages db)) = set (ce_installed env)"
  shows "mset (map snd (ac_actions db)) = mset (image_rows env)"
proof -
  have "mset (map snd (ac_packages db)) = mset (ce_installed env)"
    using assms unfolding stored_def by (metis set_eq_iff_mset_eq_distinct)
  moreover have "mset (map snd (ac_actions db)) = mset (map snd (rows_for env (ac_packages db)))"
    using assms(1) by (simp add: stored_def)
  ultimately show ?thesis unfolding map_snd_rows_for image_rows_def using mset_concat_map by metis
qed

lemma stored_facts:
  assumes "stored env db" "image_ok env" "set (map snd (ac_packages db)) = set (ce_installed env)"
  shows stored_known: "known_rows db" and stored_tidy: "tidy_groups db"
    and stored_clash: "db_clash db names k \<longleftrightarrow> image_clash env names k"
proof -
  have ms: "mset (map snd (ac_actions db)) = mset (image_rows env)"
    using stored_image_rows assms by (simp add: image_ok_def)
  then have acts: "mset (acts_at db names k) = mset (acts_of_rows names k (image_rows env))" for names k
    unfolding acts_at_rows by (rule acts_of_rows_mset)
  have rows: "set (map snd (ac_actions db)) = set (image_rows env)" using ms by (rule mset_eq_setD)
  show "db_clash db names k \<longleftrightarrow> image_clash env names k"
    unfolding db_clash_def image_clash_def using acts by (rule rows_clash_mset)
  have ids: "set (ac_actions db) = set (rows_for env (ac_packages db))"
    using assms(1) unfolding stored_def by (metis mset_eq_setD)
  have "row_ok r" if "r \<in> set (rows_of env f)" "package_ok env f" for r f
    using that by (auto simp: rows_of_def package_ok_def list_all_iff split: sum.splits)
  then have "row_ok r" if "r \<in> set (image_rows env)" for r
    using that assms(2) unfolding image_rows_def image_ok_def list_all_iff set_concat set_map by blast
  then have "\<forall>r \<in> set (map snd (ac_actions db)). row_ok r" unfolding rows by blast
  then have "\<forall>r \<in> set (ac_actions db). row_ok (snd r)" by simp
  moreover have "\<forall>r \<in> set (ac_actions db). fst r \<in> set (map fst (ac_packages db))"
    unfolding ids by (force simp: rows_for_def)
  ultimately show "known_rows db" by (simp add: known_rows_def)
  have "orderly (set (acts_of_rows names k (image_rows env)))" if "(ns, names) \<in> set conflict_groups" for ns names k
  proof (cases "acts_of_rows names k (image_rows env)")
    case Nil
    then show ?thesis by (simp add: orderly_def)
  next
    case (Cons a as)
    then have "filter (\<lambda>(n, v, t). n \<in> set names \<and> v = k) (image_rows env) \<noteq> []" by (auto simp: acts_of_rows_def)
    then obtain n t where r: "(n, k, t) \<in> set (image_rows env)" by (auto simp: filter_empty_conv)
    have "\<forall>g \<in> set conflict_groups. \<forall>r \<in> set (image_rows env).
        orderly (set (acts_of_rows (snd g) (fst (snd r)) (image_rows env)))"
      using assms(2) unfolding image_ok_def list_all_iff by (simp add: case_prod_unfold)
    from bspec [OF bspec [OF this that] r] show ?thesis by simp
  qed
  moreover have "set (acts_at db names k) = set (acts_of_rows names k (image_rows env))" for names k
    using acts by (rule mset_eq_setD)
  ultimately show "tidy_groups db" unfolding tidy_groups_def by auto
qed

section \<open>Inserting and deleting packages\<close>

lemma next_id_new: "i \<in> set (map fst ps) \<Longrightarrow> i < next_id ps"
proof -
  have "(\<forall>i \<in> set is. i \<le> fold max is m) \<and> m \<le> fold max is m" for "is" :: "nat list" and m
  proof (induction "is" arbitrary: m)
    case (Cons x xs)
    show ?case using Cons [of "max x m"] by (auto simp: max_def split: if_splits)
  qed simp
  then show "i \<in> set (map fst ps) \<Longrightarrow> i < next_id ps" by (simp add: next_id_def less_Suc_eq_le)
qed

lemma rows_for_append [simp]: "rows_for env (ps @ qs) = rows_for env ps @ rows_for env qs"
  by (simp add: rows_for_def)

lemma insert_package_stored:
  assumes "stored env db" "package_ok env f" "f \<notin> set (map snd (ac_packages db))"
  shows "\<exists>db' i. insert_package env f db = Inr db' \<and> stored env db'
    \<and> db' = db\<lparr>ac_packages := ac_packages db @ [(i, f)], ac_actions := ac_actions db @ rows_for env [(i, f)]\<rparr>"
proof -
  obtain rows where rows: "gen_package_rows env f = Inr rows" using assms(2) by (auto simp: package_ok_def split: sum.splits)
  let ?i = "next_id (ac_packages db)"
  let ?db = "db\<lparr>ac_packages := ac_packages db @ [(?i, f)], ac_actions := ac_actions db @ rows_for env [(?i, f)]\<rparr>"
  have "insert_package env f db = Inr ?db" by (simp add: insert_package_def rows rows_for_def rows_of_def Let_def)
  moreover have "?i \<notin> set (map fst (ac_packages db))" using next_id_new by blast
  then have "stored env ?db" using assms by (simp add: stored_def)
  ultimately show ?thesis by blast
qed

lemma insert_packages_stored:
  assumes "stored env db" "list_all (package_ok env) fs" "distinct fs" "set fs \<inter> set (map snd (ac_packages db)) = {}"
  shows "\<exists>db' new. insert_packages env fs db = Inr db' \<and> stored env db'
    \<and> db' = db\<lparr>ac_packages := ac_packages db @ new, ac_actions := ac_actions db @ rows_for env new\<rparr>
    \<and> map snd new = fs"
  using assms
proof (induction fs arbitrary: db)
  case Nil
  then show ?case by (simp add: rows_for_def)
next
  case (Cons f fs)
  obtain db1 i where d1: "insert_package env f db = Inr db1" "stored env db1"
    "db1 = db\<lparr>ac_packages := ac_packages db @ [(i, f)], ac_actions := ac_actions db @ rows_for env [(i, f)]\<rparr>"
    using insert_package_stored [of env db f] Cons.prems by auto
  obtain db2 new where d2: "insert_packages env fs db1 = Inr db2" "stored env db2" "map snd new = fs"
    "db2 = db1\<lparr>ac_packages := ac_packages db1 @ new, ac_actions := ac_actions db1 @ rows_for env new\<rparr>"
    using Cons.IH [OF d1(2)] Cons.prems d1(3) by auto
  have "insert_packages env (f # fs) db = Inr db2" using d1(1) d2(1) by simp
  moreover have "db2 = db\<lparr>ac_packages := ac_packages db @ (i, f) # new,
      ac_actions := ac_actions db @ rows_for env ((i, f) # new)\<rparr>"
    using rows_for_append [of env "[(i, f)]" new] by (simp add: d2(4) d1(3))
  ultimately show ?case using d2(2, 3) by (intro exI [of _ db2] exI [of _ "(i, f) # new"]) simp
qed

lemma filter_rows_for: "filter (\<lambda>r. P (fst r)) (rows_for env ps) = rows_for env (filter (\<lambda>p. P (fst p)) ps)"
  by (induction ps) (auto simp: rows_for_def filter_map o_def)

lemma delete_packages_stored:
  assumes "stored env db"
  shows "stored env (delete_packages ids db)"
proof -
  have "mset (filter (\<lambda>r. fst r \<notin> set ids) (ac_actions db))
      = mset (filter (\<lambda>r. fst r \<notin> set ids) (rows_for env (ac_packages db)))"
    using assms unfolding stored_def by (metis mset_filter)
  then show ?thesis using assms
    by (simp add: stored_def delete_packages_def distinct_map_filter filter_rows_for [where P = "\<lambda>i. i \<notin> set ids"])
qed

lemma delete_packages_append: "delete_packages js (delete_packages ids db) = delete_packages (ids @ js) db"
  by (auto simp: delete_packages_def intro: filter_cong)

definition gone_rows :: "nat list \<Rightarrow> adb \<Rightarrow> (string \<times> string) set" where
  "gone_rows ids db = (\<lambda>(i, n, v, t). (n, v)) ` {r \<in> set (ac_actions db). fst r \<in> set ids}"

lemma delete_chunks_all:
  "delete_chunks idss db affected = (db', gone) \<Longrightarrow>
    db' = delete_packages (concat idss) db \<and> set gone = set affected \<union> gone_rows (concat idss) db"
proof (induction idss arbitrary: db affected)
  case Nil
  then show ?case by (simp add: delete_packages_def gone_rows_def)
next
  case (Cons ids idss)
  let ?db = "delete_packages ids db"
  from Cons.prems have "delete_chunks idss ?db (affected @ touched_by ids db) = (db', gone)" by simp
  from Cons.IH [OF this]
  have "db' = delete_packages (concat (ids # idss)) db"
    and gone: "set gone = set affected \<union> set (touched_by ids db) \<union> gone_rows (concat idss) ?db"
    by (simp_all add: delete_packages_append)
  moreover have "set (touched_by ids db) = gone_rows ids db" by (simp add: touched_by_def gone_rows_def)
  moreover have "{r \<in> set (ac_actions db). fst r \<in> set (concat (ids # idss))}
      = {r \<in> set (ac_actions db). fst r \<in> set ids} \<union> {r \<in> set (ac_actions ?db). fst r \<in> set (concat idss)}"
    by (auto simp: delete_packages_def)
  then have "gone_rows (concat (ids # idss)) db = gone_rows ids db \<union> gone_rows (concat idss) ?db"
    unfolding gone_rows_def by (simp only: image_Un)
  ultimately show ?case by (simp add: Un_assoc)
qed

end
