(* ===== verification/Action_Cache_Props.thy ===== *)
theory Action_Cache_Props
  imports Action_Cache_Update
begin

text \<open>
  Rebuilding and updating the cache of actions: both end with the rows and the conflicts of the
  installed packages.
\<close>

section \<open>Rebuilding\<close>

text \<open>What a cache of the image has to be.\<close>

definition right_cache :: "cenv \<Rightarrow> adb \<Rightarrow> bool" where
  "right_cache env db \<longleftrightarrow> usable env db \<and> consistent env db \<and> set (map snd (ac_packages db)) = set (ce_installed env)"

lemma stored_conflicts [simp]: "stored env (db\<lparr>ac_conflicts := cs\<rparr>) = stored env db"
  by (simp add: stored_def)

lemma true_conflicts_independent [simp]: "true_conflicts (db\<lparr>ac_conflicts := cs\<rparr>) = true_conflicts db"
  by (simp add: fun_eq_iff true_conflicts_def)

lemma rebuild_right:
  assumes "image_ok env" "ce_writable env"
  shows "\<exists>db. cache_rebuild env = Inr db \<and> right_cache env db"
proof -
  have "stored env empty_db" by (simp add: stored_def empty_db_def rows_for_def)
  then obtain db1 where d1: "insert_packages env (ce_installed env) empty_db = Inr db1" "stored env db1"
    "map snd (ac_packages db1) = ce_installed env"
    using insert_packages_stored [of env empty_db "ce_installed env"] assms(1) by (auto simp: image_ok_def empty_db_def)
  note f = stored_facts [OF d1(2) assms(1) arg_cong [OF d1(3), of set]]
  obtain cs where cs: "refresh_conflicts None db1 = Inr (db1\<lparr>ac_conflicts := cs\<rparr>)"
    "\<forall>r k. (r, k) \<in> set cs \<longleftrightarrow> true_conflicts db1 r k"
    using refresh_conflicts_set [OF f(1, 2), of None] by auto
  let ?db = "db1\<lparr>ac_conflicts := cs, ac_meta := [(''excludes'', ce_signature env), (''complete'', ''1'')],
      ac_version := SCHEMA_VERSION\<rparr>"
  have "cache_rebuild env = Inr ?db" using assms(2) d1(1) cs(1) by (simp add: cache_rebuild_def)
  moreover have "usable env ?db" by (simp add: usable_def dget_def)
  moreover have "stored env ?db" using d1(2) by (simp add: stored_def)
  moreover have "true_conflicts ?db = true_conflicts db1"
    by (simp add: fun_eq_iff true_conflicts_def db_clash_def acts_at_def)
  moreover have "set (map snd (ac_packages ?db)) = set (ce_installed env)" using d1(3) by simp
  moreover have "\<forall>r k. (r, k) \<in> set (ac_conflicts ?db) \<longleftrightarrow> true_conflicts db1 r k" using cs(2) by simp
  ultimately show ?thesis unfolding right_cache_def consistent_iff by metis
qed

section \<open>Updating\<close>

lemma incremental_right:
  assumes "image_ok env" "usable env db" "consistent env db"
  shows "\<exists>db'. incremental env db = Inr db' \<and> right_cache env db'"
proof -
  have st: "stored env db" and con: "\<And>r k. (r, k) \<in> set (ac_conflicts db) \<longleftrightarrow> true_conflicts db r k"
    using assms(3) by (auto simp: consistent_iff)
  define extra where "extra = map fst (filter (\<lambda>(i, f). f \<notin> set (ce_installed env)) (ac_packages db))"
  define missing where "missing = filter (\<lambda>f. f \<notin> set (map snd (ac_packages db))) (ce_installed env)"
  have inc: "incremental env db = (if extra = [] \<and> missing = [] then Inr db else
      let (db1, gone) = delete_chunks (chunks CHUNK extra) db [] in
      sbind (insert_packages env missing db1) (\<lambda>db2.
      let new = map (\<lambda>(i, n, v, t). (n, v)) (drop (length (ac_actions db1)) (ac_actions db2)) in
      refresh_conflicts (Some (gone @ new)) db2))"
    unfolding incremental_def extra_def missing_def Let_def by (rule refl)
  show ?thesis
  proof (cases "extra = [] \<and> missing = []")
    case True
    then have "set (map snd (ac_packages db)) = set (ce_installed env)"
      by (force simp: extra_def missing_def filter_empty_conv)
    then show ?thesis using True assms(2, 3) by (simp add: inc right_cache_def)
  next
    case False
    obtain db1 gone where dc: "delete_chunks (chunks CHUNK extra) db [] = (db1, gone)" by fastforce
    from delete_chunks_all [OF this]
    have d1: "db1 = delete_packages extra db" and gone: "set gone = gone_rows extra db"
      by (simp_all add: concat_chunks)
    have st1: "stored env db1" unfolding d1 by (rule delete_packages_stored [OF st])
    have keep: "p \<in> set (ac_packages db1) \<longleftrightarrow> p \<in> set (ac_packages db) \<and> snd p \<in> set (ce_installed env)" for p
    proof -
      have "f = snd p" if "(fst p, f) \<in> set (ac_packages db)" "p \<in> set (ac_packages db)" for f
        using st that unfolding stored_def by (metis eq_key_imp_eq_value prod.collapse)
      then show ?thesis by (force simp: d1 delete_packages_def extra_def image_iff)
    qed
    have "set missing \<inter> set (map snd (ac_packages db1)) = {}" using keep by (auto simp: missing_def)
    moreover have "list_all (package_ok env) missing" "distinct missing"
      using assms(1) by (auto simp: missing_def image_ok_def list_all_iff)
    ultimately obtain db2 new where d2: "insert_packages env missing db1 = Inr db2" "stored env db2" "map snd new = missing"
      "db2 = db1\<lparr>ac_packages := ac_packages db1 @ new, ac_actions := ac_actions db1 @ rows_for env new\<rparr>"
      using insert_packages_stored [OF st1] by blast
    have "set (map snd (ac_packages db2)) = snd ` set (ac_packages db1) \<union> set missing"
      using d2(3, 4) by (simp add: image_Un flip: set_map)
    also have "\<dots> = set (ce_installed env)" using keep by (auto simp: missing_def)
    finally have inst: "set (map snd (ac_packages db2)) = set (ce_installed env)" .
    note f = stored_facts [OF d2(2) assms(1) inst]
    define as where "as = gone @ map (\<lambda>(i, n, v, t). (n, v)) (rows_for env new)"
    have rows: "rows_at names k (ac_actions db2) = rows_at names k (ac_actions db)" if "\<not> hit (Some as) names k" for names k
    proof -
      have "\<not> (n \<in> set names \<and> v = k)" if "(i, n, v, t) \<in> set (rows_for env new)" for i n v t
        using that \<open>\<not> hit (Some as) names k\<close> by (force simp: hit_def as_def)
      then have "filter (\<lambda>(i, n, v, t). n \<in> set names \<and> v = k) (rows_for env new) = []"
        by (fastforce simp: filter_empty_conv)
      moreover have "filter (\<lambda>(i, n, v, t). n \<in> set names \<and> v = k) (ac_actions db1)
          = filter (\<lambda>(i, n, v, t). n \<in> set names \<and> v = k) (ac_actions db)"
      proof -
        have "i \<notin> set extra" if "(i, n, v, t) \<in> set (ac_actions db)" "n \<in> set names" "v = k" for i n v t
          using that \<open>\<not> hit (Some as) names k\<close> gone by (force simp: hit_def as_def gone_rows_def)
        then show ?thesis unfolding d1 delete_packages_def by (auto simp: intro!: filter_cong)
      qed
      ultimately show ?thesis by (simp add: d2(4) rows_at_def)
    qed
    have same_cs: "ac_conflicts db2 = ac_conflicts db" "ac_meta db2 = ac_meta db" "ac_version db2 = ac_version db"
      by (simp_all add: d2(4) d1 delete_packages_def)
    have uniq: "g = g'" if "g \<in> set conflict_groups" "g' \<in> set conflict_groups" "hd (snd g) = hd (snd g')" for g g'
      using conflict_heads that unfolding distinct_map inj_on_def comp_def by blast
    obtain cs where cs: "refresh_conflicts (Some as) db2 = Inr (db2\<lparr>ac_conflicts := cs\<rparr>)"
      "\<forall>r k. (r, k) \<in> set cs \<longleftrightarrow> true_conflicts db2 r k"
    proof (rule exE [OF refresh_conflicts_set [OF f(1, 2), of "Some as"]])
      fix ns names k
      assume g: "(ns, names) \<in> set conflict_groups" "\<not> hit (Some as) names k"
      have "true_conflicts db (hd names) k \<longleftrightarrow> db_clash db names k"
        using uniq [OF g(1)] g(1) by (auto simp: true_conflicts_def)
      then show "(hd names, k) \<in> set (ac_conflicts db2) \<longleftrightarrow> db_clash db2 names k"
        using rows [OF g(2)] con by (simp add: same_cs db_clash_def acts_at_def)
    next
      fix r k
      assume "(r, k) \<in> set (ac_conflicts db2)"
      then show "\<exists>(ns, names) \<in> set conflict_groups. r = hd names"
        using con by (auto simp: same_cs true_conflicts_def)
    qed blast
    have "incremental env db = Inr (db2\<lparr>ac_conflicts := cs\<rparr>)"
    proof -
      have "map (\<lambda>(i, n, v, t). (n, v)) (drop (length (ac_actions db1)) (ac_actions db2))
          = map (\<lambda>(i, n, v, t). (n, v)) (rows_for env new)" by (simp add: d2(4))
      then show ?thesis unfolding inc if_not_P [OF False] dc Let_def prod.case d2(1) sbind_simps(2)
        using cs(1) by (simp add: as_def)
    qed
    moreover have "usable env (db2\<lparr>ac_conflicts := cs\<rparr>)" using assms(2) by (simp add: usable_def same_cs)
    ultimately show ?thesis using d2(2) inst cs(2) by (auto simp: right_cache_def consistent_iff)
  qed
qed

lemma update_right:
  assumes "image_ok env" "ce_writable env" "good_file env file"
  shows "\<exists>db. cache_update env file = Inr db \<and> right_cache env db"
  using assms rebuild_right incremental_right
  by (cases "file") (auto simp: cache_update_def good_file_def)

section \<open>Every right cache has the same contents\<close>

lemma right_dump_rows:
  assumes "stored env db"
  shows "set (List.map_filter (\<lambda>(i, n, v, t). map_option (\<lambda>f. (f, n, v, t)) (map_of (ac_packages db) i)) (ac_actions db))
    = {(f, r) | f r. f \<in> set (map snd (ac_packages db)) \<and> r \<in> set (rows_of env f)}"
proof -
  have rows: "set (ac_actions db) = {(i, r) | i f r. (i, f) \<in> set (ac_packages db) \<and> r \<in> set (rows_of env f)}"
  proof -
    have "set (ac_actions db) = set (rows_for env (ac_packages db))" using assms unfolding stored_def by (metis mset_eq_setD)
    then show ?thesis by (auto simp: rows_for_def)
  qed
  have look: "map_of (ac_packages db) i = Some f \<longleftrightarrow> (i, f) \<in> set (ac_packages db)" for i f
    using assms by (simp add: stored_def)
  have "x \<in> set (List.map_filter (\<lambda>(i, n, v, t). map_option (\<lambda>f. (f, n, v, t)) (map_of (ac_packages db) i)) (ac_actions db))
      \<longleftrightarrow> (\<exists>i r. (i, r) \<in> set (ac_actions db) \<and> map_of (ac_packages db) i = Some (fst x) \<and> r = snd x)" for x
    by (cases x) (force simp: List.map_filter_def image_iff)
  then have mem: "(f, r) \<in> set (List.map_filter (\<lambda>(i, n, v, t). map_option (\<lambda>f. (f, n, v, t)) (map_of (ac_packages db) i)) (ac_actions db))
      \<longleftrightarrow> (\<exists>i. (i, f) \<in> set (ac_packages db) \<and> (\<exists>f'. (i, f') \<in> set (ac_packages db) \<and> r \<in> set (rows_of env f')))" for f r
    unfolding rows look by (cases r) auto
  have one: "f' = f" if "(i, f) \<in> set (ac_packages db)" "(i, f') \<in> set (ac_packages db)" for i f f'
    using that assms unfolding stored_def by (metis eq_key_imp_eq_value)
  have sn: "f \<in> set (map snd (ac_packages db)) \<longleftrightarrow> (\<exists>i. (i, f) \<in> set (ac_packages db))" for f by force
  show ?thesis
  proof (rule set_eqI)
    fix x :: "string \<times> string \<times> string \<times> string"
    obtain f r where x: "x = (f, r)" by (cases x) blast
    have "(\<exists>i. (i, f) \<in> set (ac_packages db) \<and> (\<exists>f'. (i, f') \<in> set (ac_packages db) \<and> r \<in> set (rows_of env f')))
        \<longleftrightarrow> (\<exists>i. (i, f) \<in> set (ac_packages db)) \<and> r \<in> set (rows_of env f)" using one by metis
    also have "\<dots> \<longleftrightarrow> x \<in> {(f, r) | f r. f \<in> set (map snd (ac_packages db)) \<and> r \<in> set (rows_of env f)}"
      unfolding x sn by blast
    finally show "x \<in> set (List.map_filter (\<lambda>(i, n, v, t). map_option (\<lambda>f. (f, n, v, t)) (map_of (ac_packages db) i)) (ac_actions db))
        \<longleftrightarrow> x \<in> {(f, r) | f r. f \<in> set (map snd (ac_packages db)) \<and> r \<in> set (rows_of env f)}"
      unfolding x mem .
  qed
qed

lemma right_dump:
  assumes "image_ok env" "right_cache env db"
  shows "dumpdb db = ({(f, r) | f r. f \<in> set (ce_installed env) \<and> r \<in> set (rows_of env f)},
    {(hd names, k) | ns names k. (ns, names) \<in> set conflict_groups \<and> image_clash env names k})"
proof -
  have st: "stored env db" and inst: "set (map snd (ac_packages db)) = set (ce_installed env)"
    and con: "\<forall>r k. (r, k) \<in> set (ac_conflicts db) \<longleftrightarrow> true_conflicts db r k"
    using assms(2) by (auto simp: right_cache_def consistent_iff)
  have "set (ac_conflicts db) = {(hd names, k) | ns names k. (ns, names) \<in> set conflict_groups \<and> image_clash env names k}"
    using con unfolding true_conflicts_def stored_clash [OF st assms(1) inst] by (auto simp: set_eq_iff)
  then show ?thesis unfolding dumpdb_def right_dump_rows [OF st] inst by simp
qed

section \<open>Histories\<close>

text \<open>
  One image after another, each updating the cache that the one before has left.  The actions of a
  package depend on the variants and facets only.
\<close>

fun updates :: "cenv list \<Rightarrow> cache_file \<Rightarrow> cache_exn + cache_file" where
  "updates [] file = Inr file"
| "updates (env # envs) file = sbind (cache_update env file) (\<lambda>db. updates envs (Database db))"

definition one_catalog :: "cenv list \<Rightarrow> bool" where
  "one_catalog envs \<longleftrightarrow>
     (\<forall>e \<in> set envs. \<forall>e' \<in> set envs. ce_signature e = ce_signature e' \<longrightarrow>
        (\<forall>f \<in> set (ce_installed e @ ce_installed e'). rows_of e f = rows_of e' f))"

lemma rows_for_cong: "(\<And>f. f \<in> set (map snd ps) \<Longrightarrow> rows_of e f = rows_of e' f) \<Longrightarrow> rows_for e ps = rows_for e' ps"
  by (induction ps) (auto simp: rows_for_def)

lemma right_good:
  assumes "right_cache e db" "ce_signature e = ce_signature e' \<longrightarrow> (\<forall>f \<in> set (ce_installed e @ ce_installed e'). rows_of e f = rows_of e' f)"
  shows "good_file e' (Database db)"
proof -
  have "ce_signature e = ce_signature e'" if "usable e' db" using that assms(1) by (simp add: right_cache_def usable_def)
  moreover have "rows_for e (ac_packages db) = rows_for e' (ac_packages db)" if "ce_signature e = ce_signature e'"
    by (rule rows_for_cong) (use that assms in \<open>auto simp: right_cache_def\<close>)
  ultimately show ?thesis using assms(1) by (auto simp: good_file_def right_cache_def consistent_iff stored_def)
qed

lemma updates_right:
  "envs \<noteq> [] \<Longrightarrow> list_all (\<lambda>e. image_ok e \<and> ce_writable e) envs \<Longrightarrow> one_catalog envs \<Longrightarrow> good_file (hd envs) file \<Longrightarrow>
    \<exists>db. updates envs file = Inr (Database db) \<and> right_cache (last envs) db"
proof (induction envs arbitrary: "file")
  case (Cons e envs)
  obtain db where db: "cache_update e file = Inr db" "right_cache e db"
    using update_right [of e "file"] Cons.prems by auto
  show ?case
  proof (cases envs)
    case Nil
    then show ?thesis using db by simp
  next
    case (Cons e' envs')
    have "good_file e' (Database db)"
      by (rule right_good [OF db(2)]) (use Cons.prems(3) Cons in \<open>simp add: one_catalog_def\<close>)
    then show ?thesis using Cons.IH [of "Database db"] Cons.prems Cons db(1) by (simp add: one_catalog_def)
  qed
qed simp

section \<open>Properties\<close>

text \<open>
  C30. Updating the cache of actions succeeds and leaves it with the same rows and the same table of
  conflicts as rebuilding it from the manifests of the installed packages would, so that
  \<open>selfcheck\<close> finds no difference and the cache is up to date.
\<close>

theorem cache_update_rebuild:
  assumes "image_ok env" "ce_writable env" "good_file env file"
  shows "\<exists>db ref. cache_update env file = Inr db \<and> cache_rebuild env = Inr ref \<and> dumpdb db = dumpdb ref
    \<and> selfcheck env db = Inr True \<and> is_fresh env (Database db)"
proof -
  obtain db where db: "cache_update env file = Inr db" "right_cache env db" using update_right [OF assms] by blast
  obtain ref where ref: "cache_rebuild env = Inr ref" "right_cache env ref" using rebuild_right [OF assms(1, 2)] by blast
  have same: "dumpdb db = dumpdb ref" by (simp only: right_dump [OF assms(1) db(2)] right_dump [OF assms(1) ref(2)])
  moreover have "selfcheck env db = Inr True" by (simp add: selfcheck_def ref(1) same)
  moreover have "is_fresh env (Database db)" using db(2) by (simp add: is_fresh_def right_cache_def)
  ultimately show ?thesis using db(1) ref(1) by blast
qed

text \<open>
  C31. After an update the cache reports conflicts exactly when several of the installed packages
  deliver the same name in ways that conflict, and the table has exactly these names.
\<close>

theorem cache_update_conflicts:
  assumes "image_ok env" "ce_writable env" "good_file env file"
  shows "\<exists>db. cache_update env file = Inr db
    \<and> conflicting_keys (Database db) = Some {k. \<exists>g \<in> set conflict_groups. image_clash env (snd g) k}
    \<and> (has_conflicts (Database db) \<longleftrightarrow> (\<exists>g \<in> set conflict_groups. \<exists>k. image_clash env (snd g) k))"
proof -
  obtain db where db: "cache_update env file = Inr db" "right_cache env db" using update_right [OF assms] by blast
  then have st: "stored env db" and inst: "set (map snd (ac_packages db)) = set (ce_installed env)"
    and con: "\<And>r k. (r, k) \<in> set (ac_conflicts db) \<longleftrightarrow> true_conflicts db r k"
    by (auto simp: right_cache_def consistent_iff)
  have mem: "(r, k) \<in> set (ac_conflicts db) \<longleftrightarrow> (\<exists>g \<in> set conflict_groups. r = hd (snd g) \<and> image_clash env (snd g) k)" for r k
    unfolding con true_conflicts_def stored_clash [OF st assms(1) inst] case_prod_unfold by (rule refl)
  have "set (map snd (ac_conflicts db)) = {k. \<exists>r. (r, k) \<in> set (ac_conflicts db)}" by force
  then have keys: "set (map snd (ac_conflicts db)) = {k. \<exists>g \<in> set conflict_groups. image_clash env (snd g) k}"
    unfolding mem by blast
  moreover have "ac_conflicts db \<noteq> [] \<longleftrightarrow> set (map snd (ac_conflicts db)) \<noteq> {}" by simp
  ultimately show ?thesis using db(1) by (auto simp: conflicting_keys_def has_conflicts_def)
qed

text \<open>
  C32. Along any sequence of updates, as packages are installed and removed and variants and facets
  change, every update succeeds and the cache is that of the image of the moment: its packages are the
  installed ones, its rows are theirs and its conflicts are the conflicts of the rows.
\<close>

theorem cache_history:
  assumes "envs \<noteq> []" "list_all (\<lambda>e. image_ok e \<and> ce_writable e) envs" "one_catalog envs"
    and "file = NoFile \<or> file = Corrupt"
  shows "\<exists>db. updates envs file = Inr (Database db) \<and> right_cache (last envs) db"
  using updates_right [OF assms(1-3), of "file"] assms(4) by (auto simp: good_file_def)

section \<open>Witnesses\<close>

definition wit_file :: "string \<Rightarrow> string \<Rightarrow> action" where
  "wit_file p m = \<lparr>a_name = ''file'', a_hash = Some ''ab'', a_attrs = [(''path'', AStr p), (''mode'', AStr m)]\<rparr>"

definition wit_link :: "string \<Rightarrow> string \<Rightarrow> action" where
  "wit_link p t = \<lparr>a_name = ''link'', a_hash = None, a_attrs = [(''path'', AStr p), (''target'', AStr t)]\<rparr>"

definition wit_manifest :: "string \<Rightarrow> action list" where
  "wit_manifest f =
     (if f = ''p'' then [wit_file ''a'' ''0644'']
      else if f = ''q'' then [wit_link ''a'' ''b'', wit_link ''c'' ''b''] else [wit_link ''c'' ''b''])"

definition wit_env :: "string list \<Rightarrow> cenv" where
  "wit_env fs = \<lparr>ce_installed = fs, ce_manifest = wit_manifest, ce_signature = ''v'', ce_writable = True\<rparr>"

text \<open>The packages \<open>p\<close> and \<open>q\<close> are cached, with a conflict; now \<open>q\<close> and \<open>r\<close> are installed.\<close>

definition wit_db :: adb where
  "wit_db = \<lparr>ac_version = 1, ac_meta = [(''excludes'', ''v''), (''complete'', ''1'')],
     ac_packages = [(1, ''p''), (2, ''q'')],
     ac_actions = [(1, ''file'', ''a'', ''file ab mode=0644 path=a''), (2, ''link'', ''a'', ''link path=a target=b''),
       (2, ''link'', ''c'', ''link path=c target=b'')],
     ac_conflicts = [(''dir'', ''a'')]\<rparr>"

lemma wit_image: "image_ok (wit_env [''q'', ''r''])"
  by code_simp

lemma wit_good: "good_file (wit_env [''q'', ''r'']) (Database wit_db)"
  by code_simp

lemma wit_writable: "ce_writable (wit_env fs)"
  by (simp add: wit_env_def)

lemma cache_update_rebuild_witness:
  "\<exists>db ref. cache_update (wit_env [''q'', ''r'']) (Database wit_db) = Inr db
    \<and> cache_rebuild (wit_env [''q'', ''r'']) = Inr ref \<and> dumpdb db = dumpdb ref
    \<and> selfcheck (wit_env [''q'', ''r'']) db = Inr True \<and> is_fresh (wit_env [''q'', ''r'']) (Database db)"
  by (rule cache_update_rebuild [OF wit_image wit_writable wit_good])

lemma cache_update_conflicts_witness:
  "\<exists>db. cache_update (wit_env [''q'', ''r'']) (Database wit_db) = Inr db
    \<and> conflicting_keys (Database db) = Some {k. \<exists>g \<in> set conflict_groups. image_clash (wit_env [''q'', ''r'']) (snd g) k}
    \<and> (has_conflicts (Database db) \<longleftrightarrow> (\<exists>g \<in> set conflict_groups. \<exists>k. image_clash (wit_env [''q'', ''r'']) (snd g) k))"
  by (rule cache_update_conflicts [OF wit_image wit_writable wit_good])

lemma wit_history: "list_all (\<lambda>e. image_ok e \<and> ce_writable e) [wit_env [''p'', ''q''], wit_env [''q'', ''r'']]"
  by code_simp

lemma cache_history_witness:
  "\<exists>db. updates [wit_env [''p'', ''q''], wit_env [''q'', ''r'']] NoFile = Inr (Database db)
    \<and> right_cache (last [wit_env [''p'', ''q''], wit_env [''q'', ''r'']]) db"
  by (rule cache_history [OF _ wit_history]) (simp_all add: one_catalog_def wit_env_def rows_of_def gen_package_rows_def)

end
