(* ===== verification/Plan_Check.thy ===== *)
theory Plan_Check
  imports Action_Cache
begin

text \<open>
  The search of \<open>client/imageplan.py\<close> for conflicts between the actions of the packages of a planned
  image: the actions that the plan brings and takes away, those that stay, which the cache of actions
  gives, the fast comparison of both, the checks and what their verdicts do to the plan
  (\<open>__find_all_conflicts\<close>).
\<close>

section \<open>The plan\<close>

text \<open>
  Actions of a plan are compared by identity when package plans are trimmed, so they carry a number.
  A package plan (\<open>client/pkgplan.py\<close>) has the packages of its two sides, the name of its origin, the
  actions and the directories that their manifests give under the variants and facets before and
  after, and the pairs of actions that it adds, changes and removes.
\<close>

type_synonym iact = "nat \<times> action"

record pplan =
  pp_origin :: "string option"
  pp_dest :: "string option"
  pp_origin_name :: string
  pp_out :: "action list"
  pp_out_dirs :: "string list"
  pp_in :: "action list"
  pp_in_dirs :: "string list"
  pp_added :: "(iact option \<times> iact option) list"
  pp_changed :: "(iact option \<times> iact option) list"
  pp_removed :: "(iact option \<times> iact option) list"

text \<open>
  The lists of the plan have entries that are set to \<open>None\<close> when they are suppressed; an entry is the
  index of its package plan and the action, the source in removals and the target elsewhere.
\<close>

type_synonym aplan = "nat \<times> iact"

record plan_state =
  ps_plans :: "pplan list"
  ps_removal :: "aplan option list"
  ps_install :: "aplan option list"
  ps_update :: "aplan option list"
  ps_fixups :: "(string \<times> action list \<times> action list) list"
  ps_errs :: "(conflict_exn \<times> string delivered list) list"

datatype plan_exn =
    ConflictingActionErrors "(conflict_exn \<times> string delivered list) list"
  | InvalidPackageErrors
  | PlanCacheError cache_exn
  | PlanActionError act_exn
  | PlanKeyError
  | PlanTypeError
  | PlanAssertionError

definition act_key :: "action \<Rightarrow> avalue option" where
  "act_key a = (case key_attr (a_name a) of None \<Rightarrow> None | Some k \<Rightarrow> dget (a_attrs a) k)"

definition new_installed :: "string list \<Rightarrow> pplan list \<Rightarrow> string list" where
  "new_installed installed plans =
     fold (\<lambda>p fs.
       let fs = (case pp_origin p of None \<Rightarrow> fs | Some f \<Rightarrow> removeAll f fs) in
       case pp_dest p of None \<Rightarrow> fs | Some f \<Rightarrow> List.insert f fs) plans installed"

section \<open>The actions of the packages that change\<close>

definition implicit_dir_action :: "string \<Rightarrow> action" where
  "implicit_dir_action d = \<lparr>a_name = ''dir'', a_hash = None, a_attrs = [(''path'', AStr d), (''implicit'', AStr ''true'')]\<rparr>"

definition actions_bytype :: "string \<Rightarrow> string \<times> action list \<times> string list \<Rightarrow> string delivered list" where
  "actions_bytype atype = (\<lambda>(f, as, dirs).
     let mine = filter (\<lambda>a. a_name a = atype) as in
     map (\<lambda>a. (a, f)) mine @
     (if atype = ''dir''
      then map (\<lambda>d. (implicit_dir_action d, f)) (filter (\<lambda>d. AStr d \<notin> set (List.map_filter (\<lambda>a. dget (a_attrs a) ''path'') mine)) dirs)
      else []))"

definition only_new_installed_info :: "pplan list \<Rightarrow> (string \<times> action list \<times> string list) list" where
  "only_new_installed_info plans =
     List.map_filter (\<lambda>p. map_option (\<lambda>f. (f, pp_in p, pp_in_dirs p)) (pp_dest p)) plans"

definition outgoing_info :: "pplan list \<Rightarrow> (string \<times> action list \<times> string list) list" where
  "outgoing_info plans =
     List.map_filter (\<lambda>p. if pp_origin p \<noteq> pp_dest p
       then map_option (\<lambda>f. (f, pp_out p, pp_out_dirs p)) (pp_origin p) else None) plans"

type_synonym group = "(string \<times> string delivered list) list"

definition at :: "group \<Rightarrow> string \<Rightarrow> string delivered list" where
  "at d k = (case map_of d k of None \<Rightarrow> [] | Some xs \<Rightarrow> xs)"

fun put_at :: "string \<Rightarrow> string delivered \<Rightarrow> group \<Rightarrow> group" where
  "put_at k x [] = [(k, [x])]"
| "put_at k x ((k', xs) # d) = (if k = k' then (k', xs @ [x]) # d else (k', xs) # put_at k x d)"

fun put_all :: "string delivered list \<Rightarrow> group \<Rightarrow> plan_exn + group" where
  "put_all [] d = Inr d"
| "put_all (x # xs) d =
     (case act_key (fst x) of
        None \<Rightarrow> Inl PlanKeyError | Some (AList l) \<Rightarrow> Inl PlanTypeError | Some (AStr k) \<Rightarrow> put_all xs (put_at k x d))"

definition seed :: "(string \<times> action list \<times> string list) list \<Rightarrow> string list \<Rightarrow> plan_exn + group" where
  "seed info names = put_all (concat (map (\<lambda>n. concat (map (actions_bytype n) info)) names)) []"

section \<open>The actions that stay\<close>

fun act_dup_check :: "string delivered list \<Rightarrow> string \<Rightarrow> string \<Rightarrow> plan_exn + bool" where
  "act_dup_check [] actstr f = Inr False"
| "act_dup_check ((a, g) # tgt) actstr f =
     (if f \<noteq> g then act_dup_check tgt actstr f
      else (case fromstr (fst (action_str a)) of
              Inl e \<Rightarrow> Inl (PlanActionError e)
            | Inr b \<Rightarrow> if actstr = fst (action_str (strip [(''dir'', [''implicit''])] b)) then Inr True
                       else act_dup_check tgt actstr f))"

text \<open>\<open>pns\<close> is the namespace of the actions before.\<close>

fun update_rows :: "bool \<Rightarrow> string list \<Rightarrow> (string \<times> string \<times> string) list \<Rightarrow> nsgroup option \<Rightarrow> group \<Rightarrow> plan_exn + group" where
  "update_rows skip_dups skip_fmris [] pns tgt = Inr tgt"
| "update_rows skip_dups skip_fmris ((key, f, t) # rows) pns tgt =
     (if f \<in> set skip_fmris then update_rows skip_dups skip_fmris rows pns tgt
      else (case fromstr t of
        Inl e \<Rightarrow> Inl (PlanActionError e)
      | Inr a \<Rightarrow>
          if act_key a \<noteq> Some (AStr key) then Inl InvalidPackageErrors
          else if pns \<noteq> None \<and> pns \<noteq> Some (namespace_group (a_name a)) then Inl PlanAssertionError
          else
            sbind (if skip_dups then act_dup_check (at tgt key) t f else Inr False) (\<lambda>dup.
            update_rows skip_dups skip_fmris rows (Some (namespace_group (a_name a)))
              (if dup then tgt else put_at key (a, f) tgt))))"

definition update_act ::
  "string list \<Rightarrow> group \<Rightarrow> bool \<Rightarrow> cache_file \<Rightarrow> string list \<Rightarrow> string list \<Rightarrow> plan_exn + group" where
  "update_act keys tgt skip_dups cache names skip_fmris =
     (case get_actions_of names keys cache of
        Inl e \<Rightarrow> Inl (PlanCacheError e)
      | Inr rows \<Rightarrow> update_rows skip_dups skip_fmris rows None tgt)"

section \<open>The fast comparison\<close>

definition matches :: "action \<Rightarrow> action \<Rightarrow> bool" where
  "matches a b \<longleftrightarrow> a_name a = a_name b
     \<and> list_all (\<lambda>k. dget (a_attrs a) k = dget (a_attrs b) k) (unique_attrs (a_name a))"

fun first_match :: "action \<Rightarrow> string delivered list \<Rightarrow> nat option" where
  "first_match a [] = None"
| "first_match a (x # xs) = (if matches a (fst x) then Some 0 else map_option Suc (first_match a xs))"

definition fast_same :: "string delivered list \<Rightarrow> string delivered list \<Rightarrow> bool" where
  "fast_same actions oactions \<longleftrightarrow>
     (case those (map (\<lambda>(a, f). first_match a oactions) actions) of
        None \<Rightarrow> False
      | Some matched \<Rightarrow>
          list_all (\<lambda>(i, x). i \<in> set matched \<or> list_ex (\<lambda>(a, f). matches a (fst x)) actions) (enumerate 0 oactions))"

definition fast_drops :: "group \<Rightarrow> string \<times> string delivered list \<Rightarrow> bool" where
  "fast_drops old = (\<lambda>(key, actions).
     let oactions = at old key; name = a_name (fst (hd actions)) in
     oactions \<noteq> [] \<and> \<not> (\<not> refcountable name \<and> globally_identical name \<and> 1 < length actions)
     \<and> fast_same actions oactions)"

definition fast_check :: "group \<Rightarrow> group \<Rightarrow> group \<times> group" where
  "fast_check new old =
     (let new' = filter (\<lambda>x. \<not> fast_drops old x) new
      in (new', filter (\<lambda>(k, xs). k \<in> set (map fst new')) old))"

section \<open>What a verdict does\<close>

fun suppress_overlaid :: "string \<Rightarrow> aplan option list \<Rightarrow> string list \<Rightarrow>
    plan_exn + aplan option list \<times> string list \<times> (nat \<times> nat) list" where
  "suppress_overlaid key [] moved = Inr ([], moved, [])"
| "suppress_overlaid key (None # aps) moved =
     sbind (suppress_overlaid key aps moved) (\<lambda>(aps, moved, trim). Inr (None # aps, moved, trim))"
| "suppress_overlaid key (Some (p, i, a) # aps) moved =
     (let next = (\<lambda>moved. sbind (suppress_overlaid key aps moved)
                    (\<lambda>(aps, moved, trim). Inr (Some (p, i, a) # aps, moved, trim))) in
      if act_key a \<noteq> Some (AStr key) then
        if has_attr a ''preserve'' then
          (case dget (a_attrs a) ''original_name'' of
             None \<Rightarrow> next moved | Some (AStr s) \<Rightarrow> next (moved @ [s]) | Some (AList l) \<Rightarrow> Inl PlanTypeError)
        else next moved
      else if \<not> attr_is a ''overlay'' ''allow'' then next moved
      else Inr (None # aps, moved, [(p, i)]))"

text \<open>
  A file that has moved keeps its removal, with a mark to save it.  The default of
  \<open>original_name\<close> needs the attribute \<open>path\<close>, which has a single value.
\<close>

definition original_name :: "pplan list \<Rightarrow> nat \<Rightarrow> action \<Rightarrow> plan_exn + string" where
  "original_name plans p a =
     (case dget (a_attrs a) ''path'' of
        None \<Rightarrow> Inl PlanKeyError
      | Some v \<Rightarrow>
          (case dget (a_attrs a) ''original_name'' of
             Some (AStr s) \<Rightarrow> Inr s
           | Some (AList l) \<Rightarrow> Inl PlanTypeError
           | None \<Rightarrow> (case v of AStr s \<Rightarrow> Inr (pp_origin_name (plans ! p) @ '':'' @ s) | AList l \<Rightarrow> Inl PlanTypeError)))"

fun suppress_removal :: "pplan list \<Rightarrow> string \<Rightarrow> string list \<Rightarrow> aplan option list \<Rightarrow>
    plan_exn + aplan option list \<times> (nat \<times> nat) list" where
  "suppress_removal plans key moved [] = Inr ([], [])"
| "suppress_removal plans key moved (None # aps) =
     sbind (suppress_removal plans key moved aps) (\<lambda>(aps, trim). Inr (None # aps, trim))"
| "suppress_removal plans key moved (Some (p, i, a) # aps) =
     (if act_key a \<noteq> Some (AStr key) \<or> \<not> attr_is a ''overlay'' ''allow'' then
        sbind (suppress_removal plans key moved aps) (\<lambda>(aps, trim). Inr (Some (p, i, a) # aps, trim))
      else
        sbind (original_name plans p a) (\<lambda>orig.
        if orig \<in> set moved
        then Inr (Some (p, i, a\<lparr>a_attrs := dput ''save_file'' (AList [orig, ''false'']) (a_attrs a)\<rparr>) # aps, [])
        else Inr (None # aps, [(p, i)])))"

definition trim_pairs :: "nat list \<Rightarrow> (iact option \<times> iact option) list \<Rightarrow> (iact option \<times> iact option) list" where
  "trim_pairs ids = filter (\<lambda>(s, d). case d of None \<Rightarrow> True | Some (i, a) \<Rightarrow> i \<notin> set ids)"

definition trim_plan :: "nat list \<Rightarrow> pplan \<Rightarrow> pplan" where
  "trim_plan ids p = p\<lparr>pp_added := trim_pairs ids (pp_added p), pp_changed := trim_pairs ids (pp_changed p),
     pp_removed := trim_pairs ids (pp_removed p)\<rparr>"

definition trim_plans :: "(nat \<times> nat) list \<Rightarrow> pplan list \<Rightarrow> pplan list" where
  "trim_plans trims plans = map (\<lambda>(n, p). trim_plan (map snd (filter (\<lambda>t. fst t = n) trims)) p) (enumerate 0 plans)"

definition overlay_verdict :: "string \<Rightarrow> plan_state \<Rightarrow> plan_exn + plan_state" where
  "overlay_verdict key st =
     sbind (suppress_overlaid key (ps_install st) []) (\<lambda>(inst, moved, t1).
     sbind (suppress_overlaid key (ps_update st) moved) (\<lambda>(upd, moved, t2).
     sbind (suppress_removal (ps_plans st) key moved (ps_removal st)) (\<lambda>(rem, t3).
     Inr (st\<lparr>ps_install := inst, ps_update := upd, ps_removal := rem,
             ps_plans := trim_plans (t1 @ t2 @ t3) (ps_plans st)\<rparr>))))"

definition keep_removals :: "string \<Rightarrow> plan_state \<Rightarrow> plan_state" where
  "keep_removals key st = st\<lparr>ps_removal := map (\<lambda>ap. case ap of None \<Rightarrow> None
     | Some (p, i, a) \<Rightarrow> if act_key a = Some (AStr key) then None else Some (p, i, a)) (ps_removal st)\<rparr>"

fun propose_fixup :: "action option \<Rightarrow> action option \<Rightarrow> string \<Rightarrow> (string \<times> action list \<times> action list) list
    \<Rightarrow> (string \<times> action list \<times> action list) list" where
  "propose_fixup inst rem f [] =
     [(f, case inst of Some a \<Rightarrow> ([a], []) | None \<Rightarrow> ([], (case rem of Some a \<Rightarrow> [a] | None \<Rightarrow> [])))]"
| "propose_fixup inst rem f ((g, i, r) # fx) =
     (if f = g then (g, case inst of Some a \<Rightarrow> (i @ [a], r) | None \<Rightarrow> (i, r @ (case rem of Some a \<Rightarrow> [a] | None \<Rightarrow> []))) # fx
      else (g, i, r) # propose_fixup inst rem f fx)"

text \<open>\<open>__process_conflicts\<close>: the answer is whether the check had a verdict.\<close>

definition process_conflicts ::
  "string \<Rightarrow> string verdict option \<Rightarrow> conflict_exn \<Rightarrow> plan_state \<Rightarrow> plan_exn + bool \<times> plan_state" where
  "process_conflicts key ret errclass st =
     (case ret of
        None \<Rightarrow> Inr (False, st)
      | Some VNothing \<Rightarrow> Inr (True, keep_removals key st)
      | Some VOverlay \<Rightarrow> sbind (overlay_verdict key st) (\<lambda>st. Inr (True, st))
      | Some (VFixup x) \<Rightarrow> Inr (True, st\<lparr>ps_fixups := propose_fixup (Some (fst x)) None (snd x) (ps_fixups st)\<rparr>)
      | Some (VError acts cls) \<Rightarrow>
          Inr (True, st\<lparr>ps_errs := ps_errs st @ [(case cls of None \<Rightarrow> errclass | Some c \<Rightarrow> c, acts)]\<rparr>))"

section \<open>All checks\<close>

definition check_key ::
  "(string \<Rightarrow> 'k::linorder) \<Rightarrow> nsgroup \<Rightarrow> string \<Rightarrow> string delivered list \<Rightarrow> string delivered list \<Rightarrow> plan_state
   \<Rightarrow> plan_exn + plan_state" where
  "check_key key ns k actions oactions st =
     (if length actions = 1 \<and> length oactions < 2 then Inr st
      else
        sbind (case ns of NsOwn _ \<Rightarrow> Inr (False, st)
               | _ \<Rightarrow> process_conflicts k (check_inconsistent_types key actions oactions) InconsistentActionTypeError st)
          (\<lambda>(handled, st).
        if handled then Inr st
        else
          let name = a_name (fst (hd actions)) in
          if \<not> globally_identical name then Inr st
          else if \<not> refcountable name
          then sbind (process_conflicts k (check_duplicate_actions actions oactions) DuplicateActionError st) (Inr \<circ> snd)
          else sbind (process_conflicts k (check_inconsistent_attrs actions oactions) InconsistentActionAttributeError st)
                 (Inr \<circ> snd)))"

fun check_new :: "(string \<Rightarrow> 'k::linorder) \<Rightarrow> nsgroup \<Rightarrow> group \<Rightarrow> group \<Rightarrow> plan_state \<Rightarrow> plan_exn + plan_state" where
  "check_new key ns [] old st = Inr st"
| "check_new key ns ((k, actions) # new) old st =
     sbind (check_key key ns k actions (at old k) st) (check_new key ns new old)"

fun check_old :: "string set \<Rightarrow> group \<Rightarrow> plan_state \<Rightarrow> plan_exn + plan_state" where
  "check_old new_keys [] st = Inr st"
| "check_old new_keys ((k, oactions) # old) st =
     (let name = a_name (fst (hd oactions)) in
      sbind (if length oactions < 2 \<or> k \<in> new_keys \<or> list_ex (\<lambda>a. a_name (fst a) \<noteq> ''file'') oactions then Inr st
             else if \<not> refcountable name \<and> globally_identical name
             then sbind (process_conflicts k (check_duplicate_actions [] oactions) DuplicateActionError st) (Inr \<circ> snd)
             else Inr st)
        (check_old new_keys old))"

definition check_conflicts ::
  "(string \<Rightarrow> 'k::linorder) \<Rightarrow> nsgroup \<Rightarrow> group \<Rightarrow> group \<Rightarrow> plan_state \<Rightarrow> plan_exn + plan_state" where
  "check_conflicts key ns new old st =
     sbind (check_new key ns new old st) (check_old (set (map fst new)) old)"

text \<open>
  The two sides of one namespace, without and with the comparison.
\<close>

definition namespace_sides ::
  "bool \<Rightarrow> pplan list \<Rightarrow> cache_file \<Rightarrow> string list \<Rightarrow> string list \<Rightarrow> string list \<Rightarrow> plan_exn + group \<times> group" where
  "namespace_sides clean plans cache gone changing names =
     sbind (seed (only_new_installed_info plans) names) (\<lambda>new.
     sbind (seed (outgoing_info plans) names) (\<lambda>old.
     let (new, old) = (if clean then fast_check new old else (new, old)) in
     sbind (update_act (remdups (map fst new @ map fst old)) old False cache names gone) (\<lambda>old.
     sbind (update_act (map fst old) new True cache names (gone @ changing)) (\<lambda>new.
     Inr (new, old)))))"

fun check_namespaces ::
  "(string \<Rightarrow> 'k::linorder) \<Rightarrow> bool \<Rightarrow> pplan list \<Rightarrow> cache_file \<Rightarrow> string list \<Rightarrow> string list
   \<Rightarrow> (nsgroup \<times> string list) list \<Rightarrow> plan_state \<Rightarrow> plan_exn + plan_state" where
  "check_namespaces key clean plans cache gone changing [] st = Inr st"
| "check_namespaces key clean plans cache gone changing ((ns, names) # gs) st =
     sbind (namespace_sides clean plans cache gone changing names) (\<lambda>(new, old).
     sbind (check_conflicts key ns new old st)
       (check_namespaces key clean plans cache gone changing gs))"

text \<open>
  A repair plan for every package with fixups.  \<open>excluded\<close> says whether a path is excluded in the
  image; repair actions are in no other list, so their number is of no account.
\<close>

definition path_excluded :: "(string \<Rightarrow> bool) \<Rightarrow> action \<Rightarrow> bool" where
  "path_excluded excluded a \<longleftrightarrow> (case dget (a_attrs a) ''path'' of Some (AStr s) \<Rightarrow> excluded s | _ \<Rightarrow> False)"

fun evaluate_fixups :: "(string \<Rightarrow> string) \<Rightarrow> (string \<Rightarrow> bool) \<Rightarrow> (string \<times> action list \<times> action list) list \<Rightarrow> plan_state \<Rightarrow> plan_state" where
  "evaluate_fixups name_of excluded [] st = st\<lparr>ps_fixups := []\<rparr>"
| "evaluate_fixups name_of excluded ((f, inst, rem) # fx) st =
     (let n = length (ps_plans st);
          entries = (\<lambda>as. map (\<lambda>a. Some (n, 0, a)) (filter (\<lambda>a. \<not> path_excluded excluded a) as)) in
      evaluate_fixups name_of excluded fx (st\<lparr>
        ps_plans := ps_plans st @ [\<lparr>pp_origin = Some f, pp_dest = Some f, pp_origin_name = name_of f, pp_out = [], pp_out_dirs = [],
          pp_in = [], pp_in_dirs = [], pp_added = [], pp_changed = map (\<lambda>a. (None, Some (0, a))) inst,
          pp_removed = map (\<lambda>a. (Some (0, a), None)) rem\<rparr>],
        ps_update := ps_update st @ entries inst, ps_removal := ps_removal st @ entries rem\<rparr>))"

definition find_all_conflicts ::
  "(string \<Rightarrow> 'k::linorder) \<Rightarrow> (string \<Rightarrow> string) \<Rightarrow> (string \<Rightarrow> bool) \<Rightarrow> string list \<Rightarrow> cache_file \<Rightarrow> plan_state \<Rightarrow> plan_exn + plan_state" where
  "find_all_conflicts key name_of excluded installed cache st =
     (let plans = ps_plans st; new_fmris = new_installed installed plans in
      if new_fmris = [] then Inr st
      else
        let gone = filter (\<lambda>f. f \<notin> set new_fmris) installed;
            changing = List.map_filter pp_dest plans;
            clean = (\<not> has_conflicts cache) in
        sbind (check_namespaces key clean plans cache gone changing conflict_groups (st\<lparr>ps_errs := []\<rparr>)) (\<lambda>st.
        if ps_errs st = [] then Inr (evaluate_fixups name_of excluded (ps_fixups st) st)
        else Inl (ConflictingActionErrors (ps_errs st))))"

end
