(* ===== verification/Plan_Check_Facts.thy ===== *)
theory Plan_Check_Facts
  imports Plan_Check "HOL-Library.Sublist" Action_Cache_Facts
begin

text \<open>
  What the check of a plan looks at and decides: the contents of both sides at a name, the verdicts
  that are errors, and that the fast comparison leaves out no conflict as long as no link has a
  mediator.
\<close>

section \<open>Groups\<close>

lemma at_Nil [simp]: "at [] k = []"
  by (simp add: at_def)

lemma at_put_at: "at (put_at k x d) j = (if j = k then at d k @ [x] else at d j)"
  by (induction d rule: put_at.induct) (auto simp: at_def)

lemma keys_put_at: "set (map fst (put_at k x d)) = insert k (set (map fst d))"
  by (induction d rule: put_at.induct) auto

lemma distinct_put_at: "distinct (map fst d) \<Longrightarrow> distinct (map fst (put_at k x d))"
proof (induction d rule: put_at.induct)
  case (2 k x k' xs d)
  then show ?case using keys_put_at [of k x d] by auto
qed simp

text \<open>Groups without empty entries and with each key once.\<close>

definition proper :: "group \<Rightarrow> bool" where
  "proper d \<longleftrightarrow> distinct (map fst d) \<and> (\<forall>x \<in> set d. snd x \<noteq> [])"

lemma filled_put_at: "\<forall>y \<in> set d. snd y \<noteq> [] \<Longrightarrow> \<forall>y \<in> set (put_at k x d). snd y \<noteq> []"
  by (induction d rule: put_at.induct) auto

lemma proper_put_at: "proper d \<Longrightarrow> proper (put_at k x d)"
  unfolding proper_def using distinct_put_at [of d k x] filled_put_at [of d k x] by blast

lemma at_mem: "proper d \<Longrightarrow> (k, xs) \<in> set d \<Longrightarrow> at d k = xs"
  by (simp add: proper_def at_def)

lemma at_keys: "proper d \<Longrightarrow> at d k \<noteq> [] \<longleftrightarrow> k \<in> set (map fst d)"
proof -
  assume d: "proper d"
  have "(k, xs) \<in> set d \<Longrightarrow> xs \<noteq> []" for xs using d by (force simp: proper_def)
  moreover have "k \<in> set (map fst d) \<longleftrightarrow> (\<exists>xs. map_of d k = Some xs)" by (simp flip: not_None_eq add: map_of_eq_None_iff)
  ultimately show ?thesis by (cases "map_of d k") (auto simp: at_def dest: map_of_SomeD)
qed

lemma put_all_at:
  "put_all xs d = Inr d' \<Longrightarrow>
    at d' k = at d k @ filter (\<lambda>x. act_key (fst x) = Some (AStr k)) xs \<and> (proper d \<longrightarrow> proper d')"
proof (induction xs arbitrary: d)
  case (Cons x xs)
  then obtain j where j: "act_key (fst x) = Some (AStr j)" "put_all xs (put_at j x d) = Inr d'"
    by (auto split: option.splits avalue.splits)
  from Cons.IH [OF j(2)] show ?case by (auto simp: j(1) at_put_at proper_put_at)
qed simp

definition seed_at :: "(string \<times> action list \<times> string list) list \<Rightarrow> string list \<Rightarrow> string \<Rightarrow> string delivered list" where
  "seed_at info names k = filter (\<lambda>x. act_key (fst x) = Some (AStr k))
     (concat (map (\<lambda>n. concat (map (actions_bytype n) info)) names))"

lemma seed_result: "seed info names = Inr d \<Longrightarrow> proper d \<and> (\<forall>k. at d k = seed_at info names k)"
  using put_all_at [of _ "[]" d] by (auto simp: seed_def seed_at_def proper_def)

section \<open>The actions of the cache\<close>

definition cache_rows :: "adb \<Rightarrow> (string \<times> string \<times> string \<times> string) list" where
  "cache_rows db = List.map_filter (\<lambda>(i, n, v, t). map_option (\<lambda>f. (v, n, f, t)) (map_of (ac_packages db) i)) (ac_actions db)"

definition order_row :: "string \<times> string \<times> string \<times> string \<Rightarrow> string list" where
  "order_row = (\<lambda>(v, n, f, t). [v, n, f, t])"

text \<open>The rows of one name in the order in which they are read.\<close>

definition rows_named :: "adb \<Rightarrow> string list \<Rightarrow> string \<Rightarrow> (string \<times> string \<times> string) list" where
  "rows_named db names k = map (\<lambda>(v, n, f, t). (v, f, t))
     (sort_key order_row (filter (\<lambda>(v, n, f, t). n \<in> set names \<and> v = k) (cache_rows db)))"

definition stay :: "adb \<Rightarrow> string list \<Rightarrow> string list \<Rightarrow> string \<Rightarrow> string delivered list" where
  "stay db names skip k = map (\<lambda>(v, f, t). (projr (fromstr t), f)) (filter (\<lambda>(v, f, t). f \<notin> set skip) (rows_named db names k))"

lemma cache_rows_filter:
  "List.map_filter (\<lambda>(i, n, v, t). if n \<in> set names \<and> v \<in> set ks
      then map_option (\<lambda>f. (v, n, f, t)) (map_of (ac_packages db) i) else None) (ac_actions db)
    = filter (\<lambda>(v, n, f, t). n \<in> set names \<and> v \<in> set ks) (cache_rows db)"
proof -
  have "List.map_filter (\<lambda>(i, n, v, t). if n \<in> set names \<and> v \<in> set ks
      then map_option (\<lambda>f. (v, n, f, t)) (map_of (ac_packages db) i) else None) rows
    = filter (\<lambda>(v, n, f, t). n \<in> set names \<and> v \<in> set ks)
        (List.map_filter (\<lambda>(i, n, v, t). map_option (\<lambda>f. (v, n, f, t)) (map_of (ac_packages db) i)) rows)" for rows
    by (induction rows) (auto simp: List.map_filter_simps split: option.splits if_splits)
  then show ?thesis by (simp add: cache_rows_def)
qed

lemma chunk_rows:
  "filter (\<lambda>(v, f, t). v = k) (map (\<lambda>(v, n, f, t). (v, f, t))
      (sort_key order_row (filter (\<lambda>(v, n, f, t). n \<in> set names \<and> v \<in> set ks) (cache_rows db))))
    = (if k \<in> set ks then rows_named db names k else [])"
proof -
  let ?P = "\<lambda>(v, n, f, t). n \<in> set names \<and> v \<in> set ks"
  have "filter (\<lambda>(v, f, t). v = k) (map (\<lambda>(v, n, f, t). (v, f, t)) (sort_key order_row (filter ?P (cache_rows db))))
      = map (\<lambda>(v, n, f, t). (v, f, t)) (filter (\<lambda>(v, n, f, t). v = k) (sort_key order_row (filter ?P (cache_rows db))))"
    by (simp add: filter_map o_def case_prod_unfold)
  also have "filter (\<lambda>(v, n, f, t). v = k) (sort_key order_row (filter ?P (cache_rows db)))
      = sort_key order_row (filter (\<lambda>(v, n, f, t). v = k) (filter ?P (cache_rows db)))"
    by (rule filter_sort)
  also have "filter (\<lambda>(v, n, f, t). v = k) (filter ?P (cache_rows db))
      = (if k \<in> set ks then filter (\<lambda>(v, n, f, t). n \<in> set names \<and> v = k) (cache_rows db) else [])"
    by (auto simp: filter_empty_conv intro!: filter_cong)
  finally show ?thesis
    by (cases "k \<in> set ks") (simp_all only: rows_named_def if_True if_False sort_key_simps list.map)
qed

lemma concat_one:
  "distinct (concat kss) \<Longrightarrow> concat (map (\<lambda>ks. if k \<in> set ks then X else []) kss) = (if k \<in> set (concat kss) then X else [])"
proof (induction kss)
  case (Cons ks kss)
  then show ?case by (cases "k \<in> set ks") auto
qed simp

lemma get_actions_named:
  assumes "get_actions_of names keys (Database db) = Inr rows" "distinct keys"
  shows "filter (\<lambda>(v, f, t). v = k) rows = (if k \<in> set keys then rows_named db names k else [])"
proof -
  have rows: "rows = concat (map (\<lambda>ks. map (\<lambda>(v, n, f, t). (v, f, t))
      (sort_key order_row (filter (\<lambda>(v, n, f, t). n \<in> set names \<and> v \<in> set ks) (cache_rows db)))) (chunks CHUNK keys))"
    using assms(1) unfolding get_actions_of_def cache_rows_filter order_row_def by simp
  have "filter (\<lambda>(v, f, t). v = k) rows = concat (map (\<lambda>ks. if k \<in> set ks then rows_named db names k else []) (chunks CHUNK keys))"
    unfolding rows filter_concat map_map o_def chunk_rows by (rule refl)
  also have "\<dots> = (if k \<in> set keys then rows_named db names k else [])"
  proof -
    have c: "concat (chunks CHUNK keys) = keys" by (simp add: concat_chunks CHUNK_def)
    then show ?thesis using concat_one [of "chunks CHUNK keys" k "rows_named db names k"] assms(2) by (simp only: c)
  qed
  finally show ?thesis .
qed

text \<open>A text that is read and printed again is the same.\<close>

definition canonical :: "string \<Rightarrow> bool" where
  "canonical t \<longleftrightarrow> (case fromstr t of Inl e \<Rightarrow> False | Inr a \<Rightarrow>
     (case fromstr (fst (action_str a)) of Inl e \<Rightarrow> False | Inr b \<Rightarrow>
        fst (action_str (strip [(''dir'', [''implicit''])] b)) = t))"

definition tidy_cache :: "adb \<Rightarrow> bool" where
  "tidy_cache db \<longleftrightarrow> distinct (map (\<lambda>(v, n, f, t). (v, f, t)) (cache_rows db)) \<and> list_all (\<lambda>(v, n, f, t). canonical t) (cache_rows db)"

definition no_dup :: "string delivered list \<Rightarrow> string \<Rightarrow> string \<Rightarrow> bool" where
  "no_dup xs f t \<longleftrightarrow> (\<forall>(a, g) \<in> set xs. g = f \<longrightarrow> (\<exists>t'. fromstr t' = Inr a \<and> canonical t' \<and> t' \<noteq> t))"

lemma no_dup_check: "no_dup xs f t \<Longrightarrow> act_dup_check xs t f = Inr False"
proof (induction xs)
  case (Cons x xs)
  obtain a g where x: "x = (a, g)" by fastforce
  show ?case
  proof (cases "g = f")
    case True
    then obtain t' where t: "fromstr t' = Inr a" "canonical t'" "t' \<noteq> t" using Cons.prems by (auto simp: no_dup_def x)
    then obtain b where "fromstr (fst (action_str a)) = Inr b" "fst (action_str (strip [(''dir'', [''implicit''])] b)) = t'"
      by (auto simp: canonical_def split: sum.splits)
    then show ?thesis using t(3) Cons True by (simp add: x no_dup_def)
  qed (use Cons in \<open>simp add: x no_dup_def\<close>)
qed simp

definition row_acts :: "string list \<Rightarrow> (string \<times> string \<times> string) list \<Rightarrow> string \<Rightarrow> string delivered list" where
  "row_acts skip rows k = map (\<lambda>(v, f, t). (projr (fromstr t), f)) (filter (\<lambda>(v, f, t). f \<notin> set skip \<and> v = k) rows)"

lemma update_rows_at:
  assumes "update_rows dups skip rows pns tgt = Inr tgt'"
    and "dups \<Longrightarrow> distinct rows \<and> (\<forall>(v, f, t) \<in> set rows. canonical t)"
    and "dups \<Longrightarrow> \<forall>(v, f, t) \<in> set rows. f \<notin> set skip \<longrightarrow> no_dup (at tgt v) f t"
  shows "at tgt' k = at tgt k @ row_acts skip rows k \<and> (proper tgt \<longrightarrow> proper tgt')"
  using assms
proof (induction rows arbitrary: pns tgt)
  case Nil
  then show ?case by (simp add: row_acts_def)
next
  case (Cons r rows)
  obtain v f t where r: "r = (v, f, t)" by (cases r) auto
  show ?case
  proof (cases "f \<in> set skip")
    case True
    then have "at tgt' k = at tgt k @ row_acts skip rows k \<and> (proper tgt \<longrightarrow> proper tgt')"
      using Cons.IH [of pns tgt] Cons.prems by (auto simp: r)
    then show ?thesis using True by (simp add: r row_acts_def)
  next
    case False
    have "dups \<Longrightarrow> act_dup_check (at tgt v) t f = Inr False"
      using Cons.prems(3) False by (intro no_dup_check) (auto simp: r)
    then obtain a pns' where a: "fromstr t = Inr a" "update_rows dups skip rows pns' (put_at v (a, f) tgt) = Inr tgt'"
      using Cons.prems(1) False by (auto simp: r split: sum.splits if_splits)
    have "no_dup (at (put_at v (a, f) tgt) v') f' t'"
      if "dups" "(v', f', t') \<in> set rows" "f' \<notin> set skip" for v' f' t'
    proof -
      have "no_dup (at tgt v') f' t'" using Cons.prems(3) that by (auto simp: r)
      moreover have "canonical t" "t' \<noteq> t \<or> f' \<noteq> f \<or> v' \<noteq> v" using Cons.prems(2) that by (auto simp: r)
      ultimately show ?thesis using a(1) by (auto simp: no_dup_def at_put_at)
    qed
    then have "at tgt' k = at (put_at v (a, f) tgt) k @ row_acts skip rows k \<and> (proper (put_at v (a, f) tgt) \<longrightarrow> proper tgt')"
      using Cons.IH [OF a(2)] Cons.prems(2) by (auto simp: r)
    then show ?thesis using False a(1) by (auto simp: r row_acts_def at_put_at proper_put_at)
  qed
qed

lemma update_act_at:
  assumes "update_act keys tgt dups (Database db) names skip = Inr tgt'" "distinct keys" "proper tgt"
    and "dups \<Longrightarrow> tidy_cache db \<and> (\<forall>k. \<forall>(a, f) \<in> set (at tgt k). f \<in> set skip \<or> k \<notin> set keys)"
  shows "proper tgt' \<and> at tgt' k = at tgt k @ (if k \<in> set keys then stay db names skip k else [])"
proof -
  obtain rows where rows: "get_actions_of names keys (Database db) = Inr rows" "update_rows dups skip rows None tgt = Inr tgt'"
    using assms(1) by (auto simp: update_act_def split: sum.splits)
  note named = get_actions_named [OF rows(1) assms(2)]
  have "distinct rows \<and> (\<forall>(v, f, t) \<in> set rows. canonical t)" if d: dups
  proof -
    have perm: "distinct (map (\<lambda>(v, n, f, t). (v, f, t)) (sort_key order_row (filter P (cache_rows db))))
        \<and> (\<forall>(v, f, t) \<in> set (map (\<lambda>(v, n, f, t). (v, f, t)) (sort_key order_row (filter P (cache_rows db)))). canonical t)" for P
    proof -
      have "distinct (map (\<lambda>(v, n, f, t). (v, f, t)) (filter P (cache_rows db)))"
        using assms(4) d by (simp add: tidy_cache_def distinct_map_filter)
      then show ?thesis using assms(4) d by (force simp: distinct_map tidy_cache_def list_all_iff)
    qed
    have each: "filter (\<lambda>r. r = (v, f, t)) rows = filter (\<lambda>r. r = (v, f, t)) (if v \<in> set keys then rows_named db names v else [])" for v f t
      unfolding named [symmetric] by (auto intro!: filter_cong)
    have len: "count (mset xs) r = length (filter (\<lambda>x. x = r) xs)" for xs and r :: "string \<times> string \<times> string"
      by (induction xs) auto
    have "count (mset rows) r \<le> 1" for r
    proof -
      obtain v f t where r: "r = (v, f, t)" by (cases r) auto
      have "count (mset rows) r = length (filter (\<lambda>r. r = (v, f, t)) rows)" by (simp only: r len)
      also have "\<dots> \<le> count (mset (rows_named db names v)) r" unfolding each r len by simp
      also have "\<dots> \<le> 1"
      proof -
        have "distinct (rows_named db names v)" unfolding rows_named_def using perm by blast
        then show ?thesis unfolding distinct_count_atmost_1 by (metis le_refl zero_le)
      qed
      finally show ?thesis .
    qed
    then have "distinct rows" unfolding distinct_count_atmost_1
      by (metis One_nat_def count_eq_zero_iff le_SucE le_zero_eq set_mset_mset)
    moreover have "canonical t" if "(v, f, t) \<in> set rows" for v f t
    proof -
      have "(v, f, t) \<in> set (filter (\<lambda>(v', f, t). v' = v) rows)" using that by simp
      then have "(v, f, t) \<in> set (rows_named db names v)" unfolding named by (simp split: if_splits)
      then show ?thesis using perm unfolding rows_named_def by blast
    qed
    ultimately show ?thesis by blast
  qed
  moreover have "\<forall>(v, f, t) \<in> set rows. f \<notin> set skip \<longrightarrow> no_dup (at tgt v) f t" if d: dups
  proof (intro ballI, clarify)
    fix v f t
    assume r: "(v, f, t) \<in> set rows" "f \<notin> set skip"
    then have "filter (\<lambda>(v', f, t). v' = v) rows \<noteq> []" by (force simp: filter_empty_conv)
    then have "v \<in> set keys" unfolding named by (simp split: if_splits)
    then show "no_dup (at tgt v) f t" using assms(4) [OF d] r(2) unfolding no_dup_def by blast
  qed
  ultimately have "at tgt' k = at tgt k @ row_acts skip rows k \<and> (proper tgt \<longrightarrow> proper tgt')"
    by (rule update_rows_at [OF rows(2)])
  moreover have "row_acts skip rows k = (if k \<in> set keys then stay db names skip k else [])"
  proof -
    have "filter (\<lambda>(v, f, t). f \<notin> set skip \<and> v = k) rows = filter (\<lambda>(v, f, t). f \<notin> set skip) (filter (\<lambda>(v, f, t). v = k) rows)"
      by (auto intro!: filter_cong)
    then show ?thesis unfolding row_acts_def named by (simp add: stay_def)
  qed
  ultimately show ?thesis using assms(3) by simp
qed

end
