(* ===== verification/Plan_Check_Sound.thy ===== *)
theory Plan_Check_Sound
  imports Plan_Check_Facts
begin

text \<open>
  The decisions of the check of a plan: which verdicts are errors, when the fast comparison may leave
  out a name, and what both sides of a namespace hold.
\<close>

section \<open>Errors\<close>

definition verdict_error :: "'p verdict option \<Rightarrow> bool" where
  "verdict_error v \<longleftrightarrow> (case v of Some (VError acts cls) \<Rightarrow> True | _ \<Rightarrow> False)"

definition types_verdict :: "('p \<Rightarrow> 'k::linorder) \<Rightarrow> nsgroup \<Rightarrow> 'p delivered list \<Rightarrow> 'p delivered list \<Rightarrow> 'p verdict option" where
  "types_verdict key ns acts oacts = (case ns of NsOwn _ \<Rightarrow> None | _ \<Rightarrow> check_inconsistent_types key acts oacts)"

definition key_error :: "('p \<Rightarrow> 'k::linorder) \<Rightarrow> nsgroup \<Rightarrow> 'p delivered list \<Rightarrow> 'p delivered list \<Rightarrow> bool" where
  "key_error key ns acts oacts \<longleftrightarrow> \<not> (length acts = 1 \<and> length oacts < 2) \<and>
     (if types_verdict key ns acts oacts \<noteq> None then verdict_error (types_verdict key ns acts oacts)
      else globally_identical (a_name (fst (hd acts))) \<and>
        verdict_error (if refcountable (a_name (fst (hd acts))) then check_inconsistent_attrs acts oacts
                       else check_duplicate_actions acts oacts))"

lemma overlay_errs: "overlay_verdict k st = Inr st' \<Longrightarrow> ps_errs st' = ps_errs st"
  by (auto simp: overlay_verdict_def sbind_eq_Inr split: prod.splits)

lemma process_errs:
  assumes "process_conflicts k ret cls st = Inr (h, st')"
  shows "(h \<longleftrightarrow> ret \<noteq> None) \<and> (\<exists>es. ps_errs st' = ps_errs st @ es \<and> (es \<noteq> [] \<longleftrightarrow> verdict_error ret))"
  using assms by (auto simp: process_conflicts_def verdict_error_def keep_removals_def sbind_eq_Inr
      split: option.splits verdict.splits dest: overlay_errs)

lemma check_key_alt:
  "check_key key ns k acts oacts st =
     (if length acts = 1 \<and> length oacts < 2 then Inr st
      else sbind (process_conflicts k (types_verdict key ns acts oacts) InconsistentActionTypeError st) (\<lambda>(handled, st).
        if handled then Inr st
        else if \<not> globally_identical (a_name (fst (hd acts))) then Inr st
        else if \<not> refcountable (a_name (fst (hd acts)))
        then sbind (process_conflicts k (check_duplicate_actions acts oacts) DuplicateActionError st) (Inr \<circ> snd)
        else sbind (process_conflicts k (check_inconsistent_attrs acts oacts) InconsistentActionAttributeError st) (Inr \<circ> snd)))"
proof -
  have "process_conflicts k None InconsistentActionTypeError st = Inr (False, st)" by (simp add: process_conflicts_def)
  then show ?thesis unfolding check_key_def types_verdict_def Let_def by (cases ns) (simp_all only: nsgroup.case sbind_simps)
qed

lemma check_key_errs:
  assumes "check_key key ns k acts oacts st = Inr st'"
  shows "\<exists>es. ps_errs st' = ps_errs st @ es \<and> (es \<noteq> [] \<longleftrightarrow> key_error key ns acts oacts)"
proof (cases "length acts = 1 \<and> length oacts < 2")
  case True
  then show ?thesis using assms by (simp add: check_key_def key_error_def)
next
  case False
  define tv where "tv = types_verdict key ns acts oacts"
  define name where "name = a_name (fst (hd acts))"
  obtain h st1 where p: "process_conflicts k tv InconsistentActionTypeError st = Inr (h, st1)"
    and rest: "(if h then Inr st1 else if \<not> globally_identical name then Inr st1
        else if \<not> refcountable name then sbind (process_conflicts k (check_duplicate_actions acts oacts) DuplicateActionError st1) (Inr \<circ> snd)
        else sbind (process_conflicts k (check_inconsistent_attrs acts oacts) InconsistentActionAttributeError st1) (Inr \<circ> snd)) = Inr st'"
    using assms unfolding check_key_alt if_not_P [OF False] tv_def [symmetric] name_def [symmetric]
    by (cases "process_conflicts k tv InconsistentActionTypeError st") auto
  obtain es1 where e1: "h \<longleftrightarrow> tv \<noteq> None" "ps_errs st1 = ps_errs st @ es1" "es1 \<noteq> [] \<longleftrightarrow> verdict_error tv"
    using process_errs [OF p] by blast
  have err: "key_error key ns acts oacts \<longleftrightarrow> (if tv \<noteq> None then verdict_error tv else globally_identical name \<and>
      verdict_error (if refcountable name then check_inconsistent_attrs acts oacts else check_duplicate_actions acts oacts))"
    using False unfolding key_error_def tv_def name_def by blast
  show ?thesis
  proof (cases "h \<or> \<not> globally_identical name")
    case True
    then have "st' = st1" using rest by (auto split: if_splits)
    moreover have "verdict_error tv \<longleftrightarrow> key_error key ns acts oacts"
      unfolding err using True e1(1) by (auto simp: verdict_error_def)
    ultimately show ?thesis using e1(2, 3) by blast
  next
    case h: False
    then obtain h' cls where "process_conflicts k (if refcountable name then check_inconsistent_attrs acts oacts
        else check_duplicate_actions acts oacts) cls st1 = Inr (h', st')"
      using rest by (cases "refcountable name") (auto simp: sbind_eq_Inr)
    from process_errs [OF this] obtain es2 where e2: "ps_errs st' = ps_errs st1 @ es2"
      "es2 \<noteq> [] \<longleftrightarrow> verdict_error (if refcountable name then check_inconsistent_attrs acts oacts else check_duplicate_actions acts oacts)"
      by blast
    have "tv = None" using h e1(1) by blast
    then have "es1 = []" using e1(3) by (simp add: verdict_error_def)
    then show ?thesis using e1(2) e2 h \<open>tv = None\<close> unfolding err by auto
  qed
qed

lemma check_new_errs:
  "check_new key ns new old st = Inr st' \<Longrightarrow>
    \<exists>es. ps_errs st' = ps_errs st @ es \<and> (es \<noteq> [] \<longleftrightarrow> (\<exists>(k, acts) \<in> set new. key_error key ns acts (at old k)))"
proof (induction new arbitrary: st)
  case (Cons x new)
  obtain k acts where x: "x = (k, acts)" by fastforce
  obtain st1 where c: "check_key key ns k acts (at old k) st = Inr st1" "check_new key ns new old st1 = Inr st'"
    using Cons.prems by (auto simp: x sbind_eq_Inr)
  obtain es1 where e1: "ps_errs st1 = ps_errs st @ es1" "es1 \<noteq> [] \<longleftrightarrow> key_error key ns acts (at old k)"
    using check_key_errs [OF c(1)] by blast
  obtain es2 where e2: "ps_errs st' = ps_errs st1 @ es2" "es2 \<noteq> [] \<longleftrightarrow> (\<exists>(k, acts) \<in> set new. key_error key ns acts (at old k))"
    using Cons.IH [OF c(2)] by blast
  have "ps_errs st' = ps_errs st @ es1 @ es2" by (simp add: e1(1) e2(1))
  moreover have "es1 @ es2 \<noteq> [] \<longleftrightarrow> (\<exists>(k, acts) \<in> set (x # new). key_error key ns acts (at old k))"
    using e1(2) e2(2) by (simp add: x)
  ultimately show ?case by blast
qed simp

lemma check_old_errs: "check_old ks old st = Inr st' \<Longrightarrow> ps_errs st' = ps_errs st"
proof (induction old arbitrary: st)
  case (Cons x old)
  obtain k oacts where x: "x = (k, oacts)" by fastforce
  have no: "\<not> verdict_error (check_duplicate_actions [] oacts)"
    by (simp add: check_duplicate_actions_def verdict_error_def)
  have "ps_errs st1 = ps_errs st" if "process_conflicts k (check_duplicate_actions [] oacts) cls st = Inr (h, st1)" for cls h st1
    using process_errs [OF that] no by auto
  then show ?case using Cons by (auto simp: x sbind_eq_Inr Let_def split: if_splits)
qed simp

lemma check_conflicts_errs:
  assumes "check_conflicts key ns new old st = Inr st'"
  shows "\<exists>es. ps_errs st' = ps_errs st @ es \<and> (es \<noteq> [] \<longleftrightarrow> (\<exists>(k, acts) \<in> set new. key_error key ns acts (at old k)))"
proof -
  obtain st1 where c: "check_new key ns new old st = Inr st1" "check_old (set (map fst new)) old st1 = Inr st'"
    using assms by (auto simp: check_conflicts_def sbind_eq_Inr)
  show ?thesis using check_new_errs [OF c(1)] check_old_errs [OF c(2)] by simp
qed

definition namespace_error ::
  "(string \<Rightarrow> 'k::linorder) \<Rightarrow> (string list \<Rightarrow> plan_exn + group \<times> group) \<Rightarrow> nsgroup \<times> string list \<Rightarrow> bool" where
  "namespace_error key sides = (\<lambda>(ns, names). \<exists>new old. sides names = Inr (new, old) \<and>
     (\<exists>(k, acts) \<in> set new. key_error key ns acts (at old k)))"

lemma check_namespaces_errs:
  "check_namespaces key clean plans cache gone changing gs st = Inr st' \<Longrightarrow>
    (\<forall>(ns, names) \<in> set gs. \<exists>new old. namespace_sides clean plans cache gone changing names = Inr (new, old)) \<and>
    (\<exists>es. ps_errs st' = ps_errs st @ es \<and>
      (es \<noteq> [] \<longleftrightarrow> (\<exists>g \<in> set gs. namespace_error key (namespace_sides clean plans cache gone changing) g)))"
proof (induction gs arbitrary: st)
  case (Cons g gs)
  obtain ns names where g: "g = (ns, names)" by fastforce
  obtain new old st1 where c: "namespace_sides clean plans cache gone changing names = Inr (new, old)"
    "check_conflicts key ns new old st = Inr st1" "check_namespaces key clean plans cache gone changing gs st1 = Inr st'"
    using Cons.prems by (auto simp: g sbind_eq_Inr)
  obtain es1 where e1: "ps_errs st1 = ps_errs st @ es1"
    "es1 \<noteq> [] \<longleftrightarrow> (\<exists>(k, acts) \<in> set new. key_error key ns acts (at old k))" using check_conflicts_errs [OF c(2)] by blast
  obtain es2 where e2: "ps_errs st' = ps_errs st1 @ es2"
    "es2 \<noteq> [] \<longleftrightarrow> (\<exists>g \<in> set gs. namespace_error key (namespace_sides clean plans cache gone changing) g)"
    using Cons.IH [OF c(3)] by blast
  have "namespace_error key (namespace_sides clean plans cache gone changing) g
      \<longleftrightarrow> (\<exists>(k, acts) \<in> set new. key_error key ns acts (at old k))"
    by (simp add: namespace_error_def g c(1))
  then have "es1 @ es2 \<noteq> [] \<longleftrightarrow> (\<exists>g \<in> set (g # gs). namespace_error key (namespace_sides clean plans cache gone changing) g)"
    using e1(2) e2(2) by auto
  moreover have "ps_errs st' = ps_errs st @ es1 @ es2" by (simp add: e1(1) e2(1))
  moreover have "\<forall>(ns, names) \<in> set (g # gs). \<exists>new old. namespace_sides clean plans cache gone changing names = Inr (new, old)"
    using Cons.IH [OF c(3)] c(1) by (simp add: g)
  ultimately show ?case by blast
qed simp

text \<open>The checks collect their errors and raise none.\<close>

definition no_conflict_raised :: "plan_exn + 'a \<Rightarrow> bool" where
  "no_conflict_raised r \<longleftrightarrow> (\<forall>es. r \<noteq> Inl (ConflictingActionErrors es))"

lemma ncr_simps [simp]:
  "no_conflict_raised (Inr x)" "no_conflict_raised (Inl PlanKeyError)" "no_conflict_raised (Inl PlanTypeError)"
  "no_conflict_raised (Inl InvalidPackageErrors)" "no_conflict_raised (Inl (PlanCacheError c))"
  "no_conflict_raised (Inl (PlanActionError a))" "no_conflict_raised (Inl PlanAssertionError)"
  by (simp_all add: no_conflict_raised_def)

lemma ncr_bind: "no_conflict_raised r \<Longrightarrow> (\<And>x. no_conflict_raised (f x)) \<Longrightarrow> no_conflict_raised (sbind r f)"
  by (cases r) (auto simp: no_conflict_raised_def)

lemma ncr_seed: "no_conflict_raised (seed info names)"
proof -
  have "no_conflict_raised (put_all xs d)" for xs d
    by (induction xs d rule: put_all.induct) (auto split: option.splits avalue.splits)
  then show ?thesis by (simp add: seed_def)
qed

lemma ncr_update: "no_conflict_raised (update_act keys tgt dups cache names skip)"
proof -
  have dup: "no_conflict_raised (act_dup_check xs t f)" for xs t f
    by (induction xs t f rule: act_dup_check.induct) (auto split: sum.splits)
  have "no_conflict_raised (update_rows dups skip rows pns tgt)" for rows pns tgt
  proof (induction rows arbitrary: pns tgt)
    case (Cons r rows)
    obtain k f t where r: "r = (k, f, t)" by (cases r) auto
    show ?case using Cons.IH by (auto simp: r split: sum.splits intro!: ncr_bind dup)
  qed simp
  then show ?thesis by (simp add: update_act_def split: sum.splits)
qed

lemma ncr_process: "no_conflict_raised (process_conflicts k v cls st)"
proof -
  have over: "no_conflict_raised (suppress_overlaid key aps moved)" for key aps moved
    by (induction key aps moved rule: suppress_overlaid.induct)
      (auto simp: Let_def split: option.splits avalue.splits intro!: ncr_bind)
  have orig: "no_conflict_raised (original_name plans p a)" for plans p a
    by (auto simp: original_name_def split: option.splits avalue.splits)
  have rem: "no_conflict_raised (suppress_removal plans key moved aps)" for plans key moved aps
    by (induction plans key moved aps rule: suppress_removal.induct) (auto intro!: ncr_bind orig)
  have "no_conflict_raised (overlay_verdict k st)"
    by (auto simp: overlay_verdict_def intro!: ncr_bind over rem)
  then show ?thesis by (auto simp: process_conflicts_def split: option.splits verdict.splits intro!: ncr_bind)
qed

lemma ncr_check: "no_conflict_raised (check_conflicts key ns new old st)"
proof -
  have key: "no_conflict_raised (check_key key ns k acts oacts st)" for k acts oacts st
    by (auto simp: check_key_alt intro!: ncr_bind ncr_process)
  have new: "no_conflict_raised (check_new key ns new old st)" for new st
    by (induction new arbitrary: st) (auto intro!: ncr_bind key)
  have old: "no_conflict_raised (check_old ks old st)" for ks old st
    by (induction old arbitrary: st) (auto simp: Let_def intro!: ncr_bind ncr_process)
  show ?thesis by (auto simp: check_conflicts_def intro!: ncr_bind new old)
qed

lemma check_namespaces_raises: "check_namespaces key clean plans cache gone changing gs st \<noteq> Inl (ConflictingActionErrors es)"
proof -
  have "no_conflict_raised (namespace_sides clean plans cache gone changing names)" for names
    by (auto simp: namespace_sides_def Let_def split: prod.splits intro!: ncr_bind ncr_seed ncr_update)
  then have "no_conflict_raised (check_namespaces key clean plans cache gone changing gs st)"
    by (induction gs arbitrary: st) (auto intro!: ncr_bind ncr_check)
  then show ?thesis by (simp add: no_conflict_raised_def)
qed

section \<open>Errors and clashes\<close>

lemma agree_short: "length acts \<le> 1 \<Longrightarrow> agree ig acts"
  by (cases acts) (auto simp: agree_def)

lemma key_error_clash:
  assumes "key_error key ns acts oacts" "acts \<noteq> []"
  shows "clashing ns acts"
proof -
  let ?name = "a_name (fst (hd acts))"
  show ?thesis
  proof (cases "types_verdict key ns acts oacts")
    case (Some v)
    then have "verdict_error (check_inconsistent_types key acts oacts)" and ns: "\<nexists>n. ns = NsOwn n"
      using assms(1) by (auto simp: key_error_def types_verdict_def split: nsgroup.splits)
    then have two: "1 < card (name_set acts)"
      by (auto simp: check_inconsistent_types_def Let_def verdict_error_def split: if_splits option.splits)
    then obtain a where a: "a \<in> set acts" "a_name (fst a) \<noteq> ?name" using card_name_set [OF assms(2)] by blast
    have "card (name_set acts) \<le> length acts" unfolding name_set_def by (metis card_length length_map)
    then show ?thesis using two a ns by (cases ns) (auto simp: clashing_def Let_def)
  next
    case None
    have gi: "globally_identical ?name"
      and err: "verdict_error (if refcountable ?name then check_inconsistent_attrs acts oacts else check_duplicate_actions acts oacts)"
      using assms(1) None by (simp_all add: key_error_def)
    show ?thesis
    proof (cases "refcountable ?name")
      case True
      then have "find_inconsistent_attrs [] acts \<noteq> []"
        using err by (auto simp: check_inconsistent_attrs_def verdict_error_def Let_def split: if_splits option.splits)
      then have "\<not> agree [] acts" by (simp add: find_inconsistent_attrs_Nil)
      moreover from this have "1 < length acts" using agree_short [of acts "[]"] by fastforce
      ultimately show ?thesis using gi by (simp add: clashing_def Let_def)
    next
      case False
      then have "\<not> (length oacts \<le> length acts \<and> length acts = 1)" "\<not> length acts < length oacts"
        using err by (auto simp: check_duplicate_actions_def verdict_error_def Let_def split: if_splits option.splits)
      then have "1 < length acts" using assms(2) by (cases acts) (auto simp: not_less)
      then show ?thesis using gi False by (simp add: clashing_def Let_def)
    qed
  qed
qed

lemma no_key_error_overlay:
  assumes clash: "clashing ns acts" and old: "\<not> clashing ns oacts" and ok: "\<not> key_error key ns acts oacts"
    and type: "oacts \<noteq> [] \<Longrightarrow> a_name (fst (hd oacts)) = a_name (fst (hd acts))"
    and gi: "\<forall>a \<in> set acts. globally_identical (a_name (fst a))"
  shows "check_duplicate_actions acts [] = Some VOverlay"
proof -
  let ?name = "a_name (fst (hd acts))"
  have l: "1 < length acts" using clash by (simp add: clashing_def)
  then have ne: "acts \<noteq> []" by auto
  have m: "card (name_set oacts) \<le> 1" if "\<nexists>n. ns = NsOwn n"
  proof (cases "1 < length oacts")
    case True
    then have "oacts \<noteq> []" by auto
    moreover have "\<forall>a \<in> set oacts. a_name (fst a) = a_name (fst (hd oacts))"
      using old True that by (cases ns) (auto simp: clashing_def Let_def)
    ultimately show ?thesis using card_name_set [of oacts] by (meson not_less)
  next
    case False
    then show ?thesis unfolding name_set_def by (metis card_length length_map not_less le_trans)
  qed
  have same: "\<forall>a \<in> set acts. a_name (fst a) = ?name" if "\<nexists>n. ns = NsOwn n"
  proof (rule ccontr)
    assume "\<not> (\<forall>a \<in> set acts. a_name (fst a) = ?name)"
    then have two: "1 < card (name_set acts)" using card_name_set [OF ne] by blast
    then have "name_set acts \<noteq> name_set oacts" using m [OF that] by (metis leD)
    moreover have "\<not> (card (name_set acts) = 0 \<or> card (name_set acts) = 1 \<and> card (name_set oacts) \<le> 1)"
      "\<not> card (name_set acts) < card (name_set oacts)" using two m [OF that] by linarith+
    ultimately have "check_inconsistent_types key acts oacts = Some (VError (by_package key acts) None)"
      unfolding check_inconsistent_types_def Let_def by presburger
    then have "verdict_error (check_inconsistent_types key acts oacts)" "check_inconsistent_types key acts oacts \<noteq> None"
      by (simp_all add: verdict_error_def)
    then have "key_error key ns acts oacts" using that l
      unfolding key_error_def types_verdict_def by (cases ns) auto
    then show False using ok by blast
  qed
  have none: "types_verdict key ns acts oacts = None"
  proof (cases "\<exists>n. ns = NsOwn n")
    case False
    have "card (name_set acts) = 1"
    proof -
      have "\<not> 1 < card (name_set acts)" using same [OF False] card_name_set [OF ne] by blast
      moreover have "card (name_set acts) \<noteq> 0" using ne by (simp add: name_set_def)
      ultimately show ?thesis by linarith
    qed
    then show ?thesis using False m [OF False] unfolding types_verdict_def check_inconsistent_types_def Let_def
      by (cases ns) auto
  qed (auto simp: types_verdict_def)
  have gin: "globally_identical ?name" using gi ne by simp
  have not_err: "\<not> verdict_error (if refcountable ?name then check_inconsistent_attrs acts oacts else check_duplicate_actions acts oacts)"
    using ok l none gin unfolding key_error_def by auto
  have nsame: "\<not> (case ns of NsOwn _ \<Rightarrow> False | _ \<Rightarrow> \<exists>a \<in> set acts. a_name (fst a) \<noteq> ?name)"
    using same by (cases ns) auto
  show ?thesis
  proof (cases "refcountable ?name")
    case True
    have "\<not> agree [] acts" using clash nsame True by (auto simp: clashing_def Let_def)
    moreover have "agree [] oacts"
    proof (cases "1 < length oacts")
      case len: True
      then have "oacts \<noteq> []" by auto
      then show ?thesis using old len type True gin by (auto simp: clashing_def Let_def)
    qed (simp add: agree_short)
    ultimately have "verdict_error (check_inconsistent_attrs acts oacts)"
      unfolding check_inconsistent_attrs_def Let_def find_inconsistent_attrs_Nil [symmetric] verdict_error_def by simp
    then show ?thesis using not_err True by simp
  next
    case False
    have short: "length oacts \<le> 1"
    proof (rule ccontr)
      assume "\<not> length oacts \<le> 1"
      moreover from this have "oacts \<noteq> []" by auto
      ultimately show False using old type False gin by (auto simp: clashing_def Let_def)
    qed
    have form: "check_duplicate_actions acts xs = (let acts' = by_text acts in
        if length acts = 2 then
          (case (find_last is_overlayable acts', find_last is_overlay acts') of
             (Some un, Some ov) \<Rightarrow>
               if find_inconsistent_attrs (overlay_ignore ov un) acts' \<noteq> []
               then Some (VError acts' (Some InconsistentActionAttributeError)) else Some VOverlay
           | _ \<Rightarrow> Some (VError acts' None))
        else Some (VError acts' None))" if "length xs \<le> 1" for xs
    proof -
      have c: "acts \<noteq> []" "length acts \<noteq> 1" "\<not> length acts < length xs" "length xs \<noteq> length acts" using l that by auto
      show ?thesis unfolding check_duplicate_actions_def Let_def
        by (simp only: c simp_thms if_False)
    qed
    have "check_duplicate_actions acts oacts = check_duplicate_actions acts []" by (simp only: form [OF short] form [of "[]"] list.size le0 zero_le)
    moreover have "verdict_error (check_duplicate_actions acts []) \<or> check_duplicate_actions acts [] = Some VOverlay"
      using l by (auto simp: check_duplicate_actions_def Let_def verdict_error_def split: option.splits)
    ultimately show ?thesis using not_err False by auto
  qed
qed

end
