(* ===== verification/Plan_Check_Props.thy ===== *)
theory Plan_Check_Props
  imports Plan_Check_Sound
begin

text \<open>
  The search for conflicts in a plan finds every new conflict of an image that had none, as long as no
  link has a mediator and no name changes its type, and finds only real ones; what it misses otherwise.
\<close>

section \<open>Actions without mediators\<close>

definition plain_act :: "action \<Rightarrow> bool" where
  "plain_act a \<longleftrightarrow> globally_identical (a_name a) \<and> \<not> has_attr a ''mediator-version'' \<and> \<not> has_attr a ''mediator-implementation''
     \<and> (has_attr a ''implicit'' \<longleftrightarrow> a_name a = ''dir'' \<and> \<not> has_attr a ''mode'')"

definition same_unique :: "action \<Rightarrow> action \<Rightarrow> bool" where
  "same_unique a b \<longleftrightarrow> (\<forall>u \<in> set (unique_attrs (a_name a)). attr_same a b u)"

definition plain_clash :: "action list \<Rightarrow> bool" where
  "plain_clash as \<longleftrightarrow> 1 < length as \<and>
     ((\<exists>a \<in> set as. \<exists>b \<in> set as. a_name a \<noteq> a_name b) \<or> (\<exists>a \<in> set as. \<not> refcountable (a_name a))
      \<or> (\<exists>a \<in> set as. \<exists>b \<in> set as. \<not> implicit_dir a \<and> \<not> implicit_dir b \<and> \<not> same_unique a b))"

lemma same_unique_trans:
  "a_name a = a_name b \<Longrightarrow> same_unique a b \<Longrightarrow> same_unique a c \<Longrightarrow> same_unique b c"
  unfolding same_unique_def using attr_same_sym attr_same_trans by metis

lemma same_unique_refl [simp]: "same_unique a a"
  by (simp add: same_unique_def)

lemma implicit_attr: "has_attr a k \<Longrightarrow> \<not> has_attr b k \<Longrightarrow> k \<in> set (differences b a)"
  by (auto simp: set_differences attr_same_def has_attr_def split: option.splits)

lemma safe_plain:
  assumes "plain_act a" "plain_act b" "a_name a = a_name b" "\<not> implicit_dir a"
  shows "safe_pair [] a b \<longleftrightarrow> implicit_dir b \<or> same_unique a b"
proof -
  have na: "\<not> has_attr a ''implicit''" using assms by (auto simp: plain_act_def implicit_dir_def)
  have imp: "''implicit'' \<in> set (differences a b) \<longleftrightarrow> has_attr b ''implicit''"
  proof
    assume "has_attr b ''implicit''"
    then show "''implicit'' \<in> set (differences a b)" using na by (rule implicit_attr)
  next
    assume "''implicit'' \<in> set (differences a b)"
    then show "has_attr b ''implicit''" using na by (auto simp: set_differences attr_same_def has_attr_def split: option.splits)
  qed
  have uq: "unique_differences [] a b = [] \<longleftrightarrow> same_unique a b"
    by (auto simp: unique_differences_def filter_empty_conv same_unique_def set_differences)
  have "\<not> mediated_apart a b" using assms by (auto simp: mediated_apart_def plain_act_def has_attr_def)
  moreover have "differences a b = [] \<Longrightarrow> same_unique a b"
    using set_differences [of a b] by (auto simp: same_unique_def)
  moreover have "has_attr b ''implicit'' \<longleftrightarrow> implicit_dir b" using assms by (auto simp: plain_act_def implicit_dir_def)
  ultimately show ?thesis unfolding safe_pair_def imp uq by blast
qed

lemma agree_plain:
  assumes plain: "\<forall>x \<in> set acts. plain_act (fst x) \<and> a_name (fst x) = n"
  shows "agree [] acts \<longleftrightarrow> (\<forall>a \<in> fst ` set acts. \<forall>b \<in> fst ` set acts. \<not> implicit_dir a \<longrightarrow> \<not> implicit_dir b \<longrightarrow> same_unique a b)"
proof (cases "dropWhile (implicit_dir \<circ> fst) acts")
  case Nil
  then have "\<forall>a \<in> set acts. implicit_dir (fst a)" by simp
  then show ?thesis by (auto simp: agree_def Nil)
next
  case (Cons x rest)
  have xm: "x \<in> set acts" "set rest \<subseteq> set acts" "\<not> implicit_dir (fst x)"
    using set_dropWhileD [of _ "implicit_dir \<circ> fst" acts] hd_dropWhile [of "implicit_dir \<circ> fst" acts] Cons by auto
  have split: "acts = takeWhile (implicit_dir \<circ> fst) acts @ x # rest"
    using takeWhile_dropWhile_id [of "implicit_dir \<circ> fst" acts] Cons by simp
  have early: "implicit_dir (fst y)" if "y \<in> set acts" "y \<notin> set (x # rest)" for y
  proof -
    have "y \<in> set (takeWhile (implicit_dir \<circ> fst) acts @ x # rest)" using that(1) split by metis
    then have "y \<in> set (takeWhile (implicit_dir \<circ> fst) acts)" using that(2) by auto
    then show ?thesis using set_takeWhileD by fastforce
  qed
  have "agree [] acts \<longleftrightarrow> (\<forall>y \<in> set rest. safe_pair [] (fst x) (fst y))" by (simp add: agree_def Cons list_all_iff)
  also have "\<dots> \<longleftrightarrow> (\<forall>y \<in> set rest. implicit_dir (fst y) \<or> same_unique (fst x) (fst y))"
    using safe_plain [of "fst x"] plain xm by (metis subsetD)
  also have "\<dots> \<longleftrightarrow> (\<forall>y \<in> set acts. implicit_dir (fst y) \<or> same_unique (fst x) (fst y))"
    using early xm(2) by (metis same_unique_refl set_ConsD subsetD)
  also have "\<dots> \<longleftrightarrow> (\<forall>a \<in> fst ` set acts. \<forall>b \<in> fst ` set acts. \<not> implicit_dir a \<longrightarrow> \<not> implicit_dir b \<longrightarrow> same_unique a b)"
  proof
    assume l: "\<forall>y \<in> set acts. implicit_dir (fst y) \<or> same_unique (fst x) (fst y)"
    show "\<forall>a \<in> fst ` set acts. \<forall>b \<in> fst ` set acts. \<not> implicit_dir a \<longrightarrow> \<not> implicit_dir b \<longrightarrow> same_unique a b"
    proof (intro ballI impI)
      fix a b
      assume ab: "a \<in> fst ` set acts" "b \<in> fst ` set acts" "\<not> implicit_dir a" "\<not> implicit_dir b"
      then have "same_unique (fst x) a" "same_unique (fst x) b" "a_name (fst x) = a_name a" using l plain xm(1) by auto
      then show "same_unique a b" using same_unique_trans by blast
    qed
  qed (use xm in blast)
  finally show ?thesis .
qed

lemma clashing_plain:
  assumes plain: "\<forall>x \<in> set acts. plain_act (fst x)"
    and own: "case ns of NsOwn n \<Rightarrow> \<forall>x \<in> set acts. a_name (fst x) = n | _ \<Rightarrow> True"
  shows "clashing ns acts \<longleftrightarrow> plain_clash (map fst acts)"
proof (cases "1 < length acts")
  case True
  then have ne: "acts \<noteq> []" by auto
  define n where "n = a_name (fst (hd acts))"
  have mem: "hd acts \<in> set acts" using ne by simp
  have gi: "globally_identical n" using plain mem by (auto simp: plain_act_def n_def)
  have cl: "clashing ns acts \<longleftrightarrow>
     (case ns of NsOwn _ \<Rightarrow> False | _ \<Rightarrow> \<exists>a \<in> set acts. a_name (fst a) \<noteq> n) \<or> (refcountable n \<longrightarrow> \<not> agree [] acts)"
    using True by (simp add: clashing_def n_def [symmetric] gi Let_def)
  show ?thesis
  proof (cases "\<forall>x \<in> set acts. a_name (fst x) = n")
    case same: True
    then have "\<not> (case ns of NsOwn _ \<Rightarrow> False | _ \<Rightarrow> \<exists>a \<in> set acts. a_name (fst a) \<noteq> n)" by (simp split: nsgroup.split)
    moreover have "\<not> (\<exists>a \<in> fst ` set acts. \<exists>b \<in> fst ` set acts. a_name a \<noteq> a_name b)" using same by simp
    moreover have "(\<exists>a \<in> fst ` set acts. \<not> refcountable (a_name a)) \<longleftrightarrow> \<not> refcountable n"
      using same mem by (metis image_iff)
    moreover have "agree [] acts \<longleftrightarrow> (\<forall>a \<in> fst ` set acts. \<forall>b \<in> fst ` set acts. \<not> implicit_dir a \<longrightarrow> \<not> implicit_dir b \<longrightarrow> same_unique a b)"
      using agree_plain [of acts n] plain same by blast
    ultimately show ?thesis using True unfolding cl plain_clash_def set_map length_map by blast
  next
    case False
    then have "case ns of NsOwn _ \<Rightarrow> False | _ \<Rightarrow> \<exists>a \<in> set acts. a_name (fst a) \<noteq> n"
      using own mem by (cases ns) (auto simp: n_def)
    moreover have "\<exists>a \<in> fst ` set acts. \<exists>b \<in> fst ` set acts. a_name a \<noteq> a_name b" using False mem n_def by blast
    ultimately show ?thesis using True unfolding cl plain_clash_def set_map length_map by blast
  qed
qed (simp add: clashing_def plain_clash_def)

section \<open>The fast comparison\<close>

lemma first_match_Some: "first_match a xs = Some i \<Longrightarrow> i < length xs \<and> matches a (fst (xs ! i))"
  by (induction xs arbitrary: i) (auto split: if_splits)

lemma those_in: "those xs = Some ys \<Longrightarrow> x \<in> set xs \<Longrightarrow> \<exists>y. x = Some y"
  by (induction xs arbitrary: ys) (auto split: option.splits)

lemma fast_same_matches:
  assumes "fast_same acts oacts" "x \<in> set acts"
  shows "\<exists>y \<in> set oacts. matches (fst x) (fst y)"
proof -
  obtain is' where "those (map (\<lambda>(a, f). first_match a oacts) acts) = Some is'"
    using assms(1) by (auto simp: fast_same_def split: option.splits)
  then have "\<exists>i. first_match (fst x) oacts = Some i" using those_in assms(2) by (fastforce simp: case_prod_unfold)
  then show ?thesis using first_match_Some nth_mem by blast
qed

lemma matches_plain:
  assumes "matches a b" "plain_act a" "plain_act b"
  shows "a_name b = a_name a \<and> same_unique a b \<and> (implicit_dir b \<longleftrightarrow> implicit_dir a)"
proof -
  have eq: "dget (a_attrs a) k = dget (a_attrs b) k" if "k \<in> set (unique_attrs (a_name a))" for k
    using assms(1) that by (simp add: matches_def list_all_iff)
  have "same_unique a b" unfolding same_unique_def attr_same_def using eq by (auto split: option.splits)
  moreover have "has_attr a ''mode'' = has_attr b ''mode''" if "a_name a = ''dir''"
    using eq [of "''mode''"] that by (simp add: unique_attrs_def has_attr_def)
  ultimately show ?thesis using assms by (auto simp: plain_act_def implicit_dir_def matches_def)
qed

lemma fast_drop_safe:
  assumes drop: "fast_same N Q" "N \<noteq> []" "\<not> (\<not> refcountable (a_name (fst (hd N))) \<and> globally_identical (a_name (fst (hd N))) \<and> 1 < length N)"
    and sub: "set S' \<subseteq> set S" "length S' \<le> length S"
    and plain: "\<forall>x \<in> set (N @ S' @ Q @ S). plain_act (fst x)"
    and clash: "plain_clash (map fst (N @ S'))"
  shows "plain_clash (map fst (Q @ S))"
proof -
  have image: "\<exists>b \<in> set (map fst (Q @ S)). a_name b = a_name a \<and> same_unique a b \<and> (implicit_dir b \<longleftrightarrow> implicit_dir a)"
    if a: "a \<in> set (map fst (N @ S'))" for a
  proof (cases "a \<in> fst ` set N")
    case True
    then obtain x where x: "x \<in> set N" "fst x = a" by auto
    then obtain y where "y \<in> set Q" "matches a (fst y)" using fast_same_matches [OF drop(1)] by blast
    then show ?thesis using matches_plain [of a "fst y"] plain x by auto
  next
    case False
    then have "a \<in> set (map fst (Q @ S))" using a sub(1) by auto
    then show ?thesis by (intro bexI [of _ a]) auto
  qed
  let ?os = "map fst (Q @ S)"
  have ne: "Q \<noteq> []" using fast_same_matches [OF drop(1), of "hd N"] drop(2) by auto
  have long: "1 < length ?os" if "a \<in> set ?os" "b \<in> set ?os" "a \<noteq> b" for a b
  proof -
    have "card {a, b} \<le> card (set ?os)" using that by (intro card_mono) auto
    then show ?thesis using that(3) card_length [of ?os] by simp
  qed
  show ?thesis
  proof (cases "\<exists>a \<in> set ?os. \<exists>b \<in> set ?os. a_name a \<noteq> a_name b")
    case True
    then obtain a b where ab: "a \<in> set ?os" "b \<in> set ?os" "a_name a \<noteq> a_name b" by blast
    then have "1 < length ?os" using long [OF ab(1, 2)] by blast
    then show ?thesis using ab unfolding plain_clash_def by blast
  next
    case same: False
    have named: "a_name a = a_name b" if "a \<in> set (map fst (N @ S'))" "b \<in> set (map fst (N @ S'))" for a b
      using image [OF that(1)] image [OF that(2)] same by metis
    show ?thesis
    proof (cases "\<exists>a \<in> set (map fst (N @ S')). \<not> refcountable (a_name a)")
      case True
      then obtain a where a: "a \<in> set (map fst (N @ S'))" "\<not> refcountable (a_name a)" by blast
      have hdN: "fst (hd N) \<in> set (map fst (N @ S'))" using drop(2) by simp
      have "\<not> refcountable (a_name (fst (hd N)))" using named [OF a(1) hdN] a(2) by simp
      moreover have "globally_identical (a_name (fst (hd N)))" using plain drop(2) by (auto simp: plain_act_def)
      ultimately have "length N \<le> 1" using drop(3) by auto
      moreover have "1 < length (N @ S')" using clash by (simp add: plain_clash_def)
      ultimately have "1 \<le> length S" using sub(2) by simp
      moreover have "1 \<le> length Q" using ne by (cases Q) auto
      ultimately have "1 < length ?os" by simp
      moreover have "\<exists>b \<in> set ?os. \<not> refcountable (a_name b)" using image [OF a(1)] a(2) by metis
      ultimately show ?thesis unfolding plain_clash_def by blast
    next
      case False
      then obtain a b where ab: "a \<in> set (map fst (N @ S'))" "b \<in> set (map fst (N @ S'))"
        "\<not> implicit_dir a" "\<not> implicit_dir b" "\<not> same_unique a b"
        using clash named unfolding plain_clash_def by blast
      obtain a' where a': "a' \<in> set ?os" "a_name a' = a_name a" "same_unique a a'" "\<not> implicit_dir a'" using image [OF ab(1)] ab(3) by blast
      obtain b' where b': "b' \<in> set ?os" "a_name b' = a_name b" "same_unique b b'" "\<not> implicit_dir b'" using image [OF ab(2)] ab(4) by blast
      have "\<not> same_unique a' b'"
      proof
        assume "same_unique a' b'"
        have n: "a_name a' = a_name b'" using a'(2) b'(2) named [OF ab(1, 2)] by simp
        have "same_unique a' a" using same_unique_trans [OF a'(2) [symmetric] a'(3) same_unique_refl] by simp
        then have "same_unique a b'" using same_unique_trans [OF a'(2)] \<open>same_unique a' b'\<close> by blast
        moreover have "same_unique b' b" using same_unique_trans [OF b'(2) [symmetric] b'(3) same_unique_refl] by simp
        ultimately show False
          using ab(5) n a'(2) unfolding same_unique_def by (metis attr_same_trans)
      qed
      moreover from this have "1 < length ?os" using long [OF a'(1) b'(1)] by fastforce
      ultimately show ?thesis using a' b' unfolding plain_clash_def by blast
    qed
  qed
qed

lemma plain_clash_sub:
  "plain_clash xs \<Longrightarrow> set xs \<subseteq> set ys \<Longrightarrow> length xs \<le> length ys \<Longrightarrow> plain_clash ys"
  unfolding plain_clash_def by (metis (no_types, lifting) order_less_le_trans subsetD)

end
