(* ===== verification/Plan_Check_Final.thy ===== *)
theory Plan_Check_Final
  imports Plan_Check_Props
begin

text \<open>
  The search for conflicts in a plan: it finds every new conflict of an image that had none, as long
  as no link has a mediator and no name changes its type, it finds only real ones, and what it misses
  otherwise.
\<close>

section \<open>Both sides of a plan\<close>

definition leaving :: "string list \<Rightarrow> pplan list \<Rightarrow> string list" where
  "leaving installed plans = filter (\<lambda>f. f \<notin> set (new_installed installed plans)) installed"

definition arriving :: "pplan list \<Rightarrow> string list" where
  "arriving plans = List.map_filter pp_dest plans"

text \<open>What the packages deliver to a name before and after the plan.\<close>

definition before_at :: "string list \<Rightarrow> pplan list \<Rightarrow> adb \<Rightarrow> string list \<Rightarrow> string \<Rightarrow> string delivered list" where
  "before_at installed plans db names k =
     seed_at (outgoing_info plans) names k @ stay db names (leaving installed plans) k"

definition after_at :: "string list \<Rightarrow> pplan list \<Rightarrow> adb \<Rightarrow> string list \<Rightarrow> string \<Rightarrow> string delivered list" where
  "after_at installed plans db names k =
     seed_at (only_new_installed_info plans) names k @ stay db names (leaving installed plans @ arriving plans) k"

definition plan_keys :: "pplan list \<Rightarrow> adb \<Rightarrow> string list \<Rightarrow> string list" where
  "plan_keys plans db names =
     remdups (List.map_filter (\<lambda>x. case act_key (fst x) of Some (AStr k) \<Rightarrow> Some k | _ \<Rightarrow> None)
       (concat (map (\<lambda>n. concat (map (actions_bytype n) (outgoing_info plans @ only_new_installed_info plans))) names))
     @ map fst (cache_rows db))"

definition all_names :: "pplan list \<Rightarrow> adb \<Rightarrow> (nsgroup \<Rightarrow> string list \<Rightarrow> string \<Rightarrow> bool) \<Rightarrow> bool" where
  "all_names plans db P \<longleftrightarrow> list_all (\<lambda>(ns, names). list_all (P ns names) (plan_keys plans db names)) conflict_groups"

text \<open>The image has no conflict, there are no mediators, and no name changes its type.\<close>

definition quiet_before :: "string list \<Rightarrow> pplan list \<Rightarrow> adb \<Rightarrow> bool" where
  "quiet_before installed plans db \<longleftrightarrow>
     all_names plans db (\<lambda>ns names k. \<not> clashing ns (before_at installed plans db names k))"

definition plain_plan :: "string list \<Rightarrow> pplan list \<Rightarrow> adb \<Rightarrow> bool" where
  "plain_plan installed plans db \<longleftrightarrow>
     all_names plans db (\<lambda>ns names k. list_all (\<lambda>x. plain_act (fst x) \<and> a_name (fst x) \<in> set names)
       (before_at installed plans db names k @ after_at installed plans db names k))"

definition steady_types :: "string list \<Rightarrow> pplan list \<Rightarrow> adb \<Rightarrow> bool" where
  "steady_types installed plans db \<longleftrightarrow>
     all_names plans db (\<lambda>ns names k. before_at installed plans db names k = [] \<or> after_at installed plans db names k = []
       \<or> a_name (fst (hd (before_at installed plans db names k))) = a_name (fst (hd (after_at installed plans db names k))))"

lemma in_map_filter: "y \<in> set (List.map_filter f xs) \<longleftrightarrow> (\<exists>x \<in> set xs. f x = Some y)"
  by (induction xs) (auto simp: List.map_filter_simps split: option.splits)

lemma stay_keys: "stay db names skip k \<noteq> [] \<Longrightarrow> k \<in> fst ` set (cache_rows db)"
  by (force simp: stay_def rows_named_def filter_empty_conv)

lemma seed_keys:
  assumes "seed_at info names k \<noteq> []" "set info \<subseteq> set (outgoing_info plans @ only_new_installed_info plans)"
  shows "k \<in> set (plan_keys plans db names)"
proof -
  obtain x n i where x: "x \<in> set (actions_bytype n i)" "n \<in> set names" "i \<in> set info" "act_key (fst x) = Some (AStr k)"
    using assms(1) by (auto simp: seed_at_def filter_empty_conv)
  then have "x \<in> set (concat (map (\<lambda>n. concat (map (actions_bytype n) (outgoing_info plans @ only_new_installed_info plans))) names))"
    using assms(2) by auto
  then show ?thesis using x(4) unfolding plan_keys_def by (auto simp: in_map_filter intro!: bexI [of _ x])
qed

lemma no_key_empty:
  assumes "k \<notin> set (plan_keys plans db names)"
  shows "before_at installed plans db names k = []" "after_at installed plans db names k = []"
proof -
  have "stay db names skip k = []" for skip using assms stay_keys [of db names skip k] by (auto simp: plan_keys_def)
  moreover have "seed_at (outgoing_info plans) names k = []" "seed_at (only_new_installed_info plans) names k = []"
    using seed_keys [of _ names k plans db] assms by auto
  ultimately show "before_at installed plans db names k = []" "after_at installed plans db names k = []"
    by (simp_all add: before_at_def after_at_def)
qed

lemma all_namesD: "all_names plans db P \<Longrightarrow> (ns, names) \<in> set conflict_groups \<Longrightarrow> k \<in> set (plan_keys plans db names) \<Longrightarrow> P ns names k"
  by (force simp: all_names_def list_all_iff)

lemma quietD:
  assumes "quiet_before installed plans db" "(ns, names) \<in> set conflict_groups"
  shows "\<not> clashing ns (before_at installed plans db names k)"
  using assms all_namesD [OF assms(1) [unfolded quiet_before_def] assms(2)] no_key_empty(1)
  by (cases "k \<in> set (plan_keys plans db names)") (auto simp: clashing_def)

lemma plainD:
  assumes "plain_plan installed plans db" "(ns, names) \<in> set conflict_groups"
    "x \<in> set (before_at installed plans db names k) \<or> x \<in> set (after_at installed plans db names k)"
  shows "plain_act (fst x) \<and> a_name (fst x) \<in> set names"
  using all_namesD [OF assms(1) [unfolded plain_plan_def] assms(2), of k] assms(3) no_key_empty [of k plans db names installed]
  by (cases "k \<in> set (plan_keys plans db names)") (auto simp: list_all_iff)

lemma steadyD:
  assumes "steady_types installed plans db" "(ns, names) \<in> set conflict_groups"
    "before_at installed plans db names k \<noteq> []" "after_at installed plans db names k \<noteq> []"
  shows "a_name (fst (hd (before_at installed plans db names k))) = a_name (fst (hd (after_at installed plans db names k)))"
  using all_namesD [OF assms(1) [unfolded steady_types_def] assms(2), of k] assms(3, 4) no_key_empty [of k plans db names installed]
  by (cases "k \<in> set (plan_keys plans db names)") auto

lemma stay_sub:
  "set (stay db names (gone @ others) k) \<subseteq> set (stay db names gone k)"
  "length (stay db names (gone @ others) k) \<le> length (stay db names gone k)"
proof -
  let ?P = "\<lambda>(v :: string, f, t :: string). f \<notin> set others"
  have "filter (\<lambda>(v, f, t). f \<notin> set (gone @ others)) xs = filter ?P (filter (\<lambda>(v, f, t). f \<notin> set gone) xs)" for xs
    by (auto intro!: filter_cong)
  then show "set (stay db names (gone @ others) k) \<subseteq> set (stay db names gone k)"
    "length (stay db names (gone @ others) k) \<le> length (stay db names gone k)"
    unfolding stay_def length_map by (auto simp: image_subset_iff simp del: filter_filter)
qed

lemma seed_arriving: "(a, f) \<in> set (seed_at (only_new_installed_info plans) names k) \<Longrightarrow> f \<in> set (arriving plans)"
  by (auto simp: seed_at_def only_new_installed_info_def arriving_def in_map_filter actions_bytype_def Let_def)

section \<open>What the check compares\<close>

lemma at_filter:
  assumes "distinct (map fst d)"
  shows "at (filter P d) k = (if \<exists>xs. (k, xs) \<in> set d \<and> P (k, xs) then at d k else [])"
  using assms
proof (induction d)
  case (Cons x d)
  obtain j ys where x: "x = (j, ys)" by fastforce
  have at_Cons: "at ((j, ys) # e) i = (if i = j then ys else at e i)" for e i by (simp add: at_def)
  have none: "(j, zs) \<notin> set d" for zs using Cons.prems by (force simp: x)
  have IH: "at (filter P d) k = (if \<exists>xs. (k, xs) \<in> set d \<and> P (k, xs) then at d k else [])" using Cons by simp
  show ?case
  proof (cases "k = j")
    case True
    then show ?thesis using none IH by (simp add: x at_Cons)
  next
    case False
    then show ?thesis using IH by (auto simp: x at_Cons)
  qed
qed simp

lemma proper_filter: "proper d \<Longrightarrow> proper (filter P d)"
  by (auto simp: proper_def distinct_map_filter)

lemma namespace_sides_at:
  assumes sides: "namespace_sides clean plans (Database db) (leaving installed plans) (arriving plans) names = Inr (new, old)"
    and tidy: "tidy_cache db"
  defines "O0 \<equiv> seed_at (outgoing_info plans) names" and "N0 \<equiv> seed_at (only_new_installed_info plans) names"
  shows "proper new"
    and "k \<in> set (map fst new) \<Longrightarrow> at new k = after_at installed plans db names k \<and> at old k = before_at installed plans db names k"
    and "k \<notin> set (map fst new) \<Longrightarrow> after_at installed plans db names k = [] \<or> N0 k = []
      \<or> clean \<and> (O0 k \<noteq> [] \<and> \<not> (\<not> refcountable (a_name (fst (hd (N0 k)))) \<and> globally_identical (a_name (fst (hd (N0 k)))) \<and> 1 < length (N0 k))
           \<and> fast_same (N0 k) (O0 k))"
proof -
  let ?gone = "leaving installed plans" and ?more = "leaving installed plans @ arriving plans"
  let ?rest = "\<lambda>(new, old). sbind (update_act (remdups (map fst new @ map fst old)) old False (Database db) names ?gone) (\<lambda>old.
     sbind (update_act (map fst old) new True (Database db) names ?more) (\<lambda>new. Inr (new, old)))"
  obtain n0 o0 where s: "seed (only_new_installed_info plans) names = Inr n0" "seed (outgoing_info plans) names = Inr o0"
    and rest: "?rest (if clean then fast_check n0 o0 else (n0, o0)) = Inr (new, old)"
    using sides unfolding namespace_sides_def sbind_eq_Inr Let_def by blast
  obtain n1 o1 where f: "(n1, o1) = (if clean then fast_check n0 o0 else (n0, o0))" by (metis prod.collapse)
  from rest have u1: "update_act (remdups (map fst n1 @ map fst o1)) o1 False (Database db) names ?gone = Inr old"
    and u2: "update_act (map fst old) n1 True (Database db) names ?more = Inr new"
    unfolding f [symmetric] prod.case sbind_eq_Inr by auto
  have n0: "proper n0" "\<And>k. at n0 k = N0 k" using seed_result [OF s(1)] by (auto simp: N0_def)
  have o0: "proper o0" "\<And>k. at o0 k = O0 k" using seed_result [OF s(2)] by (auto simp: O0_def)
  have pn1: "proper n1" using f n0(1) by (auto simp: fast_check_def Let_def proper_filter split: if_splits)
  have po1: "proper o1" using f o0(1) by (auto simp: fast_check_def Let_def proper_filter split: if_splits)
  have n1: "at n1 k = (if k \<in> set (map fst n1) then N0 k else [])" for k
  proof (cases clean)
    case True
    then have n1: "n1 = filter (\<lambda>x. \<not> fast_drops o0 x) n0" using f by (simp add: fast_check_def Let_def)
    have "k \<in> set (map fst n1) \<longleftrightarrow> (\<exists>xs. (k, xs) \<in> set n0 \<and> \<not> fast_drops o0 (k, xs))" by (force simp: n1)
    then show ?thesis using at_filter [of n0 "\<lambda>x. \<not> fast_drops o0 x" k] n0 by (auto simp: proper_def simp flip: n1)
  next
    case False
    then have "n1 = n0" using f by simp
    then show ?thesis using at_keys [OF pn1, of k] n0(2) by auto
  qed
  have o1: "k \<in> set (map fst n1) \<Longrightarrow> at o1 k = O0 k" for k
  proof (cases clean)
    case True
    assume k: "k \<in> set (map fst n1)"
    have "o1 = filter (\<lambda>(k, xs). k \<in> set (map fst n1)) o0" using f True by (simp add: fast_check_def Let_def)
    then have "at o1 k = (if \<exists>xs. (k, xs) \<in> set o0 then O0 k else [])"
      using at_filter [of o0 "\<lambda>(k, xs). k \<in> set (map fst n1)" k] o0 k by (auto simp: proper_def)
    moreover have "O0 k \<noteq> [] \<longleftrightarrow> (\<exists>xs. (k, xs) \<in> set o0)" using at_keys [OF o0(1), of k] by (force simp: o0(2))
    ultimately show ?thesis by (auto split: if_splits)
  qed (use f o0(2) in simp)
  note old = update_act_at [OF u1 distinct_remdups po1]
  have pold: "proper old" using old by blast
  have inc: "\<forall>k. \<forall>(a, f) \<in> set (at n1 k). f \<in> set ?more \<or> k \<notin> set (map fst old)"
    using n1 seed_arriving unfolding N0_def by (fastforce split: if_splits)
  have dold: "distinct (map fst old)" using pold by (simp add: proper_def)
  have new: "proper new \<and> at new k = at n1 k @ (if k \<in> set (map fst old) then stay db names ?more k else [])" for k
    by (rule update_act_at [OF u2 dold pn1]) (use tidy inc in blast)
  show "proper new" using new by blast
  have oldk: "at old k = at o1 k @ (if k \<in> set (map fst n1) \<union> set (map fst o1) then stay db names ?gone k else [])" for k
    using old by simp
  have empty: "stay db names ?gone k = [] \<Longrightarrow> stay db names ?more k = []" for k
    using stay_sub(2) [of db names ?gone "arriving plans" k] by simp
  have unseen: "k \<notin> set (map fst d) \<Longrightarrow> proper d \<Longrightarrow> at d k = []" for d k using at_keys [of d k] by auto
  have in1: "at new k = after_at installed plans db names k \<and> at old k = before_at installed plans db names k"
    if k: "k \<in> set (map fst n1)" for k
  proof -
    have b: "at old k = before_at installed plans db names k" using oldk [of k] k o1 [OF k] by (simp add: before_at_def O0_def)
    have "(if k \<in> set (map fst old) then stay db names ?more k else []) = stay db names ?more k"
    proof (cases "k \<in> set (map fst old)")
      case False
      then have "before_at installed plans db names k = []" using unseen [OF _ pold] b by metis
      then show ?thesis using empty [of k] by (simp add: before_at_def)
    qed simp
    then show ?thesis using new [of k] n1 [of k] k b by (simp add: after_at_def N0_def)
  qed
  have out1: "clean \<longrightarrow> at new k = []" if "k \<notin> set (map fst n1)" for k
  proof
    assume clean
    then have "o1 = filter (\<lambda>(k, xs). k \<in> set (map fst n1)) o0" using f by (simp add: fast_check_def Let_def)
    then have "k \<notin> set (map fst o1)" using that by force
    then have "at old k = []" using oldk [of k] that unseen [OF _ po1] by simp
    then have "k \<notin> set (map fst old)" using at_keys [OF pold] by blast
    then show "at new k = []" using new [of k] n1 [of k] that by simp
  qed
  have nonclean: "\<not> clean \<Longrightarrow> k \<notin> set (map fst n1) \<Longrightarrow> N0 k = [] \<and>
      (k \<in> set (map fst new) \<longrightarrow> at new k = after_at installed plans db names k \<and> at old k = before_at installed plans db names k)" for k
  proof -
    assume nc: "\<not> clean" and k: "k \<notin> set (map fst n1)"
    then have e: "n1 = n0" "o1 = o0" using f by auto
    have N: "N0 k = []" using unseen [OF k pn1] by (simp add: e n0(2))
    have "at old k = before_at installed plans db names k \<and> at new k = after_at installed plans db names k" if "k \<in> set (map fst new)"
    proof -
      have "at new k \<noteq> []" using that at_keys new by blast
      then have "k \<in> set (map fst old)" using new [of k] n1 [of k] k by (auto split: if_splits)
      then have "at old k \<noteq> []" using at_keys [OF pold] by blast
      then have "k \<in> set (map fst o1)" using oldk [of k] k unseen [OF _ po1, of k] by (auto split: if_splits)
      then show ?thesis using oldk [of k] new [of k] n1 [of k] k \<open>k \<in> set (map fst old)\<close> N
        by (simp add: e o0(2) before_at_def after_at_def O0_def N0_def)
    qed
    then show ?thesis using N by blast
  qed
  show "at new k = after_at installed plans db names k \<and> at old k = before_at installed plans db names k"
    if k: "k \<in> set (map fst new)"
  proof (cases "k \<in> set (map fst n1)")
    case True
    then show ?thesis by (rule in1)
  next
    case False
    then have "\<not> clean" using out1 [OF False] at_keys new k by blast
    then show ?thesis using nonclean False k by blast
  qed
  show "after_at installed plans db names k = [] \<or> N0 k = []
      \<or> clean \<and> (O0 k \<noteq> [] \<and> \<not> (\<not> refcountable (a_name (fst (hd (N0 k)))) \<and> globally_identical (a_name (fst (hd (N0 k)))) \<and> 1 < length (N0 k))
           \<and> fast_same (N0 k) (O0 k))"
    if k: "k \<notin> set (map fst new)"
  proof (cases "k \<in> set (map fst n1)")
    case True
    then have "after_at installed plans db names k = []" using in1 [OF True] unseen [OF k] new by metis
    then show ?thesis by blast
  next
    case out: False
    show ?thesis
    proof (cases "clean \<and> N0 k \<noteq> []")
      case True
      then have "k \<in> set (map fst n0)" using at_keys [OF n0(1), of k] by (simp add: n0(2))
      then obtain xs where xs: "(k, xs) \<in> set n0" by auto
      then have "xs = N0 k" using at_mem [OF n0(1) xs] by (simp add: n0(2))
      moreover have "n1 = filter (\<lambda>x. \<not> fast_drops o0 x) n0" using f True by (simp add: fast_check_def Let_def)
      ultimately have "fast_drops o0 (k, N0 k)" using out xs by force
      then show ?thesis using True by (simp add: fast_drops_def Let_def o0(2))
    next
      case False
      then show ?thesis using nonclean out by blast
    qed
  qed
qed

section \<open>Properties\<close>

lemma find_all_result:
  assumes "new_installed installed (ps_plans st) \<noteq> []"
  shows "find_all_conflicts key name_of excluded installed cache st =
    sbind (check_namespaces key (\<not> has_conflicts cache) (ps_plans st) cache (leaving installed (ps_plans st)) (arriving (ps_plans st))
      conflict_groups (st\<lparr>ps_errs := []\<rparr>)) (\<lambda>st.
        if ps_errs st = [] then Inr (evaluate_fixups name_of excluded (ps_fixups st) st)
        else Inl (ConflictingActionErrors (ps_errs st)))"
  using assms by (simp add: find_all_conflicts_def leaving_def arriving_def Let_def)

lemma after_plain_own:
  assumes "plain_plan installed plans db" "(ns, names) \<in> set conflict_groups"
  shows "\<forall>x \<in> set (before_at installed plans db names k @ after_at installed plans db names k). plain_act (fst x)"
    and "case ns of NsOwn n \<Rightarrow> \<forall>x \<in> set (before_at installed plans db names k @ after_at installed plans db names k). a_name (fst x) = n | _ \<Rightarrow> True"
proof -
  have p: "plain_act (fst x) \<and> a_name (fst x) \<in> set names"
    if "x \<in> set (before_at installed plans db names k @ after_at installed plans db names k)" for x
    using plainD [OF assms] that by auto
  then show "\<forall>x \<in> set (before_at installed plans db names k @ after_at installed plans db names k). plain_act (fst x)" by blast
  show "case ns of NsOwn n \<Rightarrow> \<forall>x \<in> set (before_at installed plans db names k @ after_at installed plans db names k). a_name (fst x) = n | _ \<Rightarrow> True"
    using p assms(2) group_types by (cases ns) fastforce+
qed

lemma unchecked_quiet:
  assumes sides: "namespace_sides clean plans (Database db) (leaving installed plans) (arriving plans) names = Inr (new, old)"
    and hyps: "tidy_cache db" "quiet_before installed plans db" "plain_plan installed plans db" "(ns, names) \<in> set conflict_groups"
    and k: "k \<notin> set (map fst new)"
  shows "\<not> clashing ns (after_at installed plans db names k)"
proof
  assume clash: "clashing ns (after_at installed plans db names k)"
  let ?Q = "seed_at (outgoing_info plans) names k" and ?N = "seed_at (only_new_installed_info plans) names k"
  let ?S = "stay db names (leaving installed plans) k" and ?S' = "stay db names (leaving installed plans @ arriving plans) k"
  have b: "before_at installed plans db names k = ?Q @ ?S" and a: "after_at installed plans db names k = ?N @ ?S'"
    by (simp_all add: before_at_def after_at_def)
  note plain = after_plain_own [OF hyps(3, 4), of k]
  have pa: "plain_clash (map fst (?N @ ?S'))"
    using clash clashing_plain [of "?N @ ?S'" ns] plain by (cases ns) (auto simp: a)
  have pb: "\<not> plain_clash (map fst (?Q @ ?S))"
    using quietD [OF hyps(2, 4), of k] clashing_plain [of "?Q @ ?S" ns] plain by (cases ns) (auto simp: b)
  have ne: "after_at installed plans db names k \<noteq> []" using clash by (auto simp: clashing_def)
  show False
  proof (cases "?N = []")
    case True
    then show False using plain_clash_sub [OF pa, of "map fst (?Q @ ?S)"] stay_sub [of db names "leaving installed plans" "arriving plans" k] pb
      by auto
  next
    case False
    then have "fast_same ?N ?Q" "\<not> (\<not> refcountable (a_name (fst (hd ?N))) \<and> globally_identical (a_name (fst (hd ?N))) \<and> 1 < length ?N)"
      using namespace_sides_at(3) [OF sides hyps(1) k] ne by blast+
    moreover have "\<forall>x \<in> set (?N @ ?S' @ ?Q @ ?S). plain_act (fst x)" using plain(1) by (auto simp: a b)
    ultimately show False
      using fast_drop_safe [OF _ False _ stay_sub, of ?Q] pa pb by blast
  qed
qed

text \<open>
  C33. When the planning of an image without conflicts finds none, the image after the plan has none:
  whatever several of its packages deliver to one name can be delivered together, or is a file that may be
  overlaid and the one that overlays it.  What the image holds is here what the code counts: the actions
  that the cache has for the packages that stay, and the actions and implicit directories of the packages
  of the plan; the directories that packages outside the plan need only implicitly are not in the cache and
  not part of the statement.  It is also assumed that the cache has no row twice and that each of its
  texts is the one that its action prints (\<open>tidy_cache\<close>), that the image has no mediated links
  (\<open>plain_plan\<close>) and that no name changes its type (\<open>steady_types\<close>).
\<close>

theorem plan_check_sound:
  assumes "find_all_conflicts key name_of excluded installed (Database db) st = Inr st'"
    and "new_installed installed (ps_plans st) \<noteq> []" "tidy_cache db"
    and "quiet_before installed (ps_plans st) db" "plain_plan installed (ps_plans st) db" "steady_types installed (ps_plans st) db"
    and "(ns, names) \<in> set conflict_groups" "clashing ns (after_at installed (ps_plans st) db names k)"
  shows "check_duplicate_actions (after_at installed (ps_plans st) db names k) [] = Some VOverlay"
proof -
  let ?plans = "ps_plans st" and ?clean = "\<not> has_conflicts (Database db)"
  obtain st1 where c: "check_namespaces key ?clean ?plans (Database db) (leaving installed ?plans) (arriving ?plans)
      conflict_groups (st\<lparr>ps_errs := []\<rparr>) = Inr st1" "ps_errs st1 = []"
    using assms(1) unfolding find_all_result [OF assms(2)] by (auto simp: sbind_eq_Inr split: if_splits)
  from check_namespaces_errs [OF c(1)] c(2)
  have each: "\<exists>new old. namespace_sides ?clean ?plans (Database db) (leaving installed ?plans) (arriving ?plans) names = Inr (new, old)"
    and none: "\<not> namespace_error key (namespace_sides ?clean ?plans (Database db) (leaving installed ?plans) (arriving ?plans)) (ns, names)"
    using assms(7) by auto
  then obtain new old where sides: "namespace_sides ?clean ?plans (Database db) (leaving installed ?plans) (arriving ?plans) names = Inr (new, old)"
    by blast
  note s = namespace_sides_at [OF sides assms(3)]
  have "k \<in> set (map fst new)" using unchecked_quiet [OF sides assms(3, 4, 5, 7)] assms(8) by blast
  then obtain acts where k: "(k, acts) \<in> set new" by auto
  have acts: "acts = after_at installed ?plans db names k" "at old k = before_at installed ?plans db names k"
    using s(2) [of k] at_mem [OF s(1) k] k by force+
  have ok: "\<not> key_error key ns acts (at old k)" using none sides k by (auto simp: namespace_error_def)
  have ne: "acts \<noteq> []" using assms(8) by (auto simp: acts clashing_def)
  show ?thesis unfolding acts(1) [symmetric]
  proof (rule no_key_error_overlay [OF _ _ ok])
    show "clashing ns acts" using assms(8) by (simp add: acts)
    show "\<not> clashing ns (at old k)" using quietD [OF assms(4, 7)] by (simp add: acts)
    show "a_name (fst (hd (at old k))) = a_name (fst (hd acts))" if "at old k \<noteq> []"
      using steadyD [OF assms(6, 7), of k] that ne by (simp add: acts)
    show "\<forall>a \<in> set acts. globally_identical (a_name (fst a))"
      using after_plain_own(1) [OF assms(5, 7), of k] by (auto simp: acts plain_act_def)
  qed
qed

text \<open>
  C34. Planning raises a conflict only when the packages of the planned image really conflict at some
  name, whatever the image was before, provided that the cache has no row twice and that each of its texts is the
  one that its action prints (\<open>tidy_cache\<close>).
\<close>

theorem plan_check_complete:
  assumes "find_all_conflicts key name_of excluded installed (Database db) st = Inl (ConflictingActionErrors es)" "tidy_cache db"
  shows "\<exists>(ns, names) \<in> set conflict_groups. \<exists>k. clashing ns (after_at installed (ps_plans st) db names k)"
proof -
  let ?plans = "ps_plans st" and ?clean = "\<not> has_conflicts (Database db)"
  have ne: "new_installed installed ?plans \<noteq> []" using assms(1) by (auto simp: find_all_conflicts_def)
  have no_raise: "check_namespaces key clean plans (Database db) gone changing gs st \<noteq> Inl (ConflictingActionErrors es)"
    for clean plans gone changing gs st using check_namespaces_raises by blast
  obtain st1 where c: "check_namespaces key ?clean ?plans (Database db) (leaving installed ?plans) (arriving ?plans)
      conflict_groups (st\<lparr>ps_errs := []\<rparr>) = Inr st1" "ps_errs st1 \<noteq> []"
    using assms(1) no_raise unfolding find_all_result [OF ne] by (auto simp: sbind_eq_Inl split: if_splits)
  from check_namespaces_errs [OF c(1)] c(2)
  obtain ns names where g: "(ns, names) \<in> set conflict_groups"
    "namespace_error key (namespace_sides ?clean ?plans (Database db) (leaving installed ?plans) (arriving ?plans)) (ns, names)"
    by auto
  then obtain new old k acts where sides: "namespace_sides ?clean ?plans (Database db) (leaving installed ?plans) (arriving ?plans) names = Inr (new, old)"
    and k: "(k, acts) \<in> set new" "key_error key ns acts (at old k)"
    by (auto simp: namespace_error_def)
  note s = namespace_sides_at [OF sides assms(2)]
  have "acts = after_at installed ?plans db names k" using s(2) [of k] at_mem [OF s(1) k(1)] k by force
  moreover have "acts \<noteq> []" using s(1) k(1) by (auto simp: proper_def)
  ultimately show ?thesis using key_error_clash [OF k(2)] g(1) by blast
qed

section \<open>Small images\<close>

text \<open>Actions, package plans, states and caches from the actions of packages.\<close>

definition ex_file :: "string \<Rightarrow> string \<Rightarrow> (string \<times> avalue) list \<Rightarrow> action" where
  "ex_file p h rest = \<lparr>a_name = ''file'', a_hash = Some h,
     a_attrs = [(''path'', AStr p), (''mode'', AStr ''0644''), (''owner'', AStr ''root''), (''group'', AStr ''sys'')] @ rest\<rparr>"

definition ex_link :: "string \<Rightarrow> string \<Rightarrow> (string \<times> avalue) list \<Rightarrow> action" where
  "ex_link p t rest = \<lparr>a_name = ''link'', a_hash = None, a_attrs = [(''path'', AStr p), (''target'', AStr t)] @ rest\<rparr>"

definition ex_pkg :: "string option \<Rightarrow> action list \<Rightarrow> string option \<Rightarrow> action list \<Rightarrow> pplan" where
  "ex_pkg f out g inn = \<lparr>pp_origin = f, pp_dest = g, pp_origin_name = (case f of None \<Rightarrow> '''' | Some f \<Rightarrow> f), pp_out = out,
     pp_out_dirs = [], pp_in = inn, pp_in_dirs = [], pp_added = map (\<lambda>(i, a). (None, Some (i, a))) (enumerate 1 inn),
     pp_changed = [], pp_removed = []\<rparr>"

definition ex_state :: "pplan list \<Rightarrow> plan_state" where
  "ex_state plans = \<lparr>ps_plans = plans, ps_removal = [],
     ps_install = concat (map (\<lambda>(n, p). List.map_filter (\<lambda>(s, d). map_option (\<lambda>a. Some (n, a)) d) (pp_added p)) (enumerate 0 plans)),
     ps_update = [], ps_fixups = [], ps_errs = []\<rparr>"

definition ex_db :: "(string \<times> action list) list \<Rightarrow> adb" where
  "ex_db pkgs = \<lparr>ac_version = 1, ac_meta = [], ac_packages = map (\<lambda>(i, f, as). (i, f)) (enumerate 1 pkgs),
     ac_actions = concat (map (\<lambda>(i, f, as). map (\<lambda>a. (i, projr (gen_package_row a))) as) (enumerate 1 pkgs)), ac_conflicts = []\<rparr>"

definition path_names :: "string list" where
  "path_names = [''dir'', ''file'', ''hardlink'', ''link'']"

lemma path_group: "(NsPath, path_names) \<in> set conflict_groups"
  by (simp add: conflict_groups_def path_names_def)

definition run_check :: "string list \<Rightarrow> adb \<Rightarrow> plan_state \<Rightarrow> plan_exn + plan_state" where
  "run_check installed db st = find_all_conflicts id id (\<lambda>s. False) installed (Database db) st"

text \<open>A package with an editable file is there, and one that overlays it comes.\<close>

definition over_db :: adb where
  "over_db = ex_db [(''b'', [ex_file ''f'' ''ab'' [(''overlay'', AStr ''allow''), (''preserve'', AStr ''true'')]])]"

definition over_st :: plan_state where
  "over_st = ex_state [ex_pkg None [] (Some ''c'') [ex_file ''f'' ''cd'' [(''overlay'', AStr ''true'')]]]"

lemma over_result:
  "find_all_conflicts id id (\<lambda>s. False) [''b''] (Database over_db) over_st = Inr (projr (run_check [''b''] over_db over_st))"
  unfolding run_check_def by code_simp

lemma plan_check_sound_witness:
  "check_duplicate_actions (after_at [''b''] (ps_plans over_st) over_db path_names ''f'') [] = Some VOverlay"
proof (rule plan_check_sound [OF over_result _ _ _ _ _ path_group])
  show "new_installed [''b''] (ps_plans over_st) \<noteq> []" by code_simp
  show "tidy_cache over_db" by code_simp
  show "quiet_before [''b''] (ps_plans over_st) over_db" by code_simp
  show "plain_plan [''b''] (ps_plans over_st) over_db" by code_simp
  show "steady_types [''b''] (ps_plans over_st) over_db" by code_simp
  show "clashing NsPath (after_at [''b''] (ps_plans over_st) over_db path_names ''f'')" by code_simp
qed

text \<open>Now without the attribute that allows it.\<close>

definition dup_st :: plan_state where
  "dup_st = ex_state [ex_pkg None [] (Some ''c'') [ex_file ''f'' ''cd'' []]]"

definition raised_errors :: "plan_exn + plan_state \<Rightarrow> (conflict_exn \<times> string delivered list) list" where
  "raised_errors r = (case r of Inl (ConflictingActionErrors es) \<Rightarrow> es | _ \<Rightarrow> [])"

lemma dup_result:
  "find_all_conflicts id id (\<lambda>s. False) [''b''] (Database over_db) dup_st
    = Inl (ConflictingActionErrors (raised_errors (run_check [''b''] over_db dup_st)))"
  unfolding run_check_def by code_simp

lemma plan_check_complete_witness:
  "\<exists>(ns, names) \<in> set conflict_groups. \<exists>k. clashing ns (after_at [''b''] (ps_plans dup_st) over_db names k)"
proof (rule plan_check_complete [OF dup_result])
  show "tidy_cache over_db" by code_simp
qed

section \<open>What the search misses\<close>

text \<open>
  A new version of a package delivers a link of a mediation without its mediator: the fast comparison
  looks at path and target only.
\<close>

definition mediated :: "string \<Rightarrow> string \<Rightarrow> action" where
  "mediated v t = ex_link ''l'' t [(''mediator'', AStr ''m''), (''mediator-version'', AStr v)]"

definition med_db :: adb where
  "med_db = ex_db [(''a1'', [mediated ''1'' ''x'']), (''b1'', [mediated ''2'' ''y''])]"

definition med_st :: plan_state where
  "med_st = ex_state [ex_pkg (Some ''a1'') [mediated ''1'' ''x''] (Some ''a2'') [ex_link ''l'' ''x'' []]]"

text \<open>
  Three packages share a link; two of them come to deliver a file in its place and one goes.
\<close>

definition links_db :: adb where
  "links_db = ex_db [(''a1'', [ex_link ''l'' ''x'' []]), (''b1'', [ex_link ''l'' ''x'' []]), (''c1'', [ex_link ''l'' ''x'' []])]"

definition links_st :: plan_state where
  "links_st = ex_state [ex_pkg (Some ''a1'') [ex_link ''l'' ''x'' []] (Some ''a2'') [ex_file ''l'' ''ab'' []],
     ex_pkg (Some ''b1'') [ex_link ''l'' ''x'' []] (Some ''b2'') [ex_file ''l'' ''cd'' []],
     ex_pkg (Some ''c1'') [ex_link ''l'' ''x'' []] None []]"

lemma med_result:
  "find_all_conflicts id id (\<lambda>s. False) [''a1'', ''b1''] (Database med_db) med_st = Inr (projr (run_check [''a1'', ''b1''] med_db med_st))"
  unfolding run_check_def by code_simp

lemma links_result:
  "find_all_conflicts id id (\<lambda>s. False) [''a1'', ''b1'', ''c1''] (Database links_db) links_st
    = Inr (projr (run_check [''a1'', ''b1'', ''c1''] links_db links_st))"
  unfolding run_check_def by code_simp

lemma med_facts:
  "tidy_cache med_db" "\<not> has_conflicts (Database med_db)" "quiet_before [''a1'', ''b1''] (ps_plans med_st) med_db"
  "steady_types [''a1'', ''b1''] (ps_plans med_st) med_db"
  "clashing NsPath (after_at [''a1'', ''b1''] (ps_plans med_st) med_db path_names ''l'')"
  by code_simp+

lemma links_facts:
  "tidy_cache links_db" "\<not> has_conflicts (Database links_db)" "quiet_before [''a1'', ''b1'', ''c1''] (ps_plans links_st) links_db"
  "plain_plan [''a1'', ''b1'', ''c1''] (ps_plans links_st) links_db"
  "clashing NsPath (after_at [''a1'', ''b1'', ''c1''] (ps_plans links_st) links_db path_names ''l'')"
  "check_duplicate_actions (after_at [''a1'', ''b1'', ''c1''] (ps_plans links_st) links_db path_names ''l'') [] \<noteq> Some VOverlay"
  by code_simp+

text \<open>
  The last two hypotheses on the soundness of the search are needed: it accepts a plan after which a link
  without a mediator conflicts with one of another package, and a plan after which two packages deliver
  different files to one name, from images without conflicts.
\<close>

lemma plan_check_misses:
  "(\<exists>installed db st st' k. find_all_conflicts id id (\<lambda>s. False) installed (Database db) st = Inr st'
      \<and> tidy_cache db \<and> quiet_before installed (ps_plans st) db \<and> steady_types installed (ps_plans st) db
      \<and> clashing NsPath (after_at installed (ps_plans st) db path_names k))
    \<and> (\<exists>installed db st st' k. find_all_conflicts id id (\<lambda>s. False) installed (Database db) st = Inr st'
      \<and> tidy_cache db \<and> quiet_before installed (ps_plans st) db \<and> plain_plan installed (ps_plans st) db
      \<and> clashing NsPath (after_at installed (ps_plans st) db path_names k)
      \<and> check_duplicate_actions (after_at installed (ps_plans st) db path_names k) [] \<noteq> Some VOverlay)"
  using med_result med_facts links_result links_facts by blast

section \<open>What the fast comparison passes over\<close>

lemma those_Some: "those xs = Some ys \<longleftrightarrow> xs = map Some ys"
  by (induction xs arbitrary: ys) (auto split: option.splits)

lemma first_match_None: "first_match a xs = None \<longleftrightarrow> (\<forall>x \<in> set xs. \<not> matches a (fst x))"
  by (induction xs) auto

lemma enumerate_all: "(\<forall>(i, x) \<in> set (enumerate 0 xs). P i x) \<longleftrightarrow> (\<forall>i < length xs. P i (xs ! i))"
  by (auto simp: in_set_enumerate_eq)

lemma find_nothing: "find_inconsistent_attrs ig [] = []"
  by (simp add: find_inconsistent_attrs_Nil)

text \<open>The indices of the code mean that each action of either side matches one of the other.\<close>

lemma fast_same_iff:
  "fast_same acts oacts \<longleftrightarrow> (\<forall>x \<in> set acts. \<exists>y \<in> set oacts. matches (fst x) (fst y))
     \<and> (\<forall>y \<in> set oacts. \<exists>x \<in> set acts. matches (fst x) (fst y))"
proof (cases "\<forall>x \<in> set acts. \<exists>y \<in> set oacts. matches (fst x) (fst y)")
  case True
  define is' where "is' = map (\<lambda>(a, f). the (first_match a oacts)) acts"
  have some: "first_match (fst x) oacts \<noteq> None" if "x \<in> set acts" for x
    using True that by (auto simp: first_match_None)
  then have "those (map (\<lambda>(a, f). first_match a oacts) acts) = Some is'"
    by (fastforce simp: those_Some is'_def)
  moreover have "matches (fst x) (fst (oacts ! i))" if "x \<in> set acts" "i = the (first_match (fst x) oacts)" for x i
    using first_match_Some [of "fst x" oacts i] some [OF that(1)] that(2) by auto
  then have m: "\<exists>x \<in> set acts. matches (fst x) (fst (oacts ! i))" if "i \<in> set is'" for i
    using that by (auto simp: is'_def) (metis fst_conv)
  ultimately have "fast_same acts oacts \<longleftrightarrow>
      (\<forall>(i, y) \<in> set (enumerate 0 oacts). i \<in> set is' \<or> (\<exists>x \<in> set acts. matches (fst x) (fst y)))"
    by (simp add: fast_same_def list_all_iff list_ex_iff split_beta)
  also have "\<dots> \<longleftrightarrow> (\<forall>i < length oacts. i \<in> set is' \<or> (\<exists>x \<in> set acts. matches (fst x) (fst (oacts ! i))))"
    by (rule enumerate_all)
  also have "\<dots> \<longleftrightarrow> (\<forall>y \<in> set oacts. \<exists>x \<in> set acts. matches (fst x) (fst y))"
    unfolding all_set_conv_all_nth using m by blast
  finally show ?thesis using True by simp
next
  case False
  then have "\<not> fast_same acts oacts" using fast_same_matches by blast
  then show ?thesis using False by blast
qed

text \<open>
  C35. What the fast comparison of a clean image takes out of the search: exactly the names at which there
  were actions before, unless several new ones are of a type of which there may be only one, and at which
  every new action has an old one, and every old action a new one, of the same type and with the same
  unique attributes; the old actions go with the new ones.  The unique attributes of links are the path
  and the target, so at a name at which all actions are links to one target nothing is compared any
  more, whatever becomes of their mediators.
\<close>

theorem fast_check_meaning:
  assumes "proper new" "(k, acts) \<in> set new"
  shows "(k \<notin> fst ` set (fst (fast_check new old)) \<longleftrightarrow>
      at old k \<noteq> [] \<and> (refcountable (a_name (fst (hd acts))) \<or> \<not> globally_identical (a_name (fst (hd acts))) \<or> length acts = 1)
      \<and> (\<forall>x \<in> set acts. \<exists>y \<in> set (at old k). matches (fst x) (fst y))
      \<and> (\<forall>y \<in> set (at old k). \<exists>x \<in> set acts. matches (fst x) (fst y)))
    \<and> at (snd (fast_check new old)) k = (if k \<in> fst ` set (fst (fast_check new old)) then at old k else [])
    \<and> (at old k \<noteq> [] \<and> (\<forall>x \<in> set acts \<union> set (at old k). a_name (fst x) = ''link''
         \<and> dget (a_attrs (fst x)) ''path'' = Some (AStr p) \<and> dget (a_attrs (fst x)) ''target'' = Some (AStr t))
       \<longrightarrow> k \<notin> fst ` set (fst (fast_check new old)))"
proof -
  let ?new = "fst (fast_check new old)"
  have d: "distinct (map fst new)" "acts \<noteq> []" using assms by (auto simp: proper_def)
  have "xs = acts" if "(k, xs) \<in> set new" for xs using d(1) assms(2) that by (meson eq_key_imp_eq_value)
  moreover have "?new = filter (\<lambda>x. \<not> fast_drops old x) new" by (simp add: fast_check_def Let_def)
  then have "k \<in> fst ` set ?new \<longleftrightarrow> (\<exists>xs. (k, xs) \<in> set new \<and> \<not> fast_drops old (k, xs))" by (simp add: image_iff Bex_def)
  ultimately have out: "k \<notin> fst ` set ?new \<longleftrightarrow> fast_drops old (k, acts)" using assms(2) by metis
  have l: "\<not> 1 < length acts \<longleftrightarrow> length acts = 1" using d(2) by (cases acts) auto
  have first: "k \<notin> fst ` set ?new \<longleftrightarrow>
      at old k \<noteq> [] \<and> (refcountable (a_name (fst (hd acts))) \<or> \<not> globally_identical (a_name (fst (hd acts))) \<or> length acts = 1)
      \<and> (\<forall>x \<in> set acts. \<exists>y \<in> set (at old k). matches (fst x) (fst y))
      \<and> (\<forall>y \<in> set (at old k). \<exists>x \<in> set acts. matches (fst x) (fst y))"
    unfolding out fast_drops_def Let_def prod.case fast_same_iff using l by blast
  have "map_of (filter (\<lambda>(k, xs). k \<in> K) old) k = (if k \<in> K then map_of old k else None)" for K
    by (induction old) auto
  then have second: "at (snd (fast_check new old)) k = (if k \<in> fst ` set ?new then at old k else [])"
    by (simp add: fast_check_def Let_def at_def)
  have "k \<notin> fst ` set ?new" if links: "at old k \<noteq> []" "\<forall>x \<in> set acts \<union> set (at old k). a_name (fst x) = ''link''
         \<and> dget (a_attrs (fst x)) ''path'' = Some (AStr p) \<and> dget (a_attrs (fst x)) ''target'' = Some (AStr t)"
  proof -
    have "matches (fst x) (fst y)" if "x \<in> set acts" "y \<in> set (at old k)" for x y
      using links(2) that by (simp add: matches_def unique_attrs_def)
    moreover have "refcountable (a_name (fst (hd acts)))" using links(2) d(2) by (simp add: refcountable_def)
    ultimately show ?thesis unfolding first using links(1) d(2) by (meson hd_in_set)
  qed
  then show ?thesis using first second by blast
qed

definition med_new :: group where
  "med_new = [(''l'', [(ex_link ''l'' ''x'' [], ''a2'')])]"

definition med_old :: group where
  "med_old = [(''l'', [(mediated ''1'' ''x'', ''a1'')])]"

lemma fast_check_meaning_witness:
  "''l'' \<notin> fst ` set (fst (fast_check med_new med_old)) \<and> at (snd (fast_check med_new med_old)) ''l'' = []"
proof -
  have "proper med_new" by (simp add: proper_def med_new_def)
  from fast_check_meaning [OF this, of "''l''" "[(ex_link ''l'' ''x'' [], ''a2'')]" med_old "''l''" "''x''"]
  show ?thesis by (simp add: med_new_def med_old_def at_def mediated_def ex_link_def dget_def)
qed

text \<open>
  C36. Whether inconsistent attributes are found depends on the order of the actions.  An action that is
  safe with the first one is not compared with any other, so nothing is found as long as the first one is
  safe with all of them; when the list starts with one of two actions that are not safe with each other,
  the error is raised.  Links of one mediation are safe together because their versions differ, so two
  links of the same version with different targets pass when a link of another version comes first.
\<close>

theorem attribute_check_order:
  assumes "\<not> implicit_dir (fst a)" "\<forall>x \<in> set xs. safe_pair [] (fst a) (fst x)"
  shows "check_inconsistent_attrs (a # xs) [] = None
    \<and> (\<forall>b ys. \<not> implicit_dir (fst b) \<and> (\<exists>c \<in> set ys. \<not> safe_pair [] (fst b) (fst c)) \<longrightarrow>
         check_inconsistent_attrs (b # ys) [] = Some (VError (b # ys) None))"
proof -
  have "check_inconsistent_attrs (a # xs) [] = None"
    using check_attrs_alone [of "a # xs"] assms by (auto simp: agree_def list_all_iff)
  moreover have "check_inconsistent_attrs (b # ys) [] = Some (VError (b # ys) None)"
    if "\<not> implicit_dir (fst b)" "c \<in> set ys" "\<not> safe_pair [] (fst b) (fst c)" for b c ys
  proof -
    have "find_inconsistent_attrs [] (b # ys) \<noteq> []" using that by (auto simp: find_inconsistent_attrs_Nil agree_def list_all_iff)
    then show ?thesis by (simp add: check_inconsistent_attrs_def Let_def find_nothing)
  qed
  ultimately show ?thesis by blast
qed

lemma attribute_check_order_witness:
  "let a = (mediated ''1'' ''x'', ''a''); b = (mediated ''2'' ''y'', ''b''); c = (mediated ''2'' ''z'', ''c'') in
    check_inconsistent_attrs [a, b, c] [] = None \<and> check_inconsistent_attrs [b, c, a] [] = Some (VError [b, c, a] None)"
proof -
  let ?a = "(mediated ''1'' ''x'', ''a'')" and ?b = "(mediated ''2'' ''y'', ''b'')" and ?c = "(mediated ''2'' ''z'', ''c'')"
  have f: "\<not> implicit_dir (fst ?a)" "\<not> implicit_dir (fst ?b)" "safe_pair [] (fst ?a) (fst ?b)" "safe_pair [] (fst ?a) (fst ?c)"
    "\<not> safe_pair [] (fst ?b) (fst ?c)" by code_simp+
  have "\<forall>x \<in> set [?b, ?c]. safe_pair [] (fst ?a) (fst x)" using f by simp
  note t = attribute_check_order [OF f(1) this]
  have "check_inconsistent_attrs (?b # [?c, ?a]) [] = Some (VError (?b # [?c, ?a]) None)"
    by (rule t [THEN conjunct2, rule_format]) (use f in simp)
  then show ?thesis using t [THEN conjunct1] unfolding Let_def by blast
qed

end
