(* ===== verification/Config_Values.thy ===== *)
theory Config_Values
  imports Pkg_Version Pkg_Dict
begin

text \<open>
  The properties of \<open>config.py\<close>: names, the classes of properties with what their values may be, the
  setting of a value, its printed form and the copying of a property.  From \<open>misc.py\<close> the checks of
  publisher prefixes and URLs.
\<close>

section \<open>Values\<close>

text \<open>
  The Python values that a property can be given: \<open>POther\<close> is an object of another type with its text.
  Byte strings are left out.
\<close>

datatype pyval =
    PNone
  | PBool bool
  | PInt int
  | PStr string
  | PList "pyval list"
  | PDict "(pyval \<times> pyval) list"
  | PVer version
  | POther string

datatype cfg_exn =
    InvalidPropertyNameError string
  | InvalidSectionNameError string
  | InvalidPropertyValueError "string option" string
  | PropertyMultiValueError string string
  | UnknownPropertyValueError string string
  | UnknownPropertyError "string option" string
  | UnknownSectionError string
  | InvalidConfigFile
  | PermissionsException
  | ReadOnlyFileSystemException
  | CfgValueError
  | CfgOtherError
  | CfgAssertionError
  | TemplateUsed
  | ParserError

text \<open>
  From Python's library: \<open>ast.literal_eval\<close> and the text of a value, \<open>urlparse\<close> (the scheme, whether
  there is a user or a password, the host name; \<open>None\<close> when it raises \<open>ValueError\<close>), whether a text is
  a UUID, \<open>re.match\<close> of a pattern, and what \<open>int\<close> gives for an object of another type (a float, say;
  \<open>None\<close> when it raises).
\<close>

record pyenv =
  literal_eval :: "string \<Rightarrow> pyval option"
  py_repr :: "pyval \<Rightarrow> string"
  urlparse :: "string \<Rightarrow> (string \<times> bool \<times> string option) option"
  is_uuid :: "string \<Rightarrow> bool"
  re_match :: "string \<Rightarrow> string \<Rightarrow> bool"
  other_int :: "string \<Rightarrow> int option"

fun truthy :: "pyval \<Rightarrow> bool" where
  "truthy PNone = False"
| "truthy (PBool b) = b"
| "truthy (PInt i) = (i \<noteq> 0)"
| "truthy (PStr s) = (s \<noteq> [])"
| "truthy (PList l) = (l \<noteq> [])"
| "truthy (PDict d) = (d \<noteq> [])"
| "truthy _ = True"

text \<open>\<open>str(i)\<close>.\<close>

fun nat_text :: "nat \<Rightarrow> string" where
  "nat_text n = (if n < 10 then [char_of (48 + n)] else nat_text (n div 10) @ [char_of (48 + n mod 10)])"

declare nat_text.simps [simp del]

definition int_text :: "int \<Rightarrow> string" where
  "int_text i = (if i < 0 then CHR ''-'' # nat_text (nat (- i)) else nat_text (nat i))"

definition bool_text :: "bool \<Rightarrow> string" where
  "bool_text b = (if b then ''True'' else ''False'')"

definition lower :: "string \<Rightarrow> string" where
  "lower s = map (\<lambda>c. if 65 \<le> code c \<and> code c \<le> 90 then char_of (code c + 32) else c) s"

section \<open>Publisher prefixes and URLs\<close>

definition host_char :: "char \<Rightarrow> bool" where
  "host_char c \<longleftrightarrow> is_alnum c \<or> c = CHR ''-'' \<or> c = CHR ''.'' \<or> c = CHR '':'' \<or> c = CHR ''['' \<or> c = CHR '']''"

definition hex_dot :: "char \<Rightarrow> bool" where
  "hex_dot c \<longleftrightarrow> is_digit c \<or> 65 \<le> code c \<and> code c \<le> 70 \<or> 97 \<le> code c \<and> code c \<le> 102 \<or> c = CHR ''.''"

text \<open>
  The three alternatives of \<open>_hostname_re\<close>, the second of which is a case of the first.
\<close>

definition hostname_re :: "string \<Rightarrow> bool" where
  "hostname_re s \<longleftrightarrow>
     s \<noteq> [] \<and> (is_alnum (hd s) \<or> hd s = CHR ''-'') \<and> list_all (\<lambda>c. is_alnum c \<or> c = CHR ''-'' \<or> c = CHR ''.'') s
     \<or> 2 < length s \<and> hd s = CHR ''['' \<and> last s = CHR '']'' \<and>
       (let parts = split_on CHR '':'' (butlast (tl s)) in
        length parts \<le> 8 \<and> last parts \<noteq> [] \<and> list_all (list_all hex_dot) parts)"

definition valid_host :: "string \<Rightarrow> bool" where
  "valid_host s \<longleftrightarrow> list_all host_char s \<and> hostname_re s"

definition valid_pub_prefix :: "string \<Rightarrow> bool" where
  "valid_pub_prefix p \<longleftrightarrow> p \<noteq> [] \<and> valid_host p"

definition valid_pub_url :: "pyenv \<Rightarrow> string \<Rightarrow> cfg_exn + bool" where
  "valid_pub_url env url =
     (if url = [] then Inr False
      else (case urlparse env url of
        None \<Rightarrow> Inl CfgValueError
      | Some (scheme, creds, host) \<Rightarrow>
          Inr (scheme \<in> {''file'', ''http'', ''https''} \<and> \<not> creds \<and>
            (scheme = ''file'' \<or>
             (case host of None \<Rightarrow> False
              | Some h \<Rightarrow> h \<noteq> [] \<and> valid_host (if CHR '':'' \<in> set h then ''['' @ h @ '']'' else h))))))"

section \<open>Classes of properties\<close>

text \<open>
  The classes with what their constructors take: bounds of integers, allowed values.
\<close>

datatype ptype =
    TProperty
  | TBool
  | TInt "int option" "int option"
  | TPublisher
  | TDefined "string list"
  | TList "string list"
  | TDictList "pyval list"
  | TSimpleList "string list"
  | TPubURI
  | TSimplePubURIList "string list"
  | TPubURIList "string list"
  | TPubURIDictList "pyval list"
  | TUUID
  | TVersion

record property =
  p_name :: string
  p_type :: ptype
  p_value :: pyval
  p_map :: "(string \<times> pyval) list"

definition cfg_name_ok :: "string \<Rightarrow> bool" where
  "cfg_name_ok s \<longleftrightarrow> s \<noteq> [] \<and> list_all (\<lambda>c. code c \<notin> {9, 10, 11, 12, 13} \<and> c \<noteq> CHR ''/'' \<and> code c \<noteq> 92 \<and> code c < 128) s"

definition bad_value :: "string \<Rightarrow> cfg_exn + 'a" where
  "bad_value name = Inl (InvalidPropertyValueError None name)"

definition mapped :: "(string \<times> pyval) list \<Rightarrow> pyval \<Rightarrow> pyval" where
  "mapped m v = (case v of PStr s \<Rightarrow> (case map_of m s of None \<Rightarrow> v | Some w \<Rightarrow> w) | _ \<Rightarrow> v)"

definition no_value :: "pyval \<Rightarrow> bool" where
  "no_value v \<longleftrightarrow> v = PNone \<or> v = PStr []"

text \<open>\<open>PropDefined._is_allowed\<close>\<close>

definition allows :: "string list \<Rightarrow> string \<Rightarrow> bool" where
  "allows allowed s \<longleftrightarrow> allowed = [] \<or> list_ex (\<lambda>a. s = a
     \<or> a = ''<exec:pathname>'' \<and> starts_with s ''exec:'' \<and> 5 < length s
     \<or> a = ''<smffmri>'' \<and> starts_with s ''svc:'' \<and> 4 < length s
     \<or> a = ''<abspathname>'' \<and> starts_with s ''/''
     \<or> a = ''<pathname>'' \<and> 1 < length s) allowed"

text \<open>\<open>_is_allowed\<close> of the classes that are set with strings or lists of strings.\<close>

definition allowed_str :: "pyenv \<Rightarrow> ptype \<Rightarrow> string \<Rightarrow> cfg_exn + bool" where
  "allowed_str env ty s =
     (case ty of
        TDefined al \<Rightarrow> Inr (allows al s)
      | TList al \<Rightarrow> Inr (allows al s)
      | TSimpleList al \<Rightarrow> Inr (allows al s)
      | TPubURI \<Rightarrow> if s = [] then Inr True else valid_pub_url env s
      | TSimplePubURIList al \<Rightarrow> if allows al s then valid_pub_url env s else Inr False
      | TPubURIList al \<Rightarrow> if allows al s then valid_pub_url env s else Inr False
      | TUUID \<Rightarrow> Inr (s = [] \<or> is_uuid env s)
      | _ \<Rightarrow> Inr True)"

definition require :: "string \<Rightarrow> cfg_exn + bool \<Rightarrow> cfg_exn + unit" where
  "require name r = sbind r (\<lambda>ok. if ok then Inr () else bad_value name)"

text \<open>The setter of the base class.\<close>

definition set_plain :: "pyenv \<Rightarrow> string \<Rightarrow> ptype \<Rightarrow> pyval \<Rightarrow> cfg_exn + pyval" where
  "set_plain env name ty v =
     (let text = (case v of PNone \<Rightarrow> Some [] | PBool b \<Rightarrow> Some (bool_text b) | PInt i \<Rightarrow> Some (int_text i) | PStr s \<Rightarrow> Some s | _ \<Rightarrow> None)
      in case text of
           Some s \<Rightarrow> sbind (require name (allowed_str env ty s)) (\<lambda>_. Inr (PStr s))
         | None \<Rightarrow> (case (ty, v) of (TUUID, POther s) \<Rightarrow> if is_uuid env s then Inr (POther s) else bad_value name | _ \<Rightarrow> bad_value name))"

definition set_bool :: "string \<Rightarrow> pyval \<Rightarrow> cfg_exn + pyval" where
  "set_bool name v =
     (if no_value v then Inr (PBool False)
      else (case v of
        PStr s \<Rightarrow> if lower s = ''true'' then Inr (PBool True) else if lower s = ''false'' then Inr (PBool False) else bad_value name
      | PBool b \<Rightarrow> Inr (PBool b)
      | _ \<Rightarrow> bad_value name))"

definition set_int :: "pyenv \<Rightarrow> string \<Rightarrow> int option \<Rightarrow> int option \<Rightarrow> pyval \<Rightarrow> cfg_exn + pyval" where
  "set_int env name lo hi v =
     (let n = (if no_value v then Some 0
               else (case v of PStr s \<Rightarrow> py_int s | PBool b \<Rightarrow> Some (if b then 1 else 0) | PInt i \<Rightarrow> Some i
                 | POther s \<Rightarrow> other_int env s | _ \<Rightarrow> None))
      in case n of
           None \<Rightarrow> bad_value name
         | Some i \<Rightarrow>
             if (case lo of None \<Rightarrow> False | Some l \<Rightarrow> i < l) then bad_value name
             else if (case hi of None \<Rightarrow> False | Some h \<Rightarrow> h < i) then bad_value name
             else Inr (PInt i))"

definition set_pub_prefix :: "string \<Rightarrow> pyval \<Rightarrow> cfg_exn + pyval" where
  "set_pub_prefix name v =
     (if no_value v then Inr (PStr [])
      else (case v of PStr s \<Rightarrow> if valid_pub_prefix s then Inr v else bad_value name | _ \<Rightarrow> bad_value name))"

definition set_version :: "string \<Rightarrow> pyval \<Rightarrow> cfg_exn + pyval" where
  "set_version name v =
     (case (if no_value v then PStr ''0'' else v) of
        PVer w \<Rightarrow> Inr (PVer w)
      | PStr s \<Rightarrow> (case version_init s None of Inr w \<Rightarrow> Inr (PVer w) | Inl e \<Rightarrow> bad_value name)
      | _ \<Rightarrow> bad_value name)"

text \<open>\<open>_parse_str\<close>: of lists in general and of simple lists.\<close>

definition parse_list :: "pyenv \<Rightarrow> string \<Rightarrow> ptype \<Rightarrow> string \<Rightarrow> cfg_exn + pyval list" where
  "parse_list env name ty s =
     (case ty of
        TSimpleList al \<Rightarrow> Inr (map PStr (split_on CHR '','' s))
      | TSimplePubURIList al \<Rightarrow> Inr (map PStr (split_on CHR '','' s))
      | _ \<Rightarrow> (case literal_eval env s of Some (PList l) \<Rightarrow> Inr l | _ \<Rightarrow> bad_value name))"

definition list_text :: "string \<Rightarrow> pyval \<Rightarrow> cfg_exn + string" where
  "list_text name v =
     (case v of PNone \<Rightarrow> Inr [] | PBool b \<Rightarrow> Inr (bool_text b) | PInt i \<Rightarrow> Inr (int_text i) | PStr s \<Rightarrow> Inr s
      | _ \<Rightarrow> bad_value name)"

definition allowed_list :: "ptype \<Rightarrow> string list" where
  "allowed_list ty = (case ty of TList al \<Rightarrow> al | TSimpleList al \<Rightarrow> al | TSimplePubURIList al \<Rightarrow> al | TPubURIList al \<Rightarrow> al | _ \<Rightarrow> [])"

definition set_list :: "pyenv \<Rightarrow> string \<Rightarrow> ptype \<Rightarrow> pyval \<Rightarrow> cfg_exn + pyval" where
  "set_list env name ty v =
     sbind (if no_value v then Inr []
            else (case v of PStr s \<Rightarrow> parse_list env name ty s | PList l \<Rightarrow> Inr l | PDict d \<Rightarrow> Inr (map fst d) | _ \<Rightarrow> bad_value name)) (\<lambda>l.
     sbind (smap (\<lambda>x. sbind (list_text name x) (\<lambda>s. sbind (require name (allowed_str env ty s)) (\<lambda>_. Inr s))) l) (\<lambda>nl.
     if allowed_list ty \<noteq> [] \<and> [] \<notin> set (allowed_list ty) \<and> nl = [] then bad_value name
     else Inr (PList (map PStr nl))))"

definition dict_get :: "string \<Rightarrow> (pyval \<times> pyval) list \<Rightarrow> pyval option" where
  "dict_get k d = map_of d (PStr k)"

definition same_dict :: "pyval \<Rightarrow> pyval \<Rightarrow> bool" where
  "same_dict v w = (case (v, w) of (PDict d, PDict e) \<Rightarrow> set d = set e | _ \<Rightarrow> False)"

text \<open>\<open>PropDictionaryList._is_allowed\<close> and that of the subclass for URIs, on a list of values.\<close>

definition allowed_dict :: "pyval list \<Rightarrow> pyval \<Rightarrow> bool" where
  "allowed_dict al v =
     (case v of PDict d \<Rightarrow> list_ex (same_dict v) al
         \<and> list_all (\<lambda>(k, x). (case k of PStr s \<Rightarrow> True | _ \<Rightarrow> False) \<and> (truthy x \<longrightarrow> (case x of PStr s \<Rightarrow> True | _ \<Rightarrow> False))) d
      | _ \<Rightarrow> False)"

definition uri_dict :: "pyenv \<Rightarrow> pyval \<Rightarrow> cfg_exn + bool" where
  "uri_dict env v =
     (case v of PDict d \<Rightarrow>
        (case dict_get ''uri'' d of
           None \<Rightarrow> Inr False
         | Some (PStr s) \<Rightarrow> valid_pub_url env s
         | Some x \<Rightarrow> if truthy x then Inl CfgOtherError else Inr False)
      | _ \<Rightarrow> Inr False)"

fun all_allowed :: "string \<Rightarrow> ('a \<Rightarrow> cfg_exn + bool) \<Rightarrow> 'a list \<Rightarrow> cfg_exn + unit" where
  "all_allowed name f [] = Inr ()"
| "all_allowed name f (x # xs) = sbind (require name (f x)) (\<lambda>_. all_allowed name f xs)"

definition is_dict :: "pyval \<Rightarrow> bool" where
  "is_dict v = (case v of PDict d \<Rightarrow> True | _ \<Rightarrow> False)"

definition fill_dict :: "pyval \<Rightarrow> pyval" where
  "fill_dict v = (case v of PDict d \<Rightarrow> PDict (map (\<lambda>(k, x). (k, if truthy x then x else PStr [])) d) | _ \<Rightarrow> v)"

definition set_dict_list :: "pyenv \<Rightarrow> string \<Rightarrow> bool \<Rightarrow> pyval list \<Rightarrow> pyval \<Rightarrow> cfg_exn + pyval" where
  "set_dict_list env name uris al v =
     sbind (if no_value v then Inr []
            else (case v of
              PStr s \<Rightarrow> (case literal_eval env s of Some (PList l) \<Rightarrow> Inr l | _ \<Rightarrow> bad_value name)
            | PList l \<Rightarrow> Inr l | _ \<Rightarrow> bad_value name)) (\<lambda>l.
     sbind (all_allowed name (\<lambda>x. Inr (is_dict x)) l) (\<lambda>_.
     sbind (if al = [] then Inr () else all_allowed name (\<lambda>x. Inr (allowed_dict al x)) l) (\<lambda>_.
     sbind (if uris then all_allowed name (uri_dict env) l else Inr ()) (\<lambda>_.
     if al \<noteq> [] \<and> PStr [] \<notin> set al \<and> l = [] then bad_value name
     else Inr (PList (map fill_dict l))))))"

text \<open>The setters.\<close>

definition new_value :: "pyenv \<Rightarrow> string \<Rightarrow> ptype \<Rightarrow> pyval \<Rightarrow> cfg_exn + pyval" where
  "new_value env name ty v =
     (case ty of
        TBool \<Rightarrow> set_bool name v
      | TInt lo hi \<Rightarrow> set_int env name lo hi v
      | TPublisher \<Rightarrow> set_pub_prefix name v
      | TVersion \<Rightarrow> set_version name v
      | TDictList al \<Rightarrow> set_dict_list env name False al v
      | TPubURIDictList al \<Rightarrow> set_dict_list env name True al v
      | TProperty \<Rightarrow> set_plain env name ty v
      | TDefined al \<Rightarrow> set_plain env name ty v
      | TPubURI \<Rightarrow> set_plain env name ty v
      | TUUID \<Rightarrow> set_plain env name ty v
      | _ \<Rightarrow> set_list env name ty v)"

definition set_value :: "pyenv \<Rightarrow> property \<Rightarrow> pyval \<Rightarrow> cfg_exn + property" where
  "set_value env p v =
     sbind (new_value env (p_name p) (p_type p) (mapped (p_map p) v)) (\<lambda>w. Inr (p\<lparr>p_value := w\<rparr>))"

definition default_value :: "ptype \<Rightarrow> pyval" where
  "default_value ty = (case ty of TBool \<Rightarrow> PBool False | TInt lo hi \<Rightarrow> PInt 0 | TVersion \<Rightarrow> PStr ''0'' | _ \<Rightarrow> PStr [])"

text \<open>The initial value is set before there is a map of values.\<close>

definition property_init :: "pyenv \<Rightarrow> string \<Rightarrow> ptype \<Rightarrow> pyval \<Rightarrow> (string \<times> pyval) list \<Rightarrow> cfg_exn + property" where
  "property_init env name ty init vmap =
     (if \<not> cfg_name_ok name then Inl (InvalidPropertyNameError name)
      else sbind (new_value env name ty init) (\<lambda>w.
        Inr \<lparr>p_name = name, p_type = ty, p_value = w, p_map = vmap\<rparr>))"

text \<open>
  \<open>__copy__\<close> constructs a property with the value and the map only; bounds and allowed values are set
  afterwards.
\<close>

definition bare_type :: "ptype \<Rightarrow> ptype" where
  "bare_type ty =
     (case ty of TInt lo hi \<Rightarrow> TInt (Some 0) None | TDefined al \<Rightarrow> TDefined [] | TList al \<Rightarrow> TList [] | TDictList al \<Rightarrow> TDictList []
      | TSimpleList al \<Rightarrow> TSimpleList [] | TSimplePubURIList al \<Rightarrow> TSimplePubURIList [] | TPubURIList al \<Rightarrow> TPubURIList []
      | TPubURIDictList al \<Rightarrow> TPubURIDictList [] | _ \<Rightarrow> ty)"

definition copy_property :: "pyenv \<Rightarrow> property \<Rightarrow> cfg_exn + property" where
  "copy_property env p =
     sbind (property_init env (p_name p) (bare_type (p_type p)) (p_value p) (p_map p)) (\<lambda>q. Inr (q\<lparr>p_type := p_type p\<rparr>))"

text \<open>The text of a property.\<close>

definition str_of :: "pyval \<Rightarrow> string" where
  "str_of v = (case v of PStr s \<Rightarrow> s | _ \<Rightarrow> [])"

definition property_str :: "pyenv \<Rightarrow> property \<Rightarrow> string" where
  "property_str env p =
     (case (p_type p, p_value p) of
        (TVersion, PVer w) \<Rightarrow> get_short_version w
      | (TSimpleList al, PList l) \<Rightarrow> join_with CHR '','' (map str_of l)
      | (TSimplePubURIList al, PList l) \<Rightarrow> join_with CHR '','' (map str_of l)
      | (_, PStr s) \<Rightarrow> s
      | (_, PBool b) \<Rightarrow> bool_text b
      | (_, PInt i) \<Rightarrow> int_text i
      | (_, POther s) \<Rightarrow> s
      | (_, v) \<Rightarrow> py_repr env v)"

section \<open>What values are\<close>

definition strings_in :: "pyval list \<Rightarrow> string list option" where
  "strings_in l = those (map (\<lambda>v. case v of PStr s \<Rightarrow> Some s | _ \<Rightarrow> None) l)"

definition well_typed :: "pyenv \<Rightarrow> ptype \<Rightarrow> pyval \<Rightarrow> bool" where
  "well_typed env ty v =
     (case ty of
        TBool \<Rightarrow> \<exists>b. v = PBool b
      | TInt lo hi \<Rightarrow> \<exists>i. v = PInt i \<and> (\<forall>l. lo = Some l \<longrightarrow> l \<le> i) \<and> (\<forall>h. hi = Some h \<longrightarrow> i \<le> h)
      | TPublisher \<Rightarrow> \<exists>s. v = PStr s \<and> (s = [] \<or> valid_pub_prefix s)
      | TVersion \<Rightarrow> \<exists>w. v = PVer w
      | TProperty \<Rightarrow> \<exists>s. v = PStr s
      | TDefined al \<Rightarrow> \<exists>s. v = PStr s \<and> allows al s
      | TPubURI \<Rightarrow> \<exists>s. v = PStr s \<and> (s = [] \<or> valid_pub_url env s = Inr True)
      | TUUID \<Rightarrow> (\<exists>s. v = PStr s \<and> (s = [] \<or> is_uuid env s)) \<or> (\<exists>s. v = POther s \<and> is_uuid env s)
      | TDictList al \<Rightarrow> \<exists>ds. v = PList (map PDict ds) \<and> (al \<noteq> [] \<and> PStr [] \<notin> set al \<longrightarrow> ds \<noteq> [])
           \<and> (\<forall>d \<in> set ds. \<forall>(k, x) \<in> set d. truthy x \<or> x = PStr [])
      | TPubURIDictList al \<Rightarrow> \<exists>ds. v = PList (map PDict ds) \<and> (al \<noteq> [] \<and> PStr [] \<notin> set al \<longrightarrow> ds \<noteq> [])
           \<and> (\<forall>d \<in> set ds. \<forall>(k, x) \<in> set d. truthy x \<or> x = PStr [])
           \<and> (\<forall>d \<in> set ds. \<exists>s. dict_get ''uri'' d = Some (PStr s) \<and> valid_pub_url env s = Inr True)
      | _ \<Rightarrow> \<exists>ss. v = PList (map PStr ss) \<and> (\<forall>s \<in> set ss. allowed_str env ty s = Inr True)
           \<and> (allowed_list ty \<noteq> [] \<and> [] \<notin> set (allowed_list ty) \<longrightarrow> ss \<noteq> []))"

lemma require_Inr [simp]: "require name r = Inr u \<longleftrightarrow> r = Inr True"
  by (cases r) (auto simp: require_def bad_value_def)

lemma bad_value_not_Inr [simp]: "bad_value name \<noteq> Inr v"
  by (simp add: bad_value_def)

lemma set_plain_typed: "set_plain env name ty v = Inr w \<Longrightarrow>
    (\<exists>s. w = PStr s \<and> allowed_str env ty s = Inr True) \<or> ty = TUUID \<and> (\<exists>s. w = POther s \<and> is_uuid env s)"
  by (auto simp: set_plain_def Let_def sbind_eq_Inr split: pyval.splits ptype.splits if_splits option.splits)

lemma all_allowed_Inr: "all_allowed name f xs = Inr u \<longleftrightarrow> (\<forall>x \<in> set xs. f x = Inr True)"
  by (induction xs) (auto simp: sbind_eq_Inr)

lemma smap_Inr_iff: "smap f xs = Inr ys \<longleftrightarrow> list_all2 (\<lambda>x y. f x = Inr y) xs ys"
  by (induction xs arbitrary: ys) (auto simp: sbind_eq_Inr list_all2_Cons1)

lemma set_list_typed:
  assumes "set_list env name ty v = Inr w"
  shows "\<exists>ss. w = PList (map PStr ss) \<and> (\<forall>s \<in> set ss. allowed_str env ty s = Inr True)
    \<and> (allowed_list ty \<noteq> [] \<and> [] \<notin> set (allowed_list ty) \<longrightarrow> ss \<noteq> [])"
proof -
  obtain l nl where nl: "smap (\<lambda>x. sbind (list_text name x) (\<lambda>s. sbind (require name (allowed_str env ty s)) (\<lambda>_. Inr s))) l = Inr nl"
    and w: "w = PList (map PStr nl)" "allowed_list ty \<noteq> [] \<and> [] \<notin> set (allowed_list ty) \<longrightarrow> nl \<noteq> []"
  proof -
    obtain l nl where "smap (\<lambda>x. sbind (list_text name x) (\<lambda>s. sbind (require name (allowed_str env ty s)) (\<lambda>_. Inr s))) l = Inr nl"
      "(if allowed_list ty \<noteq> [] \<and> [] \<notin> set (allowed_list ty) \<and> nl = [] then bad_value name else Inr (PList (map PStr nl))) = Inr w"
      using assms unfolding set_list_def sbind_eq_Inr [of _ "\<lambda>l. sbind (smap _ l) _"] sbind_eq_Inr [of "smap _ _"] by blast
    then show ?thesis using that by (auto split: if_splits)
  qed
  have "allowed_str env ty s = Inr True" if "s \<in> set nl" for s
    using nl that unfolding smap_Inr_iff by (induction rule: list_all2_induct) (auto simp: sbind_eq_Inr)
  then show ?thesis using w by blast
qed

lemma dict_list_map: "(\<forall>x \<in> set l. is_dict x) \<Longrightarrow> \<exists>ds. map fill_dict l = map PDict ds \<and> length ds = length l
    \<and> (\<forall>d \<in> set ds. \<exists>e. PDict e \<in> set l \<and> d = map (\<lambda>(k, x). (k, if truthy x then x else PStr [])) e)"
proof (induction l)
  case (Cons x l)
  obtain d where d: "x = PDict d" using Cons.prems by (cases x) (auto simp: is_dict_def)
  obtain ds where "map fill_dict l = map PDict ds" "length ds = length l"
    "\<forall>d \<in> set ds. \<exists>e. PDict e \<in> set l \<and> d = map (\<lambda>(k, x). (k, if truthy x then x else PStr [])) e" using Cons by auto
  then show ?case by (intro exI [of _ "map (\<lambda>(k, x). (k, if truthy x then x else PStr [])) d # ds"]) (auto simp: d fill_dict_def [of "PDict d"])
qed simp

lemma dict_get_fill: "dict_get k (map (\<lambda>(k, x). (k, f x)) d) = map_option f (dict_get k d)"
  by (simp add: dict_get_def map_of_map)

lemma set_dict_list_typed:
  assumes "set_dict_list env name uris al v = Inr w"
  shows "\<exists>ds. w = PList (map PDict ds) \<and> (al \<noteq> [] \<and> PStr [] \<notin> set al \<longrightarrow> ds \<noteq> [])
    \<and> (\<forall>d \<in> set ds. \<forall>(k, x) \<in> set d. truthy x \<or> x = PStr [])
    \<and> (uris \<longrightarrow> (\<forall>d \<in> set ds. \<exists>s. dict_get ''uri'' d = Some (PStr s) \<and> valid_pub_url env s = Inr True))"
proof -
  obtain l where l: "\<forall>x \<in> set l. is_dict x" "uris \<longrightarrow> (\<forall>x \<in> set l. uri_dict env x = Inr True)"
    "al \<noteq> [] \<and> PStr [] \<notin> set al \<longrightarrow> l \<noteq> []" "w = PList (map fill_dict l)"
    using assms unfolding set_dict_list_def sbind_eq_Inr all_allowed_Inr by (auto split: if_splits simp: all_allowed_Inr)
  obtain ds where ds: "map fill_dict l = map PDict ds" "length ds = length l"
    "\<forall>d \<in> set ds. \<exists>e. PDict e \<in> set l \<and> d = map (\<lambda>(k, x). (k, if truthy x then x else PStr [])) e"
    using dict_list_map [OF l(1)] by blast
  have "\<exists>s. dict_get ''uri'' d = Some (PStr s) \<and> valid_pub_url env s = Inr True" if u: "uris" and d: "d \<in> set ds" for d
  proof -
    obtain e where e: "PDict e \<in> set l" "d = map (\<lambda>(k, x). (k, if truthy x then x else PStr [])) e" using ds(3) d by blast
    have "uri_dict env (PDict e) = Inr True" using l(2) u e(1) by blast
    then obtain s where s: "dict_get ''uri'' e = Some (PStr s)" "valid_pub_url env s = Inr True"
      by (auto simp: uri_dict_def split: option.splits pyval.splits if_splits)
    then have "s \<noteq> []" by (auto simp: valid_pub_url_def)
    then show ?thesis using s by (auto simp: e(2) dict_get_fill)
  qed
  moreover have "\<forall>(k, x) \<in> set d. truthy x \<or> x = PStr []" if d: "d \<in> set ds" for d
  proof -
    obtain e where e: "d = map (\<lambda>(k, x). (k, if truthy x then x else PStr [])) e" using ds(3) d by blast
    show ?thesis unfolding e by (auto split: if_splits)
  qed
  moreover have "w = PList (map PDict ds)" "al \<noteq> [] \<and> PStr [] \<notin> set al \<longrightarrow> ds \<noteq> []"
    using l(3, 4) ds(1, 2) by auto
  ultimately show ?thesis by (intro exI [of _ ds] conjI) blast+
qed

text \<open>A value that a setter accepts is of the property's class.\<close>

lemma new_value_typed: "new_value env name ty v = Inr w \<Longrightarrow> well_typed env ty w"
proof (cases ty)
  case TBool
  then show "new_value env name ty v = Inr w \<Longrightarrow> ?thesis"
    by (auto simp: new_value_def well_typed_def set_bool_def split: if_splits pyval.splits)
next
  case (TInt lo hi)
  then show "new_value env name ty v = Inr w \<Longrightarrow> ?thesis"
    by (auto simp: new_value_def well_typed_def set_int_def Let_def split: option.splits if_splits)
next
  case TPublisher
  then show "new_value env name ty v = Inr w \<Longrightarrow> ?thesis"
    by (auto simp: new_value_def well_typed_def set_pub_prefix_def split: if_splits pyval.splits)
next
  case TVersion
  then show "new_value env name ty v = Inr w \<Longrightarrow> ?thesis"
    by (auto simp: new_value_def well_typed_def set_version_def split: if_splits pyval.splits sum.splits)
next
  case (TDictList al)
  then show "new_value env name ty v = Inr w \<Longrightarrow> ?thesis"
    using set_dict_list_typed [of env name False al v w] by (simp add: new_value_def well_typed_def)
next
  case (TPubURIDictList al)
  then show "new_value env name ty v = Inr w \<Longrightarrow> ?thesis"
    using set_dict_list_typed [of env name True al v w] by (simp add: new_value_def well_typed_def)
qed (use set_list_typed [of env name ty v w] set_plain_typed [of env name ty v w] in
      \<open>auto simp: new_value_def well_typed_def allowed_str_def split: if_splits\<close>)

definition property_ok :: "pyenv \<Rightarrow> property \<Rightarrow> bool" where
  "property_ok env p \<longleftrightarrow> cfg_name_ok (p_name p) \<and> well_typed env (p_type p) (p_value p)"

lemma set_value_ok:
  "property_ok env p \<Longrightarrow> set_value env p v = Inr q \<Longrightarrow> property_ok env q \<and> p_name q = p_name p \<and> p_type q = p_type p \<and> p_map q = p_map p"
  by (auto simp: set_value_def property_ok_def sbind_eq_Inr dest: new_value_typed)

lemma strings_same: "(\<forall>s \<in> set ss. allowed_str env ty s = Inr True) \<Longrightarrow>
    smap (\<lambda>x. sbind (list_text name x) (\<lambda>s. sbind (require name (allowed_str env ty s)) (\<lambda>_. Inr s))) (map PStr ss) = Inr ss"
  by (induction ss) (auto simp: list_text_def require_def)

lemma allowed_bare: "allowed_str env ty s = Inr True \<Longrightarrow> allowed_str env (bare_type ty) s = Inr True"
  by (cases ty) (auto simp: allowed_str_def bare_type_def allows_def split: if_splits)

text \<open>
  A copy has the same name, class, value and map, but an integer below zero cannot be copied.
\<close>

definition copyable :: "property \<Rightarrow> bool" where
  "copyable p \<longleftrightarrow> (case (p_type p, p_value p) of (TInt lo hi, PInt i) \<Rightarrow> 0 \<le> i | _ \<Rightarrow> True)"

lemma set_list_bare:
  assumes "\<forall>s \<in> set ss. allowed_str env ty s = Inr True"
  shows "set_list env name (bare_type ty) (PList (map PStr ss)) = Inr (PList (map PStr ss))"
proof -
  have "allowed_list (bare_type ty) = []" by (cases ty) (simp_all add: allowed_list_def bare_type_def)
  moreover have "\<forall>s \<in> set ss. allowed_str env (bare_type ty) s = Inr True" using assms allowed_bare by blast
  ultimately show ?thesis by (simp add: set_list_def no_value_def strings_same)
qed

lemma fill_same: "\<forall>(k, x) \<in> set d. truthy x \<or> x = PStr [] \<Longrightarrow> map (\<lambda>(k, x). (k, if truthy x then x else PStr [])) d = d"
  by (induction d) auto

lemma set_dicts_bare:
  assumes "\<forall>d \<in> set ds. \<forall>(k, x) \<in> set d. truthy x \<or> x = PStr []"
    and "uris \<Longrightarrow> \<forall>d \<in> set ds. \<exists>s. dict_get ''uri'' d = Some (PStr s) \<and> valid_pub_url env s = Inr True"
  shows "set_dict_list env name uris [] (PList (map PDict ds)) = Inr (PList (map PDict ds))"
proof -
  have "all_allowed name (\<lambda>x. Inr (is_dict x)) (map PDict ds) = Inr ()" by (simp add: all_allowed_Inr is_dict_def)
  moreover have "(if uris then all_allowed name (uri_dict env) (map PDict ds) else Inr ()) = Inr ()"
    using assms(2) by (force simp: all_allowed_Inr uri_dict_def)
  moreover have "map fill_dict (map PDict ds) = map PDict ds"
  proof -
    have "fill_dict (PDict d) = PDict d" if "d \<in> set ds" for d
      using fill_same [OF bspec [OF assms(1) that]] by (simp add: fill_dict_def)
    then show ?thesis by simp
  qed
  ultimately show ?thesis by (simp add: set_dict_list_def no_value_def)
qed

lemma copy_same:
  assumes "property_ok env p" "copyable p"
  shows "copy_property env p = Inr p"
proof -
  obtain n ty v m where p: "p = \<lparr>p_name = n, p_type = ty, p_value = v, p_map = m\<rparr>" by (cases p) auto
  have wt: "well_typed env ty v" and n: "cfg_name_ok n" using assms(1) by (simp_all add: p property_ok_def)
  have "new_value env n (bare_type ty) v = Inr v"
  proof (cases ty)
    case (TInt lo hi)
    then show ?thesis using wt assms(2)
      by (auto simp: p well_typed_def copyable_def new_value_def bare_type_def set_int_def no_value_def)
  next
    case (TDictList al)
    then show ?thesis using wt set_dicts_bare [of _ False env n]
      by (auto simp: well_typed_def new_value_def bare_type_def)
  next
    case (TPubURIDictList al)
    then show ?thesis using wt set_dicts_bare [of _ True env n]
      by (auto simp: well_typed_def new_value_def bare_type_def)
  qed (use wt set_list_bare [of _ env ty n] in
      \<open>auto simp: well_typed_def new_value_def bare_type_def set_bool_def set_pub_prefix_def set_version_def set_plain_def
        no_value_def allowed_str_def require_def allows_def Let_def\<close>)
  then show ?thesis using n by (simp add: p copy_property_def property_init_def)
qed

lemma copy_ok: "property_ok env p \<Longrightarrow> copy_property env p = Inr q \<Longrightarrow> q = p"
proof (cases "copyable p")
  case False
  assume ok: "property_ok env p" and c: "copy_property env p = Inr q"
  obtain lo hi i where "p_type p = TInt lo hi" "p_value p = PInt i" "i < 0"
    using False by (auto simp: copyable_def split: ptype.splits pyval.splits)
  then show ?thesis using c
    by (auto simp: copy_property_def property_init_def new_value_def bare_type_def set_int_def no_value_def sbind_eq_Inr split: if_splits)
qed (simp add: copy_same)

lemma property_init_ok: "property_init env name ty v m = Inr p \<Longrightarrow> property_ok env p \<and> p_name p = name \<and> p_type p = ty"
  by (auto simp: property_init_def property_ok_def sbind_eq_Inr dest: new_value_typed split: if_splits)

end
