(* ===== verification/Config_Store.thy ===== *)
theory Config_Store
  imports Config_Values
begin

text \<open>
  The configuration of \<open>config.py\<close>: templates, sections and the operations of \<open>Config\<close> and
  \<open>FileConfig\<close>.  An operation gives its result or exception together with the configuration after it,
  since some change the configuration before they fail.
\<close>

section \<open>Definitions of sections\<close>

record ptemplate =
  t_pattern :: string
  t_type :: ptype
  t_default :: "pyval option"
  t_map :: "(string \<times> pyval) list"

text \<open>\<open>PropertyTemplate.create\<close>\<close>

definition template_create :: "pyenv \<Rightarrow> ptemplate \<Rightarrow> string \<Rightarrow> cfg_exn + property" where
  "template_create env t name =
     (if \<not> re_match env (t_pattern t) name then Inl CfgAssertionError
      else property_init env name (t_type t) (case t_default t of None \<Rightarrow> default_value (t_type t) | Some v \<Rightarrow> v) (t_map t))"

datatype sitem = IProp property | ITempl ptemplate

definition item_name :: "sitem \<Rightarrow> string" where
  "item_name i = (case i of IProp p \<Rightarrow> p_name p | ITempl t \<Rightarrow> t_pattern t)"

record section_ =
  s_name :: string
  s_items :: "sitem dict"

datatype secdef = DSec section_ | DSecTempl string "sitem list"

definition section_init :: "string \<Rightarrow> sitem list \<Rightarrow> cfg_exn + section_" where
  "section_init name items =
     (if \<not> cfg_name_ok name \<or> name = ''CONFIGURATION'' then Inl (InvalidSectionNameError name)
      else Inr \<lparr>s_name = name, s_items = dput_all (map (\<lambda>i. (item_name i, i)) items) []\<rparr>)"

definition copy_item :: "pyenv \<Rightarrow> sitem \<Rightarrow> cfg_exn + sitem" where
  "copy_item env i = (case i of IProp p \<Rightarrow> sbind (copy_property env p) (\<lambda>q. Inr (IProp q)) | ITempl t \<Rightarrow> Inr (ITempl t))"

definition copy_section :: "pyenv \<Rightarrow> section_ \<Rightarrow> cfg_exn + section_" where
  "copy_section env s =
     sbind (section_init (s_name s) []) (\<lambda>s'.
     sbind (smap (copy_item env) (map snd (s_items s))) (\<lambda>is. section_init (s_name s') is))"

definition sectemplate_create :: "pyenv \<Rightarrow> string \<Rightarrow> sitem list \<Rightarrow> string \<Rightarrow> cfg_exn + section_" where
  "sectemplate_create env pat items name =
     (if \<not> re_match env pat name then Inl CfgAssertionError
      else sbind (smap (copy_item env) items) (section_init name))"

definition elide :: "section_ \<Rightarrow> section_" where
  "elide s = s\<lparr>s_items := filter (\<lambda>(n, i). case i of IProp p \<Rightarrow> True | ITempl t \<Rightarrow> False) (s_items s)\<rparr>"

section \<open>The configuration\<close>

record config =
  c_sections :: "section_ dict"
  c_defs :: "(int \<times> secdef list) list"
  c_version :: int
  c_dirty :: bool

type_synonym 'a outcome = "(cfg_exn + 'a) \<times> config"

definition cbind :: "'a outcome \<Rightarrow> ('a \<Rightarrow> config \<Rightarrow> 'b outcome) \<Rightarrow> 'b outcome" where
  "cbind r f = (case r of (Inl e, c) \<Rightarrow> (Inl e, c) | (Inr a, c) \<Rightarrow> f a c)"

definition defs_of :: "config \<Rightarrow> secdef list" where
  "defs_of c = (case map_of (c_defs c) (c_version c) of None \<Rightarrow> [] | Some ds \<Rightarrow> ds)"

definition get_section_def :: "pyenv \<Rightarrow> secdef list \<Rightarrow> string \<Rightarrow> cfg_exn + section_" where
  "get_section_def env ds name =
     (case find (\<lambda>d. case d of DSec s \<Rightarrow> s_name s = name | DSecTempl p is \<Rightarrow> False) ds of
        Some (DSec s) \<Rightarrow> copy_section env s
      | _ \<Rightarrow> (case find (\<lambda>d. case d of DSec s \<Rightarrow> False | DSecTempl p is \<Rightarrow> re_match env p name) ds of
          Some (DSecTempl p is) \<Rightarrow> sectemplate_create env p is name
        | _ \<Rightarrow> section_init name []))"

text \<open>
  A property whose name is the pattern of a template gets the template itself in the code, which is left
  out here.
\<close>

definition get_property_def :: "pyenv \<Rightarrow> section_ \<Rightarrow> string \<Rightarrow> ptype \<Rightarrow> cfg_exn + property" where
  "get_property_def env secdef name ty =
     (case dget (s_items secdef) name of
        Some (IProp p) \<Rightarrow> copy_property env p
      | Some (ITempl t) \<Rightarrow> Inl TemplateUsed
      | None \<Rightarrow>
          (case find (\<lambda>i. case i of IProp p \<Rightarrow> False | ITempl t \<Rightarrow> re_match env (t_pattern t) name) (map snd (s_items secdef)) of
             Some (ITempl t) \<Rightarrow> template_create env t name
           | _ \<Rightarrow> property_init env name ty (default_value ty) []))"

definition add_section :: "section_ \<Rightarrow> config \<Rightarrow> unit outcome" where
  "add_section s c =
     (if dget (c_sections c) (s_name s) \<noteq> None then (Inl CfgAssertionError, c)
      else (Inr (), c\<lparr>c_sections := dput (s_name s) s (c_sections c)\<rparr>))"

definition put_prop :: "string \<Rightarrow> property \<Rightarrow> config \<Rightarrow> config" where
  "put_prop sec p c =
     (case dget (c_sections c) sec of
        None \<Rightarrow> c
      | Some s \<Rightarrow> c\<lparr>c_sections := dput sec (s\<lparr>s_items := dput (p_name p) (IProp p) (s_items s)\<rparr>) (c_sections c)\<rparr>)"

definition matching_property :: "pyenv \<Rightarrow> string \<Rightarrow> string \<Rightarrow> ptype \<Rightarrow> config \<Rightarrow> property outcome" where
  "matching_property env sec name ty c =
     cbind (case dget (c_sections c) sec of
              Some s \<Rightarrow> (Inr s, c)
            | None \<Rightarrow>
                (case get_section_def env (defs_of c) sec of
                   Inl e \<Rightarrow> (Inl e, c)
                 | Inr s \<Rightarrow> cbind (add_section (elide s) c) (\<lambda>_ c. (Inr (elide s), c)))) (\<lambda>s c.
       case dget (s_items s) name of
         Some (IProp p) \<Rightarrow> (Inr p, c)
       | Some (ITempl t) \<Rightarrow> (Inl TemplateUsed, c)
       | None \<Rightarrow>
           (case sbind (get_section_def env (defs_of c) (s_name s)) (\<lambda>d. get_property_def env d name ty) of
              Inl e \<Rightarrow> (Inl e, c)
            | Inr p \<Rightarrow> (Inr p, put_prop sec p c)))"

text \<open>An exception of a property gets the section.\<close>

definition in_section :: "string \<Rightarrow> cfg_exn \<Rightarrow> cfg_exn" where
  "in_section sec e = (case e of InvalidPropertyValueError None n \<Rightarrow> InvalidPropertyValueError (Some sec) n | _ \<Rightarrow> e)"

definition assign :: "pyenv \<Rightarrow> string \<Rightarrow> property \<Rightarrow> pyval \<Rightarrow> config \<Rightarrow> unit outcome" where
  "assign env sec p v c =
     (case set_value env p v of Inl e \<Rightarrow> (Inl (in_section sec e), c) | Inr q \<Rightarrow> (Inr (), put_prop sec q c))"

definition mark_dirty :: "config \<Rightarrow> config" where
  "mark_dirty c = c\<lparr>c_dirty := True\<rparr>"

definition set_property :: "pyenv \<Rightarrow> string \<Rightarrow> string \<Rightarrow> pyval \<Rightarrow> config \<Rightarrow> unit outcome" where
  "set_property env sec name v c =
     cbind (matching_property env sec name TProperty c) (\<lambda>p c.
     cbind (assign env sec p v c) (\<lambda>_ c. (Inr (), mark_dirty c)))"

fun set_each :: "pyenv \<Rightarrow> (string \<times> string \<times> pyval) list \<Rightarrow> config \<Rightarrow> unit outcome" where
  "set_each env [] c = (Inr (), c)"
| "set_each env ((sec, name, v) # rest) c = cbind (set_property env sec name v c) (\<lambda>_. set_each env rest)"

definition flat :: "(string \<times> (string \<times> 'v) list) list \<Rightarrow> (string \<times> string \<times> 'v) list" where
  "flat props = concat (map (\<lambda>(sec, ps). map (\<lambda>(n, v). (sec, n, v)) ps) props)"

definition set_properties :: "pyenv \<Rightarrow> (string \<times> (string \<times> pyval) list) list \<Rightarrow> config \<Rightarrow> unit outcome" where
  "set_properties env props c =
     set_each env (flat (map (\<lambda>(sec, ps). (sec, sort_key fst ps)) (sort_key fst props))) c"

definition add_property_value :: "pyenv \<Rightarrow> string \<Rightarrow> string \<Rightarrow> pyval \<Rightarrow> config \<Rightarrow> unit outcome" where
  "add_property_value env sec name v c =
     cbind (matching_property env sec name (TList []) c) (\<lambda>p c.
       case p_value p of
         PList l \<Rightarrow> cbind (assign env sec p (PList (l @ [v])) c) (\<lambda>_ c. (Inr (), mark_dirty c))
       | _ \<Rightarrow> (Inl (PropertyMultiValueError sec name), c))"

definition find_property :: "string \<Rightarrow> string \<Rightarrow> config \<Rightarrow> cfg_exn + property" where
  "find_property sec name c =
     (case dget (c_sections c) sec of
        None \<Rightarrow> Inl (UnknownPropertyError (Some sec) name)
      | Some s \<Rightarrow> (case dget (s_items s) name of
          None \<Rightarrow> Inl (UnknownPropertyError (Some sec) name) | Some (ITempl t) \<Rightarrow> Inl TemplateUsed | Some (IProp p) \<Rightarrow> Inr p))"

definition get_property :: "string \<Rightarrow> string \<Rightarrow> config \<Rightarrow> cfg_exn + pyval" where
  "get_property sec name c = sbind (find_property sec name c) (\<lambda>p. Inr (p_value p))"

text \<open>The first equal value is removed; two dictionaries are equal in any order of their entries.\<close>

fun remove_value :: "pyval \<Rightarrow> pyval list \<Rightarrow> pyval list option" where
  "remove_value v [] = None"
| "remove_value v (x # xs) =
     (if x = v \<or> same_dict x v then Some xs else map_option (\<lambda>ys. x # ys) (remove_value v xs))"

definition remove_property_value :: "pyenv \<Rightarrow> string \<Rightarrow> string \<Rightarrow> pyval \<Rightarrow> config \<Rightarrow> unit outcome" where
  "remove_property_value env sec name v c =
     (case find_property sec name c of
        Inl e \<Rightarrow> (Inl e, c)
      | Inr p \<Rightarrow> (case p_value p of
          PList l \<Rightarrow>
            (case remove_value v l of
               None \<Rightarrow> (Inl (UnknownPropertyValueError sec name), c)
             | Some l' \<Rightarrow> cbind (assign env sec p (PList l') c) (\<lambda>_ c. (Inr (), mark_dirty c)))
        | _ \<Rightarrow> (Inl (PropertyMultiValueError sec name), c)))"

definition remove_property :: "string \<Rightarrow> string \<Rightarrow> config \<Rightarrow> unit outcome" where
  "remove_property sec name c =
     (case dget (c_sections c) sec of
        None \<Rightarrow> (Inl (UnknownPropertyError (Some sec) name), c)
      | Some s \<Rightarrow>
          if dget (s_items s) name = None then (Inl (UnknownPropertyError (Some sec) name), c)
          else (Inr (), mark_dirty (c\<lparr>c_sections := dput sec (s\<lparr>s_items := ddel name (s_items s)\<rparr>) (c_sections c)\<rparr>)))"

definition remove_section :: "string \<Rightarrow> config \<Rightarrow> unit outcome" where
  "remove_section sec c =
     (if dget (c_sections c) sec = None then (Inl (UnknownSectionError sec), c)
      else (Inr (), mark_dirty (c\<lparr>c_sections := ddel sec (c_sections c)\<rparr>)))"

fun add_defs :: "pyenv \<Rightarrow> secdef list \<Rightarrow> config \<Rightarrow> unit outcome" where
  "add_defs env [] c = (Inr (), c)"
| "add_defs env (DSecTempl p is # ds) c = add_defs env ds c"
| "add_defs env (DSec s # ds) c =
     (case copy_section env s of
        Inl e \<Rightarrow> (Inl e, c) | Inr s' \<Rightarrow> cbind (add_section (elide s') c) (\<lambda>_. add_defs env ds))"

type_synonym overrides = "(string \<times> (string \<times> pyval) list) list"

definition config_reset :: "pyenv \<Rightarrow> overrides \<Rightarrow> config \<Rightarrow> unit outcome" where
  "config_reset env over c =
     cbind (add_defs env (defs_of c) (c\<lparr>c_dirty := True, c_sections := []\<rparr>)) (\<lambda>_. set_each env (flat over))"

definition pick_version :: "(int \<times> secdef list) list \<Rightarrow> int option \<Rightarrow> int" where
  "pick_version defs version =
     (case version of Some v \<Rightarrow> v | None \<Rightarrow> if defs = [] then 0 else Max (set (map fst defs)))"

definition config_new :: "(int \<times> secdef list) list \<Rightarrow> int option \<Rightarrow> config" where
  "config_new defs version =
     \<lparr>c_sections = [], c_defs = defs, c_version = pick_version defs version, c_dirty = False\<rparr>"

definition config_init :: "pyenv \<Rightarrow> (int \<times> secdef list) list \<Rightarrow> overrides \<Rightarrow> int option \<Rightarrow> unit outcome" where
  "config_init env defs over version = config_reset env over (config_new defs version)"

definition properties_of :: "section_ \<Rightarrow> property list" where
  "properties_of s = List.map_filter (\<lambda>(n, i). case i of IProp p \<Rightarrow> Some p | ITempl t \<Rightarrow> None) (s_items s)"

definition get_index :: "config \<Rightarrow> (string \<times> (string \<times> pyval) list) list" where
  "get_index c = map (\<lambda>(n, s). (n, map (\<lambda>p. (p_name p, p_value p)) (properties_of s))) (c_sections c)"

definition config_str :: "pyenv \<Rightarrow> config \<Rightarrow> string" where
  "config_str env c =
     concat (map (\<lambda>(n, s). ''['' @ n @ '']'' @ [char_of (10 :: nat)]
       @ concat (map (\<lambda>p. p_name p @ '' = '' @ property_str env p @ [char_of (10 :: nat)]) (properties_of s))
       @ [char_of (10 :: nat)]) (c_sections c))"

section \<open>Files\<close>

text \<open>
  What \<open>ConfigParser\<close> reads from a text and writes to it: sections with options and values.  \<open>FileText\<close>
  has the text of a file that can be read.  The parser raises \<open>ParsingError\<close> or
  \<open>MissingSectionHeaderError\<close> (\<open>Malformed\<close>), or another exception, as for a section or an option that
  is there twice or for bytes that are no text (\<open>OtherParserError\<close>): those \<open>__read\<close> lets pass.
\<close>

type_synonym cpdata = "(string \<times> (string \<times> string) list) list"

datatype 't cfile = NoConfigFile | NoAccess | FileText 't

datatype cp_exn = Malformed | OtherParserError

record 't parser =
  parse_cp :: "'t \<Rightarrow> cp_exn + cpdata"
  render_cp :: "cpdata \<Rightarrow> 't"

definition file_version :: "cpdata \<Rightarrow> int option" where
  "file_version d =
     (case dget d ''CONFIGURATION'' of None \<Rightarrow> None
      | Some os \<Rightarrow> (case dget os ''version'' of None \<Rightarrow> None | Some s \<Rightarrow> py_int s))"

text \<open>The values of the file, but not those that are overridden, are set on matching properties.\<close>

fun load_values :: "pyenv \<Rightarrow> overrides \<Rightarrow> (string \<times> string \<times> string) list \<Rightarrow> config \<Rightarrow> unit outcome" where
  "load_values env over [] c = (Inr (), c)"
| "load_values env over ((sec, name, s) # rest) c =
     (if (case dget over sec of None \<Rightarrow> False | Some ps \<Rightarrow> dget ps name \<noteq> None) then load_values env over rest c
      else
        cbind (matching_property env sec name TProperty c) (\<lambda>p c.
        cbind (assign env sec p (PStr s) c) (\<lambda>_. load_values env over rest)))"

definition read_config :: "pyenv \<Rightarrow> 't parser \<Rightarrow> 't cfile \<Rightarrow> overrides \<Rightarrow> config \<Rightarrow> unit outcome" where
  "read_config env ps file over c =
     (let load = (\<lambda>d c. cbind (config_reset env over c) (\<lambda>_.
            load_values env over (flat (filter (\<lambda>(sec, os). sec \<noteq> ''CONFIGURATION'') d))))
      in case file of
           NoConfigFile \<Rightarrow> load [] c
         | NoAccess \<Rightarrow> (Inl PermissionsException, c)
         | FileText t \<Rightarrow> (case parse_cp ps t of
             Inl Malformed \<Rightarrow> (Inl InvalidConfigFile, c)
           | Inl OtherParserError \<Rightarrow> (Inl ParserError, c)
           | Inr d \<Rightarrow> load d (case file_version d of None \<Rightarrow> c | Some v \<Rightarrow> c\<lparr>c_version := v\<rparr>)))"

definition file_reset :: "pyenv \<Rightarrow> 't parser \<Rightarrow> 't cfile \<Rightarrow> overrides \<Rightarrow> config \<Rightarrow> unit outcome" where
  "file_reset env ps file over c =
     cbind (read_config env ps file over c) (\<lambda>_ c. (Inr (), if over = [] then c\<lparr>c_dirty := False\<rparr> else c))"

definition file_config_init ::
  "pyenv \<Rightarrow> 't parser \<Rightarrow> 't cfile \<Rightarrow> (int \<times> secdef list) list \<Rightarrow> overrides \<Rightarrow> int option \<Rightarrow> unit outcome" where
  "file_config_init env ps file defs over version = file_reset env ps file over (config_new defs version)"

definition config_data :: "pyenv \<Rightarrow> config \<Rightarrow> cpdata" where
  "config_data env c =
     map (\<lambda>(n, s). (n, map (\<lambda>p. (p_name p, property_str env p)) (properties_of s))) (c_sections c)
     @ [(''CONFIGURATION'', [(''version'', int_text (c_version c))])]"

text \<open>\<open>target\<close> is what the file system allows; \<open>ConfigParser\<close> takes no section \<open>DEFAULT\<close>.\<close>

datatype target = Writable | Denied | ReadOnly

definition write_config :: "pyenv \<Rightarrow> 't parser \<Rightarrow> target \<Rightarrow> 't cfile \<Rightarrow> config \<Rightarrow> (cfg_exn + 't cfile) \<times> config" where
  "write_config env ps tg file c =
     (if file \<noteq> NoConfigFile \<and> \<not> c_dirty c then (Inr file, c)
      else if dget (c_sections c) ''DEFAULT'' \<noteq> None then (Inl CfgValueError, c)
      else (case tg of
          Denied \<Rightarrow> (Inl PermissionsException, c)
        | ReadOnly \<Rightarrow> (Inl ReadOnlyFileSystemException, c)
        | Writable \<Rightarrow> (Inr (FileText (render_cp ps (config_data env c))), c\<lparr>c_dirty := False\<rparr>)))"

end
