(* ===== verification/Config_Facts.thy ===== *)
theory Config_Facts
  imports Config_Store
begin

text \<open>
  The invariant of a configuration and the facts about what each operation does to it: the definitions
  give sections and properties of their classes, copies are the same, every property that a section holds
  has the class its definition gives.
\<close>

section \<open>Definitions\<close>

definition items_ok :: "pyenv \<Rightarrow> sitem list \<Rightarrow> bool" where
  "items_ok env is \<longleftrightarrow> (\<forall>i \<in> set is. case i of IProp p \<Rightarrow> property_ok env p | ITempl t \<Rightarrow> True)"

definition keyed :: "section_ \<Rightarrow> bool" where
  "keyed s \<longleftrightarrow> dict_ok (s_items s) \<and> list_all (\<lambda>(n, i). n = item_name i) (s_items s)"

definition section_name_ok :: "string \<Rightarrow> bool" where
  "section_name_ok n \<longleftrightarrow> cfg_name_ok n \<and> n \<noteq> ''CONFIGURATION''"

definition defs_ok :: "pyenv \<Rightarrow> secdef list \<Rightarrow> bool" where
  "defs_ok env ds \<longleftrightarrow>
     (\<forall>d \<in> set ds. case d of
        DSec s \<Rightarrow> section_name_ok (s_name s) \<and> keyed s \<and> items_ok env (map snd (s_items s))
      | DSecTempl p is \<Rightarrow> items_ok env is)"

text \<open>A section that was just made from its definition: its items can all be copied.\<close>

definition fresh_section :: "pyenv \<Rightarrow> section_ \<Rightarrow> bool" where
  "fresh_section env s \<longleftrightarrow> section_name_ok (s_name s) \<and> keyed s \<and>
     (\<forall>i \<in> set (map snd (s_items s)). case i of IProp p \<Rightarrow> property_ok env p \<and> copy_property env p = Inr p | ITempl t \<Rightarrow> True)"

lemma copies_same: "items_ok env is \<Longrightarrow> smap (copy_item env) is = Inr js \<Longrightarrow> js = is
    \<and> (\<forall>i \<in> set is. case i of IProp p \<Rightarrow> property_ok env p \<and> copy_property env p = Inr p | ITempl t \<Rightarrow> True)"
proof (induction "is" arbitrary: js)
  case (Cons i "is")
  obtain j js' where j: "copy_item env i = Inr j" "smap (copy_item env) is = Inr js'" "js = j # js'"
    using Cons.prems(2) by (auto simp: sbind_eq_Inr)
  have "items_ok env is" "case i of IProp p \<Rightarrow> property_ok env p | ITempl t \<Rightarrow> True"
    using Cons.prems(1) by (simp_all add: items_ok_def)
  then show ?case using Cons.IH [OF _ j(2)] j(1, 3)
    by (auto simp: copy_item_def sbind_eq_Inr dest: copy_ok split: sitem.splits)
qed simp

lemma keyed_map: "keyed s \<Longrightarrow> map (\<lambda>i. (item_name i, i)) (map snd (s_items s)) = s_items s"
  by (auto simp: keyed_def list_all_iff intro!: map_idI)

lemma section_init_Inr: "section_init n is = Inr s \<longleftrightarrow>
    section_name_ok n \<and> s = \<lparr>s_name = n, s_items = dput_all (map (\<lambda>i. (item_name i, i)) is) []\<rparr>"
  by (auto simp: section_init_def section_name_ok_def)

lemma copy_section_same:
  assumes "keyed s" "items_ok env (map snd (s_items s))" "copy_section env s = Inr s'"
  shows "s' = s \<and> fresh_section env s"
proof -
  obtain js where js: "smap (copy_item env) (map snd (s_items s)) = Inr js" "section_name_ok (s_name s)"
    "s' = \<lparr>s_name = s_name s, s_items = dput_all (map (\<lambda>i. (item_name i, i)) js) []\<rparr>"
    using assms(3) by (auto simp: copy_section_def sbind_eq_Inr section_init_Inr)
  have c: "js = map snd (s_items s)"
    "\<forall>i \<in> set (map snd (s_items s)). case i of IProp p \<Rightarrow> property_ok env p \<and> copy_property env p = Inr p | ITempl t \<Rightarrow> True"
    using copies_same [OF assms(2) js(1)] by auto
  have "s_items s' = s_items s"
    using keyed_map [OF assms(1)] assms(1) unfolding js(3) c(1) by (simp add: dput_all_self keyed_def)
  then have "s' = s" using js(3) by (cases s) auto
  then show ?thesis using c(2) assms(1) js(2) by (simp add: fresh_section_def)
qed

lemma put_all_set: "set (dput_all kvs d) \<subseteq> set kvs \<union> set d"
proof (induction kvs arbitrary: d)
  case (Cons x kvs)
  obtain k v where x: "x = (k, v)" by (cases x)
  have "set (dput k v d) \<subseteq> insert (k, v) (set d)"
    unfolding dput_def by (induction d) auto
  then show ?case using Cons.IH [of "dput k v d"] by (auto simp: dput_all_def x)
qed (simp add: dput_all_def)

lemma section_init_fresh:
  assumes "section_init n is = Inr s" "list_all (\<lambda>i. case i of IProp p \<Rightarrow> property_ok env p \<and> copy_property env p = Inr p | ITempl t \<Rightarrow> True) is"
  shows "fresh_section env s \<and> s_name s = n"
proof -
  have s: "section_name_ok n" "s_name s = n" "s_items s = dput_all (map (\<lambda>i. (item_name i, i)) is) []"
    using assms(1) by (auto simp: section_init_Inr)
  have sub: "set (s_items s) \<subseteq> (\<lambda>i. (item_name i, i)) ` set is" using put_all_set [of _ "[]"] unfolding s(3) by fastforce
  have "keyed s" using sub dict_ok_put_all [of "[]"] by (auto simp: keyed_def s(3) list_all_iff)
  then show ?thesis using s(1, 2) sub assms(2) by (fastforce simp: fresh_section_def list_all_iff)
qed

lemma section_def_fresh:
  assumes "defs_ok env ds" "get_section_def env ds sec = Inr d"
  shows "fresh_section env d \<and> s_name d = sec"
proof (cases "find (\<lambda>d. case d of DSec s \<Rightarrow> s_name s = sec | DSecTempl p is \<Rightarrow> False) ds")
  case (Some d')
  then have d': "d' \<in> set ds" "case d' of DSec s \<Rightarrow> s_name s = sec | DSecTempl p is \<Rightarrow> False" by (auto simp: find_Some_iff)
  then obtain s where s: "d' = DSec s" "s_name s = sec" by (auto split: secdef.splits)
  have "keyed s" "items_ok env (map snd (s_items s))" using assms(1) d'(1) by (force simp: defs_ok_def s)+
  then show ?thesis using copy_section_same [of s env d] assms(2) s by (simp add: get_section_def_def Some)
next
  case outer: None
  show ?thesis
  proof (cases "find (\<lambda>d. case d of DSec s \<Rightarrow> False | DSecTempl p is \<Rightarrow> re_match env p sec) ds")
    case None
    then show ?thesis using assms(2) outer section_init_fresh [of sec "[]" d env] by (simp add: get_section_def_def None)
  next
    case (Some d')
    then have d': "d' \<in> set ds" "case d' of DSec s \<Rightarrow> False | DSecTempl p is \<Rightarrow> re_match env p sec" by (auto simp: find_Some_iff)
    then obtain p ts where s: "d' = DSecTempl p ts" "re_match env p sec" by (auto split: secdef.splits)
    have ok: "items_ok env ts" using assms(1) d'(1) by (force simp: defs_ok_def s)
    obtain js where js: "smap (copy_item env) ts = Inr js" "section_init sec js = Inr d"
      using assms(2) by (auto simp: get_section_def_def outer Some s sectemplate_create_def sbind_eq_Inr)
    then show ?thesis using copies_same [OF ok js(1)] section_init_fresh [OF js(2), of env] by (simp add: list_all_iff)
  qed
qed

lemma fresh_item: "fresh_section env d \<Longrightarrow> dget (s_items d) n = Some (IProp p) \<Longrightarrow>
    p_name p = n \<and> property_ok env p \<and> copy_property env p = Inr p"
  by (force simp: fresh_section_def keyed_def list_all_iff item_name_def dget_Some_mem)

lemma property_def_ok: "fresh_section env d \<Longrightarrow> get_property_def env d n ty = Inr p \<Longrightarrow> property_ok env p \<and> p_name p = n"
  by (auto simp: get_property_def_def template_create_def dest: fresh_item property_init_ok
      split: option.splits sitem.splits if_splits)

section \<open>The invariant\<close>

text \<open>
  A property fits when it is of its class and has the class and map of the property that the definitions
  give for its name, or of one of the default classes when they give none.
\<close>

definition fits :: "pyenv \<Rightarrow> secdef list \<Rightarrow> ptype set \<Rightarrow> string \<Rightarrow> property \<Rightarrow> bool" where
  "fits env ds tys sec p \<longleftrightarrow> property_ok env p \<and>
     (\<exists>ty \<in> tys. \<exists>d q. get_section_def env ds sec = Inr d \<and> get_property_def env d (p_name p) ty = Inr q
       \<and> p_type p = p_type q \<and> p_map p = p_map q)"

definition sec_fits :: "pyenv \<Rightarrow> secdef list \<Rightarrow> ptype set \<Rightarrow> section_ \<Rightarrow> bool" where
  "sec_fits env ds tys s \<longleftrightarrow> section_name_ok (s_name s) \<and> dict_ok (s_items s) \<and>
     (\<forall>n i. dget (s_items s) n = Some i \<longrightarrow> (\<exists>p. i = IProp p \<and> p_name p = n \<and> fits env ds tys (s_name s) p))"

definition config_fits :: "pyenv \<Rightarrow> ptype set \<Rightarrow> config \<Rightarrow> bool" where
  "config_fits env tys c \<longleftrightarrow> dict_ok (c_sections c) \<and>
     (\<forall>n s. dget (c_sections c) n = Some s \<longrightarrow> s_name s = n \<and> sec_fits env (defs_of c) tys s)"

lemma dict_ok_filter: "dict_ok d \<Longrightarrow> dict_ok (filter P d)"
  by (simp add: dict_ok_def distinct_map_filter)

lemma elided_item: "dict_ok (s_items s) \<Longrightarrow> dget (s_items (elide s)) n = Some i \<Longrightarrow> dget (s_items s) n = Some i \<and> (\<exists>p. i = IProp p)"
  using dict_ok_filter [of "s_items s"] by (auto simp: elide_def dget_Some_mem split: sitem.splits)

lemma def_fits:
  assumes "defs_ok env ds" "get_section_def env ds sec = Inr d" "tys \<noteq> {}"
  shows "sec_fits env ds tys (elide d)"
proof -
  have f: "fresh_section env d" "s_name d = sec" using section_def_fresh [OF assms(1, 2)] by auto
  have k: "dict_ok (s_items d)" using f(1) by (simp add: fresh_section_def keyed_def)
  have "\<exists>p. i = IProp p \<and> p_name p = n \<and> fits env ds tys sec p" if i: "dget (s_items (elide d)) n = Some i" for n i
  proof -
    obtain p where p: "i = IProp p" "dget (s_items d) n = Some (IProp p)" using elided_item [OF k i] by blast
    have "get_property_def env d n ty = Inr p" for ty using fresh_item [OF f(1) p(2)] by (simp add: get_property_def_def p(2))
    then show ?thesis using fresh_item [OF f(1) p(2)] assms(2, 3) p(1) unfolding fits_def by blast
  qed
  then show ?thesis using f dict_ok_filter [OF k] by (simp add: sec_fits_def elide_def fresh_section_def)
qed

section \<open>Looking up after a change\<close>

lemma find_property_Inr: "find_property sec n c = Inr p \<longleftrightarrow>
    (\<exists>s. dget (c_sections c) sec = Some s \<and> dget (s_items s) n = Some (IProp p))"
  by (auto simp: find_property_def split: option.splits sitem.splits)

lemma defs_of_same: "c_defs c' = c_defs c \<Longrightarrow> c_version c' = c_version c \<Longrightarrow> defs_of c' = defs_of c"
  by (simp add: defs_of_def)

lemma put_prop_fields [simp]: "c_defs (put_prop sec p c) = c_defs c" "c_version (put_prop sec p c) = c_version c"
  "c_dirty (put_prop sec p c) = c_dirty c"
  by (simp_all add: put_prop_def split: option.splits)

lemma mark_dirty_fields [simp]: "c_defs (mark_dirty c) = c_defs c" "c_version (mark_dirty c) = c_version c"
  "c_sections (mark_dirty c) = c_sections c" "c_dirty (mark_dirty c)"
  by (simp_all add: mark_dirty_def)

lemma find_mark [simp]: "find_property sec n (mark_dirty c) = find_property sec n c"
  by (simp add: find_property_def)

lemma find_put:
  assumes "dget (c_sections c) sec \<noteq> None"
  shows "find_property s n (put_prop sec p c) = (if s = sec \<and> n = p_name p then Inr p else find_property s n c)"
  using assms by (auto simp: find_property_def put_prop_def pydict.get_put split: option.splits)

lemma fits_mark [simp]: "config_fits env tys (mark_dirty c) = config_fits env tys c"
  by (simp add: config_fits_def defs_of_same [of "mark_dirty c" c])

lemma put_sections:
  assumes "dget (c_sections c) sec = Some s"
  shows "c_sections (put_prop sec p c) = dput sec (s\<lparr>s_items := dput (p_name p) (IProp p) (s_items s)\<rparr>) (c_sections c)"
  by (simp add: put_prop_def assms)

lemma put_fits:
  assumes "config_fits env tys c" "dget (c_sections c) sec \<noteq> None" "fits env (defs_of c) tys sec p"
  shows "config_fits env tys (put_prop sec p c)"
proof -
  obtain s where s: "dget (c_sections c) sec = Some s" using assms(2) by blast
  let ?s = "s\<lparr>s_items := dput (p_name p) (IProp p) (s_items s)\<rparr>"
  have c: "s_name s = sec" "sec_fits env (defs_of c) tys s" "dict_ok (c_sections c)" using assms(1) s by (auto simp: config_fits_def)
  have "sec_fits env (defs_of c) tys ?s" using c(1, 2) assms(3) by (simp add: sec_fits_def pydict.get_put pydict.ok_put)
  moreover have "s_name ?s = sec" by (simp add: c(1))
  ultimately have "s_name t = n \<and> sec_fits env (defs_of c) tys t" if "dget (c_sections (put_prop sec p c)) n = Some t" for n t
    using that assms(1) unfolding put_sections [OF s] pydict.get_put config_fits_def fun_upd_apply
    by (cases "n = sec") (simp_all only: refl if_True if_False option.inject)
  moreover have "defs_of (put_prop sec p c) = defs_of c" by (rule defs_of_same) simp_all
  moreover have "dict_ok (c_sections (put_prop sec p c))" using c(3) by (simp add: put_sections [OF s] pydict.ok_put)
  ultimately show ?thesis by (simp add: config_fits_def)
qed

text \<open>The frame of an operation that only adds.\<close>

definition extends :: "config \<Rightarrow> config \<Rightarrow> bool" where
  "extends c c' \<longleftrightarrow> c_defs c' = c_defs c \<and> c_version c' = c_version c \<and>
     (\<forall>s n p. find_property s n c = Inr p \<longrightarrow> find_property s n c' = Inr p)"

lemma extends_refl [simp]: "extends c c"
  by (simp add: extends_def)

lemma extends_trans: "extends a b \<Longrightarrow> extends b c \<Longrightarrow> extends a c"
  by (simp add: extends_def)

lemma cbind_Inr: "cbind r f = (Inr b, c') \<longleftrightarrow> (\<exists>a c1. r = (Inr a, c1) \<and> f a c1 = (Inr b, c'))"
  by (cases r; cases "fst r") (auto simp: cbind_def)

lemma cbind_simps [simp]: "cbind (Inr a, c) f = f a c" "cbind (Inl e, c) f = (Inl e, c)"
  by (simp_all add: cbind_def)

lemma cbind_keeps: "P (snd r) \<Longrightarrow> (\<And>a c. r = (Inr a, c) \<Longrightarrow> P c \<Longrightarrow> P (snd (f a c))) \<Longrightarrow> P (snd (cbind r f))"
  by (cases r; cases "fst r") auto

lemma new_section_effect:
  assumes "config_fits env tys c" "defs_ok env (defs_of c)" "tys \<noteq> {}"
    and "dget (c_sections c) sec = None" "get_section_def env (defs_of c) sec = Inr s"
  shows "add_section (elide s) c = (Inr (), c\<lparr>c_sections := dput sec (elide s) (c_sections c)\<rparr>)"
    and "config_fits env tys (c\<lparr>c_sections := dput sec (elide s) (c_sections c)\<rparr>)"
    and "extends c (c\<lparr>c_sections := dput sec (elide s) (c_sections c)\<rparr>)"
    and "s_name (elide s) = sec"
proof -
  have n: "s_name (elide s) = sec" using section_def_fresh [OF assms(2, 5)] by (simp add: elide_def)
  show "s_name (elide s) = sec" by (rule n)
  show "add_section (elide s) c = (Inr (), c\<lparr>c_sections := dput sec (elide s) (c_sections c)\<rparr>)"
    using assms(4) by (simp add: add_section_def n)
  have "sec_fits env (defs_of c) tys (elide s)" by (rule def_fits [OF assms(2, 5, 3)])
  then show "config_fits env tys (c\<lparr>c_sections := dput sec (elide s) (c_sections c)\<rparr>)"
    using assms(1) n by (auto simp: config_fits_def pydict.ok_put pydict.get_put defs_of_def split: if_splits)
  show "extends c (c\<lparr>c_sections := dput sec (elide s) (c_sections c)\<rparr>)"
    using assms(4) by (auto simp: extends_def find_property_Inr pydict.get_put)
qed

section \<open>The operations keep the invariant\<close>

definition the_section :: "pyenv \<Rightarrow> string \<Rightarrow> config \<Rightarrow> section_ outcome" where
  "the_section env sec c =
     (case dget (c_sections c) sec of
        Some s \<Rightarrow> (Inr s, c)
      | None \<Rightarrow>
          (case get_section_def env (defs_of c) sec of
             Inl e \<Rightarrow> (Inl e, c)
           | Inr s \<Rightarrow> cbind (add_section (elide s) c) (\<lambda>_ c. (Inr (elide s), c))))"

lemma the_section_effect:
  assumes "config_fits env tys c" "defs_ok env (defs_of c)" "tys \<noteq> {}" "the_section env sec c = (r, c')"
  shows "config_fits env tys c' \<and> extends c c' \<and> c_dirty c' = c_dirty c \<and> (\<forall>s. r = Inr s \<longrightarrow> dget (c_sections c') sec = Some s \<and> s_name s = sec)"
proof (cases "dget (c_sections c) sec")
  case None
  show ?thesis
  proof (cases "get_section_def env (defs_of c) sec")
    case (Inl e)
    then show ?thesis using assms(1, 4) by (auto simp: the_section_def None)
  next
    case (Inr s)
    note e = new_section_effect [OF assms(1 - 3) None Inr]
    have "r = Inr (elide s)" "c' = c\<lparr>c_sections := dput sec (elide s) (c_sections c)\<rparr>"
      using assms(4) by (simp_all add: the_section_def None Inr e(1))
    then show ?thesis using e(2 - 4) by (simp add: pydict.get_put)
  qed
next
  case (Some s)
  then show ?thesis using assms(1, 4) by (auto simp: the_section_def config_fits_def)
qed

lemma matching_effect:
  assumes "config_fits env tys c" "defs_ok env (defs_of c)" "ty \<in> tys" "matching_property env sec name ty c = (r, c')"
  shows "config_fits env tys c' \<and> extends c c' \<and> c_dirty c' = c_dirty c \<and> (\<forall>p. r = Inr p \<longrightarrow> find_property sec name c' = Inr p)"
proof -
  let ?k = "\<lambda>s c. case dget (s_items s) name of
         Some (IProp p) \<Rightarrow> (Inr p, c)
       | Some (ITempl t) \<Rightarrow> (Inl TemplateUsed, c)
       | None \<Rightarrow>
           (case sbind (get_section_def env (defs_of c) (s_name s)) (\<lambda>d. get_property_def env d name ty) of
              Inl e \<Rightarrow> (Inl e, c)
            | Inr p \<Rightarrow> (Inr p, put_prop sec p c))"
  have m: "cbind (the_section env sec c) ?k = (r, c')" using assms(4) unfolding matching_property_def the_section_def .
  obtain rs c1 where s1: "the_section env sec c = (rs, c1)" by fastforce
  have e: "config_fits env tys c1" "extends c c1" "c_dirty c1 = c_dirty c"
    "\<And>s. rs = Inr s \<Longrightarrow> dget (c_sections c1) sec = Some s \<and> s_name s = sec"
    using the_section_effect [OF assms(1, 2) _ s1] assms(3) by blast+
  show ?thesis
  proof (cases rs)
    case (Inl a)
    then show ?thesis using m e(1 - 3) by (auto simp: s1)
  next
    case (Inr s)
    have s: "dget (c_sections c1) sec = Some s" "s_name s = sec" using e(4) [OF Inr] by blast+
    have f: "sec_fits env (defs_of c1) tys s" using e(1) s(1) by (simp add: config_fits_def)
    have k: "?k s c1 = (r, c')" using m by (simp add: s1 Inr)
    show ?thesis
    proof (cases "dget (s_items s) name")
      case (Some i)
      then obtain p where "i = IProp p" using f by (auto simp: sec_fits_def)
      then show ?thesis using k e(1 - 3) s(1) by (auto simp: Some find_property_Inr)
    next
      case None
      note nn = None
      show ?thesis
      proof (cases "sbind (get_section_def env (defs_of c1) sec) (\<lambda>d. get_property_def env d name ty)")
        case (Inl a)
        then show ?thesis using k e(1 - 3) s(2) by (auto simp: None)
      next
        case (Inr p)
        then obtain d where d: "get_section_def env (defs_of c1) sec = Inr d" "get_property_def env d name ty = Inr p"
          by (auto simp: sbind_eq_Inr)
        have same: "defs_of c1 = defs_of c" by (rule defs_of_same) (use e(2) in \<open>simp_all add: extends_def\<close>)
        have p: "property_ok env p" "p_name p = name"
          using property_def_ok [OF conjunct1 [OF section_def_fresh [OF assms(2)]]] d unfolding same by blast+
        have res: "r = Inr p" "c' = put_prop sec p c1" using k Inr s(2) by (simp_all add: None)
        have "fits env (defs_of c1) tys sec p" unfolding fits_def using p d assms(3) by blast
        then have "config_fits env tys c'" unfolding res(2) by (intro put_fits) (simp_all add: e(1) s(1))
        moreover have "extends c1 c'" using s(1) nn p(2) by (auto simp: res(2) extends_def find_put find_property_Inr)
        ultimately show ?thesis using e(2, 3) s(1) p(2) by (auto simp: res find_put dest: extends_trans)
      qed
    qed
  qed
qed

lemma assign_effect:
  assumes "config_fits env tys c" "find_property sec (p_name p) c = Inr p" "assign env sec p v c = (r, c')"
  shows "config_fits env tys c' \<and> c_defs c' = c_defs c \<and> c_version c' = c_version c \<and> c_dirty c' = c_dirty c
    \<and> (case r of
         Inl e \<Rightarrow> c' = c \<and> (\<exists>e'. set_value env p v = Inl e' \<and> e = in_section sec e')
       | Inr _ \<Rightarrow> \<exists>q. set_value env p v = Inr q \<and> (\<forall>s n. find_property s n c' = (if s = sec \<and> n = p_name p then Inr q else find_property s n c)))"
proof (cases "set_value env p v")
  case (Inl e)
  then show ?thesis using assms(1, 3) by (auto simp: assign_def)
next
  case (Inr q)
  obtain s where s: "dget (c_sections c) sec = Some s" "dget (s_items s) (p_name p) = Some (IProp p)"
    using assms(2) by (auto simp: find_property_Inr)
  have f: "fits env (defs_of c) tys sec p" using assms(1) s by (force simp: config_fits_def sec_fits_def)
  have q: "property_ok env q" "p_name q = p_name p" "p_type q = p_type p" "p_map q = p_map p"
    using set_value_ok [OF _ Inr] f by (simp_all add: fits_def)
  have "fits env (defs_of c) tys sec q" using f q by (simp add: fits_def)
  then have "config_fits env tys (put_prop sec q c)" using assms(1) s(1) by (intro put_fits) simp_all
  then show ?thesis using assms(3) Inr s(1) q(2) by (auto simp: assign_def find_put)
qed

end
