(* ===== verification/Config_Run.thy ===== *)
theory Config_Run
  imports Config_Facts
begin

text \<open>
  What each operation of a configuration promises, and that any sequence of operations on a configuration
  file, the failing ones included, keeps the invariant.
\<close>

lemma find_fits: "config_fits env tys c \<Longrightarrow> find_property sec n c = Inr p \<Longrightarrow> p_name p = n \<and> fits env (defs_of c) tys sec p"
  by (force simp: config_fits_def sec_fits_def find_property_Inr)

lemma fits_sections: "config_fits env tys c \<Longrightarrow> defs_of c' = defs_of c \<Longrightarrow> c_sections c' = c_sections c \<Longrightarrow> config_fits env tys c'"
  by (simp add: config_fits_def)

lemma matched:
  assumes "config_fits env tys c" "defs_ok env (defs_of c)" "ty \<in> tys" "matching_property env sec name ty c = (r, c')"
  obtains "config_fits env tys c'" "extends c c'" "c_dirty c' = c_dirty c" "defs_of c' = defs_of c"
    "\<And>p. r = Inr p \<Longrightarrow> find_property sec name c' = Inr p \<and> p_name p = name"
proof -
  have m: "config_fits env tys c'" "extends c c'" "c_dirty c' = c_dirty c" "\<And>p. r = Inr p \<Longrightarrow> find_property sec name c' = Inr p"
    using matching_effect [OF assms] by blast+
  have "defs_of c' = defs_of c" by (rule defs_of_same) (use m(2) in \<open>simp_all add: extends_def\<close>)
  then show ?thesis using m find_fits [OF m(1)] by (intro that) blast+
qed

text \<open>Setting a property with a value of another one in the same state: what changes and what does not.\<close>

lemma set_property_fits:
  assumes "config_fits env tys c" "defs_ok env (defs_of c)" "TProperty \<in> tys" "set_property env sec name v c = (r, c')"
  shows "config_fits env tys c' \<and> c_defs c' = c_defs c \<and> c_version c' = c_version c
    \<and> (case r of
         Inl e \<Rightarrow> c_dirty c' = c_dirty c \<and> extends c c'
       | Inr _ \<Rightarrow> c_dirty c' \<and> (\<exists>p q. set_value env p v = Inr q \<and> p_name p = name \<and> find_property sec name c' = Inr q
           \<and> (\<forall>p'. find_property sec name c = Inr p' \<longrightarrow> p = p')
           \<and> (\<forall>s n p'. (s, n) \<noteq> (sec, name) \<longrightarrow> find_property s n c = Inr p' \<longrightarrow> find_property s n c' = Inr p')))"
proof -
  obtain rm c1 where m: "matching_property env sec name TProperty c = (rm, c1)" by fastforce
  obtain e: "config_fits env tys c1" "extends c c1" "c_dirty c1 = c_dirty c" "defs_of c1 = defs_of c"
    "\<And>p. rm = Inr p \<Longrightarrow> find_property sec name c1 = Inr p \<and> p_name p = name"
    using matched [OF assms(1 - 3) m] by metis
  show ?thesis
  proof (cases rm)
    case (Inl a)
    then show ?thesis using assms(4) e(1 - 3) by (auto simp: set_property_def m extends_def)
  next
    case (Inr p)
    obtain ra c2 where a: "assign env sec p v c1 = (ra, c2)" by fastforce
    have p: "find_property sec (p_name p) c1 = Inr p" "p_name p = name" using e(5) [OF Inr] by auto
    have r: "config_fits env tys c2" "c_defs c2 = c_defs c" "c_version c2 = c_version c" "c_dirty c2 = c_dirty c"
      using assign_effect [OF e(1) p(1) a] e(2, 3) by (auto simp: extends_def)
    show ?thesis
    proof (cases ra)
      case l: (Inl a')
      then have "r = Inl a'" "c' = c2" using assms(4) a by (auto simp: set_property_def m Inr)
      moreover have "c2 = c1" using assign_effect [OF e(1) p(1) a] l by auto
      ultimately show ?thesis using r e(2) by simp
    next
      case i: (Inr u)
      then have res: "r = Inr ()" "c' = mark_dirty c2" using assms(4) a by (auto simp: set_property_def m Inr)
      obtain q where q: "set_value env p v = Inr q"
        "\<And>s n. find_property s n c2 = (if s = sec \<and> n = name then Inr q else find_property s n c1)"
        using assign_effect [OF e(1) p(1) a] i by (auto simp: p(2))
      have "\<forall>p'. find_property sec name c = Inr p' \<longrightarrow> p = p'" using e(2) p by (auto simp: extends_def)
      moreover have "\<forall>s n p'. (s, n) \<noteq> (sec, name) \<longrightarrow> find_property s n c = Inr p' \<longrightarrow> find_property s n c' = Inr p'"
        using e(2) by (auto simp: res q(2) extends_def)
      moreover have "find_property sec name c' = Inr q" by (simp add: res q(2))
      ultimately show ?thesis using r q(1) p(2) by (auto simp: res)
    qed
  qed
qed

lemma add_value_fits:
  assumes "config_fits env tys c" "defs_ok env (defs_of c)" "TList [] \<in> tys" "add_property_value env sec name v c = (r, c')"
  shows "config_fits env tys c' \<and> c_defs c' = c_defs c \<and> c_version c' = c_version c"
proof -
  obtain rm c1 where m: "matching_property env sec name (TList []) c = (rm, c1)" by fastforce
  obtain e: "config_fits env tys c1" "extends c c1" "\<And>p. rm = Inr p \<Longrightarrow> find_property sec name c1 = Inr p \<and> p_name p = name"
    using matched [OF assms(1 - 3) m] by metis
  have g: "c_defs c1 = c_defs c" "c_version c1 = c_version c" using e(2) by (simp_all add: extends_def)
  show ?thesis
  proof (cases "\<exists>p l. rm = Inr p \<and> p_value p = PList l")
    case True
    then obtain p l where p: "rm = Inr p" "p_value p = PList l" by blast
    obtain ra c2 where a: "assign env sec p (PList (l @ [v])) c1 = (ra, c2)" by fastforce
    have "c' = c2 \<or> c' = mark_dirty c2" using assms(4) by (cases ra) (auto simp: add_property_value_def m p a)
    moreover have "config_fits env tys c2" "c_defs c2 = c_defs c" "c_version c2 = c_version c"
      using assign_effect [OF e(1) _ a] e(3) [OF p(1)] g by auto
    ultimately show ?thesis by auto
  next
    case False
    then have "c' = c1" using assms(4) by (cases rm) (auto simp: add_property_value_def m split: pyval.splits)
    then show ?thesis using e(1) g by simp
  qed
qed

lemma remove_value_fits:
  assumes "config_fits env tys c" "remove_property_value env sec name v c = (r, c')"
  shows "config_fits env tys c' \<and> c_defs c' = c_defs c \<and> c_version c' = c_version c"
proof (cases "\<exists>p l l'. find_property sec name c = Inr p \<and> p_value p = PList l \<and> remove_value v l = Some l'")
  case True
  then obtain p l l' where p: "find_property sec name c = Inr p" "p_value p = PList l" "remove_value v l = Some l'" by blast
  obtain ra c2 where a: "assign env sec p (PList l') c = (ra, c2)" by fastforce
  have "c' = c2 \<or> c' = mark_dirty c2" using assms(2) by (cases ra) (auto simp: remove_property_value_def p a)
  moreover have "config_fits env tys c2" "c_defs c2 = c_defs c" "c_version c2 = c_version c"
    using assign_effect [OF assms(1) _ a] p(1) find_fits [OF assms(1) p(1)] by auto
  ultimately show ?thesis by auto
next
  case False
  then have "c' = c" using assms(2) by (auto simp: remove_property_value_def split: sum.splits pyval.splits option.splits)
  then show ?thesis using assms(1) by simp
qed

lemma remove_property_fits:
  assumes "config_fits env tys c" "remove_property sec name c = (r, c')"
  shows "config_fits env tys c' \<and> c_defs c' = c_defs c \<and> c_version c' = c_version c"
proof (cases "\<exists>s. dget (c_sections c) sec = Some s \<and> dget (s_items s) name \<noteq> None")
  case True
  then obtain s where s: "dget (c_sections c) sec = Some s" "dget (s_items s) name \<noteq> None" by blast
  let ?s = "s\<lparr>s_items := ddel name (s_items s)\<rparr>" and ?c = "c\<lparr>c_sections := dput sec (s\<lparr>s_items := ddel name (s_items s)\<rparr>) (c_sections c)\<rparr>"
  have "s_name s = sec" "sec_fits env (defs_of c) tys s" using assms(1) s(1) by (auto simp: config_fits_def)
  then have f: "s_name ?s = sec" "sec_fits env (defs_of c) tys ?s"
    by (auto simp: sec_fits_def pydict.get_del pydict.ok_del split: if_splits)
  have "config_fits env tys ?c"
    unfolding config_fits_def
  proof (intro conjI allI impI)
    show "dict_ok (c_sections ?c)" using assms(1) by (simp add: config_fits_def pydict.ok_put)
    fix n t assume "dget (c_sections ?c) n = Some t"
    then have "n = sec \<and> t = ?s \<or> dget (c_sections c) n = Some t" by (simp add: pydict.get_put split: if_splits)
    then show "s_name t = n" "sec_fits env (defs_of ?c) tys t" using f assms(1) by (auto simp: config_fits_def defs_of_def)
  qed
  moreover have "c' = mark_dirty ?c" using assms(2) s by (simp add: remove_property_def)
  ultimately show ?thesis by simp
next
  case False
  then have "c' = c" using assms(2) by (auto simp: remove_property_def split: option.splits if_splits)
  then show ?thesis using assms(1) by simp
qed

lemma remove_section_fits:
  assumes "config_fits env tys c" "remove_section sec c = (r, c')"
  shows "config_fits env tys c' \<and> c_defs c' = c_defs c \<and> c_version c' = c_version c"
proof -
  have "config_fits env tys (c\<lparr>c_sections := ddel sec (c_sections c)\<rparr>)"
    using assms(1) by (auto simp: config_fits_def pydict.ok_del pydict.get_del defs_of_def split: if_splits)
  then show ?thesis using assms by (auto simp: remove_section_def split: if_splits)
qed

section \<open>Resetting and loading\<close>

lemma set_each_fits:
  "config_fits env tys c \<Longrightarrow> defs_ok env (defs_of c) \<Longrightarrow> TProperty \<in> tys \<Longrightarrow> set_each env kvs c = (r, c') \<Longrightarrow>
    config_fits env tys c' \<and> c_defs c' = c_defs c \<and> c_version c' = c_version c"
proof (induction kvs arbitrary: c)
  case (Cons x kvs)
  obtain sec name v where x: "x = (sec, name, v)" by (cases x)
  obtain r1 c1 where s: "set_property env sec name v c = (r1, c1)" by fastforce
  have e: "config_fits env tys c1" "c_defs c1 = c_defs c" "c_version c1 = c_version c"
    using set_property_fits [OF Cons.prems(1 - 3) s] by blast+
  have d: "defs_ok env (defs_of c1)" using Cons.prems(2) defs_of_same [OF e(2, 3)] by simp
  show ?case
  proof (cases r1)
    case (Inr u)
    then have "set_each env kvs c1 = (r, c')" using Cons.prems(4) by (simp add: x s)
    then show ?thesis using Cons.IH [OF e(1) d Cons.prems(3)] e(2, 3) by simp
  qed (use Cons.prems(4) e in \<open>auto simp: x s\<close>)
qed simp

text \<open>The sections of the definitions so far are there.\<close>

lemma add_defs_fits:
  assumes "config_fits env tys c" "defs_ok env (defs_of c)" "tys \<noteq> {}" "defs_of c = pre @ ds"
    and "\<forall>s. DSec s \<in> set pre \<longrightarrow> dget (c_sections c) (s_name s) \<noteq> None" "add_defs env ds c = (r, c')"
  shows "config_fits env tys c' \<and> c_defs c' = c_defs c \<and> c_version c' = c_version c"
  using assms
proof (induction ds arbitrary: c pre)
  case (Cons d ds)
  show ?case
  proof (cases d)
    case (DSecTempl p ts)
    then show ?thesis using Cons.prems Cons.IH [of c "pre @ [d]"] by simp
  next
    case (DSec s)
    have ok: "keyed s" "items_ok env (map snd (s_items s))" using Cons.prems(2, 4) by (auto simp: defs_ok_def DSec)
    show ?thesis
    proof (cases "\<exists>e. copy_section env s = Inl e \<or> dget (c_sections c) (s_name s) \<noteq> None")
      case True
      then have "c' = c"
        using Cons.prems(6) copy_section_same [OF ok]
        by (auto simp: DSec add_section_def elide_def split: sum.splits)
      then show ?thesis using Cons.prems(1) by simp
    next
      case False
      then have c: "copy_section env s = Inr s" "dget (c_sections c) (s_name s) = None"
        using copy_section_same [OF ok] by (cases "copy_section env s"; auto)+
      let ?f = "\<lambda>d. case d of DSec t \<Rightarrow> s_name t = s_name s | DSecTempl p is \<Rightarrow> False"
      have "\<not> ?f t" if "t \<in> set pre" for t using Cons.prems(5) c(2) that by (cases t) force+
      then have "find ?f (defs_of c) = Some (DSec s)" unfolding Cons.prems(4) by (induction pre) (auto simp: DSec)
      then have g: "get_section_def env (defs_of c) (s_name s) = Inr s" by (simp add: get_section_def_def c(1))
      note e = new_section_effect [OF Cons.prems(1 - 3) c(2) g]
      let ?c = "c\<lparr>c_sections := dput (s_name s) (elide s) (c_sections c)\<rparr>"
      have a: "add_defs env ds ?c = (r, c')" using Cons.prems(6) by (simp add: DSec c(1) e(1))
      have same: "defs_of ?c = defs_of c" by (simp add: defs_of_def)
      have "config_fits env tys c' \<and> c_defs c' = c_defs ?c \<and> c_version c' = c_version ?c"
        by (rule Cons.IH [OF e(2) _ Cons.prems(3) _ _ a, of "pre @ [d]"])
          (use Cons.prems(2, 4, 5) in \<open>auto simp: same DSec pydict.get_put\<close>)
      then show ?thesis by simp
    qed
  qed
qed simp

lemma reset_fits:
  assumes "defs_ok env (defs_of c)" "TProperty \<in> tys" "config_reset env over c = (r, c')"
  shows "config_fits env tys c' \<and> c_defs c' = c_defs c \<and> c_version c' = c_version c"
proof -
  let ?c = "c\<lparr>c_dirty := True, c_sections := []\<rparr>"
  have same: "defs_of ?c = defs_of c" by (simp add: defs_of_def)
  have f: "config_fits env tys ?c" by (simp add: config_fits_def)
  obtain ra c1 where a: "add_defs env (defs_of c) ?c = (ra, c1)" by fastforce
  have e: "config_fits env tys c1" "c_defs c1 = c_defs c" "c_version c1 = c_version c"
    using add_defs_fits [OF f _ _ _ _ a, of "[]"] assms(1, 2) by (auto simp: same)
  have d: "defs_ok env (defs_of c1)" using assms(1) defs_of_same [OF e(2, 3)] by simp
  show ?thesis
  proof (cases ra)
    case (Inr u)
    then have "set_each env (flat over) c1 = (r, c')" using assms(3) by (simp add: config_reset_def a)
    then show ?thesis using set_each_fits [OF e(1) d assms(2)] e(2, 3) by simp
  qed (use assms(3) e in \<open>auto simp: config_reset_def a\<close>)
qed

lemma load_values_fits:
  "config_fits env tys c \<Longrightarrow> defs_ok env (defs_of c) \<Longrightarrow> TProperty \<in> tys \<Longrightarrow> load_values env over kvs c = (r, c') \<Longrightarrow>
    config_fits env tys c' \<and> c_defs c' = c_defs c \<and> c_version c' = c_version c"
proof (induction kvs arbitrary: c)
  case (Cons x kvs)
  obtain sec name v where x: "x = (sec, name, v)" by (cases x)
  show ?case
  proof (cases "case dget over sec of None \<Rightarrow> False | Some ps \<Rightarrow> dget ps name \<noteq> None")
    case False
    obtain rm c1 where m: "matching_property env sec name TProperty c = (rm, c1)" by fastforce
    obtain e: "config_fits env tys c1" "extends c c1" "defs_of c1 = defs_of c"
      "\<And>p. rm = Inr p \<Longrightarrow> find_property sec name c1 = Inr p \<and> p_name p = name"
      using matched [OF Cons.prems(1 - 3) m] by metis
    show ?thesis
    proof (cases rm)
      case (Inl a)
      then show ?thesis using Cons.prems(4) e(1, 2) False by (auto simp: x m extends_def)
    next
      case (Inr p)
      obtain ra c2 where a: "assign env sec p (PStr v) c1 = (ra, c2)" by fastforce
      have r: "config_fits env tys c2" "c_defs c2 = c_defs c" "c_version c2 = c_version c"
        using assign_effect [OF e(1) _ a] e(2) e(4) [OF Inr] by (auto simp: extends_def)
      have d: "defs_ok env (defs_of c2)" using Cons.prems(2) defs_of_same [OF r(2, 3)] by simp
      show ?thesis
      proof (cases ra)
        case inr: (Inr u)
        then have "load_values env over kvs c2 = (r, c')" using Cons.prems(4) False by (simp add: x m Inr a)
        then show ?thesis using Cons.IH [OF r(1) d Cons.prems(3)] r(2, 3) by simp
      qed (use Cons.prems(4) False r in \<open>auto simp: x m Inr a\<close>)
    qed
  qed (use Cons x in auto)
qed simp

definition all_defs_ok :: "pyenv \<Rightarrow> (int \<times> secdef list) list \<Rightarrow> bool" where
  "all_defs_ok env defs \<longleftrightarrow> (\<forall>d \<in> set defs. defs_ok env (snd d))"

lemma defs_of_ok: "all_defs_ok env (c_defs c) \<Longrightarrow> defs_ok env (defs_of c)"
proof (cases "map_of (c_defs c) (c_version c)")
  case None
  then show ?thesis by (simp add: defs_of_def defs_ok_def)
next
  case (Some ds)
  then have "(c_version c, ds) \<in> set (c_defs c)" by (rule map_of_SomeD)
  then show "all_defs_ok env (c_defs c) \<Longrightarrow> ?thesis" by (force simp: all_defs_ok_def defs_of_def Some)
qed

lemma file_reset_fits:
  assumes "config_fits env tys c" "all_defs_ok env (c_defs c)" "TProperty \<in> tys" "file_reset env ps f over c = (r, c')"
  shows "config_fits env tys c' \<and> c_defs c' = c_defs c"
proof -
  define load where "load = (\<lambda>d c. cbind (config_reset env over c) (\<lambda>_.
            load_values env over (flat (filter (\<lambda>(sec, os). sec \<noteq> ''CONFIGURATION'') d))))"
  have l: "config_fits env tys c2 \<and> c_defs c2 = c_defs c" if l: "load d c1 = (r2, c2)" and c1: "c_defs c1 = c_defs c" for d c1 r2 c2
  proof -
    have d: "defs_ok env (defs_of c1)" using assms(2) c1 by (intro defs_of_ok) simp
    obtain ra c3 where a: "config_reset env over c1 = (ra, c3)" by fastforce
    have e: "config_fits env tys c3" "c_defs c3 = c_defs c1" "c_version c3 = c_version c1" using reset_fits [OF d assms(3) a] by blast+
    have d3: "defs_ok env (defs_of c3)" using d defs_of_same [OF e(2, 3)] by simp
    show ?thesis
    proof (cases ra)
      case (Inr u)
      then show ?thesis using l load_values_fits [OF e(1) d3 assms(3)] e(2) c1 by (simp add: load_def a)
    qed (use l e c1 in \<open>auto simp: load_def a\<close>)
  qed
  obtain r1 c1 where r: "read_config env ps f over c = (r1, c1)" by fastforce
  have "config_fits env tys c1 \<and> c_defs c1 = c_defs c"
  proof (cases f)
    case NoConfigFile
    then show ?thesis using l [of "[]" c r1 c1] r by (simp add: read_config_def load_def)
  next
    case NoAccess
    then show ?thesis using r assms(1) by (simp add: read_config_def)
  next
    case (FileText t)
    show ?thesis
    proof (cases "parse_cp ps t")
      case (Inl x)
      then show ?thesis using r assms(1) by (cases x) (simp_all add: read_config_def FileText)
    next
      case (Inr d)
      then show ?thesis using l [of d "case file_version d of None \<Rightarrow> c | Some v \<Rightarrow> c\<lparr>c_version := v\<rparr>" r1 c1] r
        by (simp add: read_config_def FileText load_def split: option.splits)
    qed
  qed
  then show ?thesis using assms(4) by (cases r1) (auto simp: file_reset_def r config_fits_def defs_of_def split: if_splits)
qed

section \<open>Operations on a configuration file\<close>

datatype cop =
    SetProperty string string pyval
  | SetProperties overrides
  | AddValue string string pyval
  | RemoveValue string string pyval
  | RemoveProperty string string
  | RemoveSection string
  | Reset overrides
  | Write target

fun exec :: "pyenv \<Rightarrow> 't parser \<Rightarrow> cop \<Rightarrow> config \<times> 't cfile \<Rightarrow> config \<times> 't cfile" where
  "exec env ps (SetProperty sec n v) (c, f) = (snd (set_property env sec n v c), f)"
| "exec env ps (SetProperties props) (c, f) = (snd (set_properties env props c), f)"
| "exec env ps (AddValue sec n v) (c, f) = (snd (add_property_value env sec n v c), f)"
| "exec env ps (RemoveValue sec n v) (c, f) = (snd (remove_property_value env sec n v c), f)"
| "exec env ps (RemoveProperty sec n) (c, f) = (snd (remove_property sec n c), f)"
| "exec env ps (RemoveSection sec) (c, f) = (snd (remove_section sec c), f)"
| "exec env ps (Reset over) (c, f) = (snd (file_reset env ps f over c), f)"
| "exec env ps (Write tg) (c, f) = (case write_config env ps tg f c of (Inl e, c') \<Rightarrow> (c', f) | (Inr f', c') \<Rightarrow> (c', f'))"

definition exec_all :: "pyenv \<Rightarrow> 't parser \<Rightarrow> cop list \<Rightarrow> config \<times> 't cfile \<Rightarrow> config \<times> 't cfile" where
  "exec_all env ps ops st = fold (exec env ps) ops st"

definition adds_values :: "cop \<Rightarrow> bool" where
  "adds_values op = (case op of AddValue sec n v \<Rightarrow> True | _ \<Rightarrow> False)"

lemma exec_fits:
  assumes "config_fits env tys c" "all_defs_ok env (c_defs c)" "TProperty \<in> tys" "TList [] \<in> tys \<or> \<not> adds_values op"
  shows "config_fits env tys (fst (exec env ps op (c, f))) \<and> c_defs (fst (exec env ps op (c, f))) = c_defs c"
proof -
  note d = defs_of_ok [OF assms(2)]
  show ?thesis
  proof (cases op)
    case (SetProperty sec n v)
    then show ?thesis using set_property_fits [OF assms(1) d assms(3), of sec n v] by (cases "set_property env sec n v c") simp
  next
    case (SetProperties props)
    then show ?thesis using set_each_fits [OF assms(1) d assms(3)]
      by (cases "set_properties env props c") (auto simp: set_properties_def)
  next
    case (AddValue sec n v)
    then show ?thesis using add_value_fits [OF assms(1) d, of sec n v] assms(4)
      by (cases "add_property_value env sec n v c") (simp add: adds_values_def)
  next
    case (RemoveValue sec n v)
    then show ?thesis using remove_value_fits [OF assms(1), of sec n v]
      by (cases "remove_property_value env sec n v c") simp
  next
    case (RemoveProperty sec n)
    then show ?thesis using remove_property_fits [OF assms(1), of sec n] by (cases "remove_property sec n c") simp
  next
    case (RemoveSection sec)
    then show ?thesis using remove_section_fits [OF assms(1), of sec] by (cases "remove_section sec c") simp
  next
    case (Reset over)
    then show ?thesis using file_reset_fits [OF assms(1 - 3), of ps f over] by (cases "file_reset env ps f over c") simp
  next
    case (Write tg)
    then show ?thesis using assms(1) by (auto simp: write_config_def config_fits_def defs_of_def split: target.splits)
  qed
qed

lemma exec_all_fits:
  assumes "TProperty \<in> tys" "all_defs_ok env (c_defs c)" "config_fits env tys c" "TList [] \<in> tys \<or> (\<forall>op \<in> set ops. \<not> adds_values op)"
  shows "config_fits env tys (fst (exec_all env ps ops (c, f))) \<and> c_defs (fst (exec_all env ps ops (c, f))) = c_defs c"
  using assms(2 - 4)
proof (induction ops arbitrary: c f)
  case (Cons op ops)
  obtain c1 f1 where e: "exec env ps op (c, f) = (c1, f1)" by fastforce
  have c: "config_fits env tys c1" "c_defs c1 = c_defs c" using exec_fits [OF Cons.prems(2, 1) assms(1), of op ps f] Cons.prems(3) by (auto simp: e)
  have "TList [] \<in> tys \<or> (\<forall>op \<in> set ops. \<not> adds_values op)" using Cons.prems(3) by auto
  then show ?case using Cons.IH [of c1 f1] c Cons.prems(1) by (simp add: exec_all_def e)
qed (simp add: exec_all_def)

end
