(* ===== verification/Config_Props.thy ===== *)
theory Config_Props
  imports Config_Run Pkg_Timestamp Pkg_Fmri
begin

text \<open>
  Properties of the configuration: values are of the class that the definitions give after any operations,
  an operation that fails leaves the values, a property's text is read back, a written configuration is
  read back.
\<close>

section \<open>Texts of integers\<close>

lemma num_scan_snoc: "num_scan b a k xs = Some (v, m) \<Longrightarrow> is_digit c \<Longrightarrow>
    num_scan b a k (xs @ [c]) = Some (10 * v + digit_val c, Suc m)"
  by (induction xs arbitrary: b a k) (auto split: if_splits)

lemma digit_char: "d < 10 \<Longrightarrow> is_digit (char_of (48 + d)) \<and> digit_val (char_of (48 + d)) = d"
  by (simp add: is_digit_def digit_val_def code_def)

lemma num_scan_text: "num_scan False 0 0 (nat_text n) = Some (n, length (nat_text n))"
proof (induction n rule: nat_text.induct)
  case (1 n)
  show ?case
  proof (cases "n < 10")
    case True
    then show ?thesis using digit_char [of n] by (simp add: nat_text.simps [of n])
  next
    case False
    have d: "n mod 10 < 10" by simp
    have "num_scan False 0 0 (nat_text (n div 10) @ [char_of (48 + n mod 10)])
        = Some (10 * (n div 10) + n mod 10, Suc (length (nat_text (n div 10))))"
      using num_scan_snoc [OF 1 [OF False]] digit_char [OF d] by simp
    then show ?thesis using False by (simp add: nat_text.simps [of n])
  qed
qed

lemma nat_text_length: "n < 10 ^ k \<Longrightarrow> 0 < k \<Longrightarrow> length (nat_text n) \<le> k"
proof (induction k arbitrary: n)
  case (Suc k)
  show ?case
  proof (cases "n < 10")
    case False
    then have "0 < k" using Suc.prems(1) by (cases k) simp_all
    moreover have "n div 10 < 10 ^ k" using Suc.prems(1) by (simp add: less_mult_imp_div_less mult.commute)
    ultimately show ?thesis using Suc.IH [of "n div 10"] False by (simp add: nat_text.simps [of n])
  qed (simp add: nat_text.simps [of n])
qed simp

lemma nat_text_digits: "c \<in> set (nat_text n) \<Longrightarrow> is_digit c"
proof (induction n rule: nat_text.induct)
  case (1 n)
  show ?case
  proof (cases "n < 10")
    case True
    then show ?thesis using 1(2) digit_char [of n] by (simp add: nat_text.simps [of n])
  next
    case False
    then have "c = char_of (48 + n mod 10) \<or> c \<in> set (nat_text (n div 10))"
      using 1(2) by (simp add: nat_text.simps [of n])
    then show ?thesis using 1(1) [OF False] digit_char [of "n mod 10"] by auto
  qed
qed

lemma nat_text_nonempty [simp]: "nat_text n \<noteq> []"
  by (simp add: nat_text.simps [of n])

lemma strip_none: "(\<And>c. c \<in> set s \<Longrightarrow> \<not> is_int_space c) \<Longrightarrow> int_strip s = s"
proof -
  assume s: "\<And>c. c \<in> set s \<Longrightarrow> \<not> is_int_space c"
  have "dropWhile is_int_space s = s" "dropWhile is_int_space (rev s) = rev s" by (rule dropWhile_id; use s in simp)+
  then show ?thesis by (simp add: int_strip_def)
qed

lemma nat_abs_less: "\<bar>i\<bar> < 10 ^ k \<Longrightarrow> nat \<bar>i\<bar> < 10 ^ k" for i :: int
  by (simp add: nat_less_iff)

text \<open>\<open>int\<close> of a text takes at most 4300 digits.\<close>

definition int_bound :: int where
  "int_bound = 10 ^ 4300"

lemma py_int_text:
  assumes "\<bar>i\<bar> < int_bound"
  shows "py_int (int_text i) = Some i"
proof -
  define n where "n = nat \<bar>i\<bar>"
  have l: "length (nat_text n) \<le> 4300" unfolding n_def by (rule nat_text_length [OF nat_abs_less [OF assms [unfolded int_bound_def]]]) simp
  have dig: "is_digit c" if "c \<in> set (nat_text n)" for c using nat_text_digits that by blast
  have sp: "int_strip (int_text i) = int_text i"
    by (rule strip_none) (use dig digit_not_space in \<open>auto simp: int_text_def n_def is_int_space_def code_def split: if_splits\<close>)
  have hd: "is_digit (hd (nat_text n))" using dig by simp
  then have "hd (nat_text n) \<noteq> CHR ''-''" "hd (nat_text n) \<noteq> CHR ''+''" by (auto simp: is_digit_def code_def)
  then show ?thesis using l num_scan_text [of n] unfolding py_int_def sp Let_def by (auto simp: int_text_def n_def)
qed

section \<open>Texts of properties\<close>

text \<open>
  When the text of a property can be read back: a simple list has no commas in its entries and is not one
  empty entry, a version has no branch and no time that its short form leaves out, other lists are
  printed as Python literals;
  lists of dictionaries are not restricted.
\<close>

definition text_ok :: "pyenv \<Rightarrow> property \<Rightarrow> bool" where
  "text_ok env p \<longleftrightarrow>
     (case (p_type p, p_value p) of
        (TSimpleList al, PList l) \<Rightarrow> l \<noteq> [PStr []] \<and> list_all (\<lambda>v. CHR '','' \<notin> set (str_of v)) l
      | (TSimplePubURIList al, PList l) \<Rightarrow> l \<noteq> [PStr []] \<and> list_all (\<lambda>v. CHR '','' \<notin> set (str_of v)) l
      | (TVersion, PVer w) \<Rightarrow> get_short_version w \<noteq> [] \<and> version_init (get_short_version w) None = Inr w
      | (TInt lo hi, PInt i) \<Rightarrow> \<bar>i\<bar> < int_bound
      | (TDictList al, PList l) \<Rightarrow> al = [] \<and> py_repr env (PList l) \<noteq> [] \<and> literal_eval env (py_repr env (PList l)) = Some (PList l)
      | (TPubURIDictList al, PList l) \<Rightarrow> al = [] \<and> py_repr env (PList l) \<noteq> [] \<and> literal_eval env (py_repr env (PList l)) = Some (PList l)
      | (_, PList l) \<Rightarrow> py_repr env (PList l) \<noteq> [] \<and> literal_eval env (py_repr env (PList l)) = Some (PList l)
      | (_, POther s) \<Rightarrow> False
      | _ \<Rightarrow> True)"

definition reads_back :: "pyenv \<Rightarrow> property \<Rightarrow> bool" where
  "reads_back env p \<longleftrightarrow> set_value env p (PStr (property_str env p)) = Inr p"

lemma set_strings:
  assumes "\<forall>s \<in> set ss. allowed_str env ty s = Inr True"
    and "allowed_list ty \<noteq> [] \<and> [] \<notin> set (allowed_list ty) \<longrightarrow> ss \<noteq> []"
    and "t = [] \<and> ss = [] \<or> t \<noteq> [] \<and> parse_list env n ty t = Inr (map PStr ss)"
  shows "set_list env n ty (PStr t) = Inr (PList (map PStr ss))"
  using assms(2, 3) strings_same [OF assms(1), of n] by (auto simp: set_list_def no_value_def)

lemma str_of_map [simp]: "map (str_of \<circ> PStr) ss = ss"
  by (induction ss) (simp_all add: str_of_def)

lemma str_of_PStr [simp]: "str_of (PStr s) = s"
  by (simp add: str_of_def)

lemma join_nonempty: "ss \<noteq> [] \<Longrightarrow> ss \<noteq> [[]] \<Longrightarrow> join_with c ss \<noteq> []"
  by (induction c ss rule: join_with.induct) auto

lemma simple_text: "ss \<noteq> [[]] \<Longrightarrow> list_all (\<lambda>s. CHR '','' \<notin> set s) ss \<Longrightarrow>
    join_with CHR '','' ss = [] \<and> ss = [] \<or> join_with CHR '','' ss \<noteq> [] \<and> split_on CHR '','' (join_with CHR '','' ss) = ss"
  by (cases "ss = []") (auto simp: list_all_iff join_nonempty split_join)

lemma set_dicts_text:
  "literal_eval env t = Some (PList l) \<Longrightarrow> t \<noteq> [] \<Longrightarrow> set_dict_list env n uris al (PStr t) = set_dict_list env n uris al (PList l)"
  by (simp add: set_dict_list_def no_value_def)

lemma map_PStr_single: "map PStr ss = [PStr []] \<longleftrightarrow> ss = [[]]"
  by (cases ss) auto

lemma bool_back: "set_bool n (PStr (bool_text b)) = Inr (PBool b)"
proof -
  have "lower (bool_text True) = ''true''" "lower (bool_text False) = ''false''" by code_simp+
  then show ?thesis by (cases b) (simp_all add: set_bool_def no_value_def bool_text_def)
qed

lemma int_back:
  assumes "\<bar>i\<bar> < int_bound" "\<And>l. lo = Some l \<Longrightarrow> l \<le> i" "\<And>h. hi = Some h \<Longrightarrow> i \<le> h"
  shows "set_int env n lo hi (PStr (int_text i)) = Inr (PInt i)"
proof -
  have "int_text i \<noteq> []" by (simp add: int_text_def)
  then show ?thesis using py_int_text [OF assms(1)] assms(2, 3) by (auto simp: set_int_def no_value_def split: option.splits)
qed

lemma value_back:
  assumes "well_typed env ty v" "text_ok env \<lparr>p_name = n, p_type = ty, p_value = v, p_map = []\<rparr>"
  shows "new_value env n ty (PStr (property_str env \<lparr>p_name = n, p_type = ty, p_value = v, p_map = []\<rparr>)) = Inr v"
proof (cases ty)
  case (TInt lo hi)
  then show ?thesis using assms int_back [of _ lo hi env n] by (auto simp: well_typed_def new_value_def property_str_def text_ok_def)
next
  case (TSimpleList al)
  then obtain ss where "v = PList (map PStr ss)" "\<forall>s \<in> set ss. allowed_str env ty s = Inr True"
    "allowed_list ty \<noteq> [] \<and> [] \<notin> set (allowed_list ty) \<longrightarrow> ss \<noteq> []" using assms(1) by (auto simp: well_typed_def)
  then show ?thesis using set_strings [of ss env ty "join_with CHR '','' ss" n] simple_text [of ss] assms(2)
    by (auto simp: TSimpleList new_value_def property_str_def text_ok_def parse_list_def map_PStr_single list_all_iff)
next
  case (TSimplePubURIList al)
  then obtain ss where "v = PList (map PStr ss)" "\<forall>s \<in> set ss. allowed_str env ty s = Inr True"
    "allowed_list ty \<noteq> [] \<and> [] \<notin> set (allowed_list ty) \<longrightarrow> ss \<noteq> []" using assms(1) by (auto simp: well_typed_def)
  then show ?thesis using set_strings [of ss env ty "join_with CHR '','' ss" n] simple_text [of ss] assms(2)
    by (auto simp: TSimplePubURIList new_value_def property_str_def text_ok_def parse_list_def map_PStr_single list_all_iff)
next
  case (TList al)
  then obtain ss where "v = PList (map PStr ss)" "\<forall>s \<in> set ss. allowed_str env ty s = Inr True"
    "allowed_list ty \<noteq> [] \<and> [] \<notin> set (allowed_list ty) \<longrightarrow> ss \<noteq> []" using assms(1) by (auto simp: well_typed_def)
  then show ?thesis using set_strings [of ss env ty "py_repr env v" n] assms(2)
    by (simp add: TList new_value_def property_str_def text_ok_def parse_list_def)
next
  case (TPubURIList al)
  then obtain ss where "v = PList (map PStr ss)" "\<forall>s \<in> set ss. allowed_str env ty s = Inr True"
    "allowed_list ty \<noteq> [] \<and> [] \<notin> set (allowed_list ty) \<longrightarrow> ss \<noteq> []" using assms(1) by (auto simp: well_typed_def)
  then show ?thesis using set_strings [of ss env ty "py_repr env v" n] assms(2)
    by (simp add: TPubURIList new_value_def property_str_def text_ok_def parse_list_def)
next
  case (TDictList al)
  then show ?thesis using assms set_dicts_bare [of _ False env n]
    by (auto simp: well_typed_def new_value_def property_str_def text_ok_def set_dicts_text)
next
  case (TPubURIDictList al)
  then show ?thesis using assms set_dicts_bare [of _ True env n]
    by (auto simp: well_typed_def new_value_def property_str_def text_ok_def set_dicts_text)
qed (use assms in \<open>auto simp: well_typed_def new_value_def property_str_def text_ok_def bool_back set_pub_prefix_def set_version_def
    set_plain_def no_value_def allowed_str_def require_def Let_def\<close>)

lemma reads_back_ok:
  assumes "property_ok env p" "text_ok env p" "p_map p = []"
  shows "reads_back env p"
proof -
  obtain n ty v where p: "p = \<lparr>p_name = n, p_type = ty, p_value = v, p_map = []\<rparr>" using assms(3) by (cases p) auto
  then show ?thesis using value_back [of env ty v n] assms(1, 2) by (simp add: reads_back_def set_value_def mapped_def property_ok_def)
qed

section \<open>Reading what was written\<close>

definition pairs_of :: "section_ dict \<Rightarrow> (string \<times> property) list" where
  "pairs_of d = concat (map (\<lambda>(n, s). map (\<lambda>p. (n, p)) (properties_of s)) d)"

lemma flat_data: "flat (map (\<lambda>(n, s). (n, map (\<lambda>p. (p_name p, property_str env p)) (properties_of s))) d)
    = map (\<lambda>(sec, p). (sec, p_name p, property_str env p)) (pairs_of d)"
  by (induction d) (auto simp: flat_def pairs_of_def)

lemma properties_mem: "dict_ok (s_items s) \<Longrightarrow> sec_fits env ds tys s \<Longrightarrow> p \<in> set (properties_of s) \<longleftrightarrow> dget (s_items s) (p_name p) = Some (IProp p)"
  by (force simp: properties_of_def List.map_filter_def sec_fits_def dget_Some_mem split: sitem.splits)

lemma pairs_mem:
  assumes "config_fits env tys c"
  shows "(sec, p) \<in> set (pairs_of (c_sections c)) \<longleftrightarrow> find_property sec (p_name p) c = Inr p"
proof -
  have d: "dict_ok (c_sections c)" using assms by (simp add: config_fits_def)
  have f: "sec_fits env (defs_of c) tys s" if "dget (c_sections c) n = Some s" for n s using assms that by (simp add: config_fits_def)
  have "(sec, p) \<in> set (pairs_of (c_sections c)) \<longleftrightarrow> (\<exists>s. (sec, s) \<in> set (c_sections c) \<and> p \<in> set (properties_of s))"
    by (force simp: pairs_of_def)
  then show ?thesis using properties_mem [OF _ f] f dget_Some_mem [OF d] unfolding find_property_Inr sec_fits_def by blast
qed

lemma names_distinct: "distinct (map fst is) \<Longrightarrow> \<forall>(n, i) \<in> set is. item_name i = n \<Longrightarrow>
    distinct (map p_name (List.map_filter (\<lambda>(n, i). case i of IProp p \<Rightarrow> Some p | ITempl t \<Rightarrow> None) is))
    \<and> p_name ` set (List.map_filter (\<lambda>(n, i). case i of IProp p \<Rightarrow> Some p | ITempl t \<Rightarrow> None) is) \<subseteq> fst ` set is"
proof (induction "is")
  case (Cons x ys)
  obtain n i where x: "x = (n, i)" by (cases x)
  have IH: "distinct (map p_name (List.map_filter (\<lambda>(n, i). case i of IProp p \<Rightarrow> Some p | ITempl t \<Rightarrow> None) ys))"
    "p_name ` set (List.map_filter (\<lambda>(n, i). case i of IProp p \<Rightarrow> Some p | ITempl t \<Rightarrow> None) ys) \<subseteq> fst ` set ys"
    using Cons by simp_all
  have "n \<notin> fst ` set ys" "item_name i = n" using Cons.prems by (simp_all add: x)
  then show ?case using IH by (cases i) (auto simp: x map_filter_simps item_name_def)
qed (simp add: map_filter_simps)

lemma pairs_distinct:
  assumes "distinct (map fst d)" "\<forall>(n, s) \<in> set d. distinct (map p_name (properties_of s))"
  shows "distinct (map (\<lambda>(sec, p). (sec, p_name p)) (pairs_of d))"
  using assms
proof (induction d)
  case (Cons x d)
  obtain n s where x: "x = (n, s)" by (cases x)
  have i: "inj_on (Pair n) A" for A :: "string set" by (simp add: inj_on_def)
  have "map (\<lambda>(sec, p). (sec, p_name p)) (pairs_of (x # d)) = map (Pair n) (map p_name (properties_of s)) @ map (\<lambda>(sec, p). (sec, p_name p)) (pairs_of d)"
    by (simp add: pairs_of_def x)
  moreover have "distinct (map (Pair n) (map p_name (properties_of s)))"
    using Cons.prems(2) i by (simp only: distinct_map [of "Pair n"]) (simp add: x)
  moreover have "\<forall>(sec, p) \<in> set (pairs_of d). sec \<in> fst ` set d" by (force simp: pairs_of_def)
  moreover have "n \<notin> fst ` set d" using Cons.prems(1) by (simp add: x)
  ultimately show ?case using Cons by (fastforce simp: x)
qed (simp add: pairs_of_def)

text \<open>A property that the definitions have can be matched again.\<close>

lemma matching_succeeds:
  assumes "config_fits env {TProperty} c" "defs_ok env (defs_of c)"
    and d: "get_section_def env (defs_of c) sec = Inr d" "get_property_def env d name TProperty = Inr q"
  shows "\<exists>p c'. matching_property env sec name TProperty c = (Inr p, c') \<and> p_type p = p_type q \<and> p_map p = p_map q"
proof -
  obtain r c' where m: "matching_property env sec name TProperty c = (r, c')" by fastforce
  obtain e: "config_fits env {TProperty} c'" "defs_of c' = defs_of c"
    "\<And>p. r = Inr p \<Longrightarrow> find_property sec name c' = Inr p \<and> p_name p = name"
    using matched [OF assms(1, 2) _ m] by blast
  obtain rs c1 where s1: "the_section env sec c = (rs, c1)" by fastforce
  have s: "config_fits env {TProperty} c1 \<and> extends c c1 \<and> (\<forall>s. rs = Inr s \<longrightarrow> dget (c_sections c1) sec = Some s \<and> s_name s = sec)"
    using the_section_effect [OF assms(1, 2) _ s1] by blast
  have "\<exists>s. rs = Inr s"
  proof (cases "dget (c_sections c) sec")
    case None
    then show ?thesis using s1 new_section_effect(1) [OF assms(1, 2) _ None d(1)] by (auto simp: the_section_def d(1))
  qed (use s1 in \<open>auto simp: the_section_def\<close>)
  then obtain s where rs: "rs = Inr s" "dget (c_sections c1) sec = Some s" "s_name s = sec" using s by blast
  have same: "defs_of c1 = defs_of c" by (rule defs_of_same) (use s in \<open>simp_all add: extends_def\<close>)
  have "\<exists>p. r = Inr p"
  proof (cases "dget (s_items s) name")
    case None
    then show ?thesis using m s1 rs same d(1) unfolding matching_property_def the_section_def [symmetric] by (auto simp: d(2))
  next
    case (Some i)
    then obtain p where "i = IProp p" using s rs(2) unfolding config_fits_def sec_fits_def by blast
    then show ?thesis using m s1 rs Some unfolding matching_property_def the_section_def [symmetric] by auto
  qed
  then obtain p where p: "r = Inr p" by blast
  have "fits env (defs_of c) {TProperty} sec p" "p_name p = name" using find_fits [OF e(1)] e(2) e(3) [OF p] by auto
  then show ?thesis using m p d by (auto simp: fits_def)
qed

lemma load_back:
  assumes "config_fits env {TProperty} c" "defs_ok env (defs_of c)"
    and "\<forall>(sec, p) \<in> set ps. fits env (defs_of c) {TProperty} sec p \<and> reads_back env p"
    and "distinct (map (\<lambda>(sec, p). (sec, p_name p)) ps)"
  shows "\<exists>c'. load_values env [] (map (\<lambda>(sec, p). (sec, p_name p, property_str env p)) ps) c = (Inr (), c')
    \<and> c_version c' = c_version c \<and> (\<forall>(sec, p) \<in> set ps. find_property sec (p_name p) c' = Inr p)
    \<and> (\<forall>sec n p. (sec, n) \<notin> (\<lambda>(sec, p). (sec, p_name p)) ` set ps \<longrightarrow> find_property sec n c = Inr p \<longrightarrow> find_property sec n c' = Inr p)"
  using assms
proof (induction ps arbitrary: c)
  case (Cons x ps)
  obtain sec p where x: "x = (sec, p)" by (cases x)
  have p: "fits env (defs_of c) {TProperty} sec p" "reads_back env p" using Cons.prems(3) by (simp_all add: x)
  obtain d q where d: "get_section_def env (defs_of c) sec = Inr d" "get_property_def env d (p_name p) TProperty = Inr q"
    "p_type p = p_type q" "p_map p = p_map q" using p(1) by (auto simp: fits_def)
  obtain p0 c1 where m: "matching_property env sec (p_name p) TProperty c = (Inr p0, c1)" "p_type p0 = p_type q" "p_map p0 = p_map q"
    using matching_succeeds [OF Cons.prems(1, 2) d(1, 2)] by blast
  obtain e: "config_fits env {TProperty} c1" "extends c c1" "defs_of c1 = defs_of c"
    "find_property sec (p_name p) c1 = Inr p0" "p_name p0 = p_name p"
    using matched [OF Cons.prems(1, 2) _ m(1)] by blast
  have "set_value env p0 (PStr (property_str env p)) = Inr p"
    using p(2) m(2, 3) d(3, 4) e(5) unfolding reads_back_def set_value_def by (cases p0; cases p) (auto simp: sbind_eq_Inr)
  moreover obtain ra c2 where a: "assign env sec p0 (PStr (property_str env p)) c1 = (ra, c2)" by fastforce
  ultimately have c2: "ra = Inr ()" "config_fits env {TProperty} c2" "c_defs c2 = c_defs c" "c_version c2 = c_version c"
    "\<And>s n. find_property s n c2 = (if s = sec \<and> n = p_name p then Inr p else find_property s n c1)"
    using assign_effect [OF e(1) _ a] e(2, 4, 5) by (auto simp: extends_def split: sum.splits)
  have same: "defs_of c2 = defs_of c" by (rule defs_of_same) (simp_all add: c2)
  obtain c' where c': "load_values env [] (map (\<lambda>(sec, p). (sec, p_name p, property_str env p)) ps) c2 = (Inr (), c')"
    "c_version c' = c_version c2" "\<forall>(sec, p) \<in> set ps. find_property sec (p_name p) c' = Inr p"
    "\<And>s n p. (s, n) \<notin> (\<lambda>(sec, p). (sec, p_name p)) ` set ps \<Longrightarrow> find_property s n c2 = Inr p \<Longrightarrow> find_property s n c' = Inr p"
    using Cons.IH [OF c2(2)] Cons.prems(2 - 4) unfolding same by auto
  have "load_values env [] (map (\<lambda>(sec, p). (sec, p_name p, property_str env p)) (x # ps)) c = (Inr (), c')"
    using c'(1) c2(1) by (simp add: x m(1) a)
  moreover have "find_property sec (p_name p) c' = Inr p" by (rule c'(4)) (use Cons.prems(4) in \<open>auto simp: x c2(5)\<close>)
  moreover have "find_property s n c' = Inr t" if "(s, n) \<notin> (\<lambda>(sec, p). (sec, p_name p)) ` set (x # ps)" "find_property s n c = Inr t" for s n t
    by (rule c'(4)) (use that e(2) in \<open>auto simp: x c2(5) extends_def\<close>)
  ultimately show ?case using c'(2, 3) c2(4) by (intro exI [of _ c'] conjI) (simp_all add: x)
qed simp

lemma sections_distinct: "config_fits env tys c \<Longrightarrow> distinct (map (\<lambda>(sec, p). (sec, p_name p)) (pairs_of (c_sections c)))"
proof (rule pairs_distinct)
  assume f: "config_fits env tys c"
  then show "distinct (map fst (c_sections c))" by (simp add: config_fits_def dict_ok_def)
  have "distinct (map p_name (properties_of s))" if "(n, s) \<in> set (c_sections c)" for n s
  proof -
    have s: "sec_fits env (defs_of c) tys s" using f that by (auto simp: config_fits_def dget_Some_mem)
    then have "item_name i = k" if "(k, i) \<in> set (s_items s)" for k i using that by (force simp: sec_fits_def dget_Some_mem item_name_def)
    then show ?thesis using names_distinct [of "s_items s"] s by (auto simp: properties_of_def sec_fits_def dict_ok_def)
  qed
  then show "\<forall>(n, s) \<in> set (c_sections c). distinct (map p_name (properties_of s))" by blast
qed

lemma data_back:
  assumes "config_fits env tys c"
  shows "flat (filter (\<lambda>(sec, os). sec \<noteq> ''CONFIGURATION'') (config_data env c))
      = map (\<lambda>(sec, p). (sec, p_name p, property_str env p)) (pairs_of (c_sections c))"
    and "dget (config_data env c) ''CONFIGURATION'' = Some [(''version'', int_text (c_version c))]"
proof -
  have n: "n \<noteq> ''CONFIGURATION''" if "(n, s) \<in> set (c_sections c)" for n s
  proof -
    have "dget (c_sections c) n = Some s" using that assms by (simp add: config_fits_def dget_Some_mem)
    then show ?thesis using assms unfolding config_fits_def sec_fits_def section_name_ok_def by blast
  qed
  let ?d = "map (\<lambda>(n, s). (n, map (\<lambda>p. (p_name p, property_str env p)) (properties_of s))) (c_sections c)"
  have "filter (\<lambda>(sec, os). sec \<noteq> ''CONFIGURATION'') ?d = ?d" using n by (force simp: filter_id_conv)
  then show "flat (filter (\<lambda>(sec, os). sec \<noteq> ''CONFIGURATION'') (config_data env c))
      = map (\<lambda>(sec, p). (sec, p_name p, property_str env p)) (pairs_of (c_sections c))"
    by (simp add: config_data_def flat_data)
  have "dget ?d ''CONFIGURATION'' = None" using n by (force simp: dget_def map_of_eq_None_iff)
  then show "dget (config_data env c) ''CONFIGURATION'' = Some [(''version'', int_text (c_version c))]"
    by (simp add: config_data_def dget_append) (simp add: dget_def)
qed

end
