(* ===== verification/Config_Final.thy ===== *)
theory Config_Final
  imports Config_Props
begin

text \<open>
  The properties of the configuration, with a small repository configuration that the witnesses use.
\<close>

section \<open>A repository configuration\<close>

definition repo_env :: pyenv where
  "repo_env = \<lparr>literal_eval = (\<lambda>s. if s = ''[1]'' then Some (PList [PStr ''one'']) else None), py_repr = (\<lambda>v. ''[1]''),
     urlparse = (\<lambda>s. None), is_uuid = (\<lambda>s. False), re_match = (\<lambda>p s. p = s), other_int = (\<lambda>s. None)\<rparr>"

definition repo_defs :: "(int \<times> secdef list) list" where
  "repo_defs = [(4, [DSec \<lparr>s_name = ''repository'', s_items =
      [(''workers'', IProp \<lparr>p_name = ''workers'', p_type = TInt (Some 1) (Some 50), p_value = PInt 2, p_map = []\<rparr>),
       (''check'', IProp \<lparr>p_name = ''check'', p_type = TBool, p_value = PBool True, p_map = []\<rparr>)]\<rparr>])]"

definition repo_parser :: "cpdata parser" where
  "repo_parser = \<lparr>parse_cp = Inr, render_cp = (\<lambda>d. d)\<rparr>"

definition repo_ops :: "cop list" where
  "repo_ops = [SetProperty ''repository'' ''workers'' (PStr ''8''), SetProperty ''repository'' ''workers'' (PStr ''70''),
     SetProperty ''publisher'' ''alias'' (PStr ''x''), RemoveProperty ''repository'' ''check'']"

definition repo_config :: config where
  "repo_config = fst (exec_all repo_env repo_parser repo_ops
     (snd (file_config_init repo_env repo_parser NoConfigFile repo_defs [] None), NoConfigFile))"

lemma repo_defs_ok: "all_defs_ok repo_env repo_defs"
proof -
  have "well_typed repo_env TBool (PBool True)" by (simp add: well_typed_def, rule exI [of _ True], simp)
  then show ?thesis
    by (simp add: all_defs_ok_def repo_defs_def defs_ok_def section_name_ok_def keyed_def items_ok_def item_name_def property_ok_def
        cfg_name_ok_def dict_ok_def code_def) (simp add: well_typed_def)
qed

lemma start_fits: "config_fits env tys (config_new defs version)"
  by (simp add: config_fits_def config_new_def)

lemma started_fits:
  assumes "all_defs_ok env defs" "TProperty \<in> tys" "TList [] \<in> tys \<or> (\<forall>op \<in> set ops. \<not> adds_values op)"
  shows "config_fits env tys (fst (exec_all env ps ops (snd (file_config_init env ps f0 defs over version), f)))
    \<and> c_defs (fst (exec_all env ps ops (snd (file_config_init env ps f0 defs over version), f))) = defs"
proof -
  obtain r c where r: "file_config_init env ps f0 defs over version = (r, c)" by fastforce
  have "config_fits env tys c" "c_defs c = defs"
    using file_reset_fits [OF start_fits _ assms(2) r [unfolded file_config_init_def]] assms(1) by (simp_all add: config_new_def)
  then show ?thesis using exec_all_fits [OF assms(2) _ _ assms(3), of env c ps f] assms(1) by (simp add: r)
qed

lemma int_bound_large: "100 \<le> int_bound"
proof -
  have "(100 :: int) = 10 ^ 2" by simp
  also have "\<dots> \<le> 10 ^ 4300" by (rule power_increasing) simp_all
  finally show ?thesis unfolding int_bound_def .
qed

lemma reset_version:
  "config_reset env over (c\<lparr>c_dirty := b, c_sections := ss\<rparr>) = config_reset env over c"
  by (simp add: config_reset_def defs_of_def)

section \<open>Properties\<close>

text \<open>
  C37. Values have the class of their property.
  Whatever operations are applied to a configuration that was read from a file, the ones that fail
  included, each property that can be found has its own name, a valid name in a valid section, a value that
  its class allows, and the class that the definitions give to a property of that name.
\<close>

theorem config_values_typed:
  assumes "all_defs_ok env defs"
    and "c = fst (exec_all env ps ops (snd (file_config_init env ps f0 defs over version), f))"
    and "find_property sec n c = Inr p"
  shows "p_name p = n \<and> cfg_name_ok n \<and> section_name_ok sec \<and> well_typed env (p_type p) (p_value p)
    \<and> (\<exists>ty d q. ty \<in> {TProperty, TList []} \<and> get_section_def env (defs_of c) sec = Inr d
         \<and> get_property_def env d n ty = Inr q \<and> p_type p = p_type q)"
proof -
  have f: "config_fits env {TProperty, TList []} c" unfolding assms(2) using started_fits [OF assms(1)] by blast
  have p: "p_name p = n" "fits env (defs_of c) {TProperty, TList []} sec p" using find_fits [OF f assms(3)] by blast+
  have "section_name_ok sec" using f assms(3) by (auto simp: config_fits_def sec_fits_def find_property_Inr)
  then show ?thesis using p unfolding fits_def property_ok_def by blast
qed

theorem config_values_typed_witness:
  "well_typed repo_env (TInt (Some 1) (Some 50)) (PInt 8)"
proof -
  have "find_property ''repository'' ''workers'' repo_config
      = Inr \<lparr>p_name = ''workers'', p_type = TInt (Some 1) (Some 50), p_value = PInt 8, p_map = []\<rparr>" by code_simp
  then show ?thesis using config_values_typed [OF repo_defs_ok repo_config_def] by fastforce
qed

text \<open>
  C38. What setting a property changes.
  When the value is refused the configuration is not marked as changed and every property that was there
  keeps its value.  When it is accepted the property has the value that its class makes of it, is the one
  that was there before if there was one, and every other property is as before.
\<close>

theorem set_property_effect:
  assumes "config_fits env tys c" "defs_ok env (defs_of c)" "TProperty \<in> tys" "set_property env sec name v c = (r, c')"
  shows "case r of
      Inl e \<Rightarrow> c_dirty c' = c_dirty c \<and> (\<forall>s n p. find_property s n c = Inr p \<longrightarrow> find_property s n c' = Inr p)
    | Inr _ \<Rightarrow> c_dirty c'
        \<and> (\<exists>p w. new_value env name (p_type p) (mapped (p_map p) v) = Inr w \<and> find_property sec name c' = Inr (p\<lparr>p_value := w\<rparr>)
            \<and> (\<forall>p'. find_property sec name c = Inr p' \<longrightarrow> p = p'))
        \<and> (\<forall>s n p. (s, n) \<noteq> (sec, name) \<longrightarrow> find_property s n c = Inr p \<longrightarrow> find_property s n c' = Inr p)"
proof (cases r)
  case (Inl e)
  then show ?thesis using set_property_fits [OF assms] by (simp add: extends_def)
next
  case (Inr u)
  obtain p q where p: "set_value env p v = Inr q" "p_name p = name" "find_property sec name c' = Inr q"
    "\<forall>p'. find_property sec name c = Inr p' \<longrightarrow> p = p'" "c_dirty c'"
    "\<forall>s n p'. (s, n) \<noteq> (sec, name) \<longrightarrow> find_property s n c = Inr p' \<longrightarrow> find_property s n c' = Inr p'"
    using set_property_fits [OF assms] unfolding Inr sum.case by blast
  obtain w where "new_value env name (p_type p) (mapped (p_map p) v) = Inr w" "q = p\<lparr>p_value := w\<rparr>"
    using p(1, 2) by (auto simp: set_value_def sbind_eq_Inr)
  then show ?thesis using p(3 - 6) unfolding Inr sum.case by blast
qed

theorem set_property_effect_witness:
  "c_dirty (snd (set_property repo_env ''repository'' ''workers'' (PStr ''70'') repo_config)) = c_dirty repo_config"
proof -
  have f: "config_fits repo_env {TProperty, TList []} repo_config" "c_defs repo_config = repo_defs"
    unfolding repo_config_def using started_fits [OF repo_defs_ok] by blast+
  have d: "defs_ok repo_env (defs_of repo_config)" using f(2) repo_defs_ok by (intro defs_of_ok) simp
  obtain r c' where r: "set_property repo_env ''repository'' ''workers'' (PStr ''70'') repo_config = (r, c')" by fastforce
  have "fst (set_property repo_env ''repository'' ''workers'' (PStr ''70'') repo_config) = Inl (InvalidPropertyValueError (Some ''repository'') ''workers'')"
    by code_simp
  then have "r = Inl (InvalidPropertyValueError (Some ''repository'') ''workers'')" by (simp add: r)
  then show ?thesis using set_property_effect [OF f(1) d _ r] by (simp add: r)
qed

text \<open>
  C39. Copies of properties.
  Copying a property gives the same property, whatever its class, its bounds and its allowed values,
  except that an integer property below zero cannot be copied although its bounds allow the value.
\<close>

theorem copy_property_iff:
  assumes "property_ok env p"
  shows "copy_property env p =
    (case (p_type p, p_value p) of
       (TInt lo hi, PInt i) \<Rightarrow> if i < 0 then Inl (InvalidPropertyValueError None (p_name p)) else Inr p
     | _ \<Rightarrow> Inr p)"
proof (cases "copyable p")
  case True
  then show ?thesis using copy_same [OF assms] by (auto simp: copyable_def split: ptype.splits pyval.splits)
next
  case False
  then obtain lo hi i where "p_type p = TInt lo hi" "p_value p = PInt i" "i < 0"
    by (auto simp: copyable_def split: ptype.splits pyval.splits)
  then show ?thesis using assms
    by (simp add: copy_property_def property_init_def property_ok_def bare_type_def new_value_def set_int_def no_value_def bad_value_def)
qed

theorem copy_property_iff_witness:
  "copy_property repo_env \<lparr>p_name = ''depth'', p_type = TInt (Some (-1)) None, p_value = PInt (-1), p_map = []\<rparr>
     = Inl (InvalidPropertyValueError None ''depth'')"
  using copy_property_iff [of repo_env "\<lparr>p_name = ''depth'', p_type = TInt (Some (-1)) None, p_value = PInt (-1), p_map = []\<rparr>"]
  by (simp add: property_ok_def cfg_name_ok_def code_def well_typed_def)

text \<open>
  C40. Reading a configuration that was written.
  Take a configuration after any operations but the adding of values to lists, whose definitions can be
  instantiated, whose values have texts that can be read back, and whose data the parser reads as they
  were rendered.  When it was changed, or there was no file, and it is written, a configuration made from
  that file and the same definitions has the same version and each property of the one that was written,
  with its class and value.
\<close>

theorem config_roundtrip:
  assumes "all_defs_ok env defs" "list_all (\<lambda>op. \<not> adds_values op) ops"
    and "c = fst (exec_all env ps ops (snd (file_config_init env ps f0 defs over v0), f0))"
    and "fst (config_reset env [] c) = Inr ()" "\<bar>c_version c\<bar> < int_bound"
    and "\<forall>sec n p. find_property sec n c = Inr p \<longrightarrow> text_ok env p \<and> p_map p = []"
    and "parse_cp ps (render_cp ps (config_data env c)) = Inr (config_data env c)"
    and "c_dirty c \<or> f = NoConfigFile" "write_config env ps Writable f c = (Inr f', c')"
  shows "\<exists>c2. file_config_init env ps f' defs [] v = (Inr (), c2) \<and> c_version c2 = c_version c
    \<and> (\<forall>sec n p. find_property sec n c = Inr p \<longrightarrow> find_property sec n c2 = Inr p)"
proof -
  have f: "config_fits env {TProperty} c" "c_defs c = defs"
    unfolding assms(3) using started_fits [OF assms(1), of "{TProperty}" ops] assms(2) unfolding list_all_iff by blast+
  have d: "defs_ok env (defs_of c)" using assms(1) f(2) by (intro defs_of_ok) simp
  have written: "f' = FileText (render_cp ps (config_data env c))" using assms(8, 9) by (auto simp: write_config_def split: if_splits)
  define c0 where "c0 = (config_new defs v)\<lparr>c_version := c_version c\<rparr>"
  have version: "file_version (config_data env c) = Some (c_version c)"
    using py_int_text [OF assms(5)] data_back(2) [OF f(1)] by (simp add: file_version_def dget_def)
  have same: "c_defs c0 = c_defs c" "c_version c0 = c_version c" by (simp_all add: c0_def config_new_def f(2))
  have "c0\<lparr>c_dirty := True, c_sections := []\<rparr> = c\<lparr>c_dirty := True, c_sections := []\<rparr>" using same by (cases c0; cases c) simp
  then have "config_reset env [] c0 = config_reset env [] c" using defs_of_same [OF same] by (simp add: config_reset_def)
  then obtain c1 where c1: "config_reset env [] c0 = (Inr (), c1)" using assms(4) by (cases "config_reset env [] c") auto
  have d0: "defs_ok env (defs_of c0)" using d defs_of_same [OF same] by simp
  have e1: "config_fits env {TProperty} c1" "c_defs c1 = c_defs c0" "c_version c1 = c_version c0"
    using reset_fits [OF d0 _ c1, of "{TProperty}"] by simp_all
  have same1: "defs_of c1 = defs_of c" using defs_of_same [OF e1(2, 3)] defs_of_same [OF same] by simp
  have all: "\<forall>(sec, p) \<in> set (pairs_of (c_sections c)). fits env (defs_of c1) {TProperty} sec p \<and> reads_back env p"
  proof clarify
    fix sec p assume "(sec, p) \<in> set (pairs_of (c_sections c))"
    then have p: "find_property sec (p_name p) c = Inr p" using pairs_mem [OF f(1)] by blast
    then have "fits env (defs_of c) {TProperty} sec p" using find_fits [OF f(1)] by blast
    then show "fits env (defs_of c1) {TProperty} sec p \<and> reads_back env p"
      using reads_back_ok assms(6) [rule_format, OF p] unfolding same1 by (auto simp: fits_def)
  qed
  obtain c2 where c2: "load_values env [] (map (\<lambda>(sec, p). (sec, p_name p, property_str env p)) (pairs_of (c_sections c))) c1 = (Inr (), c2)"
    "c_version c2 = c_version c1" "\<forall>(sec, p) \<in> set (pairs_of (c_sections c)). find_property sec (p_name p) c2 = Inr p"
    using load_back [OF e1(1) _ all sections_distinct [OF f(1)]] d unfolding same1 by blast
  have "file_config_init env ps f' defs [] v = (Inr (), c2\<lparr>c_dirty := False\<rparr>)"
    using version c1 c2(1)
    by (simp add: file_config_init_def file_reset_def read_config_def written assms(7) c0_def data_back(1) [OF f(1)])
  moreover have "find_property sec n c2 = Inr p" if p: "find_property sec n c = Inr p" for sec n p
    using c2(3) pairs_mem [OF f(1)] find_fits [OF f(1) p] p by fast
  ultimately show ?thesis using c2(2) e1(3) same(2) by (intro exI [of _ "c2\<lparr>c_dirty := False\<rparr>"]) (simp add: find_property_def)
qed

theorem config_roundtrip_witness:
  "\<exists>c2. file_config_init repo_env repo_parser (FileText (config_data repo_env repo_config)) repo_defs [] None = (Inr (), c2)
     \<and> get_property ''repository'' ''workers'' c2 = Inr (PInt 8)"
proof -
  have f: "config_fits repo_env {TProperty} repo_config"
    unfolding repo_config_def by (rule conjunct1 [OF started_fits [OF repo_defs_ok]]) (simp_all add: repo_ops_def adds_values_def)
  have ps: "map (\<lambda>(sec, p). (p_type p, p_value p, p_map p)) (pairs_of (c_sections repo_config))
      = [(TInt (Some 1) (Some 50), PInt 8, []), (TProperty, PStr ''x'', [])]" by code_simp
  have "text_ok repo_env p \<and> p_map p = []" if p: "find_property sec n repo_config = Inr p" for sec n p
  proof -
    have "(sec, p) \<in> set (pairs_of (c_sections repo_config))" using p pairs_mem [OF f] find_fits [OF f p] by blast
    then have "(p_type p, p_value p, p_map p) \<in> set [(TInt (Some 1) (Some 50), PInt 8, []), (TProperty, PStr ''x'', [])]"
      unfolding ps [symmetric] by force
    then show ?thesis using int_bound_large by (auto simp: text_ok_def)
  qed
  then have t: "\<forall>sec n p. find_property sec n repo_config = Inr p \<longrightarrow> text_ok repo_env p \<and> p_map p = []" by blast
  have r: "fst (config_reset repo_env [] repo_config) = Inr ()" "c_version repo_config = 4" "c_dirty repo_config"
    "dget (c_sections repo_config) ''DEFAULT'' = None" by code_simp+
  have o: "list_all (\<lambda>op. \<not> adds_values op) repo_ops" by (simp add: repo_ops_def adds_values_def)
  have w: "write_config repo_env repo_parser Writable NoConfigFile repo_config
      = (Inr (FileText (config_data repo_env repo_config)), repo_config\<lparr>c_dirty := False\<rparr>)"
    using r(4) by (simp add: write_config_def repo_parser_def)
  have v: "\<bar>c_version repo_config\<bar> < int_bound" using int_bound_large r(2) by simp
  obtain c2 where c2: "file_config_init repo_env repo_parser (FileText (config_data repo_env repo_config)) repo_defs [] None = (Inr (), c2)"
    "\<forall>sec n p. find_property sec n repo_config = Inr p \<longrightarrow> find_property sec n c2 = Inr p"
    using config_roundtrip [OF repo_defs_ok o repo_config_def r(1) v t _ _ w, where v = None] by (auto simp: repo_parser_def)
  have "find_property ''repository'' ''workers'' repo_config
      = Inr \<lparr>p_name = ''workers'', p_type = TInt (Some 1) (Some 50), p_value = PInt 8, p_map = []\<rparr>" by code_simp
  then show ?thesis using c2 by (auto simp: get_property_def)
qed

end
