(* ===== verification/Spec2Isabelle.thy ===== *)
theory Spec2Isabelle
  imports Version_Sortkey Matching_Version Pkg_Fmri Pkg_Variant Pkg_Facet Pkg_Mediator Pkg_FileManager Pkg_Sync Pkg_SigPolicy Solver_Claims Action_Cache_Props Plan_Check_Final Config_Final
begin

text \<open>
  A model of the core of the Image Packaging System, \<open>pkg\<close>, with the theorems that make it
  correct.  The sources are the Python modules under \<open>src/src/modules\<close> and, where Python calls its
  own native code, the C files beside them.

  The program.  A package is named by an FMRI (\<open>fmri.py\<close>), which carries a version (\<open>version.py\<close>).
  Its manifest is a list of actions (\<open>actions/\<close>), each a line of text with attributes; variants,
  facets and mediators decide which actions an image gets (\<open>variant.py\<close>, \<open>facet.py\<close>, \<open>mediator.py\<close>).
  A repository keeps the contents of files by their hash (\<open>file_layout/\<close>) and a catalog of its
  packages (\<open>catalog.py\<close>) that clients copy and bring up to date from logs.  From the packages of
  its catalogs, those installed and what is asked for, the solver plans which packages an image gets
  (\<open>client/pkg_solver.py\<close>); before the plan is carried out, the actions of the planned packages are
  checked for conflicts with those that stay (\<open>client/imageplan.py\<close>), which a cache of the installed
  actions holds (\<open>client/actioncache.py\<close>).  Images, repositories and the depot keep their settings in
  configuration files (\<open>config.py\<close>).  Signature actions and the
  policies of an image decide whether a manifest is trusted (\<open>client/sigpolicy.py\<close>,
  \<open>client/publisher.py\<close>).

  The theories, in the order in which they rest on each other:

  \<open>Pkg_Prelude\<close>, \<open>Pkg_Dict\<close>: exceptions as values of a sum type, Python's string operations, orders
  given by a sort key (locale \<open>keyed_order\<close>), dictionaries with their order of insertion (locale
  \<open>pymap\<close>).

  \<open>Pkg_Version\<close>, \<open>Version_Sortkey\<close>, \<open>Matching_Version\<close>: \<open>DotSequence\<close>, \<open>Version\<close>, the native sort key,
  and the version patterns of \<open>version.py\<close>.  Comparisons are those of one total order, printing and
  parsing are inverse, the sort key orders as the versions do.

  \<open>Pkg_Glob\<close>, \<open>Pkg_Fmri\<close>: shell patterns and \<open>PkgFmri\<close>: parsing, printing, comparison, matching.

  \<open>Pkg_Variant\<close>, \<open>Pkg_Facet\<close>, \<open>Pkg_Mediator\<close>: the combinations of variants and their
  simplification, which ends and keeps its meaning; facets with inherited, local and masked values;
  the order of mediations.

  \<open>Pkg_FileManager\<close>: the file manager and its layouts as a store of contents by hash, over a map
  from paths to contents.

  \<open>Pkg_CatalogPart\<close>, \<open>Pkg_Catalog\<close>, \<open>Pkg_Timestamp\<close>: one part of a catalog as a finite map; the
  catalog of several parts with its logs, the decision what a client needs, the replay of a log;
  the printed forms of a time.

  \<open>Pkg_Replay\<close>, \<open>Pkg_Server\<close>, \<open>Pkg_Sync\<close>: the composition of these.  A server catalog serves
  additions and removals; a client whose parts are copies of an earlier state decides with
  \<open>get_updates_needed\<close> what it lacks and replays the logs.  The content of a part is a map, the
  server's history a trace of updates, and the logs hold the trace cut by hour and locale; as
  operations on different packages commute and the logs keep the order for each package, the replay
  gives the server's content.  What the proof needs of the clock is the locale \<open>update_clock\<close>,
  interpreted on the code's clock in \<open>Pkg_Timestamp\<close>.

  \<open>Pkg_Action\<close>, \<open>Pkg_ActionParse\<close>: the attributes and constructors of actions, their printed form,
  the parser of \<open>_actions.c\<close> as a state machine, and their round trip.

  \<open>Pkg_CertChain\<close>, \<open>Pkg_SigPolicy\<close>: the verification of a certificate chain (extensions, path
  lengths, revocation lists, required names), the verification of a signature, and the policies,
  which form a semilattice (an interpretation of the library's \<open>semilattice_neutr\<close>).

  \<open>Pkg_Monad\<close>: computations with state and exceptions, their postconditions (\<open>yields\<close>) and the
  relations they move along (locale \<open>growth\<close>, interpreted for three such relations).

  \<open>Solver_State\<close>, \<open>Solver_Depend\<close>, \<open>Solver_Trim\<close>, \<open>Solver_Clauses\<close>, \<open>Solver_Plan\<close>: the dependency
  solver as the code has it.  The record \<open>senv\<close> holds what it is given, \<open>sstate\<close> the attributes of
  \<open>PkgSolver\<close> that change.  \<open>Solver_Plan\<close> has \<open>solve_install\<close>, \<open>solve_update_all\<close> and
  \<open>solve_uninstall\<close>, phase by phase: what is removed and required, the candidates, the trimming, the
  clauses, the searches for the newest and the least disturbing solution, and the result.

  \<open>Solver_Settled\<close> to \<open>Solver_Claims\<close>: what the solver computes.  The phases before the clauses lead to
  a settled state, in which looking up packages changes nothing but caches (\<open>Solver_Settled\<close>,
  \<open>Solver_Setup\<close>).  There a dependency means a condition on the chosen packages (\<open>Solver_Needs\<close>), each
  kind of clause says such a condition (\<open>Solver_Meaning\<close>), all clauses together say that the choice is
  consistent and does what was asked, and a search returns a best choice it found (\<open>Solver_Search\<close>).
  \<open>Solver_Result\<close> follows it to the plan that is returned, \<open>Solver_Closure\<close> shows that the closure of
  the dependencies ends, and \<open>Solver_Claims\<close> states the properties and applies them to a small image.

  \<open>Action_Class\<close>, \<open>Plan_Conflict\<close>: what the classes of actions say about conflicts, their comparison, and
  the three checks on the actions that several packages deliver to one name.

  \<open>Action_Cache\<close> to \<open>Action_Cache_Props\<close>: the cache of installed actions.  The record \<open>adb\<close> has the
  tables of its database, each operation the meaning of its statements.  Under \<open>image_ok\<close> (manifests
  that can be read, one FMRI for each package, and \<open>orderly\<close>, the transitivity of the comparison of
  attributes, which links of one mediation can break) an update leaves what a rebuilding would, and the
  table of conflicts holds exactly the names whose actions conflict.

  \<open>Plan_Check\<close> to \<open>Plan_Check_Final\<close>: the search for conflicts in a plan.  \<open>pplan\<close> is a package plan,
  \<open>plan_state\<close> what the search changes of an image plan.  A conflict is raised only when the planned image
  has one.  An accepted plan for an image without conflicts (\<open>quiet_before\<close>) leads to an image without
  conflicts when the cache is in order (\<open>tidy_cache\<close>), no link has a mediator (\<open>plain_plan\<close>) and no name
  changes its type (\<open>steady_types\<close>); \<open>plan_check_misses\<close> shows that the last two are needed.  What an
  image holds is there what the cache and the manifests of the plan deliver; directories that unchanged
  packages need implicitly are in neither.

  \<open>Config_Values\<close>, \<open>Config_Store\<close>: the classes of properties with their setters, copies and texts, and
  \<open>Config\<close> and \<open>FileConfig\<close> with templates, sections and files.  Operations return their result or
  exception with the configuration after it.  \<open>Config_Facts\<close> and \<open>Config_Run\<close> prove the invariant
  \<open>config_fits\<close> for every operation, the failing ones included, \<open>Config_Props\<close> the reading of what was
  written, and \<open>Config_Final\<close> has the properties on a small repository configuration.

  Fuel.  The verification of a chain calls itself for the issuers of revocation lists and its loop
  may run for ever, so its result is \<open>None\<close> when the fuel does not suffice.
  \<open>chain_verification_ends\<close> gives a sufficient amount where path lengths are limited, and an input
  on which no amount suffices.  In the solver the closure of the dependencies has the rounds
  \<open>closure_fuel\<close>, the packages asked for and those of the catalog, which is enough
  (\<open>dependency_closure_ends\<close>); the descent to older incorporated packages stops at depth ten and the
  searches at 2000 iterations as in the code.  The trimming along incorporations
  (\<open>trim_recursive_incorps\<close>) has the budget \<open>i_budget\<close>, an argument: when it is used up the result is
  the error \<open>OutOfFuel\<close>, never a plan.  Every other function is total; the loop that simplifies
  variants has a termination proof.

  Integers are unbounded as in Python; strings are lists of characters, taken one for one; a set
  whose order the code does not see is a HOL set, a dictionary whose order it sees is an association
  list.  In the solver a set of packages is a list without repetitions whose order stands for the
  order in which Python enumerates it, which the code leaves open; packages are compared as
  \<open>PkgFmri.__eq__\<close> does.

  Parameters.  The native and third-party libraries are arguments of the definitions that use them:
  digests, keys and X.509 signatures, the retrieval of certificates and revocation lists, and the SAT
  solver (\<open>msat\<close>) with its documented promise \<open>msat_ok\<close>, which a solver that tries all assignments
  meets (\<open>brute\<close>).  The configuration takes Python's literals, URLs, UUIDs and regular expressions as the
  record \<open>pyenv\<close> and the text format of \<open>ConfigParser\<close> as the record \<open>parser\<close>; that a text it rendered
  parses to the same data is a hypothesis of \<open>config_roundtrip\<close>.  \<open>report\<close> says whether the solver's report on installed packages that cannot be
  kept has anything to say, which decides whether \<open>__assert_installed_allowed\<close> raises.

  Not modelled.  The files of catalogs, their locks, digests and signatures; regular expressions in
  the matching of FMRIs; pools of shared objects and the printing of objects for debugging; in-memory
  aliasing of the entries of a catalog and its logs; the texts of the solver's errors and the trimming
  that only serves them; payloads of actions and their installation; the connections and files of the
  cache of actions; byte strings, shared values and SMF in the configuration; the image and the
  execution of a plan, the repository and depot servers, transport, publication tools, lint, search, linked images,
  boot environments and user interfaces, which the manifest of the development lists one by one.
\<close>

end
